(* ===== verification/Prelude.thy ===== *)
theory Prelude
  imports Main "HOL-Library.Word" "HOL-Library.Monad_Syntax"
begin

text \<open>
  Shared vocabulary of the development: the machine types of the C code, byte blocks with bounds
  (an access outside a block is \<open>None\<close>, the model's value for undefined behaviour), the
  network-byte-order readers of \<open>common.c\<close>, and the generic lemmas the component theories use.
\<close>

section \<open>Machine types\<close>

type_synonym u8 = "8 word"
type_synonym u16 = "16 word"
type_synonym u32 = "32 word"
type_synonym u64 = "64 word"
type_synonym i64 = "64 word"
type_synonym bytes = "8 word list"

text \<open>The bytes of a text.\<close>

definition ascii :: "string \<Rightarrow> bytes" where
  "ascii s = map of_char s"

text \<open>A four-character code.\<close>

unbundle bit_operations_syntax

definition four_cc :: "string \<Rightarrow> u32" where
  "four_cc s = foldl (\<lambda>n c. push_bit 8 n OR ucast (of_char c :: u8)) 0 s"

text \<open>An \<open>int\<close>, or \<open>None\<close> where its arithmetic overflows.\<close>

definition i32_of :: "int \<Rightarrow> int option" where
  "i32_of x = (if - (2 ^ 31) \<le> x \<and> x < 2 ^ 31 then Some x else None)"

text \<open>\<open>%d\<close>\<close>

function nat_decimal :: "nat \<Rightarrow> string" where
  "nat_decimal n = (if n < 10 then [char_of (48 + n)] else nat_decimal (n div 10) @ [char_of (48 + n mod 10)])"
  by pat_completeness auto
termination by (relation "measure id") auto

declare nat_decimal.simps [simp del]

definition decimal :: "int \<Rightarrow> string" where
  "decimal n = (if n < 0 then ''-'' @ nat_decimal (nat (- n)) else nat_decimal (nat n))"

named_theorems block_simps \<open>reading and writing bounded byte blocks\<close>
named_theorems result_elims \<open>inversion of successful steps\<close>

section \<open>Bounded blocks\<close>

text \<open>
  A C block is a list; \<open>rd\<close> reads one cell, \<open>rd_block\<close> reads \<open>n\<close> cells (the source of a
  \<open>memcpy\<close>) and \<open>wr_block\<close> overwrites cells (its destination). Each is \<open>None\<close> where the C access
  would leave the block.
\<close>

definition rd :: "'a list \<Rightarrow> nat \<Rightarrow> 'a option" where
  "rd xs i = (if i < length xs then Some (xs ! i) else None)"

definition wr :: "'a list \<Rightarrow> nat \<Rightarrow> 'a \<Rightarrow> 'a list option" where
  "wr xs i v = (if i < length xs then Some (xs[i := v]) else None)"

definition rd_block :: "'a list \<Rightarrow> nat \<Rightarrow> nat \<Rightarrow> 'a list option" where
  "rd_block xs i n = (if i + n \<le> length xs then Some (take n (drop i xs)) else None)"

definition wr_block :: "'a list \<Rightarrow> nat \<Rightarrow> 'a list \<Rightarrow> 'a list option" where
  "wr_block xs i ys =
     (if i + length ys \<le> length xs
      then Some (take i xs @ ys @ drop (i + length ys) xs) else None)"

lemma rd_lt [block_simps]: "i < length xs \<Longrightarrow> rd xs i = Some (xs ! i)"
  by (simp add: rd_def)

lemma rd_ge [block_simps]: "length xs \<le> i \<Longrightarrow> rd xs i = None"
  by (simp add: rd_def)

lemma rd_append_left [block_simps]: "i < length xs \<Longrightarrow> rd (xs @ ys) i = Some (xs ! i)"
  by (simp add: rd_def nth_append)

lemma rd_append_at [simp]: "rd (xs @ y # ys) (length xs) = Some y"
  by (simp add: rd_def)

lemma rd_append_at_Suc [simp]: "rd (xs @ y # z # ys) (Suc (length xs)) = Some z"
  by (simp add: rd_def nth_append)

lemma rd_block_mid [simp]:
  "n = length ys \<Longrightarrow> rd_block (xs @ ys @ zs) (length xs) n = Some ys"
  by (simp add: rd_block_def)

lemma rd_block_length: "rd_block xs i n = Some ys \<Longrightarrow> length ys = n"
  by (auto simp: rd_block_def split: if_splits)

lemma wr_block_length: "wr_block xs i ys = Some zs \<Longrightarrow> length zs = length xs"
  by (auto simp: wr_block_def split: if_splits)

lemma wr_length: "wr xs i v = Some ys \<Longrightarrow> length ys = length xs"
  by (auto simp: wr_def split: if_splits)

lemma rd_wr_block:
  "wr_block xs i ys = Some zs \<Longrightarrow> rd_block zs i (length ys) = Some ys"
  by (auto simp: wr_block_def rd_block_def split: if_splits)

section \<open>Counted loops that may fail\<close>

text \<open>\<open>for_loop i n body s\<close>: the C loop that runs \<open>body\<close> at \<open>i, i + 1, \<dots>, i + n - 1\<close>.\<close>

fun for_loop :: "nat \<Rightarrow> nat \<Rightarrow> (nat \<Rightarrow> 's \<Rightarrow> 's option) \<Rightarrow> 's \<Rightarrow> 's option" where
  "for_loop i 0 body s = Some s"
| "for_loop i (Suc n) body s =
     (case body i s of None \<Rightarrow> None | Some s' \<Rightarrow> for_loop (Suc i) n body s')"

lemma for_loop_invariant:
  assumes "for_loop i n body s = Some t" and "P s"
    and "\<And>j s s'. i \<le> j \<Longrightarrow> j < i + n \<Longrightarrow> P s \<Longrightarrow> body j s = Some s' \<Longrightarrow> P s'"
  shows "P t"
  using assms
proof (induction n arbitrary: i s)
  case (Suc n)
  from Suc.prems(1) obtain s' where s': "body i s = Some s'" "for_loop (Suc i) n body s' = Some t"
    by (auto split: option.splits)
  have "P s'" using Suc.prems(3) [OF _ _ Suc.prems(2) s'(1)] by simp
  from Suc.IH [OF s'(2) this] Suc.prems(3) show ?case by (metis Suc_leD add_Suc_shift)
qed simp

lemma for_loop_fails_at:
  assumes "i \<le> k" and "k < i + n" and "P s"
    and "\<And>j s s'. P s \<Longrightarrow> body j s = Some s' \<Longrightarrow> P s'" and "\<And>s. P s \<Longrightarrow> body k s = None"
  shows "for_loop i n body s = None"
  using assms(1-3)
proof (induction n arbitrary: i s)
  case (Suc n)
  show ?case
  proof (cases "i = k")
    case True
    with assms(5) Suc.prems(3) show ?thesis by simp
  next
    case False
    with Suc.prems have "Suc i \<le> k" "k < Suc i + n" by auto
    then show ?thesis
      using Suc.IH assms(4) Suc.prems(3) by (auto split: option.splits)
  qed
qed simp

section \<open>Network byte order (\<open>common.c\<close>)\<close>

text \<open>
  \<open>nctohs\<close>, \<open>nctohl\<close> and \<open>nctoh64\<close> copy 2, 4 or 8 bytes out of a packet and read them as a
  big-endian number; the copy makes the bound of the packet explicit.
\<close>

definition nctohs :: "bytes \<Rightarrow> nat \<Rightarrow> u16 option" where
  "nctohs p i =
     (case rd_block p i 2 of
        Some [b0, b1] \<Rightarrow> Some (push_bit 8 (ucast b0) + ucast b1)
      | _ \<Rightarrow> None)"

definition nctohl :: "bytes \<Rightarrow> nat \<Rightarrow> u32 option" where
  "nctohl p i =
     (case rd_block p i 4 of
        Some [b0, b1, b2, b3] \<Rightarrow>
          Some (push_bit 24 (ucast b0) + push_bit 16 (ucast b1) + push_bit 8 (ucast b2) + ucast b3)
      | _ \<Rightarrow> None)"

definition nctoh64 :: "bytes \<Rightarrow> nat \<Rightarrow> u64 option" where
  "nctoh64 p i =
     do { landing \<leftarrow> nctohl p i;
          let vl = (ucast landing :: u64);
          let vl = push_bit 32 vl;
          landing \<leftarrow> nctohl p (i + 4);
          let ul = (ucast landing :: u64);
          Some (vl + ul) }"

text \<open>\<open>htons\<close> stored into a packet: the two bytes, high byte first.\<close>

definition htons_bytes :: "u16 \<Rightarrow> bytes" where
  "htons_bytes v = [ucast (drop_bit 8 v), ucast v]"

definition htonl_bytes :: "u32 \<Rightarrow> bytes" where
  "htonl_bytes v = [ucast (drop_bit 24 v), ucast (drop_bit 16 v), ucast (drop_bit 8 v), ucast v]"

lemma length_htons_bytes [simp]: "length (htons_bytes v) = 2"
  by (simp add: htons_bytes_def)

lemma length_htonl_bytes [simp]: "length (htonl_bytes v) = 4"
  by (simp add: htonl_bytes_def)

lemma two_byte_join: "push_bit 8 (ucast (ucast (drop_bit 8 v) :: u8)) + ucast (ucast v :: u8) = (v :: u16)"
  by (rule bit_word_eqI, subst disjunctive_add)
     (auto simp: bit_simps disjunctive_add)

text \<open>What was written is read back, wherever it stands.\<close>

unbundle bit_operations_syntax

lemma nctohs_at:
  assumes "i = length pre"
  shows "nctohs (pre @ htons_bytes v @ rest) i = Some v"
  using two_byte_join [of v] assms by (simp add: nctohs_def htons_bytes_def rd_block_def numeral_2_eq_2)

lemma four_byte_join:
  "push_bit 24 (ucast (ucast (drop_bit 24 v) :: u8)) + push_bit 16 (ucast (ucast (drop_bit 16 v) :: u8)) +
   push_bit 8 (ucast (ucast (drop_bit 8 v) :: u8)) + ucast (ucast v :: u8) = (v :: u32)" (is "?a + ?b + ?c + ?d = v")
proof -
  have "?a + ?b = ?a OR ?b" by (rule disjunctive_add) (auto simp: bit_simps)
  moreover have "(?a OR ?b) + ?c = ?a OR ?b OR ?c" by (subst disjunctive_add) (auto simp: bit_simps or.assoc)
  moreover have "(?a OR ?b OR ?c) + ?d = ?a OR ?b OR ?c OR ?d"
    by (subst disjunctive_add) (auto simp: bit_simps or.assoc)
  moreover have "?a OR ?b OR ?c OR ?d = v"
  proof (rule bit_word_eqI)
    fix n assume "n < LENGTH(32)"
    then show "bit (?a OR ?b OR ?c OR ?d) n = bit v n"
      by (cases "n < 8"; cases "n < 16"; cases "n < 24") (auto simp: bit_simps)
  qed
  ultimately show ?thesis by simp
qed

lemma nctohl_at:
  assumes "i = length pre"
  shows "nctohl (pre @ htonl_bytes v @ rest) i = Some v"
  using four_byte_join [of v] assms by (simp add: nctohl_def htonl_bytes_def rd_block_def numeral_eq_Suc)

lemma sint_small:
  assumes "unat (w :: 'a::len word) < 2 ^ (LENGTH('a) - 1)"
  shows "sint w = int (unat w)"
proof -
  have "int (unat w) < int (2 ^ (LENGTH('a) - 1))" using assms by (simp only: of_nat_less_iff)
  moreover have "- (2 ^ (LENGTH('a) - 1)) \<le> int (unat w)"
    by (rule order_trans [of _ 0]) simp_all
  ultimately have "signed_take_bit (LENGTH('a) - 1) (int (unat w)) = int (unat w)"
    by (intro signed_take_bit_int_eq_self) simp_all
  then show ?thesis by (simp only: sint_uint uint_nat One_nat_def)
qed

lemma sint_large:
  assumes "2 ^ (LENGTH('a) - 1) \<le> unat (w :: 'a::len word)"
  shows "sint w = int (unat w) - 2 ^ LENGTH('a)"
proof -
  define n where "n = LENGTH('a) - 1"
  have len: "LENGTH('a) = Suc n" by (simp add: n_def)
  have lt: "unat w < 2 ^ Suc n" unfolding len [symmetric] by (rule unsigned_less)
  have ge: "2 ^ n \<le> unat w" using assms by (simp add: n_def)
  have k: "2 ^ n \<le> int (unat w)" "int (unat w) < 2 ^ Suc n"
    using lt ge by (metis of_nat_le_iff of_nat_numeral of_nat_power,
                    metis of_nat_less_iff of_nat_numeral of_nat_power)
  have "take_bit (Suc n) (int (unat w) + 2 ^ n) = int (unat w) - 2 ^ n"
  proof -
    have "int (unat w) + 2 ^ n = (int (unat w) - 2 ^ n) + 2 ^ Suc n" by simp
    then have "take_bit (Suc n) (int (unat w) + 2 ^ n) = (int (unat w) - 2 ^ n) mod 2 ^ Suc n"
      by (simp only: take_bit_eq_mod mod_add_self2)
    then show ?thesis using k by (simp add: mod_pos_pos_trivial)
  qed
  then have "signed_take_bit n (int (unat w)) = int (unat w) - 2 ^ Suc n"
    by (simp only: signed_take_bit_eq_take_bit_shift) simp
  then show ?thesis by (simp only: sint_uint uint_nat len diff_Suc_Suc diff_zero One_nat_def)
qed

text \<open>The signed reading of a 32-bit word, by its unsigned one.\<close>

lemma sint_u32: "sint (x :: u32) = (if uint x < 2147483648 then uint x else uint x - 4294967296)"
proof -
  define k where "k = unat x"
  have u: "uint x = int k" by (simp add: k_def)
  show ?thesis using sint_small [of x] sint_large [of x] unfolding u k_def [symmetric] by auto
qed

lemma uint_u32: "0 \<le> uint (x :: u32)" "uint (x :: u32) < 4294967296"
  using unsigned_less [of x, where ?'a = int] by simp_all

lemma uint_minus_u32: "uint (a - b :: u32) = (if uint b \<le> uint a then uint a - uint b
    else uint a - uint b + 4294967296)"
  using uint_u32 [of a] uint_u32 [of b] by (simp add: uint_sub_if_size word_size)

section \<open>Codecs\<close>

text \<open>
  The contract of a writer and its reader: on the values the writer is meant for, the reader
  returns what was written.
\<close>

locale codec =
  fixes encode :: "'a \<Rightarrow> 'c list"
    and decode :: "'c list \<Rightarrow> 'a option"
    and valid :: "'a \<Rightarrow> bool"
  assumes decode_encode: "valid x \<Longrightarrow> decode (encode x) = Some x"
begin

lemma encode_inj: "valid x \<Longrightarrow> valid y \<Longrightarrow> encode x = encode y \<Longrightarrow> x = y"
  by (metis decode_encode option.inject)

lemma decode_only: "valid x \<Longrightarrow> decode bs = Some y \<Longrightarrow> bs = encode x \<Longrightarrow> y = x"
  by (simp add: decode_encode)

end

end
