(* ===== verification/Pair_Tlv.thy ===== *)
theory Pair_Tlv
  imports Prelude
begin

text \<open>
  The type-length-value codec of the pairing protocol, \<open>src/src/pair_ap/pair-tlv.c\<close>: the value
  list, its lookup, the writer \<open>pair_tlv_format\<close> and the reader \<open>pair_tlv_parse\<close>. The linked list
  is the list of its nodes in order. Allocation is the predicate \<open>mem\<close>: whether \<open>malloc\<close> of so
  many bytes succeeds. Reading outside the input buffer is the outcome \<open>Tlv_overread\<close>, and a parse
  that never returns is \<open>None\<close>.
\<close>

section \<open>Values\<close>

record pair_tlv =
  tlv_type :: u8
  tlv_value :: bytes   \<comment> \<open>\<open>value\<close> and \<open>size\<close>: the size is the length, an empty value is the null pointer\<close>

type_synonym pair_tlv_values = "pair_tlv list"

datatype tlv_error = PAIR_TLV_ERROR_MEMORY | PAIR_TLV_ERROR_INSUFFICIENT_SIZE

definition sizeof_tlv :: nat where
  "sizeof_tlv = 32"

text \<open>\<open>tlv_add_value_\<close> (here \<open>tlv_add_value0\<close>) allocates a node and walks to the end of the list to append it.\<close>

fun tlv_append_node :: "pair_tlv_values \<Rightarrow> pair_tlv \<Rightarrow> pair_tlv_values" where
  "tlv_append_node [] n = [n]"
| "tlv_append_node (t # ts) n = t # tlv_append_node ts n"

definition tlv_add_value0 ::
    "(nat \<Rightarrow> bool) \<Rightarrow> pair_tlv_values \<Rightarrow> u8 \<Rightarrow> bytes \<Rightarrow> tlv_error + pair_tlv_values" where
  "tlv_add_value0 mem vs ty val =
     (if \<not> mem sizeof_tlv then Inl PAIR_TLV_ERROR_MEMORY
      else Inr (tlv_append_node vs \<lparr>tlv_type = ty, tlv_value = val\<rparr>))"

definition pair_tlv_new :: pair_tlv_values where
  "pair_tlv_new = []"

definition pair_tlv_add_value ::
    "(nat \<Rightarrow> bool) \<Rightarrow> pair_tlv_values \<Rightarrow> u8 \<Rightarrow> bytes \<Rightarrow> tlv_error + pair_tlv_values" where
  "pair_tlv_add_value mem vs ty val =
     (if val \<noteq> [] \<and> \<not> mem (length val) then Inl PAIR_TLV_ERROR_MEMORY
      else tlv_add_value0 mem vs ty val)"

fun pair_tlv_get_value :: "pair_tlv_values \<Rightarrow> u8 \<Rightarrow> pair_tlv option" where
  "pair_tlv_get_value [] ty = None"
| "pair_tlv_get_value (t # ts) ty =
     (if tlv_type t = ty then Some t else pair_tlv_get_value ts ty)"

section \<open>Writing\<close>

fun tlv_required_size :: "pair_tlv_values \<Rightarrow> nat" where
  "tlv_required_size [] = 0"
| "tlv_required_size (t # ts) =
     length (tlv_value t) + 2 * ((length (tlv_value t) + 254) div 255) + tlv_required_size ts"

text \<open>The inner loop: chunks of at most 255 bytes, each with its own type and length byte.\<close>

function tlv_chunks :: "u8 \<Rightarrow> bytes \<Rightarrow> bytes" where
  "tlv_chunks ty data =
     (if data = [] then []
      else let chunk_size = (if length data > 255 then 255 else length data)
           in ty # of_nat chunk_size # take chunk_size data @ tlv_chunks ty (drop chunk_size data))"
  by pat_completeness auto
termination
  by (relation "measure (\<lambda>(ty, data). length data)") auto

declare tlv_chunks.simps [simp del]

fun tlv_format_items :: "pair_tlv_values \<Rightarrow> bytes" where
  "tlv_format_items [] = []"
| "tlv_format_items (t # ts) =
     (if tlv_value t = [] then [tlv_type t, 0] else tlv_chunks (tlv_type t) (tlv_value t))
     @ tlv_format_items ts"

text \<open>
  \<open>pair_tlv_format\<close> is given a buffer and its size. The result is the size it stores back and, on
  success, the bytes it writes at the start of the buffer, whatever the size of the buffer was.
\<close>

definition pair_tlv_format :: "pair_tlv_values \<Rightarrow> nat \<Rightarrow> nat \<times> (tlv_error + bytes)" where
  "pair_tlv_format vs sz =
     (if sz < tlv_required_size vs
      then (tlv_required_size vs, Inl PAIR_TLV_ERROR_INSUFFICIENT_SIZE)
      else (tlv_required_size vs, Inr (tlv_format_items vs)))"

section \<open>Reading\<close>

datatype tlv_outcome =
    Tlv_ok pair_tlv_values
  | Tlv_error tlv_error pair_tlv_values
  | Tlv_overread   \<comment> \<open>undefined behaviour: a read past the buffer or a write past an allocation\<close>

text \<open>
  The scan ahead: full chunks of the same type are counted up, then the first shorter one. The
  short-circuit order of the C condition is kept: the length byte is only read behind a matching
  type byte.
\<close>

function tlv_scan :: "bytes \<Rightarrow> u8 \<Rightarrow> nat \<Rightarrow> nat \<Rightarrow> nat option" where
  "tlv_scan buffer ty j sz =
     (if j < length buffer \<and> buffer ! j = ty
      then (case rd buffer (j + 1) of
              None \<Rightarrow> None
            | Some len \<Rightarrow>
                if len = 255 then tlv_scan buffer ty (j + (255 + 2)) (sz + 255)
                else Some (sz + unat len))
      else Some sz)"
  by pat_completeness auto
termination
  by (relation "measure (\<lambda>(buffer, ty, j, sz). length buffer - j)") auto

declare tlv_scan.simps [simp del]

text \<open>The copy loop: \<open>remaining\<close> is the room left in the block that was allocated.\<close>

function tlv_gather :: "bytes \<Rightarrow> nat \<Rightarrow> nat \<Rightarrow> bytes \<Rightarrow> (nat \<times> bytes) option" where
  "tlv_gather buffer i remaining acc =
     (if remaining = 0 then Some (i, acc)
      else (case rd buffer (i + 1) of
              None \<Rightarrow> None
            | Some len \<Rightarrow>
                if unat len > remaining then None
                else (case rd_block buffer (i + 2) (unat len) of
                        None \<Rightarrow> None
                      | Some chunk \<Rightarrow>
                          tlv_gather buffer (i + (unat len + 2)) (remaining - unat len) (acc @ chunk))))"
  by pat_completeness auto
termination
  by (relation "measure (\<lambda>(buffer, i, remaining, acc). length buffer - i)")
     (auto simp: rd_def split: if_splits)

declare tlv_gather.simps [simp del]

text \<open>The outer loop. The index only moves in the copy loop.\<close>

partial_function (option) tlv_parse_loop ::
    "(nat \<Rightarrow> bool) \<Rightarrow> bytes \<Rightarrow> nat \<Rightarrow> pair_tlv_values \<Rightarrow> tlv_outcome option" where
  "tlv_parse_loop mem buffer i vs =
     (if i < length buffer
      then (case tlv_scan buffer (buffer ! i) i 0 of
              None \<Rightarrow> Some Tlv_overread
            | Some sz \<Rightarrow>
                if sz \<noteq> 0 \<and> \<not> mem sz then Some (Tlv_error PAIR_TLV_ERROR_MEMORY vs)
                else (case tlv_gather buffer i sz [] of
                        None \<Rightarrow> Some Tlv_overread
                      | Some (i', data) \<Rightarrow>
                          (case tlv_add_value0 mem vs (buffer ! i) data of
                             Inl e \<Rightarrow> Some (Tlv_error e vs)
                           | Inr vs' \<Rightarrow> tlv_parse_loop mem buffer i' vs')))
      else Some (Tlv_ok vs))"

definition pair_tlv_parse :: "(nat \<Rightarrow> bool) \<Rightarrow> bytes \<Rightarrow> pair_tlv_values \<Rightarrow> tlv_outcome option" where
  "pair_tlv_parse mem buffer vs = tlv_parse_loop mem buffer 0 vs"

section \<open>Lemmas\<close>

subsection \<open>The list\<close>

lemma tlv_append_node_eq [simp]: "tlv_append_node vs n = vs @ [n]"
  by (induction vs) auto

lemma pair_tlv_get_value_append:
  "pair_tlv_get_value (vs @ [n]) ty =
     (case pair_tlv_get_value vs ty of
        Some t \<Rightarrow> Some t
      | None \<Rightarrow> if tlv_type n = ty then Some n else None)"
  by (induction vs) auto

subsection \<open>The chunks of one value\<close>

lemma tlv_chunks_Nil [simp]: "tlv_chunks ty [] = []"
  by (simp add: tlv_chunks.simps)

lemma tlv_chunks_short:
  "data \<noteq> [] \<Longrightarrow> length data \<le> 255 \<Longrightarrow> tlv_chunks ty data = ty # of_nat (length data) # data"
  by (subst tlv_chunks.simps) (simp add: Let_def)

lemma tlv_chunks_long:
  "255 < length data \<Longrightarrow>
   tlv_chunks ty data = ty # 255 # take 255 data @ tlv_chunks ty (drop 255 data)"
  by (subst tlv_chunks.simps) auto

lemma unat_of_nat_u8 [simp]: "n \<le> 255 \<Longrightarrow> unat (of_nat n :: u8) = n"
  by (simp add: unat_of_nat)

lemma of_nat_u8_eq_255 [simp]: "n \<le> 255 \<Longrightarrow> (of_nat n :: u8) = 255 \<longleftrightarrow> n = 255"
  by (metis of_nat_numeral unat_of_nat_u8 order_refl)

lemma length_tlv_chunks: "length (tlv_chunks ty data) = length data + 2 * ((length data + 254) div 255)"
proof (induction "length data" arbitrary: data rule: less_induct)
  case less
  consider "data = []" | "data \<noteq> []" "length data \<le> 255" | "255 < length data"
    by fastforce
  then show ?case
  proof cases
    case 1
    then show ?thesis by simp
  next
    case 2
    then have "0 < length data" by simp
    with 2 have "(length data + 254) div 255 = 1" by linarith
    with 2 show ?thesis by (simp add: tlv_chunks_short)
  next
    case 3
    then have "(length data + 254) div 255 = Suc ((length data - 255 + 254) div 255)" by linarith
    moreover from 3 have "length (drop 255 data) < length data" by simp
    note less [OF this]
    ultimately show ?thesis using 3 by (simp add: tlv_chunks_long)
  qed
qed

lemma length_tlv_format_items_le: "length (tlv_format_items vs) \<le> tlv_required_size vs + 2 * length vs"
  by (induction vs) (auto simp: length_tlv_chunks)

text \<open>
  What may follow a value so that the scan stops at its end: nothing of its own type, or a last
  chunk of its own that is shorter than 255 bytes.
\<close>

definition tlv_sep :: "u8 \<Rightarrow> bytes \<Rightarrow> bytes \<Rightarrow> bool" where
  "tlv_sep ty data rest \<longleftrightarrow> length data mod 255 \<noteq> 0 \<or> rest = [] \<or> hd rest \<noteq> ty"

lemma tlv_scan_stop:
  "rest = [] \<or> hd rest \<noteq> ty \<Longrightarrow> tlv_scan (pre @ rest) ty (length pre) sz = Some sz"
  by (subst tlv_scan.simps) (auto simp: nth_append hd_conv_nth)

lemma tlv_scan_step:
  "tlv_scan (pre @ ty # len # body) ty (length pre) sz =
     (if len = 255 then tlv_scan (pre @ ty # len # body) ty (length pre + 257) (sz + 255)
      else Some (sz + unat len))"
  by (subst tlv_scan.simps) (simp add: rd_def nth_append)

lemma tlv_scan_chunks:
  assumes "data \<noteq> []" and "tlv_sep ty data rest"
  shows "tlv_scan (pre @ tlv_chunks ty data @ rest) ty (length pre) sz = Some (sz + length data)"
  using assms
proof (induction "length data" arbitrary: data pre sz rule: less_induct)
  case less
  consider "length data < 255" | "length data = 255" | "255 < length data" by linarith
  then show ?case
  proof cases
    case 1
    with less.prems show ?thesis by (simp add: tlv_chunks_short tlv_scan_step)
  next
    case 2
    with less.prems have r: "rest = [] \<or> hd rest \<noteq> ty" by (simp add: tlv_sep_def)
    from tlv_scan_stop [OF r, of "pre @ ty # 255 # data" "sz + 255"] 2 less.prems show ?thesis
      by (simp add: tlv_chunks_short tlv_scan_step)
  next
    case 3
    let ?tail = "drop 255 data"
    have "length ?tail mod 255 = length data mod 255"
      using 3 by (simp add: le_mod_geq)
    with less.prems 3 have "?tail \<noteq> []" "tlv_sep ty ?tail rest" and "length ?tail < length data"
      by (auto simp: tlv_sep_def)
    from less.hyps [OF this(3) this(1,2), of "pre @ ty # 255 # take 255 data" "sz + 255"] 3
    show ?thesis by (simp add: tlv_chunks_long tlv_scan_step)
  qed
qed

lemma tlv_gather_step:
  assumes "chunk \<noteq> []" and "length chunk \<le> 255" and "length chunk \<le> remaining"
  shows "tlv_gather (pre @ ty # of_nat (length chunk) # chunk @ body) (length pre) remaining acc =
         tlv_gather (pre @ ty # of_nat (length chunk) # chunk @ body)
           (length pre + (length chunk + 2)) (remaining - length chunk) (acc @ chunk)"
  using assms by (subst tlv_gather.simps) (auto simp: rd_block_def)

lemma tlv_gather_done [simp]: "tlv_gather buffer i 0 acc = Some (i, acc)"
  by (simp add: tlv_gather.simps)

lemma tlv_gather_chunks:
  "tlv_gather (pre @ tlv_chunks ty data @ rest) (length pre) (length data) acc =
     Some (length pre + length (tlv_chunks ty data), acc @ data)"
proof (induction "length data" arbitrary: data pre acc rule: less_induct)
  case less
  consider "data = []" | "data \<noteq> []" "length data \<le> 255" | "255 < length data"
    by fastforce
  then show ?case
  proof cases
    case 1
    then show ?thesis by simp
  next
    case 2
    with tlv_gather_step [of data "length data" pre ty rest acc] show ?thesis
      by (simp add: tlv_chunks_short)
  next
    case 3
    let ?tail = "drop 255 data" and ?head = "take 255 data"
    have len: "length ?tail < length data" using 3 by simp
    have "?head \<noteq> []" "length ?head \<le> 255" "length ?head \<le> length data" using 3 by auto
    from tlv_gather_step [OF this, of pre ty "tlv_chunks ty ?tail @ rest" acc] 3
      less [OF len, of "pre @ ty # 255 # ?head" "acc @ ?head"]
    show ?thesis by (simp add: tlv_chunks_long)
  qed
qed

subsection \<open>The parse loop\<close>

text \<open>
  The lists the format is meant for: no empty value, and no value that ends on a full chunk right
  before another of the same type (such neighbours must be kept apart by a separator item).
\<close>

fun tlv_separable :: "pair_tlv_values \<Rightarrow> bool" where
  "tlv_separable [] = True"
| "tlv_separable (t # ts) =
     (tlv_value t \<noteq> [] \<and>
      (case ts of [] \<Rightarrow> True
       | u # _ \<Rightarrow> tlv_type u \<noteq> tlv_type t \<or> length (tlv_value t) mod 255 \<noteq> 0) \<and>
      tlv_separable ts)"

lemma hd_tlv_chunks: "data \<noteq> [] \<Longrightarrow> tlv_chunks ty data \<noteq> [] \<and> hd (tlv_chunks ty data) = ty"
  by (subst (1 2) tlv_chunks.simps) (simp add: Let_def)

lemma hd_tlv_format_items:
  "tlv_format_items (t # ts) \<noteq> [] \<and> hd (tlv_format_items (t # ts)) = tlv_type t"
  using hd_tlv_chunks [of "tlv_value t" "tlv_type t"] by auto

lemma tlv_separable_sep:
  "tlv_separable (t # ts) \<Longrightarrow> tlv_sep (tlv_type t) (tlv_value t) (tlv_format_items ts)"
proof (cases ts)
  case (Cons u us)
  assume "tlv_separable (t # ts)"
  with Cons hd_tlv_format_items [of u us] show ?thesis
    by (simp add: tlv_sep_def del: tlv_format_items.simps) blast
qed (simp add: tlv_sep_def)

lemma length_tlv_format_items:
  "tlv_separable vs \<Longrightarrow> length (tlv_format_items vs) = tlv_required_size vs"
  by (induction vs) (auto simp: length_tlv_chunks)

lemma tlv_parse_loop_format:
  assumes "\<And>n. mem n" and "tlv_separable vs"
  shows "tlv_parse_loop mem (pre @ tlv_format_items vs) (length pre) acc = Some (Tlv_ok (acc @ vs))"
  using assms(2)
proof (induction vs arbitrary: pre acc)
  case Nil
  then show ?case by (subst tlv_parse_loop.simps) simp
next
  case (Cons t ts)
  let ?ty = "tlv_type t" and ?v = "tlv_value t" and ?rest = "tlv_format_items ts"
  let ?buf = "pre @ tlv_chunks ?ty ?v @ ?rest"
  have node: "\<lparr>tlv_type = ?ty, tlv_value = ?v\<rparr> = t" by simp
  from Cons.prems have v: "?v \<noteq> []" and ts: "tlv_separable ts" by simp_all
  from hd_tlv_chunks [OF v, of ?ty] have at: "?buf ! length pre = ?ty" "length pre < length ?buf"
    by (auto simp: nth_append hd_conv_nth)
  have "tlv_scan ?buf ?ty (length pre) 0 = Some (length ?v)"
    using tlv_scan_chunks [OF v tlv_separable_sep [OF Cons.prems], of pre 0] by simp
  then have "tlv_parse_loop mem ?buf (length pre) acc =
      tlv_parse_loop mem ?buf (length (pre @ tlv_chunks ?ty ?v)) (acc @ [t])"
    using at v assms(1)
    by (subst tlv_parse_loop.simps) (simp add: tlv_gather_chunks tlv_add_value0_def node)
  also have "\<dots> = Some (Tlv_ok (acc @ t # ts))"
    using Cons.IH [OF ts, of "pre @ tlv_chunks ?ty ?v" "acc @ [t]"] by simp
  finally show ?case using v by simp
qed

text \<open>An item of length 0 leaves the index where it is, so the loop is entered again and again.\<close>

lemma tlv_parse_loop_stuck:
  assumes "i + 1 < length buffer" and "buffer ! (i + 1) = 0" and "mem sizeof_tlv"
  shows "tlv_parse_loop mem buffer i vs = None"
proof (rule ccontr)
  let ?at0 = "\<lambda>mem buffer i. mem sizeof_tlv \<and> i + 1 < length buffer \<and> buffer ! (i + 1) = (0 :: u8)"
  assume "tlv_parse_loop mem buffer i vs \<noteq> None"
  then obtain r where ret: "tlv_parse_loop mem buffer i vs = Some r" by blast
  have "\<not> ?at0 mem buffer i"
  proof (rule tlv_parse_loop.raw_induct [where P = "\<lambda>mem buffer i vs r. \<not> ?at0 mem buffer i", OF _ ret])
    fix f mem buffer i vs r
    assume IH: "\<And>mem buffer i vs r. f mem buffer i vs = Some r \<Longrightarrow> \<not> ?at0 mem buffer i"
      and eq: "(if i < length buffer
        then case tlv_scan buffer (buffer ! i) i 0 of None \<Rightarrow> Some Tlv_overread
          | Some sz \<Rightarrow>
              if sz \<noteq> 0 \<and> \<not> mem sz then Some (Tlv_error PAIR_TLV_ERROR_MEMORY vs)
              else (case tlv_gather buffer i sz [] of None \<Rightarrow> Some Tlv_overread
                    | Some (i', data) \<Rightarrow>
                        (case tlv_add_value0 mem vs (buffer ! i) data of
                           Inl e \<Rightarrow> Some (Tlv_error e vs)
                         | Inr vs' \<Rightarrow> f mem buffer i' vs'))
        else Some (Tlv_ok vs)) = Some r"
    show "\<not> ?at0 mem buffer i"
    proof
      assume z: "?at0 mem buffer i"
      then have "tlv_scan buffer (buffer ! i) i 0 = Some 0"
        by (subst tlv_scan.simps) (simp add: rd_def)
      with eq z have "\<exists>vs'. f mem buffer i vs' = Some r"
        by (auto simp: tlv_add_value0_def)
      with IH z show False by blast
    qed
  qed
  with assms show False by blast
qed

lemma tlv_parse_overread_last:
  assumes "0 < unat len" and "unat len < 255" and "length payload < unat len" and "mem (unat len)"
  shows "tlv_parse_loop mem (ty # len # payload) 0 vs = Some Tlv_overread"
proof -
  have "len \<noteq> 255" using assms(2) by auto
  then have "tlv_scan (ty # len # payload) ty 0 0 = Some (unat len)"
    by (subst tlv_scan.simps) (simp add: rd_def)
  moreover have "tlv_gather (ty # len # payload) 0 (unat len) [] = None"
    using assms by (subst tlv_gather.simps) (auto simp: rd_def rd_block_def)
  ultimately show ?thesis using assms
    by (subst tlv_parse_loop.simps) simp
qed

section \<open>Properties\<close>

text \<open>The writer and the reader are a codec on the separable lists, when allocation succeeds.\<close>

definition tlv_decode :: "bytes \<Rightarrow> pair_tlv_values option" where
  "tlv_decode buffer =
     (case pair_tlv_parse (\<lambda>_. True) buffer [] of Some (Tlv_ok vs) \<Rightarrow> Some vs | _ \<Rightarrow> None)"

interpretation tlv_codec: codec tlv_format_items tlv_decode tlv_separable
  using tlv_parse_loop_format [of "\<lambda>_. True" _ "[]" "[]"]
  by unfold_locales (simp add: tlv_decode_def pair_tlv_parse_def)



text \<open>an empty value breaks both ends: \<open>pair_tlv_format\<close> writes two bytes into a buffer for
  which it asked no room at all, and \<open>pair_tlv_parse\<close>, given those two bytes, never returns, because
  its index only moves in the copy loop.\<close>

lemma pair_tlv_empty_value:
  "pair_tlv_format [\<lparr>tlv_type = ty, tlv_value = []\<rparr>] 0 = (0, Inr [ty, 0]) \<and>
   pair_tlv_parse (\<lambda>_. True) [ty, 0] vs = None"
  by (simp add: pair_tlv_format_def pair_tlv_parse_def tlv_parse_loop_stuck)

text \<open>the reader trusts the length byte: an item that announces more bytes than the buffer
  holds makes it read past the end of the buffer.\<close>

theorem pair_tlv_parse_truncated:
  assumes "0 < unat len" and "unat len < 255" and "length payload < unat len" and "mem (unat len)"
  shows "pair_tlv_parse mem (ty # len # payload) vs = Some Tlv_overread"
  using assms by (simp add: pair_tlv_parse_def tlv_parse_overread_last)

theorem pair_tlv_parse_truncated_witness:
  "pair_tlv_parse (\<lambda>_. True) [6, 32, 1, 2, 3] [] = Some Tlv_overread"
  by (rule pair_tlv_parse_truncated) simp_all

end
