(* ===== verification/Pair_Crypto.thy ===== *)
theory Pair_Crypto
  imports Prelude
begin

text \<open>
  The libraries behind the pairing protocol (\<open>pair_ap/pair_homekit.c\<close>: libsodium, OpenSSL or libgcrypt)
  as arguments, with the behaviour their documentation promises, and the helpers of the file that call
  them.
\<close>

section \<open>The libraries\<close>

text \<open>
  \<open>hkdf\<close> is HKDF with SHA-512 on a salt, an info, the input key and a length; \<open>seal\<close> and \<open>unseal\<close> are
  ChaCha20-Poly1305 on a key, a nonce and the associated data; \<open>sign\<close> makes a detached Ed25519 signature;
  \<open>sk_to_pk\<close> takes the public key out of an Ed25519 secret key; \<open>scalarmult\<close> is X25519. \<open>None\<close> is the
  library's failure.
\<close>

record crypto =
  hkdf :: "bytes \<Rightarrow> bytes \<Rightarrow> bytes \<Rightarrow> nat \<Rightarrow> bytes option"
  seal :: "bytes \<Rightarrow> bytes \<Rightarrow> bytes \<Rightarrow> bytes \<Rightarrow> (bytes \<times> bytes) option"
  unseal :: "bytes \<Rightarrow> bytes \<Rightarrow> bytes \<Rightarrow> bytes \<Rightarrow> bytes \<Rightarrow> bytes option"
  sign_detached :: "bytes \<Rightarrow> bytes \<Rightarrow> bytes"
  verify_detached :: "bytes \<Rightarrow> bytes \<Rightarrow> bytes \<Rightarrow> bool"
  seed_keypair :: "bytes \<Rightarrow> bytes \<times> bytes"
  sk_to_pk :: "bytes \<Rightarrow> bytes"
  scalarmult :: "bytes \<Rightarrow> bytes \<Rightarrow> bytes option"
  sha512 :: "bytes \<Rightarrow> bytes"

definition AUTHTAG_LENGTH :: nat where
  "AUTHTAG_LENGTH = 16"

definition NONCE_LENGTH :: nat where
  "NONCE_LENGTH = 12"

text \<open>What is sealed with a 32-byte key and a 12-byte nonce is unsealed with the same, and keeps its length.\<close>

definition aead_ok :: "crypto \<Rightarrow> bool" where
  "aead_ok C \<longleftrightarrow>
     (\<forall>key nonce ad plain. length key = 32 \<and> length nonce = 12 \<longrightarrow>
        (\<exists>c t. seal C key nonce ad plain = Some (c, t) \<and> length c = length plain \<and> length t = 16 \<and>
               unseal C key nonce ad c t = Some plain))"

definition hkdf_ok :: "crypto \<Rightarrow> bool" where
  "hkdf_ok C \<longleftrightarrow>
     (\<forall>salt info ikm n. n \<le> 64 \<longrightarrow> (\<exists>okm. hkdf C salt info ikm n = Some okm \<and> length okm = n))"

lemma aead_okE:
  assumes "aead_ok C" and "length key = 32" and "length nonce = 12"
  obtains c t where "seal C key nonce ad plain = Some (c, t)" and "length c = length plain"
    and "length t = 16" and "unseal C key nonce ad c t = Some plain"
  using assms unfolding aead_ok_def by blast

lemma hkdf_okE:
  assumes "hkdf_ok C" and "n \<le> 64"
  obtains okm where "hkdf C salt info ikm n = Some okm" and "length okm = n"
  using assms unfolding hkdf_ok_def by blast

section \<open>Keys and messages\<close>

datatype pair_keys =
    PAIR_SETUP_MSG01 | PAIR_SETUP_MSG02 | PAIR_SETUP_MSG03 | PAIR_SETUP_MSG04 | PAIR_SETUP_MSG05
  | PAIR_SETUP_MSG06 | PAIR_SETUP_CONTROLLER_SIGN | PAIR_SETUP_ACCESSORY_SIGN
  | PAIR_VERIFY_MSG01 | PAIR_VERIFY_MSG02 | PAIR_VERIFY_MSG03 | PAIR_VERIFY_MSG04
  | PAIR_CONTROL_WRITE | PAIR_CONTROL_READ | PAIR_EVENTS_WRITE | PAIR_EVENTS_READ

text \<open>The table \<open>pair_keys_map\<close>: the state of the message, salt and info (absent where there is no key), nonce.\<close>

type_synonym key_entry = "u8 \<times> (bytes \<times> bytes) option \<times> bytes"

fun pair_keys_map :: "pair_keys \<Rightarrow> key_entry" where
  "pair_keys_map PAIR_SETUP_MSG01 = (1, None, replicate 8 0)"
| "pair_keys_map PAIR_SETUP_MSG02 = (2, None, replicate 8 0)"
| "pair_keys_map PAIR_SETUP_MSG03 = (3, None, replicate 8 0)"
| "pair_keys_map PAIR_SETUP_MSG04 = (4, None, replicate 8 0)"
| "pair_keys_map PAIR_SETUP_MSG05 =
     (5, Some (ascii ''Pair-Setup-Encrypt-Salt'', ascii ''Pair-Setup-Encrypt-Info''), ascii ''PS-Msg05'')"
| "pair_keys_map PAIR_SETUP_MSG06 =
     (6, Some (ascii ''Pair-Setup-Encrypt-Salt'', ascii ''Pair-Setup-Encrypt-Info''), ascii ''PS-Msg06'')"
| "pair_keys_map PAIR_SETUP_CONTROLLER_SIGN =
     (0, Some (ascii ''Pair-Setup-Controller-Sign-Salt'', ascii ''Pair-Setup-Controller-Sign-Info''), replicate 8 0)"
| "pair_keys_map PAIR_SETUP_ACCESSORY_SIGN =
     (0, Some (ascii ''Pair-Setup-Accessory-Sign-Salt'', ascii ''Pair-Setup-Accessory-Sign-Info''), replicate 8 0)"
| "pair_keys_map PAIR_VERIFY_MSG01 = (1, None, replicate 8 0)"
| "pair_keys_map PAIR_VERIFY_MSG02 =
     (2, Some (ascii ''Pair-Verify-Encrypt-Salt'', ascii ''Pair-Verify-Encrypt-Info''), ascii ''PV-Msg02'')"
| "pair_keys_map PAIR_VERIFY_MSG03 =
     (3, Some (ascii ''Pair-Verify-Encrypt-Salt'', ascii ''Pair-Verify-Encrypt-Info''), ascii ''PV-Msg03'')"
| "pair_keys_map PAIR_VERIFY_MSG04 = (4, None, replicate 8 0)"
| "pair_keys_map PAIR_CONTROL_WRITE =
     (0, Some (ascii ''Control-Salt'', ascii ''Control-Write-Encryption-Key''), replicate 8 0)"
| "pair_keys_map PAIR_CONTROL_READ =
     (0, Some (ascii ''Control-Salt'', ascii ''Control-Read-Encryption-Key''), replicate 8 0)"
| "pair_keys_map PAIR_EVENTS_WRITE =
     (0, Some (ascii ''Events-Salt'', ascii ''Events-Write-Encryption-Key''), replicate 8 0)"
| "pair_keys_map PAIR_EVENTS_READ =
     (0, Some (ascii ''Events-Salt'', ascii ''Events-Read-Encryption-Key''), replicate 8 0)"

definition key_state :: "pair_keys \<Rightarrow> u8" where
  "key_state k = fst (pair_keys_map k)"

text \<open>\<open>memcpy(nonce + 4, pair_keys_map[key].nonce, NONCE_LENGTH - 4)\<close> on a nonce of zeros.\<close>

definition key_nonce :: "pair_keys \<Rightarrow> bytes" where
  "key_nonce k = replicate 4 0 @ snd (snd (pair_keys_map k))"

text \<open>A key without a salt is never asked for; \<open>strlen\<close> would be called on \<open>NULL\<close>.\<close>

definition SHA512_DIGEST_LENGTH :: nat where
  "SHA512_DIGEST_LENGTH = 64"

definition hkdf_extract_expand :: "crypto \<Rightarrow> nat \<Rightarrow> bytes \<Rightarrow> pair_keys \<Rightarrow> bytes option" where
  "hkdf_extract_expand C okm_len ikm pair_key =
     (if okm_len > SHA512_DIGEST_LENGTH then None
      else case fst (snd (pair_keys_map pair_key)) of
             None \<Rightarrow> None
           | Some (salt, info) \<Rightarrow> hkdf C salt info ikm okm_len)"

definition encrypt_chacha :: "crypto \<Rightarrow> bytes \<Rightarrow> bytes \<Rightarrow> bytes \<Rightarrow> bytes \<Rightarrow> (bytes \<times> bytes) option" where
  "encrypt_chacha C plain key ad nonce = seal C key nonce ad plain"

definition decrypt_chacha :: "crypto \<Rightarrow> bytes \<Rightarrow> bytes \<Rightarrow> bytes \<Rightarrow> bytes \<Rightarrow> bytes \<Rightarrow> bytes option" where
  "decrypt_chacha C cipher key ad tag nonce = unseal C key nonce ad cipher tag"

lemma length_key_nonce [simp]: "length (key_nonce k) = 12"
  by (cases k) (simp_all add: key_nonce_def ascii_def)

lemma derived_key:
  assumes "hkdf_ok C" and "fst (snd (pair_keys_map k)) \<noteq> None"
  obtains key where "hkdf_extract_expand C 32 ikm k = Some key" and "length key = 32"
proof -
  obtain salt info where k: "fst (snd (pair_keys_map k)) = Some (salt, info)" using assms(2) by force
  obtain key where "hkdf C salt info ikm 32 = Some key" "length key = 32"
    by (rule hkdf_okE [OF assms(1), of 32 salt info ikm]) simp
  with k that show ?thesis by (simp add: hkdf_extract_expand_def SHA512_DIGEST_LENGTH_def)
qed

section \<open>A stand-in for the libraries\<close>

text \<open>
  Functions that keep the promises above and are easily computed, for concrete inputs: sealing adds the
  first byte of the key to every byte.
\<close>

definition toy_crypto :: crypto where
  "toy_crypto = \<lparr>hkdf = (\<lambda>salt info ikm n. Some (take n (ikm @ replicate n 0))),
     seal = (\<lambda>key nonce ad plain. Some (map (\<lambda>b. b + hd key) plain, replicate 16 (hd key))),
     unseal = (\<lambda>key nonce ad c t. if t = replicate 16 (hd key) then Some (map (\<lambda>b. b - hd key) c) else None),
     sign_detached = (\<lambda>m sk. take 64 (sk @ replicate 64 0)),
     verify_detached = (\<lambda>s m pk. take 32 s = take 32 pk),
     seed_keypair = (\<lambda>seed. (take 32 (seed @ replicate 32 0), take 64 (seed @ replicate 64 0))),
     sk_to_pk = (\<lambda>sk. take 32 (sk @ replicate 32 0)),
     scalarmult = (\<lambda>sk pk. Some (map (\<lambda>(a, b). a + b) (zip sk pk))),
     sha512 = (\<lambda>bs. replicate 63 0 @ [1])\<rparr>"

lemma toy_aead_ok: "aead_ok toy_crypto"
  by (simp add: aead_ok_def toy_crypto_def comp_def)

lemma toy_hkdf_ok: "hkdf_ok toy_crypto"
  by (auto simp: hkdf_ok_def toy_crypto_def min_def)

end
