(* ===== verification/Pair_Verify.thy ===== *)
theory Pair_Verify
  imports Pair_Crypto Pair_Tlv
begin

text \<open>
  Pair-verify of AirPlay 2: the messages of both ends (\<open>pair_ap/pair_homekit.c\<close>) and the dispatch on the
  state of a message (\<open>pair_ap/pair.c\<close>). Allocations succeed.
\<close>

section \<open>Steps on a context\<close>

text \<open>
  A step returns the context and, unless it failed, a result; \<open>None\<close> is undefined behaviour, or a parse
  that never returns.
\<close>

type_synonym ('c, 'a) step = "'c \<Rightarrow> ('c \<times> 'a option) option"

definition next_do :: "('c, 'a) step \<Rightarrow> ('a \<Rightarrow> ('c, 'b) step) \<Rightarrow> ('c, 'b) step" where
  "next_do m f c =
     (case m c of
        None \<Rightarrow> None
      | Some (c, None) \<Rightarrow> Some (c, None)
      | Some (c, Some x) \<Rightarrow> f x c)"

definition return_ok :: "'a \<Rightarrow> ('c, 'a) step" where
  "return_ok x c = Some (c, Some x)"

definition change :: "('c \<Rightarrow> 'c) \<Rightarrow> ('c, unit) step" where
  "change f c = Some (f c, Some ())"

text \<open>\<open>RETURN_ERROR\<close> with the change it makes to the context, unless there is a result.\<close>

definition or_error :: "('c \<Rightarrow> 'c) \<Rightarrow> 'a option \<Rightarrow> ('c, 'a) step" where
  "or_error err x c = (case x of None \<Rightarrow> Some (err c, None) | Some y \<Rightarrow> Some (c, Some y))"

definition check :: "('c \<Rightarrow> 'c) \<Rightarrow> bool \<Rightarrow> ('c, unit) step" where
  "check err b = or_error err (if b then Some () else None)"

named_theorems step_simps \<open>running steps\<close>

lemmas [step_simps] = next_do_def return_ok_def change_def or_error_def check_def

section \<open>Messages\<close>

definition TLVType_Method :: u8 where "TLVType_Method = 0"
definition TLVType_Identifier :: u8 where "TLVType_Identifier = 1"
definition TLVType_Salt :: u8 where "TLVType_Salt = 2"
definition TLVType_PublicKey :: u8 where "TLVType_PublicKey = 3"
definition TLVType_Proof :: u8 where "TLVType_Proof = 4"
definition TLVType_EncryptedData :: u8 where "TLVType_EncryptedData = 5"
definition TLVType_State :: u8 where "TLVType_State = 6"
definition TLVType_Error :: u8 where "TLVType_Error = 7"
definition TLVType_Signature :: u8 where "TLVType_Signature = 10"
definition TLVType_Flags :: u8 where "TLVType_Flags = 19"
definition TLVError_Authentication :: u8 where "TLVError_Authentication = 2"

lemmas tlv_types = TLVType_Method_def TLVType_Identifier_def TLVType_Salt_def TLVType_PublicKey_def
  TLVType_Proof_def TLVType_EncryptedData_def TLVType_State_def TLVType_Error_def TLVType_Signature_def TLVType_Flags_def

definition REQUEST_BUFSIZE :: nat where
  "REQUEST_BUFSIZE = 4096"

definition PAIR_AP_DEVICE_ID_LEN_MAX :: nat where
  "PAIR_AP_DEVICE_ID_LEN_MAX = 64"

text \<open>\<open>pair_tlv_new\<close> and the calls of \<open>pair_tlv_add_value\<close> that follow it.\<close>

definition tlv_message :: "(u8 \<times> bytes) list \<Rightarrow> pair_tlv_values" where
  "tlv_message items = map (\<lambda>(ty, v). \<lparr>tlv_type = ty, tlv_value = v\<rparr>) items"

definition tlv_format :: "(u8 \<times> bytes) list \<Rightarrow> nat \<Rightarrow> bytes option" where
  "tlv_format items room =
     (case pair_tlv_format (tlv_message items) room of
        (n, Inl e) \<Rightarrow> None
      | (n, Inr data) \<Rightarrow> Some (take n data))"

text \<open>The values of a message, unless it cannot be parsed or reports an error.\<close>

definition message_process :: "bytes \<Rightarrow> pair_tlv_values option option" where
  "message_process data =
     (case pair_tlv_parse (\<lambda>_. True) data pair_tlv_new of
        Some (Tlv_ok vs) \<Rightarrow>
          (case pair_tlv_get_value vs TLVType_Error of
             None \<Rightarrow> Some (Some vs)
           | Some e \<Rightarrow> if tlv_value e = [] then None else Some None)
      | Some (Tlv_error e vs) \<Rightarrow> Some None
      | _ \<Rightarrow> None)"

definition process_or_error :: "('c \<Rightarrow> 'c) \<Rightarrow> bytes \<Rightarrow> ('c, pair_tlv_values) step" where
  "process_or_error err data c =
     (case message_process data of None \<Rightarrow> None | Some vs \<Rightarrow> or_error err vs c)"

definition get_value :: "pair_tlv_values \<Rightarrow> u8 \<Rightarrow> bytes option" where
  "get_value vs ty = map_option tlv_value (pair_tlv_get_value vs ty)"

text \<open>The state of a message: 0 without data, \<open>None\<close> for the -1.\<close>

definition state_get :: "bytes \<Rightarrow> nat option option" where
  "state_get data =
     (if data = [] then Some (Some 0)
      else case message_process data of
             None \<Rightarrow> None
           | Some None \<Rightarrow> Some None
           | Some (Some vs) \<Rightarrow>
               (case get_value vs TLVType_State of
                  Some [s] \<Rightarrow> Some (Some (unat s))
                | _ \<Rightarrow> Some None))"

section \<open>Signed and encrypted information\<close>

definition create_info :: "nat \<Rightarrow> bytes \<Rightarrow> bytes \<Rightarrow> bytes \<Rightarrow> bytes option" where
  "create_info info_len a b c = (if length a + length b + length c > info_len then None else Some (a @ b @ c))"

definition create_and_sign_device_info ::
    "crypto \<Rightarrow> nat \<Rightarrow> bytes \<Rightarrow> bytes \<Rightarrow> bytes \<Rightarrow> bytes \<Rightarrow> bytes option" where
  "create_and_sign_device_info C msg_len device_id device_x pk sk =
     do { device_info \<leftarrow> create_info 256 device_x device_id pk;
          tlv_format [(TLVType_Identifier, device_id), (TLVType_Signature, sign_detached C device_info sk)] msg_len }"

definition create_and_sign_accessory_info ::
    "crypto \<Rightarrow> nat \<Rightarrow> bytes \<Rightarrow> bytes \<Rightarrow> bytes \<Rightarrow> bytes \<Rightarrow> bytes option" where
  "create_and_sign_accessory_info C msg_len server_pk accessory_id client_pk sk =
     do { accessory_info \<leftarrow> create_info 256 server_pk accessory_id client_pk;
          tlv_format [(TLVType_Identifier, accessory_id), (TLVType_Signature, sign_detached C accessory_info sk)] msg_len }"

definition verify_info :: "crypto \<Rightarrow> bytes \<Rightarrow> bytes \<Rightarrow> bytes \<Rightarrow> bytes \<Rightarrow> bytes \<Rightarrow> bool" where
  "verify_info C signature pk a b c =
     (case create_info 256 a b c of None \<Rightarrow> False | Some info \<Rightarrow> verify_detached C signature info pk)"

text \<open>The payload of a message with its tag behind it, under the key and nonce of the message.\<close>

definition seal_message :: "crypto \<Rightarrow> bytes \<Rightarrow> pair_keys \<Rightarrow> bytes \<Rightarrow> bytes option" where
  "seal_message C derived_key msg_state data =
     do { (encrypted, tag) \<leftarrow> encrypt_chacha C data derived_key [] (key_nonce msg_state);
          Some (encrypted @ tag) }"

definition open_message :: "crypto \<Rightarrow> bytes \<Rightarrow> pair_keys \<Rightarrow> bytes \<Rightarrow> bytes option" where
  "open_message C derived_key msg_state data =
     (if length data < AUTHTAG_LENGTH then None
      else let encrypted_len = length data - AUTHTAG_LENGTH
           in decrypt_chacha C (take encrypted_len data) derived_key [] (drop encrypted_len data) (key_nonce msg_state))"

section \<open>The server\<close>

datatype pair_status = PAIR_STATUS_IN_PROGRESS | PAIR_STATUS_COMPLETED | PAIR_STATUS_AUTH_FAILED | PAIR_STATUS_INVALID

text \<open>\<open>get_cb\<close> is the callback that looks up the key of a client; \<open>result_secret\<close> is the shared secret of the result.\<close>

record server_verify_context =
  status :: pair_status
  result_secret :: bytes
  device_id :: bytes
  server_public_key :: bytes
  server_private_key :: bytes
  get_cb :: "(bytes \<Rightarrow> bytes option) option"
  server_eph_public_key :: bytes
  server_eph_private_key :: bytes
  client_eph_public_key :: bytes
  shared_secret :: bytes

text \<open>The seed is the device identifier, cut or filled up to 32 bytes.\<close>

definition server_keypair :: "crypto \<Rightarrow> bytes \<Rightarrow> bytes \<times> bytes" where
  "server_keypair C ident = seed_keypair C (take 32 ident @ replicate (32 - length ident) 0)"

definition server_verify_new :: "crypto \<Rightarrow> (bytes \<Rightarrow> bytes option) option \<Rightarrow> bytes \<Rightarrow> server_verify_context option" where
  "server_verify_new C cb ident =
     (if length ident \<ge> PAIR_AP_DEVICE_ID_LEN_MAX then None
      else let (pk, sk) = server_keypair C ident
           in Some \<lparr>status = PAIR_STATUS_IN_PROGRESS, result_secret = [], device_id = ident,
                server_public_key = pk, server_private_key = sk, get_cb = cb,
                server_eph_public_key = replicate 32 0, server_eph_private_key = replicate 32 0,
                client_eph_public_key = replicate 32 0, shared_secret = replicate 32 0\<rparr>)"

definition invalid :: "server_verify_context \<Rightarrow> server_verify_context" where
  "invalid c = c\<lparr>status := PAIR_STATUS_INVALID\<rparr>"

definition server_auth_failed_response :: "pair_keys \<Rightarrow> bytes" where
  "server_auth_failed_response msg_state =
     tlv_format_items (tlv_message [(TLVType_State, [key_state msg_state]), (TLVType_Error, [TLVError_Authentication])])"

definition server_verify_request1 :: "bytes \<Rightarrow> (server_verify_context, unit) step" where
  "server_verify_request1 data =
     next_do (process_or_error invalid data) (\<lambda>request.
     next_do (or_error invalid (get_value request TLVType_PublicKey)) (\<lambda>pk.
     next_do (check invalid (length pk = 32)) (\<lambda>_.
       change (\<lambda>c. c\<lparr>client_eph_public_key := pk\<rparr>))))"

text \<open>The checks of the client's signature.\<close>

definition check_client :: "crypto \<Rightarrow> bytes \<Rightarrow> bytes \<Rightarrow> (server_verify_context, unit) step" where
  "check_client C ident signature c =
     (case get_cb c of
        None \<Rightarrow> return_ok () c
      | Some cb \<Rightarrow>
          if length ident \<ge> PAIR_AP_DEVICE_ID_LEN_MAX then Some (invalid c, None)
          else (case cb (takeWhile (\<lambda>b. b \<noteq> 0) ident) of
                  None \<Rightarrow> Some (c\<lparr>status := PAIR_STATUS_AUTH_FAILED\<rparr>, Some ())
                | Some client_public_key \<Rightarrow>
                    if verify_info C signature client_public_key (client_eph_public_key c) ident (server_eph_public_key c)
                    then return_ok () c
                    else Some (c\<lparr>status := PAIR_STATUS_AUTH_FAILED\<rparr>, Some ())))"

definition server_verify_request2 :: "crypto \<Rightarrow> bytes \<Rightarrow> (server_verify_context, unit) step" where
  "server_verify_request2 C data =
     next_do (process_or_error invalid data) (\<lambda>request.
     next_do (\<lambda>c. or_error invalid (hkdf_extract_expand C 32 (shared_secret c) PAIR_VERIFY_MSG03) c) (\<lambda>derived_key.
     next_do (or_error invalid (get_value request TLVType_EncryptedData)) (\<lambda>encrypted_data.
     next_do (or_error invalid (open_message C derived_key PAIR_VERIFY_MSG03 encrypted_data)) (\<lambda>decrypted_data.
     next_do (process_or_error invalid decrypted_data) (\<lambda>request.
     next_do (or_error invalid (get_value request TLVType_Identifier)) (\<lambda>ident.
     next_do (or_error invalid (get_value request TLVType_Signature)) (\<lambda>signature.
     next_do (check invalid (length signature = 64)) (\<lambda>_.
       check_client C ident signature))))))))"

text \<open>The response to the first message, with the key pair that \<open>crypto_box_keypair\<close> makes.\<close>

definition server_verify_response1 :: "crypto \<Rightarrow> bytes \<times> bytes \<Rightarrow> (server_verify_context, bytes) step" where
  "server_verify_response1 C keypair c =
     (if status c = PAIR_STATUS_AUTH_FAILED then return_ok (server_auth_failed_response PAIR_VERIFY_MSG02) c
      else
        next_do (change (\<lambda>c. c\<lparr>server_eph_public_key := fst keypair, server_eph_private_key := snd keypair\<rparr>)) (\<lambda>_.
        next_do (\<lambda>c. or_error invalid (scalarmult C (server_eph_private_key c) (client_eph_public_key c)) c) (\<lambda>secret.
        next_do (change (\<lambda>c. c\<lparr>shared_secret := secret\<rparr>)) (\<lambda>_.
        next_do (\<lambda>c. or_error invalid (create_and_sign_accessory_info C REQUEST_BUFSIZE (server_eph_public_key c)
                   (device_id c) (client_eph_public_key c) (server_private_key c)) c) (\<lambda>data.
        next_do (\<lambda>c. or_error invalid (hkdf_extract_expand C 32 (shared_secret c) PAIR_VERIFY_MSG02) c) (\<lambda>derived_key.
        next_do (or_error invalid (seal_message C derived_key PAIR_VERIFY_MSG02 data)) (\<lambda>encrypted_data.
          (\<lambda>c. or_error invalid (tlv_format [(TLVType_State, [key_state PAIR_VERIFY_MSG02]),
             (TLVType_PublicKey, server_eph_public_key c), (TLVType_EncryptedData, encrypted_data)] REQUEST_BUFSIZE) c))))))) c)"

definition server_verify_response2 :: "(server_verify_context, bytes) step" where
  "server_verify_response2 c =
     (if status c = PAIR_STATUS_AUTH_FAILED then return_ok (server_auth_failed_response PAIR_VERIFY_MSG04) c
      else
        next_do (or_error invalid (tlv_format [(TLVType_State, [key_state PAIR_VERIFY_MSG04])] REQUEST_BUFSIZE)) (\<lambda>data.
        next_do (change (\<lambda>c. c\<lparr>result_secret := shared_secret c, status := PAIR_STATUS_COMPLETED\<rparr>)) (\<lambda>_.
          return_ok data)) c)"

text \<open>
  \<open>pair_verify\<close> for a server. The outcome is the message to send out, if any, and whether it returned 0;
  with the state 0 a message is made but -1 returned.
\<close>

definition pair_verify_server ::
    "crypto \<Rightarrow> bytes \<times> bytes \<Rightarrow> bytes \<Rightarrow> server_verify_context \<Rightarrow> (server_verify_context \<times> bytes option \<times> bool) option" where
  "pair_verify_server C keypair data c =
     (case state_get data of
        None \<Rightarrow> None
      | Some None \<Rightarrow> Some (c, None, False)
      | Some (Some state) \<Rightarrow>
          if state = 0 then map_option (\<lambda>(c, out). (c, out, False)) (server_verify_response1 C keypair c)
          else if state = 1
          then map_option (\<lambda>(c, out). (c, out, out \<noteq> None))
                 (next_do (server_verify_request1 data) (\<lambda>_. server_verify_response1 C keypair) c)
          else if state = 2
          then map_option (\<lambda>(c, out). (c, out, out \<noteq> None))
                 (next_do (server_verify_request1 data) (\<lambda>_. server_verify_response2) c)
          else if state = 3
          then map_option (\<lambda>(c, out). (c, out, out \<noteq> None))
                 (next_do (server_verify_request2 C data) (\<lambda>_. server_verify_response2) c)
          else if state = 4
          then map_option (\<lambda>(c, out). (c, None, False)) (server_verify_request2 C data c)
          else Some (c, None, False))"

definition pair_verify_result :: "server_verify_context \<Rightarrow> bytes option" where
  "pair_verify_result c = (if status c = PAIR_STATUS_COMPLETED then Some (result_secret c) else None)"

section \<open>The client\<close>

record client_verify_context =
  cl_status :: pair_status
  cl_result_secret :: bytes
  cl_device_id :: bytes
  cl_public_key :: bytes
  cl_private_key :: bytes
  cl_server_public_key :: "bytes option"
  cl_eph_public_key :: bytes
  cl_eph_private_key :: bytes
  cl_server_eph_public_key :: bytes
  cl_shared_secret :: bytes

text \<open>
  \<open>client_verify_new\<close>, with the keys read out of the hexadecimal string: the client's, and the server's
  if it is known, in which case the server's signature is checked.
\<close>

definition client_verify_new :: "crypto \<Rightarrow> bytes \<Rightarrow> bytes option \<Rightarrow> bytes \<Rightarrow> client_verify_context option" where
  "client_verify_new C private_key server_key ident =
     (if length ident \<ge> PAIR_AP_DEVICE_ID_LEN_MAX then None
      else Some \<lparr>cl_status = PAIR_STATUS_IN_PROGRESS, cl_result_secret = [], cl_device_id = ident,
             cl_public_key = sk_to_pk C private_key, cl_private_key = private_key, cl_server_public_key = server_key,
             cl_eph_public_key = replicate 32 0, cl_eph_private_key = replicate 32 0,
             cl_server_eph_public_key = replicate 32 0, cl_shared_secret = replicate 32 0\<rparr>)"

definition client_verify_request1 :: "bytes \<times> bytes \<Rightarrow> (client_verify_context, bytes) step" where
  "client_verify_request1 keypair =
     next_do (change (\<lambda>c. c\<lparr>cl_eph_public_key := fst keypair, cl_eph_private_key := snd keypair\<rparr>)) (\<lambda>_ c.
       or_error id (tlv_format [(TLVType_State, [key_state PAIR_VERIFY_MSG01]), (TLVType_PublicKey, cl_eph_public_key c)]
         REQUEST_BUFSIZE) c)"

definition check_server :: "crypto \<Rightarrow> bytes \<Rightarrow> bytes \<Rightarrow> client_verify_context \<Rightarrow> bool" where
  "check_server C ident signature c =
     (case cl_server_public_key c of
        None \<Rightarrow> True
      | Some pk \<Rightarrow> verify_info C signature pk (cl_server_eph_public_key c) ident (cl_eph_public_key c))"

definition client_verify_response1 :: "crypto \<Rightarrow> bytes \<Rightarrow> (client_verify_context, unit) step" where
  "client_verify_response1 C data =
     next_do (process_or_error id data) (\<lambda>response.
     next_do (or_error id (get_value response TLVType_EncryptedData)) (\<lambda>encrypted_data.
     next_do (or_error id (get_value response TLVType_PublicKey)) (\<lambda>public_key.
     next_do (check id (length public_key = 32)) (\<lambda>_.
     next_do (change (\<lambda>c. c\<lparr>cl_server_eph_public_key := public_key\<rparr>)) (\<lambda>_.
     next_do (\<lambda>c. or_error id (scalarmult C (cl_eph_private_key c) (cl_server_eph_public_key c)) c) (\<lambda>secret.
     next_do (change (\<lambda>c. c\<lparr>cl_shared_secret := secret\<rparr>)) (\<lambda>_.
     next_do (\<lambda>c. or_error id (hkdf_extract_expand C 32 (cl_shared_secret c) PAIR_VERIFY_MSG02) c) (\<lambda>derived_key.
     next_do (or_error id (open_message C derived_key PAIR_VERIFY_MSG02 encrypted_data)) (\<lambda>decrypted_data.
     next_do (process_or_error id decrypted_data) (\<lambda>response.
     next_do (or_error id (get_value response TLVType_Identifier)) (\<lambda>ident.
     next_do (or_error id (get_value response TLVType_Signature)) (\<lambda>signature.
     next_do (check id (length signature = 64)) (\<lambda>_ c.
       check id (check_server C ident signature c) c)))))))))))))"

definition client_verify_request2 :: "crypto \<Rightarrow> (client_verify_context, bytes) step" where
  "client_verify_request2 C =
     next_do (\<lambda>c. or_error id (create_and_sign_device_info C REQUEST_BUFSIZE (cl_device_id c) (cl_eph_public_key c)
                (cl_server_eph_public_key c) (cl_private_key c)) c) (\<lambda>data.
     next_do (\<lambda>c. or_error id (hkdf_extract_expand C 32 (cl_shared_secret c) PAIR_VERIFY_MSG03) c) (\<lambda>derived_key.
     next_do (or_error id (seal_message C derived_key PAIR_VERIFY_MSG03 data)) (\<lambda>encrypted_data.
       or_error id (tlv_format [(TLVType_State, [key_state PAIR_VERIFY_MSG03]), (TLVType_EncryptedData, encrypted_data)]
         REQUEST_BUFSIZE))))"

definition client_verify_response2 :: "bytes \<Rightarrow> (client_verify_context, unit) step" where
  "client_verify_response2 data =
     next_do (process_or_error id data) (\<lambda>_.
       change (\<lambda>c. c\<lparr>cl_result_secret := cl_shared_secret c, cl_status := PAIR_STATUS_COMPLETED\<rparr>))"

end
