(* ===== verification/Pair_Srp.thy ===== *)
theory Pair_Srp
  imports Prelude
begin

text \<open>
  SRP-6a as \<open>pair_ap/pair_homekit.c\<close> and \<open>pair_ap/pair.c\<close> compute it for pair-setup, client and server
  side. The numbers of the library (\<open>BIGNUM\<close>, \<open>gcry_mpi_t\<close>) are integers; the hash, SHA-512, is an
  argument.
\<close>

section \<open>Numbers and bytes\<close>

text \<open>\<open>bnum_bin2bn\<close> and \<open>bnum_bn2bin\<close>: big-endian, without leading zeros.\<close>

definition bin2bn :: "bytes \<Rightarrow> nat" where
  "bin2bn bs = foldl (\<lambda>n b. n * 256 + unat b) 0 bs"

fun bn2bin :: "nat \<Rightarrow> bytes" where
  "bn2bin n = (if n = 0 then [] else bn2bin (n div 256) @ [of_nat n])"

declare bn2bin.simps [simp del]

definition num_bytes :: "nat \<Rightarrow> nat" where
  "num_bytes n = length (bn2bin n)"

lemma bin2bn_append: "bin2bn (bs @ [b]) = bin2bn bs * 256 + unat b"
  by (simp add: bin2bn_def)

lemma bin2bn_bn2bin [simp]: "bin2bn (bn2bin n) = n"
proof (induction n rule: less_induct)
  case (less n)
  show ?case
  proof (cases "n = 0")
    case True
    then show ?thesis by (simp add: bn2bin.simps bin2bn_def)
  next
    case False
    then have "bin2bn (bn2bin (n div 256)) = n div 256" using less by simp
    moreover have "unat (of_nat n :: u8) = n mod 256" by (simp add: unat_of_nat take_bit_eq_mod)
    ultimately show ?thesis using False by (subst bn2bin.simps) (simp add: bin2bn_append)
  qed
qed

lemma num_bytes_le: "n < 256 ^ k \<Longrightarrow> num_bytes n \<le> k"
proof (induction k arbitrary: n)
  case 0
  then show ?case by (simp add: num_bytes_def bn2bin.simps)
next
  case (Suc k)
  have "n div 256 < 256 ^ k" using Suc.prems by (simp add: less_mult_imp_div_less mult.commute)
  then have "num_bytes (n div 256) \<le> k" by (rule Suc.IH)
  then show ?case by (subst num_bytes_def, subst bn2bin.simps) (simp add: num_bytes_def)
qed

section \<open>Hashes of numbers (\<open>pair.c\<close>)\<close>

text \<open>Two numbers, each filled up to \<open>padded_len\<close> bytes; a number that is longer fails an assertion.\<close>

definition H_nn_pad :: "(bytes \<Rightarrow> bytes) \<Rightarrow> nat \<Rightarrow> nat \<Rightarrow> nat \<Rightarrow> nat option" where
  "H_nn_pad H n1 n2 padded_len =
     (if num_bytes n1 > padded_len \<or> num_bytes n2 > padded_len then None
      else Some (bin2bn (H (replicate (padded_len - num_bytes n1) 0 @ bn2bin n1 @
                            replicate (padded_len - num_bytes n2) 0 @ bn2bin n2))))"

definition H_ns :: "(bytes \<Rightarrow> bytes) \<Rightarrow> nat \<Rightarrow> bytes \<Rightarrow> nat" where
  "H_ns H n bs = bin2bn (H (bn2bin n @ bs))"

definition hash_num :: "(bytes \<Rightarrow> bytes) \<Rightarrow> nat \<Rightarrow> bytes" where
  "hash_num H n = H (bn2bin n)"

section \<open>The group\<close>

record NGConstant =
  ng_N :: nat
  ng_g :: nat
  ng_N_len :: nat

definition SRP_N_3072 :: nat where
  "SRP_N_3072 = 0xFFFFFFFFFFFFFFFFC90FDAA22168C234C4C6628B80DC1CD129024E088A67CC74020BBEA63B139B22514A08798E3404DDEF9519B3CD3A431B302B0A6DF25F14374FE1356D6D51C245E485B576625E7EC6F44C42E9A637ED6B0BFF5CB6F406B7EDEE386BFB5A899FA5AE9F24117C4B1FE649286651ECE45B3DC2007CB8A163BF0598DA48361C55D39A69163FA8FD24CF5F83655D23DCA3AD961C62F356208552BB9ED529077096966D670C354E4ABC9804F1746C08CA18217C32905E462E36CE3BE39E772C180E86039B2783A2EC07A28FB5C55DF06F4C52C9DE2BCBF6955817183995497CEA956AE515D2261898FA051015728E5A8AAAC42DAD33170D04507A33A85521ABDF1CBA64ECFB850458DBEF0A8AEA71575D060C7DB3970F85A6E1E4C7ABF5AE8CDB0933D71E8C94E04A25619DCEE3D2261AD2EE6BF12FFA06D98A0864D87602733EC86A64521F2B18177B200CBBE117577A615D6C770988C0BAD946E208E24FA074E5AB3143DB5BFCE0FD108E4B82D120A93AD2CAFFFFFFFFFFFFFFFF"

definition new_ng :: NGConstant where
  "new_ng = \<lparr>ng_N = SRP_N_3072, ng_g = 5, ng_N_len = 384\<rparr>"

text \<open>\<open>bnum_modexp\<close> on a base that may be negative: the result is the least that is not.\<close>

definition bnum_modexp :: "int \<Rightarrow> nat \<Rightarrow> nat \<Rightarrow> nat" where
  "bnum_modexp y q p = nat (y ^ q mod int p)"

section \<open>What both sides compute\<close>

definition calculate_x :: "(bytes \<Rightarrow> bytes) \<Rightarrow> nat \<Rightarrow> bytes \<Rightarrow> bytes \<Rightarrow> nat" where
  "calculate_x H salt username password = H_ns H salt (H (username @ [58] @ password))"

definition calculate_M ::
    "(bytes \<Rightarrow> bytes) \<Rightarrow> NGConstant \<Rightarrow> bytes \<Rightarrow> nat \<Rightarrow> nat \<Rightarrow> nat \<Rightarrow> bytes \<Rightarrow> bytes" where
  "calculate_M H ng I s A B K =
     (let H_N = hash_num H (ng_N ng); H_g = hash_num H (ng_g ng); H_I = H I;
          H_xor = map (\<lambda>(x, y). x XOR y) (zip H_N H_g)
      in H (H_xor @ H_I @ bn2bin s @ bn2bin A @ bn2bin B @ K))"

definition calculate_H_AMK :: "(bytes \<Rightarrow> bytes) \<Rightarrow> nat \<Rightarrow> bytes \<Rightarrow> bytes \<Rightarrow> bytes" where
  "calculate_H_AMK H A M K = H (bn2bin A @ M @ K)"

section \<open>The client\<close>

record SRPUser =
  usr_ng :: NGConstant
  usr_a :: nat
  usr_A :: nat
  usr_authenticated :: bool
  usr_username :: bytes
  usr_password :: bytes
  usr_M :: bytes
  usr_H_AMK :: bytes
  usr_session_key :: bytes

definition srp_user_new :: "NGConstant \<Rightarrow> bytes \<Rightarrow> bytes \<Rightarrow> SRPUser" where
  "srp_user_new ng username password =
     \<lparr>usr_ng = ng, usr_a = 0, usr_A = 0, usr_authenticated = False, usr_username = username, usr_password = password,
      usr_M = replicate 64 0, usr_H_AMK = replicate 64 0, usr_session_key = replicate 64 0\<rparr>"

text \<open>With the random \<open>a\<close>; the bytes of \<open>A\<close>.\<close>

definition srp_user_start_authentication :: "nat \<Rightarrow> SRPUser \<Rightarrow> SRPUser \<times> bytes" where
  "srp_user_start_authentication a usr =
     (let A = bnum_modexp (int (ng_g (usr_ng usr))) a (ng_N (usr_ng usr))
      in (usr\<lparr>usr_a := a, usr_A := A\<rparr>, bn2bin A))"

text \<open>The proof \<open>M\<close>, unless the safety check fails; \<open>None\<close> when an assertion does.\<close>

definition srp_user_process_challenge ::
    "(bytes \<Rightarrow> bytes) \<Rightarrow> bytes \<Rightarrow> bytes \<Rightarrow> SRPUser \<Rightarrow> (SRPUser \<times> bytes option) option" where
  "srp_user_process_challenge H bytes_s bytes_B usr =
     (let s = bin2bn bytes_s; B = bin2bn bytes_B; ng = usr_ng usr; N = ng_N ng
      in do { k \<leftarrow> H_nn_pad H N (ng_g ng) (ng_N_len ng);
              u \<leftarrow> H_nn_pad H (usr_A usr) B (ng_N_len ng);
              let x = calculate_x H s (usr_username usr) (usr_password usr);
              if B \<noteq> 0 \<and> u \<noteq> 0
              then
                let tmp2 = usr_a usr + u * x;
                    tmp1 = bnum_modexp (int (ng_g ng)) x N;
                    tmp3 = k * tmp1;
                    S = bnum_modexp (int B - int tmp3) tmp2 N;
                    session_key = hash_num H S;
                    M = calculate_M H ng (usr_username usr) s (usr_A usr) B session_key;
                    H_AMK = calculate_H_AMK H (usr_A usr) M session_key
                in Some (usr\<lparr>usr_session_key := session_key, usr_M := M, usr_H_AMK := H_AMK\<rparr>, Some M)
              else Some (usr, None) })"

definition srp_user_verify_session :: "bytes \<Rightarrow> SRPUser \<Rightarrow> SRPUser" where
  "srp_user_verify_session bytes_HAMK usr =
     (if take 64 (usr_H_AMK usr) = take 64 bytes_HAMK then usr\<lparr>usr_authenticated := True\<rparr> else usr)"

section \<open>The server\<close>

text \<open>With the random salt \<open>s\<close>: the bytes of the salt and of the verifier.\<close>

definition srp_create_salted_verification_key ::
    "(bytes \<Rightarrow> bytes) \<Rightarrow> NGConstant \<Rightarrow> nat \<Rightarrow> bytes \<Rightarrow> bytes \<Rightarrow> bytes \<times> bytes" where
  "srp_create_salted_verification_key H ng s username password =
     (let x = calculate_x H s username password; v = bnum_modexp (int (ng_g ng)) x (ng_N ng)
      in (bn2bin s, bn2bin v))"

text \<open>With the random \<open>b\<close>: its bytes and those of \<open>B\<close>.\<close>

definition srp_verifier_start_authentication ::
    "(bytes \<Rightarrow> bytes) \<Rightarrow> NGConstant \<Rightarrow> nat \<Rightarrow> bytes \<Rightarrow> (bytes \<times> bytes) option" where
  "srp_verifier_start_authentication H ng b bytes_v =
     (let v = bin2bn bytes_v
      in do { k \<leftarrow> H_nn_pad H (ng_N ng) (ng_g ng) (ng_N_len ng);
              let tmp1 = k * v;
              let tmp2 = bnum_modexp (int (ng_g ng)) b (ng_N ng);
              let B = (tmp1 + tmp2) mod ng_N ng;
              Some (bn2bin b, bn2bin B) })"

record SRPVerifier =
  ver_M :: bytes
  ver_H_AMK :: bytes
  ver_session_key :: bytes
  ver_authenticated :: bool

text \<open>The inner \<open>None\<close> is the failed safety check.\<close>

definition srp_verifier_new ::
    "(bytes \<Rightarrow> bytes) \<Rightarrow> NGConstant \<Rightarrow> bytes \<Rightarrow> bytes \<Rightarrow> bytes \<Rightarrow> bytes \<Rightarrow> bytes \<Rightarrow> bytes \<Rightarrow> SRPVerifier option option" where
  "srp_verifier_new H ng username bytes_s bytes_v bytes_A bytes_b bytes_B =
     (let s = bin2bn bytes_s; v = bin2bn bytes_v; A = bin2bn bytes_A; b = bin2bn bytes_b; B = bin2bn bytes_B; N = ng_N ng
      in if A mod N = 0 then Some None
         else do { k \<leftarrow> H_nn_pad H N (ng_g ng) (ng_N_len ng);
                   u \<leftarrow> H_nn_pad H A B (ng_N_len ng);
                   let tmp1 = bnum_modexp (int v) u N;
                   let tmp2 = A * tmp1;
                   let S = bnum_modexp (int tmp2) b N;
                   let session_key = hash_num H S;
                   let M = calculate_M H ng username s A B session_key;
                   let H_AMK = calculate_H_AMK H A M session_key;
                   Some (Some \<lparr>ver_M = M, ver_H_AMK = H_AMK, ver_session_key = session_key, ver_authenticated = False\<rparr>) })"

definition srp_verifier_verify_session :: "bytes \<Rightarrow> SRPVerifier \<Rightarrow> SRPVerifier \<times> bytes option" where
  "srp_verifier_verify_session user_M ver =
     (if take 64 (ver_M ver) = take 64 user_M then (ver\<lparr>ver_authenticated := True\<rparr>, Some (ver_H_AMK ver)) else (ver, None))"

section \<open>Both sides agree\<close>

lemma nat_modexp: "N \<noteq> 0 \<Longrightarrow> bnum_modexp (int y) q N = y ^ q mod N"
  by (simp add: bnum_modexp_def nat_mod_distrib nat_power_eq)

lemma modexp_less: "N \<noteq> 0 \<Longrightarrow> bnum_modexp y q N < N"
  by (simp add: bnum_modexp_def nat_less_iff)

text \<open>The base of the client is what is left of \<open>B\<close>: a power of the generator.\<close>

lemma client_base:
  fixes N k g x b :: nat
  assumes "N \<noteq> 0"
  shows "(int ((k * (g ^ x mod N) + g ^ b mod N) mod N) - int (k * (g ^ x mod N))) mod int N = int (g ^ b) mod int N"
proof -
  have "(int ((k * (g ^ x mod N) + g ^ b mod N) mod N) - int (k * (g ^ x mod N))) mod int N =
      (int (k * (g ^ x mod N) + g ^ b mod N) - int (k * (g ^ x mod N))) mod int N"
    by (simp add: zmod_int mod_diff_left_eq)
  also have "\<dots> = int (g ^ b mod N) mod int N" by simp
  also have "\<dots> = int (g ^ b) mod int N" by (simp add: zmod_int)
  finally show ?thesis .
qed

lemma secrets_agree:
  fixes N k g x a b u :: nat
  assumes "N \<noteq> 0"
  shows "bnum_modexp (int ((k * (g ^ x mod N) + g ^ b mod N) mod N) - int (k * (g ^ x mod N))) (a + u * x) N =
     bnum_modexp (int ((g ^ a mod N) * ((g ^ x mod N) ^ u mod N))) b N"
proof -
  have "(int ((k * (g ^ x mod N) + g ^ b mod N) mod N) - int (k * (g ^ x mod N))) ^ (a + u * x) mod int N =
      (int (g ^ b) mod int N) ^ (a + u * x) mod int N"
    by (subst power_mod [symmetric], subst client_base [OF assms]) (rule refl)
  also have "\<dots> = int (g ^ b) ^ (a + u * x) mod int N" by (rule power_mod)
  also have "\<dots> = int (g ^ (b * (a + u * x))) mod int N" by (simp add: power_mult)
  finally have client: "(int ((k * (g ^ x mod N) + g ^ b mod N) mod N) - int (k * (g ^ x mod N))) ^ (a + u * x) mod int N =
      int (g ^ (b * (a + u * x)) mod N)" by (simp add: zmod_int)
  have "((g ^ a mod N) * ((g ^ x mod N) ^ u mod N)) ^ b mod N = (g ^ a * (g ^ x) ^ u) ^ b mod N"
    by (metis mod_mult_eq power_mod)
  also have "(g ^ a * (g ^ x) ^ u) ^ b = g ^ (a * b + x * u * b)"
    by (simp add: power_add power_mult power_mult_distrib)
  also have "a * b + x * u * b = b * (a + u * x)" by (simp add: algebra_simps)
  finally have server: "((g ^ a mod N) * ((g ^ x mod N) ^ u mod N)) ^ b mod N = g ^ (b * (a + u * x)) mod N" .
  show ?thesis
    unfolding nat_modexp [OF assms] server by (simp add: bnum_modexp_def client del: of_nat_mult of_nat_add of_nat_power)
qed

text \<open>A hash of 64 bytes, and a group whose numbers fit its length.\<close>

definition hash_ok :: "(bytes \<Rightarrow> bytes) \<Rightarrow> bool" where
  "hash_ok H \<longleftrightarrow> (\<forall>bs. length (H bs) = 64)"

definition group_ok :: "NGConstant \<Rightarrow> bool" where
  "group_ok ng \<longleftrightarrow> 1 < ng_N ng \<and> ng_N ng < 256 ^ ng_N_len ng \<and> ng_g ng < ng_N ng"

text \<open>What the client and the server have computed at the end of an exchange with the same password.\<close>

definition same_secret :: "(bytes \<Rightarrow> bytes) \<Rightarrow> SRPUser \<Rightarrow> SRPVerifier \<Rightarrow> bool" where
  "same_secret H usr ver \<longleftrightarrow> usr_session_key usr = ver_session_key ver \<and> usr_M usr = ver_M ver \<and> usr_H_AMK usr = ver_H_AMK ver"

lemma length_M: "hash_ok H \<Longrightarrow> length (calculate_M H ng I s A B K) = 64"
  by (simp add: hash_ok_def calculate_M_def Let_def)

lemma length_H_AMK: "hash_ok H \<Longrightarrow> length (calculate_H_AMK H A M K) = 64"
  by (simp add: hash_ok_def calculate_H_AMK_def)

text \<open>
  The exchange: the server makes salt, verifier and \<open>B\<close>, the client \<open>A\<close> and its proof, and the server
  checks the proof and returns its own, which the client accepts. The numbers must not be such that a
  safety check fails.
\<close>

lemma srp_exchange:
  assumes "hash_ok H" and "group_ok ng"
    and v: "srp_create_salted_verification_key H ng s username password = (bytes_s, bytes_v)"
    and B: "srp_verifier_start_authentication H ng b bytes_v = Some (bytes_b, bytes_B)"
    and A: "srp_user_start_authentication a (srp_user_new ng username password) = (usr, bytes_A)"
    and safe: "bin2bn bytes_B \<noteq> 0" "bin2bn bytes_A \<noteq> 0" "H_nn_pad H (bin2bn bytes_A) (bin2bn bytes_B) (ng_N_len ng) \<noteq> Some 0"
  obtains usr' ver M where "srp_user_process_challenge H bytes_s bytes_B usr = Some (usr', Some M)"
    and "srp_verifier_new H ng username bytes_s bytes_v bytes_A bytes_b bytes_B = Some (Some ver)"
    and "same_secret H usr' ver" and "M = ver_M ver" and "length M = 64" and "length (ver_H_AMK ver) = 64"
    and "length (ver_session_key ver) = 64" and "length bytes_A \<le> ng_N_len ng" and "length bytes_B \<le> ng_N_len ng"
proof -
  let ?N = "ng_N ng" and ?g = "ng_g ng"
  have N: "?N \<noteq> 0" "?N < 256 ^ ng_N_len ng" using assms(2) by (simp_all add: group_ok_def)
  define x where "x = calculate_x H s username password"
  have bs: "bytes_s = bn2bin s" "bytes_v = bn2bin (?g ^ x mod ?N)"
    using v by (simp_all add: srp_create_salted_verification_key_def Let_def x_def nat_modexp [OF N(1)])
  have fits: "num_bytes n \<le> ng_N_len ng" if "n < ?N" for n
    using num_bytes_le [of n "ng_N_len ng"] N(2) that by simp
  have fitsN: "num_bytes ?N \<le> ng_N_len ng" "num_bytes ?g \<le> ng_N_len ng"
    using num_bytes_le [of ?N "ng_N_len ng"] N(2) fits assms(2) by (simp_all add: group_ok_def)
  obtain k where k: "H_nn_pad H ?N ?g (ng_N_len ng) = Some k" using fitsN by (simp add: H_nn_pad_def)
  let ?B = "(k * (?g ^ x mod ?N) + ?g ^ b mod ?N) mod ?N" and ?A = "?g ^ a mod ?N"
  have bB: "bytes_b = bn2bin b" "bytes_B = bn2bin ?B"
    using B k by (simp_all add: srp_verifier_start_authentication_def bs nat_modexp [OF N(1)] Let_def)
  have bA: "bytes_A = bn2bin ?A" "usr = (srp_user_new ng username password)\<lparr>usr_a := a, usr_A := ?A\<rparr>"
    using A by (simp_all add: srp_user_start_authentication_def Let_def srp_user_new_def nat_modexp [OF N(1)])
  have AB: "num_bytes ?A \<le> ng_N_len ng" "num_bytes ?B \<le> ng_N_len ng" using fits N(1) by simp_all
  then obtain u where u: "H_nn_pad H ?A ?B (ng_N_len ng) = Some u" by (simp add: H_nn_pad_def)
  define S where "S = bnum_modexp (int (?A * ((?g ^ x mod ?N) ^ u mod ?N))) b ?N"
  define K where "K = hash_num H S"
  define M where "M = calculate_M H ng username s ?A ?B K"
  define Q where "Q = calculate_H_AMK H ?A M K"
  have S: "bnum_modexp (int ?B - int (k * (?g ^ x mod ?N))) (a + u * x) ?N = S"
    unfolding S_def by (rule secrets_agree [OF N(1)])
  have safe': "?B \<noteq> 0" "u \<noteq> 0" "?A mod ?N \<noteq> 0" using safe u by (simp_all add: bB bA)
  let ?usr = "usr\<lparr>usr_session_key := K, usr_M := M, usr_H_AMK := Q\<rparr>"
  let ?ver = "\<lparr>ver_M = M, ver_H_AMK = Q, ver_session_key = K, ver_authenticated = False\<rparr>"
  have usr: "srp_user_process_challenge H bytes_s bytes_B usr = Some (?usr, Some M)"
    using k u safe'(1,2)
    by (simp add: srp_user_process_challenge_def bs bB bA srp_user_new_def Let_def nat_modexp [OF N(1)] S
        del: of_nat_mult of_nat_add flip: x_def K_def M_def Q_def)
  have ver: "srp_verifier_new H ng username bytes_s bytes_v bytes_A bytes_b bytes_B = Some (Some ?ver)"
    using k u safe'(3)
    by (simp add: srp_verifier_new_def bs bB bA Let_def nat_modexp [OF N(1), of "_ mod _"] del: of_nat_mult of_nat_add flip: S_def K_def M_def Q_def)
  show ?thesis
  proof (rule that [OF usr ver])
    show "same_secret H ?usr ?ver" by (simp add: same_secret_def)
    show "length M = 64" "length (ver_H_AMK ?ver) = 64" "length (ver_session_key ?ver) = 64"
      using length_M [OF assms(1)] length_H_AMK [OF assms(1)] assms(1)
      by (simp_all add: M_def Q_def K_def hash_num_def hash_ok_def)
    show "length bytes_A \<le> ng_N_len ng" "length bytes_B \<le> ng_N_len ng"
      using AB by (simp_all add: bA bB num_bytes_def)
  qed simp
qed

text \<open>Each accepts the proof of the other.\<close>

lemma proofs_accepted:
  assumes "same_secret H usr ver" and "M = ver_M ver"
  shows "srp_verifier_verify_session M ver = (ver\<lparr>ver_authenticated := True\<rparr>, Some (ver_H_AMK ver))"
    and "srp_user_verify_session (ver_H_AMK ver) usr = usr\<lparr>usr_authenticated := True\<rparr>"
  using assms by (simp_all add: srp_verifier_verify_session_def srp_user_verify_session_def same_secret_def)

end
