(* ===== verification/Pair_Setup.thy ===== *)
theory Pair_Setup
  imports Pair_Verify Pair_Srp
begin

text \<open>
  Pair-setup of AirPlay 2: the messages of both ends (\<open>pair_ap/pair_homekit.c\<close>) and the dispatch for a
  server (\<open>pair_ap/pair.c\<close>). Random numbers and key pairs are arguments.
\<close>

definition USERNAME :: bytes where
  "USERNAME = ascii ''Pair-Setup''"

definition default_pin :: bytes where
  "default_pin = ascii ''3939''"

definition PairingFlagsTransient :: u8 where
  "PairingFlagsTransient = 0x10"

section \<open>The server\<close>

text \<open>
  \<open>M2\<close> is the pointer into the verifier, \<open>M2_len\<close> the length noted for it; \<open>result_device_id\<close> is the block
  of 64 bytes of the result; \<open>added\<close> are the calls of the callback \<open>add_cb\<close>, the last one first, if there
  is a callback.
\<close>

record server_setup_context =
  setup_status :: pair_status
  result_setup_secret :: bytes
  result_device_id :: bytes
  result_client_public_key :: bytes
  verifier :: "SRPVerifier option"
  pin :: bytes
  setup_device_id :: bytes
  added :: "(bytes \<times> bytes) list option"
  setup_public_key :: bytes
  setup_private_key :: bytes
  is_transient :: bool
  pkA :: bytes
  pkB :: bytes
  secret_b :: bytes
  M1 :: bytes
  M2 :: "bytes option"
  M2_len :: nat
  pin_verifier :: bytes
  salt :: bytes

definition server_setup_new :: "crypto \<Rightarrow> bytes option \<Rightarrow> bool \<Rightarrow> bytes \<Rightarrow> server_setup_context option" where
  "server_setup_new C the_pin with_cb ident =
     (if length ident \<ge> PAIR_AP_DEVICE_ID_LEN_MAX then None
      else let (pk, sk) = server_keypair C ident
           in Some \<lparr>setup_status = PAIR_STATUS_IN_PROGRESS, result_setup_secret = [], result_device_id = replicate 64 0,
                result_client_public_key = replicate 32 0, verifier = None,
                pin = (case the_pin of None \<Rightarrow> default_pin | Some p \<Rightarrow> p), setup_device_id = ident,
                added = (if with_cb then Some [] else None), setup_public_key = pk, setup_private_key = sk,
                is_transient = False, pkA = [], pkB = [], secret_b = [], M1 = [], M2 = None, M2_len = 0,
                pin_verifier = [], salt = []\<rparr>)"

definition setup_invalid :: "server_setup_context \<Rightarrow> server_setup_context" where
  "setup_invalid c = c\<lparr>setup_status := PAIR_STATUS_INVALID\<rparr>"

text \<open>A step that is undefined where an assertion fails or \<open>NULL\<close> is read.\<close>

definition or_undefined :: "'a option \<Rightarrow> ('c, 'a) step" where
  "or_undefined x c = (case x of None \<Rightarrow> None | Some y \<Rightarrow> Some (c, Some y))"

lemmas [step_simps] = or_undefined_def

text \<open>The first request, with the random salt and the random secret of the server.\<close>

definition server_setup_request1 :: "crypto \<Rightarrow> nat \<Rightarrow> nat \<Rightarrow> bytes \<Rightarrow> (server_setup_context, unit) step" where
  "server_setup_request1 C s b data =
     next_do (process_or_error setup_invalid data) (\<lambda>request.
     next_do (check setup_invalid (get_value request TLVType_Method = Some [0])) (\<lambda>_.
     next_do (change (\<lambda>c. c\<lparr>is_transient := (get_value request TLVType_Flags = Some [PairingFlagsTransient])\<rparr>)) (\<lambda>_.
     next_do (change (\<lambda>c.
       let (bytes_s, bytes_v) = srp_create_salted_verification_key (sha512 C) new_ng s USERNAME (pin c)
       in c\<lparr>salt := bytes_s, pin_verifier := bytes_v\<rparr>)) (\<lambda>_.
     next_do (\<lambda>c. or_undefined (srp_verifier_start_authentication (sha512 C) new_ng b (pin_verifier c)) c)
       (\<lambda>(bytes_b, bytes_B). change (\<lambda>c. c\<lparr>secret_b := bytes_b, pkB := bytes_B\<rparr>))))))"

definition server_setup_request2 :: "crypto \<Rightarrow> bytes \<Rightarrow> (server_setup_context, unit) step" where
  "server_setup_request2 C data =
     next_do (process_or_error setup_invalid data) (\<lambda>request.
     next_do (or_error setup_invalid (get_value request TLVType_PublicKey)) (\<lambda>pk.
     next_do (check setup_invalid (length pk \<le> ng_N_len new_ng)) (\<lambda>_.
     next_do (or_error setup_invalid (get_value request TLVType_Proof)) (\<lambda>proof.
     next_do (check setup_invalid (length proof = SHA512_DIGEST_LENGTH)) (\<lambda>_.
     next_do (change (\<lambda>c. c\<lparr>pkA := pk, M1 := proof\<rparr>)) (\<lambda>_.
     next_do (\<lambda>c. or_undefined (srp_verifier_new (sha512 C) new_ng USERNAME (salt c) (pin_verifier c) (pkA c) (secret_b c) (pkB c)) c)
       (\<lambda>ver. change (\<lambda>c.
          case ver of
            None \<Rightarrow> c\<lparr>verifier := None, setup_status := PAIR_STATUS_AUTH_FAILED\<rparr>
          | Some ver \<Rightarrow>
              let (ver, hamk) = srp_verifier_verify_session (M1 c) ver;
                  c = c\<lparr>verifier := Some ver, M2_len := SHA512_DIGEST_LENGTH, M2 := hamk\<rparr>
              in if hamk = None then c\<lparr>setup_status := PAIR_STATUS_AUTH_FAILED\<rparr> else c))))))))"

text \<open>\<open>srp_verifier_get_session_key\<close>: the verifier is read without a test whether there is one.\<close>

definition srp_verifier_get_session_key :: "server_setup_context \<Rightarrow> bytes option" where
  "srp_verifier_get_session_key c = map_option ver_session_key (verifier c)"

definition overwrite :: "bytes \<Rightarrow> bytes \<Rightarrow> bytes" where
  "overwrite block new = new @ drop (length new) block"

definition server_setup_request3 :: "crypto \<Rightarrow> bytes \<Rightarrow> (server_setup_context, unit) step" where
  "server_setup_request3 C data =
     next_do (process_or_error setup_invalid data) (\<lambda>request.
     next_do (\<lambda>c. or_undefined (srp_verifier_get_session_key c) c) (\<lambda>session_key.
     next_do (or_error setup_invalid (hkdf_extract_expand C 32 session_key PAIR_SETUP_MSG05)) (\<lambda>derived_key.
     next_do (or_error setup_invalid (get_value request TLVType_EncryptedData)) (\<lambda>encrypted_data.
     next_do (or_error setup_invalid (open_message C derived_key PAIR_SETUP_MSG05 encrypted_data)) (\<lambda>decrypted_data.
     next_do (process_or_error setup_invalid decrypted_data) (\<lambda>request.
     next_do (or_error setup_invalid (hkdf_extract_expand C 32 session_key PAIR_SETUP_CONTROLLER_SIGN)) (\<lambda>device_x.
     next_do (or_error setup_invalid (get_value request TLVType_Identifier)) (\<lambda>ident.
     next_do (or_error setup_invalid (get_value request TLVType_PublicKey)) (\<lambda>pk.
     next_do (or_error setup_invalid (get_value request TLVType_Signature)) (\<lambda>signature.
     next_do (check setup_invalid (length ident < PAIR_AP_DEVICE_ID_LEN_MAX \<and> length pk = 32 \<and> length signature = 64)) (\<lambda>_.
       change (\<lambda>c. if verify_info C signature pk device_x ident pk
                   then c\<lparr>result_device_id := overwrite (result_device_id c) ident, result_client_public_key := pk\<rparr>
                   else c\<lparr>setup_status := PAIR_STATUS_AUTH_FAILED\<rparr>))))))))))))"

definition server_setup_response1 :: "(server_setup_context, bytes) step" where
  "server_setup_response1 c =
     (if setup_status c = PAIR_STATUS_AUTH_FAILED then return_ok (server_auth_failed_response PAIR_SETUP_MSG02) c
      else or_error setup_invalid (tlv_format [(TLVType_State, [key_state PAIR_SETUP_MSG02]), (TLVType_Salt, salt c),
             (TLVType_PublicKey, pkB c)] REQUEST_BUFSIZE) c)"

text \<open>The value of \<open>M2\<close> as \<open>pair_tlv_add_value\<close> copies it: from \<open>NULL\<close> when only its length has been set.\<close>

definition M2_value :: "server_setup_context \<Rightarrow> bytes option" where
  "M2_value c = (case M2 c of Some m \<Rightarrow> Some m | None \<Rightarrow> if M2_len c = 0 then Some [] else None)"

definition server_setup_response2 :: "(server_setup_context, bytes) step" where
  "server_setup_response2 c =
     (if setup_status c = PAIR_STATUS_AUTH_FAILED then return_ok (server_auth_failed_response PAIR_SETUP_MSG04) c
      else
        next_do (or_undefined (M2_value c)) (\<lambda>m2.
        next_do (or_error setup_invalid (tlv_format [(TLVType_State, [key_state PAIR_SETUP_MSG04]), (TLVType_Proof, m2)]
                   REQUEST_BUFSIZE)) (\<lambda>data.
        if is_transient c
        then next_do (\<lambda>c. or_undefined (srp_verifier_get_session_key c) c) (\<lambda>session_key.
             next_do (change (\<lambda>c. c\<lparr>result_setup_secret := session_key, setup_status := PAIR_STATUS_COMPLETED\<rparr>)) (\<lambda>_.
               return_ok data))
        else return_ok data)) c)"

text \<open>The signed identity with the public key behind it, and the message it is sealed in.\<close>

definition signed_with_key :: "crypto \<Rightarrow> bytes \<Rightarrow> bytes \<Rightarrow> bytes \<Rightarrow> bytes \<Rightarrow> bytes option" where
  "signed_with_key C ident device_x pk sk =
     do { data \<leftarrow> create_and_sign_device_info C REQUEST_BUFSIZE ident device_x pk sk;
          append \<leftarrow> tlv_format [(TLVType_PublicKey, pk)] (REQUEST_BUFSIZE - length data);
          Some (data @ append) }"

definition sealed_identity ::
    "crypto \<Rightarrow> pair_keys \<Rightarrow> pair_keys \<Rightarrow> bytes \<Rightarrow> bytes \<Rightarrow> bytes \<Rightarrow> bytes \<Rightarrow> bytes option" where
  "sealed_identity C sign_key msg_state session_key ident pk sk =
     do { device_x \<leftarrow> hkdf_extract_expand C 32 session_key sign_key;
          data \<leftarrow> signed_with_key C ident device_x pk sk;
          derived_key \<leftarrow> hkdf_extract_expand C 32 session_key msg_state;
          encrypted_data \<leftarrow> seal_message C derived_key msg_state data;
          tlv_format [(TLVType_State, [key_state msg_state]), (TLVType_EncryptedData, encrypted_data)] REQUEST_BUFSIZE }"

definition server_setup_response3 :: "crypto \<Rightarrow> (server_setup_context, bytes) step" where
  "server_setup_response3 C c =
     (if setup_status c = PAIR_STATUS_AUTH_FAILED then return_ok (server_auth_failed_response PAIR_SETUP_MSG06) c
      else
        next_do (or_undefined (srp_verifier_get_session_key c)) (\<lambda>session_key.
        next_do (or_error setup_invalid (sealed_identity C PAIR_SETUP_ACCESSORY_SIGN PAIR_SETUP_MSG06 session_key
                   (setup_device_id c) (setup_public_key c) (setup_private_key c))) (\<lambda>data.
        next_do (change (\<lambda>c. c\<lparr>added := map_option (\<lambda>calls.
                   (takeWhile (\<lambda>b. b \<noteq> 0) (result_device_id c), result_client_public_key c) # calls) (added c),
                   setup_status := PAIR_STATUS_COMPLETED\<rparr>)) (\<lambda>_.
          return_ok data))) c)"

text \<open>\<open>pair_setup\<close> for a server, as \<open>pair_verify_server\<close>.\<close>

definition pair_setup_server ::
    "crypto \<Rightarrow> nat \<Rightarrow> nat \<Rightarrow> bytes \<Rightarrow> server_setup_context \<Rightarrow> (server_setup_context \<times> bytes option \<times> bool) option" where
  "pair_setup_server C s b data c =
     (case state_get data of
        None \<Rightarrow> None
      | Some None \<Rightarrow> Some (c, None, False)
      | Some (Some state) \<Rightarrow>
          let reply = map_option (\<lambda>(c, out). (c, out, out \<noteq> None)) in
          if state = 0 then map_option (\<lambda>(c, out). (c, out, False)) (server_setup_response1 c)
          else if state = 1 then reply (next_do (server_setup_request1 C s b data) (\<lambda>_. server_setup_response1) c)
          else if state = 2 then reply (next_do (server_setup_request1 C s b data) (\<lambda>_. server_setup_response2) c)
          else if state = 3 then reply (next_do (server_setup_request2 C data) (\<lambda>_. server_setup_response2) c)
          else if state = 4 then reply (next_do (server_setup_request2 C data) (\<lambda>_. server_setup_response3 C) c)
          else if state = 5 then reply (next_do (server_setup_request3 C data) (\<lambda>_. server_setup_response3 C) c)
          else if state = 6 then map_option (\<lambda>(c, out). (c, None, False)) (server_setup_request3 C data c)
          else Some (c, None, False))"

definition pair_setup_result :: "server_setup_context \<Rightarrow> bytes option" where
  "pair_setup_result c = (if setup_status c = PAIR_STATUS_COMPLETED then Some (result_setup_secret c) else None)"

section \<open>The client\<close>

text \<open>\<open>transient\<close>: the type is \<open>pair_client_homekit_transient\<close>; the result has the device and the key of the server.\<close>

record client_setup_context =
  transient :: bool
  cs_status :: pair_status
  cs_result_secret :: bytes
  cs_result_device_id :: bytes
  cs_result_server_key :: bytes
  cs_user :: "SRPUser option"
  cs_pin :: bytes
  cs_device_id :: bytes
  cs_public_key :: bytes
  cs_private_key :: bytes
  cs_pkB :: bytes
  cs_salt :: bytes

definition client_setup_new :: "bool \<Rightarrow> bytes option \<Rightarrow> bytes option \<Rightarrow> bytes \<times> bytes \<Rightarrow> client_setup_context option" where
  "client_setup_new as_transient the_pin ident keypair =
     (if the_pin = None \<and> \<not> as_transient then None
      else if (case ident of None \<Rightarrow> False | Some i \<Rightarrow> length i \<ge> PAIR_AP_DEVICE_ID_LEN_MAX) then None
      else Some \<lparr>transient = as_transient, cs_status = PAIR_STATUS_IN_PROGRESS, cs_result_secret = [],
             cs_result_device_id = replicate 64 0, cs_result_server_key = replicate 32 0, cs_user = None,
             cs_pin = (case the_pin of None \<Rightarrow> default_pin | Some p \<Rightarrow> p),
             cs_device_id = (case ident of None \<Rightarrow> [] | Some i \<Rightarrow> i),
             cs_public_key = fst keypair, cs_private_key = snd keypair, cs_pkB = [], cs_salt = []\<rparr>)"

definition client_setup_request1 :: "(client_setup_context, bytes) step" where
  "client_setup_request1 =
     next_do (change (\<lambda>c. c\<lparr>cs_user := Some (srp_user_new new_ng USERNAME (cs_pin c))\<rparr>)) (\<lambda>_ c.
       or_error id (tlv_format ([(TLVType_State, [key_state PAIR_SETUP_MSG01]), (TLVType_Method, [0])] @
         (if transient c then [(TLVType_Flags, [PairingFlagsTransient])] else [])) REQUEST_BUFSIZE) c)"

text \<open>The second request, with the random secret of the client. A proof that was not made has no bytes.\<close>

definition client_setup_request2 :: "crypto \<Rightarrow> nat \<Rightarrow> (client_setup_context, bytes) step" where
  "client_setup_request2 C a =
     next_do (\<lambda>c. or_undefined (cs_user c) c) (\<lambda>usr.
     let (usr, bytes_A) = srp_user_start_authentication a usr in
     next_do (\<lambda>c. or_undefined (srp_user_process_challenge (sha512 C) (cs_salt c) (cs_pkB c) usr) c) (\<lambda>(usr, m1).
     next_do (change (\<lambda>c. c\<lparr>cs_user := Some usr\<rparr>)) (\<lambda>_.
       or_error id (tlv_format [(TLVType_State, [key_state PAIR_SETUP_MSG03]), (TLVType_PublicKey, bytes_A),
         (TLVType_Proof, case m1 of None \<Rightarrow> [] | Some m \<Rightarrow> m)] REQUEST_BUFSIZE))))"

definition client_setup_request3 :: "crypto \<Rightarrow> (client_setup_context, bytes) step" where
  "client_setup_request3 C =
     next_do (\<lambda>c. or_undefined (cs_user c) c) (\<lambda>usr c.
       or_error id (sealed_identity C PAIR_SETUP_CONTROLLER_SIGN PAIR_SETUP_MSG05 (usr_session_key usr)
         (cs_device_id c) (cs_public_key c) (cs_private_key c)) c)"

definition client_setup_response1 :: "bytes \<Rightarrow> (client_setup_context, unit) step" where
  "client_setup_response1 data =
     next_do (process_or_error id data) (\<lambda>response.
     next_do (or_error id (get_value response TLVType_PublicKey)) (\<lambda>pk.
     next_do (check id (length pk \<le> ng_N_len new_ng)) (\<lambda>_.
     next_do (or_error id (get_value response TLVType_Salt)) (\<lambda>s.
     next_do (check id (length s = 16)) (\<lambda>_.
       change (\<lambda>c. c\<lparr>cs_pkB := pk, cs_salt := s\<rparr>))))))"

definition client_setup_response2 :: "bytes \<Rightarrow> (client_setup_context, unit) step" where
  "client_setup_response2 data =
     next_do (process_or_error id data) (\<lambda>response.
     next_do (or_error id (get_value response TLVType_Proof)) (\<lambda>proof.
     next_do (check id (length proof = SHA512_DIGEST_LENGTH)) (\<lambda>_.
     next_do (\<lambda>c. or_undefined (cs_user c) c) (\<lambda>usr.
     let usr = srp_user_verify_session proof usr in
     next_do (change (\<lambda>c. c\<lparr>cs_user := Some usr\<rparr>)) (\<lambda>_.
     next_do (check id (usr_authenticated usr)) (\<lambda>_.
       change (\<lambda>c. if transient c then c\<lparr>cs_result_secret := usr_session_key usr, cs_status := PAIR_STATUS_COMPLETED\<rparr> else c)))))))"

definition client_setup_response3 :: "crypto \<Rightarrow> bytes \<Rightarrow> (client_setup_context, unit) step" where
  "client_setup_response3 C data =
     next_do (process_or_error id data) (\<lambda>response.
     next_do (or_error id (get_value response TLVType_EncryptedData)) (\<lambda>encrypted_data.
     next_do (\<lambda>c. or_undefined (cs_user c) c) (\<lambda>usr.
     next_do (or_error id (hkdf_extract_expand C 32 (usr_session_key usr) PAIR_SETUP_MSG06)) (\<lambda>derived_key.
     next_do (or_error id (open_message C derived_key PAIR_SETUP_MSG06 encrypted_data)) (\<lambda>decrypted_data.
     next_do (process_or_error id decrypted_data) (\<lambda>response.
     next_do (or_error id (hkdf_extract_expand C 32 (usr_session_key usr) PAIR_SETUP_ACCESSORY_SIGN)) (\<lambda>device_x.
     next_do (or_error id (get_value response TLVType_Identifier)) (\<lambda>ident.
     next_do (or_error id (get_value response TLVType_PublicKey)) (\<lambda>pk.
     next_do (or_error id (get_value response TLVType_Signature)) (\<lambda>signature.
     next_do (check id (length ident < PAIR_AP_DEVICE_ID_LEN_MAX \<and> length pk = 32 \<and> length signature = 64)) (\<lambda>_.
     next_do (check id (verify_info C signature pk device_x ident pk)) (\<lambda>_.
       change (\<lambda>c. c\<lparr>cs_result_server_key := pk, cs_result_device_id := overwrite (cs_result_device_id c) ident,
                    cs_status := PAIR_STATUS_COMPLETED\<rparr>)))))))))))))"

end
