(* ===== verification/Pair_Handshake.thy ===== *)
theory Pair_Handshake
  imports Pair_Verify
begin

text \<open>
  Pair-verify between a client and a server that keep to the protocol, and what a client that does not
  keep to it can reach.
\<close>

section \<open>What the libraries promise\<close>

definition sign_ok :: "crypto \<Rightarrow> bool" where
  "sign_ok C \<longleftrightarrow>
     (\<forall>m sk. length (sign_detached C m sk) = 64 \<and> verify_detached C (sign_detached C m sk) m (sk_to_pk C sk)) \<and>
     (\<forall>sk. length (sk_to_pk C sk) = 32) \<and>
     (\<forall>seed. fst (seed_keypair C seed) = sk_to_pk C (snd (seed_keypair C seed)))"

text \<open>Two key pairs, public key first, agree on a secret: X25519 commutes.\<close>

definition agree :: "crypto \<Rightarrow> bytes \<times> bytes \<Rightarrow> bytes \<times> bytes \<Rightarrow> bytes \<Rightarrow> bool" where
  "agree C a b secret \<longleftrightarrow>
     length (fst a) = 32 \<and> length (fst b) = 32 \<and>
     scalarmult C (snd a) (fst b) = Some secret \<and> scalarmult C (snd b) (fst a) = Some secret"

section \<open>Messages\<close>

lemma get_value_message [simp]:
  "get_value (tlv_message []) ty = None"
  "get_value (tlv_message ((ty', v) # items)) ty = (if ty' = ty then Some v else get_value (tlv_message items) ty)"
  by (simp_all add: get_value_def tlv_message_def)

text \<open>A message that is well formed is taken apart again by its reader.\<close>

lemma format_process:
  assumes "tlv_separable (tlv_message items)" and "tlv_required_size (tlv_message items) \<le> room"
    and "get_value (tlv_message items) TLVType_Error = None"
  obtains data where "tlv_format items room = Some data" and "message_process data = Some (Some (tlv_message items))"
    and "length data = tlv_required_size (tlv_message items)"
proof -
  obtain bs where bs: "pair_tlv_format (tlv_message items) room = (length bs, Inr bs)"
    "length bs = tlv_required_size (tlv_message items)"
    using assms(2) length_tlv_format_items [OF assms(1)] by (simp add: pair_tlv_format_def)
  then have "bs = tlv_format_items (tlv_message items)" using assms(2) by (simp add: pair_tlv_format_def)
  then have "pair_tlv_parse (\<lambda>_. True) bs [] = Some (Tlv_ok (tlv_message items))"
    using tlv_parse_loop_format [of "\<lambda>_. True" "tlv_message items" "[]" "[]"] assms(1) by (simp add: pair_tlv_parse_def)
  then show ?thesis
    using assms(3) bs by (intro that [of bs]) (simp_all add: tlv_format_def message_process_def pair_tlv_new_def get_value_def)
qed

lemma sealed_opened:
  assumes "aead_ok C" and "length key = 32"
  obtains e where "seal_message C key k data = Some e" and "length e = length data + 16" and "open_message C key k e = Some data"
proof -
  obtain c t where "seal C key (key_nonce k) [] data = Some (c, t)" "length c = length data" "length t = 16"
    "unseal C key (key_nonce k) [] c t = Some data"
    by (rule aead_okE [OF assms length_key_nonce])
  then show ?thesis
    by (intro that [of "c @ t"])
      (simp_all add: seal_message_def open_message_def encrypt_chacha_def decrypt_chacha_def AUTHTAG_LENGTH_def Let_def)
qed

lemma verify_keys:
  assumes "hkdf_ok C"
  obtains key where "hkdf_extract_expand C 32 ikm PAIR_VERIFY_MSG02 = Some key" "length key = 32"
    and "\<And>thesis. (\<And>key'. hkdf_extract_expand C 32 ikm PAIR_VERIFY_MSG03 = Some key' \<Longrightarrow> length key' = 32 \<Longrightarrow> thesis) \<Longrightarrow> thesis"
proof -
  obtain key where "hkdf_extract_expand C 32 ikm PAIR_VERIFY_MSG02 = Some key" "length key = 32"
    by (rule derived_key [OF assms, of PAIR_VERIFY_MSG02]) simp
  moreover obtain key' where "hkdf_extract_expand C 32 ikm PAIR_VERIFY_MSG03 = Some key'" "length key' = 32"
    by (rule derived_key [OF assms, of PAIR_VERIFY_MSG03]) simp
  ultimately show ?thesis using that by blast
qed

text \<open>The signed identity of one end.\<close>

lemma required_size_append: "tlv_required_size (tlv_message ((ty, v) # items)) =
    length v + 2 * ((length v + 254) div 255) + tlv_required_size (tlv_message items)"
  by (simp add: tlv_message_def)

lemma separable_two:
  "v \<noteq> [] \<Longrightarrow> w \<noteq> [] \<Longrightarrow> ty \<noteq> ty' \<Longrightarrow> tlv_separable (tlv_message [(ty, v), (ty', w)])"
  by (simp add: tlv_message_def)

lemma signed_identity:
  assumes "sign_ok C" and "ident \<noteq> []" and "length ident < 64"
  obtains data where "tlv_format [(TLVType_Identifier, ident), (TLVType_Signature, sign_detached C info sk)] REQUEST_BUFSIZE = Some data"
    and "message_process data = Some (Some (tlv_message [(TLVType_Identifier, ident), (TLVType_Signature, sign_detached C info sk)]))"
    and "length data \<le> 140"
proof (rule format_process)
  have len: "length (sign_detached C info sk) = 64" using assms(1) by (simp add: sign_ok_def)
  then have "sign_detached C info sk \<noteq> []" by auto
  then show "tlv_separable (tlv_message [(TLVType_Identifier, ident), (TLVType_Signature, sign_detached C info sk)])"
    using assms(2) by (intro separable_two) (simp_all add: tlv_types)
  have size: "tlv_required_size (tlv_message [(TLVType_Identifier, ident), (TLVType_Signature, sign_detached C info sk)]) \<le> 140"
    using len assms(3) by (simp add: tlv_message_def)
  then show "tlv_required_size (tlv_message [(TLVType_Identifier, ident), (TLVType_Signature, sign_detached C info sk)]) \<le> REQUEST_BUFSIZE"
    by (simp add: REQUEST_BUFSIZE_def)
  show "get_value (tlv_message [(TLVType_Identifier, ident), (TLVType_Signature, sign_detached C info sk)]) TLVType_Error = None"
    by (simp add: tlv_types)
  fix data
  assume "tlv_format [(TLVType_Identifier, ident), (TLVType_Signature, sign_detached C info sk)] REQUEST_BUFSIZE = Some data"
    "message_process data = Some (Some (tlv_message [(TLVType_Identifier, ident), (TLVType_Signature, sign_detached C info sk)]))"
    "length data = tlv_required_size (tlv_message [(TLVType_Identifier, ident), (TLVType_Signature, sign_detached C info sk)])"
  then show ?thesis using size that by simp
qed

lemma state_of_message:
  assumes "message_process m = Some (Some (tlv_message ((TLVType_State, [n]) # items)))" and "m \<noteq> []"
  shows "state_get m = Some (Some (unat n))"
  using assms by (simp add: state_get_def)

text \<open>A message with its state, a key, and what is encrypted behind it.\<close>

lemma state_message:
  assumes "tlv_separable (tlv_message ((TLVType_State, [n]) # items))" and "tlv_required_size (tlv_message items) \<le> 4000"
    and "get_value (tlv_message items) TLVType_Error = None"
  obtains m where "tlv_format ((TLVType_State, [n]) # items) REQUEST_BUFSIZE = Some m"
    and "message_process m = Some (Some (tlv_message ((TLVType_State, [n]) # items)))" and "state_get m = Some (Some (unat n))"
proof -
  have "tlv_required_size (tlv_message ((TLVType_State, [n]) # items)) \<le> REQUEST_BUFSIZE"
    using assms(2) by (simp add: required_size_append REQUEST_BUFSIZE_def)
  moreover have "get_value (tlv_message ((TLVType_State, [n]) # items)) TLVType_Error = None"
    using assms(3) by (simp add: tlv_types)
  ultimately obtain m where m: "tlv_format ((TLVType_State, [n]) # items) REQUEST_BUFSIZE = Some m"
    "message_process m = Some (Some (tlv_message ((TLVType_State, [n]) # items)))"
    "length m = tlv_required_size (tlv_message ((TLVType_State, [n]) # items))"
    by (rule format_process [OF assms(1)])
  then have "m \<noteq> []" by (auto simp: required_size_append)
  with m state_of_message show ?thesis using that by blast
qed

section \<open>The conversation\<close>

lemma client_says_key:
  assumes "length (fst keypair) = 32"
  obtains m where "client_verify_request1 keypair c =
      Some (c\<lparr>cl_eph_public_key := fst keypair, cl_eph_private_key := snd keypair\<rparr>, Some m)"
    and "message_process m = Some (Some (tlv_message [(TLVType_State, [1]), (TLVType_PublicKey, fst keypair)]))"
    and "state_get m = Some (Some 1)"
proof -
  have "fst keypair \<noteq> []" using assms by auto
  then obtain m where "tlv_format [(TLVType_State, [1]), (TLVType_PublicKey, fst keypair)] REQUEST_BUFSIZE = Some m"
    "message_process m = Some (Some (tlv_message [(TLVType_State, [1]), (TLVType_PublicKey, fst keypair)]))"
    "state_get m = Some (Some (unat (1 :: u8)))"
    using state_message [of 1 "[(TLVType_PublicKey, fst keypair)]"] assms
    by (auto simp: tlv_message_def tlv_types get_value_def)
  then show ?thesis
    by (intro that [of m]) (simp_all add: client_verify_request1_def step_simps key_state_def)
qed

definition server_signed :: "crypto \<Rightarrow> server_verify_context \<Rightarrow> bytes" where
  "server_signed C c = sign_detached C (server_eph_public_key c @ device_id c @ client_eph_public_key c) (server_private_key c)"

lemma server_answers:
  assumes "aead_ok C" and "hkdf_ok C" and "sign_ok C"
    and m: "message_process m = Some (Some (tlv_message [(TLVType_State, [1]), (TLVType_PublicKey, cpk)]))" "state_get m = Some (Some 1)"
    and "length cpk = 32" and "length (fst keypair) = 32" and "scalarmult C (snd keypair) cpk = Some secret"
    and c: "status c \<noteq> PAIR_STATUS_AUTH_FAILED" "device_id c \<noteq> []" "length (device_id c) < 64"
    and c': "c' = c\<lparr>client_eph_public_key := cpk, server_eph_public_key := fst keypair,
      server_eph_private_key := snd keypair, shared_secret := secret\<rparr>"
  obtains m2 key e d where "pair_verify_server C keypair m c = Some (c', Some m2, True)"
    and "message_process m2 = Some (Some (tlv_message
      [(TLVType_State, [2]), (TLVType_PublicKey, fst keypair), (TLVType_EncryptedData, e)]))"
    and "hkdf_extract_expand C 32 secret PAIR_VERIFY_MSG02 = Some key" and "open_message C key PAIR_VERIFY_MSG02 e = Some d"
    and "message_process d = Some (Some (tlv_message
      [(TLVType_Identifier, device_id c), (TLVType_Signature, server_signed C c')]))"
proof -
  obtain d where d: "tlv_format [(TLVType_Identifier, device_id c), (TLVType_Signature, server_signed C c')] REQUEST_BUFSIZE = Some d"
    "message_process d = Some (Some (tlv_message [(TLVType_Identifier, device_id c), (TLVType_Signature, server_signed C c')]))"
    "length d \<le> 140"
    by (rule signed_identity [OF assms(3) c(2,3), of "server_eph_public_key c' @ device_id c' @ client_eph_public_key c'" "server_private_key c'"])
      (simp add: server_signed_def c')
  obtain key where key: "hkdf_extract_expand C 32 secret PAIR_VERIFY_MSG02 = Some key" "length key = 32"
    by (rule verify_keys [OF assms(2)])
  obtain e where e: "seal_message C key PAIR_VERIFY_MSG02 d = Some e" "length e = length d + 16"
    "open_message C key PAIR_VERIFY_MSG02 e = Some d"
    by (rule sealed_opened [OF assms(1) key(2)])
  have "fst keypair \<noteq> []" "e \<noteq> []" using assms(7) e(2) by auto
  then have sep: "tlv_separable (tlv_message [(TLVType_State, [2]), (TLVType_PublicKey, fst keypair), (TLVType_EncryptedData, e)])"
    by (simp add: tlv_message_def tlv_types)
  have size: "tlv_required_size (tlv_message [(TLVType_PublicKey, fst keypair), (TLVType_EncryptedData, e)]) \<le> 4000"
    using assms(7) e(2) d(3) by (simp add: tlv_message_def)
  obtain m2 where m2: "tlv_format [(TLVType_State, [2]), (TLVType_PublicKey, fst keypair), (TLVType_EncryptedData, e)] REQUEST_BUFSIZE = Some m2"
    "message_process m2 = Some (Some (tlv_message
      [(TLVType_State, [2]), (TLVType_PublicKey, fst keypair), (TLVType_EncryptedData, e)]))"
    by (rule state_message [OF sep size]) (simp_all add: tlv_types)
  have "pair_verify_server C keypair m c = Some (c', Some m2, True)"
    using m assms(6,7,8) c d(1) key(1) e(1) m2(1)
    by (simp add: pair_verify_server_def server_verify_request1_def server_verify_response1_def step_simps
        process_or_error_def tlv_types create_and_sign_accessory_info_def create_info_def key_state_def server_signed_def c')
  then show ?thesis using m2(2) key(1) e(3) d(2) by (rule that)
qed

text \<open>The client takes the answer, if it does not know the server's key or the key is the right one.\<close>

lemma client_accepts:
  assumes m: "message_process m2 = Some (Some (tlv_message
      [(TLVType_State, [2]), (TLVType_PublicKey, spk), (TLVType_EncryptedData, e)]))"
    and "length spk = 32" and "scalarmult C (cl_eph_private_key c) spk = Some secret"
    and "hkdf_extract_expand C 32 secret PAIR_VERIFY_MSG02 = Some key" "open_message C key PAIR_VERIFY_MSG02 e = Some d"
    and "message_process d = Some (Some (tlv_message [(TLVType_Identifier, ident), (TLVType_Signature, signature)]))"
    and "length signature = 64" and "length ident < 64" and "length (cl_eph_public_key c) = 32"
    and "\<And>pk. cl_server_public_key c = Some pk \<Longrightarrow> verify_detached C signature (spk @ ident @ cl_eph_public_key c) pk"
  shows "client_verify_response1 C m2 c = Some (c\<lparr>cl_server_eph_public_key := spk, cl_shared_secret := secret\<rparr>, Some ())"
  using assms
  by (auto simp: client_verify_response1_def step_simps process_or_error_def tlv_types check_server_def verify_info_def
      create_info_def split: option.split)

definition client_signed :: "crypto \<Rightarrow> client_verify_context \<Rightarrow> bytes" where
  "client_signed C c = sign_detached C (cl_eph_public_key c @ cl_device_id c @ cl_server_eph_public_key c) (cl_private_key c)"

lemma client_proves:
  assumes "aead_ok C" and "hkdf_ok C" and "sign_ok C"
    and "length (cl_eph_public_key c) = 32" "length (cl_server_eph_public_key c) = 32"
    and "cl_device_id c \<noteq> []" "length (cl_device_id c) < 64"
  obtains m3 key e d where "client_verify_request2 C c = Some (c, Some m3)"
    and "message_process m3 = Some (Some (tlv_message [(TLVType_State, [3]), (TLVType_EncryptedData, e)]))"
    and "state_get m3 = Some (Some 3)"
    and "hkdf_extract_expand C 32 (cl_shared_secret c) PAIR_VERIFY_MSG03 = Some key"
    and "open_message C key PAIR_VERIFY_MSG03 e = Some d"
    and "message_process d = Some (Some (tlv_message [(TLVType_Identifier, cl_device_id c), (TLVType_Signature, client_signed C c)]))"
proof -
  obtain d where d: "tlv_format [(TLVType_Identifier, cl_device_id c), (TLVType_Signature, client_signed C c)] REQUEST_BUFSIZE = Some d"
    "message_process d = Some (Some (tlv_message [(TLVType_Identifier, cl_device_id c), (TLVType_Signature, client_signed C c)]))"
    "length d \<le> 140"
    unfolding client_signed_def by (rule signed_identity [OF assms(3,6,7)])
  obtain key where key: "hkdf_extract_expand C 32 (cl_shared_secret c) PAIR_VERIFY_MSG03 = Some key" "length key = 32"
    by (rule derived_key [OF assms(2), of PAIR_VERIFY_MSG03]) simp
  obtain e where e: "seal_message C key PAIR_VERIFY_MSG03 d = Some e" "length e = length d + 16"
    "open_message C key PAIR_VERIFY_MSG03 e = Some d"
    by (rule sealed_opened [OF assms(1) key(2)])
  have "e \<noteq> []" using e(2) by auto
  then have sep: "tlv_separable (tlv_message [(TLVType_State, [3]), (TLVType_EncryptedData, e)])"
    by (simp add: tlv_message_def tlv_types)
  have size: "tlv_required_size (tlv_message [(TLVType_EncryptedData, e)]) \<le> 4000"
    using e(2) d(3) by (simp add: tlv_message_def)
  obtain m3 where m3: "tlv_format [(TLVType_State, [3]), (TLVType_EncryptedData, e)] REQUEST_BUFSIZE = Some m3"
    "message_process m3 = Some (Some (tlv_message [(TLVType_State, [3]), (TLVType_EncryptedData, e)]))"
    "state_get m3 = Some (Some (unat (3 :: u8)))"
    by (rule state_message [OF sep size]) (simp_all add: tlv_types)
  have "client_verify_request2 C c = Some (c, Some m3)"
    using d(1) key(1) e(1) m3(1) assms(4,5,7)
    by (simp add: client_verify_request2_def step_simps create_and_sign_device_info_def create_info_def key_state_def client_signed_def)
  then show ?thesis using m3 key(1) e(3) d(2) by (intro that) simp_all
qed

text \<open>The server completes, if it does not check its clients or knows this one.\<close>

lemma server_completes:
  assumes "message_process m3 = Some (Some (tlv_message [(TLVType_State, [3]), (TLVType_EncryptedData, e)]))" "state_get m3 = Some (Some 3)"
    and "hkdf_extract_expand C 32 (shared_secret c) PAIR_VERIFY_MSG03 = Some key" "open_message C key PAIR_VERIFY_MSG03 e = Some d"
    and "message_process d = Some (Some (tlv_message [(TLVType_Identifier, ident), (TLVType_Signature, signature)]))"
    and "length signature = 64" and "length ident < 64" "0 \<notin> set ident"
    and "length (client_eph_public_key c) = 32" "length (server_eph_public_key c) = 32"
    and "status c \<noteq> PAIR_STATUS_AUTH_FAILED"
    and "\<And>cb. get_cb c = Some cb \<Longrightarrow> \<exists>pk. cb ident = Some pk \<and>
       verify_detached C signature (client_eph_public_key c @ ident @ server_eph_public_key c) pk"
  obtains m4 where "pair_verify_server C keypair m3 c =
      Some (c\<lparr>result_secret := shared_secret c, status := PAIR_STATUS_COMPLETED\<rparr>, Some m4, True)"
    and "message_process m4 = Some (Some (tlv_message [(TLVType_State, [4])]))"
proof -
  have "tlv_separable (tlv_message [(TLVType_State, [4])])" by (simp add: tlv_message_def)
  then obtain m4 where m4: "tlv_format [(TLVType_State, [4])] REQUEST_BUFSIZE = Some m4"
    "message_process m4 = Some (Some (tlv_message [(TLVType_State, [4])]))"
    by (rule state_message) (simp_all add: tlv_message_def get_value_def)
  have ident: "takeWhile (\<lambda>b. b \<noteq> 0) ident = ident" using assms(8) by (auto simp: takeWhile_eq_all_conv)
  have "check_client C ident signature c = Some (c, Some ())"
    using assms(7,9,10,12) unfolding check_client_def ident
    by (auto simp: return_ok_def PAIR_AP_DEVICE_ID_LEN_MAX_def verify_info_def create_info_def split: option.split)
  then have "pair_verify_server C keypair m3 c =
      Some (c\<lparr>result_secret := shared_secret c, status := PAIR_STATUS_COMPLETED\<rparr>, Some m4, True)"
    using assms(1-6,11) m4(1)
    by (simp add: pair_verify_server_def server_verify_request2_def server_verify_response2_def step_simps
        process_or_error_def tlv_types key_state_def)
  then show ?thesis using m4(2) by (rule that)
qed

text \<open>One conversation from the client's first message to its last; \<open>None\<close> if a step fails.\<close>

definition succeeds :: "('c \<times> 'a option) option \<Rightarrow> ('c \<times> 'a) option" where
  "succeeds r = (case r of Some (c, Some x) \<Rightarrow> Some (c, x) | _ \<Rightarrow> None)"

definition answered :: "('c \<times> bytes option \<times> bool) option \<Rightarrow> ('c \<times> bytes) option" where
  "answered r = (case r of Some (c, Some m, True) \<Rightarrow> Some (c, m) | _ \<Rightarrow> None)"

definition verify_conversation ::
    "crypto \<Rightarrow> bytes \<times> bytes \<Rightarrow> bytes \<times> bytes \<Rightarrow> client_verify_context \<Rightarrow> server_verify_context \<Rightarrow>
     (client_verify_context \<times> server_verify_context) option" where
  "verify_conversation C client_pair server_pair cl sv =
     do { (cl, m1) \<leftarrow> succeeds (client_verify_request1 client_pair cl);
          (sv, m2) \<leftarrow> answered (pair_verify_server C server_pair m1 sv);
          (cl, _) \<leftarrow> succeeds (client_verify_response1 C m2 cl);
          (cl, m3) \<leftarrow> succeeds (client_verify_request2 C cl);
          (sv, m4) \<leftarrow> answered (pair_verify_server C server_pair m3 sv);
          (cl, _) \<leftarrow> succeeds (client_verify_response2 m4 cl);
          Some (cl, sv) }"

text \<open>
  A client and a server that keep to the protocol complete it with the same secret, the one their
  two key pairs agree on, provided the client does not know the server or knows its key, and the server
  does not check its clients or has the key of this one.
\<close>

lemma verify_runs:
  assumes "aead_ok C" and "hkdf_ok C" and "sign_ok C" and "agree C client_pair server_pair secret"
    and "client_verify_new C ck known ident = Some cl" and "server_verify_new C cb sid = Some sv"
    and "ident \<noteq> []" "0 \<notin> set ident" "sid \<noteq> []"
    and "known = None \<or> known = Some (fst (server_keypair C sid))"
    and "\<And>f. cb = Some f \<Longrightarrow> f ident = Some (sk_to_pk C ck)"
  shows "\<exists>cl' sv'. verify_conversation C client_pair server_pair cl sv = Some (cl', sv') \<and>
     cl_status cl' = PAIR_STATUS_COMPLETED \<and> cl_result_secret cl' = secret \<and> pair_verify_result sv' = Some secret"
proof -
  have agree: "length (fst client_pair) = 32" "length (fst server_pair) = 32"
    "scalarmult C (snd client_pair) (fst server_pair) = Some secret" "scalarmult C (snd server_pair) (fst client_pair) = Some secret"
    using assms(4) by (simp_all add: agree_def)
  have cl: "length ident < 64" "cl_device_id cl = ident" "cl_private_key cl = ck" "cl_server_public_key cl = known"
    using assms(5) by (auto simp: client_verify_new_def PAIR_AP_DEVICE_ID_LEN_MAX_def split: if_splits)
  have sv: "length sid < 64" "device_id sv = sid" "status sv = PAIR_STATUS_IN_PROGRESS" "get_cb sv = cb"
    "server_private_key sv = snd (server_keypair C sid)"
    using assms(6) by (auto simp: server_verify_new_def PAIR_AP_DEVICE_ID_LEN_MAX_def Let_def split: if_splits prod.splits)
  have signed: "length (sign_detached C m sk) = 64" "verify_detached C (sign_detached C m sk) m (sk_to_pk C sk)" for m sk
    using assms(3) by (simp_all add: sign_ok_def)
  have spk: "fst (server_keypair C sid) = sk_to_pk C (snd (server_keypair C sid))"
    using assms(3) by (simp add: sign_ok_def server_keypair_def)
  let ?cl1 = "cl\<lparr>cl_eph_public_key := fst client_pair, cl_eph_private_key := snd client_pair\<rparr>"
  define sv1 where "sv1 = sv\<lparr>client_eph_public_key := fst client_pair, server_eph_public_key := fst server_pair,
      server_eph_private_key := snd server_pair, shared_secret := secret\<rparr>"
  define cl2 where "cl2 = ?cl1\<lparr>cl_server_eph_public_key := fst server_pair, cl_shared_secret := secret\<rparr>"
  have sv1: "get_cb sv1 = cb" "status sv1 \<noteq> PAIR_STATUS_AUTH_FAILED" "shared_secret sv1 = secret"
    "client_eph_public_key sv1 = fst client_pair" "server_eph_public_key sv1 = fst server_pair"
    using sv by (simp_all add: sv1_def)
  have cl2: "cl_shared_secret cl2 = secret" "cl_device_id cl2 = ident" "cl_eph_public_key cl2 = fst client_pair"
    "cl_server_eph_public_key cl2 = fst server_pair" "cl_private_key cl2 = ck"
    using cl by (simp_all add: cl2_def)
  obtain m1 where m1: "client_verify_request1 client_pair cl = Some (?cl1, Some m1)"
    "message_process m1 = Some (Some (tlv_message [(TLVType_State, [1]), (TLVType_PublicKey, fst client_pair)]))"
    "state_get m1 = Some (Some 1)"
    by (rule client_says_key [OF agree(1)])
  obtain m2 key e d where m2: "pair_verify_server C server_pair m1 sv = Some (sv1, Some m2, True)"
    "message_process m2 = Some (Some (tlv_message
      [(TLVType_State, [2]), (TLVType_PublicKey, fst server_pair), (TLVType_EncryptedData, e)]))"
    "hkdf_extract_expand C 32 secret PAIR_VERIFY_MSG02 = Some key" "open_message C key PAIR_VERIFY_MSG02 e = Some d"
    "message_process d = Some (Some (tlv_message
      [(TLVType_Identifier, device_id sv), (TLVType_Signature, server_signed C sv1)]))"
    by (rule server_answers [OF assms(1-3) m1(2,3) agree(1,2,4) _ _ _ sv1_def]) (use sv assms(9) in auto)
  have "client_verify_response1 C m2 ?cl1 = Some (cl2, Some ())"
    unfolding cl2_def
    by (rule client_accepts [OF m2(2) agree(2) _ m2(3-5)])
      (use agree sv cl signed assms(10) spk in \<open>auto simp: server_signed_def sv1_def\<close>)
  moreover obtain m3 key e d where m3: "client_verify_request2 C cl2 = Some (cl2, Some m3)"
    "message_process m3 = Some (Some (tlv_message [(TLVType_State, [3]), (TLVType_EncryptedData, e)]))"
    "state_get m3 = Some (Some 3)" "hkdf_extract_expand C 32 (cl_shared_secret cl2) PAIR_VERIFY_MSG03 = Some key"
    "open_message C key PAIR_VERIFY_MSG03 e = Some d"
    "message_process d = Some (Some (tlv_message [(TLVType_Identifier, cl_device_id cl2), (TLVType_Signature, client_signed C cl2)]))"
    by (rule client_proves [OF assms(1-3), of cl2]) (use agree cl2 cl(1) assms(7) in auto)
  moreover obtain m4 where m4: "pair_verify_server C server_pair m3 sv1 =
      Some (sv1\<lparr>result_secret := shared_secret sv1, status := PAIR_STATUS_COMPLETED\<rparr>, Some m4, True)"
    "message_process m4 = Some (Some (tlv_message [(TLVType_State, [4])]))"
    by (rule server_completes [OF m3(2,3) _ m3(5,6)])
      (use m3(4) sv1 cl2 cl(1) assms(8,11) agree signed in \<open>auto simp: client_signed_def\<close>)
  moreover have "client_verify_response2 m4 cl2 =
      Some (cl2\<lparr>cl_result_secret := cl_shared_secret cl2, cl_status := PAIR_STATUS_COMPLETED\<rparr>, Some ())"
    using m4(2) by (simp add: client_verify_response2_def process_or_error_def step_simps)
  ultimately show ?thesis
    using m1(1) m2(1) sv1(3) cl2(1)
    by (simp add: verify_conversation_def succeeds_def answered_def pair_verify_result_def)
qed

section \<open>Clients that do not keep to the protocol\<close>

lemma step_bindE:
  assumes "next_do m f c = Some (d, r)"
  obtains "m c = Some (d, None)" "r = None"
  | e x where "m c = Some (e, Some x)" "f x e = Some (d, r)"
  using assms by (auto simp: next_do_def split: option.splits)

lemma error_step:
  "or_error err x c = Some (d, r) \<Longrightarrow> d = c \<and> x \<noteq> None \<and> r = x \<or> d = err c \<and> r = None"
  by (auto simp: or_error_def split: option.splits)

lemma request1_status:
  "server_verify_request1 data c = Some (d, r) \<Longrightarrow> status d = status c \<or> status d = PAIR_STATUS_INVALID"
  by (auto simp: server_verify_request1_def step_simps process_or_error_def invalid_def split: option.splits if_splits)

lemma response1_status:
  "server_verify_response1 C keypair c = Some (d, r) \<Longrightarrow> status d = status c \<or> status d = PAIR_STATUS_INVALID"
  by (auto simp: server_verify_response1_def step_simps invalid_def split: option.splits if_splits)

lemma check_client_status:
  "check_client C ident signature c = Some (d, r) \<Longrightarrow>
     status d = status c \<or> status d = PAIR_STATUS_INVALID \<or> status d = PAIR_STATUS_AUTH_FAILED"
  by (auto simp: check_client_def return_ok_def invalid_def split: option.splits if_splits)

text \<open>The second request: either an error, or it gets to the check of the client on the context it began with.\<close>

lemma request2_checks:
  assumes "server_verify_request2 C data c = Some (d, r)"
  shows "d = invalid c \<and> r = None \<or> (\<exists>ident signature. check_client C ident signature c = Some (d, r))"
  using assms
  by (auto simp: server_verify_request2_def step_simps process_or_error_def split: option.splits if_splits)

lemma request2_status:
  "server_verify_request2 C data c = Some (d, r) \<Longrightarrow>
     status d = status c \<or> status d = PAIR_STATUS_INVALID \<or> status d = PAIR_STATUS_AUTH_FAILED"
  using request2_checks [of C data c d r] check_client_status [of C _ _ c d r] by (auto simp: invalid_def)

lemma request2_signed:
  assumes "server_verify_request2 C data c = Some (d, Some ())" and "get_cb c = Some cb" and "status d \<noteq> PAIR_STATUS_AUTH_FAILED"
  shows "\<exists>ident signature pk. cb (takeWhile (\<lambda>b. b \<noteq> 0) ident) = Some pk \<and>
     verify_detached C signature (client_eph_public_key c @ ident @ server_eph_public_key c) pk"
proof -
  obtain ident signature where "check_client C ident signature c = Some (d, Some ())"
    using request2_checks [OF assms(1)] by auto
  then show ?thesis
    using assms(2,3)
    by (auto simp: check_client_def return_ok_def verify_info_def create_info_def split: option.splits if_splits)
qed


section \<open>Concrete inputs\<close>

lemma toy_sign_ok: "sign_ok toy_crypto"
  by (auto simp: sign_ok_def toy_crypto_def min_def)

definition toy_pair :: "u8 \<Rightarrow> bytes \<times> bytes" where
  "toy_pair n = (replicate 32 n, replicate 32 n)"

lemma toy_agree: "agree toy_crypto (toy_pair a) (toy_pair b) (replicate 32 (a + b))"
  by (simp add: agree_def toy_crypto_def toy_pair_def zip_replicate add.commute)

definition toy_lookup :: "bytes \<Rightarrow> bytes option" where
  "toy_lookup ident = (if ident = [65] then Some (sk_to_pk toy_crypto [7]) else None)"

definition toy_client :: client_verify_context where
  "toy_client = the (client_verify_new toy_crypto [7] (Some (fst (server_keypair toy_crypto [66]))) [65])"

definition toy_server :: server_verify_context where
  "toy_server = the (server_verify_new toy_crypto (Some toy_lookup) [66])"

lemma verify_runs_example:
  "\<exists>cl sv. verify_conversation toy_crypto (toy_pair 1) (toy_pair 2) toy_client toy_server = Some (cl, sv) \<and>
     pair_verify_result sv = Some (replicate 32 3)"
proof -
  have cl: "client_verify_new toy_crypto [7] (Some (fst (server_keypair toy_crypto [66]))) [65] = Some toy_client"
    by (simp add: toy_client_def client_verify_new_def PAIR_AP_DEVICE_ID_LEN_MAX_def)
  have sv: "server_verify_new toy_crypto (Some toy_lookup) [66] = Some toy_server"
    by (simp add: toy_server_def server_verify_new_def PAIR_AP_DEVICE_ID_LEN_MAX_def Let_def split: prod.split)
  have "agree toy_crypto (toy_pair 1) (toy_pair 2) (replicate 32 3)" using toy_agree [of 1 2] by simp
  from verify_runs [OF toy_aead_ok toy_hkdf_ok toy_sign_ok this cl sv] show ?thesis
    by (auto simp: toy_lookup_def)
qed


end
