(* ===== verification/Pair_Setup_Runs.thy ===== *)
theory Pair_Setup_Runs
  imports Pair_Setup Pair_Handshake
begin

text \<open>
  Pair-setup between a client and a server that keep to the protocol and have the same PIN, pair-verify
  between devices that have been set up, and messages that come out of order.
\<close>

section \<open>The first four messages\<close>

lemma group_3072: "group_ok new_ng"
  by (simp add: group_ok_def new_ng_def SRP_N_3072_def)

definition sha_ok :: "crypto \<Rightarrow> bool" where
  "sha_ok C \<longleftrightarrow> hash_ok (sha512 C)"

text \<open>
  The random numbers are such that no safety check of SRP fails and the salt has 16 bytes, as the one of
  OpenSSL has.
\<close>

definition fair_numbers :: "crypto \<Rightarrow> bytes \<Rightarrow> nat \<Rightarrow> nat \<Rightarrow> nat \<Rightarrow> bool" where
  "fair_numbers C password s b a \<longleftrightarrow>
     num_bytes s = 16 \<and>
     (case srp_create_salted_verification_key (sha512 C) new_ng s USERNAME password of
        (bytes_s, bytes_v) \<Rightarrow>
          (case srp_verifier_start_authentication (sha512 C) new_ng b bytes_v of
             None \<Rightarrow> False
           | Some (bytes_b, bytes_B) \<Rightarrow>
               (case srp_user_start_authentication a (srp_user_new new_ng USERNAME password) of
                  (usr, bytes_A) \<Rightarrow>
                    bin2bn bytes_B \<noteq> 0 \<and> bin2bn bytes_A \<noteq> 0 \<and>
                    H_nn_pad (sha512 C) (bin2bn bytes_A) (bin2bn bytes_B) (ng_N_len new_ng) \<noteq> Some 0)))"

lemma bin2bn_nonempty: "bin2bn bs \<noteq> 0 \<Longrightarrow> bs \<noteq> []"
  by (auto simp: bin2bn_def)

lemma fair_numbersE:
  assumes "fair_numbers C password s b a" and "sha_ok C"
  obtains bytes_s bytes_v bytes_b bytes_B usr bytes_A usr' ver M where
    "srp_create_salted_verification_key (sha512 C) new_ng s USERNAME password = (bytes_s, bytes_v)"
    "srp_verifier_start_authentication (sha512 C) new_ng b bytes_v = Some (bytes_b, bytes_B)"
    "srp_user_start_authentication a (srp_user_new new_ng USERNAME password) = (usr, bytes_A)"
    "srp_user_process_challenge (sha512 C) bytes_s bytes_B usr = Some (usr', Some M)"
    "srp_verifier_new (sha512 C) new_ng USERNAME bytes_s bytes_v bytes_A bytes_b bytes_B = Some (Some ver)"
    "same_secret (sha512 C) usr' ver" "M = ver_M ver" "length M = 64" "length (ver_H_AMK ver) = 64"
    "length (ver_session_key ver) = 64" "length bytes_A \<le> 384" "length bytes_B \<le> 384" "length bytes_s = 16"
    "bytes_A \<noteq> []" "bytes_B \<noteq> []"
proof -
  obtain bytes_s bytes_v where v: "srp_create_salted_verification_key (sha512 C) new_ng s USERNAME password = (bytes_s, bytes_v)"
    by fastforce
  obtain bytes_b bytes_B where B: "srp_verifier_start_authentication (sha512 C) new_ng b bytes_v = Some (bytes_b, bytes_B)"
    using assms(1) v by (auto simp: fair_numbers_def split: option.splits)
  obtain usr bytes_A where A: "srp_user_start_authentication a (srp_user_new new_ng USERNAME password) = (usr, bytes_A)"
    by fastforce
  have safe: "bin2bn bytes_B \<noteq> 0" "bin2bn bytes_A \<noteq> 0"
    "H_nn_pad (sha512 C) (bin2bn bytes_A) (bin2bn bytes_B) (ng_N_len new_ng) \<noteq> Some 0"
    using assms(1) v B A by (simp_all add: fair_numbers_def)
  have "length bytes_s = 16"
    using assms(1) v by (auto simp: fair_numbers_def srp_create_salted_verification_key_def Let_def num_bytes_def)
  moreover have "ng_N_len new_ng = 384" by (simp add: new_ng_def)
  ultimately show ?thesis
    using srp_exchange [OF assms(2) [unfolded sha_ok_def] group_3072 v B A safe] that [OF v B A]
      safe(1,2) [THEN bin2bn_nonempty] by metis
qed

lemma client_asks:
  obtains m1 where "client_setup_request1 c = Some (c\<lparr>cs_user := Some (srp_user_new new_ng USERNAME (cs_pin c))\<rparr>, Some m1)"
    and "message_process m1 = Some (Some (tlv_message ([(TLVType_State, [1]), (TLVType_Method, [0])] @
      (if transient c then [(TLVType_Flags, [PairingFlagsTransient])] else []))))"
    and "state_get m1 = Some (Some 1)"
proof -
  let ?items = "(TLVType_Method, [0]) # (if transient c then [(TLVType_Flags, [PairingFlagsTransient])] else [])"
  have "tlv_separable (tlv_message ((TLVType_State, [1]) # ?items))" by (simp add: tlv_message_def tlv_types)
  moreover have "tlv_required_size (tlv_message ?items) \<le> 4000" by (simp add: tlv_message_def)
  moreover have "get_value (tlv_message ?items) TLVType_Error = None" by (simp add: tlv_types)
  ultimately obtain m1 where "tlv_format ((TLVType_State, [1]) # ?items) REQUEST_BUFSIZE = Some m1"
    "message_process m1 = Some (Some (tlv_message ((TLVType_State, [1]) # ?items)))" "state_get m1 = Some (Some (unat (1 :: u8)))"
    by (rule state_message)
  then show ?thesis
    by (intro that [of m1]) (simp_all add: client_setup_request1_def step_simps key_state_def)
qed

lemma server_offers:
  assumes m1: "message_process m1 = Some (Some (tlv_message ([(TLVType_State, [1]), (TLVType_Method, [0])] @
      (if tr then [(TLVType_Flags, [PairingFlagsTransient])] else []))))" "state_get m1 = Some (Some 1)"
    and v: "srp_create_salted_verification_key (sha512 C) new_ng s USERNAME (pin c) = (bytes_s, bytes_v)"
    and B: "srp_verifier_start_authentication (sha512 C) new_ng b bytes_v = Some (bytes_b, bytes_B)"
    and "length bytes_s = 16" "length bytes_B \<le> 384" "bytes_B \<noteq> []" "setup_status c \<noteq> PAIR_STATUS_AUTH_FAILED"
    and c': "c' = c\<lparr>is_transient := tr, salt := bytes_s, pin_verifier := bytes_v, secret_b := bytes_b, pkB := bytes_B\<rparr>"
  obtains m2 where "pair_setup_server C s b m1 c = Some (c', Some m2, True)"
    and "message_process m2 = Some (Some (tlv_message
      [(TLVType_State, [2]), (TLVType_Salt, bytes_s), (TLVType_PublicKey, bytes_B)]))"
proof -
  have "bytes_s \<noteq> []" using assms(5) by auto
  then have sep: "tlv_separable (tlv_message [(TLVType_State, [2]), (TLVType_Salt, bytes_s), (TLVType_PublicKey, bytes_B)])"
    using assms(7) by (simp add: tlv_message_def tlv_types)
  have size: "tlv_required_size (tlv_message [(TLVType_Salt, bytes_s), (TLVType_PublicKey, bytes_B)]) \<le> 4000"
    using assms(5,6) by (simp add: tlv_message_def)
  obtain m2 where m2: "tlv_format [(TLVType_State, [2]), (TLVType_Salt, bytes_s), (TLVType_PublicKey, bytes_B)] REQUEST_BUFSIZE = Some m2"
    "message_process m2 = Some (Some (tlv_message [(TLVType_State, [2]), (TLVType_Salt, bytes_s), (TLVType_PublicKey, bytes_B)]))"
    by (rule state_message [OF sep size]) (simp_all add: tlv_types)
  have "pair_setup_server C s b m1 c = Some (c', Some m2, True)"
    using m1 v B assms(8) m2(1)
    by (simp add: pair_setup_server_def server_setup_request1_def server_setup_response1_def step_simps process_or_error_def
        tlv_types key_state_def c' Let_def)
  then show ?thesis using m2(2) by (rule that)
qed

lemma client_takes_offer:
  assumes "message_process m2 = Some (Some (tlv_message
      [(TLVType_State, [2]), (TLVType_Salt, bytes_s), (TLVType_PublicKey, bytes_B)]))"
    and "length bytes_s = 16" "length bytes_B \<le> 384"
  shows "client_setup_response1 m2 c = Some (c\<lparr>cs_pkB := bytes_B, cs_salt := bytes_s\<rparr>, Some ())"
  using assms by (simp add: client_setup_response1_def step_simps process_or_error_def tlv_types new_ng_def)

lemma client_shows_proof:
  assumes "cs_user c = Some (srp_user_new new_ng USERNAME password)" "cs_salt c = bytes_s" "cs_pkB c = bytes_B"
    and "srp_user_start_authentication a (srp_user_new new_ng USERNAME password) = (usr, bytes_A)"
    and "srp_user_process_challenge (sha512 C) bytes_s bytes_B usr = Some (usr', Some M)"
    and "length M = 64" "length bytes_A \<le> 384" "bytes_A \<noteq> []"
  obtains m3 where "client_setup_request2 C a c = Some (c\<lparr>cs_user := Some usr'\<rparr>, Some m3)"
    and "message_process m3 = Some (Some (tlv_message [(TLVType_State, [3]), (TLVType_PublicKey, bytes_A), (TLVType_Proof, M)]))"
    and "state_get m3 = Some (Some 3)"
proof -
  have "M \<noteq> []" using assms(6) by auto
  then have sep: "tlv_separable (tlv_message [(TLVType_State, [3]), (TLVType_PublicKey, bytes_A), (TLVType_Proof, M)])"
    using assms(8) by (simp add: tlv_message_def tlv_types)
  have size: "tlv_required_size (tlv_message [(TLVType_PublicKey, bytes_A), (TLVType_Proof, M)]) \<le> 4000"
    using assms(6,7) by (simp add: tlv_message_def)
  obtain m3 where "tlv_format [(TLVType_State, [3]), (TLVType_PublicKey, bytes_A), (TLVType_Proof, M)] REQUEST_BUFSIZE = Some m3"
    "message_process m3 = Some (Some (tlv_message [(TLVType_State, [3]), (TLVType_PublicKey, bytes_A), (TLVType_Proof, M)]))"
    "state_get m3 = Some (Some (unat (3 :: u8)))"
    by (rule state_message [OF sep size]) (simp_all add: tlv_types)
  then show ?thesis
    using assms(1-5) by (intro that [of m3]) (simp_all add: client_setup_request2_def step_simps key_state_def)
qed

lemma server_shows_proof:
  assumes m3: "message_process m3 = Some (Some (tlv_message [(TLVType_State, [3]), (TLVType_PublicKey, bytes_A), (TLVType_Proof, M)]))"
      "state_get m3 = Some (Some 3)"
    and ver: "srp_verifier_new (sha512 C) new_ng USERNAME (salt c) (pin_verifier c) bytes_A (secret_b c) (pkB c) = Some (Some ver)"
    and "M = ver_M ver" "length M = 64" "length (ver_H_AMK ver) = 64" "length bytes_A \<le> 384" "setup_status c = PAIR_STATUS_IN_PROGRESS"
    and c1: "c1 = c\<lparr>pkA := bytes_A, M1 := M, verifier := Some (ver\<lparr>ver_authenticated := True\<rparr>),
        M2_len := 64, M2 := Some (ver_H_AMK ver)\<rparr>"
    and c': "c' = (if is_transient c then c1\<lparr>result_setup_secret := ver_session_key ver, setup_status := PAIR_STATUS_COMPLETED\<rparr> else c1)"
  obtains m4 where "pair_setup_server C s b m3 c = Some (c', Some m4, True)"
    and "message_process m4 = Some (Some (tlv_message [(TLVType_State, [4]), (TLVType_Proof, ver_H_AMK ver)]))"
proof -
  have "ver_H_AMK ver \<noteq> []" using assms(6) by auto
  then have sep: "tlv_separable (tlv_message [(TLVType_State, [4]), (TLVType_Proof, ver_H_AMK ver)])"
    by (simp add: tlv_message_def tlv_types)
  have size: "tlv_required_size (tlv_message [(TLVType_Proof, ver_H_AMK ver)]) \<le> 4000"
    using assms(6) by (simp add: tlv_message_def)
  obtain m4 where m4: "tlv_format [(TLVType_State, [4]), (TLVType_Proof, ver_H_AMK ver)] REQUEST_BUFSIZE = Some m4"
    "message_process m4 = Some (Some (tlv_message [(TLVType_State, [4]), (TLVType_Proof, ver_H_AMK ver)]))"
    by (rule state_message [OF sep size]) (simp_all add: tlv_types)
  have req: "server_setup_request2 C m3 c = Some (c1, Some ())"
    using m3(1) ver assms(4-7)
    by (simp add: server_setup_request2_def step_simps process_or_error_def tlv_types new_ng_def SHA512_DIGEST_LENGTH_def
        srp_verifier_verify_session_def c1 Let_def)
  have resp: "server_setup_response2 c1 = Some (c', Some m4)"
    using m4(1) assms(8)
    by (simp add: server_setup_response2_def step_simps M2_value_def key_state_def srp_verifier_get_session_key_def c' c1)
  have "pair_setup_server C s b m3 c = Some (c', Some m4, True)"
    using m3(2) req resp by (simp add: pair_setup_server_def next_do_def)
  then show ?thesis using m4(2) by (rule that)
qed

lemma client_takes_proof:
  assumes "message_process m4 = Some (Some (tlv_message [(TLVType_State, [4]), (TLVType_Proof, ver_H_AMK ver)]))"
    and "length (ver_H_AMK ver) = 64" "same_secret H usr ver" "cs_user c = Some usr"
  shows "client_setup_response2 m4 c =
    Some (if transient c
          then c\<lparr>cs_user := Some (usr\<lparr>usr_authenticated := True\<rparr>), cs_result_secret := ver_session_key ver, cs_status := PAIR_STATUS_COMPLETED\<rparr>
          else c\<lparr>cs_user := Some (usr\<lparr>usr_authenticated := True\<rparr>)\<rparr>, Some ())"
  using assms
  by (simp add: client_setup_response2_def step_simps process_or_error_def tlv_types SHA512_DIGEST_LENGTH_def
      srp_user_verify_session_def same_secret_def Let_def)

section \<open>The conversations\<close>

text \<open>The four messages that prove the PIN, with the random numbers of both sides.\<close>

definition proof_conversation ::
    "crypto \<Rightarrow> nat \<Rightarrow> nat \<Rightarrow> nat \<Rightarrow> client_setup_context \<Rightarrow> server_setup_context \<Rightarrow>
     (client_setup_context \<times> server_setup_context) option" where
  "proof_conversation C s b a cl sv =
     do { (cl, m1) \<leftarrow> succeeds (client_setup_request1 cl);
          (sv, m2) \<leftarrow> answered (pair_setup_server C s b m1 sv);
          (cl, _) \<leftarrow> succeeds (client_setup_response1 m2 cl);
          (cl, m3) \<leftarrow> succeeds (client_setup_request2 C a cl);
          (sv, m4) \<leftarrow> answered (pair_setup_server C s b m3 sv);
          (cl, _) \<leftarrow> succeeds (client_setup_response2 m4 cl);
          Some (cl, sv) }"

text \<open>What both ends have afterwards.\<close>

lemma proofs_exchanged:
  assumes "sha_ok C" and "fair_numbers C (cs_pin cl) s b a" and "pin sv = cs_pin cl"
    and "setup_status sv = PAIR_STATUS_IN_PROGRESS"
  obtains cl' sv' usr ver key where "proof_conversation C s b a cl sv = Some (cl', sv')"
    and "cs_user cl' = Some usr" "usr_session_key usr = key" "verifier sv' = Some ver" "ver_session_key ver = key" "length key = 64"
    and "transient cl \<Longrightarrow> cs_status cl' = PAIR_STATUS_COMPLETED \<and> cs_result_secret cl' = key \<and>
        setup_status sv' = PAIR_STATUS_COMPLETED \<and> result_setup_secret sv' = key"
    and "\<not> transient cl \<Longrightarrow> setup_status sv' = PAIR_STATUS_IN_PROGRESS"
    and "cs_device_id cl' = cs_device_id cl" "cs_public_key cl' = cs_public_key cl" "cs_private_key cl' = cs_private_key cl"
        "cs_result_device_id cl' = cs_result_device_id cl"
    and "setup_device_id sv' = setup_device_id sv" "setup_public_key sv' = setup_public_key sv"
        "setup_private_key sv' = setup_private_key sv" "added sv' = added sv" "result_device_id sv' = result_device_id sv"
proof -
  obtain bytes_s bytes_v bytes_b bytes_B usr bytes_A usr' ver M where f:
    "srp_create_salted_verification_key (sha512 C) new_ng s USERNAME (cs_pin cl) = (bytes_s, bytes_v)"
    "srp_verifier_start_authentication (sha512 C) new_ng b bytes_v = Some (bytes_b, bytes_B)"
    "srp_user_start_authentication a (srp_user_new new_ng USERNAME (cs_pin cl)) = (usr, bytes_A)"
    "srp_user_process_challenge (sha512 C) bytes_s bytes_B usr = Some (usr', Some M)"
    "srp_verifier_new (sha512 C) new_ng USERNAME bytes_s bytes_v bytes_A bytes_b bytes_B = Some (Some ver)"
    "same_secret (sha512 C) usr' ver" "M = ver_M ver" "length M = 64" "length (ver_H_AMK ver) = 64"
    "length (ver_session_key ver) = 64" "length bytes_A \<le> 384" "length bytes_B \<le> 384" "length bytes_s = 16"
    "bytes_A \<noteq> []" "bytes_B \<noteq> []"
    by (rule fair_numbersE [OF assms(2,1)])
  define cl1 where "cl1 = cl\<lparr>cs_user := Some (srp_user_new new_ng USERNAME (cs_pin cl))\<rparr>"
  define sv1 where "sv1 = sv\<lparr>is_transient := transient cl, salt := bytes_s, pin_verifier := bytes_v, secret_b := bytes_b, pkB := bytes_B\<rparr>"
  define cl2 where "cl2 = cl1\<lparr>cs_pkB := bytes_B, cs_salt := bytes_s\<rparr>"
  define cl3 where "cl3 = cl2\<lparr>cs_user := Some usr'\<rparr>"
  define sv2 where "sv2 = sv1\<lparr>pkA := bytes_A, M1 := M, verifier := Some (ver\<lparr>ver_authenticated := True\<rparr>),
      M2_len := 64, M2 := Some (ver_H_AMK ver)\<rparr>"
  define sv3 where "sv3 = (if is_transient sv1
      then sv2\<lparr>result_setup_secret := ver_session_key ver, setup_status := PAIR_STATUS_COMPLETED\<rparr> else sv2)"
  define cl4 where "cl4 = (if transient cl3
      then cl3\<lparr>cs_user := Some (usr'\<lparr>usr_authenticated := True\<rparr>), cs_result_secret := ver_session_key ver, cs_status := PAIR_STATUS_COMPLETED\<rparr>
      else cl3\<lparr>cs_user := Some (usr'\<lparr>usr_authenticated := True\<rparr>)\<rparr>)"
  obtain m1 where m1: "client_setup_request1 cl = Some (cl1, Some m1)"
    "message_process m1 = Some (Some (tlv_message ([(TLVType_State, [1]), (TLVType_Method, [0])] @
      (if transient cl then [(TLVType_Flags, [PairingFlagsTransient])] else []))))" "state_get m1 = Some (Some 1)"
    unfolding cl1_def by (rule client_asks)
  have pin: "srp_create_salted_verification_key (sha512 C) new_ng s USERNAME (pin sv) = (bytes_s, bytes_v)"
    using f(1) assms(3) by simp
  obtain m2 where m2: "pair_setup_server C s b m1 sv = Some (sv1, Some m2, True)"
    "message_process m2 = Some (Some (tlv_message [(TLVType_State, [2]), (TLVType_Salt, bytes_s), (TLVType_PublicKey, bytes_B)]))"
    by (rule server_offers [OF m1(2,3) pin f(2) f(13) f(12) f(15) _ sv1_def]) (use assms(4) in simp)
  have c2: "client_setup_response1 m2 cl1 = Some (cl2, Some ())"
    unfolding cl2_def by (rule client_takes_offer [OF m2(2) f(13) f(12)])
  obtain m3 where m3: "client_setup_request2 C a cl2 = Some (cl3, Some m3)"
    "message_process m3 = Some (Some (tlv_message [(TLVType_State, [3]), (TLVType_PublicKey, bytes_A), (TLVType_Proof, M)]))"
    "state_get m3 = Some (Some 3)"
    unfolding cl3_def
    by (rule client_shows_proof [OF _ _ _ f(3,4,8,11,14), of cl2]) (simp_all add: cl2_def cl1_def)
  have ver: "srp_verifier_new (sha512 C) new_ng USERNAME (salt sv1) (pin_verifier sv1) bytes_A (secret_b sv1) (pkB sv1) = Some (Some ver)"
    using f(5) by (simp add: sv1_def)
  obtain m4 where m4: "pair_setup_server C s b m3 sv1 = Some (sv3, Some m4, True)"
    "message_process m4 = Some (Some (tlv_message [(TLVType_State, [4]), (TLVType_Proof, ver_H_AMK ver)]))"
    by (rule server_shows_proof [OF m3(2,3) ver f(7,8,9,11) _ sv2_def sv3_def]) (use assms(4) in \<open>simp add: sv1_def\<close>)
  have c4: "client_setup_response2 m4 cl3 = Some (cl4, Some ())"
    unfolding cl4_def by (rule client_takes_proof [OF m4(2) f(9,6)]) (simp add: cl3_def)
  have run: "proof_conversation C s b a cl sv = Some (cl4, sv3)"
    by (simp add: proof_conversation_def succeeds_def answered_def m1(1) m2(1) c2 m3(1) m4(1) c4)
  show ?thesis
    by (rule that [OF run, of "usr'\<lparr>usr_authenticated := True\<rparr>" "ver_session_key ver" "ver\<lparr>ver_authenticated := True\<rparr>"])
      (use f(6,10) assms(4) in \<open>auto simp: cl4_def cl3_def cl2_def cl1_def sv3_def sv2_def sv1_def same_secret_def\<close>)
qed

text \<open>A transient pair-setup completes on both sides with the same session key of 64 bytes.\<close>

lemma transient_setup:
  assumes "sha_ok C" and "client_setup_new True the_pin ident keypair = Some cl"
    and "server_setup_new C the_pin with_cb sid = Some sv" and "fair_numbers C (cs_pin cl) s b a"
  shows "\<exists>cl' sv' key. proof_conversation C s b a cl sv = Some (cl', sv') \<and> length key = 64 \<and>
     cs_status cl' = PAIR_STATUS_COMPLETED \<and> cs_result_secret cl' = key \<and> pair_setup_result sv' = Some key"
proof -
  have "transient cl" "pin sv = cs_pin cl" "setup_status sv = PAIR_STATUS_IN_PROGRESS"
    using assms(2,3) by (auto simp: client_setup_new_def server_setup_new_def Let_def split: if_splits prod.splits)
  with proofs_exchanged [OF assms(1,4)] show ?thesis
    by (metis pair_setup_result_def)
qed

section \<open>The last two messages\<close>

lemma format_whole:
  assumes "tlv_separable (tlv_message items)" and "tlv_required_size (tlv_message items) \<le> room"
  shows "tlv_format items room = Some (tlv_format_items (tlv_message items))"
  using assms(2) length_tlv_format_items [OF assms(1)] by (simp add: tlv_format_def pair_tlv_format_def)

lemma format_items_append: "tlv_format_items (vs @ ws) = tlv_format_items vs @ tlv_format_items ws"
  by (induction vs) simp_all

text \<open>An identity in the form both sides send it, and what its reader finds in it.\<close>

lemma identity_opens:
  assumes "aead_ok C" and "hkdf_ok C" and "sign_ok C" and "ident \<noteq> []" "length ident < 64" and "pk = sk_to_pk C sk"
    and "fst (snd (pair_keys_map sign_key)) \<noteq> None" "fst (snd (pair_keys_map k)) \<noteq> None"
  obtains m e key d device_x signature where "sealed_identity C sign_key k session_key ident pk sk = Some m"
    and "message_process m = Some (Some (tlv_message [(TLVType_State, [key_state k]), (TLVType_EncryptedData, e)]))"
    and "state_get m = Some (Some (unat (key_state k)))"
    and "hkdf_extract_expand C 32 session_key k = Some key" and "open_message C key k e = Some d"
    and "message_process d = Some (Some (tlv_message
      [(TLVType_Identifier, ident), (TLVType_Signature, signature), (TLVType_PublicKey, pk)]))"
    and "hkdf_extract_expand C 32 session_key sign_key = Some device_x"
    and "length signature = 64" "length pk = 32" "verify_info C signature pk device_x ident pk"
proof -
  obtain device_x where x: "hkdf_extract_expand C 32 session_key sign_key = Some device_x" "length device_x = 32"
    by (rule derived_key [OF assms(2,7)])
  obtain key where key: "hkdf_extract_expand C 32 session_key k = Some key" "length key = 32"
    by (rule derived_key [OF assms(2,8)])
  define signature where "signature = sign_detached C (device_x @ ident @ pk) sk"
  have len: "length pk = 32" "length signature = 64" using assms(3,6) by (simp_all add: sign_ok_def signature_def)
  then have ne: "pk \<noteq> []" "signature \<noteq> []" by auto
  let ?two = "[(TLVType_Identifier, ident), (TLVType_Signature, signature)]" and ?one = "[(TLVType_PublicKey, pk)]"
  let ?all = "?two @ ?one"
  have sep: "tlv_separable (tlv_message ?two)" "tlv_separable (tlv_message ?one)" "tlv_separable (tlv_message ?all)"
    using ne assms(4) by (simp_all add: tlv_message_def tlv_types)
  have size: "tlv_required_size (tlv_message ?two) \<le> 140" "tlv_required_size (tlv_message ?one) = 34"
    "tlv_required_size (tlv_message ?all) \<le> 200"
    using len assms(5) by (simp_all add: tlv_message_def)
  define d where "d = tlv_format_items (tlv_message ?all)"
  have two: "tlv_format ?two REQUEST_BUFSIZE = Some (tlv_format_items (tlv_message ?two))"
    by (rule format_whole [OF sep(1)]) (use size(1) in \<open>simp add: REQUEST_BUFSIZE_def\<close>)
  have one: "tlv_format ?one (REQUEST_BUFSIZE - length (tlv_format_items (tlv_message ?two))) = Some (tlv_format_items (tlv_message ?one))"
    by (rule format_whole [OF sep(2)]) (use size(1,2) length_tlv_format_items [OF sep(1)] in \<open>simp add: REQUEST_BUFSIZE_def\<close>)
  have signed: "signed_with_key C ident device_x pk sk = Some d"
    using two one x(2) len(1) assms(5)
    by (simp add: signed_with_key_def create_and_sign_device_info_def create_info_def d_def flip: signature_def)
      (simp add: tlv_message_def)
  have dlen: "length d \<le> 200" using size(3) length_tlv_format_items [OF sep(3)] by (simp add: d_def)
  have d: "message_process d = Some (Some (tlv_message ?all))"
    using format_whole [OF sep(3), of 4096] format_process [OF sep(3), of 4096] size(3) by (auto simp: d_def tlv_types)
  obtain e where e: "seal_message C key k d = Some e" "length e = length d + 16" "open_message C key k e = Some d"
    by (rule sealed_opened [OF assms(1) key(2)])
  have "e \<noteq> []" using e(2) by auto
  then have sep': "tlv_separable (tlv_message [(TLVType_State, [key_state k]), (TLVType_EncryptedData, e)])"
    by (simp add: tlv_message_def tlv_types)
  have size': "tlv_required_size (tlv_message [(TLVType_EncryptedData, e)]) \<le> 4000"
    using e(2) dlen by (simp add: tlv_message_def)
  obtain m where m: "tlv_format [(TLVType_State, [key_state k]), (TLVType_EncryptedData, e)] REQUEST_BUFSIZE = Some m"
    "message_process m = Some (Some (tlv_message [(TLVType_State, [key_state k]), (TLVType_EncryptedData, e)]))"
    "state_get m = Some (Some (unat (key_state k)))"
    by (rule state_message [OF sep' size']) (simp_all add: tlv_types)
  have sealed: "sealed_identity C sign_key k session_key ident pk sk = Some m"
    using x(1) signed key(1) e(1) m(1) by (simp add: sealed_identity_def)
  have "verify_info C signature pk device_x ident pk"
    using assms(3,5,6) x(2) len(1) by (simp add: verify_info_def create_info_def sign_ok_def signature_def)
  with sealed m(2,3) key(1) e(3) d x(1) len show ?thesis by (intro that) simp_all
qed

text \<open>The whole of a pair-setup.\<close>

definition setup_conversation ::
    "crypto \<Rightarrow> nat \<Rightarrow> nat \<Rightarrow> nat \<Rightarrow> client_setup_context \<Rightarrow> server_setup_context \<Rightarrow>
     (client_setup_context \<times> server_setup_context) option" where
  "setup_conversation C s b a cl sv =
     do { (cl, sv) \<leftarrow> proof_conversation C s b a cl sv;
          (cl, m5) \<leftarrow> succeeds (client_setup_request3 C cl);
          (sv, m6) \<leftarrow> answered (pair_setup_server C s b m5 sv);
          (cl, _) \<leftarrow> succeeds (client_setup_response3 C m6 cl);
          Some (cl, sv) }"

lemma overwrite_string:
  assumes "0 \<notin> set ident" and "length ident < 64"
  shows "takeWhile (\<lambda>b. b \<noteq> 0) (overwrite (replicate 64 0) ident) = ident"
proof -
  have "takeWhile (\<lambda>b. b \<noteq> 0) (ident @ replicate (64 - length ident) 0) = ident @ takeWhile (\<lambda>b. b \<noteq> 0) (replicate (64 - length ident) 0)"
    by (rule takeWhile_append2) (use assms(1) in auto)
  then show ?thesis by (simp add: overwrite_def)
qed

lemma identities_exchanged:
  assumes "aead_ok C" and "hkdf_ok C" and "sign_ok C" and "sha_ok C"
    and "client_setup_new False (Some password) (Some ident) keypair = Some cl"
    and "server_setup_new C (Some password) True sid = Some sv" and "fair_numbers C password s b a"
    and "fst keypair = sk_to_pk C (snd keypair)" and "ident \<noteq> []" "0 \<notin> set ident" "sid \<noteq> []"
  shows "\<exists>cl' sv'. setup_conversation C s b a cl sv = Some (cl', sv') \<and>
     cs_status cl' = PAIR_STATUS_COMPLETED \<and> setup_status sv' = PAIR_STATUS_COMPLETED \<and>
     added sv' = Some [(ident, fst keypair)] \<and> cs_result_server_key cl' = fst (server_keypair C sid)"
proof -
  have cl: "length ident < 64" "\<not> transient cl" "cs_pin cl = password" "cs_device_id cl = ident"
    "cs_public_key cl = fst keypair" "cs_private_key cl = snd keypair" "cs_result_device_id cl = replicate 64 0"
    using assms(5) by (auto simp: client_setup_new_def PAIR_AP_DEVICE_ID_LEN_MAX_def split: if_splits)
  have sv: "length sid < 64" "pin sv = password" "setup_status sv = PAIR_STATUS_IN_PROGRESS" "added sv = Some []"
    "setup_device_id sv = sid" "setup_public_key sv = fst (server_keypair C sid)"
    "setup_private_key sv = snd (server_keypair C sid)" "result_device_id sv = replicate 64 0"
    using assms(6) by (auto simp: server_setup_new_def PAIR_AP_DEVICE_ID_LEN_MAX_def Let_def split: if_splits prod.splits)
  obtain cl1 sv1 usr ver key where p: "proof_conversation C s b a cl sv = Some (cl1, sv1)"
    "cs_user cl1 = Some usr" "usr_session_key usr = key" "verifier sv1 = Some ver" "ver_session_key ver = key"
    "setup_status sv1 = PAIR_STATUS_IN_PROGRESS"
    "cs_device_id cl1 = ident" "cs_public_key cl1 = fst keypair" "cs_private_key cl1 = snd keypair"
    "cs_result_device_id cl1 = replicate 64 0"
    "setup_device_id sv1 = sid" "setup_public_key sv1 = fst (server_keypair C sid)"
    "setup_private_key sv1 = snd (server_keypair C sid)" "added sv1 = Some []" "result_device_id sv1 = replicate 64 0"
    by (rule proofs_exchanged [OF assms(4), of cl s b a sv]) (use cl sv assms(7) in simp_all)
  have spk: "fst (server_keypair C sid) = sk_to_pk C (snd (server_keypair C sid))"
    using assms(3) by (simp add: sign_ok_def server_keypair_def)
  obtain m5 e5 k5 d5 x5 sig5 where m5:
    "sealed_identity C PAIR_SETUP_CONTROLLER_SIGN PAIR_SETUP_MSG05 key ident (fst keypair) (snd keypair) = Some m5"
    "message_process m5 = Some (Some (tlv_message [(TLVType_State, [key_state PAIR_SETUP_MSG05]), (TLVType_EncryptedData, e5)]))"
    "state_get m5 = Some (Some (unat (key_state PAIR_SETUP_MSG05)))"
    "hkdf_extract_expand C 32 key PAIR_SETUP_MSG05 = Some k5" "open_message C k5 PAIR_SETUP_MSG05 e5 = Some d5"
    "message_process d5 = Some (Some (tlv_message
      [(TLVType_Identifier, ident), (TLVType_Signature, sig5), (TLVType_PublicKey, fst keypair)]))"
    "hkdf_extract_expand C 32 key PAIR_SETUP_CONTROLLER_SIGN = Some x5"
    "length sig5 = 64" "length (fst keypair) = 32" "verify_info C sig5 (fst keypair) x5 ident (fst keypair)"
    by (rule identity_opens [OF assms(1-3,9) cl(1) assms(8), of PAIR_SETUP_CONTROLLER_SIGN PAIR_SETUP_MSG05 key]) simp_all
  obtain m6 e6 k6 d6 x6 sig6 where m6:
    "sealed_identity C PAIR_SETUP_ACCESSORY_SIGN PAIR_SETUP_MSG06 key sid (fst (server_keypair C sid)) (snd (server_keypair C sid)) = Some m6"
    "message_process m6 = Some (Some (tlv_message [(TLVType_State, [key_state PAIR_SETUP_MSG06]), (TLVType_EncryptedData, e6)]))"
    "hkdf_extract_expand C 32 key PAIR_SETUP_MSG06 = Some k6" "open_message C k6 PAIR_SETUP_MSG06 e6 = Some d6"
    "message_process d6 = Some (Some (tlv_message
      [(TLVType_Identifier, sid), (TLVType_Signature, sig6), (TLVType_PublicKey, fst (server_keypair C sid))]))"
    "hkdf_extract_expand C 32 key PAIR_SETUP_ACCESSORY_SIGN = Some x6"
    "length sig6 = 64" "length (fst (server_keypair C sid)) = 32"
    "verify_info C sig6 (fst (server_keypair C sid)) x6 sid (fst (server_keypair C sid))"
    by (rule identity_opens [OF assms(1-3,11) sv(1) spk, of PAIR_SETUP_ACCESSORY_SIGN PAIR_SETUP_MSG06 key]) simp_all
  have c5: "client_setup_request3 C cl1 = Some (cl1, Some m5)"
    using p(2,3,7-9) m5(1) by (simp add: client_setup_request3_def step_simps)
  let ?sv2 = "sv1\<lparr>result_device_id := overwrite (replicate 64 0) ident, result_client_public_key := fst keypair\<rparr>"
  have req: "server_setup_request3 C m5 sv1 = Some (?sv2, Some ())"
    using m5(2,4-10) p(4,5,15) cl(1)
    by (simp add: server_setup_request3_def step_simps process_or_error_def tlv_types srp_verifier_get_session_key_def
        PAIR_AP_DEVICE_ID_LEN_MAX_def)
  let ?sv3 = "?sv2\<lparr>added := Some [(ident, fst keypair)], setup_status := PAIR_STATUS_COMPLETED\<rparr>"
  have resp: "server_setup_response3 C ?sv2 = Some (?sv3, Some m6)"
    using m6(1) p(4-6,11-14) overwrite_string [OF assms(10) cl(1)]
    by (simp add: server_setup_response3_def step_simps srp_verifier_get_session_key_def)
  have s5: "pair_setup_server C s b m5 sv1 = Some (?sv3, Some m6, True)"
    using m5(3) req resp by (simp add: pair_setup_server_def next_do_def key_state_def)
  let ?cl2 = "cl1\<lparr>cs_result_server_key := fst (server_keypair C sid), cs_result_device_id := overwrite (replicate 64 0) sid,
      cs_status := PAIR_STATUS_COMPLETED\<rparr>"
  have c6: "client_setup_response3 C m6 cl1 = Some (?cl2, Some ())"
    using m6(2-9) p(2,3,10) sv(1)
    by (simp add: client_setup_response3_def step_simps process_or_error_def tlv_types PAIR_AP_DEVICE_ID_LEN_MAX_def)
  have "setup_conversation C s b a cl sv = Some (?cl2, ?sv3)"
    by (simp add: setup_conversation_def p(1) succeeds_def answered_def c5 s5 c6)
  then show ?thesis by simp
qed

text \<open>
  C33. A client that has been set up with the PIN is known: after pair-setup the server's callback has the
  client's identifier and key, the client has the server's key, and a pair-verify in which each side checks
  the other against what it has stored completes with the secret their new key pairs agree on.
\<close>
theorem setup_then_verify:
  assumes "aead_ok C" and "hkdf_ok C" and "sign_ok C" and "sha_ok C"
    and "client_setup_new False (Some password) (Some ident) keypair = Some cl"
    and "server_setup_new C (Some password) True sid = Some sv" and "fair_numbers C password s b a"
    and "fst keypair = sk_to_pk C (snd keypair)" and "ident \<noteq> []" "0 \<notin> set ident" "sid \<noteq> []"
    and "agree C client_pair server_pair secret"
  shows "\<exists>cl' sv' stored. setup_conversation C s b a cl sv = Some (cl', sv') \<and> added sv' = Some stored \<and>
     (\<exists>vcl vsv vcl' vsv'.
        client_verify_new C (snd keypair) (Some (cs_result_server_key cl')) ident = Some vcl \<and>
        server_verify_new C (Some (map_of stored)) sid = Some vsv \<and>
        verify_conversation C client_pair server_pair vcl vsv = Some (vcl', vsv') \<and>
        cl_result_secret vcl' = secret \<and> pair_verify_result vsv' = Some secret)"
proof -
  obtain cl' sv' where su: "setup_conversation C s b a cl sv = Some (cl', sv')"
    "added sv' = Some [(ident, fst keypair)]" "cs_result_server_key cl' = fst (server_keypair C sid)"
    using identities_exchanged [OF assms(1-11)] by blast
  have "length ident < 64" "length sid < 64"
    using assms(5,6) by (auto simp: client_setup_new_def server_setup_new_def PAIR_AP_DEVICE_ID_LEN_MAX_def split: if_splits)
  then obtain vcl vsv where new: "client_verify_new C (snd keypair) (Some (fst (server_keypair C sid))) ident = Some vcl"
    "server_verify_new C (Some (map_of [(ident, fst keypair)])) sid = Some vsv"
    by (cases "server_keypair C sid") (simp add: client_verify_new_def server_verify_new_def PAIR_AP_DEVICE_ID_LEN_MAX_def)
  have "\<exists>vcl' vsv'. verify_conversation C client_pair server_pair vcl vsv = Some (vcl', vsv') \<and>
      cl_status vcl' = PAIR_STATUS_COMPLETED \<and> cl_result_secret vcl' = secret \<and> pair_verify_result vsv' = Some secret"
    by (rule verify_runs [OF assms(1-3,12) new assms(9-11)]) (use assms(8) in auto)
  then show ?thesis using su new by auto
qed

section \<open>Messages out of order\<close>

text \<open>
  A message of state 5 or 6 to a server that has not seen a proof, such as the first message of a
  connection, reads the verifier that is not there.
\<close>
lemma setup_out_of_order:
  assumes "verifier c = None" and "message_process m = Some (Some vs)"
    and "state_get m = Some (Some 5) \<or> state_get m = Some (Some 6)"
  shows "pair_setup_server C s b m c = None"
  using assms
  by (auto simp: pair_setup_server_def server_setup_request3_def step_simps process_or_error_def srp_verifier_get_session_key_def)

section \<open>Concrete runs\<close>

text \<open>The stand-in's hash is always 1, so that the verifier is the generator 5.\<close>

lemma toy_sha_ok: "sha_ok toy_crypto"
  by (simp add: sha_ok_def hash_ok_def toy_crypto_def)

lemma toy_hash: "sha512 toy_crypto bs = replicate 63 0 @ [1]" "bin2bn (replicate 63 0 @ [1]) = 1"
  by (simp_all add: toy_crypto_def bin2bn_def eval_nat_numeral)

lemma toy_fair: "fair_numbers toy_crypto password (256 ^ 15) 1 1"
proof -
  have small: "num_bytes SRP_N_3072 \<le> 384" "num_bytes 5 \<le> 384" "num_bytes 10 \<le> 384"
    by (rule num_bytes_le, simp add: SRP_N_3072_def)+
  have "num_bytes (256 ^ 15) = 16" by (simp add: num_bytes_def bn2bin.simps)
  moreover have "5 mod int SRP_N_3072 = 5" "(5 + 5) mod SRP_N_3072 = 10" by (simp_all add: SRP_N_3072_def)
  ultimately show ?thesis
    using small
    by (simp add: fair_numbers_def srp_create_salted_verification_key_def srp_verifier_start_authentication_def
        srp_user_start_authentication_def srp_user_new_def calculate_x_def H_ns_def H_nn_pad_def toy_hash new_ng_def
        bnum_modexp_def Let_def)
qed

lemma toy_setup_server:
  obtains sv where "server_setup_new toy_crypto password True [66] = Some sv" "verifier sv = None"
  by (cases "server_keypair toy_crypto [66]") (simp add: server_setup_new_def PAIR_AP_DEVICE_ID_LEN_MAX_def)

lemma setup_then_verify_witness:
  "\<exists>cl sv cl' sv' stored vcl vsv vcl' vsv'.
     client_setup_new False (Some [49, 50, 51, 52]) (Some [65]) (seed_keypair toy_crypto [7]) = Some cl \<and>
     server_setup_new toy_crypto (Some [49, 50, 51, 52]) True [66] = Some sv \<and>
     setup_conversation toy_crypto (256 ^ 15) 1 1 cl sv = Some (cl', sv') \<and> added sv' = Some stored \<and>
     server_verify_new toy_crypto (Some (map_of stored)) [66] = Some vsv \<and>
     verify_conversation toy_crypto (toy_pair 1) (toy_pair 2) vcl vsv = Some (vcl', vsv') \<and>
     pair_verify_result vsv' = Some (replicate 32 3)"
proof -
  obtain cl where cl: "client_setup_new False (Some [49, 50, 51, 52]) (Some [65]) (seed_keypair toy_crypto [7]) = Some cl"
    by (simp add: client_setup_new_def PAIR_AP_DEVICE_ID_LEN_MAX_def)
  obtain sv where sv: "server_setup_new toy_crypto (Some [49, 50, 51, 52]) True [66] = Some sv"
    by (rule toy_setup_server)
  have keys: "fst (seed_keypair toy_crypto [7]) = sk_to_pk toy_crypto (snd (seed_keypair toy_crypto [7]))"
    using toy_sign_ok by (simp add: sign_ok_def)
  have "agree toy_crypto (toy_pair 1) (toy_pair 2) (replicate 32 3)" using toy_agree [of 1 2] by simp
  from setup_then_verify [OF toy_aead_ok toy_hkdf_ok toy_sign_ok toy_sha_ok cl sv toy_fair keys _ _ _ this]
  show ?thesis using cl sv by fastforce
qed

text \<open>A first message of state 6 without anything else.\<close>

lemma setup_out_of_order_witness:
  "\<exists>sv m. server_setup_new toy_crypto None True [66] = Some sv \<and> tlv_format [(TLVType_State, [6])] REQUEST_BUFSIZE = Some m \<and>
     pair_setup_server toy_crypto (256 ^ 15) 1 m sv = None"
proof -
  obtain sv where sv: "server_setup_new toy_crypto None True [66] = Some sv" "verifier sv = None"
    by (rule toy_setup_server)
  have "tlv_separable (tlv_message [(TLVType_State, [6])])" by (simp add: tlv_message_def)
  then obtain m where "tlv_format [(TLVType_State, [6])] REQUEST_BUFSIZE = Some m"
    "message_process m = Some (Some (tlv_message [(TLVType_State, [6])]))" "state_get m = Some (Some (unat (6 :: u8)))"
    by (rule state_message) (simp_all add: tlv_message_def get_value_def)
  then show ?thesis using setup_out_of_order [OF sv(2), of m "tlv_message [(TLVType_State, [6])]"] sv(1) by auto
qed

end
