(* ===== verification/Pair_Cipher.thy ===== *)
theory Pair_Cipher
  imports Pair_Crypto
begin

text \<open>
  The encrypted connection of AirPlay 2: the cipher of a channel (\<open>pair_ap/pair_homekit.c\<close>) and reading
  and writing through it (\<open>rtsp.c\<close>). Numbers are copied in the byte order of the machine, little-endian.
\<close>

section \<open>The cipher\<close>

definition le16 :: "u16 \<Rightarrow> bytes" where
  "le16 v = [ucast v, ucast (drop_bit 8 v)]"

definition le64 :: "u64 \<Rightarrow> bytes" where
  "le64 v = map (\<lambda>i. ucast (drop_bit (8 * i) v)) [0..<8]"

definition of_le16 :: "u8 \<Rightarrow> u8 \<Rightarrow> u16" where
  "of_le16 b0 b1 = push_bit 8 (ucast b1) OR ucast b0"

record pair_cipher_context =
  encryption_key :: bytes
  decryption_key :: bytes
  encryption_counter :: u64
  decryption_counter :: u64
  encryption_counter_prev :: u64
  decryption_counter_prev :: u64

text \<open>The keys of a channel: for writing, for reading.\<close>

definition channel_keys :: "int \<Rightarrow> (pair_keys \<times> pair_keys) option" where
  "channel_keys channel =
     (if channel = 0 then Some (PAIR_CONTROL_WRITE, PAIR_CONTROL_READ)
      else if channel = 1 then Some (PAIR_EVENTS_READ, PAIR_EVENTS_WRITE)
      else if channel = 2 then Some (PAIR_CONTROL_READ, PAIR_CONTROL_WRITE)
      else if channel = 3 then Some (PAIR_EVENTS_WRITE, PAIR_EVENTS_READ)
      else None)"

definition cipher_new :: "crypto \<Rightarrow> int \<Rightarrow> bytes \<Rightarrow> pair_cipher_context option" where
  "cipher_new C channel shared_secret =
     do { (write_key, read_key) \<leftarrow> channel_keys channel;
          ek \<leftarrow> hkdf_extract_expand C 32 shared_secret write_key;
          dk \<leftarrow> hkdf_extract_expand C 32 shared_secret read_key;
          Some \<lparr>encryption_key = ek, decryption_key = dk, encryption_counter = 0, decryption_counter = 0,
                encryption_counter_prev = 0, decryption_counter_prev = 0\<rparr> }"

definition ENCRYPTED_LEN_MAX :: nat where
  "ENCRYPTED_LEN_MAX = 0x400"

definition counter_nonce :: "u64 \<Rightarrow> bytes" where
  "counter_nonce counter = replicate 4 0 @ le64 counter"

section \<open>Encrypting\<close>

text \<open>The loop over the \<open>n\<close> blocks that are left.\<close>

fun encrypt_blocks :: "crypto \<Rightarrow> bytes \<Rightarrow> nat \<Rightarrow> u64 \<Rightarrow> bytes \<Rightarrow> (bytes \<times> u64) option" where
  "encrypt_blocks C key 0 counter plain = Some ([], counter)"
| "encrypt_blocks C key (Suc n) counter plain =
     (let block_len = (if n = 0 then of_nat (length plain) else of_nat ENCRYPTED_LEN_MAX) :: u16 in
      do { (c, tag) \<leftarrow> encrypt_chacha C (take (unat block_len) plain) key (le16 block_len) (counter_nonce counter);
           (rest, counter') \<leftarrow> encrypt_blocks C key n (counter + 1) (drop (unat block_len) plain);
           Some (le16 block_len @ c @ tag @ rest, counter') })"

definition encrypt :: "crypto \<Rightarrow> bytes \<Rightarrow> pair_cipher_context \<Rightarrow> pair_cipher_context \<times> bytes option" where
  "encrypt C plaintext cctx =
     (if plaintext = [] then (cctx, None)
      else
        let nblocks = 1 + (length plaintext - 1) div ENCRYPTED_LEN_MAX;
            cctx = cctx\<lparr>encryption_counter_prev := encryption_counter cctx\<rparr>
        in case encrypt_blocks C (encryption_key cctx) nblocks (encryption_counter cctx) plaintext of
             None \<Rightarrow> (cctx\<lparr>encryption_counter := encryption_counter_prev cctx\<rparr>, None)
           | Some (ciphertext, counter) \<Rightarrow> (cctx\<lparr>encryption_counter := counter\<rparr>, Some ciphertext))"

section \<open>Decrypting\<close>

text \<open>
  The loop over the blocks from \<open>pos\<close>. The two bytes of a length are copied before the code knows that
  they are there: \<open>beyond\<close> is what lies behind the ciphertext.
\<close>

definition block_len_at :: "bytes \<Rightarrow> u8 \<Rightarrow> nat \<Rightarrow> nat" where
  "block_len_at ciphertext beyond pos =
     unat (of_le16 (ciphertext ! pos) (if pos + 1 < length ciphertext then ciphertext ! (pos + 1) else beyond))"

function decrypt_blocks ::
    "crypto \<Rightarrow> bytes \<Rightarrow> bytes \<Rightarrow> u8 \<Rightarrow> nat \<Rightarrow> u64 \<Rightarrow> bytes \<Rightarrow> (nat \<times> u64 \<times> bytes) option" where
  "decrypt_blocks C key ciphertext beyond pos counter plain =
     (if pos < length ciphertext then
        let block_len = block_len_at ciphertext beyond pos in
        if pos + block_len + 2 + AUTHTAG_LENGTH > length ciphertext then Some (pos, counter, plain)
        else
          (case decrypt_chacha C (take block_len (drop (pos + 2) ciphertext)) key
                  (take 2 (drop pos ciphertext)) (take 16 (drop (pos + 2 + block_len) ciphertext)) (counter_nonce counter) of
             None \<Rightarrow> None
           | Some p \<Rightarrow>
               decrypt_blocks C key ciphertext beyond (pos + block_len + 2 + AUTHTAG_LENGTH) (counter + 1) (plain @ p))
      else Some (pos, counter, plain))"
  by pat_completeness auto
termination
  by (relation "measure (\<lambda>(C, key, ciphertext, beyond, pos, counter, plain). length ciphertext - pos)")
     (auto simp: AUTHTAG_LENGTH_def)

declare decrypt_blocks.simps [simp del]

text \<open>The number of bytes used and the plaintext; \<open>None\<close> is the -1.\<close>

definition decrypt :: "crypto \<Rightarrow> bytes \<Rightarrow> u8 \<Rightarrow> pair_cipher_context \<Rightarrow> pair_cipher_context \<times> (nat \<times> bytes) option" where
  "decrypt C ciphertext beyond cctx =
     (if length ciphertext < 2 then (cctx, None)
      else
        let cctx = cctx\<lparr>decryption_counter_prev := decryption_counter cctx\<rparr>
        in case decrypt_blocks C (decryption_key cctx) ciphertext beyond 0 (decryption_counter cctx) [] of
             None \<Rightarrow> (cctx\<lparr>decryption_counter := decryption_counter_prev cctx\<rparr>, None)
           | Some (pos, counter, plain) \<Rightarrow> (cctx\<lparr>decryption_counter := counter\<rparr>, Some (pos, plain)))"

section \<open>Buffers that grow\<close>

record sized_buffer =
  buf_data :: bytes
  buf_size :: nat

definition empty_buffer :: sized_buffer where
  "empty_buffer = \<lparr>buf_data = [], buf_size = 0\<rparr>"

definition buf_add :: "sized_buffer \<Rightarrow> bytes \<Rightarrow> sized_buffer" where
  "buf_add buf s =
     (let n = length (buf_data buf) + length s
      in \<lparr>buf_data = buf_data buf @ s, buf_size = (if n > buf_size buf then n + 2048 else buf_size buf)\<rparr>)"

definition buf_drain :: "sized_buffer \<Rightarrow> nat \<Rightarrow> sized_buffer" where
  "buf_drain buf len =
     (if len \<ge> length (buf_data buf) then empty_buffer else buf\<lparr>buf_data := drop len (buf_data buf)\<rparr>)"

definition buf_remove :: "sized_buffer \<Rightarrow> nat \<Rightarrow> bytes \<times> sized_buffer" where
  "buf_remove buf out_len =
     (let n = (if length (buf_data buf) > out_len then out_len else length (buf_data buf))
      in (take n (buf_data buf), buf_drain buf n))"

section \<open>Reading and writing\<close>

record pair_cipher_bundle =
  cipher_ctx :: pair_cipher_context
  encrypted_read_buffer :: sized_buffer
  plaintext_read_buffer :: sized_buffer

text \<open>What happens at the socket, as in \<open>Rtsp_Reader\<close>; a read takes what there is room for.\<close>

datatype sock_event = Data bytes | Eof | Sock_error

fun sock_read :: "nat \<Rightarrow> sock_event list \<Rightarrow> ((int + bytes) \<times> sock_event list) option" where
  "sock_read room [] = None"
| "sock_read room (Data s # es) =
     (if room = 0 \<or> s = [] then Some (Inl 0, Data s # es)
      else if length s \<le> room then Some (Inr s, es) else Some (Inr (take room s), Data (drop room s) # es))"
| "sock_read room (Eof # es) = Some (Inl 0, Eof # es)"
| "sock_read room (Sock_error # es) = Some (Inl (- 1), es)"

fun sock_event_size :: "sock_event \<Rightarrow> nat" where
  "sock_event_size (Data s) = Suc (length s)"
| "sock_event_size e = 1"

lemma sock_read_smaller:
  "sock_read room es = Some (Inr s, es') \<Longrightarrow> sum_list (map sock_event_size es') < sum_list (map sock_event_size es)"
  by (induction room es rule: sock_read.induct) (auto split: if_splits)

text \<open>
  What \<open>read_encrypted\<close> returns: the bytes, or what is not positive. Without an event it waits (\<open>None\<close>).
\<close>

function fill_plaintext ::
    "crypto \<Rightarrow> u8 \<Rightarrow> pair_cipher_bundle \<Rightarrow> sock_event list \<Rightarrow>
     ((int + bytes) \<times> pair_cipher_bundle \<times> sock_event list) option" where
  "fill_plaintext C beyond ctx es =
     (case sock_read 4096 es of
        None \<Rightarrow> None
      | Some (Inl got, es) \<Rightarrow> Some (Inl got, ctx, es)
      | Some (Inr s, es) \<Rightarrow>
          let ctx = ctx\<lparr>encrypted_read_buffer := buf_add (encrypted_read_buffer ctx) s\<rparr>;
              (cctx, r) = decrypt C (buf_data (encrypted_read_buffer ctx)) beyond (cipher_ctx ctx);
              ctx = ctx\<lparr>cipher_ctx := cctx\<rparr>
          in case r of
               None \<Rightarrow> Some (Inl (- 1), ctx, es)
             | Some (consumed, plain) \<Rightarrow>
                 let ctx = ctx\<lparr>encrypted_read_buffer := buf_drain (encrypted_read_buffer ctx) consumed\<rparr>
                 in if plain = [] then fill_plaintext C beyond ctx es else Some (Inr plain, ctx, es))"
  by pat_completeness auto
termination
  by (relation "measure (\<lambda>(C, beyond, ctx, es). sum_list (map sock_event_size es))")
     (auto dest: sock_read_smaller)

declare fill_plaintext.simps [simp del]

definition read_encrypted ::
    "crypto \<Rightarrow> u8 \<Rightarrow> pair_cipher_bundle \<Rightarrow> nat \<Rightarrow> sock_event list \<Rightarrow>
     ((int + bytes) \<times> pair_cipher_bundle \<times> sock_event list) option" where
  "read_encrypted C beyond ctx count es =
     (if buf_data (plaintext_read_buffer ctx) \<noteq> []
      then let (out, buf) = buf_remove (plaintext_read_buffer ctx) count
           in Some (Inr out, ctx\<lparr>plaintext_read_buffer := buf\<rparr>, es)
      else case fill_plaintext C beyond ctx es of
             None \<Rightarrow> None
           | Some (Inl ret, ctx, es) \<Rightarrow> Some (Inl ret, ctx, es)
           | Some (Inr plain, ctx, es) \<Rightarrow>
               let (out, buf) = buf_remove (buf_add (plaintext_read_buffer ctx) plain) count
               in Some (Inr out, ctx\<lparr>plaintext_read_buffer := buf\<rparr>, es))"

text \<open>
  Writing: \<open>ws\<close> is what the calls of \<open>write\<close> return. The bytes that went out, and the result unless the
  writes are still going on.
\<close>

fun write_loop :: "bytes \<Rightarrow> int list \<Rightarrow> bytes \<times> int option option" where
  "write_loop [] ws = ([], Some None)"
| "write_loop (b # bs) [] = ([], None)"
| "write_loop (b # bs) (wrote # ws) =
     (if wrote \<le> 0 then ([], Some (Some wrote))
      else let (sent, r) = write_loop (drop (nat wrote) (b # bs)) ws in (take (nat wrote) (b # bs) @ sent, r))"

definition write_encrypted ::
    "crypto \<Rightarrow> pair_cipher_context \<Rightarrow> bytes \<Rightarrow> int list \<Rightarrow> pair_cipher_context \<times> bytes \<times> int option" where
  "write_encrypted C cctx buf ws =
     (case encrypt C buf cctx of
        (cctx, None) \<Rightarrow> (cctx, [], Some (- 1))
      | (cctx, Some encrypted) \<Rightarrow>
          (case write_loop encrypted ws of
             (sent, None) \<Rightarrow> (cctx, sent, None)
           | (sent, Some None) \<Rightarrow> (cctx, sent, Some (int (length buf)))
           | (sent, Some (Some wrote)) \<Rightarrow> (cctx, sent, Some wrote)))"

end
