(* ===== verification/Pair_Channel.thy ===== *)
theory Pair_Channel
  imports Pair_Cipher "HOL-Library.Sublist"
begin

text \<open>
  What is written to an encrypted connection is read at its other end, however the connection cuts it,
  unless the first byte comes alone.
\<close>

section \<open>Frames\<close>

definition frame :: "crypto \<Rightarrow> bytes \<Rightarrow> u64 \<Rightarrow> bytes \<Rightarrow> bytes" where
  "frame C key counter p =
     (case encrypt_chacha C p key (le16 (of_nat (length p))) (counter_nonce counter) of
        Some (c, t) \<Rightarrow> le16 (of_nat (length p)) @ c @ t
      | None \<Rightarrow> [])"

fun frames :: "crypto \<Rightarrow> bytes \<Rightarrow> u64 \<Rightarrow> bytes list \<Rightarrow> bytes" where
  "frames C key counter [] = []"
| "frames C key counter (p # ps) = frame C key counter p @ frames C key (counter + 1) ps"

lemma frames_append:
  "frames C key counter (ps @ qs) = frames C key counter ps @ frames C key (counter + of_nat (length ps)) qs"
  by (induction ps arbitrary: counter) (simp_all add: add.assoc)

lemma length_counter_nonce [simp]: "length (counter_nonce c) = 12"
  by (simp add: counter_nonce_def le64_def)

lemma length_le16 [simp]: "length (le16 v) = 2"
  by (simp add: le16_def)

lemma of_le16_le16: "of_le16 (ucast v) (ucast (drop_bit 8 v)) = v"
  by (rule bit_word_eqI) (auto simp: of_le16_def bit_simps dest: bit_imp_le_length)

definition block_ok :: "bytes \<Rightarrow> bool" where
  "block_ok p \<longleftrightarrow> p \<noteq> [] \<and> length p \<le> 1024"

lemma unat_block: "length p \<le> 1024 \<Longrightarrow> unat (of_nat (length p) :: u16) = length p"
  by (simp add: unat_of_nat take_bit_nat_eq_self)

text \<open>A frame and how it is opened.\<close>

lemma frame_parts:
  assumes "aead_ok C" and "length key = 32"
  obtains c t where "frame C key counter p = le16 (of_nat (length p)) @ c @ t"
    and "encrypt_chacha C p key (le16 (of_nat (length p))) (counter_nonce counter) = Some (c, t)"
    and "length c = length p" and "length t = 16"
    and "decrypt_chacha C c key (le16 (of_nat (length p))) t (counter_nonce counter) = Some p"
proof -
  obtain c t where "seal C key (counter_nonce counter) (le16 (of_nat (length p))) p = Some (c, t)"
    "length c = length p" "length t = 16" "unseal C key (counter_nonce counter) (le16 (of_nat (length p))) c t = Some p"
    by (rule aead_okE [OF assms length_counter_nonce])
  then show ?thesis
    by (intro that [of c t]) (simp_all add: frame_def encrypt_chacha_def decrypt_chacha_def)
qed

lemma length_frame:
  assumes "aead_ok C" and "length key = 32"
  shows "length (frame C key counter p) = length p + 18"
proof -
  obtain c t where "frame C key counter p = le16 (of_nat (length p)) @ c @ t" "length c = length p" "length t = 16"
    by (rule frame_parts [OF assms])
  then show ?thesis by simp
qed

lemma block_len_at_frame:
  assumes "aead_ok C" and "length key = 32" and "length p \<le> 1024" and "frame C key counter p @ Y = B @ X" and "1 < length B"
  shows "block_len_at (pre @ B) beyond (length pre) = length p"
proof -
  obtain c t where f: "frame C key counter p = le16 (of_nat (length p)) @ c @ t"
    by (rule frame_parts [OF assms(1,2)])
  obtain b0 b1 B' where B: "B = b0 # b1 # B'" using assms(5) by (cases B; cases "tl B") auto
  have "b0 = ucast (of_nat (length p) :: u16)" "b1 = ucast (drop_bit 8 (of_nat (length p) :: u16))"
    using assms(4) unfolding f B by (simp_all add: le16_def)
  then show ?thesis
    using unat_block [OF assms(3)] by (simp add: block_len_at_def B nth_append of_le16_le16)
qed

section \<open>Decrypting what has come so far\<close>

lemma decrypt_blocks_frames:
  assumes "aead_ok C" and "length key = 32" and "list_all block_ok ps" and "B @ X = frames C key counter ps"
  shows "\<exists>qs rs pos. ps = qs @ rs \<and> pos \<le> length B \<and>
     decrypt_blocks C key (pre @ B) beyond (length pre) counter plain =
       Some (length pre + pos, counter + of_nat (length qs), plain @ concat qs) \<and>
     drop pos B @ X = frames C key (counter + of_nat (length qs)) rs \<and>
     (rs = [] \<or> length (drop pos B) < length (frame C key (counter + of_nat (length qs)) (hd rs)))"
  using assms(3,4)
proof (induction ps arbitrary: pre B counter plain)
  case Nil
  then show ?case by (intro exI [of _ "[]"] exI [of _ 0]) (simp add: decrypt_blocks.simps)
next
  case (Cons p ps)
  have p: "length p \<le> 1024" using Cons.prems(1) by (simp add: block_ok_def)
  note F = length_frame [OF assms(1,2), of counter p]
  have e: "frame C key counter p @ frames C key (counter + 1) ps = B @ X" using Cons.prems(2) by simp
  show ?case
  proof (cases "length B < length (frame C key counter p)")
    case True
    have "decrypt_blocks C key (pre @ B) beyond (length pre) counter plain = Some (length pre, counter, plain)"
    proof (cases "1 < length B")
      case True
      have "block_len_at (pre @ B) beyond (length pre) = length p"
        by (rule block_len_at_frame [OF assms(1,2) p e True])
      then show ?thesis
        using \<open>length B < length (frame C key counter p)\<close> F
        by (subst decrypt_blocks.simps) (simp add: AUTHTAG_LENGTH_def Let_def)
    next
      case False
      then show ?thesis by (subst decrypt_blocks.simps) (simp add: AUTHTAG_LENGTH_def Let_def)
    qed
    then show ?thesis
      using True Cons.prems(2) by (intro exI [of _ "[]"] exI [of _ "p # ps"] exI [of _ 0]) simp
  next
    case False
    obtain c t where ct: "frame C key counter p = le16 (of_nat (length p)) @ c @ t" "length c = length p" "length t = 16"
      "decrypt_chacha C c key (le16 (of_nat (length p))) t (counter_nonce counter) = Some p"
      by (rule frame_parts [OF assms(1,2)])
    obtain B' where B: "B = frame C key counter p @ B'"
    proof -
      have "frame C key counter p = take (length (frame C key counter p)) B"
        using arg_cong [OF e, of "take (length (frame C key counter p))"] False by simp
      then show ?thesis by (metis append_take_drop_id that)
    qed
    have B2: "B' @ X = frames C key (counter + 1) ps" using Cons.prems(2) by (simp add: B)
    have len: "block_len_at (pre @ B) beyond (length pre) = length p"
      by (rule block_len_at_frame [OF assms(1,2) p _, of counter B' B "[]"]) (simp_all add: B F)
    have slices: "take (length p) (drop (length pre + 2) (pre @ B)) = c" "take 2 (drop (length pre) (pre @ B)) = le16 (of_nat (length p))"
      "take 16 (drop (length pre + 2 + length p) (pre @ B)) = t"
      using ct(2,3) by (simp_all add: B ct(1))
    have next_pos: "length pre + length p + 2 + AUTHTAG_LENGTH = length (pre @ frame C key counter p)"
      by (simp add: F AUTHTAG_LENGTH_def)
    have "decrypt_blocks C key (pre @ B) beyond (length pre) counter plain =
        decrypt_blocks C key (pre @ B) beyond (length (pre @ frame C key counter p)) (counter + 1) (plain @ p)"
    proof -
      have "length (pre @ B) \<ge> length pre + length p + 2 + AUTHTAG_LENGTH" "length pre < length (pre @ B)"
        by (simp_all add: B F AUTHTAG_LENGTH_def)
      then show ?thesis
        by (subst decrypt_blocks.simps) (simp only: Let_def len slices ct(4) option.simps next_pos if_True, simp)
    qed
    also have "\<dots> = decrypt_blocks C key ((pre @ frame C key counter p) @ B') beyond (length (pre @ frame C key counter p)) (counter + 1) (plain @ p)"
      by (simp add: B)
    finally have step: "decrypt_blocks C key (pre @ B) beyond (length pre) counter plain = \<dots>" .
    obtain qs rs pos where IH: "ps = qs @ rs" "pos \<le> length B'"
      "decrypt_blocks C key ((pre @ frame C key counter p) @ B') beyond (length (pre @ frame C key counter p)) (counter + 1) (plain @ p) =
         Some (length (pre @ frame C key counter p) + pos, counter + 1 + of_nat (length qs), (plain @ p) @ concat qs)"
      "drop pos B' @ X = frames C key (counter + 1 + of_nat (length qs)) rs"
      "rs = [] \<or> length (drop pos B') < length (frame C key (counter + 1 + of_nat (length qs)) (hd rs))"
      using Cons.IH [OF _ B2, of "pre @ frame C key counter p" "plain @ p"] Cons.prems(1) by auto
    show ?thesis
      unfolding step using IH
      by (intro exI [of _ "p # qs"] exI [of _ rs] exI [of _ "length (frame C key counter p) + pos"])
        (simp add: B add.assoc)
  qed
qed

section \<open>Encrypting\<close>

lemma encrypt_blocks_frames:
  assumes "aead_ok C" and "length key = 32" and "plain \<noteq> []" and "(length plain - 1) div 1024 = n"
  shows "\<exists>ps. list_all block_ok ps \<and> concat ps = plain \<and>
     encrypt_blocks C key (Suc n) counter plain = Some (frames C key counter ps, counter + of_nat (length ps))"
  using assms(3,4)
proof (induction n arbitrary: plain counter)
  case 0
  then have len: "length plain \<le> 1024" by (simp add: div_eq_0_iff)
  obtain c t where "frame C key counter plain = le16 (of_nat (length plain)) @ c @ t"
    "encrypt_chacha C plain key (le16 (of_nat (length plain))) (counter_nonce counter) = Some (c, t)"
    by (rule frame_parts [OF assms(1,2)])
  then show ?case
    using 0 len unat_block [OF len] by (intro exI [of _ "[plain]"]) (simp add: block_ok_def Let_def)
next
  case (Suc n)
  let ?p = "take 1024 plain" and ?rest = "drop 1024 plain"
  have len: "length plain > 1024" using Suc.prems(2) by (cases "length plain \<le> 1024") auto
  have "(length ?rest - 1) div 1024 = n"
  proof -
    have "length plain - 1 = (length ?rest - 1) + 1024" using len by simp
    then show ?thesis using Suc.prems(2) by simp
  qed
  moreover have "?rest \<noteq> []" using len by simp
  ultimately obtain ps where IH: "list_all block_ok ps" "concat ps = ?rest"
    "encrypt_blocks C key (Suc n) (counter + 1) ?rest = Some (frames C key (counter + 1) ps, counter + 1 + of_nat (length ps))"
    using Suc.IH by blast
  obtain c t where ct: "frame C key counter ?p = le16 (of_nat (length ?p)) @ c @ t"
    "encrypt_chacha C ?p key (le16 (of_nat (length ?p))) (counter_nonce counter) = Some (c, t)"
    by (rule frame_parts [OF assms(1,2)])
  have p: "length ?p = 1024" using len by simp
  have "encrypt_blocks C key (Suc (Suc n)) counter plain = Some (frames C key counter (?p # ps), counter + of_nat (length (?p # ps)))"
    using ct IH(3) unfolding p
    by (simp del: encrypt_blocks.simps add: encrypt_blocks.simps(2) [of C key "Suc n"] ENCRYPTED_LEN_MAX_def Let_def add.assoc)
  moreover have "block_ok ?p" using p by (auto simp: block_ok_def)
  ultimately show ?case using IH(1,2) by (intro exI [of _ "?p # ps"]) simp
qed

text \<open>Several messages in a row.\<close>

fun encrypt_all :: "crypto \<Rightarrow> pair_cipher_context \<Rightarrow> bytes list \<Rightarrow> (pair_cipher_context \<times> bytes) option" where
  "encrypt_all C cctx [] = Some (cctx, [])"
| "encrypt_all C cctx (m # ms) =
     (case encrypt C m cctx of
        (cctx, None) \<Rightarrow> None
      | (cctx, Some s) \<Rightarrow> map_option (\<lambda>(cctx, rest). (cctx, s @ rest)) (encrypt_all C cctx ms))"

lemma encrypt_frames:
  assumes "aead_ok C" and "length (encryption_key w) = 32" and "m \<noteq> []"
  obtains ps w' where "encrypt C m w = (w', Some (frames C (encryption_key w) (encryption_counter w) ps))"
    and "list_all block_ok ps" and "concat ps = m"
    and "encryption_key w' = encryption_key w" and "encryption_counter w' = encryption_counter w + of_nat (length ps)"
proof -
  obtain ps where "list_all block_ok ps" "concat ps = m" "encrypt_blocks C (encryption_key w) (Suc ((length m - 1) div 1024)) (encryption_counter w) m =
      Some (frames C (encryption_key w) (encryption_counter w) ps, encryption_counter w + of_nat (length ps))"
    using encrypt_blocks_frames [OF assms refl] by blast
  then have ps: "list_all block_ok ps" "concat ps = m"
    and e: "encrypt C m w = (w\<lparr>encryption_counter_prev := encryption_counter w,
        encryption_counter := encryption_counter w + of_nat (length ps)\<rparr>,
        Some (frames C (encryption_key w) (encryption_counter w) ps))"
    using assms(3) by (simp_all del: encrypt_blocks.simps add: encrypt_def Let_def ENCRYPTED_LEN_MAX_def)
  show ?thesis by (rule that [OF e ps]) simp_all
qed

lemma encrypt_all_frames:
  assumes "aead_ok C" and "length (encryption_key w) = 32" and "encrypt_all C w ms = Some (w', stream)"
  shows "\<exists>ps. list_all block_ok ps \<and> concat ps = concat ms \<and> stream = frames C (encryption_key w) (encryption_counter w) ps"
  using assms(2,3)
proof (induction ms arbitrary: w w' stream)
  case (Cons m ms)
  have m: "m \<noteq> []" using Cons.prems(2) by (auto simp: encrypt_def)
  obtain ps v where v: "encrypt C m w = (v, Some (frames C (encryption_key w) (encryption_counter w) ps))"
    "list_all block_ok ps" "concat ps = m" "encryption_key v = encryption_key w"
    "encryption_counter v = encryption_counter w + of_nat (length ps)"
    by (rule encrypt_frames [OF assms(1) Cons.prems(1) m])
  obtain rest where rest: "encrypt_all C v ms = Some (w', rest)"
    "stream = frames C (encryption_key w) (encryption_counter w) ps @ rest"
    using Cons.prems(2) v(1) by auto
  obtain qs where "list_all block_ok qs" "concat qs = concat ms" "rest = frames C (encryption_key v) (encryption_counter v) qs"
    using Cons.IH [OF _ rest(1)] Cons.prems(1) v(4) by auto
  then show ?case using v rest by (intro exI [of _ "ps @ qs"]) (simp add: frames_append)
qed (auto intro: exI [of _ "[]"])

section \<open>Reading\<close>

text \<open>
  The connection at its reader: \<open>msg\<close> is still to be delivered, part of it decrypted, part of it in the
  buffer and part of it in the pieces that have not been read.
\<close>

definition carries :: "crypto \<Rightarrow> pair_cipher_bundle \<Rightarrow> bytes list \<Rightarrow> bytes \<Rightarrow> bool" where
  "carries C ctx pieces msg \<longleftrightarrow>
     (\<exists>ps. list_all block_ok ps \<and> msg = buf_data (plaintext_read_buffer ctx) @ concat ps \<and>
        length (decryption_key (cipher_ctx ctx)) = 32 \<and>
        buf_data (encrypted_read_buffer ctx) @ concat pieces =
          frames C (decryption_key (cipher_ctx ctx)) (decryption_counter (cipher_ctx ctx)) ps \<and>
        (ps = [] \<or> length (buf_data (encrypted_read_buffer ctx)) <
           length (frame C (decryption_key (cipher_ctx ctx)) (decryption_counter (cipher_ctx ctx)) (hd ps))))"

definition piece_ok :: "bytes \<Rightarrow> bool" where
  "piece_ok s \<longleftrightarrow> 2 \<le> length s \<and> length s \<le> 4096"

lemma buf_data_drain: "buf_data (buf_drain b n) = drop n (buf_data b)"
  by (simp add: buf_drain_def empty_buffer_def)

lemma buf_data_add [simp]: "buf_data (buf_add b s) = buf_data b @ s"
  by (simp add: buf_add_def Let_def)

lemma decrypt_frames:
  assumes "aead_ok C" and "length (decryption_key r) = 32" and "list_all block_ok ps" and "2 \<le> length B"
    and "B @ X = frames C (decryption_key r) (decryption_counter r) ps"
  obtains qs rs pos r' where "ps = qs @ rs" and "decrypt C B beyond r = (r', Some (pos, concat qs))"
    and "decryption_key r' = decryption_key r"
    and "drop pos B @ X = frames C (decryption_key r) (decryption_counter r') rs"
    and "rs = [] \<or> length (drop pos B) < length (frame C (decryption_key r) (decryption_counter r') (hd rs))"
proof -
  let ?n = "\<lambda>qs :: bytes list. decryption_counter r + of_nat (length qs)"
  from decrypt_blocks_frames [OF assms(1-3,5), where pre = "[]" and plain = "[]" and beyond = beyond]
  obtain qs rs pos where d: "ps = qs @ rs" "pos \<le> length B"
    "decrypt_blocks C (decryption_key r) ([] @ B) beyond (length ([] :: bytes)) (decryption_counter r) [] = Some (length ([] :: bytes) + pos, ?n qs, [] @ concat qs)"
    "drop pos B @ X = frames C (decryption_key r) (?n qs) rs"
    "rs = [] \<or> length (drop pos B) < length (frame C (decryption_key r) (?n qs) (hd rs))"
    by (elim exE conjE) (rule that)
  define r' where "r' = r\<lparr>decryption_counter_prev := decryption_counter r, decryption_counter := ?n qs\<rparr>"
  have r': "decryption_key r' = decryption_key r" "decryption_counter r' = ?n qs" by (simp_all add: r'_def)
  have e: "decrypt C B beyond r = (r', Some (pos, concat qs))"
    using assms(4) d(3) by (simp add: decrypt_def Let_def r'_def)
  show ?thesis by (rule that [OF d(1) e r'(1)]) (use d(4,5) in \<open>simp_all only: r'\<close>)
qed

text \<open>Getting more plaintext.\<close>

lemma fill_plaintext_carries:
  assumes "aead_ok C" and "list_all piece_ok pieces" and "carries C ctx pieces msg"
    and "buf_data (plaintext_read_buffer ctx) = []" and "msg \<noteq> []"
  shows "\<exists>plain ctx' pieces' msg'. fill_plaintext C beyond ctx (map Data pieces) = Some (Inr plain, ctx', map Data pieces') \<and>
     plain \<noteq> [] \<and> msg = plain @ msg' \<and> list_all piece_ok pieces' \<and> carries C ctx' pieces' msg' \<and>
     plaintext_read_buffer ctx' = plaintext_read_buffer ctx"
  using assms(2-4)
proof (induction pieces arbitrary: ctx)
  case Nil
  then obtain ps where ps: "msg = concat ps"
    "buf_data (encrypted_read_buffer ctx) = frames C (decryption_key (cipher_ctx ctx)) (decryption_counter (cipher_ctx ctx)) ps"
    "ps = [] \<or> length (buf_data (encrypted_read_buffer ctx)) <
       length (frame C (decryption_key (cipher_ctx ctx)) (decryption_counter (cipher_ctx ctx)) (hd ps))"
    by (auto simp: carries_def)
  then have "ps = []" by (cases ps) simp_all
  then show ?case using assms(5) ps(1) by simp
next
  case (Cons s pieces)
  let ?r = "cipher_ctx ctx" and ?B = "buf_data (encrypted_read_buffer ctx) @ s"
  obtain ps where ps: "list_all block_ok ps" "msg = concat ps" "length (decryption_key ?r) = 32"
    "?B @ concat pieces = frames C (decryption_key ?r) (decryption_counter ?r) ps"
    using Cons.prems(2,3) by (auto simp: carries_def)
  have s: "s \<noteq> []" "length s \<le> 4096" "2 \<le> length ?B" using Cons.prems(1) by (auto simp: piece_ok_def)
  obtain qs rs pos r' where d: "ps = qs @ rs" "decrypt C ?B beyond ?r = (r', Some (pos, concat qs))"
    "decryption_key r' = decryption_key ?r"
    "drop pos ?B @ concat pieces = frames C (decryption_key ?r) (decryption_counter r') rs"
    "rs = [] \<or> length (drop pos ?B) < length (frame C (decryption_key ?r) (decryption_counter r') (hd rs))"
    by (rule decrypt_frames [OF assms(1) ps(3,1) s(3) ps(4)])
  let ?ctx = "ctx\<lparr>cipher_ctx := r', encrypted_read_buffer := buf_drain (buf_add (encrypted_read_buffer ctx) s) pos\<rparr>"
  have carries: "carries C ?ctx pieces (concat rs)"
    unfolding carries_def
    by (rule exI [of _ rs]) (use ps d Cons.prems(3) in \<open>simp add: buf_data_drain\<close>)
  have step: "fill_plaintext C beyond ctx (map Data (s # pieces)) =
      (if concat qs = [] then fill_plaintext C beyond ?ctx (map Data pieces)
       else Some (Inr (concat qs), ?ctx, map Data pieces))"
    using s by (subst fill_plaintext.simps) (simp add: d(2) Let_def del: concat_eq_Nil_conv)
  show ?case
  proof (cases "concat qs = []")
    case True
    have msg: "msg = concat rs" using True by (simp add: ps(2) d(1))
    have "list_all piece_ok pieces" using Cons.prems(1) by simp
    from Cons.IH [OF this carries [folded msg]] Cons.prems(3) show ?thesis
      unfolding step using True by simp
  next
    case False
    then show ?thesis
      unfolding step using carries Cons.prems(1) by (auto simp: ps(2) d(1))
  qed
qed

lemma read_encrypted_carries:
  assumes "aead_ok C" and "list_all piece_ok pieces" and "carries C ctx pieces msg" and "msg \<noteq> []" and "0 < count"
  shows "\<exists>s ctx' pieces' msg'. read_encrypted C beyond ctx count (map Data pieces) = Some (Inr s, ctx', map Data pieces') \<and>
     s \<noteq> [] \<and> length s \<le> count \<and> msg = s @ msg' \<and> list_all piece_ok pieces' \<and> carries C ctx' pieces' msg'"
proof (cases "buf_data (plaintext_read_buffer ctx) = []")
  case True
  obtain plain ctx' pieces' msg' where f:
    "fill_plaintext C beyond ctx (map Data pieces) = Some (Inr plain, ctx', map Data pieces')"
    "plain \<noteq> []" "msg = plain @ msg'" "list_all piece_ok pieces'" "carries C ctx' pieces' msg'"
    "plaintext_read_buffer ctx' = plaintext_read_buffer ctx"
    using fill_plaintext_carries [OF assms(1-3) True assms(4)] by blast
  let ?n = "min count (length plain)"
  let ?ctx = "ctx'\<lparr>plaintext_read_buffer := buf_drain (buf_add (plaintext_read_buffer ctx') plain) ?n\<rparr>"
  have "read_encrypted C beyond ctx count (map Data pieces) = Some (Inr (take ?n plain), ?ctx, map Data pieces')"
    using True f(1,6) by (simp add: read_encrypted_def buf_remove_def Let_def min_def)
  moreover have "carries C ?ctx pieces' (drop ?n plain @ msg')"
    using f(5,6) True by (auto simp: carries_def buf_data_drain)
  moreover have "take ?n plain \<noteq> []" using f(2) assms(5) by simp
  ultimately show ?thesis
    using f(3,4) by (intro exI [of _ "take ?n plain"] exI [of _ ?ctx] exI [of _ pieces'] exI [of _ "drop ?n plain @ msg'"])
      (simp add: append.assoc [symmetric] del: append.assoc)
next
  case False
  let ?b = "plaintext_read_buffer ctx"
  let ?n = "min count (length (buf_data ?b))"
  let ?ctx = "ctx\<lparr>plaintext_read_buffer := buf_drain ?b ?n\<rparr>"
  obtain ps where "msg = buf_data ?b @ concat ps" using assms(3) by (auto simp: carries_def)
  then have msg: "msg = take ?n (buf_data ?b) @ drop ?n msg" by (simp add: append.assoc [symmetric] del: append.assoc)
  have "read_encrypted C beyond ctx count (map Data pieces) = Some (Inr (take ?n (buf_data ?b)), ?ctx, map Data pieces)"
    using False by (simp add: read_encrypted_def buf_remove_def Let_def min_def)
  moreover have "carries C ?ctx pieces (drop ?n msg)"
    using assms(3) by (auto simp: carries_def buf_data_drain)
  moreover have "take ?n (buf_data ?b) \<noteq> []" using False assms(5) by simp
  ultimately show ?thesis
    using msg assms(2) by (intro exI [of _ "take ?n (buf_data ?b)"] exI [of _ ?ctx] exI [of _ pieces] exI [of _ "drop ?n msg"]) auto
qed

text \<open>Reads for the given numbers of bytes, until one does not deliver.\<close>

fun read_many :: "crypto \<Rightarrow> u8 \<Rightarrow> pair_cipher_bundle \<Rightarrow> nat list \<Rightarrow> sock_event list \<Rightarrow> bytes list" where
  "read_many C beyond ctx [] es = []"
| "read_many C beyond ctx (n # ns) es =
     (case read_encrypted C beyond ctx n es of
        Some (Inr s, ctx, es) \<Rightarrow> s # read_many C beyond ctx ns es
      | _ \<Rightarrow> [])"

lemma read_many_carries:
  assumes "aead_ok C" and "list_all piece_ok pieces" and "carries C ctx pieces msg" and "\<forall>n \<in> set ns. 0 < n"
  shows "\<exists>rest. msg = concat (read_many C beyond ctx ns (map Data pieces)) @ rest \<and>
     list_all2 (\<lambda>s n. s \<noteq> [] \<and> length s \<le> n) (read_many C beyond ctx ns (map Data pieces))
       (take (length (read_many C beyond ctx ns (map Data pieces))) ns) \<and>
     (rest = [] \<or> length (read_many C beyond ctx ns (map Data pieces)) = length ns)"
  using assms(2-4)
proof (induction ns arbitrary: ctx pieces msg)
  case (Cons n ns)
  show ?case
  proof (cases "msg = []")
    case True
    have "pieces = []"
    proof -
      obtain ps where "list_all block_ok ps" "concat ps = []"
        "buf_data (encrypted_read_buffer ctx) @ concat pieces =
          frames C (decryption_key (cipher_ctx ctx)) (decryption_counter (cipher_ctx ctx)) ps"
        using Cons.prems(2) True by (auto simp: carries_def)
      moreover from this have "ps = []" by (cases ps) (auto simp: block_ok_def)
      ultimately show ?thesis using Cons.prems(1) by (cases pieces) (auto simp: piece_ok_def)
    qed
    moreover have "buf_data (plaintext_read_buffer ctx) = []" using Cons.prems(2) True by (auto simp: carries_def)
    ultimately show ?thesis using True by (simp add: read_encrypted_def fill_plaintext.simps)
  next
    case False
    have "0 < n" "\<forall>n \<in> set ns. 0 < n" using Cons.prems(3) by simp_all
    obtain s ctx' pieces' msg' where r: "read_encrypted C beyond ctx n (map Data pieces) = Some (Inr s, ctx', map Data pieces')"
      "s \<noteq> []" "length s \<le> n" "msg = s @ msg'" "list_all piece_ok pieces'" "carries C ctx' pieces' msg'"
      using read_encrypted_carries [OF assms(1) Cons.prems(1,2) False \<open>0 < n\<close>] by blast
    from Cons.IH [OF r(5,6) \<open>\<forall>n \<in> set ns. 0 < n\<close>] show ?thesis using r(1-4) by auto
  qed
qed simp

section \<open>Both ends\<close>

definition fresh_bundle :: "pair_cipher_context \<Rightarrow> pair_cipher_bundle" where
  "fresh_bundle r = \<lparr>cipher_ctx = r, encrypted_read_buffer = empty_buffer, plaintext_read_buffer = empty_buffer\<rparr>"

text \<open>The channels of the two ends: each writes with the key the other one reads with.\<close>

lemma channels_match:
  assumes "cipher_new C channel secret = Some w" and "cipher_new C ((channel + 2) mod 4) secret = Some r"
  shows "decryption_key r = encryption_key w \<and> encryption_key r = decryption_key w \<and>
     encryption_counter w = 0 \<and> decryption_counter r = 0"
  using assms by (auto simp: cipher_new_def channel_keys_def split: bind_splits if_splits)

lemma encryption_key_length:
  assumes "hkdf_ok C" and "cipher_new C channel secret = Some w"
  shows "length (encryption_key w) = 32"
proof -
  obtain write_key read_key where k: "channel_keys channel = Some (write_key, read_key)"
    "hkdf_extract_expand C 32 secret write_key = Some (encryption_key w)"
    using assms(2) by (auto simp: cipher_new_def split: bind_splits)
  then have "fst (snd (pair_keys_map write_key)) \<noteq> None" by (auto simp: channel_keys_def split: if_splits)
  then obtain key where "hkdf_extract_expand C 32 secret write_key = Some key" "length key = 32"
    by (rule derived_key [OF assms(1)])
  then show ?thesis using k(2) by simp
qed

lemma channel_delivers:
  assumes "aead_ok C" and "hkdf_ok C"
    and "cipher_new C channel secret = Some w" and "cipher_new C ((channel + 2) mod 4) secret = Some r"
    and "encrypt_all C w msgs = Some (w', stream)"
    and "concat pieces = stream" and "list_all piece_ok pieces" and "\<forall>n \<in> set ns. 0 < n"
  shows "\<exists>rest. concat msgs = concat (read_many C beyond (fresh_bundle r) ns (map Data pieces)) @ rest \<and>
     list_all2 (\<lambda>s n. s \<noteq> [] \<and> length s \<le> n) (read_many C beyond (fresh_bundle r) ns (map Data pieces))
       (take (length (read_many C beyond (fresh_bundle r) ns (map Data pieces))) ns) \<and>
     (rest = [] \<or> length (read_many C beyond (fresh_bundle r) ns (map Data pieces)) = length ns)"
proof (rule read_many_carries [OF assms(1,7) _ assms(8)])
  have len: "length (encryption_key w) = 32" by (rule encryption_key_length [OF assms(2,3)])
  obtain ps where ps: "list_all block_ok ps" "concat ps = concat msgs"
    "stream = frames C (encryption_key w) (encryption_counter w) ps"
    using encrypt_all_frames [OF assms(1) len assms(5)] by blast
  show "carries C (fresh_bundle r) pieces (concat msgs)"
    unfolding carries_def
    by (rule exI [of _ ps])
      (use ps len assms(6) channels_match [OF assms(3,4)] length_frame [OF assms(1) len] in
        \<open>simp add: fresh_bundle_def empty_buffer_def\<close>)
qed

text \<open>
  C32. What one end of an encrypted channel writes, message after message, the other end reads: whatever
  numbers of bytes are asked for, each read delivers at least one byte and no more than asked for, the
  reads together are the beginning of the messages, and no read waits or fails before all is delivered.
  It holds for every delivery in pieces of 2 to 4,096 bytes, and whatever lies behind the buffer.
\<close>
theorem encrypted_channel_delivers:
  assumes "aead_ok C" and "hkdf_ok C"
    and "cipher_new C channel secret = Some w" and "cipher_new C ((channel + 2) mod 4) secret = Some r"
    and "encrypt_all C w msgs = Some (w', stream)"
    and "concat pieces = stream" and "list_all piece_ok pieces" and "\<forall>n \<in> set ns. 0 < n"
  shows "\<exists>rest. concat msgs = concat (read_many C beyond (fresh_bundle r) ns (map Data pieces)) @ rest \<and>
     list_all2 (\<lambda>s n. s \<noteq> [] \<and> length s \<le> n) (read_many C beyond (fresh_bundle r) ns (map Data pieces))
       (take (length (read_many C beyond (fresh_bundle r) ns (map Data pieces))) ns) \<and>
     (rest = [] \<or> length (read_many C beyond (fresh_bundle r) ns (map Data pieces)) = length ns)"
  using assms by (rule channel_delivers)

text \<open>A message of three bytes, sent as client (channel 0) and read as server (channel 2) in two pieces.\<close>

definition example_cipher :: pair_cipher_context where
  "example_cipher = \<lparr>encryption_key = replicate 32 5, decryption_key = replicate 32 5, encryption_counter = 0,
     decryption_counter = 0, encryption_counter_prev = 0, decryption_counter_prev = 0\<rparr>"

lemma example_ciphers:
  "cipher_new toy_crypto 0 (replicate 32 5) = Some example_cipher" "cipher_new toy_crypto 2 (replicate 32 5) = Some example_cipher"
  by (simp_all add: cipher_new_def channel_keys_def hkdf_extract_expand_def SHA512_DIGEST_LENGTH_def toy_crypto_def example_cipher_def)

lemma example_stream:
  "encrypt_all toy_crypto example_cipher [[1, 2, 3]] =
     Some (example_cipher\<lparr>encryption_counter := 1\<rparr>, [3, 0, 6, 7] @ [8] @ replicate 16 5)"
  by (simp add: encrypt_def ENCRYPTED_LEN_MAX_def encrypt_chacha_def toy_crypto_def le16_def example_cipher_def Let_def)

lemma encrypted_channel_delivers_witness:
  "\<exists>rest. [1, 2, 3] = concat (read_many toy_crypto 0 (fresh_bundle example_cipher) [2, 1, 1]
     (map Data [[3, 0, 6, 7], [8] @ replicate 16 5])) @ rest"
  using encrypted_channel_delivers [OF toy_aead_ok toy_hkdf_ok example_ciphers(1) _ example_stream,
      of example_cipher "[[3, 0, 6, 7], [8] @ replicate 16 5]" "[2, 1, 1]" 0] example_ciphers(2)
  by (auto simp: piece_ok_def)

text \<open>
  When the first byte of what is sent comes alone, \<open>decrypt\<close> takes the byte for an error and the read
  fails with -1, although the same bytes in one piece are read.
\<close>
lemma lone_byte_fails:
  assumes "aead_ok C" and "length (decryption_key r) = 32" and "block_ok p"
    and "frame C (decryption_key r) (decryption_counter r) p = b # bs"
  shows "(\<exists>ctx. read_encrypted C beyond (fresh_bundle r) n [Data [b], Data bs] = Some (Inl (- 1), ctx, [Data bs])) \<and>
     (\<exists>ctx. read_encrypted C beyond (fresh_bundle r) n [Data (b # bs)] = Some (Inr (take n p), ctx, []))"
proof
  show "\<exists>ctx. read_encrypted C beyond (fresh_bundle r) n [Data [b], Data bs] = Some (Inl (- 1), ctx, [Data bs])"
    by (simp add: read_encrypted_def fill_plaintext.simps fresh_bundle_def empty_buffer_def decrypt_def Let_def)
  have len: "length (b # bs) = length p + 18" using length_frame [OF assms(1,2)] assms(4) by metis
  then have "(b # bs) @ [] = frames C (decryption_key r) (decryption_counter r) [p]" "2 \<le> length (b # bs)"
    using assms(4) by simp_all
  then obtain qs rs pos r' where d: "[p] = qs @ rs" "decrypt C (b # bs) beyond r = (r', Some (pos, concat qs))"
    "drop pos (b # bs) @ [] = frames C (decryption_key r) (decryption_counter r') rs"
    "rs = [] \<or> length (drop pos (b # bs)) < length (frame C (decryption_key r) (decryption_counter r') (hd rs))"
    using decrypt_frames [OF assms(1,2), of "[p]" "b # bs" "[]"] assms(3) by (metis list.pred_inject)
  have "rs = []" using d(3,4) by (cases rs) auto
  then have "qs = [p]" using d(1) by simp
  then have "decrypt C (b # bs) beyond r = (r', Some (pos, p))" using d(2) by simp
  moreover have "p \<noteq> []" "length (b # bs) \<le> 4096" using assms(3) len by (auto simp: block_ok_def)
  ultimately show "\<exists>ctx. read_encrypted C beyond (fresh_bundle r) n [Data (b # bs)] = Some (Inr (take n p), ctx, [])"
    by (simp add: read_encrypted_def fill_plaintext.simps fresh_bundle_def empty_buffer_def Let_def buf_remove_def)
qed

lemma lone_byte_fails_witness:
  "\<exists>ctx. read_encrypted toy_crypto 0 (fresh_bundle example_cipher) 3 [Data [3], Data ([0, 6, 7, 8] @ replicate 16 5)] =
     Some (Inl (- 1), ctx, [Data ([0, 6, 7, 8] @ replicate 16 5)])"
  using lone_byte_fails [OF toy_aead_ok, of example_cipher "[1, 2, 3]" 3 "[0, 6, 7, 8] @ replicate 16 5" 0 3]
  by (simp add: example_cipher_def block_ok_def frame_def encrypt_chacha_def toy_crypto_def le16_def)

end
