(* ===== verification/Pair_Handlers.thy ===== *)
theory Pair_Handlers
  imports Pair_Handshake Pair_Setup Pair_Channel
begin

text \<open>
  The handlers of the pairing requests (\<open>rtsp.c\<close>): pair-setup and pair-verify on a connection, which ends with the
  cipher of its control channel, and the list of pairings that pair-add, pair-remove and pair-list
  work on.
\<close>

section \<open>Pair-setup and pair-verify on a connection\<close>

record ap2_pairing_context =
  setup_ctx :: "server_setup_context option"
  verify_ctx :: "server_verify_context option"
  control_cipher_ctx :: "pair_cipher_context option"

text \<open>
  \<open>handle_pair_verify\<close>: the connection, the response code and the content. The callback that would look
  up the client is \<open>NULL\<close> here.
\<close>

definition handle_pair_verify ::
    "crypto \<Rightarrow> bytes \<Rightarrow> bytes \<times> bytes \<Rightarrow> bytes \<Rightarrow> ap2_pairing_context \<Rightarrow> (ap2_pairing_context \<times> nat \<times> bytes option) option" where
  "handle_pair_verify C airplay_device_id keypair content conn =
     (case (case verify_ctx conn of None \<Rightarrow> server_verify_new C None airplay_device_id | ctx \<Rightarrow> ctx) of
        None \<Rightarrow> Some (conn, 500, None)
      | Some ctx \<Rightarrow>
          (case pair_verify_server C keypair content ctx of
             None \<Rightarrow> None
           | Some (ctx, body, False) \<Rightarrow> Some (conn\<lparr>verify_ctx := Some ctx\<rparr>, 470, body)
           | Some (ctx, body, True) \<Rightarrow>
               let conn = conn\<lparr>verify_ctx := Some ctx\<rparr>
               in case pair_verify_result ctx of
                    Some secret \<Rightarrow>
                      if length secret > 0
                      then Some (conn\<lparr>control_cipher_ctx := cipher_new C 2 secret\<rparr>, 200, body)
                      else Some (conn, 200, body)
                  | None \<Rightarrow> Some (conn, 200, body)))"

text \<open>
  \<open>handle_pair_setup\<close>, with the random numbers of SRP. The callback that would add the client is \<open>NULL\<close>
  here. Of the results, only that of a transient pairing has a secret.
\<close>

definition handle_pair_setup ::
    "crypto \<Rightarrow> bytes option \<Rightarrow> bytes \<Rightarrow> nat \<Rightarrow> nat \<Rightarrow> bytes \<Rightarrow> ap2_pairing_context \<Rightarrow>
     (ap2_pairing_context \<times> nat \<times> bytes option) option" where
  "handle_pair_setup C airplay_pin airplay_device_id s b content conn =
     (case (case setup_ctx conn of None \<Rightarrow> server_setup_new C airplay_pin False airplay_device_id | ctx \<Rightarrow> ctx) of
        None \<Rightarrow> Some (conn, 500, None)
      | Some ctx \<Rightarrow>
          (case pair_setup_server C s b content ctx of
             None \<Rightarrow> None
           | Some (ctx, body, False) \<Rightarrow> Some (conn\<lparr>setup_ctx := Some ctx\<rparr>, 470, body)
           | Some (ctx, body, True) \<Rightarrow>
               let conn = conn\<lparr>setup_ctx := Some ctx\<rparr>
               in case pair_setup_result ctx of
                    Some secret \<Rightarrow>
                      if length secret > 0
                      then Some (conn\<lparr>control_cipher_ctx := cipher_new C 2 secret\<rparr>, 200, body)
                      else Some (conn, 200, body)
                  | None \<Rightarrow> Some (conn, 200, body)))"

definition new_connection :: ap2_pairing_context where
  "new_connection = \<lparr>setup_ctx = None, verify_ctx = None, control_cipher_ctx = None\<rparr>"

text \<open>The message a server sends in state 2, in the wrong direction.\<close>

definition state2_message :: "bytes \<Rightarrow> bytes" where
  "state2_message pk = tlv_format_items (tlv_message [(TLVType_State, [2]), (TLVType_PublicKey, pk)])"

lemma state2_message:
  assumes "length pk = 32"
  shows "message_process (state2_message pk) = Some (Some (tlv_message [(TLVType_State, [2]), (TLVType_PublicKey, pk)]))"
    and "state_get (state2_message pk) = Some (Some 2)"
proof -
  have "pk \<noteq> []" using assms by auto
  then have sep: "tlv_separable (tlv_message [(TLVType_State, [2]), (TLVType_PublicKey, pk)])" by (simp add: tlv_message_def tlv_types)
  then have "pair_tlv_parse (\<lambda>_. True) (state2_message pk) [] = Some (Tlv_ok (tlv_message [(TLVType_State, [2]), (TLVType_PublicKey, pk)]))"
    using tlv_parse_loop_format [OF _ sep, of "\<lambda>_. True" "[]" "[]"] by (simp add: pair_tlv_parse_def state2_message_def)
  then show "message_process (state2_message pk) = Some (Some (tlv_message [(TLVType_State, [2]), (TLVType_PublicKey, pk)]))"
    by (simp add: message_process_def pair_tlv_new_def) (simp add: tlv_message_def tlv_types)
  moreover have "state2_message pk \<noteq> []"
    using hd_tlv_format_items [of "\<lparr>tlv_type = TLVType_State, tlv_value = [2]\<rparr>"]
    by (simp add: state2_message_def tlv_message_def del: tlv_format_items.simps)
  ultimately show "state_get (state2_message pk) = Some (Some 2)"
    by (simp add: state_get_def tlv_types)
qed

text \<open>Whether or not it looks its clients up, a new server completes on this message, with the secret it was made with.\<close>

lemma completes_on_state2:
  assumes "server_verify_new C cb sid = Some c" and "length pk = 32"
  obtains c' m where "pair_verify_server C keypair (state2_message pk) c = Some (c', Some m, True)"
    and "pair_verify_result c' = Some (replicate 32 0)"
proof -
  have c: "status c = PAIR_STATUS_IN_PROGRESS" "shared_secret c = replicate 32 0"
    using assms(1) by (auto simp: server_verify_new_def Let_def split: if_splits prod.splits)
  have "tlv_separable (tlv_message [(TLVType_State, [4])])" by (simp add: tlv_message_def)
  then obtain m where m: "tlv_format [(TLVType_State, [4])] REQUEST_BUFSIZE = Some m"
    by (rule state_message) (simp_all add: tlv_message_def get_value_def)
  let ?c = "c\<lparr>client_eph_public_key := pk, result_secret := replicate 32 0, status := PAIR_STATUS_COMPLETED\<rparr>"
  have "pair_verify_server C keypair (state2_message pk) c = Some (?c, Some m, True)"
    using state2_message [OF assms(2)] assms(2) c m
    by (simp add: pair_verify_server_def server_verify_request1_def server_verify_response2_def step_simps
        process_or_error_def tlv_types key_state_def)
  then show ?thesis by (rule that) (simp add: pair_verify_result_def)
qed

text \<open>
  C35. The dispatch does not ask which messages a server gets: a message of state 2, which only a server
  sends, with any 32 bytes as its key, completes pair-verify at once. No key is exchanged and no
  signature is looked at, even by a server that looks its clients up, and the control channel gets the
  keys that belong to a secret of 32 zeros.
\<close>
theorem state2_bypasses_verify:
  assumes "length pk = 32" and "length airplay_device_id < 64"
  shows "(\<exists>conn m. handle_pair_verify C airplay_device_id keypair (state2_message pk) new_connection = Some (conn, 200, Some m) \<and>
       control_cipher_ctx conn = cipher_new C 2 (replicate 32 0)) \<and>
     (\<forall>cb c. server_verify_new C cb airplay_device_id = Some c \<longrightarrow>
       (\<exists>c' m. pair_verify_server C keypair (state2_message pk) c = Some (c', Some m, True) \<and>
          pair_verify_result c' = Some (replicate 32 0)))"
proof (intro conjI allI impI)
  obtain c where c: "server_verify_new C None airplay_device_id = Some c"
    using assms(2) by (cases "server_keypair C airplay_device_id") (simp add: server_verify_new_def PAIR_AP_DEVICE_ID_LEN_MAX_def)
  obtain c' m where "pair_verify_server C keypair (state2_message pk) c = Some (c', Some m, True)"
    "pair_verify_result c' = Some (replicate 32 0)"
    by (rule completes_on_state2 [OF c assms(1)])
  then show "\<exists>conn m. handle_pair_verify C airplay_device_id keypair (state2_message pk) new_connection = Some (conn, 200, Some m) \<and>
       control_cipher_ctx conn = cipher_new C 2 (replicate 32 0)"
    using c by (simp add: handle_pair_verify_def new_connection_def Let_def)
next
  fix cb c
  assume c: "server_verify_new C cb airplay_device_id = Some c"
  obtain c' m where "pair_verify_server C keypair (state2_message pk) c = Some (c', Some m, True)"
    "pair_verify_result c' = Some (replicate 32 0)"
    by (rule completes_on_state2 [OF c assms(1)])
  then show "\<exists>c' m. pair_verify_server C keypair (state2_message pk) c = Some (c', Some m, True) \<and>
      pair_verify_result c' = Some (replicate 32 0)" by blast
qed

lemma state2_bypasses_verify_witness:
  "\<exists>conn m. handle_pair_verify toy_crypto [65] ([], []) (state2_message (replicate 32 1)) new_connection = Some (conn, 200, Some m) \<and>
     control_cipher_ctx conn = cipher_new toy_crypto 2 (replicate 32 0)"
  using state2_bypasses_verify [of "replicate 32 1" "[65]" toy_crypto "([], [])"] by simp

text \<open>A completed connection that is sent another first message gets its cipher anew: same keys, counters at zero.\<close>

lemma cipher_restarts:
  assumes "verify_ctx conn = Some ctx" and "status ctx = PAIR_STATUS_COMPLETED" and "0 < length (result_secret ctx)"
    and "pair_verify_server C keypair content ctx = Some (ctx', body, True)" and "status ctx' = PAIR_STATUS_COMPLETED"
    and "result_secret ctx' = result_secret ctx"
  shows "handle_pair_verify C airplay_device_id keypair content conn =
     Some (conn\<lparr>verify_ctx := Some ctx', control_cipher_ctx := cipher_new C 2 (result_secret ctx)\<rparr>, 200, body)"
  using assms by (simp add: handle_pair_verify_def pair_verify_result_def Let_def)

section \<open>The list of pairings\<close>

text \<open>A pairing is the identifier of the device and its key; the newest stands first.\<close>

type_synonym pairings = "(bytes \<times> bytes) list"

fun pairing_find :: "pairings \<Rightarrow> bytes \<Rightarrow> bytes option" where
  "pairing_find [] ident = None"
| "pairing_find ((d, k) # ps) ident = (if d = ident then Some k else pairing_find ps ident)"

definition pairing_add :: "pairings \<Rightarrow> bytes \<Rightarrow> bytes \<Rightarrow> pairings" where
  "pairing_add ps public_key ident = (ident, public_key) # ps"

fun pairing_set_key :: "pairings \<Rightarrow> bytes \<Rightarrow> bytes \<Rightarrow> pairings" where
  "pairing_set_key [] public_key ident = []"
| "pairing_set_key ((d, k) # ps) public_key ident =
     (if d = ident then (d, public_key) # ps else (d, k) # pairing_set_key ps public_key ident)"

text \<open>\<open>pairing_remove\<close> of the pairing that \<open>pairing_find\<close> found.\<close>

fun pairing_remove :: "pairings \<Rightarrow> bytes \<Rightarrow> pairings" where
  "pairing_remove [] ident = []"
| "pairing_remove ((d, k) # ps) ident = (if d = ident then ps else (d, k) # pairing_remove ps ident)"

text \<open>The callbacks; a key that is absent is copied from \<open>NULL\<close>.\<close>

definition pairing_add_cb :: "bytes option \<Rightarrow> bytes \<Rightarrow> pairings \<Rightarrow> pairings option" where
  "pairing_add_cb public_key ident ps =
     (case public_key of
        None \<Rightarrow> None
      | Some k \<Rightarrow>
          Some (if pairing_find ps ident \<noteq> None then pairing_set_key ps k ident else pairing_add ps k ident))"

definition pairing_remove_cb :: "bytes option \<Rightarrow> bytes \<Rightarrow> pairings \<Rightarrow> pairings option" where
  "pairing_remove_cb public_key ident ps =
     Some (if pairing_find ps ident = None then ps else pairing_remove ps ident)"

text \<open>\<open>server_add_remove\<close> with a callback: the pairings, and the response unless it returned -1.\<close>

definition server_add_remove_response :: "bytes option" where
  "server_add_remove_response = tlv_format [(TLVType_State, [2])] REQUEST_BUFSIZE"

definition server_add_remove ::
    "(bytes option \<Rightarrow> bytes \<Rightarrow> pairings \<Rightarrow> pairings option) \<Rightarrow> bytes \<Rightarrow> pairings \<Rightarrow> (pairings \<times> bytes option) option" where
  "server_add_remove cb input ps =
     (case message_process input of
        None \<Rightarrow> None
      | Some None \<Rightarrow> Some (ps, None)
      | Some (Some request) \<Rightarrow>
          (case get_value request TLVType_Identifier of
             None \<Rightarrow> Some (ps, None)
           | Some ident \<Rightarrow>
               if length ident \<ge> PAIR_AP_DEVICE_ID_LEN_MAX then Some (ps, None)
               else
                 let public_key = (case get_value request TLVType_PublicKey of
                                     Some pk \<Rightarrow> if length pk = 32 then Some pk else None
                                   | None \<Rightarrow> None)
                 in (case cb public_key (takeWhile (\<lambda>b. b \<noteq> 0) ident) ps of
                       None \<Rightarrow> None
                     | Some ps \<Rightarrow> Some (ps, server_add_remove_response))))"

definition TLVType_Permissions :: u8 where "TLVType_Permissions = 11"
definition TLVType_Separator :: u8 where "TLVType_Separator = 0xff"

text \<open>\<open>pairing_list_cb\<close> with \<open>server_list_cb\<close>: the items of the response, a separator before each further pairing.\<close>

definition server_list_cb :: "bytes \<Rightarrow> bytes \<Rightarrow> (u8 \<times> bytes) list \<Rightarrow> (u8 \<times> bytes) list" where
  "server_list_cb public_key ident response =
     response @ (if TLVType_Identifier \<in> fst ` set response then [(TLVType_Separator, [])] else []) @
       [(TLVType_Identifier, ident), (TLVType_PublicKey, public_key), (TLVType_Permissions, [1])]"

definition server_list_response :: "pairings \<Rightarrow> bytes option" where
  "server_list_response ps =
     tlv_format (foldl (\<lambda>response (d, k). server_list_cb k d response) [(TLVType_State, [2])] ps) REQUEST_BUFSIZE"

text \<open>The handlers: the pairings, the response code and the content.\<close>

definition handle_pair_add :: "bytes \<Rightarrow> pairings \<Rightarrow> (pairings \<times> nat \<times> bytes option) option" where
  "handle_pair_add content ps =
     map_option (\<lambda>(ps, body). (ps, if body = None then 451 else 200, body)) (server_add_remove pairing_add_cb content ps)"

definition handle_pair_remove :: "bytes \<Rightarrow> pairings \<Rightarrow> (pairings \<times> nat \<times> bytes option) option" where
  "handle_pair_remove content ps =
     map_option (\<lambda>(ps, body). (ps, if body = None then 451 else 200, body)) (server_add_remove pairing_remove_cb content ps)"

definition handle_pair_list :: "pairings \<Rightarrow> nat \<times> bytes option" where
  "handle_pair_list ps =
     (let body = server_list_response ps in (if body = None then 451 else 200, body))"

text \<open>The list as a map from identifiers to keys.\<close>

definition distinct_ids :: "pairings \<Rightarrow> bool" where
  "distinct_ids ps \<longleftrightarrow> distinct (map fst ps)"

lemma pairing_find_map_of: "pairing_find ps ident = map_of ps ident"
  by (induction ps ident rule: pairing_find.induct) simp_all

lemma map_of_set_key:
  "map_of ps ident \<noteq> None \<Longrightarrow> map_of (pairing_set_key ps k ident) = (map_of ps)(ident \<mapsto> k)"
  by (induction ps k ident rule: pairing_set_key.induct) (auto simp: fun_eq_iff)

lemma map_of_remove:
  "distinct_ids ps \<Longrightarrow> map_of (pairing_remove ps ident) = (map_of ps)(ident := None)"
  by (induction ps ident rule: pairing_remove.induct)
    (auto simp: distinct_ids_def fun_eq_iff map_of_eq_None_iff)

lemma ids_set_key [simp]: "map fst (pairing_set_key ps k ident) = map fst ps"
  by (induction ps k ident rule: pairing_set_key.induct) simp_all

lemma ids_remove: "set (map fst (pairing_remove ps ident)) \<subseteq> set (map fst ps)"
  by (induction ps ident rule: pairing_remove.induct) auto

lemma distinct_ids_remove: "distinct_ids ps \<Longrightarrow> distinct_ids (pairing_remove ps ident)"
proof (induction ps ident rule: pairing_remove.induct)
  case (2 d k ps ident)
  then show ?case using ids_remove [of ps ident] by (auto simp: distinct_ids_def)
qed (simp add: distinct_ids_def)

lemma add_remove_map:
  assumes "distinct_ids ps"
  shows "pairing_add_cb (Some k) ident ps = Some ps' \<Longrightarrow> distinct_ids ps' \<and> map_of ps' = (map_of ps)(ident \<mapsto> k)"
    and "pairing_remove_cb pk ident ps = Some ps' \<Longrightarrow> distinct_ids ps' \<and> map_of ps' = (map_of ps)(ident := None)"
proof -
  show "distinct_ids ps' \<and> map_of ps' = (map_of ps)(ident \<mapsto> k)" if "pairing_add_cb (Some k) ident ps = Some ps'"
    using that assms by (auto simp: pairing_add_cb_def pairing_find_map_of pairing_add_def distinct_ids_def map_of_set_key map_of_eq_None_iff)
  show "distinct_ids ps' \<and> map_of ps' = (map_of ps)(ident := None)" if "pairing_remove_cb pk ident ps = Some ps'"
    using that assms by (auto simp: pairing_remove_cb_def pairing_find_map_of map_of_remove distinct_ids_remove fun_eq_iff)
qed

text \<open>
  C37. For a request that names a device, pair-remove takes the device out of the pairings and pair-add
  sets its key, and nothing else changes; both answer 200. A request to pair-add without a key of 32
  bytes is undefined: the key is copied from \<open>NULL\<close>.
\<close>
theorem pairing_requests_update_map:
  assumes "distinct_ids ps" and "message_process content = Some (Some vs)"
    and "get_value vs TLVType_Identifier = Some ident" and "length ident < 64"
  shows "(\<exists>ps' body. handle_pair_remove content ps = Some (ps', 200, Some body) \<and> distinct_ids ps' \<and>
       map_of ps' = (map_of ps)(takeWhile (\<lambda>b. b \<noteq> 0) ident := None)) \<and>
     (case get_value vs TLVType_PublicKey of
        Some k \<Rightarrow>
          if length k = 32
          then \<exists>ps' body. handle_pair_add content ps = Some (ps', 200, Some body) \<and> distinct_ids ps' \<and>
                 map_of ps' = (map_of ps)(takeWhile (\<lambda>b. b \<noteq> 0) ident \<mapsto> k)
          else handle_pair_add content ps = None
      | None \<Rightarrow> handle_pair_add content ps = None)"
proof -
  let ?id = "takeWhile (\<lambda>b. b \<noteq> 0) ident"
  obtain body where body: "server_add_remove_response = Some body"
    by (simp add: server_add_remove_response_def tlv_format_def pair_tlv_format_def tlv_message_def REQUEST_BUFSIZE_def)
  have run: "server_add_remove cb content ps =
      (case cb (case get_value vs TLVType_PublicKey of Some pk \<Rightarrow> if length pk = 32 then Some pk else None | None \<Rightarrow> None) ?id ps of
         None \<Rightarrow> None | Some ps \<Rightarrow> Some (ps, Some body))" for cb
    using assms(2-4) unfolding server_add_remove_def body Let_def by (simp add: PAIR_AP_DEVICE_ID_LEN_MAX_def)
  have "\<exists>ps' body. handle_pair_remove content ps = Some (ps', 200, Some body) \<and> distinct_ids ps' \<and>
      map_of ps' = (map_of ps)(?id := None)"
  proof -
    let ?pk = "case get_value vs TLVType_PublicKey of Some pk \<Rightarrow> if length pk = 32 then Some pk else None | None \<Rightarrow> None"
    obtain ps' where ps': "pairing_remove_cb ?pk ?id ps = Some ps'" by (simp add: pairing_remove_cb_def)
    then show ?thesis using add_remove_map(2) [OF assms(1) ps'] by (simp add: handle_pair_remove_def run)
  qed
  moreover have "\<exists>ps' body. handle_pair_add content ps = Some (ps', 200, Some body) \<and> distinct_ids ps' \<and>
      map_of ps' = (map_of ps)(?id \<mapsto> k)" if "get_value vs TLVType_PublicKey = Some k" "length k = 32" for k
  proof -
    obtain ps' where "pairing_add_cb (Some k) ?id ps = Some ps'" by (simp add: pairing_add_cb_def)
    then show ?thesis using that add_remove_map(1) [OF assms(1)] by (simp add: handle_pair_add_def run)
  qed
  moreover have "handle_pair_add content ps = None"
    if "\<nexists>k. get_value vs TLVType_PublicKey = Some k \<and> length k = 32"
    using that by (auto simp: handle_pair_add_def run pairing_add_cb_def split: option.splits)
  ultimately show ?thesis by (auto split: option.split)
qed

lemma pairing_requests_update_map_witness:
  "\<exists>ps body. handle_pair_remove (tlv_format_items (tlv_message [(TLVType_Identifier, [65])])) [([65], replicate 32 1)] = Some (ps, 200, Some body) \<and>
     map_of ps [65] = None"
proof -
  let ?vs = "tlv_message [(TLVType_Identifier, [65])]"
  have sep: "tlv_separable ?vs" by (simp add: tlv_message_def)
  then have "message_process (tlv_format_items ?vs) = Some (Some ?vs)"
    using tlv_parse_loop_format [OF _ sep, of "\<lambda>_. True" "[]" "[]"]
    by (simp add: message_process_def pair_tlv_new_def pair_tlv_parse_def) (simp add: tlv_message_def tlv_types)
  from pairing_requests_update_map [OF _ this, of "[([65], replicate 32 1)]" "[65]"]
  obtain ps body where "handle_pair_remove (tlv_format_items ?vs) [([65], replicate 32 1)] = Some (ps, 200, Some body)"
    "map_of ps = (map_of [([65], replicate 32 1)])(takeWhile (\<lambda>b. b \<noteq> 0) [65] := None)"
    by (auto simp: distinct_ids_def)
  then show ?thesis by simp
qed

text \<open>A separator has no value: it takes two bytes that \<open>pair_tlv_format\<close> does not count.\<close>

lemma length_items_empty:
  "length (tlv_format_items vs) = tlv_required_size vs + 2 * length (filter (\<lambda>t. tlv_value t = []) vs)"
  by (induction vs) (auto simp: length_tlv_chunks)

fun list_items :: "pairings \<Rightarrow> (u8 \<times> bytes) list" where
  "list_items [] = []"
| "list_items ((d, k) # ps) =
     [(TLVType_Separator, []), (TLVType_Identifier, d), (TLVType_PublicKey, k), (TLVType_Permissions, [1])] @ list_items ps"

lemma list_items_foldl:
  "TLVType_Identifier \<in> fst ` set response \<Longrightarrow>
     foldl (\<lambda>response (d, k). server_list_cb k d response) response ps = response @ list_items ps"
  by (induction ps arbitrary: response rule: list_items.induct) (simp_all add: server_list_cb_def)

definition pairing_list_message :: "pairings \<Rightarrow> (u8 \<times> bytes) list" where
  "pairing_list_message ps = (TLVType_State, [2]) # drop 1 (list_items ps)"

lemma list_message_foldl:
  "foldl (\<lambda>response (d, k). server_list_cb k d response) [(TLVType_State, [2])] ps = pairing_list_message ps"
proof (cases ps)
  case (Cons p qs)
  obtain d k where p: "p = (d, k)" by (cases p)
  have "server_list_cb k d [(TLVType_State, [2])] =
      [(TLVType_State, [2]), (TLVType_Identifier, d), (TLVType_PublicKey, k), (TLVType_Permissions, [1])]"
    by (simp add: server_list_cb_def tlv_types)
  then show ?thesis
    unfolding Cons p by (simp add: list_items_foldl pairing_list_message_def)
qed (simp add: pairing_list_message_def)

lemma separators:
  "\<forall>(d, k) \<in> set ps. d \<noteq> [] \<and> k \<noteq> [] \<Longrightarrow>
     length (filter (\<lambda>t. tlv_value t = []) (tlv_message (list_items ps))) = length ps"
  by (induction ps rule: list_items.induct) (auto simp: tlv_message_def)

text \<open>
  The response to pair-list is cut: of the message with all pairings, two bytes are missing at the
  end for each separator between two pairings.
\<close>
lemma pairing_list_cut:
  assumes "ps \<noteq> []" and "\<forall>(d, k) \<in> set ps. d \<noteq> [] \<and> k \<noteq> []"
    and "tlv_required_size (tlv_message (pairing_list_message ps)) \<le> 4096"
  shows "handle_pair_list ps =
     (200, Some (take (length (tlv_format_items (tlv_message (pairing_list_message ps))) - 2 * (length ps - 1))
                   (tlv_format_items (tlv_message (pairing_list_message ps)))))"
proof -
  let ?m = "tlv_message (pairing_list_message ps)"
  have "length (filter (\<lambda>t. tlv_value t = []) ?m) = length ps - 1"
    using separators [OF assms(2)] assms(1)
    by (cases ps rule: list_items.cases) (auto simp: pairing_list_message_def tlv_message_def)
  then have "tlv_required_size ?m = length (tlv_format_items ?m) - 2 * (length ps - 1)"
    by (simp add: length_items_empty)
  then show ?thesis
    using assms(3)
    by (simp add: handle_pair_list_def server_list_response_def list_message_foldl tlv_format_def pair_tlv_format_def
        REQUEST_BUFSIZE_def Let_def)
qed

lemma pairing_list_cut_witness:
  "handle_pair_list [([66], replicate 32 2), ([65], replicate 32 1)] =
     (200, Some ([6, 1, 2, 1, 1, 66, 3, 32] @ replicate 32 2 @ [11, 1, 1, 255, 0, 1, 1, 65, 3, 32] @ replicate 32 1 @ [11]))"
  using pairing_list_cut [of "[([66], replicate 32 2), ([65], replicate 32 1)]"]
  by (simp add: pairing_list_message_def tlv_message_def tlv_chunks.simps Let_def tlv_types TLVType_Permissions_def TLVType_Separator_def)

end
