(* ===== verification/Pair_Opening.thy ===== *)
theory Pair_Opening
  imports Pair_Setup_Runs Pair_Handlers
begin

text \<open>
  From the first pairing request of a connection to its encrypted control channel: transient pair-setup
  through the handler of the receiver, and what the client then sends.
\<close>

text \<open>An answer the client takes: response code 200 and a content.\<close>

definition accepted :: "(ap2_pairing_context \<times> nat \<times> bytes option) option \<Rightarrow> (ap2_pairing_context \<times> bytes) option" where
  "accepted r =
     (case r of
        Some (conn, respcode, Some m) \<Rightarrow> if respcode = 200 then Some (conn, m) else None
      | _ \<Rightarrow> None)"

definition setup_requests ::
    "crypto \<Rightarrow> bytes option \<Rightarrow> bytes \<Rightarrow> nat \<Rightarrow> nat \<Rightarrow> nat \<Rightarrow> client_setup_context \<Rightarrow> ap2_pairing_context \<Rightarrow>
     (client_setup_context \<times> ap2_pairing_context) option" where
  "setup_requests C airplay_pin airplay_device_id s b a cl conn =
     do { (cl, m1) \<leftarrow> succeeds (client_setup_request1 cl);
          (conn, m2) \<leftarrow> accepted (handle_pair_setup C airplay_pin airplay_device_id s b m1 conn);
          (cl, _) \<leftarrow> succeeds (client_setup_response1 m2 cl);
          (cl, m3) \<leftarrow> succeeds (client_setup_request2 C a cl);
          (conn, m4) \<leftarrow> accepted (handle_pair_setup C airplay_pin airplay_device_id s b m3 conn);
          (cl, _) \<leftarrow> succeeds (client_setup_response2 m4 cl);
          Some (cl, conn) }"

lemma handler_answers:
  assumes "setup_ctx conn = Some sv \<or> setup_ctx conn = None \<and> server_setup_new C airplay_pin False sid = Some sv"
    and "answered (pair_setup_server C s b m sv) = Some (sv', m')"
  obtains conn' where "accepted (handle_pair_setup C airplay_pin sid s b m conn) = Some (conn', m')"
    and "setup_ctx conn' = Some sv'"
    and "\<And>secret. pair_setup_result sv' = Some secret \<Longrightarrow> secret \<noteq> [] \<Longrightarrow> control_cipher_ctx conn' = cipher_new C 2 secret"
proof -
  have ctx: "(case setup_ctx conn of None \<Rightarrow> server_setup_new C airplay_pin False sid | ctx \<Rightarrow> ctx) = Some sv"
    using assms(1) by auto
  have "pair_setup_server C s b m sv = Some (sv', Some m', True)"
    using assms(2) by (auto simp: answered_def split: option.splits prod.splits bool.splits)
  then have "\<exists>conn'. accepted (handle_pair_setup C airplay_pin sid s b m conn) = Some (conn', m') \<and> setup_ctx conn' = Some sv' \<and>
      (\<forall>secret. pair_setup_result sv' = Some secret \<longrightarrow> secret \<noteq> [] \<longrightarrow> control_cipher_ctx conn' = cipher_new C 2 secret)"
    by (cases "pair_setup_result sv'") (simp_all add: handle_pair_setup_def ctx accepted_def Let_def)
  then show ?thesis by (elim exE conjE) (rule that, auto)
qed

lemma requests_follow:
  assumes "setup_ctx conn = None" and "server_setup_new C airplay_pin False sid = Some sv"
    and "proof_conversation C s b a cl sv = Some (cl', sv')" and "pair_setup_result sv' = Some secret" "secret \<noteq> []"
  shows "\<exists>conn'. setup_requests C airplay_pin sid s b a cl conn = Some (cl', conn') \<and>
     control_cipher_ctx conn' = cipher_new C 2 secret"
proof -
  obtain cl1 m1 sv1 m2 cl2 cl3 m3 m4 u1 u2 where c:
    "succeeds (client_setup_request1 cl) = Some (cl1, m1)" "answered (pair_setup_server C s b m1 sv) = Some (sv1, m2)"
    "succeeds (client_setup_response1 m2 cl1) = Some (cl2, u1)" "succeeds (client_setup_request2 C a cl2) = Some (cl3, m3)"
    "answered (pair_setup_server C s b m3 sv1) = Some (sv', m4)" "succeeds (client_setup_response2 m4 cl3) = Some (cl', u2)"
    using assms(3) by (auto simp: proof_conversation_def split: bind_splits prod.splits)
  obtain conn1 where 1: "accepted (handle_pair_setup C airplay_pin sid s b m1 conn) = Some (conn1, m2)" "setup_ctx conn1 = Some sv1"
    by (rule handler_answers [OF _ c(2), of conn airplay_pin sid]) (use assms(1,2) in auto)
  obtain conn2 where 2: "accepted (handle_pair_setup C airplay_pin sid s b m3 conn1) = Some (conn2, m4)"
    "control_cipher_ctx conn2 = cipher_new C 2 secret"
    by (rule handler_answers [OF _ c(5), of conn1 airplay_pin sid]) (use 1(2) assms(4,5) in auto)
  show ?thesis by (simp add: setup_requests_def c(1,3,4,6) 1(1) 2)
qed

lemma cipher_made:
  assumes "hkdf_ok C" and "channel = 0 \<or> channel = 2"
  obtains r where "cipher_new C channel secret = Some r"
proof -
  obtain k1 k2 where "hkdf_extract_expand C 32 secret PAIR_CONTROL_WRITE = Some k1" "hkdf_extract_expand C 32 secret PAIR_CONTROL_READ = Some k2"
    by (metis derived_key [OF assms(1), of PAIR_CONTROL_WRITE secret] derived_key [OF assms(1), of PAIR_CONTROL_READ secret]
        fst_conv snd_conv option.distinct(1) pair_keys_map.simps)
  then show ?thesis using assms(2) that by (auto simp: cipher_new_def channel_keys_def)
qed

text \<open>
  C36. From a new connection to encrypted requests: two pair-setup requests of a client with the PIN of the
  receiver (both may have the default) are answered with code 200, after them the connection has a cipher
  for its control channel, and what the client then sends with the cipher of its own secret is read there:
  the reads deliver the beginning of the messages, and none waits or fails before all is delivered.
\<close>
theorem setup_opens_channel:
  assumes "aead_ok C" and "hkdf_ok C" and "sha_ok C"
    and "client_setup_new True airplay_pin ident keypair = Some cl" and "length airplay_device_id < 64"
    and "fair_numbers C (cs_pin cl) s b a"
  shows "\<exists>cl' conn w r. setup_requests C airplay_pin airplay_device_id s b a cl new_connection = Some (cl', conn) \<and>
     cipher_new C 0 (cs_result_secret cl') = Some w \<and> control_cipher_ctx conn = Some r \<and>
     (\<forall>msgs w' stream pieces ns. encrypt_all C w msgs = Some (w', stream) \<longrightarrow> concat pieces = stream \<longrightarrow>
        list_all piece_ok pieces \<longrightarrow> (\<forall>n \<in> set ns. 0 < n) \<longrightarrow>
        (\<exists>rest. concat msgs = concat (read_many C beyond (fresh_bundle r) ns (map Data pieces)) @ rest \<and>
           (rest = [] \<or> length (read_many C beyond (fresh_bundle r) ns (map Data pieces)) = length ns)))"
proof -
  obtain sv where sv: "server_setup_new C airplay_pin False airplay_device_id = Some sv"
    using assms(5) by (cases "server_keypair C airplay_device_id") (simp add: server_setup_new_def PAIR_AP_DEVICE_ID_LEN_MAX_def)
  obtain cl' sv' key where p: "proof_conversation C s b a cl sv = Some (cl', sv')" "length key = 64"
    "cs_result_secret cl' = key" "pair_setup_result sv' = Some key"
    using transient_setup [OF assms(3,4) sv assms(6)] by blast
  obtain w where w: "cipher_new C 0 key = Some w" by (rule cipher_made [OF assms(2), of 0 key]) auto
  obtain r where r: "cipher_new C 2 key = Some r" by (rule cipher_made [OF assms(2), of 2 key]) auto
  have "setup_ctx new_connection = None" "key \<noteq> []" using p(2) by (auto simp: new_connection_def)
  then obtain conn where conn: "setup_requests C airplay_pin airplay_device_id s b a cl new_connection = Some (cl', conn)"
    "control_cipher_ctx conn = Some r"
    using requests_follow [OF _ sv p(1,4)] r by auto
  have "\<exists>rest. concat msgs = concat (read_many C beyond (fresh_bundle r) ns (map Data pieces)) @ rest \<and>
      (rest = [] \<or> length (read_many C beyond (fresh_bundle r) ns (map Data pieces)) = length ns)"
    if "encrypt_all C w msgs = Some (w', stream)" "concat pieces = stream" "list_all piece_ok pieces" "\<forall>n \<in> set ns. 0 < n"
    for msgs w' stream pieces ns
    using channel_delivers [OF assms(1,2) w _ that, of r] r by auto
  then show ?thesis using conn w p(3) by blast
qed

lemma setup_opens_channel_witness:
  "\<exists>cl conn cl'. client_setup_new True None None ([], []) = Some cl \<and>
     setup_requests toy_crypto None [66] (256 ^ 15) 1 1 cl new_connection = Some (cl', conn) \<and> control_cipher_ctx conn \<noteq> None"
proof -
  obtain cl where cl: "client_setup_new True None None ([], []) = Some cl" by (simp add: client_setup_new_def)
  have "length [66 :: u8] < 64" by simp
  from setup_opens_channel [OF toy_aead_ok toy_hkdf_ok toy_sha_ok cl this toy_fair] show ?thesis using cl by (metis option.distinct(1))
qed

end
