(* ===== verification/Alac.thy ===== *)
theory Alac
  imports Prelude
begin

text \<open>
  The ALAC decoder, \<open>src/src/alac.c\<close>. A computation takes the decoder state and returns its value
  and the new state, or \<open>None\<close> where the C program has undefined behaviour: a read outside the input
  block, a write outside a buffer, a shift by a negative or too large amount, the count of leading
  zeros of 0. C's \<open>int\<close> is a 32-bit word read with \<open>sint\<close>; signed overflow wraps, as it does on the
  machines the program is built for.
\<close>

unbundle bit_operations_syntax

type_synonym i32 = "32 word"

section \<open>State (\<open>alac.h\<close>)\<close>

record alac_file =
  input_buffer :: bytes          \<comment> \<open>the block the pointer points into\<close>
  input_pos :: int               \<comment> \<open>the pointer, as an index into the block\<close>
  input_buffer_bitaccumulator :: int
  samplesize :: int
  numchannels :: int
  bytespersample :: int
  predicterror_buffer_a :: "i32 list"
  predicterror_buffer_b :: "i32 list"
  outputsamples_buffer_a :: "i32 list"
  outputsamples_buffer_b :: "i32 list"
  uncompressed_bytes_buffer_a :: "i32 list"
  uncompressed_bytes_buffer_b :: "i32 list"
  setinfo_max_samples_per_frame :: u32
  setinfo_7a :: u8
  setinfo_sample_size :: u8
  setinfo_rice_historymult :: u8
  setinfo_rice_initialhistory :: u8
  setinfo_rice_kmodifier :: u8
  setinfo_7f :: u8
  setinfo_80 :: u16
  setinfo_82 :: u32
  setinfo_86 :: u32
  setinfo_8a_rate :: u32

definition alac_create :: "int \<Rightarrow> int \<Rightarrow> alac_file" where
  "alac_create ssize nchannels =
     \<lparr> input_buffer = [], input_pos = 0, input_buffer_bitaccumulator = 0,
       samplesize = ssize, numchannels = nchannels,
       bytespersample = (ssize div 8) * nchannels,
       predicterror_buffer_a = [], predicterror_buffer_b = [],
       outputsamples_buffer_a = [], outputsamples_buffer_b = [],
       uncompressed_bytes_buffer_a = [], uncompressed_bytes_buffer_b = [],
       setinfo_max_samples_per_frame = 0, setinfo_7a = 0, setinfo_sample_size = 0,
       setinfo_rice_historymult = 0, setinfo_rice_initialhistory = 0, setinfo_rice_kmodifier = 0,
       setinfo_7f = 0, setinfo_80 = 0, setinfo_82 = 0, setinfo_86 = 0, setinfo_8a_rate = 0 \<rparr>"

text \<open>
  The buffers have one 32-bit cell per sample of a frame. \<open>malloc\<close> leaves them unset; the model
  fills them with zeros, and no result the properties speak about reads a cell before it is written.
\<close>

definition alac_allocate_buffers :: "alac_file \<Rightarrow> alac_file" where
  "alac_allocate_buffers alac =
     (let n = unat (setinfo_max_samples_per_frame alac) in
      alac\<lparr> predicterror_buffer_a := replicate n 0, predicterror_buffer_b := replicate n 0,
            outputsamples_buffer_a := replicate n 0, outputsamples_buffer_b := replicate n 0,
            uncompressed_bytes_buffer_a := replicate n 0, uncompressed_bytes_buffer_b := replicate n 0 \<rparr>)"

text \<open>The magic cookie: 24 bytes of headers, then the fields, big-endian.\<close>

definition alac_set_info :: "alac_file \<Rightarrow> bytes \<Rightarrow> alac_file option" where
  "alac_set_info alac inputbuffer =
     do { max \<leftarrow> nctohl inputbuffer 24;
          s7a \<leftarrow> rd inputbuffer 28;
          ssz \<leftarrow> rd inputbuffer 29;
          mult \<leftarrow> rd inputbuffer 30;
          hist \<leftarrow> rd inputbuffer 31;
          kmod \<leftarrow> rd inputbuffer 32;
          s7f \<leftarrow> rd inputbuffer 33;
          s80 \<leftarrow> nctohs inputbuffer 34;
          s82 \<leftarrow> nctohl inputbuffer 36;
          s86 \<leftarrow> nctohl inputbuffer 40;
          s8a \<leftarrow> nctohl inputbuffer 44;
          Some (alac_allocate_buffers
            (alac\<lparr> setinfo_max_samples_per_frame := max, setinfo_7a := s7a, setinfo_sample_size := ssz,
                   setinfo_rice_historymult := mult, setinfo_rice_initialhistory := hist,
                   setinfo_rice_kmodifier := kmod, setinfo_7f := s7f, setinfo_80 := s80,
                   setinfo_82 := s82, setinfo_86 := s86, setinfo_8a_rate := s8a \<rparr>)) }"

section \<open>Reading bits\<close>

definition in_byte :: "alac_file \<Rightarrow> int \<Rightarrow> u8 option" where
  "in_byte alac k =
     (if 0 \<le> input_pos alac + k then rd (input_buffer alac) (nat (input_pos alac + k)) else None)"

definition move_bits :: "alac_file \<Rightarrow> int \<Rightarrow> alac_file" where
  "move_bits alac new_accumulator =
     alac\<lparr> input_pos := input_pos alac + new_accumulator div 8,
           input_buffer_bitaccumulator := new_accumulator mod 8 \<rparr>"

definition readbits_16 :: "int \<Rightarrow> alac_file \<Rightarrow> (u32 \<times> alac_file) option" where
  "readbits_16 bits alac =
     (if bits < -7 \<or> 24 < bits then None
      else do { b0 \<leftarrow> in_byte alac 0;
                b1 \<leftarrow> in_byte alac 1;
                b2 \<leftarrow> in_byte alac 2;
                let result = push_bit 16 (ucast b0 :: u32) OR push_bit 8 (ucast b1) OR ucast b2;
                let result = push_bit (nat (input_buffer_bitaccumulator alac)) result;
                let result = result AND 0x00ffffff;
                let result = drop_bit (nat (24 - bits)) result;
                Some (result, move_bits alac (input_buffer_bitaccumulator alac + bits)) })"

definition readbits :: "int \<Rightarrow> alac_file \<Rightarrow> (i32 \<times> alac_file) option" where
  "readbits bits alac =
     (if 16 < bits
      then (if 32 \<le> bits - 16 then None
            else do { (hi, alac) \<leftarrow> readbits_16 16 alac;
                      (lo, alac) \<leftarrow> readbits_16 (bits - 16) alac;
                      Some (push_bit (nat (bits - 16)) hi OR lo, alac) })
      else readbits_16 bits alac)"

definition readbit :: "alac_file \<Rightarrow> (bool \<times> alac_file) option" where
  "readbit alac =
     do { b \<leftarrow> in_byte alac 0;
          let result = push_bit (nat (input_buffer_bitaccumulator alac)) (ucast b :: u32);
          let result = drop_bit 7 result AND 1;
          Some (result \<noteq> 0, move_bits alac (input_buffer_bitaccumulator alac + 1)) }"

text \<open>The last step of the C code negates a negative remainder; \<open>& 7\<close> has left none.\<close>

definition unreadbits :: "int \<Rightarrow> alac_file \<Rightarrow> alac_file" where
  "unreadbits bits alac =
     (let alac = move_bits alac (input_buffer_bitaccumulator alac - bits)
      in if input_buffer_bitaccumulator alac < 0
         then alac\<lparr>input_buffer_bitaccumulator := - input_buffer_bitaccumulator alac\<rparr> else alac)"

text \<open>
  \<open>count_leading_zeros\<close>: the plain loop the source keeps as documentation, and the builtin that is
  used, which gives the same number and is undefined at 0.
\<close>

fun clz_loop :: "nat \<Rightarrow> i32 \<Rightarrow> int \<Rightarrow> int" where
  "clz_loop 0 x i = i"
| "clz_loop (Suc n) x i = (if 0x80000000 AND x = 0 then clz_loop n (push_bit 1 x) (i + 1) else i)"

definition count_leading_zeros :: "i32 \<Rightarrow> int option" where
  "count_leading_zeros x = (if x = 0 then None else Some (clz_loop 32 x 0))"

section \<open>Entropy decoding\<close>

definition RICE_THRESHOLD :: nat where
  [simp]: "RICE_THRESHOLD = 8"

text \<open>The unary prefix: at most nine one-bits are read; \<open>n\<close> counts the tests that are left.\<close>

fun rice_prefix :: "nat \<Rightarrow> nat \<Rightarrow> alac_file \<Rightarrow> (nat \<times> alac_file) option" where
  "rice_prefix 0 x alac = Some (x, alac)"
| "rice_prefix (Suc n) x alac =
     (case readbit alac of
        None \<Rightarrow> None
      | Some (b, alac) \<Rightarrow> if b then rice_prefix n (Suc x) alac else Some (x, alac))"

definition entropy_decode_value ::
    "int \<Rightarrow> int \<Rightarrow> i32 \<Rightarrow> alac_file \<Rightarrow> (i32 \<times> alac_file) option" where
  "entropy_decode_value readSampleSize k rice_kmodifier_mask alac =
     do { (x, alac) \<leftarrow> rice_prefix (Suc RICE_THRESHOLD) 0 alac;
          if x > RICE_THRESHOLD
          then if readSampleSize < 1 \<or> 32 < readSampleSize then None
               else do { (v, alac) \<leftarrow> readbits readSampleSize alac;
                         Some (v AND drop_bit (nat (32 - readSampleSize)) 0xffffffff, alac) }
          else if k \<noteq> 1
          then do { (extraBits, alac) \<leftarrow> readbits k alac;
                    if k < 0 \<or> 31 \<le> k then None
                    else let x = (of_nat x :: i32) * ((push_bit (nat k) 1 - 1) AND rice_kmodifier_mask)
                         in if 1 < sint extraBits then Some (x + (extraBits - 1), alac)
                            else Some (x, unreadbits 1 alac) }
          else Some (of_nat x, alac) }"

text \<open>C's division truncates towards zero.\<close>

definition c_div :: "int \<Rightarrow> int \<Rightarrow> int" where
  "c_div a b = sgn a * sgn b * (\<bar>a\<bar> div \<bar>b\<bar>)"

definition rice_k :: "i32 \<Rightarrow> int \<Rightarrow> int option" where
  "rice_k history rice_kmodifier =
     do { z \<leftarrow> count_leading_zeros (signed_drop_bit 9 history + 3);
          let k = 31 - rice_kmodifier - z;
          Some (if k < 0 then k + rice_kmodifier else rice_kmodifier) }"

text \<open>
  One value of \<open>entropy_rice_decode\<close>: the signed value (the sign is the low bit of the decoded
  number) and the new history.
\<close>

definition rice_value :: "i32 \<Rightarrow> i32" where
  "rice_value decodedValue =
     (let finalValue = word_of_int (c_div (sint (decodedValue + 1)) 2)
      in if decodedValue AND 1 \<noteq> 0 then finalValue * (- 1) else finalValue)"

definition rice_history :: "i32 \<Rightarrow> i32 \<Rightarrow> i32 \<Rightarrow> i32" where
  "rice_history history decodedValue rice_historymult =
     (if 0xFFFF < sint decodedValue then 0xFFFF
      else history + (decodedValue * rice_historymult
                      - signed_drop_bit 9 (history * rice_historymult)))"

record rice_state =
  rs_alac :: alac_file
  rs_out :: "i32 list"
  rs_history :: i32
  rs_sign :: i32

text \<open>
  The loop of \<open>entropy_rice_decode\<close>. After a value with a small history the stream holds the length
  of a run of zeros; \<open>memset\<close> writes it and the output counter skips it.
\<close>

function entropy_rice_loop ::
    "int \<Rightarrow> int \<Rightarrow> int \<Rightarrow> i32 \<Rightarrow> i32 \<Rightarrow> nat \<Rightarrow> rice_state \<Rightarrow> rice_state option" where
  "entropy_rice_loop outputSize readSampleSize rice_kmodifier mult msk outputCount st =
     (if outputSize \<le> int outputCount then Some st
      else do { k \<leftarrow> rice_k (rs_history st) rice_kmodifier;
                (v, alac) \<leftarrow> entropy_decode_value readSampleSize k 0xFFFFFFFF (rs_alac st);
                let decodedValue = v + rs_sign st;
                out \<leftarrow> wr (rs_out st) outputCount (rice_value decodedValue);
                let history = rice_history (rs_history st) decodedValue mult;
                if sint history < 128 \<and> int outputCount + 1 < outputSize
                then do { z \<leftarrow> count_leading_zeros history;
                          let k = z + c_div (sint (history + 16)) 64 - 24;
                          (blockSize, alac) \<leftarrow> entropy_decode_value 16 k msk alac;
                          out \<leftarrow> (if 0 < sint blockSize
                                 then wr_block out (outputCount + 1) (replicate (nat (sint blockSize)) 0)
                                 else Some out);
                          entropy_rice_loop outputSize readSampleSize rice_kmodifier mult msk
                            (Suc (outputCount + (if 0 < sint blockSize then nat (sint blockSize) else 0)))
                            \<lparr> rs_alac = alac, rs_out = out, rs_history = 0,
                              rs_sign = (if 0xFFFF < sint blockSize then 0 else 1) \<rparr> }
                else entropy_rice_loop outputSize readSampleSize rice_kmodifier mult msk (Suc outputCount)
                       \<lparr> rs_alac = alac, rs_out = out, rs_history = history, rs_sign = 0 \<rparr> })"
  by pat_completeness auto
termination
  by (relation "measure (\<lambda>(outputSize, rss, km, m, msk, outputCount, st). nat (outputSize - int outputCount))") auto

declare entropy_rice_loop.simps [simp del]

definition entropy_rice_decode ::
    "i32 list \<Rightarrow> int \<Rightarrow> int \<Rightarrow> i32 \<Rightarrow> int \<Rightarrow> i32 \<Rightarrow> i32 \<Rightarrow> alac_file \<Rightarrow> (i32 list \<times> alac_file) option" where
  "entropy_rice_decode outputBuffer outputSize readSampleSize rice_initialhistory rice_kmodifier
     rice_historymult rice_kmodifier_mask alac =
     do { st \<leftarrow> entropy_rice_loop outputSize readSampleSize rice_kmodifier rice_historymult
                 rice_kmodifier_mask 0
                 \<lparr> rs_alac = alac, rs_out = outputBuffer, rs_history = rice_initialhistory, rs_sign = 0 \<rparr>;
          Some (rs_out st, rs_alac st) }"

section \<open>The adaptive predictor\<close>

text \<open>\<open>SIGN_EXTENDED32\<close> and \<open>SIGN_ONLY\<close>.\<close>

definition SIGN_EXTENDED32 :: "i32 \<Rightarrow> int \<Rightarrow> i32 option" where
  "SIGN_EXTENDED32 v bits =
     (if 32 - bits < 0 \<or> 31 < 32 - bits then None
      else Some (signed_drop_bit (nat (32 - bits)) (push_bit (nat (32 - bits)) v)))"

definition SIGN_ONLY :: "i32 \<Rightarrow> i32" where
  "SIGN_ONLY v = (if sint v < 0 then - 1 else if 0 < sint v then 1 else 0)"

text \<open>The case of order 31: each error is the difference from the sample before.\<close>

definition fir_delta :: "i32 list \<Rightarrow> int \<Rightarrow> nat \<Rightarrow> i32 list \<Rightarrow> i32 list option" where
  "fir_delta error_buffer readsamplesize i buffer_out =
     do { prev_value \<leftarrow> rd buffer_out i;
          error_value \<leftarrow> rd error_buffer (i + 1);
          v \<leftarrow> SIGN_EXTENDED32 (prev_value + error_value) readsamplesize;
          wr buffer_out (i + 1) v }"

text \<open>
  The weighted sum over the last \<open>num\<close> samples. \<open>b\<close> is the position of the moving \<open>buffer_out\<close>
  pointer; \<open>n\<close> counts the coefficients from 0.
\<close>

fun fir_sum :: "i32 list \<Rightarrow> u16 list \<Rightarrow> nat \<Rightarrow> nat \<Rightarrow> nat \<Rightarrow> i32 \<Rightarrow> nat \<Rightarrow> i32 option" where
  "fir_sum buffer_out coefs b num j acc 0 = Some acc"
| "fir_sum buffer_out coefs b num j acc (Suc n) =
     do { x \<leftarrow> rd buffer_out (b + num - j);
          base \<leftarrow> rd buffer_out b;
          c \<leftarrow> rd coefs j;
          fir_sum buffer_out coefs b num (Suc j) (acc + (x - base) * scast c) n }"

text \<open>
  The update of the coefficients while the error has the sign of the sample error: \<open>dir\<close> is 1 for a
  positive and -1 for a negative error; \<open>m\<close> is \<open>predictor_num + 1\<close>.
\<close>

fun fir_adapt :: "i32 list \<Rightarrow> nat \<Rightarrow> nat \<Rightarrow> nat \<Rightarrow> int \<Rightarrow> i32 \<Rightarrow> u16 list \<Rightarrow> nat \<Rightarrow> u16 list option" where
  "fir_adapt buffer_out b num q dir error_val coefs 0 = Some coefs"
| "fir_adapt buffer_out b num q dir error_val coefs (Suc predictor_num) =
     (if (if dir = 1 then 0 < sint error_val else sint error_val < 0)
      then do { base \<leftarrow> rd buffer_out b;
                x \<leftarrow> rd buffer_out (b + num - predictor_num);
                let v = base - x;
                let sign = (if dir = 1 then SIGN_ONLY v else - SIGN_ONLY v);
                c \<leftarrow> rd coefs predictor_num;
                coefs \<leftarrow> wr coefs predictor_num (c - ucast sign);
                let v = v * sign;
                fir_adapt buffer_out b num q dir
                  (error_val - signed_drop_bit q v * of_nat (num - predictor_num))
                  coefs predictor_num }
      else Some coefs)"

definition fir_general ::
    "i32 list \<Rightarrow> int \<Rightarrow> nat \<Rightarrow> nat \<Rightarrow> nat \<Rightarrow> i32 list \<times> u16 list \<Rightarrow> (i32 list \<times> u16 list) option" where
  "fir_general error_buffer readsamplesize num q i = (\<lambda>(buffer_out, coefs).
     do { let b = i - (num + 1);
          error_val \<leftarrow> rd error_buffer i;
          sum \<leftarrow> fir_sum buffer_out coefs b num 0 0 num;
          base \<leftarrow> rd buffer_out b;
          if q = 0 then None
          else do { let outval = push_bit (q - 1) 1 + sum;
                    let outval = signed_drop_bit q outval;
                    let outval = outval + base + error_val;
                    outval \<leftarrow> SIGN_EXTENDED32 outval readsamplesize;
                    buffer_out \<leftarrow> wr buffer_out (b + num + 1) outval;
                    coefs \<leftarrow> (if 0 < sint error_val
                             then fir_adapt buffer_out b num q 1 error_val coefs num
                             else if sint error_val < 0
                             then fir_adapt buffer_out b num q (- 1) error_val coefs num
                             else Some coefs);
                    Some (buffer_out, coefs) } })"

definition predictor_decompress_fir_adapt ::
    "i32 list \<Rightarrow> i32 list \<Rightarrow> int \<Rightarrow> int \<Rightarrow> u16 list \<Rightarrow> nat \<Rightarrow> nat \<Rightarrow> i32 list option" where
  "predictor_decompress_fir_adapt error_buffer buffer_out output_size readsamplesize
     predictor_coef_table predictor_coef_num predictor_quantitization =
     do { e0 \<leftarrow> rd error_buffer 0;
          buffer_out \<leftarrow> wr buffer_out 0 e0;
          if predictor_coef_num = 0
          then if output_size \<le> 1 then Some buffer_out
               else do { es \<leftarrow> rd_block error_buffer 1 (nat (output_size - 1));
                         wr_block buffer_out 1 es }
          else if predictor_coef_num = 0x1f
          then if output_size \<le> 1 then Some buffer_out
               else for_loop 0 (nat (output_size - 1)) (fir_delta error_buffer readsamplesize) buffer_out
          else do { buffer_out \<leftarrow>
                      for_loop 0 predictor_coef_num (fir_delta error_buffer readsamplesize) buffer_out;
                    (buffer_out, _) \<leftarrow>
                      for_loop (predictor_coef_num + 1) (nat (output_size - int predictor_coef_num - 1))
                        (fir_general error_buffer readsamplesize predictor_coef_num
                           predictor_quantitization)
                        (buffer_out, predictor_coef_table);
                    Some buffer_out } }"

section \<open>Interlacing\<close>

text \<open>Stores into the output block: 16-bit samples at a sample index, 24-bit ones byte by byte.\<close>

definition put16 :: "bytes \<Rightarrow> nat \<Rightarrow> u16 \<Rightarrow> bytes option" where
  "put16 out idx v = wr_block out (2 * idx) [ucast v, ucast (drop_bit 8 v)]"

definition put24 :: "bytes \<Rightarrow> nat \<Rightarrow> i32 \<Rightarrow> bytes option" where
  "put24 out at v = wr_block out at [ucast v, ucast (drop_bit 8 v), ucast (drop_bit 16 v)]"

text \<open>
  Left and right sample from the two channels. In the 16-bit version \<open>right\<close> has been cut to 16 bits
  before it is added to the difference.
\<close>

definition unmix :: "i32 \<Rightarrow> i32 \<Rightarrow> u8 \<Rightarrow> u8 \<Rightarrow> i32 option" where
  "unmix midright difference interlacing_shift interlacing_leftweight =
     (if 32 \<le> unat interlacing_shift then None
      else Some (midright - signed_drop_bit (unat interlacing_shift)
                              (difference * ucast interlacing_leftweight)))"

definition deinterlace_16_step ::
    "i32 list \<Rightarrow> i32 list \<Rightarrow> nat \<Rightarrow> u8 \<Rightarrow> u8 \<Rightarrow> nat \<Rightarrow> bytes \<Rightarrow> bytes option" where
  "deinterlace_16_step buffer_a buffer_b nch shift leftweight i out =
     do { a \<leftarrow> rd buffer_a i;
          b \<leftarrow> rd buffer_b i;
          (left, right) \<leftarrow>
            (if leftweight \<noteq> 0
             then do { r \<leftarrow> unmix a b shift leftweight;
                       let right = (ucast r :: u16);
                       Some ((ucast (scast right + b) :: u16), right) }
             else Some (ucast a, ucast b));
          out \<leftarrow> put16 out (i * nch) left;
          put16 out (i * nch + 1) right }"

definition deinterlace_16 ::
    "i32 list \<Rightarrow> i32 list \<Rightarrow> bytes \<Rightarrow> nat \<Rightarrow> int \<Rightarrow> u8 \<Rightarrow> u8 \<Rightarrow> bytes option" where
  "deinterlace_16 buffer_a buffer_b out nch numsamples shift leftweight =
     for_loop 0 (nat numsamples) (deinterlace_16_step buffer_a buffer_b nch shift leftweight) out"

text \<open>The bytes of a sample that were sent uncompressed go below the decoded ones.\<close>

definition join_uncompressed :: "nat \<Rightarrow> i32 \<Rightarrow> i32 \<Rightarrow> i32" where
  "join_uncompressed uncompressed_bytes v low =
     (if uncompressed_bytes = 0 then v
      else push_bit (uncompressed_bytes * 8) v
           OR (low AND NOT (push_bit (uncompressed_bytes * 8) 0xFFFFFFFF)))"

definition deinterlace_24_step ::
    "i32 list \<Rightarrow> i32 list \<Rightarrow> nat \<Rightarrow> i32 list \<Rightarrow> i32 list \<Rightarrow> nat \<Rightarrow> u8 \<Rightarrow> u8 \<Rightarrow> nat \<Rightarrow> bytes \<Rightarrow> bytes option" where
  "deinterlace_24_step buffer_a buffer_b ub unc_a unc_b nch shift leftweight i out =
     do { a \<leftarrow> rd buffer_a i;
          b \<leftarrow> rd buffer_b i;
          (left, right) \<leftarrow>
            (if leftweight \<noteq> 0
             then do { right \<leftarrow> unmix a b shift leftweight; Some (right + b, right) }
             else Some (a, b));
          (left, right) \<leftarrow>
            (if ub \<noteq> 0
             then do { la \<leftarrow> rd unc_a i; lb \<leftarrow> rd unc_b i;
                       Some (join_uncompressed ub left la, join_uncompressed ub right lb) }
             else Some (left, right));
          out \<leftarrow> put24 out (i * nch * 3) left;
          put24 out (i * nch * 3 + 3) right }"

definition deinterlace_24 ::
    "i32 list \<Rightarrow> i32 list \<Rightarrow> nat \<Rightarrow> i32 list \<Rightarrow> i32 list \<Rightarrow> bytes \<Rightarrow> nat \<Rightarrow> int \<Rightarrow> u8 \<Rightarrow> u8 \<Rightarrow> bytes option" where
  "deinterlace_24 buffer_a buffer_b ub unc_a unc_b out nch numsamples shift leftweight =
     for_loop 0 (nat numsamples)
       (deinterlace_24_step buffer_a buffer_b ub unc_a unc_b nch shift leftweight) out"

section \<open>Decoding a frame\<close>

record frame_header =
  hassize :: bool
  uncompressed_bytes :: nat
  isnotcompressed :: bool

definition read_frame_header :: "alac_file \<Rightarrow> (frame_header \<times> alac_file) option" where
  "read_frame_header alac =
     do { (_, alac) \<leftarrow> readbits 4 alac;
          (_, alac) \<leftarrow> readbits 12 alac;
          (hs, alac) \<leftarrow> readbits 1 alac;
          (ub, alac) \<leftarrow> readbits 2 alac;
          (nc, alac) \<leftarrow> readbits 1 alac;
          Some (\<lparr>hassize = (hs \<noteq> 0), uncompressed_bytes = unat ub, isnotcompressed = (nc \<noteq> 0)\<rparr>, alac) }"

record channel_params =
  prediction_type :: i32
  prediction_quantitization :: nat
  ricemodifier :: int
  predictor_coefs :: "u16 list"

fun read_coefs :: "nat \<Rightarrow> alac_file \<Rightarrow> (u16 list \<times> alac_file) option" where
  "read_coefs 0 alac = Some ([], alac)"
| "read_coefs (Suc n) alac =
     (case readbits 16 alac of
        None \<Rightarrow> None
      | Some (c, alac) \<Rightarrow>
          (case read_coefs n alac of
             None \<Rightarrow> None
           | Some (cs, alac) \<Rightarrow> Some (ucast c # cs, alac)))"

definition read_channel_params :: "alac_file \<Rightarrow> (channel_params \<times> alac_file) option" where
  "read_channel_params alac =
     do { (ty, alac) \<leftarrow> readbits 4 alac;
          (q, alac) \<leftarrow> readbits 4 alac;
          (rm, alac) \<leftarrow> readbits 3 alac;
          (num, alac) \<leftarrow> readbits 5 alac;
          (cs, alac) \<leftarrow> read_coefs (unat num) alac;
          Some (\<lparr>prediction_type = ty, prediction_quantitization = unat q, ricemodifier = sint rm,
                 predictor_coefs = cs\<rparr>, alac) }"

text \<open>One channel: the entropy decoder into the error buffer, then the predictor (type 0 only).\<close>

definition decode_channel ::
    "channel_params \<Rightarrow> int \<Rightarrow> int \<Rightarrow> i32 list \<Rightarrow> i32 list \<Rightarrow> alac_file \<Rightarrow>
     (i32 list \<times> i32 list \<times> alac_file) option" where
  "decode_channel cp outputsamples readsamplesize perr outb alac =
     (if 31 \<le> unat (setinfo_rice_kmodifier alac) then None
      else do { (perr, alac) \<leftarrow>
                  entropy_rice_decode perr outputsamples readsamplesize
                    (ucast (setinfo_rice_initialhistory alac)) (uint (setinfo_rice_kmodifier alac))
                    (word_of_int (c_div (ricemodifier cp * uint (setinfo_rice_historymult alac)) 4))
                    (push_bit (unat (setinfo_rice_kmodifier alac)) 1 - 1) alac;
                if prediction_type cp = 0
                then do { outb \<leftarrow> predictor_decompress_fir_adapt perr outb outputsamples readsamplesize
                            (predictor_coefs cp) (length (predictor_coefs cp))
                            (prediction_quantitization cp);
                          Some (perr, outb, alac) }
                else Some (perr, outb, alac) })"

text \<open>One sample of a frame that is not compressed.\<close>

definition read_raw_sample :: "alac_file \<Rightarrow> (i32 \<times> alac_file) option" where
  "read_raw_sample alac =
     (let ssz = uint (setinfo_sample_size alac) in
      if ssz \<le> 16
      then do { (audiobits, alac) \<leftarrow> readbits ssz alac;
                audiobits \<leftarrow> SIGN_EXTENDED32 audiobits ssz;
                Some (audiobits, alac) }
      else if 32 \<le> ssz - 16 then None
      else do { (hi, alac) \<leftarrow> readbits 16 alac;
                (lo, alac) \<leftarrow> readbits (ssz - 16) alac;
                Some (signed_drop_bit 8 (push_bit 8 (push_bit (nat (ssz - 16)) hi OR lo)), alac) })"

definition raw_step_mono :: "nat \<Rightarrow> alac_file \<Rightarrow> alac_file option" where
  "raw_step_mono i alac =
     do { (v, alac) \<leftarrow> read_raw_sample alac;
          out \<leftarrow> wr (outputsamples_buffer_a alac) i v;
          Some (alac\<lparr>outputsamples_buffer_a := out\<rparr>) }"

text \<open>
  In the stereo loop the samples of both channels are read before they are stored; the 16-bit loop
  reads both and then extends both, the wider one extends the first before it reads the second.
\<close>

definition raw_step_stereo :: "nat \<Rightarrow> alac_file \<Rightarrow> alac_file option" where
  "raw_step_stereo i alac =
     do { (va, alac) \<leftarrow> read_raw_sample alac;
          (vb, alac) \<leftarrow> read_raw_sample alac;
          outa \<leftarrow> wr (outputsamples_buffer_a alac) i va;
          outb \<leftarrow> wr (outputsamples_buffer_b alac) i vb;
          Some (alac\<lparr>outputsamples_buffer_a := outa, outputsamples_buffer_b := outb\<rparr>) }"

definition unc_step_mono :: "nat \<Rightarrow> nat \<Rightarrow> alac_file \<Rightarrow> alac_file option" where
  "unc_step_mono ub i alac =
     do { (v, alac) \<leftarrow> readbits (int (ub * 8)) alac;
          u \<leftarrow> wr (uncompressed_bytes_buffer_a alac) i v;
          Some (alac\<lparr>uncompressed_bytes_buffer_a := u\<rparr>) }"

definition unc_step_stereo :: "nat \<Rightarrow> nat \<Rightarrow> alac_file \<Rightarrow> alac_file option" where
  "unc_step_stereo ub i alac =
     do { alac \<leftarrow> unc_step_mono ub i alac;
          (v, alac) \<leftarrow> readbits (int (ub * 8)) alac;
          u \<leftarrow> wr (uncompressed_bytes_buffer_b alac) i v;
          Some (alac\<lparr>uncompressed_bytes_buffer_b := u\<rparr>) }"

text \<open>One channel. The result has the decoder state and the output block.\<close>

definition decode_mono_samples :: "frame_header \<Rightarrow> int \<Rightarrow> alac_file \<Rightarrow> alac_file option" where
  "decode_mono_samples h outputsamples alac =
     (let readsamplesize = uint (setinfo_sample_size alac) - int (uncompressed_bytes h * 8) in
      if \<not> isnotcompressed h
      then do { (_, alac) \<leftarrow> readbits 8 alac;
                (_, alac) \<leftarrow> readbits 8 alac;
                (cp, alac) \<leftarrow> read_channel_params alac;
                alac \<leftarrow> (if uncompressed_bytes h \<noteq> 0
                        then for_loop 0 (nat outputsamples) (unc_step_mono (uncompressed_bytes h)) alac
                        else Some alac);
                (perr, outb, alac) \<leftarrow> decode_channel cp outputsamples readsamplesize
                   (predicterror_buffer_a alac) (outputsamples_buffer_a alac) alac;
                Some (alac\<lparr>predicterror_buffer_a := perr, outputsamples_buffer_a := outb\<rparr>) }
      else for_loop 0 (nat outputsamples) raw_step_mono alac)"

definition mono_16_step :: "i32 list \<Rightarrow> nat \<Rightarrow> nat \<Rightarrow> bytes \<Rightarrow> bytes option" where
  "mono_16_step buffer_a nch i out =
     do { sample \<leftarrow> rd buffer_a i; put16 out (i * nch) (ucast sample) }"

definition mono_24_step :: "i32 list \<Rightarrow> i32 list \<Rightarrow> nat \<Rightarrow> nat \<Rightarrow> nat \<Rightarrow> bytes \<Rightarrow> bytes option" where
  "mono_24_step buffer_a unc_a ub nch i out =
     do { sample \<leftarrow> rd buffer_a i;
          sample \<leftarrow> (if ub \<noteq> 0 then do { u \<leftarrow> rd unc_a i; Some (join_uncompressed ub sample u) }
                    else Some sample);
          put24 out (i * nch * 3) sample }"

definition write_mono :: "nat \<Rightarrow> int \<Rightarrow> alac_file \<Rightarrow> bytes \<Rightarrow> bytes option" where
  "write_mono ub outputsamples alac out =
     (let nch = nat (numchannels alac); n = nat outputsamples in
      if setinfo_sample_size alac = 16
      then for_loop 0 n (mono_16_step (outputsamples_buffer_a alac) nch) out
      else if setinfo_sample_size alac = 24
      then for_loop 0 n (mono_24_step (outputsamples_buffer_a alac)
                           (uncompressed_bytes_buffer_a alac) ub nch) out
      else Some out)"

text \<open>Two channels: the samples, with the shift and weight of the interlacing.\<close>

definition decode_stereo_samples ::
    "frame_header \<Rightarrow> int \<Rightarrow> alac_file \<Rightarrow> (u8 \<times> u8 \<times> alac_file) option" where
  "decode_stereo_samples h outputsamples alac =
     (let readsamplesize = uint (setinfo_sample_size alac) - int (uncompressed_bytes h * 8) + 1 in
      if \<not> isnotcompressed h
      then do { (shift, alac) \<leftarrow> readbits 8 alac;
                (leftweight, alac) \<leftarrow> readbits 8 alac;
                (cpa, alac) \<leftarrow> read_channel_params alac;
                (cpb, alac) \<leftarrow> read_channel_params alac;
                alac \<leftarrow> (if uncompressed_bytes h \<noteq> 0
                        then for_loop 0 (nat outputsamples) (unc_step_stereo (uncompressed_bytes h)) alac
                        else Some alac);
                (perr, outb, alac) \<leftarrow> decode_channel cpa outputsamples readsamplesize
                   (predicterror_buffer_a alac) (outputsamples_buffer_a alac) alac;
                let alac = alac\<lparr>predicterror_buffer_a := perr, outputsamples_buffer_a := outb\<rparr>;
                (perr, outb, alac) \<leftarrow> decode_channel cpb outputsamples readsamplesize
                   (predicterror_buffer_b alac) (outputsamples_buffer_b alac) alac;
                Some (ucast shift, ucast leftweight,
                      alac\<lparr>predicterror_buffer_b := perr, outputsamples_buffer_b := outb\<rparr>) }
      else do { alac \<leftarrow> for_loop 0 (nat outputsamples) raw_step_stereo alac;
                Some (0, 0, alac) })"

definition write_stereo :: "nat \<Rightarrow> int \<Rightarrow> u8 \<Rightarrow> u8 \<Rightarrow> alac_file \<Rightarrow> bytes \<Rightarrow> bytes option" where
  "write_stereo ub outputsamples shift leftweight alac out =
     (let nch = nat (numchannels alac) in
      if setinfo_sample_size alac = 16
      then deinterlace_16 (outputsamples_buffer_a alac) (outputsamples_buffer_b alac) out nch
             outputsamples shift leftweight
      else if setinfo_sample_size alac = 24
      then deinterlace_24 (outputsamples_buffer_a alac) (outputsamples_buffer_b alac) ub
             (uncompressed_bytes_buffer_a alac) (uncompressed_bytes_buffer_b alac) out nch
             outputsamples shift leftweight
      else Some out)"

text \<open>
  The number of samples in the frame: the configured maximum, or a count in the frame. The size of
  the output must fit the room that was given; the product is an \<open>int\<close>.
\<close>

definition output_size :: "i32 \<Rightarrow> alac_file \<Rightarrow> int" where
  "output_size outputsamples alac = sint (outputsamples * word_of_int (bytespersample alac))"

definition frame_samples :: "frame_header \<Rightarrow> alac_file \<Rightarrow> (i32 \<times> alac_file) option" where
  "frame_samples h alac =
     (if hassize h then readbits 32 alac else Some (setinfo_max_samples_per_frame alac, alac))"

definition frame_body :: "bool \<Rightarrow> alac_file \<Rightarrow> bytes \<Rightarrow> int \<Rightarrow> (alac_file \<times> bytes \<times> int) option" where
  "frame_body stereo alac out room =
     do { (h, alac) \<leftarrow> read_frame_header alac;
          (outputsamples, alac) \<leftarrow> frame_samples h alac;
          let osize = output_size outputsamples alac;
          let ub = (if isnotcompressed h then 0 else uncompressed_bytes h);
          if room < osize then Some (alac, out, 0)
          else if stereo
          then do { (shift, leftweight, alac) \<leftarrow> decode_stereo_samples h (sint outputsamples) alac;
                    out \<leftarrow> write_stereo ub (sint outputsamples) shift leftweight alac out;
                    Some (alac, out, osize) }
          else do { alac \<leftarrow> decode_mono_samples h (sint outputsamples) alac;
                    out \<leftarrow> write_mono ub (sint outputsamples) alac out;
                    Some (alac, out, osize) } }"

definition alac_decode_frame ::
    "alac_file \<Rightarrow> bytes \<Rightarrow> bytes \<Rightarrow> int \<Rightarrow> (alac_file \<times> bytes \<times> int) option" where
  "alac_decode_frame alac inbuffer out outputsize =
     do { let alac = alac\<lparr>input_buffer := inbuffer, input_pos := 0, input_buffer_bitaccumulator := 0\<rparr>;
          (channels, alac) \<leftarrow> readbits 3 alac;
          let osize = output_size (setinfo_max_samples_per_frame alac) alac;
          if outputsize < osize then Some (alac, out, 0)
          else if channels = 0 then frame_body False alac out outputsize
          else if channels = 1 then frame_body True alac out outputsize
          else Some (alac, out, osize) }"

end
