(* ===== verification/Alac_Bits.thy ===== *)
theory Alac_Bits
  imports Alac
begin

text \<open>
  The bit reader of the ALAC decoder, seen as a stream of bits, most significant bit of each byte
  first. Every reading primitive takes the next bits of the stream and moves the position by their
  number; \<open>unreadbits\<close> moves it back.
\<close>

unbundle bit_operations_syntax

section \<open>The stream\<close>

definition stream_bit :: "bytes \<Rightarrow> nat \<Rightarrow> bool" where
  "stream_bit bs q = bit (bs ! (q div 8)) (7 - q mod 8)"

text \<open>The \<open>n\<close> bits at position \<open>p\<close> as a number, first bit most significant.\<close>

definition stream_word :: "bytes \<Rightarrow> nat \<Rightarrow> nat \<Rightarrow> u32" where
  "stream_word bs p n = horner_sum of_bool 2 (rev (map (stream_bit bs) [p..<p + n]))"

lemma bit_stream_word:
  "bit (stream_word bs p n) i \<longleftrightarrow> i < n \<and> i < 32 \<and> stream_bit bs (p + n - 1 - i)"
  by (auto simp: stream_word_def bit_horner_sum_bit_word_iff rev_nth algebra_simps)

text \<open>The position of the reader.\<close>

definition bit_pos :: "alac_file \<Rightarrow> int" where
  "bit_pos alac = 8 * input_pos alac + input_buffer_bitaccumulator alac"

definition at_bit :: "alac_file \<Rightarrow> nat \<Rightarrow> bool" where
  "at_bit alac p \<longleftrightarrow>
     input_pos alac = int (p div 8) \<and> input_buffer_bitaccumulator alac = int (p mod 8)"

definition to_bit :: "nat \<Rightarrow> alac_file \<Rightarrow> alac_file" where
  "to_bit p alac =
     alac\<lparr>input_pos := int (p div 8), input_buffer_bitaccumulator := int (p mod 8)\<rparr>"

lemma at_bit_to_bit [simp]: "at_bit (to_bit p alac) q \<longleftrightarrow> p = q"
  by (auto simp: at_bit_def to_bit_def) (metis mult_div_mod_eq)

lemma to_bit_to_bit [simp]: "to_bit p (to_bit q alac) = to_bit p alac"
  by (simp add: to_bit_def)

lemma input_buffer_to_bit [simp]: "input_buffer (to_bit p alac) = input_buffer alac"
  by (simp add: to_bit_def)

lemma to_bit_same: "at_bit alac p \<Longrightarrow> to_bit p alac = alac"
  by (simp add: at_bit_def to_bit_def)

lemma div8_add: "p div 8 + (p mod 8 + n) div 8 = (p + n) div (8 :: nat)"
proof -
  have "p + n = (p mod 8 + n) + 8 * (p div 8)" by simp
  then show ?thesis by (simp only: div_mult_self2)
qed

lemma move_bits_forward:
  assumes "at_bit alac p"
  shows "move_bits alac (input_buffer_bitaccumulator alac + int n) = to_bit (p + n) alac"
proof -
  have "(int (p mod 8) + int n) div 8 = int ((p mod 8 + n) div 8)"
    by (metis of_nat_add of_nat_numeral zdiv_int)
  then have "int (p div 8) + (int (p mod 8) + int n) div 8 = int ((p + n) div 8)"
    by (metis div8_add of_nat_add)
  moreover have "(int (p mod 8) + int n) mod 8 = int ((p + n) mod 8)"
    by (metis mod_add_left_eq of_nat_add of_nat_numeral zmod_int)
  ultimately show ?thesis
    using assms by (simp add: move_bits_def to_bit_def at_bit_def)
qed

lemma move_bits_back:
  assumes "at_bit alac p" and "n \<le> p"
  shows "move_bits alac (input_buffer_bitaccumulator alac - int n) = to_bit (p - n) alac"
proof -
  have eq: "int (p mod 8) - int n = int ((p - n) mod 8) + 8 * (int ((p - n) div 8) - int (p div 8))"
  proof -
    have split: "int k = 8 * int (k div 8) + int (k mod 8)" for k :: nat
      by (metis mult_div_mod_eq of_nat_add of_nat_mult of_nat_numeral)
    from split [of p] split [of "p - n"] assms(2) show ?thesis by (simp add: of_nat_diff del: of_nat_mod of_nat_div)
  qed
  have small: "0 \<le> int ((p - n) mod 8)" "int ((p - n) mod 8) < 8" by simp_all
  have "(int (p mod 8) - int n) div 8 = int ((p - n) div 8) - int (p div 8)"
    unfolding eq using small by (simp only: div_mult_self2 div_pos_pos_trivial)
  moreover have "(int (p mod 8) - int n) mod 8 = int ((p - n) mod 8)"
    unfolding eq using small by (simp only: mod_mult_self2 mod_pos_pos_trivial)
  ultimately show ?thesis
    using assms(1) by (simp add: move_bits_def to_bit_def at_bit_def)
qed

section \<open>The primitives\<close>

lemma in_byte_at:
  "at_bit alac p \<Longrightarrow> p div 8 + k < length (input_buffer alac) \<Longrightarrow>
   in_byte alac (int k) = Some (input_buffer alac ! (p div 8 + k))"
  by (simp add: in_byte_def at_bit_def rd_def nat_add_distrib)

lemma stream_bit_window:
  assumes "j < 24"
  shows "stream_bit bs (8 * d + (23 - j)) \<longleftrightarrow>
    (if 16 \<le> j then bit (bs ! d) (j - 16)
     else if 8 \<le> j then bit (bs ! (d + 1)) (j - 8) else bit (bs ! (d + 2)) j)"
proof -
  have at: "stream_bit bs (8 * d + (8 * e + r)) = bit (bs ! (d + e)) (7 - r)" if "r < 8" for e r
  proof -
    have "8 * d + (8 * e + r) = r + 8 * (d + e)" by simp
    then show ?thesis using that by (simp only: stream_bit_def div_mult_self2 mod_mult_self2) simp
  qed
  consider "16 \<le> j" | "8 \<le> j" "j < 16" | "j < 8" by linarith
  then show ?thesis
  proof cases
    case 1
    with assms at [of "23 - j" 0] show ?thesis by (simp add: Nat.diff_diff_right)
  next
    case 2
    with at [of "15 - j" 1] show ?thesis by (simp add: Nat.diff_diff_right)
  next
    case 3
    with at [of "7 - j" 2] show ?thesis by (simp add: Nat.diff_diff_right)
  qed
qed

text \<open>The 24 bits the reader looks at, shifted and cut, are the next \<open>n\<close> bits of the stream.\<close>

lemma window_bits:
  fixes b0 b1 b2 :: u8
  assumes "a < 8" and "n + a \<le> 24" and "i < n" and "d = p div 8" and "a = p mod 8"
    and "b0 = bs ! d" and "b1 = bs ! (d + 1)" and "b2 = bs ! (d + 2)"
  shows "bit (drop_bit (24 - n) (push_bit a (push_bit 16 (ucast b0 :: u32) OR push_bit 8 (ucast b1)
           OR ucast b2) AND 0x00ffffff)) i \<longleftrightarrow> stream_bit bs (p + n - 1 - i)"
proof -
  let ?j = "24 - n + i - a"
  let ?w = "push_bit 16 (ucast b0 :: u32) OR push_bit 8 (ucast b1) OR ucast b2"
  have p: "p = 8 * d + a" using assms(4,5) by simp
  have j: "?j < 24" and q: "p + n - 1 - i = 8 * d + (23 - ?j)" using assms(1-3) p by auto
  have small: "\<not> bit (ucast (b :: u8) :: u32) k" if "8 \<le> k" for b k
    using that by (auto simp: bit_simps dest: bit_imp_le_length)
  have w: "bit ?w ?j \<longleftrightarrow> stream_bit bs (8 * d + (23 - ?j))"
    using j small assms(6-8) unfolding stream_bit_window [OF j]
    by (auto simp: bit_simps)
  have m: "bit (0x00ffffff :: u32) k \<longleftrightarrow> k < 24" for k
  proof -
    have m24: "(0x00ffffff :: u32) = mask 24" by (simp add: mask_eq_exp_minus_1)
    show ?thesis unfolding m24 bit_mask_iff by auto
  qed
  have "bit (drop_bit (24 - n) (push_bit a w AND 0x00ffffff)) i \<longleftrightarrow> bit w ?j" for w :: u32
  proof -
    have "24 - n + i < 24" and "a \<le> 24 - n + i" using assms(1-3) by auto
    then show ?thesis
      by (simp only: bit_and_iff bit_drop_bit_eq o_def bit_push_bit_iff m possible_bit_word) simp
  qed
  then show ?thesis unfolding q w [symmetric] by blast
qed

lemma readbits_16_stream:
  assumes "at_bit alac p" and "n \<le> 16" and "p div 8 + 2 < length (input_buffer alac)"
  shows "readbits_16 (int n) alac = Some (stream_word (input_buffer alac) p n, to_bit (p + n) alac)"
proof -
  let ?bs = "input_buffer alac" and ?d = "p div 8" and ?a = "p mod 8"
  let ?w = "push_bit 16 (ucast (?bs ! ?d) :: u32) OR push_bit 8 (ucast (?bs ! (?d + 1)))
              OR ucast (?bs ! (?d + 2))"
  let ?r = "drop_bit (24 - n) (push_bit ?a ?w AND 0x00ffffff)"
  have in_bytes: "in_byte alac 0 = Some (?bs ! ?d)" "in_byte alac 1 = Some (?bs ! (?d + 1))"
    "in_byte alac 2 = Some (?bs ! (?d + 2))"
    using in_byte_at [OF assms(1), of 0] in_byte_at [OF assms(1), of 1]
      in_byte_at [OF assms(1), of 2] assms(3) by simp_all
  have "?r = stream_word ?bs p n"
  proof (rule bit_word_eqI)
    fix i
    assume "i < LENGTH(32)"
    show "bit ?r i \<longleftrightarrow> bit (stream_word ?bs p n) i"
    proof (cases "i < n")
      case True
      have "?a < 8" by simp
      moreover have "n + ?a \<le> 24" using assms(2) \<open>?a < 8\<close> by linarith
      ultimately show ?thesis
        using window_bits [OF _ _ True refl refl refl refl refl, of p ?bs] True assms(2)
        by (simp add: bit_stream_word)
    next
      case False
      then have "\<not> bit (0x00ffffff :: u32) (24 - n + i)"
      proof -
        have m24: "(0x00ffffff :: u32) = mask 24" by (simp add: mask_eq_exp_minus_1)
        show ?thesis unfolding m24 bit_mask_iff using False assms(2) by auto
      qed
      then show ?thesis using False by (simp add: bit_stream_word bit_and_iff bit_drop_bit_eq)
    qed
  qed
  then show ?thesis
    using in_bytes move_bits_forward [OF assms(1), of n] assms(1,2)
    by (simp add: readbits_16_def at_bit_def Let_def nat_diff_distrib')
qed

lemma stream_word_split:
  assumes "m + n \<le> 32"
  shows "push_bit n (stream_word bs p m) OR stream_word bs (p + m) n = stream_word bs p (m + n)"
proof (rule bit_word_eqI)
  fix i
  assume "i < LENGTH(32)"
  then show "bit (push_bit n (stream_word bs p m) OR stream_word bs (p + m) n) i \<longleftrightarrow>
        bit (stream_word bs p (m + n)) i"
    using assms
    by (cases "i < n") (auto simp: bit_or_iff bit_push_bit_iff bit_stream_word algebra_simps)
qed

text \<open>
  \<open>readbits\<close>: at most 32 bits are the next bits of the stream, as long as the three bytes the reader
  looks at each time are in the block.
\<close>

lemma readbits_stream:
  assumes "at_bit alac p" and "n \<le> 32"
    and "(p + (if n \<le> 16 then 0 else 16)) div 8 + 2 < length (input_buffer alac)"
  shows "readbits (int n) alac = Some (stream_word (input_buffer alac) p n, to_bit (p + n) alac)"
proof (cases "n \<le> 16")
  case True
  with assms show ?thesis by (simp add: readbits_def readbits_16_stream)
next
  case False
  let ?bs = "input_buffer alac"
  have "p div 8 \<le> (p + 16) div 8" by (rule div_le_mono) simp
  with False assms have hi: "readbits_16 (int 16) alac = Some (stream_word ?bs p 16, to_bit (p + 16) alac)"
    by (intro readbits_16_stream) auto
  have lo: "readbits_16 (int (n - 16)) (to_bit (p + 16) alac) =
      Some (stream_word ?bs (p + 16) (n - 16), to_bit (p + n) alac)"
    using readbits_16_stream [of "to_bit (p + 16) alac" "p + 16" "n - 16"] assms(2,3) False by simp
  have i: "int n - 16 = int (n - 16)" "nat (int n - 16) = n - 16" using False by auto
  have "push_bit (n - 16) (stream_word ?bs p 16) OR stream_word ?bs (p + 16) (n - 16) =
      stream_word ?bs p n"
    using stream_word_split [of 16 "n - 16" ?bs p] assms(2) False by simp
  then show ?thesis
    using False assms(2) hi lo by (simp add: readbits_def i(2))
qed

lemma readbit_stream:
  assumes "at_bit alac p" and "p div 8 < length (input_buffer alac)"
  shows "readbit alac = Some (stream_bit (input_buffer alac) p, to_bit (p + 1) alac)"
proof -
  let ?b = "input_buffer alac ! (p div 8)"
  have "drop_bit 7 (push_bit (p mod 8) (ucast ?b :: u32)) AND 1 \<noteq> 0 \<longleftrightarrow>
      bit (push_bit (p mod 8) (ucast ?b :: u32)) 7"
    by (simp add: and_one_eq odd_iff_mod_2_eq_one [symmetric] bit_iff_odd_drop_bit)
  also have "\<dots> \<longleftrightarrow> stream_bit (input_buffer alac) p"
  proof -
    have "p mod 8 \<le> 7" by (simp add: less_Suc_eq_le [symmetric])
    then show ?thesis
      using le_less_trans [OF diff_le_self, of 7 32 "p mod 8"] by (simp add: stream_bit_def bit_simps)
  qed
  finally have "(drop_bit 7 (push_bit (p mod 8) (ucast ?b :: u32)) AND 1 \<noteq> 0) =
      stream_bit (input_buffer alac) p" .
  then show ?thesis
    using in_byte_at [OF assms(1), of 0] assms move_bits_forward [OF assms(1), of 1]
    by (simp add: readbit_def at_bit_def Let_def)
qed

lemma unreadbits_stream:
  assumes "at_bit alac p" and "n \<le> p"
  shows "unreadbits (int n) alac = to_bit (p - n) alac"
  using move_bits_back [OF assms] by (simp add: unreadbits_def to_bit_def)

end
