(* ===== verification/Alac_Frames.thy ===== *)
theory Alac_Frames
  imports Alac_Bits
begin

text \<open>
  What the ALAC decoder does with whole frames: a stereo frame of raw 16-bit samples comes out as
  exactly those samples, interleaved and little-endian; frames that do not fit are refused; and the
  inputs on which the decoder leaves its buffers.
\<close>

unbundle bit_operations_syntax

section \<open>The encoder of raw stereo frames\<close>

text \<open>This encoder is the specification the decoder is measured against; it is not part of the program.\<close>

definition bits_of_word :: "nat \<Rightarrow> 'a::len word \<Rightarrow> bool list" where
  "bits_of_word n w = map (bit w) (rev [0..<n])"

fun pack_bits :: "bool list \<Rightarrow> bytes" where
  "pack_bits [] = []"
| "pack_bits (b # bs) =
     horner_sum of_bool 2 (rev (take 8 ((b # bs) @ replicate 7 False))) # pack_bits (drop 7 bs)"

definition sample_bits :: "(u16 \<times> u16) list \<Rightarrow> bool list" where
  "sample_bits ss = concat (map (\<lambda>(l, r). bits_of_word 16 l @ bits_of_word 16 r) ss)"

definition raw_header_bits :: "bool list" where
  "raw_header_bits = [False, False, True] @ replicate 4 False @ replicate 12 False
                       @ [False] @ [False, False] @ [True]"

definition encode_raw_frame :: "(u16 \<times> u16) list \<Rightarrow> bytes" where
  "encode_raw_frame ss = pack_bits (raw_header_bits @ sample_bits ss) @ [0, 0]"

definition le_pair :: "u16 \<times> u16 \<Rightarrow> bytes" where
  "le_pair s = [ucast (fst s), ucast (drop_bit 8 (fst s)), ucast (snd s), ucast (drop_bit 8 (snd s))]"

subsection \<open>Bits in, bits out\<close>

lemma length_bits_of_word [simp]: "length (bits_of_word n w) = n"
  by (simp add: bits_of_word_def)

lemma length_sample_bits [simp]: "length (sample_bits ss) = 32 * length ss"
  by (induction ss) (auto simp: sample_bits_def)

lemma length_raw_header_bits [simp]: "length raw_header_bits = 23"
  by (simp add: raw_header_bits_def)

lemma length_pack_bits: "length (pack_bits bs) = (length bs + 7) div 8"
proof (induction bs rule: pack_bits.induct)
  case (2 b bs)
  then show ?case by (cases "length bs < 7") (auto simp: div_nat_eqI le_div_geq)
qed simp

lemma bit_byte:
  assumes "length xs = 8" and "q < 8"
  shows "bit (horner_sum of_bool 2 (rev xs) :: u8) (7 - q) = xs ! q"
proof -
  have "7 - q < 8" and "8 - Suc (7 - q) = q" using assms(2) by auto
  then show ?thesis using assms(1) by (simp only: bit_horner_sum_bit_word_iff rev_nth length_rev) simp
qed

lemma stream_bit_pack:
  "q < length bs \<Longrightarrow> stream_bit (pack_bits bs @ rest) q = bs ! q"
proof (induction bs arbitrary: q rule: pack_bits.induct)
  case (2 b bs)
  show ?case
  proof (cases "q < 8")
    case True
    then have d: "q div 8 = 0" "q mod 8 = q" by auto
    have "stream_bit (pack_bits (b # bs) @ rest) q \<longleftrightarrow> take 8 ((b # bs) @ replicate 7 False) ! q"
      using bit_byte [of "take 8 ((b # bs) @ replicate 7 False)" q] True
      by (simp add: stream_bit_def d del: rev_append take_append)
    also have "\<dots> = (b # bs) ! q"
      using True "2.prems" by (subst nth_take) (auto simp: nth_append nth_Cons' less_Suc_eq)
    finally show ?thesis .
  next
    case False
    then have q: "q div 8 = Suc ((q - 8) div 8)" "q mod 8 = (q - 8) mod 8"
      by (auto simp: le_div_geq le_mod_geq)
    have "stream_bit (pack_bits (b # bs) @ rest) q = stream_bit (pack_bits (drop 7 bs) @ rest) (q - 8)"
      by (simp add: stream_bit_def q)
    also have "\<dots> = drop 7 bs ! (q - 8)"
      using "2.prems" False by (intro "2.IH") auto
    also have "\<dots> = (b # bs) ! q" using False "2.prems" by (simp add: nth_Cons')
    finally show ?thesis .
  qed
qed simp

lemma stream_word_pack:
  assumes "p + n \<le> length bs"
  shows "stream_word (pack_bits bs @ rest) p n = horner_sum of_bool 2 (rev (take n (drop p bs)))"
proof -
  have "map (stream_bit (pack_bits bs @ rest)) [p..<p + n] = take n (drop p bs)"
    using assms by (intro nth_equalityI) (simp_all add: stream_bit_pack)
  then show ?thesis by (simp add: stream_word_def)
qed

lemma horner_bits_of_word:
  "horner_sum of_bool 2 (rev (bits_of_word 16 (w :: u16))) = (ucast w :: u32)"
proof -
  have "map (bit w) [0..<16] = map (bit (ucast w :: u32)) [0..<16]"
    by (rule map_cong) (auto simp: bit_simps)
  then show ?thesis
    by (simp only: bits_of_word_def rev_map rev_rev_ident horner_sum_bit_eq_take_bit)
       (rule bit_word_eqI, auto simp: bit_simps dest: bit_imp_le_length)
qed

lemma sign_extended_16: "SIGN_EXTENDED32 (ucast (w :: u16)) 16 = Some (scast w)"
  by (simp add: SIGN_EXTENDED32_def)
     (rule bit_word_eqI, auto simp: bit_simps)

lemma ucast_scast_16 [simp]: "ucast (scast (w :: u16) :: i32) = w"
  by (rule bit_word_eqI) (auto simp: bit_simps)

lemma nth_sample_bits:
  assumes "k < length ss"
  shows "take 16 (drop (32 * k) (sample_bits ss)) = bits_of_word 16 (fst (ss ! k))"
    and "take 16 (drop (32 * k + 16) (sample_bits ss)) = bits_of_word 16 (snd (ss ! k))"
  using assms
proof (induction ss arbitrary: k)
  case (Cons s ss)
  case 1
  with Cons.IH(1) show ?case by (cases k) (auto simp: sample_bits_def split: prod.splits)
next
  case (Cons s ss)
  case 2
  with Cons.IH(2) show ?case
    by (cases k) (auto simp: sample_bits_def add.commute [of 16] split: prod.splits)
qed simp_all

subsection \<open>The loops\<close>

lemma to_bit_frame [simp]:
  "setinfo_sample_size (to_bit p alac) = setinfo_sample_size alac"
  "outputsamples_buffer_a (to_bit p alac) = outputsamples_buffer_a alac"
  "outputsamples_buffer_b (to_bit p alac) = outputsamples_buffer_b alac"
  by (simp_all add: to_bit_def)

text \<open>The stream at bit \<open>p\<close> holds the samples \<open>ss\<close>, with room for the look-ahead of the reader.\<close>

definition samples_at :: "bytes \<Rightarrow> nat \<Rightarrow> (u16 \<times> u16) list \<Rightarrow> bool" where
  "samples_at bs p ss \<longleftrightarrow>
     (\<forall>k < length ss. stream_word bs (p + 32 * k) 16 = ucast (fst (ss ! k)) \<and>
                      stream_word bs (p + 32 * k + 16) 16 = ucast (snd (ss ! k))) \<and>
     (ss \<noteq> [] \<longrightarrow> (p + 32 * length ss - 16) div 8 + 2 < length bs)"

lemma samples_at_Cons:
  assumes "samples_at bs p (s # ss)"
  shows "stream_word bs p 16 = ucast (fst s)" and "stream_word bs (p + 16) 16 = ucast (snd s)"
    and "(p + 16) div 8 + 2 < length bs" and "p div 8 + 2 < length bs"
    and "samples_at bs (p + 32) ss"
proof -
  have all: "stream_word bs (p + 32 * k) 16 = ucast (fst ((s # ss) ! k)) \<and>
      stream_word bs (p + 32 * k + 16) 16 = ucast (snd ((s # ss) ! k))" if "k < Suc (length ss)" for k
    using assms that by (simp add: samples_at_def)
  have room: "(p + 32 * Suc (length ss) - 16) div 8 + 2 < length bs"
    using assms by (simp add: samples_at_def)
  from all [of 0] show "stream_word bs p 16 = ucast (fst s)" "stream_word bs (p + 16) 16 = ucast (snd s)"
    by simp_all
  have "(p + 16) div 8 \<le> (p + 32 * Suc (length ss) - 16) div 8" by (rule div_le_mono) simp
  with room show "(p + 16) div 8 + 2 < length bs" by linarith
  moreover have "p div 8 \<le> (p + 16) div 8" by (rule div_le_mono) simp
  ultimately show "p div 8 + 2 < length bs" by linarith
  from all [of "Suc k" for k] room show "samples_at bs (p + 32) ss"
    by (auto simp: samples_at_def algebra_simps)
qed

lemma read_raw_sample_stream:
  assumes "at_bit alac p" and "setinfo_sample_size alac = 16"
    and "stream_word (input_buffer alac) p 16 = ucast (w :: u16)"
    and "p div 8 + 2 < length (input_buffer alac)"
  shows "read_raw_sample alac = Some (scast w, to_bit (p + 16) alac)"
  using readbits_stream [OF assms(1), of 16] assms(2-4)
  by (simp add: read_raw_sample_def sign_extended_16)

definition store_samples :: "nat \<Rightarrow> (u16 \<times> u16) list \<Rightarrow> alac_file \<Rightarrow> alac_file" where
  "store_samples i ss alac =
     alac\<lparr>outputsamples_buffer_a := take i (outputsamples_buffer_a alac) @ map (scast \<circ> fst) ss
              @ drop (i + length ss) (outputsamples_buffer_a alac),
          outputsamples_buffer_b := take i (outputsamples_buffer_b alac) @ map (scast \<circ> snd) ss
              @ drop (i + length ss) (outputsamples_buffer_b alac)\<rparr>"

lemma store_samples_frame [simp]:
  "input_buffer (store_samples i ss alac) = input_buffer alac"
  "setinfo_sample_size (store_samples i ss alac) = setinfo_sample_size alac"
  "at_bit (store_samples i ss alac) p \<longleftrightarrow> at_bit alac p"
  by (simp_all add: store_samples_def at_bit_def)

lemma raw_step_stereo_stream:
  assumes "at_bit alac p" and "setinfo_sample_size alac = 16"
    and "samples_at (input_buffer alac) p (s # ss)"
    and "i < length (outputsamples_buffer_a alac)" and "i < length (outputsamples_buffer_b alac)"
  shows "raw_step_stereo i alac = Some (to_bit (p + 32) (store_samples i [s] alac))"
proof -
  note sa = samples_at_Cons [OF assms(3)]
  have "read_raw_sample (to_bit (p + 16) alac) = Some (scast (snd s), to_bit (p + 32) alac)"
  proof -
    have "read_raw_sample (to_bit (p + 16) alac) =
        Some (scast (snd s), to_bit (p + 16 + 16) (to_bit (p + 16) alac))"
      using sa assms(2) by (intro read_raw_sample_stream) auto
    moreover have "p + 16 + 16 = p + 32" by simp
    ultimately show ?thesis by (simp only: to_bit_to_bit)
  qed
  with read_raw_sample_stream [OF assms(1,2) sa(1,4)] assms(4,5) show ?thesis
    by (simp add: raw_step_stereo_def wr_def store_samples_def to_bit_def upd_conv_take_nth_drop)
qed

lemma raw_loop_stream:
  assumes "at_bit alac p" and "setinfo_sample_size alac = 16"
    and "samples_at (input_buffer alac) p ss"
    and "i + length ss \<le> length (outputsamples_buffer_a alac)"
    and "i + length ss \<le> length (outputsamples_buffer_b alac)"
  shows "for_loop i (length ss) raw_step_stereo alac =
      Some (to_bit (p + 32 * length ss) (store_samples i ss alac))"
  using assms
proof (induction ss arbitrary: i p alac)
  case Nil
  then show ?case by (simp add: store_samples_def to_bit_def at_bit_def)
next
  case (Cons s ss)
  let ?alac' = "to_bit (p + 32) (store_samples i [s] alac)"
  have step: "raw_step_stereo i alac = Some ?alac'"
    using Cons.prems by (intro raw_step_stereo_stream) auto
  have "for_loop (Suc i) (length ss) raw_step_stereo ?alac' =
      Some (to_bit (p + 32 + 32 * length ss) (store_samples (Suc i) ss ?alac'))"
    using Cons.prems samples_at_Cons(5) [OF Cons.prems(3)]
    by (intro Cons.IH) (simp_all add: store_samples_def)
  moreover have "to_bit (p + 32 + 32 * length ss) (store_samples (Suc i) ss ?alac') =
      to_bit (p + 32 * length (s # ss)) (store_samples i (s # ss) alac)"
    using Cons.prems(4,5) by (simp add: store_samples_def to_bit_def add.commute [of i] add.assoc)
  ultimately show ?case using step by (simp add: add.assoc)
qed

lemma deinterlace_16_loop:
  assumes "length out \<ge> 4 * (i + length ss)"
    and "\<And>k. k < length ss \<Longrightarrow> rd as (i + k) = Some (scast (fst (ss ! k)))"
    and "\<And>k. k < length ss \<Longrightarrow> rd bs (i + k) = Some (scast (snd (ss ! k)))"
  shows "for_loop i (length ss) (deinterlace_16_step as bs 2 shift 0) out =
      Some (take (4 * i) out @ concat (map le_pair ss) @ drop (4 * (i + length ss)) out)"
  using assms
proof (induction ss arbitrary: i out)
  case Nil
  then show ?case by simp
next
  case (Cons s ss)
  let ?out' = "take (4 * i) out @ le_pair s @ drop (Suc (Suc (Suc (Suc (4 * i))))) out"
  have "deinterlace_16_step as bs 2 shift 0 i out = Some ?out'"
    using Cons.prems(1) Cons.prems(2,3) [of 0]
    by (auto simp: deinterlace_16_step_def put16_def wr_block_def le_pair_def min_def mult.commute [of i])
  moreover have "for_loop (Suc i) (length ss) (deinterlace_16_step as bs 2 shift 0) ?out' =
      Some (take (4 * Suc i) ?out' @ concat (map le_pair ss) @ drop (4 * (Suc i + length ss)) ?out')"
    using Cons.prems(1) Cons.prems(2,3) [of "Suc k" for k]
    by (intro Cons.IH) (auto simp: le_pair_def)
  moreover have "length (le_pair s) = 4" by (simp add: le_pair_def)
  moreover have "drop (Suc (Suc (Suc (Suc (i * 4 + length ss * 4))))) out
      = drop (4 + (i * 4 + length ss * 4)) out"
    by (rule arg_cong [where f = "\<lambda>k. drop k out"]) simp
  ultimately show ?case using Cons.prems(1) by (simp add: algebra_simps)
qed

section \<open>A whole raw frame\<close>

text \<open>A decoder set up for 16-bit stereo, with buffers for \<open>n\<close> samples.\<close>

definition stereo_16 :: "nat \<Rightarrow> alac_file \<Rightarrow> bool" where
  "stereo_16 n alac \<longleftrightarrow>
     setinfo_sample_size alac = 16 \<and> numchannels alac = 2 \<and> bytespersample alac = 4 \<and>
     unat (setinfo_max_samples_per_frame alac) = n \<and>
     length (outputsamples_buffer_a alac) = n \<and> length (outputsamples_buffer_b alac) = n"

lemma stereo_16_frame [simp]:
  "stereo_16 n (to_bit p alac) = stereo_16 n alac"
  "stereo_16 n (alac\<lparr>input_buffer := bs, input_pos := q, input_buffer_bitaccumulator := a\<rparr>) = stereo_16 n alac"
  by (simp_all add: stereo_16_def to_bit_def)

lemma output_size_16:
  assumes "stereo_16 n alac" and "n < 2 ^ 29"
  shows "output_size (setinfo_max_samples_per_frame alac) alac = 4 * int n"
proof -
  let ?w = "setinfo_max_samples_per_frame alac"
  have n: "unat ?w = n" and b: "bytespersample alac = 4" using assms(1) by (auto simp: stereo_16_def)
  have "unat (?w * 4) = 4 * n" using n assms(2) by (simp add: unat_word_ariths)
  moreover have "4 * n < 2 ^ 31" using assms(2) by simp
  ultimately have "sint (?w * 4) = int (4 * n)"
    by (subst sint_small) auto
  then show ?thesis by (simp add: output_size_def b)
qed

lemma length_encode_raw_frame: "length (encode_raw_frame ss) = 4 * length ss + 5"
  by (simp add: encode_raw_frame_def length_pack_bits)

lemma samples_at_encode: "samples_at (encode_raw_frame ss) 23 ss"
proof -
  let ?E = "raw_header_bits @ sample_bits ss"
  have sw: "stream_word (encode_raw_frame ss) (23 + m) 16 =
      horner_sum of_bool 2 (rev (take 16 (drop m (sample_bits ss))))" if "m + 16 \<le> 32 * length ss" for m
    using stream_word_pack [of "23 + m" 16 ?E "[0, 0]"] that by (simp add: encode_raw_frame_def)
  have "stream_word (encode_raw_frame ss) (23 + 32 * k) 16 = ucast (fst (ss ! k)) \<and>
      stream_word (encode_raw_frame ss) (23 + 32 * k + 16) 16 = ucast (snd (ss ! k))"
    if "k < length ss" for k
    using sw [of "32 * k"] sw [of "32 * k + 16"] that nth_sample_bits [OF that]
    by (simp add: horner_bits_of_word add.assoc)
  moreover have "(23 + 32 * length ss - 16) div 8 = 4 * length ss"
    by (simp add: div_nat_eqI)
  ultimately show ?thesis by (simp add: samples_at_def length_encode_raw_frame)
qed

lemma horner_replicate_False [simp]:
  "horner_sum of_bool 2 (replicate n False) = (0 :: 'a::len word)"
  by (induction n) auto

lemma header_word:
  "p + n \<le> 23 \<Longrightarrow> stream_word (encode_raw_frame ss) p n =
     horner_sum of_bool 2 (rev (take n (drop p raw_header_bits)))"
  using stream_word_pack [of p n "raw_header_bits @ sample_bits ss" "[0, 0]"]
  by (simp add: encode_raw_frame_def)

lemma read_header_bits:
  assumes "at_bit alac p" and "input_buffer alac = encode_raw_frame ss" and "p + n \<le> 23" and "n \<le> 16"
  shows "readbits (int n) alac =
     Some (horner_sum of_bool 2 (rev (take n (drop p raw_header_bits))), to_bit (p + n) alac)"
proof -
  have "p div 8 \<le> 2" using assms(3) by (simp add: div_le_mono less_Suc_eq_le [symmetric] div_less_iff_less_mult)
  then show ?thesis
    using readbits_stream [OF assms(1), of n] assms(2-4)
    by (simp add: length_encode_raw_frame header_word)
qed

lemma read_frame_header_raw:
  assumes "at_bit alac 3" and "input_buffer alac = encode_raw_frame ss"
  shows "read_frame_header alac =
     Some (\<lparr>hassize = False, uncompressed_bytes = 0, isnotcompressed = True\<rparr>, to_bit 23 alac)"
proof -
  have r1: "readbits 4 alac = Some (0, to_bit 7 alac)"
    using read_header_bits [OF assms, of 4] by (simp add: raw_header_bits_def)
  have r2: "readbits 12 (to_bit 7 alac) = Some (0, to_bit 19 alac)"
    using read_header_bits [of "to_bit 7 alac" 7 ss 12] assms(2)
    by (simp add: raw_header_bits_def eval_nat_numeral)
  have r3: "readbits 1 (to_bit 19 alac) = Some (0, to_bit 20 alac)"
    using read_header_bits [of "to_bit 19 alac" 19 ss 1] assms(2)
    by (simp add: raw_header_bits_def eval_nat_numeral)
  have r4: "readbits 2 (to_bit 20 alac) = Some (0, to_bit 22 alac)"
    using read_header_bits [of "to_bit 20 alac" 20 ss 2] assms(2)
    by (simp add: raw_header_bits_def eval_nat_numeral)
  have r5: "readbits 1 (to_bit 22 alac) = Some (1, to_bit 23 alac)"
    using read_header_bits [of "to_bit 22 alac" 22 ss 1] assms(2)
    by (simp add: raw_header_bits_def eval_nat_numeral)
  show ?thesis by (simp add: read_frame_header_def r1 r2 r3 r4 r5)
qed

lemma frame_body_raw:
  assumes "stereo_16 (length ss) alac" and "length ss < 2 ^ 29" and "at_bit alac 3"
    and "input_buffer alac = encode_raw_frame ss"
    and "4 * length ss \<le> length out" and "4 * int (length ss) \<le> room"
  shows "\<exists>alac'. frame_body True alac out room =
     Some (alac', concat (map le_pair ss) @ drop (4 * length ss) out, 4 * int (length ss))"
proof -
  let ?n = "length ss" and ?a = "to_bit 23 alac"
  let ?b = "to_bit (23 + 32 * ?n) (store_samples 0 ss ?a)"
  have st: "stereo_16 ?n ?a" using assms(1) by simp
  have n: "sint (setinfo_max_samples_per_frame alac) = int ?n"
    using assms(1,2) by (subst sint_small) (auto simp: stereo_16_def)
  have bufs: "length (outputsamples_buffer_a ?a) = ?n" "length (outputsamples_buffer_b ?a) = ?n"
    "setinfo_sample_size ?a = 16"
    using st by (auto simp: stereo_16_def)
  have loop: "for_loop 0 ?n raw_step_stereo ?a = Some ?b"
    using raw_loop_stream [of ?a 23 ss 0] samples_at_encode [of ss] bufs assms(4) by simp
  have out: "for_loop 0 ?n (deinterlace_16_step (outputsamples_buffer_a ?b)
      (outputsamples_buffer_b ?b) 2 0 0) out =
      Some (concat (map le_pair ss) @ drop (4 * ?n) out)"
    using deinterlace_16_loop [of 0 ss out "outputsamples_buffer_a ?b" "outputsamples_buffer_b ?b" 0]
      assms(5) bufs
    by (simp add: store_samples_def rd_def)
  have "setinfo_sample_size ?b = 16" "numchannels ?b = 2"
    using st by (simp_all add: stereo_16_def store_samples_def to_bit_def)
  with out have written: "write_stereo 0 (int ?n) 0 0 ?b out =
      Some (concat (map le_pair ss) @ drop (4 * ?n) out)"
    by (simp only: write_stereo_def deinterlace_16_def Let_def nat_int if_True) simp
  have max: "setinfo_max_samples_per_frame ?a = setinfo_max_samples_per_frame alac"
    by (simp add: to_bit_def)
  have "frame_body True alac out room =
      Some (?b, concat (map le_pair ss) @ drop (4 * ?n) out, 4 * int ?n)"
    using read_frame_header_raw [OF assms(3,4)] output_size_16 [OF st assms(2)] assms(6)
      loop written
    by (simp add: frame_body_def frame_samples_def max n decode_stereo_samples_def Let_def)
  then show ?thesis by blast
qed

lemma decode_raw_frame:
  assumes "stereo_16 (length ss) alac" and "length ss < 2 ^ 29"
    and "4 * length ss \<le> length out" and "4 * int (length ss) \<le> room"
  shows "\<exists>alac'. alac_decode_frame alac (encode_raw_frame ss) out room =
     Some (alac', concat (map le_pair ss) @ drop (4 * length ss) out, 4 * int (length ss))"
proof -
  let ?a = "alac\<lparr>input_buffer := encode_raw_frame ss, input_pos := 0, input_buffer_bitaccumulator := 0\<rparr>"
  have "at_bit ?a 0" by (simp add: at_bit_def)
  from read_header_bits [OF this, of ss 3]
  have ch: "readbits 3 ?a = Some (1, to_bit 3 ?a)" by (simp add: raw_header_bits_def eval_nat_numeral)
  have st: "stereo_16 (length ss) (to_bit 3 ?a)" using assms(1) by simp
  have "alac_decode_frame alac (encode_raw_frame ss) out room =
      frame_body True (to_bit 3 ?a) out room"
    using ch output_size_16 [OF st assms(2)] assms(4) by (simp add: alac_decode_frame_def)
  then show ?thesis using frame_body_raw [OF st assms(2) _ _ assms(3,4)] by simp
qed

section \<open>Leaving the buffers\<close>

subsection \<open>A sample count whose size overflows\<close>

definition stereo_buffers :: "nat \<Rightarrow> alac_file \<Rightarrow> bool" where
  "stereo_buffers n alac \<longleftrightarrow>
     length (outputsamples_buffer_a alac) = n \<and> length (outputsamples_buffer_b alac) = n"

lemma move_bits_buffers [simp]: "stereo_buffers n (move_bits alac k) = stereo_buffers n alac"
  by (simp add: stereo_buffers_def move_bits_def)

lemma readbits_16_buffers:
  "readbits_16 k alac = Some (v, alac') \<Longrightarrow> stereo_buffers n alac' = stereo_buffers n alac"
  by (auto simp: readbits_16_def Let_def bind_eq_Some_conv split: if_splits)

lemma readbits_buffers:
  "readbits k alac = Some (v, alac') \<Longrightarrow> stereo_buffers n alac' = stereo_buffers n alac"
  by (auto simp: readbits_def bind_eq_Some_conv dest!: readbits_16_buffers split: if_splits)

lemma read_raw_sample_buffers:
  "read_raw_sample alac = Some (v, alac') \<Longrightarrow> stereo_buffers n alac' = stereo_buffers n alac"
  by (auto simp: read_raw_sample_def Let_def bind_eq_Some_conv dest!: readbits_buffers split: if_splits)

lemma raw_step_stereo_buffers:
  assumes "stereo_buffers n alac"
  shows "raw_step_stereo i alac = Some alac' \<Longrightarrow> stereo_buffers n alac'"
    and "raw_step_stereo n alac = None"
proof -
  have "stereo_buffers n alac2"
    if "read_raw_sample alac = Some (v, alac1)" "read_raw_sample alac1 = Some (w, alac2)"
    for v w alac1 alac2
    using that assms read_raw_sample_buffers by metis
  then show "raw_step_stereo i alac = Some alac' \<Longrightarrow> stereo_buffers n alac'"
    and "raw_step_stereo n alac = None"
    by (fastforce simp: raw_step_stereo_def bind_eq_Some_conv wr_def stereo_buffers_def
          split: if_splits option.splits Option.bind_splits)+
qed

text \<open>The first bytes of a raw stereo frame that announces \<open>2 ^ 30\<close> samples.\<close>

definition huge_frame :: bytes where
  "huge_frame = [0x20, 0, 0x12, 0x80, 0, 0, 0]"

lemma huge_frame_header:
  assumes "at_bit alac 3" and "input_buffer alac = huge_frame @ rest"
  shows "read_frame_header alac =
     Some (\<lparr>hassize = True, uncompressed_bytes = 0, isnotcompressed = True\<rparr>, to_bit 23 alac)"
  using assms
  by (simp add: read_frame_header_def readbits_def readbits_16_def in_byte_def at_bit_def
        huge_frame_def rd_def move_bits_def to_bit_def Let_def)

lemma huge_frame_count:
  assumes "at_bit alac 23" and "input_buffer alac = huge_frame @ rest" and "rest \<noteq> []"
  shows "readbits 32 alac = Some (0x40000000, to_bit 55 alac)"
  using assms
  by (cases rest) (simp_all add: readbits_def readbits_16_def in_byte_def at_bit_def huge_frame_def
        rd_def move_bits_def to_bit_def Let_def)

lemma huge_frame_decode:
  assumes "stereo_16 n alac" and "n < 2 ^ 29" and "4 * int n \<le> room" and "rest \<noteq> []"
  shows "alac_decode_frame alac (huge_frame @ rest) out room = None"
proof -
  let ?bs = "huge_frame @ rest"
  let ?a = "alac\<lparr>input_buffer := ?bs, input_pos := 0, input_buffer_bitaccumulator := 0\<rparr>"
  have ch: "readbits 3 ?a = Some (1, to_bit 3 ?a)"
    by (simp add: readbits_def readbits_16_def in_byte_def huge_frame_def rd_def move_bits_def
          to_bit_def Let_def)
  have st: "stereo_16 n (to_bit 3 ?a)" using assms(1) by simp
  have hd: "read_frame_header (to_bit 3 ?a) =
      Some (\<lparr>hassize = True, uncompressed_bytes = 0, isnotcompressed = True\<rparr>, to_bit 23 ?a)"
    using huge_frame_header [of "to_bit 3 ?a" rest] by simp
  have count: "readbits 32 (to_bit 23 ?a) = Some (0x40000000, to_bit 55 ?a)"
    using huge_frame_count [of "to_bit 23 ?a" rest] assms(4) by simp
  have os: "output_size 0x40000000 (to_bit 55 ?a) = 0"
    using assms(1) by (simp add: output_size_def stereo_16_def to_bit_def)
  have "stereo_buffers n (to_bit 55 ?a)"
    using assms(1) by (simp add: stereo_buffers_def stereo_16_def to_bit_def)
  moreover have "n < 0 + 2 ^ 30"
    using assms(2) by (rule less_trans) simp
  ultimately have "for_loop 0 (2 ^ 30) raw_step_stereo (to_bit 55 ?a) = None"
    using for_loop_fails_at [of 0 n "2 ^ 30" "stereo_buffers n", OF le0] raw_step_stereo_buffers
    by blast
  then have "decode_stereo_samples \<lparr>hassize = True, uncompressed_bytes = 0, isnotcompressed = True\<rparr>
      0x40000000 (to_bit 55 ?a) = None"
    by (simp add: decode_stereo_samples_def Let_def del: for_loop.simps)
  then have "frame_body True (to_bit 3 ?a) out room = None"
    using assms(3) by (simp add: frame_body_def hd frame_samples_def count os)
  then show ?thesis
    using ch output_size_16 [OF st assms(2)] assms(3) by (simp add: alac_decode_frame_def)
qed

subsection \<open>A run of zeros that is longer than the frame\<close>

text \<open>The bits 0, nine ones and the run length \<open>0xFFFF\<close>.\<close>

definition zero_run :: bytes where
  "zero_run = [0x7F, 0xFF, 0xFF, 0xFF, 0xFF, 0xFF]"

lemma zero_run_bits:
  "stream_bit (zero_run @ rest) 0 = False"
  "0 < j \<Longrightarrow> j < 48 \<Longrightarrow> stream_bit (zero_run @ rest) j = True"
proof -
  have ff: "bit (0xFF :: u8) k" if "k < 8" for k
  proof -
    have m8: "(0xFF :: u8) = mask 8" by (simp add: mask_eq_exp_minus_1)
    show ?thesis unfolding m8 bit_mask_iff using that by simp
  qed
  show "stream_bit (zero_run @ rest) 0 = False"
    by (simp add: stream_bit_def zero_run_def)
  assume j: "0 < j" "j < 48"
  show "stream_bit (zero_run @ rest) j = True"
  proof (cases "j < 8")
    case True
    have m7: "(0x7F :: u8) = mask 7" by (simp add: mask_eq_exp_minus_1)
    have "7 - j < 7" using j by simp
    then show ?thesis using True j unfolding stream_bit_def zero_run_def
      by (simp add: m7 bit_mask_iff del: mask_numeral)
  next
    case False
    then obtain e where e: "j div 8 = Suc e" by (metis div_eq_0_iff not0_implies_Suc zero_neq_numeral)
    moreover have "j div 8 < 6" using j by (simp add: less_mult_imp_div_less)
    ultimately have "e < 5" by simp
    then have "(zero_run @ rest) ! (j div 8) = 0xFF"
      unfolding e zero_run_def by (auto simp: less_Suc_eq numeral_eq_Suc)
    then show ?thesis unfolding stream_bit_def using ff [of "7 - j mod 8"] by simp
  qed
qed

lemma rice_prefix_ones:
  assumes "at_bit alac p" and "\<And>j. j < n \<Longrightarrow> stream_bit (input_buffer alac) (p + j)"
    and "n = 0 \<or> (p + (n - 1)) div 8 < length (input_buffer alac)"
  shows "rice_prefix n x alac = Some (x + n, to_bit (p + n) alac)"
  using assms
proof (induction n arbitrary: p x alac)
  case (Suc n)
  have "p div 8 \<le> (p + n) div 8" by (simp add: div_le_mono)
  then have here: "readbit alac = Some (True, to_bit (p + 1) alac)"
    using readbit_stream [OF Suc.prems(1)] Suc.prems(2) [of 0] Suc.prems(3) by simp
  have "rice_prefix n (Suc x) (to_bit (p + 1) alac) = Some (Suc x + n, to_bit (p + 1 + n) alac)"
    using Suc.IH [of "to_bit (p + 1) alac" "p + 1" "Suc x"] Suc.prems(2) [of "Suc _"] Suc.prems(3)
    by (cases n) simp_all
  then show ?case by (simp add: here)
qed (simp add: to_bit_same)

lemma zero_run_values:
  assumes "at_bit alac 0" and "input_buffer alac = zero_run @ rest"
  shows "entropy_decode_value rss 1 0xFFFFFFFF alac = Some (0, to_bit 1 alac)"
    and "entropy_decode_value 16 4 msk (to_bit 1 alac) = Some (0xFFFF, to_bit 26 alac)"
proof -
  have len: "6 \<le> length (zero_run @ rest)" by (simp add: zero_run_def)
  have "readbit alac = Some (False, to_bit 1 alac)"
    using readbit_stream [OF assms(1)] zero_run_bits(1) [of rest]
    by (simp add: assms(2) zero_run_def)
  then have "rice_prefix (Suc 8) 0 alac = Some (0, to_bit 1 alac)"
    by (simp only: rice_prefix.simps option.case prod.case if_False)
  then show "entropy_decode_value rss 1 0xFFFFFFFF alac = Some (0, to_bit 1 alac)"
    by (simp add: entropy_decode_value_def del: rice_prefix.simps)
  have ones: "rice_prefix 9 0 (to_bit 1 alac) = Some (9, to_bit 10 alac)"
    using rice_prefix_ones [of "to_bit 1 alac" 1 9 0] zero_run_bits(2) [of _ rest] len
    by (simp add: assms(2))
  have "stream_word (zero_run @ rest) 10 16 = mask 16"
    by (rule bit_word_eqI) (auto simp: bit_stream_word bit_mask_iff zero_run_bits(2))
  then have w: "stream_word (zero_run @ rest) 10 16 = 0xFFFF"
    by (simp add: mask_eq_exp_minus_1)
  have "readbits 16 (to_bit 10 alac) = Some (0xFFFF, to_bit 26 alac)"
    using readbits_stream [of "to_bit 10 alac" 10 16] len w by (simp add: assms(2))
  then show "entropy_decode_value 16 4 msk (to_bit 1 alac) = Some (0xFFFF, to_bit 26 alac)"
    using ones by (simp add: entropy_decode_value_def)
qed

lemma clz_loop_numeral [simp]:
  "clz_loop (numeral w) x i =
     (if 0x80000000 AND x = 0 then clz_loop (pred_numeral w) (push_bit 1 x) (i + 1) else i)"
  by (simp add: numeral_eq_Suc)

lemma zero_run_decode:
  assumes "at_bit alac 0" and "input_buffer alac = zero_run @ rest"
    and "2 \<le> n" and "n \<le> length buf" and "length buf \<le> 0xFFFF"
  shows "entropy_rice_decode buf (int n) rss 10 14 40 0x3fff alac = None"
proof -
  have k: "rice_k 10 14 = Some 1"
    by (simp add: rice_k_def count_leading_zeros_def Let_def)
  have v: "rice_value 0 = 0"
    by (simp add: rice_value_def c_div_def)
  have h: "rice_history 10 0 40 = 10"
    by (simp add: rice_history_def)
  have z: "count_leading_zeros 10 = Some 28"
    by (simp add: count_leading_zeros_def)
  have d: "c_div 26 64 = 0" by (simp add: c_div_def)
  have o: "wr_block (buf[0 := 0]) (Suc 0) (replicate 65535 0) = None"
    using assms(5) by (simp add: wr_block_def)
  have run: "entropy_decode_value 16 4 16383 (to_bit (Suc 0) alac) = Some (0xFFFF, to_bit 26 alac)"
    using zero_run_values(2) [OF assms(1,2)] by simp
  have w: "wr buf 0 0 = Some (buf[0 := 0])"
    using assms(3,4) by (auto simp: wr_def)
  show ?thesis
    using assms(3) zero_run_values(1) [OF assms(1,2), of rss]
    by (simp add: entropy_rice_decode_def entropy_rice_loop.simps [of "int n" _ _ _ _ 0] k h z v w d run o)
qed

section \<open>The properties of the decoder\<close>

text \<open>
  \<open>readbits\<close>: at bit \<open>p\<close> of the stream, with the bytes the reader looks at in the block, up to
  32 bits are returned as the number they spell, most significant bit first, the reader stands
  behind them, and \<open>unreadbits\<close> takes it back.
\<close>

lemma readbits_reads_stream:
  assumes "at_bit alac p" and "n \<le> 32"
    and "(p + (if n \<le> 16 then 0 else 16)) div 8 + 2 < length (input_buffer alac)"
  shows "\<exists>w alac'. readbits (int n) alac = Some (w, alac') \<and> at_bit alac' (p + n) \<and>
     (\<forall>i. bit w i = (i < n \<and> stream_bit (input_buffer alac) (p + n - 1 - i))) \<and>
     unreadbits (int n) alac' = alac"
proof -
  have "unreadbits (int n) (to_bit (p + n) alac) = alac"
    using unreadbits_stream [of "to_bit (p + n) alac" "p + n" n] to_bit_same [OF assms(1)] by simp
  moreover have "bit (stream_word (input_buffer alac) p n) i \<longleftrightarrow>
      i < n \<and> stream_bit (input_buffer alac) (p + n - 1 - i)" for i
    using assms(2) by (auto simp: bit_stream_word)
  ultimately show ?thesis using readbits_stream [OF assms] by auto
qed

definition sample_reader :: alac_file where
  "sample_reader = to_bit 5 ((alac_create 16 2)\<lparr>input_buffer := [0xA5, 0x0F, 0x33, 0xFF]\<rparr>)"

lemma readbits_reads_stream_witness:
  "\<exists>w alac'. readbits 9 sample_reader = Some (w, alac') \<and> at_bit alac' 14 \<and>
     (\<forall>i. bit w i = (i < 9 \<and> stream_bit (input_buffer sample_reader) (13 - i))) \<and>
     unreadbits 9 alac' = sample_reader"
  using readbits_reads_stream [of sample_reader 5 9] by (simp add: sample_reader_def alac_create_def)

text \<open>
  A 16-bit stereo frame that is stored uncompressed decodes to exactly its samples: the output
  block starts with the little-endian sample pairs of the frame in order, is untouched behind
  them, and the reported size is four bytes per pair.
\<close>

lemma raw_frame_roundtrip:
  assumes "stereo_16 (length ss) alac" and "length ss < 2 ^ 29"
    and "4 * length ss \<le> length out" and "4 * int (length ss) \<le> room"
  shows "\<exists>alac'. alac_decode_frame alac (encode_raw_frame ss) out room =
     Some (alac', concat (map le_pair ss) @ drop (4 * length ss) out, 4 * int (length ss))"
  using assms by (rule decode_raw_frame)

definition small_decoder :: "nat \<Rightarrow> alac_file" where
  "small_decoder n = alac_allocate_buffers
     ((alac_create 16 2)\<lparr>setinfo_max_samples_per_frame := of_nat n, setinfo_sample_size := 16\<rparr>)"

lemma raw_frame_roundtrip_witness:
  "\<exists>alac'. alac_decode_frame (small_decoder 2) (encode_raw_frame [(1, 2), (3, 4)])
       [9, 9, 9, 9, 9, 9, 9, 9, 7] 8 =
     Some (alac', [1, 0, 2, 0, 3, 0, 4, 0, 7], 8)"
  using raw_frame_roundtrip [of "[(1, 2), (3, 4)]" "small_decoder 2"
      "[9, 9, 9, 9, 9, 9, 9, 9, 7]" 8]
  by (simp add: small_decoder_def stereo_16_def alac_create_def alac_allocate_buffers_def le_pair_def)

text \<open>
  The size check of \<open>alac_decode_frame\<close> can be passed by overflow: a seven-byte header that
  announces \<open>2 ^ 30\<close> samples makes the byte count \<open>int\<close>-overflow to 0, which is not larger than the
  room, and the sample loop then leaves the buffers whatever bytes follow.
\<close>

lemma huge_frame_overflows:
  assumes "stereo_16 n alac" and "n < 2 ^ 29" and "4 * int n \<le> room" and "rest \<noteq> []"
  shows "alac_decode_frame alac (huge_frame @ rest) out room = None"
  using assms by (rule huge_frame_decode)

lemma huge_frame_overflows_witness:
  "alac_decode_frame (small_decoder 4) (huge_frame @ [1]) [] 16 = None"
  using huge_frame_overflows [of 4 "small_decoder 4" 16 "[1]" "[]"]
  by (simp add: small_decoder_def stereo_16_def alac_create_def alac_allocate_buffers_def)

text \<open>
  \<open>entropy_rice_decode\<close> does not compare the length of a run of zeros with the frame: with the
  usual parameters (history 10, modifier 14, multiplier 40) a stream that starts with a zero value
  and announces a run of 65535 writes outside every buffer of at most 65535 samples.
\<close>

lemma zero_run_overflows:
  assumes "at_bit alac 0" and "input_buffer alac = zero_run @ rest"
    and "2 \<le> n" and "n \<le> length buf" and "length buf \<le> 0xFFFF"
  shows "entropy_rice_decode buf (int n) rss 10 14 40 0x3fff alac = None"
  using assms by (rule zero_run_decode)

lemma zero_run_overflows_witness:
  "entropy_rice_decode [0, 0, 0] 3 17 10 14 40 0x3fff
     ((alac_create 16 2)\<lparr>input_buffer := zero_run @ [0, 0]\<rparr>) = None"
  using zero_run_overflows [of "(alac_create 16 2)\<lparr>input_buffer := zero_run @ [0, 0]\<rparr>" "[0, 0]" 3 "[0, 0, 0]" 17]
  by (simp add: at_bit_def alac_create_def)

end
