(* ===== verification/Alac_Predictor.thy ===== *)
theory Alac_Predictor
  imports Alac
begin

text \<open>
  The adaptive predictor of \<open>alac.c\<close> restores what its encoder removed. The encoder is not part of
  the program; it is defined here from the decoder's own sum and adaptation, and the theorem says that
  the decoder inverts it for every order, quantisation and coefficient table.
\<close>

section \<open>The encoder of the predictor\<close>

definition fir_predict :: "i32 list \<Rightarrow> u16 list \<Rightarrow> nat \<Rightarrow> nat \<Rightarrow> nat \<Rightarrow> i32 option" where
  "fir_predict samples coefs b num q =
     do { sum \<leftarrow> fir_sum samples coefs b num 0 0 num;
          base \<leftarrow> rd samples b;
          Some (signed_drop_bit q (push_bit (q - 1) 1 + sum) + base) }"

definition fir_adapted :: "i32 list \<Rightarrow> u16 list \<Rightarrow> nat \<Rightarrow> nat \<Rightarrow> nat \<Rightarrow> i32 \<Rightarrow> u16 list option" where
  "fir_adapted samples coefs b num q e =
     (if 0 < sint e then fir_adapt samples b num q 1 e coefs num
      else if sint e < 0 then fir_adapt samples b num q (- 1) e coefs num else Some coefs)"

fun fir_errors :: "i32 list \<Rightarrow> int \<Rightarrow> nat \<Rightarrow> nat \<Rightarrow> nat \<Rightarrow> u16 list \<Rightarrow> nat \<Rightarrow> i32 list option" where
  "fir_errors samples rss num q i coefs 0 = Some []"
| "fir_errors samples rss num q i coefs (Suc n) =
     do { p \<leftarrow> fir_predict samples coefs (i - (num + 1)) num q;
          s \<leftarrow> rd samples i;
          e \<leftarrow> SIGN_EXTENDED32 (s - p) rss;
          coefs \<leftarrow> fir_adapted samples coefs (i - (num + 1)) num q e;
          es \<leftarrow> fir_errors samples rss num q (Suc i) coefs n;
          Some (e # es) }"

fun delta_errors :: "i32 list \<Rightarrow> int \<Rightarrow> nat \<Rightarrow> nat \<Rightarrow> i32 list option" where
  "delta_errors samples rss i 0 = Some []"
| "delta_errors samples rss i (Suc n) =
     do { p \<leftarrow> rd samples i;
          s \<leftarrow> rd samples (i + 1);
          e \<leftarrow> SIGN_EXTENDED32 (s - p) rss;
          es \<leftarrow> delta_errors samples rss (Suc i) n;
          Some (e # es) }"

definition predictor_compress ::
    "i32 list \<Rightarrow> int \<Rightarrow> u16 list \<Rightarrow> nat \<Rightarrow> nat \<Rightarrow> i32 list option" where
  "predictor_compress samples rss coefs num q =
     do { s0 \<leftarrow> rd samples 0;
          if num = 0 then Some samples
          else if num = 0x1f then do { es \<leftarrow> delta_errors samples rss 0 (length samples - 1); Some (s0 # es) }
          else do { ds \<leftarrow> delta_errors samples rss 0 num;
                    es \<leftarrow> fir_errors samples rss num q (num + 1) coefs (length samples - num - 1);
                    Some (s0 # ds @ es) } }"

section \<open>One step\<close>

definition fits :: "int \<Rightarrow> i32 \<Rightarrow> bool" where
  "fits rss s \<longleftrightarrow> SIGN_EXTENDED32 s rss = Some s"

lemma SIGN_EXTENDED32_total: "1 \<le> rss \<Longrightarrow> rss \<le> 32 \<Longrightarrow> \<exists>e. SIGN_EXTENDED32 v rss = Some e"
  by (simp add: SIGN_EXTENDED32_def)

lemma push_signed_drop_bit: "push_bit m (signed_drop_bit m (push_bit m v)) = push_bit m (v :: i32)"
  by (rule bit_word_eqI) (auto simp: bit_simps not_le)

lemma push_bit_sum:
  "push_bit m (a + b) = push_bit m a + push_bit m (b :: i32)"
  "push_bit m (a - b) = push_bit m a - push_bit m (b :: i32)"
  by (simp_all add: push_bit_eq_mult algebra_simps)

lemma sign_extended_restores:
  assumes "fits rss s" and "SIGN_EXTENDED32 (s - p) rss = Some e"
  shows "SIGN_EXTENDED32 (p + e) rss = Some s"
proof -
  let ?m = "nat (32 - rss)"
  have r: "0 \<le> 32 - rss" "32 - rss \<le> 31"
    using assms(2) by (auto simp: SIGN_EXTENDED32_def split: if_splits)
  then have e: "e = signed_drop_bit ?m (push_bit ?m (s - p))"
    using assms(2) by (simp add: SIGN_EXTENDED32_def split: if_splits)
  have "push_bit ?m (p + e) = push_bit ?m s"
    unfolding e by (simp only: push_bit_sum(1) push_signed_drop_bit) (simp only: push_bit_sum(2), simp)
  then show ?thesis using assms(1) by (simp add: fits_def SIGN_EXTENDED32_def split: if_splits)
qed

lemma rd_take_cong: "take i xs = take i ys \<Longrightarrow> i \<le> length xs \<Longrightarrow> i \<le> length ys \<Longrightarrow> k < i \<Longrightarrow> rd xs k = rd ys k"
  by (metis nth_take order_less_le_trans rd_def)

lemma fir_sum_cong:
  assumes "take i xs = take i ys" "i \<le> length xs" "i \<le> length ys" "b + num < i"
  shows "fir_sum xs coefs b num j acc n = fir_sum ys coefs b num j acc n"
  using rd_take_cong [OF assms(1-3)] assms(4)
  by (induction n arbitrary: j acc) (auto intro!: Option.bind_cong)

lemma fir_adapt_cong:
  assumes "take i xs = take i ys" "i \<le> length xs" "i \<le> length ys" "b + num < i"
  shows "fir_adapt xs b num q dir e coefs n = fir_adapt ys b num q dir e coefs n"
  using rd_take_cong [OF assms(1-3)] assms(4)
  by (induction n arbitrary: e coefs) (auto simp: Let_def intro!: Option.bind_cong)

lemma take_Suc_wr:
  "take i xs = take i ys \<Longrightarrow> i < length xs \<Longrightarrow> i < length ys \<Longrightarrow> take (Suc i) (ys[i := xs ! i]) = take (Suc i) xs"
  by (simp add: take_Suc_conv_app_nth)

section \<open>The loops\<close>

lemma delta_restores:
  assumes "delta_errors samples rss i n = Some es" and "take (Suc i) bo = take (Suc i) samples"
    and "i + n < length samples" and "length samples \<le> length bo"
    and "\<And>s. s \<in> set samples \<Longrightarrow> fits rss s"
    and "\<And>k. k < n \<Longrightarrow> rd E (Suc i + k) = Some (es ! k)"
  shows "for_loop i n (fir_delta E rss) bo =
           Some (take (Suc (i + n)) samples @ drop (Suc (i + n)) bo) \<and> length es = n"
  using assms
proof (induction n arbitrary: i bo es)
  case 0
  then show ?case using append_take_drop_id [of "Suc i" bo] by simp
next
  case (Suc n)
  from Suc.prems(1,3) obtain e es' where
    e: "SIGN_EXTENDED32 (samples ! (i + 1) - samples ! i) rss = Some e"
    and es': "delta_errors samples rss (Suc i) n = Some es'" and es: "es = e # es'"
    by (auto simp: bind_eq_Some_conv rd_def split: if_splits)
  have len: "Suc i < length bo" "Suc i < length samples" using Suc.prems(3,4) by auto
  have prev: "rd bo i = Some (samples ! i)"
    using rd_take_cong [OF Suc.prems(2), of i] len by (simp add: rd_def)
  let ?bo = "bo[Suc i := samples ! Suc i]"
  have step: "fir_delta E rss i bo = Some ?bo"
    using Suc.prems(6) [of 0] prev e len es
      sign_extended_restores [OF Suc.prems(5) e] nth_mem [OF len(2)]
    by (simp add: fir_delta_def wr_def)
  have "take (Suc (Suc i)) ?bo = take (Suc (Suc i)) samples"
    using take_Suc_wr [of "Suc i" samples bo] Suc.prems(2) len by simp
  then have "for_loop (Suc i) n (fir_delta E rss) ?bo =
      Some (take (Suc (Suc i + n)) samples @ drop (Suc (Suc i + n)) ?bo) \<and> length es' = n"
    using Suc.IH [OF es', of ?bo] Suc.prems(3-5) Suc.prems(6) [of "Suc _"] es by simp
  then show ?case by (simp add: step es)
qed

lemma fir_step_restores:
  assumes "i < length samples" "length samples \<le> length bo" "take i bo = take i samples"
    and "num + 1 \<le> i" "q \<noteq> 0" "fits rss (samples ! i)"
    and "fir_predict samples coefs (i - (num + 1)) num q = Some p"
    and "SIGN_EXTENDED32 (samples ! i - p) rss = Some e"
    and "fir_adapted samples coefs (i - (num + 1)) num q e = Some coefs'"
    and "rd E i = Some e"
  shows "fir_general E rss num q i (bo, coefs) = Some (bo[i := samples ! i], coefs')"
proof -
  define b where "b = i - (num + 1)"
  have b: "i - Suc num = b" "i - (num + 1) = b" "b + num < i" "Suc (b + num) = i"
    using assms(4) by (auto simp: b_def)
  let ?bo = "bo[i := samples ! i]"
  have "take i ?bo = take i samples" using assms(3) by simp
  then have cong: "fir_sum bo coefs b num 0 0 num = fir_sum samples coefs b num 0 0 num"
    "fir_adapt ?bo b num q d e coefs num = fir_adapt samples b num q d e coefs num"
    "rd bo b = rd samples b" for d
    using fir_sum_cong [OF assms(3) _ _ b(3)] fir_adapt_cong [of i ?bo samples, OF _ _ _ b(3)]
      rd_take_cong [OF assms(3), of b] assms(1,2) b(3) by auto
  obtain sum base where sum: "fir_sum samples coefs b num 0 0 num = Some sum" "rd samples b = Some base"
    and p: "p = signed_drop_bit q (push_bit (q - 1) 1 + sum) + base"
    using assms(7) by (auto simp: fir_predict_def bind_eq_Some_conv b)
  have "SIGN_EXTENDED32 (signed_drop_bit q (push_bit (q - 1) 1 + sum) + base + e) rss = Some (samples ! i)"
    using sign_extended_restores [OF assms(6,8)] p by simp
  then show ?thesis
    using assms(1,2,5,9,10)
    by (simp add: fir_general_def cong sum wr_def Let_def fir_adapted_def b split: if_splits)
qed

lemma fir_restores:
  assumes "fir_errors samples rss num q i coefs n = Some es" and "take i bo = take i samples"
    and "i + n \<le> length samples" and "length samples \<le> length bo" and "num + 1 \<le> i" and "q \<noteq> 0"
    and "\<And>s. s \<in> set samples \<Longrightarrow> fits rss s"
    and "\<And>k. k < n \<Longrightarrow> rd E (i + k) = Some (es ! k)"
  shows "\<exists>coefs'. for_loop i n (fir_general E rss num q) (bo, coefs) =
           Some (take (i + n) samples @ drop (i + n) bo, coefs')"
  using assms
proof (induction n arbitrary: i bo es coefs)
  case 0
  then show ?case using append_take_drop_id [of i bo] by simp
next
  case (Suc n)
  have len: "i < length bo" "i < length samples" using Suc.prems(3,4) by auto
  from Suc.prems(1) len obtain p e coefs' es' where
    st: "fir_predict samples coefs (i - (num + 1)) num q = Some p"
      "SIGN_EXTENDED32 (samples ! i - p) rss = Some e"
      "fir_adapted samples coefs (i - (num + 1)) num q e = Some coefs'"
    and es': "fir_errors samples rss num q (Suc i) coefs' n = Some es'" and es: "es = e # es'"
    by (auto simp: bind_eq_Some_conv rd_def)
  let ?bo = "bo[i := samples ! i]"
  have step: "fir_general E rss num q i (bo, coefs) = Some (?bo, coefs')"
    using fir_step_restores [OF len(2) Suc.prems(4,2,5,6) _ st] Suc.prems(7) nth_mem [OF len(2)]
      Suc.prems(8) [of 0] es by simp
  have "take (Suc i) ?bo = take (Suc i) samples"
    using take_Suc_wr [of i samples bo] Suc.prems(2) len by simp
  then have "\<exists>coefs''. for_loop (Suc i) n (fir_general E rss num q) (?bo, coefs') =
      Some (take (Suc i + n) samples @ drop (Suc i + n) ?bo, coefs'')"
    using Suc.IH [OF es', of ?bo] Suc.prems(3-7) Suc.prems(8) [of "Suc _"] es by simp
  then show ?case by (simp add: step)
qed

lemma fir_errors_length: "fir_errors samples rss num q i coefs n = Some es \<Longrightarrow> length es = n"
  by (induction n arbitrary: i coefs es) (auto simp: bind_eq_Some_conv)

lemma delta_errors_length: "delta_errors samples rss i n = Some es \<Longrightarrow> length es = n"
  by (induction n arbitrary: i es) (auto simp: bind_eq_Some_conv)

lemma predictor_restores:
  assumes "predictor_compress samples rss coefs num q = Some es"
    and "\<And>s. s \<in> set samples \<Longrightarrow> fits rss s" and "num < length samples" and "q \<noteq> 0"
    and "length samples \<le> length buf" 
  shows "predictor_decompress_fir_adapt (es @ rest) buf (int (length samples)) rss coefs num q =
           Some (samples @ drop (length samples) buf)"
proof -
  from assms(3) obtain s0 ss where samples: "samples = s0 # ss" by (cases samples) auto
  from assms(5) samples obtain b0 bs where buf: "buf = b0 # bs" by (cases buf) auto
  have rd0: "rd samples 0 = Some s0" "wr buf 0 s0 = Some (s0 # bs)" "rd (s0 # r) 0 = Some s0" for r
    by (simp_all add: samples buf rd_def wr_def)
  have len: "length samples \<le> length (s0 # bs)" using assms(5) buf by simp
  consider "num = 0" | "num = 31" | "num \<noteq> 0" "num \<noteq> 31" by blast
  then show ?thesis
  proof cases
    case 1
    then have "es = samples" using assms(1) rd0 by (simp add: predictor_compress_def)
    then show ?thesis using 1 rd0 assms(5)
      by (auto simp: predictor_decompress_fir_adapt_def samples buf rd_block_def wr_block_def)
  next
    case 2
    then obtain ds where ds: "delta_errors samples rss 0 (length samples - 1) = Some ds"
      and es: "es = s0 # ds"
      using assms(1) rd0 by (auto simp: predictor_compress_def bind_eq_Some_conv)
    have "for_loop 0 (length samples - 1) (fir_delta (es @ rest) rss) (s0 # bs) =
        Some (samples @ drop (length samples) (s0 # bs)) \<and> length ds = length samples - 1"
      using delta_restores [OF ds, of "s0 # bs" "es @ rest"] assms(2,3) len delta_errors_length [OF ds]
      by (simp add: es samples rd_def nth_append)
    then show ?thesis using 2 rd0 es assms(3)
      by (simp add: predictor_decompress_fir_adapt_def buf samples)
  next
    case 3
    then obtain ds fs where ds: "delta_errors samples rss 0 num = Some ds"
      and fs: "fir_errors samples rss num q (num + 1) coefs (length samples - num - 1) = Some fs"
      and es: "es = s0 # ds @ fs"
      using assms(1) rd0 by (auto simp: predictor_compress_def bind_eq_Some_conv)
    note lens = delta_errors_length [OF ds] fir_errors_length [OF fs]
    let ?E = "es @ rest" and ?w = "take (Suc num) samples @ drop (Suc num) (s0 # bs)"
    have warm: "for_loop 0 num (fir_delta ?E rss) (s0 # bs) = Some ?w"
      using delta_restores [OF ds, of "s0 # bs" ?E] assms(2,3) len lens
      by (simp add: es samples rd_def nth_append)
    have lw: "length ?w = length (s0 # bs)" using assms(3) len by simp
    have "\<exists>coefs'. for_loop (num + 1) (length samples - num - 1) (fir_general ?E rss num q) (?w, coefs) =
        Some (take (num + 1 + (length samples - num - 1)) samples @
              drop (num + 1 + (length samples - num - 1)) ?w, coefs')"
      using assms(2-4) len lw lens
      by (intro fir_restores [OF fs]) (simp_all add: es rd_def nth_append)
    moreover have "nat (int (length samples) - int num - 1) = length samples - num - 1" by simp
    ultimately show ?thesis
      using 3 rd0 es warm assms(3) by (auto simp: predictor_decompress_fir_adapt_def buf drop_Cons')
  qed
qed

section \<open>The encoder returns\<close>

lemma fir_sum_total:
  assumes "b + num < length xs" and "num \<le> length coefs" and "j + n \<le> num"
  shows "\<exists>sum. fir_sum xs coefs b num j acc n = Some sum"
  using assms(3) by (induction n arbitrary: j acc) (use assms(1,2) in \<open>auto simp: rd_def\<close>)

lemma fir_adapt_total:
  assumes "b + num < length xs" and "num \<le> length coefs" and "n \<le> num"
  shows "\<exists>coefs'. fir_adapt xs b num q dir e coefs n = Some coefs' \<and> length coefs' = length coefs"
  using assms(2,3)
proof (induction n arbitrary: e coefs)
  case (Suc n)
  from Suc.prems assms(1) have "rd xs b \<noteq> None" "rd xs (b + num - n) \<noteq> None" "n < length coefs"
    by (auto simp: rd_def)
  then show ?case
    using Suc.IH [of "coefs[n := _]"] Suc.prems
    by (auto simp: Let_def wr_def rd_def [of coefs])
qed simp

lemma fir_errors_total:
  assumes "1 \<le> rss" "rss \<le> 32" and "num + 1 \<le> i" and "i + n \<le> length samples"
    and "num \<le> length coefs"
  shows "\<exists>es. fir_errors samples rss num q i coefs n = Some es"
  using assms(3-5)
proof (induction n arbitrary: i coefs)
  case (Suc n)
  have b: "i - (num + 1) + num < length samples" using Suc.prems by auto
  obtain p where p: "fir_predict samples coefs (i - (num + 1)) num q = Some p"
    using fir_sum_total [OF b Suc.prems(3), of 0 num 0] b by (auto simp: fir_predict_def rd_def)
  obtain e where e: "SIGN_EXTENDED32 (samples ! i - p) rss = Some e"
    using SIGN_EXTENDED32_total [OF assms(1,2)] by blast
  obtain coefs' where c: "fir_adapted samples coefs (i - (num + 1)) num q e = Some coefs'"
      "num \<le> length coefs'"
  proof -
    have "\<exists>coefs'. fir_adapted samples coefs (i - (num + 1)) num q e = Some coefs' \<and>
        length coefs' = length coefs"
      using fir_adapt_total [OF b Suc.prems(3) order.refl, of q _ e] by (simp add: fir_adapted_def)
    then show thesis using that Suc.prems(3) by auto
  qed
  obtain es where "fir_errors samples rss num q (Suc i) coefs' n = Some es"
    using Suc.IH [of "Suc i" coefs'] Suc.prems c(2) by auto
  then show ?case using p e c Suc.prems(2) by (simp add: rd_def)
qed simp

lemma delta_errors_total:
  assumes "1 \<le> rss" "rss \<le> 32" and "i + n < length samples"
  shows "\<exists>es. delta_errors samples rss i n = Some es"
  using assms(3)
proof (induction n arbitrary: i)
  case (Suc n)
  obtain e where "SIGN_EXTENDED32 (samples ! Suc i - samples ! i) rss = Some e"
    using SIGN_EXTENDED32_total [OF assms(1,2)] by blast
  then show ?case using Suc.IH [of "Suc i"] Suc.prems by (auto simp: rd_def)
qed simp

lemma predictor_compress_total:
  assumes "1 \<le> rss" "rss \<le> 32" and "num < length samples" and "num \<le> length coefs"
  shows "\<exists>es. predictor_compress samples rss coefs num q = Some es"
  using delta_errors_total [OF assms(1,2), of 0 "length samples - 1" samples]
    delta_errors_total [OF assms(1,2), of 0 num samples]
    fir_errors_total [OF assms(1,2), of num "num + 1" "length samples - num - 1" samples coefs q]
    assms(3,4)
  by (auto simp: predictor_compress_def rd_def)



end
