(* ===== verification/Player_State.thy ===== *)
theory Player_State
  imports Prelude Alac
begin

text \<open>
  The state the player shares between the threads that receive audio and the thread that plays it
  (\<open>player.h\<close>): the ring of decoded packets, its read and write sequence numbers, the flush request
  and the counters. Fields have their C names; \<open>audio_buffer\<close> is the array of \<open>BUFFER_FRAMES\<close> slots.
\<close>

section \<open>The record of a connection\<close>

text \<open>
  A slot: \<open>frame_data\<close> is the block allocated by \<open>init_buffer\<close>, in host (little-endian) byte order,
  and \<open>frame_length\<close> the number of audio frames in it.
\<close>

record abuf =
  ready :: bool
  status :: u8
  resend_request_number :: u16
  frame_data :: bytes
  sequence_number :: u16
  initialisation_time :: u64
  resend_time :: u64
  given_timestamp :: u32
  frame_length :: int

datatype audio_stream_type = Ast_unknown | Ast_uncompressed | Ast_apple_lossless

record rtsp_conn =
  audio_buffer :: "abuf list"
  ab_read :: u16
  ab_write :: u16
  ab_synced :: bool
  ab_buffering :: bool
  last_seqno_read :: int
  stream_type :: audio_stream_type
  stream_encrypted :: bool
  decoder_info :: alac_file
  decoder_in_use :: int
  max_frames_per_packet :: nat
  input_bytes_per_frame :: int
  input_rate :: u32
  latency :: u32
  connection_state_to_output :: int
  packet_count :: u64
  packet_count_since_flush :: u64
  play_number_after_flush :: int
  time_of_last_audio_packet :: u64
  input_frame_rate_starting_point_is_valid :: bool
  frames_inward_measurement_start_time :: u64
  frames_inward_frames_received_at_measurement_start_time :: u32
  frames_inward_measurement_time :: u64
  frames_inward_frames_received_at_measurement_time :: u32
  initial_reference_time :: u64
  initial_reference_timestamp :: u32
  missing_packets :: u64
  late_packets :: u64
  too_late_packets :: u64
  resend_requests :: u64
  flush_requested :: bool
  flush_output_flushed :: bool
  flush_rtp_timestamp :: u32
  first_packet_timestamp :: i64
  first_packet_time_to_play :: u64
  time_since_play_started :: i64

definition BUFFER_FRAMES :: nat where
  "BUFFER_FRAMES = 1024"

definition BUFIDX :: "u16 \<Rightarrow> nat" where
  "BUFIDX seqno = unat seqno mod BUFFER_FRAMES"

text \<open>Access to a slot by sequence number, \<open>conn->audio_buffer + BUFIDX(seqno)\<close>.\<close>

definition slot :: "rtsp_conn \<Rightarrow> u16 \<Rightarrow> abuf" where
  "slot conn seqno = audio_buffer conn ! BUFIDX seqno"

definition set_slot :: "u16 \<Rightarrow> abuf \<Rightarrow> rtsp_conn \<Rightarrow> rtsp_conn" where
  "set_slot seqno a conn = conn\<lparr>audio_buffer := (audio_buffer conn)[BUFIDX seqno := a]\<rparr>"

section \<open>Order of sequence numbers and timestamps\<close>

text \<open>\<open>modulo_32_offset\<close>: the signed distance from one timestamp to another.\<close>

definition modulo_32_offset :: "u32 \<Rightarrow> u32 \<Rightarrow> int" where
  "modulo_32_offset from to' = sint (to' - from)"

definition is_after :: "u16 \<Rightarrow> u16 \<Rightarrow> bool" where
  "is_after a b = (0 < sint (b - a))"

section \<open>Resetting\<close>

definition resync_slot :: "abuf \<Rightarrow> abuf" where
  "resync_slot a =
     a\<lparr> ready := False, resend_request_number := 0, resend_time := 0, initialisation_time := 0,
        sequence_number := 0 \<rparr>"

definition ab_resync :: "rtsp_conn \<Rightarrow> rtsp_conn" where
  "ab_resync conn =
     conn\<lparr> audio_buffer := map resync_slot (audio_buffer conn),
           ab_synced := False, last_seqno_read := - 1, ab_buffering := True \<rparr>"

definition reset_input_flow_metrics :: "rtsp_conn \<Rightarrow> rtsp_conn" where
  "reset_input_flow_metrics conn =
     conn\<lparr> play_number_after_flush := 0, packet_count_since_flush := 0,
           input_frame_rate_starting_point_is_valid := False,
           initial_reference_time := 0, initial_reference_timestamp := 0 \<rparr>"

definition get_audio_buffer_size_and_occupancy :: "rtsp_conn \<Rightarrow> u32 \<times> u32" where
  "get_audio_buffer_size_and_occupancy conn =
     (of_nat BUFFER_FRAMES,
      if ab_synced conn then scast (ab_write conn - ab_read conn) else 0)"

definition do_flush :: "u32 \<Rightarrow> rtsp_conn \<Rightarrow> rtsp_conn" where
  "do_flush timestamp conn =
     reset_input_flow_metrics (conn\<lparr>flush_requested := True, flush_rtp_timestamp := timestamp\<rparr>)"

text \<open>
  \<open>init_buffer\<close> gives every slot a block of 8 bytes per frame of a packet; the other fields of the
  connection, which is allocated zeroed, start at 0.
\<close>

definition empty_slot :: "nat \<Rightarrow> abuf" where
  "empty_slot max_frames =
     \<lparr> ready = False, status = 0, resend_request_number = 0,
       frame_data = replicate (8 * max_frames) 0, sequence_number = 0, initialisation_time = 0,
       resend_time = 0, given_timestamp = 0, frame_length = 0 \<rparr>"

definition init_buffer :: "rtsp_conn \<Rightarrow> rtsp_conn" where
  "init_buffer conn =
     conn\<lparr>audio_buffer := map (\<lambda>a. a\<lparr>frame_data := replicate (8 * max_frames_per_packet conn) 0\<rparr>)
                            (audio_buffer conn)\<rparr>"

text \<open>\<open>init_alac_decoder\<close>: the decoder is configured by the \<open>fmtp\<close> numbers of the announcement.\<close>

definition init_alac_decoder :: "int list \<Rightarrow> int \<Rightarrow> int \<Rightarrow> rtsp_conn \<Rightarrow> rtsp_conn" where
  "init_alac_decoder fmtp input_bit_depth input_num_channels conn =
     (let alac = alac_create input_bit_depth input_num_channels;
          alac = alac\<lparr> setinfo_max_samples_per_frame := of_nat (max_frames_per_packet conn),
                       setinfo_7a := word_of_int (fmtp ! 2),
                       setinfo_sample_size := word_of_int input_bit_depth,
                       setinfo_rice_historymult := word_of_int (fmtp ! 4),
                       setinfo_rice_initialhistory := word_of_int (fmtp ! 5),
                       setinfo_rice_kmodifier := word_of_int (fmtp ! 6),
                       setinfo_7f := word_of_int (fmtp ! 7),
                       setinfo_80 := word_of_int (fmtp ! 8),
                       setinfo_82 := word_of_int (fmtp ! 9),
                       setinfo_86 := word_of_int (fmtp ! 10),
                       setinfo_8a_rate := word_of_int (fmtp ! 11) \<rparr>
      in conn\<lparr>decoder_info := alac_allocate_buffers alac\<rparr>)"

section \<open>Facts about slots\<close>

lemma BUFIDX_lt [simp]: "BUFIDX s < BUFFER_FRAMES"
  by (simp add: BUFIDX_def BUFFER_FRAMES_def)

lemma BUFIDX_lt_1024 [simp]: "BUFIDX s < 1024"
  by (simp add: BUFIDX_def BUFFER_FRAMES_def)

lemma set_slot_fields [simp]:
  "ab_read (set_slot s a conn) = ab_read conn"
  "ab_write (set_slot s a conn) = ab_write conn"
  "ab_synced (set_slot s a conn) = ab_synced conn"
  "max_frames_per_packet (set_slot s a conn) = max_frames_per_packet conn"
  "length (audio_buffer (set_slot s a conn)) = length (audio_buffer conn)"
  by (simp_all add: set_slot_def)

lemma slot_set_slot:
  "length (audio_buffer conn) = BUFFER_FRAMES \<Longrightarrow>
   slot (set_slot s a conn) t = (if BUFIDX s = BUFIDX t then a else slot conn t)"
  by (simp add: slot_def set_slot_def)

text \<open>Two sequence numbers less than 1024 apart have different slots.\<close>

lemma BUFIDX_offset: "BUFIDX (r + of_nat i) = (unat r + i) mod BUFFER_FRAMES"
proof -
  have "unat (r + of_nat i) = (unat r + i) mod 65536"
    by (simp add: unat_word_ariths unat_of_nat mod_add_right_eq)
  then show ?thesis by (simp add: BUFIDX_def BUFFER_FRAMES_def mod_mod_cancel)
qed

lemma BUFIDX_eq_near:
  assumes "i < 1024" and "j < 1024"
  shows "BUFIDX (r + of_nat i) = BUFIDX (r + of_nat j) \<longleftrightarrow> i = j"
proof -
  have "k = l" if "(a + k) mod 1024 = (a + l) mod 1024" "k \<le> l" "l < 1024" for a k l :: nat
    using mod_eq_dvd_iff_nat [of "a + k" "a + l" 1024] that nat_dvd_not_less [of "l - k" 1024] by fastforce
  then have "(a + i) mod 1024 = (a + j) mod 1024 \<longleftrightarrow> i = j" for a :: nat
    using assms by (metis nat_le_linear)
  then show ?thesis by (simp only: BUFIDX_offset BUFFER_FRAMES_def)
qed

section \<open>The invariant of the ring\<close>

text \<open>All 1024 slots exist and each holds the block that was allocated for it.\<close>

definition buffer_ok :: "rtsp_conn \<Rightarrow> bool" where
  "buffer_ok conn \<longleftrightarrow>
     length (audio_buffer conn) = BUFFER_FRAMES \<and>
     (\<forall>a\<in>set (audio_buffer conn). length (frame_data a) = 8 * max_frames_per_packet conn)"

lemma buffer_ok_length: "buffer_ok conn \<Longrightarrow> length (audio_buffer conn) = BUFFER_FRAMES"
  by (simp add: buffer_ok_def)

lemma slot_data_length:
  "buffer_ok conn \<Longrightarrow> length (frame_data (slot conn s)) = 8 * max_frames_per_packet conn"
  by (auto simp: buffer_ok_def slot_def)

lemma buffer_ok_set_slot:
  "buffer_ok conn \<Longrightarrow> length (frame_data a) = 8 * max_frames_per_packet conn \<Longrightarrow>
   buffer_ok (set_slot s a conn)"
  by (auto simp: buffer_ok_def set_slot_def dest: set_update_subset_insert [THEN subsetD])

lemma buffer_ok_resync: "buffer_ok conn \<Longrightarrow> buffer_ok (ab_resync conn)"
  by (auto simp: buffer_ok_def ab_resync_def resync_slot_def)

lemma buffer_ok_cong:
  "audio_buffer conn' = audio_buffer conn \<Longrightarrow>
   max_frames_per_packet conn' = max_frames_per_packet conn \<Longrightarrow> buffer_ok conn' = buffer_ok conn"
  by (simp add: buffer_ok_def)

text \<open>\<open>is_after\<close> is the order on the circle: \<open>b\<close> is 1 to 32767 steps ahead of \<open>a\<close>.\<close>

lemma sint16_pos: "0 < sint (d :: u16) \<longleftrightarrow> 0 < unat d \<and> unat d < 32768"
proof -
  define k where "k = unat d"
  have "k < 65536" using unsigned_less [of d, where ?'a = nat] by (simp add: k_def)
  moreover have "sint d = (if k < 32768 then int k else int k - 65536)"
    using sint_small [of d] sint_large [of d] by (simp add: k_def not_less)
  ultimately show ?thesis unfolding k_def [symmetric] by auto
qed

lemma is_after_iff: "is_after a b \<longleftrightarrow> 0 < unat (b - a) \<and> unat (b - a) < 32768"
  by (simp add: is_after_def sint16_pos)

lemma is_after_offset:
  "i < 65536 \<Longrightarrow> is_after a (a + of_nat i) \<longleftrightarrow> 0 < i \<and> i < 32768"
  by (simp add: is_after_iff unat_of_nat)

end
