(* ===== verification/Player_Input.thy ===== *)
theory Player_Input
  imports Player_State
begin

text \<open>
  \<open>player_put_packet\<close> and the decoding of a packet (\<open>player.c\<close>): where a packet goes by its sequence
  number, what its slot holds afterwards, how missing packets are marked and which are asked for
  again. A request to the sender is a pair (first sequence number, count) in a list, in the order in
  which \<open>rtp_request_resend\<close> is called; the mutex is released around that call, and the model has
  nothing else running there. \<open>None\<close> is undefined behaviour of the C code or its \<open>die\<close>.
\<close>

section \<open>Decoding\<close>

text \<open>
  What the player takes from outside: the AES decryption of whole blocks with the key and the
  initialisation vector of the session, and what the packet array on the stack held before.
\<close>

record player_env =
  aes_cbc_decrypt :: "bytes \<Rightarrow> bytes"
  stack_packet :: bytes

definition MAX_PACKET :: nat where
  "MAX_PACKET = 2048"

text \<open>The loop that turns big-endian samples to host order.\<close>

definition swap_step :: "bytes \<Rightarrow> nat \<Rightarrow> bytes \<Rightarrow> bytes option" where
  "swap_step packet i dest =
     do { hi \<leftarrow> rd packet (2 * i);
          lo \<leftarrow> rd packet (2 * i + 1);
          wr_block dest (2 * i) [lo, hi] }"

definition unencrypted_packet_decode ::
    "bytes \<Rightarrow> int \<Rightarrow> bytes \<Rightarrow> int \<Rightarrow> int \<Rightarrow> rtsp_conn \<Rightarrow> (bytes \<times> int \<times> rtsp_conn) option" where
  "unencrypted_packet_decode packet len dest outsize size_limit conn =
     (case stream_type conn of
        Ast_apple_lossless \<Rightarrow>
          do { let conn = conn\<lparr>decoder_in_use := 1\<rparr>;
               (alac, dest, outsize) \<leftarrow> alac_decode_frame (decoder_info conn) packet dest outsize;
               Some (dest, outsize, conn\<lparr>decoder_info := alac\<rparr>) }
      | Ast_uncompressed \<Rightarrow>
          do { let length_to_use = (if size_limit < len then size_limit else len);
               dest \<leftarrow> for_loop 0 (nat (c_div length_to_use 2)) (swap_step packet) dest;
               Some (dest, length_to_use, conn) }
      | Ast_unknown \<Rightarrow> Some (dest, outsize, conn))"

definition int_product :: "int \<Rightarrow> int \<Rightarrow> int option" where
  "int_product a b = (if - (2 ^ 31) \<le> a * b \<and> a * b < 2 ^ 31 then Some (a * b) else None)"

text \<open>
  The result is the block, the number of frames and the conn, with \<open>True\<close> for the reply 0. An
  encrypted packet is decrypted up to its last whole AES block; the rest is in clear.
\<close>

definition plain_packet :: "player_env \<Rightarrow> bytes \<Rightarrow> nat \<Rightarrow> bytes option" where
  "plain_packet env buf len =
     do { let aeslen = len - len mod 16;
          cipher \<leftarrow> rd_block buf 0 aeslen;
          packet \<leftarrow> wr_block (stack_packet env) 0 (aes_cbc_decrypt env cipher);
          tail \<leftarrow> rd_block buf aeslen (len - aeslen);
          wr_block packet aeslen tail }"

definition audio_packet_decode ::
    "player_env \<Rightarrow> bytes \<Rightarrow> int \<Rightarrow> bytes \<Rightarrow> int \<Rightarrow> rtsp_conn \<Rightarrow> (bool \<times> bytes \<times> int \<times> rtsp_conn) option" where
  "audio_packet_decode env dest destlen buf len conn =
     (if int MAX_PACKET < len then Some (False, dest, destlen, conn)
      else do { outsize \<leftarrow> int_product (input_bytes_per_frame conn) destlen;
                let maximum_possible_outsize = outsize;
                (dest, outsize, conn) \<leftarrow>
                  (if stream_encrypted conn
                   then if len < 0 then None
                        else do { packet \<leftarrow> plain_packet env buf (nat len);
                                  unencrypted_packet_decode packet len dest outsize
                                    maximum_possible_outsize conn }
                   else unencrypted_packet_decode buf len dest outsize maximum_possible_outsize conn);
                if input_bytes_per_frame conn = 0 then None
                else Some (outsize \<le> maximum_possible_outsize, dest,
                           c_div outsize (input_bytes_per_frame conn), conn) })"

section \<open>Placing a packet\<close>

definition missing_slot :: "u64 \<Rightarrow> abuf \<Rightarrow> abuf" where
  "missing_slot time_now a =
     a\<lparr> ready := False, resend_request_number := 0, initialisation_time := time_now, status := 1,
        resend_time := 0, given_timestamp := 0, sequence_number := 0 \<rparr>"

text \<open>The loop over the gap: \<open>n\<close> sequence numbers from \<open>s\<close> on are marked as missing.\<close>

fun mark_missing :: "nat \<Rightarrow> u16 \<Rightarrow> u64 \<Rightarrow> rtsp_conn \<Rightarrow> rtsp_conn" where
  "mark_missing 0 s time_now conn = conn"
| "mark_missing (Suc n) s time_now conn =
     mark_missing n (s + 1) time_now (set_slot s (missing_slot time_now (slot conn s)) conn)"

definition expected_packet :: "u64 \<Rightarrow> u32 \<Rightarrow> u16 \<Rightarrow> rtsp_conn \<Rightarrow> rtsp_conn" where
  "expected_packet time_now actual_timestamp seqno conn =
     (let conn = (if \<not> input_frame_rate_starting_point_is_valid conn
                     \<and> 500 \<le> packet_count_since_flush conn \<and> packet_count_since_flush conn \<le> 510
                  then conn\<lparr> frames_inward_measurement_start_time := time_now,
                             frames_inward_frames_received_at_measurement_start_time := actual_timestamp,
                             input_frame_rate_starting_point_is_valid := True \<rparr>
                  else conn)
      in conn\<lparr> frames_inward_measurement_time := time_now,
               frames_inward_frames_received_at_measurement_time := actual_timestamp,
               ab_write := seqno + 1 \<rparr>)"

text \<open>
  The slot that takes the packet, if any. The gap is an \<open>int\<close>: both operands of the subtraction are
  promoted before it.
\<close>

definition gap_size :: "u16 \<Rightarrow> u16 \<Rightarrow> int" where
  "gap_size seqno wr_seq = uint seqno - uint wr_seq"

definition place_packet ::
    "u64 \<Rightarrow> u32 \<Rightarrow> u16 \<Rightarrow> rtsp_conn \<Rightarrow> rtsp_conn \<times> u16 option" where
  "place_packet time_now actual_timestamp seqno conn =
     (if ab_write conn = seqno
      then (expected_packet time_now actual_timestamp seqno conn, Some seqno)
      else if is_after (ab_write conn) seqno
      then (let conn = mark_missing (nat (gap_size seqno (ab_write conn))) (ab_write conn) time_now conn
            in (conn\<lparr>ab_write := seqno + 1\<rparr>, Some seqno))
      else if is_after (ab_read conn) seqno
      then (conn\<lparr>late_packets := late_packets conn + 1\<rparr>, Some seqno)
      else (conn\<lparr>too_late_packets := too_late_packets conn + 1\<rparr>, None))"

definition received_slot :: "u16 \<Rightarrow> u32 \<Rightarrow> int \<Rightarrow> bytes \<Rightarrow> abuf \<Rightarrow> abuf" where
  "received_slot seqno actual_timestamp datalen dat a =
     a\<lparr> frame_data := dat, ready := True, status := 0, frame_length := datalen,
        given_timestamp := actual_timestamp, sequence_number := seqno \<rparr>"

definition bad_slot :: "bytes \<Rightarrow> abuf \<Rightarrow> abuf" where
  "bad_slot dat a =
     a\<lparr> frame_data := dat, ready := False, status := 2, resend_request_number := 0,
        given_timestamp := 0, sequence_number := 0 \<rparr>"

definition store_packet ::
    "player_env \<Rightarrow> bool \<Rightarrow> u64 \<Rightarrow> u16 \<Rightarrow> u32 \<Rightarrow> bytes \<Rightarrow> int \<Rightarrow> rtsp_conn \<Rightarrow> rtsp_conn option" where
  "store_packet env original_format time_now seqno actual_timestamp dat len conn =
     (let abuf = (slot conn seqno)\<lparr>initialisation_time := time_now, resend_time := 0\<rparr> in
      if original_format
      then do { (good, decoded, datalen, conn) \<leftarrow>
                  audio_packet_decode env (frame_data abuf) (int (max_frames_per_packet conn)) dat len conn;
                Some (set_slot seqno
                        (if good then received_slot seqno actual_timestamp datalen decoded abuf
                         else bad_slot decoded abuf) conn) }
      else do { n \<leftarrow> int_product len (input_bytes_per_frame conn);
                if n < 0 then None
                else do { src \<leftarrow> rd_block dat 0 (nat n);
                          copied \<leftarrow> wr_block (frame_data abuf) 0 src;
                          Some (set_slot seqno
                                  (received_slot seqno actual_timestamp len copied abuf) conn) } })"

section \<open>Asking for missing packets\<close>

text \<open>
  The three waiting times of the configuration in nanoseconds, and the switch that turns requests
  off. \<open>first_missing\<close> is the global \<open>first_possibly_missing_frame\<close>, with \<open>None\<close> for -1.
\<close>

record resend_config =
  minimum_wait_time :: u64
  resend_repeat_interval :: u64
  minimum_remaining_time :: u64
  disable_resend_requests :: bool

record resend_scan_state =
  scan_conn :: rtsp_conn
  first_missing :: "u16 option"
  run_start :: "u16 option"
  run_count :: nat
  missing_count :: nat
  requests :: "(u16 \<times> nat) list"

definition set_flag :: "u8 \<Rightarrow> bool \<Rightarrow> u8 \<Rightarrow> u8" where
  "set_flag m b v = (if b then v OR m else v AND (0xFF - m))"

definition slot_too_late :: "resend_config \<Rightarrow> u64 \<Rightarrow> u64 \<Rightarrow> abuf \<Rightarrow> bool" where
  "slot_too_late cfg time_now latency_time a \<longleftrightarrow>
     initialisation_time a < time_now - latency_time \<or>
     initialisation_time a - (time_now - latency_time) < minimum_remaining_time cfg"

definition slot_too_early :: "resend_config \<Rightarrow> u64 \<Rightarrow> abuf \<Rightarrow> bool" where
  "slot_too_early cfg time_now a \<longleftrightarrow> time_now - initialisation_time a < minimum_wait_time cfg"

definition slot_too_soon :: "resend_config \<Rightarrow> u64 \<Rightarrow> abuf \<Rightarrow> bool" where
  "slot_too_soon cfg time_now a \<longleftrightarrow>
     resend_time a \<noteq> 0 \<and> time_now - resend_time a < resend_repeat_interval cfg"

definition slot_due :: "resend_config \<Rightarrow> u64 \<Rightarrow> u64 \<Rightarrow> abuf \<Rightarrow> bool" where
  "slot_due cfg time_now latency_time a \<longleftrightarrow>
     \<not> slot_too_soon cfg time_now a \<and> \<not> slot_too_late cfg time_now latency_time a \<and>
     \<not> slot_too_early cfg time_now a"

definition flagged :: "resend_config \<Rightarrow> u64 \<Rightarrow> u64 \<Rightarrow> abuf \<Rightarrow> abuf" where
  "flagged cfg time_now latency_time a =
     a\<lparr>status := set_flag 16 (slot_too_soon cfg time_now a)
                  (set_flag 8 (slot_too_early cfg time_now a)
                    (set_flag 4 (slot_too_late cfg time_now latency_time a) (status a)))\<rparr>"

definition check_missing ::
    "resend_config \<Rightarrow> u64 \<Rightarrow> u64 \<Rightarrow> u16 \<Rightarrow> resend_scan_state \<Rightarrow> resend_scan_state" where
  "check_missing cfg time_now latency_time x st =
     (let a = slot (scan_conn st) x;
          st = st\<lparr> first_missing := (case first_missing st of None \<Rightarrow> Some x | f \<Rightarrow> f),
                   missing_count := Suc (missing_count st) \<rparr>;
          a' = flagged cfg time_now latency_time a
      in if slot_due cfg time_now latency_time a
         then (let a' = a'\<lparr>resend_time := time_now,
                           resend_request_number := resend_request_number a + 1\<rparr>
               in st\<lparr> scan_conn := set_slot x a' (scan_conn st),
                      run_count := (if run_start st = None then 1 else Suc (run_count st)),
                      run_start := (case run_start st of None \<Rightarrow> Some x | r \<Rightarrow> r) \<rparr>)
         else st\<lparr>scan_conn := set_slot x a' (scan_conn st)\<rparr>)"

definition send_run :: "resend_config \<Rightarrow> resend_scan_state \<Rightarrow> resend_scan_state" where
  "send_run cfg st =
     (let st = (case run_start st of
                  None \<Rightarrow> st
                | Some s \<Rightarrow>
                    if disable_resend_requests cfg then st
                    else st\<lparr> requests := requests st @ [(s, run_count st)],
                             scan_conn := (scan_conn st)\<lparr>resend_requests :=
                                              resend_requests (scan_conn st) + 1\<rparr> \<rparr>)
      in st\<lparr>run_start := None, run_count := 0\<rparr>)"

text \<open>
  One turn of the scan. The test after the increment looks at the slot that was checked and at the
  sequence number that comes next.
\<close>

definition scan_step ::
    "resend_config \<Rightarrow> u64 \<Rightarrow> u64 \<Rightarrow> u16 \<Rightarrow> resend_scan_state \<Rightarrow> resend_scan_state" where
  "scan_step cfg time_now latency_time x st =
     (let rdy = ready (slot (scan_conn st) x);
          st = (if rdy then st else check_missing cfg time_now latency_time x st)
      in if (rdy \<or> x + 1 = ab_write (scan_conn st)) \<and> 0 < run_count st then send_run cfg st else st)"

text \<open>
  The scan runs from \<open>x\<close> to the write pointer, around the end of the sequence numbers if need be; the
  distance between the two falls by one at each turn.
\<close>

lemma unat_step_less: "x \<noteq> w \<Longrightarrow> unat (w - (x + 1)) < unat (w - (x :: u16))"
proof -
  assume "x \<noteq> w"
  then have "w - x \<noteq> 0" by simp
  then have "unat (w - x - 1) < unat (w - x)"
    by (metis unat_minus_one unat_gt_0 diff_less zero_less_one)
  then show ?thesis by (simp add: algebra_simps)
qed

function resend_scan ::
    "resend_config \<Rightarrow> u64 \<Rightarrow> u64 \<Rightarrow> u16 \<Rightarrow> u16 \<Rightarrow> resend_scan_state \<Rightarrow> resend_scan_state" where
  "resend_scan cfg time_now latency_time wr_seq x st =
     (if x = wr_seq then st
      else resend_scan cfg time_now latency_time wr_seq (x + 1)
             (scan_step cfg time_now latency_time x st))"
  by pat_completeness auto
termination
  by (relation "measure (\<lambda>(cfg, t, l, w, x, st). unat (w - x))") (simp_all add: unat_step_less)

declare resend_scan.simps [simp del]

definition scan_start :: "u16 option \<Rightarrow> rtsp_conn \<Rightarrow> u16" where
  "scan_start fpm conn =
     (case fpm of
        None \<Rightarrow> ab_read conn
      | Some f \<Rightarrow>
          let buffer_size = sint (ab_write conn - ab_read conn);
              position_in_buffer = sint (f - ab_read conn)
          in if 0 \<le> buffer_size \<and> 0 \<le> position_in_buffer \<and> position_in_buffer < buffer_size
             then f else ab_read conn)"

definition resend_checks ::
    "resend_config \<Rightarrow> u64 \<Rightarrow> u16 option \<Rightarrow> rtsp_conn \<Rightarrow>
     (rtsp_conn \<times> u16 option \<times> (u16 \<times> nat) list) option" where
  "resend_checks cfg time_now fpm conn =
     (if input_rate conn = 0 then None
      else let latency_time = (ucast (latency conn) * 1000000000) div ucast (input_rate conn);
               st = resend_scan cfg time_now latency_time (ab_write conn) (scan_start fpm conn)
                      \<lparr> scan_conn = conn, first_missing = None, run_start = None, run_count = 0,
                        missing_count = 0, requests = [] \<rparr>
           in Some (scan_conn st,
                    if missing_count st = 0 then Some (ab_write (scan_conn st)) else first_missing st,
                    requests st))"

section \<open>The operation\<close>

definition arrival :: "u64 \<Rightarrow> rtsp_conn \<Rightarrow> rtsp_conn" where
  "arrival time_now conn =
     (let conn = (if packet_count conn = 0
                  then conn\<lparr>flush_requested := False, flush_rtp_timestamp := 0\<rparr> else conn)
      in conn\<lparr> packet_count := packet_count conn + 1,
               packet_count_since_flush := packet_count_since_flush conn + 1,
               time_of_last_audio_packet := time_now \<rparr>)"

definition synced_by :: "u16 \<Rightarrow> rtsp_conn \<Rightarrow> rtsp_conn" where
  "synced_by seqno conn =
     (if ab_synced conn then conn
      else conn\<lparr> ab_write := seqno, ab_read := seqno, ab_synced := True, first_packet_timestamp := 0 \<rparr>)"

definition player_put_packet ::
    "player_env \<Rightarrow> resend_config \<Rightarrow> u64 \<Rightarrow> bool \<Rightarrow> u16 \<Rightarrow> u32 \<Rightarrow> bytes \<Rightarrow> int \<Rightarrow> u16 option \<Rightarrow> rtsp_conn \<Rightarrow>
     (rtsp_conn \<times> u16 option \<times> (u16 \<times> nat) list) option" where
  "player_put_packet env cfg time_now original_format seqno actual_timestamp dat len fpm conn =
     (let conn = arrival time_now conn in
      if connection_state_to_output conn = 0 then Some (conn, fpm, [])
      else do { let seqno = (if ab_synced conn \<and> \<not> original_format then ab_write conn else seqno);
                let conn = synced_by seqno conn;
                let (conn, place) = place_packet time_now actual_timestamp seqno conn;
                conn \<leftarrow> (case place of
                          None \<Rightarrow> Some conn
                        | Some s \<Rightarrow> store_packet env original_format time_now s actual_timestamp dat len conn);
                resend_checks cfg time_now fpm conn })"

end
