(* ===== verification/Player_Ring.thy ===== *)
theory Player_Ring
  imports Player_Input
begin

text \<open>
  The ring of the player as a queue. \<open>pending\<close> is the list of what the slots from the read to the
  write pointer hold, a missing packet being \<open>None\<close>. The theorems say what \<open>player_put_packet\<close> does
  to that list in each of its branches, and which packets it asks for again.
\<close>

section \<open>What is in the ring\<close>

type_synonym packet_view = "u16 \<times> u32 \<times> int \<times> bytes"

definition slot_view :: "abuf \<Rightarrow> packet_view option" where
  "slot_view a =
     (if ready a then Some (sequence_number a, given_timestamp a, frame_length a, frame_data a) else None)"

definition occupancy :: "rtsp_conn \<Rightarrow> nat" where
  "occupancy conn = unat (ab_write conn - ab_read conn)"

definition view_at :: "rtsp_conn \<Rightarrow> u16 \<Rightarrow> packet_view option" where
  "view_at conn s = slot_view (slot conn s)"

definition pending :: "rtsp_conn \<Rightarrow> packet_view option list" where
  "pending conn = map (\<lambda>i. view_at conn (ab_read conn + of_nat i)) [0..<occupancy conn]"

lemma length_pending [simp]: "length (pending conn) = occupancy conn"
  by (simp add: pending_def)

lemma write_is_read_plus: "ab_write conn = ab_read conn + of_nat (occupancy conn)"
  by (simp add: occupancy_def)

lemma occupancy_lt: "occupancy conn < 65536"
  using unsigned_less [of "ab_write conn - ab_read conn", where ?'a = nat] by (simp add: occupancy_def)

lemma occupancy_set_write:
  "n < 65536 \<Longrightarrow> occupancy (conn\<lparr>ab_write := ab_read conn + of_nat n\<rparr>) = n"
  by (simp add: occupancy_def unat_of_nat)

lemma view_at_set_slot:
  "length (audio_buffer conn) = BUFFER_FRAMES \<Longrightarrow>
   view_at (set_slot s a conn) t = (if BUFIDX s = BUFIDX t then slot_view a else view_at conn t)"
  by (simp add: view_at_def slot_set_slot)

lemma view_at_cong: "audio_buffer conn' = audio_buffer conn \<Longrightarrow> view_at conn' s = view_at conn s"
  by (simp add: view_at_def slot_def)

section \<open>Changes that leave the ring alone\<close>

text \<open>
  \<open>same_ring c c'\<close>: the pointers, the packets in the slots and the blocks are the same; the notes on
  waiting and asking, the counters and the decoder may differ.
\<close>

definition same_ring :: "rtsp_conn \<Rightarrow> rtsp_conn \<Rightarrow> bool" where
  "same_ring c c' \<longleftrightarrow>
     map slot_view (audio_buffer c') = map slot_view (audio_buffer c) \<and>
     map frame_data (audio_buffer c') = map frame_data (audio_buffer c) \<and>
     ab_read c' = ab_read c \<and> ab_write c' = ab_write c \<and> ab_synced c' = ab_synced c \<and>
     max_frames_per_packet c' = max_frames_per_packet c \<and>
     input_bytes_per_frame c' = input_bytes_per_frame c \<and> input_rate c' = input_rate c \<and>
     connection_state_to_output c' = connection_state_to_output c"

lemma same_ring_refl [simp]: "same_ring c c"
  by (simp add: same_ring_def)

lemma same_ring_trans [trans]: "same_ring a b \<Longrightarrow> same_ring b c \<Longrightarrow> same_ring a c"
  by (simp add: same_ring_def)

lemma same_ring_length: "same_ring c c' \<Longrightarrow> length (audio_buffer c') = length (audio_buffer c)"
  unfolding same_ring_def by (metis length_map)

lemma same_ring_view:
  assumes "same_ring c c'" and "length (audio_buffer c) = BUFFER_FRAMES"
  shows "view_at c' s = view_at c s"
proof -
  have "length (audio_buffer c') = BUFFER_FRAMES" using same_ring_length [OF assms(1)] assms(2) by simp
  then have "view_at c' s = map slot_view (audio_buffer c') ! BUFIDX s"
    by (simp add: view_at_def slot_def)
  also have "\<dots> = map slot_view (audio_buffer c) ! BUFIDX s"
    using assms(1) by (simp add: same_ring_def)
  also have "\<dots> = view_at c s" using assms(2) by (simp add: view_at_def slot_def)
  finally show ?thesis .
qed

lemma same_ring_pending:
  assumes "same_ring c c'" and "length (audio_buffer c) = BUFFER_FRAMES"
  shows "pending c' = pending c"
proof -
  have "occupancy c' = occupancy c" "ab_read c' = ab_read c"
    using assms(1) by (simp_all add: occupancy_def same_ring_def)
  then show ?thesis by (simp add: pending_def same_ring_view [OF assms])
qed

lemma same_ring_buffer_ok: "same_ring c c' \<Longrightarrow> buffer_ok c \<Longrightarrow> buffer_ok c'"
proof -
  have ok: "buffer_ok d \<longleftrightarrow> length (map frame_data (audio_buffer d)) = BUFFER_FRAMES \<and>
      (\<forall>x\<in>set (map frame_data (audio_buffer d)). length x = 8 * max_frames_per_packet d)" for d
    by (simp add: buffer_ok_def)
  show "same_ring c c' \<Longrightarrow> buffer_ok c \<Longrightarrow> buffer_ok c'"
    unfolding ok by (simp add: same_ring_def)
qed

lemma same_ring_set_slot:
  assumes "slot_view a = slot_view (slot c s)" and "frame_data a = frame_data (slot c s)"
  shows "same_ring c (set_slot s a c)"
proof (cases "BUFIDX s < length (audio_buffer c)")
  case True
  have upd: "(map f (audio_buffer c))[BUFIDX s := f (slot c s)] = map f (audio_buffer c)" for f :: "abuf \<Rightarrow> 'b"
    using True by (simp add: slot_def map_update [symmetric])
  show ?thesis
    using assms upd [of slot_view] upd [of frame_data] by (simp add: same_ring_def set_slot_def map_update)
next
  case False
  then show ?thesis by (simp add: set_slot_def same_ring_def list_update_beyond)
qed

section \<open>The scan for missing packets\<close>

lemma slot_view_flagged:
  "slot_view (flagged cfg t l a) = slot_view a" "frame_data (flagged cfg t l a) = frame_data a"
  "slot_view (flagged cfg t l a\<lparr>resend_time := r, resend_request_number := n\<rparr>) = slot_view a"
  "frame_data (flagged cfg t l a\<lparr>resend_time := r, resend_request_number := n\<rparr>) = frame_data a"
  by (simp_all add: slot_view_def flagged_def)

lemma send_run_conn:
  "scan_conn (send_run cfg st) = scan_conn st \<or>
   scan_conn (send_run cfg st) = (scan_conn st)\<lparr>resend_requests := resend_requests (scan_conn st) + 1\<rparr>"
  by (auto simp: send_run_def Let_def split: option.splits)

lemma send_run_same_ring: "same_ring (scan_conn st) (scan_conn (send_run cfg st))"
  using send_run_conn [of cfg st] by (auto simp: same_ring_def)

lemma check_missing_same_ring: "same_ring (scan_conn st) (scan_conn (check_missing cfg t l x st))"
  by (auto simp: check_missing_def Let_def slot_view_flagged intro!: same_ring_set_slot)

lemma scan_step_same_ring: "same_ring (scan_conn st) (scan_conn (scan_step cfg t l x st))"
  using same_ring_trans [OF check_missing_same_ring [of st cfg t l x] send_run_same_ring [of _ cfg]]
  by (auto simp: scan_step_def Let_def send_run_same_ring check_missing_same_ring)

lemma resend_scan_same_ring: "same_ring (scan_conn st) (scan_conn (resend_scan cfg t l w x st))"
proof (induction cfg t l w x st rule: resend_scan.induct)
  case (1 cfg t l w x st)
  then show ?case
    using same_ring_trans [OF scan_step_same_ring [of st cfg t l x]]
    by (subst resend_scan.simps) (cases "x = w", simp_all)
qed

lemma resend_checks_same_ring:
  "resend_checks cfg t fpm c = Some (c', f, rs) \<Longrightarrow> same_ring c c'"
  using resend_scan_same_ring [of "\<lparr> scan_conn = c, first_missing = None, run_start = None,
      run_count = 0, missing_count = 0, requests = [] \<rparr>"]
  by (auto simp: resend_checks_def Let_def split: if_splits)

lemma resend_checks_total: "input_rate c \<noteq> 0 \<Longrightarrow> \<exists>c' f rs. resend_checks cfg t fpm c = Some (c', f, rs)"
  by (simp add: resend_checks_def Let_def)

section \<open>Storing a packet\<close>

text \<open>
  \<open>put_at c c' s v\<close>: the slot of \<open>s\<close> holds \<open>v\<close> now, the others what they held, and the pointers have
  not moved.
\<close>

definition put_at :: "rtsp_conn \<Rightarrow> rtsp_conn \<Rightarrow> u16 \<Rightarrow> packet_view option \<Rightarrow> bool" where
  "put_at c c' s v \<longleftrightarrow>
     (\<forall>u. view_at c' u = (if BUFIDX s = BUFIDX u then v else view_at c u)) \<and>
     ab_read c' = ab_read c \<and> ab_write c' = ab_write c \<and> ab_synced c' = ab_synced c \<and>
     input_rate c' = input_rate c \<and> buffer_ok c'"

definition conn_kept :: "rtsp_conn \<Rightarrow> rtsp_conn \<Rightarrow> bool" where
  "conn_kept c c' \<longleftrightarrow> (\<exists>d a. c' = c\<lparr>decoder_in_use := d, decoder_info := a\<rparr>)"

lemma conn_kept_refl: "conn_kept c c"
  unfolding conn_kept_def by (rule exI [of _ "decoder_in_use c"], rule exI [of _ "decoder_info c"]) simp

subsection \<open>A block keeps its size\<close>

lemma for_loop_length:
  assumes "for_loop i n body s = Some t"
    and "\<And>j s s'. body j s = Some s' \<Longrightarrow> length s' = length s"
  shows "length t = length s"
  using for_loop_invariant [OF assms(1), of "\<lambda>x. length x = length s"] assms(2) by simp

lemma swap_step_length: "swap_step packet i d = Some d' \<Longrightarrow> length d' = length d"
  by (auto simp: swap_step_def bind_eq_Some_conv dest: wr_block_length)

lemma put16_length: "put16 out i v = Some out' \<Longrightarrow> length out' = length out"
  by (auto simp: put16_def dest: wr_block_length)

lemma put24_length: "put24 out i v = Some out' \<Longrightarrow> length out' = length out"
  by (auto simp: put24_def dest: wr_block_length)

lemma deinterlace_16_step_length:
  "deinterlace_16_step a b nch sh w i out = Some out' \<Longrightarrow> length out' = length out"
  by (auto simp: deinterlace_16_step_def bind_eq_Some_conv dest!: put16_length)

lemma deinterlace_24_step_length:
  "deinterlace_24_step a b ub ua uc nch sh w i out = Some out' \<Longrightarrow> length out' = length out"
  by (auto simp: deinterlace_24_step_def bind_eq_Some_conv dest!: put24_length)

lemma mono_16_step_length: "mono_16_step a nch i out = Some out' \<Longrightarrow> length out' = length out"
  by (auto simp: mono_16_step_def bind_eq_Some_conv dest!: put16_length)

lemma mono_24_step_length: "mono_24_step a u ub nch i out = Some out' \<Longrightarrow> length out' = length out"
  by (auto simp: mono_24_step_def bind_eq_Some_conv dest!: put24_length)

lemmas write_lengths =
  for_loop_length [OF _ swap_step_length] for_loop_length [OF _ deinterlace_16_step_length]
  for_loop_length [OF _ deinterlace_24_step_length] for_loop_length [OF _ mono_16_step_length]
  for_loop_length [OF _ mono_24_step_length]

lemma write_stereo_length: "write_stereo ub n sh w alac out = Some out' \<Longrightarrow> length out' = length out"
  by (auto simp: write_stereo_def deinterlace_16_def deinterlace_24_def Let_def
      split: if_splits dest: write_lengths)

lemma write_mono_length: "write_mono ub n alac out = Some out' \<Longrightarrow> length out' = length out"
  by (auto simp: write_mono_def Let_def split: if_splits dest: write_lengths)

lemma frame_body_length:
  "frame_body st alac out room = Some (alac', out', sz) \<Longrightarrow> length out' = length out"
  by (auto simp: frame_body_def Let_def bind_eq_Some_conv split: if_splits
      dest: write_stereo_length write_mono_length)

lemma alac_decode_frame_length:
  "alac_decode_frame alac bs out room = Some (alac', out', sz) \<Longrightarrow> length out' = length out"
  by (auto simp: alac_decode_frame_def Let_def bind_eq_Some_conv split: if_splits
      dest: frame_body_length)

lemma unencrypted_packet_decode_kept:
  "unencrypted_packet_decode p len d os sl c = Some (d', os', c') \<Longrightarrow> length d' = length d \<and> conn_kept c c'"
  by (auto simp: unencrypted_packet_decode_def Let_def bind_eq_Some_conv conn_kept_refl
      split: audio_stream_type.splits dest: alac_decode_frame_length write_lengths)
     (auto simp: conn_kept_def)

lemma audio_packet_decode_kept:
  assumes "audio_packet_decode env d dl buf len c = Some (good, d', dl', c')"
  shows "length d' = length d \<and> conn_kept c c'"
  using assms
  by (auto simp: audio_packet_decode_def Let_def bind_eq_Some_conv conn_kept_refl split: if_splits
      dest: unencrypted_packet_decode_kept)

subsection \<open>The slot of the packet\<close>

lemma conn_kept_buffer_ok: "conn_kept c c' \<Longrightarrow> buffer_ok c \<Longrightarrow> buffer_ok c'"
  by (auto simp: conn_kept_def buffer_ok_def)

lemma put_at_set_slot:
  assumes "buffer_ok c" and "conn_kept c c'" and "length (frame_data a) = length (frame_data (slot c s))"
  shows "put_at c (set_slot s a c') s (slot_view a)"
proof -
  obtain d al where c': "c' = c\<lparr>decoder_in_use := d, decoder_info := al\<rparr>"
    using assms(2) by (auto simp: conn_kept_def)
  have ok: "buffer_ok c'" using assms(1,2) by (rule conn_kept_buffer_ok [rotated])
  have "view_at c' u = view_at c u" for u by (rule view_at_cong) (simp add: c')
  moreover have "buffer_ok (set_slot s a c')"
    using slot_data_length [OF assms(1)] assms(3) c' by (intro buffer_ok_set_slot [OF ok]) simp
  ultimately show ?thesis
    by (simp add: put_at_def view_at_set_slot [OF buffer_ok_length [OF ok]]) (simp add: c' set_slot_def)
qed

lemma received_slot_simps [simp]:
  "slot_view (received_slot s ts n d a) = Some (s, ts, n, d)" "frame_data (received_slot s ts n d a) = d"
  "slot_view (bad_slot d a) = None" "frame_data (bad_slot d a) = d"
  by (simp_all add: received_slot_def bad_slot_def slot_view_def)

lemma store_packet_put_at:
  assumes "buffer_ok c" and "store_packet env orig t s ts dat len c = Some c'"
  shows "\<exists>v. put_at c c' s v \<and> (v = None \<or> (\<exists>n d. v = Some (s, ts, n, d)))"
proof (cases orig)
  case True
  with assms(2) obtain good d n c1 where
    dec: "audio_packet_decode env (frame_data (slot c s)) (int (max_frames_per_packet c)) dat len c
            = Some (good, d, n, c1)"
    and c': "c' = set_slot s (if good then received_slot s ts n d
                     ((slot c s)\<lparr>initialisation_time := t, resend_time := 0\<rparr>)
                   else bad_slot d ((slot c s)\<lparr>initialisation_time := t, resend_time := 0\<rparr>)) c1"
    by (auto simp: store_packet_def Let_def bind_eq_Some_conv)
  from audio_packet_decode_kept [OF dec]
  have kept: "length d = length (frame_data (slot c s))" "conn_kept c c1" by auto
  let ?a = "(slot c s)\<lparr>initialisation_time := t, resend_time := 0\<rparr>"
  show ?thesis
    using put_at_set_slot [OF assms(1) kept(2), of "received_slot s ts n d ?a" s]
      put_at_set_slot [OF assms(1) kept(2), of "bad_slot d ?a" s] kept(1)
    unfolding c' by (cases good) auto
next
  case False
  with assms(2) obtain d where
    len: "length d = length (frame_data (slot c s))"
    and c': "c' = set_slot s (received_slot s ts len d
                     ((slot c s)\<lparr>initialisation_time := t, resend_time := 0\<rparr>)) c"
    by (auto simp: store_packet_def Let_def bind_eq_Some_conv split: if_splits dest: wr_block_length)
  show ?thesis
    using put_at_set_slot [OF assms(1) conn_kept_refl, of "received_slot s ts len d
        ((slot c s)\<lparr>initialisation_time := t, resend_time := 0\<rparr>)" s] len
    unfolding c' by auto
qed

section \<open>The specification of an arrival\<close>

text \<open>
  A packet \<open>k\<close> places behind the read pointer: inside the queue it takes its place, behind the queue
  the packets between are missing.
\<close>

definition arrive :: "nat \<Rightarrow> 'p option \<Rightarrow> 'p option list \<Rightarrow> 'p option list" where
  "arrive k v q = (if k < length q then q[k := v] else q @ replicate (k - length q) None @ [v])"

lemma length_arrive: "length (arrive k v q) = max (length q) (Suc k)"
  by (simp add: arrive_def)

lemma nth_arrive:
  "i < max (length q) (Suc k) \<Longrightarrow>
   arrive k v q ! i = (if i = k then v else if i < length q then q ! i else None)"
  by (auto simp: arrive_def nth_append nth_list_update nth_Cons')

section \<open>Placing a packet\<close>

lemma mark_missing_fields [simp]:
  "ab_read (mark_missing n s t c) = ab_read c" "ab_write (mark_missing n s t c) = ab_write c"
  "ab_synced (mark_missing n s t c) = ab_synced c"
  "input_rate (mark_missing n s t c) = input_rate c"
  "max_frames_per_packet (mark_missing n s t c) = max_frames_per_packet c"
  "input_bytes_per_frame (mark_missing n s t c) = input_bytes_per_frame c"
  "stream_type (mark_missing n s t c) = stream_type c"
  "stream_encrypted (mark_missing n s t c) = stream_encrypted c"
  by (induction n s t c rule: mark_missing.induct) (simp_all add: set_slot_def)

lemma mark_missing_ok: "buffer_ok c \<Longrightarrow> buffer_ok (mark_missing n s t c)"
proof (induction n s t c rule: mark_missing.induct)
  case (2 n s t c)
  have "length (frame_data (missing_slot t (slot c s))) = 8 * max_frames_per_packet c"
    using slot_data_length [OF 2(2)] by (simp add: missing_slot_def)
  then show ?case using 2 buffer_ok_set_slot by simp
qed simp

lemma mark_missing_view:
  assumes "buffer_ok c"
  shows "view_at (mark_missing n s t c) u =
           (if \<exists>j<n. BUFIDX (s + of_nat j) = BUFIDX u then None else view_at c u)"
  using assms
proof (induction n s t c rule: mark_missing.induct)
  case (2 n s t c)
  let ?a = "missing_slot t (slot c s)"
  have ok: "buffer_ok (set_slot s ?a c)"
    using slot_data_length [OF 2(2)] by (intro buffer_ok_set_slot [OF 2(2)]) (simp add: missing_slot_def)
  have "view_at (set_slot s ?a c) u = (if BUFIDX s = BUFIDX u then None else view_at c u)"
    using view_at_set_slot [OF buffer_ok_length [OF 2(2)]] by (simp add: slot_view_def missing_slot_def)
  moreover have "(\<exists>j<Suc n. BUFIDX (s + of_nat j) = BUFIDX u) \<longleftrightarrow>
      BUFIDX s = BUFIDX u \<or> (\<exists>j<n. BUFIDX (s + 1 + of_nat j) = BUFIDX u)"
    by (simp add: Ex_less_Suc2 add.assoc)
  ultimately show ?case using 2(1) [OF ok] by auto
qed simp

lemma expected_packet_fields [simp]:
  "audio_buffer (expected_packet t ts s c) = audio_buffer c"
  "ab_read (expected_packet t ts s c) = ab_read c" "ab_write (expected_packet t ts s c) = s + 1"
  "ab_synced (expected_packet t ts s c) = ab_synced c"
  "input_rate (expected_packet t ts s c) = input_rate c"
  "max_frames_per_packet (expected_packet t ts s c) = max_frames_per_packet c"
  "input_bytes_per_frame (expected_packet t ts s c) = input_bytes_per_frame c"
  "stream_type (expected_packet t ts s c) = stream_type c"
  "stream_encrypted (expected_packet t ts s c) = stream_encrypted c"
  by (simp_all add: expected_packet_def Let_def)

lemma offset_minus: "(a + of_nat k) - (a + of_nat q) = (of_nat k - of_nat q :: u16)"
  by simp

lemma unat_behind:
  assumes "q \<le> k" and "k < 65536"
  shows "unat ((a + of_nat k) - (a + of_nat q) :: u16) = k - q"
proof -
  have "(a + of_nat k) - (a + of_nat q) = (of_nat (k - q) :: u16)"
    using of_nat_diff [OF assms(1), where ?'a = u16] by simp
  moreover have "k - q < 65536" using assms(2) by simp
  ultimately show ?thesis by (simp only: unat_of_nat) simp
qed

lemma unat_before:
  assumes "k < q" and "q < 65536"
  shows "unat ((a + of_nat k) - (a + of_nat q) :: u16) = 65536 - (q - k)"
proof -
  have "of_nat (65536 - (q - k)) = (of_nat 65536 - of_nat (q - k) :: u16)"
    using assms(2) by (intro of_nat_diff) simp
  also have "of_nat (q - k) = (of_nat q - of_nat k :: u16)"
    using assms(1) by (intro of_nat_diff) simp
  finally have "(a + of_nat k) - (a + of_nat q) = (of_nat (65536 - (q - k)) :: u16)" by simp
  moreover have "65536 - (q - k) < 65536" using assms by simp
  ultimately show ?thesis by (simp only: unat_of_nat) simp
qed

lemma gap_size_no_wrap:
  assumes "wr_seq \<le> seqno"
  shows "nat (gap_size seqno wr_seq) = unat (seqno - wr_seq)"
  using assms by (simp add: gap_size_def unat_sub nat_diff_distrib word_le_def)

text \<open>
  The window of a packet: \<open>k\<close> places behind the read pointer, inside the 1024 slots, and not at the
  read pointer of a queue that is not empty. \<open>no_wrap\<close>: the sequence numbers between the write
  pointer and a packet behind it do not pass 65535.
\<close>

definition in_window :: "rtsp_conn \<Rightarrow> nat \<Rightarrow> bool" where
  "in_window c k \<longleftrightarrow> k < 1024 \<and> occupancy c \<le> 1024 \<and> (k = 0 \<longrightarrow> occupancy c = 0)"

definition no_wrap :: "rtsp_conn \<Rightarrow> nat \<Rightarrow> bool" where
  "no_wrap c k \<longleftrightarrow> (occupancy c \<le> k \<longrightarrow> ab_write c \<le> ab_read c + of_nat k)"

text \<open>What placing does, with the slot of the packet still to be filled.\<close>

lemma place_packet_window:
  assumes "buffer_ok c" and "in_window c k" and "no_wrap c k" and "seqno = ab_read c + of_nat k"
  obtains c1 where "place_packet t ts seqno c = (c1, Some seqno)" and "buffer_ok c1"
    and "ab_read c1 = ab_read c" and "occupancy c1 = max (occupancy c) (Suc k)"
    and "\<And>i. i < max (occupancy c) (Suc k) \<Longrightarrow> i \<noteq> k \<Longrightarrow>
          view_at c1 (ab_read c + of_nat i) =
            (if i < occupancy c then view_at c (ab_read c + of_nat i) else None)"
    and "input_rate c1 = input_rate c" and "max_frames_per_packet c1 = max_frames_per_packet c"
    and "input_bytes_per_frame c1 = input_bytes_per_frame c" and "stream_type c1 = stream_type c"
    and "stream_encrypted c1 = stream_encrypted c"
proof -
  let ?q = "occupancy c"
  have w: "ab_write c = ab_read c + of_nat ?q" by (rule write_is_read_plus)
  have k: "k < 1024" "?q \<le> 1024" using assms(2) by (simp_all add: in_window_def)
  have next_occ: "occupancy (c'\<lparr>ab_write := seqno + 1\<rparr>) = Suc k" if "ab_read c' = ab_read c" for c'
    using occupancy_set_write [of "Suc k" c'] k that assms(4) by (simp add: algebra_simps)
  consider "k = ?q" | "?q < k" | "k < ?q" by linarith
  then show thesis
  proof cases
    case 1
    then have p: "place_packet t ts seqno c = (expected_packet t ts seqno c, Some seqno)"
      using w assms(4) by (simp add: place_packet_def)
    show thesis
    proof (rule that [OF p])
      show "buffer_ok (expected_packet t ts seqno c)" using assms(1) by (simp add: buffer_ok_def)
      show "occupancy (expected_packet t ts seqno c) = max ?q (Suc k)"
        using next_occ [of c] 1 by (simp add: occupancy_def)
      show "view_at (expected_packet t ts seqno c) (ab_read c + of_nat i) =
            (if i < ?q then view_at c (ab_read c + of_nat i) else None)"
        if "i < max ?q (Suc k)" "i \<noteq> k" for i
        using that 1 by (auto simp: view_at_cong [of "expected_packet t ts seqno c" c])
    qed simp_all
  next
    case 2
    have d: "unat (seqno - ab_write c) = k - ?q"
      unfolding assms(4) w using unat_behind [of ?q k] 2 k by simp
    then have after: "is_after (ab_write c) seqno" "ab_write c \<noteq> seqno"
      using 2 k by (auto simp: is_after_iff)
    have "ab_write c \<le> seqno" using assms(3,4) 2 by (simp add: no_wrap_def)
    then have g: "nat (gap_size seqno (ab_write c)) = k - ?q" using gap_size_no_wrap d by simp
    let ?m = "mark_missing (k - ?q) (ab_write c) t c"
    have p: "place_packet t ts seqno c = (?m\<lparr>ab_write := seqno + 1\<rparr>, Some seqno)"
      using after g by (simp add: place_packet_def Let_def)
    show thesis
    proof (rule that [OF p])
      show "buffer_ok (?m\<lparr>ab_write := seqno + 1\<rparr>)"
        using mark_missing_ok [OF assms(1)] by (simp add: buffer_ok_def)
      show "occupancy (?m\<lparr>ab_write := seqno + 1\<rparr>) = max ?q (Suc k)"
        using next_occ [of ?m] 2 by simp
      fix i
      assume i: "i < max ?q (Suc k)" "i \<noteq> k"
      have "view_at (?m\<lparr>ab_write := seqno + 1\<rparr>) (ab_read c + of_nat i) = view_at ?m (ab_read c + of_nat i)"
        by (rule view_at_cong) simp
      moreover have "(\<exists>j<k - ?q. BUFIDX (ab_write c + of_nat j) = BUFIDX (ab_read c + of_nat i)) \<longleftrightarrow> ?q \<le> i"
      proof -
        have "BUFIDX (ab_write c + of_nat j) = BUFIDX (ab_read c + of_nat i) \<longleftrightarrow> ?q + j = i"
          if "j < k - ?q" for j
        proof -
          have "ab_write c + of_nat j = ab_read c + of_nat (?q + j)" by (simp add: w add.assoc)
          then show ?thesis using BUFIDX_eq_near [of "?q + j" i "ab_read c"] that i 2 k
            by (simp add: \<open>ab_write c + of_nat j = _\<close> del: of_nat_add)
        qed
        then have "(\<exists>j<k - ?q. BUFIDX (ab_write c + of_nat j) = BUFIDX (ab_read c + of_nat i)) \<longleftrightarrow>
            (\<exists>j<k - ?q. ?q + j = i)" by blast
        also have "\<dots> \<longleftrightarrow> ?q \<le> i"
          using i 2 by (auto intro!: exI [of _ "i - ?q"])
        finally show ?thesis .
      qed
      ultimately show "view_at (?m\<lparr>ab_write := seqno + 1\<rparr>) (ab_read c + of_nat i) =
            (if i < ?q then view_at c (ab_read c + of_nat i) else None)"
        using mark_missing_view [OF assms(1)] by (simp add: not_le)
    qed simp_all
  next
    case 3
    have d: "unat (seqno - ab_write c) = 65536 - (?q - k)"
      unfolding assms(4) w using unat_before [of k ?q] 3 k by simp
    moreover have "\<not> 65536 - (?q - k) < 32768" using k by linarith
    ultimately have "\<not> is_after (ab_write c) seqno" by (simp only: is_after_iff simp_thms)
    moreover have "ab_write c \<noteq> seqno" using d 3 k by auto
    moreover have "is_after (ab_read c) seqno"
      using 3 k assms(2) unfolding assms(4) by (auto simp: is_after_offset in_window_def)
    ultimately have p: "place_packet t ts seqno c = (c\<lparr>late_packets := late_packets c + 1\<rparr>, Some seqno)"
      by (simp add: place_packet_def)
    show thesis
    proof (rule that [OF p])
      show "buffer_ok (c\<lparr>late_packets := late_packets c + 1\<rparr>)" using assms(1) by (simp add: buffer_ok_def)
      show "occupancy (c\<lparr>late_packets := late_packets c + 1\<rparr>) = max ?q (Suc k)"
        using 3 by (simp add: occupancy_def)
      show "view_at (c\<lparr>late_packets := late_packets c + 1\<rparr>) (ab_read c + of_nat i) =
            (if i < ?q then view_at c (ab_read c + of_nat i) else None)"
        if "i < max ?q (Suc k)" "i \<noteq> k" for i
        using that 3 by (auto simp: view_at_cong [of "c\<lparr>late_packets := late_packets c + 1\<rparr>" c])
    qed simp_all
  qed
qed

section \<open>The operation refines the arrival\<close>

text \<open>
  From the placed slot on: whatever \<open>v\<close> the slot of the packet gets, the queue is the arrival of \<open>v\<close>,
  and the scan for missing packets does not change it.
\<close>

lemma pending_arrive:
  assumes "place_packet t ts seqno c = (c1, Some seqno)" and "put_at c1 c2 seqno v"
    and "in_window c k" and "seqno = ab_read c + of_nat k"
    and "ab_read c1 = ab_read c" and "occupancy c1 = max (occupancy c) (Suc k)"
    and "\<And>i. i < max (occupancy c) (Suc k) \<Longrightarrow> i \<noteq> k \<Longrightarrow>
          view_at c1 (ab_read c + of_nat i) =
            (if i < occupancy c then view_at c (ab_read c + of_nat i) else None)"
  shows "pending c2 = arrive k v (pending c)"
proof (rule nth_equalityI)
  have occ: "occupancy c2 = max (occupancy c) (Suc k)" and rd: "ab_read c2 = ab_read c"
    using assms(2,5,6) by (simp_all add: put_at_def occupancy_def)
  show len: "length (pending c2) = length (arrive k v (pending c))"
    by (simp add: occ length_arrive)
  fix i
  assume "i < length (pending c2)"
  then have i: "i < max (occupancy c) (Suc k)" by (simp add: occ)
  have lt: "i < 1024" "k < 1024" using i assms(3) by (auto simp: in_window_def)
  have "pending c2 ! i = view_at c2 (ab_read c + of_nat i)"
    using i by (simp add: pending_def occ rd)
  also have "\<dots> = (if i = k then v else view_at c1 (ab_read c + of_nat i))"
    using assms(2) BUFIDX_eq_near [OF lt(2,1), of "ab_read c"] by (auto simp: put_at_def assms(4))
  also have "\<dots> = arrive k v (pending c) ! i"
    using i assms(7) [OF i] by (simp add: nth_arrive pending_def)
  finally show "pending c2 ! i = arrive k v (pending c) ! i" .
qed

lemma arrival_fields [simp]:
  "audio_buffer (arrival t c) = audio_buffer c" "ab_read (arrival t c) = ab_read c"
  "ab_write (arrival t c) = ab_write c" "ab_synced (arrival t c) = ab_synced c"
  "connection_state_to_output (arrival t c) = connection_state_to_output c"
  "input_rate (arrival t c) = input_rate c"
  "max_frames_per_packet (arrival t c) = max_frames_per_packet c"
  "input_bytes_per_frame (arrival t c) = input_bytes_per_frame c"
  "stream_type (arrival t c) = stream_type c" "stream_encrypted (arrival t c) = stream_encrypted c"
  by (simp_all add: arrival_def Let_def)

lemma occupancy_arrival [simp]: "occupancy (arrival t c) = occupancy c"
  by (simp add: occupancy_def)

lemma pending_arrival [simp]: "pending (arrival t c) = pending c"
proof -
  have "view_at (arrival t c) s = view_at c s" for s by (rule view_at_cong) simp
  then show ?thesis by (simp add: pending_def)
qed

lemma in_window_arrival [simp]: "in_window (arrival t c) k = in_window c k"
  by (simp add: in_window_def)

lemma no_wrap_arrival [simp]: "no_wrap (arrival t c) k = no_wrap c k"
  by (simp add: no_wrap_def)

lemma buffer_ok_arrival [simp]: "buffer_ok (arrival t c) = buffer_ok c"
  by (rule buffer_ok_cong) simp_all

lemma put_synced:
  assumes "ab_synced c" and "connection_state_to_output c \<noteq> 0"
  shows "player_put_packet env cfg t True seqno ts dat len fpm c =
     do { let (c1, place) = place_packet t ts seqno (arrival t c);
          c2 \<leftarrow> (case place of None \<Rightarrow> Some c1 | Some s \<Rightarrow> store_packet env True t s ts dat len c1);
          resend_checks cfg t fpm c2 }"
  using assms by (simp add: player_put_packet_def synced_by_def Let_def)

lemma put_refines_arrive:
  assumes "buffer_ok c" and "ab_synced c" and "connection_state_to_output c \<noteq> 0"
    and "in_window c k" and "no_wrap c k" and "seqno = ab_read c + of_nat k"
    and "player_put_packet env cfg t True seqno ts dat len fpm c = Some (c', f, rs)"
  shows "\<exists>v. pending c' = arrive k v (pending c) \<and> (v = None \<or> (\<exists>n d. v = Some (seqno, ts, n, d))) \<and>
     ab_read c' = ab_read c \<and> buffer_ok c'"
proof -
  let ?a = "arrival t c"
  have a: "buffer_ok ?a" "in_window ?a k" "no_wrap ?a k" "seqno = ab_read ?a + of_nat k"
    using assms by simp_all
  obtain c1 where c1: "place_packet t ts seqno ?a = (c1, Some seqno)" "buffer_ok c1"
    "ab_read c1 = ab_read ?a" "occupancy c1 = max (occupancy ?a) (Suc k)"
    "\<And>i. i < max (occupancy ?a) (Suc k) \<Longrightarrow> i \<noteq> k \<Longrightarrow> view_at c1 (ab_read ?a + of_nat i) =
       (if i < occupancy ?a then view_at ?a (ab_read ?a + of_nat i) else None)"
    by (rule place_packet_window [OF a]) blast
  obtain c2 where c2: "store_packet env True t seqno ts dat len c1 = Some c2"
    and c': "resend_checks cfg t fpm c2 = Some (c', f, rs)"
    using assms(7) c1(1) by (auto simp: put_synced [OF assms(2,3)] bind_eq_Some_conv)
  obtain v where v: "put_at c1 c2 seqno v" "v = None \<or> (\<exists>n d. v = Some (seqno, ts, n, d))"
    using store_packet_put_at [OF c1(2) c2] by blast
  have ok: "buffer_ok c2" "ab_read c2 = ab_read c" using v(1) c1(3) by (simp_all add: put_at_def)
  have "pending c2 = arrive k v (pending c)"
    using pending_arrive [OF c1(1) v(1) a(2,4) c1(3,4)] c1(5) by simp
  moreover note same = resend_checks_same_ring [OF c']
  have "pending c' = pending c2" "buffer_ok c'" "ab_read c' = ab_read c2"
    using same_ring_pending [OF same buffer_ok_length [OF ok(1)]] same_ring_buffer_ok [OF same ok(1)]
      same by (simp_all add: same_ring_def)
  ultimately show ?thesis using v(2) ok(2) by auto
qed

section \<open>A connection to compute with\<close>

text \<open>A connection that plays 16-bit stereo in packets of four frames, with every slot empty.\<close>

definition sample_conn :: "u16 \<Rightarrow> rtsp_conn" where
  "sample_conn s =
     \<lparr> audio_buffer = replicate BUFFER_FRAMES (empty_slot 4), ab_read = s, ab_write = s,
       ab_synced = True, ab_buffering = True, last_seqno_read = - 1,
       stream_type = Ast_uncompressed, stream_encrypted = False, decoder_info = alac_create 16 2,
       decoder_in_use = 0, max_frames_per_packet = 4, input_bytes_per_frame = 4,
       input_rate = 44100, latency = 88200, connection_state_to_output = 1, packet_count = 1,
       packet_count_since_flush = 1, play_number_after_flush = 0, time_of_last_audio_packet = 0,
       input_frame_rate_starting_point_is_valid = False,
       frames_inward_measurement_start_time = 0,
       frames_inward_frames_received_at_measurement_start_time = 0,
       frames_inward_measurement_time = 0, frames_inward_frames_received_at_measurement_time = 0,
       initial_reference_time = 0, initial_reference_timestamp = 0, missing_packets = 0,
       late_packets = 0, too_late_packets = 0, resend_requests = 0, flush_requested = False,
       flush_output_flushed = False, flush_rtp_timestamp = 0, first_packet_timestamp = 0,
       first_packet_time_to_play = 0, time_since_play_started = 0 \<rparr>"

definition sample_env :: player_env where
  "sample_env = \<lparr> aes_cbc_decrypt = id, stack_packet = replicate MAX_PACKET 0 \<rparr>"

definition sample_config :: resend_config where
  "sample_config =
     \<lparr> minimum_wait_time = 100, resend_repeat_interval = 250, minimum_remaining_time = 10,
       disable_resend_requests = False \<rparr>"

lemma slot_sample_conn: "slot (sample_conn s) u = empty_slot 4"
  by (simp add: slot_def sample_conn_def)

lemma buffer_ok_sample_conn: "buffer_ok (sample_conn s)"
  by (simp add: buffer_ok_def sample_conn_def empty_slot_def)

lemma pending_sample_conn: "pending (sample_conn s) = []"
  by (simp add: pending_def occupancy_def sample_conn_def)

end
