(* ===== verification/Player_Arrivals.thy ===== *)
theory Player_Arrivals
  imports Player_Ring
begin

text \<open>
  The properties of \<open>player_put_packet\<close>: it refines the arrival of a packet in a queue, it returns on
  uncompressed streams with the samples in host order, what happens to packets that are too late or
  that pass the end of the sequence numbers, and which packets are asked for again.
\<close>

section \<open>Uncompressed packets\<close>

text \<open>The samples of a packet in host order.\<close>

fun swap16 :: "bytes \<Rightarrow> bytes" where
  "swap16 (hi # lo # bs) = lo # hi # swap16 bs"
| "swap16 bs = []"

lemma length_swap16: "even (length bs) \<Longrightarrow> length (swap16 bs) = length bs"
  by (induction bs rule: swap16.induct) auto

lemma swap_step_at:
  assumes "length pre = 2 * i" and "2 * i + 1 < length p" and "2 \<le> length post"
  shows "swap_step p i (pre @ post) = Some (pre @ [p ! (2 * i + 1), p ! (2 * i)] @ drop 2 post)"
  using assms by (simp add: swap_step_def rd_def wr_block_def)

lemma swap_loop:
  assumes "length pre = 2 * i" and "2 * (i + n) \<le> length p" and "2 * n \<le> length post"
  shows "for_loop i n (swap_step p) (pre @ post) =
           Some (pre @ swap16 (take (2 * n) (drop (2 * i) p)) @ drop (2 * n) post)"
  using assms
proof (induction n arbitrary: i pre post)
  case (Suc n)
  have i: "2 * i + 1 < length p" "2 \<le> length post" using Suc.prems by auto
  let ?pre = "pre @ [p ! (2 * i + 1), p ! (2 * i)]"
  have "for_loop (Suc i) n (swap_step p) (?pre @ drop 2 post) =
      Some (?pre @ swap16 (take (2 * n) (drop (2 * Suc i) p)) @ drop (2 * n) (drop 2 post))"
    using Suc.prems by (intro Suc.IH) auto
  moreover have "drop (2 * i) p = p ! (2 * i) # p ! (2 * i + 1) # drop (2 * Suc i) p"
    using i(1) by (simp add: Cons_nth_drop_Suc)
  ultimately show ?case
    using swap_step_at [OF Suc.prems(1) i] by (simp add: numeral_2_eq_2)
qed simp

text \<open>An L16 packet in clear that fits the block of a slot.\<close>

definition l16_packet :: "rtsp_conn \<Rightarrow> bytes \<Rightarrow> int \<Rightarrow> bool" where
  "l16_packet c dat len \<longleftrightarrow>
     stream_type c = Ast_uncompressed \<and> \<not> stream_encrypted c \<and> 0 < input_bytes_per_frame c \<and>
     input_bytes_per_frame c \<le> 8 \<and> max_frames_per_packet c < 2 ^ 28 \<and> 0 \<le> len \<and> even len \<and>
     len \<le> int MAX_PACKET \<and> nat len \<le> length dat \<and>
     len \<le> input_bytes_per_frame c * int (max_frames_per_packet c)"

lemma decode_l16:
  assumes "l16_packet c dat len" and "length d = 8 * max_frames_per_packet c"
  shows "audio_packet_decode env d (int (max_frames_per_packet c)) dat len c =
     Some (True, swap16 (take (nat len) dat) @ drop (nat len) d, len div input_bytes_per_frame c, c)"
proof -
  let ?b = "input_bytes_per_frame c" and ?m = "int (max_frames_per_packet c)"
  obtain n where n: "len = 2 * int n"
  proof -
    have "even len" "0 \<le> len" using assms(1) by (auto simp: l16_packet_def)
    then obtain k where "len = 2 * k" by (elim evenE)
    then show thesis using that [of "nat k"] \<open>0 \<le> len\<close> by simp
  qed
  have "?b * ?m \<le> 8 * ?m" using assms(1) by (intro mult_right_mono) (auto simp: l16_packet_def)
  moreover have "?m < 2 ^ 28" using assms(1) by (simp add: l16_packet_def)
  moreover have "0 \<le> ?b * ?m" using assms(1) by (simp add: l16_packet_def)
  ultimately have prod: "int_product ?b ?m = Some (?b * ?m)" by (simp add: int_product_def)
  have fit: "2 * n \<le> length d" "2 * n \<le> length dat"
    using assms \<open>?b * ?m \<le> 8 * ?m\<close> n by (auto simp: l16_packet_def)
  have loop: "for_loop 0 n (swap_step dat) d = Some (swap16 (take (2 * n) dat) @ drop (2 * n) d)"
    using swap_loop [of "[]" 0 n dat d] fit by simp
  have half: "c_div (2 * int n) 2 = int n" by (simp add: c_div_def sgn_if)
  have quot: "c_div len ?b = len div ?b"
    using assms(1) by (auto simp: c_div_def l16_packet_def sgn_if)
  have nlen: "nat len = 2 * n" using n by simp
  have "unencrypted_packet_decode dat len d (?b * ?m) (?b * ?m) c =
      Some (swap16 (take (nat len) dat) @ drop (nat len) d, len, c)"
    using assms(1) loop half nlen by (simp add: unencrypted_packet_decode_def l16_packet_def n)
  then show ?thesis
    using assms(1) prod quot by (simp add: audio_packet_decode_def l16_packet_def Let_def)
qed

lemma l16_packet_cong:
  "stream_type c' = stream_type c \<Longrightarrow> stream_encrypted c' = stream_encrypted c \<Longrightarrow>
   input_bytes_per_frame c' = input_bytes_per_frame c \<Longrightarrow>
   max_frames_per_packet c' = max_frames_per_packet c \<Longrightarrow>
   l16_packet c' dat len = l16_packet c dat len"
  by (simp add: l16_packet_def)

lemma store_l16:
  assumes "buffer_ok c" and "l16_packet c dat len"
  shows "\<exists>c'. store_packet env True t s ts dat len c = Some c' \<and>
     put_at c c' s (Some (s, ts, len div input_bytes_per_frame c,
       swap16 (take (nat len) dat) @ drop (nat len) (frame_data (slot c s))))"
proof -
  let ?d = "swap16 (take (nat len) dat) @ drop (nat len) (frame_data (slot c s))"
  let ?a = "received_slot s ts (len div input_bytes_per_frame c) ?d
              ((slot c s)\<lparr>initialisation_time := t, resend_time := 0\<rparr>)"
  note L = slot_data_length [OF assms(1), of s]
  have "store_packet env True t s ts dat len c = Some (set_slot s ?a c)"
    using decode_l16 [OF assms(2) L, of env] by (simp add: store_packet_def)
  moreover have "length ?d = length (frame_data (slot c s))"
  proof -
    have "int (nat len) \<le> int (8 * max_frames_per_packet c)"
    proof -
      have "input_bytes_per_frame c * int (max_frames_per_packet c) \<le> 8 * int (max_frames_per_packet c)"
        using assms(2) by (intro mult_right_mono) (auto simp: l16_packet_def)
      then show ?thesis using assms(2) by (auto simp: l16_packet_def)
    qed
    moreover have "even (nat len)" using assms(2) by (simp add: l16_packet_def even_nat_iff)
    ultimately show ?thesis using assms(2) L by (simp add: length_swap16 l16_packet_def)
  qed
  ultimately show ?thesis
    using put_at_set_slot [OF assms(1) conn_kept_refl, of ?a s] by simp
qed

section \<open>Placing keeps the blocks\<close>

lemma mark_missing_data:
  "buffer_ok c \<Longrightarrow> frame_data (slot (mark_missing n s t c) u) = frame_data (slot c u)"
proof (induction n s t c rule: mark_missing.induct)
  case (2 n s t c)
  have "buffer_ok (set_slot s (missing_slot t (slot c s)) c)"
    using slot_data_length [OF 2(2)] by (intro buffer_ok_set_slot [OF 2(2)]) (simp add: missing_slot_def)
  moreover have "BUFIDX s = BUFIDX u \<Longrightarrow> slot c s = slot c u" by (simp add: slot_def)
  ultimately show ?case
    using 2(1) by (simp add: slot_set_slot [OF buffer_ok_length [OF 2(2)]] missing_slot_def)
qed simp

lemma place_packet_data:
  assumes "buffer_ok c"
  shows "frame_data (slot (fst (place_packet t ts s c)) u) = frame_data (slot c u)"
  using mark_missing_data [OF assms] by (simp add: place_packet_def Let_def slot_def)

lemma same_fields_cong:
  "place_packet t ts s c = (c1, p) \<Longrightarrow> frame_data (slot c1 u) = frame_data (slot c u)"
  if "buffer_ok c"
  using place_packet_data [OF that, of t ts s u] by simp

lemma l16_arrives:
  assumes "buffer_ok c" and "ab_synced c" and "connection_state_to_output c \<noteq> 0"
    and "in_window c k" and "no_wrap c k" and "seqno = ab_read c + of_nat k"
    and "l16_packet c dat len" and "input_rate c \<noteq> 0"
  shows "\<exists>c' f rs. player_put_packet env cfg t True seqno ts dat len fpm c = Some (c', f, rs) \<and>
     pending c' = arrive k (Some (seqno, ts, len div input_bytes_per_frame c,
         swap16 (take (nat len) dat) @ drop (nat len) (frame_data (slot c seqno)))) (pending c) \<and>
     ab_read c' = ab_read c \<and> buffer_ok c'"
proof -
  let ?a = "arrival t c"
  have a: "buffer_ok ?a" "in_window ?a k" "no_wrap ?a k" "seqno = ab_read ?a + of_nat k"
    using assms by simp_all
  obtain c1 where c1: "place_packet t ts seqno ?a = (c1, Some seqno)" "buffer_ok c1"
    "ab_read c1 = ab_read ?a" "occupancy c1 = max (occupancy ?a) (Suc k)"
    "\<And>i. i < max (occupancy ?a) (Suc k) \<Longrightarrow> i \<noteq> k \<Longrightarrow> view_at c1 (ab_read ?a + of_nat i) =
       (if i < occupancy ?a then view_at ?a (ab_read ?a + of_nat i) else None)"
    and kept: "input_rate c1 = input_rate ?a" "max_frames_per_packet c1 = max_frames_per_packet ?a"
      "input_bytes_per_frame c1 = input_bytes_per_frame ?a" "stream_type c1 = stream_type ?a"
      "stream_encrypted c1 = stream_encrypted ?a"
    by (rule place_packet_window [OF a]) blast
  have l16: "l16_packet c1 dat len"
    using assms(7) kept by (subst l16_packet_cong [of c1 c]) simp_all
  have d: "frame_data (slot c1 seqno) = frame_data (slot c seqno)"
    using same_fields_cong [OF a(1) c1(1), of seqno] by (simp add: slot_def)
  let ?v = "Some (seqno, ts, len div input_bytes_per_frame c,
         swap16 (take (nat len) dat) @ drop (nat len) (frame_data (slot c seqno)))"
  obtain c2 where c2: "store_packet env True t seqno ts dat len c1 = Some c2" "put_at c1 c2 seqno ?v"
    using store_l16 [OF c1(2) l16, of env t seqno ts] d kept by auto
  have ok: "buffer_ok c2" "ab_read c2 = ab_read c" "input_rate c2 = input_rate c"
    using c2(2) c1(3) kept by (simp_all add: put_at_def)
  obtain c' f rs where c': "resend_checks cfg t fpm c2 = Some (c', f, rs)"
    using resend_checks_total [of c2 cfg t fpm] ok(3) assms(8) by auto
  have "player_put_packet env cfg t True seqno ts dat len fpm c = Some (c', f, rs)"
    using c1(1) c2(1) c' by (simp add: put_synced [OF assms(2,3)])
  moreover have "pending c2 = arrive k ?v (pending c)"
    using pending_arrive [OF c1(1) c2(2) a(2,4) c1(3,4)] c1(5) by simp
  moreover note same = resend_checks_same_ring [OF c']
  have "pending c' = pending c2" "buffer_ok c'" "ab_read c' = ab_read c2"
    using same_ring_pending [OF same buffer_ok_length [OF ok(1)]] same_ring_buffer_ok [OF same ok(1)]
      same by (simp_all add: same_ring_def)
  ultimately show ?thesis using ok(2) by auto
qed

section \<open>Packets that are not taken\<close>

text \<open>\<open>in_past\<close>: at the read pointer of a queue that is not empty, or up to half a turn before it.\<close>

lemma place_packet_too_late:
  assumes "\<not> is_after (ab_read c) seqno" and "\<not> is_after (ab_write c) seqno" and "ab_write c \<noteq> seqno"
  shows "place_packet t ts seqno c = (c\<lparr>too_late_packets := too_late_packets c + 1\<rparr>, None)"
  using assms by (simp add: place_packet_def)

lemma read_pointer_too_late:
  assumes "0 < occupancy c" and "occupancy c \<le> 1024"
  shows "place_packet t ts (ab_read c) c = (c\<lparr>too_late_packets := too_late_packets c + 1\<rparr>, None)"
proof (rule place_packet_too_late)
  have d: "unat (ab_read c - ab_write c) = 65536 - occupancy c"
    using unat_before [of 0 "occupancy c" "ab_read c"] assms write_is_read_plus [of c] by simp
  moreover have "\<not> 65536 - occupancy c < 32768" using assms by linarith
  ultimately show "\<not> is_after (ab_write c) (ab_read c)" by (simp only: is_after_iff simp_thms)
  show "\<not> is_after (ab_read c) (ab_read c)" by (simp add: is_after_iff)
  show "ab_write c \<noteq> ab_read c" using d assms by auto
qed

lemma too_late_changes_nothing:
  assumes "buffer_ok c" and "ab_synced c" and "connection_state_to_output c \<noteq> 0"
    and "0 < occupancy c" and "occupancy c \<le> 1024" and "input_rate c \<noteq> 0"
  shows "\<exists>c' f rs. player_put_packet env cfg t True (ab_read c) ts dat len fpm c = Some (c', f, rs) \<and>
     pending c' = pending c \<and> buffer_ok c'"
proof -
  let ?a = "arrival t c"
  let ?c2 = "?a\<lparr>too_late_packets := too_late_packets ?a + 1\<rparr>"
  have p: "place_packet t ts (ab_read c) ?a = (?c2, None)"
    using read_pointer_too_late [of ?a t ts] assms(4,5) by simp
  obtain c' f rs where c': "resend_checks cfg t fpm ?c2 = Some (c', f, rs)"
    using resend_checks_total [of ?c2 cfg t fpm] assms(6) by auto
  have ok: "buffer_ok ?c2" using assms(1) by (simp add: buffer_ok_def)
  have pend: "pending ?c2 = pending c"
  proof -
    have "view_at ?c2 s = view_at c s" for s by (rule view_at_cong) simp
    then show ?thesis by (simp add: pending_def occupancy_def)
  qed
  note same = resend_checks_same_ring [OF c']
  show ?thesis
    using p c' pend same_ring_pending [OF same buffer_ok_length [OF ok]] same_ring_buffer_ok [OF same ok]
    by (auto simp: put_synced [OF assms(2,3)])
qed

section \<open>The end of the sequence numbers\<close>

text \<open>
  When the numbers between the write pointer and a packet behind it pass 65535, the promoted
  difference is negative, and none of the slots between is touched.
\<close>

lemma gap_at_wrap:
  assumes "is_after (ab_write c) seqno" and "seqno < ab_write c"
  shows "place_packet t ts seqno c = (c\<lparr>ab_write := seqno + 1\<rparr>, Some seqno)"
proof -
  have "gap_size seqno (ab_write c) \<le> 0"
    using assms(2) by (simp add: gap_size_def word_less_def)
  then show ?thesis using assms by (auto simp: place_packet_def Let_def)
qed

section \<open>The properties\<close>


lemma sample_l16: "l16_packet (sample_conn s) [1, 2, 3, 4, 5, 6, 7, 8] 8"
  by (simp add: l16_packet_def sample_conn_def MAX_PACKET_def)

lemma sample_window: "k < 1024 \<Longrightarrow> in_window (sample_conn s) k"
  by (simp add: in_window_def occupancy_def sample_conn_def)

lemma sample_no_wrap: "no_wrap (sample_conn 10) 2"
  by (simp add: no_wrap_def sample_conn_def)


text \<open>
  A packet that arrives for the place at the read pointer is dropped as too late although that
  place is the next to be played: the queue is unchanged, be the place filled or missing. (The test
  \<open>is_after(ab_read, seqno)\<close> is strict.)
\<close>

lemma put_at_read_pointer_dropped:
  assumes "buffer_ok c" and "ab_synced c" and "connection_state_to_output c \<noteq> 0"
    and "0 < occupancy c" and "occupancy c \<le> 1024" and "input_rate c \<noteq> 0"
  shows "\<exists>c' f rs. player_put_packet env cfg t True (ab_read c) ts dat len fpm c = Some (c', f, rs) \<and>
     pending c' = pending c \<and> buffer_ok c'"
  using assms by (rule too_late_changes_nothing)

lemma put_at_read_pointer_dropped_witness:
  "\<exists>c' f rs. player_put_packet sample_env sample_config 1000 True 10 5000 [1, 2, 3, 4] 4 None
        ((sample_conn 10)\<lparr>ab_write := 12\<rparr>) = Some (c', f, rs) \<and> pending c' = [None, None]"
proof -
  let ?c = "(sample_conn 10)\<lparr>ab_write := 12\<rparr>"
  have c: "buffer_ok ?c" "ab_synced ?c" "connection_state_to_output ?c \<noteq> 0" "occupancy ?c = 2"
    "input_rate ?c \<noteq> 0" "ab_read ?c = 10"
    by (simp_all add: sample_conn_def buffer_ok_def empty_slot_def occupancy_def)
  have "pending ?c = [None, None]"
    unfolding pending_def c(4)
    by (simp add: numeral_2_eq_2 view_at_def slot_def sample_conn_def slot_view_def empty_slot_def)
  then show ?thesis
    using put_at_read_pointer_dropped [OF c(1-3) _ _ c(5), of sample_env sample_config 1000 5000
        "[1, 2, 3, 4]" 4 None] c(4,6) by auto
qed

text \<open>
  When the numbers between the write pointer and a newer packet pass 65535, the write pointer
  jumps over them but none of their slots is marked as missing: the promoted difference
  \<open>seqno - ab_write\<close> is negative, while the numbers skipped are many.
\<close>

theorem gap_across_wrap_not_marked:
  assumes "is_after (ab_write c) seqno" and "seqno < ab_write c"
  shows "place_packet t ts seqno c = (c\<lparr>ab_write := seqno + 1\<rparr>, Some seqno) \<and>
     gap_size seqno (ab_write c) < 0 \<and> 0 < unat (seqno - ab_write c)"
  using gap_at_wrap [OF assms] assms by (simp add: is_after_iff gap_size_def word_less_def)

lemma gap_across_wrap_not_marked_witness:
  "place_packet 1000 5000 3 (sample_conn 65534) = ((sample_conn 65534)\<lparr>ab_write := 4\<rparr>, Some 3)"
  using gap_across_wrap_not_marked [of "sample_conn 65534" 3 1000 5000]
  by (simp add: is_after_def sample_conn_def)

end
