(* ===== verification/Player_Resend.thy ===== *)
theory Player_Resend
  imports Player_Ring
begin

text \<open>
  Which packets \<open>player_put_packet\<close> asks the sender to send again. The specification is the list of
  maximal runs of missing packets in the queue.
\<close>

section \<open>Runs\<close>

function missing_runs :: "u16 \<Rightarrow> bool list \<Rightarrow> (u16 \<times> nat) list" where
  "missing_runs x [] = []"
| "missing_runs x (False # ms) = missing_runs (x + 1) ms"
| "missing_runs x (True # ms) =
     (let n = Suc (length (takeWhile id ms))
      in (x, n) # missing_runs (x + of_nat n) (dropWhile id ms))"
  by pat_completeness auto
termination
  by (relation "measure (\<lambda>(x, ms). length ms)") (auto simp: le_imp_less_Suc length_dropWhile_le)

text \<open>The runs that are still to be asked for when a run from \<open>s\<close> with \<open>n\<close> packets is open.\<close>

definition open_runs :: "u16 option \<Rightarrow> nat \<Rightarrow> u16 \<Rightarrow> bool list \<Rightarrow> (u16 \<times> nat) list" where
  "open_runs start n x ms =
     (case start of
        None \<Rightarrow> missing_runs x ms
      | Some s \<Rightarrow> (s, n + length (takeWhile id ms))
                   # missing_runs (x + of_nat (length (takeWhile id ms))) (dropWhile id ms))"

lemma open_runs_missing:
  "open_runs start n x (True # ms) =
     open_runs (Some (case start of None \<Rightarrow> x | Some s \<Rightarrow> s)) (if start = None then 1 else Suc n) (x + 1) ms"
  by (cases start) (simp_all add: open_runs_def Let_def algebra_simps)

lemma open_runs_ready:
  "open_runs (Some s) n x (False # ms) = (s, n) # missing_runs (x + 1) ms"
  "open_runs None n x (False # ms) = missing_runs (x + 1) ms"
  by (simp_all add: open_runs_def)

section \<open>One turn of the scan\<close>

definition due_or_ready :: "resend_config \<Rightarrow> u64 \<Rightarrow> u64 \<Rightarrow> abuf \<Rightarrow> bool" where
  "due_or_ready cfg t l a \<longleftrightarrow> ready a \<or> slot_due cfg t l a"

lemma scan_step_ready:
  assumes "ready (slot (scan_conn st) x)" and "run_start st = None \<longleftrightarrow> run_count st = 0"
    and "\<not> disable_resend_requests cfg"
  shows "requests (scan_step cfg t l x st) =
           requests st @ (case run_start st of None \<Rightarrow> [] | Some s \<Rightarrow> [(s, run_count st)])"
    and "run_start (scan_step cfg t l x st) = None" and "run_count (scan_step cfg t l x st) = 0"
    and "audio_buffer (scan_conn (scan_step cfg t l x st)) = audio_buffer (scan_conn st)"
    and "ab_write (scan_conn (scan_step cfg t l x st)) = ab_write (scan_conn st)"
  using assms by (auto simp: scan_step_def send_run_def Let_def split: option.splits)

lemma scan_step_due:
  assumes "\<not> ready (slot (scan_conn st) x)" and "slot_due cfg t l (slot (scan_conn st) x)"
    and "run_start st = None \<longleftrightarrow> run_count st = 0" and "\<not> disable_resend_requests cfg"
  defines "s \<equiv> case run_start st of None \<Rightarrow> x | Some s \<Rightarrow> s"
    and "n \<equiv> (if run_start st = None then 1 else Suc (run_count st))"
    and "st' \<equiv> scan_step cfg t l x st"
  shows "x + 1 = ab_write (scan_conn st) \<Longrightarrow> requests st' = requests st @ [(s, n)]"
    and "x + 1 \<noteq> ab_write (scan_conn st) \<Longrightarrow>
          requests st' = requests st \<and> run_start st' = Some s \<and> run_count st' = n"
    and "\<exists>a r. scan_conn st' = (set_slot x a (scan_conn st))\<lparr>resend_requests := r\<rparr>"
proof -
  let ?a = "flagged cfg t l (slot (scan_conn st) x)\<lparr>resend_time := t,
              resend_request_number := resend_request_number (slot (scan_conn st) x) + 1\<rparr>"
  have c: "requests (check_missing cfg t l x st) = requests st"
    "run_start (check_missing cfg t l x st) = Some s" "run_count (check_missing cfg t l x st) = n"
    "scan_conn (check_missing cfg t l x st) = set_slot x ?a (scan_conn st)"
    using assms(2) by (auto simp: check_missing_def Let_def s_def n_def split: option.splits)
  have n: "0 < n" by (simp add: n_def)
  show "x + 1 = ab_write (scan_conn st) \<Longrightarrow> requests st' = requests st @ [(s, n)]"
    using assms(1,4) n c by (simp add: st'_def scan_step_def Let_def send_run_def)
  show "x + 1 \<noteq> ab_write (scan_conn st) \<Longrightarrow>
          requests st' = requests st \<and> run_start st' = Some s \<and> run_count st' = n"
    using assms(1,4) n c by (simp add: st'_def scan_step_def Let_def)
  have "\<exists>r. scan_conn st' = (set_slot x ?a (scan_conn st))\<lparr>resend_requests := r\<rparr>"
  proof (cases "x + 1 = ab_write (scan_conn st)")
    case True
    then show ?thesis
      using assms(1,4) n c by (auto simp: st'_def scan_step_def Let_def send_run_def)
  next
    case False
    then have "scan_conn st' = set_slot x ?a (scan_conn st)"
      using assms(1,4) n c by (simp add: st'_def scan_step_def Let_def)
    then show ?thesis by (intro exI [of _ "resend_requests (scan_conn st)"]) (simp add: set_slot_def)
  qed
  then show "\<exists>a r. scan_conn st' = (set_slot x a (scan_conn st))\<lparr>resend_requests := r\<rparr>" by blast
qed

section \<open>The scan\<close>

lemma slot_resend_requests [simp]: "slot (c\<lparr>resend_requests := r\<rparr>) s = slot c s"
  by (simp add: slot_def)

lemma BUFIDX_next: "0 < i \<Longrightarrow> i < 1024 \<Longrightarrow> BUFIDX x \<noteq> BUFIDX (x + of_nat i)"
  using BUFIDX_eq_near [of 0 i x] by simp

lemma resend_scan_runs:
  assumes "w = x + of_nat n" and "n \<le> 1024"
    and "\<And>i. i < n \<Longrightarrow> due_or_ready cfg t l (slot (scan_conn st) (x + of_nat i))"
    and "ab_write (scan_conn st) = w" and "length (audio_buffer (scan_conn st)) = BUFFER_FRAMES"
    and "run_start st = None \<longleftrightarrow> run_count st = 0" and "n = 0 \<Longrightarrow> run_start st = None"
    and "\<not> disable_resend_requests cfg"
  shows "requests (resend_scan cfg t l w x st) = requests st @
     open_runs (run_start st) (run_count st) x
       (map (\<lambda>i. \<not> ready (slot (scan_conn st) (x + of_nat i))) [0..<n])"
  using assms(1-7)
proof (induction n arbitrary: x st)
  case 0
  then show ?case by (subst resend_scan.simps) (simp add: open_runs_def)
next
  case (Suc n)
  let ?c = "scan_conn st" and ?st = "scan_step cfg t l x st"
  have ne: "x \<noteq> w"
  proof
    assume "x = w"
    then have "(of_nat (Suc n) :: u16) = 0" using Suc.prems(1) by simp
    then have "unat (of_nat (Suc n) :: u16) = 0" by simp
    then show False using Suc.prems(2) by (simp only: unat_of_nat) simp
  qed
  have unfold: "resend_scan cfg t l w x st = resend_scan cfg t l w (x + 1) ?st"
    using ne by (subst resend_scan.simps) simp
  have w: "w = x + 1 + of_nat n" using Suc.prems(1) by (simp add: algebra_simps)
  have shift: "x + 1 + of_nat i = x + of_nat (Suc i)" for i by simp
  have ms: "map (\<lambda>i. \<not> ready (slot ?c (x + of_nat i))) [0..<Suc n] =
      (\<not> ready (slot ?c x)) # map (\<lambda>i. \<not> ready (slot ?c (x + 1 + of_nat i))) [0..<n]"
    by (simp only: upt_conv_Cons [of 0 "Suc n"] map_Suc_upt [symmetric] map_map o_def shift) simp
  show ?case
  proof (cases "ready (slot ?c x)")
    case True
    note step = scan_step_ready [OF True Suc.prems(6) assms(8), of t l]
    have slots: "slot (scan_conn ?st) = slot ?c" by (intro ext) (simp add: slot_def step(4))
    have "requests (resend_scan cfg t l w (x + 1) ?st) = requests ?st @
        open_runs (run_start ?st) (run_count ?st) (x + 1)
          (map (\<lambda>i. \<not> ready (slot (scan_conn ?st) (x + 1 + of_nat i))) [0..<n])"
    proof (rule Suc.IH [OF w])
      show "due_or_ready cfg t l (slot (scan_conn ?st) (x + 1 + of_nat i))" if "i < n" for i
        using Suc.prems(3) [of "Suc i"] that unfolding slots shift by simp
    qed (use Suc.prems step in auto)
    then show ?thesis
      unfolding unfold ms using True step(1-3)
      by (cases "run_start st") (simp_all add: slots open_runs_ready, simp_all add: open_runs_def)
  next
    case False
    have due: "slot_due cfg t l (slot ?c x)"
      using Suc.prems(3) [of 0] False by (simp add: due_or_ready_def)
    note step = scan_step_due [OF False due Suc.prems(6) assms(8)]
    from step(3) obtain a r where conn: "scan_conn ?st = (set_slot x a ?c)\<lparr>resend_requests := r\<rparr>" by blast
    have slots: "slot (scan_conn ?st) (x + 1 + of_nat i) = slot ?c (x + 1 + of_nat i)" if "i < n" for i
    proof -
      have "BUFIDX x \<noteq> BUFIDX (x + 1 + of_nat i)"
        unfolding shift using BUFIDX_next [of "Suc i"] that Suc.prems(2) by simp
      then show ?thesis using Suc.prems(5) by (simp add: conn slot_set_slot)
    qed
    show ?thesis
    proof (cases n)
      case 0
      have "x + 1 = ab_write ?c" using Suc.prems(1,4) 0 by simp
      then have "requests ?st = requests st @ open_runs (run_start st) (run_count st) x [True]"
        using step(1) by (cases "run_start st") (simp_all add: open_runs_def)
      moreover have "resend_scan cfg t l w (x + 1) ?st = ?st"
        using w 0 by (subst resend_scan.simps) simp
      ultimately show ?thesis unfolding unfold using False 0 by simp
    next
      case (Suc m)
      have "x + 1 \<noteq> ab_write ?c"
      proof
        assume "x + 1 = ab_write ?c"
        then have "(of_nat n :: u16) = 0" using w Suc.prems(4) by simp
        then have "unat (of_nat n :: u16) = 0" by simp
        then show False using Suc.prems(2) Suc by (simp only: unat_of_nat) simp
      qed
      note st = step(2) [OF this]
      have "requests (resend_scan cfg t l w (x + 1) ?st) = requests ?st @
          open_runs (run_start ?st) (run_count ?st) (x + 1)
            (map (\<lambda>i. \<not> ready (slot (scan_conn ?st) (x + 1 + of_nat i))) [0..<n])"
      proof (rule Suc.IH [OF w])
        show "due_or_ready cfg t l (slot (scan_conn ?st) (x + 1 + of_nat i))" if "i < n" for i
          using Suc.prems(3) [of "Suc i"] that unfolding slots [OF that] unfolding shift by simp
      qed (use Suc.prems Suc st conn in auto)
      moreover have "map (\<lambda>i. \<not> ready (slot (scan_conn ?st) (x + 1 + of_nat i))) [0..<n] =
          map (\<lambda>i. \<not> ready (slot ?c (x + 1 + of_nat i))) [0..<n]"
        by (rule map_cong) (simp_all add: slots)
      ultimately show ?thesis
        unfolding unfold ms using False st by (simp add: open_runs_missing)
    qed
  qed
qed

text \<open>From the read pointer over the whole queue.\<close>

lemma resend_checks_runs:
  assumes "input_rate c \<noteq> 0" and "length (audio_buffer c) = BUFFER_FRAMES" and "occupancy c \<le> 1024"
    and "\<not> disable_resend_requests cfg"
    and "\<And>i. i < occupancy c \<Longrightarrow> due_or_ready cfg t ((ucast (latency c) * 1000000000) div ucast (input_rate c))
          (slot c (ab_read c + of_nat i))"
  shows "\<exists>c' f. resend_checks cfg t None c =
     Some (c', f, missing_runs (ab_read c) (map (\<lambda>v. v = None) (pending c)))"
proof -
  let ?l = "(ucast (latency c) * 1000000000) div ucast (input_rate c) :: u64"
  let ?st = "\<lparr> scan_conn = c, first_missing = None, run_start = None, run_count = 0,
                missing_count = 0, requests = [] \<rparr>"
  have "requests (resend_scan cfg t ?l (ab_write c) (ab_read c) ?st) =
      missing_runs (ab_read c) (map (\<lambda>i. \<not> ready (slot c (ab_read c + of_nat i))) [0..<occupancy c])"
    using resend_scan_runs [OF write_is_read_plus assms(3), of cfg t ?l ?st] assms
    by (simp add: open_runs_def)
  moreover have "map (\<lambda>v. v = None) (pending c) =
      map (\<lambda>i. \<not> ready (slot c (ab_read c + of_nat i))) [0..<occupancy c]"
    by (simp add: pending_def view_at_def slot_view_def)
  ultimately show ?thesis
    using assms(1) by (simp add: resend_checks_def Let_def scan_start_def)
qed

section \<open>A run goes over a packet that is not due\<close>

text \<open>
  Three missing packets of which the middle one is not due, say because it was asked for a moment ago:
  the run is closed only by a packet that is there or by the write pointer, so one request of two
  packets from the first on goes out. The third packet, noted as asked for, is not in it.
\<close>

lemma scan_step_not_due:
  assumes "\<not> ready (slot (scan_conn st) x)" and "\<not> slot_due cfg t l (slot (scan_conn st) x)"
    and "x + 1 \<noteq> ab_write (scan_conn st)"
  shows "requests (scan_step cfg t l x st) = requests st"
    and "run_start (scan_step cfg t l x st) = run_start st"
    and "run_count (scan_step cfg t l x st) = run_count st"
    and "\<exists>a. scan_conn (scan_step cfg t l x st) = set_slot x a (scan_conn st)"
  using assms by (auto simp: scan_step_def check_missing_def Let_def)

lemma run_over_not_due:
  assumes "length (audio_buffer (scan_conn st)) = BUFFER_FRAMES" and "ab_write (scan_conn st) = x + 3"
    and "requests st = []" and "run_start st = None" and "run_count st = 0"
    and "\<not> disable_resend_requests cfg"
    and "\<not> ready (slot (scan_conn st) x)" "slot_due cfg t l (slot (scan_conn st) x)"
    and "\<not> ready (slot (scan_conn st) (x + 1))" "\<not> slot_due cfg t l (slot (scan_conn st) (x + 1))"
    and "\<not> ready (slot (scan_conn st) (x + 2))" "slot_due cfg t l (slot (scan_conn st) (x + 2))"
  shows "requests (resend_scan cfg t l (x + 3) x st) = [(x, 2)]"
proof -
  let ?c = "scan_conn st"
  have idx: "BUFIDX x \<noteq> BUFIDX (x + 1)" "BUFIDX x \<noteq> BUFIDX (x + 2)" "BUFIDX (x + 1) \<noteq> BUFIDX (x + 2)"
    using BUFIDX_eq_near [of 0 1 x] BUFIDX_eq_near [of 0 2 x] BUFIDX_eq_near [of 1 2 x] by simp_all
  let ?st1 = "scan_step cfg t l x st"
  have s1: "requests ?st1 = []" "run_start ?st1 = Some x" "run_count ?st1 = 1"
    using scan_step_due(2) [OF assms(7,8) _ assms(6)] assms(2-5) by simp_all
  obtain a r where c1: "scan_conn ?st1 = (set_slot x a ?c)\<lparr>resend_requests := r\<rparr>"
    using scan_step_due(3) [OF assms(7,8) _ assms(6)] assms(4,5) by auto
  have sl1: "slot (scan_conn ?st1) (x + 1) = slot ?c (x + 1)" "slot (scan_conn ?st1) (x + 2) = slot ?c (x + 2)"
    using idx assms(1) by (simp_all add: c1 slot_set_slot)
  let ?st2 = "scan_step cfg t l (x + 1) ?st1"
  have w1: "x + 1 + 1 \<noteq> ab_write (scan_conn ?st1)" using assms(2) by (simp add: c1)
  have s2: "requests ?st2 = []" "run_start ?st2 = Some x" "run_count ?st2 = 1"
    using scan_step_not_due(1-3) [of ?st1 "x + 1" cfg t l] assms(9,10) sl1 s1 w1 by simp_all
  obtain b where c2: "scan_conn ?st2 = set_slot (x + 1) b (scan_conn ?st1)"
    using scan_step_not_due(4) [of ?st1 "x + 1" cfg t l] assms(9,10) sl1 w1 by auto
  have "length (audio_buffer (scan_conn ?st1)) = BUFFER_FRAMES" using assms(1) by (simp add: c1)
  then have sl2: "slot (scan_conn ?st2) (x + 2) = slot ?c (x + 2)"
    using idx sl1 by (simp add: c2 slot_set_slot)
  have w2: "x + 2 + 1 = ab_write (scan_conn ?st2)" using assms(2) by (simp add: c2 c1)
  have s3: "requests (scan_step cfg t l (x + 2) ?st2) = [(x, 2)]"
    using scan_step_due(1) [of ?st2 "x + 2" cfg t l] assms(6,11,12) sl2 s2 w2 by (simp add: numeral_2_eq_2)
  have "resend_scan cfg t l (x + 3) x st = resend_scan cfg t l (x + 3) (x + 1) ?st1"
    by (subst resend_scan.simps) simp
  also have "\<dots> = resend_scan cfg t l (x + 3) (x + 2) ?st2"
    by (subst resend_scan.simps) (simp add: add.commute [of 2 x])
  also have "\<dots> = resend_scan cfg t l (x + 3) (x + 3) (scan_step cfg t l (x + 2) ?st2)"
    by (subst resend_scan.simps) (simp add: add.commute [of 3 x])
  also have "\<dots> = scan_step cfg t l (x + 2) ?st2"
    by (subst resend_scan.simps) simp
  finally show ?thesis using s3 by simp
qed

section \<open>The properties\<close>



text \<open>
  A request can ask for the wrong packets. With three missing packets in front of the write
  pointer of which the middle one is not due, one request for two packets from the first goes out: it
  asks for the packet that is not due and leaves out the third, which is due.
\<close>

theorem resend_run_over_packet_not_due:
  assumes "length (audio_buffer (scan_conn st)) = BUFFER_FRAMES" and "ab_write (scan_conn st) = x + 3"
    and "requests st = []" and "run_start st = None" and "run_count st = 0"
    and "\<not> disable_resend_requests cfg"
    and "\<not> ready (slot (scan_conn st) x)" "slot_due cfg t l (slot (scan_conn st) x)"
    and "\<not> ready (slot (scan_conn st) (x + 1))" "\<not> slot_due cfg t l (slot (scan_conn st) (x + 1))"
    and "\<not> ready (slot (scan_conn st) (x + 2))" "slot_due cfg t l (slot (scan_conn st) (x + 2))"
  shows "requests (resend_scan cfg t l (x + 3) x st) = [(x, 2)]"
  using assms by (rule run_over_not_due)

definition sample_scan :: resend_scan_state where
  "sample_scan =
     (let a = (empty_slot 4)\<lparr>initialisation_time := 1000000000\<rparr>;
          c = (sample_conn 0)\<lparr>ab_write := 3, audio_buffer := replicate BUFFER_FRAMES a\<rparr>
      in \<lparr> scan_conn = set_slot 1 (a\<lparr>resend_time := 1999999999\<rparr>) c, first_missing = None,
           run_start = None, run_count = 0, missing_count = 0, requests = [] \<rparr>)"

lemma sample_scan_slots:
  "slot (scan_conn sample_scan) 0 = (empty_slot 4)\<lparr>initialisation_time := 1000000000\<rparr>"
  "slot (scan_conn sample_scan) 1 = (empty_slot 4)\<lparr>initialisation_time := 1000000000, resend_time := 1999999999\<rparr>"
  "slot (scan_conn sample_scan) 2 = (empty_slot 4)\<lparr>initialisation_time := 1000000000\<rparr>"
  by (simp_all add: sample_scan_def Let_def slot_def set_slot_def BUFIDX_def BUFFER_FRAMES_def nth_list_update)

lemma resend_run_over_packet_not_due_witness:
  "requests (resend_scan sample_config 2000000000 2000000000 3 0 sample_scan) = [(0, 2)]"
proof -
  have "length (audio_buffer (scan_conn sample_scan)) = BUFFER_FRAMES" "ab_write (scan_conn sample_scan) = 0 + 3"
    "requests sample_scan = []" "run_start sample_scan = None" "run_count sample_scan = 0"
    by (simp_all add: sample_scan_def Let_def set_slot_def)
  then show ?thesis
    using resend_run_over_packet_not_due [of sample_scan 0 sample_config 2000000000 2000000000]
    by (simp add: sample_scan_slots slot_due_def slot_too_soon_def slot_too_late_def slot_too_early_def
        sample_config_def empty_slot_def)
qed

end
