(* ===== verification/Player_Output.thy ===== *)
theory Player_Output
  imports Player_Ring
begin

text \<open>
  \<open>buffer_get_frame\<close> (\<open>player.c\<close>): the player thread asks for the next packet. One turn of its loop
  looks at the output state, carries out a flush request, drops packets whose time has passed,
  sends silence ahead of the first packet and decides whether to wait; when it need not wait the slot
  at the read pointer is released. What one turn takes from outside (the clock, the conversions
  between frames and time, the answers of the output device) is a record; the silence and flushes it
  sends to the device are events. \<open>None\<close> is undefined behaviour or an endless loop.
\<close>

section \<open>The world of one turn\<close>

record output_config =
  output_rate :: nat
  lead_in_auto :: bool
  lead_in_ns :: int
  desired_buffer_frames :: int
  buffer_latency_offset :: u32

record turn_env =
  local_time_now :: u64
  have_timing :: bool
  have_timing_later :: bool
  requested_output_state :: int
  backend_stopped :: bool
  backend_can_flush :: bool
  backend_delay :: "(int \<times> int) option"
  frame_time :: "u32 \<Rightarrow> u64"
  time_frame :: "u64 \<Rightarrow> u32"

datatype output_event = Flush_device | Play_silence int | Device_stalled

record turn_state =
  ts_conn :: rtsp_conn
  ts_curframe :: "nat option"
  ts_notified_empty :: bool
  ts_dac_delay :: int
  ts_sent_silence :: bool
  ts_events :: "output_event list"

section \<open>Requests to flush\<close>

text \<open>The output has been switched off, or the device is not running.\<close>

definition request_flush :: "rtsp_conn \<Rightarrow> rtsp_conn" where
  "request_flush conn = conn\<lparr>flush_requested := True, flush_rtp_timestamp := 0\<rparr>"

definition check_output_state :: "turn_env \<Rightarrow> rtsp_conn \<Rightarrow> rtsp_conn" where
  "check_output_state env conn =
     (let rco = requested_output_state env;
          conn = (if connection_state_to_output conn \<noteq> rco
                  then let conn = conn\<lparr>connection_state_to_output := rco\<rparr>
                       in if rco = 0 then request_flush conn else conn
                  else conn)
      in if backend_stopped env then request_flush conn else conn)"

text \<open>\<open>conn->ab_write - conn->ab_read\<close> compared with 0 is a difference of \<open>int\<close>s.\<close>

definition buffer_not_empty :: "rtsp_conn \<Rightarrow> bool" where
  "buffer_not_empty conn \<longleftrightarrow> 0 < uint (ab_write conn) - uint (ab_read conn)"

definition last_frame :: "abuf \<Rightarrow> u32" where
  "last_frame a = given_timestamp a + word_of_int (frame_length a) - 1"

text \<open>Packets before the one that holds the flush frame are skipped.\<close>

partial_function (option) skip_to_flush :: "rtsp_conn \<Rightarrow> rtsp_conn option" where
  "skip_to_flush conn =
     (if 0 < sint (flush_rtp_timestamp conn - last_frame (slot conn (ab_read conn)))
      then skip_to_flush (conn\<lparr>ab_read := ab_read conn + 1\<rparr>)
      else Some conn)"

text \<open>The frames before the flush frame are moved out of its packet.\<close>

definition trim_packet :: "rtsp_conn \<Rightarrow> rtsp_conn option" where
  "trim_packet conn =
     (let a = slot conn (ab_read conn);
          frames_to_remove = sint (flush_rtp_timestamp conn - given_timestamp a);
          bpf = input_bytes_per_frame conn;
          frames_remaining = frame_length a - frames_to_remove
      in if 0 < frames_to_remove
         then if frames_remaining < 0 \<or> bpf < 0 then None
              else do { src \<leftarrow> rd_block (frame_data a) (nat (bpf * frames_to_remove))
                                 (nat (frames_remaining * bpf));
                        dat \<leftarrow> wr_block (frame_data a) 0 src;
                        Some (set_slot (ab_read conn)
                          (a\<lparr> frame_data := dat, given_timestamp := flush_rtp_timestamp conn,
                              frame_length := frames_remaining \<rparr>) conn) }
         else Some conn)"

text \<open>The decision: is a flush of everything needed, and is the request done with?\<close>

definition flush_decision :: "rtsp_conn \<Rightarrow> (rtsp_conn \<times> bool \<times> bool) option" where
  "flush_decision conn =
     (if \<not> flush_requested conn then Some (conn, False, False)
      else if flush_rtp_timestamp conn = 0 then Some (conn, True, True)
      else if ab_synced conn \<and> buffer_not_empty conn
      then (let firstPacket = slot conn (ab_read conn);
                lastPacket = slot conn (ab_write conn - 1);
                flush_frame = flush_rtp_timestamp conn
            in if ready firstPacket \<and> ready lastPacket
               then if 0 < sint (flush_frame - given_timestamp firstPacket)
                    then if 0 \<le> sint (last_frame lastPacket - flush_frame)
                         then do { conn \<leftarrow> skip_to_flush conn;
                                   conn \<leftarrow> trim_packet conn;
                                   Some (conn, False, True) }
                         else Some (conn, True, flush_frame = last_frame lastPacket + 1)
                    else Some (conn, False, True)
               else Some (conn, False, False))
      else Some (conn\<lparr>flush_requested := False\<rparr>, False, False))"

definition flush_step :: "turn_env \<Rightarrow> turn_state \<Rightarrow> turn_state option" where
  "flush_step env st =
     do { let conn = ts_conn st;
          let st = (if flush_requested conn \<and> \<not> flush_output_flushed conn \<and> backend_can_flush env
                    then st\<lparr>ts_events := ts_events st @ [Flush_device]\<rparr> else st);
          let conn = (if flush_requested conn then conn\<lparr>flush_output_flushed := True\<rparr> else conn);
          (conn, flush_needed, drop_request) \<leftarrow> flush_decision conn;
          let st = (if flush_needed
                    then st\<lparr> ts_conn := (ab_resync conn)\<lparr> first_packet_timestamp := 0,
                                         first_packet_time_to_play := 0, time_since_play_started := 0 \<rparr>,
                             ts_sent_silence := False, ts_dac_delay := 0 \<rparr>
                    else st\<lparr>ts_conn := conn\<rparr>);
          Some (if drop_request
                then st\<lparr>ts_conn := (ts_conn st)\<lparr> flush_requested := False, flush_rtp_timestamp := 0,
                                               flush_output_flushed := False \<rparr>\<rparr>
                else st) }"

section \<open>Packets whose time has passed\<close>

definition time_to_aim_for :: "turn_env \<Rightarrow> rtsp_conn \<Rightarrow> u64" where
  "time_to_aim_for env conn =
     local_time_now env + (if first_packet_timestamp conn = 0 then 120000000 else 0)"

definition out_of_date :: "turn_env \<Rightarrow> rtsp_conn \<Rightarrow> bool" where
  "out_of_date env conn \<longleftrightarrow>
     (let a = slot conn (ab_read conn)
      in \<not> ready a \<or> sint (given_timestamp a - time_frame env (time_to_aim_for env conn)) < 0)"

text \<open>Each turn moves the read pointer towards the write pointer, in whose direction it counts.\<close>

function skip_out_of_date :: "turn_env \<Rightarrow> rtsp_conn \<Rightarrow> rtsp_conn" where
  "skip_out_of_date env conn =
     (if ab_synced conn \<and> buffer_not_empty conn \<and> out_of_date env conn
      then skip_out_of_date env (conn\<lparr>ab_read := ab_read conn + 1\<rparr>)
      else conn)"
  by pat_completeness auto

lemma ab_read_step_less: "buffer_not_empty conn \<Longrightarrow>
    unat (ab_write conn - (ab_read conn + 1)) < unat (ab_write conn - ab_read conn)"
  by (rule unat_step_less) (auto simp: buffer_not_empty_def)

termination skip_out_of_date
  by (relation "measure (\<lambda>(env, conn). unat (ab_write conn - ab_read conn))")
     (simp_all add: ab_read_step_less)

declare skip_out_of_date.simps [simp del]

section \<open>The packet at the read pointer\<close>

definition look_at_packet :: "turn_state \<Rightarrow> turn_state" where
  "look_at_packet st =
     (let conn = ts_conn st; i = BUFIDX (ab_read conn); a = audio_buffer conn ! i
      in if ab_synced conn
         then (let conn = (if ab_read conn \<noteq> ab_write conn \<and> ready a \<and>
                              sequence_number a \<noteq> ab_read conn \<and> BUFIDX (sequence_number a) = i
                           then conn\<lparr>ab_read := sequence_number a\<rparr> else conn)
               in st\<lparr> ts_conn := conn, ts_curframe := Some i \<rparr>)
         else st)"

text \<open>
  Silence before the first packet, for a device that can tell its delay: how many frames, and whether
  buffering ends.
\<close>

definition first_frame_early_bias :: int where
  "first_frame_early_bias = 8"

definition silence_frames :: "output_config \<Rightarrow> rtsp_conn \<Rightarrow> int \<Rightarrow> u64 \<Rightarrow> int \<times> bool" where
  "silence_frames cfg conn dac_delay lead_time =
     (let gross_frame_gap = sint ((lead_time * of_nat (output_rate cfg)) div 1000000000);
          exact_frame_gap = gross_frame_gap - dac_delay;
          frames_needed = desired_buffer_frames cfg - dac_delay;
          two_packets = 2 * int (max_frames_per_packet conn);
          fs = (if exact_frame_gap \<le> frames_needed then two_packets else frames_needed)
      in if exact_frame_gap \<le> two_packets
         then (if first_frame_early_bias < exact_frame_gap
               then exact_frame_gap - first_frame_early_bias else exact_frame_gap, True)
         else (fs, False))"

definition lead_in_with_delay :: "output_config \<Rightarrow> turn_env \<Rightarrow> int \<times> int \<Rightarrow> turn_state \<Rightarrow> turn_state" where
  "lead_in_with_delay cfg env answer st =
     (let conn = ts_conn st;
          should_be_time = frame_time env (ucast (first_packet_timestamp conn));
          conn = conn\<lparr>first_packet_time_to_play := should_be_time\<rparr>;
          lead = should_be_time - local_time_now env
      in if sint lead < 0
         then st\<lparr>ts_conn := conn\<lparr>ab_buffering := False\<rparr>\<rparr>
         else if lead_in_auto cfg \<or> sint lead \<le> lead_in_ns cfg
         then (let resp = (if ts_sent_silence st then fst answer else 0);
                   dac_delay = (if ts_sent_silence st then snd answer else 0)
               in if resp = 0
                  then (let (fs, done) = silence_frames cfg conn dac_delay lead
                        in st\<lparr> ts_conn := (if done then conn\<lparr>ab_buffering := False\<rparr> else conn),
                               ts_dac_delay := dac_delay,
                               ts_sent_silence := (0 < fs \<or> ts_sent_silence st),
                               ts_events := ts_events st @ (if 0 < fs then [Play_silence fs] else []) \<rparr>)
                  else st\<lparr>ts_conn := conn, ts_dac_delay := dac_delay,
                          ts_events := ts_events st @ [Device_stalled]\<rparr>)
         else st\<lparr>ts_conn := conn\<rparr>)"

text \<open>A device that cannot tell its delay gets the whole lead-in at once, in tenths of a second.\<close>

function silence_chunks :: "nat \<Rightarrow> int \<Rightarrow> output_event list option" where
  "silence_chunks rate frame_gap =
     (if frame_gap \<le> 0 then Some []
      else if rate div 10 = 0 then None
      else (let fs = min (int (rate div 10)) frame_gap
            in map_option ((#) (Play_silence fs)) (silence_chunks rate (frame_gap - fs))))"
  by pat_completeness auto
termination
  by (relation "measure (\<lambda>(rate, gap). nat gap)") auto

declare silence_chunks.simps [simp del]

definition lead_in_without_delay :: "output_config \<Rightarrow> turn_env \<Rightarrow> turn_state \<Rightarrow> turn_state option" where
  "lead_in_without_delay cfg env st =
     do { let conn = ts_conn st;
          let lead_time = sint (first_packet_time_to_play conn - local_time_now env);
          let product = lead_time * int (output_rate cfg);
          silence \<leftarrow> (if product < - (2 ^ 63) \<or> 2 ^ 63 \<le> product then None
                     else silence_chunks (output_rate cfg) (c_div product 1000000000));
          Some (st\<lparr> ts_conn := conn\<lparr>ab_buffering := False\<rparr>, ts_events := ts_events st @ silence \<rparr>) }"

definition buffering_step :: "output_config \<Rightarrow> turn_env \<Rightarrow> turn_state \<Rightarrow> turn_state option" where
  "buffering_step cfg env st =
     (case ts_curframe st of
        None \<Rightarrow> Some st
      | Some i \<Rightarrow>
          let conn = ts_conn st; a = audio_buffer conn ! i
          in if ab_synced conn \<and> ready a
             then (let st = st\<lparr>ts_notified_empty := False\<rparr>
                   in if ab_buffering conn
                      then (let conn = (if first_packet_timestamp conn = 0
                                        then conn\<lparr> first_packet_timestamp := ucast (given_timestamp a),
                                                   first_packet_time_to_play :=
                                                     frame_time env (given_timestamp a) \<rparr>
                                        else conn);
                                st = st\<lparr>ts_conn := conn\<rparr>
                            in if first_packet_time_to_play conn \<noteq> 0
                               then (case backend_delay env of
                                       Some answer \<Rightarrow> Some (lead_in_with_delay cfg env answer st)
                                     | None \<Rightarrow> lead_in_without_delay cfg env st)
                               else Some st)
                      else Some st)
             else Some st)"

section \<open>Waiting\<close>

definition packet_early :: "output_config \<Rightarrow> turn_env \<Rightarrow> abuf \<Rightarrow> bool" where
  "packet_early cfg env a \<longleftrightarrow>
     \<not> have_timing_later env \<or>
     (let time_to_play = frame_time env (given_timestamp a - buffer_latency_offset cfg);
          time_difference = sint (local_time_now env - time_to_play)
      in \<not> time_to_play \<le> local_time_now env \<and>
         \<not> (10000000000 < time_difference \<or> time_difference < - 10000000000))"

definition wait_step :: "output_config \<Rightarrow> turn_env \<Rightarrow> turn_state \<Rightarrow> turn_state \<times> bool" where
  "wait_step cfg env st =
     (let conn = ts_conn st;
          do_wait = (case ts_curframe st of
                       None \<Rightarrow> False
                     | Some i \<Rightarrow> (let a = audio_buffer conn ! i
                                 in ab_synced conn \<and> ready a \<and> given_timestamp a \<noteq> 0 \<and>
                                    packet_early cfg env a));
          empty = (ab_synced conn \<and> ab_read conn = ab_write conn);
          st = (if \<not> do_wait \<and> empty \<and> \<not> ts_notified_empty st
                then st\<lparr> ts_notified_empty := True,
                         ts_conn := conn\<lparr> initial_reference_time := 0, initial_reference_timestamp := 0,
                                          first_packet_timestamp := 0 \<rparr> \<rparr>
                else st)
      in (st, ab_buffering conn \<or> do_wait \<or> empty \<or> \<not> ab_synced conn))"

section \<open>The operation\<close>

definition frame_turn :: "output_config \<Rightarrow> turn_env \<Rightarrow> turn_state \<Rightarrow> (turn_state \<times> bool) option" where
  "frame_turn cfg env st =
     do { (st, wait) \<leftarrow>
            (if have_timing env
             then do { st \<leftarrow> flush_step env (st\<lparr>ts_conn := check_output_state env (ts_conn st)\<rparr>);
                       let st = st\<lparr>ts_conn := skip_out_of_date env (ts_conn st)\<rparr>;
                       st \<leftarrow> buffering_step cfg env (look_at_packet st);
                       Some (wait_step cfg env st) }
             else Some (st, True));
          if wait \<and> input_rate (ts_conn st) = 0 then None else Some (st, wait) }"

text \<open>
  The release: a packet that never came is marked by the timestamp 0, which the caller takes for
  silence.
\<close>

definition release_frame :: "turn_state \<Rightarrow> turn_state \<times> abuf option" where
  "release_frame st =
     (let conn = ts_conn st
      in case ts_curframe st of
           None \<Rightarrow> (st\<lparr>ts_conn := conn\<lparr>ab_read := ab_read conn + 1\<rparr>\<rparr>, None)
         | Some i \<Rightarrow>
             (let a = audio_buffer conn ! i;
                  conn = (if ready a then conn else conn\<lparr>missing_packets := missing_packets conn + 1\<rparr>);
                  a = (if ready a then a else a\<lparr>given_timestamp := 0\<rparr>);
                  a = a\<lparr>ready := False\<rparr>
              in (st\<lparr>ts_conn := conn\<lparr> audio_buffer := (audio_buffer conn)[i := a],
                                      ab_read := ab_read conn + 1 \<rparr>\<rparr>, Some a)))"

datatype get_result = Waiting turn_state | Released turn_state "abuf option"

fun get_frame_loop :: "output_config \<Rightarrow> turn_env list \<Rightarrow> turn_state \<Rightarrow> get_result option" where
  "get_frame_loop cfg [] st = Some (Waiting st)"
| "get_frame_loop cfg (env # envs) st =
     (case frame_turn cfg env st of
        None \<Rightarrow> None
      | Some (st, wait) \<Rightarrow>
          if wait then get_frame_loop cfg envs st
          else (let (st, a) = release_frame st in Some (Released st a)))"

definition buffer_get_frame :: "output_config \<Rightarrow> turn_env list \<Rightarrow> rtsp_conn \<Rightarrow> get_result option" where
  "buffer_get_frame cfg envs conn =
     get_frame_loop cfg envs
       \<lparr> ts_conn = conn, ts_curframe = None, ts_notified_empty = False, ts_dac_delay = 0,
         ts_sent_silence = False, ts_events = [] \<rparr>"

end
