(* ===== verification/Player_Frames.thy ===== *)
theory Player_Frames
  imports Player_Output
begin

text \<open>
  The properties of \<open>buffer_get_frame\<close>: which packets are dropped, when a packet is released and which
  one it is, what flush requests do, and how much silence is sent.
\<close>

section \<open>Moving the read pointer\<close>

definition advance :: "nat \<Rightarrow> rtsp_conn \<Rightarrow> rtsp_conn" where
  "advance n conn = conn\<lparr>ab_read := ab_read conn + of_nat n\<rparr>"

lemma advance_0 [simp]: "advance 0 conn = conn"
  by (simp add: advance_def)

lemma advance_fields [simp]:
  "audio_buffer (advance n c) = audio_buffer c" "ab_write (advance n c) = ab_write c"
  "ab_read (advance n c) = ab_read c + of_nat n" "ab_synced (advance n c) = ab_synced c"
  "flush_rtp_timestamp (advance n c) = flush_rtp_timestamp c"
  "first_packet_timestamp (advance n c) = first_packet_timestamp c"
  "input_bytes_per_frame (advance n c) = input_bytes_per_frame c"
  by (simp_all add: advance_def)

lemma advance_Suc: "advance n (c\<lparr>ab_read := ab_read c + 1\<rparr>) = advance (Suc n) c"
  by (simp add: advance_def algebra_simps)

lemma slot_advance [simp]: "slot (advance n c) s = slot c s"
  by (simp add: slot_def)

lemma view_at_advance [simp]: "view_at (advance n c) s = view_at c s"
  by (simp add: view_at_def)

lemma occupancy_advance: "n \<le> occupancy c \<Longrightarrow> occupancy (advance n c) = occupancy c - n"
proof -
  assume n: "n \<le> occupancy c"
  have "ab_write c - (ab_read c + of_nat n) =
      (ab_read c + of_nat (occupancy c)) - (ab_read c + of_nat n)" by (simp add: occupancy_def)
  then show ?thesis
    using unat_behind [OF n, of "ab_read c"] occupancy_lt [of c] by (simp add: occupancy_def advance_def)
qed

lemma pending_advance:
  assumes "n \<le> occupancy c"
  shows "pending (advance n c) = drop n (pending c)"
proof (rule nth_equalityI)
  show len: "length (pending (advance n c)) = length (drop n (pending c))"
    by (simp add: occupancy_advance assms)
  fix i
  assume "i < length (pending (advance n c))"
  then have i: "i < occupancy c - n" by (simp add: occupancy_advance assms)
  show "pending (advance n c) ! i = drop n (pending c) ! i"
    using i assms nth_upt [of 0 "n + i" "occupancy c"]
    by (simp add: pending_def occupancy_advance add.assoc)
qed

lemma buffer_not_empty_occupancy: "buffer_not_empty c \<Longrightarrow> 0 < occupancy c"
  by (auto simp: buffer_not_empty_def occupancy_def unat_gt_0)

lemma occupancy_next: "buffer_not_empty c \<Longrightarrow> occupancy (advance 1 c) = occupancy c - 1"
  using occupancy_advance [of 1 c] buffer_not_empty_occupancy [of c] by simp

section \<open>Packets whose time has passed\<close>

lemma out_of_date_advance:
  "out_of_date env (advance n c) \<longleftrightarrow>
     (let a = slot c (ab_read c + of_nat n)
      in \<not> ready a \<or> sint (given_timestamp a - time_frame env (time_to_aim_for env c)) < 0)"
  by (simp add: out_of_date_def time_to_aim_for_def)

lemma skip_out_of_date_advance:
  "\<exists>n. skip_out_of_date env c = advance n c \<and> n \<le> occupancy c \<and>
     (\<forall>i<n. out_of_date env (advance i c)) \<and>
     \<not> (ab_synced c \<and> buffer_not_empty (advance n c) \<and> out_of_date env (advance n c))"
proof (induction env c rule: skip_out_of_date.induct)
  case (1 env c)
  show ?case
  proof (cases "ab_synced c \<and> buffer_not_empty c \<and> out_of_date env c")
    case True
    let ?d = "c\<lparr>ab_read := ab_read c + 1\<rparr>"
    have d: "?d = advance 1 c" by (simp add: advance_def)
    from 1 [OF True] obtain n where n: "skip_out_of_date env ?d = advance n ?d" "n \<le> occupancy ?d"
      "\<forall>i<n. out_of_date env (advance i ?d)"
      "\<not> (ab_synced ?d \<and> buffer_not_empty (advance n ?d) \<and> out_of_date env (advance n ?d))" by blast
    have occ: "occupancy ?d = occupancy c - 1" "0 < occupancy c"
      using occupancy_next [of c] buffer_not_empty_occupancy [of c] True unfolding d by auto
    have "skip_out_of_date env c = advance (Suc n) c"
      using True n(1) by (subst skip_out_of_date.simps) (simp add: advance_Suc)
    moreover have "\<forall>i<Suc n. out_of_date env (advance i c)"
      using n(3) True by (auto simp: advance_Suc less_Suc_eq_0_disj)
    moreover have "Suc n \<le> occupancy c" using n(2) occ by simp
    moreover have "\<not> (ab_synced c \<and> buffer_not_empty (advance (Suc n) c) \<and> out_of_date env (advance (Suc n) c))"
      using n(4) by (simp add: advance_Suc)
    ultimately show ?thesis by blast
  next
    case False
    then show ?thesis by (subst skip_out_of_date.simps) (auto intro!: exI [of _ 0])
  qed
qed

section \<open>Skipping to the flush frame\<close>

lemma sint_minus_not_pos:
  assumes "0 \<le> sint (x :: u32)"
  shows "\<not> 0 < sint (- x)"
  using assms uint_u32 [of x] uint_minus_u32 [of 0 x] by (auto simp: sint_u32 split: if_splits)

lemma skip_to_flush_here:
  "\<not> 0 < sint (flush_rtp_timestamp c - last_frame (slot c (ab_read c))) \<Longrightarrow> skip_to_flush c = Some c"
  by (subst skip_to_flush.simps) simp

text \<open>
  The loop has no test for the write pointer. It stops all the same, at the last packet if not before:
  the code enters it only when the flush frame is not behind that packet.
\<close>

lemma skip_to_flush_advance:
  assumes "m \<le> occupancy c"
    and "\<not> 0 < sint (flush_rtp_timestamp c - last_frame (slot c (ab_read c + of_nat m)))"
  shows "\<exists>n\<le>m. skip_to_flush c = Some (advance n c) \<and>
     (\<forall>i<n. 0 < sint (flush_rtp_timestamp c - last_frame (slot c (ab_read c + of_nat i)))) \<and>
     \<not> 0 < sint (flush_rtp_timestamp c - last_frame (slot c (ab_read c + of_nat n)))"
  using assms
proof (induction m arbitrary: c)
  case 0
  then show ?case using skip_to_flush_here [of c] by auto
next
  case (Suc m)
  show ?case
  proof (cases "0 < sint (flush_rtp_timestamp c - last_frame (slot c (ab_read c)))")
    case True
    let ?d = "c\<lparr>ab_read := ab_read c + 1\<rparr>"
    have d: "?d = advance 1 c" by (simp add: advance_def)
    have sh: "ab_read c + 1 + of_nat i = ab_read c + of_nat (Suc i)" for i by simp
    have "\<exists>n\<le>m. skip_to_flush ?d = Some (advance n ?d) \<and>
       (\<forall>i<n. 0 < sint (flush_rtp_timestamp ?d - last_frame (slot ?d (ab_read ?d + of_nat i)))) \<and>
       \<not> 0 < sint (flush_rtp_timestamp ?d - last_frame (slot ?d (ab_read ?d + of_nat n)))"
    proof (rule Suc.IH)
      show "m \<le> occupancy ?d" unfolding d using Suc.prems(1) by (simp add: occupancy_advance)
      show "\<not> 0 < sint (flush_rtp_timestamp ?d - last_frame (slot ?d (ab_read ?d + of_nat m)))"
        unfolding d using Suc.prems(2) by (simp add: algebra_simps)
    qed
    then obtain n where n: "n \<le> m" "skip_to_flush ?d = Some (advance n ?d)"
      "\<forall>i<n. 0 < sint (flush_rtp_timestamp c - last_frame (slot c (ab_read c + of_nat (Suc i))))"
      "\<not> 0 < sint (flush_rtp_timestamp c - last_frame (slot c (ab_read c + of_nat (Suc n))))"
      unfolding d by (auto simp: algebra_simps)
    have "skip_to_flush c = Some (advance (Suc n) c)"
      using True n(2) by (subst skip_to_flush.simps) (simp add: advance_Suc)
    moreover have "\<forall>i<Suc n. 0 < sint (flush_rtp_timestamp c - last_frame (slot c (ab_read c + of_nat i)))"
      using n(3) True by (auto simp: less_Suc_eq_0_disj)
    ultimately show ?thesis using n(1,4) by (intro exI [of _ "Suc n"]) auto
  next
    case False
    then show ?thesis using skip_to_flush_here [of c] by (intro exI [of _ 0]) auto
  qed
qed

section \<open>A turn that does not wait\<close>

text \<open>What the steps after the dropping leave alone.\<close>

definition same_slots :: "rtsp_conn \<Rightarrow> rtsp_conn \<Rightarrow> bool" where
  "same_slots c c' \<longleftrightarrow>
     audio_buffer c' = audio_buffer c \<and> ab_read c' = ab_read c \<and> ab_write c' = ab_write c \<and>
     ab_synced c' = ab_synced c"

lemma same_slots_refl [simp]: "same_slots c c"
  by (simp add: same_slots_def)

lemma same_slots_pending: "same_slots c c' \<Longrightarrow> pending c' = pending c \<and> occupancy c' = occupancy c"
  by (simp add: pending_def occupancy_def view_at_def slot_def same_slots_def)

lemma lead_in_with_delay_same:
  "same_slots (ts_conn st) (ts_conn (lead_in_with_delay cfg env answer st)) \<and>
   ts_curframe (lead_in_with_delay cfg env answer st) = ts_curframe st"
  by (simp add: lead_in_with_delay_def Let_def same_slots_def split: prod.split)

lemma lead_in_without_delay_same:
  "lead_in_without_delay cfg env st = Some st' \<Longrightarrow>
   same_slots (ts_conn st) (ts_conn st') \<and> ts_curframe st' = ts_curframe st"
  by (auto simp: lead_in_without_delay_def Let_def same_slots_def bind_eq_Some_conv)

lemma buffering_step_same:
  assumes "buffering_step cfg env st = Some st'"
  shows "same_slots (ts_conn st) (ts_conn st') \<and> ts_curframe st' = ts_curframe st"
proof -
  have keep: "same_slots c c'' \<Longrightarrow> same_slots (c\<lparr>first_packet_timestamp := p, first_packet_time_to_play := q\<rparr>) c'
      \<longleftrightarrow> same_slots c c'" for c c' c'' :: rtsp_conn and p q
    by (simp add: same_slots_def)
  show ?thesis
    using assms lead_in_with_delay_same lead_in_without_delay_same
    by (fastforce simp: buffering_step_def Let_def same_slots_def split: option.splits if_splits)
qed

lemma look_at_packet_synced:
  "ab_synced (ts_conn st) \<Longrightarrow>
   ts_curframe (look_at_packet st) = Some (BUFIDX (ab_read (ts_conn (look_at_packet st)))) \<and>
   ab_synced (ts_conn (look_at_packet st))"
  by (auto simp: look_at_packet_def Let_def)

lemma look_at_packet_not_synced: "\<not> ab_synced (ts_conn st) \<Longrightarrow> look_at_packet st = st"
  by (simp add: look_at_packet_def Let_def)

lemma wait_step_no_wait:
  "wait_step cfg env st = (st', False) \<Longrightarrow>
   st' = st \<and> ab_synced (ts_conn st) \<and> ab_read (ts_conn st) \<noteq> ab_write (ts_conn st) \<and>
   \<not> ab_buffering (ts_conn st) \<and>
   (\<forall>i. ts_curframe st = Some i \<longrightarrow> ready (audio_buffer (ts_conn st) ! i) \<longrightarrow>
        given_timestamp (audio_buffer (ts_conn st) ! i) \<noteq> 0 \<longrightarrow>
        \<not> packet_early cfg env (audio_buffer (ts_conn st) ! i))"
  by (auto simp: wait_step_def Let_def split: option.splits if_splits)

lemma frame_turn_release:
  assumes "frame_turn cfg env st = Some (st', False)"
  obtains st1 st2 where "have_timing env"
    and "flush_step env (st\<lparr>ts_conn := check_output_state env (ts_conn st)\<rparr>) = Some st1"
    and "st2 = look_at_packet (st1\<lparr>ts_conn := skip_out_of_date env (ts_conn st1)\<rparr>)"
    and "same_slots (ts_conn st2) (ts_conn st')" and "ts_curframe st' = Some (BUFIDX (ab_read (ts_conn st')))"
    and "ab_synced (ts_conn st')" and "ab_read (ts_conn st') \<noteq> ab_write (ts_conn st')"
    and "\<not> ab_buffering (ts_conn st')"
    and "ready (slot (ts_conn st') (ab_read (ts_conn st'))) \<Longrightarrow>
         given_timestamp (slot (ts_conn st') (ab_read (ts_conn st'))) \<noteq> 0 \<Longrightarrow>
         \<not> packet_early cfg env (slot (ts_conn st') (ab_read (ts_conn st')))"
proof -
  from assms obtain st1 st3 where
    t: "have_timing env" "flush_step env (st\<lparr>ts_conn := check_output_state env (ts_conn st)\<rparr>) = Some st1"
    and b: "buffering_step cfg env (look_at_packet (st1\<lparr>ts_conn := skip_out_of_date env (ts_conn st1)\<rparr>)) = Some st3"
    and w: "wait_step cfg env st3 = (st', False)"
    by (auto simp: frame_turn_def Let_def bind_eq_Some_conv split: if_splits prod.splits)
  let ?st0 = "st1\<lparr>ts_conn := skip_out_of_date env (ts_conn st1)\<rparr>"
  note w' = wait_step_no_wait [OF w]
  have eq: "st' = st3" using w' by blast
  note s = buffering_step_same [OF b]
  have syn: "ab_synced (ts_conn (look_at_packet ?st0))"
    using s w' eq by (simp add: same_slots_def)
  then have "ab_synced (ts_conn ?st0)" using look_at_packet_not_synced [of ?st0] by metis
  note l = look_at_packet_synced [OF this]
  have cur: "ts_curframe st' = Some (BUFIDX (ab_read (ts_conn st')))"
    using s l eq by (simp add: same_slots_def)
  show thesis
    using that [OF t refl] s eq w' cur by (simp add: slot_def)
qed

section \<open>The release\<close>

definition frame_matches :: "abuf \<Rightarrow> packet_view option \<Rightarrow> bool" where
  "frame_matches a v =
     (case v of
        None \<Rightarrow> given_timestamp a = 0
      | Some (s, ts, n, d) \<Rightarrow>
          sequence_number a = s \<and> given_timestamp a = ts \<and> frame_length a = n \<and> frame_data a = d)"

lemma view_at_release:
  assumes "length (audio_buffer c) = BUFFER_FRAMES" and "BUFIDX s \<noteq> BUFIDX u"
    and "audio_buffer c' = (audio_buffer c)[BUFIDX s := a]"
  shows "view_at c' u = view_at c u"
  using assms by (simp add: view_at_def slot_def)

lemma release_head:
  assumes "length (audio_buffer c) = BUFFER_FRAMES" and "ts_conn st = c"
    and "ts_curframe st = Some (BUFIDX (ab_read c))" and "0 < occupancy c" and "occupancy c \<le> 1024"
    and "release_frame st = (st', fr)"
  shows "\<exists>a. fr = Some a \<and> frame_matches a (pending c ! 0) \<and> pending (ts_conn st') = drop 1 (pending c) \<and>
     \<not> ready a"
proof -
  let ?r = "ab_read c" and ?a = "slot c (ab_read c)"
  define a where "a = (if ready ?a then ?a else ?a\<lparr>given_timestamp := 0\<rparr>)\<lparr>ready := False\<rparr>"
  have st': "fr = Some a" "audio_buffer (ts_conn st') = (audio_buffer c)[BUFIDX ?r := a]"
    "ab_read (ts_conn st') = ?r + 1" "ab_write (ts_conn st') = ab_write c"
    using assms(2,3,6) by (auto simp: release_frame_def Let_def slot_def a_def split: if_splits)
  have head: "pending c ! 0 = view_at c ?r"
    using assms(4) by (simp add: pending_def)
  have m: "frame_matches a (pending c ! 0)"
    unfolding head by (simp add: frame_matches_def view_at_def slot_view_def a_def)
  have occ: "occupancy (ts_conn st') = occupancy c - 1"
    using occupancy_advance [of 1 c] assms(4) by (simp add: occupancy_def st')
  have "pending (ts_conn st') = pending (advance 1 c)"
  proof (rule nth_equalityI)
    show "length (pending (ts_conn st')) = length (pending (advance 1 c))"
      using occ occupancy_advance [of 1 c] assms(4) by simp
    fix i
    assume "i < length (pending (ts_conn st'))"
    then have i: "i < occupancy c - 1" by (simp add: occ)
    have "BUFIDX ?r \<noteq> BUFIDX (?r + of_nat (Suc i))"
      using BUFIDX_eq_near [of 0 "Suc i" ?r] i assms(5) by simp
    then have "view_at (ts_conn st') (?r + of_nat (Suc i)) = view_at c (?r + of_nat (Suc i))"
      using view_at_release [OF assms(1) _ st'(2)] by blast
    then show "pending (ts_conn st') ! i = pending (advance 1 c) ! i"
      using i occ occupancy_advance [of 1 c] assms(4) by (simp add: pending_def st' algebra_simps)
  qed
  then have "pending (ts_conn st') = drop 1 (pending c)" using pending_advance [of 1 c] assms(4) by simp
  then show ?thesis using st'(1) m by (simp add: a_def)
qed

section \<open>Delivery in order\<close>

text \<open>Every packet in the ring carries the number of its place.\<close>

definition numbered :: "rtsp_conn \<Rightarrow> bool" where
  "numbered c \<longleftrightarrow> (\<forall>i<occupancy c. \<forall>s ts n d. pending c ! i = Some (s, ts, n, d) \<longrightarrow> s = ab_read c + of_nat i)"

lemma look_at_packet_numbered:
  assumes "numbered c" and "n < occupancy c" and "ts_conn st = advance n c"
  shows "ts_conn (look_at_packet st) = advance n c"
proof -
  define r where "r = ab_read c + of_nat n"
  have p: "pending c ! n = view_at c r" using assms(2) by (simp add: pending_def r_def)
  have "s = r" if "pending c ! n = Some (s, ts, m, d)" for s ts m d
    using assms(1,2) that unfolding numbered_def r_def by blast
  then have seq: "sequence_number (slot c r) = r" if "ready (slot c r)"
    using that unfolding p view_at_def slot_view_def by simp
  have rd: "ab_read (ts_conn st) = r" "audio_buffer (ts_conn st) ! BUFIDX r = slot c r"
    using assms(3) by (simp_all add: r_def slot_def)
  have "ts_conn (look_at_packet st) = ts_conn st"
    using seq by (cases "ready (slot c r)") (simp_all add: look_at_packet_def Let_def rd)
  then show ?thesis using assms(3) by simp
qed

lemma look_at_packet_empty:
  "ab_read (ts_conn st) = ab_write (ts_conn st) \<Longrightarrow> ts_conn (look_at_packet st) = ts_conn st"
  by (simp add: look_at_packet_def Let_def)

lemma flush_step_idle:
  "\<not> flush_requested (ts_conn st) \<Longrightarrow> flush_step env st = Some st"
  by (simp add: flush_step_def flush_decision_def Let_def)

lemma check_output_state_same:
  "requested_output_state env = connection_state_to_output c \<Longrightarrow> \<not> backend_stopped env \<Longrightarrow>
   check_output_state env c = c"
  by (simp add: check_output_state_def Let_def)

lemma delivers_next:
  assumes "\<not> flush_requested c" and "requested_output_state env = connection_state_to_output c"
    and "\<not> backend_stopped env" and "numbered c" and "occupancy c \<le> 1024"
    and "length (audio_buffer c) = BUFFER_FRAMES" and "ts_conn st = c"
    and "frame_turn cfg env st = Some (st', False)" and "release_frame st' = (st'', fr)"
  shows "\<exists>n a. n < occupancy c \<and> fr = Some a \<and> frame_matches a (pending c ! n) \<and>
     pending (ts_conn st'') = drop (Suc n) (pending c) \<and> (\<forall>i<n. out_of_date env (advance i c))"
proof -
  obtain st1 st2 where t: "flush_step env (st\<lparr>ts_conn := check_output_state env (ts_conn st)\<rparr>) = Some st1"
    "st2 = look_at_packet (st1\<lparr>ts_conn := skip_out_of_date env (ts_conn st1)\<rparr>)"
    "same_slots (ts_conn st2) (ts_conn st')" "ts_curframe st' = Some (BUFIDX (ab_read (ts_conn st')))"
    "ab_read (ts_conn st') \<noteq> ab_write (ts_conn st')"
    by (rule frame_turn_release [OF assms(8)]) blast
  have "st\<lparr>ts_conn := check_output_state env (ts_conn st)\<rparr> = st"
    using check_output_state_same [OF assms(2,3)] assms(7) by (cases st) simp
  then have "st1 = st" using t(1) flush_step_idle [of st env] assms(1,7) by simp
  obtain n where n: "skip_out_of_date env c = advance n c" "n \<le> occupancy c"
      "\<forall>i<n. out_of_date env (advance i c)"
    using skip_out_of_date_advance by blast
  let ?s = "st\<lparr>ts_conn := advance n c\<rparr>"
  have st2: "st2 = look_at_packet ?s" using t(2) \<open>st1 = st\<close> assms(7) n(1) by simp
  have lt: "n < occupancy c"
  proof (rule ccontr)
    assume "\<not> n < occupancy c"
    then have "n = occupancy c" using n(2) by simp
    then have "ab_read (advance n c) = ab_write (advance n c)" using write_is_read_plus [of c] by simp
    then have "ts_conn st2 = advance n c" using look_at_packet_empty [of ?s] st2 by simp
    then show False
      using t(3,5) \<open>ab_read (advance n c) = ab_write (advance n c)\<close> by (simp add: same_slots_def)
  qed
  have c2: "ts_conn st2 = advance n c" using look_at_packet_numbered [OF assms(4) lt, of ?s] st2 by simp
  note same = same_slots_pending [OF t(3)]
  have pend: "pending (ts_conn st') = drop n (pending c)" "occupancy (ts_conn st') = occupancy c - n"
    using same c2 pending_advance [OF n(2)] occupancy_advance [OF n(2)] by simp_all
  have len: "length (audio_buffer (ts_conn st')) = BUFFER_FRAMES"
    using t(3) c2 assms(6) by (simp add: same_slots_def)
  obtain a where a: "fr = Some a" "frame_matches a (pending (ts_conn st') ! 0)"
      "pending (ts_conn st'') = drop 1 (pending (ts_conn st'))"
  proof -
    have "0 < occupancy (ts_conn st')" "occupancy (ts_conn st') \<le> 1024" using pend(2) lt assms(5) by simp_all
    then show thesis using that release_head [OF len refl t(4) _ _ assms(9)] by blast
  qed
  have "pending (ts_conn st'') = drop (Suc n) (pending c)" using a(3) pend(1) by simp
  moreover have "frame_matches a (pending c ! n)" using a(2) pend(1) lt by simp
  ultimately show ?thesis using lt a(1) n(3) by blast
qed

end
