(* ===== verification/Player_Flush.thy ===== *)
theory Player_Flush
  imports Player_Frames
begin

text \<open>
  Flush requests and the silence before the first packet: what \<open>buffer_get_frame\<close> leaves in the ring
  after a flush of everything and after a flush to a frame, where the flush to a frame goes wrong,
  and how much silence is sent.
\<close>

section \<open>Flushing everything\<close>

lemma flush_all:
  assumes "flush_requested (ts_conn st)" and "flush_rtp_timestamp (ts_conn st) = 0"
  shows "\<exists>st'. flush_step env st = Some st' \<and> \<not> ab_synced (ts_conn st') \<and>
     (\<forall>a\<in>set (audio_buffer (ts_conn st')). \<not> ready a) \<and> ab_buffering (ts_conn st') \<and>
     \<not> flush_requested (ts_conn st') \<and> \<not> flush_output_flushed (ts_conn st') \<and>
     first_packet_timestamp (ts_conn st') = 0 \<and> (buffer_ok (ts_conn st) \<longrightarrow> buffer_ok (ts_conn st'))"
  using assms
  by (auto simp: flush_step_def flush_decision_def Let_def ab_resync_def resync_slot_def buffer_ok_def)

section \<open>Flushing to a frame\<close>

text \<open>
  A queue that can be flushed to a frame: every packet is there, has at least one frame and at most
  \<open>2 ^ 20\<close>, fits its block, and starts where the one before it ends.
\<close>

definition packet_sane :: "int \<Rightarrow> abuf \<Rightarrow> bool" where
  "packet_sane bpf a \<longleftrightarrow>
     ready a \<and> 1 \<le> frame_length a \<and> frame_length a \<le> 2 ^ 20 \<and> 0 < bpf \<and>
     bpf * frame_length a \<le> int (length (frame_data a))"

definition contiguous :: "rtsp_conn \<Rightarrow> bool" where
  "contiguous c \<longleftrightarrow>
     (\<forall>i<occupancy c. packet_sane (input_bytes_per_frame c) (slot c (ab_read c + of_nat i))) \<and>
     (\<forall>i. Suc i < occupancy c \<longrightarrow>
        given_timestamp (slot c (ab_read c + of_nat (Suc i))) = last_frame (slot c (ab_read c + of_nat i)) + 1)"

lemma uint_of_small: "0 \<le> k \<Longrightarrow> k < 2 ^ 32 \<Longrightarrow> uint (word_of_int k :: u32) = k"
  by (simp add: uint_word_of_int_eq take_bit_int_eq_self)

text \<open>The flush frame lies in the packet at which skipping stopped.\<close>

lemma flush_frame_inside:
  assumes "packet_sane bpf a" and "0 \<le> sint (f - given_timestamp a)"
    and "\<not> 0 < sint (f - last_frame a)"
  shows "sint (f - given_timestamp a) < frame_length a"
proof -
  let ?r = "f - given_timestamp a" and ?m = "frame_length a - 1"
  have m: "0 \<le> ?m" "?m < 2 ^ 20" using assms(1) by (auto simp: packet_sane_def)
  have l: "f - last_frame a = ?r - word_of_int ?m"
    by (simp add: last_frame_def algebra_simps)
  have um: "uint (word_of_int ?m :: u32) = ?m" using m by (intro uint_of_small) auto
  have r: "uint ?r < 2147483648" "sint ?r = uint ?r"
    using assms(2) uint_u32 [of ?r] by (auto simp: sint_u32 split: if_splits)
  show ?thesis
    using assms(3) m r uint_u32 [of ?r]
    unfolding l sint_u32 [of "?r - word_of_int ?m"] uint_minus_u32 [of ?r] um
    by (auto split: if_splits)
qed

lemma sint_pos_step:
  assumes "0 < sint (f - l :: u32)"
  shows "0 \<le> sint (f - (l + 1))"
proof -
  have e: "f - (l + 1) = (f - l) - 1" by simp
  show ?thesis
    using assms uint_u32 [of "f - l"]
    unfolding e sint_u32 [of "f - l - 1"] sint_u32 [of "f - l"] uint_minus_u32 [of "f - l" 1]
    by (auto split: if_splits)
qed

lemma trim_exact:
  assumes "packet_sane (input_bytes_per_frame c) (slot c (ab_read c))"
    and "0 \<le> sint (flush_rtp_timestamp c - given_timestamp (slot c (ab_read c)))"
    and "\<not> 0 < sint (flush_rtp_timestamp c - last_frame (slot c (ab_read c)))"
    and "length (audio_buffer c) = BUFFER_FRAMES"
  shows "\<exists>c' r. trim_packet c = Some c' \<and> 0 \<le> r \<and> r < frame_length (slot c (ab_read c)) \<and>
     r = sint (flush_rtp_timestamp c - given_timestamp (slot c (ab_read c))) \<and>
     ab_read c' = ab_read c \<and> ab_write c' = ab_write c \<and>
     ready (slot c' (ab_read c)) \<and> given_timestamp (slot c' (ab_read c)) = flush_rtp_timestamp c \<and>
     frame_length (slot c' (ab_read c)) = frame_length (slot c (ab_read c)) - r \<and>
     take (nat (input_bytes_per_frame c * frame_length (slot c' (ab_read c)))) (frame_data (slot c' (ab_read c))) =
       take (nat (input_bytes_per_frame c * frame_length (slot c' (ab_read c))))
         (drop (nat (input_bytes_per_frame c * r)) (frame_data (slot c (ab_read c))))"
proof -
  let ?a = "slot c (ab_read c)" and ?b = "input_bytes_per_frame c"
  define r where "r = sint (flush_rtp_timestamp c - given_timestamp ?a)"
  have lt: "0 \<le> r" "r < frame_length ?a"
    using flush_frame_inside [OF assms(1-3)] assms(2) by (simp_all add: r_def)
  show ?thesis
  proof (cases "r = 0")
    case True
    have "flush_rtp_timestamp c - given_timestamp ?a = 0"
      using True by (metis r_def signed_eq_0_iff)
    then have "given_timestamp ?a = flush_rtp_timestamp c" by simp
    moreover have "trim_packet c = Some c" using True by (simp add: trim_packet_def Let_def r_def)
    ultimately show ?thesis using True lt assms(1) by (auto simp: packet_sane_def r_def [symmetric])
  next
    case False
    have b: "0 < ?b" "?b * frame_length ?a \<le> int (length (frame_data ?a))"
      using assms(1) by (auto simp: packet_sane_def)
    have sum: "nat (?b * r) + nat ((frame_length ?a - r) * ?b) = nat (?b * frame_length ?a)"
      using lt b(1) by (simp add: nat_add_distrib [symmetric] algebra_simps)
    have fit: "nat (?b * r) + nat ((frame_length ?a - r) * ?b) \<le> length (frame_data ?a)"
      unfolding sum using b(2) by linarith
    let ?n = "nat ((frame_length ?a - r) * ?b)"
    let ?src = "take ?n (drop (nat (?b * r)) (frame_data ?a))"
    have src: "rd_block (frame_data ?a) (nat (?b * r)) ?n = Some ?src"
      using fit by (simp add: rd_block_def)
    have ls: "length ?src = ?n" using fit by simp
    have dst: "wr_block (frame_data ?a) 0 ?src = Some (?src @ drop ?n (frame_data ?a))"
      using fit ls by (simp add: wr_block_def)
    let ?t = "?a\<lparr>frame_data := ?src @ drop ?n (frame_data ?a), given_timestamp := flush_rtp_timestamp c,
                 frame_length := frame_length ?a - r\<rparr>"
    have "trim_packet c = Some (set_slot (ab_read c) ?t c)"
      using False lt b(1) src dst by (simp add: trim_packet_def Let_def r_def [symmetric])
    moreover have "slot (set_slot (ab_read c) ?t c) (ab_read c) = ?t"
      using assms(4) by (simp add: slot_set_slot)
    moreover have "ready ?a" using assms(1) by (simp add: packet_sane_def)
    moreover have "nat (?b * (frame_length ?a - r)) = ?n" by (simp add: mult.commute)
    ultimately show ?thesis using lt ls by (auto simp: r_def [symmetric])
  qed
qed

lemma flush_to_frame:
  assumes "flush_requested c" and "flush_rtp_timestamp c \<noteq> 0" and "ab_synced c" and "buffer_not_empty c"
    and "contiguous c" and "length (audio_buffer c) = BUFFER_FRAMES"
    and "0 < sint (flush_rtp_timestamp c - given_timestamp (slot c (ab_read c)))"
    and "0 \<le> sint (last_frame (slot c (ab_write c - 1)) - flush_rtp_timestamp c)"
  shows "\<exists>c' n r. flush_decision c = Some (c', False, True) \<and> n < occupancy c \<and>
     ab_read c' = ab_read c + of_nat n \<and> ab_write c' = ab_write c \<and>
     ready (slot c' (ab_read c')) \<and> given_timestamp (slot c' (ab_read c')) = flush_rtp_timestamp c \<and>
     0 \<le> r \<and> frame_length (slot c' (ab_read c')) = frame_length (slot c (ab_read c')) - r \<and>
     1 \<le> frame_length (slot c' (ab_read c'))"
proof -
  let ?f = "flush_rtp_timestamp c" and ?q = "occupancy c"
  have q: "0 < ?q" using buffer_not_empty_occupancy assms(4) by blast
  have last: "ab_write c - 1 = ab_read c + of_nat (?q - 1)"
    using write_is_read_plus [of c] q by (simp add: of_nat_diff)
  have sane: "packet_sane (input_bytes_per_frame c) (slot c (ab_read c + of_nat i))" if "i < ?q" for i
    using assms(5) that by (simp add: contiguous_def)
  have rdy: "ready (slot c (ab_read c))" "ready (slot c (ab_write c - 1))"
    using sane [of 0] sane [of "?q - 1"] q unfolding last by (auto simp: packet_sane_def)
  have "?f - last_frame (slot c (ab_write c - 1)) = - (last_frame (slot c (ab_write c - 1)) - ?f)" by simp
  then have stop: "\<not> 0 < sint (?f - last_frame (slot c (ab_read c + of_nat (?q - 1))))"
    using sint_minus_not_pos [OF assms(8)] unfolding last by simp
  obtain n where n: "n \<le> ?q - 1" "skip_to_flush c = Some (advance n c)"
    "\<forall>i<n. 0 < sint (?f - last_frame (slot c (ab_read c + of_nat i)))"
    "\<not> 0 < sint (?f - last_frame (slot c (ab_read c + of_nat n)))"
    using skip_to_flush_advance [OF _ stop] q by auto
  have nq: "n < ?q" using n(1) q by simp
  let ?d = "advance n c"
  have start: "0 \<le> sint (?f - given_timestamp (slot c (ab_read c + of_nat n)))"
  proof (cases n)
    case 0
    then show ?thesis using assms(7) by simp
  next
    case (Suc m)
    have "given_timestamp (slot c (ab_read c + of_nat (Suc m))) = last_frame (slot c (ab_read c + of_nat m)) + 1"
      using assms(5) nq Suc unfolding contiguous_def by blast
    then show ?thesis using sint_pos_step n(3) Suc by simp
  qed
  obtain c' r where c': "trim_packet ?d = Some c'" "0 \<le> r" "r < frame_length (slot c (ab_read c + of_nat n))"
    "ab_read c' = ab_read ?d" "ab_write c' = ab_write ?d" "ready (slot c' (ab_read ?d))"
    "given_timestamp (slot c' (ab_read ?d)) = ?f"
    "frame_length (slot c' (ab_read ?d)) = frame_length (slot c (ab_read c + of_nat n)) - r"
    using trim_exact [of ?d] sane [OF nq] start n(4) assms(6) by auto
  have "flush_decision c = Some (c', False, True)"
    using assms(1-4,7,8) rdy n(2) c'(1) by (simp add: flush_decision_def Let_def)
  then show ?thesis using nq c' by (intro exI [of _ c'] exI [of _ n] exI [of _ r]) auto
qed

section \<open>Where it goes wrong\<close>

text \<open>A packet that never came has the timestamp 0: to a flush frame from \<open>2 ^ 31\<close> on it looks late.\<close>

lemma flush_stops_at_missing:
  assumes "flush_requested c" and "ab_synced c" and "buffer_not_empty c"
    and "ready (slot c (ab_read c))" and "ready (slot c (ab_write c - 1))"
    and "0 < sint (flush_rtp_timestamp c - given_timestamp (slot c (ab_read c)))"
    and "0 \<le> sint (last_frame (slot c (ab_write c - 1)) - flush_rtp_timestamp c)"
    and "0 < sint (flush_rtp_timestamp c - last_frame (slot c (ab_read c)))"
    and "given_timestamp (slot c (ab_read c + 1)) = 0"
    and "0 \<le> frame_length (slot c (ab_read c + 1))" "frame_length (slot c (ab_read c + 1)) < 2 ^ 20"
    and "2 ^ 31 + 2 ^ 20 \<le> uint (flush_rtp_timestamp c)" "uint (flush_rtp_timestamp c) < 2 ^ 32 - 1"
  shows "flush_decision c = Some (c\<lparr>ab_read := ab_read c + 1\<rparr>, False, True)"
proof -
  let ?f = "flush_rtp_timestamp c" and ?d = "c\<lparr>ab_read := ab_read c + 1\<rparr>"
  define m where "m = frame_length (slot c (ab_read c + 1))"
  have m: "0 \<le> m" "m < 2 ^ 20" using assms(10,11) by (simp_all add: m_def)
  have um: "uint (word_of_int m :: u32) = m" using m by (intro uint_of_small) auto
  have sl: "slot ?d s = slot c s" for s by (simp add: slot_def)
  have l: "?f - last_frame (slot ?d (ab_read ?d)) = (?f - word_of_int m) - (- 1)"
    by (simp add: last_frame_def sl assms(9) m_def)
  have e1: "uint (?f - word_of_int m) = uint ?f - m"
    using m assms(12) unfolding uint_minus_u32 [of ?f] um by simp
  have e2: "uint (?f - word_of_int m - (- 1)) = uint ?f - m + 1"
  proof -
    have "?f - word_of_int m - (- 1) = (?f - word_of_int m) + 1" by simp
    moreover have "uint ((?f - word_of_int m) + 1) = uint (?f - word_of_int m) + 1"
      using e1 m assms(13) by (simp add: uint_plus_if_size word_size)
    ultimately show ?thesis using e1 by simp
  qed
  have "\<not> 0 < sint (?f - last_frame (slot ?d (ab_read ?d)))"
    unfolding l sint_u32 e2 using m assms(12,13) by simp
  then have "skip_to_flush ?d = Some ?d" by (intro skip_to_flush_here) simp
  moreover have "skip_to_flush c = skip_to_flush ?d"
    using assms(8) by (subst skip_to_flush.simps) simp
  moreover have "trim_packet ?d = Some ?d"
  proof -
    have "\<not> 0 < sint ?f" unfolding sint_u32 using assms(12,13) by simp
    then show ?thesis by (simp add: trim_packet_def sl assms(9) Let_def)
  qed
  moreover have "?f \<noteq> 0" using assms(12) by auto
  ultimately show ?thesis
    using assms(1-7) by (simp add: flush_decision_def Let_def)
qed

text \<open>
  When the write pointer has passed 65535 and the read pointer has not, the ring counts as empty.
\<close>

lemma wrapped_ring_counts_as_empty:
  assumes "ab_write c < ab_read c"
  shows "\<not> buffer_not_empty c" and "0 < occupancy c"
  using assms by (auto simp: buffer_not_empty_def occupancy_def word_less_def unat_gt_0)

section \<open>Silence\<close>

lemma silence_chunks_total:
  assumes "10 \<le> rate"
  shows "\<exists>evs. silence_chunks rate gap = Some evs \<and>
     (\<forall>e\<in>set evs. \<exists>n. e = Play_silence n \<and> 1 \<le> n \<and> n \<le> int (rate div 10)) \<and>
     sum_list (map (\<lambda>e. case e of Play_silence n \<Rightarrow> n | _ \<Rightarrow> 0) evs) = max 0 gap"
  using assms
proof (induction rate gap rule: silence_chunks.induct)
  case (1 rate gap)
  show ?case
  proof (cases "gap \<le> 0")
    case True
    then show ?thesis by (subst silence_chunks.simps) simp
  next
    case False
    define fs where "fs = min (int (rate div 10)) gap"
    have r: "rate div 10 \<noteq> 0" using 1(2) by (simp add: div_eq_0_iff)
    have fs: "1 \<le> fs" "fs \<le> gap" "fs \<le> int (rate div 10)" using r False by (auto simp: fs_def)
    from 1(1) [OF False r fs_def 1(2)] obtain evs where e: "silence_chunks rate (gap - fs) = Some evs"
      "\<forall>e\<in>set evs. \<exists>n. e = Play_silence n \<and> 1 \<le> n \<and> n \<le> int (rate div 10)"
      "sum_list (map (\<lambda>e. case e of Play_silence n \<Rightarrow> n | _ \<Rightarrow> 0) evs) = max 0 (gap - fs)" by blast
    have "silence_chunks rate gap = Some (Play_silence fs # evs)"
      using False r e(1) by (subst silence_chunks.simps) (simp add: fs_def Let_def)
    then show ?thesis using e fs by auto
  qed
qed

section \<open>A ring to compute with\<close>

text \<open>Packet 10 is missing, packet 11 holds the frames 5000 to 5003, packet 12 the frames 5004 to 5007.\<close>

definition sample_packet :: "u16 \<Rightarrow> u32 \<Rightarrow> abuf" where
  "sample_packet s ts =
     (empty_slot 4)\<lparr>ready := True, sequence_number := s, given_timestamp := ts, frame_length := 4\<rparr>"

definition sample_ring :: rtsp_conn where
  "sample_ring = set_slot 11 (sample_packet 11 5000) (set_slot 12 (sample_packet 12 5004)
     ((sample_conn 10)\<lparr>ab_write := 13, ab_buffering := False, first_packet_timestamp := 1\<rparr>))"

definition sample_turn :: turn_env where
  "sample_turn =
     \<lparr> local_time_now = 1000000000, have_timing = True, have_timing_later = True,
       requested_output_state = 1, backend_stopped = False, backend_can_flush = True,
       backend_delay = Some (0, 0), frame_time = (\<lambda>f. ucast f), time_frame = (\<lambda>t. 4000) \<rparr>"

definition sample_output :: output_config where
  "sample_output =
     \<lparr> output_rate = 44100, lead_in_auto = True, lead_in_ns = 0, desired_buffer_frames = 8820,
       buffer_latency_offset = 0 \<rparr>"

definition turn_start :: "rtsp_conn \<Rightarrow> turn_state" where
  "turn_start c =
     \<lparr> ts_conn = c, ts_curframe = None, ts_notified_empty = False, ts_dac_delay = 0,
       ts_sent_silence = False, ts_events = [] \<rparr>"

lemma sample_ring_fields [simp]:
  "ab_read sample_ring = 10" "ab_write sample_ring = 13" "ab_synced sample_ring"
  "\<not> ab_buffering sample_ring" "\<not> flush_requested sample_ring"
  "connection_state_to_output sample_ring = 1" "input_bytes_per_frame sample_ring = 4"
  "length (audio_buffer sample_ring) = BUFFER_FRAMES" "input_rate sample_ring = 44100"
  "first_packet_timestamp sample_ring = 1"
  by (simp_all add: sample_ring_def sample_conn_def set_slot_def)

lemma sample_ring_slots:
  "slot sample_ring 10 = empty_slot 4" "slot sample_ring 11 = sample_packet 11 5000"
  "slot sample_ring 12 = sample_packet 12 5004"
  by (simp_all add: sample_ring_def slot_def set_slot_def sample_conn_def BUFIDX_def BUFFER_FRAMES_def
      nth_list_update)

lemma sample_packet_fields [simp]:
  "ready (sample_packet s ts)" "sequence_number (sample_packet s ts) = s"
  "given_timestamp (sample_packet s ts) = ts" "frame_length (sample_packet s ts) = 4"
  "frame_data (sample_packet s ts) = replicate 32 0"
  by (simp_all add: sample_packet_def empty_slot_def)

lemma sample_ring_occupancy [simp]: "occupancy sample_ring = 3"
  by (simp add: occupancy_def)

lemma sample_ring_pending:
  "pending sample_ring = [None, Some (11, 5000, 4, replicate 32 0), Some (12, 5004, 4, replicate 32 0)]"
proof -
  have "[0..<3] = [0, 1, 2 :: nat]" by (simp add: upt_rec)
  then show ?thesis
    by (simp add: pending_def view_at_def sample_ring_slots slot_view_def empty_slot_def sample_packet_def)
qed

lemma sample_ring_numbered: "numbered sample_ring"
  unfolding numbered_def sample_ring_occupancy sample_ring_pending
  by (auto simp: less_Suc_eq numeral_3_eq_3)

lemma sample_skip: "skip_out_of_date sample_turn sample_ring = advance (Suc 0) sample_ring"
proof -
  have sh: "sample_ring\<lparr>ab_read := 11\<rparr> = advance (Suc 0) sample_ring" by (simp add: advance_def)
  have "out_of_date sample_turn sample_ring"
    by (simp add: out_of_date_def sample_ring_slots empty_slot_def)
  moreover have "\<not> out_of_date sample_turn (advance (Suc 0) sample_ring)"
    by (simp add: out_of_date_def sample_ring_slots sample_turn_def)
  ultimately show ?thesis
    by (simp add: skip_out_of_date.simps [of _ sample_ring] skip_out_of_date.simps [of _ "advance (Suc 0) sample_ring"]
        buffer_not_empty_def sh)
qed

lemma sample_turn_releases:
  "frame_turn sample_output sample_turn (turn_start sample_ring) =
     Some ((turn_start (advance (Suc 0) sample_ring))\<lparr>ts_curframe := Some 11\<rparr>, False)"
proof -
  let ?c = "advance (Suc 0) sample_ring"
  have a: "audio_buffer sample_ring ! 11 = sample_packet 11 5000" "BUFIDX 11 = 11"
    using sample_ring_slots(2) by (simp_all add: slot_def BUFIDX_def BUFFER_FRAMES_def)
  have chk: "check_output_state sample_turn sample_ring = sample_ring"
    by (rule check_output_state_same) (simp_all add: sample_turn_def)
  have fl: "flush_step sample_turn (turn_start sample_ring) = Some (turn_start sample_ring)"
    by (rule flush_step_idle) (simp add: turn_start_def)
  have look: "look_at_packet (turn_start ?c) = (turn_start ?c)\<lparr>ts_curframe := Some 11\<rparr>"
    by (simp add: look_at_packet_def turn_start_def Let_def a)
  have nb: "\<not> ab_buffering ?c" "input_rate ?c = 44100" by (simp_all add: advance_def)
  have buf: "buffering_step sample_output sample_turn ((turn_start ?c)\<lparr>ts_curframe := Some 11\<rparr>) =
      Some ((turn_start ?c)\<lparr>ts_curframe := Some 11\<rparr>)"
    using nb by (simp add: buffering_step_def turn_start_def Let_def)
  have early: "\<not> packet_early sample_output sample_turn (sample_packet 11 5000)"
    by (simp add: packet_early_def sample_turn_def sample_output_def Let_def)
  have wait: "wait_step sample_output sample_turn ((turn_start ?c)\<lparr>ts_curframe := Some 11\<rparr>) =
      ((turn_start ?c)\<lparr>ts_curframe := Some 11\<rparr>, False)"
    using early nb by (simp add: wait_step_def turn_start_def Let_def a)
  have st: "turn_start sample_ring\<lparr>ts_conn := c\<rparr> = turn_start c" for c by (simp add: turn_start_def)
  have "have_timing sample_turn" by (simp add: sample_turn_def)
  moreover have "ts_conn (turn_start c) = c" for c by (simp add: turn_start_def)
  ultimately show ?thesis
    by (simp add: frame_turn_def chk st fl sample_skip look buf wait)
qed

section \<open>The properties\<close>

text \<open>
  C2. \<open>buffer_get_frame\<close> delivers in order. In a turn without a flush request that does not wait, on
  a ring of at most 1024 packets that carry their own numbers, the released packet is the next of
  the queue after \<open>n\<close> dropped ones, each of which is missing or late; it comes with its number,
  timestamp, length and data (a packet that is missing even so comes with timestamp 0), and the
  queue afterwards is the rest behind it.
\<close>

theorem get_frame_delivers_next:
  assumes "\<not> flush_requested c" and "requested_output_state env = connection_state_to_output c"
    and "\<not> backend_stopped env" and "numbered c" and "occupancy c \<le> 1024"
    and "length (audio_buffer c) = BUFFER_FRAMES" and "ts_conn st = c"
    and "frame_turn cfg env st = Some (st', False)" and "release_frame st' = (st'', fr)"
  shows "\<exists>n a. n < occupancy c \<and> fr = Some a \<and> frame_matches a (pending c ! n) \<and>
     pending (ts_conn st'') = drop (Suc n) (pending c) \<and> (\<forall>i<n. out_of_date env (advance i c))"
  using assms by (rule delivers_next)

lemma get_frame_delivers_next_witness:
  "\<exists>st' st'' n a. frame_turn sample_output sample_turn (turn_start sample_ring) = Some (st', False) \<and>
     release_frame st' = (st'', Some a) \<and> n < 3 \<and> frame_matches a (pending sample_ring ! n) \<and>
     pending (ts_conn st'') = drop (Suc n) (pending sample_ring)"
proof -
  let ?st = "(turn_start (advance (Suc 0) sample_ring))\<lparr>ts_curframe := Some 11\<rparr>"
  obtain st'' fr where r: "release_frame ?st = (st'', fr)" by (cases "release_frame ?st")
  have h: "requested_output_state sample_turn = connection_state_to_output sample_ring"
    "\<not> backend_stopped sample_turn" "occupancy sample_ring \<le> 1024" "ts_conn (turn_start sample_ring) = sample_ring"
    by (simp_all add: sample_turn_def turn_start_def)
  from get_frame_delivers_next [OF _ h(1,2) sample_ring_numbered h(3) _ h(4) sample_turn_releases r]
  show ?thesis using r sample_turn_releases by auto
qed

text \<open>
  No packet that came is released before its time: when a turn does not wait and the packet at
  the read pointer is there, with a timestamp that is not 0 and the clock known, the time to play it
  (less the desired length of the device's buffer) has come or is more than ten seconds away.
\<close>

lemma get_frame_not_early:
  assumes "frame_turn cfg env st = Some (st', False)" and "have_timing_later env"
    and "ready (slot (ts_conn st') (ab_read (ts_conn st')))"
    and "given_timestamp (slot (ts_conn st') (ab_read (ts_conn st'))) \<noteq> 0"
  defines "t \<equiv> frame_time env (given_timestamp (slot (ts_conn st') (ab_read (ts_conn st')))
                              - buffer_latency_offset cfg)"
  shows "t \<le> local_time_now env \<or> 10000000000 < \<bar>sint (local_time_now env - t)\<bar>"
proof -
  have "\<not> packet_early cfg env (slot (ts_conn st') (ab_read (ts_conn st')))"
    by (rule frame_turn_release [OF assms(1)]) (use assms(3,4) in blast)
  then show ?thesis using assms(2) by (auto simp: packet_early_def Let_def t_def)
qed

lemma get_frame_not_early_witness:
  "frame_time sample_turn (5000 - buffer_latency_offset sample_output) \<le> local_time_now sample_turn"
proof -
  let ?st = "(turn_start (advance (Suc 0) sample_ring))\<lparr>ts_curframe := Some 11\<rparr>"
  have "slot (ts_conn ?st) (ab_read (ts_conn ?st)) = sample_packet 11 5000"
    by (simp add: turn_start_def sample_ring_slots)
  then show ?thesis
    using get_frame_not_early [OF sample_turn_releases] by (simp add: sample_turn_def sample_output_def)
qed

text \<open>
  A flush request for the timestamp 0 empties the ring: afterwards the stream is not
  synchronised, no slot holds a packet, buffering starts again, the request is done with, and the
  blocks keep their sizes.
\<close>

lemma flush_zero_empties:
  assumes "flush_requested (ts_conn st)" and "flush_rtp_timestamp (ts_conn st) = 0"
  shows "\<exists>st'. flush_step env st = Some st' \<and> \<not> ab_synced (ts_conn st') \<and>
     (\<forall>a\<in>set (audio_buffer (ts_conn st')). \<not> ready a) \<and> ab_buffering (ts_conn st') \<and>
     \<not> flush_requested (ts_conn st') \<and> \<not> flush_output_flushed (ts_conn st') \<and>
     first_packet_timestamp (ts_conn st') = 0 \<and> (buffer_ok (ts_conn st) \<longrightarrow> buffer_ok (ts_conn st'))"
  using assms by (rule flush_all)

lemma flush_zero_empties_witness:
  "\<exists>st'. flush_step sample_turn (turn_start (request_flush sample_ring)) = Some st' \<and>
     \<not> ab_synced (ts_conn st') \<and> (\<forall>a\<in>set (audio_buffer (ts_conn st')). \<not> ready a)"
  using flush_zero_empties [of "turn_start (request_flush sample_ring)" sample_turn]
  by (auto simp: turn_start_def request_flush_def)


definition sample_flush :: rtsp_conn where
  "sample_flush = (advance (Suc 0) sample_ring)\<lparr>flush_requested := True, flush_rtp_timestamp := 5006\<rparr>"

lemma sample_flush_slots [simp]: "slot sample_flush s = slot sample_ring s"
  by (simp add: sample_flush_def slot_def)

lemma sample_flush_fields [simp]:
  "ab_read sample_flush = 11" "ab_write sample_flush = 13" "flush_rtp_timestamp sample_flush = 5006"
  "flush_requested sample_flush" "ab_synced sample_flush" "input_bytes_per_frame sample_flush = 4"
  "length (audio_buffer sample_flush) = BUFFER_FRAMES" "occupancy sample_flush = 2"
  by (simp_all add: sample_flush_def occupancy_def)


text \<open>
  A missing packet can end a flush to a frame early. With a flush frame in the upper half of
  the timestamps that lies behind the first packet and a missing packet (timestamp 0) second in the
  ring, the code stops at the missing packet and drops the request, however many packets before
  the flush frame are still to come.
\<close>

lemma flush_ends_at_missing_packet:
  assumes "flush_requested c" and "ab_synced c" and "buffer_not_empty c"
    and "ready (slot c (ab_read c))" and "ready (slot c (ab_write c - 1))"
    and "0 < sint (flush_rtp_timestamp c - given_timestamp (slot c (ab_read c)))"
    and "0 \<le> sint (last_frame (slot c (ab_write c - 1)) - flush_rtp_timestamp c)"
    and "0 < sint (flush_rtp_timestamp c - last_frame (slot c (ab_read c)))"
    and "given_timestamp (slot c (ab_read c + 1)) = 0"
    and "0 \<le> frame_length (slot c (ab_read c + 1))" "frame_length (slot c (ab_read c + 1)) < 2 ^ 20"
    and "2 ^ 31 + 2 ^ 20 \<le> uint (flush_rtp_timestamp c)" "uint (flush_rtp_timestamp c) < 2 ^ 32 - 1"
  shows "flush_decision c = Some (c\<lparr>ab_read := ab_read c + 1\<rparr>, False, True)"
  using assms by (rule flush_stops_at_missing)

definition sample_holed :: rtsp_conn where
  "sample_holed = set_slot 0 (sample_packet 0 3000000000)
     (set_slot 2 (sample_packet 2 3000000008) (set_slot 3 (sample_packet 3 3000000012)
       ((sample_conn 0)\<lparr>ab_write := 4, flush_requested := True, flush_rtp_timestamp := 3000000012\<rparr>)))"

lemma flush_ends_at_missing_packet_witness:
  "flush_decision sample_holed = Some (sample_holed\<lparr>ab_read := 1\<rparr>, False, True)"
proof -
  have sl: "slot sample_holed 0 = sample_packet 0 3000000000" "slot sample_holed 1 = empty_slot 4"
    "slot sample_holed 3 = sample_packet 3 3000000012"
    by (simp_all add: sample_holed_def slot_def set_slot_def sample_conn_def BUFIDX_def BUFFER_FRAMES_def
        nth_list_update)
  have "ab_read sample_holed = 0" "ab_write sample_holed = 4" "ab_synced sample_holed"
    "flush_requested sample_holed" "flush_rtp_timestamp sample_holed = 3000000012"
    by (simp_all add: sample_holed_def set_slot_def sample_conn_def)
  then show ?thesis
    using flush_ends_at_missing_packet [of sample_holed] sl
    by (simp add: buffer_not_empty_def last_frame_def empty_slot_def)
qed

text \<open>
  When the write pointer has passed 65535 and the read pointer has not, the ring counts as empty
  although it is not: a flush request for a frame is dropped with nothing flushed, and packets
  whose time has passed are not skipped.
\<close>

lemma wrapped_ring_not_flushed:
  assumes "ab_write c < ab_read c" and "flush_requested c" and "flush_rtp_timestamp c \<noteq> 0"
  shows "0 < occupancy c \<and> flush_decision c = Some (c\<lparr>flush_requested := False\<rparr>, False, False) \<and>
     skip_out_of_date env c = c"
  using wrapped_ring_counts_as_empty [OF assms(1)] assms(2,3)
  by (simp add: flush_decision_def skip_out_of_date.simps)

lemma wrapped_ring_not_flushed_witness:
  "flush_decision ((sample_conn 65530)\<lparr>ab_write := 10, flush_requested := True, flush_rtp_timestamp := 77\<rparr>) =
     Some ((sample_conn 65530)\<lparr>ab_write := 10, flush_rtp_timestamp := 77\<rparr>, False, False)"
  using wrapped_ring_not_flushed
    [of "(sample_conn 65530)\<lparr>ab_write := 10, flush_requested := True, flush_rtp_timestamp := 77\<rparr>"]
  by (simp add: sample_conn_def)

text \<open>
  C19. For a device without a delay function the lead-in is sent to its end: at an output rate of 10 or
  more the loop ends, each piece is at least one frame and at most a tenth of a second long, and the
  pieces add up to the gap.
\<close>

theorem lead_in_silence_exact:
  assumes "10 \<le> rate"
  shows "\<exists>evs. silence_chunks rate gap = Some evs \<and>
     (\<forall>e\<in>set evs. \<exists>n. e = Play_silence n \<and> 1 \<le> n \<and> n \<le> int (rate div 10)) \<and>
     sum_list (map (\<lambda>e. case e of Play_silence n \<Rightarrow> n | _ \<Rightarrow> 0) evs) = max 0 gap"
  using assms by (rule silence_chunks_total)

lemma lead_in_silence_exact_witness:
  "\<exists>evs. silence_chunks 44100 10000 = Some evs \<and>
     sum_list (map (\<lambda>e. case e of Play_silence n \<Rightarrow> n | _ \<Rightarrow> 0) evs) = 10000"
  using lead_in_silence_exact [of 44100 10000] by auto

end
