(* ===== verification/Player_Samples.thy ===== *)
theory Player_Samples
  imports Player_State
begin

text \<open>
  From 32-bit samples to the bytes of the output device: volume, dither and format of one sample
  (\<open>process_sample\<close>), silence (\<open>generate_zero_frames\<close> and the random numbers of \<open>common.c\<close>), and the
  insertion or removal of one frame (\<open>stuff_buffer_basic_32\<close>). An \<open>int64_t\<close> is an \<open>int\<close> whose range the
  theorems bound; \<open>None\<close> is an overflow or \<open>die\<close>. The host is little-endian.
\<close>

section \<open>Formats\<close>

datatype sps_format =
    SPS_FORMAT_UNKNOWN | SPS_FORMAT_S8 | SPS_FORMAT_U8 | SPS_FORMAT_S16 | SPS_FORMAT_S16_LE
  | SPS_FORMAT_S16_BE | SPS_FORMAT_S24 | SPS_FORMAT_S24_LE | SPS_FORMAT_S24_BE | SPS_FORMAT_S24_3LE
  | SPS_FORMAT_S24_3BE | SPS_FORMAT_S32 | SPS_FORMAT_S32_LE | SPS_FORMAT_S32_BE | SPS_FORMAT_AUTO
  | SPS_FORMAT_INVALID

text \<open>The bits of a sample, which the dither mask and the last shift depend on.\<close>

fun format_bits :: "sps_format \<Rightarrow> nat option" where
  "format_bits SPS_FORMAT_S32 = Some 32"
| "format_bits SPS_FORMAT_S32_LE = Some 32"
| "format_bits SPS_FORMAT_S32_BE = Some 32"
| "format_bits SPS_FORMAT_S24 = Some 24"
| "format_bits SPS_FORMAT_S24_LE = Some 24"
| "format_bits SPS_FORMAT_S24_BE = Some 24"
| "format_bits SPS_FORMAT_S24_3LE = Some 24"
| "format_bits SPS_FORMAT_S24_3BE = Some 24"
| "format_bits SPS_FORMAT_S16 = Some 16"
| "format_bits SPS_FORMAT_S16_LE = Some 16"
| "format_bits SPS_FORMAT_S16_BE = Some 16"
| "format_bits SPS_FORMAT_S8 = Some 8"
| "format_bits SPS_FORMAT_U8 = Some 8"
| "format_bits _ = None"

text \<open>The bytes of the shifted sample.\<close>

definition byt :: "nat \<Rightarrow> int \<Rightarrow> u8" where
  "byt k hyper_sample = word_of_int (drop_bit (8 * k) hyper_sample)"

fun sample_bytes :: "sps_format \<Rightarrow> int \<Rightarrow> bytes" where
  "sample_bytes SPS_FORMAT_S32_LE v = [byt 0 v, byt 1 v, byt 2 v, byt 3 v]"
| "sample_bytes SPS_FORMAT_S32_BE v = [byt 3 v, byt 2 v, byt 1 v, byt 0 v]"
| "sample_bytes SPS_FORMAT_S32 v = [byt 0 v, byt 1 v, byt 2 v, byt 3 v]"
| "sample_bytes SPS_FORMAT_S24_3LE v = [byt 0 v, byt 1 v, byt 2 v]"
| "sample_bytes SPS_FORMAT_S24_3BE v = [byt 2 v, byt 1 v, byt 0 v]"
| "sample_bytes SPS_FORMAT_S24_LE v = [byt 0 v, byt 1 v, byt 2 v, 0]"
| "sample_bytes SPS_FORMAT_S24_BE v = [0, byt 2 v, byt 1 v, byt 0 v]"
| "sample_bytes SPS_FORMAT_S24 v = [byt 0 v, byt 1 v, byt 2 v, byt 3 v]"
| "sample_bytes SPS_FORMAT_S16_LE v = [byt 0 v, byt 1 v]"
| "sample_bytes SPS_FORMAT_S16_BE v = [byt 1 v, byt 0 v]"
| "sample_bytes SPS_FORMAT_S16 v = [byt 0 v, byt 1 v]"
| "sample_bytes SPS_FORMAT_S8 v = [byt 0 v]"
| "sample_bytes SPS_FORMAT_U8 v = [byt 0 (v + 128)]"
| "sample_bytes _ v = []"

section \<open>Random numbers\<close>

record ranctx =
  rc_a :: u64
  rc_b :: u64
  rc_c :: u64
  rc_d :: u64

definition rot :: "u64 \<Rightarrow> nat \<Rightarrow> u64" where
  "rot x k = push_bit k x OR drop_bit (64 - k) x"

definition ranval :: "ranctx \<Rightarrow> u64 \<times> ranctx" where
  "ranval x =
     (let e = rc_a x - rot (rc_b x) 7;
          x = x\<lparr>rc_a := xor (rc_b x) (rot (rc_c x) 13)\<rparr>;
          x = x\<lparr>rc_b := rc_c x + rot (rc_d x) 37\<rparr>;
          x = x\<lparr>rc_c := rc_d x + e\<rparr>;
          x = x\<lparr>rc_d := e + rc_a x\<rparr>
      in (rc_d x, x))"

definition raninit :: "u64 \<Rightarrow> ranctx" where
  "raninit seed =
     ((\<lambda>x. snd (ranval x)) ^^ 20) \<lparr>rc_a = 0xf1ea5eed, rc_b = seed, rc_c = seed, rc_d = seed\<rparr>"

text \<open>\<open>r64i\<close>: 63 bits, so never negative.\<close>

definition r64i :: "ranctx \<Rightarrow> int \<times> ranctx" where
  "r64i x = (let (v, x) = ranval x in (uint (drop_bit 1 v), x))"

definition rand_in_range :: "u32 \<Rightarrow> int \<Rightarrow> int \<times> u32" where
  "rand_in_range lcg_prev exclusive_range_limit =
     (drop_bit 32 (uint lcg_prev * exclusive_range_limit), lcg_prev * 69069 + 3)"

section \<open>One sample\<close>

record dither_state =
  previous_random_number :: int
  ds_random :: ranctx

definition tpdf :: "nat \<Rightarrow> dither_state \<Rightarrow> int \<times> dither_state" where
  "tpdf bits ds =
     (let dither_mask = 2 ^ (64 - bits) - 1;
          (r, x) = r64i (ds_random ds)
      in ((r AND dither_mask) - (previous_random_number ds AND dither_mask),
          ds\<lparr>previous_random_number := r, ds_random := x\<rparr>))"

definition INT64_MAX :: int where
  "INT64_MAX = 2 ^ 63 - 1"

definition INT64_MIN :: int where
  "INT64_MIN = - (2 ^ 63)"

definition add_clipped :: "int \<Rightarrow> int \<Rightarrow> int" where
  "add_clipped hyper_sample t =
     (if 0 \<le> t then if hyper_sample \<le> INT64_MAX - t then hyper_sample + t else INT64_MAX
      else if INT64_MIN - t \<le> hyper_sample then hyper_sample + t else INT64_MIN)"

text \<open>\<open>loudness\<close>: the filter has applied the volume already.\<close>

definition apply_volume :: "bool \<Rightarrow> int \<Rightarrow> int \<Rightarrow> int option" where
  "apply_volume loudness sample volume =
     (let v = (if loudness then sample * 2 ^ 32 else sample * (volume * 2 ^ 16))
      in if INT64_MIN \<le> v \<and> v \<le> INT64_MAX then Some v else None)"

definition process_sample ::
    "bool \<Rightarrow> int \<Rightarrow> sps_format \<Rightarrow> int \<Rightarrow> bool \<Rightarrow> dither_state \<Rightarrow> (bytes \<times> dither_state) option" where
  "process_sample loudness sample format volume dither ds =
     do { hyper_sample \<leftarrow> apply_volume loudness sample volume;
          bits \<leftarrow> format_bits format;
          let (hyper_sample, ds) = (if dither
                                    then let (t, ds) = tpdf bits ds in (add_clipped hyper_sample t, ds)
                                    else (hyper_sample, ds));
          Some (sample_bytes format (drop_bit (64 - bits) hyper_sample), ds) }"

section \<open>Silence\<close>

text \<open>
  One sample of \<open>generate_zero_frames\<close>. A random number is taken with or without dither; the bytes are
  picked by shifts of their own, which the formats below write out.
\<close>

fun zero_sample_bytes :: "sps_format \<Rightarrow> int \<Rightarrow> bytes option" where
  "zero_sample_bytes SPS_FORMAT_S32 h = Some (sample_bytes SPS_FORMAT_S32 (drop_bit (64 - 32) h))"
| "zero_sample_bytes SPS_FORMAT_S32_LE h =
     Some [word_of_int (drop_bit (64 - 32) h), word_of_int (drop_bit (64 - 32 + 8) h),
           word_of_int (drop_bit (64 - 32 + 16) h), word_of_int (drop_bit (64 - 32 + 24) h)]"
| "zero_sample_bytes SPS_FORMAT_S32_BE h =
     Some [word_of_int (drop_bit (64 - 32 + 24) h), word_of_int (drop_bit (64 - 32 + 16) h),
           word_of_int (drop_bit (64 - 32 + 8) h), word_of_int (drop_bit (64 - 32) h)]"
| "zero_sample_bytes SPS_FORMAT_S24_3LE h =
     Some [word_of_int (drop_bit (64 - 24) h), word_of_int (drop_bit (64 - 24 + 8) h),
           word_of_int (drop_bit (64 - 24 + 16) h)]"
| "zero_sample_bytes SPS_FORMAT_S24_3BE h =
     Some [word_of_int (drop_bit (64 - 24 + 16) h), word_of_int (drop_bit (64 - 24 + 8) h),
           word_of_int (drop_bit (64 - 24) h)]"
| "zero_sample_bytes SPS_FORMAT_S24 h = Some (sample_bytes SPS_FORMAT_S24 (drop_bit (64 - 24) h))"
| "zero_sample_bytes SPS_FORMAT_S24_LE h =
     Some [word_of_int (drop_bit (64 - 24) h), word_of_int (drop_bit (64 - 24 + 8) h),
           word_of_int (drop_bit (64 - 24 + 16) h), 0]"
| "zero_sample_bytes SPS_FORMAT_S24_BE h =
     Some [0, word_of_int (drop_bit (64 - 24 + 16) h), word_of_int (drop_bit (64 - 24 + 8) h),
           word_of_int (drop_bit (64 - 24) h)]"
| "zero_sample_bytes SPS_FORMAT_S16_LE h =
     Some [word_of_int (drop_bit (64 - 16) h), word_of_int (drop_bit (64 - 16 + 8) h)]"
| "zero_sample_bytes SPS_FORMAT_S16_BE h =
     Some [word_of_int (drop_bit (64 - 16 + 8) h), word_of_int (drop_bit (64 - 16) h)]"
| "zero_sample_bytes SPS_FORMAT_S16 h = Some (sample_bytes SPS_FORMAT_S16 (drop_bit (64 - 16) h))"
| "zero_sample_bytes SPS_FORMAT_S8 h = Some [word_of_int (drop_bit (64 - 8) h)]"
| "zero_sample_bytes SPS_FORMAT_U8 h = Some [128 + word_of_int (drop_bit (64 - 8) h)]"
| "zero_sample_bytes _ h = None"

fun zero_samples :: "nat \<Rightarrow> sps_format \<Rightarrow> bool \<Rightarrow> dither_state \<Rightarrow> (bytes \<times> dither_state) option" where
  "zero_samples 0 format with_dither ds = Some ([], ds)"
| "zero_samples (Suc n) format with_dither ds =
     (case format_bits format of
        None \<Rightarrow> None
      | Some bits \<Rightarrow>
          let (t, ds) = tpdf bits ds
          in (case zero_sample_bytes format (if with_dither then t else 0) of
                None \<Rightarrow> None
              | Some b \<Rightarrow> map_option (\<lambda>(bs, ds). (b @ bs, ds)) (zero_samples n format with_dither ds)))"

definition generate_zero_frames ::
    "nat \<Rightarrow> sps_format \<Rightarrow> bool \<Rightarrow> dither_state \<Rightarrow> (bytes \<times> dither_state) option" where
  "generate_zero_frames number_of_frames format with_dither ds =
     (case format_bits format of
        None \<Rightarrow> None
      | Some _ \<Rightarrow> zero_samples (number_of_frames * 2) format with_dither ds)"

section \<open>Stuffing\<close>

definition mean_32 :: "int \<Rightarrow> int \<Rightarrow> int" where
  "mean_32 a b = sint (word_of_int (c_div (a + b) 2) :: i32)"

record sample_settings =
  ss_loudness :: bool
  ss_format :: sps_format
  ss_volume :: int
  ss_dither :: bool

text \<open>Samples one after the other.\<close>

fun process_samples :: "sample_settings \<Rightarrow> int list \<Rightarrow> dither_state \<Rightarrow> (bytes \<times> dither_state) option" where
  "process_samples cfg [] ds = Some ([], ds)"
| "process_samples cfg (s # ss) ds =
     (case process_sample (ss_loudness cfg) s (ss_format cfg) (ss_volume cfg) (ss_dither cfg) ds of
        None \<Rightarrow> None
      | Some (b, ds) \<Rightarrow> map_option (\<lambda>(bs, ds). (b @ bs, ds)) (process_samples cfg ss ds))"

text \<open>
  \<open>rnd\<close> is what \<open>rand\<close> returns. The input is interleaved; the result has the bytes, the dither state
  and the number of frames. \<open>None\<close> also where the input is shorter than its length says.
\<close>

definition stuff_buffer_basic_32 ::
    "sample_settings \<Rightarrow> nat \<Rightarrow> int list \<Rightarrow> int \<Rightarrow> int \<Rightarrow> dither_state \<Rightarrow> (bytes \<times> dither_state \<times> int) option" where
  "stuff_buffer_basic_32 cfg rnd inptr len stuff ds =
     (if len < 3 then None
      else do { let tstuff = (if 1 < stuff \<or> stuff < - 1 \<or> len < 100 then 0 else stuff);
                let stuffsamp = (if tstuff \<noteq> 0 then rnd mod nat (len - 2) + 1 else nat len);
                before \<leftarrow> rd_block inptr 0 (2 * stuffsamp);
                (out, ds) \<leftarrow> process_samples cfg before ds;
                if tstuff = 0 then Some (out, ds, len)
                else do { let p = 2 * stuffsamp;
                          (mid, ds, p) \<leftarrow>
                            (if tstuff = 1
                             then do { a \<leftarrow> rd inptr (p - 2);
                                       b \<leftarrow> rd inptr p;
                                       c \<leftarrow> rd inptr (p - 1);
                                       d \<leftarrow> rd inptr (p + 1);
                                       (mid, ds) \<leftarrow> process_samples cfg [mean_32 a b, mean_32 c d] ds;
                                       Some (mid, ds, p) }
                             else Some ([], ds, p + 2));
                          let remainder = (if tstuff < 0 then len + tstuff else len);
                          after \<leftarrow> rd_block inptr p (2 * (nat remainder - stuffsamp));
                          (rest, ds) \<leftarrow> process_samples cfg after ds;
                          Some (out @ mid @ rest, ds, len + tstuff) } })"

section \<open>Facts about samples\<close>

lemma r64i_range: "0 \<le> fst (r64i x) \<and> fst (r64i x) < 2 ^ 63"
proof -
  obtain v y where v: "ranval x = (v, y)" by (cases "ranval x")
  have "uint (drop_bit 1 v) = uint v div 2" by (simp add: uint_div drop_bit_eq_div)
  moreover have "uint v < 2 ^ 64" using unsigned_less [of v, where ?'a = int] by simp
  ultimately show ?thesis using v by (simp add: r64i_def)
qed

lemma zdiv_less_of_mult: "(x :: int) < n * m \<Longrightarrow> 0 < n \<Longrightarrow> x div n < m"
proof (rule ccontr)
  assume x: "x < n * m" "0 < n" and "\<not> x div n < m"
  then have "n * m \<le> n * (x div n)" by simp
  also have "\<dots> \<le> x" using x(2) by (metis mult.commute mult_div_mod_eq pos_mod_sign add.commute le_add_same_cancel2)
  finally show False using x(1) by simp
qed

lemma le_zdiv_of_mult: "m * n \<le> (x :: int) \<Longrightarrow> 0 < n \<Longrightarrow> m \<le> x div n"
  using zdiv_mono1 [of "m * n" x n] by simp

lemma rand_in_range_range:
  assumes "0 < lim"
  shows "0 \<le> fst (rand_in_range s lim) \<and> fst (rand_in_range s lim) < lim"
proof -
  have "uint s * lim < 2 ^ 32 * lim"
    using uint_u32 [of s] assms by (intro mult_strict_right_mono) auto
  then have "uint s * lim div 2 ^ 32 < lim"
    by (intro zdiv_less_of_mult) (simp_all add: mult.commute)
  then show ?thesis
    using assms uint_u32 [of s] by (simp add: rand_in_range_def drop_bit_eq_div pos_imp_zdiv_nonneg_iff)
qed

lemma mean_32_between:
  assumes "- (2 ^ 31) \<le> a" "a < 2 ^ 31" "- (2 ^ 31) \<le> b" "b < 2 ^ 31"
  shows "mean_32 a b = c_div (a + b) 2 \<and> min a b \<le> mean_32 a b \<and> mean_32 a b \<le> max a b"
proof -
  have m: "min a b \<le> c_div (a + b) 2" "c_div (a + b) 2 \<le> max a b"
    by (auto simp: c_div_def min_def max_def sgn_if abs_if)
  then have "- (2 ^ 31) \<le> c_div (a + b) 2" "c_div (a + b) 2 < 2 ^ 31" using assms by auto
  then have "mean_32 a b = c_div (a + b) 2"
    by (simp add: mean_32_def signed_of_int signed_take_bit_int_eq_self)
  then show ?thesis using m by simp
qed

section \<open>Reading a sample back\<close>

fun le_value :: "bytes \<Rightarrow> int" where
  "le_value [] = 0"
| "le_value (b # bs) = uint b + 256 * le_value bs"

text \<open>What the device reads: the bytes as a signed number of the width of the format.\<close>

fun device_value :: "sps_format \<Rightarrow> bytes \<Rightarrow> int" where
  "device_value SPS_FORMAT_S32_BE bs = signed_take_bit 31 (le_value (rev bs))"
| "device_value SPS_FORMAT_S24_3BE bs = signed_take_bit 23 (le_value (rev bs))"
| "device_value SPS_FORMAT_S24_BE bs = signed_take_bit 23 (le_value (rev (drop 1 bs)))"
| "device_value SPS_FORMAT_S24_LE bs = signed_take_bit 23 (le_value (take 3 bs))"
| "device_value SPS_FORMAT_S24_3LE bs = signed_take_bit 23 (le_value bs)"
| "device_value SPS_FORMAT_S16_LE bs = signed_take_bit 15 (le_value bs)"
| "device_value SPS_FORMAT_S16 bs = signed_take_bit 15 (le_value bs)"
| "device_value SPS_FORMAT_S16_BE bs = signed_take_bit 15 (le_value (rev bs))"
| "device_value SPS_FORMAT_S8 bs = signed_take_bit 7 (le_value bs)"
| "device_value SPS_FORMAT_U8 bs = le_value bs - 128"
| "device_value _ bs = signed_take_bit 31 (le_value bs)"

lemma uint_byt: "uint (byt k v) = drop_bit (8 * k) v mod 256"
  by (simp add: byt_def uint_word_of_int_eq take_bit_eq_mod)

lemma div_mod_step: "(v :: int) mod (256 * m) = v mod 256 + 256 * (v div 256 mod m)" if "0 < m"
  using that by (simp add: zmod_zmult2_eq)

lemma le_value_byt:
  "le_value [byt 0 v] = v mod 2 ^ 8"
  "le_value [byt 0 v, byt 1 v] = v mod 2 ^ 16"
  "le_value [byt 0 v, byt 1 v, byt 2 v] = v mod 2 ^ 24"
  "le_value [byt 0 v, byt 1 v, byt 2 v, byt 3 v] = v mod 2 ^ 32"
proof -
  have d: "v div 65536 = v div 256 div 256" "v div 16777216 = v div 256 div 256 div 256"
    by (simp_all add: zdiv_zmult2_eq [symmetric])
  have m2: "v mod 65536 = v mod 256 + 256 * (v div 256 mod 256)"
    using div_mod_step [of 256 v] by simp
  have m3: "v mod 16777216 = v mod 256 + 256 * (v div 256 mod 65536)"
    using div_mod_step [of 65536 v] by simp
  have m4: "v mod 4294967296 = v mod 256 + 256 * (v div 256 mod 16777216)"
    using div_mod_step [of 16777216 v] by simp
  have k2: "w mod 65536 = w mod 256 + 256 * (w div 256 mod 256)" for w :: int
    using div_mod_step [of 256 w] by simp
  have k3: "w mod 16777216 = w mod 256 + 256 * (w div 256 mod 65536)" for w :: int
    using div_mod_step [of 65536 w] by simp
  show "le_value [byt 0 v] = v mod 2 ^ 8" by (simp add: uint_byt)
  show "le_value [byt 0 v, byt 1 v] = v mod 2 ^ 16" by (simp add: uint_byt drop_bit_eq_div m2)
  show "le_value [byt 0 v, byt 1 v, byt 2 v] = v mod 2 ^ 24"
    by (simp add: uint_byt drop_bit_eq_div m3 k2 d)
  show "le_value [byt 0 v, byt 1 v, byt 2 v, byt 3 v] = v mod 2 ^ 32"
    by (simp add: uint_byt drop_bit_eq_div m4 k3 k2 d)
qed

lemma signed_mod:
  assumes "- (2 ^ n) \<le> (v :: int)" and "v < 2 ^ n"
  shows "signed_take_bit n (v mod 2 ^ Suc n) = v"
proof -
  have "signed_take_bit n (take_bit (Suc n) v) = signed_take_bit n v"
    by (simp add: signed_take_bit_take_bit)
  then show ?thesis
    using signed_take_bit_int_eq_self [OF assms] by (simp add: take_bit_eq_mod)
qed

lemma device_value_sample_bytes:
  assumes "format_bits format = Some bits" and "- (2 ^ (bits - 1)) \<le> v" and "v < 2 ^ (bits - 1)"
  shows "device_value format (sample_bytes format v) = v"
proof -
  have s: "signed_take_bit 31 (v mod 2 ^ 32) = v" if "- (2 ^ 31) \<le> v" "v < 2 ^ 31"
    using signed_mod [OF that] by simp
  have s24: "signed_take_bit 23 (v mod 2 ^ 24) = v" if "- (2 ^ 23) \<le> v" "v < 2 ^ 23"
    using signed_mod [OF that] by simp
  have s16: "signed_take_bit 15 (v mod 2 ^ 16) = v" if "- (2 ^ 15) \<le> v" "v < 2 ^ 15"
    using signed_mod [OF that] by simp
  have s8: "signed_take_bit 7 (v mod 2 ^ 8) = v" if "- (2 ^ 7) \<le> v" "v < 2 ^ 7"
    using signed_mod [OF that] by simp
  note le = le_value_byt
  show ?thesis
  proof (cases format)
    case SPS_FORMAT_U8
    have "le_value [byt 0 (v + 128)] = v + 128"
      using le(1) [of "v + 128"] assms SPS_FORMAT_U8 by (simp add: mod_pos_pos_trivial)
    then show ?thesis using SPS_FORMAT_U8 by simp
  qed (use assms s s24 s16 s8 le in \<open>simp_all del: le_value.simps\<close>)
qed

lemma volume_range:
  fixes sample volume :: int
  assumes "- (2 ^ 31) \<le> sample" "sample < 2 ^ 31" "0 \<le> volume" "volume \<le> 65536"
  shows "- (2 ^ 63) \<le> sample * (volume * 2 ^ 16)" and "sample * (volume * 2 ^ 16) < 2 ^ 63"
proof -
  have up: "sample * volume \<le> (2 ^ 31 - 1) * 65536"
  proof (cases "0 \<le> sample")
    case True
    then show ?thesis using assms by (intro mult_mono) auto
  next
    case False
    then have "sample * volume \<le> 0" using assms(3) by (simp add: mult_nonpos_nonneg)
    then show ?thesis by simp
  qed
  have lo: "- (2 ^ 31 * 65536) \<le> sample * volume"
  proof (cases "0 \<le> sample")
    case True
    then have "0 \<le> sample * volume" using assms(3) by simp
    then show ?thesis by simp
  next
    case False
    have "- sample * volume \<le> 2 ^ 31 * 65536" using False assms by (intro mult_mono) auto
    then show ?thesis by simp
  qed
  show "- (2 ^ 63) \<le> sample * (volume * 2 ^ 16)" "sample * (volume * 2 ^ 16) < 2 ^ 63"
    using up lo by (simp_all add: mult.assoc [symmetric])
qed

text \<open>
  C10. Without dither and loudness, for each of the 13 formats and every volume from 0 to 65536, what
  the device reads back is the sample times the volume, rounded down to the width of the format; no
  64-bit multiplication overflows and the random numbers are not used.
\<close>

theorem process_sample_scales:
  assumes "format_bits format = Some bits"
    and "- (2 ^ 31) \<le> sample" "sample < 2 ^ 31" "0 \<le> volume" "volume \<le> 65536"
  shows "\<exists>out. process_sample False sample format volume False ds = Some (out, ds) \<and>
     device_value format out = (sample * volume * 2 ^ 16) div 2 ^ (64 - bits)"
proof -
  let ?h = "sample * (volume * 2 ^ 16)" and ?v = "(sample * (volume * 2 ^ 16)) div 2 ^ (64 - bits)"
  note r = volume_range [OF assms(2-5)]
  have b: "bits = 32 \<or> bits = 24 \<or> bits = 16 \<or> bits = 8" using assms(1) by (cases format) auto
  then have p: "(2 :: int) ^ 63 = 2 ^ (bits - 1) * 2 ^ (64 - bits)" by auto
  have "- (2 ^ (bits - 1)) * 2 ^ (64 - bits) \<le> ?h" using r(1) p by simp
  then have lo: "- (2 ^ (bits - 1)) \<le> ?v" by (rule le_zdiv_of_mult) simp
  have "?h < 2 ^ (64 - bits) * 2 ^ (bits - 1)" using r(2) p by (simp add: mult.commute)
  then have hi: "?v < 2 ^ (bits - 1)" by (rule zdiv_less_of_mult) simp
  have vol: "apply_volume False sample volume = Some ?h"
    using r by (simp add: apply_volume_def INT64_MIN_def INT64_MAX_def)
  have "process_sample False sample format volume False ds = Some (sample_bytes format ?v, ds)"
    using vol assms(1) by (simp add: process_sample_def drop_bit_eq_div)
  then show ?thesis
    using device_value_sample_bytes [OF assms(1) lo hi] by (simp add: mult.assoc)
qed

definition sample_dither :: dither_state where
  "sample_dither = \<lparr>previous_random_number = 0, ds_random = raninit 1\<rparr>"

lemma process_sample_scales_witness:
  "\<exists>out. process_sample False (- 100000) SPS_FORMAT_S16_BE 32768 False sample_dither = Some (out, sample_dither) \<and>
     device_value SPS_FORMAT_S16_BE out = - 1"
  using process_sample_scales [of SPS_FORMAT_S16_BE 16 "- 100000" 32768 sample_dither] by simp

section \<open>Silence is zero samples\<close>

lemma and_mask_range: "0 \<le> (r AND (2 ^ n - 1) :: int) \<and> (r AND (2 ^ n - 1)) < 2 ^ n"
proof -
  have m: "(2 ^ n - 1 :: int) = mask n" by (simp add: mask_eq_exp_minus_1)
  show ?thesis unfolding m take_bit_eq_mask [symmetric] by simp
qed

lemma tpdf_range: "\<bar>fst (tpdf bits ds)\<bar> < 2 ^ (64 - bits)"
proof -
  obtain r x where r: "r64i (ds_random ds) = (r, x)" by (cases "r64i (ds_random ds)")
  have "\<bar>x - y\<bar> < m" if "0 \<le> x \<and> x < m" "0 \<le> y \<and> y < m" for x y m :: int
    using that by linarith
  then show ?thesis
    using and_mask_range [of r "64 - bits"] and_mask_range [of "previous_random_number ds" "64 - bits"]
    by (simp only: tpdf_def r Let_def prod.case fst_conv)
qed

lemma zero_sample_bytes_eq:
  assumes "format_bits format = Some bits"
  shows "zero_sample_bytes format h = Some (sample_bytes format (drop_bit (64 - bits) h))"
  using assms by (cases format) (simp_all add: byt_def add.commute)

lemma process_zero_sample:
  assumes "format_bits format = Some bits"
  shows "process_sample loudness 0 format volume True ds =
     Some (sample_bytes format (drop_bit (64 - bits) (fst (tpdf bits ds))), snd (tpdf bits ds))"
proof -
  have "bits = 32 \<or> bits = 24 \<or> bits = 16 \<or> bits = 8" using assms by (cases format) auto
  then have "(2 :: int) ^ (64 - bits) \<le> 2 ^ 56" by auto
  then have "\<bar>fst (tpdf bits ds)\<bar> < 2 ^ 56" using tpdf_range [of bits ds] by linarith
  then have "add_clipped 0 (fst (tpdf bits ds)) = fst (tpdf bits ds)"
    by (auto simp: add_clipped_def INT64_MAX_def INT64_MIN_def)
  moreover have "apply_volume loudness 0 volume = Some 0"
    by (simp add: apply_volume_def INT64_MAX_def INT64_MIN_def)
  ultimately show ?thesis
    using assms by (cases "tpdf bits ds") (simp add: process_sample_def)
qed

lemma zero_samples_process:
  assumes "format_bits format = Some bits"
  shows "zero_samples n format True ds =
     process_samples \<lparr>ss_loudness = l, ss_format = format, ss_volume = v, ss_dither = True\<rparr> (replicate n 0) ds"
  by (induction n arbitrary: ds)
     (simp_all add: assms zero_sample_bytes_eq [OF assms] process_zero_sample [OF assms] split: prod.split)

text \<open>
  \<open>generate_zero_frames\<close>, which the silence before and between packets comes from, has a byte
  layout of its own. With dither it is, for every format, the same as passing zero samples through
  \<open>process_sample\<close>, whatever the volume: the same bytes, and the same random numbers taken. A format
  that is none makes both of them die.
\<close>

lemma silence_is_zero_samples:
  "generate_zero_frames n format True ds =
     (if format_bits format = None then None
      else process_samples \<lparr>ss_loudness = l, ss_format = format, ss_volume = v, ss_dither = True\<rparr>
             (replicate (2 * n) 0) ds)"
  using zero_samples_process [of format _ "n * 2" ds l v]
  by (auto simp: generate_zero_frames_def mult.commute split: option.splits)

section \<open>Stuffing\<close>

definition sample_size :: "sps_format \<Rightarrow> nat" where
  "sample_size format = length (sample_bytes format 0)"

lemma length_sample_bytes: "length (sample_bytes format v) = sample_size format"
  by (cases format) (simp_all add: sample_size_def)

definition settings_ok :: "sample_settings \<Rightarrow> bool" where
  "settings_ok cfg \<longleftrightarrow>
     format_bits (ss_format cfg) \<noteq> None \<and> 0 \<le> ss_volume cfg \<and> ss_volume cfg \<le> 65536"

definition int32 :: "int \<Rightarrow> bool" where
  "int32 s \<longleftrightarrow> - (2 ^ 31) \<le> s \<and> s < 2 ^ 31"

lemma process_sample_total:
  assumes "settings_ok cfg" and "int32 s"
  shows "\<exists>b ds'. process_sample (ss_loudness cfg) s (ss_format cfg) (ss_volume cfg) (ss_dither cfg) ds = Some (b, ds') \<and>
     length b = sample_size (ss_format cfg)"
proof -
  have "\<exists>h. apply_volume (ss_loudness cfg) s (ss_volume cfg) = Some h"
    using volume_range [of s "ss_volume cfg"] assms
    by (auto simp: apply_volume_def settings_ok_def int32_def INT64_MIN_def INT64_MAX_def Let_def)
  then show ?thesis
    using assms(1) length_sample_bytes
    by (auto simp: process_sample_def settings_ok_def split: prod.split)
qed

lemma process_samples_total:
  assumes "settings_ok cfg" and "\<forall>s\<in>set ss. int32 s"
  shows "\<exists>b ds'. process_samples cfg ss ds = Some (b, ds') \<and>
     length b = length ss * sample_size (ss_format cfg)"
  using assms(2)
proof (induction ss arbitrary: ds)
  case (Cons s ss)
  obtain b ds1 where b: "process_sample (ss_loudness cfg) s (ss_format cfg) (ss_volume cfg) (ss_dither cfg) ds =
      Some (b, ds1)" "length b = sample_size (ss_format cfg)"
    using process_sample_total [OF assms(1), of s ds] Cons.prems by auto
  obtain bs ds2 where "process_samples cfg ss ds1 = Some (bs, ds2)"
      "length bs = length ss * sample_size (ss_format cfg)"
    using Cons.IH [of ds1] Cons.prems by auto
  then show ?case using b by simp
qed simp

lemma process_samples_append:
  "process_samples cfg (xs @ ys) ds =
     do { (b, ds) \<leftarrow> process_samples cfg xs ds;
          (c, ds) \<leftarrow> process_samples cfg ys ds;
          Some (b @ c, ds) }"
  by (induction xs arbitrary: ds)
     (auto simp: bind_eq_Some_conv split: option.splits prod.splits Option.bind_splits)

text \<open>The interleaved samples after the insertion or removal of one frame behind the \<open>k\<close>-th.\<close>

definition stuffed :: "int \<Rightarrow> nat \<Rightarrow> int list \<Rightarrow> int list" where
  "stuffed stuff k ss =
     (if stuff = 1
      then take (2 * k) ss @ [mean_32 (ss ! (2 * k - 2)) (ss ! (2 * k)), mean_32 (ss ! (2 * k - 1)) (ss ! (2 * k + 1))]
             @ drop (2 * k) ss
      else if stuff = - 1 then take (2 * k) ss @ drop (2 * k + 2) ss
      else ss)"

lemma process_samples_append3:
  "process_samples cfg (xs @ ys @ zs) ds =
     (case process_samples cfg xs ds of
        None \<Rightarrow> None
      | Some (a, ds) \<Rightarrow>
          (case process_samples cfg ys ds of
             None \<Rightarrow> None
           | Some (b, ds) \<Rightarrow> map_option (\<lambda>(c, ds). (a @ b @ c, ds)) (process_samples cfg zs ds)))"
  by (auto simp: process_samples_append bind_eq_Some_conv split: option.splits prod.splits Option.bind_splits)

lemma stuff_buffer_stuffed:
  assumes "length ss = 2 * n" and "100 \<le> n" and "stuff \<in> {- 1, 0, 1}"
    and "k = rnd mod (n - 2) + 1"
  shows "stuff_buffer_basic_32 cfg rnd ss (int n) stuff ds =
     map_option (\<lambda>(b, ds). (b, ds, int n + stuff)) (process_samples cfg (stuffed stuff k ss) ds)"
proof -
  have k: "1 \<le> k" "k + 1 < n"
  proof -
    have "rnd mod (n - 2) < n - 2" using assms(2) by (intro mod_less_divisor) auto
    then show "1 \<le> k" "k + 1 < n" using assms(4) by auto
  qed
  have n: "rnd mod nat (int n - 2) + 1 = k" "\<not> int n < 100" "\<not> int n < 3"
    using assms(2,4) by (simp_all add: nat_diff_distrib')
  have before: "rd_block ss 0 (2 * k) = Some (take (2 * k) ss)"
    using assms(1) k by (simp add: rd_block_def)
  consider "stuff = 0" | "stuff = 1" | "stuff = - 1" using assms(3) by auto
  then show ?thesis
  proof cases
    case 1
    have "rd_block ss 0 (2 * n) = Some ss" using assms(1) by (simp add: rd_block_def)
    then show ?thesis
      using 1 n by (auto simp: stuff_buffer_basic_32_def stuffed_def Let_def split: option.splits Option.bind_splits)
  next
    case 2
    let ?m = "[mean_32 (ss ! (2 * k - 2)) (ss ! (2 * k)), mean_32 (ss ! (2 * k - 1)) (ss ! (2 * k + 1))]"
    have rds: "rd ss (2 * k - 2) = Some (ss ! (2 * k - 2))" "rd ss (2 * k) = Some (ss ! (2 * k))"
      "rd ss (2 * k - 1) = Some (ss ! (2 * k - 1))" "rd ss (2 * k + 1) = Some (ss ! (2 * k + 1))"
      using assms(1) k by (simp_all add: rd_def)
    have after: "rd_block ss (2 * k) (2 * (nat (int n) - k)) = Some (drop (2 * k) ss)"
      using assms(1) k by (simp add: rd_block_def right_diff_distrib')
    have spec: "stuffed stuff k ss = take (2 * k) ss @ ?m @ drop (2 * k) ss"
      using 2 by (simp add: stuffed_def)
    have tst: "(if 1 < stuff \<or> stuff < - 1 \<or> int n < 100 then 0 else stuff) = stuff" "stuff \<noteq> 0" "\<not> stuff < 0"
      using 2 n by simp_all
    show ?thesis
      unfolding stuff_buffer_basic_32_def spec process_samples_append3 Let_def tst(1)
      using 2 tst n before rds after
      by (auto simp del: process_samples.simps split: option.splits Option.bind_splits)
  next
    case 3
    have after: "rd_block ss (2 * k + 2) (2 * (nat (int n + stuff) - k)) = Some (drop (2 * k + 2) ss)"
      using assms(1) k 3 by (simp add: rd_block_def nat_diff_distrib' right_diff_distrib')
    have tst: "(if 1 < stuff \<or> stuff < - 1 \<or> int n < 100 then 0 else stuff) = stuff" "stuff \<noteq> 0" "stuff \<noteq> 1" "stuff < 0"
      using 3 n by simp_all
    have spec: "stuffed stuff k ss = take (2 * k) ss @ [] @ drop (2 * k + 2) ss"
      using 3 by (simp add: stuffed_def)
    show ?thesis
      unfolding stuff_buffer_basic_32_def spec process_samples_append3 Let_def tst(1)
      using tst n before after
      by (auto split: option.splits Option.bind_splits)
  qed
qed

lemma int32_stuffed:
  assumes "length ss = 2 * n" and "k + 1 < n" and "1 \<le> k" and "\<forall>s\<in>set ss. int32 s"
  shows "\<forall>s\<in>set (stuffed stuff k ss). int32 s"
proof -
  have m: "int32 (mean_32 (ss ! i) (ss ! j))" if "i < 2 * n" "j < 2 * n" for i j
  proof -
    have "int32 (ss ! i)" "int32 (ss ! j)" using assms(1,4) that by simp_all
    then show ?thesis using mean_32_between [of "ss ! i" "ss ! j"] by (auto simp: int32_def)
  qed
  show ?thesis
    using assms m by (auto simp: stuffed_def dest: in_set_takeD in_set_dropD)
qed

lemma length_stuffed:
  assumes "length ss = 2 * n" and "k + 1 < n" and "stuff \<in> {- 1, 0, 1}"
  shows "length (stuffed stuff k ss) = 2 * nat (int n + stuff)"
proof -
  have "nat (int n + 1) = Suc n" "nat (int n - 1) = n - 1" by simp_all
  then show ?thesis using assms by (auto simp: stuffed_def)
qed

text \<open>
  C7. \<open>stuff_buffer_basic_32\<close> on \<open>n\<close> interleaved frames, 100 or more, with \<open>stuff\<close> -1, 0 or 1: it
  returns, with \<open>n + stuff\<close> frames of the right number of bytes, and they are the processed samples of
  the same signal with, behind a frame inside it that the random number chooses, one frame put in
  that lies half-way between its neighbours, one frame left out, or nothing changed.
\<close>

theorem stuffing_exact:
  assumes "length ss = 2 * n" and "100 \<le> n" and "stuff \<in> {- 1, 0, 1}"
    and "settings_ok cfg" and "\<forall>s\<in>set ss. int32 s" and "k = rnd mod (n - 2) + 1"
  shows "\<exists>out ds'. stuff_buffer_basic_32 cfg rnd ss (int n) stuff ds = Some (out, ds', int n + stuff) \<and>
     process_samples cfg (stuffed stuff k ss) ds = Some (out, ds') \<and> 1 \<le> k \<and> k + 1 < n \<and>
     length out = 2 * nat (int n + stuff) * sample_size (ss_format cfg)"
proof -
  have "rnd mod (n - 2) < n - 2" using assms(2) by (intro mod_less_divisor) auto
  then have k: "1 \<le> k" "k + 1 < n" using assms(6) by auto
  obtain out ds' where "process_samples cfg (stuffed stuff k ss) ds = Some (out, ds')"
    "length out = length (stuffed stuff k ss) * sample_size (ss_format cfg)"
    using process_samples_total [OF assms(4) int32_stuffed [OF assms(1) k(2,1) assms(5)]] by blast
  then show ?thesis
    using stuff_buffer_stuffed [OF assms(1-3,6), of cfg ds] k length_stuffed [OF assms(1) k(2) assms(3)]
    by simp
qed

lemma stuffing_exact_witness:
  "\<exists>out ds'. stuff_buffer_basic_32
       \<lparr>ss_loudness = False, ss_format = SPS_FORMAT_S16_LE, ss_volume = 65536, ss_dither = True\<rparr>
       7 (replicate 200 1000) 100 1 sample_dither = Some (out, ds', 101) \<and> length out = 404"
  using stuffing_exact [of "replicate 200 1000" 100 1
      "\<lparr>ss_loudness = False, ss_format = SPS_FORMAT_S16_LE, ss_volume = 65536, ss_dither = True\<rparr>" 8 7 sample_dither]
  by (auto simp: settings_ok_def int32_def sample_size_def)

end
