(* ===== verification/Fifo.thy ===== *)
theory Fifo
  imports Prelude
begin

text \<open>
  Runs of labelled step relations, and the contract of a first-in-first-out channel: each step puts
  some values in at one end and takes some out at the other. The metadata queue and the ring of the
  buffered audio connection both keep it.
\<close>

section \<open>Runs\<close>

inductive runs :: "('q \<Rightarrow> 'e \<Rightarrow> 'q \<Rightarrow> bool) \<Rightarrow> 'q \<Rightarrow> 'e list \<Rightarrow> 'q \<Rightarrow> bool" for step where
  run_nil: "runs step q [] q"
| run_cons: "step q e q' \<Longrightarrow> runs step q' es q'' \<Longrightarrow> runs step q (e # es) q''"

inductive_cases runs_NilE: "runs step q [] q'"
inductive_cases runs_ConsE: "runs step q (e # es) q'"

lemma run_one: "step q e q' \<Longrightarrow> runs step q [e] q'"
  by (rule run_cons [OF _ run_nil])

lemma runs_invariant:
  assumes "runs step q es q'" and "ok q" and "\<And>q e q'. ok q \<Longrightarrow> step q e q' \<Longrightarrow> ok q'"
  shows "ok q'"
  using assms(1,2) by (induction rule: runs.induct) (auto intro: assms(3))

section \<open>The contract\<close>

locale fifo =
  fixes step :: "'q \<Rightarrow> 'e \<Rightarrow> 'q \<Rightarrow> bool"
    and put_of :: "'e \<Rightarrow> 'a list"
    and got_of :: "'e \<Rightarrow> 'a list"
    and inside :: "'q \<Rightarrow> 'a list"
    and ok :: "'q \<Rightarrow> bool"
  assumes step_ok: "ok q \<Longrightarrow> step q e q' \<Longrightarrow> ok q'"
    and step_moves: "ok q \<Longrightarrow> step q e q' \<Longrightarrow> inside q @ put_of e = got_of e @ inside q'"
begin

lemma run_fifo:
  assumes "runs step q es q'" and "ok q"
  shows "ok q' \<and> inside q @ concat (map put_of es) = concat (map got_of es) @ inside q'"
  using assms
proof (induction rule: runs.induct)
  case (run_cons q e q' es q'')
  note ok = step_ok [OF run_cons.prems run_cons.hyps(1)]
  note step = step_moves [OF run_cons.prems run_cons.hyps(1)]
  have "inside q @ put_of e @ concat (map put_of es) = got_of e @ inside q' @ concat (map put_of es)"
    using step by (metis append_assoc)
  with run_cons.IH [OF ok] show ?case by simp
qed simp

lemma got_was_put: "runs step q es q' \<Longrightarrow> ok q \<Longrightarrow> inside q = [] \<Longrightarrow>
    \<exists>rest. concat (map put_of es) = concat (map got_of es) @ rest"
  using run_fifo by fastforce

end

section \<open>Places of a ring\<close>

lemma mod_add_inj:
  assumes "(a + j) mod c = (a + k) mod c" and "j < c" and "k < (c :: nat)"
  shows "j = k"
proof -
  have *: "j = k" if "j \<le> k" "(a + j) mod c = (a + k) mod c" "k < c" for j k
  proof -
    have "c dvd (a + k) - (a + j)" using that by (metis add_le_cancel_left mod_eq_dvd_iff_nat)
    then have "c dvd k - j" by simp
    then show ?thesis using that by (auto dest: dvd_imp_le)
  qed
  show ?thesis using assms * [of j k] * [of k j] by (metis nat_le_linear)
qed

text \<open>\<open>n\<close> cells of a ring, from place \<open>t\<close> on.\<close>

definition ring_cells :: "'a list \<Rightarrow> nat \<Rightarrow> nat \<Rightarrow> 'a list" where
  "ring_cells b t n = map (\<lambda>k. b ! ((t + k) mod length b)) [0..<n]"

lemma length_ring_cells [simp]: "length (ring_cells b t n) = n"
  by (simp add: ring_cells_def)

lemma ring_cells_0 [simp]: "ring_cells b t 0 = []"
  by (simp add: ring_cells_def)

lemma ring_cells_split: "ring_cells b t (m + n) = ring_cells b t m @ ring_cells b (t + m) n"
proof (rule nth_equalityI)
  fix i assume "i < length (ring_cells b t (m + n))"
  then show "ring_cells b t (m + n) ! i = (ring_cells b t m @ ring_cells b (t + m) n) ! i"
    by (cases "i < m") (auto simp: ring_cells_def nth_append add.assoc less_diff_conv2 not_less)
qed simp

lemma ring_cells_mod: "ring_cells b (t mod length b) n = ring_cells b t n"
  by (simp add: ring_cells_def mod_add_left_eq)

lemma ring_cells_flat: "t + n \<le> length b \<Longrightarrow> ring_cells b t n = take n (drop t b)"
  by (intro nth_equalityI) (auto simp: ring_cells_def)

text \<open>What is written behind the cells does not change them.\<close>

lemma ring_cells_wr_block:
  assumes "wr_block b e xs = Some b'" and "e mod length b = (t + n) mod length b" and "n + length xs \<le> length b"
  shows "ring_cells b' t n = ring_cells b t n"
proof -
  have len: "length b' = length b" using wr_block_length [OF assms(1)] .
  have "b' ! ((t + k) mod length b) = b ! ((t + k) mod length b)" if k: "k < n" for k
  proof (cases "xs = []")
    case True
    then show ?thesis using assms(1) by (auto simp: wr_block_def split: if_splits)
  next
    case False
    define i where "i = (t + k) mod length b"
    have pos: "0 < length b" using False assms(3) by (cases xs) auto
    then have i: "i < length b" by (simp add: i_def)
    have e: "e + length xs \<le> length b" using assms(1) by (auto simp: wr_block_def split: if_splits)
    have "\<not> (e \<le> i \<and> i < e + length xs)"
    proof
      assume a: "e \<le> i \<and> i < e + length xs"
      define j where "j = i - e"
      have j: "i = e + j" "j < length xs" using a by (auto simp: j_def)
      have "(t + (n + j)) mod length b = (e + j) mod length b"
        using assms(2) by (metis add.assoc mod_add_left_eq)
      also have "\<dots> = (t + k) mod length b" using i j(1) by (simp add: i_def [symmetric])
      finally have "n + j = k" using mod_add_inj [of t "n + j" "length b" k] j(2) assms(3) k by simp
      then show False using k by simp
    qed
    then show ?thesis
      using assms(1) i e unfolding i_def [symmetric]
      by (auto simp: wr_block_def nth_append min_def not_le not_less split: if_splits)
  qed
  then show ?thesis unfolding ring_cells_def len by simp
qed

lemma ring_cells_written:
  assumes "wr_block b e xs = Some b'"
  shows "ring_cells b' e (length xs) = xs"
proof -
  have "e + length xs \<le> length b'"
    using assms wr_block_length [OF assms] by (auto simp: wr_block_def split: if_splits)
  then show ?thesis
    using assms by (auto simp: ring_cells_flat wr_block_def split: if_splits)
qed

end
