(* ===== verification/Metadata_Queue.thy ===== *)
theory Metadata_Queue
  imports Fifo
begin

text \<open>
  The producer-consumer queue that carries metadata between the threads of \<open>rtsp.c\<close>
  (\<open>pc_queue_init\<close>, \<open>pc_queue_add_item\<close>, \<open>pc_queue_get_item\<close>): a ring of \<open>capacity\<close> items with an
  index for each end. An item is a value of its own type, for the \<open>item_size\<close> bytes that are copied.
  The lock makes each operation one step; a wait for an item is \<open>None\<close>, and a lock that could not be
  had in time by a caller that must not block is a parameter. Taking an item outside the ring is
  undefined behaviour, the outer \<open>None\<close>.
\<close>

section \<open>The queue\<close>

record 'a pc_queue =
  items :: "'a list"
  count :: u32
  capacity :: u32
  toq :: u32
  eoq :: u32

definition pc_queue_init :: "'a list \<Rightarrow> u32 \<Rightarrow> 'a pc_queue" where
  "pc_queue_init its number_of_items =
     \<lparr>items = its, count = 0, capacity = number_of_items, toq = 0, eoq = 0\<rparr>"

text \<open>An index steps to the next place, folding at the end of the ring.\<close>

definition next_place :: "u32 \<Rightarrow> 'a pc_queue \<Rightarrow> u32" where
  "next_place i q = (if i + 1 = capacity q then 0 else i + 1)"

definition EBUSY :: nat where "EBUSY = 16"
definition EWOULDBLOCK :: nat where "EWOULDBLOCK = 11"

definition pc_queue_add_item :: "'a pc_queue \<Rightarrow> 'a \<Rightarrow> bool \<Rightarrow> bool \<Rightarrow> (nat \<times> 'a pc_queue) option" where
  "pc_queue_add_item q the_stuff block lock_busy =
     (if \<not> block \<and> lock_busy then Some (EBUSY, q)
      else if count q < capacity q
      then do { its \<leftarrow> wr (items q) (unat (eoq q)) the_stuff;
                Some (0, q\<lparr>items := its, eoq := next_place (eoq q) q, count := count q + 1\<rparr>) }
      else Some (EWOULDBLOCK, q))"

text \<open>\<open>Some None\<close>: the queue is empty and the caller waits.\<close>

definition pc_queue_get_item :: "'a pc_queue \<Rightarrow> ('a \<times> 'a pc_queue) option option" where
  "pc_queue_get_item q =
     (if count q = 0 then Some None
      else do { x \<leftarrow> rd (items q) (unat (toq q));
                Some (Some (x, q\<lparr>toq := next_place (toq q) q, count := count q - 1\<rparr>)) })"

section \<open>What a queue holds\<close>

definition place :: "'a pc_queue \<Rightarrow> nat \<Rightarrow> nat" where
  "place q k = (unat (toq q) + k) mod unat (capacity q)"

definition contents :: "'a pc_queue \<Rightarrow> 'a list" where
  "contents q = map (\<lambda>k. items q ! place q k) [0..<unat (count q)]"

definition queue_ok :: "'a pc_queue \<Rightarrow> bool" where
  "queue_ok q \<longleftrightarrow> unat (capacity q) = length (items q) \<and> toq q < capacity q \<and>
     count q \<le> capacity q \<and> unat (eoq q) = place q (unat (count q))"

lemma length_contents [simp]: "length (contents q) = unat (count q)"
  by (simp add: contents_def)

lemma queue_ok_init: "its \<noteq> [] \<Longrightarrow> unat n = length its \<Longrightarrow> queue_ok (pc_queue_init its n)"
  by (auto simp: queue_ok_def pc_queue_init_def place_def word_less_nat_alt)

lemma contents_init [simp]: "contents (pc_queue_init its n) = []"
  by (simp add: contents_def pc_queue_init_def)

lemma unat_next_place:
  assumes "i < capacity q"
  shows "unat (next_place i q) = Suc (unat i) mod unat (capacity q)"
proof -
  have lt: "unat i < unat (capacity q)" using assms by (simp add: word_less_nat_alt)
  have "unat (capacity q) < 2 ^ 32" using unsigned_less [of "capacity q", where ?'a = nat] by simp
  with lt have s: "unat (i + 1) = Suc (unat i)" by (simp add: unat_word_ariths)
  show ?thesis
  proof (cases "i + 1 = capacity q")
    case True
    then show ?thesis using s by (simp add: next_place_def)
  next
    case False
    then have "Suc (unat i) \<noteq> unat (capacity q)" using s by (metis word_unat_eq_iff)
    with lt s False show ?thesis by (simp add: next_place_def)
  qed
qed

lemma place_less: "queue_ok q \<Longrightarrow> place q k < length (items q)"
  unfolding queue_ok_def place_def
  by (metis bot_nat_0.not_eq_extremum less_nat_zero_code mod_less_divisor word_less_nat_alt)

lemma place_inj:
  "j < unat (capacity q) \<Longrightarrow> k < unat (capacity q) \<Longrightarrow> place q j = place q k \<longleftrightarrow> j = k"
  using mod_add_inj [of "unat (toq q)" j "unat (capacity q)" k] by (auto simp: place_def)

lemma unat_add_1: "(c :: u32) < d \<Longrightarrow> unat (c + 1) = Suc (unat c)"
  using unsigned_less [of d, where ?'a = nat] by (simp add: word_less_nat_alt unat_word_ariths)

lemma unat_minus_1: "0 < (c :: u32) \<Longrightarrow> Suc (unat (c - 1)) = unat c"
  using word_gt_0 [of c] by (simp add: unat_minus_one word_less_nat_alt)

lemma place_updates [simp]:
  "place (q\<lparr>items := a\<rparr>) = place q" "place (q\<lparr>eoq := b\<rparr>) = place q" "place (q\<lparr>count := c\<rparr>) = place q"
  by (simp_all add: place_def fun_eq_iff)

lemma add_item_step:
  assumes "queue_ok q" and "count q < capacity q"
  shows "\<exists>q'. pc_queue_add_item q x block False = Some (0, q') \<and> queue_ok q' \<and>
    contents q' = contents q @ [x] \<and> capacity q' = capacity q"
proof -
  let ?e = "unat (eoq q)" and ?n = "unat (count q)"
  let ?q = "q\<lparr>items := (items q)[?e := x], eoq := next_place (eoq q) q, count := count q + 1\<rparr>"
  have e: "?e = place q ?n" "?e < length (items q)" "unat (capacity q) = length (items q)"
    using assms(1) place_less [OF assms(1)] by (auto simp: queue_ok_def)
  have n: "unat (count q + 1) = Suc ?n" "?n < unat (capacity q)"
    using unat_add_1 [OF assms(2)] assms(2) by (auto simp: word_less_nat_alt)
  have add: "pc_queue_add_item q x block False = Some (0, ?q)"
    using assms(2) e(2) by (simp add: pc_queue_add_item_def wr_def)
  have "place q k \<noteq> ?e" if "k < ?n" for k
    using place_inj [of k q ?n] that n e(1) by simp
  then have "contents ?q = contents q @ [x]"
    using e n by (fastforce simp: contents_def nth_list_update)
  moreover have "queue_ok ?q"
  proof -
    have "eoq q < capacity q" using e by (simp add: word_less_nat_alt)
    then have "unat (next_place (eoq q) q) = place q (Suc ?n)"
      using e(1) by (simp add: unat_next_place place_def mod_Suc_eq)
    moreover have "count q + 1 \<le> capacity q" using n by (simp add: word_le_nat_alt)
    ultimately show ?thesis using assms(1) n by (simp add: queue_ok_def)
  qed
  ultimately show ?thesis using add by auto
qed

lemma add_item_full:
  "\<not> count q < capacity q \<Longrightarrow> pc_queue_add_item q x block False = Some (EWOULDBLOCK, q)"
  by (simp add: pc_queue_add_item_def)

lemma get_item_step:
  assumes "queue_ok q" and "count q \<noteq> 0"
  shows "\<exists>q' x. pc_queue_get_item q = Some (Some (x, q')) \<and> queue_ok q' \<and>
    contents q = x # contents q' \<and> capacity q' = capacity q"
proof -
  let ?x = "items q ! unat (toq q)"
  let ?q = "q\<lparr>toq := next_place (toq q) q, count := count q - 1\<rparr>"
  have t: "unat (toq q) = place q 0" "toq q < capacity q" "unat (capacity q) = length (items q)"
    using assms(1) by (auto simp: queue_ok_def place_def word_less_nat_alt)
  have get: "pc_queue_get_item q = Some (Some (?x, ?q))"
    using assms place_less [OF assms(1)] t by (simp add: pc_queue_get_item_def rd_def)
  have n: "unat (count q) = Suc (unat (count q - 1))"
    using assms(2) by (metis unat_minus_1 word_gt_0)
  have pl: "place (q\<lparr>toq := next_place (toq q) q\<rparr>) k = place q (Suc k)" for k
    using t by (simp add: place_def unat_next_place mod_add_left_eq)
  have "contents q = ?x # contents ?q"
    unfolding contents_def n by (simp add: upt_rec [of 0] map_Suc_upt [symmetric] pl t(1) del: upt_Suc)
  moreover have m: "k mod length (items q) < length (items q)" for k
    using place_less [OF assms(1), of 0] by (intro mod_less_divisor) linarith
  have "queue_ok ?q"
    using assms(1) n t m by (auto simp: queue_ok_def pl word_le_nat_alt word_less_nat_alt unat_next_place)
  ultimately show ?thesis using get by auto
qed

section \<open>Runs of producers and consumers\<close>

text \<open>
  What the threads see: an item was put in, an item was refused (the ring is full, or the lock was
  not to be had), an item was taken. Every operation holds the lock, so any schedule of the threads is
  a sequence of such steps.
\<close>

datatype 'a queue_event = Added 'a | Refused 'a | Taken 'a

inductive queue_step :: "'a pc_queue \<Rightarrow> 'a queue_event \<Rightarrow> 'a pc_queue \<Rightarrow> bool" where
  added: "pc_queue_add_item q x block busy = Some (0, q') \<Longrightarrow> queue_step q (Added x) q'"
| refused: "pc_queue_add_item q x block busy = Some (rc, q') \<Longrightarrow> rc \<noteq> 0 \<Longrightarrow> queue_step q (Refused x) q'"
| taken: "pc_queue_get_item q = Some (Some (x, q')) \<Longrightarrow> queue_step q (Taken x) q'"

fun put_in :: "'a queue_event \<Rightarrow> 'a list" where
  "put_in (Added x) = [x]"
| "put_in _ = []"

fun taken_out :: "'a queue_event \<Rightarrow> 'a list" where
  "taken_out (Taken x) = [x]"
| "taken_out _ = []"

lemma add_item_cases:
  assumes "queue_ok q" and "pc_queue_add_item q x block busy = Some (rc, q')"
  shows "queue_ok q' \<and> capacity q' = capacity q \<and> (if rc = 0 then contents q' = contents q @ [x] else q' = q)"
proof (cases "\<not> block \<and> busy")
  case True
  with assms show ?thesis by (auto simp: pc_queue_add_item_def EBUSY_def)
next
  case False
  then have eq: "pc_queue_add_item q x block busy = pc_queue_add_item q x block False"
    by (cases block; cases busy) (simp_all add: pc_queue_add_item_def)
  show ?thesis
  proof (cases "count q < capacity q")
    case True
    with add_item_step [OF assms(1) True, of x block] assms(2) show ?thesis by (auto simp: eq)
  next
    case False
    with add_item_full [OF False, of x block] assms show ?thesis by (auto simp: eq EWOULDBLOCK_def)
  qed
qed

lemma get_item_cases:
  assumes "queue_ok q" and "pc_queue_get_item q = Some (Some (x, q'))"
  shows "queue_ok q' \<and> capacity q' = capacity q \<and> contents q = x # contents q'"
proof -
  have "count q \<noteq> 0" using assms(2) by (auto simp: pc_queue_get_item_def)
  with get_item_step [OF assms(1)] assms(2) show ?thesis by auto
qed

lemma queue_step_facts:
  assumes "queue_ok q" and "queue_step q e q'"
  shows "queue_ok q' \<and> capacity q' = capacity q \<and>
    (case e of Added x \<Rightarrow> contents q' = contents q @ [x] | Refused x \<Rightarrow> contents q' = contents q
     | Taken x \<Rightarrow> contents q = x # contents q')"
  using assms(2)
proof (cases)
  case (added x block busy)
  with add_item_cases [OF assms(1) added(2)] show ?thesis by simp
next
  case (refused x block busy rc)
  with add_item_cases [OF assms(1) refused(2)] assms(1) show ?thesis by simp
next
  case (taken x)
  with get_item_cases [OF assms(1) taken(2)] show ?thesis by simp
qed

interpretation metadata_fifo: fifo queue_step put_in taken_out contents "\<lambda>q. queue_ok q \<and> capacity q = n" for n
  by unfold_locales (force dest: queue_step_facts split: queue_event.splits)+

text \<open>
  C20. First in, first out, on every schedule of the threads that put items in and take them out:
  what was accepted is, in order, what was taken followed by what is still inside. Nothing is lost,
  doubled or overtaken however often the ring folds, an item is refused only when the ring is full or
  its lock is busy, and no operation leaves the ring.
\<close>

theorem metadata_queue_is_fifo:
  assumes "its \<noteq> []" and "unat n = length its" and "runs queue_step (pc_queue_init its n) es q"
  shows "concat (map put_in es) = concat (map taken_out es) @ contents q \<and>
     (\<exists>rc q'. pc_queue_add_item q x block False = Some (rc, q') \<and>
        (rc = (if length (contents q) < length its then 0 else EWOULDBLOCK))) \<and>
     (\<exists>r. pc_queue_get_item q = Some r \<and> (r = None) = (contents q = []))"
proof -
  have "queue_ok (pc_queue_init its n) \<and> capacity (pc_queue_init its n) = n"
    using assms queue_ok_init by (auto simp: pc_queue_init_def)
  from metadata_fifo.run_fifo [OF assms(3) this]
  have q: "concat (map put_in es) = concat (map taken_out es) @ contents q" "queue_ok q" "capacity q = n" by simp_all
  have "(contents q = []) = (count q = 0)"
    by (metis length_0_conv length_contents unat_eq_zero)
  moreover have "(length (contents q) < length its) = (count q < capacity q)"
    using assms(2) q(3) by (simp add: word_less_nat_alt)
  ultimately show ?thesis
    using q add_item_step [OF q(2), of x block] add_item_full [of q x block] get_item_step [OF q(2)]
    by (cases "count q < capacity q"; cases "count q = 0") (auto simp: pc_queue_get_item_def)
qed

lemma metadata_queue_is_fifo_witness:
  "\<exists>q. runs queue_step (pc_queue_init [0, 0] 2) [Added 5, Added 6, Refused 7, Taken (5 :: nat), Added 8] q \<and>
     contents q = [6, 8]"
proof -
  define ring where "ring its c t e = \<lparr>items = its, count = c, capacity = 2, toq = t, eoq = e\<rparr>"
    for its :: "nat list" and c t e
  note ops = ring_def pc_queue_add_item_def pc_queue_get_item_def next_place_def wr_def rd_def
  let ?es = "[Added 5, Added 6, Refused 7, Taken (5 :: nat), Added 8]"
  have a: "queue_step (ring [0, 0] 0 0 0) (Added 5) (ring [5, 0] 1 0 1)"
    "queue_step (ring [5, 0] 1 0 1) (Added 6) (ring [5, 6] 2 0 0)"
    "queue_step (ring [5, 6] 1 1 0) (Added 8) (ring [8, 6] 2 1 1)"
    by (rule added [of _ _ True False], simp add: ops)+
  have r: "queue_step (ring [5, 6] 2 0 0) (Refused 7) (ring [5, 6] 2 0 0)"
    by (rule refused [of _ _ True False EWOULDBLOCK]) (simp_all add: ops EWOULDBLOCK_def)
  have t: "queue_step (ring [5, 6] 2 0 0) (Taken 5) (ring [5, 6] 1 1 0)"
    by (rule taken) (simp add: ops)
  have "runs queue_step (ring [0, 0] 0 0 0) ?es (ring [8, 6] 2 1 1)"
    by (rule runs.intros a r t)+
  then have run: "runs queue_step (pc_queue_init [0, 0] 2) ?es (ring [8, 6] 2 1 1)"
    by (simp add: pc_queue_init_def ring_def)
  then have "concat (map put_in ?es) = concat (map taken_out ?es) @ contents (ring [8, 6] 2 1 1)"
    using metadata_queue_is_fifo [of "[0, 0]" 2 ?es "ring [8, 6] 2 1 1"] by simp
  with run show ?thesis by auto
qed

end
