(* ===== verification/Rtsp_Message.thy ===== *)
theory Rtsp_Message
  imports Prelude
begin

text \<open>
  The messages of the RTSP server (\<open>rtsp.c\<close>): the header store, the line reader \<open>nextline\<close>, the parser
  of one line \<open>msg_handle_line\<close> and the writer \<open>msg_write_response\<close>, with the string functions of the C
  library they use. A C string is the list of its characters without the final NUL.

  \<open>index_number\<close>, which is only printed, and the debug output are left out. Memory is never short.
\<close>

section \<open>String functions of the C library\<close>

definition NUL :: char where "NUL = CHR 0x00"
definition CR :: char where "CR = CHR 0x0D"
definition LF :: char where "LF = CHR 0x0A"

lemma line_chars [simp]: "CR \<noteq> LF" "LF \<noteq> CR" "NUL \<noteq> CR" "NUL \<noteq> LF" "CR \<noteq> NUL" "LF \<noteq> NUL"
  "CR \<noteq> CHR '' ''" "LF \<noteq> CHR '' ''" "NUL \<noteq> CHR '' ''" "CHR '' '' \<noteq> CR" "CHR '' '' \<noteq> LF" "CHR '' '' \<noteq> NUL"
  "CHR '':'' \<noteq> CR" "CHR '':'' \<noteq> LF" "CHR '':'' \<noteq> NUL"
  by (simp_all add: CR_def LF_def NUL_def)

definition c_string :: "string \<Rightarrow> string" where
  "c_string s = takeWhile (\<lambda>c. c \<noteq> NUL) s"

definition code :: "char \<Rightarrow> nat" where
  "code c = of_char c"

definition lower_case :: "char \<Rightarrow> char" where
  "lower_case c = (if 65 \<le> code c \<and> code c \<le> 90 then char_of (code c + 32) else c)"

text \<open>\<open>strcasecmp\<close> gives 0.\<close>

definition same_nocase :: "string \<Rightarrow> string \<Rightarrow> bool" where
  "same_nocase s t \<longleftrightarrow> map lower_case s = map lower_case t"

text \<open>\<open>strtok_r\<close> with the delimiter \<open>sp\<close>: the next token and what is left for the next call.\<close>

definition next_token :: "char \<Rightarrow> string \<Rightarrow> (string \<times> string) option" where
  "next_token sp s =
     (let s = dropWhile (\<lambda>c. c = sp) s
      in if s = [] then None
         else Some (takeWhile (\<lambda>c. c \<noteq> sp) s, drop 1 (dropWhile (\<lambda>c. c \<noteq> sp) s)))"

text \<open>\<open>strstr\<close>: what stands before the first occurrence of \<open>pat\<close>, and what stands behind it.\<close>

fun split_at :: "string \<Rightarrow> string \<Rightarrow> (string \<times> string) option" where
  "split_at pat s =
     (if take (length pat) s = pat then Some ([], drop (length pat) s)
      else case s of [] \<Rightarrow> None
           | c # cs \<Rightarrow> map_option (\<lambda>(b, a). (c # b, a)) (split_at pat cs))"

declare split_at.simps [simp del]

definition is_digit :: "char \<Rightarrow> bool" where
  "is_digit c \<longleftrightarrow> 48 \<le> code c \<and> code c \<le> 57"

definition is_space :: "char \<Rightarrow> bool" where
  "is_space c \<longleftrightarrow> c = CHR '' '' \<or> 9 \<le> code c \<and> code c \<le> 13"

definition digits_value :: "string \<Rightarrow> int" where
  "digits_value ds = foldl (\<lambda>n c. 10 * n + (int (code c) - 48)) 0 ds"

text \<open>\<open>atoi\<close>; a number that is no \<open>int\<close> is undefined behaviour.\<close>

definition atoi :: "string \<Rightarrow> int option" where
  "atoi s =
     (let s = dropWhile is_space s;
          neg = (take 1 s = ''-'');
          s = (if take 1 s = ''-'' \<or> take 1 s = ''+'' then drop 1 s else s);
          n = digits_value (takeWhile is_digit s);
          n = (if neg then - n else n)
      in if - (2 ^ 31) \<le> n \<and> n < 2 ^ 31 then Some n else None)"

section \<open>Messages\<close>

record rtsp_message =
  referenceCount :: u32
  headers :: "(string \<times> string) list"
  contentlength :: u32
  content :: string
  req_method :: string
  path :: string
  respcode :: int

definition msg_init :: rtsp_message where
  "msg_init = \<lparr>referenceCount = 1, headers = [], contentlength = 0, content = [], req_method = [], path = [],
               respcode = 0\<rparr>"

text \<open>The return value is 1 when the 16 places for headers are taken.\<close>

definition msg_add_header :: "rtsp_message \<Rightarrow> string \<Rightarrow> string \<Rightarrow> nat \<times> rtsp_message" where
  "msg_add_header msg name value =
     (if 16 \<le> length (headers msg) then (1, msg)
      else (0, msg\<lparr>headers := headers msg @ [(name, value)]\<rparr>))"

definition msg_get_header :: "rtsp_message \<Rightarrow> string \<Rightarrow> string option" where
  "msg_get_header msg name = map_option snd (find (\<lambda>(n, v). same_nocase n name) (headers msg))"

text \<open>
  \<open>nextline\<close> on the characters received: the line in front of the first CR or LF, and what stands behind
  it, where an LF right behind a CR belongs to it if it has been received already.
\<close>

fun nextline :: "string \<Rightarrow> (string \<times> string) option" where
  "nextline [] = None"
| "nextline (c # cs) =
     (if c = CR then Some ([], if take 1 cs = [LF] then drop 1 cs else cs)
      else if c = LF then Some ([], cs)
      else map_option (\<lambda>(line, rest). (c # line, rest)) (nextline cs))"

text \<open>The request line; \<open>req_method\<close> and \<open>path\<close> have room for 15 and 255 characters.\<close>

definition request_line :: "string \<Rightarrow> rtsp_message option" where
  "request_line line =
     do { (p, s) \<leftarrow> next_token (CHR '' '') line;
          let msg = msg_init\<lparr>req_method := take 15 p\<rparr>;
          (p, s) \<leftarrow> next_token (CHR '' '') s;
          let msg = msg\<lparr>path := take 255 p\<rparr>;
          (p, s) \<leftarrow> next_token (CHR '' '') s;
          if p = ''RTSP/1.0'' then Some msg else None }"

text \<open>
  \<open>msg_handle_line\<close>: the message so far (none before the request line) and a line give the return value,
  -1 while more lines are expected, and the message, none after a failure. The outer \<open>None\<close> is the
  undefined behaviour of \<open>atoi\<close>.
\<close>

definition msg_handle_line :: "rtsp_message option \<Rightarrow> string \<Rightarrow> (int \<times> rtsp_message option) option" where
  "msg_handle_line pmsg line =
     (case pmsg of
        None \<Rightarrow> (case request_line line of None \<Rightarrow> Some (0, None) | Some msg \<Rightarrow> Some (-1, Some msg))
      | Some msg \<Rightarrow>
          if line \<noteq> []
          then (case split_at '': '' line of
                  None \<Rightarrow> Some (0, None)
                | Some (name, value) \<Rightarrow> Some (-1, Some (snd (msg_add_header msg name value))))
          else (case msg_get_header msg ''Content-Length'' of
                  None \<Rightarrow> Some (0, Some msg)
                | Some cl \<Rightarrow> map_option (\<lambda>n. (n, Some msg)) (atoi cl)))"

section \<open>Writing a response\<close>

definition responses :: "(int \<times> string) list" where
  "responses = [(200, ''OK''), (400, ''Bad Request''), (403, ''Unauthorized''), (404, ''Not Found''),
     (451, ''Unavailable''), (456, ''Header Field Not Valid for Resource''),
     (470, ''Connection Authorization Required''), (500, ''Internal Server Error''), (501, ''Not Implemented'')]"

definition respcode_text :: "int \<Rightarrow> string" where
  "respcode_text rc = (case map_of responses rc of Some t \<Rightarrow> t | None \<Rightarrow> ''Unauthorized'')"

definition crlf :: string where "crlf = [CR, LF]"

text \<open>
  The block \<open>pkt\<close> of 4096 bytes, as what has been put in and \<open>pktfree\<close>. \<open>snprintf\<close> cuts what does not
  fit and still returns its length; \<open>pktfree\<close> is then 0 or less and the packet is given up.
\<close>

type_synonym packet = "string \<times> int"

definition put_text :: "string \<Rightarrow> packet \<Rightarrow> packet" where
  "put_text s = (\<lambda>(pkt, pktfree). (pkt @ s, pktfree - int (length s)))"

fun put_headers :: "(string \<times> string) list \<Rightarrow> packet \<Rightarrow> packet option" where
  "put_headers [] pkt = Some pkt"
| "put_headers ((name, value) # hs) pkt =
     (let pkt = put_text (name @ '': '' @ value @ crlf) pkt
      in if snd pkt \<le> 1024 then None else put_headers hs pkt)"

text \<open>
  \<open>send_out\<close> is the write to the socket, encrypted or not, which returns the number of bytes written, or -1.
  The result is the return value and what was given to the write. The outer \<open>None\<close>: the \<open>memcpy\<close> of
  the content leaves \<open>pkt\<close> or the content.
\<close>

definition msg_write_response :: "(string \<Rightarrow> int) \<Rightarrow> rtsp_message \<Rightarrow> (int \<times> string option) option" where
  "msg_write_response send_out resp =
     (case put_headers (headers resp)
             (put_text (''RTSP/1.0 '' @ decimal (respcode resp) @ '' '' @ respcode_text (respcode resp) @ crlf)
                ([], 4096)) of
        None \<Rightarrow> Some (-1, None)
      | Some pkt \<Rightarrow>
          let with_length = (if contentlength resp \<noteq> 0
                then put_text (''Content-Length: '' @ decimal (sint (contentlength resp)) @ crlf) pkt else pkt)
          in if contentlength resp \<noteq> 0 \<and> snd with_length \<le> 1024 then Some (-2, None)
             else let pkt = put_text crlf with_length
                  in if snd pkt < int (unat (contentlength resp)) \<or>
                         length (content resp) < unat (contentlength resp) then None
                     else let pkt = put_text (take (unat (contentlength resp)) (content resp)) pkt
                          in if snd pkt \<le> 1024 then Some (-3, None)
                             else let reply = send_out (fst pkt)
                                  in Some (if reply = -1 then -4
                                           else if reply \<noteq> int (length (fst pkt)) then -5 else 0,
                                           Some (fst pkt)))"

end
