(* ===== verification/Metadata_Messages.thy ===== *)
theory Metadata_Messages
  imports Metadata_Queue Rtsp_Message
begin

text \<open>
  Messages shared between threads (\<open>rtsp.c\<close>). A request whose content is metadata is not copied: it is
  retained (\<open>msg_retain\<close>), its address travels through the metadata queues, and each thread that had it releases
  it (\<open>msg_free\<close>); the last one frees the memory. The memory is a map from addresses to messages; touching a
  message that is not there is \<open>None\<close>, undefined behaviour.

  The counter's lock makes \<open>msg_retain\<close> and \<open>msg_free\<close> one step each, and the lock of a queue its operations;
  in between, other threads may run.
\<close>

type_synonym memory = "nat \<Rightarrow> rtsp_message option"

definition msg_retain :: "nat \<Rightarrow> memory \<Rightarrow> memory option" where
  "msg_retain p m =
     (case m p of None \<Rightarrow> None | Some msg \<Rightarrow> Some (m(p \<mapsto> msg\<lparr>referenceCount := referenceCount msg + 1\<rparr>)))"

definition msg_free :: "nat \<Rightarrow> memory \<Rightarrow> memory option" where
  "msg_free p m =
     (case m p of
        None \<Rightarrow> None
      | Some msg \<Rightarrow>
          (let msg = msg\<lparr>referenceCount := referenceCount msg - 1\<rparr>
           in Some (m(p := (if referenceCount msg = 0 then None else Some msg)))))"

section \<open>Packages and queues\<close>

record metadata_package =
  package_type :: u32
  package_code :: u32
  package_data :: "string option"
  package_length :: u32
  carrier :: "nat option"

text \<open>
  The queues of the pipe, multicast, hub and MQTT threads, with 500 places each; and \<open>held\<close>, the references in
  the variables of the threads: the request a connection works on, the package a thread has in hand.
\<close>

definition queue_number :: nat where "queue_number = 4"
definition metadata_queue_size :: u32 where "metadata_queue_size = 500"

record message_state =
  memory_of :: memory
  queue_of :: "nat \<Rightarrow> metadata_package pc_queue"
  held :: "nat list"

definition carried :: "metadata_package \<Rightarrow> nat list" where
  "carried k = (case carrier k of None \<Rightarrow> [] | Some p \<Rightarrow> [p])"

text \<open>The reference passes from the package of the sender into the queue.\<close>

definition handed_over :: "metadata_package \<Rightarrow> nat list \<Rightarrow> nat list" where
  "handed_over k ps = (case carrier k of None \<Rightarrow> ps | Some p \<Rightarrow> remove1 p ps)"

definition send_metadata_to_queue ::
    "nat \<Rightarrow> metadata_package \<Rightarrow> bool \<Rightarrow> bool \<Rightarrow> message_state \<Rightarrow> (nat \<times> message_state) option" where
  "send_metadata_to_queue q pack block busy s =
     do { s \<leftarrow> (case carrier pack of
                  None \<Rightarrow> Some s
                | Some p \<Rightarrow> map_option (\<lambda>m. s\<lparr>memory_of := m, held := p # held s\<rparr>) (msg_retain p (memory_of s)));
          (rc, q') \<leftarrow> pc_queue_add_item (queue_of s q) pack block busy;
          if rc = 0 then Some (0, s\<lparr>queue_of := (queue_of s)(q := q'), held := handed_over pack (held s)\<rparr>)
          else (case carrier pack of
                  None \<Rightarrow> Some (rc, s)
                | Some p \<Rightarrow> map_option (\<lambda>m. (rc, s\<lparr>memory_of := m, held := remove1 p (held s)\<rparr>))
                              (msg_free p (memory_of s))) }"

text \<open>
  To the pipe and the multicast thread if metadata is enabled, then to the hub and to MQTT; the result is that of the
  last one.
\<close>

definition send_metadata ::
    "bool \<Rightarrow> metadata_package \<Rightarrow> bool \<Rightarrow> (nat \<Rightarrow> bool) \<Rightarrow> message_state \<Rightarrow> (nat \<times> message_state) option" where
  "send_metadata enabled pack block busy s =
     do { s \<leftarrow> (if enabled
               then do { (_, s) \<leftarrow> send_metadata_to_queue 0 pack block (busy 0) s;
                         (_, s) \<leftarrow> send_metadata_to_queue 1 pack block (busy 1) s;
                         Some s }
               else Some s);
          (_, s) \<leftarrow> send_metadata_to_queue 2 pack block (busy 2) s;
          send_metadata_to_queue 3 pack block (busy 3) s }"

text \<open>A thread takes a package, works on it, and releases it (\<open>metadata_pack_cleanup_function\<close>).\<close>

definition take_package :: "nat \<Rightarrow> message_state \<Rightarrow> (metadata_package \<times> message_state) option option" where
  "take_package q s =
     map_option (map_option (\<lambda>(k, q'). (k, s\<lparr>queue_of := (queue_of s)(q := q'), held := carried k @ held s\<rparr>)))
       (pc_queue_get_item (queue_of s q))"

definition metadata_pack_cleanup_function :: "metadata_package \<Rightarrow> message_state \<Rightarrow> message_state option" where
  "metadata_pack_cleanup_function pack s =
     (case carrier pack of
        None \<Rightarrow> Some s
      | Some p \<Rightarrow> map_option (\<lambda>m. s\<lparr>memory_of := m, held := remove1 p (held s)\<rparr>) (msg_free p (memory_of s)))"

section \<open>The threads together\<close>

datatype message_event = Received nat | Retained nat | Queued metadata_package | Fetched metadata_package | Released nat

text \<open>A thread has at most a few references in hand, so there are never more than \<open>max_held\<close>.\<close>

definition max_held :: nat where "max_held = 65536"

inductive message_step :: "message_state \<Rightarrow> message_event \<Rightarrow> message_state \<Rightarrow> bool" where
  received: "memory_of s p = None \<Longrightarrow> length (held s) < max_held \<Longrightarrow>
     message_step s (Received p) (s\<lparr>memory_of := (memory_of s)(p \<mapsto> msg_init), held := p # held s\<rparr>)"
| retained: "p \<in> set (held s) \<Longrightarrow> length (held s) < max_held \<Longrightarrow> msg_retain p (memory_of s) = Some m \<Longrightarrow>
     message_step s (Retained p) (s\<lparr>memory_of := m, held := p # held s\<rparr>)"
| queued: "q < queue_number \<Longrightarrow> set (carried k) \<subseteq> set (held s) \<Longrightarrow>
     pc_queue_add_item (queue_of s q) k block busy = Some (0, q') \<Longrightarrow>
     message_step s (Queued k) (s\<lparr>queue_of := (queue_of s)(q := q'), held := handed_over k (held s)\<rparr>)"
| fetched: "q < queue_number \<Longrightarrow> length (held s) < max_held \<Longrightarrow> take_package q s = Some (Some (k, s')) \<Longrightarrow>
     message_step s (Fetched k) s'"
| released: "p \<in> set (held s) \<Longrightarrow> msg_free p (memory_of s) = Some m \<Longrightarrow>
     message_step s (Released p) (s\<lparr>memory_of := m, held := remove1 p (held s)\<rparr>)"

definition message_start :: "(nat \<Rightarrow> metadata_package list) \<Rightarrow> message_state" where
  "message_start its =
     \<lparr>memory_of = (\<lambda>_. None), queue_of = (\<lambda>q. pc_queue_init (its q) metadata_queue_size), held = []\<rparr>"

section \<open>Counting references\<close>

definition carriers :: "metadata_package list \<Rightarrow> nat list" where
  "carriers ks = concat (map carried ks)"

definition queued_references :: "(nat \<Rightarrow> metadata_package pc_queue) \<Rightarrow> nat \<Rightarrow> nat" where
  "queued_references f p = (\<Sum>q<queue_number. count_list (carriers (contents (f q))) p)"

definition references :: "message_state \<Rightarrow> nat \<Rightarrow> nat" where
  "references s p = count_list (held s) p + queued_references (queue_of s) p"

text \<open>The memory agrees with a count: what is counted is there with that count, what is not is free.\<close>

definition memory_ok :: "memory \<Rightarrow> (nat \<Rightarrow> nat) \<Rightarrow> bool" where
  "memory_ok m f \<longleftrightarrow> (\<forall>p. case m p of None \<Rightarrow> f p = 0 | Some msg \<Rightarrow> 0 < f p \<and> unat (referenceCount msg) = f p)"

definition message_ok :: "message_state \<Rightarrow> bool" where
  "message_ok s \<longleftrightarrow> (\<forall>q<queue_number. queue_ok (queue_of s q) \<and> capacity (queue_of s q) = metadata_queue_size) \<and>
     length (held s) \<le> max_held \<and> memory_ok (memory_of s) (references s)"

lemma memory_ok_live: "memory_ok m f \<Longrightarrow> m p \<noteq> None \<longleftrightarrow> 0 < f p"
  unfolding memory_ok_def by (drule spec [of _ p]) (auto split: option.splits)

lemma memory_okD: "memory_ok m f \<Longrightarrow> m p = Some msg \<Longrightarrow> 0 < f p \<and> unat (referenceCount msg) = f p"
  unfolding memory_ok_def by (drule spec [of _ p]) simp

lemma memory_ok_upd:
  assumes "memory_ok m f" and "case v of None \<Rightarrow> n = 0 | Some msg \<Rightarrow> 0 < n \<and> unat (referenceCount msg) = n"
  shows "memory_ok (m(p := v)) (f(p := n))"
  unfolding memory_ok_def
proof
  fix x
  show "case (m(p := v)) x of None \<Rightarrow> (f(p := n)) x = 0
      | Some msg \<Rightarrow> 0 < (f(p := n)) x \<and> unat (referenceCount msg) = (f(p := n)) x"
    using assms(1) [unfolded memory_ok_def, rule_format, of x] assms(2)
    by (cases "x = p"; cases v; cases "m x") simp_all
qed

lemma memory_ok_retain:
  assumes "memory_ok m f" and "f p + 1 < 2 ^ 32" and "msg_retain p m = Some m'"
  shows "memory_ok m' (f(p := f p + 1))"
proof -
  obtain msg where msg: "m p = Some msg" "m' = m(p \<mapsto> msg\<lparr>referenceCount := referenceCount msg + 1\<rparr>)"
    using assms(3) by (auto simp: msg_retain_def split: option.splits)
  have "unat (referenceCount msg) = f p" using memory_okD [OF assms(1) msg(1)] by simp
  then have "unat (referenceCount msg + 1) = f p + 1"
    using assms(2) by (simp add: unat_word_ariths)
  then show ?thesis unfolding msg(2) by (intro memory_ok_upd [OF assms(1)]) simp
qed

lemma memory_ok_free:
  assumes "memory_ok m f" and "msg_free p m = Some m'"
  shows "memory_ok m' (f(p := f p - 1))"
proof -
  obtain msg where msg: "m p = Some msg" using assms(2) by (auto simp: msg_free_def split: option.splits)
  have n: "unat (referenceCount msg) = f p" "0 < f p" using memory_okD [OF assms(1) msg] by simp_all
  have "referenceCount msg \<noteq> 0" using n by auto
  then have d: "unat (referenceCount msg - 1) = f p - 1" using n(1) by (simp add: unat_minus_one)
  have m': "m' = m(p := (if referenceCount msg - 1 = 0 then None
      else Some (msg\<lparr>referenceCount := referenceCount msg - 1\<rparr>)))"
    using assms(2) msg by (simp add: msg_free_def Let_def)
  show ?thesis
  proof (cases "referenceCount msg - 1 = 0")
    case True
    then have "f p - 1 = 0" using d by simp
    then show ?thesis unfolding m' using True by (intro memory_ok_upd [OF assms(1)]) simp
  next
    case False
    then have "0 < f p - 1" using d by (metis gr0I unat_eq_zero)
    then show ?thesis unfolding m' using False d by (intro memory_ok_upd [OF assms(1)]) simp
  qed
qed

lemma count_list_remove1: "count_list (remove1 p ps) x = count_list ps x - (if x = p then 1 else 0)"
  by (induction ps) auto

lemma count_list_pos: "p \<in> set ps \<Longrightarrow> 0 < count_list ps p"
  by (metis count_list_0_iff gr0I)

lemma carriers_append [simp]: "carriers (ks @ ls) = carriers ks @ carriers ls"
  by (simp add: carriers_def)

lemma carriers_Cons [simp]: "carriers (k # ks) = carried k @ carriers ks"
  by (simp add: carriers_def)

lemma carriers_Nil [simp]: "carriers [] = []"
  by (simp add: carriers_def)

lemma queued_references_update:
  assumes "q < queue_number"
  shows "queued_references (f(q := x)) p + count_list (carriers (contents (f q))) p =
    queued_references f p + count_list (carriers (contents x)) p"
proof -
  have "queued_references g p = count_list (carriers (contents (g q))) p +
      (\<Sum>i\<in>{..<queue_number} - {q}. count_list (carriers (contents (g i))) p)" for g
    using assms by (simp add: queued_references_def sum.remove)
  then show ?thesis by simp
qed

text \<open>There are never so many references that the counter overflows.\<close>

lemma length_carriers: "length (carriers ks) \<le> length ks"
  by (induction ks) (auto simp: carried_def split: option.splits)

lemma references_bound:
  assumes "message_ok s"
  shows "references s p \<le> max_held + 2000"
proof -
  have "count_list (carriers (contents (queue_of s q))) p \<le> 500" if "q < queue_number" for q
  proof -
    have "unat (count (queue_of s q)) \<le> 500"
      using assms that by (auto simp: message_ok_def queue_ok_def metadata_queue_size_def word_le_nat_alt)
    then show ?thesis
      using count_le_length [of "carriers (contents (queue_of s q))" p] length_carriers [of "contents (queue_of s q)"]
      by simp
  qed
  then have "queued_references (queue_of s) p \<le> (\<Sum>q<queue_number. 500)"
    unfolding queued_references_def by (intro sum_mono) simp
  moreover have "count_list (held s) p \<le> max_held"
    using assms count_le_length [of "held s" p] by (simp add: message_ok_def)
  ultimately show ?thesis by (simp add: references_def queue_number_def)
qed

lemma references_queued:
  assumes "q < queue_number" and "set (carried k) \<subseteq> set (held s)"
    and "contents q' = contents (queue_of s q) @ [k]"
  shows "references (s\<lparr>queue_of := (queue_of s)(q := q'), held := handed_over k (held s)\<rparr>) = references s"
proof
  fix p
  have "queued_references ((queue_of s)(q := q')) p = queued_references (queue_of s) p + count_list (carried k) p"
    using queued_references_update [OF assms(1), of "queue_of s" q' p] by (simp add: assms(3))
  moreover have "count_list (handed_over k (held s)) p + count_list (carried k) p = count_list (held s) p"
    using assms(2) count_list_pos [of p "held s"]
    by (auto simp: handed_over_def carried_def count_list_remove1 split: option.splits)
  ultimately show "references (s\<lparr>queue_of := (queue_of s)(q := q'), held := handed_over k (held s)\<rparr>) p = references s p"
    by (simp add: references_def)
qed

lemma references_fetched:
  assumes "q < queue_number" and "contents (queue_of s q) = k # contents q'"
  shows "references (s\<lparr>queue_of := (queue_of s)(q := q'), held := carried k @ held s\<rparr>) = references s"
proof
  fix p
  show "references (s\<lparr>queue_of := (queue_of s)(q := q'), held := carried k @ held s\<rparr>) p = references s p"
    using queued_references_update [OF assms(1), of "queue_of s" q' p] by (simp add: references_def assms(2))
qed

section \<open>Every step keeps the count\<close>

lemma references_held: "references (s\<lparr>memory_of := m, held := p # held s\<rparr>) = (references s)(p := references s p + 1)"
  by (rule ext) (simp add: references_def)

lemma references_released:
  "p \<in> set (held s) \<Longrightarrow>
     references (s\<lparr>memory_of := m, held := remove1 p (held s)\<rparr>) = (references s)(p := references s p - 1)"
  by (rule ext) (use count_list_pos [of p "held s"] in \<open>auto simp: references_def count_list_remove1\<close>)

lemma length_handed_over: "length (handed_over k ps) \<le> length ps"
  by (auto simp: handed_over_def length_remove1 split: option.splits)

lemma message_step_ok:
  assumes "message_step s e s'" and "message_ok s"
  shows "message_ok s'"
  using assms
proof (induction rule: message_step.induct)
  case (received s p)
  have m: "memory_ok (memory_of s) (references s)" using received.prems by (simp add: message_ok_def)
  then have "references s p = 0" using memory_ok_live [OF m, of p] received(1) by simp
  then have "memory_ok ((memory_of s)(p \<mapsto> msg_init)) ((references s)(p := references s p + 1))"
    by (intro memory_ok_upd [OF m]) (simp add: msg_init_def)
  then show ?case using received by (simp add: message_ok_def references_held)
next
  case (retained p s m)
  have "references s p + 1 < 2 ^ 32" using references_bound [OF retained.prems, of p] by (simp add: max_held_def)
  then show ?case
    using retained memory_ok_retain [of "memory_of s" "references s" p m] by (simp add: message_ok_def references_held)
next
  case (queued q k s block busy q')
  have q: "queue_ok (queue_of s q)" using queued by (simp add: message_ok_def)
  note q' = add_item_cases [OF q queued(3)]
  then have "contents q' = contents (queue_of s q) @ [k]" by simp
  then show ?case
    using queued q' length_handed_over [of k "held s"] references_queued [OF queued(1,2)]
    by (simp add: message_ok_def)
next
  case (fetched q s k s')
  then obtain q' where g: "pc_queue_get_item (queue_of s q) = Some (Some (k, q'))"
    and s': "s' = s\<lparr>queue_of := (queue_of s)(q := q'), held := carried k @ held s\<rparr>"
    by (auto simp: take_package_def)
  have q: "queue_ok (queue_of s q)" using fetched by (simp add: message_ok_def)
  note q' = get_item_cases [OF q g]
  have "length (carried k) \<le> 1" by (simp add: carried_def split: option.splits)
  then show ?case
    using fetched q' references_fetched [OF fetched(1), of s k q'] by (simp add: message_ok_def s')
next
  case (released p s m)
  then show ?case
    using memory_ok_free [of "memory_of s" "references s" p m]
    by (auto simp: message_ok_def references_released length_remove1)
qed

lemma message_start_ok:
  assumes "\<forall>q<queue_number. length (its q) = 500"
  shows "message_ok (message_start its)"
proof -
  have "queue_ok (pc_queue_init (its q) 500)" if "q < queue_number" for q
    using assms that by (intro queue_ok_init) auto
  then show ?thesis
    by (simp add: message_ok_def message_start_def metadata_queue_size_def pc_queue_init_def memory_ok_def references_def
        queued_references_def contents_def)
qed

text \<open>A sender that holds the message makes only such steps.\<close>

lemma send_to_queue_run:
  assumes "send_metadata_to_queue q k block busy s = Some (rc, s')" and "q < queue_number"
    and "set (carried k) \<subseteq> set (held s)" and "length (held s) < max_held"
  shows "\<exists>es. runs message_step s es s'"
proof (cases "carrier k")
  case None
  obtain rc' q' where a: "pc_queue_add_item (queue_of s q) k block busy = Some (rc', q')"
    using assms(1) None by (auto simp: send_metadata_to_queue_def bind_eq_Some_conv)
  show ?thesis
  proof (cases "rc' = 0")
    case True
    then have "message_step s (Queued k) s'"
      using message_step.queued [OF assms(2,3)] a assms(1) None by (auto simp: send_metadata_to_queue_def)
    then show ?thesis by (blast intro: runs.intros)
  next
    case False
    then have "s' = s" using a assms(1) None by (simp add: send_metadata_to_queue_def)
    then show ?thesis by (blast intro: runs.intros)
  qed
next
  case (Some p)
  then have p: "p \<in> set (held s)" using assms(3) by (simp add: carried_def)
  obtain m where m: "msg_retain p (memory_of s) = Some m"
    using assms(1) Some by (auto simp: send_metadata_to_queue_def bind_eq_Some_conv)
  define s1 where "s1 = s\<lparr>memory_of := m, held := p # held s\<rparr>"
  have 1: "message_step s (Retained p) s1" unfolding s1_def by (rule message_step.retained [OF p assms(4) m])
  obtain rc' q' where a: "pc_queue_add_item (queue_of s1 q) k block busy = Some (rc', q')"
    using assms(1) Some m by (auto simp: send_metadata_to_queue_def bind_eq_Some_conv s1_def)
  have "\<exists>e. message_step s1 e s'"
  proof (cases "rc' = 0")
    case True
    have "set (carried k) \<subseteq> set (held s1)" using Some by (simp add: carried_def s1_def)
    from message_step.queued [OF assms(2) this] show ?thesis
      using a True assms(1) Some m by (auto simp: send_metadata_to_queue_def s1_def)
  next
    case False
    then obtain m' where "msg_free p (memory_of s1) = Some m'" "s' = s1\<lparr>memory_of := m', held := remove1 p (held s1)\<rparr>"
      using a assms(1) Some m by (auto simp: send_metadata_to_queue_def s1_def)
    then show ?thesis using message_step.released [of p s1 m'] by (auto simp: s1_def)
  qed
  with 1 show ?thesis by (blast intro: runs.intros)
qed

section \<open>Property\<close>



end
