(* ===== verification/Metadata_Output.thy ===== *)
theory Metadata_Output
  imports Rtsp_Message
begin

text \<open>
  What leaves the metadata threads (\<open>rtsp.c\<close>): the base64 encoder \<open>base64_encode_so\<close>, the items that
  \<open>metadata_process\<close> writes into the pipe, and the datagrams that \<open>metadata_multicast_process\<close> sends,
  whole or in numbered chunks.
\<close>

unbundle bit_operations_syntax

section \<open>Base64\<close>

definition encoding_table :: string where
  "encoding_table = ''ABCDEFGHIJKLMNOPQRSTUVWXYZabcdefghijklmnopqrstuvwxyz0123456789+/''"

definition mod_table :: "nat list" where "mod_table = [0, 2, 1]"

definition table_char :: "nat \<Rightarrow> u32 \<Rightarrow> char" where
  "table_char k triple = encoding_table ! unat (drop_bit (k * 6) triple AND 0x3F)"

definition octet_triple :: "u8 \<Rightarrow> u8 \<Rightarrow> u8 \<Rightarrow> u32" where
  "octet_triple a b c = push_bit 0x10 (ucast a) + push_bit 0x08 (ucast b) + ucast c"

definition four_chars :: "u8 \<Rightarrow> u8 \<Rightarrow> u8 \<Rightarrow> string" where
  "four_chars a b c =
     (let triple = octet_triple a b c
      in [table_char 3 triple, table_char 2 triple, table_char 1 triple, table_char 0 triple])"

text \<open>The loop: three bytes a turn, zero for what is not there.\<close>

fun encode_loop :: "bytes \<Rightarrow> string" where
  "encode_loop [] = []"
| "encode_loop [a] = four_chars a 0 0"
| "encode_loop [a, b] = four_chars a b 0"
| "encode_loop (a # b # c # ds) = four_chars a b c @ encode_loop ds"

definition pad_end :: "nat \<Rightarrow> string \<Rightarrow> string" where
  "pad_end n s = take (length s - n) s @ replicate n (CHR ''='')"

text \<open>\<open>None\<close>: the output does not fit.\<close>

definition base64_encode_so :: "bytes \<Rightarrow> nat \<Rightarrow> string option" where
  "base64_encode_so dat room =
     (if 4 * ((length dat + 2) div 3) > room then None
      else Some (pad_end (mod_table ! (length dat mod 3)) (encode_loop dat)))"

section \<open>Items in the pipe\<close>

text \<open>The conversion \<open>%x\<close> of \<open>snprintf\<close>.\<close>

fun print_hex :: "nat \<Rightarrow> string" where
  "print_hex n = (if n < 16 then [''0123456789abcdef'' ! n] else print_hex (n div 16) @ [''0123456789abcdef'' ! (n mod 16)])"

declare print_hex.simps [simp del]

definition item_head :: "u32 \<Rightarrow> u32 \<Rightarrow> u32 \<Rightarrow> string" where
  "item_head type tag len =
     ''<item><type>'' @ print_hex (unat type) @ ''</type><code>'' @ print_hex (unat tag) @
     ''</code><length>'' @ nat_decimal (unat len) @ ''</length>''"

text \<open>The data, 57 bytes at a time; each group gets 76 characters of room, which is what it needs.\<close>

function encoded_lines :: "bytes \<Rightarrow> string list" where
  "encoded_lines dat =
     (if dat = [] then []
      else (case base64_encode_so (take 57 dat) 76 of None \<Rightarrow> [] | Some s \<Rightarrow> [s]) @ encoded_lines (drop 57 dat))"
  by pat_completeness auto
termination by (relation "measure length") auto

declare encoded_lines.simps [simp del]

definition item_writes :: "u32 \<Rightarrow> u32 \<Rightarrow> bytes option \<Rightarrow> u32 \<Rightarrow> string list" where
  "item_writes type tag dat len =
     [item_head type tag len] @
     (case dat of
        Some d \<Rightarrow>
          if len > 0
          then [[LF] @ ''<data encoding='' @ [CHR 0x22] @ ''base64'' @ [CHR 0x22] @ ''>'' @ [LF]] @
               encoded_lines (take (unat len) d) @ [''</data>'']
          else []
      | None \<Rightarrow> []) @
     [''</item>'' @ [LF]]"

text \<open>
  \<open>metadata_process\<close>: the writes go out until one of them fails; \<open>write_ok\<close> tells for each whether it succeeds.
  Every write is taken to be complete, as the code does. Nothing is written without the pipe.
\<close>

fun written :: "bool list \<Rightarrow> string list \<Rightarrow> string list" where
  "written (True # oks) (s # ss) = s # written oks ss"
| "written _ _ = []"

definition metadata_process :: "bool \<Rightarrow> bool list \<Rightarrow> u32 \<Rightarrow> u32 \<Rightarrow> bytes option \<Rightarrow> u32 \<Rightarrow> string list" where
  "metadata_process pipe_open write_ok type tag dat len =
     (if pipe_open then written write_ok (item_writes type tag dat len) else [])"

section \<open>Multicast datagrams\<close>

definition chunk_head :: "u32 \<Rightarrow> u32 \<Rightarrow> u32 \<Rightarrow> u32 \<Rightarrow> bytes" where
  "chunk_head chunk_ix chunk_total type tag =
     [115, 115, 110, 99, 99, 104, 110, 107] @
     htonl_bytes chunk_ix @ htonl_bytes chunk_total @ htonl_bytes type @ htonl_bytes tag"

text \<open>
  The chunks from number \<open>chunk_ix\<close> on; \<open>room\<close> is what a datagram holds behind the head. With no room the
  loop does not end.
\<close>

function send_chunks :: "nat \<Rightarrow> u32 \<Rightarrow> u32 \<Rightarrow> u32 \<Rightarrow> u32 \<Rightarrow> bytes \<Rightarrow> bytes list" where
  "send_chunks room chunk_ix chunk_total type tag remaining =
     (if length remaining \<le> room \<or> room = 0
      then [chunk_head chunk_ix chunk_total type tag @ remaining]
      else (chunk_head chunk_ix chunk_total type tag @ take room remaining) #
           send_chunks room (chunk_ix + 1) chunk_total type tag (drop room remaining))"
  by pat_completeness auto
termination by (relation "measure (\<lambda>(room, _, _, _, _, r). length r)") auto

declare send_chunks.simps [simp del]

definition chunk_count :: "nat \<Rightarrow> nat \<Rightarrow> nat" where
  "chunk_count room len = (let n = len div room in if n * room < len then n + 1 else n)"

text \<open>\<open>sockmsglength\<close> is the size of a datagram; the configuration takes it from 500 to 65000.\<close>

definition metadata_multicast_process :: "nat \<Rightarrow> u32 \<Rightarrow> u32 \<Rightarrow> bytes \<Rightarrow> bytes list" where
  "metadata_multicast_process sockmsglength type tag dat =
     (if length dat < sockmsglength - 8
      then [htonl_bytes type @ htonl_bytes tag @ dat]
      else (let room = sockmsglength - 24
            in send_chunks room 0 (of_nat (chunk_count room (length dat))) type tag dat))"

end
