(* ===== verification/Metadata_Decoding.thy ===== *)
theory Metadata_Decoding
  imports Metadata_Output
begin

text \<open>
  A reader of the pipe and of the datagrams gets back what was sent: the base64 of an item decodes to its
  data, although it is encoded in groups, and the chunks of a large item join to its data.
\<close>

section \<open>A decoder of base64\<close>

definition char_value :: "char \<Rightarrow> u8" where
  "char_value ch = of_nat (length (takeWhile (\<lambda>x. x \<noteq> ch) encoding_table))"

definition join_four :: "u8 \<Rightarrow> u8 \<Rightarrow> u8 \<Rightarrow> u8 \<Rightarrow> bytes" where
  "join_four w x y z =
     [push_bit 2 w OR drop_bit 4 x, push_bit 4 x OR drop_bit 2 y, push_bit 6 y OR z]"

fun base64_decode :: "string \<Rightarrow> bytes option" where
  "base64_decode [] = Some []"
| "base64_decode (c1 # c2 # c3 # c4 # cs) =
     (let joined = join_four (char_value c1) (char_value c2) (char_value c3) (char_value c4)
      in if c3 = CHR ''='' then Some (take 1 joined)
         else if c4 = CHR ''='' then Some (take 2 joined)
         else map_option ((@) joined) (base64_decode cs))"
| "base64_decode _ = None"

lemma six_bits: "unat (x AND 0x3F :: u32) < 64"
  using word_and_le1 [of x "0x3F"] by (simp add: word_le_nat_alt)

lemma encoding_table_length [simp]: "length encoding_table = 64"
  by (simp add: encoding_table_def)

lemma encoding_table_distinct: "distinct encoding_table"
  by (simp add: encoding_table_def)

lemma no_equals: "CHR ''='' \<notin> set encoding_table"
  by (simp add: encoding_table_def)

lemma table_char_in: "table_char k t \<noteq> CHR ''=''"
  using no_equals six_bits [of "drop_bit (k * 6) t"] by (metis table_char_def nth_mem encoding_table_length)

lemma takeWhile_nth: "distinct xs \<Longrightarrow> i < length xs \<Longrightarrow> takeWhile (\<lambda>x. x \<noteq> xs ! i) xs = take i xs"
  by (rule takeWhile_eq_take_P_nth) (auto simp: nth_eq_iff_index_eq)

lemma char_value_table: "char_value (table_char k t) = ucast (drop_bit (k * 6) t AND 0x3F)"
proof -
  let ?v = "drop_bit (k * 6) t AND 0x3F"
  have "char_value (table_char k t) = of_nat (unat ?v)"
    using takeWhile_nth [OF encoding_table_distinct, of "unat ?v"] six_bits [of "drop_bit (k * 6) t"]
    by (simp add: char_value_def table_char_def)
  then show ?thesis by simp
qed

lemma no_high_bit: "8 \<le> n \<Longrightarrow> \<not> bit (a :: u8) n"
  using bit_imp_le_length [of a n] by auto

lemma octet_triple_or: "octet_triple a b c = push_bit 16 (ucast a) OR push_bit 8 (ucast b) OR ucast c"
proof -
  have 1: "push_bit 16 (ucast a) + push_bit 8 (ucast b) = (push_bit 16 (ucast a) OR push_bit 8 (ucast b) :: u32)"
    by (rule disjunctive_add) (auto simp: bit_simps no_high_bit)
  have 2: "(push_bit 16 (ucast a) OR push_bit 8 (ucast b)) + ucast c =
      (push_bit 16 (ucast a) OR push_bit 8 (ucast b) OR ucast c :: u32)"
    by (subst disjunctive_add) (auto simp: bit_simps or.assoc no_high_bit)
  show ?thesis unfolding octet_triple_def using 1 2 by simp
qed

lemma sixbit_bit: "bit (0x3F :: u32) n \<longleftrightarrow> n < 6"
proof -
  have "(0x3F :: u32) = Bit_Operations.mask 6" by (simp add: mask_eq_decr_exp)
  then show ?thesis by (simp only: bit_mask_iff) auto
qed

lemma u8_eqI:
  assumes "bit x 0 = bit y 0" "bit x 1 = bit y 1" "bit x 2 = bit y 2" "bit x 3 = bit y 3" "bit x 4 = bit y 4"
    "bit x 5 = bit y 5" "bit x 6 = bit y 6" "bit x 7 = bit y 7"
  shows "x = (y :: u8)"
proof (rule bit_word_eqI)
  fix n assume "n < LENGTH(8)"
  then have "n \<in> {0, 1, 2, 3, 4, 5, 6, 7}" by auto
  then show "bit x n = bit y n" using assms by auto
qed

lemma join_four_triple:
  "join_four (char_value (table_char 3 (octet_triple a b c))) (char_value (table_char 2 (octet_triple a b c)))
     (char_value (table_char 1 (octet_triple a b c))) (char_value (table_char 0 (octet_triple a b c))) = [a, b, c]"
  unfolding join_four_def char_value_table octet_triple_or list.inject
  by (intro conjI; (rule u8_eqI)?; simp add: bit_simps sixbit_bit no_high_bit)

section \<open>Encoding and decoding\<close>

definition base64 :: "bytes \<Rightarrow> string" where
  "base64 d = pad_end (mod_table ! (length d mod 3)) (encode_loop d)"

lemma pad_end_simps: "pad_end 0 s = s" "pad_end 2 [a, b, c, d] = [a, b] @ ''==''" "pad_end 1 [a, b, c, d] = [a, b, c] @ ''=''"
  by (simp_all add: pad_end_def numeral_2_eq_2)

lemma mod_table_simps: "mod_table ! 0 = 0" "mod_table ! 1 = 2" "mod_table ! 2 = 1"
  by (simp_all add: mod_table_def)

lemma four_chars_four: "\<exists>w x y z. four_chars a b c = [w, x, y, z]"
  by (simp add: four_chars_def Let_def)

lemma base64_Nil [simp]: "base64 [] = []"
  by (simp add: base64_def pad_end_simps mod_table_simps)

lemma base64_one [simp]: "base64 [a] = take 2 (four_chars a 0 0) @ ''==''"
proof -
  have "base64 [a] = pad_end 2 (four_chars a 0 0)" using mod_table_simps(2) by (simp add: base64_def)
  then show ?thesis using four_chars_four [of a 0 0] by (auto simp: pad_end_simps)
qed

lemma base64_two [simp]: "base64 [a, b] = take 3 (four_chars a b 0) @ ''=''"
proof -
  have l: "length [a, b] mod 3 = 2" by simp
  have "base64 [a, b] = pad_end 1 (four_chars a b 0)" unfolding base64_def l mod_table_simps(3) by simp
  then show ?thesis using four_chars_four [of a b 0] by (auto simp: pad_end_simps(3) [unfolded One_nat_def])
qed

lemma encode_loop_length: "length (encode_loop d) = 4 * ((length d + 2) div 3)"
proof (induction d rule: encode_loop.induct)
  case (4 a b c ds)
  have "(length (a # b # c # ds) + 2) div 3 = Suc ((length ds + 2) div 3)" by simp
  then show ?case using 4 by (simp add: four_chars_def Let_def)
qed (simp_all add: four_chars_def Let_def)

lemma base64_three [simp]: "base64 (a # b # c # ds) = four_chars a b c @ base64 ds"
proof -
  define n where "n = mod_table ! (length ds mod 3)"
  have n: "n \<le> length (encode_loop ds)"
  proof (cases ds)
    case (Cons x xs)
    then have "4 \<le> length (encode_loop ds)" by (simp add: encode_loop_length)
    moreover have "length ds mod 3 \<in> {0, 1, 2}" by auto
    ultimately show ?thesis by (auto simp: n_def mod_table_def)
  qed (simp add: n_def mod_table_def)
  have "length (a # b # c # ds) mod 3 = length ds mod 3" by simp
  then show ?thesis using n unfolding base64_def by (simp add: pad_end_def n_def [symmetric])
qed

lemma base64_append: "length xs mod 3 = 0 \<Longrightarrow> base64 (xs @ ys) = base64 xs @ base64 ys"
  by (induction xs rule: encode_loop.induct) auto

lemma decode_base64: "base64_decode (base64 d) = Some d"
proof (induction d rule: encode_loop.induct)
  case (2 a)
  then show ?case using join_four_triple [of a 0 0] by (simp add: four_chars_def Let_def join_four_def)
next
  case (3 a b)
  then show ?case
    using join_four_triple [of a b 0] table_char_in by (simp add: four_chars_def Let_def join_four_def)
next
  case (4 a b c ds)
  then show ?case using join_four_triple [of a b c] table_char_in by (simp add: four_chars_def Let_def)
qed simp

interpretation base64_codec: codec base64 base64_decode "\<lambda>_. True"
  by unfold_locales (rule decode_base64)

lemma encoded_lines_base64: "concat (encoded_lines d) = base64 d"
proof (induction d rule: encoded_lines.induct)
  case (1 d)
  show ?case
  proof (cases "d = []")
    case True
    then show ?thesis by (simp add: encoded_lines.simps)
  next
    case False
    have "(length (take 57 d) + 2) div 3 \<le> 59 div 3" by (rule div_le_mono) simp
    then have "4 * ((length (take 57 d) + 2) div 3) \<le> 76" by simp
    then have enc: "base64_encode_so (take 57 d) 76 = Some (base64 (take 57 d))"
      by (simp add: base64_encode_so_def base64_def)
    have "base64 d = base64 (take 57 d) @ base64 (drop 57 d)"
    proof (cases "length d \<le> 57")
      case False
      then have "length (take 57 d) mod 3 = 0" by simp
      from base64_append [OF this, of "drop 57 d"] show ?thesis by simp
    qed simp
    then show ?thesis using 1 False enc by (subst encoded_lines.simps) simp
  qed
qed

section \<open>The chunks of a datagram\<close>

lemma length_chunk_head [simp]: "length (chunk_head i n type tag) = 24"
  by (simp add: chunk_head_def)

lemma send_chunks_facts:
  assumes "0 < room" and "r \<noteq> []"
  shows "concat (map (drop 24) (send_chunks room ix n type tag r)) = r \<and>
    length (send_chunks room ix n type tag r) = (length r + room - 1) div room \<and>
    (\<forall>i<length (send_chunks room ix n type tag r). \<exists>part. length part \<le> room \<and>
       send_chunks room ix n type tag r ! i = chunk_head (ix + of_nat i) n type tag @ part)"
  using assms
proof (induction room ix n type tag r rule: send_chunks.induct)
  case (1 room ix n type tag r)
  show ?case
  proof (cases "length r \<le> room")
    case True
    have pos: "0 < length r" using 1(3) by simp
    have le: "room \<le> length r + room - 1" using pos by arith
    have lt: "length r + room - 1 < 2 * room" using True 1(2) by arith
    have "(length r + room - 1) div room = 1"
      using le lt by (intro div_nat_eqI) simp_all
    then show ?thesis using True by (simp add: send_chunks.simps [of room ix n type tag r])
  next
    case False
    let ?rest = "drop room r"
    have e: "send_chunks room ix n type tag r =
        (chunk_head ix n type tag @ take room r) # send_chunks room (ix + 1) n type tag ?rest"
      using False 1(2) by (subst send_chunks.simps) simp
    have "\<not> (length r \<le> room \<or> room = 0)" "?rest \<noteq> []" using False 1(2) by simp_all
    note ih0 = 1(1) [OF this(1) 1(2) this(2)]
    note ih = ih0 [THEN conjunct1] ih0 [THEN conjunct2, THEN conjunct1]
      ih0 [THEN conjunct2, THEN conjunct2, rule_format]
    have "(length r + room - 1) div room = Suc ((length ?rest + room - 1) div room)"
    proof -
      define x where "x = length ?rest + room - 1"
      have "length r + room - 1 = x + room" using False 1(2) unfolding x_def length_drop by arith
      moreover have "(x + room) div room = Suc (x div room)" using 1(2) by (simp add: div_add_self2)
      ultimately show ?thesis unfolding x_def by metis
    qed
    moreover have "\<exists>part. length part \<le> room \<and> send_chunks room ix n type tag r ! i = chunk_head (ix + of_nat i) n type tag @ part"
      if "i < length (send_chunks room ix n type tag r)" for i
    proof (cases i)
      case 0
      then show ?thesis using e by (intro exI [of _ "take room r"]) simp
    next
      case (Suc j)
      then show ?thesis using ih(3) [of j] that e by (simp add: add.assoc)
    qed
    ultimately show ?thesis using ih(1,2) e by simp
  qed
qed

lemma chunk_count_ceil:
  assumes "0 < room"
  shows "chunk_count room len = (len + room - 1) div room"
proof (cases "len mod room = 0")
  case True
  then obtain k where k: "len = room * k" by auto
  then have "(len + room - 1) div room = k"
    using assms by (intro div_nat_eqI) auto
  then show ?thesis using k assms by (simp add: chunk_count_def)
next
  case False
  define q where "q = len div room"
  define m where "m = len mod room"
  have l: "len = q * room + m" "0 < m" "m < room" using False assms by (auto simp: q_def m_def)
  then have "(len + room - 1) div room = Suc q"
    by (intro div_nat_eqI) (auto simp: algebra_simps)
  then show ?thesis using l by (simp add: chunk_count_def q_def [symmetric] Let_def)
qed

section \<open>Properties\<close>

text \<open>
  A reader of the pipe gets an item whole. When every write succeeds, the item is its head, its data in base64
  between the tags of the data, and its end, although the data is encoded in groups of 57 bytes; and
  the base64 decodes to the data.
\<close>

lemma pipe_item_decodes:
  assumes "dat \<noteq> []" and "length dat = unat len" and "length oks = length (item_writes type tag (Some dat) len)"
    and "\<forall>ok\<in>set oks. ok"
  shows "\<exists>e. concat (metadata_process True oks type tag (Some dat) len) =
     item_head type tag len @ [LF] @ ''<data encoding='' @ [CHR 0x22] @ ''base64'' @ [CHR 0x22] @ ''>'' @ [LF] @
     e @ ''</data></item>'' @ [LF] \<and> base64_decode e = Some dat"
proof -
  have all: "written oks ss = ss" if "length oks = length ss" "\<forall>ok\<in>set oks. ok" for oks ss
    using that by (induction oks ss rule: list_induct2) auto
  have "unat len \<noteq> 0" using assms(1,2) by (metis length_0_conv)
  then have "0 < len" by (simp add: word_gt_0 unat_eq_0)
  then have "concat (metadata_process True oks type tag (Some dat) len) =
     item_head type tag len @ [LF] @ ''<data encoding='' @ [CHR 0x22] @ ''base64'' @ [CHR 0x22] @ ''>'' @ [LF] @
     base64 dat @ ''</data></item>'' @ [LF]"
    using all [OF assms(3,4)] assms(2) by (simp add: metadata_process_def item_writes_def encoded_lines_base64)
  then show ?thesis using base64_codec.decode_encode [of dat] by blast
qed

lemma pipe_item_decodes_witness:
  "\<exists>e. concat (metadata_process True [True, True, True, True, True] 0x73736e63 0x736e616d (Some [65, 66]) 2) =
     item_head 0x73736e63 0x736e616d 2 @ [LF] @ ''<data encoding='' @ [CHR 0x22] @ ''base64'' @ [CHR 0x22] @ ''>'' @ [LF] @
     e @ ''</data></item>'' @ [LF] \<and> base64_decode e = Some [65, 66]"
proof -
  have "length (encoded_lines [65, 66]) = 1"
    by (simp add: encoded_lines.simps [of "[65, 66]"] encoded_lines.simps [of "[]"] base64_encode_so_def)
  then have "length (item_writes 0x73736e63 0x736e616d (Some [65, 66]) 2) = 5" by (simp add: item_writes_def)
  then show ?thesis by (intro pipe_item_decodes) auto
qed

text \<open>
  The chunks of a large item join to its data. Each datagram fits the configured size and says its
  number, how many there are, and the type and code of the item; there are as many as it says; and their contents, in the
  order of the numbers, are the data.
\<close>

lemma multicast_chunks_join:
  assumes "24 < msgsize" and "msgsize - 8 \<le> length dat" and "dat \<noteq> []"
  shows "concat (map (drop 24) (metadata_multicast_process msgsize type tag dat)) = dat \<and>
    (\<forall>i<length (metadata_multicast_process msgsize type tag dat).
       (let d = metadata_multicast_process msgsize type tag dat ! i
        in length d \<le> msgsize \<and> nctohl d 8 = Some (of_nat i) \<and>
           nctohl d 12 = Some (of_nat (length (metadata_multicast_process msgsize type tag dat))) \<and>
           nctohl d 16 = Some type \<and> nctohl d 20 = Some tag))"
proof -
  define room where "room = msgsize - 24"
  have room: "0 < room" using assms(1) by (simp add: room_def)
  define n :: u32 where "n = of_nat (chunk_count room (length dat))"
  have m: "metadata_multicast_process msgsize type tag dat = send_chunks room 0 n type tag dat"
    using assms(2) by (simp add: metadata_multicast_process_def room_def n_def Let_def)
  note f = send_chunks_facts [OF room assms(3), of 0 n type tag]
  have n: "n = of_nat (length (send_chunks room 0 n type tag dat))"
    using f by (simp add: n_def chunk_count_ceil [OF room])
  have fields: "nctohl (chunk_head i n type tag @ part) 8 = Some i \<and> nctohl (chunk_head i n type tag @ part) 12 = Some n \<and>
      nctohl (chunk_head i n type tag @ part) 16 = Some type \<and> nctohl (chunk_head i n type tag @ part) 20 = Some tag" for i part
  proof -
    let ?p = "[115, 115, 110, 99, 99, 104, 110, 107 :: u8]"
    show ?thesis
      using nctohl_at [of 8 ?p i] nctohl_at [of 12 "?p @ htonl_bytes i" n]
        nctohl_at [of 16 "?p @ htonl_bytes i @ htonl_bytes n" type]
        nctohl_at [of 20 "?p @ htonl_bytes i @ htonl_bytes n @ htonl_bytes type" tag]
      by (simp add: chunk_head_def)
  qed
  have "\<forall>i<length (send_chunks room 0 n type tag dat).
      (let d = send_chunks room 0 n type tag dat ! i
       in length d \<le> msgsize \<and> nctohl d 8 = Some (of_nat i) \<and> nctohl d 12 = Some n \<and>
          nctohl d 16 = Some type \<and> nctohl d 20 = Some tag)"
  proof (intro allI impI)
    fix i assume "i < length (send_chunks room 0 n type tag dat)"
    then obtain part where "length part \<le> room"
      "send_chunks room 0 n type tag dat ! i = chunk_head (of_nat i) n type tag @ part" using f by auto
    then show "let d = send_chunks room 0 n type tag dat ! i
       in length d \<le> msgsize \<and> nctohl d 8 = Some (of_nat i) \<and> nctohl d 12 = Some n \<and>
          nctohl d 16 = Some type \<and> nctohl d 20 = Some tag"
      using fields room by (simp add: room_def Let_def)
  qed
  then show ?thesis using f n unfolding m by simp
qed

lemma multicast_chunks_join_witness:
  "concat (map (drop 24) (metadata_multicast_process 26 1 2 [7, 8, 9, 10, 11, 12, 13, 14, 15, 16, 17, 18, 19, 20, 21, 22, 23, 24])) =
     [7, 8, 9, 10, 11, 12, 13, 14, 15, 16, 17, 18, 19, 20, 21, 22, 23, 24]"
  using multicast_chunks_join [of 26 "[7, 8, 9, 10, 11, 12, 13, 14, 15, 16, 17, 18, 19, 20, 21, 22, 23, 24]" 1 2] by simp

end
