(* ===== verification/Metadata_Items.thy ===== *)
theory Metadata_Items
  imports Prelude
begin

text \<open>
  Tagged metadata (\<open>handle_set_parameter_metadata\<close> of \<open>rtsp.c\<close>): behind eight bytes the content of the request is a
  row of items, each a tag, a length and so many bytes of data, and every item is sent to the metadata
  queues. Offsets and lengths are 32-bit numbers.

  \<open>cp\<close> is the memory of the content, which may be longer than the content \<open>cl\<close>. What is sent is the tag and
  the place of the data; the data is read there later, by the thread that takes the item. The loop is a
  partial function: it is \<open>None\<close> if it never ends.
\<close>

record sent_item =
  item_tag :: u32
  data_at :: u32
  data_length :: u32

datatype item_end = All_sent | Left_memory

partial_function (option) items_loop ::
    "bytes \<Rightarrow> u32 \<Rightarrow> u32 \<Rightarrow> sent_item list \<Rightarrow> (sent_item list \<times> item_end) option" where
  "items_loop cp cl off sent =
     (if off < cl
      then (case nctohl cp (unat off) of
              None \<Rightarrow> Some (sent, Left_memory)
            | Some itag \<Rightarrow>
                (case nctohl cp (unat (off + 4)) of
                   None \<Rightarrow> Some (sent, Left_memory)
                 | Some vl \<Rightarrow>
                     items_loop cp cl (off + 8 + vl)
                       (sent @ [\<lparr>item_tag = itag, data_at = off + 8, data_length = vl\<rparr>])))
      else Some (sent, All_sent))"

definition handle_set_parameter_metadata :: "bytes \<Rightarrow> u32 \<Rightarrow> (sent_item list \<times> item_end) option" where
  "handle_set_parameter_metadata cp cl = items_loop cp cl 8 []"

text \<open>What the thread that takes an item reads; an item of length zero is sent without data.\<close>

definition item_data :: "bytes \<Rightarrow> sent_item \<Rightarrow> bytes option" where
  "item_data cp i = (if data_length i = 0 then Some [] else rd_block cp (unat (data_at i)) (unat (data_length i)))"

section \<open>Well-formed content\<close>

definition tagged :: "u32 \<times> bytes \<Rightarrow> bytes" where
  "tagged i = htonl_bytes (fst i) @ htonl_bytes (of_nat (length (snd i))) @ snd i"

lemma length_tagged [simp]: "length (tagged i) = 8 + length (snd i)"
  by (simp add: tagged_def)

lemma unat_of_nat_less: "n < 2 ^ 32 \<Longrightarrow> unat (of_nat n :: u32) = n"
  by (simp add: unat_of_nat take_bit_nat_eq_self)

lemma items_loop_tagged:
  assumes "length pre + length (concat (map tagged is)) < 2 ^ 32"
    and "cl = of_nat (length pre + length (concat (map tagged is)))"
  shows "\<exists>sent'. items_loop (pre @ concat (map tagged is) @ rest) cl (of_nat (length pre)) sent = Some (sent @ sent', All_sent) \<and>
    map item_tag sent' = map fst is \<and>
    map (item_data (pre @ concat (map tagged is) @ rest)) sent' = map (Some \<circ> snd) is"
  using assms
proof (induction "is" arbitrary: pre sent)
  case Nil
  then show ?case by (subst items_loop.simps) simp
next
  case (Cons i "is")
  let ?cp = "pre @ concat (map tagged (i # is)) @ rest" and ?n = "length (snd i)"
  have size: "length pre + 8 + ?n + length (concat (map tagged is)) < 2 ^ 32" using Cons.prems(1) by simp
  have u: "unat (of_nat (length pre) :: u32) = length pre" "unat (of_nat (length pre) + 4 :: u32) = length pre + 4"
    "unat (of_nat (length pre) + 8 :: u32) = length pre + 8" "unat (of_nat ?n :: u32) = ?n"
    using unat_of_nat_less [of "length pre"] unat_of_nat_less [of "length pre + 4"]
      unat_of_nat_less [of "length pre + 8"] unat_of_nat_less [of ?n] size by (simp_all add: add.commute)
  have less: "(of_nat (length pre) :: u32) < cl"
    using size u(1) unat_of_nat_less [of "length pre + (8 + ?n + length (concat (map tagged is)))"] Cons.prems(2)
    by (simp add: word_less_nat_alt add.assoc)
  have tag: "nctohl ?cp (length pre) = Some (fst i)"
    using nctohl_at [of "length pre" pre "fst i"] by (simp add: tagged_def)
  have len: "nctohl ?cp (length pre + 4) = Some (of_nat ?n)"
    using nctohl_at [of "length pre + 4" "pre @ htonl_bytes (fst i)" "of_nat ?n"] by (simp add: tagged_def)
  define s where "s = \<lparr>item_tag = fst i, data_at = of_nat (length pre) + 8, data_length = of_nat ?n\<rparr>"
  have next_at: "of_nat (length pre) + 8 + of_nat ?n = (of_nat (length (pre @ tagged i)) :: u32)" by simp
  have step: "items_loop ?cp cl (of_nat (length pre)) sent =
      items_loop ((pre @ tagged i) @ concat (map tagged is) @ rest) cl (of_nat (length (pre @ tagged i))) (sent @ [s])"
    by (subst items_loop.simps) (use less tag len u next_at in \<open>simp add: s_def add.assoc\<close>)
  obtain sent' where rest: "items_loop ((pre @ tagged i) @ concat (map tagged is) @ rest) cl (of_nat (length (pre @ tagged i))) (sent @ [s])
        = Some ((sent @ [s]) @ sent', All_sent)" "map item_tag sent' = map fst is"
      "map (item_data ((pre @ tagged i) @ concat (map tagged is) @ rest)) sent' = map (Some \<circ> snd) is"
    using Cons.IH [of "pre @ tagged i" "sent @ [s]"] Cons.prems by (auto simp: add.assoc)
  have "item_data ?cp s = Some (snd i)"
    using u by (cases "snd i = []") (auto simp: item_data_def s_def rd_block_def tagged_def unat_eq_0 [symmetric])
  then show ?case
    using step rest by (intro exI [of _ "s # sent'"]) (simp add: s_def)
qed

section \<open>Properties\<close>

text \<open>
  Tagged metadata is taken apart as it was put together. For content that is eight bytes and a row of items, whatever
  the memory behind it holds, the loop ends, sends the items in order with their tags, and where each item points to its
  data is found, within the memory.
\<close>

lemma tagged_metadata_roundtrip:
  assumes "length head = 8" and "length (head @ concat (map tagged is)) < 2 ^ 32"
  shows "\<exists>sent. handle_set_parameter_metadata (head @ concat (map tagged is) @ rest)
        (of_nat (length (head @ concat (map tagged is)))) = Some (sent, All_sent) \<and>
     map item_tag sent = map fst is \<and>
     map (item_data (head @ concat (map tagged is) @ rest)) sent = map (Some \<circ> snd) is"
  using items_loop_tagged [of head "is" "of_nat (length (head @ concat (map tagged is)))" rest "[]"] assms
  by (simp add: handle_set_parameter_metadata_def)

lemma tagged_metadata_roundtrip_witness:
  "\<exists>sent. handle_set_parameter_metadata
      (replicate 8 0 @ concat (map tagged [(0x6d696e6d, [83, 111]), (0x61736172, [])]) @ []) 26 = Some (sent, All_sent) \<and>
     map item_tag sent = [0x6d696e6d, 0x61736172]"
  using tagged_metadata_roundtrip [of "replicate 8 0" "[(0x6d696e6d, [83, 111]), (0x61736172, [])]" "[]"] by auto

lemma items_loop_stuck:
  assumes "items_loop cp cl off sent = Some r"
  shows "\<not> (off < cl \<and> nctohl cp (unat off) = Some tag \<and> nctohl cp (unat (off + 4)) = Some (- 8))"
proof (rule items_loop.raw_induct [where P = "\<lambda>cp cl off sent r. \<not> (off < cl \<and> nctohl cp (unat off) = Some tag \<and>
      nctohl cp (unat (off + 4)) = Some (- 8))", OF _ assms])
  fix f cp cl off sent r
  assume ih: "\<And>cp cl off sent r. f cp cl off sent = Some r \<Longrightarrow>
      \<not> (off < cl \<and> nctohl cp (unat off) = Some tag \<and> nctohl cp (unat (off + 4)) = Some (- 8))"
    and eq: "(if off < cl
      then (case nctohl cp (unat off) of
              None \<Rightarrow> Some (sent, Left_memory)
            | Some itag \<Rightarrow>
                (case nctohl cp (unat (off + 4)) of
                   None \<Rightarrow> Some (sent, Left_memory)
                 | Some vl \<Rightarrow>
                     f cp cl (off + 8 + vl)
                       (sent @ [\<lparr>item_tag = itag, data_at = off + 8, data_length = vl\<rparr>])))
      else Some (sent, All_sent)) = Some r"
  show "\<not> (off < cl \<and> nctohl cp (unat off) = Some tag \<and> nctohl cp (unat (off + 4)) = Some (- 8))"
  proof
    assume a: "off < cl \<and> nctohl cp (unat off) = Some tag \<and> nctohl cp (unat (off + 4)) = Some (- 8)"
    then have "f cp cl off (sent @ [\<lparr>item_tag = tag, data_at = off + 8, data_length = - 8\<rparr>]) = Some r"
      using eq by simp
    from ih [OF this] a show False by simp
  qed
qed

text \<open>
  A length that wraps keeps the server busy for ever. If the first item says it is 2^32 - 8 bytes long, the offset comes
  back to the same item, and the loop, which sends an item at each turn, never ends.
\<close>

lemma wrapping_item_never_ends:
  assumes "8 < cl" and "nctohl cp 8 = Some tag" and "nctohl cp 12 = Some 0xFFFFFFF8"
  shows "handle_set_parameter_metadata cp cl = None"
proof (cases "handle_set_parameter_metadata cp cl")
  case (Some r)
  then have "items_loop cp cl 8 [] = Some r" by (simp add: handle_set_parameter_metadata_def)
  from items_loop_stuck [OF this, of tag] show ?thesis using assms by simp
qed

lemma wrapping_item_never_ends_witness:
  "handle_set_parameter_metadata (replicate 8 0 @ htonl_bytes 0x6d696e6d @ htonl_bytes 0xFFFFFFF8) 16 = None"
proof (rule wrapping_item_never_ends)
  let ?cp = "replicate 8 0 @ htonl_bytes 0x6d696e6d @ htonl_bytes 0xFFFFFFF8"
  show "nctohl ?cp 8 = Some 0x6d696e6d" using nctohl_at [of 8 "replicate 8 0" "0x6d696e6d"] by simp
  show "nctohl ?cp 12 = Some 0xFFFFFFF8"
    using nctohl_at [of 12 "replicate 8 0 @ htonl_bytes 0x6d696e6d" "0xFFFFFFF8" "[]"] by simp
qed simp

end
