(* ===== verification/Rtsp_Reader.thy ===== *)
theory Rtsp_Reader
  imports Rtsp_Message
begin

text \<open>
  \<open>rtsp_read_request\<close> of \<open>rtsp.c\<close>: a request is put together from the pieces the connection delivers.
  The connection is the list of what happens at it: bytes that have come, an interrupted read, an
  error, a request to stop. A read takes as many bytes as it has room for and leaves the rest; a read
  that has no room returns 0 like a closed connection. When nothing more happens the reader waits.
\<close>

section \<open>The connection\<close>

datatype read_error = EINTR_or_EAGAIN | ETIMEDOUT | Other_error
datatype conn_event = Bytes string | Closed | Read_error read_error | Stop

datatype reply = Reply_ok | Reply_shutdown | Reply_bad_packet | Reply_channel_closed | Reply_read_error | Reply_error

text \<open>The outcome: a reply with the message and what is still to be read, or waiting for ever.\<close>

datatype outcome = Done reply "rtsp_message option" "conn_event list" | Waits

text \<open>One read into \<open>room\<close> bytes: what it returns and what is left.\<close>

datatype read_result = Got string | Returned_zero | Failed read_error

fun read_conn :: "nat \<Rightarrow> conn_event list \<Rightarrow> (read_result \<times> conn_event list) option" where
  "read_conn room [] = (if room = 0 then Some (Returned_zero, []) else None)"
| "read_conn room (Bytes s # es) =
     (if room = 0 \<or> s = [] then Some (Returned_zero, Bytes s # es)
      else if length s \<le> room then Some (Got s, es) else Some (Got (take room s), Bytes (drop room s) # es))"
| "read_conn room (Closed # es) = Some (Returned_zero, Closed # es)"
| "read_conn room (Read_error e # es) = Some (Failed e, es)"
| "read_conn room (Stop # es) = None"

fun event_size :: "conn_event \<Rightarrow> nat" where
  "event_size (Bytes s) = Suc (length s)"
| "event_size e = 1"

section \<open>The lines of the header\<close>

datatype line_result = Header string "rtsp_message option" | Bad_line | Header_end nat string rtsp_message

lemma nextline_length: "nextline buf = Some (line, rest) \<Longrightarrow> length rest < length buf"
  by (induction buf arbitrary: line) (auto split: if_splits)

text \<open>The inner loop: the lines that are complete are handled and taken off the buffer.\<close>

function read_lines :: "rtsp_message option \<Rightarrow> string \<Rightarrow> line_result option" where
  "read_lines pmsg buf =
     (case nextline buf of
        None \<Rightarrow> Some (Header buf pmsg)
      | Some (line, rest) \<Rightarrow>
          (case msg_handle_line pmsg (c_string line) of
             None \<Rightarrow> None
           | Some (n, None) \<Rightarrow> Some Bad_line
           | Some (n, Some msg) \<Rightarrow> if n < 0 then read_lines (Some msg) rest else Some (Header_end (nat n) rest msg)))"
  by pat_completeness auto
termination by (relation "measure (\<lambda>(pmsg, buf). length buf)") (auto dest: nextline_length)

declare read_lines.simps [simp del]

text \<open>The first loop, until the header is complete. \<open>Inl\<close>: the request is over.\<close>

definition is_stop :: "conn_event list \<Rightarrow> bool" where
  "is_stop es = (case es of Stop # _ \<Rightarrow> True | _ \<Rightarrow> False)"

lemma read_conn_smaller:
  "read_conn room es = Some (Got s, es') \<Longrightarrow> sum_list (map event_size es') < sum_list (map event_size es)"
  "read_conn room es = Some (Failed e, es') \<Longrightarrow> sum_list (map event_size es') < sum_list (map event_size es)"
  by (induction room es rule: read_conn.induct) (auto split: if_splits)

function read_header :: "nat \<Rightarrow> conn_event list \<Rightarrow> rtsp_message option \<Rightarrow> string \<Rightarrow>
    (outcome + nat \<times> string \<times> rtsp_message \<times> conn_event list) option" where
  "read_header buflen es pmsg buf =
     (if is_stop es then Some (Inl (Done Reply_shutdown None es))
      else case read_conn (buflen - length buf) es of
        None \<Rightarrow> Some (Inl Waits)
      | Some (Returned_zero, es) \<Rightarrow> Some (Inl (Done Reply_channel_closed None es))
      | Some (Failed EINTR_or_EAGAIN, es) \<Rightarrow> read_header buflen es pmsg buf
      | Some (Failed ETIMEDOUT, es) \<Rightarrow> Some (Inl (Done Reply_channel_closed None es))
      | Some (Failed Other_error, es) \<Rightarrow> Some (Inl (Done Reply_read_error None es))
      | Some (Got s, es) \<Rightarrow>
          (case read_lines pmsg (buf @ s) of
             None \<Rightarrow> None
           | Some Bad_line \<Rightarrow> Some (Inl (Done Reply_bad_packet None es))
           | Some (Header buf pmsg) \<Rightarrow> read_header buflen es pmsg buf
           | Some (Header_end msg_size buf msg) \<Rightarrow> Some (Inr (msg_size, buf, msg, es))))"
  by pat_completeness auto
termination
  by (relation "measure (\<lambda>(buflen, es, pmsg, buf). sum_list (map event_size es))")
     (auto dest: read_conn_smaller)

declare read_header.simps [simp del]

text \<open>The second loop, for the content.\<close>

function read_content :: "nat \<Rightarrow> conn_event list \<Rightarrow> rtsp_message \<Rightarrow> string \<Rightarrow> outcome" where
  "read_content msg_size es msg buf =
     (if msg_size \<le> length buf
      then Done Reply_ok (Some (msg\<lparr>contentlength := of_nat (length buf), content := buf\<rparr>)) es
      else if is_stop es then Done Reply_shutdown None es
      else case read_conn (msg_size - length buf) es of
        None \<Rightarrow> Waits
      | Some (Returned_zero, es) \<Rightarrow> Done Reply_error None es
      | Some (Failed EINTR_or_EAGAIN, es) \<Rightarrow> read_content msg_size es msg buf
      | Some (Failed _, es) \<Rightarrow> Done Reply_read_error None es
      | Some (Got s, es) \<Rightarrow> read_content msg_size es msg (buf @ s))"
  by pat_completeness auto
termination
  by (relation "measure (\<lambda>(msg_size, es, msg, buf). sum_list (map event_size es))")
     (auto dest: read_conn_smaller)

declare read_content.simps [simp del]

definition rtsp_read_request :: "nat \<Rightarrow> conn_event list \<Rightarrow> outcome option" where
  "rtsp_read_request buflen es =
     (case read_header buflen es None [] of
        None \<Rightarrow> None
      | Some (Inl r) \<Rightarrow> Some r
      | Some (Inr (msg_size, buf, msg, es)) \<Rightarrow> Some (read_content msg_size es msg buf))"

end
