(* ===== verification/Rtsp_Requests.thy ===== *)
theory Rtsp_Requests
  imports Rtsp_Reader
begin

text \<open>
  What the request reader makes of a well-formed request: the same message however the connection cuts
  it, as long as no cut parts the CR from the LF of a header line, and a short header with the rest as
  content when one does.
\<close>

section \<open>Reading lines piece by piece\<close>

abbreviation parts_crlf :: "string \<Rightarrow> string \<Rightarrow> bool" where
  "parts_crlf a b \<equiv> a \<noteq> [] \<and> last a = CR \<and> take 1 b = [LF]"

lemma nextline_append:
  assumes "nextline a = Some (line, rest)" and "\<not> (parts_crlf a b)"
  shows "nextline (a @ b) = Some (line, rest @ b)"
  using assms
proof (induction a arbitrary: line)
  case (Cons c cs)
  show ?case
  proof (cases "c = CR \<or> c = LF")
    case True
    with Cons.prems show ?thesis by (cases cs) auto
  next
    case False
    with Cons.prems obtain l where l: "nextline cs = Some (l, rest)" "line = c # l" by auto
    then have "cs \<noteq> []" by auto
    with Cons.IH [OF l(1)] Cons.prems(2) False l(2) show ?thesis by simp
  qed
qed simp

lemma nextline_last: "nextline a = Some (line, rest) \<Longrightarrow> rest \<noteq> [] \<Longrightarrow> last rest = last a"
proof (induction a arbitrary: line)
  case (Cons c cs)
  show ?case
  proof (cases "c = CR \<or> c = LF")
    case True
    with Cons.prems show ?thesis by (cases cs) (auto split: if_splits)
  next
    case False
    with Cons.prems obtain l where l: "nextline cs = Some (l, rest)" by auto
    then have "cs \<noteq> []" by auto
    with Cons.IH [OF l(1) Cons.prems(2)] show ?thesis by simp
  qed
qed simp

lemma nextline_parts: "nextline a = Some (line, rest) \<Longrightarrow> \<not> parts_crlf a b \<Longrightarrow> \<not> parts_crlf rest b"
  using nextline_last by fastforce

text \<open>Whatever the lines of a first piece lead to decides what the two pieces together lead to.\<close>

lemma read_lines_append:
  assumes "\<not> parts_crlf a b"
  shows "read_lines pmsg (a @ b) =
     (case read_lines pmsg a of
        None \<Rightarrow> None
      | Some (Header buf pmsg') \<Rightarrow> read_lines pmsg' (buf @ b)
      | Some Bad_line \<Rightarrow> Some Bad_line
      | Some (Header_end n rest msg) \<Rightarrow> Some (Header_end n (rest @ b) msg))"
  using assms
proof (induction pmsg a rule: read_lines.induct)
  case (1 pmsg buf)
  show ?case
  proof (cases "nextline buf")
    case None
    then show ?thesis by (simp add: read_lines.simps [of pmsg buf])
  next
    case (Some r)
    then obtain line rest where r: "nextline buf = Some (line, rest)" by (cases r) auto
    note r' = nextline_append [OF r 1(2)] and p = nextline_parts [OF r 1(2)]
    show ?thesis
    proof (cases "\<exists>n msg. msg_handle_line pmsg (c_string line) = Some (n, Some msg) \<and> n < 0")
      case True
      then obtain n msg where h: "msg_handle_line pmsg (c_string line) = Some (n, Some msg)" "n < 0" by auto
      show ?thesis
        using 1(1) [OF r refl h(1) refl refl h(2) p] h r r'
        by (simp add: read_lines.simps [of pmsg buf] read_lines.simps [of pmsg "buf @ b"])
    next
      case False
      then show ?thesis
        using r r' by (auto simp: read_lines.simps [of pmsg buf] read_lines.simps [of pmsg "buf @ b"]
            split: option.splits prod.splits)
    qed
  qed
qed

section \<open>Deliveries\<close>

text \<open>
  A delivery that breaks nothing: pieces of bytes and interrupted reads only, and inside the first
  \<open>n\<close> bytes no piece starts with the LF of a CR that ended the piece before (\<open>cr\<close>).
\<close>

fun sound_delivery :: "nat \<Rightarrow> bool \<Rightarrow> conn_event list \<Rightarrow> bool" where
  "sound_delivery n cr [] = True"
| "sound_delivery n cr (Bytes s # es) =
     (s \<noteq> [] \<and> (n = 0 \<or> \<not> cr \<or> hd s \<noteq> LF) \<and> sound_delivery (n - length s) (last s = CR) es)"
| "sound_delivery n cr (Read_error EINTR_or_EAGAIN # es) = sound_delivery n cr es"
| "sound_delivery n cr (e # es) = False"

fun delivered :: "conn_event list \<Rightarrow> string" where
  "delivered (Bytes s # es) = s @ delivered es"
| "delivered (e # es) = delivered es"
| "delivered [] = []"

lemma sound_delivery_Cons:
  "sound_delivery n cr (e # es) \<longleftrightarrow>
     (\<exists>s. e = Bytes s \<and> s \<noteq> [] \<and> (n = 0 \<or> \<not> cr \<or> hd s \<noteq> LF) \<and> sound_delivery (n - length s) (last s = CR) es) \<or>
     (e = Read_error EINTR_or_EAGAIN \<and> sound_delivery n cr es)"
  by (cases "(n, cr, e # es)" rule: sound_delivery.cases) auto

lemma sound_delivery_ConsE:
  assumes "sound_delivery n cr (e # es)"
  obtains (bytes) s where "e = Bytes s" "s \<noteq> []" "n = 0 \<or> \<not> cr \<or> hd s \<noteq> LF"
      "sound_delivery (n - length s) (last s = CR) es"
    | (again) "e = Read_error EINTR_or_EAGAIN" "sound_delivery n cr es"
  using assms unfolding sound_delivery_Cons by blast

lemma sound_delivery_0: "sound_delivery n cr es \<Longrightarrow> sound_delivery 0 cr' es"
proof (induction es arbitrary: n cr cr')
  case (Cons e es)
  from Cons.prems show ?case
    unfolding sound_delivery_Cons using Cons.IH by fastforce
qed simp

lemma sound_not_stop: "sound_delivery n cr es \<Longrightarrow> \<not> is_stop es"
  by (cases es) (auto simp: is_stop_def sound_delivery_Cons simp del: sound_delivery.simps)

text \<open>The content: whatever the pieces, it is what is still to be read.\<close>

lemma read_content_delivered:
  assumes "sound_delivery 0 cr es" and "length buf + length (delivered es) = n"
  shows "\<exists>es'. read_content n es msg buf = Done Reply_ok
     (Some (msg\<lparr>contentlength := of_nat n, content := buf @ delivered es\<rparr>)) es' \<and> delivered es' = []"
  using assms
proof (induction es arbitrary: cr buf)
  case Nil
  then show ?case by (simp add: read_content.simps)
next
  case (Cons e es)
  show ?case
  proof (cases "n \<le> length buf")
    case True
    with Cons.prems(2) have "length (delivered (e # es)) = 0" by linarith
    then have "delivered (e # es) = []" by (simp only: length_0_conv)
    with True Cons.prems(2) show ?thesis by (auto simp: read_content.simps [of n "e # es"])
  next
    case False
    note stop = sound_not_stop [OF Cons.prems(1)]
    from Cons.prems(1) show ?thesis
    proof (cases rule: sound_delivery_ConsE)
      case e: (bytes s)
      have "read_content n (e # es) msg buf = read_content n es msg (buf @ s)"
        using False stop e Cons.prems(2) by (subst read_content.simps) auto
      with Cons.IH [of _ "buf @ s"] Cons.prems(2) e show ?thesis by auto
    next
      case e: again
      have "read_content n (e # es) msg buf = read_content n es msg buf"
        using False stop e by (subst read_content.simps) auto
      with Cons.IH [OF e(2)] Cons.prems(2) e show ?thesis by auto
    qed
  qed
qed

lemma sound_first_char:
  "sound_delivery n cr es \<Longrightarrow> cr \<Longrightarrow> 0 < n \<Longrightarrow> delivered es \<noteq> [] \<Longrightarrow> hd (delivered es) \<noteq> LF"
proof (induction es arbitrary: n cr)
  case (Cons e es)
  from Cons.prems show ?case unfolding sound_delivery_Cons using Cons.IH by fastforce
qed simp

lemma read_lines_length: "read_lines pmsg a = Some (Header buf pmsg') \<Longrightarrow> length buf \<le> length a"
proof (induction pmsg a rule: read_lines.induct)
  case (1 pmsg a)
  show ?case
  proof (cases "nextline a")
    case None
    with 1(2) show ?thesis by (simp add: read_lines.simps)
  next
    case (Some r)
    then obtain line rest where r: "nextline a = Some (line, rest)" by (cases r) auto
    with 1(2) obtain n msg where h: "msg_handle_line pmsg (c_string line) = Some (n, Some msg)" "n < 0"
      "read_lines (Some msg) rest = Some (Header buf pmsg')"
      by (subst (asm) read_lines.simps) (auto split: option.splits prod.splits if_splits)
    from 1(1) [OF r refl h(1) refl refl h(2,3)] nextline_length [OF r] show ?thesis by simp
  qed
qed

text \<open>
  The header: \<open>got\<close> has been read, its complete lines are handled, and \<open>left\<close> is what is missing of the
  header \<open>got @ left\<close>, which on its own leads to \<open>msg\<close> with a content of \<open>n\<close> bytes to come.
\<close>

lemma read_header_delivered:
  assumes "read_lines None (got @ left) = Some (Header_end n [] msg)"
    and "read_lines None got = Some (Header buf pmsg)" and "length buf \<le> length got" and "left \<noteq> []"
    and "sound_delivery (length left) (got \<noteq> [] \<and> last got = CR) es" and "delivered es = left @ body"
    and "length (got @ left) \<le> buflen" and "last left = LF"
  shows "\<exists>rest cr es'. read_header buflen es pmsg buf = Some (Inr (n, rest, msg, es')) \<and>
     rest @ delivered es' = body \<and> sound_delivery 0 cr es'"
  using assms
proof (induction es arbitrary: got left buf pmsg)
  case (Cons e es)
  note stop = sound_not_stop [OF Cons.prems(5)]
  from Cons.prems(5) show ?case
  proof (cases rule: sound_delivery_ConsE)
    case e: again
    have "buflen - length buf \<noteq> 0" using Cons.prems(3,4,7) by (cases left) auto
    then have "read_header buflen (e # es) pmsg buf = read_header buflen es pmsg buf"
      using stop e by (subst read_header.simps) auto
    with Cons.IH [OF Cons.prems(1-4) e(2) _ Cons.prems(7,8)] Cons.prems(6) e(1) show ?thesis by auto
  next
    case e: (bytes s)
    let ?room = "buflen - length buf"
    have room: "?room \<noteq> 0" "length left \<le> ?room" using Cons.prems(3,4,7) by (cases left, auto)
    have del: "s @ delivered es = left @ body" using Cons.prems(6) e(1) by simp
    have whole: "\<not> parts_crlf got t" if "take 1 t = take 1 s" for t
      using e(2,3) that Cons.prems(4) by (cases s) auto
    have step: "read_lines pmsg (buf @ t) = read_lines None (got @ t)" if "take 1 t = take 1 s" for t
      using read_lines_append [OF whole [OF that], of None] Cons.prems(2) by simp
    have fin: "read_lines None ((got @ left) @ b) = Some (Header_end n b msg)" for b
      using read_lines_append [of "got @ left" b None] Cons.prems(1,4,8) by simp
    show ?thesis
    proof (cases "length left \<le> length s")
      case True
      define t where "t = take ?room s"
      obtain b0 where b0: "s = left @ b0" using del True by (auto simp: append_eq_append_conv2)
      define b1 where "b1 = take (?room - length left) b0"
      have "min 1 ?room = 1" using room(1) by linarith
      then have t: "t = left @ b1" "take 1 t = take 1 s"
        using room(2) by (simp add: t_def b1_def b0, simp only: t_def take_take)
      have "\<exists>es' cr. read_conn ?room (e # es) = Some (Got t, es') \<and> b1 @ delivered es' = body \<and>
          sound_delivery 0 cr es'"
      proof (cases "length s \<le> ?room")
        case True
        then have ts: "t = s" by (simp add: t_def)
        then have "read_conn ?room (e # es) = Some (Got t, es)" using True e(1,2) room(1) by simp
        moreover have "b1 @ delivered es = body" using del [folded ts] t(1) by simp
        ultimately have "read_conn ?room (e # es) = Some (Got t, es)" "b1 @ delivered es = body" .
        with sound_delivery_0 [OF e(4)] show ?thesis by blast
      next
        case False
        let ?es = "Bytes (drop ?room s) # es"
        have "read_conn ?room (e # es) = Some (Got t, ?es)" using False e(1,2) room(1) by (simp add: t_def)
        moreover have "t @ drop ?room s @ delivered es = left @ body"
          unfolding t_def append_assoc [symmetric] append_take_drop_id by (rule del)
        moreover have "sound_delivery 0 cr ?es" for cr
          using False sound_delivery_0 [OF e(4)] by simp
        ultimately show ?thesis using t by auto
      qed
      then obtain es' cr where es': "read_conn ?room (e # es) = Some (Got t, es')" "b1 @ delivered es' = body"
        "sound_delivery 0 cr es'" by blast
      have "read_lines pmsg (buf @ t) = Some (Header_end n b1 msg)"
        using step [OF t(2)] fin [of b1] t(1) by simp
      then have "read_header buflen (e # es) pmsg buf = Some (Inr (n, b1, msg, es'))"
        using stop es'(1) by (subst read_header.simps) simp
      with es'(2,3) show ?thesis by blast
    next
      case False
      then obtain left' where left': "left = s @ left'" "left' \<noteq> []"
        using del by (auto simp: append_eq_append_conv2)
      have d: "delivered es = left' @ body" using del left'(1) by simp
      have snd: "sound_delivery (length left') (got @ s \<noteq> [] \<and> last (got @ s) = CR) es"
        using e(2,4) left'(1) by simp
      have "\<not> parts_crlf (got @ s) left'"
        using sound_first_char [OF snd] d left'(2) by (cases left') auto
      from read_lines_append [OF this, of None] Cons.prems(1) left' obtain buf' pmsg'
        where h: "read_lines None (got @ s) = Some (Header buf' pmsg')"
        by (auto split: option.splits line_result.splits)
      have "length buf' \<le> length (got @ s)" using h by (rule read_lines_length)
      moreover have "read_header buflen (e # es) pmsg buf = read_header buflen es pmsg' buf'"
        using stop e(1,2) room step [of s] h False by (subst read_header.simps) simp
      moreover note Cons.IH [OF _ h _ left'(2) snd d]
      ultimately show ?thesis using Cons.prems left' by auto
    qed
  qed
qed simp

section \<open>Requests\<close>

definition plain :: "string \<Rightarrow> bool" where
  "plain s \<longleftrightarrow> NUL \<notin> set s \<and> CR \<notin> set s \<and> LF \<notin> set s"

definition word_ok :: "nat \<Rightarrow> string \<Rightarrow> bool" where
  "word_ok n s \<longleftrightarrow> plain s \<and> CHR '' '' \<notin> set s \<and> s \<noteq> [] \<and> length s \<le> n"

definition header_ok :: "string \<times> string \<Rightarrow> bool" where
  "header_ok h \<longleftrightarrow> plain (fst h) \<and> CHR '':'' \<notin> set (fst h) \<and> plain (snd h)"

definition header_line :: "string \<times> string \<Rightarrow> string" where
  "header_line h = fst h @ '': '' @ snd h"

definition header_lines :: "(string \<times> string) list \<Rightarrow> string" where
  "header_lines hs = concat (map (\<lambda>h. header_line h @ crlf) hs)"

definition first_line :: "string \<Rightarrow> string \<Rightarrow> string" where
  "first_line m p = m @ '' '' @ p @ '' RTSP/1.0''"

definition request_header :: "string \<Rightarrow> string \<Rightarrow> (string \<times> string) list \<Rightarrow> string" where
  "request_header m p hs = first_line m p @ crlf @ header_lines hs @ crlf"

definition message :: "string \<Rightarrow> string \<Rightarrow> (string \<times> string) list \<Rightarrow> rtsp_message" where
  "message m p hs = msg_init\<lparr>req_method := m, path := p, headers := hs\<rparr>"

definition announced_length :: "(string \<times> string) list \<Rightarrow> int option" where
  "announced_length hs =
     (case msg_get_header (message [] [] hs) ''Content-Length'' of None \<Rightarrow> Some 0 | Some cl \<Rightarrow> atoi cl)"

lemma nextline_plain: "plain s \<Longrightarrow> nextline (s @ crlf @ rest) = Some (s, rest)"
  by (induction s) (auto simp: plain_def crlf_def)

lemma nextline_plain_cr: "plain s \<Longrightarrow> nextline (s @ [CR]) = Some (s, [])"
  by (induction s) (auto simp: plain_def)

lemma c_string_plain: "plain s \<Longrightarrow> c_string s = s"
  by (auto simp: c_string_def plain_def takeWhile_eq_all_conv)

lemma while_neq:
  "c \<notin> set s \<Longrightarrow> takeWhile (\<lambda>x. x \<noteq> c) (s @ t) = s @ takeWhile (\<lambda>x. x \<noteq> c) t"
  "c \<notin> set s \<Longrightarrow> dropWhile (\<lambda>x. x \<noteq> c) (s @ t) = dropWhile (\<lambda>x. x \<noteq> c) t"
  by (induction s) auto

lemma skip_delimiters: "c \<notin> set s \<Longrightarrow> s \<noteq> [] \<Longrightarrow> dropWhile (\<lambda>x. x = c) (s @ t) = s @ t"
  by (cases s) auto

lemma next_token_word:
  assumes "c \<notin> set s" and "s \<noteq> []"
  shows "next_token c (s @ c # rest) = Some (s, rest)" and "next_token c s = Some (s, [])"
  using assms skip_delimiters [of c s "c # rest"] skip_delimiters [of c s "[]"]
    while_neq [of c s "c # rest"] while_neq [of c s "[]"]
  by (simp_all add: next_token_def Let_def del: dropWhile_eq_Nil_conv takeWhile_eq_all_conv)

lemma split_at_header: "CHR '':'' \<notin> set s \<Longrightarrow> split_at '': '' (s @ '': '' @ t) = Some (s, t)"
  by (induction s) (auto simp: split_at.simps)

lemma first_line_handled:
  assumes "word_ok 15 m" and "word_ok 255 p"
  shows "plain (first_line m p)"
    and "msg_handle_line None (first_line m p) = Some (-1, Some (message m p []))"
  using assms by (auto simp: plain_def word_ok_def first_line_def msg_handle_line_def request_line_def
      next_token_word message_def msg_init_def NUL_def CR_def LF_def)

lemma header_line_handled:
  assumes "header_ok h" and "length hs < 16"
  shows "plain (header_line h)"
    and "msg_handle_line (Some (message m p hs)) (header_line h) = Some (-1, Some (message m p (hs @ [h])))"
  using assms by (auto simp: header_ok_def plain_def header_line_def msg_handle_line_def split_at_header [simplified]
      msg_add_header_def message_def msg_init_def NUL_def CR_def LF_def)

lemma read_plain_line:
  assumes "plain s" and "msg_handle_line pmsg s = Some (-1, Some msg)"
  shows "read_lines pmsg (s @ crlf @ rest) = read_lines (Some msg) rest"
    and "read_lines pmsg (s @ [CR]) = Some (Header [] (Some msg))"
  using assms by (simp_all add: read_lines.simps [of pmsg] nextline_plain nextline_plain_cr c_string_plain)
     (simp add: read_lines.simps)

lemma read_header_lines:
  "\<forall>h\<in>set hs. header_ok h \<Longrightarrow> length (ks @ hs) \<le> 16 \<Longrightarrow>
   read_lines (Some (message m p ks)) (header_lines hs @ rest) = read_lines (Some (message m p (ks @ hs))) rest"
proof (induction hs arbitrary: ks)
  case (Cons h hs)
  then have "length ks < 16" and "header_ok h" by simp_all
  from read_plain_line(1) [OF header_line_handled [OF this(2,1)]] Cons show ?case
    by (simp add: header_lines_def)
qed (simp add: header_lines_def)

lemma read_request_header:
  assumes "word_ok 15 m" and "word_ok 255 p" and "\<forall>h\<in>set hs. header_ok h" and "length hs \<le> 16"
    and "announced_length hs = Some (int n)"
  shows "read_lines None (request_header m p hs) = Some (Header_end n [] (message m p hs))"
proof -
  have "msg_handle_line (Some (message m p hs)) [] = Some (int n, Some (message m p hs))"
    using assms(5) by (auto simp: announced_length_def msg_handle_line_def msg_get_header_def message_def
        split: option.splits)
  then have "read_lines (Some (message m p hs)) crlf = Some (Header_end n [] (message m p hs))"
    by (subst read_lines.simps) (simp add: crlf_def c_string_def)
  then show ?thesis
    using read_plain_line(1) [OF first_line_handled [OF assms(1,2)]] read_header_lines [OF assms(3), of "[]" m p crlf]
      assms(4) by (simp add: request_header_def)
qed

text \<open>
  C21. A request is read the same however the connection cuts it. Any delivery of a well-formed request
  in pieces, with interrupted reads in between, that does not cut between the CR and the LF of a
  header line, gives the request's kind, path, headers and content; the header must fit the buffer
  and \<open>Content-Length\<close> must be the length of the content.
\<close>

theorem request_read_in_any_pieces:
  assumes "word_ok 15 m" and "word_ok 255 p" and "\<forall>h\<in>set hs. header_ok h" and "length hs \<le> 16"
    and "announced_length hs = Some (int (length body))"
    and "delivered es = request_header m p hs @ body"
    and "sound_delivery (length (request_header m p hs)) False es" and "length (request_header m p hs) \<le> buflen"
  shows "\<exists>es'. rtsp_read_request buflen es = Some (Done Reply_ok
     (Some ((message m p hs)\<lparr>contentlength := of_nat (length body), content := body\<rparr>)) es') \<and> delivered es' = []"
proof -
  let ?h = "request_header m p hs"
  have h: "?h \<noteq> []" "last ?h = LF" by (simp_all add: request_header_def crlf_def)
  have "read_lines None ([] @ ?h) = Some (Header_end (length body) [] (message m p hs))"
    using read_request_header [OF assms(1-5)] by simp
  from read_header_delivered [OF this _ _ h(1) _ assms(6) _ h(2), of "[]" None buflen] assms(7,8)
  obtain rest cr es' where r: "read_header buflen es None [] = Some (Inr (length body, rest, message m p hs, es'))"
    "rest @ delivered es' = body" "sound_delivery 0 cr es'"
    by (auto simp: read_lines.simps)
  have "length rest + length (delivered es') = length body" using r(2) by (metis length_append)
  from read_content_delivered [OF r(3) this, of "message m p hs"] r(1,2) show ?thesis
    by (auto simp: rtsp_read_request_def)
qed

lemma request_read_in_any_pieces_witness:
  "\<exists>es'. rtsp_read_request 4096
     [Bytes ''OPT'', Read_error EINTR_or_EAGAIN, Bytes (''IONS * RTSP/1.0'' @ crlf @ ''Content-''),
      Bytes (''Length: 3'' @ crlf @ crlf @ ''ab''), Bytes ''c''] =
     Some (Done Reply_ok (Some ((message ''OPTIONS'' ''*'' [(''Content-Length'', ''3'')])
        \<lparr>contentlength := 3, content := ''abc''\<rparr>)) es') \<and> delivered es' = []"
  using request_read_in_any_pieces [of "''OPTIONS''" "''*''" "[(''Content-Length'', ''3'')]" "''abc''"
     "[Bytes ''OPT'', Read_error EINTR_or_EAGAIN, Bytes (''IONS * RTSP/1.0'' @ crlf @ ''Content-''),
      Bytes (''Length: 3'' @ crlf @ crlf @ ''ab''), Bytes ''c'']" 4096]
  by (simp add: word_ok_def plain_def header_ok_def request_header_def first_line_def header_lines_def
      header_line_def crlf_def announced_length_def msg_get_header_def message_def msg_init_def same_nocase_def
      atoi_def is_space_def is_digit_def code_def digits_value_def NUL_def CR_def LF_def lower_case_def)

text \<open>
  A cut between the CR and the LF of a header line ends the header there. When the bytes up to
  that CR come first and the rest later, the LF is taken for the empty line behind the header: the
  request has only the headers up to that line, no announced length, and the rest of the header, with
  the content, becomes its content.
\<close>

theorem request_cut_at_crlf:
  assumes "word_ok 15 m" and "word_ok 255 p" and "\<forall>h\<in>set (hs @ [h]). header_ok h" and "length hs < 16"
    and "announced_length (hs @ [h]) = Some 0"
    and "length (first_line m p @ crlf @ header_lines hs @ header_line h @ [CR]) \<le> buflen"
    and "Suc (length rest) \<le> buflen"
  shows "rtsp_read_request buflen
     [Bytes (first_line m p @ crlf @ header_lines hs @ header_line h @ [CR]), Bytes (LF # rest)] =
     Some (Done Reply_ok (Some ((message m p (hs @ [h]))
       \<lparr>contentlength := of_nat (length rest), content := rest\<rparr>)) [])"
proof -
  let ?a = "first_line m p @ crlf @ header_lines hs @ header_line h @ [CR]"
  let ?m = "message m p (hs @ [h])"
  have "read_lines None ?a = Some (Header [] (Some ?m))"
    using read_plain_line(1) [OF first_line_handled [OF assms(1,2)]]
      read_header_lines [of hs "[]" m p "header_line h @ [CR]"]
      read_plain_line(2) [OF header_line_handled [of h hs]] assms(3,4) by simp
  then have 1: "read_header buflen (Bytes ?a # es) None [] = read_header buflen es (Some ?m) []" for es
    using assms(6) by (subst read_header.simps) (simp add: is_stop_def crlf_def)
  have "msg_handle_line (Some ?m) [] = Some (0, Some ?m)"
    using assms(5) by (auto simp: announced_length_def msg_handle_line_def msg_get_header_def message_def
        split: option.splits)
  then have "read_lines (Some ?m) (LF # rest) = Some (Header_end 0 rest ?m)"
    by (subst read_lines.simps) (simp add: c_string_def)
  then have 2: "read_header buflen [Bytes (LF # rest)] (Some ?m) [] = Some (Inr (0, rest, ?m, []))"
    using assms(7) by (subst read_header.simps) (simp add: is_stop_def)
  show ?thesis
    unfolding rtsp_read_request_def 1 2 by (simp add: read_content.simps)
qed

lemma request_cut_at_crlf_witness:
  "rtsp_read_request 4096
     [Bytes (''OPTIONS * RTSP/1.0'' @ crlf @ ''CSeq: 1'' @ [CR]), Bytes (LF # ''Content-Length: 1'' @ crlf @ crlf @ ''a'')] =
     Some (Done Reply_ok (Some ((message ''OPTIONS'' ''*'' [(''CSeq'', ''1'')])
        \<lparr>contentlength := 22, content := ''Content-Length: 1'' @ crlf @ crlf @ ''a''\<rparr>)) [])"
  using request_cut_at_crlf [of "''OPTIONS''" "''*''" "[]" "(''CSeq'', ''1'')" 4096
     "''Content-Length: 1'' @ crlf @ crlf @ ''a''"]
  by (simp add: word_ok_def plain_def header_ok_def first_line_def header_lines_def
      header_line_def crlf_def announced_length_def msg_get_header_def message_def msg_init_def same_nocase_def
      code_def NUL_def CR_def LF_def lower_case_def)

end
