(* ===== verification/Rtsp_Responses.thy ===== *)
theory Rtsp_Responses
  imports Rtsp_Message
begin

text \<open>
  What \<open>msg_write_response\<close> sends: the response as a text, whole or not at all, as long as the content
  is small; a content that is larger than what is left of the block leaves it.
\<close>

definition status_line :: "int \<Rightarrow> string" where
  "status_line rc = ''RTSP/1.0 '' @ decimal rc @ '' '' @ respcode_text rc @ crlf"

definition header_text :: "(string \<times> string) list \<Rightarrow> string" where
  "header_text hs = concat (map (\<lambda>(n, v). n @ '': '' @ v @ crlf) hs)"

definition length_line :: "u32 \<Rightarrow> string" where
  "length_line n = (if n = 0 then [] else ''Content-Length: '' @ decimal (sint n) @ crlf)"

definition response_header :: "rtsp_message \<Rightarrow> string" where
  "response_header r = status_line (respcode r) @ header_text (headers r) @ length_line (contentlength r)"

definition response_text :: "rtsp_message \<Rightarrow> string" where
  "response_text r = response_header r @ crlf @ take (unat (contentlength r)) (content r)"

lemma put_headers_text:
  "put_headers hs (t, f) =
     (if hs = [] \<or> 1024 < f - int (length (header_text hs)) then Some (t @ header_text hs, f - int (length (header_text hs)))
      else None)"
  by (induction hs arbitrary: t f) (auto simp: header_text_def put_text_def Let_def)

lemma length_crlf [simp]: "length crlf = 2"
  by (simp add: crlf_def)

lemma write_response_text:
  assumes "unat (contentlength r) \<le> length (content r)"
  shows "msg_write_response send r =
     (if headers r \<noteq> [] \<and> 3072 \<le> length (status_line (respcode r) @ header_text (headers r)) then Some (-1, None)
      else if contentlength r \<noteq> 0 \<and> 3072 \<le> length (response_header r) then Some (-2, None)
      else if 4096 < length (response_text r) then None
      else if 3072 \<le> length (response_text r) then Some (-3, None)
      else Some (if send (response_text r) = -1 then -4
                 else if send (response_text r) \<noteq> int (length (response_text r)) then -5 else 0,
                 Some (response_text r)))"
proof -
  define S H L C where "S = status_line (respcode r)" and "H = header_text (headers r)"
    and "L = length_line (contentlength r)" and "C = take (unat (contentlength r)) (content r)"
  have C: "length C = unat (contentlength r)" using assms by (simp add: C_def)
  have H: "headers r = [] \<Longrightarrow> H = []" by (simp add: H_def header_text_def)
  have L: "(contentlength r = 0) = (unat (contentlength r) = 0)" by (simp add: unat_eq_zero)
  have T: "response_header r = S @ H @ L" "response_text r = S @ H @ L @ crlf @ C"
    by (simp_all add: response_text_def response_header_def S_def H_def L_def C_def)
  have start: "put_text (''RTSP/1.0 '' @ decimal (respcode r) @ '' '' @ respcode_text (respcode r) @ crlf) ([], 4096)
      = (S, 4096 - int (length S))"
    by (simp add: put_text_def S_def status_line_def)
  have cl: "(if contentlength r \<noteq> 0
        then put_text (''Content-Length: '' @ decimal (sint (contentlength r)) @ crlf) (t, f) else (t, f)) =
      (t @ L, f - int (length L))" for t f
    by (simp add: put_text_def L_def length_line_def)
  define free where "free = 4096 - int (length (S @ H @ L @ crlf))"
  have hs: "put_headers (headers r) (S, 4096 - int (length S)) =
      (if headers r \<noteq> [] \<and> 3072 \<le> length (S @ H) then None else Some (S @ H, 4096 - int (length (S @ H))))"
    unfolding put_headers_text H_def [symmetric] using H by auto
  have body: "put_text C (put_text crlf (S @ H @ L, 4096 - int (length (S @ H @ L)))) =
      (S @ H @ L @ crlf @ C, free - int (length C))"
    by (simp add: put_text_def free_def)
  have rest: "(free < int (unat (contentlength r))) = (4096 < length (S @ H @ L @ crlf @ C))"
    "(free - int (length C) \<le> 1024) = (3072 \<le> length (S @ H @ L @ crlf @ C))"
    "(4096 - int (length (S @ H @ L)) \<le> 1024) = (3072 \<le> length (S @ H @ L))"
    "snd (put_text crlf (S @ H @ L, 4096 - int (length (S @ H @ L)))) = free"
    unfolding C [symmetric] by (auto simp: free_def put_text_def)
  have len: "4096 - int (length (S @ H)) - int (length L) = 4096 - int (length (S @ H @ L))" by simp
  have "\<not> length (content r) < unat (contentlength r)" using assms by simp
  note facts = option.case cl len append_assoc snd_conv fst_conv rest body C_def [symmetric] simp_thms this
  show ?thesis
  proof (cases "headers r \<noteq> [] \<and> 3072 \<le> length (S @ H)")
    case True
    then show ?thesis
      unfolding msg_write_response_def start hs S_def [symmetric] H_def [symmetric] by simp
  next
    case False
    then show ?thesis
      unfolding msg_write_response_def start hs T S_def [symmetric] H_def [symmetric] Let_def
      by (simp only: if_not_P facts)
  qed
qed

lemma length_nat_decimal: "n < 10 ^ Suc k \<Longrightarrow> length (nat_decimal n) \<le> Suc k"
proof (induction k arbitrary: n)
  case 0
  then show ?case by (simp add: nat_decimal.simps)
next
  case (Suc k)
  then have "n div 10 < 10 ^ Suc k" by (simp add: less_mult_imp_div_less)
  from Suc.IH [OF this] show ?case by (subst nat_decimal.simps) simp
qed

lemma length_status_line:
  assumes "0 \<le> rc" and "rc < 1000"
  shows "length (status_line rc) \<le> 50"
proof -
  have "length (respcode_text rc) \<le> 35" by (simp add: respcode_text_def responses_def)
  moreover have "length (decimal rc) \<le> 3"
    using length_nat_decimal [of "nat rc" 2] assms by (simp add: decimal_def)
  ultimately show ?thesis by (simp add: status_line_def)
qed

text \<open>
  C22. A response goes out whole or not at all: for a content of at most 1023 bytes no write leaves the
  block, what is given to the socket is the complete text of the response (status line, headers,
  \<open>Content-Length\<close> where there is content, empty line, content), and that happens exactly when the
  text is shorter than 3072 bytes; a longer one is refused with a negative code.
\<close>

theorem response_whole_or_not_at_all:
  assumes "unat (contentlength r) \<le> length (content r)" and "unat (contentlength r) \<le> 1023"
    and "0 \<le> respcode r" and "respcode r < 1000"
  shows "\<exists>rc out. msg_write_response send r = Some (rc, out) \<and>
     (if length (response_text r) < 3072 then out = Some (response_text r) \<and>
         (rc = 0) = (send (response_text r) = int (length (response_text r)))
      else out = None \<and> rc < 0)"
proof -
  let ?T = "response_text r" and ?H = "response_header r"
  let ?SH = "status_line (respcode r) @ header_text (headers r)"
  have len: "length ?T = length ?H + 2 + unat (contentlength r)" "length ?SH \<le> length ?H"
    using assms(1) by (simp_all add: response_text_def response_header_def)
  have "length ?T \<le> 4096" if "contentlength r \<noteq> 0 \<longrightarrow> length ?H < 3072" "headers r \<noteq> [] \<longrightarrow> length ?SH < 3072"
  proof (cases "contentlength r = 0")
    case True
    then have "?H = ?SH" by (simp add: response_header_def length_line_def)
    with that(2) len(1) True length_status_line [OF assms(3,4)] show ?thesis
      by (cases "headers r = []") (simp_all add: header_text_def)
  qed (use that(1) len(1) assms(2) in simp)
  then have "length ?T \<le> 4096 \<or> (contentlength r \<noteq> 0 \<and> 3072 \<le> length ?H) \<or> (headers r \<noteq> [] \<and> 3072 \<le> length ?SH)"
    by linarith
  moreover have "int (length ?T) \<noteq> -1" by simp
  ultimately show ?thesis
    unfolding write_response_text [OF assms(1)] using len by (auto simp del: length_append)
qed

definition sample_response :: rtsp_message where
  "sample_response = msg_init\<lparr>respcode := 200, headers := [(''CSeq'', ''7'')], contentlength := 2, content := ''ok''\<rparr>"

lemma response_whole_or_not_at_all_witness:
  "msg_write_response (\<lambda>s. int (length s)) sample_response =
     Some (0, Some (''RTSP/1.0 200 OK'' @ crlf @ ''CSeq: 7'' @ crlf @ ''Content-Length: 2'' @ crlf @ crlf @ ''ok''))"
proof -
  have "response_text sample_response =
      ''RTSP/1.0 200 OK'' @ crlf @ ''CSeq: 7'' @ crlf @ ''Content-Length: 2'' @ crlf @ crlf @ ''ok''"
    by (simp add: sample_response_def response_text_def response_header_def status_line_def header_text_def
        length_line_def decimal_def nat_decimal.simps respcode_text_def responses_def char_of_def bit_simps)
  then show ?thesis
    using response_whole_or_not_at_all [of sample_response "\<lambda>s. int (length s)"]
    by (auto simp: sample_response_def)
qed

text \<open>
  The content is copied before the room for it is looked at: with a header that passes every check,
  a content that brings the response above 4096 bytes is written past the end of the block.
\<close>

lemma large_content_leaves_block:
  assumes "unat (contentlength r) \<le> length (content r)" and "length (response_header r) < 3072"
    and "4096 < length (response_text r)"
  shows "msg_write_response send r = None"
  using assms write_response_text [OF assms(1), of send] by (auto simp: response_header_def)

lemma large_content_leaves_block_witness:
  "msg_write_response (\<lambda>s. int (length s))
     (msg_init\<lparr>respcode := 200, contentlength := 4070, content := replicate 4070 (CHR ''x'')\<rparr>) = None"
proof -
  let ?r = "msg_init\<lparr>respcode := 200, contentlength := 4070, content := replicate 4070 (CHR ''x'')\<rparr>"
  have h: "header_text (headers ?r) = []" by (simp add: header_text_def msg_init_def)
  have c: "unat (contentlength ?r) = 4070" "length (content ?r) = 4070" "respcode ?r = 200"
    by simp_all
  have "length (length_line (contentlength ?r)) \<le> 40"
    using length_nat_decimal [of 4070 3] by (simp add: length_line_def decimal_def)
  moreover have "length (length_line (contentlength ?r)) \<ge> 16" by (simp add: length_line_def)
  moreover have "11 \<le> length (status_line 200)" by (simp add: status_line_def)
  ultimately have "length (response_header ?r) < 3072" "4096 < length (response_text ?r)"
    using length_status_line [of 200] by (simp_all only: response_text_def response_header_def h c length_append
        length_take append_Nil length_crlf min.idem) simp_all
  then show ?thesis using large_content_leaves_block [of ?r] c by simp
qed

end
