(* ===== verification/Play_Lock.thy ===== *)
theory Play_Lock
  imports Prelude
begin

text \<open>
  The play lock of \<open>rtsp.c\<close>: \<open>playing_conn\<close> is the one connection that owns the player. \<open>get_play_lock\<close>
  takes it when it is free, may ask the present owner to stop, and then looks 30 times, a tenth of a
  second apart, whether the owner has let go. Connections are numbers, \<open>None\<close> is the null pointer. What
  the other threads do before each look is a parameter, a list of changes of the state.
\<close>

record lock_state =
  playing_conn :: "nat option"
  conn_stop :: "nat \<Rightarrow> bool"
  cancelled :: "nat list"

definition have_play_lock :: "nat option \<Rightarrow> lock_state \<Rightarrow> bool" where
  "have_play_lock conn s = (playing_conn s = conn)"

definition release_play_lock :: "nat option \<Rightarrow> lock_state \<Rightarrow> lock_state" where
  "release_play_lock conn s = (if playing_conn s = conn then s\<lparr>playing_conn := None\<rparr> else s)"

text \<open>The loop: \<open>time_remaining\<close> goes from 3000000 down to 0 in steps of 100000.\<close>

definition polls :: nat where "polls = 30"

fun wait_for_player :: "nat option \<Rightarrow> (lock_state \<Rightarrow> lock_state) list \<Rightarrow> lock_state \<Rightarrow> bool \<times> lock_state" where
  "wait_for_player conn [] s = (False, s)"
| "wait_for_player conn (others # rest) s =
     (let s = others s
      in if playing_conn s = None then (True, s\<lparr>playing_conn := conn\<rparr>) else wait_for_player conn rest s)"

text \<open>The first look, under the lock: have the player, wait for it, and whether a session was interrupted.\<close>

definition first_look :: "nat option \<Rightarrow> bool \<Rightarrow> lock_state \<Rightarrow> bool \<times> bool \<times> bool \<times> lock_state" where
  "first_look conn allow_session_interruption s =
     (case playing_conn s of
        None \<Rightarrow> (True, False, False, s\<lparr>playing_conn := conn\<rparr>)
      | Some p \<Rightarrow>
          if conn = Some p then (True, False, False, s)
          else if conn_stop s p then (False, True, False, s)
          else if allow_session_interruption
          then (False, True, True, s\<lparr>conn_stop := (conn_stop s)(p := True), cancelled := p # cancelled s\<rparr>)
          else (False, False, False, s))"

definition get_play_lock ::
    "(lock_state \<Rightarrow> lock_state) list \<Rightarrow> nat option \<Rightarrow> bool \<Rightarrow> lock_state \<Rightarrow> int \<times> lock_state" where
  "get_play_lock others conn allow_session_interruption s =
     (let (have_the_player, should_wait, interrupting, s) = first_look conn allow_session_interruption s;
          (have_the_player, s) =
             (if should_wait then wait_for_player conn (take polls others) s else (have_the_player, s));
          response = (if should_wait then if have_the_player \<and> interrupting then 1 else -1 else 0);
          response = (if have_the_player \<and> \<not> interrupting then 0 else response)
      in (response, s))"

section \<open>What a return value means\<close>

text \<open>The state the others leave behind before the look number \<open>k\<close>, when none of the looks succeeds.\<close>

definition seen :: "(lock_state \<Rightarrow> lock_state) list \<Rightarrow> nat \<Rightarrow> lock_state \<Rightarrow> lock_state" where
  "seen others k s = fold (\<lambda>f. f) (take (Suc k) others) s"

lemma seen_0: "seen (f # fs) 0 s = f s"
  by (simp add: seen_def)

lemma seen_Suc: "seen (f # fs) (Suc k) s = seen fs k (f s)"
  by (simp add: seen_def)

lemma wait_result:
  "wait_for_player conn others s = (h, s') \<Longrightarrow>
   h = (\<exists>k<length others. playing_conn (seen others k s) = None) \<and>
   (h \<longrightarrow> playing_conn s' = conn) \<and> (\<not> h \<and> others \<noteq> [] \<longrightarrow> playing_conn s' \<noteq> None)"
proof (induction others arbitrary: s)
  case (Cons f fs)
  show ?case
  proof (cases "playing_conn (f s) = None")
    case True
    with Cons.prems show ?thesis by (auto simp: seen_0 Let_def intro!: exI [of _ 0])
  next
    case False
    then have w: "wait_for_player conn fs (f s) = (h, s')" using Cons.prems by (auto simp: Let_def)
    have "(\<exists>k<length (f # fs). playing_conn (seen (f # fs) k s) = None) =
        (\<exists>k<length fs. playing_conn (seen fs k (f s)) = None)"
      using False by (auto simp: less_Suc_eq_0_disj seen_0 seen_Suc)
    with Cons.IH [OF w] False w show ?thesis by (cases fs) auto
  qed
qed simp

text \<open>
  What \<open>get_play_lock\<close> returns to a connection that asks. 1: it broke in and owns the player. -1: it
  waited in vain, the player was taken at each of its looks. 0 when the player was free, its own, or
  let go in time by a session that was stopping already: it owns the player. The interrupted session
  is told to stop and its thread is cancelled.
\<close>

lemma play_lock_results:
  assumes "length others = polls" and "allow \<or> playing_conn s = None \<or> playing_conn s = Some c \<or>
      (\<exists>p. playing_conn s = Some p \<and> conn_stop s p)"
    and "get_play_lock others (Some c) allow s = (r, s')"
    and "s1 = snd (snd (snd (first_look (Some c) allow s)))"
  shows "(r = 1 \<or> r = 0 \<longrightarrow> have_play_lock (Some c) s') \<and>
     (r = -1 \<longrightarrow> (\<forall>k<polls. playing_conn (seen others k s1) \<noteq> None)) \<and> r \<in> {-1, 0, 1} \<and>
     (\<forall>p. playing_conn s = Some p \<and> p \<noteq> c \<and> \<not> conn_stop s p \<longrightarrow>
        conn_stop s1 p \<and> p \<in> set (cancelled s1) \<and> r \<noteq> 0)"
proof -
  obtain h w i s0 where f: "first_look (Some c) allow s = (h, w, i, s0)" by (metis prod_cases4)
  have s0: "s1 = s0" using assms(4) f by simp
  have t: "take polls others = others" using assms(1) by simp
  obtain h' s2 where wt: "wait_for_player (Some c) others s0 = (h', s2)" by (cases "wait_for_player (Some c) others s0")
  note res = wait_result [OF wt] assms(1)
  show ?thesis
  proof (cases w)
    case True
    then have "(r, s') = (if h' then if i then 1 else 0 else -1, s2)" "\<not> h"
      using assms(3) f wt by (auto simp: get_play_lock_def t first_look_def split: option.splits if_splits)
    moreover have "conn_stop s0 p \<and> p \<in> set (cancelled s0) \<and> i"
      if "playing_conn s = Some p" "p \<noteq> c" "\<not> conn_stop s p" for p
      using that f True by (auto simp: first_look_def split: if_splits)
    ultimately show ?thesis using res unfolding s0 have_play_lock_def by auto
  next
    case False
    then have "h" "playing_conn s = None \<or> playing_conn s = Some c" "playing_conn s0 = Some c"
      using assms(2) f by (auto simp: first_look_def split: option.splits if_splits)
    moreover from this have "(r, s') = (0, s0)"
      using assms(3) f False by (auto simp: get_play_lock_def first_look_def split: option.splits if_splits)
    ultimately show ?thesis unfolding s0 have_play_lock_def by auto
  qed
qed

lemma play_lock_results_witness:
  "fst (get_play_lock (replicate 30 (release_play_lock (Some 7))) (Some 3) True
      \<lparr>playing_conn = Some 7, conn_stop = (\<lambda>_. False), cancelled = []\<rparr>) = 1"
proof -
  let ?s = "\<lparr>playing_conn = Some 7, conn_stop = (\<lambda>_. False), cancelled = []\<rparr>"
  let ?o = "replicate 30 (release_play_lock (Some 7))"
  obtain r s' where g: "get_play_lock ?o (Some 3) True ?s = (r, s')" by (cases "get_play_lock ?o (Some 3) True ?s")
  let ?s1 = "snd (snd (snd (first_look (Some 3) True ?s)))"
  have "playing_conn (seen ?o 0 ?s1) = None"
    by (simp add: seen_def first_look_def release_play_lock_def numeral_eq_Suc)
  then have "\<not> (\<forall>k<polls. playing_conn (seen ?o k ?s1) \<noteq> None)"
    by (auto simp: polls_def intro!: exI [of _ 0])
  with play_lock_results [OF _ _ g refl] g show ?thesis by (auto simp: polls_def)
qed

text \<open>
  A request that is turned down: when another connection owns the player, is not stopping, and
  interruption is not allowed, the return value is 0, not -1, and the owner stays.
\<close>

lemma refused_play_lock:
  "playing_conn s = Some p \<Longrightarrow> conn \<noteq> Some p \<Longrightarrow> \<not> conn_stop s p \<Longrightarrow>
   get_play_lock others conn False s = (0, s) \<and> \<not> have_play_lock conn s"
  by (auto simp: get_play_lock_def first_look_def have_play_lock_def)

lemma free_play_lock:
  "playing_conn s = None \<Longrightarrow> get_play_lock others conn allow s = (0, s\<lparr>playing_conn := conn\<rparr>)"
  by (simp add: get_play_lock_def first_look_def)

end
