(* ===== verification/Rtsp_Announce.thy ===== *)
theory Rtsp_Announce
  imports Play_Lock Rtsp_Message Player_State
begin

text \<open>
  The ANNOUNCE request (\<open>handle_announce\<close> of \<open>rtsp.c\<close>), which starts a session: it takes the play lock,
  reads the lines of the session description, and sets the format of the stream. The base64 decoder
  and the private-key operation of \<open>common.c\<close>, which call a cryptographic library, are parameters.
\<close>

section \<open>The description\<close>

text \<open>What the scan finds: for each kind of line the text behind its prefix, the last one counts.\<close>

record description =
  uncompressed_cd :: bool
  ssid :: "string option"
  fmtp_line :: "string option"
  aesiv_line :: "string option"
  rsaaeskey_line :: "string option"
  min_latency_line :: "string option"
  max_latency_line :: "string option"

definition behind :: "string \<Rightarrow> string \<Rightarrow> string option \<Rightarrow> string option" where
  "behind pre line old = (if take (length pre) line = pre then Some (drop (length pre) line) else old)"

definition scan_line :: "string \<Rightarrow> description \<Rightarrow> description" where
  "scan_line cp d =
     d\<lparr> uncompressed_cd := (uncompressed_cd d \<or> take 23 cp = ''a=rtpmap:96 L16/44100/2''),
        ssid := behind ''o=iTunes'' cp (ssid d),
        fmtp_line := behind ''a=fmtp:'' cp (fmtp_line d),
        aesiv_line := behind ''a=aesiv:'' cp (aesiv_line d),
        rsaaeskey_line := behind ''a=rsaaeskey:'' cp (rsaaeskey_line d),
        min_latency_line := behind ''a=min-latency:'' cp (min_latency_line d),
        max_latency_line := behind ''a=max-latency:'' cp (max_latency_line d) \<rparr>"

lemma nextline_shorter: "nextline s = Some (line, rest) \<Longrightarrow> length rest < length s"
  by (induction s arbitrary: line) (auto split: if_splits)

text \<open>The loop; the content has a NUL behind it, so a last line without an end is read too.\<close>

function scan_content :: "string \<Rightarrow> description \<Rightarrow> description" where
  "scan_content cp d =
     (if cp = [] then d
      else case nextline cp of
             None \<Rightarrow> scan_line (c_string cp) d
           | Some (line, nxt) \<Rightarrow> scan_content nxt (scan_line (c_string line) d))"
  by pat_completeness auto
termination by (relation "measure (\<lambda>(cp, d). length cp)") (auto dest: nextline_shorter)

declare scan_content.simps [simp del]

definition no_lines :: description where
  "no_lines = \<lparr>uncompressed_cd = False, ssid = None, fmtp_line = None, aesiv_line = None,
     rsaaeskey_line = None, min_latency_line = None, max_latency_line = None\<rparr>"

text \<open>\<open>strsep\<close> with blanks and tabs: all the pieces, empty ones too.\<close>

fun blank_pieces :: "string \<Rightarrow> string list" where
  "blank_pieces [] = [[]]"
| "blank_pieces (c # cs) =
     (if c = CHR '' '' \<or> c = CHR 0x09 then [] # blank_pieces cs
      else (c # hd (blank_pieces cs)) # tl (blank_pieces cs))"

section \<open>The stream\<close>

text \<open>\<open>airplay_classic\<close>: \<open>airplay_type\<close> is \<open>ap_1\<close> and \<open>timing_type\<close> is \<open>ts_ntp\<close>.\<close>

record stream_params =
  airplay_classic :: bool
  announced_type :: audio_stream_type
  announced_encrypted :: bool
  aesiv :: bytes
  aeskey :: bytes
  fmtp :: "int list"
  announced_max_frames :: u32
  announced_rate :: u32
  input_num_channels :: u32
  input_bit_depth :: u32
  announced_bytes_per_frame :: u32
  minimum_latency :: u32
  maximum_latency :: u32
  AirPlayVersion :: int
  UserAgent :: "string option"

definition bytes_per_frame :: "u32 \<Rightarrow> u32 \<Rightarrow> u32" where
  "bytes_per_frame channels depth = channels * ((depth + 7) div 8)"

definition set_uncompressed :: "stream_params \<Rightarrow> stream_params" where
  "set_uncompressed p =
     p\<lparr> announced_type := Ast_uncompressed, announced_max_frames := 352, announced_rate := 44100,
        input_num_channels := 2, input_bit_depth := 16, announced_bytes_per_frame := bytes_per_frame 2 16 \<rparr>"

definition default_fmtp :: "int list" where
  "default_fmtp = [96, 352, 0, 16, 40, 10, 14, 2, 255, 0, 0, 44100]"

text \<open>The first 12 numbers of the line overwrite the defaults.\<close>

fun overwrite_fmtp :: "nat \<Rightarrow> string list \<Rightarrow> int list \<Rightarrow> int list option" where
  "overwrite_fmtp i [] fs = Some fs"
| "overwrite_fmtp i (found # rest) fs =
     (if i < 12 then do { n \<leftarrow> atoi found; overwrite_fmtp (Suc i) rest (fs[i := n]) } else Some fs)"

definition set_alac :: "string \<Rightarrow> stream_params \<Rightarrow> stream_params option" where
  "set_alac line p =
     do { fs \<leftarrow> overwrite_fmtp 0 (blank_pieces line) default_fmtp;
          let channels = word_of_int (fs ! 7);
          let depth = word_of_int (fs ! 3);
          Some (p\<lparr> announced_type := Ast_apple_lossless, fmtp := fs,
                   announced_max_frames := word_of_int (fs ! 1), announced_rate := word_of_int (fs ! 11),
                   input_num_channels := channels, input_bit_depth := depth,
                   announced_bytes_per_frame := bytes_per_frame channels depth \<rparr>) }"

text \<open>\<open>None\<close> outside is undefined behaviour; the flag says whether the handler goes on.\<close>

definition set_latencies :: "description \<Rightarrow> stream_params \<Rightarrow> stream_params option" where
  "set_latencies d p =
     do { p \<leftarrow> (case min_latency_line d of None \<Rightarrow> Some p
               | Some l \<Rightarrow> do { n \<leftarrow> atoi l; Some (p\<lparr>minimum_latency := word_of_int n\<rparr>) });
          (case max_latency_line d of None \<Rightarrow> Some p
               | Some l \<Rightarrow> do { n \<leftarrow> atoi l; Some (p\<lparr>maximum_latency := word_of_int n\<rparr>) }) }"

definition set_keys ::
    "(string \<Rightarrow> bytes) \<Rightarrow> (bytes \<Rightarrow> bytes) \<Rightarrow> description \<Rightarrow> stream_params \<Rightarrow> bool \<times> stream_params" where
  "set_keys base64_dec rsa_apply d p =
     (case (aesiv_line d, rsaaeskey_line d) of
        (None, None) \<Rightarrow> (True, p\<lparr>announced_encrypted := False\<rparr>)
      | (Some iv, Some key) \<Rightarrow>
          (let p = p\<lparr>announced_encrypted := True\<rparr>; iv = base64_dec iv
           in if length iv \<noteq> 16 then (False, p)
              else let p = p\<lparr>aesiv := iv\<rparr>; key = rsa_apply (base64_dec key)
                   in if length key \<noteq> 16 then (False, p) else (True, p\<lparr>aeskey := key\<rparr>))
      | _ \<Rightarrow> (False, p))"

definition set_stream ::
    "(string \<Rightarrow> bytes) \<Rightarrow> (bytes \<Rightarrow> bytes) \<Rightarrow> description \<Rightarrow> stream_params \<Rightarrow> (bool \<times> stream_params) option" where
  "set_stream base64_dec rsa_apply d p =
     do { let p = p\<lparr>airplay_classic := True, announced_type := Ast_unknown\<rparr>;
          let p = (if uncompressed_cd d then set_uncompressed p else p);
          p \<leftarrow> set_latencies d p;
          let (goes_on, p) = set_keys base64_dec rsa_apply d p;
          if \<not> goes_on then Some (False, p)
          else do { p \<leftarrow> (case fmtp_line d of None \<Rightarrow> Some p | Some l \<Rightarrow> set_alac l p);
                    Some (announced_type p \<noteq> Ast_unknown, p) } }"

section \<open>The handler\<close>

datatype announce_event = Reset_udp_port | Client_name string | Client_agent string

text \<open>\<open>strchr(p, '/')\<close> behind \<open>AirPlay\<close> in the \<open>User-Agent\<close>.\<close>

definition airplay_version :: "string \<Rightarrow> int \<Rightarrow> int option" where
  "airplay_version hdr old =
     (case split_at ''AirPlay'' hdr of
        None \<Rightarrow> Some old
      | Some (_, p) \<Rightarrow> (case split_at ''/'' p of None \<Rightarrow> Some old | Some (_, v) \<Rightarrow> atoi v))"

definition note_client ::
    "rtsp_message \<Rightarrow> stream_params \<Rightarrow> (stream_params \<times> announce_event list) option" where
  "note_client req p =
     do { let names = (case msg_get_header req ''X-Apple-Client-Name'' of None \<Rightarrow> [] | Some n \<Rightarrow> [Client_name n]);
          case msg_get_header req ''User-Agent'' of
            None \<Rightarrow> Some (p, names)
          | Some hdr \<Rightarrow>
              do { v \<leftarrow> airplay_version hdr (AirPlayVersion p);
                   Some (p\<lparr>UserAgent := Some hdr, AirPlayVersion := v\<rparr>, names @ [Client_agent hdr]) } }"

text \<open>The result: the response code, the stream, the lock, and what was done besides.\<close>

definition handle_announce ::
    "(string \<Rightarrow> bytes) \<Rightarrow> (bytes \<Rightarrow> bytes) \<Rightarrow> (lock_state \<Rightarrow> lock_state) list \<Rightarrow> bool \<Rightarrow> nat \<Rightarrow>
     rtsp_message \<Rightarrow> stream_params \<Rightarrow> lock_state \<Rightarrow>
     (int \<times> stream_params \<times> lock_state \<times> announce_event list) option" where
  "handle_announce base64_dec rsa_apply others allow_session_interruption conn req p lock =
     (let (status, lock) = get_play_lock others (Some conn) allow_session_interruption lock
      in if status = -1 then Some (453, p, lock, [])
         else do { let evs = (if status = 1 then [Reset_udp_port] else []);
                   (goes_on, p) \<leftarrow> set_stream base64_dec rsa_apply (scan_content (content req) no_lines) p;
                   if \<not> goes_on then Some (456, p, release_play_lock (Some conn) lock, evs)
                   else do { (p, more) \<leftarrow> note_client req p;
                             Some (200, p, lock, evs @ more) } })"

section \<open>Numbers in text\<close>

lemma code_digit: "n < 10 \<Longrightarrow> code (char_of (48 + n)) = 48 + n"
  by (simp add: code_def)

lemma digits_value_snoc: "digits_value (ds @ [c]) = 10 * digits_value ds + (int (code c) - 48)"
  by (simp add: digits_value_def)

lemma nat_decimal_digits:
  "digits_value (nat_decimal n) = int n \<and> (\<forall>c\<in>set (nat_decimal n). is_digit c) \<and> nat_decimal n \<noteq> []"
proof (induction n rule: nat_decimal.induct)
  case (1 n)
  show ?case
  proof (cases "n < 10")
    case True
    then show ?thesis
      by (simp add: nat_decimal.simps [of n] digits_value_def is_digit_def code_digit)
  next
    case False
    have "n mod 10 < 10" by simp
    note c = code_digit [OF this]
    have "10 * int (n div 10) + int (n mod 10) = int n" by presburger
    with 1 [OF False] False c show ?thesis
      by (simp add: nat_decimal.simps [of n] digits_value_snoc is_digit_def)
  qed
qed

lemma digit_no_space: "is_digit c \<Longrightarrow> \<not> is_space c \<and> c \<noteq> CHR ''-'' \<and> c \<noteq> CHR ''+'' \<and> c \<noteq> CHR 0x09 \<and> c \<noteq> CHR '' ''"
  by (auto simp: is_digit_def is_space_def code_def)

lemma takeWhile_digits: "\<forall>c\<in>set s. is_digit c \<Longrightarrow> takeWhile is_digit s = s"
  by (simp add: takeWhile_eq_all_conv)

lemma atoi_decimal:
  assumes "- (2 ^ 31) \<le> n" and "n < 2 ^ 31"
  shows "atoi (decimal n) = Some n"
proof (cases "n < 0")
  case True
  note d = nat_decimal_digits [of "nat (- n)"]
  have "atoi (decimal n) = (let m = - digits_value (takeWhile is_digit (nat_decimal (nat (- n))))
      in if - (2 ^ 31) \<le> m \<and> m < 2 ^ 31 then Some m else None)"
    using True by (simp add: atoi_def decimal_def is_space_def code_def Let_def)
  with d True assms show ?thesis by (simp add: takeWhile_digits)
next
  case False
  note d = nat_decimal_digits [of "nat n"]
  obtain c cs where c: "nat_decimal (nat n) = c # cs" "is_digit c" using d by (cases "nat_decimal (nat n)") auto
  have "atoi (decimal n) = (let m = digits_value (takeWhile is_digit (c # cs))
      in if - (2 ^ 31) \<le> m \<and> m < 2 ^ 31 then Some m else None)"
    using False c digit_no_space [OF c(2)] by (simp add: atoi_def decimal_def Let_def)
  also have "takeWhile is_digit (c # cs) = c # cs" using d c by (intro takeWhile_digits) simp
  finally show ?thesis using d c False assms by simp
qed

section \<open>The numbers of the format line\<close>

fun spaced :: "string list \<Rightarrow> string" where
  "spaced [] = []"
| "spaced [s] = s"
| "spaced (s # t # ss) = s @ CHR '' '' # spaced (t # ss)"

lemma decimal_no_blank: "c \<in> set (decimal n) \<Longrightarrow> c \<noteq> CHR '' '' \<and> c \<noteq> CHR 0x09"
  using nat_decimal_digits [of "nat n"] nat_decimal_digits [of "nat (- n)"] digit_no_space
  by (auto simp: decimal_def split: if_splits)

lemma blank_pieces_word:
  assumes "\<forall>c\<in>set s. c \<noteq> CHR '' '' \<and> c \<noteq> CHR 0x09"
  shows "blank_pieces s = [s]" and "blank_pieces (s @ CHR '' '' # t) = s # blank_pieces t"
  using assms by (induction s) auto

lemma blank_pieces_spaced:
  "ss \<noteq> [] \<Longrightarrow> \<forall>s\<in>set ss. \<forall>c\<in>set s. c \<noteq> CHR '' '' \<and> c \<noteq> CHR 0x09 \<Longrightarrow> blank_pieces (spaced ss) = ss"
  by (induction ss rule: spaced.induct) (simp_all add: blank_pieces_word)

lemma overwrite_all:
  "\<forall>n\<in>set ns. - (2 ^ 31) \<le> n \<and> n < 2 ^ 31 \<Longrightarrow> length fs = i + length ns \<Longrightarrow> length fs \<le> 12 \<Longrightarrow>
   overwrite_fmtp i (map decimal ns) fs = Some (take i fs @ ns)"
proof (induction ns arbitrary: i fs)
  case (Cons n ns)
  have "atoi (decimal n) = Some n" using Cons.prems(1) by (intro atoi_decimal) auto
  moreover have "take (Suc i) (fs[i := n]) = take i fs @ [n]"
    using Cons.prems(2) by (simp add: take_Suc_conv_app_nth)
  ultimately show ?case using Cons.IH [of "fs[i := n]" "Suc i"] Cons.prems by simp
qed simp

definition fmtp_text :: "int list \<Rightarrow> string" where
  "fmtp_text ns = ''a=fmtp:'' @ spaced (map decimal ns)"

lemma fmtp_numbers:
  assumes "length ns = 12" and "\<forall>n\<in>set ns. - (2 ^ 31) \<le> n \<and> n < 2 ^ 31"
  shows "overwrite_fmtp 0 (blank_pieces (spaced (map decimal ns))) default_fmtp = Some ns"
proof -
  have "blank_pieces (spaced (map decimal ns)) = map decimal ns"
    using assms(1) decimal_no_blank by (intro blank_pieces_spaced) auto
  then show ?thesis using overwrite_all [of ns default_fmtp 0] assms by (simp add: default_fmtp_def)
qed

section \<open>Announcing an ALAC stream\<close>

text \<open>A line of the description the handler passes over.\<close>

definition other_line :: "string \<Rightarrow> bool" where
  "other_line l \<longleftrightarrow> CR \<notin> set l \<and> LF \<notin> set l \<and> NUL \<notin> set l \<and> (\<forall>d. scan_line l d = d)"

lemma scan_content_line:
  assumes "CR \<notin> set l" and "LF \<notin> set l" and "NUL \<notin> set l"
  shows "scan_content (l @ crlf @ rest) d = scan_content rest (scan_line l d)"
proof -
  have "nextline (l @ crlf @ rest) = Some (l, rest)"
    using assms(1,2) by (induction l) (auto simp: crlf_def)
  moreover have "c_string l = l" using assms(3) by (auto simp: c_string_def takeWhile_eq_all_conv)
  moreover have "l @ crlf @ rest \<noteq> []" by (simp add: crlf_def)
  ultimately show ?thesis by (subst scan_content.simps) (simp only: if_False option.case prod.case)
qed

lemma scan_other_lines:
  "\<forall>l\<in>set ls. other_line l \<Longrightarrow> scan_content (concat (map (\<lambda>l. l @ crlf) ls) @ rest) d = scan_content rest d"
  by (induction ls) (simp_all add: scan_content_line other_line_def)

lemma scan_fmtp:
  "scan_line (fmtp_text ns) no_lines = no_lines\<lparr>fmtp_line := Some (spaced (map decimal ns))\<rparr>"
  by (simp add: scan_line_def fmtp_text_def no_lines_def behind_def)

lemma fmtp_text_plain: "c \<in> set (fmtp_text ns) \<Longrightarrow> c \<noteq> CR \<and> c \<noteq> LF \<and> c \<noteq> NUL"
proof -
  have d: "c \<noteq> CR \<and> c \<noteq> LF \<and> c \<noteq> NUL" if "c \<in> set (decimal n)" for c n
  proof -
    have "c = CHR ''-'' \<or> is_digit c"
      using that nat_decimal_digits [of "nat n"] nat_decimal_digits [of "nat (- n)"]
      by (auto simp: decimal_def split: if_splits)
    then show ?thesis by (auto simp: is_digit_def code_def CR_def LF_def NUL_def)
  qed
  have s: "c \<noteq> CR \<and> c \<noteq> LF \<and> c \<noteq> NUL" if "c \<in> set (spaced ss)"
      "\<forall>s\<in>set ss. \<forall>c\<in>set s. c \<noteq> CR \<and> c \<noteq> LF \<and> c \<noteq> NUL" for c ss
    using that by (induction ss rule: spaced.induct) auto
  assume "c \<in> set (fmtp_text ns)"
  then show ?thesis
    using s [of c "map decimal ns"] d by (auto simp: fmtp_text_def CR_def LF_def NUL_def)
qed

lemma scan_alac_content:
  assumes "\<forall>l\<in>set ls. other_line l"
  shows "scan_content (concat (map (\<lambda>l. l @ crlf) (ls @ [fmtp_text ns]))) no_lines =
     no_lines\<lparr>fmtp_line := Some (spaced (map decimal ns))\<rparr>"
proof -
  have "scan_content (fmtp_text ns @ crlf @ []) no_lines = scan_content [] (scan_line (fmtp_text ns) no_lines)"
    using fmtp_text_plain by (intro scan_content_line) auto
  then show ?thesis using scan_other_lines [OF assms, of "fmtp_text ns @ crlf"]
    by (simp add: scan_fmtp scan_content.simps [of "[]"])
qed

lemma set_stream_alac:
  "set_stream b64 rsa (no_lines\<lparr>fmtp_line := Some l\<rparr>) p =
     map_option (\<lambda>p. (True, p))
       (set_alac l (p\<lparr>airplay_classic := True, announced_type := Ast_unknown, announced_encrypted := False\<rparr>))"
  by (cases "overwrite_fmtp 0 (blank_pieces l) default_fmtp")
     (simp_all add: set_stream_def set_latencies_def set_keys_def no_lines_def Let_def set_alac_def)

lemma announce_alac:
  assumes "length ns = 12" and "\<forall>n\<in>set ns. - (2 ^ 31) \<le> n \<and> n < 2 ^ 31" and "\<forall>l\<in>set ls. other_line l"
    and "content req = concat (map (\<lambda>l. l @ crlf) (ls @ [fmtp_text ns]))"
    and "msg_get_header req ''User-Agent'' = None" and "get_play_lock others (Some c) allow lock = (0, lock')"
  shows "\<exists>p' evs. handle_announce b64 rsa others allow c req p lock = Some (200, p', lock', evs) \<and>
     fmtp p' = ns \<and> announced_type p' = Ast_apple_lossless \<and>
     \<not> announced_encrypted p' \<and> announced_max_frames p' = word_of_int (ns ! 1) \<and>
     announced_rate p' = word_of_int (ns ! 11) \<and> input_num_channels p' = word_of_int (ns ! 7) \<and>
     input_bit_depth p' = word_of_int (ns ! 3) \<and>
     announced_bytes_per_frame p' = word_of_int (ns ! 7) * ((word_of_int (ns ! 3) + 7) div 8)"
proof -
  have "scan_content (content req) no_lines = no_lines\<lparr>fmtp_line := Some (spaced (map decimal ns))\<rparr>"
    unfolding assms(4) by (rule scan_alac_content [OF assms(3)])
  then show ?thesis
    using fmtp_numbers [OF assms(1,2)] assms(5,6)
    by (auto simp: handle_announce_def set_stream_alac set_alac_def note_client_def bytes_per_frame_def Let_def)
qed


definition sample_numbers :: "int list" where
  "sample_numbers = [96, 352, 0, 16, 40, 10, 14, 2, 255, 0, 0, 44100]"

definition sample_announcement :: rtsp_message where
  "sample_announcement = msg_init\<lparr>content := concat (map (\<lambda>l. l @ crlf) ([''v=0''] @ [fmtp_text sample_numbers]))\<rparr>"

definition sample_stream :: stream_params where
  "sample_stream = \<lparr>airplay_classic = False, announced_type = Ast_unknown, announced_encrypted = False, aesiv = [],
     aeskey = [], fmtp = [], announced_max_frames = 0, announced_rate = 0, input_num_channels = 0,
     input_bit_depth = 0, announced_bytes_per_frame = 0, minimum_latency = 0, maximum_latency = 0,
     AirPlayVersion = 0, UserAgent = None\<rparr>"

lemma sample_lines: "\<forall>l\<in>set [''v=0'']. other_line l"
  by (auto simp: other_line_def scan_line_def behind_def CR_def LF_def NUL_def)


text \<open>
  While another connection plays and interruption is not allowed, an announcement is answered 200
  like one that was granted, and changes the stream parameters, although the player stays with the
  other connection (the code for a refusal, 453, is not reached).
\<close>

theorem announce_granted_without_lock:
  assumes "length ns = 12" and "\<forall>n\<in>set ns. - (2 ^ 31) \<le> n \<and> n < 2 ^ 31" and "\<forall>l\<in>set ls. other_line l"
    and "content req = concat (map (\<lambda>l. l @ crlf) (ls @ [fmtp_text ns]))"
    and "msg_get_header req ''User-Agent'' = None"
    and "playing_conn lock = Some other" and "other \<noteq> c" and "\<not> conn_stop lock other"
  shows "\<exists>p' evs. handle_announce b64 rsa others False c req p lock = Some (200, p', lock, evs) \<and>
     \<not> have_play_lock (Some c) lock \<and> fmtp p' = ns"
proof -
  have "get_play_lock others (Some c) False lock = (0, lock)" "\<not> have_play_lock (Some c) lock"
    using refused_play_lock [OF assms(6) _ assms(8), of "Some c"] assms(7) by auto
  from announce_alac [OF assms(1-5) this(1), of b64 rsa p] this(2) show ?thesis by auto
qed

lemma announce_granted_without_lock_witness:
  "\<exists>evs. \<exists>p'. handle_announce (\<lambda>_. []) id [] False 3 sample_announcement sample_stream
       \<lparr>playing_conn = Some 7, conn_stop = (\<lambda>_. False), cancelled = []\<rparr> =
     Some (200, p', \<lparr>playing_conn = Some 7, conn_stop = (\<lambda>_. False), cancelled = []\<rparr>, evs)"
  using announce_granted_without_lock [OF _ _ sample_lines, of sample_numbers sample_announcement
      "\<lparr>playing_conn = Some 7, conn_stop = (\<lambda>_. False), cancelled = []\<rparr>" 7 3 "\<lambda>_. []" id "[]" sample_stream]
  by (auto simp: sample_announcement_def sample_numbers_def msg_get_header_def msg_init_def)

end
