(* ===== verification/Buffered_Tcp.thy ===== *)
theory Buffered_Tcp
  imports Fifo
begin

text \<open>
  The buffered audio connection of AirPlay 2 (\<open>rtp.c\<close>): a reader thread (\<open>buffered_tcp_reader\<close>) fills a ring
  of bytes from the socket, and the player takes bytes out with \<open>buffered_read\<close>. The threads share the
  descriptor; the reader looks at it, receives into the ring without holding the lock, and only then
  counts what came. Each of these is a step of its own, so that every interleaving is covered.
  Pointers into the buffer are offsets.
\<close>

section \<open>The descriptor\<close>

record tcp_desc =
  closed :: bool
  error_code :: int
  tcp_buffer :: bytes
  toq :: nat
  eoq :: nat
  buffer_occupancy :: nat

definition buffer_max_size :: "tcp_desc \<Rightarrow> nat" where
  "buffer_max_size d = length (tcp_buffer d)"

definition STANDARD_PACKET_SIZE :: nat where
  "STANDARD_PACKET_SIZE = 4096"

section \<open>The reader thread\<close>

text \<open>The reader waits while there is no room, after an error, and after the connection is closed.\<close>

definition reader_waits :: "tcp_desc \<Rightarrow> bool" where
  "reader_waits d \<longleftrightarrow> buffer_occupancy d = buffer_max_size d \<or> error_code d \<noteq> 0 \<or> closed d"

definition wrap_eoq :: "tcp_desc \<Rightarrow> tcp_desc" where
  "wrap_eoq d = (if eoq d = buffer_max_size d then d\<lparr>eoq := 0\<rparr> else d)"

definition bytes_to_request :: "tcp_desc \<Rightarrow> nat" where
  "bytes_to_request d =
     (let n = STANDARD_PACKET_SIZE;
          free_space = buffer_max_size d - buffer_occupancy d;
          n = (if n > free_space then free_space else n);
          gap_to_end_of_buffer = buffer_max_size d - eoq d
      in if gap_to_end_of_buffer < n then gap_to_end_of_buffer else n)"

text \<open>What \<open>recv\<close> puts into the ring, and what the reader then counts.\<close>

definition recv_bytes :: "bytes \<Rightarrow> tcp_desc \<Rightarrow> tcp_desc option" where
  "recv_bytes s d = map_option (\<lambda>b. d\<lparr>tcp_buffer := b\<rparr>) (wr_block (tcp_buffer d) (eoq d) s)"

definition count_bytes :: "nat \<Rightarrow> tcp_desc \<Rightarrow> tcp_desc" where
  "count_bytes nread d = d\<lparr>eoq := eoq d + nread, buffer_occupancy := buffer_occupancy d + nread\<rparr>"

section \<open>The player's side\<close>

datatype read_outcome = Moved bytes nat | Failed_with int | At_end | No_data

text \<open>
  \<open>buffered_read\<close> behind its wait: the bytes moved and how many remain, an error, the end of the
  connection, or -1 (\<open>No_data\<close>, which needs the wait to end with nothing there).
\<close>

definition read_move :: "nat \<Rightarrow> tcp_desc \<Rightarrow> (read_outcome \<times> tcp_desc) option" where
  "read_move cnt d =
     (if buffer_occupancy d \<noteq> 0
      then (let n = (if buffer_occupancy d < cnt then buffer_occupancy d else cnt);
                top_gap = buffer_max_size d - toq d;
                n = (if top_gap < n then top_gap else n)
            in do { s \<leftarrow> rd_block (tcp_buffer d) (toq d) n;
                    let t = toq d + n;
                    let t = (if t = buffer_max_size d then 0 else t);
                    Some (Moved s (buffer_occupancy d - n),
                          d\<lparr>toq := t, buffer_occupancy := buffer_occupancy d - n\<rparr>) })
      else Some (if error_code d \<noteq> 0 then Failed_with (error_code d) else if closed d then At_end else No_data, d))"

text \<open>The test at the entry, and the test of the wait, which does not look at \<open>closed\<close>.\<close>

definition read_must_wait :: "tcp_desc \<Rightarrow> bool" where
  "read_must_wait d \<longleftrightarrow> \<not> closed d \<and> buffer_occupancy d = 0 \<and> error_code d = 0"

definition read_still_waits :: "tcp_desc \<Rightarrow> bool" where
  "read_still_waits d \<longleftrightarrow> buffer_occupancy d = 0 \<and> error_code d = 0"

section \<open>The threads together\<close>

text \<open>
  The reader between two steps: before its wait, behind it, in \<open>recv\<close> with so many bytes asked for, and
  with so many received. The player: not reading, or in the wait of a read.
\<close>

datatype reader_state = Reader_idle | Reader_ready | Asking nat | Received nat
datatype player_state = Player_idle | Player_waiting nat

record tcp_state =
  desc :: tcp_desc
  reader :: reader_state
  player :: player_state

datatype tcp_event = Came bytes | Delivered read_outcome | Internal

inductive tcp_step :: "tcp_state \<Rightarrow> tcp_event \<Rightarrow> tcp_state \<Rightarrow> bool" where
  passes: "reader s = Reader_idle \<Longrightarrow> \<not> reader_waits (desc s) \<Longrightarrow>
     tcp_step s Internal (s\<lparr>reader := Reader_ready\<rparr>)"
| asks: "reader s = Reader_ready \<Longrightarrow> d = wrap_eoq (desc s) \<Longrightarrow>
     tcp_step s Internal (s\<lparr>desc := d, reader := Asking (bytes_to_request d)\<rparr>)"
| receives: "reader s = Asking n \<Longrightarrow> bs \<noteq> [] \<Longrightarrow> length bs \<le> n \<Longrightarrow> recv_bytes bs (desc s) = Some d \<Longrightarrow>
     tcp_step s (Came bs) (s\<lparr>desc := d, reader := Received (length bs)\<rparr>)"
| counts: "reader s = Received n \<Longrightarrow>
     tcp_step s Internal (s\<lparr>desc := count_bytes n (desc s), reader := Reader_idle\<rparr>)"
| peer_closes: "reader s = Asking n \<Longrightarrow>
     tcp_step s Internal (s\<lparr>desc := (desc s)\<lparr>closed := True\<rparr>, reader := Reader_idle\<rparr>)"
| recv_fails: "reader s = Asking n \<Longrightarrow> e \<noteq> 0 \<Longrightarrow>
     tcp_step s Internal (s\<lparr>desc := (desc s)\<lparr>error_code := e\<rparr>, reader := Reader_idle\<rparr>)"
| reads: "player s = Player_idle \<Longrightarrow> \<not> read_must_wait (desc s) \<Longrightarrow> read_move n (desc s) = Some (r, d) \<Longrightarrow>
     tcp_step s (Delivered r) (s\<lparr>desc := d\<rparr>)"
| waits: "player s = Player_idle \<Longrightarrow> read_must_wait (desc s) \<Longrightarrow>
     tcp_step s Internal (s\<lparr>player := Player_waiting n\<rparr>)"
| wakes: "player s = Player_waiting n \<Longrightarrow> \<not> read_still_waits (desc s) \<Longrightarrow> read_move n (desc s) = Some (r, d) \<Longrightarrow>
     tcp_step s (Delivered r) (s\<lparr>desc := d, player := Player_idle\<rparr>)"

definition tcp_start :: "bytes \<Rightarrow> tcp_state" where
  "tcp_start buf = \<lparr>desc = \<lparr>closed = False, error_code = 0, tcp_buffer = buf, toq = 0, eoq = 0, buffer_occupancy = 0\<rparr>,
     reader = Reader_idle, player = Player_idle\<rparr>"

section \<open>The ring is a first-in-first-out channel\<close>

text \<open>What is in it: the bytes that are counted, and the ones received but not counted yet.\<close>

definition counted :: "tcp_desc \<Rightarrow> bytes" where
  "counted d = ring_cells (tcp_buffer d) (toq d) (buffer_occupancy d)"

fun on_the_way :: "reader_state \<Rightarrow> tcp_desc \<Rightarrow> bytes" where
  "on_the_way (Received n) d = ring_cells (tcp_buffer d) (eoq d) n"
| "on_the_way _ d = []"

definition in_ring :: "tcp_state \<Rightarrow> bytes" where
  "in_ring s = counted (desc s) @ on_the_way (reader s) (desc s)"

definition desc_ok :: "tcp_desc \<Rightarrow> bool" where
  "desc_ok d \<longleftrightarrow> toq d < buffer_max_size d \<and> eoq d \<le> buffer_max_size d \<and>
     buffer_occupancy d \<le> buffer_max_size d \<and>
     eoq d mod buffer_max_size d = (toq d + buffer_occupancy d) mod buffer_max_size d"

fun reader_ok :: "reader_state \<Rightarrow> tcp_desc \<Rightarrow> bool" where
  "reader_ok Reader_idle d = True"
| "reader_ok Reader_ready d = True"
| "reader_ok (Asking n) d = (n + buffer_occupancy d \<le> buffer_max_size d \<and> eoq d + n \<le> buffer_max_size d)"
| "reader_ok (Received n) d = (n + buffer_occupancy d \<le> buffer_max_size d \<and> eoq d + n \<le> buffer_max_size d)"

definition tcp_ok :: "tcp_state \<Rightarrow> bool" where
  "tcp_ok s \<longleftrightarrow> desc_ok (desc s) \<and> reader_ok (reader s) (desc s)"

fun came :: "tcp_event \<Rightarrow> bytes" where
  "came (Came bs) = bs"
| "came _ = []"

fun delivered :: "tcp_event \<Rightarrow> bytes" where
  "delivered (Delivered (Moved s n)) = s"
| "delivered _ = []"

lemma length_wrap_eoq [simp]: "buffer_max_size (wrap_eoq d) = buffer_max_size d"
  by (simp add: wrap_eoq_def buffer_max_size_def)

lemma asks_ok:
  assumes "desc_ok d"
  shows "desc_ok (wrap_eoq d) \<and> reader_ok (Asking (bytes_to_request (wrap_eoq d))) (wrap_eoq d) \<and>
    counted (wrap_eoq d) = counted d"
  using assms by (auto simp: desc_ok_def wrap_eoq_def bytes_to_request_def counted_def buffer_max_size_def Let_def
      split: if_splits)

lemma recv_bytes_ok:
  assumes "desc_ok d" and "reader_ok (Asking n) d" and "length bs \<le> n" and "recv_bytes bs d = Some d'"
  shows "desc_ok d' \<and> reader_ok (Received (length bs)) d' \<and> counted d' = counted d \<and>
    on_the_way (Received (length bs)) d' = bs"
proof -
  obtain b where b: "wr_block (tcp_buffer d) (eoq d) bs = Some b" and d': "d' = d\<lparr>tcp_buffer := b\<rparr>"
    using assms(4) by (auto simp: recv_bytes_def)
  have "counted d' = counted d"
    using ring_cells_wr_block [OF b, of "toq d" "buffer_occupancy d"] assms(1-3)
    by (simp add: counted_def d' desc_ok_def buffer_max_size_def)
  moreover have "on_the_way (Received (length bs)) d' = bs"
    using ring_cells_written [OF b] by (simp add: d')
  ultimately show ?thesis
    using assms(1-3) wr_block_length [OF b] by (simp add: d' desc_ok_def buffer_max_size_def)
qed

lemma count_bytes_ok:
  assumes "desc_ok d" and "reader_ok (Received n) d"
  shows "desc_ok (count_bytes n d) \<and> counted (count_bytes n d) = counted d @ on_the_way (Received n) d"
proof -
  have mod: "(eoq d + n) mod buffer_max_size d = (toq d + (buffer_occupancy d + n)) mod buffer_max_size d"
    using assms(1) by (metis add.assoc desc_ok_def mod_add_left_eq)
  have "ring_cells (tcp_buffer d) (toq d + buffer_occupancy d) n = ring_cells (tcp_buffer d) (eoq d) n"
    using assms(1) ring_cells_mod by (metis buffer_max_size_def desc_ok_def)
  then show ?thesis
    using assms mod
    by (simp add: desc_ok_def count_bytes_def counted_def ring_cells_split buffer_max_size_def add.assoc)
qed

lemma read_move_ok:
  assumes "desc_ok d" and "read_move n d = Some (r, d')"
  shows "desc_ok d' \<and> (reader_ok p d \<longrightarrow> reader_ok p d') \<and> on_the_way p d' = on_the_way p d \<and>
     counted d = delivered (Delivered r) @ counted d'"
proof (cases "buffer_occupancy d = 0")
  case True
  then have "d' = d" "delivered (Delivered r) = []" using assms(2) by (auto simp: read_move_def)
  with assms(1) show ?thesis by simp
next
  case False
  define m where "m = min (min n (buffer_occupancy d)) (buffer_max_size d - toq d)"
  have m: "(let n = (if buffer_occupancy d < n then buffer_occupancy d else n); g = buffer_max_size d - toq d
      in if g < n then g else n) = m" by (simp add: m_def min_def Let_def)
  have le: "m \<le> buffer_occupancy d" "toq d + m \<le> buffer_max_size d" "toq d < buffer_max_size d"
    using assms(1) by (auto simp: m_def desc_ok_def)
  define t where "t = (if toq d + m = buffer_max_size d then 0 else toq d + m)"
  have rd: "rd_block (tcp_buffer d) (toq d) m = Some (take m (drop (toq d) (tcp_buffer d)))"
    using le by (simp add: rd_block_def buffer_max_size_def)
  have d': "d' = d\<lparr>toq := t, buffer_occupancy := buffer_occupancy d - m\<rparr>"
    and r: "r = Moved (take m (drop (toq d) (tcp_buffer d))) (buffer_occupancy d - m)"
    using assms(2) False rd m by (auto simp: read_move_def Let_def t_def split: if_splits)
  have t: "t mod buffer_max_size d = (toq d + m) mod buffer_max_size d" "t < buffer_max_size d"
    using le by (auto simp: t_def)
  have "counted d = ring_cells (tcp_buffer d) (toq d) m @ ring_cells (tcp_buffer d) (toq d + m) (buffer_occupancy d - m)"
    unfolding counted_def using ring_cells_split [of _ _ m "buffer_occupancy d - m"] le(1) by simp
  also have "ring_cells (tcp_buffer d) (toq d) m = take m (drop (toq d) (tcp_buffer d))"
    using le by (intro ring_cells_flat) (simp add: buffer_max_size_def)
  also have "ring_cells (tcp_buffer d) (toq d + m) k = ring_cells (tcp_buffer d) t k" for k
    using t(1) ring_cells_mod by (metis buffer_max_size_def)
  finally have "counted d = delivered (Delivered r) @ counted d'"
    by (simp add: d' r counted_def)
  moreover have "(t + (buffer_occupancy d - m)) mod buffer_max_size d = eoq d mod buffer_max_size d"
  proof -
    have "(t + (buffer_occupancy d - m)) mod buffer_max_size d =
        (toq d + m + (buffer_occupancy d - m)) mod buffer_max_size d"
      using t(1) by (metis mod_add_left_eq)
    then show ?thesis using assms(1) le(1) by (simp add: desc_ok_def)
  qed
  ultimately show ?thesis
    using assms(1) t(2) by (cases p) (auto simp: d' desc_ok_def buffer_max_size_def)
qed

lemma tcp_step_ok: "tcp_ok s \<Longrightarrow> tcp_step s e s' \<Longrightarrow> tcp_ok s' \<and> in_ring s @ came e = delivered e @ in_ring s'"
proof (erule tcp_step.cases, goal_cases)
  case 1
  then show ?case by (simp add: tcp_ok_def in_ring_def)
next
  case (2 s d)
  then show ?case using asks_ok [of "desc s"] by (simp add: tcp_ok_def in_ring_def)
next
  case (3 s n bs d)
  then show ?case using recv_bytes_ok [of "desc s" n bs d] by (simp add: tcp_ok_def in_ring_def)
next
  case (4 s n)
  then show ?case using count_bytes_ok [of "desc s" n] by (simp add: tcp_ok_def in_ring_def)
next
  case (5 s n)
  then show ?case by (simp add: tcp_ok_def in_ring_def desc_ok_def counted_def buffer_max_size_def)
next
  case (6 s n e)
  then show ?case by (simp add: tcp_ok_def in_ring_def desc_ok_def counted_def buffer_max_size_def)
next
  case (7 s n r d)
  then show ?case using read_move_ok [of "desc s" n r d "reader s"] by (simp add: tcp_ok_def in_ring_def)
next
  case (8 s n)
  then show ?case by (simp add: tcp_ok_def in_ring_def)
next
  case (9 s n r d)
  then show ?case using read_move_ok [of "desc s" n r d "reader s"] by (simp add: tcp_ok_def in_ring_def)
qed

interpretation tcp_fifo: fifo tcp_step came delivered in_ring tcp_ok
  by unfold_locales (auto dest: tcp_step_ok)

lemma tcp_start_ok: "buf \<noteq> [] \<Longrightarrow> tcp_ok (tcp_start buf) \<and> in_ring (tcp_start buf) = []"
  by (simp add: tcp_ok_def tcp_start_def desc_ok_def buffer_max_size_def in_ring_def counted_def)

section \<open>Properties\<close>

text \<open>
  C24. The ring of the buffered connection neither loses, repeats nor reorders a byte. Whatever the
  interleaving of the reader thread and the player, the bytes that came from the socket are the bytes
  delivered to the player, followed by the ones still in the ring; and the ring never holds more than
  its size.
\<close>

theorem buffered_bytes_in_order:
  assumes "runs tcp_step (tcp_start buf) es s" and "buf \<noteq> []"
  shows "concat (map came es) = concat (map delivered es) @ in_ring s \<and>
    buffer_occupancy (desc s) \<le> buffer_max_size (desc s)"
  using tcp_fifo.run_fifo [OF assms(1)] tcp_start_ok [OF assms(2)] by (simp add: tcp_ok_def desc_ok_def)

lemma buffered_bytes_in_order_witness:
  "\<exists>s. runs tcp_step (tcp_start [0, 0]) [Internal, Internal, Came [7], Internal, Delivered (Moved [7] 0)] s \<and>
     in_ring s = []"
proof -
  define at where "at b e c t r = \<lparr>desc = \<lparr>closed = False, error_code = 0, tcp_buffer = b, toq = t, eoq = e,
     buffer_occupancy = c\<rparr>, reader = r, player = Player_idle\<rparr>" for b :: bytes and e c t r
  note ops = at_def buffer_max_size_def
  let ?es = "[Internal, Internal, Came [7], Internal, Delivered (Moved [7] 0)]"
  have steps: "tcp_step (at [0, 0] 0 0 0 Reader_idle) Internal (at [0, 0] 0 0 0 Reader_ready)"
      "tcp_step (at [0, 0] 0 0 0 Reader_ready) Internal (at [0, 0] 0 0 0 (Asking 2))"
      "tcp_step (at [0, 0] 0 0 0 (Asking 2)) (Came [7]) (at [7, 0] 0 0 0 (Received 1))"
      "tcp_step (at [7, 0] 0 0 0 (Received 1)) Internal (at [7, 0] 1 1 0 Reader_idle)"
      "tcp_step (at [7, 0] 1 1 0 Reader_idle) (Delivered (Moved [7] 0)) (at [7, 0] 1 0 1 Reader_idle)"
    using tcp_step.passes [of "at [0, 0] 0 0 0 Reader_idle"]
      tcp_step.asks [of "at [0, 0] 0 0 0 Reader_ready" "desc (at [0, 0] 0 0 0 Reader_ready)"]
      tcp_step.receives [of "at [0, 0] 0 0 0 (Asking 2)" 2 "[7]" "desc (at [7, 0] 0 0 0 Reader_idle)"]
      tcp_step.counts [of "at [7, 0] 0 0 0 (Received 1)" 1]
      tcp_step.reads [of "at [7, 0] 1 1 0 Reader_idle" 1 "Moved [7] 0" "desc (at [7, 0] 1 0 1 Reader_idle)"]
    by (simp_all add: ops reader_waits_def wrap_eoq_def bytes_to_request_def STANDARD_PACKET_SIZE_def recv_bytes_def
        count_bytes_def read_must_wait_def read_move_def rd_block_def wr_block_def Let_def numeral_2_eq_2)
  have "runs tcp_step (at [0, 0] 0 0 0 Reader_idle) ?es (at [7, 0] 1 0 1 Reader_idle)"
    by (rule runs.intros steps)+
  then have "runs tcp_step (tcp_start [0, 0]) ?es (at [7, 0] 1 0 1 Reader_idle)"
    by (simp add: tcp_start_def at_def)
  then show ?thesis
    using buffered_bytes_in_order [of "[0, 0]" ?es "at [7, 0] 1 0 1 Reader_idle"] by auto
qed

text \<open>
  The wait of \<open>buffered_read\<close> ends when there are bytes or an error, and not when the connection closes.
  So there is one state in which both threads wait for ever.
\<close>

definition both_wait_for_ever :: "tcp_state \<Rightarrow> bool" where
  "both_wait_for_ever s \<longleftrightarrow> reader s = Reader_idle \<and> (\<exists>n. player s = Player_waiting n) \<and>
     closed (desc s) \<and> buffer_occupancy (desc s) = 0 \<and> error_code (desc s) = 0"

lemma read_move_returns:
  assumes "desc_ok d"
  shows "\<exists>r d'. read_move n d = Some (r, d')"
proof -
  define m where "m = min (min n (buffer_occupancy d)) (buffer_max_size d - toq d)"
  have m: "(let n = (if buffer_occupancy d < n then buffer_occupancy d else n); g = buffer_max_size d - toq d
      in if g < n then g else n) = m" by (simp add: m_def min_def Let_def)
  have "toq d + m \<le> length (tcp_buffer d)"
    using assms by (auto simp: m_def desc_ok_def buffer_max_size_def)
  then show ?thesis using m by (simp add: read_move_def rd_block_def Let_def)
qed

lemma reader_can_step:
  assumes "reader s \<noteq> Reader_idle \<or> \<not> reader_waits (desc s)"
  shows "\<exists>e s'. tcp_step s e s'"
  using assms by (cases "reader s") (auto intro: tcp_step.intros)

lemma player_can_step:
  assumes "desc_ok (desc s)" and "player s = Player_idle \<or> \<not> read_still_waits (desc s)"
  shows "\<exists>e s'. tcp_step s e s'"
proof (cases "player s")
  case Player_idle
  then show ?thesis using read_move_returns [OF assms(1)] tcp_step.reads tcp_step.waits by metis
next
  case (Player_waiting n)
  then show ?thesis using read_move_returns [OF assms(1)] tcp_step.wakes assms(2) by (metis player_state.distinct(1))
qed



end
