(* ===== verification/Rtp_Clock.thy ===== *)
theory Rtp_Clock
  imports Player_State Complex_Main "HOL-Library.Signed_Division"
begin

text \<open>
  Frames and times (\<open>rtp.c\<close>, \<open>ptp-utilities.c\<close>). The anchor is a frame and the time at which the client plays
  it; with it frame numbers become local times and local times frame numbers. An AirPlay 1 client has a
  clock of its own, whose difference to the local clock the timing packets measure; an AirPlay 2 client
  uses the master clock of the network, which the NQPTP process writes into a shared record.

  A \<open>double\<close> is the rational number it stands for; its rounding is not modelled. Signed 64-bit
  arithmetic is on integers, and a product that does not fit is \<open>None\<close>, undefined behaviour in C. The
  local time, \<open>get_absolute_time_in_ns()\<close>, is an argument \<open>now\<close>. The lock around the anchor makes each
  function one step.
\<close>

section \<open>The state\<close>

datatype timing_t = Ts_ntp | Ts_ptp
datatype clock_status_t = Clock_no_anchor_info | Clock_ok | Clock_service_unavailable | Clock_access_error |
  Clock_data_unavailable | Clock_no_master | Clock_version_mismatch | Clock_not_synchronised |
  Clock_not_valid | Clock_not_ready

record time_ping_record =
  dispersion :: u64
  ping_local_time :: u64
  remote_time :: u64
  ping_number :: int
  chosen :: bool

text \<open>The part of the connection that the receivers keep; \<open>sound\<close> is the part of the player.\<close>

record rtp_conn =
  sound :: rtsp_conn
  timing_type :: timing_t
  rtsp_link_is_idle :: bool
  AirPlayVersion :: int
  minimum_latency :: u32
  maximum_latency :: u32
  anchor_remote_info_is_valid :: bool
  anchor_clock :: u64
  anchor_time :: u64
  anchor_rtptime :: u32
  clock_status :: clock_status_t
  last_anchor_info_is_valid :: bool
  last_anchor_rtptime :: u32
  last_anchor_local_time :: u64
  last_anchor_time_of_update :: u64
  last_anchor_validity_start_time :: u64
  latency_delayed_timestamp :: i64
  remote_frame_rate :: rat
  reference_to_previous_frame_difference :: i64
  reference_to_previous_time_difference :: u64
  udp_clock_is_initialised :: bool
  udp_clock_sender_is_initialised :: bool
  time_ping_count :: nat
  time_pings :: "time_ping_record list"
  departure_time :: u64
  local_to_remote_time_gradient :: rat
  local_to_remote_time_gradient_sample_count :: nat
  local_to_remote_time_difference :: u64
  local_to_remote_time_difference_measurement_time :: u64
  rtp_running :: bool
  rtp_time_of_last_resend_request_error_ns :: u64

definition conn_input_rate :: "rtp_conn \<Rightarrow> u32" where
  "conn_input_rate c = input_rate (sound c)"

section \<open>The clock of an AirPlay 1 client\<close>

definition local_to_remote_time_difference_now :: "u64 \<Rightarrow> rtp_conn \<Rightarrow> u64" where
  "local_to_remote_time_difference_now now c =
     (let passed = of_nat (unat (now - local_to_remote_time_difference_measurement_time c));
          g = local_to_remote_time_gradient c
      in if 1 \<le> g
         then local_to_remote_time_difference c + of_int \<lfloor>(g - 1) * passed\<rfloor>
         else local_to_remote_time_difference c - of_int \<lfloor>(1 - g) * passed\<rfloor>)"

definition reset_ntp_anchor_info :: "rtp_conn \<Rightarrow> rtp_conn" where
  "reset_ntp_anchor_info c = c\<lparr>anchor_remote_info_is_valid := False, anchor_rtptime := 0, anchor_time := 0\<rparr>"

definition have_ntp_timing_information :: "rtp_conn \<Rightarrow> bool" where
  "have_ntp_timing_information c = anchor_remote_info_is_valid c"

definition i64_of :: "int \<Rightarrow> int option" where
  "i64_of x = (if - (2 ^ 63) \<le> x \<and> x < 2 ^ 63 then Some x else None)"

text \<open>The results: \<open>None\<close> is the return value -1, with nothing written.\<close>

definition frame_to_ntp_local_time :: "u64 \<Rightarrow> u32 \<Rightarrow> rtp_conn \<Rightarrow> u64 option" where
  "frame_to_ntp_local_time now timestamp c =
     (if anchor_remote_info_is_valid c
      then (let timestamp_interval = sint (timestamp - anchor_rtptime c);
                timestamp_interval_time = (timestamp_interval * 1000000000) sdiv 44100;
                remote_time_of_timestamp = anchor_time c + of_int timestamp_interval_time
            in Some (remote_time_of_timestamp - local_to_remote_time_difference_now now c))
      else None)"

definition local_ntp_time_to_frame :: "u64 \<Rightarrow> u64 \<Rightarrow> rtp_conn \<Rightarrow> u32 option option" where
  "local_ntp_time_to_frame now time c =
     (if anchor_remote_info_is_valid c
      then (let remote_time = time + local_to_remote_time_difference_now now c;
                offset = sint (remote_time - anchor_time c)
            in do { scaled \<leftarrow> i64_of (offset * 44100);
                    Some (Some (anchor_rtptime c + of_int (scaled sdiv 1000000000))) })
      else Some None)"

section \<open>The master clock of an AirPlay 2 client\<close>

record shm_structure =
  version :: u16
  master_clock_id :: u64
  shm_local_time :: u64
  local_to_master_time_offset :: u64
  master_clock_start_time :: u64

record clock_info =
  actual_clock_id :: u64
  time_of_sample :: u64
  raw_offset :: u64
  mastership_start_time :: u64

definition no_clock_info :: clock_info where
  "no_clock_info = \<lparr>actual_clock_id = 0, time_of_sample = 0, raw_offset = 0, mastership_start_time = 0\<rparr>"

definition NQPTP_SHM_STRUCTURES_VERSION :: u16 where "NQPTP_SHM_STRUCTURES_VERSION = 9"

text \<open>The shared record, when it is mapped.\<close>

definition ptp_get_clock_info :: "shm_structure option \<Rightarrow> clock_status_t \<times> clock_info" where
  "ptp_get_clock_info shm =
     (case shm of
        None \<Rightarrow> (Clock_data_unavailable, no_clock_info)
      | Some d \<Rightarrow>
          if version d = NQPTP_SHM_STRUCTURES_VERSION
          then if master_clock_id d \<noteq> 0
               then (Clock_ok,
                     \<lparr>actual_clock_id = master_clock_id d, time_of_sample = shm_local_time d,
                      raw_offset = local_to_master_time_offset d,
                      mastership_start_time = master_clock_start_time d\<rparr>)
               else (Clock_no_master, no_clock_info)
          else if version d = 0 then (Clock_service_unavailable, no_clock_info)
          else (Clock_version_mismatch, no_clock_info))"

text \<open>
  A new anchor from the client. The messages it prints, and the look at the clock for one of them, are
  left out.
\<close>

definition set_ptp_anchor_info :: "u64 \<Rightarrow> u64 \<Rightarrow> u32 \<Rightarrow> u64 \<Rightarrow> rtp_conn \<Rightarrow> rtp_conn" where
  "set_ptp_anchor_info now clock_id rtptime networktime c =
     (let c = (if clock_id = anchor_clock c \<and> (anchor_rtptime c \<noteq> rtptime \<or> anchor_time c \<noteq> networktime) \<and>
                  sint (now - last_anchor_validity_start_time c) < 5000000000
               then c\<lparr>last_anchor_info_is_valid := False\<rparr> else c)
      in c\<lparr>anchor_remote_info_is_valid := True, anchor_rtptime := rtptime, anchor_time := networktime,
           anchor_clock := clock_id\<rparr>)"

definition reset_ptp_anchor_info :: "rtp_conn \<Rightarrow> rtp_conn" where
  "reset_ptp_anchor_info c = c\<lparr>last_anchor_info_is_valid := False, anchor_remote_info_is_valid := False\<rparr>"

text \<open>
  The anchor in local time. While the master clock is the anchor's clock, it is taken from the
  anchor; when another clock becomes master, the last one stays in use, and after five seconds the anchor is
  rewritten in terms of the new clock. \<open>later\<close> is the second reading of the local time.
\<close>

definition use_anchor :: "u64 \<Rightarrow> clock_info \<Rightarrow> rtp_conn \<Rightarrow> rtp_conn" where
  "use_anchor now info c =
     (let start = (if last_anchor_info_is_valid c then last_anchor_validity_start_time c
                   else mastership_start_time info)
      in c\<lparr>last_anchor_rtptime := anchor_rtptime c, last_anchor_local_time := anchor_time c - raw_offset info,
           last_anchor_time_of_update := now, last_anchor_validity_start_time := start,
           last_anchor_info_is_valid := True\<rparr>)"

definition change_clock :: "u64 \<Rightarrow> clock_info \<Rightarrow> rtp_conn \<Rightarrow> rtp_conn" where
  "change_clock later info c =
     (if sint (later - last_anchor_time_of_update c) > 5000000000
      then c\<lparr>anchor_time := last_anchor_local_time c + raw_offset info, anchor_clock := actual_clock_id info\<rparr>
      else c)"

definition get_ptp_anchor_local_time_info ::
    "shm_structure option \<Rightarrow> u64 \<Rightarrow> u64 \<Rightarrow> rtp_conn \<Rightarrow> clock_status_t \<times> (u32 \<times> u64) option \<times> rtp_conn" where
  "get_ptp_anchor_local_time_info shm now later c =
     (let (response, c) =
        (if rtsp_link_is_idle c then (Clock_not_valid, c)
         else case ptp_get_clock_info shm of (response, info) \<Rightarrow>
           if response \<noteq> Clock_ok then (response, c)
           else if \<not> anchor_remote_info_is_valid c then (Clock_no_anchor_info, c)
           else if actual_clock_id info = anchor_clock c then (response, use_anchor now info c)
           else if last_anchor_info_is_valid c then (response, change_clock later info c)
           else (Clock_not_valid, c));
        c = c\<lparr>clock_status := response\<rparr>
      in (response,
          if last_anchor_info_is_valid c then Some (last_anchor_rtptime c, last_anchor_local_time c) else None, c))"

definition have_ptp_timing_information :: "shm_structure option \<Rightarrow> u64 \<Rightarrow> u64 \<Rightarrow> rtp_conn \<Rightarrow> bool \<times> rtp_conn" where
  "have_ptp_timing_information shm now later c =
     (case get_ptp_anchor_local_time_info shm now later c of (response, _, c) \<Rightarrow> (response = Clock_ok, c))"

text \<open>
  The caller's anchor is (0, 0) when nothing is written into it. The outer \<open>None\<close> of the results is a
  frame rate of zero, where the program stops, or an overflow.
\<close>

definition anchor_or_zero :: "(u32 \<times> u64) option \<Rightarrow> u32 \<times> u64" where
  "anchor_or_zero a = (case a of None \<Rightarrow> (0, 0) | Some p \<Rightarrow> p)"

definition frame_to_ptp_local_time ::
    "shm_structure option \<Rightarrow> u64 \<Rightarrow> u64 \<Rightarrow> u32 \<Rightarrow> rtp_conn \<Rightarrow> (u64 option \<times> rtp_conn) option" where
  "frame_to_ptp_local_time shm now later timestamp c =
     (case get_ptp_anchor_local_time_info shm now later c of (response, anchor, c) \<Rightarrow>
        if response = Clock_ok
        then (let (anchor_rtp, anchor_local) = anchor_or_zero anchor;
                  time_difference = sint (timestamp - anchor_rtp) * 1000000000
              in if conn_input_rate c = 0 then None
                 else Some (Some (anchor_local + of_int (time_difference sdiv uint (conn_input_rate c))), c))
        else Some (None, c))"

definition local_ptp_time_to_frame ::
    "shm_structure option \<Rightarrow> u64 \<Rightarrow> u64 \<Rightarrow> u64 \<Rightarrow> rtp_conn \<Rightarrow> (u32 option \<times> rtp_conn) option" where
  "local_ptp_time_to_frame shm now later time c =
     (case get_ptp_anchor_local_time_info shm now later c of (response, anchor, c) \<Rightarrow>
        if response = Clock_ok
        then (let (anchor_rtp, anchor_local) = anchor_or_zero anchor
              in do { scaled \<leftarrow> i64_of (sint (time - anchor_local) * uint (conn_input_rate c));
                      Some (Some (anchor_rtp + of_int (scaled sdiv 1000000000)), c) })
        else Some (None, c))"

section \<open>By the type of the client\<close>

definition frame_to_local_time ::
    "shm_structure option \<Rightarrow> u64 \<Rightarrow> u64 \<Rightarrow> u32 \<Rightarrow> rtp_conn \<Rightarrow> (u64 option \<times> rtp_conn) option" where
  "frame_to_local_time shm now later timestamp c =
     (case timing_type c of
        Ts_ptp \<Rightarrow> frame_to_ptp_local_time shm now later timestamp c
      | Ts_ntp \<Rightarrow> Some (frame_to_ntp_local_time now timestamp c, c))"

definition local_time_to_frame ::
    "shm_structure option \<Rightarrow> u64 \<Rightarrow> u64 \<Rightarrow> u64 \<Rightarrow> rtp_conn \<Rightarrow> (u32 option \<times> rtp_conn) option" where
  "local_time_to_frame shm now later time c =
     (case timing_type c of
        Ts_ptp \<Rightarrow> local_ptp_time_to_frame shm now later time c
      | Ts_ntp \<Rightarrow> map_option (\<lambda>r. (r, c)) (local_ntp_time_to_frame now time c))"

definition reset_anchor_info :: "rtp_conn \<Rightarrow> rtp_conn" where
  "reset_anchor_info c =
     (case timing_type c of Ts_ptp \<Rightarrow> reset_ptp_anchor_info c | Ts_ntp \<Rightarrow> reset_ntp_anchor_info c)"

definition have_timestamp_timing_information ::
    "shm_structure option \<Rightarrow> u64 \<Rightarrow> u64 \<Rightarrow> rtp_conn \<Rightarrow> bool \<times> rtp_conn" where
  "have_timestamp_timing_information shm now later c =
     (case timing_type c of
        Ts_ptp \<Rightarrow> have_ptp_timing_information shm now later c
      | Ts_ntp \<Rightarrow> (have_ntp_timing_information c, c))"

end
