(* ===== verification/Buffered_Blocks.thy ===== *)
theory Buffered_Blocks
  imports Player_Samples Rtp_Clock
begin

text \<open>
  The blocks of buffered audio (\<open>rtp.c\<close>): reading one from the ring of the connection, deciphering it and
  decoding it into the PCM buffer of \<open>rtp_buffered_audio_processor\<close>. Libsodium and FFmpeg are arguments.
\<close>

section \<open>Reading from the ring\<close>

text \<open>
  What the reads of the thread find: the pieces that are in the ring, one after the other, and then the
  closed or broken connection, which stays as it is. Waiting for a piece is not a result of a read.
\<close>

datatype socket_end = Peer_closed | Broken int

record source =
  pieces :: "bytes list"
  ending :: socket_end

fun take_piece :: "nat \<Rightarrow> bytes list \<Rightarrow> bytes \<times> bytes list" where
  "take_piece count [] = ([], [])"
| "take_piece count (c # cs) =
     (if c = [] then take_piece count cs
      else (take count c, if length c \<le> count then cs else drop count c # cs))"

definition ring_read :: "nat \<Rightarrow> source \<Rightarrow> int \<times> bytes \<times> source" where
  "ring_read count src =
     (if concat (pieces src) = []
      then (case ending src of Peer_closed \<Rightarrow> (0, [], src) | Broken e \<Rightarrow> (- 1, [], src))
      else let (s, cs) = take_piece count (pieces src) in (int (length s), s, src\<lparr>pieces := cs\<rparr>))"

text \<open>The values of Linux for the errors the read is repeated after.\<close>

definition retryable :: "socket_end \<Rightarrow> bool" where
  "retryable e \<longleftrightarrow> e = Broken 104 \<or> e = Broken 11 \<or> e = Broken 4"

text \<open>
  \<open>lread_sized_block\<close> into the block \<open>buf\<close>: the response, the block and the ring; \<open>None\<close> when more is read than the
  block holds, and when the loop does not end.
\<close>

partial_function (option) read_loop :: "nat \<Rightarrow> bytes \<Rightarrow> nat \<Rightarrow> source \<Rightarrow> (int \<times> bytes \<times> source) option" where
  "read_loop count buf inbuf src =
     (case ring_read (count - inbuf) src of
        (nread, s, src) \<Rightarrow>
          (case wr_block buf inbuf s of
             None \<Rightarrow> None
           | Some buf \<Rightarrow>
               let inbuf = inbuf + length s;
                   keep_trying = (if nread = 0 then False else if nread < 0 then retryable (ending src) else True)
               in if keep_trying \<and> inbuf < count then read_loop count buf inbuf src
                  else Some (if nread \<le> 0 then nread else int inbuf, buf, src)))"

definition lread_sized_block :: "bytes \<Rightarrow> nat \<Rightarrow> source \<Rightarrow> (int \<times> bytes \<times> source) option" where
  "lread_sized_block buf count src = read_loop count buf 0 src"

text \<open>\<open>data_len - 2\<close> is an \<open>int\<close> that becomes a \<open>size_t\<close>.\<close>

definition payload_size :: "u16 \<Rightarrow> nat" where
  "payload_size data_len = unat (word_of_int (uint data_len - 2) :: u64)"

text \<open>
  The two reads of a block. When the first fails or finds the end, so does the second, whatever length it
  asks for.
\<close>

definition read_block :: "bytes \<Rightarrow> source \<Rightarrow> (int \<times> bytes \<times> source) option" where
  "read_block packet src =
     do { (nread, len, src) \<leftarrow> lread_sized_block [0, 0] 2 src;
          if nread \<le> 0 then Some (nread, packet, src)
          else lread_sized_block packet (payload_size (word_of_int (uint (len ! 0) * 256 + uint (len ! 1)))) src }"

section \<open>The state of the thread\<close>

record processor =
  pcm_buffer :: bytes
  pcm_buffer_size :: int
  pcm_buffer_occupancy :: nat
  pcm_buffer_read_point :: nat
  pcm_buffer_read_point_rtptime :: u32
  pcm_buffer_read_point_rtptime_offset :: u32
  packet :: bytes
  block_seq_no :: u32
  new_buffer_needed :: bool
  blocks_read :: u64
  blocks_read_in_sequence :: u64
  flushing :: bool
  packets_played_in_this_sequence :: nat
  play_enabled :: bool
  flush_from_timestamp :: u32
  silence :: dither_state

text \<open>The bytes of a frame as the decoder's output is converted.\<close>

fun decoded_bytes_per_frame :: "sps_format \<Rightarrow> nat" where
  "decoded_bytes_per_frame SPS_FORMAT_S32 = 8"
| "decoded_bytes_per_frame SPS_FORMAT_S32_LE = 8"
| "decoded_bytes_per_frame SPS_FORMAT_S32_BE = 8"
| "decoded_bytes_per_frame SPS_FORMAT_S24 = 8"
| "decoded_bytes_per_frame SPS_FORMAT_S24_LE = 8"
| "decoded_bytes_per_frame SPS_FORMAT_S24_BE = 8"
| "decoded_bytes_per_frame SPS_FORMAT_S24_3LE = 8"
| "decoded_bytes_per_frame SPS_FORMAT_S24_3BE = 8"
| "decoded_bytes_per_frame SPS_FORMAT_U8 = 2"
| "decoded_bytes_per_frame _ = 4"

section \<open>Decoding\<close>

text \<open>
  The decoder keeps a state; what it is given is parsed into packets, and a packet sent to it may give
  frames, which are converted to PCM.
\<close>

datatype received = Frame bytes | No_more | Decode_error int

record 'c decoder =
  av_parser_parse2 :: "'c \<Rightarrow> bytes \<Rightarrow> 'c \<times> int \<times> bytes"
  avcodec_send_packet :: "'c \<Rightarrow> bytes \<Rightarrow> 'c \<times> int"
  avcodec_receive_frame :: "'c \<Rightarrow> 'c \<times> received"
  chacha20poly1305_decrypt :: "bytes \<Rightarrow> bytes \<Rightarrow> bytes \<Rightarrow> bytes \<Rightarrow> bytes option"
  decoded_format :: sps_format

definition frame_bytes :: "'c decoder \<Rightarrow> nat" where
  "frame_bytes D = decoded_bytes_per_frame (decoded_format D)"

text \<open>
  The bytes of a frame that are kept: a delayed flush cuts the frame in which it starts. \<open>None\<close> is a product that
  does not fit an \<open>int\<close>.
\<close>

definition kept_bytes :: "'c decoder \<Rightarrow> bool \<Rightarrow> processor \<Rightarrow> nat \<Rightarrow> nat option" where
  "kept_bytes D flush_is_delayed p dst_bufsize =
     (let samples_remaining = sint (flush_from_timestamp p - pcm_buffer_read_point_rtptime p);
          wanted = samples_remaining * int (frame_bytes D)
      in if flush_is_delayed \<and> 0 < samples_remaining
         then if wanted < 2 ^ 31 then Some (if wanted < int dst_bufsize then nat wanted else dst_bufsize) else None
         else Some dst_bufsize)"

text \<open>
  A buffer that is too small is only said to be larger; its \<open>None\<close> is a copy behind the end of it.
\<close>

definition add_frame :: "'c decoder \<Rightarrow> bool \<Rightarrow> bytes \<Rightarrow> processor \<Rightarrow> processor option" where
  "add_frame D flush_is_delayed pcm p =
     do { dst_bufsize \<leftarrow> kept_bytes D flush_is_delayed p (length pcm);
          if pcm_buffer_size p - int (pcm_buffer_occupancy p) < int dst_bufsize
          then Some (p\<lparr>pcm_buffer_size := int (dst_bufsize + pcm_buffer_occupancy p)\<rparr>)
          else do { b \<leftarrow> wr_block (pcm_buffer p) (pcm_buffer_occupancy p) (take dst_bufsize pcm);
                    Some (p\<lparr>pcm_buffer := b, pcm_buffer_occupancy := pcm_buffer_occupancy p + dst_bufsize\<rparr>) } }"

partial_function (option) receive_loop ::
    "'c decoder \<Rightarrow> bool \<Rightarrow> 'c \<Rightarrow> processor \<Rightarrow> ('c \<times> processor) option" where
  "receive_loop D flush_is_delayed c p =
     (case avcodec_receive_frame D c of
        (c, Frame pcm) \<Rightarrow>
          (case add_frame D flush_is_delayed pcm p of None \<Rightarrow> None | Some p \<Rightarrow> receive_loop D flush_is_delayed c p)
      | (c, No_more) \<Rightarrow> Some (c, p)
      | (c, Decode_error e) \<Rightarrow> Some (c, p))"

text \<open>A parse that fails leaves the data as they are; a packet of at most seven bytes is not sent.\<close>

partial_function (option) decode_loop ::
    "'c decoder \<Rightarrow> bool \<Rightarrow> bytes \<Rightarrow> 'c \<Rightarrow> processor \<Rightarrow> ('c \<times> processor) option" where
  "decode_loop D flush_is_delayed data c p =
     (if data = [] then Some (c, p)
      else case av_parser_parse2 D c data of
        (c, ret, pkt) \<Rightarrow>
          if ret < 0 then decode_loop D flush_is_delayed data c p
          else let data = drop (nat ret) data
               in if length pkt \<le> 7 then decode_loop D flush_is_delayed data c p
                  else case avcodec_send_packet D c pkt of
                    (c, ret) \<Rightarrow>
                      if ret < 0 then decode_loop D flush_is_delayed data c p
                      else (case receive_loop D flush_is_delayed c p of
                              None \<Rightarrow> None
                            | Some (c, p) \<Rightarrow> decode_loop D flush_is_delayed data c p))"

definition addADTStoPacket :: "int \<Rightarrow> bytes" where
  "addADTStoPacket packetLen =
     (let profile = 2; freqIdx = 4; chanCfg = 2 :: int
      in map word_of_int
          [0xFF, 0xF9, push_bit 6 (profile - 1) + push_bit 2 freqIdx + drop_bit 2 chanCfg,
           push_bit 6 (chanCfg AND 3) + drop_bit 11 packetLen, drop_bit 3 (packetLen AND 0x7FF),
           push_bit 5 (packetLen AND 7) + 0x1F, 0xFC])"

text \<open>
  A block of \<open>nread\<close> bytes: the last eight are the end of the nonce, eight bytes of the head are authenticated,
  and the ciphertext with its tag starts behind 12. \<open>m\<close> has 16,384 bytes. The result is \<open>None\<close> where the lengths
  leave the block.
\<close>

definition decipher_block :: "'c decoder \<Rightarrow> bytes \<Rightarrow> nat \<Rightarrow> bytes \<Rightarrow> bytes option option" where
  "decipher_block D key nread block =
     (if nread < 20 then None
      else do { tail \<leftarrow> rd_block block (nread - 8) 8;
                ad \<leftarrow> rd_block block 4 8;
                c \<leftarrow> rd_block block 12 (nread - 20);
                case chacha20poly1305_decrypt D key (replicate 4 0 @ tail) ad c of
                  None \<Rightarrow> Some None
                | Some m \<Rightarrow> if length m + 7 \<le> 16384 then Some (Some m) else None })"

definition decode_block ::
    "'c decoder \<Rightarrow> bytes option \<Rightarrow> bool \<Rightarrow> nat \<Rightarrow> 'c \<Rightarrow> processor \<Rightarrow> ('c \<times> processor) option" where
  "decode_block D session_key flush_is_delayed nread c p =
     (case session_key of
        None \<Rightarrow> Some (c, p)
      | Some key \<Rightarrow>
          do { response \<leftarrow> decipher_block D key nread (packet p);
               case response of
                 None \<Rightarrow> Some (c, p)
               | Some m \<Rightarrow> decode_loop D flush_is_delayed (addADTStoPacket (int (length m) + 7) @ m) c p })"

end
