(* ===== verification/Rtp_Timing.thy ===== *)
theory Rtp_Timing
  imports Rtp_Clock
begin

text \<open>
  The timing exchange of AirPlay 1 (\<open>rtp_timing_sender\<close> and \<open>rtp_timing_receiver\<close> of \<open>rtp.c\<close>). A reply to a
  request gives one measurement of the difference between the clocks, a ping; its dispersion is the
  time the network took. Of the last 128 pings, whose dispersions grow with age, the one with the least is
  used; once nine such have been used after the settling time, the line through them gives the drift.

  Running averages that are only printed are left out. The counter of replies does not wrap.
\<close>

section \<open>Packets\<close>

text \<open>
  \<open>recv\<close> into the thread's buffer: the bytes of the packet, as far as the buffer goes; behind them stands
  what earlier packets left there.
\<close>

definition recv_into :: "bytes \<Rightarrow> bytes \<Rightarrow> bytes" where
  "recv_into buf packet =
     take (length buf) packet @ drop (length packet) buf"

lemma length_recv_into [simp]: "length (recv_into buf packet) = length buf"
  by (simp add: recv_into_def)

text \<open>A time in the format of NTP: seconds and a binary fraction, in nanoseconds.\<close>

definition ntp_nanoseconds :: "bytes \<Rightarrow> nat \<Rightarrow> u64 option" where
  "ntp_nanoseconds p i =
     do { s \<leftarrow> nctohl p i;
          f \<leftarrow> nctohl p (i + 4);
          Some (ucast s * 1000000000 + drop_bit 32 (ucast f * 1000000000)) }"

section \<open>Requests\<close>

definition timing_request :: bytes where
  "timing_request = [0x80, 0xd2] @ htons_bytes 7 @ replicate 28 0"

text \<open>
  One round of the sender: the packet sent, if any, and the number of microseconds to sleep. \<open>simulate_loss\<close>
  is the answer of the random generator that drops packets for diagnosis.
\<close>

definition timing_send :: "u64 \<Rightarrow> bool \<Rightarrow> u64 \<times> rtp_conn \<Rightarrow> bytes option \<times> nat \<times> u64 \<times> rtp_conn" where
  "timing_send now simulate_loss st =
     (let (request_number, c) = st
      in if rtsp_link_is_idle c then (None, 100000, request_number, c)
         else (let (request_number, c) =
                 (if udp_clock_sender_is_initialised c then (request_number, c)
                  else (0, c\<lparr>udp_clock_sender_is_initialised := True\<rparr>));
                 c = c\<lparr>departure_time := now\<rparr>;
                 request_number = request_number + 1
               in (if simulate_loss then None else Some timing_request,
                   if request_number \<le> 3 then 300000 else 3000000, request_number, c)))"

section \<open>The history of pings\<close>

definition time_ping_history_power_of_two :: nat where "time_ping_history_power_of_two = 7"
definition time_ping_history :: nat where "time_ping_history = 128"

text \<open>\<open>(uint64_t)(pow(10, log10(10) / 128) * 100)\<close>.\<close>

definition dispersion_factor :: u64 where "dispersion_factor = 101"

lemma dispersion_factor_root:
  "unat dispersion_factor ^ time_ping_history \<le> 10 * 100 ^ time_ping_history"
  "10 * 100 ^ time_ping_history < (unat dispersion_factor + 1) ^ time_ping_history"
  by (simp_all add: dispersion_factor_def time_ping_history_def)

definition age_ping :: "time_ping_record \<Rightarrow> time_ping_record" where
  "age_ping p =
     (if dispersion p > (- 1) div dispersion_factor then p
      else p\<lparr>dispersion := (dispersion p * dispersion_factor) div 100\<rparr>)"

text \<open>The loop that moves every ping one place on, from the last place down to \<open>cc = 1\<close>.\<close>

fun shift_pings :: "nat \<Rightarrow> time_ping_record list \<Rightarrow> time_ping_record list" where
  "shift_pings 0 ps = ps"
| "shift_pings (Suc cc) ps = shift_pings cc (ps[Suc cc := age_ping (ps ! cc)])"

text \<open>The first of the pings with the least dispersion.\<close>

definition pick_step :: "time_ping_record list \<Rightarrow> nat \<Rightarrow> nat \<Rightarrow> nat" where
  "pick_step ps cc best = (if dispersion (ps ! cc) < dispersion (ps ! best) then cc else best)"

definition least_dispersed :: "nat \<Rightarrow> time_ping_record list \<Rightarrow> nat" where
  "least_dispersed n ps = fold (pick_step ps) [1..<n] 0"

section \<open>The drift\<close>

definition settling_time :: int where "settling_time = 60"
definition sample_point_minimum :: nat where "sample_point_minimum = 8"

text \<open>The pings of the line: the ones used for timing after the settling time.\<close>

definition is_sample :: "time_ping_record \<Rightarrow> bool" where
  "is_sample p \<longleftrightarrow> chosen p \<and> ping_number p > settling_time div 3"

definition samples :: "rtp_conn \<Rightarrow> time_ping_record list" where
  "samples c = filter is_sample (take (time_ping_count c) (time_pings c))"

definition scaled_down :: "u64 \<Rightarrow> u64" where
  "scaled_down x = drop_bit time_ping_history_power_of_two x"

definition mean_of :: "(time_ping_record \<Rightarrow> u64) \<Rightarrow> time_ping_record list \<Rightarrow> u64" where
  "mean_of g ps = (\<Sum>p\<leftarrow>ps. scaled_down (g p)) div of_nat (length ps)"

definition distance_from :: "u64 \<Rightarrow> u64 \<Rightarrow> int" where
  "distance_from bar x = (if x > bar then sint (x - bar) else sint (- (bar - x)))"

definition fit_line :: "rtp_conn \<Rightarrow> rtp_conn" where
  "fit_line c =
     (let ps = samples c;
          y_bar = mean_of remote_time ps;
          x_bar = mean_of ping_local_time ps;
          xid = (\<lambda>p. rat_of_int (distance_from x_bar (scaled_down (ping_local_time p))));
          yid = (\<lambda>p. rat_of_int (distance_from y_bar (scaled_down (remote_time p))));
          mtl = (\<Sum>p\<leftarrow>ps. xid p * yid p);
          mbl = (\<Sum>p\<leftarrow>ps. xid p * xid p);
          g = (if mbl \<noteq> 0 then mtl / mbl else local_to_remote_time_gradient c);
          ybf = push_bit time_ping_history_power_of_two y_bar;
          xbf = push_bit time_ping_history_power_of_two x_bar
      in c\<lparr>local_to_remote_time_gradient := g, local_to_remote_time_difference := ybf - xbf,
           local_to_remote_time_difference_measurement_time := xbf\<rparr>)"

section \<open>Replies\<close>

text \<open>The new ping: where it stands among the old ones, and what it changes.\<close>

definition add_ping :: "time_ping_record \<Rightarrow> rtp_conn \<Rightarrow> rtp_conn" where
  "add_ping p c =
     c\<lparr>time_pings := (shift_pings (time_ping_history - 1) (time_pings c))[0 := p],
       time_ping_count := (if time_ping_count c < time_ping_history then time_ping_count c + 1 else time_ping_count c)\<rparr>"

definition choose_ping :: "rtp_conn \<Rightarrow> rtp_conn" where
  "choose_ping c =
     (let i = least_dispersed (time_ping_count c) (time_pings c);
          p = time_pings c ! i
      in c\<lparr>time_pings := (time_pings c)[i := p\<lparr>chosen := True\<rparr>],
           local_to_remote_time_difference := remote_time p - ping_local_time p,
           local_to_remote_time_difference_measurement_time := ping_local_time p\<rparr>)"

definition estimate_drift :: "rtp_conn \<Rightarrow> rtp_conn" where
  "estimate_drift c =
     (let n = length (samples c);
          c = c\<lparr>local_to_remote_time_gradient_sample_count := n\<rparr>
      in if n > sample_point_minimum then fit_line c else c)"

text \<open>
  A timing reply in the buffer, arrived at \<open>arrival_time\<close>: the counter of replies and the connection after it.
\<close>

definition ping_of :: "u64 \<Rightarrow> u64 \<Rightarrow> u64 \<Rightarrow> u64 \<Rightarrow> int \<Rightarrow> time_ping_record" where
  "ping_of arrival_time return_time distant_receive_time distant_transmit_time number =
     (let remote_processing_time =
            (if distant_transmit_time \<ge> distant_receive_time then distant_transmit_time - distant_receive_time else 0);
          return_time = (if remote_processing_time < return_time then return_time - remote_processing_time
                         else return_time)
      in \<lparr>dispersion = return_time, ping_local_time = arrival_time,
          remote_time = distant_transmit_time + return_time div 2, ping_number = number, chosen = False\<rparr>)"

definition timing_reply :: "u64 \<Rightarrow> bytes \<Rightarrow> int \<times> rtp_conn \<Rightarrow> (int \<times> rtp_conn) option" where
  "timing_reply arrival_time packet st =
     (let (sequence_number, c) = st; return_time = arrival_time - departure_time c
      in if return_time < 200000000
         then do { distant_receive_time \<leftarrow> ntp_nanoseconds packet 16;
                   distant_transmit_time \<leftarrow> ntp_nanoseconds packet 24;
                   let p = ping_of arrival_time return_time distant_receive_time distant_transmit_time sequence_number;
                   Some (sequence_number + 1, estimate_drift (choose_ping (add_ping p c))) }
         else Some st)"

text \<open>
  One round of the receiver. \<open>received\<close> is \<open>None\<close> when \<open>recv\<close> fails; the packet goes into the thread's
  buffer. The result is \<open>None\<close> only if an access would leave the buffer.
\<close>

definition timing_receive ::
    "u64 \<Rightarrow> bool \<Rightarrow> bytes option \<Rightarrow> bytes \<times> int \<times> rtp_conn \<Rightarrow> (bytes \<times> int \<times> rtp_conn) option" where
  "timing_receive now simulate_loss received st =
     (let (buf, sequence_number, c) = st;
          buf = (case received of None \<Rightarrow> buf | Some packet \<Rightarrow> recv_into buf packet)
      in if rtsp_link_is_idle c then Some (buf, sequence_number, c)
         else (let (sequence_number, c) =
                 (if udp_clock_is_initialised c then (sequence_number, c)
                  else (0, c\<lparr>udp_clock_is_initialised := True\<rparr>))
               in if received = None \<or> simulate_loss then Some (buf, sequence_number, c)
                  else do { b \<leftarrow> rd buf 1;
                            if b = 0xd3
                            then map_option (\<lambda>st. (buf, st)) (timing_reply now buf (sequence_number, c))
                            else Some (buf, sequence_number, c) }))"

section \<open>The drift that is remembered\<close>

text \<open>
  Between sessions the drift of each client is kept in a list, by address; \<open>strcasecmp\<close> compares up to
  the case of letters. At the end of a session the list is searched only if the client has a DACP
  identifier; if it has none, the entry written is the first one, whoever it belongs to.
\<close>

definition fold_case :: "char \<Rightarrow> char" where
  "fold_case ch = (let n = (of_char ch :: nat) in if 65 \<le> n \<and> n \<le> 90 then char_of (n + 32) else ch)"

definition same_name :: "string \<Rightarrow> string \<Rightarrow> bool" where
  "same_name a b \<longleftrightarrow> map fold_case a = map fold_case b"

fun initial_gradient :: "string \<Rightarrow> (string \<times> rat) list \<Rightarrow> rat" where
  "initial_gradient ip [] = 1"
| "initial_gradient ip ((n, v) # gs) = (if same_name ip n then v else initial_gradient ip gs)"

fun replace_gradient :: "string \<Rightarrow> rat \<Rightarrow> (string \<times> rat) list \<Rightarrow> (string \<times> rat) list option" where
  "replace_gradient ip g [] = None"
| "replace_gradient ip g ((n, v) # gs) =
     (if same_name ip n then Some ((n, g) # gs) else map_option (Cons (n, v)) (replace_gradient ip g gs))"

definition store_gradient :: "bool \<Rightarrow> string \<Rightarrow> rat \<Rightarrow> (string \<times> rat) list \<Rightarrow> (string \<times> rat) list" where
  "store_gradient has_dacp_id ip g gs =
     (let updated = (if has_dacp_id then replace_gradient ip g gs
                     else case gs of [] \<Rightarrow> None | (n, v) # gs \<Rightarrow> Some ((n, g) # gs))
      in case updated of Some gs' \<Rightarrow> gs' | None \<Rightarrow> (ip, g) # gs)"

end
