(* ===== verification/Rtp_Packets.thy ===== *)
theory Rtp_Packets
  imports Rtp_Timing Player_Input
begin

text \<open>
  The receivers of AirPlay 1 (\<open>rtp_audio_receiver\<close> and \<open>rtp_control_receiver\<close> of \<open>rtp.c\<close>) and the sender of
  resend requests. Each round of a receiver takes one datagram into the thread's buffer of 2048 bytes and
  handles it; what the datagram does not cover is left from earlier ones. Packets lost on purpose for
  diagnosis are the argument \<open>simulate_loss\<close>; statistics that are only printed are left out.

  A result \<open>None\<close> is undefined behaviour; the list in a result is what the player asks to be sent again.
\<close>

section \<open>Configuration\<close>

record rtp_config =
  userSuppliedLatency :: u32
  fixedLatencyOffset :: u32
  audio_backend_latency_offset :: rat
  minimum_free_buffer_headroom :: u32

section \<open>Audio\<close>

text \<open>
  The packet that starts at \<open>p\<close> in the buffer, \<open>plen\<close> bytes long, goes to the player: behind the 12 bytes of
  its header there must be at least 16.
\<close>

definition put_from_buffer ::
    "player_env \<Rightarrow> resend_config \<Rightarrow> u64 \<Rightarrow> bytes \<Rightarrow> nat \<Rightarrow> int \<Rightarrow> u16 option \<times> rtp_conn \<Rightarrow>
     (u16 option \<times> rtp_conn \<times> (u16 \<times> nat) list) option" where
  "put_from_buffer env cfg now buf p plen st =
     (case st of (fpm, c) \<Rightarrow>
        do { seqno \<leftarrow> nctohs buf (p + 2);
             actual_timestamp \<leftarrow> nctohl buf (p + 4);
             let plen = plen - 12;
             if plen \<ge> 16
             then do { (s, fpm, requests) \<leftarrow>
                         player_put_packet env cfg now True seqno actual_timestamp (drop (p + 12) buf) plen fpm (sound c);
                       Some (fpm, c\<lparr>sound := s\<rparr>, requests) }
             else Some (fpm, c, []) })"

text \<open>Types 0x60, audio, and 0x56, audio sent again, which has four bytes in front.\<close>

definition audio_receive ::
    "player_env \<Rightarrow> resend_config \<Rightarrow> u64 \<Rightarrow> bool \<Rightarrow> bytes option \<Rightarrow> bytes \<times> u16 option \<times> rtp_conn \<Rightarrow>
     ((bytes \<times> u16 option \<times> rtp_conn) \<times> (u16 \<times> nat) list) option" where
  "audio_receive env cfg now simulate_loss received st =
     (case (received, st) of
        (None, _) \<Rightarrow> Some (st, [])
      | (Some packet, buf, fpm, c) \<Rightarrow>
          (let buf = recv_into buf packet; plen = int (min (length packet) (length buf))
           in do { b \<leftarrow> rd buf 1;
                   let type = b AND 0x7f;
                   if (type = 0x60 \<or> type = 0x56) \<and> \<not> simulate_loss
                   then do { (fpm, c, requests) \<leftarrow>
                               put_from_buffer env cfg now buf (if type = 0x56 then 4 else 0)
                                 (if type = 0x56 then plen - 4 else plen) (fpm, c);
                             Some ((buf, fpm, c), requests) }
                   else Some ((buf, fpm, c), []) }))"

section \<open>Control\<close>

definition trunc :: "rat \<Rightarrow> int" where
  "trunc x = (if 0 \<le> x then \<lfloor>x\<rfloor> else \<lceil>x\<rceil>)"

definition max_latency_frames :: u32 where
  "max_latency_frames = of_nat (3 * BUFFER_FRAMES * 352 div 4 - 11025)"

text \<open>The latency that a sync packet asks for, limited by what the client announced.\<close>

definition requested_latency :: "rtp_config \<Rightarrow> u16 \<Rightarrow> u32 \<Rightarrow> rtp_conn \<Rightarrow> u32" where
  "requested_latency cfg flags la c =
     (let la = (if flags = 7 \<or> (AirPlayVersion c > 0 \<and> AirPlayVersion c \<le> 353) \<or>
                   (AirPlayVersion c > 0 \<and> AirPlayVersion c \<ge> 371)
                then la + fixedLatencyOffset cfg else la);
          la = (if maximum_latency c \<noteq> 0 \<and> maximum_latency c < la then maximum_latency c else la);
          la = (if minimum_latency c \<noteq> 0 \<and> minimum_latency c > la then minimum_latency c else la)
      in la)"

text \<open>The latency with the offset of the back end, if that is in range.\<close>

definition adjusted_latency :: "rtp_config \<Rightarrow> u32 \<Rightarrow> rtp_conn \<Rightarrow> u32" where
  "adjusted_latency cfg la c =
     (let latency_offset = trunc (audio_backend_latency_offset cfg * of_int (uint (conn_input_rate c)));
          adjusted = latency_offset + sint la;
          capacity = of_nat (max_frames_per_packet (sound c)) * (of_nat BUFFER_FRAMES - minimum_free_buffer_headroom cfg)
      in if adjusted < 0 \<or> adjusted > sint (capacity :: u32) then la else of_int adjusted)"

definition sync_latency :: "rtp_config \<Rightarrow> u16 \<Rightarrow> u32 \<Rightarrow> rtp_conn \<Rightarrow> u32" where
  "sync_latency cfg flags la c =
     (if userSuppliedLatency cfg \<noteq> 0 then userSuppliedLatency cfg
      else (let la = requested_latency cfg flags la c
            in if la > max_latency_frames then latency (sound c) else adjusted_latency cfg la c))"

text \<open>The frame rate of the client, from the first reference and the anchor so far.\<close>

definition note_reference :: "u64 \<Rightarrow> u32 \<Rightarrow> rtp_conn \<Rightarrow> rtp_conn" where
  "note_reference remote_time_of_sync sync_rtp_timestamp c =
     (let s = sound c in
      if initial_reference_time s = 0
      then if packet_count_since_flush s > 0
           then c\<lparr>sound := s\<lparr>initial_reference_time := remote_time_of_sync,
                             initial_reference_timestamp := sync_rtp_timestamp\<rparr>\<rparr>
           else c
      else (let interval = anchor_time c - initial_reference_time s
            in c\<lparr>remote_frame_rate :=
                   (if interval \<noteq> 0
                    then 1000000000 * of_nat (unat (anchor_rtptime c - initial_reference_timestamp s)) / of_nat (unat interval)
                    else 0)\<rparr>))"

definition set_ntp_anchor :: "u64 \<Rightarrow> u32 \<Rightarrow> u32 \<Rightarrow> rtp_conn \<Rightarrow> rtp_conn" where
  "set_ntp_anchor remote_time_of_sync sync_rtp_timestamp less_latency c =
     (let old_time = anchor_time c; old_timestamp = anchor_rtptime c
      in c\<lparr>anchor_time := remote_time_of_sync, anchor_rtptime := sync_rtp_timestamp,
           anchor_remote_info_is_valid := True, latency_delayed_timestamp := ucast less_latency,
           reference_to_previous_time_difference := remote_time_of_sync - old_time,
           reference_to_previous_frame_difference :=
             (if old_timestamp = 0 then 0 else ucast (sync_rtp_timestamp - old_timestamp))\<rparr>)"

definition sync_packet :: "rtp_config \<Rightarrow> bytes \<Rightarrow> rtp_conn \<Rightarrow> rtp_conn option" where
  "sync_packet cfg buf c =
     (if local_to_remote_time_difference c = 0 then Some c
      else do { remote_time_of_sync \<leftarrow> ntp_nanoseconds buf 8;
                sync_rtp_timestamp \<leftarrow> nctohl buf 16;
                less_latency \<leftarrow> nctohl buf 4;
                flags \<leftarrow> nctohs buf 2;
                let l = sync_latency cfg flags (sync_rtp_timestamp - less_latency) c;
                let c = c\<lparr>sound := (sound c)\<lparr>latency := l\<rparr>\<rparr>;
                let sync_rtp_timestamp = sync_rtp_timestamp - l;
                Some (set_ntp_anchor remote_time_of_sync sync_rtp_timestamp less_latency
                        (note_reference remote_time_of_sync sync_rtp_timestamp c)) })"

text \<open>0xd4 is a sync packet, 0xd6 audio sent again.\<close>

definition control_receive ::
    "player_env \<Rightarrow> resend_config \<Rightarrow> rtp_config \<Rightarrow> u64 \<Rightarrow> bool \<Rightarrow> bytes option \<Rightarrow> bytes \<times> u16 option \<times> rtp_conn \<Rightarrow>
     ((bytes \<times> u16 option \<times> rtp_conn) \<times> (u16 \<times> nat) list) option" where
  "control_receive env rcfg cfg now simulate_loss received st =
     (case (received, st) of
        (None, _) \<Rightarrow> Some (st, [])
      | (Some packet, buf, fpm, c) \<Rightarrow>
          (let buf = recv_into buf packet; plen = int (min (length packet) (length buf))
           in if rtsp_link_is_idle c \<or> simulate_loss then Some ((buf, fpm, c), [])
              else do { b \<leftarrow> rd buf 1;
                        if b = 0xd4
                        then map_option (\<lambda>c. ((buf, fpm, c), [])) (sync_packet cfg buf c)
                        else if b = 0xd6
                        then do { (fpm, c, requests) \<leftarrow> put_from_buffer env rcfg now buf 4 (plen - 4) (fpm, c);
                                  Some ((buf, fpm, c), requests) }
                        else Some ((buf, fpm, c), []) }))"

section \<open>Resend requests\<close>

definition resend_packet :: "u16 \<Rightarrow> u32 \<Rightarrow> bytes" where
  "resend_packet first count = [0x80, 0xd5] @ htons_bytes 1 @ htons_bytes first @ htons_bytes (ucast count)"

definition resend_error_backoff_time :: u64 where "resend_error_backoff_time = 300000000"

text \<open>
  The packet sent, if any. \<open>socket_known\<close> is false only for an AirPlay 2 client whose control address is not known
  yet; \<open>send_ok\<close> says whether \<open>sendto\<close> succeeds.
\<close>

definition rtp_request_resend ::
    "u64 \<Rightarrow> bool \<Rightarrow> bool \<Rightarrow> bool \<Rightarrow> u16 \<Rightarrow> u32 \<Rightarrow> rtp_conn \<Rightarrow> bytes option \<times> rtp_conn" where
  "rtp_request_resend now socket_known simulate_loss send_ok first count c =
     (if \<not> rtp_running c \<or> \<not> socket_known then (None, c)
      else if rtp_time_of_last_resend_request_error_ns c = 0 \<or>
              now - rtp_time_of_last_resend_request_error_ns c > resend_error_backoff_time
      then if simulate_loss then (None, c\<lparr>rtp_time_of_last_resend_request_error_ns := now\<rparr>)
           else (Some (resend_packet first count),
                 c\<lparr>rtp_time_of_last_resend_request_error_ns := (if send_ok then 0 else now)\<rparr>)
      else (None, c))"

end
