(* ===== verification/Buffered_Audio.thy ===== *)
theory Buffered_Audio
  imports Buffered_Blocks Rtp_Packets
begin

text \<open>
  The thread of buffered audio, \<open>rtp_buffered_audio_processor\<close> (\<open>rtp.c\<close>), and the requests that steer it
  (\<open>rtsp.c\<close>: FLUSHBUFFERED and SETRATEANCHORTI). A turn of its loop looks at the requests under the flush lock,
  sends at most 352 frames to the player, and reads at most one block. Outside the lock it uses nothing
  that the requests change, so that a turn is one step.
\<close>

section \<open>What the requests set\<close>

record buffered_conn =
  clock :: rtp_conn
  session_key :: "bytes option"
  connection_start_time :: u64
  networkTimeTimelineID :: u64
  ap2_flush_requested :: bool
  ap2_flush_from_valid :: bool
  ap2_flush_from_rtp_timestamp :: u32
  ap2_flush_from_sequence_number :: u32
  ap2_flush_until_rtp_timestamp :: u32
  ap2_flush_until_sequence_number :: u32
  ap2_rate :: u32
  ap2_play_enabled :: bool

text \<open>
  A property list is what libplist finds in it: the unsigned number of a key. \<open>None\<close> for the whole is a
  request without one.
\<close>

type_synonym plist = "string \<Rightarrow> u64 option"

definition or_zero :: "u64 option \<Rightarrow> u64" where
  "or_zero v = (case v of None \<Rightarrow> 0 | Some n \<Rightarrow> n)"

text \<open>A delayed flush that follows another delayed one leaves the start where it is.\<close>

definition flush_stops_play :: "bool \<Rightarrow> buffered_conn \<Rightarrow> buffered_conn" where
  "flush_stops_play flushFromValid conn = (if \<not> flushFromValid then conn\<lparr>ap2_play_enabled := False\<rparr> else conn)"

definition replace_flush_start :: "bool \<Rightarrow> u64 \<Rightarrow> u64 \<Rightarrow> buffered_conn \<Rightarrow> buffered_conn" where
  "replace_flush_start flushFromValid flushFromSeq flushFromTS conn =
     (if ap2_flush_requested conn \<and> ap2_flush_from_valid conn \<and> flushFromValid then conn
      else conn\<lparr>ap2_flush_from_sequence_number := ucast flushFromSeq, ap2_flush_from_rtp_timestamp := ucast flushFromTS\<rparr>)"

definition handle_flushbuffered :: "plist option \<Rightarrow> buffered_conn \<Rightarrow> buffered_conn" where
  "handle_flushbuffered messagePlist conn =
     (case messagePlist of
        None \<Rightarrow> conn
      | Some item \<Rightarrow>
          let flushFromValid = (item ''flushFromSeq'' \<noteq> None);
              conn = flush_stops_play flushFromValid conn;
              conn = conn\<lparr>ap2_flush_until_sequence_number := ucast (or_zero (item ''flushUntilSeq'')),
                          ap2_flush_until_rtp_timestamp := ucast (or_zero (item ''flushUntilTS''))\<rparr>;
              conn = replace_flush_start flushFromValid (or_zero (item ''flushFromSeq'')) (or_zero (item ''flushFromTS'')) conn
          in conn\<lparr>ap2_flush_from_valid := flushFromValid, ap2_flush_requested := True\<rparr>)"

text \<open>
  The clock of SETRATEANCHORTI: seconds and a 64-bit fraction as nanoseconds. A missing fraction or frame
  is read from an uninitialised variable (\<open>None\<close>).
\<close>

definition anchor_nanoseconds :: "u64 \<Rightarrow> u64 \<Rightarrow> u64" where
  "anchor_nanoseconds secs fraction = secs * 1000000000 + drop_bit 32 (drop_bit 32 fraction * 1000000000)"

definition set_anchor :: "rtp_config \<Rightarrow> u64 \<Rightarrow> plist \<Rightarrow> buffered_conn \<Rightarrow> buffered_conn option" where
  "set_anchor cfg now item conn =
     (case item ''networkTimeSecs'' of
        None \<Rightarrow> Some conn
      | Some secs \<Rightarrow>
          let conn = (case item ''networkTimeTimelineID'' of None \<Rightarrow> conn | Some nid \<Rightarrow> conn\<lparr>networkTimeTimelineID := nid\<rparr>)
          in do { fraction \<leftarrow> item ''networkTimeFrac'';
                  rtpTime \<leftarrow> item ''rtpTime'';
                  let added_latency = trunc (audio_backend_latency_offset cfg * of_int (uint (conn_input_rate (clock conn))));
                  Some (conn\<lparr>clock := set_ptp_anchor_info now (networkTimeTimelineID conn)
                          (ucast rtpTime - word_of_int added_latency) (anchor_nanoseconds secs fraction) (clock conn)\<rparr>) })"

text \<open>What goes to the activity monitor, to NQPTP and to the output device; the metadata are left out.\<close>

datatype rate_call = Signify_activity bool | Control_message string | Stop_output

definition set_rate :: "bool \<Rightarrow> plist \<Rightarrow> buffered_conn \<Rightarrow> buffered_conn \<times> rate_call list" where
  "set_rate can_stop item conn =
     (case item ''rate'' of
        None \<Rightarrow> (conn, [])
      | Some rate \<Rightarrow>
          let conn = conn\<lparr>ap2_rate := ucast rate\<rparr>
          in if rate AND 1 \<noteq> 0
             then (conn\<lparr>ap2_play_enabled := True\<rparr>, [Control_message ''B'', Signify_activity True])
             else (conn\<lparr>ap2_play_enabled := False, clock := reset_anchor_info (clock conn)\<rparr>,
                   [Control_message ''P'', Signify_activity False] @ (if can_stop then [Stop_output] else [])))"

definition handle_setrateanchori ::
    "rtp_config \<Rightarrow> bool \<Rightarrow> u64 \<Rightarrow> plist option \<Rightarrow> buffered_conn \<Rightarrow> (buffered_conn \<times> rate_call list) option" where
  "handle_setrateanchori cfg can_stop now messagePlist conn =
     (case messagePlist of
        None \<Rightarrow> Some (conn, [])
      | Some item \<Rightarrow> map_option (set_rate can_stop item) (set_anchor cfg now item conn))"

section \<open>A turn of the thread\<close>

text \<open>
  The look at the requests, under the lock: the connection, the thread's state, whether the flush is a
  delayed one, and whether one starts or playing stops.
\<close>

definition flush_is_due :: "buffered_conn \<Rightarrow> u32 \<Rightarrow> bool" where
  "flush_is_due conn seq \<longleftrightarrow>
     ap2_flush_requested conn \<and> (ap2_flush_from_valid conn \<longrightarrow> sint (ap2_flush_from_sequence_number conn - seq) \<le> 0)"

definition flush_is_over :: "buffered_conn \<Rightarrow> processor \<Rightarrow> bool" where
  "flush_is_over conn p \<longleftrightarrow> blocks_read p \<noteq> 0 \<and> ap2_flush_until_sequence_number conn \<le> block_seq_no p"

definition flush_is_active :: "buffered_conn \<Rightarrow> processor \<Rightarrow> bool" where
  "flush_is_active conn p \<longleftrightarrow> flush_is_due conn (block_seq_no p) \<and> \<not> flush_is_over conn p"

definition note_flush_start :: "buffered_conn \<Rightarrow> processor \<Rightarrow> processor" where
  "note_flush_start conn p =
     (if ap2_flush_requested conn \<and> ap2_flush_from_valid conn
      then p\<lparr>flush_from_timestamp := ap2_flush_from_rtp_timestamp conn\<rparr> else p)"

definition close_request :: "buffered_conn \<Rightarrow> processor \<Rightarrow> buffered_conn" where
  "close_request conn p =
     (if flush_is_due conn (block_seq_no p) \<and> flush_is_over conn p then conn\<lparr>ap2_flush_requested := False\<rparr> else conn)"

definition stop_playing :: "buffered_conn \<Rightarrow> processor \<Rightarrow> processor" where
  "stop_playing conn p =
     (if play_enabled p \<and> \<not> ap2_play_enabled conn
      then p\<lparr>pcm_buffer_read_point_rtptime_offset := 0, blocks_read_in_sequence := 0,
             packets_played_in_this_sequence := 0, pcm_buffer_occupancy := 0, pcm_buffer_read_point := 0\<rparr>
      else p)"

definition look_at_requests :: "buffered_conn \<Rightarrow> processor \<Rightarrow> buffered_conn \<times> processor \<times> bool \<times> bool \<times> bool" where
  "look_at_requests conn p =
     (let active = flush_is_active conn p;
          q = stop_playing conn (note_flush_start conn p);
          q = (if flushing p \<and> \<not> active then q\<lparr>blocks_read_in_sequence := 1\<rparr> else q)
      in (close_request conn p, q\<lparr>flushing := active, play_enabled := ap2_play_enabled conn\<rparr>,
          ap2_flush_requested conn \<and> ap2_flush_from_valid conn, active \<and> \<not> flushing p,
          play_enabled p \<and> \<not> ap2_play_enabled conn))"

text \<open>What the thread has the player do.\<close>

datatype player_call = Reset_buffer | Put_packet u32 bytes

definition start_flush :: "bool \<Rightarrow> bool \<Rightarrow> processor \<Rightarrow> processor \<times> player_call list" where
  "start_flush newly_requested newly_stopped p =
     (if newly_requested
      then p\<lparr>packets_played_in_this_sequence := 0, pcm_buffer_occupancy := 0, pcm_buffer_read_point := 0,
             pcm_buffer_read_point_rtptime_offset := 0\<rparr>
      else p,
      (if newly_stopped then [Reset_buffer] else []) @ (if newly_requested then [Reset_buffer] else []))"

text \<open>
  The surroundings of a turn: the number of packets the player has, the record of NQPTP and the local time
  at each look.
\<close>

record surroundings =
  player_buffer_occupancy :: u32
  shm_at :: "nat \<Rightarrow> shm_structure option"
  time_at :: "nat \<Rightarrow> u64"

definition player_is_full :: "u32 \<Rightarrow> u32 \<Rightarrow> bool" where
  "player_is_full rate occupancy \<longleftrightarrow> rat_of_nat (unat occupancy) > 2 / 5 * rat_of_nat (unat rate) / 352"

text \<open>The first two blocks behind a flush are silenced, in the format of the output.\<close>

definition mute_transients :: "'c decoder \<Rightarrow> bool \<Rightarrow> processor \<Rightarrow> processor option" where
  "mute_transients D enable_dither p =
     (if blocks_read_in_sequence p \<le> 2 \<and> blocks_read_in_sequence p \<noteq> blocks_read p
      then do { (s, ds) \<leftarrow> generate_zero_frames 352 (decoded_format D) enable_dither (silence p);
                b \<leftarrow> wr_block (pcm_buffer p) (pcm_buffer_read_point p) s;
                Some (p\<lparr>pcm_buffer := b, silence := ds\<rparr>) }
      else Some p)"

definition send_frames :: "'c decoder \<Rightarrow> bool \<Rightarrow> processor \<Rightarrow> (processor \<times> player_call list) option" where
  "send_frames D enable_dither p =
     do { p \<leftarrow> mute_transients D enable_dither p;
          s \<leftarrow> rd_block (pcm_buffer p) (pcm_buffer_read_point p) (352 * frame_bytes D);
          Some (p\<lparr>packets_played_in_this_sequence := packets_played_in_this_sequence p + 1\<rparr>,
                [Put_packet (pcm_buffer_read_point_rtptime p + pcm_buffer_read_point_rtptime_offset p) s]) }"

definition lead_time :: "u64 \<Rightarrow> u64 \<Rightarrow> int" where
  "lead_time should_be now = sint (should_be - now)"

definition move_down :: "processor \<Rightarrow> processor option" where
  "move_down p =
     (if pcm_buffer_read_point p = 0 then Some p
      else if pcm_buffer_occupancy p - pcm_buffer_read_point p > 0
      then do { s \<leftarrow> rd_block (pcm_buffer p) (pcm_buffer_read_point p) (pcm_buffer_occupancy p - pcm_buffer_read_point p);
                b \<leftarrow> wr_block (pcm_buffer p) 0 s;
                Some (p\<lparr>pcm_buffer := b, pcm_buffer_occupancy := pcm_buffer_occupancy p - pcm_buffer_read_point p,
                        pcm_buffer_read_point := 0\<rparr>) }
      else Some (p\<lparr>pcm_buffer_occupancy := 0, pcm_buffer_read_point := 0\<rparr>))"

text \<open>The next 352 frames, when there are so many: sent, or dropped when they are late or far too early.\<close>

definition next_frames ::
    "'c decoder \<Rightarrow> bool \<Rightarrow> surroundings \<Rightarrow> rtp_conn \<Rightarrow> processor \<Rightarrow> (rtp_conn \<times> processor \<times> player_call list) option" where
  "next_frames D enable_dither e clk p =
     (if play_enabled p
      then case have_ptp_timing_information (shm_at e 0) (time_at e 0) (time_at e 1) clk of
        (have, clk) \<Rightarrow>
          if have
          then (case frame_to_local_time (shm_at e 1) (time_at e 2) (time_at e 3) (pcm_buffer_read_point_rtptime p) clk of
                  None \<Rightarrow> None
                | Some (None, clk) \<Rightarrow> Some (clk, p, [])
                | Some (Some should_be, clk) \<Rightarrow>
                    let lead = lead_time should_be (time_at e 4)
                    in do { (p, calls) \<leftarrow>
                              (if lead < 30000000000 \<and> 0 \<le> lead \<and> (0 \<le> lead \<or> packets_played_in_this_sequence p \<noteq> 0)
                               then send_frames D enable_dither p else Some (p, []));
                            Some (clk, p\<lparr>pcm_buffer_read_point_rtptime := pcm_buffer_read_point_rtptime p + 352,
                                         pcm_buffer_read_point := pcm_buffer_read_point p + 352 * frame_bytes D\<rparr>, calls) })
          else Some (clk, p, [])
      else Some (clk, p, []))"

definition play_part ::
    "'c decoder \<Rightarrow> bool \<Rightarrow> surroundings \<Rightarrow> rtp_conn \<Rightarrow> processor \<Rightarrow> (rtp_conn \<times> processor \<times> player_call list) option" where
  "play_part D enable_dither e clk p =
     (if player_is_full (conn_input_rate clk) (player_buffer_occupancy e) then Some (clk, p, [])
      else if pcm_buffer_occupancy p - pcm_buffer_read_point p \<ge> 352 * frame_bytes D
      then next_frames D enable_dither e clk (p\<lparr>new_buffer_needed := False\<rparr>)
      else map_option (\<lambda>p. (clk, p, [])) (move_down (p\<lparr>new_buffer_needed := True\<rparr>)))"

text \<open>
  A block that has been read: whether it is late, or too soon after the connection was made, and what
  becomes of it. Until a flush is over only the block it ends at is decoded.
\<close>

definition judge_block ::
    "surroundings \<Rightarrow> u64 \<Rightarrow> u32 \<Rightarrow> rtp_conn \<Rightarrow> (rtp_conn \<times> bool \<times> bool) option" where
  "judge_block e start timestamp clk =
     (case frame_to_local_time (shm_at e 2) (time_at e 5) (time_at e 6) timestamp clk of
        None \<Rightarrow> None
      | Some (None, clk) \<Rightarrow> Some (clk, False, False)
      | Some (Some should_be, clk) \<Rightarrow>
          Some (clk, lead_time should_be (time_at e 8) < 0,
                sint (should_be - start) < 2000000000 \<and> sint (time_at e 7 - start) < 2000000000))"

text \<open>
  The buffer between the judgement of a block and its decoding, under its old time or, when it is empty,
  the time of the block.
\<close>

definition made_ready :: "bool \<Rightarrow> u32 \<Rightarrow> processor \<Rightarrow> processor" where
  "made_ready drop_old ts p =
     (let p = (if drop_old then p\<lparr>pcm_buffer_occupancy := 0\<rparr> else p)
      in if pcm_buffer_occupancy p = 0 then p\<lparr>pcm_buffer_read_point_rtptime := ts, pcm_buffer_read_point := 0\<rparr> else p)"

definition take_block :: "'c decoder \<Rightarrow> surroundings \<Rightarrow> bool \<Rightarrow> u32 \<Rightarrow> nat \<Rightarrow> buffered_conn \<Rightarrow> 'c \<Rightarrow> processor \<Rightarrow>
    (buffered_conn \<times> 'c \<times> processor) option" where
  "take_block D e flush_is_delayed flushUntilSeq nread conn c p =
     do { seq_bytes \<leftarrow> rd_block (packet p) 1 3;
          timestamp \<leftarrow> nctohl (packet p) 4;
          let seq = word_of_int (uint (seq_bytes ! 0) * 65536 + uint (seq_bytes ! 1) * 256 + uint (seq_bytes ! 2));
          let p = p\<lparr>blocks_read := blocks_read p + 1, blocks_read_in_sequence := blocks_read_in_sequence p + 1, block_seq_no := seq\<rparr>;
          (clk, outdated, too_soon) \<leftarrow> judge_block e (connection_start_time conn) timestamp (clock conn);
          let p = made_ready (flushing p \<or> outdated \<or> too_soon) timestamp p;
          (c, p) \<leftarrow> (if (flushing p \<and> seq = flushUntilSeq \<or> \<not> flushing p \<and> new_buffer_needed p) \<and> \<not> too_soon
                    then decode_block D (session_key conn) flush_is_delayed nread c p else Some (c, p));
          Some (conn\<lparr>clock := clk\<rparr>, c, p) }"

record 'c audio_thread =
  requests :: buffered_conn
  work :: processor
  codec :: 'c
  ring :: source
  finished :: bool

definition block_part :: "'c decoder \<Rightarrow> surroundings \<Rightarrow> bool \<Rightarrow> u32 \<Rightarrow> 'c audio_thread \<Rightarrow> 'c audio_thread option" where
  "block_part D e flush_is_delayed flushUntilSeq s =
     do { (nread, pkt, src) \<leftarrow> read_block (packet (work s)) (ring s);
          let s = s\<lparr>work := (work s)\<lparr>packet := pkt\<rparr>, ring := src\<rparr>;
          if nread < 0 then Some s
          else if nread = 0 then Some (s\<lparr>finished := True\<rparr>)
          else do { (conn, c, p) \<leftarrow> take_block D e flush_is_delayed flushUntilSeq (nat nread) (requests s) (codec s) (work s);
                    Some (s\<lparr>requests := conn, codec := c, work := p\<rparr>) } }"

definition turn :: "'c decoder \<Rightarrow> bool \<Rightarrow> surroundings \<Rightarrow> 'c audio_thread \<Rightarrow> ('c audio_thread \<times> player_call list) option" where
  "turn D enable_dither e s =
     (case look_at_requests (requests s) (work s) of
        (conn, p, flush_is_delayed, newly_requested, newly_stopped) \<Rightarrow>
          case start_flush newly_requested newly_stopped p of
            (p, resets) \<Rightarrow>
              do { (clk, p, calls) \<leftarrow> (if flushing p then Some (clock conn, p, []) else play_part D enable_dither e (clock conn) p);
                   let s = s\<lparr>requests := conn\<lparr>clock := clk\<rparr>, work := p\<rparr>;
                   s \<leftarrow> (if flushing p \<or> new_buffer_needed p
                        then block_part D e flush_is_delayed (ap2_flush_until_sequence_number (requests s)) s else Some s);
                   Some (s, resets @ calls) })"

end
