(* ===== verification/Buffered_Runs.thy ===== *)
theory Buffered_Runs
  imports Buffered_Audio
begin

text \<open>
  What the thread of buffered audio does with whole blocks: reading them in whatever pieces they come,
  decoding them, and sending their frames to the player.
\<close>

section \<open>Reading\<close>

lemma take_piece:
  assumes "concat cs \<noteq> []" and "0 < count"
  obtains s cs' where "take_piece count cs = (s, cs')" "s \<noteq> []" "length s \<le> count" "concat cs = s @ concat cs'"
  using assms
proof (induction cs arbitrary: thesis)
  case (Cons c cs)
  show ?case
  proof (cases "c = []")
    case True
    with Cons show ?thesis by (metis append_Nil concat.simps(2) take_piece.simps(2))
  next
    case False
    then have "take count c \<noteq> []" using Cons.prems(3) by simp
    then show ?thesis
      using False by (intro Cons.prems(1) [of "take count c" "if length c \<le> count then cs else drop count c # cs"]) auto
  qed
qed simp

lemma wr_block_mid:
  assumes "inbuf + length s \<le> length buf"
  shows "wr_block buf inbuf s = Some (take inbuf buf @ s @ drop (inbuf + length s) buf)"
  using assms by (simp add: wr_block_def)

text \<open>All that is asked for is read when it is there, however it is cut.\<close>

lemma read_loop_whole:
  assumes "concat (pieces src) = bs @ rest" and "bs \<noteq> []" and "length bs = count - inbuf"
    and "count \<le> length buf"
  shows "\<exists>src'. read_loop count buf inbuf src = Some (int count, take inbuf buf @ bs @ drop count buf, src') \<and>
     concat (pieces src') = rest \<and> ending src' = ending src"
  using assms
proof (induction "length bs" arbitrary: bs buf inbuf src rule: less_induct)
  case less
  have n: "0 < count - inbuf" using less.prems(2,3) by (metis length_greater_0_conv)
  have ne: "concat (pieces src) \<noteq> []" using less.prems(1,2) by simp
  obtain s cs' where s: "take_piece (count - inbuf) (pieces src) = (s, cs')" "s \<noteq> []" "length s \<le> count - inbuf"
    "concat (pieces src) = s @ concat cs'"
    by (rule take_piece [OF ne n])
  have read: "ring_read (count - inbuf) src = (int (length s), s, src\<lparr>pieces := cs'\<rparr>)"
    using s(1) ne by (simp add: ring_read_def del: concat_eq_Nil_conv)
  have fits: "inbuf + length s \<le> length buf" using s(3) n less.prems(4) by linarith
  define buf' where "buf' = take inbuf buf @ s @ drop (inbuf + length s) buf"
  have w: "wr_block buf inbuf s = Some buf'" using wr_block_mid [OF fits] by (simp add: buf'_def)
  show ?case
  proof (cases "inbuf + length s < count")
    case False
    then have "length s = length bs" using s(3) less.prems(3) by linarith
    then have "s = bs" "concat cs' = rest" using s(4) less.prems(1) by (auto simp: append_eq_append_conv)
    moreover have "inbuf + length bs = count" using n less.prems(3) by linarith
    ultimately show ?thesis
      using read w s(2) less.prems(2) by (subst read_loop.simps) (simp add: Let_def buf'_def)
  next
    case True
    then have "length s < length bs" using less.prems(3) by linarith
    then obtain bs' where bs': "bs = s @ bs'" "concat cs' = bs' @ rest"
      using s(4) less.prems(1) by (auto simp: append_eq_append_conv2)
    have l: "length bs' < length bs" "bs' \<noteq> []" "length bs' = count - (inbuf + length s)" "count \<le> length buf'"
    proof -
      show "length bs' < length bs" using bs'(1) s(2) by simp
      show "bs' \<noteq> []" using bs'(1) \<open>length s < length bs\<close> by auto
      show "length bs' = count - (inbuf + length s)" using bs'(1) less.prems(3) by simp
      show "count \<le> length buf'" using less.prems(4) fits by (simp add: buf'_def)
    qed
    have c: "concat (pieces (src\<lparr>pieces := cs'\<rparr>)) = bs' @ rest" using bs'(2) by simp
    obtain src' where src': "read_loop count buf' (inbuf + length s) (src\<lparr>pieces := cs'\<rparr>) =
        Some (int count, take (inbuf + length s) buf' @ bs' @ drop count buf', src')"
      "concat (pieces src') = rest" "ending src' = ending src"
      using less.hyps [OF l(1) c l(2-4)] by auto
    have "take (inbuf + length s) buf' @ bs' @ drop count buf' = take inbuf buf @ bs @ drop count buf"
      using fits True l(3) bs'(1) less.prems(4) by (simp add: buf'_def min_def)
    moreover have "read_loop count buf inbuf src = read_loop count buf' (inbuf + length s) (src\<lparr>pieces := cs'\<rparr>)"
      using read w s(2) True by (subst read_loop.simps) (simp add: Let_def)
    ultimately show ?thesis using src' by simp
  qed
qed

text \<open>A block on its way: its length, which counts itself, and its bytes.\<close>

definition framed :: "bytes \<Rightarrow> bytes" where
  "framed b = [of_nat ((length b + 2) div 256), of_nat ((length b + 2) mod 256)] @ b"

lemma byte_uint: "n < 256 \<Longrightarrow> uint (of_nat n :: u8) = int n"
  by (simp add: unsigned_of_nat take_bit_nat_eq_self)

lemma payload_size_of:
  assumes "n \<le> 65533"
  shows "payload_size (word_of_int (int (n + 2))) = n"
proof -
  have "uint (word_of_int (int (n + 2)) :: u16) = int (n + 2)"
    using assms by (simp only: uint_word_of_int) simp
  then have "payload_size (word_of_int (int (n + 2))) = unat (word_of_int (int n) :: u64)"
    by (simp only: payload_size_def) simp
  also have "\<dots> = n" using assms by (simp add: unsigned_of_nat take_bit_nat_eq_self)
  finally show ?thesis .
qed

lemma framed_size:
  fixes b :: bytes
  assumes "length b \<le> 65533"
  defines "h \<equiv> [of_nat ((length b + 2) div 256), of_nat ((length b + 2) mod 256)] :: bytes"
  shows "payload_size (word_of_int (uint (h ! 0) * 256 + uint (h ! 1))) = length b"
proof -
  let ?h = "[of_nat ((length b + 2) div 256), of_nat ((length b + 2) mod 256)] :: bytes"
  have hi: "(length b + 2) div 256 < 256" and lo: "(length b + 2) mod 256 < 256" using assms(1) by simp_all
  have "uint (of_nat ((length b + 2) div 256) :: u8) = int ((length b + 2) div 256)"
    "uint (of_nat ((length b + 2) mod 256) :: u8) = int ((length b + 2) mod 256)"
    by (simp_all only: byte_uint [OF hi] byte_uint [OF lo])
  then have "uint (?h ! 0) * 256 + uint (?h ! 1) = int ((length b + 2) div 256 * 256 + (length b + 2) mod 256)"
    by (simp only: nth_Cons_0 nth_Cons_Suc One_nat_def of_nat_add of_nat_mult of_nat_numeral)
  then have u: "uint (?h ! 0) * 256 + uint (?h ! 1) = int (length b + 2)" by (simp only: div_mult_mod_eq)
  show ?thesis unfolding h_def u by (rule payload_size_of) (use assms(1) in simp)
qed

lemma read_block_whole:
  assumes "concat (pieces src) = framed b @ rest" and "b \<noteq> []" and "length b \<le> length pkt" and "length b \<le> 65533"
  obtains src' where "read_block pkt src = Some (int (length b), b @ drop (length b) pkt, src')"
    and "concat (pieces src') = rest" and "ending src' = ending src"
proof -
  let ?h = "[of_nat ((length b + 2) div 256), of_nat ((length b + 2) mod 256)] :: bytes"
  obtain src1 where 1: "lread_sized_block [0, 0] 2 src = Some (2, ?h, src1)" "concat (pieces src1) = b @ rest" "ending src1 = ending src"
    using read_loop_whole [of src ?h "b @ rest" 2 0 "[0, 0]"] assms(1) by (auto simp: lread_sized_block_def framed_def)
  have "payload_size (word_of_int (uint (?h ! 0) * 256 + uint (?h ! 1))) = length b" by (rule framed_size [OF assms(4)])
  moreover obtain src2 where "lread_sized_block pkt (length b) src1 = Some (int (length b), b @ drop (length b) pkt, src2)"
    "concat (pieces src2) = rest" "ending src2 = ending src1"
    using read_loop_whole [OF 1(2) assms(2), of "length b" 0 pkt] assms(3) by (auto simp: lread_sized_block_def)
  ultimately show ?thesis using 1 that by (simp add: read_block_def)
qed

section \<open>Decoding\<close>

text \<open>What the decoder makes of some bytes, whatever is done with it: the reference of the two loops.\<close>

partial_function (option) received_frames :: "'c decoder \<Rightarrow> 'c \<Rightarrow> ('c \<times> bytes list) option" where
  "received_frames D c =
     (case avcodec_receive_frame D c of
        (c, Frame pcm) \<Rightarrow> do { (c, fs) \<leftarrow> received_frames D c; Some (c, pcm # fs) }
      | (c, No_more) \<Rightarrow> Some (c, [])
      | (c, Decode_error e) \<Rightarrow> Some (c, []))"

partial_function (option) decoded_frames :: "'c decoder \<Rightarrow> bytes \<Rightarrow> 'c \<Rightarrow> ('c \<times> bytes list) option" where
  "decoded_frames D data c =
     (if data = [] then Some (c, [])
      else case av_parser_parse2 D c data of
        (c, ret, pkt) \<Rightarrow>
          if ret < 0 then decoded_frames D data c
          else if length pkt \<le> 7 then decoded_frames D (drop (nat ret) data) c
          else case avcodec_send_packet D c pkt of
            (c, r) \<Rightarrow>
              if r < 0 then decoded_frames D (drop (nat ret) data) c
              else do { (c, fs) \<leftarrow> received_frames D c;
                        (c, gs) \<leftarrow> decoded_frames D (drop (nat ret) data) c;
                        Some (c, fs @ gs) })"

fun add_frames :: "'c decoder \<Rightarrow> bool \<Rightarrow> bytes list \<Rightarrow> processor \<Rightarrow> processor option" where
  "add_frames D flush_is_delayed [] p = Some p"
| "add_frames D flush_is_delayed (f # fs) p =
     (case add_frame D flush_is_delayed f p of None \<Rightarrow> None | Some p \<Rightarrow> add_frames D flush_is_delayed fs p)"

lemma add_frames_append:
  "add_frames D dl (fs @ gs) p = (case add_frames D dl fs p of None \<Rightarrow> None | Some p \<Rightarrow> add_frames D dl gs p)"
  by (induction fs arbitrary: p) (auto split: option.split)

lemma receive_loop_frames:
  assumes "received_frames D c = Some r"
  shows "receive_loop D dl c p = map_option (Pair (fst r)) (add_frames D dl (snd r) p)"
proof -
  have "\<forall>p. receive_loop D dl c p = map_option (Pair (fst r)) (add_frames D dl (snd r) p)"
    by (rule received_frames.raw_induct [where P = "\<lambda>D c r. \<forall>p. receive_loop D dl c p =
          map_option (Pair (fst r)) (add_frames D dl (snd r) p)", OF _ assms])
      (subst receive_loop.simps, auto split: prod.splits received.splits option.splits bind_splits)
  then show ?thesis by blast
qed

lemma decode_loop_frames:
  assumes "decoded_frames D data c = Some r"
  shows "decode_loop D dl data c p = map_option (Pair (fst r)) (add_frames D dl (snd r) p)"
proof -
  have "\<forall>p. decode_loop D dl data c p = map_option (Pair (fst r)) (add_frames D dl (snd r) p)"
  proof (rule decoded_frames.raw_induct [where P = "\<lambda>D data c r. \<forall>p. decode_loop D dl data c p =
          map_option (Pair (fst r)) (add_frames D dl (snd r) p)", OF _ assms], intro allI)
    fix f D data c r p
    assume ih: "\<And>(D :: 'a decoder) data c r. f D data c = Some r \<Longrightarrow>
        \<forall>p. decode_loop D dl data c p = map_option (Pair (fst r)) (add_frames D dl (snd r) p)"
      and eq: "(if data = [] then Some (c, [])
        else case av_parser_parse2 D c data of
          (c, ret, pkt) \<Rightarrow>
            if ret < 0 then f D data c
            else if length pkt \<le> 7 then f D (drop (nat ret) data) c
            else case avcodec_send_packet D c pkt of
              (c, r) \<Rightarrow>
                if r < 0 then f D (drop (nat ret) data) c
                else do { (c, fs) \<leftarrow> received_frames D c;
                          (c, gs) \<leftarrow> f D (drop (nat ret) data) c;
                          Some (c, fs @ gs) }) = Some r"
    show "decode_loop D dl data c p = map_option (Pair (fst r)) (add_frames D dl (snd r) p)"
    proof (cases "data = []")
      case True
      with eq show ?thesis by (subst decode_loop.simps) auto
    next
      case False
      obtain c1 ret pkt where parse: "av_parser_parse2 D c data = (c1, ret, pkt)" by (cases "av_parser_parse2 D c data")
      obtain c2 r2 where send: "avcodec_send_packet D c1 pkt = (c2, r2)" by fastforce
      show ?thesis
      proof (cases "ret < 0 \<or> length pkt \<le> 7 \<or> r2 < 0")
        case True
        with eq False parse send ih show ?thesis
          by (subst decode_loop.simps) (auto split: if_splits)
      next
        case go: False
        then obtain c3 fs c4 gs where d: "received_frames D c2 = Some (c3, fs)" "f D (drop (nat ret) data) c3 = Some (c4, gs)"
          "r = (c4, fs @ gs)"
          using eq False parse send by (auto split: bind_splits prod.splits)
        have "decode_loop D dl (drop (nat ret) data) c3 q = map_option (Pair c4) (add_frames D dl gs q)" for q
          using ih [OF d(2)] by simp
        then show ?thesis
          using False go parse send receive_loop_frames [OF d(1), of dl] d(3)
          by (subst decode_loop.simps) (auto simp: Let_def add_frames_append split: option.splits)
      qed
    qed
  qed
  then show ?thesis by blast
qed

text \<open>With room for them the frames of a block are put behind what is in the buffer.\<close>

definition buffer_ok :: "'c decoder \<Rightarrow> processor \<Rightarrow> bool" where
  "buffer_ok D p \<longleftrightarrow> length (pcm_buffer p) = 1376 * frame_bytes D \<and> pcm_buffer_size p = int (1376 * frame_bytes D) \<and>
     pcm_buffer_read_point p \<le> pcm_buffer_occupancy p \<and> pcm_buffer_occupancy p \<le> 1376 * frame_bytes D \<and>
     length (packet p) = 16384"

definition waiting_pcm :: "processor \<Rightarrow> bytes" where
  "waiting_pcm p = drop (pcm_buffer_read_point p) (take (pcm_buffer_occupancy p) (pcm_buffer p))"

text \<open>Adding changes nothing but the buffer.\<close>

definition same_but_buffer :: "processor \<Rightarrow> processor \<Rightarrow> bool" where
  "same_but_buffer p p' \<longleftrightarrow> p' = p\<lparr>pcm_buffer := pcm_buffer p', pcm_buffer_occupancy := pcm_buffer_occupancy p'\<rparr>"

lemma add_frames_waiting:
  assumes "buffer_ok D p" and "pcm_buffer_occupancy p + length (concat fs) \<le> 1376 * frame_bytes D"
  obtains p' where "add_frames D False fs p = Some p'" "buffer_ok D p'" "waiting_pcm p' = waiting_pcm p @ concat fs"
    "same_but_buffer p p'"
  using assms
proof (induction fs arbitrary: p thesis)
  case Nil
  then show ?case by (simp add: same_but_buffer_def)
next
  case (Cons f fs)
  let ?o = "pcm_buffer_occupancy p" and ?b = "pcm_buffer p"
  let ?p = "p\<lparr>pcm_buffer := take ?o ?b @ f @ drop (?o + length f) ?b, pcm_buffer_occupancy := ?o + length f\<rparr>"
  have o: "?o + length f \<le> length ?b" using Cons.prems(2,3) by (simp add: buffer_ok_def)
  have add: "add_frame D False f p = Some ?p"
    using Cons.prems(2,3) o wr_block_mid [OF o] by (simp add: add_frame_def kept_bytes_def buffer_ok_def)
  have ok: "buffer_ok D ?p" using Cons.prems(2,3) o by (simp add: buffer_ok_def)
  have w: "waiting_pcm ?p = waiting_pcm p @ f"
    using Cons.prems(2) o by (simp add: waiting_pcm_def buffer_ok_def)
  have room: "pcm_buffer_occupancy ?p + length (concat fs) \<le> 1376 * frame_bytes D" using Cons.prems(3) by simp
  obtain p' where "add_frames D False fs ?p = Some p'" "buffer_ok D p'" "waiting_pcm p' = waiting_pcm ?p @ concat fs"
    "same_but_buffer ?p p'"
    by (rule Cons.IH [OF _ ok room])
  then show ?case using Cons.prems(1) [of p'] add w by (simp add: same_but_buffer_def)
qed

end
