(* ===== verification/Buffered_Stream.thy ===== *)
theory Buffered_Stream
  imports Buffered_Runs
begin

text \<open>
  The thread of buffered audio on a sound stream: consecutive blocks, each of which the decoder renders as
  the frames its timestamp names. No turn is undefined, and what is sent to the player under a
  timestamp are the frames of that time.
\<close>

section \<open>Frames by their time\<close>

primrec frames_from :: "(u32 \<Rightarrow> bytes) \<Rightarrow> u32 \<Rightarrow> nat \<Rightarrow> bytes" where
  "frames_from F ts 0 = []"
| "frames_from F ts (Suc n) = F ts @ frames_from F (ts + 1) n"

lemma frames_from_add: "frames_from F ts (m + n) = frames_from F ts m @ frames_from F (ts + of_nat m) n"
  by (induction m arbitrary: ts) (simp_all add: algebra_simps)

definition frames_of :: "'c decoder \<Rightarrow> (u32 \<Rightarrow> bytes) \<Rightarrow> bool" where
  "frames_of D F \<longleftrightarrow> (\<forall>t. length (F t) = frame_bytes D)"

lemma length_frames_from: "frames_of D F \<Longrightarrow> length (frames_from F ts n) = n * frame_bytes D"
  by (induction n arbitrary: ts) (simp_all add: frames_of_def)

lemma frame_bytes_pos: "0 < frame_bytes D"
  by (cases "decoded_format D") (simp_all add: frame_bytes_def)

section \<open>A sound stream\<close>

text \<open>A block with the number of its frames.\<close>

definition block_time :: "bytes \<Rightarrow> u32" where
  "block_time b = (case nctohl b 4 of None \<Rightarrow> 0 | Some ts \<Rightarrow> ts)"

fun renders :: "'c decoder \<Rightarrow> bytes \<Rightarrow> (u32 \<Rightarrow> bytes) \<Rightarrow> bytes \<times> nat \<Rightarrow> bool" where
  "renders D key F (b, n) \<longleftrightarrow> 20 \<le> length b \<and> length b \<le> 16384 \<and> n \<le> 1024 \<and>
     (\<exists>m. decipher_block D key (length b) b = Some (Some m) \<and>
       (\<forall>c. \<exists>c' fs. decoded_frames D (addADTStoPacket (int (length m) + 7) @ m) c = Some (c', fs) \<and>
          concat fs = frames_from F (block_time b) n))"

fun consecutive :: "(bytes \<times> nat) list \<Rightarrow> bool" where
  "consecutive ((b, n) # (b', n') # bs) \<longleftrightarrow> block_time b' = block_time b + of_nat n \<and> consecutive ((b', n') # bs)"
| "consecutive _ \<longleftrightarrow> True"

definition stream_ahead :: "'c decoder \<Rightarrow> bytes \<Rightarrow> (u32 \<Rightarrow> bytes) \<Rightarrow> (bytes \<times> nat) list \<Rightarrow> source \<Rightarrow> bool" where
  "stream_ahead D key F bs src \<longleftrightarrow> concat (pieces src) = concat (map (\<lambda>b. framed (fst b)) bs) \<and> ending src = Peer_closed \<and>
     list_all (renders D key F) bs \<and> consecutive bs"

text \<open>The thread's buffer: the frames from its timestamp on, up to the next block.\<close>

definition in_step :: "'c decoder \<Rightarrow> (u32 \<Rightarrow> bytes) \<Rightarrow> (bytes \<times> nat) list \<Rightarrow> processor \<Rightarrow> bool" where
  "in_step D F bs p \<longleftrightarrow> buffer_ok D p \<and> pcm_buffer_read_point_rtptime_offset p = 0 \<and>
     (\<exists>n. waiting_pcm p = frames_from F (pcm_buffer_read_point_rtptime p) n \<and>
       (n = 0 \<or> bs = [] \<or> block_time (fst (hd bs)) = pcm_buffer_read_point_rtptime p + of_nat n))"

definition conn_ok :: "bytes \<Rightarrow> buffered_conn \<Rightarrow> bool" where
  "conn_ok key conn \<longleftrightarrow> session_key conn = Some key \<and> \<not> ap2_flush_from_valid conn \<and> conn_input_rate (clock conn) \<noteq> 0"

text \<open>The silence a packet may begin with instead of its frames.\<close>

definition plays :: "'c decoder \<Rightarrow> bool \<Rightarrow> (u32 \<Rightarrow> bytes) \<Rightarrow> player_call \<Rightarrow> bool" where
  "plays D enable_dither F call \<longleftrightarrow>
     (case call of
        Reset_buffer \<Rightarrow> True
      | Put_packet ts s \<Rightarrow> s = frames_from F ts 352 \<or>
          (\<exists>z ds ds'. generate_zero_frames 352 (decoded_format D) enable_dither ds = Some (z, ds') \<and>
             s = z @ drop (length z) (frames_from F ts 352)))"

section \<open>The requests\<close>

lemma in_step_empty:
  assumes "in_step D F bs p" and "buffer_ok D p'" and "pcm_buffer_read_point_rtptime_offset p' = 0"
    and "pcm_buffer_occupancy p' = 0"
  shows "in_step D F bs p'"
  using assms(2-4) by (auto simp: in_step_def waiting_pcm_def intro: exI [of _ 0])

lemma in_step_updates [simp]:
  "in_step D F bs (p\<lparr>flushing := b\<rparr>) = in_step D F bs p"
  "in_step D F bs (p\<lparr>play_enabled := b\<rparr>) = in_step D F bs p"
  "in_step D F bs (p\<lparr>new_buffer_needed := b\<rparr>) = in_step D F bs p"
  "in_step D F bs (p\<lparr>blocks_read_in_sequence := u\<rparr>) = in_step D F bs p"
  "in_step D F bs (p\<lparr>packets_played_in_this_sequence := n\<rparr>) = in_step D F bs p"
  by (simp_all add: in_step_def buffer_ok_def waiting_pcm_def)

lemma in_step_stopped:
  assumes "in_step D F bs p"
  shows "in_step D F bs (p\<lparr>pcm_buffer_read_point_rtptime_offset := 0, blocks_read_in_sequence := 0,
           packets_played_in_this_sequence := 0, pcm_buffer_occupancy := 0, pcm_buffer_read_point := 0\<rparr>)"
    and "in_step D F bs (p\<lparr>packets_played_in_this_sequence := 0, pcm_buffer_occupancy := 0, pcm_buffer_read_point := 0,
           pcm_buffer_read_point_rtptime_offset := 0\<rparr>)"
proof -
  have "buffer_ok D p" using assms by (simp add: in_step_def)
  then show "in_step D F bs (p\<lparr>pcm_buffer_read_point_rtptime_offset := 0, blocks_read_in_sequence := 0,
           packets_played_in_this_sequence := 0, pcm_buffer_occupancy := 0, pcm_buffer_read_point := 0\<rparr>)"
    "in_step D F bs (p\<lparr>packets_played_in_this_sequence := 0, pcm_buffer_occupancy := 0, pcm_buffer_read_point := 0,
           pcm_buffer_read_point_rtptime_offset := 0\<rparr>)"
    by (simp_all add: in_step_empty [OF assms] buffer_ok_def)
qed

lemma look_keeps:
  assumes "in_step D F bs p" and "conn_ok key conn" and "look_at_requests conn p = (conn', p', dl, nf, ns)"
  shows "in_step D F bs p'" and "conn_ok key conn'" and "\<not> dl" and "new_buffer_needed p' = new_buffer_needed p"
    and "clock conn' = clock conn" and "flushing p' = flush_is_active conn p"
proof -
  let ?q = "stop_playing conn p"
  have v: "note_flush_start conn p = p" using assms(2) by (simp add: note_flush_start_def conn_ok_def)
  have q: "in_step D F bs (stop_playing conn p)" "new_buffer_needed (stop_playing conn p) = new_buffer_needed p"
    using assms(1) in_step_stopped(1) [OF assms(1)] by (simp_all add: stop_playing_def)
  moreover have "p' = (if flushing p \<and> \<not> flush_is_active conn p then ?q\<lparr>blocks_read_in_sequence := 1\<rparr> else ?q)
      \<lparr>flushing := flush_is_active conn p, play_enabled := ap2_play_enabled conn\<rparr>"
    using assms(3) by (simp only: look_at_requests_def v Let_def prod.inject)
  ultimately show "in_step D F bs p'" "new_buffer_needed p' = new_buffer_needed p" "flushing p' = flush_is_active conn p"
    by simp_all
  show "conn_ok key conn'" "\<not> dl" "clock conn' = clock conn"
  proof -
    have "conn' = close_request conn p" "dl = (ap2_flush_requested conn \<and> ap2_flush_from_valid conn)"
      using assms(3) by (simp_all only: look_at_requests_def Let_def prod.inject)
    then show "conn_ok key conn'" "\<not> dl" "clock conn' = clock conn"
      using assms(2) by (simp_all add: conn_ok_def close_request_def)
  qed
qed

lemma start_flush_keeps:
  assumes "in_step D F bs p" and "start_flush nf ns p = (p', calls)"
  shows "in_step D F bs p'" and "set calls \<subseteq> {Reset_buffer}" and "new_buffer_needed p' = new_buffer_needed p" and "flushing p' = flushing p"
  using assms in_step_stopped(2) [OF assms(1)] by (auto simp: start_flush_def split: if_splits)

section \<open>Sending frames\<close>

text \<open>The formats whose silence is known, and its length.\<close>

lemma zero_samples_length:
  assumes "zero_samples n fmt di ds = Some (z, ds')"
  shows "length z * 2 \<le> n * decoded_bytes_per_frame fmt"
  using assms
proof (induction n arbitrary: ds z ds')
  case (Suc n)
  then obtain x b bs ds1 where b: "zero_sample_bytes fmt x = Some b" "zero_samples n fmt di ds1 = Some (bs, ds')" "z = b @ bs"
    by (auto split: option.splits prod.splits)
  have "length b * 2 \<le> decoded_bytes_per_frame fmt"
    using b(1) by (cases fmt) auto
  with Suc.IH [OF b(2)] b(3) show ?case by simp
qed simp

lemma silence_known:
  assumes "format_bits fmt \<noteq> None"
  obtains z ds' where "generate_zero_frames 352 fmt di ds = Some (z, ds')" and "length z \<le> 352 * decoded_bytes_per_frame fmt"
proof -
  obtain bits where b: "format_bits fmt = Some bits" using assms by blast
  have some: "zero_sample_bytes fmt h \<noteq> None" for h using assms by (cases fmt) auto
  have "\<exists>r. zero_samples n fmt di ds = Some r" for n
  proof (induction n arbitrary: ds)
    case (Suc n)
    obtain t ds1 where t: "tpdf bits ds = (t, ds1)" by fastforce
    obtain s where "zero_sample_bytes fmt (if di then t else 0) = Some s" using some by blast
    then show ?case using Suc [of ds1] b t by auto
  qed simp
  then obtain z ds' where z: "zero_samples (352 * 2) fmt di ds = Some (z, ds')" by fastforce
  then have "length z \<le> 352 * decoded_bytes_per_frame fmt" using zero_samples_length [OF z] by simp
  then show ?thesis using that z b by (simp add: generate_zero_frames_def)
qed

lemma length_waiting:
  assumes "buffer_ok D p"
  shows "length (waiting_pcm p) = pcm_buffer_occupancy p - pcm_buffer_read_point p"
  using assms by (simp add: waiting_pcm_def buffer_ok_def)

text \<open>What is next is sent, silenced or not, and the rest stays as it is.\<close>

lemma waiting_split:
  assumes "buffer_ok D p" and "k \<le> length (waiting_pcm p)"
  shows "rd_block (pcm_buffer p) (pcm_buffer_read_point p) k = Some (take k (waiting_pcm p))"
proof -
  have k: "k \<le> pcm_buffer_occupancy p - pcm_buffer_read_point p" using assms(2) length_waiting [OF assms(1)] by simp
  then have "pcm_buffer_read_point p + k \<le> length (pcm_buffer p)" using assms(1) unfolding buffer_ok_def by linarith
  then show ?thesis
    using k by (simp add: rd_block_def waiting_pcm_def drop_take)
qed

lemma send_frames_keeps:
  assumes "buffer_ok D p" and "format_bits (decoded_format D) \<noteq> None" and "352 * frame_bytes D \<le> length (waiting_pcm p)"
  obtains p' s where "send_frames D di p = Some (p', [Put_packet (pcm_buffer_read_point_rtptime p + pcm_buffer_read_point_rtptime_offset p) s])"
    and "s = take (352 * frame_bytes D) (waiting_pcm p) \<or>
      (\<exists>z ds ds'. generate_zero_frames 352 (decoded_format D) di ds = Some (z, ds') \<and>
         s = z @ drop (length z) (take (352 * frame_bytes D) (waiting_pcm p)))"
    and "buffer_ok D p'" and "drop (352 * frame_bytes D) (waiting_pcm p') = drop (352 * frame_bytes D) (waiting_pcm p)"
    and "p' = p\<lparr>pcm_buffer := pcm_buffer p', silence := silence p', packets_played_in_this_sequence := packets_played_in_this_sequence p + 1\<rparr>"
proof (cases "blocks_read_in_sequence p \<le> 2 \<and> blocks_read_in_sequence p \<noteq> blocks_read p")
  case False
  let ?p = "p\<lparr>packets_played_in_this_sequence := packets_played_in_this_sequence p + 1\<rparr>"
  have "mute_transients D di p = Some p" using False by (auto simp: mute_transients_def)
  then have s: "send_frames D di p = Some (?p, [Put_packet (pcm_buffer_read_point_rtptime p +
      pcm_buffer_read_point_rtptime_offset p) (take (352 * frame_bytes D) (waiting_pcm p))])"
    using waiting_split [OF assms(1,3)] by (simp add: send_frames_def)
  have ok: "buffer_ok D ?p" "waiting_pcm ?p = waiting_pcm p" using assms(1) by (simp_all add: buffer_ok_def waiting_pcm_def)
  show ?thesis by (rule that [OF s]) (use ok in simp_all)
next
  case True
  obtain z ds' where z: "generate_zero_frames 352 (decoded_format D) di (silence p) = Some (z, ds')" "length z \<le> 352 * frame_bytes D"
    using silence_known [OF assms(2)] by (metis frame_bytes_def)
  let ?r = "pcm_buffer_read_point p" and ?b = "pcm_buffer p"
  have room: "?r + length z \<le> length ?b"
    using z(2) assms(1,3) length_waiting [OF assms(1)] unfolding buffer_ok_def by linarith
  let ?q = "p\<lparr>pcm_buffer := take ?r ?b @ z @ drop (?r + length z) ?b, silence := ds'\<rparr>"
  have q: "mute_transients D di p = Some ?q"
    using True z(1) wr_block_mid [OF room] by (simp add: mute_transients_def)
  have ok: "buffer_ok D ?q" using assms(1) room by (simp add: buffer_ok_def)
  have zl: "length z \<le> pcm_buffer_occupancy p - ?r" using z(2) assms(3) length_waiting [OF assms(1)] by simp
  have w: "waiting_pcm ?q = z @ drop (length z) (waiting_pcm p)"
    using assms(1) zl room by (simp add: waiting_pcm_def buffer_ok_def drop_take add.commute)
  then have lw: "length (waiting_pcm ?q) = length (waiting_pcm p)" using zl length_waiting [OF assms(1)] by simp
  let ?p = "?q\<lparr>packets_played_in_this_sequence := packets_played_in_this_sequence p + 1\<rparr>"
  have s: "send_frames D di p = Some (?p, [Put_packet (pcm_buffer_read_point_rtptime p +
      pcm_buffer_read_point_rtptime_offset p) (take (352 * frame_bytes D) (waiting_pcm ?q))])"
    using waiting_split [OF ok, of "352 * frame_bytes D"] assms(3) lw q by (simp add: send_frames_def)
  have t: "take (352 * frame_bytes D) (waiting_pcm ?q) = z @ drop (length z) (take (352 * frame_bytes D) (waiting_pcm p))"
    unfolding w using z(2) by (simp add: drop_take)
  have d: "drop (352 * frame_bytes D) (waiting_pcm ?q) = drop (352 * frame_bytes D) (waiting_pcm p)"
    unfolding w using z(2) by simp
  have p: "buffer_ok D ?p" "waiting_pcm ?p = waiting_pcm ?q" using ok by (simp_all add: buffer_ok_def waiting_pcm_def)
  show ?thesis
    by (rule that [OF s]) (use t d p z(1) in \<open>auto simp del: waiting_pcm_def\<close>)
qed

text \<open>The clock, whatever is asked of it, keeps its rate and answers.\<close>

lemma timing_rate:
  assumes "have_ptp_timing_information shm now later clk = (have, clk')"
  shows "conn_input_rate clk' = conn_input_rate clk"
  using assms
  by (auto simp: have_ptp_timing_information_def get_ptp_anchor_local_time_info_def conn_input_rate_def use_anchor_def
      change_clock_def Let_def split: prod.splits if_splits)

lemma local_time_found:
  assumes "conn_input_rate clk \<noteq> 0"
  obtains t clk' where "frame_to_local_time shm now later ts clk = Some (t, clk')" and "conn_input_rate clk' = conn_input_rate clk"
proof (cases "timing_type clk")
  case Ts_ntp
  then show ?thesis using that by (simp add: frame_to_local_time_def)
next
  case Ts_ptp
  obtain response anchor clk' where g: "get_ptp_anchor_local_time_info shm now later clk = (response, anchor, clk')"
    by (cases "get_ptp_anchor_local_time_info shm now later clk")
  have "have_ptp_timing_information shm now later clk = (response = Clock_ok, clk')" using g by (simp add: have_ptp_timing_information_def)
  then have r: "conn_input_rate clk' = conn_input_rate clk" by (rule timing_rate)
  then show ?thesis
    using that assms g Ts_ptp
    by (cases "response = Clock_ok"; cases "anchor_or_zero anchor") (simp_all add: frame_to_local_time_def frame_to_ptp_local_time_def)
qed

lemma in_step_advanced:
  assumes "frames_of D F" and "in_step D F bs p" and "352 * frame_bytes D \<le> length (waiting_pcm p)"
    and "buffer_ok D q" and "drop (352 * frame_bytes D) (waiting_pcm q) = drop (352 * frame_bytes D) (waiting_pcm p)"
    and "q = p\<lparr>pcm_buffer := b, silence := ds, packets_played_in_this_sequence := k\<rparr>"
  shows "in_step D F bs (q\<lparr>pcm_buffer_read_point_rtptime := pcm_buffer_read_point_rtptime q + 352,
      pcm_buffer_read_point := pcm_buffer_read_point q + 352 * frame_bytes D\<rparr>)"
    and "take (352 * frame_bytes D) (waiting_pcm p) = frames_from F (pcm_buffer_read_point_rtptime p) 352"
proof -
  let ?ts = "pcm_buffer_read_point_rtptime p" and ?k = "352 * frame_bytes D"
  obtain n where n: "waiting_pcm p = frames_from F ?ts n" "n = 0 \<or> bs = [] \<or> block_time (fst (hd bs)) = ?ts + of_nat n"
    using assms(2) by (auto simp: in_step_def)
  have "352 * frame_bytes D \<le> n * frame_bytes D" using assms(3) n(1) length_frames_from [OF assms(1)] by simp
  then have "352 \<le> n" using frame_bytes_pos [of D] by simp
  then obtain m where m: "n = 352 + m" using le_Suc_ex by blast
  have w: "waiting_pcm p = frames_from F ?ts 352 @ frames_from F (?ts + 352) m"
    using n(1) unfolding m by (simp add: frames_from_add)
  have l: "length (frames_from F ?ts 352) = ?k" by (rule length_frames_from [OF assms(1)])
  show "take ?k (waiting_pcm p) = frames_from F ?ts 352" unfolding w using l by simp
  let ?q = "q\<lparr>pcm_buffer_read_point_rtptime := pcm_buffer_read_point_rtptime q + 352, pcm_buffer_read_point := pcm_buffer_read_point q + ?k\<rparr>"
  have "pcm_buffer_read_point q + ?k \<le> pcm_buffer_occupancy q"
    using assms(2,3,6) length_waiting [of D p] by (auto simp: in_step_def buffer_ok_def)
  then have ok: "buffer_ok D ?q" using assms(4) by (simp add: buffer_ok_def)
  have "waiting_pcm ?q = drop ?k (waiting_pcm q)" by (simp add: waiting_pcm_def add.commute)
  also have "\<dots> = frames_from F (?ts + 352) m" unfolding assms(5) w using l by simp
  finally have "waiting_pcm ?q = frames_from F (?ts + 352) m" .
  moreover have "m = 0 \<or> bs = [] \<or> block_time (fst (hd bs)) = ?ts + 352 + of_nat m"
    using n(2) m by (auto simp: algebra_simps)
  ultimately show "in_step D F bs ?q"
    using ok assms(2,6) by (auto simp: in_step_def)
qed

lemma move_down_keeps:
  assumes "in_step D F bs p"
  obtains p' where "move_down p = Some p'" "in_step D F bs p'" "pcm_buffer_read_point p' = 0"
    "pcm_buffer_occupancy p' = pcm_buffer_occupancy p - pcm_buffer_read_point p" "flushing p' = flushing p"
    "new_buffer_needed p' = new_buffer_needed p"
proof (cases "pcm_buffer_read_point p = 0")
  case True
  then show ?thesis using assms that [of p] by (simp add: move_down_def)
next
  case False
  have ok: "buffer_ok D p" using assms by (simp add: in_step_def)
  let ?n = "pcm_buffer_occupancy p - pcm_buffer_read_point p"
  show ?thesis
  proof (cases "?n > 0")
    case False
    let ?p = "p\<lparr>pcm_buffer_occupancy := 0, pcm_buffer_read_point := 0\<rparr>"
    have "in_step D F bs ?p" by (rule in_step_empty [OF assms]) (use assms ok in \<open>simp_all add: in_step_def buffer_ok_def\<close>)
    then show ?thesis using that [of ?p] False \<open>pcm_buffer_read_point p \<noteq> 0\<close> by (simp add: move_down_def)
  next
    case True
    have lw: "length (waiting_pcm p) = ?n" by (rule length_waiting [OF ok])
    have rd: "rd_block (pcm_buffer p) (pcm_buffer_read_point p) ?n = Some (waiting_pcm p)"
      using waiting_split [OF ok, of ?n] lw by simp
    have fits: "0 + length (waiting_pcm p) \<le> length (pcm_buffer p)" using ok lw unfolding buffer_ok_def by linarith
    let ?b = "waiting_pcm p @ drop ?n (pcm_buffer p)"
    have wr: "wr_block (pcm_buffer p) 0 (waiting_pcm p) = Some ?b"
      using wr_block_mid [OF fits] lw by simp
    let ?p = "p\<lparr>pcm_buffer := ?b, pcm_buffer_occupancy := ?n, pcm_buffer_read_point := 0\<rparr>"
    have "buffer_ok D ?p" using ok fits lw by (simp add: buffer_ok_def)
    moreover have "waiting_pcm ?p = waiting_pcm p" using lw by (simp add: waiting_pcm_def [of ?p])
    ultimately have "in_step D F bs ?p" using assms by (simp add: in_step_def)
    then show ?thesis using that [of ?p] True \<open>pcm_buffer_read_point p \<noteq> 0\<close> rd wr by (simp add: move_down_def)
  qed
qed

lemma next_frames_keeps:
  assumes "frames_of D F" and "in_step D F bs p" and "352 * frame_bytes D \<le> length (waiting_pcm p)"
    and "format_bits (decoded_format D) \<noteq> None" and "conn_input_rate clk \<noteq> 0"
  obtains clk' p' calls where "next_frames D di e clk p = Some (clk', p', calls)" and "in_step D F bs p'"
    and "conn_input_rate clk' = conn_input_rate clk" and "\<forall>c \<in> set calls. plays D di F c"
    and "flushing p' = flushing p" and "new_buffer_needed p' = new_buffer_needed p"
proof (cases "play_enabled p")
  case False
  then show ?thesis using assms(2) that [of clk p "[]"] by (simp add: next_frames_def)
next
  case True
  obtain have_it clk1 where t: "have_ptp_timing_information (shm_at e 0) (time_at e 0) (time_at e 1) clk = (have_it, clk1)" by fastforce
  have r1: "conn_input_rate clk1 = conn_input_rate clk" by (rule timing_rate [OF t])
  obtain should clk2 where l: "frame_to_local_time (shm_at e 1) (time_at e 2) (time_at e 3) (pcm_buffer_read_point_rtptime p) clk1 = Some (should, clk2)"
    "conn_input_rate clk2 = conn_input_rate clk1"
    by (rule local_time_found [of clk1]) (use assms(5) r1 in simp_all)
  have ok: "buffer_ok D p" and offset: "pcm_buffer_read_point_rtptime_offset p = 0" using assms(2) by (simp_all add: in_step_def)
  consider "\<not> have_it" | "have_it" "should = None" | t where "have_it" "should = Some t" by (cases should) auto
  then show ?thesis
  proof cases
    case 1
    then show ?thesis using assms(2) that [of clk1 p "[]"] True t r1 by (simp add: next_frames_def)
  next
    case 2
    then show ?thesis using assms(2) that [of clk2 p "[]"] True t l r1 by (simp add: next_frames_def)
  next
    case 3
    let ?lead = "lead_time t (time_at e 4)"
    let ?next = "\<lambda>q. q\<lparr>pcm_buffer_read_point_rtptime := pcm_buffer_read_point_rtptime q + 352,
        pcm_buffer_read_point := pcm_buffer_read_point q + 352 * frame_bytes D\<rparr>"
    show ?thesis
    proof (cases "?lead < 30000000000 \<and> 0 \<le> ?lead")
      case False
      have "p = p\<lparr>pcm_buffer := pcm_buffer p, silence := silence p, packets_played_in_this_sequence := packets_played_in_this_sequence p\<rparr>"
        by simp
      then have "in_step D F bs (?next p)" by (rule in_step_advanced(1) [OF assms(1-3) ok refl])
      moreover have "next_frames D di e clk p = Some (clk2, ?next p, [])"
        using False True t l 3 by (auto simp: next_frames_def Let_def)
      ultimately show ?thesis using that r1 l(2) by simp
    next
      case lead: True
      obtain q s where q: "send_frames D di p = Some (q, [Put_packet (pcm_buffer_read_point_rtptime p + pcm_buffer_read_point_rtptime_offset p) s])"
        "s = take (352 * frame_bytes D) (waiting_pcm p) \<or>
          (\<exists>z ds ds'. generate_zero_frames 352 (decoded_format D) di ds = Some (z, ds') \<and>
             s = z @ drop (length z) (take (352 * frame_bytes D) (waiting_pcm p)))"
        "buffer_ok D q" "drop (352 * frame_bytes D) (waiting_pcm q) = drop (352 * frame_bytes D) (waiting_pcm p)"
        "q = p\<lparr>pcm_buffer := pcm_buffer q, silence := silence q, packets_played_in_this_sequence := packets_played_in_this_sequence p + 1\<rparr>"
        by (rule send_frames_keeps [OF ok assms(4,3)])
      have step: "in_step D F bs (?next q)"
        "take (352 * frame_bytes D) (waiting_pcm p) = frames_from F (pcm_buffer_read_point_rtptime p) 352"
        using in_step_advanced [OF assms(1-3) q(3-5)] by simp_all
      let ?call = "Put_packet (pcm_buffer_read_point_rtptime p) s"
      have "plays D di F ?call" using q(2) step(2) by (simp add: plays_def)
      moreover have "next_frames D di e clk p = Some (clk2, ?next q, [?call])"
        using lead True t l 3 q(1) offset by (simp add: next_frames_def Let_def)
      moreover have "flushing q = flushing p" "new_buffer_needed q = new_buffer_needed p" by (subst q(5); simp)+
      ultimately show ?thesis using that step(1) r1 l(2) by simp
    qed
  qed
qed

lemma play_part_keeps:
  assumes "frames_of D F" and "in_step D F bs p" and "format_bits (decoded_format D) \<noteq> None" and "conn_input_rate clk \<noteq> 0"
    and "player_is_full (conn_input_rate clk) (player_buffer_occupancy e) \<Longrightarrow> \<not> new_buffer_needed p"
  obtains clk' p' calls where "play_part D di e clk p = Some (clk', p', calls)" and "in_step D F bs p'"
    and "conn_input_rate clk' = conn_input_rate clk" and "\<forall>c \<in> set calls. plays D di F c" and "flushing p' = flushing p"
    and "new_buffer_needed p' \<Longrightarrow> pcm_buffer_read_point p' = 0 \<and> pcm_buffer_occupancy p' < 352 * frame_bytes D"
    and "new_buffer_needed p' \<Longrightarrow> calls = [] \<and> \<not> player_is_full (conn_input_rate clk) (player_buffer_occupancy e)"
proof -
  have ok: "buffer_ok D p" using assms(2) by (simp add: in_step_def)
  consider "player_is_full (conn_input_rate clk) (player_buffer_occupancy e)"
    | "\<not> player_is_full (conn_input_rate clk) (player_buffer_occupancy e)" "pcm_buffer_occupancy p - pcm_buffer_read_point p \<ge> 352 * frame_bytes D"
    | "\<not> player_is_full (conn_input_rate clk) (player_buffer_occupancy e)" "pcm_buffer_occupancy p - pcm_buffer_read_point p < 352 * frame_bytes D"
    by linarith
  then show ?thesis
  proof cases
    case 1
    then show ?thesis using that [of clk p "[]"] assms(2,5) by (simp add: play_part_def)
  next
    case 2
    let ?p = "p\<lparr>new_buffer_needed := False\<rparr>"
    have fits: "352 * frame_bytes D \<le> length (waiting_pcm ?p)" using 2(2) length_waiting [OF ok] by (simp add: waiting_pcm_def)
    obtain clk' p' calls where "next_frames D di e clk ?p = Some (clk', p', calls)" "in_step D F bs p'"
      "conn_input_rate clk' = conn_input_rate clk" "\<forall>c \<in> set calls. plays D di F c" "flushing p' = flushing ?p"
      "new_buffer_needed p' = new_buffer_needed ?p"
      by (rule next_frames_keeps [OF assms(1) _ fits assms(3,4), of bs]) (use assms(2) in simp_all)
    then show ?thesis using that [of clk' p' calls] 2 by (simp add: play_part_def)
  next
    case 3
    let ?p = "p\<lparr>new_buffer_needed := True\<rparr>"
    obtain p' where "move_down ?p = Some p'" "in_step D F bs p'" "pcm_buffer_read_point p' = 0"
      "pcm_buffer_occupancy p' = pcm_buffer_occupancy ?p - pcm_buffer_read_point ?p" "flushing p' = flushing ?p"
      "new_buffer_needed p' = new_buffer_needed ?p"
      by (rule move_down_keeps [of D F bs ?p]) (use assms(2) in simp_all)
    then show ?thesis using that [of clk p' "[]"] 3 by (simp add: play_part_def)
  qed
qed

section \<open>Taking a block\<close>

lemma renders_head:
  assumes "renders D key F (b, n)"
  shows "rd_block (b @ junk) 1 3 \<noteq> None" and "nctohl (b @ junk) 4 = Some (block_time b)"
    and "decipher_block D key (length b) (b @ junk) = decipher_block D key (length b) b"
proof -
  have len: "20 \<le> length b" using assms by simp
  have rd: "i + k \<le> length b \<Longrightarrow> rd_block (b @ junk) i k = rd_block b i k" for i k by (simp add: rd_block_def)
  show "rd_block (b @ junk) 1 3 \<noteq> None" using len by (simp add: rd_block_def)
  have "length (take 4 (drop 4 b)) = Suc (Suc (Suc (Suc 0)))" using len by simp
  then obtain b0 b1 b2 b3 where "take 4 (drop 4 b) = [b0, b1, b2, b3]" unfolding length_Suc_conv by auto
  then have "nctohl b 4 \<noteq> None" using len by (simp add: nctohl_def rd_block_def)
  moreover have "nctohl (b @ junk) 4 = nctohl b 4" using rd [of 4 4] len by (simp add: nctohl_def)
  ultimately show "nctohl (b @ junk) 4 = Some (block_time b)" by (auto simp: block_time_def)
  show "decipher_block D key (length b) (b @ junk) = decipher_block D key (length b) b"
    using rd [of "length b - 8" 8] rd [of 4 8] rd [of 12 "length b - 20"] len by (simp add: decipher_block_def)
qed

lemma judge_block_some:
  assumes "conn_input_rate clk \<noteq> 0"
  obtains clk' outdated too_soon where "judge_block e start ts clk = Some (clk', outdated, too_soon)" "conn_input_rate clk' = conn_input_rate clk"
proof -
  obtain t clk' where "frame_to_local_time (shm_at e 2) (time_at e 5) (time_at e 6) ts clk = Some (t, clk')"
    "conn_input_rate clk' = conn_input_rate clk"
    by (rule local_time_found [OF assms])
  then show ?thesis using that by (cases t) (auto simp: judge_block_def)
qed

text \<open>Decoding puts the frames of the block behind those that are waiting.\<close>

lemma decode_block_adds:
  assumes "frames_of D F" and "renders D key F (b, n)" and "buffer_ok D p" and "packet p = b @ junk"
    and "pcm_buffer_occupancy p + 1024 * frame_bytes D \<le> 1376 * frame_bytes D"
  obtains c' p' where "decode_block D (Some key) False (length b) c p = Some (c', p')" and "buffer_ok D p'"
    and "waiting_pcm p' = waiting_pcm p @ frames_from F (block_time b) n" and "same_but_buffer p p'"
proof -
  obtain m where m: "decipher_block D key (length b) b = Some (Some m)"
    "\<And>c. \<exists>c' fs. decoded_frames D (addADTStoPacket (int (length m) + 7) @ m) c = Some (c', fs) \<and> concat fs = frames_from F (block_time b) n"
    using assms(2) by auto
  obtain c' fs where fs: "decoded_frames D (addADTStoPacket (int (length m) + 7) @ m) c = Some (c', fs)"
    "concat fs = frames_from F (block_time b) n"
    using m(2) by blast
  have "length (concat fs) \<le> 1024 * frame_bytes D"
    using assms(2) length_frames_from [OF assms(1)] by (simp add: fs(2))
  then have room: "pcm_buffer_occupancy p + length (concat fs) \<le> 1376 * frame_bytes D" using assms(5) by linarith
  obtain p' where "add_frames D False fs p = Some p'" "buffer_ok D p'" "waiting_pcm p' = waiting_pcm p @ concat fs" "same_but_buffer p p'"
    by (rule add_frames_waiting [OF assms(3) room])
  then show ?thesis
    using that decode_loop_frames [OF fs(1)] m(1) renders_head(3) [OF assms(2)] assms(4) fs(2)
    by (simp add: decode_block_def)
qed

text \<open>The state of the thread: its stream, its requests and its buffer.\<close>

definition thread_ok :: "'c decoder \<Rightarrow> bytes \<Rightarrow> (u32 \<Rightarrow> bytes) \<Rightarrow> 'c audio_thread \<Rightarrow> bool" where
  "thread_ok D key F s \<longleftrightarrow> (\<exists>bs. stream_ahead D key F bs (ring s) \<and> in_step D F bs (work s)) \<and> conn_ok key (requests s)"

lemma in_step_fresh:
  assumes "in_step D F bs' p" and "buffer_ok D q" and "pcm_buffer_read_point_rtptime_offset q = 0"
    and "waiting_pcm q = waiting_pcm r @ frames_from F ts n" and "waiting_pcm r = frames_from F (pcm_buffer_read_point_rtptime q) k"
    and "ts = pcm_buffer_read_point_rtptime q + of_nat k" and "bs = [] \<or> block_time (fst (hd bs)) = ts + of_nat n"
  shows "in_step D F bs q"
proof -
  have "waiting_pcm q = frames_from F (pcm_buffer_read_point_rtptime q) (k + n)"
    unfolding frames_from_add assms(4,5) assms(6) [symmetric] ..
  moreover have "k + n = 0 \<or> bs = [] \<or> block_time (fst (hd bs)) = pcm_buffer_read_point_rtptime q + of_nat (k + n)"
    using assms(6,7) by (auto simp: algebra_simps)
  ultimately show ?thesis using assms(2,3) unfolding in_step_def by blast
qed

lemma consecutive_next:
  "consecutive ((b, n) # bs) \<Longrightarrow> consecutive bs \<and> (bs = [] \<or> block_time (fst (hd bs)) = block_time b + of_nat n)"
  by (cases bs) auto

lemma made_ready:
  assumes "in_step D F ((b, n) # bs) p" and "drop_old \<or> pcm_buffer_read_point p = 0 \<and> pcm_buffer_occupancy p < 352 * frame_bytes D"
  obtains k where "buffer_ok D (made_ready drop_old (block_time b) p)"
    and "waiting_pcm (made_ready drop_old (block_time b) p) =
      frames_from F (pcm_buffer_read_point_rtptime (made_ready drop_old (block_time b) p)) k"
    and "block_time b = pcm_buffer_read_point_rtptime (made_ready drop_old (block_time b) p) + of_nat k"
    and "pcm_buffer_occupancy (made_ready drop_old (block_time b) p) < 352 * frame_bytes D"
    and "packet (made_ready drop_old (block_time b) p) = packet p"
    and "pcm_buffer_read_point_rtptime_offset (made_ready drop_old (block_time b) p) = 0"
    and "drop_old \<Longrightarrow> k = 0"
proof -
  have ok: "buffer_ok D p" "pcm_buffer_read_point_rtptime_offset p = 0" using assms(1) by (simp_all add: in_step_def)
  show ?thesis
  proof (cases "drop_old \<or> pcm_buffer_occupancy p = 0")
    case True
    let ?q = "p\<lparr>pcm_buffer_occupancy := 0, pcm_buffer_read_point_rtptime := block_time b, pcm_buffer_read_point := 0\<rparr>"
    have q: "made_ready drop_old (block_time b) p = ?q" using True by (auto simp: made_ready_def)
    have "buffer_ok D ?q" "waiting_pcm ?q = []" using ok by (simp_all add: buffer_ok_def waiting_pcm_def)
    then show ?thesis using that [of 0] frame_bytes_pos [of D] ok(2) unfolding q by simp
  next
    case False
    then have q: "made_ready drop_old (block_time b) p = p" by (simp add: made_ready_def)
    obtain k where k: "waiting_pcm p = frames_from F (pcm_buffer_read_point_rtptime p) k"
      "k = 0 \<or> block_time b = pcm_buffer_read_point_rtptime p + of_nat k"
      using assms(1) by (auto simp: in_step_def)
    have "pcm_buffer_read_point p = 0" using False assms(2) by simp
    then have "length (waiting_pcm p) \<noteq> 0" using length_waiting [OF ok(1)] False by simp
    then have "k \<noteq> 0" using k(1) by (cases k) auto
    then show ?thesis using that [of k] k ok False assms(2) unfolding q by simp
  qed
qed

lemma take_block_keeps:
  assumes "frames_of D F" and "in_step D F ((b, n) # bs) p" and "renders D key F (b, n)" and "consecutive ((b, n) # bs)"
    and "conn_ok key conn" and "packet p = b @ junk"
    and "flushing p \<or> new_buffer_needed p \<and> pcm_buffer_read_point p = 0 \<and> pcm_buffer_occupancy p < 352 * frame_bytes D"
  obtains conn' c' p' where "take_block D e False until (length b) conn c p = Some (conn', c', p')"
    and "in_step D F bs p'" and "conn_ok key conn'" and "new_buffer_needed p' = new_buffer_needed p"
    and "conn_input_rate (clock conn') = conn_input_rate (clock conn)"
proof -
  obtain h where h: "rd_block (packet p) 1 3 = Some h" using renders_head(1) [OF assms(3), of junk] assms(6) by auto
  have ts: "nctohl (packet p) 4 = Some (block_time b)" using renders_head(2) [OF assms(3), of junk] assms(6) by simp
  define seq :: u32 where "seq = word_of_int (uint (h ! 0) * 65536 + uint (h ! 1) * 256 + uint (h ! 2))"
  let ?p1 = "p\<lparr>blocks_read := blocks_read p + 1, blocks_read_in_sequence := blocks_read_in_sequence p + 1, block_seq_no := seq\<rparr>"
  have fp: "flushing ?p1 = flushing p" by simp
  have rate: "conn_input_rate (clock conn) \<noteq> 0" using assms(5) by (simp add: conn_ok_def)
  obtain clk outdated too_soon where j: "judge_block e (connection_start_time conn) (block_time b) (clock conn) = Some (clk, outdated, too_soon)"
    "conn_input_rate clk = conn_input_rate (clock conn)"
    by (rule judge_block_some [OF rate])
  let ?drop = "flushing p \<or> outdated \<or> too_soon"
  let ?q = "made_ready ?drop (block_time b) ?p1"
  have p1: "in_step D F ((b, n) # bs) ?p1" using assms(2) by (simp add: in_step_def buffer_ok_def waiting_pcm_def)
  obtain k where q: "buffer_ok D ?q" "waiting_pcm ?q = frames_from F (pcm_buffer_read_point_rtptime ?q) k"
    "block_time b = pcm_buffer_read_point_rtptime ?q + of_nat k" "pcm_buffer_occupancy ?q < 352 * frame_bytes D"
    "packet ?q = packet ?p1" "pcm_buffer_read_point_rtptime_offset ?q = 0" "?drop \<Longrightarrow> k = 0"
    by (rule made_ready [OF p1, of ?drop]) (use assms(7) in auto)
  have conn': "conn_ok key (conn\<lparr>clock := clk\<rparr>)" using assms(5) j(2) by (simp add: conn_ok_def)
  have key: "session_key conn = Some key" using assms(5) by (simp add: conn_ok_def)
  have fl: "flushing ?q = flushing p" "new_buffer_needed ?q = new_buffer_needed p" by (simp_all add: made_ready_def Let_def)
  have take: "take_block D e False until (length b) conn c p =
      do { (c, p) \<leftarrow> (if (flushing ?q \<and> seq = until \<or> \<not> flushing ?q \<and> new_buffer_needed ?q) \<and> \<not> too_soon
                    then decode_block D (session_key conn) False (length b) c ?q else Some (c, ?q));
           Some (conn\<lparr>clock := clk\<rparr>, c, p) }"
    by (simp only: take_block_def h ts j(1) Option.bind.simps Let_def prod.case fp flip: seq_def)
  show ?thesis
  proof (cases "(flushing p \<and> seq = until \<or> \<not> flushing p \<and> new_buffer_needed p) \<and> \<not> too_soon")
    case True
    have room: "pcm_buffer_occupancy ?q + 1024 * frame_bytes D \<le> 1376 * frame_bytes D" using q(4) by linarith
    obtain c' p' where d: "decode_block D (Some key) False (length b) c ?q = Some (c', p')" "buffer_ok D p'"
      "waiting_pcm p' = waiting_pcm ?q @ frames_from F (block_time b) n" "same_but_buffer ?q p'"
      by (rule decode_block_adds [OF assms(1,3) q(1) _ room]) (use q(5) assms(6) in simp_all)
    have same: "pcm_buffer_read_point_rtptime p' = pcm_buffer_read_point_rtptime ?q" "pcm_buffer_read_point_rtptime_offset p' = 0"
      "new_buffer_needed p' = new_buffer_needed ?q"
      using d(4) q(6) by (auto simp: same_but_buffer_def dest: arg_cong [where f = pcm_buffer_read_point_rtptime]
          arg_cong [where f = pcm_buffer_read_point_rtptime_offset] arg_cong [where f = new_buffer_needed])
    have "in_step D F bs p'"
      by (rule in_step_fresh [OF p1 d(2) same(2) d(3), where k = k])
        (use q(2,3) same(1) consecutive_next [OF assms(4)] in simp_all)
    then show ?thesis using that take True fl d(1) conn' key same(3) j(2) by simp
  next
    case False
    then have "k = 0" using q(7) assms(7) by auto
    then have "in_step D F bs ?q" using q(1,2,6) by (auto simp: in_step_def intro: exI [of _ 0])
    then show ?thesis using that [of "conn\<lparr>clock := clk\<rparr>" c ?q] take False fl conn' j(2) by auto
  qed
qed

lemma block_part_keeps:
  assumes "frames_of D F" and "thread_ok D key F s"
    and "flushing (work s) \<or> new_buffer_needed (work s) \<and> pcm_buffer_read_point (work s) = 0 \<and> pcm_buffer_occupancy (work s) < 352 * frame_bytes D"
  obtains s' where "block_part D e False until s = Some s'" and "thread_ok D key F s'"
    and "new_buffer_needed (work s') = new_buffer_needed (work s)"
    and "conn_input_rate (clock (requests s')) = conn_input_rate (clock (requests s))"
proof -
  obtain bs where bs: "stream_ahead D key F bs (ring s)" "in_step D F bs (work s)" and conn: "conn_ok key (requests s)"
    using assms(2) by (auto simp: thread_ok_def)
  have plen: "length (packet (work s)) = 16384" using bs(2) by (simp add: in_step_def buffer_ok_def)
  show ?thesis
  proof (cases bs)
    case Nil
    then have "read_block (packet (work s)) (ring s) = Some (0, packet (work s), ring s)"
      using bs(1) by (simp add: read_block_def lread_sized_block_def read_loop.simps ring_read_def stream_ahead_def wr_block_def)
    then have "block_part D e False until s = Some (s\<lparr>finished := True\<rparr>)" by (simp add: block_part_def)
    then show ?thesis using that assms(2) by (simp add: thread_ok_def)
  next
    case (Cons a rest)
    obtain b n where a: "a = (b, n)" by fastforce
    have st: "concat (pieces (ring s)) = framed b @ concat (map (\<lambda>b. framed (fst b)) rest)" "ending (ring s) = Peer_closed"
      "renders D key F (b, n)" "list_all (renders D key F) rest" "consecutive ((b, n) # rest)"
      using bs(1) unfolding stream_ahead_def Cons a by simp_all
    have len: "b \<noteq> []" "length b \<le> 16384" "20 \<le> length b" using st(3) by auto
    have fits: "length b \<le> length (packet (work s))" "length b \<le> 65533" using len(2) plen by simp_all
    obtain src' where r: "read_block (packet (work s)) (ring s) = Some (int (length b), b @ drop (length b) (packet (work s)), src')"
      "concat (pieces src') = concat (map (\<lambda>b. framed (fst b)) rest)" "ending src' = ending (ring s)"
      by (rule read_block_whole [OF st(1) len(1) fits])
    let ?p = "(work s)\<lparr>packet := b @ drop (length b) (packet (work s))\<rparr>"
    have p: "in_step D F ((b, n) # rest) ?p"
      using bs(2) len plen unfolding Cons a by (simp add: in_step_def buffer_ok_def waiting_pcm_def)
    obtain conn' c' p' where tk: "take_block D e False until (length b) (requests s) (codec s) ?p = Some (conn', c', p')"
      "in_step D F rest p'" "conn_ok key conn'" "new_buffer_needed p' = new_buffer_needed ?p"
      "conn_input_rate (clock conn') = conn_input_rate (clock (requests s))"
      by (rule take_block_keeps [OF assms(1) p st(3,5) conn]) (use assms(3) in auto)
    have "0 < int (length b)" using len by simp
    then have "block_part D e False until s = Some (s\<lparr>work := p', ring := src', requests := conn', codec := c'\<rparr>)"
      using r(1) tk(1) by (simp add: block_part_def)
    moreover have "stream_ahead D key F rest src'"
      using r st consecutive_next [OF st(5)] by (simp add: stream_ahead_def)
    ultimately show ?thesis using that tk(2-5) by (auto simp: thread_ok_def)
  qed
qed

section \<open>Turns\<close>

lemma turn_keeps:
  assumes "frames_of D F" and "format_bits (decoded_format D) \<noteq> None" and "thread_ok D key F s"
    and "player_is_full (conn_input_rate (clock (requests s))) (player_buffer_occupancy e) \<Longrightarrow> \<not> new_buffer_needed (work s)"
  obtains s' calls where "turn D di e s = Some (s', calls)" and "thread_ok D key F s'" and "\<forall>c \<in> set calls. plays D di F c"
    and "conn_input_rate (clock (requests s')) = conn_input_rate (clock (requests s))"
    and "new_buffer_needed (work s') \<Longrightarrow> set calls \<subseteq> {Reset_buffer} \<and>
      \<not> player_is_full (conn_input_rate (clock (requests s))) (player_buffer_occupancy e)"
proof -
  obtain bs where bs: "stream_ahead D key F bs (ring s)" "in_step D F bs (work s)" and conn: "conn_ok key (requests s)"
    using assms(3) by (auto simp: thread_ok_def)
  obtain conn1 p1 dl nf ns where look: "look_at_requests (requests s) (work s) = (conn1, p1, dl, nf, ns)"
    by (cases "look_at_requests (requests s) (work s)")
  note l = look_keeps [OF bs(2) conn look]
  obtain p2 resets where start: "start_flush nf ns p1 = (p2, resets)" by fastforce
  note st = start_flush_keeps [OF l(1) start]
  have rate: "conn_input_rate (clock conn1) \<noteq> 0" using l(2) by (simp add: conn_ok_def)
  obtain clk p3 calls where play: "(if flushing p2 then Some (clock conn1, p2, []) else play_part D di e (clock conn1) p2) = Some (clk, p3, calls)"
    "in_step D F bs p3" "conn_input_rate clk = conn_input_rate (clock conn1)" "\<forall>c \<in> set calls. plays D di F c" "flushing p3 = flushing p2"
    "\<not> flushing p3 \<Longrightarrow> new_buffer_needed p3 \<Longrightarrow> pcm_buffer_read_point p3 = 0 \<and> pcm_buffer_occupancy p3 < 352 * frame_bytes D"
    "new_buffer_needed p3 \<Longrightarrow> calls = [] \<and> \<not> player_is_full (conn_input_rate (clock conn1)) (player_buffer_occupancy e)"
  proof (cases "flushing p2")
    case True
    then show ?thesis using that [of "clock conn1" p2 "[]"] st(1,3) l(4,5) assms(4) by auto
  next
    case False
    show ?thesis
      by (rule play_part_keeps [OF assms(1) st(1) assms(2) rate, of e di])
        (use assms(4) l(4,5) st(3) False that in simp_all)
  qed
  let ?s = "s\<lparr>requests := conn1\<lparr>clock := clk\<rparr>, work := p3\<rparr>"
  have ok: "thread_ok D key F ?s" using bs(1) play(2,3) l(2) by (auto simp: thread_ok_def conn_ok_def)
  have calls: "\<forall>c \<in> set (resets @ calls). plays D di F c" using play(4) st(2) by (auto simp: plays_def)
  show ?thesis
  proof (cases "flushing p3 \<or> new_buffer_needed p3")
    case False
    then have "turn D di e s = Some (?s, resets @ calls)" using look start play(1) by (simp add: turn_def)
    then show ?thesis using that ok calls play(3) l(5) False by simp
  next
    case True
    obtain s' where s': "block_part D e False (ap2_flush_until_sequence_number (requests ?s)) ?s = Some s'" "thread_ok D key F s'"
      "new_buffer_needed (work s') = new_buffer_needed (work ?s)" "conn_input_rate (clock (requests s')) = conn_input_rate (clock (requests ?s))"
      by (rule block_part_keeps [OF assms(1) ok]) (use True play(6) in auto)
    have "turn D di e s = Some (s', resets @ calls)"
      using look start play(1) True s'(1) l(3) by (simp add: turn_def)
    then show ?thesis using that s'(2-4) calls play(3,7) l(5) st(2) by simp
  qed
qed

end
