(* ===== verification/Rtp_Timeline.thy ===== *)
theory Rtp_Timeline
  imports Rtp_Clock Player_Ring
begin

text \<open>
  What the conversions of \<open>Rtp_Clock\<close> have in common: a timeline through an anchor, at a frame rate, with both
  divisions rounding towards the anchor. The locale proves once what a conversion there and back gives;
  both clocks are interpretations of it.
\<close>

section \<open>The contract of a timeline\<close>

text \<open>How far a frame at the distance \<open>d\<close> comes back short of where it was.\<close>

definition frame_loss :: "int \<Rightarrow> int \<Rightarrow> int" where
  "frame_loss r d = (if r dvd d * 1000000000 then 0 else sgn d)"

lemma sdiv_minus: "(- a) sdiv b = - (a sdiv (b :: int))"
  by (simp add: signed_divide_int_def sgn_mult)

lemma sdiv_pos: "0 \<le> a \<Longrightarrow> 0 < b \<Longrightarrow> a sdiv b = a div (b :: int)"
  by (cases "a = 0") (simp_all add: signed_divide_int_def)

lemma there_and_back_pos:
  assumes "0 < r" and "r \<le> 1000000000" and "0 \<le> (d :: int)"
  shows "d * 1000000000 div r * r div 1000000000 = d - frame_loss r d"
proof -
  define q where "q = d * 1000000000 div r"
  define m where "m = d * 1000000000 mod r"
  have e: "d * 1000000000 = q * r + m" by (simp add: q_def m_def)
  have m: "0 \<le> m" "m < r" using assms(1) by (auto simp: m_def)
  show ?thesis
  proof (cases "m = 0")
    case True
    then have "r dvd d * 1000000000" by (simp add: m_def dvd_eq_mod_eq_0)
    moreover have "q * r div 1000000000 = d" using e True by (metis add.right_neutral nonzero_mult_div_cancel_right
          zero_neq_numeral)
    ultimately show ?thesis by (simp add: q_def frame_loss_def)
  next
    case False
    then have ndvd: "\<not> r dvd d * 1000000000" by (simp add: m_def dvd_eq_mod_eq_0)
    then have "0 < d" using assms(3) by (cases "d = 0") auto
    moreover have "q * r div 1000000000 = d - 1"
      using e m False assms(2) by (intro int_div_pos_eq [where r = "1000000000 - m"]) auto
    ultimately show ?thesis using ndvd by (simp add: q_def frame_loss_def)
  qed
qed

lemma there_and_back:
  assumes "0 < r" and "r \<le> 1000000000"
  shows "(d * 1000000000) sdiv r * r sdiv 1000000000 = d - frame_loss r d"
proof (cases "0 \<le> d")
  case True
  have "(d * 1000000000) sdiv r = d * 1000000000 div r" using True assms(1) by (simp add: sdiv_pos)
  moreover have "0 \<le> d * 1000000000 div r * r" using True assms(1) by (simp add: pos_imp_zdiv_nonneg_iff)
  ultimately show ?thesis using there_and_back_pos [OF assms True] by (simp add: sdiv_pos)
next
  case False
  have "(- d * 1000000000) sdiv r = - d * 1000000000 div r"
    by (rule sdiv_pos) (use False assms(1) in auto)
  moreover have "0 \<le> - d * 1000000000 div r * r" using False assms(1) by (simp add: pos_imp_zdiv_nonneg_iff)
  ultimately have "(- d * 1000000000) sdiv r * r sdiv 1000000000 = - d - frame_loss r (- d)"
    using there_and_back_pos [OF assms, of "- d"] False by (simp add: sdiv_pos)
  then have "(- ((d * 1000000000) sdiv r) * r) sdiv 1000000000 = - d + frame_loss r d"
    by (simp add: sdiv_minus frame_loss_def sgn_minus)
  then show ?thesis by (simp add: sdiv_minus)
qed

lemma time_fits:
  assumes "0 < r" and "r \<le> 1000000000" and "- (2 ^ 31) \<le> d" and "d < (2 :: int) ^ 31"
  shows "\<bar>(d * 1000000000) sdiv r\<bar> \<le> 2 ^ 31 * 1000000000" "\<bar>(d * 1000000000) sdiv r * r\<bar> \<le> 2 ^ 31 * 1000000000"
proof -
  define a where "a = \<bar>d\<bar> * 1000000000"
  have a: "0 \<le> a" "a \<le> 2 ^ 31 * 1000000000" using assms(3,4) by (auto simp: a_def)
  have e: "\<bar>(d * 1000000000) sdiv r\<bar> = a div r"
  proof (cases "0 \<le> d")
    case True
    then show ?thesis using assms(1) by (simp add: sdiv_pos a_def pos_imp_zdiv_nonneg_iff)
  next
    case False
    then have "d * 1000000000 = - a" by (simp add: a_def)
    then have "(d * 1000000000) sdiv r = - (a div r)"
      using assms(1) a(1) sdiv_minus [of a r] sdiv_pos [of a r] by simp
    then show ?thesis using assms(1) a(1) by (simp add: pos_imp_zdiv_nonneg_iff)
  qed
  have "a div r \<le> a" using zdiv_mono2 [of a 1 r] a(1) assms(1) by simp
  then show "\<bar>(d * 1000000000) sdiv r\<bar> \<le> 2 ^ 31 * 1000000000" using e a by simp
  have "a div r * r \<le> a"
    using minus_mod_eq_div_mult [of a r] pos_mod_sign [of r a] assms(1) by linarith
  then show "\<bar>(d * 1000000000) sdiv r * r\<bar> \<le> 2 ^ 31 * 1000000000"
    unfolding abs_mult e using a(2) assms(1) by simp
qed

locale timeline =
  fixes ok :: "'s \<Rightarrow> bool"
    and anchor :: "'s \<Rightarrow> u32 \<times> u64"
    and rate :: "'s \<Rightarrow> int"
    and time_of :: "'s \<Rightarrow> u32 \<Rightarrow> u64"
    and frame_of :: "'s \<Rightarrow> u64 \<Rightarrow> u32 option"
  assumes rate: "ok s \<Longrightarrow> 0 < rate s \<and> rate s \<le> 1000000000"
    and time_of: "ok s \<Longrightarrow> time_of s f =
      snd (anchor s) + of_int ((sint (f - fst (anchor s)) * 1000000000) sdiv rate s)"
    and frame_of: "ok s \<Longrightarrow> frame_of s t =
      map_option (\<lambda>x. fst (anchor s) + of_int (x sdiv 1000000000)) (i64_of (sint (t - snd (anchor s)) * rate s))"
begin

lemma time_between:
  assumes "ok s"
  shows "sint (time_of s f - snd (anchor s)) = (sint (f - fst (anchor s)) * 1000000000) sdiv rate s"
proof -
  have "\<bar>(sint (f - fst (anchor s)) * 1000000000) sdiv rate s\<bar> \<le> 2 ^ 31 * 1000000000"
    using time_fits(1) [of "rate s" "sint (f - fst (anchor s))"] rate [OF assms]
      sint_range_size [of "f - fst (anchor s)"] by (simp add: word_size)
  then show ?thesis
    by (simp add: time_of [OF assms] signed_of_int signed_take_bit_int_eq_self)
qed

lemma there_and_back_frame:
  assumes "ok s"
  shows "frame_of s (time_of s f) = Some (f - of_int (frame_loss (rate s) (sint (f - fst (anchor s)))))"
proof -
  define d where "d = sint (f - fst (anchor s))"
  have d: "- (2 ^ 31) \<le> d" "d < 2 ^ 31"
    using sint_range_size [of "f - fst (anchor s)"] by (simp_all add: d_def word_size)
  define x where "x = (d * 1000000000) sdiv rate s * rate s"
  have "\<bar>x\<bar> \<le> 2 ^ 31 * 1000000000"
    unfolding x_def using time_fits(2) [of "rate s" d] rate [OF assms] d by blast
  then have "i64_of x = Some x" unfolding i64_of_def by (auto simp: abs_le_iff)
  then have "frame_of s (time_of s f) = Some (fst (anchor s) + of_int (d - frame_loss (rate s) d))"
    using there_and_back [of "rate s" d] rate [OF assms]
    by (simp add: frame_of [OF assms] time_between [OF assms] d_def x_def)
  also have "fst (anchor s) + of_int (d - frame_loss (rate s) d) = f - of_int (frame_loss (rate s) d)"
    by (simp add: d_def)
  finally show ?thesis by (simp add: d_def)
qed

end

section \<open>Both clocks keep it\<close>

text \<open>A moment: the local time (twice, as it may be read twice), the shared record and the connection.\<close>

type_synonym moment = "u64 \<times> u64 \<times> shm_structure option \<times> rtp_conn"

fun ntp_anchor :: "moment \<Rightarrow> u32 \<times> u64" where
  "ntp_anchor (now, _, _, c) = (anchor_rtptime c, anchor_time c - local_to_remote_time_difference_now now c)"

fun ntp_ok :: "moment \<Rightarrow> bool" where
  "ntp_ok (_, _, _, c) = anchor_remote_info_is_valid c"

fun ntp_time :: "moment \<Rightarrow> u32 \<Rightarrow> u64" where
  "ntp_time (now, _, _, c) f = the (frame_to_ntp_local_time now f c)"

fun ntp_frame :: "moment \<Rightarrow> u64 \<Rightarrow> u32 option" where
  "ntp_frame (now, _, _, c) t = map_option the (local_ntp_time_to_frame now t c)"

interpretation ntp: timeline ntp_ok ntp_anchor "\<lambda>_. 44100" ntp_time ntp_frame
  by unfold_locales
    (auto simp: frame_to_ntp_local_time_def local_ntp_time_to_frame_def Let_def i64_of_def algebra_simps)

lemma anchor_known:
  "get_ptp_anchor_local_time_info shm now later c = (Clock_ok, anchor, c') \<Longrightarrow>
     \<exists>p. anchor = Some p \<and> anchor_or_zero anchor = p \<and> sound c' = sound c"
  by (auto simp: get_ptp_anchor_local_time_info_def use_anchor_def change_clock_def anchor_or_zero_def Let_def
      split: prod.splits if_splits)

fun ptp_anchor :: "moment \<Rightarrow> u32 \<times> u64" where
  "ptp_anchor (now, later, shm, c) = anchor_or_zero (fst (snd (get_ptp_anchor_local_time_info shm now later c)))"

fun ptp_rate :: "moment \<Rightarrow> int" where
  "ptp_rate (_, _, _, c) = uint (conn_input_rate c)"

fun ptp_ok :: "moment \<Rightarrow> bool" where
  "ptp_ok (now, later, shm, c) \<longleftrightarrow> fst (get_ptp_anchor_local_time_info shm now later c) = Clock_ok \<and>
     0 < uint (conn_input_rate c) \<and> uint (conn_input_rate c) \<le> 1000000000"

fun ptp_time :: "moment \<Rightarrow> u32 \<Rightarrow> u64" where
  "ptp_time (now, later, shm, c) f = the (fst (the (frame_to_ptp_local_time shm now later f c)))"

fun ptp_frame :: "moment \<Rightarrow> u64 \<Rightarrow> u32 option" where
  "ptp_frame (now, later, shm, c) t = map_option (the \<circ> fst) (local_ptp_time_to_frame shm now later t c)"

lemma ptp_rate_kept:
  "fst (get_ptp_anchor_local_time_info shm now later c) = Clock_ok \<Longrightarrow>
     conn_input_rate (snd (snd (get_ptp_anchor_local_time_info shm now later c))) = conn_input_rate c"
  using anchor_known [of shm now later c] by (metis conn_input_rate_def prod.collapse)

interpretation ptp: timeline ptp_ok ptp_anchor ptp_rate ptp_time ptp_frame
proof
  fix s :: moment and f t
  assume ok: "ptp_ok s"
  obtain now later shm c where s: "s = (now, later, shm, c)" by (cases s)
  obtain a c' where g: "get_ptp_anchor_local_time_info shm now later c = (Clock_ok, a, c')"
    using ok s by (metis prod.collapse ptp_ok.simps)
  have r: "conn_input_rate c' = conn_input_rate c" "conn_input_rate c \<noteq> 0"
    using ptp_rate_kept [of shm now later c] ok g s by auto
  show "0 < ptp_rate s \<and> ptp_rate s \<le> 1000000000" using ok s by simp
  show "ptp_time s f = snd (ptp_anchor s) + of_int ((sint (f - fst (ptp_anchor s)) * 1000000000) sdiv ptp_rate s)"
    using g r by (simp add: s frame_to_ptp_local_time_def split_beta)
  show "ptp_frame s t = map_option (\<lambda>x. fst (ptp_anchor s) + of_int (x sdiv 1000000000))
      (i64_of (sint (t - snd (ptp_anchor s)) * ptp_rate s))"
    using g r by (simp add: s local_ptp_time_to_frame_def split_beta i64_of_def)
qed

section \<open>Properties\<close>

text \<open>The frame that comes back for the frame \<open>f\<close>, when \<open>a\<close> is the anchor.\<close>

definition frame_seen_from :: "rtp_conn \<Rightarrow> u32 \<Rightarrow> u32 \<Rightarrow> u32" where
  "frame_seen_from c a f =
     f - of_int (frame_loss (case timing_type c of Ts_ntp \<Rightarrow> 44100 | Ts_ptp \<Rightarrow> uint (conn_input_rate c)) (sint (f - a)))"

text \<open>
  C11. From a frame to its local time and back. At any one moment, \<open>local_time_to_frame\<close> takes the time that
  \<open>frame_to_local_time\<close> gives for a frame back to that frame, without overflow: exactly when the frame
  lies a whole number of nanoseconds from the anchor (for 44,100 frames per second a multiple of 441
  frames), and otherwise to its neighbour on the side of the anchor.
\<close>

theorem frame_time_frame:
  assumes "frame_to_local_time shm now later f c = Some (Some t, c1)"
    and "timing_type c = Ts_ptp \<longrightarrow> conn_input_rate c \<le> 1000000000"
  shows "\<exists>a c2. local_time_to_frame shm now later t c = Some (Some (frame_seen_from c a f), c2) \<and>
     a = (case timing_type c of Ts_ntp \<Rightarrow> anchor_rtptime c
          | Ts_ptp \<Rightarrow> fst (the (fst (snd (get_ptp_anchor_local_time_info shm now later c)))))"
proof (cases "timing_type c")
  case Ts_ntp
  then have t: "frame_to_ntp_local_time now f c = Some t" using assms(1) by (auto simp: frame_to_local_time_def)
  then have ok: "anchor_remote_info_is_valid c" by (simp add: frame_to_ntp_local_time_def split: if_splits)
  then have "map_option the (local_ntp_time_to_frame now t c) = Some (frame_seen_from c (anchor_rtptime c) f)"
    using ntp.there_and_back_frame [of "(now, later, shm, c)" f] t Ts_ntp by (simp add: frame_seen_from_def)
  then have "local_ntp_time_to_frame now t c = Some (Some (frame_seen_from c (anchor_rtptime c) f))"
    using ok by (auto simp: local_ntp_time_to_frame_def Let_def i64_of_def split: if_splits)
  then show ?thesis using Ts_ntp by (simp add: local_time_to_frame_def)
next
  case Ts_ptp
  obtain r a c' where g: "get_ptp_anchor_local_time_info shm now later c = (r, a, c')"
    by (cases "get_ptp_anchor_local_time_info shm now later c")
  then have r: "r = Clock_ok" "conn_input_rate c' \<noteq> 0" "frame_to_ptp_local_time shm now later f c = Some (Some t, c1)"
    using assms(1) Ts_ptp by (auto simp: frame_to_local_time_def frame_to_ptp_local_time_def split_beta split: if_splits)
  have ok: "ptp_ok (now, later, shm, c)"
    using ptp_rate_kept [of shm now later c] g r(1,2) assms(2) Ts_ptp
    by (simp add: word_le_def) (metis uint_0_iff uint_ge_0 le_less)
  have a: "anchor_or_zero a = the a" using anchor_known [of shm now later c] g r(1) by auto
  have "map_option (the \<circ> fst) (local_ptp_time_to_frame shm now later t c) = Some (frame_seen_from c (fst (the a)) f)"
    using ptp.there_and_back_frame [OF ok, of f] r(3) g a Ts_ptp by (simp add: frame_seen_from_def)
  then obtain c2 where "local_ptp_time_to_frame shm now later t c = Some (Some (frame_seen_from c (fst (the a)) f), c2)"
    using g r(1) by (auto simp: local_ptp_time_to_frame_def i64_of_def split_beta split: if_splits)
  then show ?thesis using Ts_ptp g by (simp add: local_time_to_frame_def)
qed

text \<open>A connection with an anchor, and the record of a clock, for concrete runs.\<close>

definition sample_rtp :: "timing_t \<Rightarrow> rtp_conn" where
  "sample_rtp type = \<lparr>sound = sample_conn 10, timing_type = type, rtsp_link_is_idle = False, AirPlayVersion = 0,
     minimum_latency = 0, maximum_latency = 0, anchor_remote_info_is_valid = True, anchor_clock = 5,
     anchor_time = 7000000000, anchor_rtptime = 100, clock_status = Clock_ok, last_anchor_info_is_valid = True,
     last_anchor_rtptime = 100, last_anchor_local_time = 6000000000, last_anchor_time_of_update = 1000000000,
     last_anchor_validity_start_time = 0, latency_delayed_timestamp = 0, remote_frame_rate = 0,
     reference_to_previous_frame_difference = 0, reference_to_previous_time_difference = 0,
     udp_clock_is_initialised = True, udp_clock_sender_is_initialised = True, time_ping_count = 0,
     time_pings = [], departure_time = 0, local_to_remote_time_gradient = 1,
     local_to_remote_time_gradient_sample_count = 0, local_to_remote_time_difference = 1000,
     local_to_remote_time_difference_measurement_time = 0, rtp_running = True,
     rtp_time_of_last_resend_request_error_ns = 0\<rparr>"

definition sample_shm :: "u64 \<Rightarrow> shm_structure" where
  "sample_shm clock = \<lparr>version = 9, master_clock_id = clock, shm_local_time = 0,
     local_to_master_time_offset = 500, master_clock_start_time = 0\<rparr>"

lemma frame_time_frame_witness:
  "\<exists>c. local_time_to_frame None 3 3 7000021675 (sample_rtp Ts_ntp) = Some (Some 100, c)"
proof -
  have "frame_to_local_time None 3 3 101 (sample_rtp Ts_ntp) = Some (Some 7000021675, sample_rtp Ts_ntp)"
    by (simp add: frame_to_local_time_def frame_to_ntp_local_time_def sample_rtp_def Let_def
        local_to_remote_time_difference_now_def)
  then show ?thesis
    using frame_time_frame [of None 3 3 101 "sample_rtp Ts_ntp" 7000021675 "sample_rtp Ts_ntp"]
    by (simp add: frame_seen_from_def frame_loss_def sample_rtp_def)
qed

section \<open>When the master clock changes\<close>

text \<open>A reading of a working clock, by a connection that is not idle and has an anchor.\<close>

definition clock_read :: "shm_structure option \<Rightarrow> clock_info \<Rightarrow> rtp_conn \<Rightarrow> bool" where
  "clock_read shm info c \<longleftrightarrow> ptp_get_clock_info shm = (Clock_ok, info) \<and> \<not> rtsp_link_is_idle c \<and>
     anchor_remote_info_is_valid c"

lemma get_ptp_same_clock:
  "clock_read shm info c \<Longrightarrow> actual_clock_id info = anchor_clock c \<Longrightarrow>
   get_ptp_anchor_local_time_info shm now later c =
     (Clock_ok, Some (anchor_rtptime c, anchor_time c - raw_offset info), (use_anchor now info c)\<lparr>clock_status := Clock_ok\<rparr>)"
  by (simp add: get_ptp_anchor_local_time_info_def clock_read_def use_anchor_def Let_def)

lemma get_ptp_new_clock:
  "clock_read shm info c \<Longrightarrow> actual_clock_id info \<noteq> anchor_clock c \<Longrightarrow> last_anchor_info_is_valid c \<Longrightarrow>
   get_ptp_anchor_local_time_info shm now later c =
     (Clock_ok, Some (last_anchor_rtptime c, last_anchor_local_time c), (change_clock later info c)\<lparr>clock_status := Clock_ok\<rparr>)"
  by (simp add: get_ptp_anchor_local_time_info_def clock_read_def change_clock_def Let_def)

text \<open>
  A change of the master clock does not move the sound. When another clock has been master for more than five
  seconds since the anchor was last used with its own clock, the anchor is rewritten: this reading and the next
  one of the new clock give the same frame, at the same local time but for the drift of the new
  clock's offset in between.
\<close>

lemma clock_change_keeps_anchor:
  assumes "clock_read shm info c" and "actual_clock_id info \<noteq> anchor_clock c" and "last_anchor_info_is_valid c"
    and "last_anchor_rtptime c = anchor_rtptime c" and "5000000000 < sint (later - last_anchor_time_of_update c)"
    and "ptp_get_clock_info shm2 = (Clock_ok, info2)" and "actual_clock_id info2 = actual_clock_id info"
    and "get_ptp_anchor_local_time_info shm now later c = (r1, a1, c1)"
    and "get_ptp_anchor_local_time_info shm2 now2 later2 c1 = (r2, a2, c2)"
  shows "r1 = Clock_ok \<and> r2 = Clock_ok \<and> a1 = Some (anchor_rtptime c, last_anchor_local_time c) \<and>
    a2 = Some (anchor_rtptime c, last_anchor_local_time c - (raw_offset info2 - raw_offset info)) \<and>
    anchor_clock c2 = actual_clock_id info"
proof -
  have c1: "r1 = Clock_ok" "a1 = Some (anchor_rtptime c, last_anchor_local_time c)"
    "c1 = (change_clock later info c)\<lparr>clock_status := Clock_ok\<rparr>"
    using get_ptp_new_clock [OF assms(1-3), of now later] assms(4,8) by auto
  have read: "clock_read shm2 info2 c1" and same: "actual_clock_id info2 = anchor_clock c1"
    using assms(1,5,6,7) by (auto simp: clock_read_def c1(3) change_clock_def)
  show ?thesis
    using get_ptp_same_clock [OF read same, of now2 later2] assms(5,9) c1
    by (auto simp: change_clock_def use_anchor_def)
qed

lemma clock_change_keeps_anchor_witness:
  "\<exists>r1 a1 c1 r2 a2 c2.
     get_ptp_anchor_local_time_info (Some (sample_shm 9)) 9000000000 9000000000 (sample_rtp Ts_ptp) = (r1, a1, c1) \<and>
     get_ptp_anchor_local_time_info (Some (sample_shm 9)) 9100000000 9100000000 c1 = (r2, a2, c2) \<and>
     a2 = Some (100, 6000000000)"
proof -
  let ?g = "get_ptp_anchor_local_time_info (Some (sample_shm 9))"
  define info where "info = snd (ptp_get_clock_info (Some (sample_shm 9)))"
  obtain r1 a1 c1 where 1: "?g 9000000000 9000000000 (sample_rtp Ts_ptp) = (r1, a1, c1)"
    by (cases "?g 9000000000 9000000000 (sample_rtp Ts_ptp)")
  obtain r2 a2 c2 where 2: "?g 9100000000 9100000000 c1 = (r2, a2, c2)"
    by (cases "?g 9100000000 9100000000 c1")
  have c: "ptp_get_clock_info (Some (sample_shm 9)) = (Clock_ok, info)"
    by (simp add: info_def ptp_get_clock_info_def sample_shm_def NQPTP_SHM_STRUCTURES_VERSION_def)
  have "actual_clock_id info = 9"
    by (simp add: info_def ptp_get_clock_info_def sample_shm_def NQPTP_SHM_STRUCTURES_VERSION_def)
  then have "a2 = Some (100, 6000000000)"
    using clock_change_keeps_anchor [OF _ _ _ _ _ c refl 1 2] c
    by (simp add: clock_read_def sample_rtp_def)
  with 1 2 show ?thesis by blast
qed

text \<open>
  A new anchor that comes while another clock is master is mixed with the old one. The client sends
  the anchor (\<open>clk\<close>, \<open>f\<close>, \<open>t\<close>), the old information stays valid, and the master clock is not \<open>clk\<close>: after
  five seconds the anchor is rewritten from the local time of the old anchor but keeps the new frame, and the next
  reading puts frame \<open>f\<close> at the time of the old frame, whatever \<open>t\<close> was.
\<close>

lemma new_anchor_mixed_with_old:
  assumes "last_anchor_info_is_valid c" and "c0 = set_ptp_anchor_info now0 clk f t c"
    and "clk \<noteq> anchor_clock c \<or> 5000000000 \<le> sint (now0 - last_anchor_validity_start_time c)"
    and "ptp_get_clock_info shm = (Clock_ok, info)" and "actual_clock_id info \<noteq> clk" and "\<not> rtsp_link_is_idle c"
    and "5000000000 < sint (later - last_anchor_time_of_update c)"
    and "get_ptp_anchor_local_time_info shm now later c0 = (r1, a1, c1)"
    and "get_ptp_anchor_local_time_info shm now2 later2 c1 = (r2, a2, c2)"
  shows "a1 = Some (last_anchor_rtptime c, last_anchor_local_time c) \<and>
    r2 = Clock_ok \<and> a2 = Some (f, last_anchor_local_time c)"
proof -
  have c0: "clock_read shm info c0" "actual_clock_id info \<noteq> anchor_clock c0" "last_anchor_info_is_valid c0"
    "last_anchor_rtptime c0 = last_anchor_rtptime c" "last_anchor_local_time c0 = last_anchor_local_time c"
    "last_anchor_time_of_update c0 = last_anchor_time_of_update c" "anchor_rtptime c0 = f"
    using assms(1-6) by (auto simp: clock_read_def set_ptp_anchor_info_def Let_def)
  have c1: "a1 = Some (last_anchor_rtptime c, last_anchor_local_time c)"
    "c1 = (change_clock later info c0)\<lparr>clock_status := Clock_ok\<rparr>"
    using get_ptp_new_clock [OF c0(1-3), of now later] c0 assms(8) by auto
  have read: "clock_read shm info c1" and same: "actual_clock_id info = anchor_clock c1"
    using c0 assms(7) by (auto simp: clock_read_def c1(2) change_clock_def)
  show ?thesis
    using get_ptp_same_clock [OF read same, of now2 later2] assms(7,9) c1 c0
    by (auto simp: change_clock_def)
qed

lemma new_anchor_mixed_with_old_witness:
  "\<exists>r1 a1 c1 r2 a2 c2.
     get_ptp_anchor_local_time_info (Some (sample_shm 9)) 9000000000 9000000000
       (set_ptp_anchor_info 8000000000 5 77777 20000000000 (sample_rtp Ts_ptp)) = (r1, a1, c1) \<and>
     get_ptp_anchor_local_time_info (Some (sample_shm 9)) 9100000000 9100000000 c1 = (r2, a2, c2) \<and>
     a2 = Some (77777, 6000000000)"
proof -
  let ?g = "get_ptp_anchor_local_time_info (Some (sample_shm 9))"
  define c0 where "c0 = set_ptp_anchor_info 8000000000 5 77777 20000000000 (sample_rtp Ts_ptp)"
  define info where "info = snd (ptp_get_clock_info (Some (sample_shm 9)))"
  obtain r1 a1 c1 where 1: "?g 9000000000 9000000000 c0 = (r1, a1, c1)"
    by (cases "?g 9000000000 9000000000 c0")
  obtain r2 a2 c2 where 2: "?g 9100000000 9100000000 c1 = (r2, a2, c2)"
    by (cases "?g 9100000000 9100000000 c1")
  have c: "ptp_get_clock_info (Some (sample_shm 9)) = (Clock_ok, info)" "actual_clock_id info = 9"
    by (simp_all add: info_def ptp_get_clock_info_def sample_shm_def NQPTP_SHM_STRUCTURES_VERSION_def)
  have "a2 = Some (77777, 6000000000)"
    using new_anchor_mixed_with_old [OF _ c0_def _ c(1) _ _ _ 1 2] c(2) by (simp add: sample_rtp_def)
  with 1 2 show ?thesis unfolding c0_def by blast
qed

end
