(* ===== verification/Rtp_Delivery.thy ===== *)
theory Rtp_Delivery
  imports Rtp_Packets Rtp_Timeline Player_Arrivals Fifo
begin

text \<open>
  From datagrams to the player: audio datagrams end up in the ring, sync packets set the latency and the
  anchor, and no sequence of control packets makes the latency longer than the ring.
\<close>

section \<open>Datagrams\<close>

text \<open>An audio packet, and the datagrams that carry it: as it is, or behind four bytes when it is sent again.\<close>

definition audio_packet :: "u8 \<Rightarrow> u8 \<Rightarrow> u16 \<Rightarrow> u32 \<Rightarrow> bytes \<Rightarrow> bytes \<Rightarrow> bytes" where
  "audio_packet m b seqno timestamp ssid payload =
     [m, b] @ htons_bytes seqno @ htonl_bytes timestamp @ ssid @ payload"

definition carries :: "bytes \<Rightarrow> u16 \<Rightarrow> u32 \<Rightarrow> bytes \<Rightarrow> bool" where
  "carries d seqno timestamp payload \<longleftrightarrow>
     (\<exists>m b ssid. length ssid = 4 \<and>
        (b AND 0x7f = 0x60 \<and> d = audio_packet m b seqno timestamp ssid payload \<or>
         (\<exists>m' b' x y. b' AND 0x7f = 0x56 \<and> d = [m', b', x, y] @ audio_packet m b seqno timestamp ssid payload)))"

lemma put_from_buffer_packet:
  assumes "length ssid = 4" and "p = length pre" and "16 \<le> length payload"
  shows "put_from_buffer env cfg now (pre @ audio_packet m b s ts ssid payload @ rest) p (12 + int (length payload)) (fpm, c) =
     do { (snd', f, rs) \<leftarrow> player_put_packet env cfg now True s ts (payload @ rest) (int (length payload)) fpm (sound c);
          Some (f, c\<lparr>sound := snd'\<rparr>, rs) }"
proof -
  have "nctohs (pre @ audio_packet m b s ts ssid payload @ rest) (p + 2) = Some s"
    using nctohs_at [of "p + 2" "pre @ [m, b]" s] assms(2) by (simp add: audio_packet_def)
  moreover have "nctohl (pre @ audio_packet m b s ts ssid payload @ rest) (p + 4) = Some ts"
    using nctohl_at [of "p + 4" "pre @ [m, b] @ htons_bytes s" ts] assms(2) by (simp add: audio_packet_def)
  moreover have "drop (p + 12) (pre @ audio_packet m b s ts ssid payload @ rest) = payload @ rest"
    using assms(1,2) by (simp add: audio_packet_def htons_bytes_def htonl_bytes_def numeral_eq_Suc)
  ultimately show ?thesis using assms(3) by (simp add: put_from_buffer_def)
qed

lemma carried_packet_put:
  assumes "carries d s ts payload" and "length d \<le> length buf" and "16 \<le> length payload"
  shows "\<exists>rest. audio_receive env cfg now False (Some d) (buf, fpm, c) =
     do { (snd', f, rs) \<leftarrow> player_put_packet env cfg now True s ts (payload @ rest) (int (length payload)) fpm (sound c);
          Some ((recv_into buf d, f, c\<lparr>sound := snd'\<rparr>), rs) }"
proof -
  let ?rest = "drop (length d) buf"
  have buf: "recv_into buf d = d @ ?rest" using assms(2) by (simp add: recv_into_def)
  obtain m b ssid where ssid: "length ssid = 4" and
    d: "b AND 0x7f = 0x60 \<and> d = audio_packet m b s ts ssid payload \<or>
       (\<exists>m' b' x y. b' AND 0x7f = 0x56 \<and> d = [m', b', x, y] @ audio_packet m b s ts ssid payload)"
    using assms(1) unfolding carries_def by blast
  have len: "length (audio_packet m b s ts ssid payload) = 12 + length payload"
    using ssid by (simp add: audio_packet_def)
  from d show ?thesis
  proof (elim disjE exE conjE)
    assume b: "b AND 0x7f = 0x60" and e: "d = audio_packet m b s ts ssid payload"
    have "rd (recv_into buf d) 1 = Some b" unfolding buf unfolding e by (simp add: rd_def audio_packet_def)
    then have "audio_receive env cfg now False (Some d) (buf, fpm, c) =
        do { (f, c, rs) \<leftarrow> put_from_buffer env cfg now (recv_into buf d) 0 (12 + int (length payload)) (fpm, c);
             Some ((recv_into buf d, f, c), rs) }"
      using b assms(2) len e by (simp add: audio_receive_def Let_def min_absorb1)
    moreover have "recv_into buf d = [] @ audio_packet m b s ts ssid payload @ ?rest" using buf e by simp
    ultimately show ?thesis
      using put_from_buffer_packet [OF ssid, of 0 "[]" payload env cfg now m b s ts ?rest fpm c] assms(3)
      by (intro exI [of _ ?rest]) (simp add: case_prod_unfold bind_assoc)
  next
    fix m' b' x y
    assume b: "b' AND 0x7f = 0x56" and e: "d = [m', b', x, y] @ audio_packet m b s ts ssid payload"
    have "rd (recv_into buf d) 1 = Some b'" unfolding buf unfolding e by (simp add: rd_def audio_packet_def)
    then have "audio_receive env cfg now False (Some d) (buf, fpm, c) =
        do { (f, c, rs) \<leftarrow> put_from_buffer env cfg now (recv_into buf d) 4 (12 + int (length payload)) (fpm, c);
             Some ((recv_into buf d, f, c), rs) }"
      using b assms(2) len e by (simp add: audio_receive_def Let_def min_absorb1)
    moreover have "recv_into buf d = [m', b', x, y] @ audio_packet m b s ts ssid payload @ ?rest" using buf e by simp
    ultimately show ?thesis
      using put_from_buffer_packet [OF ssid, of 4 "[m', b', x, y]" payload env cfg now m b s ts ?rest fpm c] assms(3)
      by (intro exI [of _ ?rest]) (simp add: case_prod_unfold bind_assoc)
  qed
qed

section \<open>What sync packets do\<close>

lemma max_latency_frames_value: "unat max_latency_frames = 259311"
  by (simp add: max_latency_frames_def BUFFER_FRAMES_def)

text \<open>A packet of the usual size keeps the ring's capacity within 32 bits.\<close>

definition ring_fits :: "rtp_config \<Rightarrow> rtp_conn \<Rightarrow> bool" where
  "ring_fits cfg c \<longleftrightarrow> userSuppliedLatency cfg = 0 \<and> minimum_free_buffer_headroom cfg \<le> 1024 \<and>
     254 \<le> max_frames_per_packet (sound c) \<and> max_frames_per_packet (sound c) < 2 ^ 21"

lemma unat_of_nat_u32: "n < 2 ^ 32 \<Longrightarrow> unat (of_nat n :: u32) = n"
  by (simp add: unat_of_nat take_bit_nat_eq_self)

lemma adjusted_latency_bound:
  assumes "ring_fits cfg c" and "unat la \<le> BUFFER_FRAMES * max_frames_per_packet (sound c)"
  shows "unat (adjusted_latency cfg la c) \<le> BUFFER_FRAMES * max_frames_per_packet (sound c)"
proof -
  define m where "m = max_frames_per_packet (sound c)"
  define k where "k = 1024 - unat (minimum_free_buffer_headroom cfg)"
  have m: "m < 2097152" using assms(1) by (simp add: ring_fits_def m_def)
  have "unat (minimum_free_buffer_headroom cfg) \<le> 1024"
    using assms(1) by (simp add: ring_fits_def word_le_nat_alt)
  then have k: "k \<le> 1024" "of_nat BUFFER_FRAMES - minimum_free_buffer_headroom cfg = (of_nat k :: u32)"
    by (simp_all add: k_def BUFFER_FRAMES_def of_nat_diff)
  have cap: "of_nat m * (of_nat BUFFER_FRAMES - minimum_free_buffer_headroom cfg) = (of_nat (m * k) :: u32)"
    using k(2) by simp
  have "m * k \<le> 2097151 * 1024" using m k(1) by (intro mult_le_mono) auto
  then have u: "unat (of_nat (m * k) :: u32) = m * k"
    by (intro unat_of_nat_u32) simp
  then have s: "sint (of_nat (m * k) :: u32) = int (m * k)"
    using sint_small [of "of_nat (m * k) :: u32"] \<open>m * k \<le> 2097151 * 1024\<close> by simp
  define x where "x = trunc (audio_backend_latency_offset cfg * of_int (uint (conn_input_rate c))) + sint la"
  have adj: "adjusted_latency cfg la c = (if x < 0 \<or> x > int (m * k) then la else of_int x)"
    unfolding adjusted_latency_def Let_def x_def [symmetric] m_def [symmetric] cap s by simp
  show ?thesis
  proof (cases "x < 0 \<or> x > int (m * k)")
    case True
    then show ?thesis using assms(2) by (simp add: adj)
  next
    case False
    then obtain n where n: "x = int n" by (cases x) auto
    have le: "n \<le> m * k" using False n by (metis of_nat_le_iff not_less)
    have "unat (of_nat n :: u32) \<le> n" by (simp add: unat_of_nat take_bit_nat_less_eq_self)
    also have "n \<le> 1024 * m" using le k(1) by (metis le_trans mult.commute mult_le_mono1)
    finally show ?thesis using False n by (simp add: adj BUFFER_FRAMES_def m_def)
  qed
qed

lemma sync_latency_bound:
  assumes "ring_fits cfg c" and "unat (latency (sound c)) \<le> BUFFER_FRAMES * max_frames_per_packet (sound c)"
  shows "unat (sync_latency cfg flags la c) \<le> BUFFER_FRAMES * max_frames_per_packet (sound c)"
proof (cases "requested_latency cfg flags la c > max_latency_frames")
  case True
  then show ?thesis using assms by (simp add: sync_latency_def ring_fits_def)
next
  case False
  have "unat (requested_latency cfg flags la c) \<le> 259311"
    using False max_latency_frames_value by (simp add: not_less word_le_nat_alt)
  also have "\<dots> \<le> BUFFER_FRAMES * max_frames_per_packet (sound c)"
    using assms(1) by (simp add: ring_fits_def BUFFER_FRAMES_def)
  finally show ?thesis
    using adjusted_latency_bound [OF assms(1)] assms(1) False by (simp add: sync_latency_def ring_fits_def)
qed

section \<open>What audio packets leave alone\<close>

definition same_session :: "rtsp_conn \<Rightarrow> rtsp_conn \<Rightarrow> bool" where
  "same_session c c' \<longleftrightarrow> latency c' = latency c \<and> max_frames_per_packet c' = max_frames_per_packet c"

lemma same_session_refl: "same_session c c"
  by (simp add: same_session_def)

lemma same_session_trans: "same_session c c' \<Longrightarrow> same_session c' c'' \<Longrightarrow> same_session c c''"
  by (simp add: same_session_def)

lemma same_session_set_slot: "same_session c (set_slot s a c)"
  by (simp add: same_session_def set_slot_def)

lemma same_session_mark: "same_session c (mark_missing n s t c)"
  by (induction n s t c rule: mark_missing.induct)
    (auto simp: same_session_refl intro: same_session_trans [OF same_session_set_slot])

lemma same_session_place: "same_session c (fst (place_packet t ts s c))"
  using same_session_mark [of c "nat (gap_size s (ab_write c))" "ab_write c" t]
  by (auto simp: place_packet_def expected_packet_def same_session_def Let_def)

lemma same_session_store: "store_packet env orig t s ts dat len c = Some c' \<Longrightarrow> same_session c c'"
  by (auto simp: store_packet_def Let_def same_session_def set_slot_def conn_kept_def bind_eq_Some_conv
      split: if_splits dest!: audio_packet_decode_kept)

lemma same_session_check: "same_session (scan_conn st) (scan_conn (check_missing cfg t l x st))"
  by (auto simp: check_missing_def Let_def same_session_set_slot)

lemma same_session_send: "same_session (scan_conn st) (scan_conn (send_run cfg st))"
  using send_run_conn [of cfg st] by (auto simp: same_session_def)

lemma same_session_step: "same_session (scan_conn st) (scan_conn (scan_step cfg t l x st))"
  using same_session_trans [OF same_session_check [of st cfg t l x] same_session_send [of _ cfg]]
  by (auto simp: scan_step_def Let_def same_session_send same_session_check same_session_refl)

lemma same_session_scan: "same_session (scan_conn st) (scan_conn (resend_scan cfg t l w x st))"
proof (induction cfg t l w x st rule: resend_scan.induct)
  case (1 cfg t l w x st)
  then show ?case
    using same_session_trans [OF same_session_step [of st cfg t l x]]
    by (subst resend_scan.simps) (cases "x = w", simp_all add: same_session_refl)
qed

lemma same_session_checks: "resend_checks cfg t fpm c = Some (c', f, rs) \<Longrightarrow> same_session c c'"
  using same_session_scan [of "\<lparr> scan_conn = c, first_missing = None, run_start = None,
      run_count = 0, missing_count = 0, requests = [] \<rparr>"]
  by (auto simp: resend_checks_def Let_def split: if_splits)

lemma same_session_put:
  assumes "player_put_packet env cfg t orig s ts dat len fpm c = Some (c', f, rs)"
  shows "same_session c c'"
proof -
  have a: "same_session c (arrival t c)" "\<And>s c. same_session c (synced_by s c)"
    by (simp_all add: arrival_def synced_by_def same_session_def Let_def)
  show ?thesis
  proof (cases "connection_state_to_output (arrival t c) = 0")
    case True
    then show ?thesis using assms a by (simp add: player_put_packet_def Let_def)
  next
    case False
    define s' where "s' = (if ab_synced (arrival t c) \<and> \<not> orig then ab_write (arrival t c) else s)"
    define c0 where "c0 = synced_by s' (arrival t c)"
    obtain c1 p where p: "place_packet t ts s' c0 = (c1, p)" by (cases "place_packet t ts s' c0")
    then obtain c2 where c2: "(case p of None \<Rightarrow> Some c1 | Some k \<Rightarrow> store_packet env orig t k ts dat len c1) = Some c2"
      "resend_checks cfg t fpm c2 = Some (c', f, rs)"
      using assms False by (auto simp: player_put_packet_def Let_def s'_def c0_def bind_eq_Some_conv split: if_splits)
    have "same_session c1 c2" using c2(1) by (auto split: option.splits simp: same_session_refl dest: same_session_store)
    moreover have "same_session c0 c1" using same_session_place [of c0 t ts s'] p by simp
    moreover have "same_session c c0" unfolding c0_def by (rule same_session_trans [OF a])
    ultimately show ?thesis using same_session_checks [OF c2(2)] same_session_trans by blast
  qed
qed

section \<open>Runs of the control receiver\<close>

type_synonym control_event = "u64 \<times> bool \<times> bytes option \<times> (u16 \<times> nat) list"

fun control_step :: "player_env \<Rightarrow> resend_config \<Rightarrow> rtp_config \<Rightarrow> bytes \<times> u16 option \<times> rtp_conn \<Rightarrow> control_event \<Rightarrow>
    bytes \<times> u16 option \<times> rtp_conn \<Rightarrow> bool" where
  "control_step env rcfg cfg st (now, loss, received, rs) st' \<longleftrightarrow>
     control_receive env rcfg cfg now loss received st = Some (st', rs)"

definition latency_fits :: "rtp_config \<Rightarrow> bytes \<times> u16 option \<times> rtp_conn \<Rightarrow> bool" where
  "latency_fits cfg st \<longleftrightarrow> (case st of (_, _, c) \<Rightarrow> ring_fits cfg c \<and>
     unat (latency (sound c)) \<le> BUFFER_FRAMES * max_frames_per_packet (sound c))"

lemma note_reference_keeps [simp]:
  "latency (sound (note_reference t ts c)) = latency (sound c)"
  "max_frames_per_packet (sound (note_reference t ts c)) = max_frames_per_packet (sound c)"
  "local_to_remote_time_difference_now now (note_reference t ts c) = local_to_remote_time_difference_now now c"
  by (simp_all add: note_reference_def local_to_remote_time_difference_now_def Let_def)

lemma set_ntp_anchor_sets [simp]:
  "sound (set_ntp_anchor t ts l c) = sound c" "anchor_time (set_ntp_anchor t ts l c) = t"
  "anchor_rtptime (set_ntp_anchor t ts l c) = ts" "anchor_remote_info_is_valid (set_ntp_anchor t ts l c)"
  "local_to_remote_time_difference_now now (set_ntp_anchor t ts l c) = local_to_remote_time_difference_now now c"
  by (simp_all add: set_ntp_anchor_def local_to_remote_time_difference_now_def Let_def)

lemma difference_now_sound [simp]:
  "local_to_remote_time_difference_now now (c\<lparr>sound := s\<rparr>) = local_to_remote_time_difference_now now c"
  by (simp add: local_to_remote_time_difference_now_def Let_def)

lemma sync_packet_conn:
  "sync_packet cfg buf c = Some c' \<Longrightarrow> c' = c \<or>
   (\<exists>flags la. latency (sound c') = sync_latency cfg flags la c \<and>
      max_frames_per_packet (sound c') = max_frames_per_packet (sound c))"
  by (auto simp: sync_packet_def Let_def bind_eq_Some_conv split: if_splits) blast

lemma control_step_fits:
  assumes "latency_fits cfg st" and "control_step env rcfg cfg st e st'"
  shows "latency_fits cfg st'"
proof -
  obtain buf fpm c where st: "st = (buf, fpm, c)" by (cases st)
  obtain now loss received rs where e: "e = (now, loss, received, rs)" by (cases e)
  obtain buf' fpm' c' where st': "st' = (buf', fpm', c')" by (cases st')
  have step: "control_receive env rcfg cfg now loss received (buf, fpm, c) = Some ((buf', fpm', c'), rs)"
    using assms(2) by (simp add: st e st')
  have "c' = c \<or> (\<exists>b. sync_packet cfg b c = Some c') \<or> same_session (sound c) (sound c')"
    using step by (cases received)
      (auto simp: control_receive_def put_from_buffer_def Let_def bind_eq_Some_conv same_session_refl
        split: if_splits dest: same_session_put)
  then show ?thesis
    using assms(1) sync_latency_bound [of cfg c] sync_packet_conn [of cfg _ c c']
    by (fastforce simp: latency_fits_def st st' ring_fits_def same_session_def)
qed

section \<open>Properties\<close>

text \<open>
  C5. An audio datagram becomes the slot that will be played. A datagram of type 0x60, or one sent again (0x56),
  whose L16 packet falls into the player's window, is taken whole, and afterwards the ring holds its samples, in the
  byte order of the host, at its place, with its sequence number and timestamp, and everything else
  as before.
\<close>

theorem audio_datagram_reaches_slot:
  assumes "carries d seqno timestamp payload" and "length d \<le> length buf" and "16 \<le> length payload"
    and "buffer_ok (sound c)" and "ab_synced (sound c)" and "connection_state_to_output (sound c) \<noteq> 0"
    and "in_window (sound c) k" and "no_wrap (sound c) k" and "seqno = ab_read (sound c) + of_nat k"
    and "l16_packet (sound c) payload (int (length payload))" and "input_rate (sound c) \<noteq> 0"
  shows "\<exists>f c' rs. audio_receive env cfg now False (Some d) (buf, fpm, c) = Some ((recv_into buf d, f, c'), rs) \<and>
     pending (sound c') = arrive k (Some (seqno, timestamp, int (length payload) div input_bytes_per_frame (sound c),
         swap16 payload @ drop (length payload) (frame_data (slot (sound c) seqno)))) (pending (sound c)) \<and>
     ab_read (sound c') = ab_read (sound c) \<and> buffer_ok (sound c')"
proof -
  obtain rest where rest: "audio_receive env cfg now False (Some d) (buf, fpm, c) =
     do { (snd', f, rs) \<leftarrow> player_put_packet env cfg now True seqno timestamp (payload @ rest) (int (length payload)) fpm (sound c);
          Some ((recv_into buf d, f, c\<lparr>sound := snd'\<rparr>), rs) }"
    using carried_packet_put [OF assms(1-3), of env cfg now fpm c] by blast
  have "l16_packet (sound c) (payload @ rest) (int (length payload))"
    using assms(10) by (simp add: l16_packet_def)
  from l16_arrives [OF assms(4-9) this assms(11), of env cfg now timestamp fpm]
  show ?thesis by (auto simp: rest)
qed

lemma audio_datagram_reaches_slot_witness:
  "\<exists>f c' rs. audio_receive sample_env sample_config 1000 False
      (Some ([0x80, 0x60] @ htons_bytes 12 @ htonl_bytes 5000 @ [0, 0, 0, 0] @ replicate 16 1))
      (replicate 2048 0, None, sample_rtp Ts_ntp) =
        Some ((recv_into (replicate 2048 0)
          ([0x80, 0x60] @ htons_bytes 12 @ htonl_bytes 5000 @ [0, 0, 0, 0] @ replicate 16 1), f, c'), rs) \<and>
     buffer_ok (sound c')"
proof -
  let ?d = "[0x80, 0x60] @ htons_bytes 12 @ htonl_bytes 5000 @ [0, 0, 0, 0] @ replicate 16 1"
  have d: "carries ?d 12 5000 (replicate 16 1)"
    unfolding carries_def audio_packet_def
    by (intro exI [of _ "0x80"] exI [of _ "0x60"] exI [of _ "[0, 0, 0, 0]"]) simp
  have c: "sound (sample_rtp Ts_ntp) = sample_conn 10" by (simp add: sample_rtp_def)
  have s: "ab_synced (sample_conn 10)" "connection_state_to_output (sample_conn 10) \<noteq> 0"
    "(12 :: u16) = ab_read (sample_conn 10) + of_nat 2" "input_rate (sample_conn 10) \<noteq> 0"
    "l16_packet (sample_conn 10) (replicate 16 1) (int (length (replicate 16 (1 :: u8))))"
    by (simp_all add: sample_conn_def l16_packet_def MAX_PACKET_def)
  have "length ?d \<le> length (replicate 2048 (0 :: u8))" by simp
  from audio_datagram_reaches_slot [where c = "sample_rtp Ts_ntp" and k = 2 and env = sample_env
      and cfg = sample_config and now = 1000 and fpm = None, OF d this, unfolded c, OF _ buffer_ok_sample_conn s(1,2) sample_window sample_no_wrap s(3,5,4)]
  show ?thesis by fastforce
qed

text \<open>
  The latency always fits the ring. Whatever packets come in on the control port, in whatever order and
  state of the buffer, the latency never exceeds the 1,024 packets of the ring, if it did not at first and
  the user did not set one.
\<close>

lemma latency_fits_ring:
  assumes "runs (control_step env rcfg cfg) st es st'" and "latency_fits cfg st"
  shows "latency_fits cfg st'"
  using assms control_step_fits by (rule runs_invariant [where ok = "latency_fits cfg"])

text \<open>A sync packet for the frame 77,175 later than the one it says to play, at second one.\<close>

definition sample_sync :: bytes where
  "sample_sync = [0x80, 0xd4] @ htons_bytes 7 @ htonl_bytes 5000 @ htonl_bytes 1 @ htonl_bytes 0 @ htonl_bytes 82175"

definition sample_rtp_config :: rtp_config where
  "sample_rtp_config = \<lparr>userSuppliedLatency = 0, fixedLatencyOffset = 11025, audio_backend_latency_offset = 0,
     minimum_free_buffer_headroom = 125\<rparr>"

lemma sample_sync_reads:
  "length sample_sync = 20" "rd sample_sync 1 = Some 0xd4" "nctohs sample_sync 2 = Some 7"
  "nctohl sample_sync 4 = Some 5000" "nctohl sample_sync 16 = Some 82175"
  "ntp_nanoseconds sample_sync 8 = Some 1000000000"
proof -
  show "length sample_sync = 20" "rd sample_sync 1 = Some 0xd4" by (simp_all add: sample_sync_def rd_def)
  show "nctohs sample_sync 2 = Some 7"
    using nctohs_at [of 2 "[0x80, 0xd4]" 7] by (simp add: sample_sync_def)
  let ?p = "[0x80, 0xd4] @ htons_bytes 7"
  show "nctohl sample_sync 4 = Some 5000" using nctohl_at [of 4 ?p 5000] by (simp add: sample_sync_def)
  show "nctohl sample_sync 16 = Some 82175"
    using nctohl_at [of 16 "?p @ htonl_bytes 5000 @ htonl_bytes 1 @ htonl_bytes 0" 82175 "[]"]
    by (simp add: sample_sync_def)
  have "nctohl sample_sync 8 = Some 1" using nctohl_at [of 8 "?p @ htonl_bytes 5000" 1] by (simp add: sample_sync_def)
  moreover have "nctohl sample_sync 12 = Some 0"
    using nctohl_at [of 12 "?p @ htonl_bytes 5000 @ htonl_bytes 1" 0] by (simp add: sample_sync_def)
  ultimately show "ntp_nanoseconds sample_sync 8 = Some 1000000000" by (simp add: ntp_nanoseconds_def)
qed

lemma latency_fits_ring_witness:
  "\<exists>st'. runs (control_step sample_env sample_config sample_rtp_config)
      (replicate 20 0, None, (sample_rtp Ts_ntp)\<lparr>sound := (sample_conn 10)\<lparr>max_frames_per_packet := 352\<rparr>\<rparr>)
      [(0, False, Some sample_sync, [])] st' \<and> latency_fits sample_rtp_config st'"
proof -
  define c where "c = (sample_rtp Ts_ntp)\<lparr>sound := (sample_conn 10)\<lparr>max_frames_per_packet := 352\<rparr>\<rparr>"
  have buf: "recv_into (replicate 20 0) sample_sync = sample_sync"
    using sample_sync_reads(1) by (simp add: recv_into_def)
  obtain c' where "sync_packet sample_rtp_config sample_sync c = Some c'"
    using sample_sync_reads by (simp add: sync_packet_def c_def sample_rtp_def Let_def)
  then have "control_step sample_env sample_config sample_rtp_config (replicate 20 0, None, c)
      (0, False, Some sample_sync, []) (sample_sync, None, c')"
    using sample_sync_reads buf by (simp add: control_receive_def c_def sample_rtp_def Let_def)
  then have r: "runs (control_step sample_env sample_config sample_rtp_config) (replicate 20 0, None, c)
      [(0, False, Some sample_sync, [])] (sample_sync, None, c')"
    by (rule run_cons [OF _ run_nil])
  have "latency_fits sample_rtp_config (replicate 20 0, None, c)"
    by (simp add: latency_fits_def ring_fits_def c_def sample_rtp_config_def BUFFER_FRAMES_def sample_conn_def)
  then show ?thesis using latency_fits_ring [OF r] r unfolding c_def by blast
qed

text \<open>
  A sync packet ties its frame to its time. After it, the frame \<open>ts\<close> of the packet less the latency is due at
  the packet's time, on the local clock.
\<close>

lemma sync_packet_sets_due_time:
  assumes "sync_packet cfg buf c = Some c'" and "local_to_remote_time_difference c \<noteq> 0"
    and "ntp_nanoseconds buf 8 = Some t" and "nctohl buf 16 = Some ts"
  shows "frame_to_ntp_local_time now (ts - latency (sound c')) c' =
     Some (t - local_to_remote_time_difference_now now c)"
proof -
  have "anchor_rtptime c' = ts - latency (sound c') \<and> anchor_time c' = t \<and> anchor_remote_info_is_valid c' \<and>
      local_to_remote_time_difference_now now c' = local_to_remote_time_difference_now now c"
    using assms by (auto simp: sync_packet_def Let_def bind_eq_Some_conv)
  then show ?thesis by (simp add: frame_to_ntp_local_time_def Let_def)
qed

lemma sync_packet_sets_due_time_witness:
  "\<exists>c'. sync_packet sample_rtp_config sample_sync (sample_rtp Ts_ntp) = Some c' \<and>
     frame_to_ntp_local_time 0 (82175 - latency (sound c')) c' = Some 999999000"
proof -
  obtain c' where c': "sync_packet sample_rtp_config sample_sync (sample_rtp Ts_ntp) = Some c'"
    using sample_sync_reads by (simp add: sync_packet_def sample_rtp_def Let_def)
  have "local_to_remote_time_difference (sample_rtp Ts_ntp) \<noteq> 0" by (simp add: sample_rtp_def)
  from sync_packet_sets_due_time [OF c' this sample_sync_reads(6,5), of 0]
  have "frame_to_ntp_local_time 0 (82175 - latency (sound c')) c' = Some 999999000"
    by (simp add: local_to_remote_time_difference_now_def sample_rtp_def)
  with c' show ?thesis by blast
qed

end
