(* ===== verification/Buffered_Delivery.thy ===== *)
theory Buffered_Delivery
  imports Buffered_Stream Rtp_Delivery
begin

text \<open>
  The thread of buffered audio among the others: the player takes packets, the RTSP connection asks for
  flushes and starts and stops playing, in any order. What reaches the player, and what does not.
\<close>

section \<open>The threads together\<close>

text \<open>
  The number of packets the player has: it empties its buffer when it is reset, gets one with each packet
  and plays some between two turns.
\<close>

fun occupied_after :: "u32 \<Rightarrow> player_call list \<Rightarrow> u32" where
  "occupied_after n [] = n"
| "occupied_after n (Reset_buffer # calls) = occupied_after 0 calls"
| "occupied_after n (Put_packet ts s # calls) = occupied_after (n + 1) calls"

datatype audio_event = Turned "player_call list" | Played | Asked_flush plist | Asked_rate plist

inductive audio_step ::
    "'c decoder \<Rightarrow> bool \<Rightarrow> rtp_config \<Rightarrow> 'c audio_thread \<times> u32 \<Rightarrow> audio_event \<Rightarrow> 'c audio_thread \<times> u32 \<Rightarrow> bool"
  for D di cfg where
  turns: "\<not> finished s \<Longrightarrow> player_buffer_occupancy e = n \<Longrightarrow> turn D di e s = Some (s', calls) \<Longrightarrow>
     audio_step D di cfg (s, n) (Turned calls) (s', occupied_after n calls)"
| plays: "n' \<le> n \<Longrightarrow> audio_step D di cfg (s, n) Played (s, n')"
| asks_flush: "audio_step D di cfg (s, n) (Asked_flush item) (s\<lparr>requests := handle_flushbuffered (Some item) (requests s)\<rparr>, n)"
| asks_rate: "handle_setrateanchori cfg can_stop now (Some item) (requests s) = Some (conn, calls) \<Longrightarrow>
     audio_step D di cfg (s, n) (Asked_rate item) (s\<lparr>requests := conn\<rparr>, n)"

inductive_cases audio_stepE: "audio_step D di cfg q ev q'"

text \<open>A new block is only looked for when the player is not full, and it does not fill by itself.\<close>

definition audio_ok :: "'c decoder \<Rightarrow> bytes \<Rightarrow> (u32 \<Rightarrow> bytes) \<Rightarrow> 'c audio_thread \<times> u32 \<Rightarrow> bool" where
  "audio_ok D key F q \<longleftrightarrow> thread_ok D key F (fst q) \<and>
     (new_buffer_needed (work (fst q)) \<longrightarrow> \<not> player_is_full (conn_input_rate (clock (requests (fst q)))) (snd q))"

lemma player_is_full_mono: "player_is_full rate n' \<Longrightarrow> n' \<le> n \<Longrightarrow> player_is_full rate n"
proof -
  assume full: "player_is_full rate n'" and "n' \<le> n"
  then have "unat n' \<le> unat n" by (simp only: word_le_nat_alt)
  then have "rat_of_nat (unat n') \<le> rat_of_nat (unat n)" by (simp only: of_nat_le_iff)
  with full show "player_is_full rate n" unfolding player_is_full_def by linarith
qed

lemma occupied_after_resets: "set calls \<subseteq> {Reset_buffer} \<Longrightarrow> occupied_after n calls \<le> n"
proof (induction calls arbitrary: n)
  case (Cons c calls)
  then have "set calls \<subseteq> {Reset_buffer}" by simp
  from Cons.IH [OF this, of 0] have "occupied_after 0 calls = 0" by simp
  with Cons.prems show ?case by auto
qed simp

lemma flush_stages:
  "clock (flush_stops_play v conn) = clock conn" "session_key (flush_stops_play v conn) = session_key conn"
  "clock (replace_flush_start v f ts conn) = clock conn" "session_key (replace_flush_start v f ts conn) = session_key conn"
  "ap2_flush_until_sequence_number (replace_flush_start v f ts conn) = ap2_flush_until_sequence_number conn"
  by (simp_all add: flush_stops_play_def replace_flush_start_def)

lemma flush_keeps:
  "clock (handle_flushbuffered (Some item) conn) = clock conn"
  "session_key (handle_flushbuffered (Some item) conn) = session_key conn"
  "ap2_flush_from_valid (handle_flushbuffered (Some item) conn) = (item ''flushFromSeq'' \<noteq> None)"
  "ap2_flush_requested (handle_flushbuffered (Some item) conn)"
  "ap2_flush_until_sequence_number (handle_flushbuffered (Some item) conn) = ucast (or_zero (item ''flushUntilSeq''))"
  by (simp_all add: handle_flushbuffered_def flush_stages Let_def)

lemma anchor_keeps_rate:
  "conn_input_rate (set_ptp_anchor_info now clock_id rtptime networktime c) = conn_input_rate c"
  "conn_input_rate (reset_anchor_info c) = conn_input_rate c"
  by (simp_all add: set_ptp_anchor_info_def reset_anchor_info_def reset_ptp_anchor_info_def reset_ntp_anchor_info_def
      conn_input_rate_def Let_def split: timing_t.split)

lemma set_anchor_keeps:
  assumes "set_anchor cfg now item conn = Some conn'"
  shows "conn_input_rate (clock conn') = conn_input_rate (clock conn)" and "session_key conn' = session_key conn"
    and "ap2_flush_from_valid conn' = ap2_flush_from_valid conn"
    and "ap2_flush_requested conn' = ap2_flush_requested conn"
    and "ap2_flush_until_sequence_number conn' = ap2_flush_until_sequence_number conn"
  using assms
  by (cases "item ''networkTimeSecs''"; cases "item ''networkTimeTimelineID''"; cases "item ''networkTimeFrac''";
      cases "item ''rtpTime''"; auto simp: set_anchor_def anchor_keeps_rate Let_def)+

lemma set_rate_keeps:
  assumes "set_rate can_stop item conn = (conn', calls)"
  shows "conn_input_rate (clock conn') = conn_input_rate (clock conn)" and "session_key conn' = session_key conn"
    and "ap2_flush_from_valid conn' = ap2_flush_from_valid conn"
    and "ap2_flush_requested conn' = ap2_flush_requested conn"
    and "ap2_flush_until_sequence_number conn' = ap2_flush_until_sequence_number conn"
  using assms
  by (cases "item ''rate''"; auto simp: set_rate_def anchor_keeps_rate Let_def split: if_splits)+

lemma rate_request_keeps:
  assumes "handle_setrateanchori cfg can_stop now (Some item) conn = Some (conn', calls)"
  shows "conn_input_rate (clock conn') = conn_input_rate (clock conn)" and "session_key conn' = session_key conn"
    and "ap2_flush_from_valid conn' = ap2_flush_from_valid conn"
    and "ap2_flush_requested conn' = ap2_flush_requested conn"
    and "ap2_flush_until_sequence_number conn' = ap2_flush_until_sequence_number conn"
proof -
  obtain conn1 where 1: "set_anchor cfg now item conn = Some conn1" "set_rate can_stop item conn1 = (conn', calls)"
    using assms by (auto simp: handle_setrateanchori_def)
  show "conn_input_rate (clock conn') = conn_input_rate (clock conn)" "session_key conn' = session_key conn"
    "ap2_flush_from_valid conn' = ap2_flush_from_valid conn" "ap2_flush_requested conn' = ap2_flush_requested conn"
    "ap2_flush_until_sequence_number conn' = ap2_flush_until_sequence_number conn"
    using set_anchor_keeps [OF 1(1)] set_rate_keeps [OF 1(2)] by simp_all
qed

text \<open>Events without a flush that starts later.\<close>

fun no_delayed_flush :: "audio_event \<Rightarrow> bool" where
  "no_delayed_flush (Asked_flush item) \<longleftrightarrow> item ''flushFromSeq'' = None"
| "no_delayed_flush _ \<longleftrightarrow> True"

fun calls_of :: "audio_event \<Rightarrow> player_call list" where
  "calls_of (Turned calls) = calls"
| "calls_of _ = []"

lemma audio_step_keeps:
  assumes "frames_of D F" and "format_bits (decoded_format D) \<noteq> None"
    and "audio_step D di cfg q ev q'" and "audio_ok D key F q" and "no_delayed_flush ev"
  shows "audio_ok D key F q'" and "\<forall>c \<in> set (calls_of ev). plays D di F c"
proof -
  have "audio_ok D key F q' \<and> (\<forall>c \<in> set (calls_of ev). plays D di F c)"
    using assms(3)
  proof cases
    case (turns s e n s' calls)
    have ok: "thread_ok D key F s" "new_buffer_needed (work s) \<Longrightarrow> \<not> player_is_full (conn_input_rate (clock (requests s))) n"
      using assms(4) turns(1) by (simp_all add: audio_ok_def)
    obtain s1 calls1 where t: "turn D di e s = Some (s1, calls1)" "thread_ok D key F s1" "\<forall>c \<in> set calls1. plays D di F c"
      "conn_input_rate (clock (requests s1)) = conn_input_rate (clock (requests s))"
      "new_buffer_needed (work s1) \<Longrightarrow> set calls1 \<subseteq> {Reset_buffer} \<and>
        \<not> player_is_full (conn_input_rate (clock (requests s))) (player_buffer_occupancy e)"
      by (rule turn_keeps [OF assms(1,2) ok(1), of e di]) (use ok(2) turns(5) in auto)
    have "s1 = s'" "calls1 = calls" using t(1) turns(6) by simp_all
    then show ?thesis
      using t(2-5) turns(2,3,5) occupied_after_resets player_is_full_mono unfolding audio_ok_def by fastforce
  next
    case (plays n' n s)
    then show ?thesis using assms(4) player_is_full_mono by (auto simp: audio_ok_def)
  next
    case (asks_flush s n item)
    then show ?thesis
      using assms(4,5) by (auto simp: audio_ok_def thread_ok_def conn_ok_def flush_keeps)
  next
    case (asks_rate can_stop now item s conn calls n)
    then show ?thesis
      using assms(4) rate_request_keeps [OF asks_rate(4)] by (auto simp: audio_ok_def thread_ok_def conn_ok_def)
  qed
  then show "audio_ok D key F q'" "\<forall>c \<in> set (calls_of ev). plays D di F c" by simp_all
qed

lemma audio_run_keeps:
  assumes "frames_of D F" and "format_bits (decoded_format D) \<noteq> None"
    and "runs (audio_step D di cfg) q es q'" and "audio_ok D key F q" and "list_all no_delayed_flush es"
  shows "audio_ok D key F q' \<and> (\<forall>c \<in> set (concat (map calls_of es)). plays D di F c)"
  using assms(3-5)
proof (induction rule: runs.induct)
  case (run_cons q e q' es q'')
  then show ?case using audio_step_keeps [OF assms(1,2) run_cons.hyps(1) run_cons.prems(1)] by auto
qed simp



section \<open>A concrete run\<close>

text \<open>A decoder that takes what is behind the head for the frames, and a cipher that adds a tag.\<close>

definition plain_decoder :: "bytes list decoder" where
  "plain_decoder = \<lparr>av_parser_parse2 = (\<lambda>c data. (c, int (length data), data)),
     avcodec_send_packet = (\<lambda>c pkt. ([drop 7 pkt], 0)),
     avcodec_receive_frame = (\<lambda>c. case c of [] \<Rightarrow> ([], No_more) | f # fs \<Rightarrow> (fs, Frame f)),
     chacha20poly1305_decrypt = (\<lambda>key nonce ad c. Some (take (length c - 16) c)), decoded_format = SPS_FORMAT_S16\<rparr>"

definition silent_frames :: "u32 \<Rightarrow> bytes" where
  "silent_frames t = replicate 4 0"

definition sample_processor :: processor where
  "sample_processor = \<lparr>pcm_buffer = replicate 5504 0, pcm_buffer_size = 5504, pcm_buffer_occupancy = 1408,
     pcm_buffer_read_point = 0, pcm_buffer_read_point_rtptime = 100, pcm_buffer_read_point_rtptime_offset = 0,
     packet = replicate 16384 0, block_seq_no = 1, new_buffer_needed = False, blocks_read = 1, blocks_read_in_sequence = 1,
     flushing = False, packets_played_in_this_sequence = 0, play_enabled = True, flush_from_timestamp = 0,
     silence = \<lparr>previous_random_number = 0, ds_random = raninit 0\<rparr>\<rparr>"

definition sample_requests :: buffered_conn where
  "sample_requests = \<lparr>clock = sample_rtp Ts_ptp, session_key = Some [], connection_start_time = 0, networkTimeTimelineID = 5,
     ap2_flush_requested = False, ap2_flush_from_valid = False, ap2_flush_from_rtp_timestamp = 0,
     ap2_flush_from_sequence_number = 0, ap2_flush_until_rtp_timestamp = 0, ap2_flush_until_sequence_number = 0,
     ap2_rate = 1, ap2_play_enabled = True\<rparr>"

text \<open>A block of two frames is on its way.\<close>

definition sample_thread :: "bytes list audio_thread" where
  "sample_thread = \<lparr>requests = sample_requests, work = sample_processor, codec = [],
     ring = \<lparr>pieces = [framed ([0, 0, 0, 0, 0, 0, 1, 196] @ replicate 36 0)], ending = Peer_closed\<rparr>, finished = False\<rparr>"

definition sample_surroundings :: surroundings where
  "sample_surroundings = \<lparr>player_buffer_occupancy = 0, shm_at = (\<lambda>_. Some (sample_shm 5)), time_at = (\<lambda>_. 0)\<rparr>"

lemma silent_frames_from: "frames_from silent_frames ts n = replicate (n * 4) 0"
  by (induction n arbitrary: ts) (simp_all add: silent_frames_def replicate_add)

lemma plain_frames_of: "frames_of plain_decoder silent_frames"
  by (simp add: frames_of_def silent_frames_def frame_bytes_def plain_decoder_def)

lemma sample_renders: "renders plain_decoder [] silent_frames ([0, 0, 0, 0, 0, 0, 1, 196] @ replicate 36 0, 2)"
proof -
  let ?b = "[0, 0, 0, 0, 0, 0, 1, 196] @ replicate 36 0 :: bytes"
  have "decipher_block plain_decoder [] (length ?b) ?b = Some (Some (replicate 8 0))"
    by (simp add: decipher_block_def rd_block_def plain_decoder_def)
  moreover have "\<exists>c' fs. decoded_frames plain_decoder (addADTStoPacket 15 @ replicate 8 0) c = Some (c', fs) \<and> concat fs = replicate 8 0" for c
    by (subst decoded_frames.simps, subst decoded_frames.simps, subst received_frames.simps, subst received_frames.simps)
      (simp add: plain_decoder_def addADTStoPacket_def Let_def)
  ultimately show ?thesis by (auto simp: silent_frames_from)
qed

lemma sample_audio_ok: "audio_ok plain_decoder [] silent_frames (sample_thread, 0)"
proof -
  let ?b = "[0, 0, 0, 0, 0, 0, 1, 196] @ replicate 36 0 :: bytes"
  have "rd_block ?b 4 4 = Some [0, 0, 1, 196]" by (simp add: rd_block_def)
  then have "block_time ?b = 452" by (simp add: block_time_def nctohl_def)
  then have "in_step plain_decoder silent_frames [(?b, 2)] sample_processor"
    by (auto simp: in_step_def buffer_ok_def waiting_pcm_def sample_processor_def frame_bytes_def plain_decoder_def
        silent_frames_from intro!: exI [of _ 352])
  moreover have "stream_ahead plain_decoder [] silent_frames [(?b, 2)] (ring sample_thread)"
    using sample_renders by (simp add: stream_ahead_def sample_thread_def del: renders.simps)
  moreover have "conn_ok [] sample_requests"
    by (simp add: conn_ok_def sample_requests_def conn_input_rate_def sample_rtp_def sample_conn_def)
  moreover have "\<not> new_buffer_needed sample_processor" by (simp add: sample_processor_def)
  ultimately show ?thesis by (auto simp: audio_ok_def thread_ok_def sample_thread_def)
qed

text \<open>The frames that wait are sent seven seconds ahead.\<close>

lemma sample_times:
  "\<exists>c. have_ptp_timing_information (Some (sample_shm 5)) 0 0 (sample_rtp Ts_ptp) = (True, c) \<and>
     (\<exists>c'. frame_to_local_time (Some (sample_shm 5)) 0 0 100 c = Some (Some 6999999500, c'))"
proof -
  define info where "info = \<lparr>actual_clock_id = 5, time_of_sample = 0, raw_offset = 500, mastership_start_time = 0 :: u64\<rparr>"
  have i: "ptp_get_clock_info (Some (sample_shm 5)) = (Clock_ok, info)"
    by (simp add: ptp_get_clock_info_def sample_shm_def NQPTP_SHM_STRUCTURES_VERSION_def info_def)
  define c where "c = (use_anchor 0 info (sample_rtp Ts_ptp))\<lparr>clock_status := Clock_ok\<rparr>"
  have 1: "get_ptp_anchor_local_time_info (Some (sample_shm 5)) 0 0 (sample_rtp Ts_ptp) = (Clock_ok, Some (100, 6999999500), c)"
    using i get_ptp_same_clock [of "Some (sample_shm 5)" info "sample_rtp Ts_ptp" 0 0]
    by (simp add: clock_read_def sample_rtp_def info_def c_def)
  have "\<exists>c'. get_ptp_anchor_local_time_info (Some (sample_shm 5)) 0 0 c = (Clock_ok, Some (100, 6999999500), c') \<and>
      conn_input_rate c' \<noteq> 0"
    using i get_ptp_same_clock [of "Some (sample_shm 5)" info c 0 0]
    by (simp add: clock_read_def sample_rtp_def info_def c_def use_anchor_def conn_input_rate_def sample_conn_def)
  moreover have "timing_type c = Ts_ptp" by (simp add: c_def use_anchor_def sample_rtp_def)
  ultimately show ?thesis
    using 1 by (auto simp: have_ptp_timing_information_def frame_to_local_time_def frame_to_ptp_local_time_def anchor_or_zero_def)
qed

lemma sample_turn:
  "\<exists>s'. turn plain_decoder False sample_surroundings sample_thread = Some (s', [Put_packet 100 (replicate 1408 0)])"
proof -
  have look: "look_at_requests sample_requests sample_processor = (sample_requests, sample_processor, False, False, False)"
    by (simp add: look_at_requests_def Let_def flush_is_active_def flush_is_due_def close_request_def stop_playing_def
        note_flush_start_def sample_requests_def sample_processor_def)
  have start: "start_flush False False sample_processor = (sample_processor, [])" by (simp add: start_flush_def)
  have "player_is_full (conn_input_rate (clock sample_requests)) 0 = False"
    using of_nat_0_le_iff [of "unat (conn_input_rate (clock sample_requests))", where ?'a = rat]
    by (simp only: player_is_full_def unsigned_0 of_nat_0 not_less) simp
  moreover have "frame_bytes plain_decoder = 4" by (simp add: frame_bytes_def plain_decoder_def)
  moreover have "send_frames plain_decoder False (sample_processor) =
      Some (sample_processor\<lparr>packets_played_in_this_sequence := 1\<rparr>, [Put_packet 100 (replicate 1408 0)])"
    using calculation(2) by (simp add: send_frames_def mute_transients_def rd_block_def sample_processor_def)
  moreover have "sample_processor\<lparr>new_buffer_needed := False\<rparr> = sample_processor" by (simp add: sample_processor_def)
  ultimately have "\<exists>clk p. play_part plain_decoder False sample_surroundings (clock sample_requests) sample_processor =
      Some (clk, p, [Put_packet 100 (replicate 1408 0)]) \<and> \<not> new_buffer_needed p \<and> \<not> flushing p"
    using sample_times
    by (auto simp: play_part_def next_frames_def sample_surroundings_def sample_requests_def sample_processor_def lead_time_def)
  moreover have "requests sample_thread = sample_requests" "work sample_thread = sample_processor" "\<not> flushing sample_processor"
    by (simp_all add: sample_thread_def sample_processor_def)
  ultimately show ?thesis by (auto simp: turn_def look start)
qed

lemma sample_run:
  "\<exists>s'. runs (audio_step plain_decoder False sample_rtp_config) (sample_thread, 0)
     [Turned [Put_packet 100 (replicate 1408 0)], Played] (s', 0)"
proof -
  obtain s' where t: "turn plain_decoder False sample_surroundings sample_thread = Some (s', [Put_packet 100 (replicate 1408 0)])"
    using sample_turn by blast
  have "audio_step plain_decoder False sample_rtp_config (sample_thread, 0) (Turned [Put_packet 100 (replicate 1408 0)])
      (s', occupied_after 0 [Put_packet 100 (replicate 1408 0)])"
    by (rule audio_step.turns [OF _ _ t]) (simp_all add: sample_thread_def sample_surroundings_def)
  moreover have "audio_step plain_decoder False sample_rtp_config (s', occupied_after 0 [Put_packet 100 (replicate 1408 0)]) Played (s', 0)"
    by (rule audio_step.plays) simp
  ultimately show ?thesis by (meson runs.intros)
qed

lemma plain_format: "format_bits (decoded_format plain_decoder) \<noteq> None"
  by (simp add: plain_decoder_def)



end
