(* ===== verification/Buffered_Flushes.thy ===== *)
theory Buffered_Flushes
  imports Buffered_Delivery
begin

text \<open>
  Flushes of buffered audio: what an immediate flush keeps from the player, and where a delayed one, an
  oversized block, the silencing of transients and a broken connection go wrong.
\<close>

section \<open>Immediate flushes\<close>

text \<open>Decoding changes nothing but the PCM buffer.\<close>

definition only_pcm :: "processor \<Rightarrow> processor \<Rightarrow> bool" where
  "only_pcm p p' \<longleftrightarrow> block_seq_no p' = block_seq_no p \<and> packet p' = packet p \<and> flushing p' = flushing p \<and>
     pcm_buffer_read_point p' = pcm_buffer_read_point p \<and>
     pcm_buffer_read_point_rtptime p' = pcm_buffer_read_point_rtptime p"

lemma only_pcm_trans: "only_pcm p q \<Longrightarrow> only_pcm q r \<Longrightarrow> only_pcm p r"
  by (simp add: only_pcm_def)

lemma add_frame_only_pcm: "add_frame D dl f p = Some p' \<Longrightarrow> only_pcm p p'"
  by (auto simp: add_frame_def only_pcm_def split: bind_splits if_splits)

lemma receive_loop_only_pcm:
  assumes "receive_loop D dl c p = Some r"
  shows "only_pcm p (snd r)"
  by (rule receive_loop.raw_induct [where P = "\<lambda>D dl c p r. only_pcm p (snd r)", OF _ assms])
    (auto split: prod.splits received.splits option.splits dest: add_frame_only_pcm intro: only_pcm_trans simp: only_pcm_def [of p p for p])

lemma decode_loop_only_pcm:
  assumes "decode_loop D dl data c p = Some r"
  shows "only_pcm p (snd r)"
  by (rule decode_loop.raw_induct [where P = "\<lambda>D dl data c p r. only_pcm p (snd r)", OF _ assms])
    (auto simp: Let_def only_pcm_def [of p p for p] split: prod.splits if_splits option.splits dest!: receive_loop_only_pcm intro: only_pcm_trans)

lemma decode_block_only_pcm: "decode_block D k dl nread c p = Some (c', p') \<Longrightarrow> only_pcm p p'"
  by (auto simp: decode_block_def only_pcm_def [of p p for p] split: option.splits bind_splits dest: decode_loop_only_pcm)

text \<open>The requests as far as a flush that has not been replaced is concerned.\<close>

definition flush_pending :: "u32 \<Rightarrow> buffered_conn \<Rightarrow> bool" where
  "flush_pending U conn \<longleftrightarrow> ap2_flush_requested conn \<and> \<not> ap2_flush_from_valid conn \<and> ap2_flush_until_sequence_number conn = U"

definition before_until :: "u32 \<Rightarrow> processor \<Rightarrow> bool" where
  "before_until U p \<longleftrightarrow> blocks_read p = 0 \<or> block_seq_no p < U"

lemma pending_active:
  "flush_pending U conn \<Longrightarrow> flush_is_active conn p = before_until U p"
  by (auto simp: flush_pending_def flush_is_active_def flush_is_due_def flush_is_over_def before_until_def)

text \<open>A block that is taken in a flush leaves nothing but its own frames, and those only if it ends the flush.\<close>

lemma take_block_in_flush:
  assumes "take_block D e dl U nread conn c p = Some (conn', c', p')" and "flushing p"
  shows "pcm_buffer_occupancy p' = 0 \<or> block_seq_no p' = U \<and> pcm_buffer_read_point p' = 0 \<and>
      nctohl (packet p') 4 = Some (pcm_buffer_read_point_rtptime p')"
    and "flushing p'" and "conn' = conn\<lparr>clock := clock conn'\<rparr>"
proof -
  obtain h ts clk outdated too_soon where h: "rd_block (packet p) 1 3 = Some h" "nctohl (packet p) 4 = Some ts"
    "judge_block e (connection_start_time conn) ts (clock conn) = Some (clk, outdated, too_soon)"
  proof -
    obtain h where h: "rd_block (packet p) 1 3 = Some h" using assms(1) by (cases "rd_block (packet p) 1 3") (simp_all add: take_block_def)
    obtain ts where ts: "nctohl (packet p) 4 = Some ts" using assms(1) h by (cases "nctohl (packet p) 4") (simp_all add: take_block_def)
    obtain clk outdated too_soon where "judge_block e (connection_start_time conn) ts (clock conn) = Some (clk, outdated, too_soon)"
      using assms(1) h ts by (cases "judge_block e (connection_start_time conn) ts (clock conn)") (auto simp: take_block_def Let_def)
    with h ts show ?thesis by (rule that)
  qed
  define seq :: u32 where "seq = word_of_int (uint (h ! 0) * 65536 + uint (h ! 1) * 256 + uint (h ! 2))"
  define p1 where "p1 = p\<lparr>blocks_read := blocks_read p + 1, blocks_read_in_sequence := blocks_read_in_sequence p + 1, block_seq_no := seq\<rparr>"
  define q where "q = made_ready True ts p1"
  have fl: "flushing p1" using assms(2) by (simp add: p1_def)
  have q: "pcm_buffer_occupancy q = 0" "pcm_buffer_read_point q = 0" "pcm_buffer_read_point_rtptime q = ts" "packet q = packet p"
    "block_seq_no q = seq" "flushing q"
    using assms(2) by (simp_all add: q_def made_ready_def p1_def)
  have "do { (c, p) \<leftarrow> (if (flushing q \<and> seq = U \<or> \<not> flushing q \<and> new_buffer_needed q) \<and> \<not> too_soon
                    then decode_block D (session_key conn) dl nread c q else Some (c, q));
           Some (conn\<lparr>clock := clk\<rparr>, c, p) } = Some (conn', c', p')"
    using assms(1) fl
    by (simp only: take_block_def h Option.bind.simps Let_def prod.case simp_thms q_def flip: seq_def p1_def)
  then have "(p' = q \<or> seq = U \<and> only_pcm q p') \<and> conn' = conn\<lparr>clock := clk\<rparr>"
    using q(6) by (auto split: bind_splits if_splits dest: decode_block_only_pcm)
  then show "pcm_buffer_occupancy p' = 0 \<or> block_seq_no p' = U \<and> pcm_buffer_read_point p' = 0 \<and>
      nctohl (packet p') 4 = Some (pcm_buffer_read_point_rtptime p')" "flushing p'" "conn' = conn\<lparr>clock := clock conn'\<rparr>"
    using q h(2) by (auto simp: only_pcm_def)
qed

lemma turn_in_flush:
  assumes "turn D di e s = Some (s', calls)" and "flush_pending U (requests s)" and "before_until U (work s)"
    and "flushing (work s) \<Longrightarrow> pcm_buffer_occupancy (work s) = 0"
  shows "set calls \<subseteq> {Reset_buffer} \<and> flush_pending U (requests s') \<and>
    (pcm_buffer_occupancy (work s') = 0 \<or> block_seq_no (work s') = U \<and> pcm_buffer_read_point (work s') = 0 \<and>
      nctohl (packet (work s')) 4 = Some (pcm_buffer_read_point_rtptime (work s')))"
proof -
  have act: "flush_is_active (requests s) (work s)" using assms(2,3) pending_active by blast
  let ?q = "stop_playing (requests s) (note_flush_start (requests s) (work s))"
  let ?p1 = "?q\<lparr>flushing := True, play_enabled := ap2_play_enabled (requests s)\<rparr>"
  have dl: "(ap2_flush_requested (requests s) \<and> ap2_flush_from_valid (requests s)) = False" using assms(2) by (simp add: flush_pending_def)
  have c: "close_request (requests s) (work s) = requests s" using act by (simp add: close_request_def flush_is_active_def)
  obtain ns where look: "look_at_requests (requests s) (work s) = (requests s, ?p1, False, \<not> flushing (work s), ns)"
    by (simp only: look_at_requests_def Let_def act c dl if_False simp_thms)
  obtain p2 resets where start: "start_flush (\<not> flushing (work s)) ns ?p1 = (p2, resets)" by fastforce
  have o: "flushing (work s) \<Longrightarrow> pcm_buffer_occupancy ?p1 = 0" using assms(4) by (simp add: stop_playing_def note_flush_start_def)
  have p2: "flushing p2" "pcm_buffer_occupancy p2 = 0" "set resets \<subseteq> {Reset_buffer}"
    using start o by (cases "flushing (work s)"; auto simp: start_flush_def)+
  let ?s = "s\<lparr>requests := requests s, work := p2\<rparr>"
  have b: "block_part D e False U ?s = Some s'" "calls = resets"
  proof -
    have "(requests s)\<lparr>clock := clock (requests s)\<rparr> = requests s" by simp
    then have "turn D di e s = map_option (\<lambda>s. (s, resets)) (block_part D e False U ?s)"
      using p2(1) assms(2) by (simp add: turn_def look start flush_pending_def map_option_case split: option.split)
    then show "block_part D e False U ?s = Some s'" "calls = resets"
      using assms(1) by (cases "block_part D e False U ?s"; simp)+
  qed
  obtain nread pkt src where r: "read_block (packet p2) (ring s) = Some (nread, pkt, src)"
    using b(1) by (cases "read_block (packet p2) (ring s)") (auto simp: block_part_def)
  have "flush_pending U (requests s') \<and> (pcm_buffer_occupancy (work s') = 0 \<or> block_seq_no (work s') = U \<and>
      pcm_buffer_read_point (work s') = 0 \<and> nctohl (packet (work s')) 4 = Some (pcm_buffer_read_point_rtptime (work s')))"
  proof (cases "nread \<le> 0")
    case True
    then have "requests s' = requests s \<and> work s' = p2\<lparr>packet := pkt\<rparr>"
      using b(1) r by (cases "nread < 0") (auto simp: block_part_def)
    then show ?thesis using assms(2) p2 by simp
  next
    case False
    then obtain conn' c' p' where t: "take_block D e False U (nat nread) (requests s) (codec s) (p2\<lparr>packet := pkt\<rparr>) = Some (conn', c', p')"
      "requests s' = conn'" "work s' = p'"
      using b(1) r by (cases "take_block D e False U (nat nread) (requests s) (codec s) (p2\<lparr>packet := pkt\<rparr>)")
        (auto simp: block_part_def)
    have f: "flushing (p2\<lparr>packet := pkt\<rparr>)" using p2(1) by simp
    have "flush_pending U conn'"
      using assms(2) by (subst take_block_in_flush(3) [OF t(1) f]) (simp add: flush_pending_def)
    then show ?thesis using take_block_in_flush(1) [OF t(1) f] t(2,3) by simp
  qed
  then show ?thesis using b(2) p2(3) by simp
qed

text \<open>Events without a new flush request, and without a packet for the player.\<close>

fun no_flush :: "audio_event \<Rightarrow> bool" where
  "no_flush (Asked_flush item) \<longleftrightarrow> False"
| "no_flush _ \<longleftrightarrow> True"

definition nothing_sent :: "audio_event list \<Rightarrow> bool" where
  "nothing_sent es \<longleftrightarrow> set (concat (map calls_of es)) \<subseteq> {Reset_buffer}"

text \<open>The thread when a block behind the flush, or the one it ends at, has been read.\<close>

definition flushed :: "u32 \<Rightarrow> processor \<Rightarrow> bool" where
  "flushed U p \<longleftrightarrow> U \<le> block_seq_no p \<and>
     (pcm_buffer_occupancy p = 0 \<or> block_seq_no p = U \<and> pcm_buffer_read_point p = 0 \<and>
        nctohl (packet p) 4 = Some (pcm_buffer_read_point_rtptime p))"

lemma flush_run:
  assumes "runs (audio_step D di cfg) q es q'" and "flush_pending U (requests (fst q))" and "before_until U (work (fst q))"
    and "flushing (work (fst q)) \<Longrightarrow> pcm_buffer_occupancy (work (fst q)) = 0" and "list_all no_flush es"
  shows "nothing_sent es \<or> (\<exists>es1 q1 es2. es = es1 @ es2 \<and> runs (audio_step D di cfg) q es1 q1 \<and> nothing_sent es1 \<and>
     flushed U (work (fst q1)) \<and> runs (audio_step D di cfg) q1 es2 q')"
  using assms
proof (induction rule: runs.induct)
  case (run_nil q)
  then show ?case by (simp add: nothing_sent_def)
next
  case (run_cons q ev q1 es q2)
  have step: "nothing_sent [ev] \<and> flush_pending U (requests (fst q1)) \<and>
      (flushed U (work (fst q1)) \<or> before_until U (work (fst q1)) \<and> (flushing (work (fst q1)) \<longrightarrow> pcm_buffer_occupancy (work (fst q1)) = 0))"
    using run_cons.hyps(1)
  proof cases
    case (turns s e n s' calls)
    have t: "set calls \<subseteq> {Reset_buffer} \<and> flush_pending U (requests s') \<and>
      (pcm_buffer_occupancy (work s') = 0 \<or> block_seq_no (work s') = U \<and> pcm_buffer_read_point (work s') = 0 \<and>
        nctohl (packet (work s')) 4 = Some (pcm_buffer_read_point_rtptime (work s')))"
      by (rule turn_in_flush [OF turns(6)]) (use run_cons.prems(1-3) turns(1) in auto)
    show ?thesis
    proof (cases "U \<le> block_seq_no (work s')")
      case True
      then show ?thesis using t turns(2,3) by (simp add: nothing_sent_def flushed_def)
    next
      case False
      then show ?thesis using t turns(2,3) by (auto simp: nothing_sent_def before_until_def)
    qed
  next
    case (plays n' n s)
    then show ?thesis using run_cons.prems by (simp add: nothing_sent_def)
  next
    case (asks_flush s n item)
    then show ?thesis using run_cons.prems(4) by simp
  next
    case (asks_rate can_stop now item s conn calls n)
    then show ?thesis
      using run_cons.prems rate_request_keeps [OF asks_rate(4)] by (simp add: nothing_sent_def flush_pending_def)
  qed
  show ?case
  proof (cases "flushed U (work (fst q1))")
    case True
    then show ?thesis
      using step run_cons.hyps run_one [of "audio_step D di cfg"] by (intro disjI2 exI [of _ "[ev]"] exI [of _ q1] exI [of _ es]) auto
  next
    case False
    then have "nothing_sent es \<or> (\<exists>es1 r es2. es = es1 @ es2 \<and> runs (audio_step D di cfg) q1 es1 r \<and> nothing_sent es1 \<and>
        flushed U (work (fst r)) \<and> runs (audio_step D di cfg) r es2 q2)"
      using step run_cons.IH run_cons.prems(4) by auto
    then show ?thesis
    proof
      assume "nothing_sent es"
      then show ?thesis using step by (simp add: nothing_sent_def)
    next
      assume "\<exists>es1 r es2. es = es1 @ es2 \<and> runs (audio_step D di cfg) q1 es1 r \<and> nothing_sent es1 \<and>
        flushed U (work (fst r)) \<and> runs (audio_step D di cfg) r es2 q2"
      then obtain es1 r es2 where r: "es = es1 @ es2" "runs (audio_step D di cfg) q1 es1 r" "nothing_sent es1" "flushed U (work (fst r))"
        "runs (audio_step D di cfg) r es2 q2"
        by blast
      have "nothing_sent (ev # es1)" using step r(3) by (simp add: nothing_sent_def)
      moreover have "runs (audio_step D di cfg) q (ev # es1) r" using run_cons.hyps(1) r(2) by (rule runs.run_cons)
      ultimately show ?thesis using r(1,4,5) by (intro disjI2 exI [of _ "ev # es1"] exI [of _ r] exI [of _ es2]) simp
    qed
  qed
qed

text \<open>
  C15. A flush that starts at once, asked for while none is under way and with the block it ends at still to
  come, keeps everything before that block from the player, whatever the decoder does and however the
  threads interleave: as long as no later flush is asked for, no packet is sent until a block with the
  number of the end or a higher one has been read, and then the buffer holds no frames but those of the
  block with exactly that number, under its timestamp.
\<close>
theorem flush_discards_until:
  assumes "item ''flushFromSeq'' = None" and "U = ucast (or_zero (item ''flushUntilSeq''))"
    and "\<not> flushing (work s)" and "before_until U (work s)"
    and "runs (audio_step D di cfg) (s\<lparr>requests := handle_flushbuffered (Some item) (requests s)\<rparr>, n) es q'"
    and "list_all no_flush es"
  shows "nothing_sent es \<or> (\<exists>es1 q1 es2. es = es1 @ es2 \<and>
     runs (audio_step D di cfg) (s\<lparr>requests := handle_flushbuffered (Some item) (requests s)\<rparr>, n) es1 q1 \<and>
     nothing_sent es1 \<and> flushed U (work (fst q1)) \<and> runs (audio_step D di cfg) q1 es2 q')"
proof -
  have "flush_pending U (handle_flushbuffered (Some item) (requests s))"
    using assms(1,2) by (simp add: flush_pending_def flush_keeps)
  then show ?thesis by (intro flush_run [OF assms(5)]) (use assms(3,4,6) in simp_all)
qed

text \<open>A flush until block 5, on a connection the client then closes.\<close>

definition sample_flush :: plist where
  "sample_flush = (\<lambda>k. if k = ''flushUntilSeq'' then Some 5 else None)"

definition quiet_thread :: "bytes list audio_thread" where
  "quiet_thread = sample_thread\<lparr>ring := \<lparr>pieces = [], ending = Peer_closed\<rparr>\<rparr>"

lemma sample_flush_turn:
  "\<exists>s'. turn plain_decoder False sample_surroundings (quiet_thread\<lparr>requests := handle_flushbuffered (Some sample_flush) (requests quiet_thread)\<rparr>) =
     Some (s', [Reset_buffer, Reset_buffer])"
proof -
  define conn where "conn = handle_flushbuffered (Some sample_flush) sample_requests"
  have conn: "conn = sample_requests\<lparr>ap2_flush_requested := True, ap2_play_enabled := False, ap2_flush_until_sequence_number := 5\<rparr>"
    by (simp add: conn_def handle_flushbuffered_def flush_stops_play_def replace_flush_start_def or_zero_def sample_requests_def sample_flush_def)
  define p where "p = sample_processor\<lparr>flushing := True, play_enabled := False, pcm_buffer_occupancy := 0, blocks_read_in_sequence := 0\<rparr>"
  have look: "look_at_requests conn sample_processor = (conn, p, False, True, True)"
    by (simp add: look_at_requests_def Let_def flush_is_active_def flush_is_due_def flush_is_over_def close_request_def stop_playing_def
        note_flush_start_def conn sample_requests_def sample_processor_def p_def word_le_nat_alt)
  have start: "start_flush True True p = (p, [Reset_buffer, Reset_buffer])"
    by (simp add: start_flush_def p_def sample_processor_def)
  have "read_block b \<lparr>pieces = [], ending = Peer_closed\<rparr> = Some (0, b, \<lparr>pieces = [], ending = Peer_closed\<rparr>)" for b
    by (simp add: read_block_def lread_sized_block_def read_loop.simps ring_read_def wr_block_def)
  moreover have "requests quiet_thread = sample_requests" "work quiet_thread = sample_processor"
    "ring quiet_thread = \<lparr>pieces = [], ending = Peer_closed\<rparr>" "flushing p"
    by (simp_all add: quiet_thread_def sample_thread_def p_def)
  ultimately show ?thesis by (simp add: turn_def look start block_part_def flip: conn_def)
qed

lemma flush_discards_until_witness:
  "\<exists>q'. nothing_sent [Turned [Reset_buffer, Reset_buffer]] \<or> (\<exists>es1 q1 es2. [Turned [Reset_buffer, Reset_buffer]] = es1 @ es2 \<and>
     runs (audio_step plain_decoder False sample_rtp_config)
       (quiet_thread\<lparr>requests := handle_flushbuffered (Some sample_flush) (requests quiet_thread)\<rparr>, 0) es1 q1 \<and>
     nothing_sent es1 \<and> flushed 5 (work (fst q1)) \<and> runs (audio_step plain_decoder False sample_rtp_config) q1 es2 q')"
proof -
  let ?s = "quiet_thread\<lparr>requests := handle_flushbuffered (Some sample_flush) (requests quiet_thread)\<rparr>"
  obtain s' where t: "turn plain_decoder False sample_surroundings ?s = Some (s', [Reset_buffer, Reset_buffer])"
    using sample_flush_turn by blast
  have "audio_step plain_decoder False sample_rtp_config (?s, 0) (Turned [Reset_buffer, Reset_buffer])
      (s', occupied_after 0 [Reset_buffer, Reset_buffer])"
    by (rule audio_step.turns [OF _ _ t]) (simp_all add: quiet_thread_def sample_thread_def sample_surroundings_def)
  note r = run_one [of "audio_step plain_decoder False sample_rtp_config", OF this]
  have "before_until 5 (work quiet_thread)" "\<not> flushing (work quiet_thread)"
    by (simp_all add: before_until_def quiet_thread_def sample_thread_def sample_processor_def)
  from flush_discards_until [OF _ _ this(2) this(1) r] show ?thesis by (intro exI) (simp add: sample_flush_def or_zero_def)
qed

section \<open>Where it goes wrong\<close>

text \<open>A block of more than 16,384 bytes that has arrived is copied behind the end of the packet.\<close>

lemma long_block_overflows:
  assumes "pieces src = [framed b]" and "length pkt = 16384" and "16384 < length b" and "length b \<le> 65533"
  shows "read_block pkt src = None"
proof -
  let ?h = "[of_nat ((length b + 2) div 256), of_nat ((length b + 2) mod 256)] :: bytes"
  have "b \<noteq> []" using assms(3) by auto
  then have r: "ring_read 2 src = (2, ?h, src\<lparr>pieces := [b]\<rparr>)"
    using assms(1) by (simp add: ring_read_def framed_def)
  have "lread_sized_block [0, 0] 2 src = Some (2, ?h, src\<lparr>pieces := [b]\<rparr>)"
    by (simp add: lread_sized_block_def read_loop.simps r wr_block_def Let_def)
  moreover have "payload_size (word_of_int (uint (?h ! 0) * 256 + uint (?h ! 1))) = length b"
    by (rule framed_size [OF assms(4)])
  moreover have "ring_read (length b) (src\<lparr>pieces := [b]\<rparr>) = (int (length b), b, src\<lparr>pieces := []\<rparr>)"
    using \<open>b \<noteq> []\<close> by (simp add: ring_read_def)
  then have "lread_sized_block pkt (length b) (src\<lparr>pieces := [b]\<rparr>) = None"
    using assms(2,3) by (simp add: lread_sized_block_def read_loop.simps wr_block_def)
  ultimately show ?thesis by (simp add: read_block_def)
qed

text \<open>
  A PCM buffer that is too small for a frame is taken for larger from then on, so that the next frame of
  the size is copied behind its end.
\<close>

lemma small_buffer_overflows:
  assumes "buffer_ok D p" and "1376 * frame_bytes D < pcm_buffer_occupancy p + length f"
  shows "\<exists>p'. add_frame D False f p = Some p' \<and> add_frame D False f p' = None"
proof -
  let ?p = "p\<lparr>pcm_buffer_size := int (length f + pcm_buffer_occupancy p)\<rparr>"
  have "add_frame D False f p = Some ?p" using assms by (simp add: add_frame_def kept_bytes_def buffer_ok_def)
  moreover have "add_frame D False f ?p = None"
    using assms by (simp add: add_frame_def kept_bytes_def buffer_ok_def wr_block_def)
  ultimately show ?thesis by blast
qed

text \<open>
  A delayed flush cuts what is added as if nothing were waiting: with \<open>k\<close> frames waiting in front, \<open>k\<close> frames
  from behind the start of the flush stay.
\<close>

lemma delayed_flush_overshoots:
  assumes "buffer_ok D p" and "pcm_buffer_read_point p = 0" and "pcm_buffer_occupancy p = k * frame_bytes D"
    and "flush_from_timestamp p = pcm_buffer_read_point_rtptime p + of_nat m" and "0 < m" "m < 1024" "k < 352"
    and "length f = 1024 * frame_bytes D"
  shows "\<exists>p'. add_frame D True f p = Some p' \<and> pcm_buffer_occupancy p' = (k + m) * frame_bytes D"
proof -
  have "sint (of_nat m :: u32) = int m" using assms(6) by (simp add: signed_of_nat signed_take_bit_int_eq_self)
  moreover have "int m * int (frame_bytes D) < int (1024 * frame_bytes D)" using assms(6) frame_bytes_pos [of D] by simp
  moreover have "frame_bytes D \<le> 8" by (cases "decoded_format D") (simp_all add: frame_bytes_def)
  ultimately have "kept_bytes D True p (length f) = Some (m * frame_bytes D)"
    using assms(4,5,8) by (simp add: kept_bytes_def nat_mult_distrib)
  moreover have le: "k * frame_bytes D + m * frame_bytes D \<le> 1376 * frame_bytes D" "m * frame_bytes D \<le> length f"
    using assms(6-8) by (simp_all flip: add_mult_distrib)
  have "int (k * frame_bytes D) + int (m * frame_bytes D) \<le> int (1376 * frame_bytes D)" using le(1) by (simp only: of_nat_le_iff flip: of_nat_add)
  then have "\<not> pcm_buffer_size p - int (pcm_buffer_occupancy p) < int (m * frame_bytes D)"
    using assms(1,3) unfolding buffer_ok_def by linarith
  moreover have "pcm_buffer_occupancy p + length (take (m * frame_bytes D) f) \<le> length (pcm_buffer p)"
    using le assms(1,3) by (simp add: buffer_ok_def)
  note wr_block_mid [OF this]
  ultimately show ?thesis
    using assms(3) by (simp add: add_frame_def add_mult_distrib)
qed

text \<open>The silence of a 3-byte format covers 352 frames of six bytes, the decoder's frames have eight.\<close>

lemma silence_too_short:
  assumes "generate_zero_frames 352 SPS_FORMAT_S24_3LE di ds = Some (z, ds')"
  shows "length z = 352 * 6" and "decoded_bytes_per_frame SPS_FORMAT_S24_3LE = 8"
proof -
  have "length z = n * 3" if "zero_samples n SPS_FORMAT_S24_3LE di ds = Some (z, ds')" for n z ds ds'
    using that by (induction n arbitrary: z ds ds') (auto split: option.splits prod.splits)
  then show "length z = 352 * 6" using assms by (fastforce simp: generate_zero_frames_def split: option.splits)
qed simp

text \<open>After a connection reset the thread reads for ever.\<close>

lemma reset_reads_for_ever:
  assumes "concat (pieces src) = []" and "ending src = Broken 104"
  shows "lread_sized_block [0, 0] 2 src = None"
proof (rule ccontr)
  assume "lread_sized_block [0, 0] 2 src \<noteq> None"
  then obtain r where "read_loop 2 [0, 0] 0 src = Some r" by (auto simp: lread_sized_block_def)
  then have "\<not> (inbuf < count \<and> concat (pieces src) = [] \<and> ending src = Broken 104)" if "inbuf = 0" "count = (2 :: nat)" for inbuf count
    unfolding that [symmetric]
    by (rule read_loop.raw_induct [where P = "\<lambda>count buf inbuf src r. \<not> (inbuf < count \<and> concat (pieces src) = [] \<and> ending src = Broken 104)",
          rotated])
      (fastforce simp: ring_read_def retryable_def wr_block_def Let_def split: if_splits prod.splits option.splits)
  then show False using assms by auto
qed

end
