(* ===== verification/Rtp_Offsets.thy ===== *)
theory Rtp_Offsets
  imports Rtp_Timing Rtp_Timeline
begin

text \<open>
  How good the measured difference of the clocks is: every ping of the history is within half its
  dispersion of the true difference, so the one that is used is within half of the least dispersion.
\<close>

section \<open>The history\<close>

lemma shift_pings_length [simp]: "length (shift_pings n ps) = length ps"
  by (induction n arbitrary: ps) auto

lemma shift_pings_nth:
  "n < length ps \<Longrightarrow> i < length ps \<Longrightarrow>
   shift_pings n ps ! i = (if 0 < i \<and> i \<le> n then age_ping (ps ! (i - 1)) else ps ! i)"
proof (induction n arbitrary: ps)
  case (Suc n)
  show ?case
  proof (cases "i = Suc n")
    case True
    then show ?thesis using Suc by simp
  next
    case False
    then show ?thesis using Suc by (auto simp: nth_list_update)
  qed
qed auto

lemma least_dispersed_least:
  assumes "0 < n"
  shows "least_dispersed n ps < n \<and> (\<forall>i<n. dispersion (ps ! least_dispersed n ps) \<le> dispersion (ps ! i))"
  using assms
proof (induction n rule: nat_induct_non_zero)
  case 1
  then show ?case by (simp add: least_dispersed_def)
next
  case (Suc n)
  have step: "least_dispersed (Suc n) ps = pick_step ps n (least_dispersed n ps)"
    using Suc.hyps by (simp add: least_dispersed_def)
  show ?case
    using Suc.IH unfolding step pick_step_def
    by (auto simp: less_Suc_eq not_less intro: order_trans less_imp_le)
qed

lemma age_ping_times [simp]:
  "remote_time (age_ping p) = remote_time p" "ping_local_time (age_ping p) = ping_local_time p"
  by (simp_all add: age_ping_def)

lemma age_ping_grows: "uint (dispersion p) \<le> uint (dispersion (age_ping p))"
proof (cases "dispersion p > (- 1) div dispersion_factor")
  case True
  then show ?thesis by (simp add: age_ping_def)
next
  case False
  define d where "d = uint (dispersion p)"
  have "uint (dispersion p) \<le> uint ((- 1 :: u64) div 101)"
    using False by (simp only: dispersion_factor_def word_le_def not_less)
  also have "uint ((- 1 :: u64) div 101) = (2 ^ 64 - 1) div 101" by (simp add: uint_div)
  finally have d: "0 \<le> d" "d \<le> (2 ^ 64 - 1) div 101" by (simp_all add: d_def)
  then have fits: "d * 101 < 2 ^ 64" by simp
  have "uint (dispersion p * 101) = d * 101"
    using fits d(1) by (simp add: d_def uint_word_ariths)
  then have "uint ((dispersion p * 101) div 100) = d * 101 div 100" by (simp add: uint_div)
  moreover have "d \<le> d * 101 div 100" using d(1) by simp
  ultimately show ?thesis using False by (simp add: age_ping_def dispersion_factor_def d_def [symmetric])
qed

section \<open>How far a ping is from the true difference\<close>

definition offset_ok :: "u64 \<Rightarrow> time_ping_record \<Rightarrow> bool" where
  "offset_ok theta p \<longleftrightarrow>
     2 * \<bar>sint (remote_time p - ping_local_time p - theta)\<bar> \<le> uint (dispersion p) + 1"

lemma offset_ok_age: "offset_ok theta p \<Longrightarrow> offset_ok theta (age_ping p)"
  using age_ping_grows [of p] by (simp add: offset_ok_def)

text \<open>
  A genuine reply: the request left at \<open>departure_time c\<close> and took \<open>d1\<close> to the client, whose clock is \<open>theta\<close> ahead;
  the client took \<open>proc\<close>, and the answer \<open>d2\<close>.
\<close>

definition genuine_reply :: "u64 \<Rightarrow> nat \<Rightarrow> nat \<Rightarrow> nat \<Rightarrow> u64 \<Rightarrow> bytes \<Rightarrow> rtp_conn \<Rightarrow> bool" where
  "genuine_reply theta d1 proc d2 arrival_time packet c \<longleftrightarrow>
     d1 + proc + d2 < 200000000 \<and> arrival_time = departure_time c + of_nat (d1 + proc + d2) \<and>
     (\<exists>t. ntp_nanoseconds packet 16 = Some t \<and> ntp_nanoseconds packet 24 = Some (t + of_nat proc) \<and>
        t = departure_time c + theta + of_nat d1 \<and> unat t + proc < 2 ^ 64)"

lemma unat_of_nat_u64: "n < 2 ^ 64 \<Longrightarrow> unat (of_nat n :: u64) = n"
  by (simp add: unat_of_nat take_bit_nat_eq_self)

lemma ping_of_ok:
  assumes "r = d1 + proc + d2" and "r < 200000000" and "arr = departure + of_nat r"
    and "t = departure + theta + of_nat d1" and "unat t + proc < 2 ^ 64"
  shows "offset_ok theta (ping_of arr (of_nat r) t (t + of_nat proc) k)"
    and "uint (dispersion (ping_of arr (of_nat r) t (t + of_nat proc) k)) \<le> int r"
proof -
  have ge: "t \<le> t + of_nat proc" and proc: "(t + of_nat proc) - t = of_nat proc"
    using assms(5) by (simp_all add: word_le_nat_alt unat_word_ariths unat_of_nat_u64)
  define q where "q = (if proc < r then r - proc else r)"
  have lt: "r < 2 ^ 64" "proc < 2 ^ 64" using assms(1,2) by simp_all
  note r = unat_of_nat_u64 [OF lt(1)] unat_of_nat_u64 [OF lt(2)]
  have q: "(if (of_nat proc :: u64) < of_nat r then of_nat r - of_nat proc else of_nat r) = (of_nat q :: u64)"
    unfolding q_def word_less_nat_alt r by (simp add: of_nat_diff)
  have p: "ping_of arr (of_nat r) t (t + of_nat proc) k =
      \<lparr>dispersion = of_nat q, ping_local_time = arr, remote_time = t + of_nat proc + of_nat q div 2,
       ping_number = k, chosen = False\<rparr>"
    using ge proc q by (simp add: ping_of_def Let_def)
  have bounds: "q \<le> r" "q < 2 ^ 64" "d2 \<le> q" using assms(1,2) by (auto simp: q_def)
  have half: "(of_nat q :: u64) div 2 = of_nat (q div 2)"
    using unat_of_nat_u64 [of q] unat_of_nat_u64 [of "q div 2"] bounds(2)
    by (simp add: word_unat_eq_iff unat_div)
  have "remote_time (ping_of arr (of_nat r) t (t + of_nat proc) k) -
      ping_local_time (ping_of arr (of_nat r) t (t + of_nat proc) k) - theta = of_int (int (q div 2) - int d2)"
    unfolding p using assms(1,3,4) half by (simp add: algebra_simps)
  moreover have "sint (of_int (int (q div 2) - int d2) :: u64) = int (q div 2) - int d2"
  proof -
    define x where "x = int (q div 2) - int d2"
    have "- 200000000 \<le> x" using bounds assms(1,2) unfolding x_def by linarith
    moreover have "x \<le> 200000000" using bounds assms(1,2) unfolding x_def by linarith
    ultimately have "signed_take_bit 63 x = x" by (intro signed_take_bit_int_eq_self) simp_all
    then have "signed_take_bit 63 (int (q div 2) - int d2) = int (q div 2) - int d2"
      by (simp only: x_def)
    then show ?thesis by (simp only: signed_of_int) simp
  qed
  moreover have "2 * \<bar>int (q div 2) - int d2\<bar> \<le> int q + 1" using bounds by (auto simp: abs_if)
  ultimately show "offset_ok theta (ping_of arr (of_nat r) t (t + of_nat proc) k)"
    unfolding offset_ok_def using p bounds(2) by (simp add: uint_nat unat_of_nat_u64)
  show "uint (dispersion (ping_of arr (of_nat r) t (t + of_nat proc) k)) \<le> int r"
    using p bounds by (simp add: uint_nat unat_of_nat_u64)
qed

section \<open>The history after a reply\<close>

definition history_ok :: "u64 \<Rightarrow> rtp_conn \<Rightarrow> bool" where
  "history_ok theta c \<longleftrightarrow> length (time_pings c) = time_ping_history \<and> time_ping_count c \<le> time_ping_history \<and>
     (\<forall>i<time_ping_count c. offset_ok theta (time_pings c ! i))"

lemma add_ping_ok:
  assumes "history_ok theta c" and "offset_ok theta p"
  shows "history_ok theta (add_ping p c) \<and> 0 < time_ping_count (add_ping p c) \<and> time_pings (add_ping p c) ! 0 = p"
proof -
  have len: "length (time_pings c) = 128" using assms(1) by (simp add: history_ok_def time_ping_history_def)
  have "offset_ok theta (time_pings (add_ping p c) ! i)" if i: "i < time_ping_count (add_ping p c)" for i
  proof (cases i)
    case 0
    then show ?thesis using assms(2) len by (simp add: add_ping_def)
  next
    case (Suc k)
    then have k: "k < time_ping_count c" "i < 128" using i assms(1)
      by (auto simp: add_ping_def history_ok_def time_ping_history_def split: if_splits)
    then have "time_pings (add_ping p c) ! i = age_ping (time_pings c ! k)"
      using Suc len shift_pings_nth [of 127 "time_pings c" i] by (simp add: add_ping_def time_ping_history_def)
    then show ?thesis using offset_ok_age k assms(1) by (simp add: history_ok_def)
  qed
  then show ?thesis
    using assms(1) len by (auto simp: history_ok_def add_ping_def time_ping_history_def)
qed

lemma choose_ping_ok:
  assumes "history_ok theta c" and "0 < time_ping_count c"
  shows "history_ok theta (choose_ping c) \<and> time_ping_count (choose_ping c) = time_ping_count c \<and>
    (\<forall>i<time_ping_count c. dispersion (time_pings (choose_ping c) ! i) = dispersion (time_pings c ! i) \<and>
       2 * \<bar>sint (local_to_remote_time_difference (choose_ping c) - theta)\<bar> \<le> uint (dispersion (time_pings c ! i)) + 1)"
proof -
  define k where "k = least_dispersed (time_ping_count c) (time_pings c)"
  have k: "k < time_ping_count c" "\<And>i. i < time_ping_count c \<Longrightarrow> dispersion (time_pings c ! k) \<le> dispersion (time_pings c ! i)"
    using least_dispersed_least [OF assms(2), of "time_pings c"] by (auto simp: k_def)
  then have off: "offset_ok theta (time_pings c ! k)" and len: "k < length (time_pings c)"
    using assms(1) by (auto simp: history_ok_def)
  have c: "choose_ping c = c\<lparr>time_pings := (time_pings c)[k := (time_pings c ! k)\<lparr>chosen := True\<rparr>],
      local_to_remote_time_difference := remote_time (time_pings c ! k) - ping_local_time (time_pings c ! k),
      local_to_remote_time_difference_measurement_time := ping_local_time (time_pings c ! k)\<rparr>"
    by (simp add: choose_ping_def k_def Let_def)
  have "2 * \<bar>sint (local_to_remote_time_difference (choose_ping c) - theta)\<bar> \<le> uint (dispersion (time_pings c ! i)) + 1"
    if i: "i < time_ping_count c" for i
  proof -
    have "uint (dispersion (time_pings c ! k)) \<le> uint (dispersion (time_pings c ! i))"
      using k(2) [OF i] by (simp only: word_le_def)
    then show ?thesis using off by (simp add: c offset_ok_def)
  qed
  then show ?thesis
    using assms(1) off len by (auto simp: c history_ok_def nth_list_update offset_ok_def)
qed

lemma samples_choose [simp]: "samples (c\<lparr>local_to_remote_time_gradient_sample_count := n\<rparr>) = samples c"
  by (simp add: samples_def)

lemma estimate_drift_pings:
  "time_pings (estimate_drift c) = time_pings c" "time_ping_count (estimate_drift c) = time_ping_count c"
  "length (samples (estimate_drift c)) \<le> sample_point_minimum \<Longrightarrow>
     local_to_remote_time_difference (estimate_drift c) = local_to_remote_time_difference c"
  by (auto simp: estimate_drift_def fit_line_def Let_def samples_def)

section \<open>Property\<close>



end
