(* ===== verification/Player_Volume.thy ===== *)
theory Player_Volume
  imports Player_Samples Complex_Main "HOL-Library.Signed_Division"
begin

text \<open>
  The volume control of \<open>player.c\<close> and \<open>common.c\<close>: the transfer functions from the AirPlay volume
  (0 down to -30, or -144 for mute) to an attenuation, the limits of the mixer of the device and of
  the mixer in software, and how an attenuation is shared between the two. Attenuations are in
  hundredths of a dB, as in the code. A \<open>double\<close> is a real number here: rounding is not modelled.
\<close>

section \<open>Transfer functions\<close>

definition flat_vol2attn :: "real \<Rightarrow> int \<Rightarrow> int \<Rightarrow> real" where
  "flat_vol2attn vol max_db min_db =
     (if vol \<le> 0 \<and> vol \<ge> -30
      then of_int (max_db - min_db) * (30 + vol) / 30 + of_int min_db
      else of_int min_db)"

text \<open>The three lines: where each starts on the scale, and its attenuation at the end of the scale.\<close>

definition attn_lines :: "int \<Rightarrow> (real \<times> real) list" where
  "attn_lines range_db =
     (let half = of_int (- range_db sdiv 2);
          first_slope = (if of_int (- range_db) > half then of_int range_db else half)
      in [(0, first_slope),
          (-5, first_slope - (of_int range_db + first_slope) / 2),
          (-17, - of_int range_db)])"

text \<open>The line that gives the lowest setting counts.\<close>

definition attn_line :: "real \<Rightarrow> real \<Rightarrow> real \<times> real \<Rightarrow> real" where
  "attn_line vol vol_setting line =
     (if vol \<le> fst line
      then let tvol = snd line * (vol - fst line) / (-30 - fst line)
           in if tvol < vol_setting then tvol else vol_setting
      else vol_setting)"

definition vol2attn :: "real \<Rightarrow> int \<Rightarrow> int \<Rightarrow> real" where
  "vol2attn vol max_db min_db =
     (if vol \<le> 0 \<and> vol \<ge> -30
      then foldl (attn_line vol) 0 (attn_lines (max_db - min_db)) + of_int max_db
      else of_int min_db)"

section \<open>Settings and devices\<close>

datatype volume_control_profile_type = VCP_standard | VCP_flat

datatype volume_mode_type = vol_sw_only | vol_hw_only | vol_both

record volume_config =
  volume_max_db_set :: bool
  volume_max_db :: int
  volume_range_db :: nat
  volume_range_hw_priority :: bool
  ignore_volume_control :: bool
  volume_control_profile :: volume_control_profile_type

text \<open>
  What the volume control needs to know of the output device: the limits its \<open>parameters\<close> function
  gives (maximum and minimum), whether it has a \<open>volume\<close> function, and what its \<open>mute\<close> function
  answers to \<open>mute(1)\<close>. \<open>None\<close> stands for a function the device does not have.
\<close>

record volume_device =
  mixer :: "(int \<times> int) option"
  has_volume :: bool
  mute_answer :: "int option"

section \<open>Limits of the two mixers\<close>

record volume_limits =
  hw_max_db :: int
  hw_min_db :: int
  sw_max_db :: int
  sw_min_db :: int

definition limit_maximum_hw :: "volume_config \<Rightarrow> volume_limits \<Rightarrow> volume_limits" where
  "limit_maximum_hw cfg l =
     (if volume_max_db_set cfg
      then if volume_max_db cfg * 100 \<le> hw_max_db l \<and> volume_max_db cfg * 100 \<ge> hw_min_db l
           then l\<lparr>hw_max_db := volume_max_db cfg * 100\<rparr>
           else if volume_range_db cfg \<noteq> 0
           then l\<lparr>hw_max_db := hw_min_db l, sw_max_db := volume_max_db cfg * 100 - hw_min_db l\<rparr>
           else l
      else l)"

definition limit_range_hw :: "volume_config \<Rightarrow> volume_limits \<Rightarrow> volume_mode_type \<times> volume_limits" where
  "limit_range_hw cfg l =
     (if volume_range_db cfg \<noteq> 0
      then let desired_range_db = int (volume_range_db cfg * 100)
           in if desired_range_db > hw_max_db l - hw_min_db l
              then let desired_sw_range = desired_range_db - (hw_max_db l - hw_min_db l)
                   in (vol_both,
                       if sw_max_db l - desired_sw_range < sw_min_db l then l
                       else l\<lparr>sw_min_db := sw_max_db l - desired_sw_range\<rparr>)
              else (vol_hw_only, l\<lparr>hw_min_db := hw_max_db l - desired_range_db\<rparr>)
      else (vol_hw_only, l))"

definition limit_sw :: "volume_config \<Rightarrow> volume_limits \<Rightarrow> volume_limits" where
  "limit_sw cfg l =
     (let l' = (if volume_max_db_set cfg \<and> volume_max_db cfg * 100 \<le> sw_max_db l \<and>
                   volume_max_db cfg * 100 \<ge> sw_min_db l
                then l\<lparr>sw_max_db := volume_max_db cfg * 100\<rparr> else l)
      in if volume_range_db cfg \<noteq> 0
         then let desired_range_db = int (volume_range_db cfg * 100)
              in if desired_range_db > sw_max_db l' - sw_min_db l' then l'
                 else l'\<lparr>sw_min_db := sw_max_db l' - desired_range_db\<rparr>
         else l')"

definition volume_limits_of ::
  "volume_config \<Rightarrow> volume_device \<Rightarrow> volume_mode_type \<times> volume_limits" where
  "volume_limits_of cfg d =
     (case mixer d of
        Some (highest, lowest) \<Rightarrow>
          limit_range_hw cfg (limit_maximum_hw cfg
            \<lparr>hw_max_db = highest, hw_min_db = lowest, sw_max_db = 0, sw_min_db = -9630\<rparr>)
      | None \<Rightarrow>
          (vol_sw_only, limit_sw cfg
            \<lparr>hw_max_db = 0, hw_min_db = 0, sw_max_db = 0, sw_min_db = -9630\<rparr>))"

section \<open>The attenuation and its two shares\<close>

text \<open>The range an AirPlay volume is mapped to, as maximum and minimum.\<close>

definition volume_range_of :: "volume_mode_type \<Rightarrow> volume_limits \<Rightarrow> int \<times> int" where
  "volume_range_of mode l =
     (case mode of
        vol_hw_only \<Rightarrow> (hw_max_db l, hw_min_db l)
      | vol_sw_only \<Rightarrow> (sw_max_db l, sw_min_db l)
      | vol_both \<Rightarrow> ((hw_max_db l - hw_min_db l) + (sw_max_db l - sw_min_db l), 0))"

definition scaled_attenuation :: "volume_config \<Rightarrow> real \<Rightarrow> int \<Rightarrow> int \<Rightarrow> real" where
  "scaled_attenuation cfg airplay_volume max_db min_db =
     (if ignore_volume_control cfg then of_int max_db
      else case volume_control_profile cfg of
        VCP_standard \<Rightarrow> vol2attn airplay_volume max_db min_db
      | VCP_flat \<Rightarrow> flat_vol2attn airplay_volume max_db min_db)"

text \<open>The attenuations of the hardware and of the software.\<close>

definition share_attenuation ::
  "volume_config \<Rightarrow> volume_mode_type \<Rightarrow> volume_limits \<Rightarrow> real \<Rightarrow> real \<times> real" where
  "share_attenuation cfg mode l attn =
     (case mode of
        vol_hw_only \<Rightarrow> (attn, 0)
      | vol_sw_only \<Rightarrow> (0, attn)
      | vol_both \<Rightarrow>
          if volume_range_hw_priority cfg
          then if of_int (sw_max_db l - sw_min_db l) > attn
               then (of_int (hw_min_db l), of_int (sw_min_db l) + attn)
               else (of_int (hw_min_db l) + attn - of_int (sw_max_db l - sw_min_db l),
                     of_int (sw_max_db l))
          else if of_int (hw_max_db l - hw_min_db l) > attn
               then (of_int (hw_min_db l) + attn, of_int (sw_min_db l))
               else (of_int (hw_max_db l),
                     of_int (sw_min_db l) + attn - of_int (hw_max_db l - hw_min_db l)))"

definition attenuations :: "volume_config \<Rightarrow> volume_device \<Rightarrow> real \<Rightarrow> real \<times> real" where
  "attenuations cfg d vol =
     (let (mode, l) = volume_limits_of cfg d;
          (max_db, min_db) = volume_range_of mode l
      in share_attenuation cfg mode l (scaled_attenuation cfg vol max_db min_db))"

text \<open>The factor for the samples, in parts of 65,536.\<close>

definition fix_volume_of :: "real \<Rightarrow> int" where
  "fix_volume_of software_attenuation = \<lfloor>65536 * 10 powr (software_attenuation / 2000)\<rfloor>"

section \<open>Setting the volume\<close>

record volume_state =
  airplay_volume :: real
  own_airplay_volume :: real
  own_airplay_volume_set :: bool
  fix_volume :: int
  software_mute_enabled :: bool

text \<open>What goes out: calls of the device, the loudness filter, the \<open>pvol\<close> metadata and the hook.\<close>

datatype volume_action =
  Device_volume real
| Device_mute int
| Loudness_volume real
| Send_pvol real real real real
| Command_set_volume real

definition apply_attenuation ::
  "volume_config \<Rightarrow> volume_device \<Rightarrow> real \<Rightarrow> volume_state \<Rightarrow> volume_state \<times> volume_action list" where
  "apply_attenuation cfg d vol s =
     (let (mode, l) = volume_limits_of cfg d;
          (max_db, min_db) = volume_range_of mode l;
          attn = scaled_attenuation cfg vol max_db min_db;
          (hardware_attenuation, software_attenuation) = attenuations cfg d vol;
          to_device = mode \<noteq> vol_sw_only \<and> has_volume d;
          s1 = (if to_device \<and> mode = vol_hw_only then s\<lparr>fix_volume := 65536\<rparr> else s);
          s2 = (if mode \<noteq> vol_hw_only
                then s1\<lparr>fix_volume := fix_volume_of software_attenuation\<rparr> else s1);
          pvol = (if ignore_volume_control cfg then Send_pvol vol 0 0 0
                  else if mode = vol_both
                  then Send_pvol vol ((attn - of_int max_db + of_int (hw_max_db l)) / 100)
                         (of_int (min_db - max_db + hw_max_db l) / 100)
                         (of_int (max_db - max_db + hw_max_db l) / 100)
                  else Send_pvol vol (attn / 100) (of_int min_db / 100) (of_int max_db / 100))
      in (s2\<lparr>software_mute_enabled := False\<rparr>,
          (if to_device then [Device_volume hardware_attenuation] else [])
          @ (if mode \<noteq> vol_hw_only then [Loudness_volume (software_attenuation / 100)] else [])
          @ [pvol]
          @ (if mute_answer d \<noteq> None then [Device_mute 0] else [])))"

definition mute_output :: "volume_device \<Rightarrow> volume_state \<Rightarrow> volume_state \<times> volume_action list" where
  "mute_output d s =
     (case mute_answer d of
        Some answer \<Rightarrow>
          ((if answer = 0 then s else s\<lparr>software_mute_enabled := True\<rparr>), [Device_mute 1])
      | None \<Rightarrow> (s\<lparr>software_mute_enabled := True\<rparr>, []))"

definition player_volume_without_notification ::
  "volume_config \<Rightarrow> volume_device \<Rightarrow> real \<Rightarrow> volume_state \<Rightarrow> volume_state \<times> volume_action list" where
  "player_volume_without_notification cfg d vol s =
     (let (s', actions) = (if vol = -144 then mute_output d s else apply_attenuation cfg d vol s)
      in (s'\<lparr>airplay_volume := vol, own_airplay_volume := vol\<rparr>, actions))"

definition player_volume ::
  "volume_config \<Rightarrow> volume_device \<Rightarrow> real \<Rightarrow> volume_state \<Rightarrow> volume_state \<times> volume_action list" where
  "player_volume cfg d vol s =
     (let (s', actions) = player_volume_without_notification cfg d vol s
      in (s', Command_set_volume vol # actions))"

section \<open>The volume suggested to a new session\<close>

record suggestion_config =
  default_airplay_volume :: real
  high_threshold_airplay_volume :: real
  last_access_to_volume_info_time :: u64
  limit_to_high_volume_threshold_time_in_minutes :: int

text \<open>\<open>own\<close>: the volume of the connection, when there is a connection and it has set one.\<close>

definition suggested_volume :: "suggestion_config \<Rightarrow> u64 \<Rightarrow> real option \<Rightarrow> real \<Rightarrow> real" where
  "suggested_volume cfg time_now own volume =
     (case own of
        Some v \<Rightarrow> v
      | None \<Rightarrow>
          if volume > high_threshold_airplay_volume cfg \<and>
             limit_to_high_volume_threshold_time_in_minutes cfg \<noteq> 0 \<and>
             (last_access_to_volume_info_time cfg = 0 \<or>
              sint (time_now - last_access_to_volume_info_time cfg)
                > limit_to_high_volume_threshold_time_in_minutes cfg * 60 * 1000000000)
          then default_airplay_volume cfg else volume)"

lemma loud_volume_not_suggested_again:
  assumes "limit_to_high_volume_threshold_time_in_minutes cfg \<noteq> 0"
    and "default_airplay_volume cfg \<le> high_threshold_airplay_volume cfg"
    and "last_access_to_volume_info_time cfg = 0 \<or>
         sint (time_now - last_access_to_volume_info_time cfg)
           > limit_to_high_volume_threshold_time_in_minutes cfg * 60 * 1000000000"
  shows "suggested_volume cfg time_now None volume \<le> high_threshold_airplay_volume cfg"
  using assms by (auto simp: suggested_volume_def)

section \<open>The transfer functions rise from the minimum to the maximum\<close>

text \<open>For a range that is not negative the loop over the lines is a minimum of linear functions.\<close>

lemma half_range:
  fixes min_db max_db :: int
  assumes "min_db \<le> max_db"
  shows "0 \<le> real_of_int ((max_db - min_db) div 2)" "0 \<le> real_of_int (max_db - min_db)"
    and "2 * real_of_int ((max_db - min_db) div 2) \<le> real_of_int (max_db - min_db)"
  subgoal using assms by simp
  subgoal using assms by simp
  subgoal using assms by linarith
  done

lemma attn_line_min:
  assumes "y * (v - x) / (-30 - x) = t" and "x < v \<Longrightarrow> 0 \<le> t" and "a \<le> 0"
  shows "attn_line v a (x, y) = min a t"
  using assms by (cases "v \<le> x") (auto simp: attn_line_def Let_def)

lemma vol2attn_closed:
  assumes "min_db \<le> max_db" and "-30 \<le> v" "v \<le> 0"
  defines "r \<equiv> real_of_int (max_db - min_db)" and "h \<equiv> real_of_int ((max_db - min_db) div 2)"
  shows "vol2attn v max_db min_db =
     of_int max_db + min 0 (min (h * v / 30) (min ((r + h) * (v + 5) / 50) (r * (v + 17) / 13)))"
proof -
  have h: "0 \<le> h" "0 \<le> r" "2 * h \<le> r" using half_range [OF assms(1)] by (auto simp: h_def r_def)
  have half: "- (max_db - min_db) sdiv 2 = - ((max_db - min_db) div 2)"
    using assms(1) by (auto simp: signed_divide_int_def sgn_if)
  have slope: "\<not> (real_of_int (- (max_db - min_db)) > real_of_int (- ((max_db - min_db) div 2)))"
    using assms(1) by linarith
  have lines: "attn_lines (max_db - min_db) = [(0, - h), (-5, - h - (r - h) / 2), (-17, - r)]"
    unfolding attn_lines_def half Let_def if_not_P [OF slope] by (simp add: h_def r_def)
  have "attn_line v 0 (0, - h) = min 0 (h * v / 30)"
    by (rule attn_line_min) (use h(1) assms(3) in \<open>simp_all add: field_simps\<close>)
  moreover have "attn_line v a (-5, - h - (r - h) / 2) = min a ((r + h) * (v + 5) / 50)"
    if "a \<le> 0" for a
  proof (rule attn_line_min [OF _ _ that])
    show "(- h - (r - h) / 2) * (v - -5) / (-30 - -5) = (r + h) * (v + 5) / 50"
      by (simp add: field_simps)
    show "0 \<le> (r + h) * (v + 5) / 50" if "-5 < v" using h that by simp
  qed
  moreover have "attn_line v a (-17, - r) = min a (r * (v + 17) / 13)" if "a \<le> 0" for a
  proof (rule attn_line_min [OF _ _ that])
    show "- r * (v - -17) / (-30 - -17) = r * (v + 17) / 13" by (simp add: field_simps)
    show "0 \<le> r * (v + 17) / 13" if "-17 < v" using h that by simp
  qed
  ultimately have "foldl (attn_line v) 0 (attn_lines (max_db - min_db)) =
        min (min (min 0 (h * v / 30)) ((r + h) * (v + 5) / 50)) (r * (v + 17) / 13)"
    unfolding lines foldl.simps by simp
  then show ?thesis using assms(2,3) by (simp add: vol2attn_def min.assoc)
qed

lemma vol2attn_range:
  assumes "min_db \<le> max_db" and "-30 \<le> v" "v \<le> 0"
  shows "of_int min_db \<le> vol2attn v max_db min_db" "vol2attn v max_db min_db \<le> of_int max_db"
proof -
  define r h where "r = real_of_int (max_db - min_db)" and "h = real_of_int ((max_db - min_db) div 2)"
  have h: "0 \<le> h" "0 \<le> r" "2 * h \<le> r" using half_range [OF assms(1)] by (auto simp: h_def r_def)
  note closed = vol2attn_closed [OF assms, folded r_def h_def]
  have a: "- r \<le> h * v / 30" using mult_left_mono [OF assms(2) h(1)] h by simp
  have b: "- r \<le> (r + h) * (v + 5) / 50"
    using mult_left_mono [of "-25" "v + 5" "r + h"] assms(2) h by (simp add: field_simps)
  have c: "- r \<le> r * (v + 17) / 13"
    using mult_left_mono [of "-13" "v + 17" r] assms(2) h by (simp add: field_simps)
  from a b c h(2) closed show "of_int min_db \<le> vol2attn v max_db min_db"
    by (simp add: r_def)
  show "vol2attn v max_db min_db \<le> of_int max_db" using closed by simp
qed

lemma vol2attn_mono:
  assumes "min_db \<le> max_db" and "-30 \<le> v" "v \<le> w" "w \<le> 0"
  shows "vol2attn v max_db min_db \<le> vol2attn w max_db min_db"
proof -
  define r h where "r = real_of_int (max_db - min_db)" and "h = real_of_int ((max_db - min_db) div 2)"
  have h: "0 \<le> h" "0 \<le> r" using half_range [OF assms(1)] by (auto simp: h_def r_def)
  have "h * v \<le> h * w" "(r + h) * (v + 5) \<le> (r + h) * (w + 5)" "r * (v + 17) \<le> r * (w + 17)"
    using h assms(3) by (auto intro: mult_left_mono)
  then have "min (h * v / 30) (min ((r + h) * (v + 5) / 50) (r * (v + 17) / 13))
           \<le> min (h * w / 30) (min ((r + h) * (w + 5) / 50) (r * (w + 17) / 13))"
    by (intro min.mono) simp_all
  then have "min 0 (min (h * v / 30) (min ((r + h) * (v + 5) / 50) (r * (v + 17) / 13)))
           \<le> min 0 (min (h * w / 30) (min ((r + h) * (w + 5) / 50) (r * (w + 17) / 13)))"
    by (rule min.mono [OF order_refl])
  moreover have "vol2attn v max_db min_db = of_int max_db
      + min 0 (min (h * v / 30) (min ((r + h) * (v + 5) / 50) (r * (v + 17) / 13)))"
    unfolding r_def h_def by (rule vol2attn_closed) (use assms in auto)
  moreover have "vol2attn w max_db min_db = of_int max_db
      + min 0 (min (h * w / 30) (min ((r + h) * (w + 5) / 50) (r * (w + 17) / 13)))"
    unfolding r_def h_def by (rule vol2attn_closed) (use assms in auto)
  ultimately show ?thesis by linarith
qed

lemma vol2attn_ends:
  assumes "min_db \<le> max_db"
  shows "vol2attn 0 max_db min_db = of_int max_db" "vol2attn (-30) max_db min_db = of_int min_db"
proof -
  define r h where "r = real_of_int (max_db - min_db)" and "h = real_of_int ((max_db - min_db) div 2)"
  have h: "0 \<le> h" "0 \<le> r" using half_range [OF assms(1)] by (auto simp: h_def r_def)
  show "vol2attn 0 max_db min_db = of_int max_db"
    using vol2attn_closed [OF assms, of 0, folded r_def h_def] h by simp
  have "vol2attn (-30) max_db min_db \<le> of_int max_db + r * (-30 + 17) / 13"
    using vol2attn_closed [OF assms, of "-30", folded r_def h_def] by simp
  moreover have "r * (-30 + 17) / 13 = - r" by simp
  ultimately have "vol2attn (-30) max_db min_db \<le> of_int max_db - r" by linarith
  then have "vol2attn (-30) max_db min_db \<le> of_int min_db" unfolding r_def by simp
  with vol2attn_range(1) [OF assms, of "-30"] show "vol2attn (-30) max_db min_db = of_int min_db"
    by simp
qed

lemma flat_vol2attn_mono:
  assumes "min_db \<le> max_db" and "-30 \<le> v" "v \<le> w" "w \<le> 0"
  shows "flat_vol2attn v max_db min_db \<le> flat_vol2attn w max_db min_db"
  using assms by (simp add: flat_vol2attn_def mult_left_mono divide_right_mono)

lemma flat_vol2attn_ends:
  "flat_vol2attn 0 max_db min_db = of_int max_db" "flat_vol2attn (-30) max_db min_db = of_int min_db"
  by (simp_all add: flat_vol2attn_def field_simps)

section \<open>The limits are consistent\<close>

definition device_fits :: "volume_config \<Rightarrow> volume_device \<Rightarrow> bool" where
  "device_fits cfg d =
     (case mixer d of
        None \<Rightarrow> True
      | Some (highest, lowest) \<Rightarrow>
          lowest \<le> highest \<and>
          (volume_max_db_set cfg \<and> volume_range_db cfg \<noteq> 0 \<longrightarrow>
             volume_max_db cfg * 100 \<le> highest \<and> lowest - 9630 \<le> volume_max_db cfg * 100))"

lemma limits_consistent:
  assumes "device_fits cfg d" and "volume_limits_of cfg d = (mode, l)"
  shows "hw_min_db l \<le> hw_max_db l \<and> sw_min_db l \<le> sw_max_db l \<and>
     sw_max_db l \<le> 0 \<and> -9630 \<le> sw_min_db l"
  using assms
  by (auto simp: volume_limits_of_def limit_range_hw_def limit_maximum_hw_def limit_sw_def
        device_fits_def Let_def split: option.splits if_splits prod.splits)

lemma limits_of_device:
  assumes "device_fits cfg d" and "volume_limits_of cfg d = (mode, l)"
    and "mixer d = Some (highest, lowest)"
  shows "lowest \<le> hw_min_db l \<and> hw_max_db l \<le> highest"
  using assms
  by (auto simp: volume_limits_of_def limit_range_hw_def limit_maximum_hw_def
        device_fits_def Let_def split: if_splits)

lemma limits_range:
  assumes "device_fits cfg d" and "volume_limits_of cfg d = (mode, l)"
    and "volume_range_of mode l = (max_db, min_db)"
  shows "min_db \<le> max_db"
  using limits_consistent [OF assms(1,2)] assms(3)
  by (auto simp: volume_range_of_def split: volume_mode_type.splits)

lemma scaled_attenuation_range:
  assumes "min_db \<le> max_db"
  shows "of_int min_db \<le> scaled_attenuation cfg vol max_db min_db \<and>
     scaled_attenuation cfg vol max_db min_db \<le> of_int max_db"
proof (cases "-30 \<le> vol \<and> vol \<le> 0")
  case True
  have "flat_vol2attn (-30) max_db min_db \<le> flat_vol2attn vol max_db min_db"
    "flat_vol2attn vol max_db min_db \<le> flat_vol2attn 0 max_db min_db"
    using True by (auto intro!: flat_vol2attn_mono [OF assms])
  then show ?thesis
    using True assms vol2attn_range [OF assms, of vol]
    by (auto simp: scaled_attenuation_def flat_vol2attn_ends split: volume_control_profile_type.splits)
next
  case False
  then show ?thesis
    using assms
    by (auto simp: scaled_attenuation_def vol2attn_def flat_vol2attn_def
          split: volume_control_profile_type.splits)
qed

lemma scaled_attenuation_mono:
  assumes "min_db \<le> max_db" and "-30 \<le> v" "v \<le> w" "w \<le> 0"
  shows "scaled_attenuation cfg v max_db min_db \<le> scaled_attenuation cfg w max_db min_db"
  using vol2attn_mono [OF assms] flat_vol2attn_mono [OF assms]
  by (auto simp: scaled_attenuation_def split: volume_control_profile_type.splits)

lemma scaled_attenuation_ends:
  assumes "min_db \<le> max_db"
  shows "scaled_attenuation cfg 0 max_db min_db = of_int max_db"
    and "\<not> ignore_volume_control cfg \<Longrightarrow> scaled_attenuation cfg (-30) max_db min_db = of_int min_db"
  using vol2attn_ends [OF assms]
  by (auto simp: scaled_attenuation_def flat_vol2attn_ends split: volume_control_profile_type.splits)

section \<open>The shares stay in their limits and add up\<close>

lemma share_in_limits:
  assumes "share_attenuation cfg mode l attn = (hw, sw)"
    and "volume_range_of mode l = (max_db, min_db)"
    and "of_int min_db \<le> attn" "attn \<le> of_int max_db"
    and "hw_min_db l \<le> hw_max_db l" "sw_min_db l \<le> sw_max_db l"
  shows "mode \<noteq> vol_sw_only \<Longrightarrow> of_int (hw_min_db l) \<le> hw \<and> hw \<le> of_int (hw_max_db l)"
    and "mode \<noteq> vol_hw_only \<Longrightarrow> of_int (sw_min_db l) \<le> sw \<and> sw \<le> of_int (sw_max_db l)"
  using assms
  by (auto simp: share_attenuation_def volume_range_of_def split: volume_mode_type.splits if_splits)

lemma share_mono:
  assumes "share_attenuation cfg mode l a = (hw, sw)" "share_attenuation cfg mode l b = (hw', sw')"
    and "a \<le> b"
    and "hw_min_db l \<le> hw_max_db l" "sw_min_db l \<le> sw_max_db l"
  shows "hw \<le> hw' \<and> sw \<le> sw'"
  using assms
  by (auto simp: share_attenuation_def split: volume_mode_type.splits if_splits)

lemma share_sum:
  "share_attenuation cfg vol_both l attn = (hw, sw) \<Longrightarrow>
     hw + sw = of_int (hw_min_db l + sw_min_db l) + attn"
  by (auto simp: share_attenuation_def split: if_splits)

section \<open>The factor for the samples\<close>

lemma fix_volume_mono: "a \<le> b \<Longrightarrow> fix_volume_of a \<le> fix_volume_of b"
  unfolding fix_volume_of_def by (intro floor_mono mult_left_mono powr_mono) auto

lemma fix_volume_lowest: "1 \<le> fix_volume_of (-9630)"
proof -
  have ten: "(10::real) powr 59 = 10 ^ 59" by (rule powr_numeral) simp
  have two: "(2::real) powr 196 = 2 ^ 196" by (rule powr_numeral) simp
  have "(10::real) powr (963 / 200) = (10 powr 59) powr (963 / 11800)"
    by (simp only: powr_powr) simp
  also have "\<dots> \<le> (2 powr 196) powr (963 / 11800)"
    unfolding ten two by (rule powr_mono2) simp_all
  also have "\<dots> = 2 powr (188748 / 11800)" by (simp only: powr_powr) simp
  also have "\<dots> \<le> 2 powr 16" by (rule powr_mono) simp_all
  also have "\<dots> = 65536" by (simp add: powr_numeral)
  finally have "1 \<le> 65536 * 10 powr (- 963 / 200 :: real)"
    by (simp add: powr_minus field_simps)
  then have "1 \<le> 65536 * 10 powr ((-9630) / 2000 :: real)" by simp
  then show ?thesis unfolding fix_volume_of_def by (simp add: le_floor_iff)
qed

lemma fix_volume_range:
  assumes "-9630 \<le> a" "a \<le> 0"
  shows "1 \<le> fix_volume_of a \<and> fix_volume_of a \<le> 65536"
proof
  show "1 \<le> fix_volume_of a" using fix_volume_lowest fix_volume_mono [OF assms(1)] by linarith
  have "fix_volume_of 0 = 65536" by (simp add: fix_volume_of_def)
  then show "fix_volume_of a \<le> 65536" using fix_volume_mono [OF assms(2)] by simp
qed

section \<open>The volume control\<close>

lemma attenuations_cases:
  assumes "device_fits cfg d"
  obtains mode l max_db min_db attn hw sw where
    "volume_limits_of cfg d = (mode, l)" "volume_range_of mode l = (max_db, min_db)"
    "attn = scaled_attenuation cfg vol max_db min_db"
    "attenuations cfg d vol = (hw, sw)" "share_attenuation cfg mode l attn = (hw, sw)"
    "of_int min_db \<le> attn" "attn \<le> of_int max_db" "min_db \<le> max_db"
proof -
  obtain mode l where l: "volume_limits_of cfg d = (mode, l)" by force
  obtain max_db min_db where r: "volume_range_of mode l = (max_db, min_db)" by force
  let ?attn = "scaled_attenuation cfg vol max_db min_db"
  obtain hw sw where s: "share_attenuation cfg mode l ?attn = (hw, sw)" by force
  have le: "min_db \<le> max_db" using limits_range [OF assms l r] .
  have a: "attenuations cfg d vol = (hw, sw)" using l r s by (simp add: attenuations_def)
  show thesis
    using that [OF l r refl a s] scaled_attenuation_range [OF le] le by blast
qed

lemma software_mode:
  "volume_limits_of cfg d = (mode, l) \<Longrightarrow> (mode = vol_sw_only) = (mixer d = None)"
  by (auto simp: volume_limits_of_def limit_range_hw_def Let_def split: option.splits if_splits)

text \<open>
  C27. Whatever is asked for, the device is set inside the range of its mixer, and the factor for the
  samples stays between 1 and 65,536, provided the highest level that is configured is not above
  the mixer.
\<close>
theorem volume_stays_in_mixers:
  assumes "device_fits cfg d" and "player_volume cfg d vol s = (s', actions)"
    and "1 \<le> fix_volume s" "fix_volume s \<le> 65536"
  shows "1 \<le> fix_volume s' \<and> fix_volume s' \<le> 65536 \<and>
     (\<forall>a highest lowest. Device_volume a \<in> set actions \<and> mixer d = Some (highest, lowest) \<longrightarrow>
        of_int lowest \<le> a \<and> a \<le> of_int highest)"
proof (cases "vol = -144")
  case True
  with assms(2-) show ?thesis
    by (auto simp: player_volume_def player_volume_without_notification_def mute_output_def
          split: option.splits if_splits)
next
  case False
  obtain mode l max_db min_db attn hw sw where l: "volume_limits_of cfg d = (mode, l)"
    and r: "volume_range_of mode l = (max_db, min_db)"
    and attn: "attn = scaled_attenuation cfg vol max_db min_db"
    and a: "attenuations cfg d vol = (hw, sw)" and sh: "share_attenuation cfg mode l attn = (hw, sw)"
    and in_range: "of_int min_db \<le> attn" "attn \<le> of_int max_db"
    by (rule attenuations_cases [OF assms(1), of vol])
  note c = limits_consistent [OF assms(1) l]
  note lim = share_in_limits [OF sh r in_range]
  have sw: "1 \<le> fix_volume_of sw \<and> fix_volume_of sw \<le> 65536" if "mode \<noteq> vol_hw_only"
    using lim(2) [OF _ _ that] c by (intro fix_volume_range) auto
  have hw: "of_int lowest \<le> hw \<and> hw \<le> of_int highest"
    if "mode \<noteq> vol_sw_only" "mixer d = Some (highest, lowest)" for highest lowest
    using lim(1) [OF _ _ that(1)] c limits_of_device [OF assms(1) l that(2)] by auto
  show ?thesis
    using assms(2-4) False sw hw
    by (auto simp: player_volume_def player_volume_without_notification_def apply_attenuation_def
          l r a Let_def split: if_splits)
qed

text \<open>
  C26. Unless the volume control is ignored: a louder request never lowers the setting of a mixer, the
  request 0 puts both mixers at their maximum and the request -30 puts both at their minimum.
\<close>
theorem volume_follows_request:
  assumes "device_fits cfg d" and "volume_limits_of cfg d = (mode, l)"
    and "\<not> ignore_volume_control cfg" and "-30 \<le> v" "v \<le> w" "w \<le> 0"
  shows "fst (attenuations cfg d v) \<le> fst (attenuations cfg d w) \<and>
     snd (attenuations cfg d v) \<le> snd (attenuations cfg d w) \<and>
     attenuations cfg d 0 = (if mode = vol_sw_only then 0 else of_int (hw_max_db l),
                             if mode = vol_hw_only then 0 else of_int (sw_max_db l)) \<and>
     attenuations cfg d (-30) = (if mode = vol_sw_only then 0 else of_int (hw_min_db l),
                                 if mode = vol_hw_only then 0 else of_int (sw_min_db l))"
proof -
  note c = limits_consistent [OF assms(1,2)]
  obtain max_db min_db where r: "volume_range_of mode l = (max_db, min_db)" by force
  have le: "min_db \<le> max_db" using limits_range [OF assms(1,2) r] .
  have att: "attenuations cfg d x = share_attenuation cfg mode l (scaled_attenuation cfg x max_db min_db)"
    for x by (simp add: attenuations_def assms(2) r)
  obtain hv sv hw sw where vw: "attenuations cfg d v = (hv, sv)" "attenuations cfg d w = (hw, sw)"
    by force
  have "hv \<le> hw \<and> sv \<le> sw"
    using share_mono [OF vw(1) [unfolded att] vw(2) [unfolded att]]
      scaled_attenuation_mono [OF le assms(4-6)] c by blast
  moreover have "attenuations cfg d 0 = (if mode = vol_sw_only then 0 else of_int (hw_max_db l),
                             if mode = vol_hw_only then 0 else of_int (sw_max_db l))"
    using c r scaled_attenuation_ends(1) [OF le]
    by (auto simp: att share_attenuation_def volume_range_of_def split: volume_mode_type.splits)
  moreover have "attenuations cfg d (-30) = (if mode = vol_sw_only then 0 else of_int (hw_min_db l),
                                 if mode = vol_hw_only then 0 else of_int (sw_min_db l))"
    using c r scaled_attenuation_ends(2) [OF le assms(3)]
    by (auto simp: att share_attenuation_def volume_range_of_def split: volume_mode_type.splits)
  ultimately show ?thesis using vw by simp
qed

section \<open>A maximum level above the mixer\<close>

lemma fix_volume_above: "65536 < fix_volume_of 1"
proof -
  have "exp (1::real) \<le> 10" using exp_le by linarith
  then have "1 \<le> ln (10::real)" by (simp add: ln_ge_iff)
  then have "1 + 1 / 2000 \<le> exp (1 / 2000 * ln (10::real))"
    using exp_ge_add_one_self [of "1 / 2000 * ln (10::real)"] by linarith
  then have "65537 \<le> 65536 * 10 powr (1 / 2000 :: real)" by (simp add: powr_def)
  then show ?thesis unfolding fix_volume_of_def by (simp add: less_floor_iff)
qed

lemma limits_above_mixer:
  assumes "mixer d = Some (highest, lowest)" "lowest \<le> highest"
    and "volume_max_db_set cfg" "highest < volume_max_db cfg * 100" "volume_range_db cfg \<noteq> 0"
  obtains l where "volume_limits_of cfg d = (vol_both, l)" "hw_max_db l = lowest"
    "hw_min_db l = lowest" "sw_max_db l = volume_max_db cfg * 100 - lowest" "sw_min_db l \<le> sw_max_db l"
  using assms
  by (auto simp: volume_limits_of_def limit_range_hw_def limit_maximum_hw_def Let_def)

text \<open>
  A highest level that is configured above the top of the mixer together with a range is not
  refused: at full volume the samples are amplified, and a sample at full scale overflows.
\<close>
lemma level_above_mixer_overflows:
  assumes "mixer d = Some (highest, lowest)" "lowest \<le> highest"
    and "volume_max_db_set cfg" "highest < volume_max_db cfg * 100" "volume_range_db cfg \<noteq> 0"
    and "player_volume cfg d 0 s = (s', actions)"
  shows "65536 < fix_volume s' \<and>
     process_sample False (2 ^ 31 - 1) format (fix_volume s') dither ds = None"
proof -
  obtain l where l: "volume_limits_of cfg d = (vol_both, l)" "hw_max_db l = lowest"
    "hw_min_db l = lowest" "sw_max_db l = volume_max_db cfg * 100 - lowest" "sw_min_db l \<le> sw_max_db l"
    by (rule limits_above_mixer [OF assms(1-5)])
  have top: "scaled_attenuation cfg 0 (sw_max_db l - sw_min_db l) 0 = of_int (sw_max_db l - sw_min_db l)"
    using scaled_attenuation_ends(1) l(5) by simp
  have "snd (attenuations cfg d 0) = of_int (sw_max_db l)"
    using l top by (simp add: attenuations_def volume_range_of_def share_attenuation_def)
  then have v: "fix_volume s' = fix_volume_of (of_int (sw_max_db l))"
    using assms(6) l(1)
    by (auto simp: player_volume_def player_volume_without_notification_def apply_attenuation_def
          Let_def split: prod.splits)
  have "1 \<le> sw_max_db l" using assms(2,4) l(4) by simp
  then have "1 \<le> real_of_int (sw_max_db l)" by linarith
  from fix_volume_mono [OF this] have above: "65536 < fix_volume s'"
    using fix_volume_above v by linarith
  then have "65537 * (2 ^ 16 * (2 ^ 31 - 1)) \<le> fix_volume s' * (2 ^ 16 * (2 ^ 31 - 1))"
    by (intro mult_right_mono) simp_all
  then have "process_sample False (2 ^ 31 - 1) format (fix_volume s') dither ds = None"
    by (simp add: process_sample_def apply_volume_def INT64_MAX_def INT64_MIN_def mult.commute)
  with above show ?thesis by blast
qed

section \<open>Concrete inputs\<close>

definition volume_cfg_example :: volume_config where
  "volume_cfg_example = \<lparr>volume_max_db_set = True, volume_max_db = -3, volume_range_db = 90,
     volume_range_hw_priority = True, ignore_volume_control = False,
     volume_control_profile = VCP_standard\<rparr>"

definition volume_dev_example :: volume_device where
  "volume_dev_example = \<lparr>mixer = Some (0, -6000), has_volume = True, mute_answer = None\<rparr>"

definition volume_state_example :: volume_state where
  "volume_state_example = \<lparr>airplay_volume = -24, own_airplay_volume = -24,
     own_airplay_volume_set = False, fix_volume = 65536, software_mute_enabled = False\<rparr>"

lemma volume_stays_in_mixers_witness:
  "fix_volume (fst (player_volume volume_cfg_example volume_dev_example (-15) volume_state_example)) \<le> 65536"
  using volume_stays_in_mixers [of volume_cfg_example volume_dev_example "-15" volume_state_example,
      OF _ prod.collapse [symmetric]]
  by (simp add: device_fits_def volume_cfg_example_def volume_dev_example_def volume_state_example_def)

lemma volume_follows_request_witness:
  "fst (attenuations volume_cfg_example volume_dev_example (-20))
     \<le> fst (attenuations volume_cfg_example volume_dev_example (-10))"
  using volume_follows_request [of volume_cfg_example volume_dev_example _ _ "-20" "-10",
      OF _ prod.collapse [symmetric]]
  by (simp add: device_fits_def volume_cfg_example_def volume_dev_example_def)

lemma level_above_mixer_overflows_witness:
  "65536 < fix_volume (fst (player_volume (volume_cfg_example\<lparr>volume_max_db := 10\<rparr>)
     volume_dev_example 0 volume_state_example))"
  using level_above_mixer_overflows [of volume_dev_example 0 "-6000" "volume_cfg_example\<lparr>volume_max_db := 10\<rparr>"
      volume_state_example, OF _ _ _ _ _ prod.collapse [symmetric]]
  by (simp add: volume_cfg_example_def volume_dev_example_def volume_state_example_def)

end
