(* ===== verification/Activity_Monitor.thy ===== *)
theory Activity_Monitor
  imports Fifo "HOL-Library.Multiset"
begin

text \<open>
  The activity monitor (\<open>activity_monitor.c\<close>): a state machine with the states inactive, active and
  timing out. Other threads signify that the player starts or stops; the monitor's own thread looks
  after the timeout. The hooks of a change of state run after the lock is given back, so deciding on
  a hook and running it are two steps. A wait may wake at any time; every change of the player's
  state is followed by a signal under the lock, so a wait whose condition has come true ends.
\<close>

section \<open>The state\<close>

datatype am_state = am_inactive | am_active | am_timing_out

datatype ps_state = ps_inactive | ps_active

text \<open>Where the monitor's thread is: at the switch, in one of the three waits, or in its hook.\<close>

datatype monitor_place = At_switch | Wait_inactive | Wait_active | Wait_timing_out | In_hook

datatype hook = Going_active | Going_inactive

text \<open>\<open>decided\<close>: the hooks other threads have decided on and not run yet. Times are in ns.\<close>

record activity_state =
  activity :: am_state
  player_state :: ps_state
  monitor :: monitor_place
  time_for_wait :: nat
  now :: nat
  decided :: "hook list"
  keep_dac_busy :: bool

section \<open>The operations\<close>

text \<open>\<open>going_active\<close> and \<open>going_inactive\<close>; \<open>auto\<close> is the standby mode \<open>disable_standby_auto\<close>.\<close>

definition run_hook :: "bool \<Rightarrow> hook \<Rightarrow> activity_state \<Rightarrow> activity_state" where
  "run_hook auto h s = (if auto then s\<lparr>keep_dac_busy := (h = Going_active)\<rparr> else s)"

text \<open>\<open>activity_monitor_signify_activity\<close> while it holds the lock, and the hook it decides on.\<close>

definition signify_activity :: "nat \<Rightarrow> bool \<Rightarrow> activity_state \<Rightarrow> activity_state \<times> hook option" where
  "signify_activity timeout active s =
     (let s = s\<lparr>player_state := (if active then ps_active else ps_inactive)\<rparr>
      in if activity s = am_inactive \<and> player_state s = ps_active
         then (s\<lparr>activity := am_active\<rparr>, Some Going_active)
         else if activity s = am_active \<and> player_state s = ps_inactive \<and> timeout = 0
         then (s\<lparr>activity := am_inactive\<rparr>, Some Going_inactive)
         else (s, None))"

text \<open>A move of the monitor while it holds the lock; \<open>None\<close> where it has to wait.\<close>

definition monitor_move :: "nat \<Rightarrow> activity_state \<Rightarrow> (activity_state \<times> hook option) option" where
  "monitor_move timeout s =
     (case monitor s of
        At_switch \<Rightarrow>
          Some (s\<lparr>monitor := (case activity s of am_inactive \<Rightarrow> Wait_inactive
                                | am_active \<Rightarrow> Wait_active | am_timing_out \<Rightarrow> Wait_timing_out)\<rparr>, None)
      | Wait_inactive \<Rightarrow>
          if player_state s = ps_active then Some (s\<lparr>monitor := At_switch\<rparr>, None) else None
      | Wait_active \<Rightarrow>
          if player_state s = ps_inactive
          then if activity s \<noteq> am_inactive
               then Some (s\<lparr>monitor := At_switch, activity := am_timing_out,
                            time_for_wait := now s + timeout\<rparr>, None)
               else Some (s\<lparr>monitor := At_switch\<rparr>, None)
          else None
      | Wait_timing_out \<Rightarrow>
          if player_state s = ps_active
          then Some (s\<lparr>monitor := At_switch, activity := am_active\<rparr>, None)
          else if time_for_wait s \<le> now s
          then Some (s\<lparr>monitor := In_hook, activity := am_inactive\<rparr>, Some Going_inactive)
          else None
      | In_hook \<Rightarrow> None)"

section \<open>The threads together\<close>

datatype activity_event = Decided "hook option" | Ran hook | Passed nat

inductive activity_step ::
    "nat \<Rightarrow> bool \<Rightarrow> activity_state \<Rightarrow> activity_event \<Rightarrow> activity_state \<Rightarrow> bool"
  for timeout :: nat and auto :: bool where
  signifies: "signify_activity timeout b s = (s', h) \<Longrightarrow>
     activity_step timeout auto s (Decided h) (s'\<lparr>decided := decided s' @ (case h of None \<Rightarrow> [] | Some k \<Rightarrow> [k])\<rparr>)"
| runs_hook: "decided s = xs @ h # ys \<Longrightarrow>
     activity_step timeout auto s (Ran h) ((run_hook auto h s)\<lparr>decided := xs @ ys\<rparr>)"
| moves: "monitor_move timeout s = Some (s', h) \<Longrightarrow> activity_step timeout auto s (Decided h) s'"
| monitor_hook: "monitor s = In_hook \<Longrightarrow>
     activity_step timeout auto s (Ran Going_inactive) ((run_hook auto Going_inactive s)\<lparr>monitor := At_switch\<rparr>)"
| time_passes: "activity_step timeout auto s (Passed n) (s\<lparr>now := now s + n\<rparr>)"

inductive_cases activity_stepE: "activity_step timeout auto s e s'"

definition activity_start :: "nat \<Rightarrow> activity_state" where
  "activity_start t = \<lparr>activity = am_inactive, player_state = ps_inactive, monitor = At_switch,
     time_for_wait = 0, now = t, decided = [], keep_dac_busy = False\<rparr>"

section \<open>The hooks that are decided on alternate\<close>

fun decisions :: "activity_event list \<Rightarrow> hook list" where
  "decisions [] = []"
| "decisions (Decided (Some h) # es) = h # decisions es"
| "decisions (_ # es) = decisions es"

fun hooks_run :: "activity_event list \<Rightarrow> hook list" where
  "hooks_run [] = []"
| "hooks_run (Ran h # es) = h # hooks_run es"
| "hooks_run (_ # es) = hooks_run es"

text \<open>The state the alternating hooks \<open>h\<close> lead to from inactive (\<open>False\<close>) or active (\<open>True\<close>).\<close>

fun alternate :: "bool \<Rightarrow> hook list \<Rightarrow> bool option" where
  "alternate b [] = Some b"
| "alternate b (h # hs) = (if (h = Going_active) = b then None else alternate (\<not> b) hs)"

definition outstanding :: "activity_state \<Rightarrow> hook multiset" where
  "outstanding s = mset (decided s) + (if monitor s = In_hook then {#Going_inactive#} else {#})"

definition monitor_ok :: "activity_state \<Rightarrow> bool" where
  "monitor_ok s \<longleftrightarrow> (monitor s = Wait_timing_out \<longrightarrow> activity s = am_timing_out) \<and>
     (monitor s = Wait_inactive \<longrightarrow> activity s \<noteq> am_timing_out)"

lemma activity_step_ok:
  assumes "activity_step timeout auto s e s'" and "monitor_ok s"
  shows "monitor_ok s'"
  using assms
  by cases (auto simp: monitor_ok_def signify_activity_def monitor_move_def run_hook_def Let_def
      split: monitor_place.splits am_state.splits if_splits)

lemma activity_step_decides:
  assumes "activity_step timeout auto s e s'" and "monitor_ok s"
  shows "alternate (activity s \<noteq> am_inactive) (decisions [e]) = Some (activity s' \<noteq> am_inactive)"
  using assms
  by cases (auto simp: monitor_ok_def signify_activity_def monitor_move_def run_hook_def Let_def
      split: monitor_place.splits am_state.splits if_splits)

lemma activity_step_outstanding:
  assumes "activity_step timeout auto s e s'"
  shows "mset (decisions [e]) + outstanding s = mset (hooks_run [e]) + outstanding s'"
  using assms
  by cases (auto simp: outstanding_def signify_activity_def monitor_move_def run_hook_def Let_def
      split: monitor_place.splits am_state.splits if_splits)

lemma decisions_Cons: "decisions (e # es) = decisions [e] @ decisions es"
  by (cases e; cases "case e of Decided h \<Rightarrow> h | _ \<Rightarrow> None") auto

lemma hooks_run_Cons: "hooks_run (e # es) = hooks_run [e] @ hooks_run es"
  by (cases e) auto

lemma alternate_append:
  "alternate b (hs @ ks) = (case alternate b hs of None \<Rightarrow> None | Some c \<Rightarrow> alternate c ks)"
  by (induction hs arbitrary: b) auto

lemma activity_runs_account:
  assumes "runs (activity_step timeout auto) s es s'" and "monitor_ok s"
  shows "alternate (activity s \<noteq> am_inactive) (decisions es) = Some (activity s' \<noteq> am_inactive) \<and>
    mset (decisions es) + outstanding s = mset (hooks_run es) + outstanding s'"
  using assms
proof (induction rule: runs.induct)
  case (run_cons s e s1 es s')
  note step = activity_step_decides [OF run_cons.hyps(1) run_cons.prems]
    activity_step_outstanding [OF run_cons.hyps(1)]
  note rest = run_cons.IH [OF activity_step_ok [OF run_cons.hyps(1) run_cons.prems]]
  have "mset (decisions [e]) + mset (decisions es) + outstanding s
      = mset (decisions es) + (mset (decisions [e]) + outstanding s)" by (simp only: ac_simps)
  also have "\<dots> = mset (hooks_run [e]) + (mset (decisions es) + outstanding s1)"
    unfolding step(2) by (simp only: ac_simps)
  also have "\<dots> = mset (hooks_run [e]) + mset (hooks_run es) + outstanding s'"
    using rest by (simp only: ac_simps)
  finally have "mset (decisions (e # es)) + outstanding s = mset (hooks_run (e # es)) + outstanding s'"
    using decisions_Cons [of e es] hooks_run_Cons [of e es] by simp
  moreover have "alternate (activity s \<noteq> am_inactive) (decisions (e # es)) = Some (activity s' \<noteq> am_inactive)"
    using decisions_Cons [of e es] step(1) rest by (simp add: alternate_append)
  ultimately show ?case by blast
qed simp

text \<open>
  C28. Over every interleaving of the threads the hooks that are decided on alternate, beginning with
  going active, and the monitor is inactive exactly while the last decision was to go inactive or
  there was none; each decision has been run once or is still outstanding.
\<close>
theorem hooks_alternate:
  assumes "runs (activity_step timeout auto) (activity_start t) es s"
  shows "alternate False (decisions es) = Some (activity s \<noteq> am_inactive) \<and>
    mset (decisions es) = mset (hooks_run es) + outstanding s"
  using activity_runs_account [OF assms]
  by (simp add: monitor_ok_def activity_start_def outstanding_def)

lemma hooks_alternate_witness:
  "alternate False (decisions [Decided (Some Going_active), Ran Going_active]) = Some True"
proof -
  let ?s = "(activity_start 0)\<lparr>player_state := ps_active, activity := am_active\<rparr>"
  have 1: "activity_step 0 True (activity_start 0) (Decided (Some Going_active)) (?s\<lparr>decided := [] @ [Going_active]\<rparr>)"
    using signifies [of 0 True "activity_start 0" ?s "Some Going_active" True]
    by (simp add: signify_activity_def activity_start_def)
  have 2: "activity_step 0 True (?s\<lparr>decided := [] @ [Going_active]\<rparr>) (Ran Going_active)
     ((run_hook True Going_active (?s\<lparr>decided := [] @ [Going_active]\<rparr>))\<lparr>decided := [] @ []\<rparr>)"
    by (rule runs_hook) simp
  from hooks_alternate [OF run_cons [of "activity_step 0 True", OF 1 run_one [of "activity_step 0 True", OF 2]]]
  show ?thesis by (simp add: run_hook_def activity_start_def)
qed

section \<open>The monitor on its own\<close>

text \<open>
  What the monitor's thread does while no other thread does anything: its next move, its hook, or the
  end of its timed wait. \<open>Wait_inactive\<close> and \<open>Wait_active\<close> have no time limit.
\<close>

definition monitor_turn :: "nat \<Rightarrow> bool \<Rightarrow> activity_state \<Rightarrow> activity_state" where
  "monitor_turn timeout auto s =
     (case monitor_move timeout s of
        Some (s', h) \<Rightarrow> s'
      | None \<Rightarrow>
          (case monitor s of
             In_hook \<Rightarrow> (run_hook auto Going_inactive s)\<lparr>monitor := At_switch\<rparr>
           | Wait_timing_out \<Rightarrow> s\<lparr>now := max (now s) (time_for_wait s)\<rparr>
           | _ \<Rightarrow> s))"

lemma monitor_turn_is_run:
  "\<exists>es. runs (activity_step timeout auto) s es (monitor_turn timeout auto s)"
proof (cases "monitor_move timeout s")
  case None
  note none = this
  show ?thesis
  proof (cases "monitor s")
    case Wait_timing_out
    let ?n = "time_for_wait s - now s"
    have "runs (activity_step timeout auto) s [Passed ?n] (s\<lparr>now := now s + ?n\<rparr>)"
      by (rule run_one) (rule time_passes)
    moreover have "now s + ?n = max (now s) (time_for_wait s)" by simp
    ultimately have "\<exists>es. runs (activity_step timeout auto) s es (s\<lparr>now := max (now s) (time_for_wait s)\<rparr>)"
      by metis
    then show ?thesis using none Wait_timing_out by (simp add: monitor_turn_def)
  next
    case In_hook
    then show ?thesis
      using none monitor_hook [OF In_hook]
      by (auto simp: monitor_turn_def intro!: exI run_cons run_nil)
  qed (use none in \<open>auto simp: monitor_turn_def intro!: exI run_nil\<close>)
next
  case (Some r)
  then show ?thesis
    using run_one [of "activity_step timeout auto", OF moves, of s]
    by (cases r) (fastforce simp: monitor_turn_def)
qed

lemma stays_in_wait:
  assumes "monitor s = Wait_inactive" and "player_state s = ps_inactive"
  shows "(monitor_turn timeout auto ^^ n) s = s"
  using assms by (induction n) (simp_all add: monitor_turn_def monitor_move_def)

lemma monitor_turn_simps:
  assumes "player_state s = ps_inactive"
  shows "monitor s = At_switch \<Longrightarrow> monitor_turn timeout auto s = s\<lparr>monitor :=
      (case activity s of am_inactive \<Rightarrow> Wait_inactive | am_active \<Rightarrow> Wait_active | am_timing_out \<Rightarrow> Wait_timing_out)\<rparr>"
    and "monitor s = Wait_active \<Longrightarrow> activity s \<noteq> am_inactive \<Longrightarrow> monitor_turn timeout auto s =
      s\<lparr>monitor := At_switch, activity := am_timing_out, time_for_wait := now s + timeout\<rparr>"
    and "monitor s = Wait_timing_out \<Longrightarrow> now s < time_for_wait s \<Longrightarrow>
      monitor_turn timeout auto s = s\<lparr>now := time_for_wait s\<rparr>"
    and "monitor s = Wait_timing_out \<Longrightarrow> time_for_wait s \<le> now s \<Longrightarrow>
      monitor_turn timeout auto s = s\<lparr>monitor := In_hook, activity := am_inactive\<rparr>"
    and "monitor s = In_hook \<Longrightarrow>
      monitor_turn timeout auto s = (run_hook auto Going_inactive s)\<lparr>monitor := At_switch\<rparr>"
  using assms by (simp_all add: monitor_turn_def monitor_move_def max_def)

text \<open>The number of turns until the monitor is inactive, counted back from the end.\<close>

lemma reaches_from_wait:
  assumes "player_state s = ps_inactive" and "monitor s = Wait_timing_out"
  shows "\<exists>n\<le>2. activity ((monitor_turn timeout auto ^^ n) s) = am_inactive"
proof (cases "time_for_wait s \<le> now s")
  case True
  then show ?thesis using assms by (intro exI [of _ 1]) (simp add: monitor_turn_simps)
next
  case False
  then show ?thesis using assms by (intro exI [of _ 2]) (simp add: monitor_turn_simps numeral_2_eq_2)
qed

lemma reaches_step:
  assumes "\<exists>n\<le>k. activity ((f ^^ n) (f s)) = am_inactive"
  shows "\<exists>n\<le>Suc k. activity ((f ^^ n) s) = am_inactive"
  using assms by (metis Suc_le_mono funpow_Suc_right o_apply)

lemma reaches_weaken: "\<exists>n\<le>k. P n \<Longrightarrow> k \<le> m \<Longrightarrow> \<exists>n\<le>m. P n" for k m :: nat
  by (meson le_trans)

lemma reaches_from_switch:
  assumes "player_state s = ps_inactive" and "monitor s = At_switch" and "activity s \<noteq> am_inactive"
  shows "\<exists>n\<le>6. activity ((monitor_turn timeout auto ^^ n) s) = am_inactive"
proof (cases "activity s")
  case am_active
  have "\<exists>n\<le>Suc (Suc (Suc 2)). activity ((monitor_turn timeout auto ^^ n) s) = am_inactive"
    using assms am_active
    by (intro reaches_step) (simp add: monitor_turn_simps, intro reaches_from_wait, simp_all)
  then show ?thesis by (rule reaches_weaken) simp
next
  case am_timing_out
  have "\<exists>n\<le>Suc 2. activity ((monitor_turn timeout auto ^^ n) s) = am_inactive"
    using assms am_timing_out
    by (intro reaches_step) (simp add: monitor_turn_simps, intro reaches_from_wait, simp_all)
  then show ?thesis by (rule reaches_weaken) simp
qed (use assms in simp)

lemma reaches_inactive:
  assumes "player_state s = ps_inactive" and "activity s \<noteq> am_inactive" and "monitor s \<noteq> Wait_inactive"
  shows "\<exists>n\<le>7. activity ((monitor_turn timeout auto ^^ n) s) = am_inactive"
proof (cases "monitor s")
  case Wait_active
  have "\<exists>n\<le>Suc 6. activity ((monitor_turn timeout auto ^^ n) s) = am_inactive"
    using assms Wait_active
    by (intro reaches_step reaches_from_switch) (simp_all add: monitor_turn_simps)
  then show ?thesis by simp
next
  case In_hook
  have "\<exists>n\<le>Suc 6. activity ((monitor_turn timeout auto ^^ n) s) = am_inactive"
    using assms In_hook
    by (intro reaches_step reaches_from_switch) (simp_all add: monitor_turn_simps run_hook_def)
  then show ?thesis by simp
next
  case Wait_timing_out
  from reaches_from_wait [OF assms(1) this] show ?thesis by (rule reaches_weaken) simp
next
  case At_switch
  from reaches_from_switch [OF assms(1) this assms(2)] show ?thesis by (rule reaches_weaken) simp
qed (use assms in simp)

text \<open>
  Once the player has stopped and no thread signifies anything more, the monitor's thread goes
  inactive within seven turns, unless it has slept through the whole activity: still waiting for the
  player to start, it then leaves the state active for ever. With a timeout this state is reached.
\<close>
lemma brief_activity_never_ends:
  "(player_state s = ps_inactive \<and> activity s \<noteq> am_inactive \<longrightarrow>
      (if monitor s = Wait_inactive
       then \<forall>n. activity ((monitor_turn timeout auto ^^ n) s) = activity s
       else \<exists>n\<le>7. activity ((monitor_turn timeout auto ^^ n) s) = am_inactive)) \<and>
   (0 < timeout \<longrightarrow>
      (\<exists>es s'. runs (activity_step timeout auto) (activity_start t) es s' \<and> outstanding s' = {#} \<and>
         player_state s' = ps_inactive \<and> activity s' = am_active \<and> monitor s' = Wait_inactive))"
proof
  show "player_state s = ps_inactive \<and> activity s \<noteq> am_inactive \<longrightarrow>
      (if monitor s = Wait_inactive
       then \<forall>n. activity ((monitor_turn timeout auto ^^ n) s) = activity s
       else \<exists>n\<le>7. activity ((monitor_turn timeout auto ^^ n) s) = am_inactive)"
    using stays_in_wait [of s] reaches_inactive [of s] by simp
next
  have "\<exists>es s'. runs (activity_step timeout auto) (activity_start t) es s' \<and> outstanding s' = {#} \<and>
         player_state s' = ps_inactive \<and> activity s' = am_active \<and> monitor s' = Wait_inactive"
    if "0 < timeout"
  proof -
    let ?step = "activity_step timeout auto"
    let ?s1 = "(activity_start t)\<lparr>monitor := Wait_inactive\<rparr>"
    let ?s2 = "?s1\<lparr>player_state := ps_active, activity := am_active\<rparr>\<lparr>decided := [] @ [Going_active]\<rparr>"
    let ?s3 = "(run_hook auto Going_active ?s2)\<lparr>decided := [] @ []\<rparr>"
    let ?s4 = "?s3\<lparr>player_state := ps_inactive\<rparr>\<lparr>decided := [] @ []\<rparr>"
    have "?step (activity_start t) (Decided None) ?s1"
      by (rule moves) (simp add: monitor_move_def activity_start_def)
    moreover have "?step ?s1 (Decided (Some Going_active)) ?s2"
      using signifies [of timeout True ?s1 "?s1\<lparr>player_state := ps_active, activity := am_active\<rparr>" "Some Going_active" auto]
      by (simp add: signify_activity_def activity_start_def)
    moreover have "?step ?s2 (Ran Going_active) ?s3" by (rule runs_hook) simp
    moreover have "?step ?s3 (Decided None) ?s4"
      using signifies [of timeout False ?s3 "?s3\<lparr>player_state := ps_inactive\<rparr>" None auto] that
      by (simp add: signify_activity_def activity_start_def run_hook_def)
    ultimately have "runs ?step (activity_start t)
        [Decided None, Decided (Some Going_active), Ran Going_active, Decided None] ?s4"
      by (meson run_cons run_one)
    moreover have "outstanding ?s4 = {#} \<and> player_state ?s4 = ps_inactive \<and>
        activity ?s4 = am_active \<and> monitor ?s4 = Wait_inactive"
      by (cases auto) (simp_all add: outstanding_def run_hook_def activity_start_def)
    ultimately show ?thesis by blast
  qed
  then show "0 < timeout \<longrightarrow> (\<exists>es s'. runs (activity_step timeout auto) (activity_start t) es s' \<and> outstanding s' = {#} \<and>
         player_state s' = ps_inactive \<and> activity s' = am_active \<and> monitor s' = Wait_inactive)"
    by blast
qed

lemma brief_activity_never_ends_witness:
  "\<exists>es s. runs (activity_step 10 True) (activity_start 0) es s \<and> player_state s = ps_inactive \<and>
     (\<forall>n. activity ((monitor_turn 10 True ^^ n) s) = am_active)"
proof -
  have "0 < (10::nat)" by simp
  with brief_activity_never_ends [of _ 10 True 0] obtain es s
    where s: "runs (activity_step 10 True) (activity_start 0) es s" "player_state s = ps_inactive"
      "activity s = am_active" "monitor s = Wait_inactive" by metis
  from brief_activity_never_ends [of s 10 True 0] s(2-) have "\<forall>n. activity ((monitor_turn 10 True ^^ n) s) = am_active"
    by simp
  with s show ?thesis by blast
qed

section \<open>Hooks that overtake each other\<close>

text \<open>
  The hooks run after the lock is given back: two threads can run theirs in the other order than they
  were decided on, and the device is then kept busy although the monitor is inactive.
\<close>

lemma hooks_out_of_order:
  "\<exists>es s. runs (activity_step 0 True) (activity_start t) es s \<and> outstanding s = {#} \<and>
     hooks_run es = rev (decisions es) \<and> activity s = am_inactive \<and> keep_dac_busy s"
proof -
  let ?step = "activity_step 0 True"
  let ?s0 = "activity_start t"
  let ?s1 = "?s0\<lparr>player_state := ps_active, activity := am_active, decided := [Going_active]\<rparr>"
  let ?s2 = "?s1\<lparr>player_state := ps_inactive, activity := am_inactive, decided := [Going_active, Going_inactive]\<rparr>"
  let ?s3 = "?s2\<lparr>decided := [Going_active], keep_dac_busy := False\<rparr>"
  let ?s4 = "?s3\<lparr>decided := [], keep_dac_busy := True\<rparr>"
  have "?step ?s0 (Decided (Some Going_active)) ?s1"
    using signifies [of 0 True ?s0 "?s1\<lparr>decided := []\<rparr>" "Some Going_active" True]
    by (simp add: signify_activity_def activity_start_def)
  moreover have "?step ?s1 (Decided (Some Going_inactive)) ?s2"
    using signifies [of 0 False ?s1 "?s2\<lparr>decided := [Going_active]\<rparr>" "Some Going_inactive" True]
    by (simp add: signify_activity_def activity_start_def)
  moreover have "?step ?s2 (Ran Going_inactive) ?s3"
    using runs_hook [of ?s2 "[Going_active]" Going_inactive "[]" 0 True]
    by (simp add: run_hook_def activity_start_def)
  moreover have "?step ?s3 (Ran Going_active) ?s4"
    using runs_hook [of ?s3 "[]" Going_active "[]" 0 True]
    by (simp add: run_hook_def activity_start_def)
  ultimately have "runs ?step ?s0 [Decided (Some Going_active), Decided (Some Going_inactive),
      Ran Going_inactive, Ran Going_active] ?s4" by (meson run_cons run_one)
  then show ?thesis
    by (rule_tac exI, rule_tac exI, intro conjI) (auto simp: outstanding_def activity_start_def)
qed

end
