(* ===== verification/Mdns_Names.thy ===== *)
theory Mdns_Names
  imports Prelude
begin

text \<open>
  Domain names in the multicast DNS responder (\<open>tinysvcmdns.c\<close>): labels, names from and to dotted
  text, and the compression of names in a packet, writing and reading. A string in memory is its block of
  bytes with the terminating 0; \<open>None\<close> is an access outside a block.
\<close>

section \<open>Strings of C\<close>

definition cstr :: "bytes \<Rightarrow> bytes" where
  "cstr s = takeWhile (\<lambda>b. b \<noteq> 0) s"

text \<open>What \<open>strncpy (dst, s + i, n)\<close> writes: it stops copying at a 0 and fills up with zeros.\<close>

definition strncpy_from :: "bytes \<Rightarrow> nat \<Rightarrow> nat \<Rightarrow> bytes option" where
  "strncpy_from s i n =
     (let c = cstr (take n (drop i s))
      in if length c < n \<and> length s \<le> i + length c then None
         else Some (c @ replicate (n - length c) 0))"

text \<open>\<open>memchr (s + i, c, n)\<close> as an index into \<open>s\<close>.\<close>

definition memchr :: "bytes \<Rightarrow> nat \<Rightarrow> u8 \<Rightarrow> nat \<Rightarrow> nat option" where
  "memchr s i c n =
     (let t = take n (drop i s); k = length (takeWhile (\<lambda>b. b \<noteq> c) t)
      in if k < length t then Some (i + k) else None)"

section \<open>Labels and names\<close>

definition cmp_nlabel :: "bytes \<Rightarrow> bytes \<Rightarrow> bool" where
  "cmp_nlabel L1 L2 \<longleftrightarrow> cstr L1 = cstr L2"

definition dup_nlabel :: "bytes \<Rightarrow> bytes" where
  "dup_nlabel n = cstr n @ [0]"

definition dup_label :: "bytes \<Rightarrow> nat \<Rightarrow> bytes option option" where
  "dup_label s i =
     do { b \<leftarrow> rd s i;
          let len = unat b + 1;
          if len > 63 then Some None
          else do { c \<leftarrow> strncpy_from s i len; Some (Some (c @ [0])) } }"

definition join_nlabel :: "bytes \<Rightarrow> bytes \<Rightarrow> bytes" where
  "join_nlabel n1 n2 = cstr n1 @ cstr n2 @ [0]"

definition create_label :: "bytes \<Rightarrow> bytes option" where
  "create_label txt =
     (let len = length (cstr txt)
      in if len > 63 then None else Some (of_nat len # cstr txt @ [0]))"

text \<open>The loop puts each length where the dot before the label was; 46 is the dot.\<close>

function nlabel_loop :: "bytes \<Rightarrow> nat \<Rightarrow> nat \<Rightarrow> bytes" where
  "nlabel_loop label p e =
     (if p < e
      then let dot = (case memchr label (p + 1) 46 (e - p - 1) of None \<Rightarrow> e + 1 | Some d \<Rightarrow> d)
           in nlabel_loop (label[p := of_nat (dot - p - 1)]) dot e
      else label)"
  by pat_completeness auto
termination
  by (relation "measure (\<lambda>(label, p, e). e - p)") (auto simp: memchr_def Let_def split: if_splits)

declare nlabel_loop.simps [simp del]

text \<open>For an empty text the first byte is never written.\<close>

definition create_nlabel :: "bytes \<Rightarrow> bytes option" where
  "create_nlabel txt =
     (let len = length (cstr txt)
      in if len = 0 then None else Some (nlabel_loop (0 # cstr txt @ [0]) 0 len))"

text \<open>The buffer of \<open>nlabel_to_str\<close> has 256 bytes; \<open>out\<close> are those written.\<close>

function to_str_loop :: "bytes \<Rightarrow> nat \<Rightarrow> nat \<Rightarrow> bytes \<Rightarrow> (nat \<times> bytes) option" where
  "to_str_loop name p buf_len out =
     (case rd name p of
        None \<Rightarrow> None
      | Some b \<Rightarrow>
          if b = 0 \<or> buf_len \<le> unat b then Some (buf_len, out)
          else (case strncpy_from name (p + 1) (unat b) of
                  None \<Rightarrow> None
                | Some s \<Rightarrow> to_str_loop name (p + unat b + 1) (buf_len - (unat b + 1)) (out @ s @ [46])))"
  by pat_completeness auto
termination
  by (relation "measure (\<lambda>(name, p, buf_len, out). length name - p)") (auto simp: rd_def split: if_splits)

declare to_str_loop.simps [simp del]

definition nlabel_to_str :: "bytes \<Rightarrow> bytes option" where
  "nlabel_to_str name =
     do { (buf_len, out) \<leftarrow> to_str_loop name 0 256 [];
          let out = (if buf_len = 0 then butlast out else out);
          Some (cstr out) }"

section \<open>Names as lists of labels\<close>

text \<open>A label as it stands in a name, and the names the responder is meant for.\<close>

definition wire_label :: "bytes \<Rightarrow> bytes" where
  "wire_label l = of_nat (length l) # l"

definition wire_name :: "bytes list \<Rightarrow> bytes" where
  "wire_name ls = concat (map wire_label ls) @ [0]"

definition good_label :: "bytes \<Rightarrow> bool" where
  "good_label l \<longleftrightarrow> l \<noteq> [] \<and> length l \<le> 63 \<and> 0 \<notin> set l"

definition plain_label :: "bytes \<Rightarrow> bool" where
  "plain_label l \<longleftrightarrow> good_label l \<and> 46 \<notin> set l"

fun dotted :: "bytes list \<Rightarrow> bytes" where
  "dotted [] = []"
| "dotted [l] = l"
| "dotted (l # ls) = l @ 46 # dotted ls"

lemma wire_name_simps [simp]:
  "wire_name [] = [0]" "wire_name (l # ls) = of_nat (length l) # l @ wire_name ls"
  by (simp_all add: wire_name_def wire_label_def)

lemma good_label_length: "good_label l \<Longrightarrow> unat (of_nat (length l) :: u8) = length l"
  by (simp add: good_label_def unat_of_nat take_bit_nat_eq_self)

lemma good_label_nonzero: "good_label l \<Longrightarrow> of_nat (length l) \<noteq> (0 :: u8)"
  by (metis good_label_def good_label_length length_0_conv unat_eq_0)

lemma cstr_append: "0 \<notin> set xs \<Longrightarrow> cstr (xs @ ys) = xs @ cstr ys"
  unfolding cstr_def by (intro takeWhile_append2) auto

lemma cstr_Cons: "cstr (b # bs) = (if b = 0 then [] else b # cstr bs)"
  by (simp add: cstr_def)

lemma cstr_all: "0 \<notin> set xs \<Longrightarrow> cstr xs = xs"
  unfolding cstr_def by (rule takeWhile_eq_all_conv [THEN iffD2]) auto

lemma cstr_wire: "list_all good_label ls \<Longrightarrow> cstr (wire_name ls) @ [0] = wire_name ls"
proof (induction ls)
  case (Cons l ls)
  then have "0 \<notin> set l" "of_nat (length l) \<noteq> (0 :: u8)" by (auto simp: good_label_nonzero) (simp add: good_label_def)
  with Cons show ?case by (simp add: cstr_Cons cstr_append)
qed (simp add: cstr_def)

lemma cmp_nlabel_wire:
  assumes "list_all good_label ls" "list_all good_label ms"
  shows "cmp_nlabel (wire_name ls) (wire_name ms) \<longleftrightarrow> wire_name ls = wire_name ms"
  unfolding cmp_nlabel_def by (metis assms cstr_wire)

lemma wire_name_inj:
  assumes "list_all good_label ls" "list_all good_label ms" "wire_name ls = wire_name ms"
  shows "ls = ms"
  using assms
proof (induction ls arbitrary: ms)
  case Nil
  then show ?case by (cases ms) (auto simp: good_label_nonzero)
next
  case (Cons l ls)
  from Cons.prems obtain m ms' where ms: "ms = m # ms'" by (cases ms) (auto simp: good_label_nonzero)
  with Cons.prems have good: "good_label l" "good_label m" by simp_all
  from Cons.prems(3) ms have "(of_nat (length l) :: u8) = of_nat (length m)" by simp
  then have "length l = length m" using good_label_length good by metis
  with Cons.prems ms Cons.IH [of ms'] show ?case by simp
qed

lemma strncpy_from_mid:
  assumes "0 \<notin> set l" and "i = length pre"
  shows "strncpy_from (pre @ l @ post) i (length l) = Some l"
  using assms by (simp add: strncpy_from_def cstr_all)

section \<open>Dotted text to names and back\<close>

lemma plain_good: "plain_label l \<Longrightarrow> good_label l"
  by (simp add: plain_label_def)

lemma dotted_nonempty: "ls \<noteq> [] \<Longrightarrow> list_all good_label ls \<Longrightarrow> dotted ls \<noteq> []"
  by (cases ls rule: dotted.cases) (auto simp: good_label_def)

lemma dotted_no_zero: "list_all good_label ls \<Longrightarrow> 0 \<notin> set (dotted ls)"
  by (induction ls rule: dotted.induct) (auto simp: good_label_def)

lemma memchr_found:
  assumes "i = length pre" and "46 \<notin> set l" and "length l < n"
  shows "memchr (pre @ l @ 46 # post) i 46 n = Some (i + length l)"
proof -
  obtain m where "n = length l + Suc m" using assms(3) less_iff_Suc_add by auto
  moreover have "takeWhile (\<lambda>b. b \<noteq> 46) (l @ 46 # take m post) = l"
    using assms(2) by (subst takeWhile_append2) auto
  ultimately show ?thesis using assms(1) by (simp add: memchr_def Let_def)
qed

lemma memchr_none:
  assumes "46 \<notin> set (take n (drop i s))"
  shows "memchr s i 46 n = None"
proof -
  have eq: "takeWhile (\<lambda>b. b \<noteq> 46) (take n (drop i s)) = take n (drop i s)"
    by (rule takeWhile_eq_all_conv [THEN iffD2]) (use assms in auto)
  show ?thesis unfolding memchr_def Let_def eq by simp
qed

lemma nlabel_loop_dotted:
  assumes "list_all plain_label ls" and "ls \<noteq> []"
  shows "nlabel_loop (pre @ x # dotted ls @ [0]) (length pre) (length pre + length (dotted ls))
     = pre @ wire_name ls"
  using assms
proof (induction ls arbitrary: pre x rule: dotted.induct)
  case (2 l)
  let ?s = "pre @ x # l @ [0]" and ?p = "length pre" and ?e = "length pre + length l"
  have l: "l \<noteq> []" "46 \<notin> set l" using 2 by (auto simp: plain_label_def good_label_def)
  have "memchr ?s (?p + 1) 46 (?e - ?p - 1) = None"
    by (rule memchr_none) (use l(2) in \<open>auto dest: in_set_takeD\<close>)
  then have "nlabel_loop ?s ?p ?e = nlabel_loop (pre @ of_nat (length l) # l @ [0]) (?e + 1) ?e"
    using l(1) by (subst nlabel_loop.simps) (simp add: Let_def)
  moreover have "nlabel_loop (pre @ of_nat (length l) # l @ [0]) (?e + 1) ?e = pre @ of_nat (length l) # l @ [0]"
    by (subst nlabel_loop.simps) simp
  ultimately show ?case by simp
next
  case (3 l m ls)
  let ?rest = "dotted (m # ls)"
  let ?s = "pre @ x # l @ 46 # ?rest @ [0]" and ?p = "length pre"
    and ?e = "length pre + length (dotted (l # m # ls))"
  have l: "l \<noteq> []" "46 \<notin> set l" using 3 by (auto simp: plain_label_def good_label_def)
  have r: "list_all plain_label (m # ls)" "?rest \<noteq> []"
    using 3 dotted_nonempty [of "m # ls"] by (auto simp: list_all_iff plain_good)
  have "memchr ((pre @ [x]) @ l @ 46 # ?rest @ [0]) (?p + 1) 46 (?e - ?p - 1) = Some (?p + 1 + length l)"
    by (rule memchr_found) (use l r(2) in \<open>auto simp: Suc_le_eq\<close>)
  then have "nlabel_loop ?s ?p ?e = nlabel_loop (pre @ of_nat (length l) # l @ 46 # ?rest @ [0]) (?p + 1 + length l) ?e"
    using l(1) by (subst nlabel_loop.simps) (simp add: Let_def)
  also have "\<dots> = nlabel_loop ((pre @ of_nat (length l) # l) @ 46 # ?rest @ [0])
      (length (pre @ of_nat (length l) # l)) (length (pre @ of_nat (length l) # l) + length ?rest)"
    by (simp add: add.assoc)
  also have "\<dots> = (pre @ of_nat (length l) # l) @ wire_name (m # ls)"
    by (rule 3(1)) (use r in simp_all)
  finally show ?case by simp
qed simp

lemma create_nlabel_dotted:
  assumes "list_all plain_label ls" and "ls \<noteq> []"
  shows "create_nlabel (dotted ls @ [0]) = Some (wire_name ls)"
proof -
  have good: "list_all good_label ls" using assms(1) by (auto simp: list_all_iff plain_good)
  then have "cstr (dotted ls @ [0]) = dotted ls"
    using dotted_no_zero [OF good] by (simp add: cstr_append cstr_Cons)
  then show ?thesis
    using dotted_nonempty [OF assms(2) good] nlabel_loop_dotted [OF assms, of "[]" 0]
    by (simp add: create_nlabel_def Let_def)
qed

definition shown :: "bytes list \<Rightarrow> bytes" where
  "shown ls = concat (map (\<lambda>l. l @ [46]) ls)"

lemma to_str_loop_wire:
  assumes "list_all good_label ls" and "length (shown ls) \<le> n"
  shows "to_str_loop (pre @ wire_name ls) (length pre) n out = Some (n - length (shown ls), out @ shown ls)"
  using assms
proof (induction ls arbitrary: pre n out)
  case (Cons l ls)
  then have good: "good_label l" and nz: "0 \<notin> set l" by (auto simp: good_label_def)
  note len = good_label_length [OF good] good_label_nonzero [OF good]
  let ?name = "pre @ of_nat (length l) # l @ wire_name ls"
  have cpy: "strncpy_from ?name (Suc (length pre)) (length l) = Some l"
    using strncpy_from_mid [OF nz, of "Suc (length pre)" "pre @ [of_nat (length l)]" "wire_name ls"] by simp
  have "to_str_loop ?name (length pre) n out
      = to_str_loop ((pre @ of_nat (length l) # l) @ wire_name ls) (length (pre @ of_nat (length l) # l))
          (n - (length l + 1)) (out @ l @ [46])"
    using len cpy Cons.prems(2) by (subst to_str_loop.simps) (simp add: shown_def rd_def nth_append)
  also have "\<dots> = Some (n - (length l + 1) - length (shown ls), (out @ l @ [46]) @ shown ls)"
    by (rule Cons.IH) (use Cons.prems in \<open>simp_all add: shown_def\<close>)
  finally show ?case by (simp add: shown_def)
qed (subst to_str_loop.simps, simp add: shown_def)

lemma length_strncpy_from:
  assumes "strncpy_from s i n = Some c"
  shows "length c = n"
proof -
  have "length (cstr (take n (drop i s))) \<le> length (take n (drop i s))"
    unfolding cstr_def by (rule length_takeWhile_le)
  also have "\<dots> \<le> n" by simp
  finally show ?thesis using assms by (auto simp: strncpy_from_def Let_def split: if_splits)
qed

lemma to_str_loop_bounded:
  assumes "to_str_loop name p n out = Some (n', out')"
  shows "length out' + n' = length out + n"
  using assms
proof (induction name p n out rule: to_str_loop.induct)
  case (1 name p buf_len out)
  obtain b where b: "rd name p = Some b"
    using "1.prems" by (subst (asm) to_str_loop.simps) (auto split: option.splits)
  show ?case
  proof (cases "b = 0 \<or> buf_len \<le> unat b")
    case True
    then show ?thesis using "1.prems" b by (subst (asm) to_str_loop.simps) simp
  next
    case False
    then obtain c where c: "strncpy_from name (p + 1) (unat b) = Some c"
      and rest: "to_str_loop name (p + unat b + 1) (buf_len - (unat b + 1)) (out @ c @ [46]) = Some (n', out')"
      using "1.prems" b by (subst (asm) to_str_loop.simps) (auto split: option.splits)
    from "1.IH" [OF b False c rest] length_strncpy_from [OF c] False show ?thesis by simp
  qed
qed

lemma shown_dotted: "ls \<noteq> [] \<Longrightarrow> shown ls = dotted ls @ [46]"
  by (induction ls rule: dotted.induct) (simp_all add: shown_def)

lemma dotted_text_back:
  assumes "list_all plain_label ls" and "ls \<noteq> []" and "length (dotted ls) \<le> 255"
    and "create_nlabel (dotted ls @ [0]) = Some name"
  shows "nlabel_to_str name = Some (dotted ls @ (if length (dotted ls) = 255 then [] else [46]))"
proof -
  have good: "list_all good_label ls" using assms(1) by (auto simp: list_all_iff plain_good)
  note d = dotted_no_zero [OF good] shown_dotted [OF assms(2)]
  have "to_str_loop ([] @ name) (length ([] :: bytes)) 256 [] = Some (256 - length (shown ls), [] @ shown ls)"
    using create_nlabel_dotted [OF assms(1,2)] assms(4) to_str_loop_wire [OF good, of 256 "[]" "[]"] d assms(3)
    by simp
  then show ?thesis
    using d assms(3) by (auto simp: nlabel_to_str_def cstr_all)
qed

text \<open>Whatever is in memory, the text never outgrows its buffer of 256 bytes.\<close>

lemma nlabel_to_str_bounded:
  assumes "nlabel_to_str name = Some text"
  shows "length text < 256"
proof -
  obtain n out where loop: "to_str_loop name 0 256 [] = Some (n, out)"
    and t: "text = cstr (if n = 0 then butlast out else out)"
    using assms by (auto simp: nlabel_to_str_def split: bind_splits)
  have "length text \<le> length (if n = 0 then butlast out else out)"
    unfolding t cstr_def by (rule length_takeWhile_le)
  with to_str_loop_bounded [OF loop] show ?thesis by (simp split: if_splits)
qed

end
