(* ===== verification/Mdns_Compression.thy ===== *)
theory Mdns_Compression
  imports Mdns_Names
begin

text \<open>
  Names inside a packet (\<open>tinysvcmdns.c\<close>): a name is written with the compression of DNS, where a
  pointer stands for a rest that was written before, and names of a received packet are read with
  \<open>uncompress_nlabel\<close>. The specification is the reading of a name that DNS prescribes.
\<close>

section \<open>Writing\<close>

text \<open>
  An entry of the compression list: a name (the rest of a name in memory) and its position. The list
  begins with a dummy entry, the empty name at position 0.
\<close>

type_synonym name_comp = "(bytes \<times> nat) list"

definition first_comp :: name_comp where
  "first_comp = [([0], 0)]"

definition find_comp :: "bytes \<Rightarrow> name_comp \<Rightarrow> (bytes \<times> nat) option" where
  "find_comp name cs = find (\<lambda>c. cmp_nlabel name (fst c)) cs"

definition pointer_to :: "nat \<Rightarrow> u16" where
  "pointer_to pos = 0xC000 OR (of_nat pos AND 0x3FFF)"

function encode_name_loop ::
    "bytes \<Rightarrow> nat \<Rightarrow> nat \<Rightarrow> bytes \<Rightarrow> name_comp \<Rightarrow> (bytes \<times> nat \<times> name_comp) option" where
  "encode_name_loop pkt p len name cs =
     (case name of
        [] \<Rightarrow> None
      | b # _ \<Rightarrow>
          if b = 0 then map_option (\<lambda>pkt. (pkt, len + 1, cs)) (wr_block pkt p [0])
          else (case find_comp name cs of
                  Some c \<Rightarrow> map_option (\<lambda>pkt. (pkt, len + 2, cs)) (wr_block pkt p (htons_bytes (pointer_to (snd c))))
                | None \<Rightarrow>
                    (case strncpy_from name 0 (unat b + 1) of
                       None \<Rightarrow> None
                     | Some segment \<Rightarrow>
                         (case wr_block pkt p segment of
                            None \<Rightarrow> None
                          | Some pkt \<Rightarrow> encode_name_loop pkt (p + unat b + 1) (len + unat b + 1)
                              (drop (unat b + 1) name) (cs @ [(name, p)])))))"
  by pat_completeness auto
termination
  by (relation "measure (\<lambda>(pkt, p, len, name, cs). length name)") auto

declare encode_name_loop.simps [simp del]

text \<open>The packet, the number of bytes written, and the compression list. \<open>None\<close> as name is a null pointer.\<close>

definition mdns_encode_name ::
    "bytes \<Rightarrow> nat \<Rightarrow> bytes option \<Rightarrow> name_comp \<Rightarrow> (bytes \<times> nat \<times> name_comp) option" where
  "mdns_encode_name pkt off name cs =
     encode_name_loop pkt off 0 (case name of None \<Rightarrow> [0] | Some n \<Rightarrow> n) cs"

section \<open>Reading\<close>

text \<open>\<open>label_len\<close> from the cell \<open>p\<close> on.\<close>

function label_len_from :: "bytes \<Rightarrow> nat \<Rightarrow> nat \<Rightarrow> nat \<Rightarrow> nat option" where
  "label_len_from pkt pkt_len p len =
     (if p < pkt_len
      then (case rd pkt p of
              None \<Rightarrow> None
            | Some b \<Rightarrow>
                if b = 0 then Some (len + 1)
                else if b AND 0xC0 = 0xC0 then Some (len + 2)
                else label_len_from pkt pkt_len (p + unat b + 1) (len + unat b + 1))
      else Some len)"
  by pat_completeness auto
termination
  by (relation "measure (\<lambda>(pkt, pkt_len, p, len). pkt_len - p)") auto

declare label_len_from.simps [simp del]

definition label_len :: "bytes \<Rightarrow> nat \<Rightarrow> nat \<Rightarrow> nat option" where
  "label_len pkt pkt_len off = label_len_from pkt pkt_len off 0"

definition copy_label :: "bytes \<Rightarrow> nat \<Rightarrow> nat \<Rightarrow> bytes option option" where
  "copy_label pkt pkt_len off =
     (if off > pkt_len then Some None
      else do { b \<leftarrow> rd pkt off;
                if off + (unat b + 1) > pkt_len then Some None else dup_label pkt off })"

text \<open>
  One turn of the loops of \<open>uncompress_nlabel\<close> at \<open>p\<close>: the piece that is copied and where the loop goes
  on. Behind a pointer it goes on after the label pointed to. \<open>End\<close> is the end of the loop, \<open>Bad\<close> an
  access outside the buffer.
\<close>

datatype uncompress_turn = End | Bad | Piece bytes nat

definition pointer_target :: "u8 \<Rightarrow> u8 \<Rightarrow> nat" where
  "pointer_target b0 b1 = unat (push_bit 8 (ucast (b0 AND 0x3F)) OR ucast b1 :: u16)"

definition uncompress_step :: "bytes \<Rightarrow> nat \<Rightarrow> nat \<Rightarrow> uncompress_turn" where
  "uncompress_step pkt pkt_len p =
     (case rd pkt p of
        None \<Rightarrow> Bad
      | Some b \<Rightarrow>
          if b = 0 \<or> pkt_len \<le> p then End
          else let source = (if b AND 0xC0 = 0xC0
                             then map_option (pointer_target b) (rd pkt (p + 1)) else Some p)
               in case source of
                    None \<Rightarrow> Bad
                  | Some p2 \<Rightarrow>
                      (case rd pkt p2 of
                         None \<Rightarrow> Bad
                       | Some l \<Rightarrow>
                           (case strncpy_from pkt p2 (unat l + 1) of
                              None \<Rightarrow> Bad
                            | Some s \<Rightarrow> Piece s (p2 + unat l + 1))))"

text \<open>
  The loops; \<open>None\<close> when they never end. They run twice, first to add up the lengths of the pieces for the
  \<open>malloc\<close> and then to copy them; both go the same way. The inner result is \<open>None\<close> for an access
  outside the buffer.
\<close>

partial_function (option) uncompress_loop :: "bytes \<Rightarrow> nat \<Rightarrow> nat \<Rightarrow> bytes \<Rightarrow> bytes option option" where
  "uncompress_loop pkt pkt_len p str =
     (case uncompress_step pkt pkt_len p of
        End \<Rightarrow> Some (Some (str @ [0]))
      | Bad \<Rightarrow> Some None
      | Piece s p' \<Rightarrow> uncompress_loop pkt pkt_len p' (str @ s))"

declare uncompress_loop.simps [code]

text \<open>\<open>Some (Some None)\<close> is the null pointer for an offset behind the packet.\<close>

definition uncompress_nlabel :: "bytes \<Rightarrow> nat \<Rightarrow> nat \<Rightarrow> bytes option option option" where
  "uncompress_nlabel pkt pkt_len off =
     (if pkt_len \<le> off then Some (Some None)
      else map_option (map_option Some) (uncompress_loop pkt pkt_len off []))"

section \<open>The names of a packet\<close>

text \<open>
  What DNS reads at a position: a 0 ends a name, a length up to 63 begins a label, and a pointer leads to
  the rest of the name, which stands before it. The last argument is the position behind the name.
\<close>

inductive name_at :: "bytes \<Rightarrow> nat \<Rightarrow> bytes list \<Rightarrow> nat \<Rightarrow> bool" for w :: bytes where
  root: "rd w p = Some 0 \<Longrightarrow> name_at w p [] (p + 1)"
| label: "rd w p = Some (of_nat (length l)) \<Longrightarrow> good_label l \<Longrightarrow> rd_block w (p + 1) (length l) = Some l \<Longrightarrow>
     name_at w (p + 1 + length l) ls q \<Longrightarrow> name_at w p (l # ls) q"
| pointer: "rd w p = Some b0 \<Longrightarrow> b0 AND 0xC0 = 0xC0 \<Longrightarrow> rd w (p + 1) = Some b1 \<Longrightarrow>
     pointer_target b0 b1 < p \<Longrightarrow> name_at w (pointer_target b0 b1) ls q \<Longrightarrow> name_at w p ls (p + 2)"

text \<open>A packet that grows keeps its names.\<close>

definition extends :: "bytes \<Rightarrow> bytes \<Rightarrow> bool" where
  "extends w w' \<longleftrightarrow> take (length w) w' = w"

lemma extends_length: "extends w w' \<Longrightarrow> length w \<le> length w'"
  unfolding extends_def by (metis length_take min.cobounded1)

lemma extends_rd: "extends w w' \<Longrightarrow> rd w i = Some b \<Longrightarrow> rd w' i = Some b"
  unfolding extends_def rd_def
  by (metis length_take min_less_iff_conj nth_take option.distinct(1))

lemma extends_rd_block:
  assumes "extends w w'" and "rd_block w i n = Some bs"
  shows "rd_block w' i n = Some bs"
proof -
  have le: "i + n \<le> length w" and bs: "bs = take n (drop i w)"
    using assms(2) by (auto simp: rd_block_def split: if_splits)
  have "take n (drop i w') = take n (drop i (take (length w) w'))"
    using le by (simp add: drop_take min_def)
  with assms(1) le bs extends_length [OF assms(1)] show ?thesis by (simp add: rd_block_def extends_def)
qed

lemma extends_take: "p \<le> q \<Longrightarrow> p \<le> length pkt \<Longrightarrow> take p pkt' = take p pkt \<Longrightarrow> extends (take p pkt) (take q pkt')"
  by (simp add: extends_def min_def)

lemma extends_append: "extends w (w @ v)"
  by (simp add: extends_def)

lemma name_at_extends:
  assumes "name_at w p ls q" and "extends w w'"
  shows "name_at w' p ls q"
  using assms
proof (induction rule: name_at.induct)
  case (root p)
  from extends_rd [OF root(2,1)] show ?case by (rule name_at.root)
next
  case (label p l ls q)
  note ext = label.prems
  from extends_rd [OF ext label.hyps(1)] label.hyps(2) extends_rd_block [OF ext label.hyps(3)] label.IH [OF ext]
  show ?case by (rule name_at.label)
next
  case (pointer p b0 b1 ls q)
  note ext = pointer.prems
  from extends_rd [OF ext pointer.hyps(1)] pointer.hyps(2) extends_rd [OF ext pointer.hyps(3)]
    pointer.hyps(4) pointer.IH [OF ext]
  show ?case by (rule name_at.pointer)
qed

lemma name_at_inside: "name_at w p ls q \<Longrightarrow> p < length w"
  by (cases rule: name_at.cases) (auto simp: rd_def split: if_splits)

section \<open>Pointers\<close>

lemma pointer_masks:
  "bit (0xC000 :: u16) n \<longleftrightarrow> n = 14 \<or> n = 15" "bit (0x3FFF :: u16) n \<longleftrightarrow> n < 14"
  "bit (0xC0 :: u8) n \<longleftrightarrow> n = 6 \<or> n = 7" "bit (0x3F :: u8) n \<longleftrightarrow> n < 6"
proof -
  have eqs: "(0xC000 :: u16) = push_bit 14 (mask 2)" "(0x3FFF :: u16) = mask 14"
    "(0xC0 :: u8) = push_bit 6 (mask 2)" "(0x3F :: u8) = mask 6"
    by (simp_all add: mask_eq_exp_minus_1 push_bit_eq_mult)
  show "bit (0xC000 :: u16) n \<longleftrightarrow> n = 14 \<or> n = 15" "bit (0x3FFF :: u16) n \<longleftrightarrow> n < 14"
    "bit (0xC0 :: u8) n \<longleftrightarrow> n = 6 \<or> n = 7" "bit (0x3F :: u8) n \<longleftrightarrow> n < 6"
    unfolding eqs by (auto simp: bit_simps)
qed

lemma pointer_bytes:
  assumes "pos < 16384"
  shows "\<exists>b0 b1. htons_bytes (pointer_to pos) = [b0, b1] \<and> b0 AND 0xC0 = 0xC0 \<and> pointer_target b0 b1 = pos \<and> b0 \<noteq> 0"
proof -
  let ?b0 = "ucast (drop_bit 8 (pointer_to pos)) :: u8" and ?b1 = "ucast (pointer_to pos) :: u8"
  have top: "?b0 AND 0xC0 = 0xC0"
    by (rule bit_word_eqI, simp only: pointer_to_def bit_and_iff bit_or_iff bit_unsigned_iff
        bit_drop_bit_eq pointer_masks o_apply exp_eq_0_imp_not_bit) auto
  have "push_bit 8 (ucast (?b0 AND 0x3F)) OR ucast ?b1 = (of_nat pos AND 0x3FFF :: u16)"
    by (rule bit_word_eqI, simp only: pointer_to_def bit_and_iff bit_or_iff bit_unsigned_iff
        bit_drop_bit_eq bit_push_bit_iff pointer_masks o_apply) auto
  then have "pointer_target ?b0 ?b1 = unat (of_nat pos AND 0x3FFF :: u16)" by (simp add: pointer_target_def)
  also have "\<dots> = pos"
  proof -
    have "of_nat pos AND 0x3FFF = take_bit 14 (of_nat pos :: u16)"
      by (simp add: take_bit_eq_mask mask_eq_exp_minus_1)
    then have "unat (of_nat pos AND 0x3FFF :: u16) = take_bit 14 (unat (of_nat pos :: u16))"
      by (simp add: unsigned_take_bit_eq)
    also have "\<dots> = pos" using assms by (simp add: unat_of_nat take_bit_nat_eq_self)
    finally show ?thesis .
  qed
  finally have "pointer_target ?b0 ?b1 = pos" .
  moreover have "?b0 \<noteq> 0" using top by auto
  ultimately show ?thesis using top by (simp add: htons_bytes_def)
qed

section \<open>A name that is written is the name that is read\<close>

text \<open>The entries of the compression list that can be used in a packet of which \<open>w\<close> is written.\<close>

definition comp_entry_ok :: "bytes \<Rightarrow> bytes \<times> nat \<Rightarrow> bool" where
  "comp_entry_ok w c \<longleftrightarrow> fst c = [0] \<or>
     (\<exists>ls. list_all good_label ls \<and> fst c = wire_name ls \<and> snd c < 16384 \<and> (\<exists>q. name_at w (snd c) ls q))"

definition comp_ok :: "bytes \<Rightarrow> name_comp \<Rightarrow> bool" where
  "comp_ok w cs \<longleftrightarrow> list_all (comp_entry_ok w) cs"

lemma comp_entry_ok_extends: "comp_entry_ok w c \<Longrightarrow> extends w w' \<Longrightarrow> comp_entry_ok w' c"
  unfolding comp_entry_ok_def using name_at_extends by blast

lemma comp_ok_extends: "comp_ok w cs \<Longrightarrow> extends w w' \<Longrightarrow> comp_ok w' cs"
  unfolding comp_ok_def list_all_iff using comp_entry_ok_extends by blast

lemma comp_ok_append [simp]: "comp_ok w (cs @ cs') \<longleftrightarrow> comp_ok w cs \<and> comp_ok w cs'"
  by (simp add: comp_ok_def)

lemma comp_ok_first [simp]: "comp_ok w first_comp"
  by (simp add: comp_ok_def comp_entry_ok_def first_comp_def)

text \<open>The names of the name that is being written, which are too long to match what is left of it.\<close>

definition longer :: "bytes list \<Rightarrow> name_comp \<Rightarrow> bool" where
  "longer ls cs \<longleftrightarrow> (\<forall>c \<in> set cs. \<exists>ms. list_all good_label ms \<and> fst c = wire_name ms \<and> length ls < length ms)"

lemma find_comp_longer:
  assumes "list_all good_label ls" and "longer ls late"
  shows "find_comp (wire_name ls) (cs @ late) = find_comp (wire_name ls) cs"
proof -
  have "find (\<lambda>c. cmp_nlabel (wire_name ls) (fst c)) late = None"
    unfolding find_None_iff
  proof
    assume "\<exists>c. c \<in> set late \<and> cmp_nlabel (wire_name ls) (fst c)"
    then obtain c ms where "c \<in> set late" "cmp_nlabel (wire_name ls) (wire_name ms)"
      and ms: "list_all good_label ms" "length ls < length ms"
      using assms(2) unfolding longer_def by metis
    then have "ls = ms" using cmp_nlabel_wire wire_name_inj assms(1) by blast
    with ms show False by simp
  qed
  then show ?thesis by (induction cs) (auto simp: find_comp_def)
qed

lemma find_comp_name:
  assumes "find_comp (wire_name (l # ls)) cs = Some c" and "list_all good_label (l # ls)" and "comp_ok w cs"
  shows "snd c < 16384 \<and> (\<exists>q. name_at w (snd c) (l # ls) q)"
proof -
  have c: "c \<in> set cs" "cmp_nlabel (wire_name (l # ls)) (fst c)"
    using assms(1) unfolding find_comp_def find_Some_iff by auto
  have "fst c \<noteq> [0]"
    using c(2) assms(2) by (auto simp: cmp_nlabel_def cstr_Cons good_label_nonzero)
  then obtain ms where ms: "list_all good_label ms" "fst c = wire_name ms" "snd c < 16384" "\<exists>q. name_at w (snd c) ms q"
    using assms(3) c(1) unfolding comp_ok_def list_all_iff comp_entry_ok_def by blast
  with c(2) cmp_nlabel_wire [OF assms(2) ms(1)] wire_name_inj [OF assms(2) ms(1)] show ?thesis by simp
qed

text \<open>The packet with \<open>bs\<close> in it from \<open>p\<close> on.\<close>

definition put_at :: "bytes \<Rightarrow> nat \<Rightarrow> bytes \<Rightarrow> bytes" where
  "put_at pkt p bs = take p pkt @ bs @ drop (p + length bs) pkt"

lemma wr_block_put_at: "p + length bs \<le> length pkt \<Longrightarrow> wr_block pkt p bs = Some (put_at pkt p bs)"
  by (simp add: wr_block_def put_at_def)

lemma length_put_at [simp]: "p + length bs \<le> length pkt \<Longrightarrow> length (put_at pkt p bs) = length pkt"
  by (simp add: put_at_def)

lemma put_at_put_at:
  assumes "q = p + length bs" and "p + length bs + length cs \<le> length pkt"
  shows "put_at (put_at pkt p bs) q cs = put_at pkt p (bs @ cs)"
  using assms by (simp add: put_at_def ac_simps)

lemma take_put_at: "p + length bs \<le> length pkt \<Longrightarrow> take (p + length bs) (put_at pkt p bs) = take p pkt @ bs"
  by (simp add: put_at_def)

text \<open>
  What is written does not depend on the packet: bytes \<open>out\<close> and new entries, which can be read
  behind any beginning \<open>w\<close> of the packet in which the entries before can be read.
\<close>

lemma encode_name_emits:
  assumes "list_all good_label ls" and "longer ls late" and "p + length (wire_name ls) \<le> 16384"
  shows "\<exists>out new. 0 < length out \<and> length out \<le> length (wire_name ls) \<and>
     (\<forall>pkt len. p + length out \<le> length pkt \<longrightarrow>
        encode_name_loop pkt p len (wire_name ls) (cs @ late)
          = Some (put_at pkt p out, len + length out, cs @ late @ new)) \<and>
     (\<forall>w. length w = p \<and> comp_ok w cs \<longrightarrow> name_at (w @ out) p ls (p + length out) \<and> comp_ok (w @ out) new)"
  using assms
proof (induction ls arbitrary: p late)
  case Nil
  have "name_at (w @ [0]) p [] (p + 1)" if "length w = p" for w
    using that by (intro name_at.root) (auto simp: rd_def)
  moreover have "encode_name_loop pkt p len [0] (cs @ late) = Some (put_at pkt p [0], len + 1, cs @ late)"
    if "p + 1 \<le> length pkt" for pkt len
    using that by (subst encode_name_loop.simps) (simp add: wr_block_put_at)
  ultimately show ?case by (intro exI [of _ "[0]"] exI [of _ "[]"]) (simp add: comp_ok_def)
next
  case (Cons l ls)
  let ?name = "wire_name (l # ls)"
  have good: "good_label l" "list_all good_label ls" using Cons.prems(1) by simp_all
  then have nz: "0 \<notin> set l" and nonempty: "0 < length l" by (simp_all add: good_label_def)
  note len_l = good_label_length [OF good(1)] good_label_nonzero [OF good(1)]
  have find: "find_comp ?name (cs @ late) = find_comp ?name cs"
    using find_comp_longer [OF Cons.prems(1,2)] .
  show ?case
  proof (cases "find_comp ?name cs")
    case (Some c)
    let ?out = "htons_bytes (pointer_to (snd c))"
    have "2 \<le> length ?name" using nonempty by (cases l) auto
    moreover have "encode_name_loop pkt p len ?name (cs @ late) = Some (put_at pkt p ?out, len + 2, cs @ late)"
      if "p + 2 \<le> length pkt" for pkt len
      using that len_l find Some by (subst encode_name_loop.simps) (simp add: wr_block_put_at)
    moreover have "name_at (w @ ?out) p (l # ls) (p + 2)" if w: "length w = p" "comp_ok w cs" for w
    proof -
      from find_comp_name [OF Some Cons.prems(1) w(2)] obtain q where c: "snd c < 16384"
        "name_at w (snd c) (l # ls) q" by blast
      obtain b0 b1 where b: "?out = [b0, b1]" "b0 AND 0xC0 = 0xC0" "pointer_target b0 b1 = snd c"
        using pointer_bytes c(1) by blast
      show ?thesis unfolding b(1)
        by (rule name_at.pointer [of _ _ b0 b1])
          (use w(1) b c name_at_inside [OF c(2)] name_at_extends [OF c(2) extends_append] in
            \<open>simp_all add: rd_def nth_append\<close>)
    qed
    ultimately show ?thesis by (intro exI [of _ ?out] exI [of _ "[]"]) (simp add: comp_ok_def)
  next
    case None
    let ?seg = "wire_label l" and ?q = "p + length l + 1"
    have seg: "strncpy_from ?name 0 (Suc (length l)) = Some ?seg"
      using strncpy_from_mid [of ?seg 0 "[]" "wire_name ls"] nz len_l(2) by (simp add: wire_label_def)
    have late': "longer ls (late @ [(?name, p)])"
      unfolding longer_def
    proof
      fix c assume "c \<in> set (late @ [(?name, p)])"
      then consider "c \<in> set late" | "c = (?name, p)" by auto
      then show "\<exists>ms. list_all good_label ms \<and> fst c = wire_name ms \<and> length ls < length ms"
      proof cases
        case 1
        with Cons.prems(2) obtain ms where "list_all good_label ms" "fst c = wire_name ms"
          "length (l # ls) < length ms" unfolding longer_def by blast
        then show ?thesis by (intro exI [of _ ms]) simp
      next
        case 2
        then show ?thesis using Cons.prems(1) by (intro exI [of _ "l # ls"]) simp
      qed
    qed
    from Cons.IH [OF good(2) late', of ?q] Cons.prems(3)
    obtain out new where out: "0 < length out" "length out \<le> length (wire_name ls)"
      and run: "\<And>pkt len. ?q + length out \<le> length pkt \<Longrightarrow>
        encode_name_loop pkt ?q len (wire_name ls) (cs @ late @ [(?name, p)])
          = Some (put_at pkt ?q out, len + length out, cs @ late @ (?name, p) # new)"
      and read: "\<And>w. length w = ?q \<Longrightarrow> comp_ok w cs \<Longrightarrow>
        name_at (w @ out) ?q ls (?q + length out) \<and> comp_ok (w @ out) new" by auto
    have "encode_name_loop pkt p len ?name (cs @ late)
        = Some (put_at pkt p (?seg @ out), len + length (?seg @ out), cs @ late @ (?name, p) # new)"
      if "p + length (?seg @ out) \<le> length pkt" for pkt len
      using that seg len_l find None run [of "put_at pkt p ?seg" "len + length l + 1"]
        put_at_put_at [of ?q p ?seg out pkt]
      by (subst encode_name_loop.simps) (simp add: wr_block_put_at wire_label_def)
    moreover have "name_at (w @ ?seg @ out) p (l # ls) (p + length (?seg @ out)) \<and>
        comp_ok (w @ ?seg @ out) ((?name, p) # new)" if w: "length w = p" "comp_ok w cs" for w
    proof -
      have r: "name_at ((w @ ?seg) @ out) ?q ls (?q + length out)" "comp_ok ((w @ ?seg) @ out) new"
        using read [of "w @ ?seg"] w comp_ok_extends [OF w(2) extends_append]
        by (simp_all add: wire_label_def)
      have at: "name_at (w @ ?seg @ out) p (l # ls) (p + length (?seg @ out))"
        by (rule name_at.label [OF _ good(1)])
          (use r(1) w(1) in \<open>simp_all add: wire_label_def rd_def rd_block_def nth_append add.commute add.left_commute\<close>)
      then have "comp_entry_ok (w @ ?seg @ out) (?name, p)"
        unfolding comp_entry_ok_def fst_conv snd_conv using Cons.prems(1,3) by auto
      then show ?thesis using at r(2) by (simp add: comp_ok_def)
    qed
    ultimately show ?thesis using out
      by (intro exI [of _ "?seg @ out"] exI [of _ "(?name, p) # new"]) (simp add: wire_label_def)
  qed
qed

text \<open>
  In a packet of at most 16,384 bytes each name that is written, compressed or not, is read by the
  rules of DNS as its labels, in the end and whatever is written behind it; the names written before
  stay readable, and it takes no more room than it would take uncompressed.
\<close>
lemma compressed_name_decodes:
  assumes "list_all good_label ls" and "comp_ok (take off pkt) cs"
    and "off + length (wire_name ls) \<le> length pkt" and "off + length (wire_name ls) \<le> 16384"
  shows "\<exists>pkt' n cs'. mdns_encode_name pkt off (Some (wire_name ls)) cs = Some (pkt', n, cs') \<and>
     length pkt' = length pkt \<and> take off pkt' = take off pkt \<and> 0 < n \<and> n \<le> length (wire_name ls) \<and>
     comp_ok (take (off + n) pkt') cs' \<and>
     (\<forall>rest. name_at (take (off + n) pkt' @ rest) off ls (off + n)) \<and>
     (\<forall>p ms q. name_at (take off pkt) p ms q \<longrightarrow> name_at (take (off + n) pkt') p ms q)"
proof -
  have "longer ls []" by (simp add: longer_def)
  from encode_name_emits [OF assms(1) this assms(4), of cs]
  obtain out new where out: "0 < length out" "length out \<le> length (wire_name ls)"
    and run: "off + length out \<le> length pkt \<Longrightarrow> encode_name_loop pkt off 0 (wire_name ls) cs
      = Some (put_at pkt off out, length out, cs @ new)"
    and read: "length (take off pkt) = off \<Longrightarrow> comp_ok (take off pkt) cs \<Longrightarrow>
      name_at (take off pkt @ out) off ls (off + length out) \<and> comp_ok (take off pkt @ out) new" by auto
  have room: "off + length out \<le> length pkt" using out(2) assms(3) by simp
  have t: "take (off + length out) (put_at pkt off out) = take off pkt @ out"
    using take_put_at [OF room] .
  have r: "name_at (take off pkt @ out) off ls (off + length out)" "comp_ok (take off pkt @ out) new"
    using read assms(2,3) by simp_all
  have "mdns_encode_name pkt off (Some (wire_name ls)) cs = Some (put_at pkt off out, length out, cs @ new)"
    using run room by (simp add: mdns_encode_name_def)
  moreover have "comp_ok (take off pkt @ out) (cs @ new)"
    using r(2) comp_ok_extends [OF assms(2) extends_append] by simp
  moreover have "take off (put_at pkt off out) = take off pkt" using assms(3) by (simp add: put_at_def)
  ultimately show ?thesis
    using out t room name_at_extends [OF r(1) extends_append] name_at_extends [OF _ extends_append]
    by (intro exI [of _ "put_at pkt off out"] exI [of _ "length out"] exI [of _ "cs @ new"]) simp
qed

lemma compressed_name_decodes_witness:
  "\<exists>pkt n cs. mdns_encode_name (replicate 20 0) 12 (Some (wire_name [[97, 98], [99]])) first_comp = Some (pkt, n, cs) \<and>
     name_at (take (12 + n) pkt) 12 [[97, 98], [99]] (12 + n)"
proof -
  have "list_all good_label [[97, 98], [99]]" by (simp add: good_label_def)
  from compressed_name_decodes [OF this, of 12 "replicate 20 0" first_comp]
  obtain pkt n cs where "mdns_encode_name (replicate 20 0) 12 (Some (wire_name [[97, 98], [99]])) first_comp = Some (pkt, n, cs)"
    "\<forall>rest. name_at (take (12 + n) pkt @ rest) 12 [[97, 98], [99]] (12 + n)" by auto
  then show ?thesis by (metis append_Nil2)
qed

section \<open>A pointer that leads back to itself\<close>

lemma uncompress_stuck:
  assumes "uncompress_loop pkt pkt_len p str = Some r"
  shows "\<nexists>s. uncompress_step pkt pkt_len p = Piece s p"
  by (rule uncompress_loop.raw_induct
      [where P = "\<lambda>pkt pkt_len p str r. \<nexists>s. uncompress_step pkt pkt_len p = Piece s p", OF _ assms])
    (auto split: uncompress_turn.splits)

lemma label_not_pointer:
  assumes "good_label l"
  shows "(of_nat (length l) :: u8) AND 0xC0 \<noteq> 0xC0"
proof
  assume "(of_nat (length l) :: u8) AND 0xC0 = 0xC0"
  then have "bit ((of_nat (length l) :: u8) AND 0xC0) 7" by (simp add: pointer_masks)
  then have "bit (of_nat (length l) :: u8) 7" by (simp add: bit_and_iff)
  then have "bit (length l) 7" by (simp add: bit_simps)
  moreover have "length l div 2 ^ 7 = 0" using assms by (simp add: good_label_def)
  ultimately show False by (simp add: bit_iff_odd)
qed

lemma label_copied:
  assumes "rd pkt p = Some (of_nat (length l))" and "good_label l" and "rd_block pkt (p + 1) (length l) = Some l"
  shows "strncpy_from pkt p (Suc (length l)) = Some (wire_label l)"
proof -
  have block: "take (length l) (drop (p + 1) pkt) = l"
    using assms(3) by (auto simp: rd_block_def split: if_splits)
  have "drop p pkt = of_nat (length l) # drop (Suc p) pkt"
    using assms(1) by (metis Cons_nth_drop_Suc option.distinct(1) option.inject rd_def)
  then have "take (Suc (length l)) (drop p pkt) = wire_label l" using block by (simp add: wire_label_def)
  moreover have "0 \<notin> set (wire_label l)"
    using assms(2) good_label_nonzero [OF assms(2)] by (auto simp: wire_label_def good_label_def)
  ultimately show ?thesis by (simp add: strncpy_from_def cstr_all wire_label_def)
qed

lemma uncompress_step_label:
  assumes "rd pkt p = Some (of_nat (length l))" and "good_label l" and "rd_block pkt (p + 1) (length l) = Some l"
    and "p < pkt_len"
  shows "uncompress_step pkt pkt_len p = Piece (wire_label l) (p + length l + 1)"
  using assms(1,4) label_copied [OF assms(1-3)] good_label_length [OF assms(2)] good_label_nonzero [OF assms(2)]
    label_not_pointer [OF assms(2)]
  by (simp add: uncompress_step_def Let_def)

text \<open>
  The loop of \<open>uncompress_nlabel\<close> goes on behind the label a pointer leads to. When the pointer
  itself stands there, behind a label it points to, the loop never ends.
\<close>
lemma pointer_loop_never_ends:
  assumes "rd pkt off = Some (of_nat (length l))" and "good_label l" and "rd_block pkt (off + 1) (length l) = Some l"
    and "rd pkt (off + length l + 1) = Some b0" and "b0 AND 0xC0 = 0xC0"
    and "rd pkt (off + length l + 2) = Some b1" and "pointer_target b0 b1 = off"
    and "off + length l + 1 < pkt_len"
  shows "uncompress_nlabel pkt pkt_len off = None"
proof (rule ccontr)
  assume "uncompress_nlabel pkt pkt_len off \<noteq> None"
  then obtain r where "uncompress_loop pkt pkt_len off [] = Some r"
    using assms(8) by (auto simp: uncompress_nlabel_def)
  moreover have step: "uncompress_step pkt pkt_len off = Piece (wire_label l) (off + length l + 1)"
    by (rule uncompress_step_label) (use assms in simp_all)
  ultimately have loop: "uncompress_loop pkt pkt_len (off + length l + 1) (wire_label l) = Some r"
    by (subst (asm) uncompress_loop.simps) simp
  have "b0 \<noteq> 0" using assms(5) by auto
  then have "uncompress_step pkt pkt_len (off + length l + 1) = Piece (wire_label l) (off + length l + 1)"
    using assms label_copied [OF assms(1-3)] good_label_length [OF assms(2)]
    by (simp add: uncompress_step_def Let_def)
  with uncompress_stuck [OF loop] show False by blast
qed

lemma pointer_loop_never_ends_witness:
  "uncompress_nlabel (replicate 12 0 @ [1, 97, 0xC0, 12, 0, 12, 0, 1]) 20 12 = None"
proof (rule pointer_loop_never_ends [of _ _ "[97]" "0xC0" 12])
  let ?pkt = "replicate 12 0 @ [1, 97, 0xC0, 12, 0, 12, 0, 1 :: u8]"
  show "rd ?pkt 12 = Some (of_nat (length [97 :: u8]))" by (simp add: rd_def nth_append)
  show "rd ?pkt (12 + length [97 :: u8] + 1) = Some 0xC0" by (simp add: rd_def nth_append)
  show "rd ?pkt (12 + length [97 :: u8] + 2) = Some 12" by (simp add: rd_def nth_append)
  show "rd_block ?pkt (12 + 1) (length [97 :: u8]) = Some [97]" by (simp add: rd_block_def)
qed (simp_all add: good_label_def pointer_target_def)

end
