(* ===== verification/Mdns_Records.thy ===== *)
theory Mdns_Records
  imports Mdns_Compression
begin

text \<open>
  Resource records of the multicast DNS responder (\<open>tinysvcmdns.c\<close>, \<open>tinysvcmdns.h\<close>): the entries, the
  lists and the groups of entries with one name. An entry in memory is its index in a store, so that
  the lists that compare entries by their address do so here too. Entries are never freed while the
  responder runs. Names are blocks of bytes with their 0.
\<close>

section \<open>Entries\<close>

text \<open>
  The union of an entry. An IPv4 address is its four bytes in the order of the network; the bitmap of an
  \<open>NSEC\<close> has five bytes; a \<open>TXT\<close> is a list of texts with at least one element, each possibly a null pointer.
  The name of a \<open>PTR\<close> is its own or that of another entry.
\<close>

datatype rr_data =
  Data_none
| Data_A bytes
| Data_AAAA bytes
| Data_PTR "bytes option" "nat option"
| Data_TXT "bytes option list"
| Data_SRV u16 u16 u16 bytes
| Data_NSEC bytes

record rr_entry =
  rr_name :: bytes
  rr_type :: u16
  rr_ttl :: u32
  unicast_query :: bool
  cache_flush :: bool
  rr_class :: u16
  rr_data :: rr_data

definition RR_A :: u16 where "RR_A = 0x01"
definition RR_PTR :: u16 where "RR_PTR = 0x0C"
definition RR_TXT :: u16 where "RR_TXT = 0x10"
definition RR_AAAA :: u16 where "RR_AAAA = 0x1C"
definition RR_SRV :: u16 where "RR_SRV = 0x21"
definition RR_NSEC :: u16 where "RR_NSEC = 0x2F"
definition RR_ANY :: u16 where "RR_ANY = 0xFF"

lemmas rr_types = RR_A_def RR_PTR_def RR_TXT_def RR_AAAA_def RR_SRV_def RR_NSEC_def RR_ANY_def

definition DEFAULT_TTL :: u32 where "DEFAULT_TTL = 4500"
definition DEFAULT_TTL_FOR_RECORD_WITH_HOSTNAME :: u32 where "DEFAULT_TTL_FOR_RECORD_WITH_HOSTNAME = 120"

section \<open>Creating entries\<close>

text \<open>The zeroed union as the type of the entry reads it.\<close>

definition zero_data :: "u16 \<Rightarrow> rr_data" where
  "zero_data t =
     (if t = RR_A then Data_A [0, 0, 0, 0]
      else if t = RR_PTR then Data_PTR None None
      else if t = RR_TXT then Data_TXT [None]
      else if t = RR_NSEC then Data_NSEC [0, 0, 0, 0, 0]
      else Data_none)"

definition rr_create :: "bytes \<Rightarrow> u16 \<Rightarrow> rr_entry" where
  "rr_create name t = \<lparr>rr_name = name, rr_type = t, rr_ttl = DEFAULT_TTL, unicast_query = False,
     cache_flush = True, rr_class = 1, rr_data = zero_data t\<rparr>"

definition rr_create_a :: "bytes \<Rightarrow> bytes \<Rightarrow> rr_entry" where
  "rr_create_a name addr =
     (rr_create name RR_A)\<lparr>rr_data := Data_A addr, rr_ttl := DEFAULT_TTL_FOR_RECORD_WITH_HOSTNAME\<rparr>"

definition rr_create_aaaa :: "bytes \<Rightarrow> bytes \<Rightarrow> rr_entry" where
  "rr_create_aaaa name addr =
     (rr_create name RR_AAAA)\<lparr>rr_data := Data_AAAA addr, rr_ttl := DEFAULT_TTL_FOR_RECORD_WITH_HOSTNAME\<rparr>"

definition rr_create_srv :: "bytes \<Rightarrow> u16 \<Rightarrow> bytes \<Rightarrow> rr_entry" where
  "rr_create_srv name port target = (rr_create name RR_SRV)\<lparr>rr_data := Data_SRV 0 0 port target\<rparr>"

definition rr_create_ptr :: "bytes \<Rightarrow> nat \<Rightarrow> rr_entry" where
  "rr_create_ptr name d_rr = (rr_create name RR_PTR)\<lparr>cache_flush := False, rr_data := Data_PTR None (Some d_rr)\<rparr>"

text \<open>The first assertion of \<open>rr_set_nsec\<close> sets the type. \<open>None\<close>: the second one fails.\<close>

definition rr_set_nsec :: "rr_entry \<Rightarrow> u16 \<Rightarrow> rr_entry option" where
  "rr_set_nsec rr t =
     (case rr_data rr of
        Data_NSEC bitmap \<Rightarrow>
          if unat t div 8 < length bitmap
          then Some (rr\<lparr>rr_type := RR_NSEC,
                      rr_data := Data_NSEC (bitmap[unat t div 8 := push_bit (7 - unat t mod 8) 1])\<rparr>)
          else None
      | _ \<Rightarrow> None)"

definition rr_add_txt :: "rr_entry \<Rightarrow> bytes \<Rightarrow> rr_entry option" where
  "rr_add_txt rr txt =
     (case rr_data rr of
        Data_TXT (None # rest) \<Rightarrow> Some (rr\<lparr>rr_data := Data_TXT (create_label txt # rest)\<rparr>)
      | Data_TXT (Some t # rest) \<Rightarrow> Some (rr\<lparr>rr_data := Data_TXT (Some t # rest @ [create_label txt])\<rparr>)
      | _ \<Rightarrow> None)"

section \<open>Lists and groups\<close>

type_synonym rr_store = "rr_entry list"

text \<open>\<open>rr_list_append\<close> compares addresses; the number is how many entries were added.\<close>

definition rr_list_append :: "nat list \<Rightarrow> nat \<Rightarrow> nat list \<times> nat" where
  "rr_list_append l rr = (if rr \<in> set l then (l, 0) else (l @ [rr], 1))"

definition rr_list_remove :: "nat list \<Rightarrow> nat \<Rightarrow> nat list \<times> nat option" where
  "rr_list_remove l rr = (if rr \<in> set l then (remove1 rr l, Some rr) else (l, None))"

text \<open>A group: the name and the entries.\<close>

type_synonym rr_group = "bytes \<times> nat list"

definition rr_group_find :: "rr_group list \<Rightarrow> bytes \<Rightarrow> rr_group option" where
  "rr_group_find g name = find (\<lambda>x. cmp_nlabel (fst x) name) g"

fun add_to_group :: "rr_group list \<Rightarrow> bytes \<Rightarrow> nat \<Rightarrow> rr_group list" where
  "add_to_group [] name rr = []"
| "add_to_group (x # g) name rr =
     (if cmp_nlabel (fst x) name then (fst x, fst (rr_list_append (snd x) rr)) # g
      else x # add_to_group g name rr)"

definition rr_group_add :: "rr_store \<Rightarrow> rr_group list \<Rightarrow> nat \<Rightarrow> rr_group list" where
  "rr_group_add st g rr =
     (let name = rr_name (st ! rr)
      in case rr_group_find g name of
           Some _ \<Rightarrow> add_to_group g name rr
         | None \<Rightarrow> (dup_nlabel name, fst (rr_list_append [] rr)) # g)"

definition rr_entry_find :: "rr_store \<Rightarrow> nat list \<Rightarrow> bytes \<Rightarrow> u16 \<Rightarrow> nat option" where
  "rr_entry_find st l name t = find (\<lambda>r. rr_type (st ! r) = t \<and> cmp_nlabel (rr_name (st ! r)) name) l"

text \<open>\<open>MDNS_RR_GET_PTR_NAME\<close>; \<open>None\<close> where it would follow a null pointer.\<close>

definition ptr_name :: "rr_store \<Rightarrow> rr_entry \<Rightarrow> bytes option" where
  "ptr_name st rr =
     (case rr_data rr of
        Data_PTR (Some n) _ \<Rightarrow> Some n
      | Data_PTR None (Some d) \<Rightarrow> if d < length st then Some (rr_name (st ! d)) else None
      | _ \<Rightarrow> None)"

text \<open>\<open>rr_entry_match\<close>: the list is that of a received packet, whose entries hold their own names.\<close>

definition rr_entry_match :: "rr_store \<Rightarrow> rr_entry list \<Rightarrow> rr_entry \<Rightarrow> rr_entry option" where
  "rr_entry_match st l entry =
     find (\<lambda>e. rr_type e = rr_type entry \<and> cmp_nlabel (rr_name e) (rr_name entry) \<and>
             (rr_type entry \<noteq> RR_PTR \<or>
              (case (ptr_name st entry, ptr_name [] e) of
                 (Some a, Some b) \<Rightarrow> cmp_nlabel a b | _ \<Rightarrow> False))) l"

section \<open>Packets\<close>

text \<open>The entries are those of the store (\<open>nat\<close>) in a reply and own entries in a received packet.\<close>

record 'a mdns_pkt =
  pkt_id :: u16
  pkt_flags :: u16
  num_qn :: u16
  num_ans_rr :: u16
  num_auth_rr :: u16
  num_add_rr :: u16
  rr_qn :: "'a list"
  rr_ans :: "'a list"
  rr_auth :: "'a list"
  rr_add :: "'a list"

definition MDNS_FLAG_RESP :: u16 where "MDNS_FLAG_RESP = push_bit 15 1"
definition MDNS_FLAG_AA :: u16 where "MDNS_FLAG_AA = push_bit 10 1"

definition mdns_init_reply :: "u16 \<Rightarrow> nat mdns_pkt" where
  "mdns_init_reply pid = \<lparr>pkt_id = pid, pkt_flags = MDNS_FLAG_RESP OR MDNS_FLAG_AA, num_qn = 0,
     num_ans_rr = 0, num_auth_rr = 0, num_add_rr = 0, rr_qn = [], rr_ans = [], rr_auth = [], rr_add = []\<rparr>"

section \<open>Writing records\<close>

text \<open>A write at a moving position: the packet and the position behind.\<close>

definition put :: "bytes \<Rightarrow> bytes \<times> nat \<Rightarrow> (bytes \<times> nat) option" where
  "put bs s = (case s of (pkt, p) \<Rightarrow> map_option (\<lambda>pkt. (pkt, p + length bs)) (wr_block pkt p bs))"

fun put_texts :: "bytes option list \<Rightarrow> bytes \<times> nat \<Rightarrow> (bytes \<times> nat) option" where
  "put_texts [] s = Some s"
| "put_texts (None # ts) s = None"
| "put_texts (Some t # ts) s =
     (case t of
        [] \<Rightarrow> None
      | b # _ \<Rightarrow> do { c \<leftarrow> strncpy_from t 0 (unat b + 1); s \<leftarrow> put c s; put_texts ts s })"

type_synonym packet_cursor = "bytes \<times> nat \<times> name_comp"

definition put_name :: "bytes \<Rightarrow> packet_cursor \<Rightarrow> packet_cursor option" where
  "put_name name s =
     (case s of (pkt, p, cs) \<Rightarrow>
        map_option (\<lambda>(pkt, n, cs). (pkt, p + n, cs)) (mdns_encode_name pkt p (Some name) cs))"

definition put_bytes :: "bytes \<Rightarrow> packet_cursor \<Rightarrow> packet_cursor option" where
  "put_bytes bs s = (case s of (pkt, p, cs) \<Rightarrow> map_option (\<lambda>(pkt, p). (pkt, p, cs)) (put bs (pkt, p)))"

text \<open>The data of a record by its type. Other types write nothing.\<close>

definition put_data :: "rr_store \<Rightarrow> rr_entry \<Rightarrow> packet_cursor \<Rightarrow> packet_cursor option" where
  "put_data st rr s =
     (if rr_type rr = RR_A then (case rr_data rr of Data_A addr \<Rightarrow> put_bytes addr s | _ \<Rightarrow> None)
      else if rr_type rr = RR_AAAA then (case rr_data rr of Data_AAAA addr \<Rightarrow> put_bytes addr s | _ \<Rightarrow> None)
      else if rr_type rr = RR_PTR then do { name \<leftarrow> ptr_name st rr; put_name name s }
      else if rr_type rr = RR_TXT then
        (case (rr_data rr, s) of
           (Data_TXT ts, (pkt, p, cs)) \<Rightarrow> map_option (\<lambda>(pkt, p). (pkt, p, cs)) (put_texts ts (pkt, p))
         | _ \<Rightarrow> None)
      else if rr_type rr = RR_SRV then
        (case rr_data rr of
           Data_SRV priority weight port target \<Rightarrow>
             do { s \<leftarrow> put_bytes (htons_bytes priority) s; s \<leftarrow> put_bytes (htons_bytes weight) s;
                  s \<leftarrow> put_bytes (htons_bytes port) s; put_name target s }
         | _ \<Rightarrow> None)
      else if rr_type rr = RR_NSEC then
        (case rr_data rr of
           Data_NSEC bitmap \<Rightarrow>
             do { s \<leftarrow> put_name (rr_name rr) s; s \<leftarrow> put_bytes [0] s;
                  s \<leftarrow> put_bytes [of_nat (length bitmap)] s; put_bytes bitmap s }
         | _ \<Rightarrow> None)
      else Some s)"

definition class_bits :: "rr_entry \<Rightarrow> u16" where
  "class_bits rr = (rr_class rr AND NOT 0x8000) OR push_bit 15 (of_bool (cache_flush rr))"

text \<open>\<open>mdns_encode_rr\<close>; the length of the data is filled in at the end.\<close>

definition mdns_encode_rr :: "rr_store \<Rightarrow> rr_entry \<Rightarrow> packet_cursor \<Rightarrow> packet_cursor option" where
  "mdns_encode_rr st rr s =
     do { s \<leftarrow> put_name (rr_name rr) s;
          s \<leftarrow> put_bytes (htons_bytes (rr_type rr)) s;
          s \<leftarrow> put_bytes (htons_bytes (class_bits rr)) s;
          (pkt, p, cs) \<leftarrow> put_bytes (htonl_bytes (rr_ttl rr)) s;
          let p_data = p + 2;
          (pkt, p, cs) \<leftarrow> put_data st rr (pkt, p_data, cs);
          pkt \<leftarrow> wr_block pkt (p_data - 2) (htons_bytes (of_nat (p - p_data)));
          Some (pkt, p, cs) }"

text \<open>
  The records of the three sections in a row. The room is looked at after each record is written; the
  inner \<open>None\<close> is the answer -1.
\<close>

fun encode_records :: "rr_store \<Rightarrow> nat \<Rightarrow> nat list \<Rightarrow> packet_cursor \<Rightarrow> (bytes \<times> nat option) option" where
  "encode_records st pkt_len [] (pkt, off, cs) = Some (pkt, Some off)"
| "encode_records st pkt_len (r # rs) (pkt, off, cs) =
     (if r < length st
      then do { (pkt, off, cs) \<leftarrow> mdns_encode_rr st (st ! r) (pkt, off, cs);
                if off \<ge> pkt_len then Some (pkt, None) else encode_records st pkt_len rs (pkt, off, cs) }
      else None)"

definition header_bytes :: "'a mdns_pkt \<Rightarrow> bytes" where
  "header_bytes a = htons_bytes (pkt_id a) @ htons_bytes (pkt_flags a) @ htons_bytes (num_qn a) @
     htons_bytes (num_ans_rr a) @ htons_bytes (num_auth_rr a) @ htons_bytes (num_add_rr a)"

text \<open>\<open>mdns_encode_pkt\<close>; the assertion that a reply asks no questions stops the program.\<close>

definition mdns_encode_pkt :: "rr_store \<Rightarrow> nat mdns_pkt \<Rightarrow> bytes \<Rightarrow> nat \<Rightarrow> (bytes \<times> nat option) option" where
  "mdns_encode_pkt st answer pkt pkt_len =
     (if num_qn answer \<noteq> 0 \<or> pkt_len < 12 then None
      else do { pkt \<leftarrow> wr_block pkt 0 (header_bytes answer);
                encode_records st pkt_len (rr_ans answer @ rr_auth answer @ rr_add answer) (pkt, 12, first_comp) })"

end
