(* ===== verification/Mdns_Packets.thy ===== *)
theory Mdns_Packets
  imports Mdns_Records
begin

text \<open>
  The replies of the multicast DNS responder as a reader by the rules of DNS sees them: what is at a
  position of the packet is defined without the code, and what \<open>mdns_encode_pkt\<close> writes is read as
  the records of the reply.
\<close>

section \<open>Records by the rules of DNS\<close>

datatype dns_data =
  Is_A bytes
| Is_AAAA bytes
| Is_PTR "bytes list"
| Is_TXT "bytes list"
| Is_SRV u16 u16 u16 "bytes list"
| Is_NSEC "bytes list" bytes

record dns_record =
  d_name :: "bytes list"
  d_type :: u16
  d_class :: u16
  d_ttl :: u32
  d_data :: dns_data

definition texts_bytes :: "bytes list \<Rightarrow> bytes" where
  "texts_bytes ts = concat (map wire_label ts)"

fun data_at :: "bytes \<Rightarrow> nat \<Rightarrow> dns_data \<Rightarrow> nat \<Rightarrow> bool" where
  "data_at w p (Is_A addr) q = (rd_block w p 4 = Some addr \<and> q = p + 4)"
| "data_at w p (Is_AAAA addr) q = (rd_block w p 16 = Some addr \<and> q = p + 16)"
| "data_at w p (Is_PTR ls) q = name_at w p ls q"
| "data_at w p (Is_TXT ts) q =
     (rd_block w p (length (texts_bytes ts)) = Some (texts_bytes ts) \<and> q = p + length (texts_bytes ts))"
| "data_at w p (Is_SRV priority weight port target) q =
     (nctohs w p = Some priority \<and> nctohs w (p + 2) = Some weight \<and> nctohs w (p + 4) = Some port \<and>
      name_at w (p + 6) target q)"
| "data_at w p (Is_NSEC ls bitmap) q =
     (\<exists>m. name_at w p ls m \<and> rd_block w m (length bitmap + 2) = Some (0 # of_nat (length bitmap) # bitmap) \<and>
          q = m + length bitmap + 2)"

definition record_at :: "bytes \<Rightarrow> nat \<Rightarrow> dns_record \<Rightarrow> nat \<Rightarrow> bool" where
  "record_at w p r q \<longleftrightarrow>
     (\<exists>m. name_at w p (d_name r) m \<and> nctohs w m = Some (d_type r) \<and> nctohs w (m + 2) = Some (d_class r) \<and>
        nctohl w (m + 4) = Some (d_ttl r) \<and> m + 10 \<le> q \<and> q < m + 10 + 65536 \<and>
        nctohs w (m + 8) = Some (of_nat (q - (m + 10))) \<and> data_at w (m + 10) (d_data r) q)"

fun records_at :: "bytes \<Rightarrow> nat \<Rightarrow> dns_record list \<Rightarrow> nat \<Rightarrow> bool" where
  "records_at w p [] q \<longleftrightarrow> p = q"
| "records_at w p (r # rs) q \<longleftrightarrow> (\<exists>m. record_at w p r m \<and> records_at w m rs q)"

section \<open>What an entry in memory means\<close>

definition text_ok :: "bytes \<Rightarrow> bool" where
  "text_ok t \<longleftrightarrow> length t \<le> 63 \<and> 0 \<notin> set t"

fun data_means :: "rr_store \<Rightarrow> rr_entry \<Rightarrow> dns_data \<Rightarrow> bool" where
  "data_means st rr (Is_A addr) \<longleftrightarrow> rr_type rr = RR_A \<and> rr_data rr = Data_A addr \<and> length addr = 4"
| "data_means st rr (Is_AAAA addr) \<longleftrightarrow> rr_type rr = RR_AAAA \<and> rr_data rr = Data_AAAA addr \<and> length addr = 16"
| "data_means st rr (Is_PTR ls) \<longleftrightarrow>
     rr_type rr = RR_PTR \<and> ptr_name st rr = Some (wire_name ls) \<and> list_all good_label ls"
| "data_means st rr (Is_TXT ts) \<longleftrightarrow>
     rr_type rr = RR_TXT \<and> rr_data rr = Data_TXT (map (\<lambda>t. Some (wire_label t @ [0])) ts) \<and> list_all text_ok ts"
| "data_means st rr (Is_SRV a b c ls) \<longleftrightarrow>
     rr_type rr = RR_SRV \<and> rr_data rr = Data_SRV a b c (wire_name ls) \<and> list_all good_label ls"
| "data_means st rr (Is_NSEC ls bitmap) \<longleftrightarrow>
     rr_type rr = RR_NSEC \<and> rr_data rr = Data_NSEC bitmap \<and> length bitmap = 5 \<and>
     rr_name rr = wire_name ls \<and> list_all good_label ls"

definition means :: "rr_store \<Rightarrow> rr_entry \<Rightarrow> dns_record \<Rightarrow> bool" where
  "means st rr r \<longleftrightarrow> rr_name rr = wire_name (d_name r) \<and> list_all good_label (d_name r) \<and>
     d_type r = rr_type rr \<and> d_class r = class_bits rr \<and> d_ttl r = rr_ttl rr \<and> data_means st rr (d_data r)"

text \<open>The room a record takes at most.\<close>

fun data_room :: "dns_data \<Rightarrow> nat" where
  "data_room (Is_A _) = 4"
| "data_room (Is_AAAA _) = 16"
| "data_room (Is_PTR ls) = length (wire_name ls)"
| "data_room (Is_TXT ts) = length (texts_bytes ts)"
| "data_room (Is_SRV _ _ _ ls) = 6 + length (wire_name ls)"
| "data_room (Is_NSEC ls bitmap) = length (wire_name ls) + length bitmap + 2"

definition record_room :: "dns_record \<Rightarrow> nat" where
  "record_room r = length (wire_name (d_name r)) + 10 + data_room (d_data r)"

section \<open>What a growing packet keeps\<close>

lemma nctohs_extends: "extends w w' \<Longrightarrow> nctohs w i = Some v \<Longrightarrow> nctohs w' i = Some v"
  by (cases "rd_block w i 2") (simp_all add: nctohs_def extends_rd_block)

lemma nctohl_extends: "extends w w' \<Longrightarrow> nctohl w i = Some v \<Longrightarrow> nctohl w' i = Some v"
  by (cases "rd_block w i 4") (simp_all add: nctohl_def extends_rd_block)

lemma data_at_extends: "data_at w p d q \<Longrightarrow> extends w w' \<Longrightarrow> data_at w' p d q"
  by (cases d) (auto intro: name_at_extends extends_rd_block nctohs_extends)

lemma record_at_extends: "record_at w p r q \<Longrightarrow> extends w w' \<Longrightarrow> record_at w' p r q"
  unfolding record_at_def using name_at_extends nctohs_extends nctohl_extends data_at_extends by meson

section \<open>Steps that put bytes at the cursor\<close>

text \<open>From position \<open>p\<close> and entries \<open>cs\<close> the step puts \<open>out\<close> into any packet with room for it.\<close>

definition emits ::
    "(packet_cursor \<Rightarrow> packet_cursor option) \<Rightarrow> nat \<Rightarrow> name_comp \<Rightarrow> bytes \<Rightarrow> name_comp \<Rightarrow> bool" where
  "emits f p cs out cs' \<longleftrightarrow>
     (\<forall>pkt. p + length out \<le> length pkt \<longrightarrow> f (pkt, p, cs) = Some (put_at pkt p out, p + length out, cs'))"

lemma emits_bytes: "emits (put_bytes bs) p cs bs cs"
  by (simp add: emits_def put_bytes_def put_def wr_block_put_at)

lemma emits_bind:
  assumes "emits f p cs a cs1" and "emits g (p + length a) cs1 b cs2"
  shows "emits (\<lambda>s. f s \<bind> g) p cs (a @ b) cs2"
  unfolding emits_def
proof (intro allI impI)
  fix pkt :: bytes assume fits: "p + length (a @ b) \<le> length pkt"
  then have "f (pkt, p, cs) = Some (put_at pkt p a, p + length a, cs1)"
    using assms(1) by (simp add: emits_def)
  moreover have "g (put_at pkt p a, p + length a, cs1) = Some (put_at (put_at pkt p a) (p + length a) b, p + length a + length b, cs2)"
    using assms(2) fits by (simp add: emits_def)
  moreover have "put_at (put_at pkt p a) (p + length a) b = put_at pkt p (a @ b)"
    by (rule put_at_put_at) (use fits in simp_all)
  ultimately show "(f (pkt, p, cs) \<bind> g) = Some (put_at pkt p (a @ b), p + length (a @ b), cs2)"
    by (simp add: add.assoc)
qed

text \<open>What is put can be read as \<open>R\<close> says, behind any beginning in which the entries can be read.\<close>

definition readable :: "nat \<Rightarrow> name_comp \<Rightarrow> bytes \<Rightarrow> name_comp \<Rightarrow> (bytes \<Rightarrow> bool) \<Rightarrow> bool" where
  "readable p cs out cs' R \<longleftrightarrow>
     (\<forall>w. length w = p \<and> comp_ok w cs \<longrightarrow> R (w @ out) \<and> comp_ok (w @ out) cs')"

lemma emits_name:
  assumes "list_all good_label ls" and "p + length (wire_name ls) \<le> 16384"
  obtains out cs' where "0 < length out" "length out \<le> length (wire_name ls)"
    "emits (put_name (wire_name ls)) p cs out cs'" "readable p cs out cs' (\<lambda>w. name_at w p ls (p + length out))"
proof -
  have "longer ls []" by (simp add: longer_def)
  from encode_name_emits [OF assms(1) this assms(2), of cs]
  obtain out new where out: "0 < length out" "length out \<le> length (wire_name ls)"
    and run: "\<And>pkt len. p + length out \<le> length pkt \<Longrightarrow> encode_name_loop pkt p len (wire_name ls) cs
      = Some (put_at pkt p out, len + length out, cs @ new)"
    and read: "\<And>w. length w = p \<Longrightarrow> comp_ok w cs \<Longrightarrow>
      name_at (w @ out) p ls (p + length out) \<and> comp_ok (w @ out) new" by auto
  have "emits (put_name (wire_name ls)) p cs out (cs @ new)"
    using run by (simp add: emits_def put_name_def mdns_encode_name_def)
  moreover have "readable p cs out (cs @ new) (\<lambda>w. name_at w p ls (p + length out))"
    using read comp_ok_extends [OF _ extends_append] by (auto simp: readable_def)
  ultimately show thesis using that out by blast
qed

lemma readable_block:
  assumes "length bs = n"
  shows "readable p cs bs cs (\<lambda>w. rd_block w p n = Some bs)"
  using assms comp_ok_extends [OF _ extends_append] by (auto simp: readable_def rd_block_def)

section \<open>The data of a record\<close>

lemma text_first: "text_ok t \<Longrightarrow> unat (of_nat (length t) :: u8) = length t"
  by (simp add: text_ok_def unat_of_nat take_bit_nat_eq_self)

lemma text_copied:
  assumes "text_ok t"
  shows "strncpy_from (wire_label t @ [0]) 0 (Suc (length t)) = Some (wire_label t)"
proof (cases "t = []")
  case False
  then have "good_label t" using assms by (simp add: text_ok_def good_label_def)
  then have "0 \<notin> set (wire_label t)" using good_label_nonzero by (auto simp: wire_label_def good_label_def)
  from strncpy_from_mid [OF this, of 0 "[]" "[0]"] show ?thesis by (simp add: wire_label_def)
qed (simp add: wire_label_def strncpy_from_def cstr_def)

lemma put_texts_put_at:
  assumes "list_all text_ok ts" and "p + length (texts_bytes ts) \<le> length pkt"
  shows "put_texts (map (\<lambda>t. Some (wire_label t @ [0])) ts) (pkt, p)
     = Some (put_at pkt p (texts_bytes ts), p + length (texts_bytes ts))"
  using assms
proof (induction ts arbitrary: p pkt)
  case (Cons t ts)
  have t: "text_ok t" and room: "p + length (wire_label t) \<le> length pkt"
    using Cons.prems by (simp_all add: texts_bytes_def)
  have fst: "wire_label t @ [0] = of_nat (length t) # t @ [0]" by (simp add: wire_label_def)
  have "strncpy_from (wire_label t @ [0]) 0 (unat (of_nat (length t) :: u8) + 1) = Some (wire_label t)"
    using text_copied [OF t] text_first [OF t] by simp
  then have "put_texts (map (\<lambda>t. Some (wire_label t @ [0])) (t # ts)) (pkt, p)
      = put_texts (map (\<lambda>t. Some (wire_label t @ [0])) ts) (put_at pkt p (wire_label t), p + length (wire_label t))"
    using wr_block_put_at [OF room] unfolding list.map fst by (simp add: put_def)
  also have "\<dots> = Some (put_at (put_at pkt p (wire_label t)) (p + length (wire_label t)) (texts_bytes ts),
      p + length (wire_label t) + length (texts_bytes ts))"
    by (rule Cons.IH) (use Cons.prems room in \<open>simp_all add: texts_bytes_def\<close>)
  also have "put_at (put_at pkt p (wire_label t)) (p + length (wire_label t)) (texts_bytes ts)
      = put_at pkt p (wire_label t @ texts_bytes ts)"
    by (rule put_at_put_at) (use Cons.prems in \<open>simp_all add: texts_bytes_def\<close>)
  finally show ?case by (simp add: texts_bytes_def)
qed (simp add: texts_bytes_def put_at_def)

lemma readable_append:
  assumes "readable p cs a cs1 R" and "readable (p + length a) cs1 b cs2 S"
    and "\<And>w w'. R w \<Longrightarrow> extends w w' \<Longrightarrow> R w'"
  shows "readable p cs (a @ b) cs2 (\<lambda>w. R w \<and> S w)"
  unfolding readable_def
proof (intro allI impI)
  fix w assume w: "length w = p \<and> comp_ok w cs"
  then have a: "R (w @ a)" "comp_ok (w @ a) cs1" using assms(1) by (simp_all add: readable_def)
  then have "S ((w @ a) @ b)" "comp_ok ((w @ a) @ b) cs2"
    using assms(2) w unfolding readable_def by (metis length_append)+
  moreover have "R ((w @ a) @ b)" using assms(3) [OF a(1) extends_append] .
  ultimately show "(R (w @ a @ b) \<and> S (w @ a @ b)) \<and> comp_ok (w @ a @ b) cs2" by simp
qed

lemma readable_mono: "readable p cs out cs' R \<Longrightarrow> (\<And>w. R w \<Longrightarrow> S w) \<Longrightarrow> readable p cs out cs' S"
  by (auto simp: readable_def)

lemma readable_u16:
  assumes "i = p"
  shows "readable p cs (htons_bytes v) cs (\<lambda>w. nctohs w i = Some v)"
  using nctohs_at [of p _ v "[]"] comp_ok_extends [OF _ extends_append] assms by (auto simp: readable_def)

lemma readable_u32:
  assumes "i = p"
  shows "readable p cs (htonl_bytes v) cs (\<lambda>w. nctohl w i = Some v)"
  using nctohl_at [of p _ v "[]"] comp_ok_extends [OF _ extends_append] assms by (auto simp: readable_def)

text \<open>A step, what it puts, and what can then be read.\<close>

definition puts ::
    "(packet_cursor \<Rightarrow> packet_cursor option) \<Rightarrow> nat \<Rightarrow> name_comp \<Rightarrow> bytes \<Rightarrow> name_comp \<Rightarrow> (bytes \<Rightarrow> bool) \<Rightarrow> bool" where
  "puts f p cs out cs' R \<longleftrightarrow> emits f p cs out cs' \<and> readable p cs out cs' R"

lemma puts_bind:
  assumes "puts f p cs a cs1 R" and "puts g (p + length a) cs1 b cs2 S"
    and "\<And>w w'. R w \<Longrightarrow> extends w w' \<Longrightarrow> R w'"
  shows "puts (\<lambda>s. f s \<bind> g) p cs (a @ b) cs2 (\<lambda>w. R w \<and> S w)"
  using assms emits_bind readable_append unfolding puts_def by blast

lemma puts_u16_then:
  assumes "puts g (p + 2) cs b cs2 S"
  shows "puts (\<lambda>s. put_bytes (htons_bytes v) s \<bind> g) p cs (htons_bytes v @ b) cs2 (\<lambda>w. nctohs w p = Some v \<and> S w)"
proof (rule puts_bind)
  show "puts (put_bytes (htons_bytes v)) p cs (htons_bytes v) cs (\<lambda>w. nctohs w p = Some v)"
    by (simp add: puts_def emits_bytes readable_u16)
qed (use assms nctohs_extends in auto)

lemma puts_u32_then:
  assumes "puts g (p + 4) cs b cs2 S"
  shows "puts (\<lambda>s. put_bytes (htonl_bytes v) s \<bind> g) p cs (htonl_bytes v @ b) cs2 (\<lambda>w. nctohl w p = Some v \<and> S w)"
proof (rule puts_bind)
  show "puts (put_bytes (htonl_bytes v)) p cs (htonl_bytes v) cs (\<lambda>w. nctohl w p = Some v)"
    by (simp add: puts_def emits_bytes readable_u32)
qed (use assms nctohl_extends in auto)

lemma emits_bytes_then:
  "emits g (p + length bs) cs b cs2 \<Longrightarrow> emits (\<lambda>s. put_bytes bs s \<bind> g) p cs (bs @ b) cs2"
  by (rule emits_bind [OF emits_bytes])

lemma puts_block: "length bs = n \<Longrightarrow> puts (put_bytes bs) p cs bs cs (\<lambda>w. rd_block w p n = Some bs)"
  by (simp add: puts_def emits_bytes readable_block)

lemma puts_name:
  assumes "list_all good_label ls" and "p + length (wire_name ls) \<le> 16384"
  obtains out cs' where "0 < length out" "length out \<le> length (wire_name ls)"
    "puts (put_name (wire_name ls)) p cs out cs' (\<lambda>w. name_at w p ls (p + length out))"
  using emits_name [OF assms] unfolding puts_def by blast

lemma puts_mono: "puts f p cs out cs' R \<Longrightarrow> (\<And>w. R w \<Longrightarrow> S w) \<Longrightarrow> puts f p cs out cs' S"
  unfolding puts_def using readable_mono by blast

definition data_puts :: "rr_store \<Rightarrow> rr_entry \<Rightarrow> dns_data \<Rightarrow> nat \<Rightarrow> name_comp \<Rightarrow> bool" where
  "data_puts st rr d p cs \<longleftrightarrow>
     (\<exists>out cs'. length out \<le> data_room d \<and> puts (put_data st rr) p cs out cs' (\<lambda>w. data_at w p d (p + length out)))"

lemma data_puts_texts:
  assumes "data_means st rr (Is_TXT ts)"
  shows "data_puts st rr (Is_TXT ts) p cs"
proof -
  have put: "put_data st rr (pkt, p, cs) = map_option (\<lambda>(pkt, p). (pkt, p, cs))
      (put_texts (map (\<lambda>t. Some (wire_label t @ [0])) ts) (pkt, p))" for pkt
    using assms by (simp add: put_data_def rr_types)
  have "emits (put_data st rr) p cs (texts_bytes ts) cs"
    using assms by (simp add: emits_def put put_texts_put_at)
  moreover have "readable p cs (texts_bytes ts) cs (\<lambda>w. rd_block w p (length (texts_bytes ts)) = Some (texts_bytes ts))"
    by (rule readable_block) simp
  ultimately show ?thesis
    unfolding data_puts_def puts_def by (intro exI [of _ "texts_bytes ts"] exI [of _ cs]) simp
qed

lemma data_puts_srv:
  assumes "data_means st rr (Is_SRV a b c ls)" and "p + data_room (Is_SRV a b c ls) \<le> 16384"
  shows "data_puts st rr (Is_SRV a b c ls) p cs"
proof -
  have put: "put_data st rr = (\<lambda>s. put_bytes (htons_bytes a) s \<bind> (\<lambda>s. put_bytes (htons_bytes b) s \<bind>
      (\<lambda>s. put_bytes (htons_bytes c) s \<bind> put_name (wire_name ls))))"
    using assms(1) by (intro ext) (simp add: put_data_def rr_types)
  obtain out cs' where out: "length out \<le> length (wire_name ls)"
    "puts (put_name (wire_name ls)) (p + 6) cs out cs' (\<lambda>w. name_at w (p + 6) ls (p + 6 + length out))"
    by (rule puts_name [of ls "p + 6" cs]) (use assms in auto)
  have at: "p + 2 + 2 = p + 4" "p + 4 + 2 = p + 6" by simp_all
  have "puts (put_data st rr) p cs (htons_bytes a @ htons_bytes b @ htons_bytes c @ out) cs'
     (\<lambda>w. nctohs w p = Some a \<and> nctohs w (p + 2) = Some b \<and> nctohs w (p + 4) = Some c \<and>
        name_at w (p + 6) ls (p + 6 + length out))"
    unfolding put
  proof (rule puts_u16_then)
    have "puts (\<lambda>s. put_bytes (htons_bytes c) s \<bind> put_name (wire_name ls)) (p + 4) cs (htons_bytes c @ out) cs'
        (\<lambda>w. nctohs w (p + 4) = Some c \<and> name_at w (p + 6) ls (p + 6 + length out))"
      by (rule puts_u16_then) (unfold at, rule out(2))
    then show "puts (\<lambda>s. put_bytes (htons_bytes b) s \<bind> (\<lambda>s. put_bytes (htons_bytes c) s \<bind> put_name (wire_name ls)))
        (p + 2) cs (htons_bytes b @ htons_bytes c @ out) cs'
        (\<lambda>w. nctohs w (p + 2) = Some b \<and> nctohs w (p + 4) = Some c \<and> name_at w (p + 6) ls (p + 6 + length out))"
      by (intro puts_u16_then) (unfold at)
  qed
  moreover have "p + length (htons_bytes a @ htons_bytes b @ htons_bytes c @ out) = p + 6 + length out" by simp
  ultimately show ?thesis using out(1) unfolding data_puts_def
    by (intro exI [of _ "htons_bytes a @ htons_bytes b @ htons_bytes c @ out"] exI [of _ cs'])
      (simp del: length_append add: add.assoc)
qed

lemma data_puts_nsec:
  assumes "data_means st rr (Is_NSEC ls bitmap)" and "p + data_room (Is_NSEC ls bitmap) \<le> 16384"
  shows "data_puts st rr (Is_NSEC ls bitmap) p cs"
proof -
  have put: "put_data st rr = (\<lambda>s. put_name (wire_name ls) s \<bind> (\<lambda>s. put_bytes [0] s \<bind>
      (\<lambda>s. put_bytes [of_nat (length bitmap)] s \<bind> put_bytes bitmap)))"
    using assms(1) by (intro ext) (simp add: put_data_def rr_types)
  obtain out cs' where out: "length out \<le> length (wire_name ls)"
    "puts (put_name (wire_name ls)) p cs out cs' (\<lambda>w. name_at w p ls (p + length out))"
    by (rule puts_name [of ls p cs]) (use assms in auto)
  let ?tail = "0 # of_nat (length bitmap) # bitmap" and ?q = "p + length out"
  have "emits (\<lambda>s. put_bytes [0] s \<bind> (\<lambda>s. put_bytes [of_nat (length bitmap)] s \<bind> put_bytes bitmap)) ?q cs'
      ([0] @ [of_nat (length bitmap)] @ bitmap) cs'"
    by (intro emits_bytes_then emits_bytes)
  then have "puts (\<lambda>s. put_bytes [0] s \<bind> (\<lambda>s. put_bytes [of_nat (length bitmap)] s \<bind> put_bytes bitmap)) ?q cs'
      ?tail cs' (\<lambda>w. rd_block w ?q (length bitmap + 2) = Some ?tail)"
    by (simp add: puts_def readable_block)
  from puts_bind [OF out(2) this]
  have "puts (put_data st rr) p cs (out @ ?tail) cs'
      (\<lambda>w. name_at w p ls ?q \<and> rd_block w ?q (length bitmap + 2) = Some ?tail)"
    unfolding put using name_at_extends by blast
  with out(1) show ?thesis unfolding data_puts_def
    by (intro exI [of _ "out @ ?tail"] exI [of _ cs']) (auto elim!: puts_mono simp: add.commute add.left_commute)
qed

lemma data_puts:
  assumes "data_means st rr d" and "p + data_room d \<le> 16384"
  shows "data_puts st rr d p cs"
proof (cases d)
  case (Is_A addr)
  then have "put_data st rr = put_bytes addr" using assms(1) by (intro ext) (simp add: put_data_def rr_types)
  moreover have "length addr = 4" using assms(1) Is_A by simp
  ultimately show ?thesis
    using puts_block [of addr 4 p cs] unfolding data_puts_def Is_A by (intro exI [of _ addr] exI [of _ cs]) simp
next
  case (Is_AAAA addr)
  then have "put_data st rr = put_bytes addr" using assms(1) by (intro ext) (simp add: put_data_def rr_types)
  moreover have "length addr = 16" using assms(1) Is_AAAA by simp
  ultimately show ?thesis
    using puts_block [of addr 16 p cs] unfolding data_puts_def Is_AAAA by (intro exI [of _ addr] exI [of _ cs]) simp
next
  case (Is_PTR ls)
  then have put: "put_data st rr = put_name (wire_name ls)"
    using assms(1) by (intro ext) (simp add: put_data_def rr_types)
  obtain out cs' where "length out \<le> length (wire_name ls)"
    "puts (put_name (wire_name ls)) p cs out cs' (\<lambda>w. name_at w p ls (p + length out))"
    by (rule puts_name [of ls p cs]) (use assms Is_PTR in auto)
  then show ?thesis unfolding data_puts_def put Is_PTR by auto
qed (use assms data_puts_texts data_puts_srv data_puts_nsec in blast)+

section \<open>A record and a packet\<close>

lemma put_at_under:
  assumes "q = p + length a" and "q + length b \<le> length pkt"
  shows "put_at (put_at pkt q b) p a = put_at pkt p (a @ b)"
  using assms by (simp add: put_at_def ac_simps)

definition record_head :: "rr_entry \<Rightarrow> packet_cursor \<Rightarrow> packet_cursor option" where
  "record_head rr s = put_name (rr_name rr) s \<bind> (\<lambda>s. put_bytes (htons_bytes (rr_type rr)) s \<bind>
     (\<lambda>s. put_bytes (htons_bytes (class_bits rr)) s \<bind> put_bytes (htonl_bytes (rr_ttl rr))))"

lemma mdns_encode_rr_head:
  "mdns_encode_rr st rr s = record_head rr s \<bind> (\<lambda>(pkt, p, cs). put_data st rr (pkt, p + 2, cs) \<bind>
     (\<lambda>(pkt, p', cs). wr_block pkt p (htons_bytes (of_nat (p' - (p + 2)))) \<bind> (\<lambda>pkt. Some (pkt, p', cs))))"
  by (simp add: mdns_encode_rr_def record_head_def Let_def split_def)

lemma record_head_puts:
  assumes "means st rr r" and "p + length (wire_name (d_name r)) \<le> 16384"
  obtains n h cs' where "n \<le> length (wire_name (d_name r))" "length h = n + 8"
    "puts (record_head rr) p cs h cs' (\<lambda>w. name_at w p (d_name r) (p + n) \<and> nctohs w (p + n) = Some (d_type r) \<and>
       nctohs w (p + n + 2) = Some (d_class r) \<and> nctohl w (p + n + 4) = Some (d_ttl r))"
proof -
  obtain out cs' where out: "length out \<le> length (wire_name (d_name r))"
    "puts (put_name (wire_name (d_name r))) p cs out cs' (\<lambda>w. name_at w p (d_name r) (p + length out))"
    by (rule puts_name [of "d_name r" p cs]) (use assms in \<open>auto simp: means_def\<close>)
  let ?m = "p + length out"
  have at: "?m + 2 + 2 = ?m + 4" by simp
  have "puts (put_bytes (htonl_bytes (rr_ttl rr))) (?m + 4) cs' (htonl_bytes (rr_ttl rr)) cs'
      (\<lambda>w. nctohl w (?m + 4) = Some (rr_ttl rr))" by (simp add: puts_def emits_bytes readable_u32)
  then have "puts (\<lambda>s. put_bytes (htons_bytes (class_bits rr)) s \<bind> put_bytes (htonl_bytes (rr_ttl rr))) (?m + 2) cs'
      (htons_bytes (class_bits rr) @ htonl_bytes (rr_ttl rr)) cs'
      (\<lambda>w. nctohs w (?m + 2) = Some (class_bits rr) \<and> nctohl w (?m + 4) = Some (rr_ttl rr))"
    by (intro puts_u16_then) (unfold at)
  note tail = puts_u16_then [OF this, of "rr_type rr"]
  let ?h = "out @ htons_bytes (rr_type rr) @ htons_bytes (class_bits rr) @ htonl_bytes (rr_ttl rr)"
  have "puts (record_head rr) p cs ?h cs' (\<lambda>w. name_at w p (d_name r) ?m \<and> nctohs w ?m = Some (rr_type rr) \<and>
       nctohs w (?m + 2) = Some (class_bits rr) \<and> nctohl w (?m + 4) = Some (rr_ttl rr))"
    using puts_bind [OF out(2) tail name_at_extends] assms(1) unfolding record_head_def means_def by simp
  then show thesis
    by (intro that [of "length out" ?h cs']) (use out(1) assms(1) in \<open>auto simp: means_def\<close>)
qed

text \<open>A record written at \<open>p\<close>: its bytes, and that they are read as the record.\<close>

lemma record_puts:
  assumes "means st rr r" and "p + record_room r \<le> 16384"
  obtains out cs' where "0 < length out" "length out \<le> record_room r"
    "puts (mdns_encode_rr st rr) p cs out cs' (\<lambda>w. record_at w p r (p + length out))"
proof -
  obtain n h cs1 where n: "n \<le> length (wire_name (d_name r))" and h: "length h = n + 8"
    and head: "puts (record_head rr) p cs h cs1 (\<lambda>w. name_at w p (d_name r) (p + n) \<and> nctohs w (p + n) = Some (d_type r) \<and>
       nctohs w (p + n + 2) = Some (d_class r) \<and> nctohl w (p + n + 4) = Some (d_ttl r))"
    by (rule record_head_puts [OF assms(1), of p cs]) (use assms(2) in \<open>auto simp: record_room_def\<close>)
  have "data_means st rr (d_data r)" using assms(1) by (simp add: means_def)
  moreover have "p + length h + 2 + data_room (d_data r) \<le> 16384"
    using assms(2) n h by (simp add: record_room_def)
  ultimately have "data_puts st rr (d_data r) (p + length h + 2) cs1" by (rule data_puts)
  then obtain d cs2 where d: "length d \<le> data_room (d_data r)"
    and data: "puts (put_data st rr) (p + length h + 2) cs1 d cs2
      (\<lambda>w. data_at w (p + length h + 2) (d_data r) (p + length h + 2 + length d))"
    unfolding data_puts_def by blast
  let ?len = "htons_bytes (of_nat (length d))" and ?q = "p + length h + 2 + length d"
  let ?out = "h @ ?len @ d"
  have "emits (mdns_encode_rr st rr) p cs ?out cs2"
    unfolding emits_def
  proof (intro allI impI)
    fix pkt :: bytes assume room: "p + length ?out \<le> length pkt"
    let ?p1 = "p + length h" and ?pkt1 = "put_at pkt p h"
    have "record_head rr (pkt, p, cs) = Some (?pkt1, ?p1, cs1)"
      using head room by (simp add: puts_def emits_def)
    moreover have "put_data st rr (?pkt1, ?p1 + 2, cs1) = Some (put_at ?pkt1 (?p1 + 2) d, ?q, cs2)"
      using data room by (simp add: puts_def emits_def)
    moreover have "wr_block (put_at ?pkt1 (?p1 + 2) d) ?p1 ?len = Some (put_at pkt p ?out)"
    proof -
      have "wr_block (put_at ?pkt1 (?p1 + 2) d) ?p1 ?len = Some (put_at (put_at ?pkt1 (?p1 + 2) d) ?p1 ?len)"
        by (rule wr_block_put_at) (use room in simp)
      moreover have "put_at (put_at ?pkt1 (?p1 + 2) d) ?p1 ?len = put_at ?pkt1 ?p1 (?len @ d)"
        by (rule put_at_under) (use room in simp_all)
      moreover have "put_at ?pkt1 ?p1 (?len @ d) = put_at pkt p ?out"
        by (rule put_at_put_at) (use room in simp_all)
      ultimately show ?thesis by (simp only:)
    qed
    ultimately show "mdns_encode_rr st rr (pkt, p, cs) = Some (put_at pkt p ?out, p + length ?out, cs2)"
      by (simp add: mdns_encode_rr_head add.assoc)
  qed
  moreover have "readable p cs ?out cs2 (\<lambda>w. record_at w p r (p + length ?out))"
    unfolding readable_def
  proof (intro allI impI)
    fix w assume w: "length w = p \<and> comp_ok w cs"
    let ?w = "w @ ?out"
    have 1: "name_at (w @ h) p (d_name r) (p + n)" "nctohs (w @ h) (p + n) = Some (d_type r)"
      "nctohs (w @ h) (p + n + 2) = Some (d_class r)" "nctohl (w @ h) (p + n + 4) = Some (d_ttl r)"
      "comp_ok (w @ h) cs1"
      using head w by (simp_all add: puts_def readable_def)
    have "comp_ok ((w @ h) @ ?len) cs1" using 1(5) extends_append by (rule comp_ok_extends)
    then have 2: "data_at ?w (p + length h + 2) (d_data r) ?q" "comp_ok ?w cs2"
      using data [unfolded puts_def readable_def, THEN conjunct2, rule_format, of "w @ h @ ?len"] w
      by simp_all
    have ext: "extends (w @ h) ?w" using extends_append [of "w @ h" "?len @ d"] by simp
    have "nctohs ((w @ h) @ ?len @ d) (p + length h) = Some (of_nat (length d))"
      by (rule nctohs_at) (use w in simp)
    then have 3: "nctohs ?w (p + n + 8) = Some (of_nat (length d))" using h by (simp add: add.assoc)
    have small: "length d < 65536" using d assms(2) by (simp add: record_room_def)
    have q: "p + length h + 2 = p + n + 10" "?q = p + n + 10 + length d" using h by simp_all
    have "record_at ?w p r (p + n + 10 + length d)"
      unfolding record_at_def
    proof (intro exI conjI)
      show "name_at ?w p (d_name r) (p + n)" using name_at_extends [OF 1(1) ext] .
      show "data_at ?w (p + n + 10) (d_data r) (p + n + 10 + length d)" using 2(1) unfolding q .
      show "nctohs ?w (p + n + 8) = Some (of_nat (p + n + 10 + length d - (p + n + 10)))" using 3 by simp
    qed (use nctohs_extends [OF ext 1(2)] nctohs_extends [OF ext 1(3)] nctohl_extends [OF ext 1(4)]
          small in simp_all)
    moreover have "p + length ?out = p + n + 10 + length d" using h by simp
    ultimately have "record_at ?w p r (p + length ?out)" by (simp only:)
    with 2(2) show "record_at ?w p r (p + length ?out) \<and> comp_ok ?w cs2" by blast
  qed
  ultimately have "puts (mdns_encode_rr st rr) p cs ?out cs2 (\<lambda>w. record_at w p r (p + length ?out))"
    by (simp add: puts_def)
  then show thesis by (intro that [of ?out cs2]) (use n h d in \<open>simp_all add: record_room_def\<close>)
qed

lemma encode_records_correct:
  assumes "list_all2 (\<lambda>i r. i < length st \<and> means st (st ! i) r) l rs"
    and "p + sum_list (map record_room rs) \<le> 16384" and "16384 < pkt_len" "pkt_len \<le> length pkt"
  shows "\<exists>out. length out \<le> sum_list (map record_room rs) \<and>
     encode_records st pkt_len l (pkt, p, cs) = Some (put_at pkt p out, Some (p + length out)) \<and>
     (\<forall>w. length w = p \<and> comp_ok w cs \<longrightarrow> records_at (w @ out) p rs (p + length out))"
  using assms
proof (induction l rs arbitrary: p pkt cs rule: list_all2_induct)
  case Nil
  then show ?case by (intro exI [of _ "[]"]) (simp add: put_at_def)
next
  case (Cons i l r rs)
  have i: "i < length st" "means st (st ! i) r" using Cons.hyps(1) by simp_all
  obtain a cs1 where a: "length a \<le> record_room r"
    "puts (mdns_encode_rr st (st ! i)) p cs a cs1 (\<lambda>w. record_at w p r (p + length a))"
    by (rule record_puts [OF i(2), of p cs]) (use Cons.prems(1) in auto)
  let ?q = "p + length a"
  have room: "?q \<le> 16384" "?q \<le> length pkt" using a(1) Cons.prems by auto
  have "?q + sum_list (map record_room rs) \<le> 16384" and "pkt_len \<le> length (put_at pkt p a)"
    using a(1) Cons.prems room by auto
  from Cons.IH [OF this(1) Cons.prems(2) this(2), of cs1]
  obtain b where b: "length b \<le> sum_list (map record_room rs)"
    "encode_records st pkt_len l (put_at pkt p a, ?q, cs1) = Some (put_at (put_at pkt p a) ?q b, Some (?q + length b))"
    "\<And>w. length w = ?q \<Longrightarrow> comp_ok w cs1 \<Longrightarrow> records_at (w @ b) ?q rs (?q + length b)" by blast
  have "mdns_encode_rr st (st ! i) (pkt, p, cs) = Some (put_at pkt p a, ?q, cs1)"
    using a(2) room by (simp add: puts_def emits_def)
  moreover have "put_at (put_at pkt p a) ?q b = put_at pkt p (a @ b)"
    by (rule put_at_put_at) (use a(1) b(1) Cons.prems in auto)
  ultimately have "encode_records st pkt_len (i # l) (pkt, p, cs) = Some (put_at pkt p (a @ b), Some (p + length (a @ b)))"
    using i(1) b(2) room Cons.prems(2) by (simp add: add.assoc)
  moreover have "records_at (w @ a @ b) p (r # rs) (p + length (a @ b))" if w: "length w = p" "comp_ok w cs" for w
  proof -
    have "record_at (w @ a) p r ?q" "comp_ok (w @ a) cs1"
      using a(2) w by (simp_all add: puts_def readable_def)
    moreover from this(2) have "records_at ((w @ a) @ b) ?q rs (?q + length b)"
      using b(3) [of "w @ a"] w by simp
    ultimately show ?thesis
      using record_at_extends [OF _ extends_append [of "w @ a" b]] by (auto simp: add.assoc)
  qed
  ultimately show ?case using a(1) b(1) by (intro exI [of _ "a @ b"]) simp
qed

lemma length_header_bytes [simp]: "length (header_bytes a) = 12"
  by (simp add: header_bytes_def)

text \<open>
  C31. A reply whose records need at most 16,384 bytes is written without leaving the buffer, and by the
  rules of DNS the packet is the header with the four counts and then exactly the records of the three
  sections, in order, with compressed names, the end of the last being the length that is returned.
\<close>
theorem reply_decodes:
  assumes "list_all2 (\<lambda>i r. i < length st \<and> means st (st ! i) r) (rr_ans a @ rr_auth a @ rr_add a) rs"
    and "12 + sum_list (map record_room rs) \<le> 16384" and "16384 < pkt_len" "pkt_len \<le> length pkt"
    and "num_qn a = 0"
  shows "\<exists>pkt' n. mdns_encode_pkt st a pkt pkt_len = Some (pkt', Some n) \<and> length pkt' = length pkt \<and>
     n \<le> 12 + sum_list (map record_room rs) \<and> take 12 pkt' = header_bytes a \<and> records_at (take n pkt') 12 rs n"
proof -
  let ?pkt = "put_at pkt 0 (header_bytes a)"
  have len: "length ?pkt = length pkt" using assms(3,4) by simp
  obtain out where out: "length out \<le> sum_list (map record_room rs)"
    "encode_records st pkt_len (rr_ans a @ rr_auth a @ rr_add a) (?pkt, 12, first_comp) = Some (put_at ?pkt 12 out, Some (12 + length out))"
    "\<forall>w. length w = 12 \<and> comp_ok w first_comp \<longrightarrow> records_at (w @ out) 12 rs (12 + length out)"
    using encode_records_correct [OF assms(1-3), of ?pkt first_comp] len assms(4) by auto
  have "wr_block pkt 0 (header_bytes a) = Some ?pkt" by (rule wr_block_put_at) (use assms(3,4) in simp)
  then have "mdns_encode_pkt st a pkt pkt_len = Some (put_at ?pkt 12 out, Some (12 + length out))"
    using assms(3,5) out(2) by (simp add: mdns_encode_pkt_def)
  moreover have room: "12 + length out \<le> length ?pkt" using out(1) assms len by simp
  moreover have head: "take 12 ?pkt = header_bytes a" by (simp add: put_at_def)
  moreover have "take (12 + length out) (put_at ?pkt 12 out) = header_bytes a @ out"
    using take_put_at [OF room] head by simp
  moreover have "take 12 (put_at ?pkt 12 out) = header_bytes a"
    using head assms(3,4) by (simp add: put_at_def [of ?pkt])
  ultimately show ?thesis
    using out(1,3) len by (intro exI [of _ "put_at ?pkt 12 out"] exI [of _ "12 + length out"]) simp
qed

text \<open>The address of a host named by one label.\<close>

definition reply_example :: "nat mdns_pkt" where
  "reply_example = (mdns_init_reply 7)\<lparr>rr_ans := [0], num_ans_rr := 1\<rparr>"

lemma reply_decodes_witness:
  "\<exists>pkt n. mdns_encode_pkt [rr_create_a (wire_name [[97]]) [10, 0, 0, 1]] reply_example (replicate 16385 0) 16385 = Some (pkt, Some n) \<and>
     (\<exists>r. records_at (take n pkt) 12 [r] n \<and> d_data r = Is_A [10, 0, 0, 1])"
proof -
  let ?e = "rr_create_a (wire_name [[97]]) [10, 0, 0, 1]"
  let ?r = "\<lparr>d_name = [[97]], d_type = RR_A, d_class = class_bits ?e, d_ttl = 120, d_data = Is_A [10, 0, 0, 1]\<rparr>"
  have m: "means [?e] ?e ?r"
    by (simp add: means_def rr_create_a_def rr_create_def good_label_def DEFAULT_TTL_FOR_RECORD_WITH_HOSTNAME_def class_bits_def)
  have "record_room ?r = 17" by (simp add: record_room_def)
  with m reply_decodes [of "[?e]" reply_example "[?r]" 16385 "replicate 16385 0"]
  show ?thesis by (fastforce simp: reply_example_def mdns_init_reply_def)
qed

end
