(* ===== verification/Mdns_Responder.thy ===== *)
theory Mdns_Responder
  imports Mdns_Packets
begin

text \<open>
  The server of the multicast DNS responder (\<open>tinysvcmdns.c\<close>): registering a host and services,
  choosing the records of a reply with the records they lead to, and announcing.
\<close>

section \<open>The server\<close>

record mdnsd =
  svr_store :: rr_store
  svr_group :: "rr_group list"
  svr_announce :: "nat list"
  svr_services :: "nat list"
  svr_hostname :: "bytes option"

definition new_entry :: "rr_entry \<Rightarrow> mdnsd \<Rightarrow> mdnsd \<times> nat" where
  "new_entry e s = (s\<lparr>svr_store := svr_store s @ [e]\<rparr>, length (svr_store s))"

definition mdnsd_add_rr :: "mdnsd \<Rightarrow> nat \<Rightarrow> mdnsd" where
  "mdnsd_add_rr s rr = s\<lparr>svr_group := rr_group_add (svr_store s) (svr_group s) rr\<rparr>"

text \<open>\<open>mdnsd_set_hostname\<close> and \<open>mdnsd_set_hostname_v6\<close>; \<open>None\<close>: an assertion fails, or a name is empty.\<close>

definition set_host_records :: "mdnsd \<Rightarrow> bytes \<Rightarrow> (bytes \<Rightarrow> rr_entry) \<Rightarrow> u16 \<Rightarrow> mdnsd option" where
  "set_host_records s hostname address_entry t =
     (if svr_hostname s \<noteq> None then None
      else do { name \<leftarrow> create_nlabel hostname;
                nsec \<leftarrow> rr_set_nsec ((rr_create name RR_NSEC)\<lparr>rr_ttl := DEFAULT_TTL_FOR_RECORD_WITH_HOSTNAME\<rparr>) t;
                let (s, a_e) = new_entry (address_entry name) s;
                let (s, nsec_e) = new_entry nsec s;
                Some (mdnsd_add_rr (mdnsd_add_rr (s\<lparr>svr_hostname := Some name\<rparr>) a_e) nsec_e) })"

definition mdnsd_set_hostname :: "mdnsd \<Rightarrow> bytes \<Rightarrow> bytes \<Rightarrow> mdnsd option" where
  "mdnsd_set_hostname s hostname ip = set_host_records s hostname (\<lambda>name. rr_create_a name ip) RR_A"

definition mdnsd_set_hostname_v6 :: "mdnsd \<Rightarrow> bytes \<Rightarrow> bytes \<Rightarrow> mdnsd option" where
  "mdnsd_set_hostname_v6 s hostname addr = set_host_records s hostname (\<lambda>name. rr_create_aaaa name addr) RR_AAAA"

text \<open>\<open>"\x09_services\x07_dns-sd\x04_udp\x05local"\<close>\<close>

definition SERVICES_DNS_SD_LABELS :: "bytes list" where
  "SERVICES_DNS_SD_LABELS =
     [[0x5F, 0x73, 0x65, 0x72, 0x76, 0x69, 0x63, 0x65, 0x73], [0x5F, 0x64, 0x6E, 0x73, 0x2D, 0x73, 0x64],
      [0x5F, 0x75, 0x64, 0x70], [0x6C, 0x6F, 0x63, 0x61, 0x6C]]"

definition SERVICES_DNS_SD_NLABEL :: bytes where
  "SERVICES_DNS_SD_NLABEL = wire_name SERVICES_DNS_SD_LABELS"

fun add_txts :: "rr_entry \<Rightarrow> bytes list \<Rightarrow> rr_entry option" where
  "add_txts rr [] = Some rr"
| "add_txts rr (t # ts) = do { rr \<leftarrow> rr_add_txt rr t; add_txts rr ts }"

text \<open>
  \<open>mdnsd_register_svc\<close>, with the entries of the service it returns. Entries are numbered when they go
  into the store, in the order they are made.
\<close>

definition mdnsd_register_svc ::
    "mdnsd \<Rightarrow> bytes \<Rightarrow> bytes \<Rightarrow> u16 \<Rightarrow> bytes option \<Rightarrow> bytes list \<Rightarrow> (mdnsd \<times> nat list) option" where
  "mdnsd_register_svc s instance_name service_type port hostname txt =
     do { type_nlabel \<leftarrow> create_nlabel service_type;
          inst_nlabel \<leftarrow> create_label instance_name;
          let nlabel = join_nlabel inst_nlabel type_nlabel;
          (s, txt_e) \<leftarrow> (if txt \<noteq> []
                        then do { rr \<leftarrow> add_txts (rr_create (dup_nlabel nlabel) RR_TXT) txt;
                                  let (s, txt_e) = new_entry rr s;
                                  Some (s, [txt_e]) }
                        else Some (s, []));
          target \<leftarrow> (case hostname of Some h \<Rightarrow> create_nlabel h | None \<Rightarrow> map_option dup_nlabel (svr_hostname s));
          let (s, srv_e) = new_entry (rr_create_srv (dup_nlabel nlabel) port target) s;
          let (s, ptr_e) = new_entry (rr_create_ptr type_nlabel srv_e) s;
          let (s, bptr_e) = new_entry (rr_create_ptr (dup_nlabel SERVICES_DNS_SD_NLABEL) ptr_e) s;
          let s = foldl mdnsd_add_rr s (txt_e @ [srv_e, ptr_e, bptr_e]);
          Some (s\<lparr>svr_announce := fst (rr_list_append (svr_announce s) ptr_e),
                  svr_services := fst (rr_list_append (svr_services s) ptr_e)\<rparr>, txt_e @ [srv_e]) }"

section \<open>Choosing records\<close>

text \<open>The records of the group that a question for \<open>name\<close> and \<open>t\<close> asks for.\<close>

definition answers_for :: "mdnsd \<Rightarrow> bytes \<Rightarrow> u16 \<Rightarrow> nat list" where
  "answers_for s name t =
     (case rr_group_find (svr_group s) name of
        None \<Rightarrow> []
      | Some g \<Rightarrow>
          filter (\<lambda>r. let e = svr_store s ! r in
                    \<not> (t = RR_ANY \<and> rr_type e = RR_NSEC) \<and>
                    (t = rr_type e \<or> t = RR_ANY) \<and> cmp_nlabel name (rr_name e)) (snd g))"

fun append_all :: "nat list \<Rightarrow> nat list \<times> u16 \<Rightarrow> nat list \<times> u16" where
  "append_all [] x = x"
| "append_all (r # rs) (l, n) =
     (let (l, k) = rr_list_append l r in append_all rs (l, n + of_nat k))"

text \<open>\<open>populate_answers\<close> on a list and the count of its section.\<close>

definition populate_answers :: "mdnsd \<Rightarrow> bytes \<Rightarrow> u16 \<Rightarrow> nat list \<times> u16 \<Rightarrow> nat list \<times> u16" where
  "populate_answers s name t x = append_all (answers_for s name t) x"

text \<open>What \<open>add_related_rr\<close> looks up for a record. An entry of a \<open>PTR\<close> in the server always has a name.\<close>

definition related_questions :: "rr_store \<Rightarrow> rr_entry \<Rightarrow> (bytes \<times> u16) list" where
  "related_questions st e =
     (if rr_type e = RR_PTR then (case ptr_name st e of Some n \<Rightarrow> [(n, RR_ANY)] | None \<Rightarrow> [])
      else if rr_type e = RR_SRV
      then (case rr_data e of Data_SRV _ _ _ target \<Rightarrow> [(target, RR_ANY), (rr_name e, RR_TXT)] | _ \<Rightarrow> [])
      else if rr_type e = RR_A \<or> rr_type e = RR_AAAA then [(rr_name e, RR_NSEC)]
      else [])"

definition add_related_step :: "mdnsd \<Rightarrow> nat \<Rightarrow> nat list \<times> u16 \<Rightarrow> nat list \<times> u16" where
  "add_related_step s r x =
     foldl (\<lambda>x (name, t). populate_answers s name t x) x (related_questions (svr_store s) (svr_store s ! r))"

text \<open>\<open>add_related_rr\<close> over the answers, and over the additional records while they grow.\<close>

definition add_related_answers :: "mdnsd \<Rightarrow> nat list \<Rightarrow> nat list \<times> u16 \<Rightarrow> nat list \<times> u16" where
  "add_related_answers s answers x = foldl (\<lambda>x r. add_related_step s r x) x answers"

partial_function (option) add_related_additional :: "mdnsd \<Rightarrow> nat \<Rightarrow> nat list \<times> u16 \<Rightarrow> (nat list \<times> u16) option" where
  "add_related_additional s i x =
     (if i < length (fst x) then add_related_additional s (i + 1) (add_related_step s (fst x ! i) x) else Some x)"

declare add_related_additional.simps [code]

definition add_related :: "mdnsd \<Rightarrow> nat mdns_pkt \<Rightarrow> nat mdns_pkt option" where
  "add_related s reply =
     do { (l, n) \<leftarrow> add_related_additional s 0 (add_related_answers s (rr_ans reply) (rr_add reply, num_add_rr reply));
          Some (reply\<lparr>rr_add := l, num_add_rr := n\<rparr>) }"

section \<open>Replies and announcements\<close>

definition announce_srv :: "mdnsd \<Rightarrow> bytes \<Rightarrow> nat mdns_pkt option" where
  "announce_srv s name =
     (let (l, n) = populate_answers s SERVICES_DNS_SD_NLABEL RR_PTR (populate_answers s name RR_PTR ([], 0))
      in add_related s ((mdns_init_reply 0)\<lparr>rr_ans := l, num_ans_rr := n\<rparr>))"

text \<open>The questions; those that ask for a unicast answer are left out.\<close>

definition answer_questions :: "mdnsd \<Rightarrow> rr_entry list \<Rightarrow> nat list \<times> u16 \<Rightarrow> nat list \<times> u16" where
  "answer_questions s qs x =
     foldl (\<lambda>x q. if unicast_query q then x else populate_answers s (rr_name q) (rr_type q) x) x qs"

definition already_known :: "mdnsd \<Rightarrow> rr_entry list \<Rightarrow> nat \<Rightarrow> bool" where
  "already_known s known r =
     (case rr_entry_match (svr_store s) known (svr_store s ! r) of
        None \<Rightarrow> False
      | Some k \<Rightarrow> rr_ttl k \<ge> rr_ttl (svr_store s ! r) div 2)"

fun remove_known :: "mdnsd \<Rightarrow> rr_entry list \<Rightarrow> nat list \<times> u16 \<Rightarrow> nat list \<times> u16" where
  "remove_known s known ([], n) = ([], n)"
| "remove_known s known (r # l, n) =
     (if already_known s known r then remove_known s known (l, n - 1)
      else let (l, n) = remove_known s known (l, n) in (r # l, n))"

definition is_query :: "u16 \<Rightarrow> bool" where
  "is_query flags \<longleftrightarrow> flags AND MDNS_FLAG_RESP = 0 \<and> drop_bit 11 flags AND 0x0F = 0"

text \<open>The reply, if the packet is a query; the outer \<open>None\<close> would be a loop that never ends.\<close>

definition process_mdns_pkt :: "mdnsd \<Rightarrow> rr_entry mdns_pkt \<Rightarrow> nat mdns_pkt option option" where
  "process_mdns_pkt s pkt =
     (if is_query (pkt_flags pkt)
      then let (l, n) = remove_known s (rr_ans pkt)
                          (answer_questions s (take (unat (num_qn pkt)) (rr_qn pkt)) ([], 0))
           in map_option Some (add_related s ((mdns_init_reply (pkt_id pkt))\<lparr>rr_ans := l, num_ans_rr := n\<rparr>))
      else Some None)"

text \<open>The goodbye at the end of \<open>main_loop\<close>: the services with a time to live of zero.\<close>

definition goodbye :: "mdnsd \<Rightarrow> mdnsd \<times> nat mdns_pkt" where
  "goodbye s =
     (let (l, n) = append_all (svr_services s) ([], 0)
      in (s\<lparr>svr_store := foldl (\<lambda>st r. st[r := (st ! r)\<lparr>rr_ttl := 0\<rparr>]) (svr_store s) (svr_services s)\<rparr>,
          (mdns_init_reply 0)\<lparr>rr_ans := l, num_ans_rr := n\<rparr>))"

text \<open>Sending out the announcements that wait, at the end of each turn of \<open>main_loop\<close>.\<close>

fun send_announcements :: "mdnsd \<Rightarrow> nat list \<Rightarrow> nat mdns_pkt list option" where
  "send_announcements s [] = Some []"
| "send_announcements s (r # rs) =
     do { reply \<leftarrow> announce_srv s (rr_name (svr_store s ! r));
          rest \<leftarrow> send_announcements s rs;
          Some (if num_ans_rr reply > 0 then reply # rest else rest) }"

end
