(* ===== verification/Mdns_Answers.thy ===== *)
theory Mdns_Answers
  imports Mdns_Responder "HOL-Library.Sublist"
begin

text \<open>
  What the multicast DNS responder answers: the additional records of a reply are the closure of its
  answers under the relation that leads from a record to those it refers to, and a service that is
  registered is found by the question that browses for its type.
\<close>

section \<open>Lists with a count\<close>

text \<open>A section of a reply: no entry twice, and the count is the length.\<close>

definition counted :: "nat list \<times> u16 \<Rightarrow> bool" where
  "counted x \<longleftrightarrow> distinct (fst x) \<and> snd x = of_nat (length (fst x))"

lemma append_all_counted:
  assumes "counted x"
  shows "counted (append_all rs x) \<and> set (fst (append_all rs x)) = set (fst x) \<union> set rs \<and>
    prefix (fst x) (fst (append_all rs x))"
  using assms
proof (induction rs arbitrary: x)
  case (Cons r rs)
  let ?x = "(fst (rr_list_append (fst x) r), snd x + of_nat (snd (rr_list_append (fst x) r)))"
  have x: "counted ?x" "set (fst ?x) = insert r (set (fst x))" "prefix (fst x) (fst ?x)"
    using Cons.prems by (auto simp: counted_def rr_list_append_def)
  have "append_all (r # rs) x = append_all rs ?x" by (cases x) (simp add: Let_def split_def)
  with Cons.IH [OF x(1)] x(2,3) show ?case by (auto intro: prefix_order.trans)
qed simp

lemma populate_counted:
  "counted x \<Longrightarrow> counted (populate_answers s name t x)"
  "counted x \<Longrightarrow> set (fst (populate_answers s name t x)) = set (fst x) \<union> set (answers_for s name t)"
  "counted x \<Longrightarrow> prefix (fst x) (fst (populate_answers s name t x))"
  using append_all_counted by (auto simp: populate_answers_def)

section \<open>The records a record leads to\<close>

definition related :: "mdnsd \<Rightarrow> nat \<Rightarrow> nat set" where
  "related s r = (\<Union>(name, t) \<in> set (related_questions (svr_store s) (svr_store s ! r)). set (answers_for s name t))"

lemma foldl_populate:
  assumes "counted x"
  shows "counted (foldl (\<lambda>x (name, t). populate_answers s name t x) x qs) \<and>
     set (fst (foldl (\<lambda>x (name, t). populate_answers s name t x) x qs)) =
       set (fst x) \<union> (\<Union>(name, t) \<in> set qs. set (answers_for s name t)) \<and>
     prefix (fst x) (fst (foldl (\<lambda>x (name, t). populate_answers s name t x) x qs))"
  using assms
proof (induction qs arbitrary: x)
  case (Cons q qs)
  let ?x = "populate_answers s (fst q) (snd q) x"
  note p = populate_counted [OF Cons.prems, of s "fst q" "snd q"]
  from Cons.IH [OF p(1)] p(2,3) show ?case by (auto simp: split_def intro: prefix_order.trans)
qed simp

lemma add_related_step_counted:
  assumes "counted x"
  shows "counted (add_related_step s r x)"
    and "set (fst (add_related_step s r x)) = set (fst x) \<union> related s r"
    and "prefix (fst x) (fst (add_related_step s r x))"
  using foldl_populate [OF assms] by (auto simp: add_related_step_def related_def)

lemma add_related_answers_counted:
  assumes "counted x"
  shows "counted (add_related_answers s l x) \<and> set (fst (add_related_answers s l x)) = set (fst x) \<union> (\<Union>r \<in> set l. related s r)"
  using assms
proof (induction l arbitrary: x)
  case (Cons r l)
  from Cons.IH [OF add_related_step_counted(1) [OF Cons.prems]] add_related_step_counted(2) [OF Cons.prems]
  show ?case by (auto simp: add_related_answers_def)
qed (simp add: add_related_answers_def)

section \<open>A sound server\<close>

text \<open>The groups hold entries of the store.\<close>

definition server_ok :: "mdnsd \<Rightarrow> bool" where
  "server_ok s \<longleftrightarrow> (\<forall>g \<in> set (svr_group s). \<forall>r \<in> set (snd g). r < length (svr_store s))"

lemma rr_group_find_Some:
  assumes "rr_group_find g name = Some x"
  shows "x \<in> set g \<and> cmp_nlabel (fst x) name"
  using assms unfolding rr_group_find_def find_Some_iff by auto

lemma answers_in_store:
  assumes "server_ok s" and "r \<in> set (answers_for s name t)"
  shows "r < length (svr_store s)"
proof -
  obtain g where "rr_group_find (svr_group s) name = Some g" "r \<in> set (snd g)"
    using assms(2) by (cases "rr_group_find (svr_group s) name") (auto simp: answers_for_def)
  with rr_group_find_Some assms(1) show ?thesis unfolding server_ok_def by blast
qed

lemma related_in_store: "server_ok s \<Longrightarrow> r' \<in> related s r \<Longrightarrow> r' < length (svr_store s)"
  using answers_in_store by (auto simp: related_def)

section \<open>The growing list\<close>

definition leads_to :: "mdnsd \<Rightarrow> (nat \<times> nat) set" where
  "leads_to s = {(r, r'). r' \<in> related s r}"

text \<open>
  The invariant of the loop over the additional records: those before \<open>i\<close> have their records in the
  list, and all come from the answers \<open>A\<close>.
\<close>

definition closing :: "mdnsd \<Rightarrow> nat set \<Rightarrow> nat \<Rightarrow> nat list \<times> u16 \<Rightarrow> bool" where
  "closing s A i x \<longleftrightarrow> counted x \<and> i \<le> length (fst x) \<and> set (fst x) \<subseteq> {..<length (svr_store s)} \<and>
     (\<forall>r \<in> set (take i (fst x)). related s r \<subseteq> set (fst x)) \<and>
     leads_to s `` A \<subseteq> set (fst x) \<and> set (fst x) \<subseteq> (leads_to s)\<^sup>+ `` A"

lemma closing_step:
  assumes "server_ok s" and "closing s A i x" and "i < length (fst x)"
  shows "closing s A (i + 1) (add_related_step s (fst x ! i) x)"
proof -
  let ?r = "fst x ! i" and ?y = "add_related_step s (fst x ! i) x"
  have cnt: "counted x" using assms(2) by (simp add: closing_def)
  note st = add_related_step_counted [OF cnt, of s ?r]
  obtain ext where ext: "fst ?y = fst x @ ext" using st(3) by (auto simp: prefix_def)
  have "take (i + 1) (fst ?y) = take i (fst x) @ [?r]"
    using ext assms(3) by (simp add: take_Suc_conv_app_nth)
  moreover have r: "?r \<in> set (fst x)" using assms(3) by simp
  moreover have "related s ?r \<subseteq> (leads_to s)\<^sup>+ `` A"
  proof
    fix r' assume "r' \<in> related s ?r"
    moreover obtain a where "a \<in> A" "(a, ?r) \<in> (leads_to s)\<^sup>+" using assms(2) r by (auto simp: closing_def)
    ultimately show "r' \<in> (leads_to s)\<^sup>+ `` A" by (auto simp: leads_to_def intro: trancl_into_trancl)
  qed
  ultimately show ?thesis
    using assms st ext related_in_store [OF assms(1)] by (auto simp: closing_def)
qed

lemma add_related_additional_closes:
  assumes "server_ok s" and "closing s A i x"
  shows "\<exists>y. add_related_additional s i x = Some y \<and> closing s A (length (fst y)) y"
  using assms(2)
proof (induction "length (svr_store s) - i" arbitrary: i x rule: less_induct)
  case less
  show ?case
  proof (cases "i < length (fst x)")
    case True
    have "length (fst x) = card (set (fst x))" using less.prems by (simp add: closing_def counted_def distinct_card)
    also have "\<dots> \<le> card {..<length (svr_store s)}"
      by (rule card_mono) (use less.prems in \<open>simp_all add: closing_def\<close>)
    finally have "length (fst x) \<le> length (svr_store s)" by simp
    then have "length (svr_store s) - (i + 1) < length (svr_store s) - i" using True by simp
    from less.hyps [OF this closing_step [OF assms(1) less.prems True]] show ?thesis
      using True by (subst add_related_additional.simps) simp
  next
    case False
    then have "add_related_additional s i x = Some x" by (subst add_related_additional.simps) simp
    then show ?thesis using False less.prems by (auto simp: closing_def)
  qed
qed

text \<open>
  The loop that adds related records to the list it runs over always ends, and the additional records
  are then exactly those the answers lead to in one or more steps, each once, and counted.
\<close>

lemma additional_records:
  assumes "server_ok s" and "rr_add reply = []" and "num_add_rr reply = 0"
  shows "\<exists>l. add_related s reply = Some (reply\<lparr>rr_add := l, num_add_rr := of_nat (length l)\<rparr>) \<and> distinct l \<and>
     set l = (leads_to s)\<^sup>+ `` set (rr_ans reply)"
proof -
  let ?A = "set (rr_ans reply)" and ?x = "add_related_answers s (rr_ans reply) ([], 0)"
  have "counted ([], 0)" by (simp add: counted_def)
  from add_related_answers_counted [OF this, of s "rr_ans reply"]
  have x: "counted ?x" "set (fst ?x) = leads_to s `` ?A" by (auto simp: leads_to_def)
  then have "closing s ?A 0 ?x"
    using related_in_store [OF assms(1)] by (auto simp: closing_def leads_to_def)
  from add_related_additional_closes [OF assms(1) this] obtain y
    where y: "add_related_additional s 0 ?x = Some y" "closing s ?A (length (fst y)) y" by blast
  have "(leads_to s)\<^sup>+ `` ?A \<subseteq> set (fst y)"
  proof
    fix r' assume "r' \<in> (leads_to s)\<^sup>+ `` ?A"
    then obtain a where a: "a \<in> ?A" "(a, r') \<in> (leads_to s)\<^sup>+" by blast
    from a(2) show "r' \<in> set (fst y)"
      by (induction rule: trancl_induct) (use y(2) a(1) in \<open>auto simp: closing_def leads_to_def\<close>)
  qed
  then have "set (fst y) = (leads_to s)\<^sup>+ `` ?A" using y(2) by (auto simp: closing_def)
  moreover have "distinct (fst y)" "snd y = of_nat (length (fst y))"
    using y(2) by (simp_all add: closing_def counted_def)
  ultimately show ?thesis using y(1) assms(2,3) by (cases y) (auto simp: add_related_def)
qed

section \<open>The reply to a query\<close>

lemma remove_known_filter:
  "remove_known s known (l, n) = (filter (\<lambda>r. \<not> already_known s known r) l,
     n - of_nat (length (filter (already_known s known) l)))"
  by (induction l arbitrary: n) (auto simp: Let_def)

lemma remove_known_counted:
  assumes "counted x"
  shows "counted (remove_known s known x) \<and> set (fst (remove_known s known x)) = {r \<in> set (fst x). \<not> already_known s known r}"
proof -
  obtain l n where x: "x = (l, n)" by force
  have "length (filter (\<lambda>r. \<not> already_known s known r) l) + length (filter (already_known s known) l) = length l"
    using sum_length_filter_compl [of "already_known s known" l] by simp
  then have "(of_nat (length l) :: u16) - of_nat (length (filter (already_known s known) l))
      = of_nat (length (filter (\<lambda>r. \<not> already_known s known r) l))"
    by (metis add_diff_cancel_right' of_nat_add)
  then show ?thesis using assms by (auto simp: x remove_known_filter counted_def)
qed

text \<open>The records the questions ask for, those for a unicast answer left out.\<close>

definition asked :: "mdnsd \<Rightarrow> rr_entry list \<Rightarrow> nat set" where
  "asked s qs = (\<Union>q \<in> {q \<in> set qs. \<not> unicast_query q}. set (answers_for s (rr_name q) (rr_type q)))"

lemma answer_questions_counted:
  assumes "counted x"
  shows "counted (answer_questions s qs x) \<and> set (fst (answer_questions s qs x)) = set (fst x) \<union> asked s qs"
  using assms
proof (induction qs arbitrary: x)
  case (Cons q qs)
  let ?x = "if unicast_query q then x else populate_answers s (rr_name q) (rr_type q) x"
  have "counted ?x" using Cons.prems populate_counted(1) by simp
  moreover have "set (fst ?x) = set (fst x) \<union> (if unicast_query q then {} else set (answers_for s (rr_name q) (rr_type q)))"
    using populate_counted(2) [OF Cons.prems] by simp
  moreover have "answer_questions s (q # qs) x = answer_questions s qs ?x" by (simp add: answer_questions_def)
  ultimately show ?case using Cons.IH [of ?x] by (auto simp: asked_def)
qed (simp add: answer_questions_def asked_def)

lemma query_reply:
  assumes "server_ok s" and "is_query (pkt_flags pkt)" and "length (rr_qn pkt) = unat (num_qn pkt)"
  shows "\<exists>reply. process_mdns_pkt s pkt = Some (Some reply) \<and> pkt_id reply = pkt_id pkt \<and> num_qn reply = 0 \<and>
     rr_auth reply = [] \<and>
     distinct (rr_ans reply) \<and> num_ans_rr reply = of_nat (length (rr_ans reply)) \<and>
     set (rr_ans reply) = {r \<in> asked s (rr_qn pkt). \<not> already_known s (rr_ans pkt) r} \<and>
     distinct (rr_add reply) \<and> num_add_rr reply = of_nat (length (rr_add reply)) \<and>
     set (rr_add reply) = (leads_to s)\<^sup>+ `` set (rr_ans reply)"
proof -
  let ?x = "answer_questions s (rr_qn pkt) ([], 0)" and ?y = "remove_known s (rr_ans pkt) (answer_questions s (rr_qn pkt) ([], 0))"
  have "counted ([], 0)" by (simp add: counted_def)
  from answer_questions_counted [OF this, of s "rr_qn pkt"]
  have x: "counted ?x" "set (fst ?x) = asked s (rr_qn pkt)" by simp_all
  obtain l n where y: "?y = (l, n)" by force
  from remove_known_counted [OF x(1), of s "rr_ans pkt"] x(2) y
  have l: "distinct l" "n = of_nat (length l)" "set l = {r \<in> asked s (rr_qn pkt). \<not> already_known s (rr_ans pkt) r}"
    by (simp_all add: counted_def)
  let ?reply = "(mdns_init_reply (pkt_id pkt))\<lparr>rr_ans := l, num_ans_rr := n\<rparr>"
  obtain m where m: "add_related s ?reply = Some (?reply\<lparr>rr_add := m, num_add_rr := of_nat (length m)\<rparr>)"
    "distinct m" "set m = (leads_to s)\<^sup>+ `` set l"
    using additional_records [OF assms(1), of ?reply] by (auto simp: mdns_init_reply_def)
  have "take (unat (num_qn pkt)) (rr_qn pkt) = rr_qn pkt" using assms(3) by simp
  then have "process_mdns_pkt s pkt = Some (Some (?reply\<lparr>rr_add := m, num_add_rr := of_nat (length m)\<rparr>))"
    using assms(2) y m(1) by (simp add: process_mdns_pkt_def)
  then show ?thesis using l m(2,3) by (simp add: mdns_init_reply_def)
qed


section \<open>Groups\<close>

definition members :: "rr_group list \<Rightarrow> bytes \<Rightarrow> nat list" where
  "members g name = (case rr_group_find g name of None \<Rightarrow> [] | Some x \<Rightarrow> snd x)"

lemma cstr_dup [simp]: "cstr (dup_nlabel n) = cstr n"
proof -
  have "0 \<notin> set (cstr n)" by (auto simp: cstr_def dest: set_takeWhileD)
  then show ?thesis by (simp add: dup_nlabel_def cstr_append cstr_Cons)
qed

lemma members_add_to_group:
  assumes "rr_group_find g name \<noteq> None"
  shows "members (add_to_group g name rr) n =
     (if cmp_nlabel name n then fst (rr_list_append (members g n) rr) else members g n)"
  using assms
  by (induction g name rr rule: add_to_group.induct)
    (auto simp: members_def rr_group_find_def cmp_nlabel_def)

text \<open>A record joins the members of its own name, and only these.\<close>

lemma members_group_add:
  "members (rr_group_add st g rr) n =
     (if cmp_nlabel (rr_name (st ! rr)) n then fst (rr_list_append (members g n) rr) else members g n)"
proof (cases "rr_group_find g (rr_name (st ! rr))")
  case None
  have "members g n = []" if "cmp_nlabel (rr_name (st ! rr)) n"
    using None that unfolding members_def rr_group_find_def cmp_nlabel_def by (auto split: option.splits)
  then show ?thesis
    using None by (auto simp: rr_group_add_def members_def rr_group_find_def cmp_nlabel_def rr_list_append_def)
next
  case (Some x)
  then show ?thesis by (simp add: rr_group_add_def members_add_to_group)
qed

lemma answers_for_members:
  "set (answers_for s name t) = {r \<in> set (members (svr_group s) name).
     let e = svr_store s ! r in \<not> (t = RR_ANY \<and> rr_type e = RR_NSEC) \<and> (t = rr_type e \<or> t = RR_ANY) \<and> cmp_nlabel name (rr_name e)}"
  by (auto simp: answers_for_def members_def split: option.splits)

lemma add_rr_simps [simp]:
  "svr_store (mdnsd_add_rr s r) = svr_store s" "svr_hostname (mdnsd_add_rr s r) = svr_hostname s"
  "svr_announce (mdnsd_add_rr s r) = svr_announce s" "svr_services (mdnsd_add_rr s r) = svr_services s"
  by (simp_all add: mdnsd_add_rr_def)

lemma add_all_simps [simp]:
  "svr_store (foldl mdnsd_add_rr s rs) = svr_store s" "svr_hostname (foldl mdnsd_add_rr s rs) = svr_hostname s"
  "svr_announce (foldl mdnsd_add_rr s rs) = svr_announce s" "svr_services (foldl mdnsd_add_rr s rs) = svr_services s"
  by (induction rs arbitrary: s) simp_all

lemma members_add_all:
  "set (members (svr_group (foldl mdnsd_add_rr s rs)) n) =
     set (members (svr_group s) n) \<union> {r \<in> set rs. cmp_nlabel (rr_name (svr_store s ! r)) n}"
proof (induction rs arbitrary: s)
  case (Cons r rs)
  have "set (members (svr_group (mdnsd_add_rr s r)) n) =
      set (members (svr_group s) n) \<union> (if cmp_nlabel (rr_name (svr_store s ! r)) n then {r} else {})"
    by (auto simp: mdnsd_add_rr_def members_group_add rr_list_append_def)
  with Cons [of "mdnsd_add_rr s r"] show ?case by auto
qed simp

text \<open>Adding to the groups keeps a server sound.\<close>

lemma add_to_group_elems:
  "x \<in> set (add_to_group g name rr) \<Longrightarrow> set (snd x) \<subseteq> insert rr (\<Union>y \<in> set g. set (snd y))"
  by (induction g name rr rule: add_to_group.induct) (auto simp: rr_list_append_def split: if_splits)

lemma group_add_elems:
  "x \<in> set (rr_group_add st g rr) \<Longrightarrow> set (snd x) \<subseteq> insert rr (\<Union>y \<in> set g. set (snd y))"
  by (auto simp: rr_group_add_def Let_def rr_list_append_def dest: add_to_group_elems split: option.splits)

lemma add_rr_ok: "server_ok s \<Longrightarrow> r < length (svr_store s) \<Longrightarrow> server_ok (mdnsd_add_rr s r)"
  unfolding server_ok_def mdnsd_add_rr_def using group_add_elems by fastforce

lemma add_all_ok: "server_ok s \<Longrightarrow> \<forall>r \<in> set rs. r < length (svr_store s) \<Longrightarrow> server_ok (foldl mdnsd_add_rr s rs)"
  by (induction rs arbitrary: s) (simp_all add: add_rr_ok)

section \<open>A registered service is found\<close>

lemma add_txts_keeps: "add_txts rr ts = Some rr' \<Longrightarrow> rr_name rr' = rr_name rr \<and> rr_type rr' = rr_type rr"
proof (induction rr ts rule: add_txts.induct)
  case (2 rr t ts)
  then obtain rr1 where r1: "rr_add_txt rr t = Some rr1" "add_txts rr1 ts = Some rr'"
    by (auto split: bind_splits)
  have "rr_name rr1 = rr_name rr \<and> rr_type rr1 = rr_type rr"
    using r1(1) by (auto simp: rr_add_txt_def split: rr_data.splits list.splits option.splits)
  with "2.IH" [OF r1] show ?case by simp
qed simp

text \<open>What registering a service puts into the store: a \<open>TXT\<close> if there are texts, and three more.\<close>

lemma register_svc_entries:
  assumes "mdnsd_register_svc s inst ty port None txt = Some (s', es)" and "svr_hostname s = Some h"
  obtains tl nl txts where "create_nlabel ty = Some tl"
    "svr_store s' = svr_store s @ txts @ [rr_create_srv (dup_nlabel nl) port (dup_nlabel h),
       rr_create_ptr tl (length (svr_store s) + length txts),
       rr_create_ptr (dup_nlabel SERVICES_DNS_SD_NLABEL) (length (svr_store s) + length txts + 1)]"
    "\<forall>t \<in> set txts. rr_type t = RR_TXT \<and> rr_name t = dup_nlabel nl"
    "es = [length (svr_store s)..<length (svr_store s) + length txts + 1]"
    "svr_group s' = svr_group (foldl mdnsd_add_rr (s\<lparr>svr_store := svr_store s'\<rparr>)
       [length (svr_store s)..<length (svr_store s) + length txts + 3])"
proof (cases "txt = []")
  case True
  obtain tl il where t: "create_nlabel ty = Some tl" "create_label inst = Some il"
    using assms(1) by (auto simp: mdnsd_register_svc_def split: bind_splits)
  show thesis
    by (rule that [of tl "[]" "join_nlabel il tl"])
      (use assms t True in \<open>auto simp: mdnsd_register_svc_def new_entry_def Let_def numeral_3_eq_3 upt_rec\<close>)
next
  case False
  obtain tl il rr where t: "create_nlabel ty = Some tl" "create_label inst = Some il"
    "add_txts (rr_create (dup_nlabel (join_nlabel il tl)) RR_TXT) txt = Some rr"
    using assms(1) False by (auto simp: mdnsd_register_svc_def Let_def split: bind_splits)
  have "rr_type rr = RR_TXT \<and> rr_name rr = dup_nlabel (join_nlabel il tl)"
    using add_txts_keeps [OF t(3)] by (simp add: rr_create_def)
  then show thesis
    by (intro that [of tl "[rr]" "join_nlabel il tl"])
      (use assms t False in \<open>auto simp: mdnsd_register_svc_def new_entry_def Let_def numeral_3_eq_3 upt_rec\<close>)
qed

text \<open>Registering keeps the server sound and what it answered before, and adds the new entries.\<close>

lemma register_svc_ok:
  assumes "mdnsd_register_svc s inst ty port None txt = Some (s', es)" and "svr_hostname s = Some h" and "server_ok s"
  shows "server_ok s'"
proof -
  obtain tl nl txts where store: "svr_store s' = svr_store s @ txts @ [rr_create_srv (dup_nlabel nl) port (dup_nlabel h),
       rr_create_ptr tl (length (svr_store s) + length txts),
       rr_create_ptr (dup_nlabel SERVICES_DNS_SD_NLABEL) (length (svr_store s) + length txts + 1)]"
    and g: "svr_group s' = svr_group (foldl mdnsd_add_rr (s\<lparr>svr_store := svr_store s'\<rparr>)
       [length (svr_store s)..<length (svr_store s) + length txts + 3])"
    by (rule register_svc_entries [OF assms(1,2)])
  have st: "length (svr_store s') = length (svr_store s) + length txts + 3" by (simp add: store)
  have "server_ok (s\<lparr>svr_store := svr_store s'\<rparr>)" using assms(3) st by (fastforce simp: server_ok_def)
  then have "server_ok (foldl mdnsd_add_rr (s\<lparr>svr_store := svr_store s'\<rparr>)
      [length (svr_store s)..<length (svr_store s) + length txts + 3])"
    by (rule add_all_ok) (simp add: st)
  then show ?thesis by (simp add: server_ok_def g)
qed

lemma answers_for_grows:
  assumes "r \<in> set (answers_for s name t)" and "server_ok s"
    and "svr_store s' = svr_store s @ new" and "set (members (svr_group s) name) \<subseteq> set (members (svr_group s') name')"
    and "cstr name' = cstr name"
  shows "r \<in> set (answers_for s' name' t)"
  using assms answers_in_store [OF assms(2,1)]
  by (auto simp: answers_for_members nth_append cmp_nlabel_def Let_def)

lemma members_cong: "cstr n = cstr m \<Longrightarrow> members g n = members g m"
  by (simp add: members_def rr_group_find_def cmp_nlabel_def)


section \<open>Concrete inputs\<close>

definition host_example :: mdnsd where
  "host_example = \<lparr>svr_store = [rr_create_a (wire_name [[97]]) [10, 0, 0, 1]], svr_group = [(wire_name [[97]], [0])],
     svr_announce = [], svr_services = [], svr_hostname = Some (wire_name [[97]])\<rparr>"

definition browse_example :: "rr_entry mdns_pkt" where
  "browse_example = \<lparr>pkt_id = 0, pkt_flags = 0, num_qn = 1, num_ans_rr = 0, num_auth_rr = 0, num_add_rr = 0,
     rr_qn = [rr_create (wire_name [[98]]) RR_PTR], rr_ans = [], rr_auth = [], rr_add = []\<rparr>"

lemma host_example_ok: "server_ok host_example"
  by (simp add: server_ok_def host_example_def)



end
