(* ===== verification/Mdns_Parsing.thy ===== *)
theory Mdns_Parsing
  imports Mdns_Responder
begin

text \<open>
  Reading the packets that come in (\<open>tinysvcmdns.c\<close>), and one turn of the main loop: a datagram is
  parsed, answered and the answer written. The buffer is larger than the packet in it; what is behind
  the packet was left there by earlier ones.
\<close>

section \<open>Results of the parser\<close>

text \<open>The parser gives up, reads outside the buffer, or never returns.\<close>

datatype 'a parsed = Parsed 'a | Refused | Outside | Never

fun and_then :: "'a parsed \<Rightarrow> ('a \<Rightarrow> 'b parsed) \<Rightarrow> 'b parsed" where
  "and_then (Parsed x) f = f x"
| "and_then Refused f = Refused"
| "and_then Outside f = Outside"
| "and_then Never f = Never"

definition inside :: "'a option \<Rightarrow> 'a parsed" where
  "inside x = (case x of None \<Rightarrow> Outside | Some y \<Rightarrow> Parsed y)"

lemma inside_Some [simp]: "inside (Some x) = Parsed x"
  by (simp add: inside_def)

definition mdns_read_u16 :: "bytes \<Rightarrow> nat \<Rightarrow> u16 option" where
  "mdns_read_u16 pkt i = do { b0 \<leftarrow> rd pkt i; b1 \<leftarrow> rd pkt (i + 1); Some (push_bit 8 (ucast b0) OR ucast b1) }"

definition mdns_read_u32 :: "bytes \<Rightarrow> nat \<Rightarrow> u32 option" where
  "mdns_read_u32 pkt i =
     do { b0 \<leftarrow> rd pkt i; b1 \<leftarrow> rd pkt (i + 1); b2 \<leftarrow> rd pkt (i + 2); b3 \<leftarrow> rd pkt (i + 3);
          Some (push_bit 24 (ucast b0) OR push_bit 16 (ucast b1) OR push_bit 8 (ucast b2) OR ucast b3) }"

definition read_name :: "bytes \<Rightarrow> nat \<Rightarrow> nat \<Rightarrow> bytes parsed" where
  "read_name pkt pkt_len off =
     (case uncompress_nlabel pkt pkt_len off of
        None \<Rightarrow> Never
      | Some None \<Rightarrow> Outside
      | Some (Some None) \<Rightarrow> Refused
      | Some (Some (Some name)) \<Rightarrow> Parsed name)"

section \<open>Questions\<close>

text \<open>The entry and the number of bytes it took.\<close>

definition mdns_parse_qn :: "bytes \<Rightarrow> nat \<Rightarrow> nat \<Rightarrow> (rr_entry \<times> nat) parsed" where
  "mdns_parse_qn pkt pkt_len off =
     and_then (read_name pkt pkt_len off) (\<lambda>name.
     and_then (inside (label_len pkt pkt_len off)) (\<lambda>l.
     and_then (inside (mdns_read_u16 pkt (off + l))) (\<lambda>t.
     and_then (inside (rd pkt (off + l + 2))) (\<lambda>b.
     and_then (inside (mdns_read_u16 pkt (off + l + 2))) (\<lambda>c.
       Parsed (\<lparr>rr_name = name, rr_type = t, rr_ttl = 0, unicast_query = (b AND 0x80 = 0x80),
                cache_flush = False, rr_class = c AND NOT 0x80, rr_data = Data_none\<rparr>, l + 4))))))"

section \<open>Records\<close>

text \<open>The texts of a \<open>TXT\<close> from \<open>p\<close> to \<open>e\<close>, and the position behind the last.\<close>

function parse_texts :: "bytes \<Rightarrow> nat \<Rightarrow> nat \<Rightarrow> nat \<Rightarrow> bytes option list \<Rightarrow> (bytes option list \<times> nat) parsed" where
  "parse_texts pkt pkt_len p e ts =
     (case copy_label pkt pkt_len p of
        None \<Rightarrow> Outside
      | Some None \<Rightarrow> Refused
      | Some (Some []) \<Rightarrow> Outside
      | Some (Some (b # t)) \<Rightarrow>
          let p' = p + unat b + 1; ts' = ts @ [Some (b # t)]
          in if p' \<ge> e then Parsed (ts', p') else parse_texts pkt pkt_len p' e ts')"
  by pat_completeness auto
termination
  by (relation "measure (\<lambda>(pkt, pkt_len, p, e, ts). e - p)") auto

declare parse_texts.simps [simp del]

text \<open>The data of a record at \<open>p\<close>, of length \<open>n\<close>, and the position the parser goes on at.\<close>

definition parse_data :: "bytes \<Rightarrow> nat \<Rightarrow> nat \<Rightarrow> nat \<Rightarrow> u16 \<Rightarrow> (rr_data \<times> nat) parsed" where
  "parse_data pkt pkt_len p n t =
     (if t = RR_A
      then if n < 4 then Refused
           else and_then (inside (rd_block pkt p 4)) (\<lambda>addr. Parsed (Data_A addr, p + 4))
      else if t = RR_AAAA
      then if n < 16 then Refused
           else and_then (inside (rd_block pkt p 16)) (\<lambda>addr. Parsed (Data_AAAA addr, p + 16))
      else if t = RR_PTR
      then and_then (read_name pkt pkt_len p) (\<lambda>name. Parsed (Data_PTR (Some name) None, p + n))
      else if t = RR_TXT
      then if n = 0 then Parsed (Data_TXT [create_label [0]], p)
           else and_then (parse_texts pkt pkt_len p (p + n) []) (\<lambda>(ts, q). Parsed (Data_TXT ts, q))
      else Parsed (Data_none, p + n))"

definition mdns_parse_rr :: "bytes \<Rightarrow> nat \<Rightarrow> nat \<Rightarrow> (rr_entry \<times> nat) parsed" where
  "mdns_parse_rr pkt pkt_len off =
     (if off > pkt_len then Refused
      else
        and_then (read_name pkt pkt_len off) (\<lambda>name.
        and_then (inside (label_len pkt pkt_len off)) (\<lambda>l.
        and_then (inside (mdns_read_u16 pkt (off + l))) (\<lambda>t.
        and_then (inside (rd pkt (off + l + 2))) (\<lambda>b.
        and_then (inside (mdns_read_u16 pkt (off + l + 2))) (\<lambda>c.
        and_then (inside (mdns_read_u32 pkt (off + l + 4))) (\<lambda>ttl.
        and_then (inside (mdns_read_u16 pkt (off + l + 8))) (\<lambda>n.
          if off + l + 10 + unat n > pkt_len then Refused
          else and_then (parse_data pkt pkt_len (off + l + 10) (unat n) t) (\<lambda>(d, q).
            Parsed (\<lparr>rr_name = name, rr_type = t, rr_ttl = ttl, unicast_query = False,
                     cache_flush = (b AND 0x80 = 0x80), rr_class = c AND NOT 0x80, rr_data = d\<rparr>, q - off))))))))))"

section \<open>Packets\<close>

fun parse_section ::
    "(nat \<Rightarrow> (rr_entry \<times> nat) parsed) \<Rightarrow> nat \<Rightarrow> nat \<Rightarrow> rr_entry list \<Rightarrow> (rr_entry list \<times> nat) parsed" where
  "parse_section f 0 off es = Parsed (es, off)"
| "parse_section f (Suc n) off es =
     and_then (f off) (\<lambda>(e, l). if l = 0 then Refused else parse_section f n (off + l) (es @ [e]))"

text \<open>The authority and additional sections are not read.\<close>

definition mdns_parse_pkt :: "bytes \<Rightarrow> nat \<Rightarrow> rr_entry mdns_pkt parsed" where
  "mdns_parse_pkt pkt pkt_len =
     (if pkt_len < 12 then Refused
      else
        and_then (inside (mdns_read_u16 pkt 0)) (\<lambda>i.
        and_then (inside (mdns_read_u16 pkt 2)) (\<lambda>flags.
        and_then (inside (mdns_read_u16 pkt 4)) (\<lambda>qn.
        and_then (inside (mdns_read_u16 pkt 6)) (\<lambda>ans.
        and_then (inside (mdns_read_u16 pkt 8)) (\<lambda>auth.
        and_then (inside (mdns_read_u16 pkt 10)) (\<lambda>add.
        and_then (parse_section (mdns_parse_qn pkt pkt_len) (unat qn) 12 []) (\<lambda>(qs, off).
        and_then (parse_section (mdns_parse_rr pkt pkt_len) (unat ans) off []) (\<lambda>(rs, off).
          Parsed \<lparr>pkt_id = i, pkt_flags = flags, num_qn = qn, num_ans_rr = ans, num_auth_rr = auth,
                  num_add_rr = add, rr_qn = qs, rr_ans = rs, rr_auth = [], rr_add = []\<rparr>)))))))))"

section \<open>A turn of the main loop\<close>

definition PACKET_SIZE :: nat where
  "PACKET_SIZE = 65536"

text \<open>
  What a datagram of \<open>recvsize\<close> bytes in the buffer leads to: the buffer afterwards and, when an answer is
  sent, its length; the length is \<open>None\<close> for the -1 of a reply that does not fit.
\<close>

definition datagram :: "mdnsd \<Rightarrow> bytes \<Rightarrow> nat \<Rightarrow> (bytes \<times> nat option option) parsed" where
  "datagram s buffer recvsize =
     (case mdns_parse_pkt buffer recvsize of
        Never \<Rightarrow> Never
      | Outside \<Rightarrow> Outside
      | Refused \<Rightarrow> Parsed (buffer, None)
      | Parsed pkt \<Rightarrow>
          (case process_mdns_pkt s pkt of
             None \<Rightarrow> Never
           | Some None \<Rightarrow> Parsed (buffer, None)
           | Some (Some reply) \<Rightarrow>
               if num_ans_rr reply \<noteq> 0
               then and_then (inside (mdns_encode_pkt (svr_store s) reply buffer PACKET_SIZE))
                      (\<lambda>(buffer, n). Parsed (buffer, Some n))
               else Parsed (buffer, None)))"

section \<open>A query without compression\<close>

lemma read_u16_nctohs: "mdns_read_u16 pkt i = nctohs pkt i"
proof -
  have plus: "push_bit 8 (ucast a) OR ucast b = (push_bit 8 (ucast a) + ucast b :: u16)" for a b :: u8
    by (rule disjunctive_add [symmetric]) (auto simp: bit_simps dest: bit_imp_le_length)
  show ?thesis
  proof (cases "i + 2 \<le> length pkt")
    case True
    then have "take 2 (drop i pkt) = [pkt ! i, pkt ! (i + 1)]"
      by (metis Cons_nth_drop_Suc One_nat_def Suc_le_lessD add_2_eq_Suc' add_Suc_right add.right_neutral
          add_leD1 numeral_2_eq_2 take_0 take_Suc_Cons)
    then show ?thesis using True by (simp add: mdns_read_u16_def nctohs_def rd_def rd_block_def plus)
  next
    case False
    then show ?thesis by (auto simp: mdns_read_u16_def nctohs_def rd_def rd_block_def)
  qed
qed

text \<open>A question as its asker writes it.\<close>

definition question_bytes :: "bytes list \<times> u16 \<times> u16 \<Rightarrow> bytes" where
  "question_bytes q = (case q of (ls, t, c) \<Rightarrow> wire_name ls @ htons_bytes t @ htons_bytes c)"

definition question_entry :: "bytes list \<times> u16 \<times> u16 \<Rightarrow> rr_entry" where
  "question_entry q = (case q of (ls, t, c) \<Rightarrow>
     \<lparr>rr_name = wire_name ls, rr_type = t, rr_ttl = 0, unicast_query = bit c 15, cache_flush = False,
      rr_class = c AND NOT 0x80, rr_data = Data_none\<rparr>)"

lemma uncompress_loop_wire:
  assumes "list_all good_label ls" and "p = length pre" and "p + length (wire_name ls) \<le> pkt_len"
  shows "uncompress_loop (pre @ wire_name ls @ post) pkt_len p str = Some (Some (str @ wire_name ls))"
  using assms
proof (induction ls arbitrary: pre p str)
  case Nil
  then have "uncompress_step (pre @ wire_name [] @ post) pkt_len p = End"
    by (simp add: uncompress_step_def)
  then show ?case by (subst uncompress_loop.simps) simp
next
  case (Cons l ls)
  let ?pkt = "pre @ wire_name (l # ls) @ post"
  have "uncompress_step ?pkt pkt_len p = Piece (wire_label l) (p + length l + 1)"
    by (rule uncompress_step_label) (use Cons.prems in \<open>simp_all add: rd_def rd_block_def nth_append\<close>)
  then have "uncompress_loop ?pkt pkt_len p str = uncompress_loop ?pkt pkt_len (p + length l + 1) (str @ wire_label l)"
    by (subst uncompress_loop.simps) simp
  also have "\<dots> = uncompress_loop ((pre @ wire_label l) @ wire_name ls @ post) pkt_len (p + length l + 1) (str @ wire_label l)"
    by (simp add: wire_label_def)
  also have "\<dots> = Some (Some ((str @ wire_label l) @ wire_name ls))"
    by (rule Cons.IH) (use Cons.prems in \<open>simp_all add: wire_label_def\<close>)
  finally show ?case by (simp add: wire_label_def)
qed

lemma label_len_wire:
  assumes "list_all good_label ls" and "p = length pre" and "p + length (wire_name ls) \<le> pkt_len"
  shows "label_len_from (pre @ wire_name ls @ post) pkt_len p len = Some (len + length (wire_name ls))"
  using assms
proof (induction ls arbitrary: pre p len)
  case Nil
  then show ?case by (subst label_len_from.simps) simp
next
  case (Cons l ls)
  have good: "good_label l" using Cons.prems(1) by simp
  let ?pkt = "pre @ wire_name (l # ls) @ post"
  have "rd ?pkt p = Some (of_nat (length l))" using Cons.prems(2) by simp
  then have "label_len_from ?pkt pkt_len p len = label_len_from ?pkt pkt_len (p + length l + 1) (len + length l + 1)"
    using Cons.prems(3) good_label_length [OF good] good_label_nonzero [OF good] label_not_pointer [OF good]
    by (subst label_len_from.simps) simp
  also have "\<dots> = label_len_from ((pre @ wire_label l) @ wire_name ls @ post) pkt_len (p + length l + 1) (len + length l + 1)"
    by (simp add: wire_label_def)
  also have "\<dots> = Some (len + length l + 1 + length (wire_name ls))"
    by (rule Cons.IH) (use Cons.prems in \<open>simp_all add: wire_label_def\<close>)
  finally show ?case by simp
qed

lemma read_name_wire:
  assumes "list_all good_label ls" and "off = length pre" and "off + length (wire_name ls) \<le> pkt_len"
  shows "read_name (pre @ wire_name ls @ post) pkt_len off = Parsed (wire_name ls)"
proof -
  have "off < pkt_len" using assms(3) by (cases ls) auto
  then show ?thesis
    using uncompress_loop_wire [OF assms, of post "[]"] by (simp add: read_name_def uncompress_nlabel_def)
qed

lemma top_bit_mask: "bit (0x80 :: u8) n \<longleftrightarrow> n = 7"
proof -
  have "(0x80 :: u8) = push_bit 7 1" by (simp add: push_bit_eq_mult)
  then have "bit (0x80 :: u8) n \<longleftrightarrow> bit (push_bit 7 1 :: u8) n" by simp
  then show ?thesis by (simp only: bit_push_bit_iff bit_1_iff) (auto simp: not_le)
qed

lemma high_bit_of_class: "(ucast (drop_bit 8 c) :: u8) AND 0x80 = 0x80 \<longleftrightarrow> bit (c :: u16) 15"
proof -
  have "(x AND 0x80 = 0x80) \<longleftrightarrow> bit x 7" for x :: u8
  proof
    assume "x AND 0x80 = 0x80"
    then have "bit (x AND 0x80) 7 = bit (0x80 :: u8) 7" by (rule arg_cong)
    then show "bit x 7" by (auto simp only: bit_and_iff top_bit_mask)
  next
    assume "bit x 7"
    then show "x AND 0x80 = 0x80" by (intro bit_word_eqI) (auto simp only: bit_and_iff top_bit_mask)
  qed
  then show ?thesis by (simp add: bit_simps)
qed

lemma parse_question:
  assumes "list_all good_label (fst q)" and "off = length pre" and "off + length (question_bytes q) \<le> pkt_len"
  shows "mdns_parse_qn (pre @ question_bytes q @ post) pkt_len off = Parsed (question_entry q, length (question_bytes q))"
proof -
  obtain ls t c where q: "q = (ls, t, c)" by (cases q)
  let ?pkt = "pre @ question_bytes q @ post" and ?l = "length (wire_name ls)"
  have pkt: "?pkt = pre @ wire_name ls @ htons_bytes t @ htons_bytes c @ post" by (simp add: q question_bytes_def)
  have name: "read_name ?pkt pkt_len off = Parsed (wire_name ls)" "label_len ?pkt pkt_len off = Some ?l"
    using assms read_name_wire [of ls off pre pkt_len "htons_bytes t @ htons_bytes c @ post"]
      label_len_wire [of ls off pre pkt_len "htons_bytes t @ htons_bytes c @ post" 0]
    unfolding pkt by (simp_all add: q question_bytes_def label_len_def)
  have "nctohs ((pre @ wire_name ls) @ htons_bytes t @ htons_bytes c @ post) (off + ?l) = Some t"
    by (rule nctohs_at) (simp add: assms(2))
  then have t: "mdns_read_u16 ?pkt (off + ?l) = Some t" by (simp add: pkt read_u16_nctohs)
  have "nctohs ((pre @ wire_name ls @ htons_bytes t) @ htons_bytes c @ post) (off + ?l + 2) = Some c"
    by (rule nctohs_at) (simp add: assms(2))
  then have c: "mdns_read_u16 ?pkt (off + ?l + 2) = Some c" by (simp add: pkt read_u16_nctohs)
  have "rd ((pre @ wire_name ls @ htons_bytes t) @ htons_bytes c @ post) (off + ?l + 2) = Some (ucast (drop_bit 8 c))"
    using assms(2) by (simp add: rd_def nth_append htons_bytes_def)
  then have b: "rd ?pkt (off + ?l + 2) = Some (ucast (drop_bit 8 c))" by (simp add: pkt)
  show ?thesis
    unfolding mdns_parse_qn_def name and_then.simps inside_Some t b c high_bit_of_class
    by (simp add: q question_entry_def question_bytes_def)
qed

lemma parse_questions:
  assumes "\<forall>q \<in> set qs. list_all good_label (fst q)" and "off = length pre"
    and "off + length (concat (map question_bytes qs)) \<le> pkt_len"
  shows "parse_section (mdns_parse_qn (pre @ concat (map question_bytes qs) @ post) pkt_len) (length qs) off es
     = Parsed (es @ map question_entry qs, off + length (concat (map question_bytes qs)))"
  using assms
proof (induction qs arbitrary: pre off es)
  case (Cons q qs)
  let ?pkt = "pre @ concat (map question_bytes (q # qs)) @ post" and ?l = "length (question_bytes q)"
  have "mdns_parse_qn (pre @ question_bytes q @ concat (map question_bytes qs) @ post) pkt_len off
      = Parsed (question_entry q, ?l)"
    by (rule parse_question) (use Cons.prems in auto)
  moreover have "?l \<noteq> 0" by (cases q) (simp add: question_bytes_def)
  ultimately have "parse_section (mdns_parse_qn ?pkt pkt_len) (length (q # qs)) off es
      = parse_section (mdns_parse_qn ?pkt pkt_len) (length qs) (off + ?l) (es @ [question_entry q])" by simp
  also have "\<dots> = parse_section (mdns_parse_qn ((pre @ question_bytes q) @ concat (map question_bytes qs) @ post) pkt_len)
      (length qs) (off + ?l) (es @ [question_entry q])" by simp
  also have "\<dots> = Parsed ((es @ [question_entry q]) @ map question_entry qs, off + ?l + length (concat (map question_bytes qs)))"
    by (rule Cons.IH) (use Cons.prems in auto)
  finally show ?case by simp
qed simp

text \<open>
  A query whose questions have uncompressed names is parsed as exactly these questions, whatever
  earlier packets have left behind it in the buffer.
\<close>
lemma query_parsed:
  assumes "\<forall>q \<in> set qs. list_all good_label (fst q)" and "length qs < 65536"
    and "num_qn h = of_nat (length qs)" "num_ans_rr h = 0"
    and "pkt_len = 12 + length (concat (map question_bytes qs))"
  shows "mdns_parse_pkt (header_bytes h @ concat (map question_bytes qs) @ stale) pkt_len =
     Parsed \<lparr>pkt_id = pkt_id h, pkt_flags = pkt_flags h, num_qn = num_qn h, num_ans_rr = 0,
             num_auth_rr = num_auth_rr h, num_add_rr = num_add_rr h, rr_qn = map question_entry qs, rr_ans = [],
             rr_auth = [], rr_add = []\<rparr>"
proof -
  let ?rest = "concat (map question_bytes qs) @ stale"
  have u16: "mdns_read_u16 (header_bytes h @ ?rest) 0 = Some (pkt_id h)"
    "mdns_read_u16 (header_bytes h @ ?rest) 2 = Some (pkt_flags h)"
    "mdns_read_u16 (header_bytes h @ ?rest) 4 = Some (num_qn h)"
    "mdns_read_u16 (header_bytes h @ ?rest) 6 = Some (num_ans_rr h)"
    "mdns_read_u16 (header_bytes h @ ?rest) 8 = Some (num_auth_rr h)"
    "mdns_read_u16 (header_bytes h @ ?rest) 10 = Some (num_add_rr h)"
    using nctohs_at [of 0 "[]"] nctohs_at [of 2 "htons_bytes (pkt_id h)"]
      nctohs_at [of 4 "htons_bytes (pkt_id h) @ htons_bytes (pkt_flags h)"]
      nctohs_at [of 6 "htons_bytes (pkt_id h) @ htons_bytes (pkt_flags h) @ htons_bytes (num_qn h)"]
      nctohs_at [of 8 "htons_bytes (pkt_id h) @ htons_bytes (pkt_flags h) @ htons_bytes (num_qn h) @ htons_bytes (num_ans_rr h)"]
      nctohs_at [of 10 "htons_bytes (pkt_id h) @ htons_bytes (pkt_flags h) @ htons_bytes (num_qn h) @ htons_bytes (num_ans_rr h) @
        htons_bytes (num_auth_rr h)"]
    by (simp_all add: read_u16_nctohs header_bytes_def)
  have n: "unat (num_qn h) = length qs" using assms(2,3) by (simp add: unat_of_nat take_bit_nat_eq_self)
  have "parse_section (mdns_parse_qn (header_bytes h @ ?rest) pkt_len) (length qs) 12 []
      = Parsed ([] @ map question_entry qs, 12 + length (concat (map question_bytes qs)))"
    by (rule parse_questions) (use assms in simp_all)
  then show ?thesis
    using assms(4,5) unfolding mdns_parse_pkt_def u16 inside_Some and_then.simps n by simp
qed

text \<open>
  A \<open>PTR\<close> question for the labels \<open>_r\<close> and \<open>l\<close> that asks for a unicast answer (class 0x8001): the parser
  takes the high bit as the wish and keeps it in the class, because the bit it clears is 0x80.
\<close>

lemma query_parsed_witness:
  "mdns_parse_pkt (header_bytes \<lparr>pkt_id = 7, pkt_flags = 0, num_qn = 1, num_ans_rr = 0, num_auth_rr = 0,
        num_add_rr = 0, rr_qn = [], rr_ans = [], rr_auth = [], rr_add = []\<rparr> @
      concat (map question_bytes [([[95, 114], [108]], 12, 0x8001)]) @ [9, 9]) 22 =
   Parsed \<lparr>pkt_id = 7, pkt_flags = 0, num_qn = 1, num_ans_rr = 0, num_auth_rr = 0, num_add_rr = 0,
     rr_qn = [\<lparr>rr_name = [2, 95, 114, 1, 108, 0], rr_type = 12, rr_ttl = 0, unicast_query = True,
               cache_flush = False, rr_class = 0x8001, rr_data = Data_none\<rparr>],
     rr_ans = [], rr_auth = [], rr_add = []\<rparr>"
  using query_parsed [of "[([[95, 114], [108]], 12, 0x8001)]"
      "\<lparr>pkt_id = 7, pkt_flags = 0, num_qn = 1, num_ans_rr = 0, num_auth_rr = 0,
        num_add_rr = 0, rr_qn = [], rr_ans = [], rr_auth = [], rr_add = []\<rparr>" 22 "[9, 9]"]
  by (simp add: good_label_def question_bytes_def question_entry_def wire_label_def htons_bytes_def)

end
