(* ===== verification/Http_Parser.thy ===== *)
theory Http_Parser
  imports Prelude
begin

text \<open>
  The HTTP client parser (\<open>tinyhttp\<close>): the tables for header characters (\<open>header.c\<close>) and chunk heads
  (\<open>chunk.c\<close>), and \<open>http_data\<close> (\<open>http.c\<close>), which is given the response in whatever pieces arrive and calls back
  with the code, the headers and the body. A \<open>char\<close> is signed; an overflowing \<open>int\<close> is \<open>None\<close>.
\<close>

section \<open>Chunk heads\<close>

definition http_chunk_state :: "nat list" where
  "http_chunk_state =
     [0xC1, 0xC1, 0xC1,    1,
      0xC1, 0xC1,    2, 0x81,
      0xC1, 0x83, 0xC1, 0xC1,
      0xC1, 0xC1,    4, 0xC1,
      0xC1, 0xC0, 0xC1, 0xC1]"

definition is_hex :: "u8 \<Rightarrow> bool" where
  "is_hex ch \<longleftrightarrow> 0x30 \<le> ch \<and> ch \<le> 0x39 \<or> 0x61 \<le> ch \<and> ch \<le> 0x66 \<or> 0x41 \<le> ch \<and> ch \<le> 0x46"

definition chunk_column :: "u8 \<Rightarrow> nat" where
  "chunk_column ch = (if ch = 0x0A then 1 else if ch = 0x0D then 2 else if is_hex ch then 3 else 0)"

definition add_hex :: "int \<Rightarrow> u8 \<Rightarrow> int option" where
  "add_hex n ch =
     do { n \<leftarrow> i32_of (n * 16);
          i32_of (n + (if 0x61 \<le> sint ch then sint ch - 0x61 + 10
                       else if 0x41 \<le> sint ch then sint ch - 0x41 + 10 else sint ch - 0x30)) }"

text \<open>The state, the size, and whether more of the head is to come.\<close>

definition http_parse_chunked :: "nat \<Rightarrow> int \<Rightarrow> u8 \<Rightarrow> (nat \<times> int \<times> bool) option" where
  "http_parse_chunked st n ch =
     do { newstate \<leftarrow> rd http_chunk_state (st * 4 + chunk_column ch);
          let st = newstate AND 0xF;
          if newstate = 0xC0 then Some (st, n, n \<noteq> 0)
          else if newstate = 0xC1 then Some (st, - 1, False)
          else if newstate = 1 then map_option (\<lambda>n. (st, n, True)) (add_hex 0 ch)
          else if newstate = 0x81 then map_option (\<lambda>n. (st, n, True)) (add_hex n ch)
          else if newstate = 0x83 then Some (st, n, n = 0)
          else Some (st, n, True) }"

section \<open>Header characters\<close>

datatype http_header_status = http_header_status_done | http_header_status_continue |
  http_header_status_version_character | http_header_status_code_character | http_header_status_status_character |
  http_header_status_key_character | http_header_status_value_character | http_header_status_store_keyvalue

definition http_header_state :: "nat list" where
  "http_header_state =
     [0x80,    1, 0xC1, 0xC1,    1, 0x80, 0x80, 0xC1,
      0x81,    2, 0xC1, 0xC1,    2,    1,    1, 0xC1,
      0x82, 0x82,    4,    3, 0x82, 0x82, 0x82, 0xC1,
      0xC1, 0xC1,    4, 0xC1, 0xC1, 0xC1, 0xC1, 0xC1,
      0x84, 0xC1, 0xC0,    5, 0xC1, 0xC1,    6, 0xC1,
      0xC1, 0xC1, 0xC0, 0xC1, 0xC1, 0xC1, 0xC1, 0xC1,
      0x87,    6, 0xC1, 0xC1,    6, 0x87, 0x87, 0xC1,
      0x87, 0x87, 0xC4,   10, 0x87, 0x88, 0x87, 0xC1,
      0x87, 0x88,    6,    9, 0x88, 0x88, 0x87, 0xC1,
      0xC1, 0xC1,    6, 0xC1, 0xC1, 0xC1, 0xC1, 0xC1,
      0xC1, 0xC1, 0xC4, 0xC1, 0xC1, 0xC1, 0xC1, 0xC1]"

definition header_column :: "u8 \<Rightarrow> nat" where
  "header_column ch =
     (if ch = 0x09 then 1 else if ch = 0x0A then 2 else if ch = 0x0D then 3 else if ch = 0x20 then 4
      else if ch = 0x2C then 5 else if ch = 0x3A then 6 else 0)"

definition header_status :: "nat \<Rightarrow> http_header_status" where
  "header_status newstate =
     (if newstate = 0xC0 \<or> newstate = 0xC1 then http_header_status_done
      else if newstate = 0xC4 then http_header_status_store_keyvalue
      else if newstate = 0x80 then http_header_status_version_character
      else if newstate = 0x81 then http_header_status_code_character
      else if newstate = 0x82 then http_header_status_status_character
      else if newstate = 0x84 then http_header_status_key_character
      else if newstate = 0x87 \<or> newstate = 0x88 then http_header_status_value_character
      else http_header_status_continue)"

definition http_parse_header_char :: "nat \<Rightarrow> u8 \<Rightarrow> (http_header_status \<times> nat) option" where
  "http_parse_header_char st ch =
     map_option (\<lambda>newstate. (header_status newstate, newstate AND 0xF)) (rd http_header_state (st * 8 + header_column ch))"

section \<open>The parser\<close>

datatype http_roundtripper_state = http_roundtripper_header | http_roundtripper_chunk_header | http_roundtripper_chunk_data |
  http_roundtripper_raw_data | http_roundtripper_unknown_data | http_roundtripper_close | http_roundtripper_error

record http_roundtripper =
  scratch :: bytes
  rcode :: int
  parsestate :: nat
  contentlength :: int
  rstate :: http_roundtripper_state
  nscratch :: nat
  nkey :: nat
  nvalue :: nat
  chunked :: bool

text \<open>The calls back.\<close>

datatype http_call = Code_call int | Header_call bytes bytes | Body_call bytes

definition http_init :: http_roundtripper where
  "http_init = \<lparr>scratch = [], rcode = 0, parsestate = 0, contentlength = - 1, rstate = http_roundtripper_header,
     nscratch = 0, nkey = 0, nvalue = 0, chunked = False\<rparr>"

text \<open>
  \<open>R\<close> is the \<open>realloc\<close> of the caller: the old block and the new size to the new block. A block that has been
  freed is empty, like none at all.
\<close>

definition grow_scratch :: "(bytes \<Rightarrow> nat \<Rightarrow> bytes) \<Rightarrow> nat \<Rightarrow> http_roundtripper \<Rightarrow> http_roundtripper" where
  "grow_scratch R n rt =
     (if n \<le> nscratch rt then rt
      else let n = (if n < 64 then 64 else n);
               nsize = max n (nscratch rt * 3 div 2)
           in rt\<lparr>scratch := R (scratch rt) nsize, nscratch := nsize\<rparr>)"

definition http_free :: "http_roundtripper \<Rightarrow> http_roundtripper" where
  "http_free rt = rt\<lparr>scratch := []\<rparr>"

definition tolower :: "u8 \<Rightarrow> u8" where
  "tolower ch = (if 0x41 \<le> ch \<and> ch \<le> 0x5A then ch + 0x20 else ch)"

definition add_digit :: "int \<Rightarrow> u8 \<Rightarrow> int option" where
  "add_digit n ch = do { n \<leftarrow> i32_of (n * 10); n \<leftarrow> i32_of (n + sint ch); i32_of (n - 0x30) }"

primrec add_digits :: "int \<Rightarrow> bytes \<Rightarrow> int option" where
  "add_digits n [] = Some n"
| "add_digits n (ch # chs) = do { n \<leftarrow> add_digit n ch; add_digits n chs }"

definition put_scratch :: "(bytes \<Rightarrow> nat \<Rightarrow> bytes) \<Rightarrow> nat \<Rightarrow> u8 \<Rightarrow> http_roundtripper \<Rightarrow> http_roundtripper option" where
  "put_scratch R i ch rt =
     do { let rt = grow_scratch R (i + 1) rt;
          s \<leftarrow> wr (scratch rt) i ch;
          Some (rt\<lparr>scratch := s\<rparr>) }"

text \<open>The two headers the parser itself looks at.\<close>

definition note_header :: "bytes \<Rightarrow> bytes \<Rightarrow> http_roundtripper \<Rightarrow> http_roundtripper option" where
  "note_header key val rt =
     (if key = ascii ''transfer-encoding'' then Some (rt\<lparr>chunked := val = ascii ''chunked''\<rparr>)
      else if key = ascii ''content-length'' then map_option (\<lambda>n. rt\<lparr>contentlength := n\<rparr>) (add_digits 0 val)
      else Some rt)"

definition store_keyvalue :: "http_roundtripper \<Rightarrow> (http_roundtripper \<times> http_call list) option" where
  "store_keyvalue rt =
     do { key \<leftarrow> rd_block (scratch rt) 0 (nkey rt);
          val \<leftarrow> rd_block (scratch rt) (nkey rt) (nvalue rt);
          rt \<leftarrow> note_header key val rt;
          Some (rt\<lparr>nkey := 0, nvalue := 0\<rparr>, [Header_call key val]) }"

definition headers_done :: "http_roundtripper \<Rightarrow> http_roundtripper" where
  "headers_done rt =
     (if parsestate rt \<noteq> 0 then rt\<lparr>rstate := http_roundtripper_error\<rparr>
      else if chunked rt then rt\<lparr>contentlength := 0, rstate := http_roundtripper_chunk_header\<rparr>
      else if contentlength rt = 0 then rt\<lparr>rstate := http_roundtripper_close\<rparr>
      else if contentlength rt > 0 then rt\<lparr>rstate := http_roundtripper_raw_data\<rparr>
      else if contentlength rt = - 1 then rt\<lparr>rstate := http_roundtripper_unknown_data\<rparr>
      else rt\<lparr>rstate := http_roundtripper_error\<rparr>)"

definition header_char :: "(bytes \<Rightarrow> nat \<Rightarrow> bytes) \<Rightarrow> u8 \<Rightarrow> http_roundtripper \<Rightarrow> (http_roundtripper \<times> http_call list) option" where
  "header_char R ch rt =
     do { (status, ps) \<leftarrow> http_parse_header_char (parsestate rt) ch;
          let rt = rt\<lparr>parsestate := ps\<rparr>;
          (case status of
             http_header_status_done \<Rightarrow> Some (headers_done rt, [Code_call (rcode rt)])
           | http_header_status_code_character \<Rightarrow> map_option (\<lambda>n. (rt\<lparr>rcode := n\<rparr>, [])) (add_digit (rcode rt) ch)
           | http_header_status_key_character \<Rightarrow>
               map_option (\<lambda>rt. (rt\<lparr>nkey := nkey rt + 1\<rparr>, [])) (put_scratch R (nkey rt) (tolower ch) rt)
           | http_header_status_value_character \<Rightarrow>
               map_option (\<lambda>rt. (rt\<lparr>nvalue := nvalue rt + 1\<rparr>, [])) (put_scratch R (nkey rt + nvalue rt) ch rt)
           | http_header_status_store_keyvalue \<Rightarrow> store_keyvalue rt
           | _ \<Rightarrow> Some (rt, [])) }"

definition chunk_head_char :: "u8 \<Rightarrow> http_roundtripper \<Rightarrow> http_roundtripper option" where
  "chunk_head_char ch rt =
     do { (ps, n, again) \<leftarrow> http_parse_chunked (parsestate rt) (contentlength rt) ch;
          let rt = rt\<lparr>parsestate := ps, contentlength := n\<rparr>;
          Some (if again then rt
                else if n = - 1 then rt\<lparr>rstate := http_roundtripper_error\<rparr>
                else if n = 0 then rt\<lparr>rstate := http_roundtripper_close\<rparr>
                else rt\<lparr>rstate := http_roundtripper_chunk_data\<rparr>) }"

text \<open>A turn of the loop, on data that are not empty: the parser, the calls and how many bytes it takes.\<close>

definition take_body :: "bytes \<Rightarrow> http_roundtripper \<Rightarrow> http_roundtripper \<times> http_call list \<times> nat" where
  "take_body data rt =
     (let chunksize = nat (min (int (length data)) (contentlength rt))
      in (rt\<lparr>contentlength := contentlength rt - int chunksize\<rparr>, [Body_call (take chunksize data)], chunksize))"

definition http_turn ::
    "(bytes \<Rightarrow> nat \<Rightarrow> bytes) \<Rightarrow> bytes \<Rightarrow> http_roundtripper \<Rightarrow> (http_roundtripper \<times> http_call list \<times> nat) option" where
  "http_turn R data rt =
     (case rstate rt of
        http_roundtripper_header \<Rightarrow> map_option (\<lambda>(rt, calls). (rt, calls, 1)) (header_char R (hd data) rt)
      | http_roundtripper_chunk_header \<Rightarrow> map_option (\<lambda>rt. (rt, [], 1)) (chunk_head_char (hd data) rt)
      | http_roundtripper_chunk_data \<Rightarrow>
          (case take_body data rt of (rt, calls, n) \<Rightarrow>
             Some (if contentlength rt = 0 then rt\<lparr>contentlength := 1, rstate := http_roundtripper_chunk_header\<rparr> else rt, calls, n))
      | http_roundtripper_raw_data \<Rightarrow>
          (case take_body data rt of (rt, calls, n) \<Rightarrow>
             Some (if contentlength rt = 0 then rt\<lparr>rstate := http_roundtripper_close\<rparr> else rt, calls, n))
      | http_roundtripper_unknown_data \<Rightarrow> Some (rt, [Body_call data], length data)
      | _ \<Rightarrow> Some (rt, [], 0))"

definition at_end :: "http_roundtripper \<Rightarrow> bool" where
  "at_end rt \<longleftrightarrow> rstate rt = http_roundtripper_error \<or> rstate rt = http_roundtripper_close"

text \<open>
  \<open>http_data\<close>: the parser, the calls, how many bytes were read and whether it needs more. \<open>None\<close> is undefined
  behaviour or a loop that does not end.
\<close>

partial_function (option) http_data :: "(bytes \<Rightarrow> nat \<Rightarrow> bytes) \<Rightarrow> http_roundtripper \<Rightarrow> bytes \<Rightarrow>
    (http_roundtripper \<times> http_call list \<times> nat \<times> bool) option" where
  "http_data R rt data =
     (if data = [] then Some (rt, [], 0, True)
      else do { (rt, calls, n) \<leftarrow> http_turn R data rt;
                if at_end rt then Some (http_free rt, calls, n, False)
                else do { (rt, calls', n', again) \<leftarrow> http_data R rt (drop n data);
                          Some (rt, calls @ calls', n + n', again) } })"

definition http_iserror :: "http_roundtripper \<Rightarrow> bool" where
  "http_iserror rt \<longleftrightarrow> rstate rt = http_roundtripper_error"

end
