(* ===== verification/Dacp_Client.thy ===== *)
theory Dacp_Client
  imports Http_Parser "HOL-Library.Signed_Division"
begin

text \<open>
  The remote control of the client, DACP (\<open>dacp.c\<close>): a command is an HTTP request, the reply is read with
  \<open>tinyhttp\<close>, and its body is a tree of items with a type, a length and a value. With these commands the volume of
  this speaker is read and set.
\<close>

unbundle bit_operations_syntax

section \<open>The reply\<close>

text \<open>\<open>realloc\<close>; the contents of new memory are arbitrary.\<close>

definition response_realloc :: "(nat \<Rightarrow> u8) \<Rightarrow> bytes \<Rightarrow> nat \<Rightarrow> bytes" where
  "response_realloc fresh ptr n = take n ptr @ map fresh [length ptr..<n]"

record http_response =
  rsp_body :: "bytes option"
  malloced_size :: nat
  rsp_size :: nat
  rsp_code :: int

definition no_response :: http_response where
  "no_response = \<lparr>rsp_body = None, malloced_size = 0, rsp_size = 0, rsp_code = 0\<rparr>"

definition response_body :: "(nat \<Rightarrow> u8) \<Rightarrow> bytes \<Rightarrow> http_response \<Rightarrow> http_response option" where
  "response_body fresh data rsp =
     do { block \<leftarrow> rsp_body rsp;
          let space_available = int (malloced_size rsp) - int (rsp_size rsp);
          let (block, malloced) =
            (if space_available < int (length data)
             then let size_requested = nat (int (length data) - space_available + int (malloced_size rsp) + 16384)
                  in (response_realloc fresh block size_requested, size_requested)
             else (block, malloced_size rsp));
          block \<leftarrow> wr_block block (rsp_size rsp) data;
          Some (rsp\<lparr>rsp_body := Some block, malloced_size := malloced, rsp_size := rsp_size rsp + length data\<rparr>) }"

definition response_code :: "int \<Rightarrow> http_response \<Rightarrow> http_response" where
  "response_code n rsp = rsp\<lparr>rsp_code := n\<rparr>"

fun response_call :: "(nat \<Rightarrow> u8) \<Rightarrow> http_call \<Rightarrow> http_response \<Rightarrow> http_response option" where
  "response_call fresh (Code_call n) rsp = Some (response_code n rsp)"
| "response_call fresh (Header_call key val) rsp = Some rsp"
| "response_call fresh (Body_call data) rsp = response_body fresh data rsp"

primrec response_calls :: "(nat \<Rightarrow> u8) \<Rightarrow> http_call list \<Rightarrow> http_response \<Rightarrow> http_response option" where
  "response_calls fresh [] rsp = Some rsp"
| "response_calls fresh (c # cs) rsp = do { rsp \<leftarrow> response_call fresh c rsp; response_calls fresh cs rsp }"

section \<open>A command\<close>

text \<open>What a \<open>recv\<close> gives; a peer that sends nothing more within half a second is an error.\<close>

datatype recv_result = Received bytes | Peer_gone | Recv_error

partial_function (option) take_data :: "(nat \<Rightarrow> u8) \<Rightarrow> http_roundtripper \<Rightarrow> http_response \<Rightarrow> bytes \<Rightarrow>
    (http_roundtripper \<times> http_response \<times> bool) option" where
  "take_data fresh rt rsp data =
     (if data = [] then Some (rt, rsp, True)
      else do { (rt, calls, n, again) \<leftarrow> http_data (response_realloc fresh) rt data;
                rsp \<leftarrow> response_calls fresh calls rsp;
                if again then take_data fresh rt rsp (drop n data) else Some (rt, rsp, False) })"

definition receiving_failed :: "http_response \<Rightarrow> http_response" where
  "receiving_failed rsp = rsp\<lparr>rsp_body := None, malloced_size := 0, rsp_size := 0, rsp_code := 495\<rparr>"

fun recv_loop :: "(nat \<Rightarrow> u8) \<Rightarrow> recv_result list \<Rightarrow> http_roundtripper \<Rightarrow> http_response \<Rightarrow>
    (http_roundtripper \<times> http_response) option" where
  "recv_loop fresh (Received data # rs) rt rsp =
     (if data = [] then Some (rt, receiving_failed rsp)
      else do { (rt, rsp, again) \<leftarrow> take_data fresh rt rsp data;
                if again then recv_loop fresh rs rt rsp else Some (rt, rsp) })"
| "recv_loop fresh _ rt rsp = Some (rt, receiving_failed rsp)"

definition converse :: "(nat \<Rightarrow> u8) \<Rightarrow> recv_result list \<Rightarrow> http_response option" where
  "converse fresh rs =
     do { (rt, rsp) \<leftarrow> recv_loop fresh rs http_init (no_response\<lparr>rsp_body := Some (map fresh [0..<2048]), malloced_size := 2048\<rparr>);
          Some (if http_iserror rt then rsp\<lparr>rsp_body := None, malloced_size := 0, rsp_size := 0\<rparr> else rsp) }"

text \<open>How far an attempt to reach the client gets; the codes are the program's own.\<close>

datatype reached = Bad_address | Busy | No_socket | Refused | Not_connected | Not_sent | Connected "recv_result list"

definition dacp_exchange :: "(nat \<Rightarrow> u8) \<Rightarrow> reached \<Rightarrow> http_response option" where
  "dacp_exchange fresh r =
     (case r of
        Bad_address \<Rightarrow> Some (response_code 498 no_response)
      | Busy \<Rightarrow> Some (response_code 494 no_response)
      | No_socket \<Rightarrow> Some (response_code 497 no_response)
      | Refused \<Rightarrow> Some (response_code 491 no_response)
      | Not_connected \<Rightarrow> Some (response_code 496 no_response)
      | Not_sent \<Rightarrow> Some (response_code 493 no_response)
      | Connected rs \<Rightarrow> converse fresh rs)"

text \<open>The client that is to be controlled.\<close>

record dacp_server_record =
  players_connection_thread_index :: nat
  scan_enable :: bool
  server_dacp_id :: bytes
  server_port :: u16
  connection_family :: nat
  always_use_revision_number_1 :: bool
  scope_id :: u32
  ip_string :: bytes
  active_remote_id :: "bytes option"

definition no_server :: dacp_server_record where
  "no_server = \<lparr>players_connection_thread_index = 0, scan_enable = False, server_dacp_id = [], server_port = 0,
     connection_family = 0, always_use_revision_number_1 = False, scope_id = 0, ip_string = [], active_remote_id = None\<rparr>"

text \<open>Its address, with the scope for an IPv6 link, and the request; \<open>message\<close> is cut off after 1,023 bytes.\<close>

definition AF_INET6 :: nat where
  "AF_INET6 = 10"

definition server_address :: "dacp_server_record \<Rightarrow> bytes" where
  "server_address s =
     (if connection_family s = AF_INET6 then take 1023 (ip_string s @ ascii (''%'' @ decimal (uint (scope_id s)))) else ip_string s)"

definition crlf :: bytes where
  "crlf = [0x0D, 0x0A]"

definition control_message :: "dacp_server_record \<Rightarrow> string \<Rightarrow> bytes" where
  "control_message s command =
     take 1023 (ascii (''GET /ctrl-int/1/'' @ command @ '' HTTP/1.1'') @ crlf @
       ascii ''Host: '' @ ip_string s @ ascii ('':'' @ decimal (uint (server_port s))) @ crlf @
       ascii ''Active-Remote: '' @ (case active_remote_id s of None \<Rightarrow> ascii ''(null)'' | Some r \<Rightarrow> r) @ crlf @ crlf)"

text \<open>
  The world outside: the client, new memory, and what becomes of a message to a port of an address.
\<close>

record 'w dacp_net =
  dacp_server :: dacp_server_record
  new_memory :: "nat \<Rightarrow> u8"
  network :: "bytes \<Rightarrow> u16 \<Rightarrow> bytes \<Rightarrow> 'w \<Rightarrow> reached \<times> 'w"

definition dacp_request :: "'w dacp_net \<Rightarrow> string \<Rightarrow> 'w \<Rightarrow> reached \<times> 'w" where
  "dacp_request net command w =
     (let s = dacp_server net in network net (server_address s) (server_port s) (control_message s command) w)"

definition dacp_send_command :: "'w dacp_net \<Rightarrow> string \<Rightarrow> 'w \<Rightarrow> (http_response \<times> 'w) option" where
  "dacp_send_command net command w =
     (if server_port (dacp_server net) = 0 then Some (response_code 490 no_response, w)
      else case dacp_request net command w of (r, w) \<Rightarrow> map_option (\<lambda>rsp. (rsp, w)) (dacp_exchange (new_memory net) r))"

definition send_simple_dacp_command :: "'w dacp_net \<Rightarrow> string \<Rightarrow> 'w \<Rightarrow> (int \<times> 'w) option" where
  "send_simple_dacp_command net command w = map_option (\<lambda>(rsp, w). (rsp_code rsp, w)) (dacp_send_command net command w)"

section \<open>Items\<close>

text \<open>A position in the body is a pointer that lengths may move anywhere; only what is read must lie inside.\<close>

definition read32 :: "bytes \<Rightarrow> int \<Rightarrow> u32 option" where
  "read32 block p = (if p < 0 then None else nctohl block (nat p))"

definition dacp_tlv_crawl :: "bytes \<Rightarrow> int \<Rightarrow> (u32 \<times> int \<times> int) option" where
  "dacp_tlv_crawl block p =
     do { type \<leftarrow> read32 block p;
          length \<leftarrow> read32 block (p + 4);
          Some (type, sint length, p + 8 + sint length) }"

text \<open>\<open>item_size + 8\<close> is an \<open>int\<close>.\<close>

partial_function (option) volume_loop :: "bytes \<Rightarrow> int \<Rightarrow> int \<Rightarrow> int \<Rightarrow> int option" where
  "volume_loop block sp le overall_volume =
     (if le < 8 then Some overall_volume
      else do { (type, item_size, sp) \<leftarrow> dacp_tlv_crawl block sp;
                taken \<leftarrow> i32_of (item_size + 8);
                overall_volume \<leftarrow> (if type = four_cc ''cmvo'' then map_option sint (read32 block (sp - item_size)) else Some overall_volume);
                volume_loop block sp (le - taken) overall_volume })"

definition volume_in_reply :: "bytes \<Rightarrow> nat \<Rightarrow> int option" where
  "volume_in_reply block reply_size =
     (if reply_size < 8 then Some (- 1)
      else do { (type, item_size, sp) \<leftarrow> dacp_tlv_crawl block 0;
                if type = four_cc ''cmgt'' then volume_loop block (sp - item_size) (int reply_size - 8) (- 1) else Some (- 1) })"

text \<open>A reply of code 200 without a body, which the parser does not give, would be read at address 0.\<close>

definition dacp_get_client_volume :: "'w dacp_net \<Rightarrow> 'w \<Rightarrow> (int \<times> int \<times> 'w) option" where
  "dacp_get_client_volume net w =
     do { (rsp, w) \<leftarrow> dacp_send_command net ''getproperty?properties=dmcp.volume'' w;
          overall_volume \<leftarrow> (if rsp_code rsp = 200
             then (case rsp_body rsp of
                     None \<Rightarrow> if rsp_size rsp < 8 then Some (- 1) else None
                   | Some block \<Rightarrow> volume_in_reply block (rsp_size rsp))
             else Some (- 1));
          Some (rsp_code rsp, overall_volume, w) }"

section \<open>Speakers\<close>

record dacp_speaker_stuff =
  speaker_number :: i64
  active :: bool
  rel_volume :: int
  speaker_name :: bytes

text \<open>
  \<open>strncpy\<close> and the last byte set to zero: up to 127 bytes before a zero byte, whatever the length of the item.
\<close>

definition copied_name :: "bytes \<Rightarrow> int \<Rightarrow> bytes option" where
  "copied_name block p =
     (if p < 0 then None
      else let s = take 128 (drop (nat p) block)
           in if length s = 128 \<or> 0 \<in> set s then Some (take 127 (takeWhile (\<lambda>b. b \<noteq> 0) s)) else None)"

text \<open>
  The entries up to \<open>speaker_index\<close>; an item in front of the first dictionary would be put at index -1. \<open>Inl\<close> is
  the return in the middle.
\<close>

definition change_last :: "('a \<Rightarrow> 'a) \<Rightarrow> 'a list \<Rightarrow> 'a list option" where
  "change_last f xs = (if xs = [] then None else Some (butlast xs @ [f (last xs)]))"

definition speaker_item :: "bytes \<Rightarrow> u32 \<Rightarrow> int \<Rightarrow> dacp_speaker_stuff list \<Rightarrow> dacp_speaker_stuff list option" where
  "speaker_item block type t spk =
     (if type = four_cc ''minm'' then do { s \<leftarrow> copied_name block t; change_last (\<lambda>x. x\<lparr>speaker_name := s\<rparr>) spk }
      else if type = four_cc ''cmvo'' then do { r \<leftarrow> read32 block t; change_last (\<lambda>x. x\<lparr>rel_volume := sint r\<rparr>) spk }
      else if type = four_cc ''msma''
           then do { s \<leftarrow> read32 block t; v \<leftarrow> read32 block (t + 4);
                     change_last (\<lambda>x. x\<lparr>speaker_number := push_bit 32 (ucast s) + ucast v\<rparr>) spk }
      else if type = four_cc ''caia'' then change_last (\<lambda>x. x\<lparr>active := True\<rparr>) spk
      else Some spk)"

definition empty_speaker :: dacp_speaker_stuff where
  "empty_speaker = \<lparr>speaker_number = 0, active = False, rel_volume = 0, speaker_name = []\<rparr>"

partial_function (option) speaker_loop :: "nat \<Rightarrow> bytes \<Rightarrow> int \<Rightarrow> int \<Rightarrow> dacp_speaker_stuff list \<Rightarrow>
    (int + dacp_speaker_stuff list) option" where
  "speaker_loop max_size block sp le spk =
     (if le < 8 then Some (Inr spk)
      else do { (type, item_size, sp) \<leftarrow> dacp_tlv_crawl block sp;
                if type = four_cc ''mdcl''
                then if length spk = max_size then Some (Inl 413)
                     else speaker_loop max_size block (sp - item_size) (le - 8) (spk @ [empty_speaker])
                else do { taken \<leftarrow> i32_of (item_size + 8);
                          spk \<leftarrow> speaker_item block type (sp - item_size) spk;
                          speaker_loop max_size block sp (le - taken) spk } })"

text \<open>The speakers of a reply; no entry counts when the array is not found.\<close>

definition speakers_in_reply :: "nat \<Rightarrow> bytes \<Rightarrow> nat \<Rightarrow> (int + dacp_speaker_stuff list) option" where
  "speakers_in_reply max_size block le =
     (if le < 8 then Some (Inr [])
      else do { (type, item_size, sp) \<leftarrow> dacp_tlv_crawl block 0;
                if type = four_cc ''casp'' then speaker_loop max_size block (sp - item_size) (int le - 8) []
                else Some (Inr []) })"

definition dacp_get_speaker_list :: "'w dacp_net \<Rightarrow> nat \<Rightarrow> 'w \<Rightarrow> (int \<times> dacp_speaker_stuff list \<times> 'w) option" where
  "dacp_get_speaker_list net max_size w =
     do { (rsp, w) \<leftarrow> dacp_send_command net ''getspeakers'' w;
          if rsp_code rsp = 200
          then do { r \<leftarrow> (case rsp_body rsp of
                             None \<Rightarrow> if rsp_size rsp < 8 then Some (Inr []) else None
                           | Some block \<Rightarrow> speakers_in_reply max_size block (rsp_size rsp));
                    Some (case r of Inl c \<Rightarrow> (c, [], w) | Inr spk \<Rightarrow> (200, spk, w)) }
          else Some (rsp_code rsp, [], w) }"

section \<open>The volume\<close>

definition machine_number_of :: "bytes \<Rightarrow> i64 option" where
  "machine_number_of ap1_prefix =
     do { t1 \<leftarrow> nctohs ap1_prefix 0; t2 \<leftarrow> nctohl ap1_prefix 2; Some (push_bit 32 (ucast t1) + ucast t2) }"

definition i32_times :: "int \<Rightarrow> int \<Rightarrow> int option" where
  "i32_times a b = i32_of (a * b)"

text \<open>\<open>(a * b + 50) / 100\<close>\<close>

definition percent_of :: "int \<Rightarrow> int \<Rightarrow> int option" where
  "percent_of a b = do { n \<leftarrow> i32_times a b; n \<leftarrow> i32_of (n + 50); Some (n sdiv 100) }"

text \<open>The last entry with our number counts.\<close>

primrec relative_volume_of :: "i64 \<Rightarrow> int \<Rightarrow> dacp_speaker_stuff list \<Rightarrow> int" where
  "relative_volume_of machine r [] = r"
| "relative_volume_of machine r (s # ss) = relative_volume_of machine (if speaker_number s = machine then rel_volume s else r) ss"

definition dacp_get_volume :: "'w dacp_net \<Rightarrow> i64 \<Rightarrow> 'w \<Rightarrow> (int \<times> int \<times> 'w) option" where
  "dacp_get_volume net machine w =
     do { (http_response, overall_volume, w) \<leftarrow> dacp_get_client_volume net w;
          if http_response = 200
          then do { (http_response, speakers, w) \<leftarrow> dacp_get_speaker_list net 50 w;
                    if http_response = 200
                    then do { actual_volume \<leftarrow> percent_of overall_volume (relative_volume_of machine 0 speakers);
                              Some (http_response, actual_volume, w) }
                    else Some (http_response, 0, w) }
          else Some (http_response, 0, w) }"

text \<open>\<open>%ld\<close> of the speaker and \<open>%d\<close> of the volume.\<close>

definition dacp_set_include_speaker_volume :: "'w dacp_net \<Rightarrow> i64 \<Rightarrow> int \<Rightarrow> 'w \<Rightarrow> (int \<times> 'w) option" where
  "dacp_set_include_speaker_volume net machine vo w =
     send_simple_dacp_command net
       (''setproperty?include-speaker-id='' @ decimal (sint machine) @ ''&dmcp.volume='' @ decimal vo) w"

definition dacp_set_speaker_volume :: "'w dacp_net \<Rightarrow> i64 \<Rightarrow> int \<Rightarrow> 'w \<Rightarrow> (int \<times> 'w) option" where
  "dacp_set_speaker_volume net machine vo w =
     send_simple_dacp_command net (''setproperty?speaker-id='' @ decimal (sint machine) @ ''&dmcp.volume='' @ decimal vo) w"

text \<open>The highest relative volume of the other active speakers.\<close>

primrec highest_other_volume :: "i64 \<Rightarrow> int \<Rightarrow> dacp_speaker_stuff list \<Rightarrow> int" where
  "highest_other_volume machine h [] = h"
| "highest_other_volume machine h (s # ss) =
     highest_other_volume machine
       (if speaker_number s \<noteq> machine \<and> active s \<and> rel_volume s > h then rel_volume s else h) ss"

definition lower_speaker :: "'w dacp_net \<Rightarrow> i64 \<Rightarrow> int \<Rightarrow> int \<Rightarrow> int \<Rightarrow> 'w \<Rightarrow> (int \<times> 'w) option" where
  "lower_speaker net machine vo overall_volume highest w =
     do { (http_response, w) \<leftarrow> (if overall_volume > highest
            then dacp_set_include_speaker_volume net machine highest w else Some (200, w));
          if highest \<noteq> 0
          then do { n \<leftarrow> i32_of (vo * 100 + highest sdiv 2);
                    dacp_set_speaker_volume net machine (n sdiv highest) w }
          else Some (http_response, w) }"

definition set_among_speakers :: "'w dacp_net \<Rightarrow> i64 \<Rightarrow> int \<Rightarrow> int \<Rightarrow> dacp_speaker_stuff list \<Rightarrow> 'w \<Rightarrow> (int \<times> 'w) option" where
  "set_among_speakers net machine vo overall_volume speakers w =
     (let active_speakers = length (filter active speakers)
      in if active_speakers = 1 then dacp_set_include_speaker_volume net machine vo w
         else if active_speakers = 0 then Some (200, w)
         else if vo \<ge> overall_volume then dacp_set_include_speaker_volume net machine vo w
         else do { highest \<leftarrow> percent_of (highest_other_volume machine 0 speakers) overall_volume;
                   if highest \<le> vo then dacp_set_include_speaker_volume net machine vo w
                   else lower_speaker net machine vo overall_volume highest w })"

definition dacp_set_volume :: "'w dacp_net \<Rightarrow> i64 \<Rightarrow> int \<Rightarrow> 'w \<Rightarrow> (int \<times> 'w) option" where
  "dacp_set_volume net machine vo w =
     (if 0 \<le> vo \<and> vo \<le> 100
      then do { (http_response, overall_volume, w) \<leftarrow> dacp_get_client_volume net w;
                if http_response = 200
                then do { (http_response, speakers, w) \<leftarrow> dacp_get_speaker_list net 50 w;
                          if http_response = 200 then set_among_speakers net machine vo overall_volume speakers w
                          else Some (http_response, w) }
                else Some (http_response, w) }
      else Some (492, w))"

end
