(* ===== verification/Http_Runs.thy ===== *)
theory Http_Runs
  imports Http_Parser
begin

text \<open>
  \<open>http_data\<close> as a machine that reads one character after the other. Whatever the pieces the data come in, the
  parser, the calls for code and headers and the bytes of the body are those of the machine.
\<close>

section \<open>The character machine\<close>

fun char_run ::
    "(bytes \<Rightarrow> nat \<Rightarrow> bytes) \<Rightarrow> http_roundtripper \<Rightarrow> bytes \<Rightarrow> (http_roundtripper \<times> http_call list \<times> nat) option" where
  "char_run R rt [] = Some (rt, [], 0)"
| "char_run R rt (ch # chs) =
     (if at_end rt then Some (rt, [], 0)
      else do { (rt, calls, n) \<leftarrow> http_turn R [ch] rt;
                (rt, calls', n') \<leftarrow> char_run R rt chs;
                Some (rt, calls @ calls', n + n') })"

lemma char_run_end: "at_end rt \<Longrightarrow> char_run R rt chs = Some (rt, [], 0)"
  by (cases chs) simp_all

lemma char_run_append:
  "char_run R rt (xs @ ys) =
     do { (rt, calls, n) \<leftarrow> char_run R rt xs; (rt, calls', n') \<leftarrow> char_run R rt ys; Some (rt, calls @ calls', n + n') }"
proof (induction xs arbitrary: rt)
  case Nil
  then show ?case by (cases "char_run R rt ys") auto
next
  case (Cons x xs)
  show ?case
  proof (cases "at_end rt")
    case True
    then show ?thesis by (simp add: char_run_end)
  next
    case False
    then show ?thesis by (cases "http_turn R [x] rt") (auto simp: Cons.IH split: bind_splits prod.splits)
  qed
qed

text \<open>The body comes in calls of any size.\<close>

definition heads :: "http_call list \<Rightarrow> http_call list" where
  "heads calls = filter (\<lambda>c. case c of Body_call bs \<Rightarrow> False | _ \<Rightarrow> True) calls"

definition body_of :: "http_call list \<Rightarrow> bytes" where
  "body_of calls = concat (map (\<lambda>c. case c of Body_call bs \<Rightarrow> bs | _ \<Rightarrow> []) calls)"

lemma heads_body_simps [simp]:
  "heads [] = []" "heads (xs @ ys) = heads xs @ heads ys" "heads (Code_call c # xs) = Code_call c # heads xs"
  "heads (Header_call k v # xs) = Header_call k v # heads xs" "heads (Body_call bs # xs) = heads xs"
  "body_of [] = []" "body_of (xs @ ys) = body_of xs @ body_of ys" "body_of (Code_call c # xs) = body_of xs"
  "body_of (Header_call k v # xs) = body_of xs" "body_of (Body_call bs # xs) = bs @ body_of xs"
  by (simp_all add: heads_def body_of_def)

text \<open>Inside a body something is left to come.\<close>

definition parser_ok :: "http_roundtripper \<Rightarrow> bool" where
  "parser_ok rt \<longleftrightarrow> (rstate rt \<in> {http_roundtripper_chunk_data, http_roundtripper_raw_data} \<longrightarrow> 0 < contentlength rt) \<and>
     (rstate rt = http_roundtripper_chunk_header \<longrightarrow> 0 \<le> contentlength rt)"

lemma parser_ok_init [simp]: "parser_ok http_init"
  by (simp add: parser_ok_def http_init_def)

lemma at_end_simps [simp]:
  "rstate rt = http_roundtripper_header \<Longrightarrow> \<not> at_end rt" "rstate rt = http_roundtripper_chunk_header \<Longrightarrow> \<not> at_end rt"
  "rstate rt = http_roundtripper_chunk_data \<Longrightarrow> \<not> at_end rt" "rstate rt = http_roundtripper_raw_data \<Longrightarrow> \<not> at_end rt"
  "rstate rt = http_roundtripper_unknown_data \<Longrightarrow> \<not> at_end rt"
  by (simp_all add: at_end_def)

section \<open>A turn is a run of the machine\<close>

lemma put_scratch_rstate: "put_scratch R i ch rt = Some rt' \<Longrightarrow> rstate rt' = rstate rt"
  by (auto simp: put_scratch_def grow_scratch_def Let_def split: bind_splits if_splits)

lemma note_header_rstate: "note_header key val rt = Some rt' \<Longrightarrow> rstate rt' = rstate rt"
  by (auto simp: note_header_def split: if_splits)

lemma store_keyvalue_rstate: "store_keyvalue rt = Some (rt', calls) \<Longrightarrow> rstate rt' = rstate rt"
  by (auto simp: store_keyvalue_def dest: note_header_rstate split: bind_splits)

lemma headers_done_ok: "parser_ok (headers_done rt)"
  by (simp add: headers_done_def parser_ok_def)

lemma header_char_ok:
  assumes "header_char R ch rt = Some (rt', calls)" and "rstate rt = http_roundtripper_header"
  shows "parser_ok rt'"
proof -
  have "rstate rt' = http_roundtripper_header \<or> (\<exists>rt. rt' = headers_done rt)"
    using assms
    by (auto simp: header_char_def Let_def split: bind_splits http_header_status.splits
        dest!: put_scratch_rstate store_keyvalue_rstate)
  then show ?thesis using headers_done_ok by (auto simp: parser_ok_def)
qed

lemma is_hex_value:
  assumes "is_hex ch" and "add_hex n ch = Some m" and "0 \<le> n"
  shows "0 \<le> m"
proof -
  define k where "k = unat ch"
  have "unat ch < 2 ^ (LENGTH(8) - 1)" using assms(1) by (auto simp: is_hex_def word_le_nat_alt)
  then have v: "sint ch = int k" unfolding k_def by (rule sint_small)
  have "48 \<le> k" using assms(1) by (auto simp: is_hex_def word_le_nat_alt k_def)
  moreover have "m = n * 16 + (if 0x61 \<le> int k then int k - 0x61 + 10 else if 0x41 \<le> int k then int k - 0x41 + 10 else int k - 0x30)"
    using assms(2) unfolding add_hex_def v by (simp add: i32_of_def split: if_splits bind_splits)
  ultimately show ?thesis using assms(3) by auto
qed

lemma http_parse_chunked_cases:
  assumes "http_parse_chunked st n ch = Some (ps, m, again)" and "0 \<le> n"
  shows "m = - 1 \<and> \<not> again \<or> 0 \<le> m"
proof -
  have "is_hex ch" if "rd http_chunk_state (st * 4 + chunk_column ch) = Some v" "v = 1 \<or> v = 0x81" for v
  proof -
    have "st * 4 + chunk_column ch < 20" using that(1) by (simp add: rd_def http_chunk_state_def split: if_splits)
    then have "st = 0 \<or> st = 1 \<or> st = 2 \<or> st = 3 \<or> st = 4" by arith
    then show ?thesis using that by (auto simp: rd_def http_chunk_state_def chunk_column_def split: if_splits)
  qed
  then show ?thesis
    using assms is_hex_value [of ch 0] is_hex_value [of ch n]
    by (auto simp: http_parse_chunked_def Let_def split: bind_splits if_splits)
qed

lemma chunk_head_char_ok:
  assumes "chunk_head_char ch rt = Some rt'" and "rstate rt = http_roundtripper_chunk_header" and "parser_ok rt"
  shows "parser_ok rt'"
proof -
  obtain ps m again where c: "http_parse_chunked (parsestate rt) (contentlength rt) ch = Some (ps, m, again)"
    using assms(1) by (auto simp: chunk_head_char_def split: bind_splits)
  have "m = - 1 \<and> \<not> again \<or> 0 \<le> m"
    using http_parse_chunked_cases [OF c] assms(2,3) by (simp add: parser_ok_def)
  then show ?thesis using assms c by (auto simp: chunk_head_char_def parser_ok_def Let_def split: if_splits)
qed

definition joined :: "http_call list \<Rightarrow> http_call list \<times> bytes" where
  "joined calls = (heads calls, body_of calls)"

lemma joined_append: "joined a = joined a' \<Longrightarrow> joined b = joined b' \<Longrightarrow> joined (a @ b) = joined (a' @ b')"
  by (simp add: joined_def)

text \<open>The bytes of a body, one at a time.\<close>

lemma body_turn:
  assumes "rstate rt = http_roundtripper_raw_data \<or> rstate rt = http_roundtripper_chunk_data" and "0 < contentlength rt"
  shows "http_turn R [ch] rt =
    Some (if contentlength rt = 1
          then (if rstate rt = http_roundtripper_raw_data then rt\<lparr>contentlength := 0, rstate := http_roundtripper_close\<rparr>
                else rt\<lparr>contentlength := 1, rstate := http_roundtripper_chunk_header\<rparr>)
          else rt\<lparr>contentlength := contentlength rt - 1\<rparr>, [Body_call [ch]], 1)"
proof -
  have "min 1 (contentlength rt) = 1" using assms(2) by simp
  then show ?thesis using assms by (auto simp: http_turn_def take_body_def Let_def)
qed

lemma body_run:
  assumes "rstate rt = http_roundtripper_raw_data \<or> rstate rt = http_roundtripper_chunk_data"
    and "int (length bs) \<le> contentlength rt" and "0 < contentlength rt"
  shows "\<exists>calls. char_run R rt bs =
    Some (if int (length bs) = contentlength rt
          then (if rstate rt = http_roundtripper_raw_data then rt\<lparr>contentlength := 0, rstate := http_roundtripper_close\<rparr>
                else rt\<lparr>contentlength := 1, rstate := http_roundtripper_chunk_header\<rparr>)
          else rt\<lparr>contentlength := contentlength rt - int (length bs)\<rparr>, calls, length bs) \<and> joined calls = ([], bs)"
  using assms
proof (induction bs arbitrary: rt)
  case Nil
  then show ?case by (simp add: joined_def)
next
  case (Cons ch bs)
  have nend: "\<not> at_end rt" using Cons.prems(1) by auto
  show ?case
  proof (cases "contentlength rt = 1")
    case True
    then have "bs = []" using Cons.prems(2) by (cases bs) simp_all
    then show ?thesis
      using True nend body_turn [OF Cons.prems(1,3), of R ch] by (simp add: joined_def)
  next
    case False
    let ?rt = "rt\<lparr>contentlength := contentlength rt - 1\<rparr>"
    have "\<exists>calls. char_run R ?rt bs =
      Some (if int (length bs) = contentlength ?rt
            then (if rstate ?rt = http_roundtripper_raw_data then ?rt\<lparr>contentlength := 0, rstate := http_roundtripper_close\<rparr>
                  else ?rt\<lparr>contentlength := 1, rstate := http_roundtripper_chunk_header\<rparr>)
            else ?rt\<lparr>contentlength := contentlength ?rt - int (length bs)\<rparr>, calls, length bs) \<and> joined calls = ([], bs)"
      using Cons.prems False by (intro Cons.IH) simp_all
    then obtain calls where "char_run R ?rt bs =
      Some (if int (length bs) = contentlength ?rt
            then (if rstate ?rt = http_roundtripper_raw_data then ?rt\<lparr>contentlength := 0, rstate := http_roundtripper_close\<rparr>
                  else ?rt\<lparr>contentlength := 1, rstate := http_roundtripper_chunk_header\<rparr>)
            else ?rt\<lparr>contentlength := contentlength ?rt - int (length bs)\<rparr>, calls, length bs)" "joined calls = ([], bs)"
      by blast
    then show ?thesis
      using nend False body_turn [OF Cons.prems(1,3), of R ch] by (simp add: joined_def algebra_simps)
  qed
qed

lemma unknown_run:
  assumes "rstate rt = http_roundtripper_unknown_data"
  shows "\<exists>calls. char_run R rt bs = Some (rt, calls, length bs) \<and> joined calls = ([], bs)"
proof (induction bs)
  case Nil
  then show ?case by (simp add: joined_def)
next
  case (Cons ch bs)
  then obtain calls where "char_run R rt bs = Some (rt, calls, length bs)" "joined calls = ([], bs)" by blast
  then show ?case using assms by (simp add: http_turn_def joined_def)
qed

text \<open>What a turn takes, the machine takes character by character.\<close>

lemma one_character:
  assumes "rstate rt = http_roundtripper_header \<or> rstate rt = http_roundtripper_chunk_header" and "data \<noteq> []"
  shows "http_turn R data rt = http_turn R [hd data] rt"
    and "http_turn R data rt = Some (rt', calls, n) \<Longrightarrow> n = 1"
    and "http_turn R data rt = Some (rt', calls, n) \<Longrightarrow> parser_ok rt \<Longrightarrow> parser_ok rt'"
  using assms by (auto simp: http_turn_def header_char_ok chunk_head_char_ok)

lemma turn_run_body:
  assumes "rstate rt = http_roundtripper_raw_data \<or> rstate rt = http_roundtripper_chunk_data" and "parser_ok rt" and "data \<noteq> []"
    and "n = nat (min (int (length data)) (contentlength rt))"
  shows "\<exists>rt' calls calls'. http_turn R data rt = Some (rt', calls, n) \<and> parser_ok rt' \<and>
     char_run R rt (take n data) = Some (rt', calls', n) \<and> joined calls = joined calls'"
proof -
  have pos: "0 < contentlength rt" using assms(1,2) by (auto simp: parser_ok_def)
  have n: "int n = min (int (length data)) (contentlength rt)" "n \<le> length data" using assms(4) pos by auto
  let ?rt = "if int n = contentlength rt
          then (if rstate rt = http_roundtripper_raw_data then rt\<lparr>contentlength := 0, rstate := http_roundtripper_close\<rparr>
                else rt\<lparr>contentlength := 1, rstate := http_roundtripper_chunk_header\<rparr>)
          else rt\<lparr>contentlength := contentlength rt - int n\<rparr>"
  have "http_turn R data rt = Some (?rt, [Body_call (take n data)], n)"
  proof -
    have "take_body data rt = (rt\<lparr>contentlength := contentlength rt - int n\<rparr>, [Body_call (take n data)], n)"
      by (simp only: take_body_def Let_def flip: assms(4))
    then show ?thesis using assms(1) by (auto simp: http_turn_def)
  qed
  moreover have "parser_ok ?rt" using assms(2) n(1) by (auto simp: parser_ok_def)
  moreover have "\<exists>calls. char_run R rt (take n data) = Some (?rt, calls, n) \<and> joined calls = ([], take n data)"
  proof -
    have l: "length (take n data) = n" using n(2) by simp
    have "int n \<le> contentlength rt" using n(1) by simp
    then show ?thesis using body_run [OF assms(1), of "take n data" R] pos unfolding l by blast
  qed
  ultimately show ?thesis by (auto simp: joined_def)
qed

lemma turn_run:
  assumes "parser_ok rt" and "\<not> at_end rt" and "data \<noteq> []" and "http_turn R data rt = Some (rt', calls, n)"
  shows "0 < n \<and> n \<le> length data \<and> parser_ok rt' \<and>
     (\<exists>calls'. char_run R rt (take n data) = Some (rt', calls', n) \<and> joined calls = joined calls')"
proof (cases "rstate rt")
  case http_roundtripper_unknown_data
  then show ?thesis
    using assms unknown_run [of rt R data] by (auto simp: http_turn_def joined_def)
next
  case http_roundtripper_raw_data
  then show ?thesis using turn_run_body [of rt data _ R] assms by (auto simp: parser_ok_def min_def split: if_splits)
next
  case http_roundtripper_chunk_data
  then show ?thesis using turn_run_body [of rt data _ R] assms by (auto simp: parser_ok_def min_def split: if_splits)
next
  case http_roundtripper_header
  then have o: "http_turn R data rt = http_turn R [hd data] rt" "n = 1" "parser_ok rt'"
    using one_character [of rt data] assms by auto
  then show ?thesis using assms(2-4) by (cases data) (auto split: bind_splits)
next
  case http_roundtripper_chunk_header
  then have o: "http_turn R data rt = http_turn R [hd data] rt" "n = 1" "parser_ok rt'"
    using one_character [of rt data] assms by auto
  then show ?thesis using assms(2-4) by (cases data) (auto split: bind_splits)
qed (use assms(2) in \<open>simp_all add: at_end_def\<close>)

lemma turn_fails:
  assumes "\<not> at_end rt" and "data \<noteq> []" and "http_turn R data rt = None"
  shows "char_run R rt data = None"
proof -
  have "rstate rt = http_roundtripper_header \<or> rstate rt = http_roundtripper_chunk_header"
    using assms(3) by (auto simp: http_turn_def take_body_def Let_def split: http_roundtripper_state.splits)
  from one_character(1) [OF this assms(2)] show ?thesis using assms by (cases data) auto
qed

section \<open>Any pieces\<close>

definition settled :: "http_roundtripper \<Rightarrow> http_roundtripper" where
  "settled rt = (if at_end rt then http_free rt else rt)"

text \<open>What can be seen of a call of \<open>http_data\<close>, and of a run.\<close>

definition seen_data where
  "seen_data r = map_option (\<lambda>(rt, calls, n, again). (rt, joined calls, n, again)) r"

definition seen_run where
  "seen_run r = map_option (\<lambda>(rt, calls, n). (settled rt, joined calls, n, \<not> at_end rt)) r"

lemma http_data_is_run:
  assumes "parser_ok rt" and "\<not> at_end rt"
  shows "seen_data (http_data R rt data) = seen_run (char_run R rt data)"
  using assms
proof (induction "length data" arbitrary: rt data rule: less_induct)
  case less
  show ?case
  proof (cases "data = [] \<or> http_turn R data rt = None")
    case True
    then show ?thesis
      using less.prems turn_fails [of rt data R]
      by (cases "data = []") (auto simp: http_data.simps [of R rt data] http_data.simps [of R rt "[]"] seen_data_def seen_run_def settled_def joined_def)
  next
    case False
    then obtain rt1 calls n where t: "http_turn R data rt = Some (rt1, calls, n)" by auto
    obtain calls' where n: "0 < n" "n \<le> length data" "parser_ok rt1"
      "char_run R rt (take n data) = Some (rt1, calls', n)" "joined calls = joined calls'"
      using turn_run [OF less.prems _ t] False by blast
    have c: "char_run R rt data = do { (rt, c, k) \<leftarrow> char_run R rt1 (drop n data); Some (rt, calls' @ c, n + k) }"
      using char_run_append [of R rt "take n data" "drop n data"] n(4) by simp
    show ?thesis
    proof (cases "at_end rt1")
      case True
      then show ?thesis
        using False t c n(5) by (simp add: http_data.simps [of R rt data] char_run_end seen_data_def seen_run_def settled_def)
    next
      case nend: False
      have IH: "seen_data (http_data R rt1 (drop n data)) = seen_run (char_run R rt1 (drop n data))"
        using n(1,2) False by (intro less.hyps n(3) nend) (auto simp: diff_less)
      have d: "http_data R rt data = do { (rt, c, k, again) \<leftarrow> http_data R rt1 (drop n data); Some (rt, calls @ c, n + k, again) }"
        using False t nend by (simp add: http_data.simps [of R rt data])
      show ?thesis
        using IH n(5) unfolding c d seen_data_def seen_run_def
        by (cases "http_data R rt1 (drop n data)"; cases "char_run R rt1 (drop n data)")
          (auto intro: joined_append split: prod.splits)
    qed
  qed
qed

lemma char_run_keeps_ok:
  "char_run R rt data = Some (rt', calls, n) \<Longrightarrow> parser_ok rt \<Longrightarrow> parser_ok rt'"
proof (induction data arbitrary: rt calls n)
  case (Cons ch data)
  show ?case
  proof (cases "at_end rt")
    case False
    then obtain rt1 c k c' k' where t: "http_turn R [ch] rt = Some (rt1, c, k)" "char_run R rt1 data = Some (rt', c', k')"
      using Cons.prems(1) by (auto split: bind_splits)
    have "parser_ok rt1" using turn_run [OF Cons.prems(2) False _ t(1)] by simp
    then show ?thesis using Cons.IH t(2) by blast
  qed (use Cons.prems in simp)
qed simp

text \<open>The caller's way with a piece after another: the next one when more is needed.\<close>

definition then_data where
  "then_data R r b =
     (case r of
        None \<Rightarrow> None
      | Some (rt, calls, n, again) \<Rightarrow>
          if again then map_option (\<lambda>(rt, calls', n', again). (rt, calls @ calls', n + n', again)) (http_data R rt b)
          else Some (rt, calls, n, again))"

lemma seen_runI:
  "seen_data d = seen_run r \<Longrightarrow> r = Some (rt, calls, n) \<Longrightarrow>
   \<exists>calls'. d = Some (settled rt, calls', n, \<not> at_end rt) \<and> joined calls' = joined calls"
  by (cases d) (auto simp: seen_data_def seen_run_def)

text \<open>
  C38. A response may come in any pieces: the parser after \<open>a @ b\<close> at once is the one after \<open>a\<close> and then, when it
  needs more, \<open>b\<close>, with the same calls for the code and the headers, the same bytes of the body, the
  same number of bytes read, and the same undefined behaviour.
\<close>
theorem http_data_any_pieces:
  assumes "parser_ok rt" and "\<not> at_end rt"
  shows "seen_data (then_data R (http_data R rt a) b) = seen_data (http_data R rt (a @ b))"
proof (cases "char_run R rt a")
  case None
  then have "http_data R rt a = None" "char_run R rt (a @ b) = None"
    using http_data_is_run [OF assms, of R a] by (auto simp: seen_data_def seen_run_def char_run_append)
  then show ?thesis using http_data_is_run [OF assms, of R "a @ b"] by (simp add: then_data_def seen_data_def seen_run_def)
next
  case (Some r)
  obtain rt1 c n where r: "char_run R rt a = Some (rt1, c, n)" using Some by (cases r) auto
  obtain c1 where d: "http_data R rt a = Some (settled rt1, c1, n, \<not> at_end rt1)" "joined c1 = joined c"
    using seen_runI [OF http_data_is_run [OF assms] r] by blast
  have ab: "char_run R rt (a @ b) = do { (rt, c', n') \<leftarrow> char_run R rt1 b; Some (rt, c @ c', n + n') }"
    by (simp add: char_run_append r)
  show ?thesis
  proof (cases "at_end rt1")
    case True
    then show ?thesis
      using d ab http_data_is_run [OF assms, of R "a @ b"] by (auto simp: then_data_def char_run_end seen_data_def seen_run_def)
  next
    case False
    have ok: "parser_ok rt1" using char_run_keeps_ok [OF r assms(1)] .
    have "seen_data (http_data R rt1 b) = seen_run (char_run R rt1 b)" by (rule http_data_is_run [OF ok False])
    then show ?thesis
      using d False ab http_data_is_run [OF assms, of R "a @ b"] unfolding then_data_def seen_data_def seen_run_def
      by (cases "http_data R rt1 b"; cases "char_run R rt1 b") (auto simp: settled_def intro: joined_append split: prod.splits)
  qed
qed

lemma http_data_any_pieces_witness:
  "seen_data (then_data (\<lambda>s n. replicate n 0) (http_data (\<lambda>s n. replicate n 0) http_init [0x48, 0x20, 0x32]) [0x30]) =
   seen_data (http_data (\<lambda>s n. replicate n 0) http_init [0x48, 0x20, 0x32, 0x30])"
  using http_data_any_pieces [OF parser_ok_init, of "\<lambda>s n. replicate n 0" "[0x48, 0x20, 0x32]" "[0x30]"]
  by (simp add: http_init_def)

end
