(* ===== verification/Http_Responses.thy ===== *)
theory Http_Responses
  imports Http_Runs
begin

text \<open>
  Well-formed responses: a status line, headers, and a body of a given length or in chunks. The parser finds the
  code, the headers with their keys in lower case, and the body, and stops behind it.
\<close>

section \<open>Memory for the headers\<close>

text \<open>What \<open>realloc\<close> promises: a block of the size that keeps what fits of the old one.\<close>

locale reallocator =
  fixes R :: "bytes \<Rightarrow> nat \<Rightarrow> bytes"
  assumes new_size: "length (R s n) = n"
    and keeps: "k \<le> length s \<Longrightarrow> k \<le> n \<Longrightarrow> take k (R s n) = take k s"
begin

lemma put_scratch_appends:
  assumes "length (scratch rt) = nscratch rt" and "take i (scratch rt) = t" and "length t = i"
  shows "\<exists>s. put_scratch R i ch rt = Some (rt\<lparr>scratch := s, nscratch := length s\<rparr>) \<and> take (Suc i) s = t @ [ch]"
proof -
  have i: "i \<le> length (scratch rt)" using assms(2,3) by (metis length_take min.cobounded1)
  have "\<exists>s. grow_scratch R (Suc i) rt = rt\<lparr>scratch := s, nscratch := length s\<rparr> \<and> i < length s \<and> take i s = t"
  proof (cases "Suc i \<le> nscratch rt")
    case True
    then show ?thesis using assms(1,2) by (intro exI [of _ "scratch rt"]) (simp add: grow_scratch_def)
  next
    case False
    define n where "n = max (if Suc i < 64 then 64 else Suc i) (nscratch rt * 3 div 2)"
    have "i < n" by (simp add: n_def max_def)
    then show ?thesis
      using False keeps [OF i, of n] assms(2)
      by (intro exI [of _ "R (scratch rt) n"]) (simp add: grow_scratch_def new_size n_def Let_def)
  qed
  then obtain s where s: "grow_scratch R (Suc i) rt = rt\<lparr>scratch := s, nscratch := length s\<rparr>" "i < length s" "take i s = t"
    by blast
  then show ?thesis
    by (intro exI [of _ "s[i := ch]"]) (simp add: put_scratch_def wr_def take_Suc_conv_app_nth take_update_cancel)
qed

end

section \<open>The head of a response\<close>

text \<open>A parser in the header, in state \<open>ps\<close>, with a part of a key and of a value.\<close>

definition in_head :: "nat \<Rightarrow> bytes \<Rightarrow> bytes \<Rightarrow> int \<Rightarrow> int \<Rightarrow> bool \<Rightarrow> http_roundtripper \<Rightarrow> bool" where
  "in_head ps k v n cl ck rt \<longleftrightarrow> rstate rt = http_roundtripper_header \<and> parsestate rt = ps \<and> rcode rt = n \<and>
     contentlength rt = cl \<and> chunked rt = ck \<and> length (scratch rt) = nscratch rt \<and> nkey rt = length k \<and>
     nvalue rt = length v \<and> take (length k + length v) (scratch rt) = k @ v"

lemma in_head_init: "in_head 0 [] [] 0 (- 1) False http_init"
  by (simp add: in_head_def http_init_def)

text \<open>The machine takes all of \<open>cs\<close> with the calls \<open>calls\<close> and is then in a state with \<open>P\<close>.\<close>

definition goes :: "(bytes \<Rightarrow> nat \<Rightarrow> bytes) \<Rightarrow> bytes \<Rightarrow> http_call list \<times> bytes \<Rightarrow> (http_roundtripper \<Rightarrow> bool) \<Rightarrow> http_roundtripper \<Rightarrow> bool" where
  "goes R cs found P rt \<longleftrightarrow>
     (\<exists>rt' calls. char_run R rt cs = Some (rt', calls, length cs) \<and> joined calls = found \<and> P rt')"

lemma goes_nil [intro]: "P rt \<Longrightarrow> goes R [] ([], []) P rt"
  by (simp add: goes_def joined_def)

lemma goes_append:
  assumes "goes R xs (h, b) P rt" and "\<And>rt. P rt \<Longrightarrow> goes R ys (h', b') Q rt"
  shows "goes R (xs @ ys) (h @ h', b @ b') Q rt"
proof -
  obtain rt1 calls where 1: "char_run R rt xs = Some (rt1, calls, length xs)" "joined calls = (h, b)" "P rt1"
    using assms(1) by (auto simp: goes_def)
  obtain rt2 calls' where 2: "char_run R rt1 ys = Some (rt2, calls', length ys)" "joined calls' = (h', b')" "Q rt2"
    using assms(2) [OF 1(3)] by (auto simp: goes_def)
  then show ?thesis using 1 by (auto simp: goes_def char_run_append joined_def)
qed

lemma goes_one:
  assumes "\<not> at_end rt" and "http_turn R [ch] rt = Some (rt', calls, 1)" and "joined calls = found" and "P rt'"
  shows "goes R [ch] found P rt"
  using assms by (simp add: goes_def)

lemmas goes_Cons = goes_append [where xs = "[x]" for x, simplified append.simps]

text \<open>A row of the table.\<close>

lemma header_turn:
  assumes "in_head ps k v n cl ck rt" and "rd http_header_state (ps * 8 + header_column ch) = Some new"
  shows "http_turn R [ch] rt = map_option (\<lambda>(rt, calls). (rt, calls, 1))
     (case header_status new of
             http_header_status_done \<Rightarrow> Some (headers_done (rt\<lparr>parsestate := new AND 0xF\<rparr>), [Code_call n])
           | http_header_status_code_character \<Rightarrow>
               map_option (\<lambda>n. (rt\<lparr>parsestate := new AND 0xF, rcode := n\<rparr>, [])) (add_digit n ch)
           | http_header_status_key_character \<Rightarrow>
               map_option (\<lambda>rt. (rt\<lparr>nkey := nkey rt + 1\<rparr>, [])) (put_scratch R (length k) (tolower ch) (rt\<lparr>parsestate := new AND 0xF\<rparr>))
           | http_header_status_value_character \<Rightarrow>
               map_option (\<lambda>rt. (rt\<lparr>nvalue := nvalue rt + 1\<rparr>, [])) (put_scratch R (length k + length v) ch (rt\<lparr>parsestate := new AND 0xF\<rparr>))
           | http_header_status_store_keyvalue \<Rightarrow> store_keyvalue (rt\<lparr>parsestate := new AND 0xF\<rparr>)
           | _ \<Rightarrow> Some (rt\<lparr>parsestate := new AND 0xF\<rparr>, []))"
proof -
  have "rstate rt = http_roundtripper_header" "http_parse_header_char (parsestate rt) ch = Some (header_status new, new AND 0xF)"
    "rcode rt = n" "nkey rt = length k" "nvalue rt = length v"
    using assms by (simp_all add: in_head_def http_parse_header_char_def)
  then show ?thesis by (simp add: http_turn_def header_char_def Let_def cong: http_header_status.case_cong)
qed

lemma in_head_not_end: "in_head ps k v n cl ck rt \<Longrightarrow> \<not> at_end rt"
  by (simp add: in_head_def)

lemma passes:
  assumes "in_head ps k v n cl ck rt" and "rd http_header_state (ps * 8 + header_column ch) = Some new"
    and "header_status new \<in> {http_header_status_continue, http_header_status_version_character, http_header_status_status_character}"
    and "new AND 0xF = ps'"
  shows "goes R [ch] ([], []) (in_head ps' k v n cl ck) rt"
proof (rule goes_one [OF in_head_not_end [OF assms(1)]])
  show "http_turn R [ch] rt = Some (rt\<lparr>parsestate := ps'\<rparr>, [], 1)"
    using header_turn [OF assms(1,2)] assms(3,4) by auto
qed (use assms(1) in \<open>simp_all add: joined_def in_head_def\<close>)

lemma response_digit:
  assumes "in_head 1 k v n cl ck rt" and "rd http_header_state (8 + header_column ch) = Some 0x81" and "add_digit n ch = Some m"
  shows "goes R [ch] ([], []) (in_head 1 k v m cl ck) rt"
proof (rule goes_one [OF in_head_not_end [OF assms(1)]])
  show "http_turn R [ch] rt = Some (rt\<lparr>parsestate := 1, rcode := m\<rparr>, [], 1)"
    using header_turn [OF assms(1), where ch = ch and new = "0x81" and R = R] assms(2,3) by (simp add: header_status_def)
qed (use assms(1) in \<open>simp_all add: joined_def in_head_def\<close>)

context reallocator
begin

lemma key_char:
  assumes "in_head 4 k [] n cl ck rt" and "header_column ch = 0"
  shows "goes R [ch] ([], []) (in_head 4 (k @ [tolower ch]) [] n cl ck) rt"
proof -
  have "rd http_header_state (4 * 8 + header_column ch) = Some 0x84"
    using assms(2) by (simp add: rd_def http_header_state_def)
  note t = header_turn [OF assms(1) this, of R]
  obtain s where s: "put_scratch R (length k) (tolower ch) (rt\<lparr>parsestate := 4\<rparr>) = Some (rt\<lparr>parsestate := 4, scratch := s, nscratch := length s\<rparr>)"
    "take (Suc (length k)) s = k @ [tolower ch]"
    using put_scratch_appends [of "rt\<lparr>parsestate := 4\<rparr>" "length k" k "tolower ch"] assms(1) by (auto simp: in_head_def)
  show ?thesis
  proof (rule goes_one [OF in_head_not_end [OF assms(1)]])
    show "http_turn R [ch] rt = Some (rt\<lparr>parsestate := 4, scratch := s, nscratch := length s, nkey := nkey rt + 1\<rparr>, [], 1)"
      using t s(1) by (simp add: header_status_def)
  qed (use assms(1) s(2) in \<open>simp_all add: joined_def in_head_def\<close>)
qed

lemma value_char:
  assumes "in_head ps k v n cl ck rt" and "rd http_header_state (ps * 8 + header_column ch) = Some new"
    and "new = 0x87 \<and> ps' = 7 \<or> new = 0x88 \<and> ps' = 8"
  shows "goes R [ch] ([], []) (in_head ps' k (v @ [ch]) n cl ck) rt"
proof -
  note t = header_turn [OF assms(1,2), of R]
  obtain s where s: "put_scratch R (length k + length v) ch (rt\<lparr>parsestate := ps'\<rparr>) = Some (rt\<lparr>parsestate := ps', scratch := s, nscratch := length s\<rparr>)"
    "take (Suc (length k + length v)) s = (k @ v) @ [ch]"
    using put_scratch_appends [of "rt\<lparr>parsestate := ps'\<rparr>" "length k + length v" "k @ v" ch] assms(1) by (auto simp: in_head_def)
  show ?thesis
  proof (rule goes_one [OF in_head_not_end [OF assms(1)]])
    show "http_turn R [ch] rt = Some (rt\<lparr>parsestate := ps', scratch := s, nscratch := length s, nvalue := nvalue rt + 1\<rparr>, [], 1)"
      using t s(1) assms(3) by (auto simp: header_status_def)
  qed (use assms(1) s(2) in \<open>simp_all add: joined_def in_head_def\<close>)
qed

end

section \<open>Well-formed responses\<close>

definition crlf_bytes :: bytes where
  "crlf_bytes = [0x0D, 0x0A]"

definition version_char :: "u8 \<Rightarrow> bool" where
  "version_char ch \<longleftrightarrow> header_column ch \<in> {0, 5, 6}"

definition reason_char :: "u8 \<Rightarrow> bool" where
  "reason_char ch \<longleftrightarrow> header_column ch \<notin> {2, 3}"

definition status_line :: "bytes \<Rightarrow> bytes \<Rightarrow> bytes \<Rightarrow> bytes" where
  "status_line version digits reason = version @ 0x20 # digits @ 0x20 # reason @ crlf_bytes"

definition status_ok :: "bytes \<Rightarrow> bytes \<Rightarrow> bytes \<Rightarrow> bool" where
  "status_ok version digits reason \<longleftrightarrow> list_all version_char version \<and> list_all (\<lambda>ch. header_column ch = 0) digits \<and>
     list_all reason_char reason"

fun header_line :: "bytes \<times> bytes \<Rightarrow> bytes" where
  "header_line (key, val) = key @ 0x3A # 0x20 # val @ crlf_bytes"

text \<open>A value begins with a character that is not white space and does not end in white space or a comma.\<close>

fun header_ok :: "bytes \<times> bytes \<Rightarrow> bool" where
  "header_ok (key, val) \<longleftrightarrow> list_all (\<lambda>ch. header_column ch = 0) key \<and> list_all reason_char val \<and> val \<noteq> [] \<and>
     version_char (hd val) \<and> header_column (last val) \<in> {0, 6}"

lemma column_cases:
  "header_column ch = 0 \<or> header_column ch = 1 \<or> header_column ch = 2 \<or> header_column ch = 3 \<or> header_column ch = 4 \<or>
   header_column ch = 5 \<or> header_column ch = 6"
  by (simp add: header_column_def)

lemmas table = rd_def http_header_state_def

lemma header_status_simps [simp]:
  "header_status (Suc 0) = http_header_status_continue" "header_status 2 = http_header_status_continue"
  "header_status 3 = http_header_status_continue" "header_status 4 = http_header_status_continue"
  "header_status 5 = http_header_status_continue" "header_status 6 = http_header_status_continue"
  "header_status 10 = http_header_status_continue" "header_status 0x80 = http_header_status_version_character"
  "header_status 0x82 = http_header_status_status_character" "header_status 0xC0 = http_header_status_done"
  "header_status 0xC4 = http_header_status_store_keyvalue" "Suc 0 AND 0xF = Suc 0"
  by (simp_all add: header_status_def)

lemma column_simps [simp]:
  "header_column 0x20 = 4" "header_column 0x0D = 3" "header_column 0x0A = 2" "header_column 0x3A = 6"
  by (simp_all add: header_column_def)

lemma version_goes:
  "in_head 0 k v n cl ck rt \<Longrightarrow> list_all version_char cs \<Longrightarrow> goes R cs ([], []) (in_head 0 k v n cl ck) rt"
proof (induction cs arbitrary: rt)
  case (Cons ch cs)
  have "rd http_header_state (0 * 8 + header_column ch) = Some 0x80"
    using Cons.prems(2) by (auto simp: version_char_def table)
  then have "goes R [ch] ([], []) (in_head 0 k v n cl ck) rt" by (rule passes [OF Cons.prems(1)]) simp_all
  then show ?case using goes_append [where xs = "[ch]" and ys = cs and h = "[]" and b = "[]" and h' = "[]" and b' = "[]"] Cons.IH Cons.prems(2)
    by simp
qed auto

lemma reason_goes:
  "in_head 2 k v n cl ck rt \<Longrightarrow> list_all reason_char cs \<Longrightarrow> goes R cs ([], []) (in_head 2 k v n cl ck) rt"
proof (induction cs arbitrary: rt)
  case (Cons ch cs)
  have "rd http_header_state (2 * 8 + header_column ch) = Some 0x82"
    using Cons.prems(2) column_cases [of ch] by (auto simp: reason_char_def table)
  then have "goes R [ch] ([], []) (in_head 2 k v n cl ck) rt" by (rule passes [OF Cons.prems(1)]) simp_all
  then show ?case using goes_append [where xs = "[ch]" and ys = cs and h = "[]" and b = "[]" and h' = "[]" and b' = "[]"] Cons.IH Cons.prems(2)
    by simp
qed auto

lemma digits_go:
  "in_head 1 k v n cl ck rt \<Longrightarrow> list_all (\<lambda>ch. header_column ch = 0) cs \<Longrightarrow> add_digits n cs = Some m \<Longrightarrow>
   goes R cs ([], []) (in_head 1 k v m cl ck) rt"
proof (induction cs arbitrary: rt n)
  case (Cons ch cs)
  obtain n1 where n1: "add_digit n ch = Some n1" "add_digits n1 cs = Some m" using Cons.prems(3) by (auto split: bind_splits)
  have "rd http_header_state (8 + header_column ch) = Some 0x81" using Cons.prems(2) by (simp add: table)
  then have "goes R [ch] ([], []) (in_head 1 k v n1 cl ck) rt" by (rule response_digit [OF Cons.prems(1) _ n1(1)])
  then show ?case using goes_append [where xs = "[ch]" and ys = cs and h = "[]" and b = "[]" and h' = "[]" and b' = "[]"] Cons.IH Cons.prems(2) n1(2)
    by simp
qed auto

text \<open>Pieces that call nothing.\<close>

lemma quiet_append:
  "goes R xs ([], []) P rt \<Longrightarrow> (\<And>rt. P rt \<Longrightarrow> goes R ys f Q rt) \<Longrightarrow> goes R (xs @ ys) f Q rt"
  using goes_append [where h = "[]" and b = "[]"] by (cases f) fastforce

lemma quiet_Cons:
  "goes R [x] ([], []) P rt \<Longrightarrow> (\<And>rt. P rt \<Longrightarrow> goes R ys f Q rt) \<Longrightarrow> goes R (x # ys) f Q rt"
  using quiet_append [of R "[x]"] by simp

lemma status_goes:
  assumes "status_ok version digits reason" and "add_digits 0 digits = Some n"
    and "in_head 0 [] [] 0 cl ck rt"
  shows "goes R (status_line version digits reason) ([], []) (in_head 4 [] [] n cl ck) rt"
proof -
  have s1: "goes R [0x20] ([], []) (in_head 1 [] [] 0 cl ck) rt" if "in_head 0 [] [] 0 cl ck rt" for rt
    using that by (rule passes, simp add: table) simp_all
  have d: "goes R digits ([], []) (in_head 1 [] [] n cl ck) rt" if "in_head 1 [] [] 0 cl ck rt" for rt
    using digits_go [OF that _ assms(2)] assms(1) by (simp add: status_ok_def)
  have s2: "goes R [0x20] ([], []) (in_head 2 [] [] n cl ck) rt" if "in_head 1 [] [] n cl ck rt" for rt
    using that by (rule passes, simp add: table) simp_all
  have r: "goes R reason ([], []) (in_head 2 [] [] n cl ck) rt" if "in_head 2 [] [] n cl ck rt" for rt
    using reason_goes [OF that] assms(1) by (simp add: status_ok_def)
  have c: "goes R [0x0D] ([], []) (in_head 3 [] [] n cl ck) rt" if "in_head 2 [] [] n cl ck rt" for rt
    using that by (rule passes, simp add: table) simp_all
  have l: "goes R [0x0A] ([], []) (in_head 4 [] [] n cl ck) rt" if "in_head 3 [] [] n cl ck rt" for rt
    using that by (rule passes, simp add: table) simp_all
  have v: "goes R version ([], []) (in_head 0 [] [] 0 cl ck) rt"
    using version_goes [OF assms(3)] assms(1) by (simp add: status_ok_def)
  show ?thesis
    unfolding status_line_def crlf_bytes_def
    by (rule quiet_append [OF v quiet_Cons [OF s1 quiet_append [OF d quiet_Cons [OF s2 quiet_append [OF r quiet_Cons [OF c l]]]]]])
qed

text \<open>What the headers say about the body.\<close>

fun framing_step :: "bytes \<times> bytes \<Rightarrow> int \<times> bool \<Rightarrow> (int \<times> bool) option" where
  "framing_step (key, val) (cl, ck) =
     (if map tolower key = ascii ''transfer-encoding'' then Some (cl, val = ascii ''chunked'')
      else if map tolower key = ascii ''content-length'' then map_option (\<lambda>n. (n, ck)) (add_digits 0 val)
      else Some (cl, ck))"

primrec framing :: "(bytes \<times> bytes) list \<Rightarrow> int \<times> bool \<Rightarrow> (int \<times> bool) option" where
  "framing [] fr = Some fr"
| "framing (h # hs) fr = do { fr \<leftarrow> framing_step h fr; framing hs fr }"

fun header_found :: "bytes \<times> bytes \<Rightarrow> http_call" where
  "header_found (key, val) = Header_call (map tolower key) val"

lemma note_header_framing:
  assumes "framing_step (key, val) (contentlength rt, chunked rt) = Some (cl, ck)"
  shows "note_header (map tolower key) val rt = Some (rt\<lparr>contentlength := cl, chunked := ck\<rparr>)"
  using assms by (auto simp: note_header_def split: if_splits)

context reallocator
begin

lemma key_goes:
  "in_head 4 k [] n cl ck rt \<Longrightarrow> list_all (\<lambda>ch. header_column ch = 0) cs \<Longrightarrow>
   goes R cs ([], []) (in_head 4 (k @ map tolower cs) [] n cl ck) rt"
proof (induction cs arbitrary: k rt)
  case (Cons ch cs)
  have "goes R [ch] ([], []) (in_head 4 (k @ [tolower ch]) [] n cl ck) rt" by (rule key_char [OF Cons.prems(1)]) (use Cons.prems(2) in simp)
  then show ?case using Cons.IH [of "k @ [tolower ch]"] Cons.prems(2) by (auto intro: quiet_Cons)
qed auto

text \<open>In state 8 the value may be split over lines; it is left by a character that is neither white space nor a comma.\<close>

lemma value_row:
  assumes "ps = 7 \<or> ps = 8" and "c = 0 \<or> c = 1 \<or> c = 4 \<or> c = 5 \<or> c = 6"
  shows "rd http_header_state (ps * 8 + c) = Some (if c \<in> {0, 6} \<or> ps = 7 \<and> c \<in> {1, 4} then 0x87 else 0x88)"
  using assms by (elim disjE) (simp_all add: table)

lemma value_goes:
  "in_head ps k v n cl ck rt \<Longrightarrow> list_all reason_char cs \<Longrightarrow> ps = 7 \<or> ps = 8 \<Longrightarrow>
   cs = [] \<longrightarrow> ps = 7 \<Longrightarrow> cs \<noteq> [] \<longrightarrow> header_column (last cs) \<in> {0, 6} \<Longrightarrow>
   goes R cs ([], []) (in_head 7 k (v @ cs) n cl ck) rt"
proof (induction cs arbitrary: ps v rt)
  case (Cons ch cs)
  define plain where "plain \<longleftrightarrow> header_column ch \<in> {0, 6} \<or> ps = 7 \<and> header_column ch \<in> {1, 4}"
  define new :: nat where "new = (if plain then 0x87 else 0x88)"
  define ps' :: nat where "ps' = (if plain then 7 else 8)"
  have n: "rd http_header_state (ps * 8 + header_column ch) = Some new" "new = 0x87 \<and> ps' = 7 \<or> new = 0x88 \<and> ps' = 8"
    "ps' = 8 \<longrightarrow> header_column ch \<notin> {0, 6}"
    using value_row [of ps "header_column ch"] Cons.prems(2,3) column_cases [of ch]
    by (auto simp: plain_def new_def ps'_def reason_char_def)
  have 1: "goes R [ch] ([], []) (in_head ps' k (v @ [ch]) n cl ck) rt" by (rule value_char [OF Cons.prems(1) n(1,2)])
  have "goes R cs ([], []) (in_head 7 k (v @ ch # cs) n cl ck) rt'" if "in_head ps' k (v @ [ch]) n cl ck rt'" for rt'
    using Cons.IH [OF that] Cons.prems(2,5) n(2,3) by (cases "cs = []") (auto split: if_splits)
  then show ?case using 1 by (rule quiet_Cons [rotated])
qed auto

lemma store_goes:
  assumes "in_head 10 k v n cl ck rt" and "note_header k v (rt\<lparr>parsestate := 4\<rparr>) = Some (rt\<lparr>parsestate := 4, contentlength := cl', chunked := ck'\<rparr>)"
  shows "goes R [0x0A] ([Header_call k v], []) (in_head 4 [] [] n cl' ck') rt"
proof (rule goes_one [OF in_head_not_end [OF assms(1)]])
  let ?rt = "rt\<lparr>parsestate := 4\<rparr>"
  have t: "take (length k + length v) (scratch rt) = k @ v" "nkey rt = length k" "nvalue rt = length v"
    using assms(1) by (simp_all add: in_head_def)
  then have l: "length k + length v \<le> length (scratch rt)" by (metis length_append length_take min.cobounded1)
  have "take (length k) (scratch rt) = k" using arg_cong [OF t(1), of "take (length k)"] by simp
  moreover have "take (length v) (drop (length k) (scratch rt)) = v"
    using arg_cong [OF t(1), of "drop (length k)"] by (simp add: drop_take)
  ultimately have "store_keyvalue ?rt = Some (?rt\<lparr>contentlength := cl', chunked := ck', nkey := 0, nvalue := 0\<rparr>, [Header_call k v])"
    using assms(2) t(2,3) l by (simp add: store_keyvalue_def rd_block_def)
  moreover have "rd http_header_state (10 * 8 + header_column 0x0A) = Some 0xC4" by (simp add: table)
  ultimately show "http_turn R [0x0A] rt = Some (?rt\<lparr>contentlength := cl', chunked := ck', nkey := 0, nvalue := 0\<rparr>, [Header_call k v], 1)"
    using header_turn [OF assms(1), where ch = "0x0A" and R = R] by simp
qed (use assms(1) in \<open>simp_all add: joined_def in_head_def\<close>)

lemma header_goes:
  assumes "in_head 4 [] [] n cl ck rt" and "header_ok (key, val)" and "framing_step (key, val) (cl, ck) = Some (cl', ck')"
  shows "goes R (header_line (key, val)) ([header_found (key, val)], []) (in_head 4 [] [] n cl' ck') rt"
proof -
  let ?k = "map tolower key"
  have "goes R (0x0D # [0x0A]) ([header_found (key, val)], []) (in_head 4 [] [] n cl' ck') rt" if "in_head 7 ?k val n cl ck rt" for rt
  proof (rule quiet_Cons)
    show "goes R [0x0D] ([], []) (in_head 10 ?k val n cl ck) rt" by (rule passes [OF that], simp add: table) simp_all
    fix rt assume "in_head 10 ?k val n cl ck rt"
    then show "goes R [0x0A] ([header_found (key, val)], []) (in_head 4 [] [] n cl' ck') rt"
      using store_goes [of ?k val n cl ck rt, where cl' = cl' and ck' = ck'] note_header_framing [of key val "rt\<lparr>parsestate := 4\<rparr>" cl' ck'] assms(3)
      by (simp add: in_head_def)
  qed
  note line_end = this
  obtain ch cs where v: "val = ch # cs" using assms(2) by (cases val) auto
  have w: "goes R ((ch # cs) @ crlf_bytes) ([header_found (key, val)], []) (in_head 4 [] [] n cl' ck') rt" if "in_head 6 ?k [] n cl ck rt" for rt
  proof -
    have "rd http_header_state (6 * 8 + header_column ch) = Some 0x87" using assms(2) by (auto simp: v version_char_def table)
    then have "goes R [ch] ([], []) (in_head 7 ?k ([] @ [ch]) n cl ck) rt" by (rule value_char [OF that]) simp
    moreover have "goes R cs ([], []) (in_head 7 ?k val n cl ck) rt" if "in_head 7 ?k ([] @ [ch]) n cl ck rt" for rt
      using value_goes [of 7 ?k "[ch]" n cl ck rt cs] that assms(2) by (auto simp: v split: if_splits)
    ultimately have "goes R ([ch] @ cs) ([], []) (in_head 7 ?k val n cl ck) rt" by (rule quiet_append)
    from quiet_append [OF this line_end] show ?thesis by (simp add: crlf_bytes_def)
  qed
  have sp: "goes R [0x20] ([], []) (in_head 6 ?k [] n cl ck) rt" if "in_head 6 ?k [] n cl ck rt" for rt
    using that by (rule passes, simp add: table) simp_all
  have co: "goes R [0x3A] ([], []) (in_head 6 ?k [] n cl ck) rt" if "in_head 4 ?k [] n cl ck rt" for rt
    using that by (rule passes, simp add: table) simp_all
  have ke: "goes R key ([], []) (in_head 4 ?k [] n cl ck) rt" using key_goes [OF assms(1), of key] assms(2) by simp
  show ?thesis using quiet_append [OF ke quiet_Cons [OF co quiet_Cons [OF sp w]]] by (simp add: v)
qed

lemma headers_go:
  "in_head 4 [] [] n cl ck rt \<Longrightarrow> list_all header_ok hs \<Longrightarrow> framing hs (cl, ck) = Some (cl', ck') \<Longrightarrow>
   goes R (concat (map header_line hs)) (map header_found hs, []) (in_head 4 [] [] n cl' ck') rt"
proof (induction hs arbitrary: cl ck rt)
  case (Cons h hs)
  obtain key val where h: "h = (key, val)" by fastforce
  obtain cl1 ck1 where f: "framing_step h (cl, ck) = Some (cl1, ck1)" "framing hs (cl1, ck1) = Some (cl', ck')"
    using Cons.prems(3) by (auto split: bind_splits)
  have "goes R (header_line h @ concat (map header_line hs)) ([header_found h] @ map header_found hs, [] @ [])
      (in_head 4 [] [] n cl' ck') rt"
  proof (rule goes_append)
    show "goes R (header_line h) ([header_found h], []) (in_head 4 [] [] n cl1 ck1) rt"
      using header_goes [OF Cons.prems(1)] Cons.prems(2) f(1) by (simp add: h)
  qed (use Cons.IH f(2) Cons.prems(2) in simp)
  then show ?case by simp
qed auto

end

section \<open>Bodies\<close>

definition waits_for :: "http_roundtripper_state \<Rightarrow> nat \<Rightarrow> int \<Rightarrow> http_roundtripper \<Rightarrow> bool" where
  "waits_for st ps n rt \<longleftrightarrow> rstate rt = st \<and> parsestate rt = ps \<and> contentlength rt = n"

definition body_follows :: "int \<times> bool \<Rightarrow> http_roundtripper \<Rightarrow> bool" where
  "body_follows fr rt \<longleftrightarrow>
     (if snd fr then waits_for http_roundtripper_chunk_header 0 0 rt
      else if fst fr = 0 then waits_for http_roundtripper_close 0 0 rt
      else waits_for http_roundtripper_raw_data 0 (fst fr) rt)"

lemma head_end:
  assumes "in_head 4 [] [] n cl ck rt" and "ck \<or> 0 \<le> cl"
  shows "goes R crlf_bytes ([Code_call n], []) (body_follows (cl, ck)) rt"
  unfolding crlf_bytes_def
proof (rule quiet_Cons)
  show "goes R [0x0D] ([], []) (in_head 5 [] [] n cl ck) rt" by (rule passes [OF assms(1)], simp add: table) simp_all
  fix rt assume h: "in_head 5 [] [] n cl ck rt"
  show "goes R [0x0A] ([Code_call n], []) (body_follows (cl, ck)) rt"
  proof (rule goes_one [OF in_head_not_end [OF h]])
    have "rd http_header_state (5 * 8 + header_column 0x0A) = Some 0xC0" by (simp add: table)
    then show "http_turn R [0x0A] rt = Some (headers_done (rt\<lparr>parsestate := 0\<rparr>), [Code_call n], 1)"
      using header_turn [OF h, where ch = "0x0A" and R = R] by simp
  qed (use h assms(2) in \<open>auto simp: joined_def body_follows_def waits_for_def headers_done_def in_head_def\<close>)
qed

primrec add_hexes :: "int \<Rightarrow> bytes \<Rightarrow> int option" where
  "add_hexes n [] = Some n"
| "add_hexes n (ch # chs) = do { n \<leftarrow> add_hex n ch; add_hexes n chs }"

lemma chunk_turn:
  assumes "waits_for http_roundtripper_chunk_header ps n rt" and "http_parse_chunked ps n ch = Some (ps', m, again)"
    and "P (if again then rt\<lparr>parsestate := ps', contentlength := m\<rparr>
            else rt\<lparr>parsestate := ps', contentlength := m, rstate :=
              (if m = - 1 then http_roundtripper_error else if m = 0 then http_roundtripper_close else http_roundtripper_chunk_data)\<rparr>)"
  shows "goes R [ch] ([], []) P rt"
proof (rule goes_one)
  show "http_turn R [ch] rt = Some (if again then rt\<lparr>parsestate := ps', contentlength := m\<rparr>
            else rt\<lparr>parsestate := ps', contentlength := m, rstate :=
              (if m = - 1 then http_roundtripper_error else if m = 0 then http_roundtripper_close else http_roundtripper_chunk_data)\<rparr>, [], 1)"
    using assms(1,2) by (auto simp: waits_for_def http_turn_def chunk_head_char_def Let_def)
qed (use assms in \<open>auto simp: joined_def waits_for_def\<close>)

lemmas chunk_table = http_parse_chunked_def rd_def http_chunk_state_def chunk_column_def is_hex_def

lemma hex_column: "is_hex ch \<Longrightarrow> chunk_column ch = 3"
  by (auto simp: chunk_column_def is_hex_def word_le_nat_alt)

lemma hex_parse:
  assumes "is_hex ch"
  shows "add_hex 0 ch = Some m \<Longrightarrow> http_parse_chunked 0 n ch = Some (1, m, True)"
    and "add_hex n ch = Some m \<Longrightarrow> http_parse_chunked 1 n ch = Some (1, m, True)"
  using hex_column [OF assms] by (simp_all add: http_parse_chunked_def rd_def http_chunk_state_def)

lemma hexes_go:
  "waits_for http_roundtripper_chunk_header 1 n rt \<Longrightarrow> list_all is_hex cs \<Longrightarrow> add_hexes n cs = Some m \<Longrightarrow>
   goes R cs ([], []) (waits_for http_roundtripper_chunk_header 1 m) rt"
proof (induction cs arbitrary: n rt)
  case (Cons ch cs)
  obtain n1 where n1: "add_hex n ch = Some n1" "add_hexes n1 cs = Some m" using Cons.prems(3) by (auto split: bind_splits)
  have "goes R [ch] ([], []) (waits_for http_roundtripper_chunk_header 1 n1) rt"
    using hex_parse(2) [of ch n n1] Cons.prems(1,2) n1(1) by (intro chunk_turn [OF Cons.prems(1)]) (auto simp: waits_for_def)
  then show ?case by (rule quiet_Cons) (use Cons.IH n1(2) Cons.prems(2) in simp)
qed auto

text \<open>The digits of a chunk's size, up to the line feed.\<close>

lemma size_goes:
  assumes "waits_for http_roundtripper_chunk_header 0 n rt" and "list_all is_hex ds" and "ds \<noteq> []" and "add_hexes 0 ds = Some m"
  shows "goes R (ds @ [0x0D]) ([], []) (waits_for http_roundtripper_chunk_header 2 m) rt"
proof -
  obtain ch cs m1 where ds: "ds = ch # cs" "add_hex 0 ch = Some m1" "add_hexes m1 cs = Some m"
    using assms(3,4) by (cases ds) (auto split: bind_splits)
  have "goes R [ch] ([], []) (waits_for http_roundtripper_chunk_header 1 m1) rt"
    using hex_parse(1) [of ch m1 n] assms(1,2) ds(1,2) by (intro chunk_turn [OF assms(1)]) (auto simp: waits_for_def)
  moreover have "goes R cs ([], []) (waits_for http_roundtripper_chunk_header 1 m) rt"
    if "waits_for http_roundtripper_chunk_header 1 m1 rt" for rt
    using hexes_go [OF that _ ds(3)] assms(2) by (simp add: ds(1))
  moreover have "goes R [0x0D] ([], []) (waits_for http_roundtripper_chunk_header 2 m) rt"
    if "waits_for http_roundtripper_chunk_header 1 m rt" for rt
  proof (rule chunk_turn [OF that])
    show "http_parse_chunked 1 m 0x0D = Some (2, m, True)" by (simp add: chunk_table)
  qed (use that in \<open>simp add: waits_for_def\<close>)
  ultimately show ?thesis unfolding ds(1) append_Cons by (intro quiet_Cons [OF _ quiet_append])
qed

definition chunk :: "bytes \<times> bytes \<Rightarrow> bytes" where
  "chunk c = fst c @ crlf_bytes @ snd c @ crlf_bytes"

definition chunk_ok :: "bytes \<times> bytes \<Rightarrow> bool" where
  "chunk_ok c \<longleftrightarrow> fst c \<noteq> [] \<and> list_all is_hex (fst c) \<and> add_hexes 0 (fst c) = Some (int (length (snd c)))"

lemma chunk_goes:
  assumes "waits_for http_roundtripper_chunk_header 0 n rt" and "chunk_ok c" and "snd c \<noteq> []"
  shows "goes R (chunk c) ([], snd c) (waits_for http_roundtripper_chunk_header 0 1) rt"
proof -
  let ?m = "int (length (snd c))"
  have s: "goes R (fst c @ [0x0D]) ([], []) (waits_for http_roundtripper_chunk_header 2 ?m) rt"
    using size_goes [OF assms(1)] assms(2) by (simp add: chunk_ok_def)
  have l: "goes R [0x0A] ([], []) (waits_for http_roundtripper_chunk_data 3 ?m) rt" if "waits_for http_roundtripper_chunk_header 2 ?m rt" for rt
  proof (rule chunk_turn [OF that])
    show "http_parse_chunked 2 ?m 0x0A = Some (3, ?m, False)" using assms(3) by (simp add: chunk_table)
  qed (use that assms(3) in \<open>simp add: waits_for_def\<close>)
  have b: "goes R (snd c) ([], snd c) (waits_for http_roundtripper_chunk_header 3 1) rt" if "waits_for http_roundtripper_chunk_data 3 ?m rt" for rt
    using body_run [of rt "snd c" R] that assms(3) by (auto simp: waits_for_def goes_def)
  have cr: "goes R [0x0D] ([], []) (waits_for http_roundtripper_chunk_header 4 1) rt" if "waits_for http_roundtripper_chunk_header 3 1 rt" for rt
  proof (rule chunk_turn [OF that])
    show "http_parse_chunked 3 1 0x0D = Some (4, 1, True)" by (simp add: chunk_table)
  qed (use that in \<open>simp add: waits_for_def\<close>)
  have lf: "goes R [0x0A] ([], []) (waits_for http_roundtripper_chunk_header 0 1) rt" if "waits_for http_roundtripper_chunk_header 4 1 rt" for rt
  proof (rule chunk_turn [OF that])
    show "http_parse_chunked 4 1 0x0A = Some (0, 1, True)" by (simp add: chunk_table)
  qed (use that in \<open>simp add: waits_for_def\<close>)
  have e: "goes R [0x0D, 0x0A] ([], []) (waits_for http_roundtripper_chunk_header 0 1) rt" if "waits_for http_roundtripper_chunk_header 3 1 rt" for rt
    by (rule quiet_Cons [OF cr [OF that] lf])
  have "goes R (snd c @ [0x0D, 0x0A]) ([] @ [], snd c @ []) (waits_for http_roundtripper_chunk_header 0 1) rt"
    if "waits_for http_roundtripper_chunk_data 3 ?m rt" for rt
    by (rule goes_append [OF b [OF that] e])
  then have t: "goes R (snd c @ crlf_bytes) ([], snd c) (waits_for http_roundtripper_chunk_header 0 1) rt"
    if "waits_for http_roundtripper_chunk_data 3 ?m rt" for rt
    using that by (simp add: crlf_bytes_def)
  show ?thesis using quiet_append [OF s quiet_Cons [OF l t]] by (simp add: chunk_def crlf_bytes_def)
qed

lemma last_chunk_goes:
  assumes "waits_for http_roundtripper_chunk_header 0 n rt" and "chunk_ok (ds, [])"
  shows "goes R (chunk (ds, [])) ([], []) (\<lambda>rt. rstate rt = http_roundtripper_close) rt"
proof -
  have s: "goes R (ds @ [0x0D]) ([], []) (waits_for http_roundtripper_chunk_header 2 0) rt"
    using size_goes [OF assms(1), of ds 0] assms(2) by (simp add: chunk_ok_def)
  have l: "goes R [0x0A] ([], []) (waits_for http_roundtripper_chunk_header 3 0) rt" if "waits_for http_roundtripper_chunk_header 2 0 rt" for rt
  proof (rule chunk_turn [OF that])
    show "http_parse_chunked 2 0 0x0A = Some (3, 0, True)" by (simp add: chunk_table)
  qed (use that in \<open>simp add: waits_for_def\<close>)
  have cr: "goes R [0x0D] ([], []) (waits_for http_roundtripper_chunk_header 4 0) rt" if "waits_for http_roundtripper_chunk_header 3 0 rt" for rt
  proof (rule chunk_turn [OF that])
    show "http_parse_chunked 3 0 0x0D = Some (4, 0, True)" by (simp add: chunk_table)
  qed (use that in \<open>simp add: waits_for_def\<close>)
  have lf: "goes R [0x0A] ([], []) (\<lambda>rt. rstate rt = http_roundtripper_close) rt" if "waits_for http_roundtripper_chunk_header 4 0 rt" for rt
  proof (rule chunk_turn [OF that])
    show "http_parse_chunked 4 0 0x0A = Some (0, 0, False)" by (simp add: chunk_table)
  qed (use that in \<open>simp add: waits_for_def\<close>)
  show ?thesis using quiet_append [OF s quiet_Cons [OF l quiet_Cons [OF cr lf]]] by (simp add: chunk_def crlf_bytes_def)
qed

lemma chunks_go:
  assumes "list_all chunk_ok cs" and "list_all (\<lambda>c. snd c \<noteq> []) cs" and "chunk_ok (ds, [])"
  shows "waits_for http_roundtripper_chunk_header 0 n rt \<Longrightarrow>
   goes R (concat (map chunk cs) @ chunk (ds, [])) ([], concat (map snd cs)) (\<lambda>rt. rstate rt = http_roundtripper_close) rt"
  using assms
proof (induction cs arbitrary: n rt)
  case Nil
  then show ?case using last_chunk_goes by simp
next
  case (Cons c cs)
  have "goes R (chunk c @ concat (map chunk cs) @ chunk (ds, [])) ([] @ [], snd c @ concat (map snd cs))
      (\<lambda>rt. rstate rt = http_roundtripper_close) rt"
  proof (rule goes_append)
    show "goes R (chunk c) ([], snd c) (waits_for http_roundtripper_chunk_header 0 1) rt"
      using chunk_goes [OF Cons.prems(1)] Cons.prems(2,3) by simp
  qed (use Cons.IH Cons.prems in simp)
  then show ?case by simp
qed

text \<open>How a body may be written.\<close>

definition body_text :: "int \<times> bool \<Rightarrow> bytes \<Rightarrow> bytes \<Rightarrow> bool" where
  "body_text fr body txt \<longleftrightarrow>
     (if snd fr then \<exists>cs ds. list_all chunk_ok cs \<and> list_all (\<lambda>c. snd c \<noteq> []) cs \<and> chunk_ok (ds, []) \<and>
          body = concat (map snd cs) \<and> txt = concat (map chunk cs) @ chunk (ds, [])
      else fst fr = int (length body) \<and> txt = body)"

lemma body_goes:
  assumes "body_follows fr rt" and "body_text fr body txt"
  shows "goes R txt ([], body) (\<lambda>rt. rstate rt = http_roundtripper_close) rt"
proof (cases "snd fr")
  case True
  then show ?thesis using assms chunks_go by (auto simp: body_follows_def body_text_def)
next
  case False
  then show ?thesis
    using assms body_run [of rt body R] by (auto simp: body_follows_def body_text_def waits_for_def goes_def joined_def split: if_splits)
qed

section \<open>The parser on a response\<close>

definition response_text :: "bytes \<Rightarrow> bytes \<Rightarrow> bytes \<Rightarrow> (bytes \<times> bytes) list \<Rightarrow> bytes \<Rightarrow> bytes" where
  "response_text version digits reason hs txt = status_line version digits reason @ concat (map header_line hs) @ crlf_bytes @ txt"

definition response_ok :: "bytes \<Rightarrow> bytes \<Rightarrow> bytes \<Rightarrow> (bytes \<times> bytes) list \<Rightarrow> bytes \<Rightarrow> int \<Rightarrow> bytes \<Rightarrow> bool" where
  "response_ok version digits reason hs txt n body \<longleftrightarrow> status_ok version digits reason \<and> add_digits 0 digits = Some n \<and>
     list_all header_ok hs \<and> (\<exists>fr. framing hs (- 1, False) = Some fr \<and> body_text fr body txt)"

context reallocator
begin

lemma response_goes:
  assumes "response_ok version digits reason hs txt n body"
  shows "goes R (response_text version digits reason hs txt) (map header_found hs @ [Code_call n], body)
     (\<lambda>rt. rstate rt = http_roundtripper_close) http_init"
proof -
  obtain cl ck where fr: "framing hs (- 1, False) = Some (cl, ck)" "body_text (cl, ck) body txt"
    using assms by (auto simp: response_ok_def)
  have "ck \<or> 0 \<le> cl" using fr(2) by (simp add: body_text_def split: if_splits)
  note he = head_end [OF _ this]
  have st: "goes R (status_line version digits reason) ([], []) (in_head 4 [] [] n (- 1) False) http_init"
    using status_goes [OF _ _ in_head_init] assms by (simp add: response_ok_def)
  have hb: "goes R (crlf_bytes @ txt) ([Code_call n] @ [], [] @ body) (\<lambda>rt. rstate rt = http_roundtripper_close) rt"
    if "in_head 4 [] [] n cl ck rt" for rt
    by (rule goes_append [OF he [OF that] body_goes [OF _ fr(2)]])
  have "goes R (concat (map header_line hs) @ crlf_bytes @ txt) (map header_found hs @ [Code_call n] @ [], [] @ [] @ body)
      (\<lambda>rt. rstate rt = http_roundtripper_close) rt" if "in_head 4 [] [] n (- 1) False rt" for rt
    by (rule goes_append [OF headers_go [OF that _ fr(1)] hb]) (use assms in \<open>simp add: response_ok_def\<close>)
  from quiet_append [OF st this] show ?thesis by (simp add: response_text_def)
qed

text \<open>Whatever follows the response is left alone.\<close>

lemma reads_response:
  assumes "response_ok version digits reason hs txt n body"
  shows "\<exists>rt calls. http_data R http_init (response_text version digits reason hs txt @ rest) =
       Some (rt, calls, length (response_text version digits reason hs txt), False) \<and> rstate rt = http_roundtripper_close \<and>
     heads calls = map header_found hs @ [Code_call n] \<and> body_of calls = body"
proof -
  obtain rt calls where r: "char_run R http_init (response_text version digits reason hs txt) =
      Some (rt, calls, length (response_text version digits reason hs txt))"
    "joined calls = (map header_found hs @ [Code_call n], body)" "rstate rt = http_roundtripper_close"
    using response_goes [OF assms] by (auto simp: goes_def)
  have "at_end rt" using r(3) by (simp add: at_end_def)
  then have run: "char_run R http_init (response_text version digits reason hs txt @ rest) =
      Some (rt, calls, length (response_text version digits reason hs txt))"
    using r(1) by (simp add: char_run_append char_run_end)
  have "\<not> at_end http_init" by (simp add: http_init_def)
  from seen_runI [OF http_data_is_run [OF parser_ok_init this] run] show ?thesis
    using r(2,3) \<open>at_end rt\<close> by (auto simp: settled_def http_free_def joined_def)
qed

end

end
