(* ===== verification/Dacp_Replies.thy ===== *)
theory Dacp_Replies
  imports Dacp_Client Http_Responses
begin

text \<open>
  Replies to DACP commands: the code and the body of a well-formed response reach the caller however the connection
  cuts it, and the items of a body are read back.
\<close>

section \<open>Memory\<close>

interpretation dacp_memory: reallocator "response_realloc fresh" for fresh
  by unfold_locales (auto simp: response_realloc_def)

text \<open>The response holds the first part of a body.\<close>

definition holds_body :: "bytes \<Rightarrow> http_response \<Rightarrow> bool" where
  "holds_body c rsp \<longleftrightarrow> (\<exists>b. rsp_body rsp = Some b \<and> length b = malloced_size rsp \<and> rsp_size rsp = length c \<and>
     length c \<le> length b \<and> take (length c) b = c)"

lemma response_body_holds:
  assumes "holds_body c rsp"
  shows "\<exists>rsp'. response_body fresh data rsp = Some rsp' \<and> holds_body (c @ data) rsp' \<and> rsp_code rsp' = rsp_code rsp"
proof -
  obtain b where b: "rsp_body rsp = Some b" "length b = malloced_size rsp" "rsp_size rsp = length c" "length c \<le> length b"
    "take (length c) b = c"
    using assms by (auto simp: holds_body_def)
  define b' where "b' = (if length b - length c < length data
     then response_realloc fresh b (length data + length c + 16384) else b)"
  have l: "length c + length data \<le> length b'" "take (length c) b' = c"
    using b(4,5) dacp_memory.keeps [OF b(4), of "length data + length c + 16384" fresh]
    by (auto simp: b'_def dacp_memory.new_size)
  have "nat (int (length data) - (int (length b) - int (length c)) + int (length b) + 16384) = length data + length c + 16384"
    by simp
  then have "response_body fresh data rsp = Some (rsp\<lparr>rsp_body := Some (c @ data @ drop (length c + length data) b'),
      malloced_size := length b', rsp_size := length c + length data\<rparr>)"
    using b l by (auto simp: response_body_def Let_def b'_def wr_block_def dacp_memory.new_size of_nat_diff split: if_splits)
  moreover have "length (c @ data @ drop (length c + length data) b') = length b'" using l(1) by simp
  ultimately show ?thesis by (auto simp: holds_body_def)
qed

definition last_code :: "http_call list \<Rightarrow> int \<Rightarrow> int" where
  "last_code calls n = foldl (\<lambda>n c. case c of Code_call m \<Rightarrow> m | _ \<Rightarrow> n) n (heads calls)"

lemma last_code_Cons: "last_code (c # cs) n = last_code cs (case c of Code_call m \<Rightarrow> m | _ \<Rightarrow> n)"
  by (cases c) (simp_all add: last_code_def)

lemma last_code_append: "last_code (a @ b) n = last_code b (last_code a n)"
  by (simp add: last_code_def)

lemma response_calls_hold:
  "holds_body c rsp \<Longrightarrow> \<exists>rsp'. response_calls fresh calls rsp = Some rsp' \<and> holds_body (c @ body_of calls) rsp' \<and>
     rsp_code rsp' = last_code calls (rsp_code rsp)"
proof (induction calls arbitrary: c rsp)
  case Nil
  then show ?case by (simp add: last_code_def)
next
  case (Cons x calls)
  show ?case
  proof (cases x)
    case (Body_call data)
    then show ?thesis using response_body_holds [OF Cons.prems, of fresh data] Cons.IH by (fastforce simp: last_code_Cons)
  next
    case (Code_call n)
    have "holds_body c (response_code n rsp)" using Cons.prems by (simp add: holds_body_def response_code_def)
    then show ?thesis using Code_call Cons.IH by (fastforce simp: last_code_Cons response_code_def)
  next
    case (Header_call k v)
    then show ?thesis using Cons by (fastforce simp: last_code_Cons)
  qed
qed

section \<open>Receiving\<close>

lemma char_run_all: "char_run R rt data = Some (rt', calls, n) \<Longrightarrow> \<not> at_end rt' \<Longrightarrow> parser_ok rt \<Longrightarrow> n = length data"
proof (induction data arbitrary: rt calls n)
  case (Cons ch data)
  have nend: "\<not> at_end rt" using Cons.prems(1,2) char_run_end [of rt R "ch # data"] by auto
  obtain rt1 c k c' k' where t: "http_turn R [ch] rt = Some (rt1, c, k)" "char_run R rt1 data = Some (rt', c', k')" "n = k + k'"
    using Cons.prems(1) nend by (auto split: bind_splits)
  have "k = 1" "parser_ok rt1" using turn_run [OF Cons.prems(3) nend _ t(1)] by auto
  then show ?case using Cons.IH [OF t(2) Cons.prems(2)] t(3) by simp
qed simp

lemma take_data_run:
  assumes "parser_ok rt" and "\<not> at_end rt" and "data \<noteq> []" and "holds_body c rsp"
    and "char_run (response_realloc fresh) rt data = Some (rt', calls, n)"
  shows "\<exists>rsp'. take_data fresh rt rsp data = Some (settled rt', rsp', \<not> at_end rt') \<and> holds_body (c @ body_of calls) rsp' \<and>
     rsp_code rsp' = last_code calls (rsp_code rsp)"
proof -
  obtain calls' where d: "http_data (response_realloc fresh) rt data = Some (settled rt', calls', n, \<not> at_end rt')"
    "joined calls' = joined calls"
    using seen_runI [OF http_data_is_run [OF assms(1,2)] assms(5)] by blast
  obtain rsp' where r: "response_calls fresh calls' rsp = Some rsp'" "holds_body (c @ body_of calls) rsp'"
    "rsp_code rsp' = last_code calls (rsp_code rsp)"
    using response_calls_hold [OF assms(4), of fresh calls'] d(2) by (auto simp: joined_def last_code_def)
  have "take_data fresh rt rsp data = Some (settled rt', rsp', \<not> at_end rt')"
    using assms(3) d(1) r(1) char_run_all [OF assms(5) _ assms(1)]
    by (cases "at_end rt'") (simp_all add: take_data.simps [of fresh rt rsp data] take_data.simps [of fresh _ _ "[]"])
  then show ?thesis using r by blast
qed

text \<open>Pieces that arrive one after the other, until the parser has what it needs.\<close>

lemma recv_loop_run:
  "parser_ok rt \<Longrightarrow> \<not> at_end rt \<Longrightarrow> holds_body c rsp \<Longrightarrow> [] \<notin> set ps \<Longrightarrow>
   char_run (response_realloc fresh) rt (concat ps) = Some (rt', calls, n) \<Longrightarrow>
   \<exists>rsp'. recv_loop fresh (map Received ps @ rs) rt rsp =
       (if at_end rt' then Some (settled rt', rsp') else recv_loop fresh rs rt' rsp') \<and>
     holds_body (c @ body_of calls) rsp' \<and> rsp_code rsp' = last_code calls (rsp_code rsp)"
proof (induction ps arbitrary: rt c rsp calls n)
  case Nil
  then show ?case by (auto simp: last_code_def)
next
  case (Cons p ps)
  obtain rt1 c1 n1 c2 n2 where r: "char_run (response_realloc fresh) rt p = Some (rt1, c1, n1)"
    "char_run (response_realloc fresh) rt1 (concat ps) = Some (rt', c2, n2)" "calls = c1 @ c2"
    using Cons.prems(5) by (auto simp: char_run_append split: bind_splits)
  have p: "p \<noteq> []" using Cons.prems(4) by auto
  obtain rsp1 where t: "take_data fresh rt rsp p = Some (settled rt1, rsp1, \<not> at_end rt1)" "holds_body (c @ body_of c1) rsp1"
    "rsp_code rsp1 = last_code c1 (rsp_code rsp)"
    using take_data_run [OF Cons.prems(1,2) p Cons.prems(3) r(1)] by blast
  show ?case
  proof (cases "at_end rt1")
    case True
    then show ?thesis using t r(2,3) p by (simp add: char_run_end)
  next
    case False
    have ok: "parser_ok rt1" by (rule char_run_keeps_ok [OF r(1) Cons.prems(1)])
    obtain rsp' where "recv_loop fresh (map Received ps @ rs) rt1 rsp1 =
       (if at_end rt' then Some (settled rt', rsp') else recv_loop fresh rs rt' rsp')"
      "holds_body ((c @ body_of c1) @ body_of c2) rsp'" "rsp_code rsp' = last_code c2 (rsp_code rsp1)"
      using Cons.IH [OF ok False t(2) _ r(2)] Cons.prems(4) by auto
    then show ?thesis using t False p r(3) by (auto simp: settled_def last_code_append)
  qed
qed

lemma converse_start: "holds_body [] (no_response\<lparr>rsp_body := Some (map fresh [0..<2048]), malloced_size := 2048\<rparr>)"
  by (simp add: holds_body_def no_response_def)

lemma reply_reaches:
  assumes "server_port (dacp_server net) \<noteq> 0" and "dacp_request net command w = (Connected (map Received ps @ rs), w')" and "[] \<notin> set ps"
    and "response_ok version digits reason hs txt n body"
    and "concat ps = response_text version digits reason hs txt @ extra"
  shows "\<exists>rsp. dacp_send_command net command w = Some (rsp, w') \<and> rsp_code rsp = n \<and> holds_body body rsp"
proof -
  let ?fresh = "new_memory net"
  let ?rsp = "no_response\<lparr>rsp_body := Some (map ?fresh [0..<2048]), malloced_size := 2048\<rparr>"
  obtain rt calls where r: "char_run (response_realloc ?fresh) http_init (response_text version digits reason hs txt) =
      Some (rt, calls, length (response_text version digits reason hs txt))"
    "joined calls = (map header_found hs @ [Code_call n], body)" "rstate rt = http_roundtripper_close"
    using dacp_memory.response_goes [OF assms(4), of ?fresh] by (auto simp: goes_def)
  have e: "at_end rt" using r(3) by (simp add: at_end_def)
  then have run: "char_run (response_realloc ?fresh) http_init (concat ps) =
      Some (rt, calls, length (response_text version digits reason hs txt))"
    using r(1) by (simp add: assms(5) char_run_append char_run_end)
  have "\<not> at_end http_init" by (simp add: http_init_def)
  from recv_loop_run [OF parser_ok_init this converse_start assms(3) run, of rs]
  obtain rsp where rsp: "recv_loop ?fresh (map Received ps @ rs) http_init ?rsp = Some (settled rt, rsp)"
    "holds_body (body_of calls) rsp" "rsp_code rsp = last_code calls 0"
    using e by (auto simp: no_response_def)
  have "foldl (\<lambda>n c. case c of Code_call m \<Rightarrow> m | _ \<Rightarrow> n) k (map header_found hs) = k" for k :: int
    by (induction hs) auto
  then have "rsp_code rsp = n" "holds_body body rsp" using rsp(2,3) r(2) by (simp_all add: joined_def last_code_def)
  moreover have "converse ?fresh (map Received ps @ rs) = Some rsp"
    using rsp(1) r(3) e by (simp add: converse_def settled_def http_free_def http_iserror_def)
  ultimately show ?thesis using assms(1,2) by (simp add: dacp_send_command_def dacp_exchange_def)
qed

text \<open>
  C13. A well-formed response to a command, with a body of a given length or in chunks, reaches the caller with its
  code and exactly its body, in whatever pieces it arrives, whatever comes behind it and whatever the
  memory contained.
\<close>
theorem reply_reaches_caller:
  assumes "server_port (dacp_server net) \<noteq> 0" and "dacp_request net command w = (Connected (map Received ps @ rs), w')" and "[] \<notin> set ps"
    and "response_ok version digits reason hs txt n body"
    and "concat ps = response_text version digits reason hs txt @ extra"
  shows "\<exists>rsp. dacp_send_command net command w = Some (rsp, w') \<and> rsp_code rsp = n \<and> holds_body body rsp"
  using assms by (rule reply_reaches)

text \<open>
  A response that gives neither a length nor chunks ends when the client closes the connection. It never
  reaches the caller: the code becomes 495 and the body is thrown away.
\<close>

lemma unknown_never_ends:
  "rstate rt = http_roundtripper_unknown_data \<Longrightarrow> holds_body c rsp \<Longrightarrow>
   \<exists>rsp'. recv_loop fresh rs rt rsp = Some (rt, rsp') \<and> rsp_code rsp' = 495 \<and> rsp_body rsp' = None"
proof (induction rs arbitrary: c rsp)
  case Nil
  then show ?case by (simp add: receiving_failed_def)
next
  case (Cons r rs)
  show ?case
  proof (cases "\<exists>data. r = Received data \<and> data \<noteq> []")
    case True
    then obtain data where r: "r = Received data" "data \<noteq> []" by blast
    obtain calls where "char_run (response_realloc fresh) rt data = Some (rt, calls, length data)"
      using unknown_run [OF Cons.prems(1)] by blast
    moreover have "parser_ok rt" "\<not> at_end rt" using Cons.prems(1) by (simp_all add: parser_ok_def)
    ultimately obtain rsp' where "take_data fresh rt rsp data = Some (rt, rsp', True)" "holds_body (c @ body_of calls) rsp'"
      using take_data_run [OF _ _ r(2) Cons.prems(2)] by (fastforce simp: settled_def)
    then show ?thesis using Cons.IH [OF Cons.prems(1)] r by simp
  next
    case False
    then show ?thesis by (cases r) (auto simp: receiving_failed_def)
  qed
qed

lemma reply_without_length_lost:
  assumes "status_ok version digits reason" and "add_digits 0 digits = Some n" and "list_all header_ok hs"
    and "framing hs (- 1, False) = Some (- 1, False)" and "[] \<notin> set ps"
    and "concat ps = response_text version digits reason hs body"
  shows "\<exists>rsp. converse fresh (map Received ps @ rs) = Some rsp \<and> rsp_code rsp = 495 \<and> rsp_body rsp = None"
proof -
  let ?R = "response_realloc fresh"
  let ?head = "status_line version digits reason @ concat (map header_line hs)"
  have "goes ?R (status_line version digits reason) ([], []) (in_head 4 [] [] n (- 1) False) http_init"
    by (rule status_goes [OF assms(1,2) in_head_init])
  then have "goes ?R ?head (map header_found hs, []) (in_head 4 [] [] n (- 1) False) http_init"
    by (rule quiet_append) (rule dacp_memory.headers_go [OF _ assms(3,4)])
  then obtain rt calls where g: "char_run ?R http_init ?head = Some (rt, calls, length ?head)" "in_head 4 [] [] n (- 1) False rt"
    by (auto simp: goes_def)
  have "goes ?R [0x0D] ([], []) (in_head 5 [] [] n (- 1) False) rt" by (rule passes [OF g(2)], simp add: table) simp_all
  then obtain rt5 calls5 where g5: "char_run ?R rt [0x0D] = Some (rt5, calls5, 1)" "in_head 5 [] [] n (- 1) False rt5"
    by (auto simp: goes_def)
  have "rd http_header_state (5 * 8 + header_column 0x0A) = Some 0xC0" by (simp add: table)
  then have "http_turn ?R [0x0A] rt5 = Some (headers_done (rt5\<lparr>parsestate := 0\<rparr>), [Code_call n], 1)"
    using header_turn [OF g5(2), where ch = "0x0A" and R = ?R] by simp
  moreover have u: "rstate (headers_done (rt5\<lparr>parsestate := 0\<rparr>)) = http_roundtripper_unknown_data"
    using g5(2) by (simp add: headers_done_def in_head_def)
  moreover obtain c where "char_run ?R (headers_done (rt5\<lparr>parsestate := 0\<rparr>)) body =
      Some (headers_done (rt5\<lparr>parsestate := 0\<rparr>), c, length body)"
    using unknown_run [OF u] by blast
  ultimately have "char_run ?R rt5 (0x0A # body) = Some (headers_done (rt5\<lparr>parsestate := 0\<rparr>), Code_call n # c, Suc (length body))"
    using in_head_not_end [OF g5(2)] by simp
  then have "char_run ?R http_init (?head @ [0x0D] @ 0x0A # body) =
      Some (headers_done (rt5\<lparr>parsestate := 0\<rparr>), calls @ calls5 @ Code_call n # c, length ?head + (1 + Suc (length body)))"
    unfolding char_run_append [of _ _ ?head] char_run_append [of _ _ "[0x0D]"] g(1) using g5(1) by simp
  then have run: "char_run ?R http_init (concat ps) =
      Some (headers_done (rt5\<lparr>parsestate := 0\<rparr>), calls @ calls5 @ Code_call n # c, length ?head + (1 + Suc (length body)))"
    by (simp add: assms(6) response_text_def crlf_bytes_def)
  have "\<not> at_end http_init" by (simp add: http_init_def)
  from recv_loop_run [OF parser_ok_init this converse_start assms(5) run, of rs] u
  obtain rsp1 where "recv_loop fresh (map Received ps @ rs) http_init (no_response\<lparr>rsp_body := Some (map fresh [0..<2048]), malloced_size := 2048\<rparr>) =
      recv_loop fresh rs (headers_done (rt5\<lparr>parsestate := 0\<rparr>)) rsp1" "holds_body (body_of (calls @ calls5 @ Code_call n # c)) rsp1"
    by (auto simp del: body_of_def)
  with unknown_never_ends [OF u this(2), of fresh rs] u show ?thesis
    by (auto simp: converse_def http_iserror_def)
qed

end
