(* ===== verification/Dacp_Volume.thy ===== *)
theory Dacp_Volume
  imports Dacp_Replies
begin

text \<open>
  Volumes and speakers through DACP: what is found in the replies, and that a volume that is set is the one that is
  read back.
\<close>

section \<open>Writing items\<close>

definition item :: "string \<Rightarrow> bytes \<Rightarrow> bytes" where
  "item type v = ascii type @ htonl_bytes (of_nat (length v)) @ v"

lemma length_item: "length type = 4 \<Longrightarrow> length (item type v) = 8 + length v"
  by (simp add: item_def ascii_def)

lemma four_bytes:
  assumes "length type = 4"
  shows "ascii type = htonl_bytes (four_cc type)"
proof -
  obtain a b c d where "type = [a, b, c, d]" using assms by (auto simp: numeral_eq_Suc length_Suc_conv)
  moreover have "[w, x, y, z] = htonl_bytes (push_bit 8 (push_bit 8 (push_bit 8 (ucast w) OR ucast x) OR ucast y) OR ucast z)"
    for w x y z :: u8
    unfolding htonl_bytes_def by (auto intro!: bit_word_eqI simp: bit_simps) (fastforce dest: bit_imp_le_length)+
  ultimately show ?thesis by (simp add: ascii_def four_cc_def)
qed

lemma read32_at: "p = int (length pre) \<Longrightarrow> read32 (pre @ htonl_bytes v @ post) p = Some v"
  by (simp add: read32_def nctohl_at)

lemma crawl_item:
  assumes "length type = 4" and "length v < 2 ^ 31" and "p = int (length pre)"
  shows "dacp_tlv_crawl (pre @ item type v @ post) p = Some (four_cc type, int (length v), p + 8 + int (length v))"
proof -
  have "read32 (pre @ item type v @ post) p = Some (four_cc type)"
    using assms(3) read32_at [of p pre "four_cc type"] by (simp add: item_def four_bytes [OF assms(1)])
  moreover have "read32 (pre @ item type v @ post) (p + 4) = Some (of_nat (length v))"
    using assms(1,3) read32_at [of "p + 4" "pre @ ascii type" "of_nat (length v)" "v @ post"] by (simp add: item_def ascii_def)
  moreover have "sint (of_nat (length v) :: u32) = int (length v)"
  proof -
    have "unat (of_nat (length v) :: u32) = length v" using assms(2) by (simp add: unat_of_nat take_bit_nat_eq_self)
    then show ?thesis using assms(2) by (subst sint_small) simp_all
  qed
  ultimately show ?thesis by (simp add: dacp_tlv_crawl_def)
qed

section \<open>The overall volume\<close>

type_synonym field = "string \<times> bytes"

definition fields_text :: "field list \<Rightarrow> bytes" where
  "fields_text fs = concat (map (\<lambda>(type, v). item type v) fs)"

definition field_ok :: "field \<Rightarrow> bool" where
  "field_ok f \<longleftrightarrow> length (fst f) = 4 \<and> length (snd f) < 2 ^ 31 - 8"

lemma fields_text_Cons: "fields_text ((type, v) # fs) = item type v @ fields_text fs"
  by (simp add: fields_text_def)

definition volume_bytes :: "int \<Rightarrow> bytes" where
  "volume_bytes v = htonl_bytes (word_of_int v)"

lemma length_volume_bytes [simp]: "length (volume_bytes v) = 4"
  by (simp add: volume_bytes_def)

definition is_i32 :: "int \<Rightarrow> bool" where
  "is_i32 v \<longleftrightarrow> - (2 ^ 31) \<le> v \<and> v < 2 ^ 31"

lemma sint_of_i32: "is_i32 v \<Longrightarrow> sint (word_of_int v :: u32) = v"
  by (simp add: is_i32_def signed_of_int signed_take_bit_int_eq_self)

lemma four_cc_simps:
  "four_cc ''cmvo'' = 0x636D766F" "four_cc ''cmgt'' = 0x636D6774" "four_cc ''mdcl'' = 0x6D64636C" "four_cc ''minm'' = 0x6D696E6D"
  "four_cc ''msma'' = 0x6D736D61" "four_cc ''caia'' = 0x63616961" "four_cc ''casp'' = 0x63617370"
  by (simp_all add: four_cc_def)

lemma no_dictionary:
  "four_cc ''minm'' \<noteq> four_cc ''mdcl''" "four_cc ''cmvo'' \<noteq> four_cc ''mdcl''" "four_cc ''msma'' \<noteq> four_cc ''mdcl''"
  "four_cc ''caia'' \<noteq> four_cc ''mdcl''"
  by (simp_all add: four_cc_simps)

text \<open>The values of the items of type \<open>cmvo\<close>; the last one counts.\<close>

fun last_volume :: "int \<Rightarrow> field list \<Rightarrow> int" where
  "last_volume n [] = n"
| "last_volume n ((type, v) # fs) = last_volume (if four_cc type = four_cc ''cmvo'' then (case nctohl v 0 of Some w \<Rightarrow> sint w | None \<Rightarrow> n) else n) fs"

definition volume_field_ok :: "field \<Rightarrow> bool" where
  "volume_field_ok f \<longleftrightarrow> field_ok f \<and> (four_cc (fst f) = four_cc ''cmvo'' \<longrightarrow> length (snd f) = 4)"

lemma read32_value:
  assumes "length v = 4"
  shows "read32 (pre @ v @ post) (int (length pre)) = nctohl v 0" and "nctohl v 0 \<noteq> None"
proof -
  obtain a b c d where "v = [a, b, c, d]" using assms by (auto simp: numeral_eq_Suc length_Suc_conv)
  then show "read32 (pre @ v @ post) (int (length pre)) = nctohl v 0" "nctohl v 0 \<noteq> None"
    by (simp_all add: read32_def nctohl_def rd_block_def)
qed

lemma volume_loop_fields:
  "list_all volume_field_ok fs \<Longrightarrow>
   volume_loop (pre @ fields_text fs @ post) (int (length pre)) (int (length (fields_text fs))) n = Some (last_volume n fs)"
proof (induction fs arbitrary: pre n)
  case Nil
  then show ?case by (simp add: volume_loop.simps fields_text_def)
next
  case (Cons f fs)
  obtain type v where f: "f = (type, v)" by fastforce
  have ok: "length type = 4" "length v < 2 ^ 31 - 8" "four_cc type = four_cc ''cmvo'' \<longrightarrow> length v = 4"
    using Cons.prems by (simp_all add: f volume_field_ok_def field_ok_def)
  let ?block = "pre @ item type v @ fields_text fs @ post"
  let ?pre = "pre @ ascii type @ htonl_bytes (of_nat (length v))"
  have c: "dacp_tlv_crawl ?block (int (length pre)) = Some (four_cc type, int (length v), int (length pre) + 8 + int (length v))"
    using crawl_item [OF ok(1), of v "int (length pre)" pre] ok(2) by simp
  have i: "i32_of (int (length v) + 8) = Some (int (length v) + 8)" using ok(2) by (simp add: i32_of_def)
  have l: "length ?pre = length pre + 8" using ok(1) by (simp add: ascii_def)
  have v: "(if four_cc type = four_cc ''cmvo'' then map_option sint (read32 ?block (int (length pre) + 8)) else Some n) =
      Some (if four_cc type = four_cc ''cmvo'' then (case nctohl v 0 of Some w \<Rightarrow> sint w | None \<Rightarrow> n) else n)"
  proof (cases "four_cc type = four_cc ''cmvo''")
    case True
    have "read32 ?block (int (length pre) + 8) = read32 (?pre @ v @ fields_text fs @ post) (int (length ?pre))"
      unfolding l by (simp add: item_def)
    then show ?thesis using read32_value(1) [of v ?pre "fields_text fs @ post"] read32_value(2) [of v] ok(3) True by auto
  qed simp
  have IH: "volume_loop ((pre @ item type v) @ fields_text fs @ post) (int (length (pre @ item type v))) (int (length (fields_text fs))) m =
      Some (last_volume m fs)" for m
    using Cons.IH [of "pre @ item type v"] Cons.prems by simp
  have le: "int (length (fields_text (f # fs))) = int (length v) + 8 + int (length (fields_text fs))"
    using length_item [OF ok(1), of v] by (simp add: f fields_text_Cons)
  show ?case
    unfolding le using c i v IH length_item [OF ok(1), of v]
    by (subst volume_loop.simps, cases "four_cc type = four_cc ''cmvo''") (auto simp: f fields_text_Cons algebra_simps)
qed

lemma volume_is_read:
  assumes "list_all volume_field_ok fs" and "length (fields_text fs) < 2 ^ 31"
  shows "volume_in_reply (item ''cmgt'' (fields_text fs) @ rest) (length (item ''cmgt'' (fields_text fs))) = Some (last_volume (- 1) fs)"
proof -
  let ?b = "item ''cmgt'' (fields_text fs)"
  have l: "length ?b = 8 + length (fields_text fs)" by (rule length_item) simp
  have c: "dacp_tlv_crawl (?b @ rest) 0 = Some (four_cc ''cmgt'', int (length (fields_text fs)), 8 + int (length (fields_text fs)))"
    using crawl_item [of "''cmgt''" "fields_text fs" 0 "[]" rest] assms(2) by simp
  have "?b @ rest = (ascii ''cmgt'' @ htonl_bytes (of_nat (length (fields_text fs)))) @ fields_text fs @ rest"
    by (simp add: item_def)
  then have "volume_loop (?b @ rest) 8 (int (length (fields_text fs))) (- 1) = Some (last_volume (- 1) fs)"
    using volume_loop_fields [OF assms(1), of "ascii ''cmgt'' @ htonl_bytes (of_nat (length (fields_text fs)))" rest "- 1"]
    by (simp add: ascii_def)
  then show ?thesis using c l by (simp add: volume_in_reply_def)
qed

section \<open>The speakers\<close>

definition number_bytes :: "i64 \<Rightarrow> bytes" where
  "number_bytes n = htonl_bytes (ucast (drop_bit 32 n)) @ htonl_bytes (ucast n)"

text \<open>A speaker as the client describes it; a speaker that is not active lacks an item.\<close>

definition speaker_fields :: "dacp_speaker_stuff \<Rightarrow> field list" where
  "speaker_fields s = [(''minm'', speaker_name s), (''cmvo'', volume_bytes (rel_volume s)), (''msma'', number_bytes (speaker_number s))] @
     (if active s then [(''caia'', [1])] else [])"

definition speaker_text :: "dacp_speaker_stuff \<Rightarrow> bytes" where
  "speaker_text s = item ''mdcl'' (fields_text (speaker_fields s))"

definition speakers_text :: "dacp_speaker_stuff list \<Rightarrow> bytes" where
  "speakers_text ss = concat (map speaker_text ss)"

definition speaker_ok :: "dacp_speaker_stuff \<Rightarrow> bool" where
  "speaker_ok s \<longleftrightarrow> 0 \<notin> set (speaker_name s) \<and> length (speaker_name s) < 2 ^ 30 \<and> is_i32 (rel_volume s)"

text \<open>The name that is stored runs on into the type of the next item.\<close>

definition stored :: "dacp_speaker_stuff \<Rightarrow> dacp_speaker_stuff" where
  "stored s = s\<lparr>speaker_name := take 127 (speaker_name s @ ascii ''cmvo'')\<rparr>"

lemma join_halves: "push_bit 32 (ucast (ucast (drop_bit 32 n) :: u32)) + ucast (ucast n :: u32) = (n :: i64)"
  by (rule bit_word_eqI, subst disjunctive_add) (auto simp: bit_simps dest: bit_imp_le_length)

lemma copied_name_runs_on:
  assumes "0 \<notin> set name"
  shows "copied_name (pre @ name @ ascii ''cmvo'' @ 0 # post) (int (length pre)) = Some (take 127 (name @ ascii ''cmvo''))"
proof -
  let ?t = "name @ ascii ''cmvo''"
  have nz: "0 \<notin> set ?t" using assms by (simp add: ascii_def)
  have d: "take 128 (drop (length pre) (pre @ name @ ascii ''cmvo'' @ 0 # post)) = take 128 (?t @ 0 # post)" by simp
  show ?thesis
  proof (cases "length ?t < 128")
    case True
    then have s: "take 128 (?t @ 0 # post) = ?t @ 0 # take (127 - length ?t) post"
      by (simp add: take_Cons' ascii_def)
    have "takeWhile (\<lambda>b. b \<noteq> 0) (?t @ 0 # take (127 - length ?t) post) = ?t"
      using nz by (subst takeWhile_append2) (auto simp del: append_assoc)
    then show ?thesis unfolding copied_name_def by (simp only: nat_int d s Let_def) auto
  next
    case False
    then have s: "take 128 (?t @ 0 # post) = take 128 ?t" "length (take 128 ?t) = 128" by simp_all
    have "takeWhile (\<lambda>b. b \<noteq> 0) (take 128 ?t) = take 128 ?t"
      using nz in_set_takeD [of _ 128 ?t] by (intro takeWhile_eq_all_conv [THEN iffD2]) blast
    then show ?thesis using s unfolding copied_name_def by (simp only: nat_int d Let_def) (simp add: min_def)
  qed
qed

text \<open>A step of the loop, on an item in the middle of the body.\<close>

lemma speaker_step:
  assumes "length type = 4" and "length v < 2 ^ 31 - 8" and "four_cc type \<noteq> four_cc ''mdcl''" and "8 \<le> le"
    and "block = pre @ item type v @ post" and "p = int (length pre)"
  shows "speaker_loop mx block p le spk =
    do { spk \<leftarrow> speaker_item block (four_cc type) (p + 8) spk;
         speaker_loop mx block (p + 8 + int (length v)) (le - (int (length v) + 8)) spk }"
proof -
  have "dacp_tlv_crawl block p = Some (four_cc type, int (length v), p + 8 + int (length v))"
    using crawl_item [OF assms(1) _ assms(6)] assms(2) by (simp add: assms(5))
  moreover have "i32_of (int (length v) + 8) = Some (int (length v) + 8)" using assms(2) by (simp add: i32_of_def)
  ultimately show ?thesis using assms(3,4) by (subst speaker_loop.simps) simp
qed

lemma dictionary_step:
  assumes "length v < 2 ^ 31" and "8 \<le> le" and "length spk < mx" and "block = pre @ item ''mdcl'' v @ post" and "p = int (length pre)"
  shows "speaker_loop mx block p le spk = speaker_loop mx block (p + 8) (le - 8) (spk @ [empty_speaker])"
proof -
  have "dacp_tlv_crawl block p = Some (four_cc ''mdcl'', int (length v), p + 8 + int (length v))"
    using crawl_item [OF _ assms(1,5), of "''mdcl''"] by (simp add: assms(4))
  then show ?thesis using assms(2,3) by (subst speaker_loop.simps) simp
qed

lemma change_last_snoc [simp]: "change_last f (xs @ [x]) = Some (xs @ [f x])"
  by (simp add: change_last_def)

lemma name_item:
  assumes "0 \<notin> set name" and "block = pre @ name @ item ''cmvo'' (volume_bytes v) @ post" and "p = int (length pre)"
  shows "speaker_item block (four_cc ''minm'') p (xs @ [x]) = Some (xs @ [x\<lparr>speaker_name := take 127 (name @ ascii ''cmvo'')\<rparr>])"
proof -
  have "item ''cmvo'' (volume_bytes v) = ascii ''cmvo'' @ 0 # [0, 0, 4] @ volume_bytes v"
    by (simp add: item_def htonl_bytes_def)
  then have "copied_name block p = Some (take 127 (name @ ascii ''cmvo''))"
    using copied_name_runs_on [OF assms(1), of pre] by (simp add: assms(2,3))
  then show ?thesis by (simp add: speaker_item_def)
qed

lemma volume_item:
  assumes "is_i32 v" and "block = pre @ volume_bytes v @ post" and "p = int (length pre)"
  shows "speaker_item block (four_cc ''cmvo'') p (xs @ [x]) = Some (xs @ [x\<lparr>rel_volume := v\<rparr>])"
  using read32_at [of p pre "word_of_int v" post] sint_of_i32 [OF assms(1)] assms(2,3)
  by (simp add: speaker_item_def four_cc_simps volume_bytes_def)

lemma number_item:
  assumes "block = pre @ number_bytes n @ post" and "p = int (length pre)"
  shows "speaker_item block (four_cc ''msma'') p (xs @ [x]) = Some (xs @ [x\<lparr>speaker_number := n\<rparr>])"
proof -
  have "read32 block p = Some (ucast (drop_bit 32 n))" using read32_at [OF assms(2)] by (simp add: assms(1) number_bytes_def)
  moreover have "read32 block (p + 4) = Some (ucast n)"
    using read32_at [of "p + 4" "pre @ htonl_bytes (ucast (drop_bit 32 n))" "ucast n" post] assms by (simp add: number_bytes_def)
  ultimately show ?thesis using join_halves [of n] by (simp add: speaker_item_def four_cc_simps)
qed

lemma active_item: "speaker_item block (four_cc ''caia'') p (xs @ [x]) = Some (xs @ [x\<lparr>active := True\<rparr>])"
  by (simp add: speaker_item_def four_cc_simps)

lemma length_number_bytes [simp]: "length (number_bytes n) = 8"
  by (simp add: number_bytes_def)

lemma length_head [simp]: "length (ascii s) = length s"
  by (simp add: ascii_def)

text \<open>A speaker is put behind those that are there.\<close>

lemma speaker_goes:
  assumes "speaker_ok s" and "length spk < mx" and "block = pre @ speaker_text s @ post" and "0 \<le> le"
  shows "speaker_loop mx block (int (length pre)) (int (length (speaker_text s)) + le) spk =
     speaker_loop mx block (int (length (pre @ speaker_text s))) le (spk @ [stored s])"
proof -
  let ?n = "speaker_name s"
  define act where "act = (if active s then item ''caia'' [1] else [])"
  define p1 where "p1 = pre @ ascii ''mdcl'' @ htonl_bytes (of_nat (length (fields_text (speaker_fields s))))"
  define p2 where "p2 = p1 @ item ''minm'' ?n"
  define p3 where "p3 = p2 @ item ''cmvo'' (volume_bytes (rel_volume s))"
  define p4 where "p4 = p3 @ item ''msma'' (number_bytes (speaker_number s))"
  have ok: "0 \<notin> set ?n" "length ?n < 2 ^ 30" "is_i32 (rel_volume s)" using assms(1) by (simp_all add: speaker_ok_def)
  have ft: "fields_text (speaker_fields s) = item ''minm'' ?n @ item ''cmvo'' (volume_bytes (rel_volume s)) @
      item ''msma'' (number_bytes (speaker_number s)) @ act"
    by (simp add: speaker_fields_def fields_text_def act_def)
  have l: "length p1 = length pre + 8" "length p2 = length p1 + 8 + length ?n" "length p3 = length p2 + 12" "length p4 = length p3 + 16"
    by (simp_all add: p1_def p2_def p3_def p4_def item_def)
  have la: "length act = (if active s then 9 else 0)" by (simp add: act_def item_def)
  have lt: "length (speaker_text s) = 44 + length ?n + length act" "length (fields_text (speaker_fields s)) = 36 + length ?n + length act"
    by (simp_all add: speaker_text_def ft item_def)
  have b1: "block = pre @ item ''mdcl'' (fields_text (speaker_fields s)) @ post" by (simp add: assms(3) speaker_text_def)
  have b2: "block = p1 @ item ''minm'' ?n @ item ''cmvo'' (volume_bytes (rel_volume s)) @ item ''msma'' (number_bytes (speaker_number s)) @ act @ post"
    using b1 by (simp add: p1_def ft item_def [of "''mdcl''"])
  then have b2': "block = (p1 @ ascii ''minm'' @ htonl_bytes (of_nat (length ?n))) @ ?n @ item ''cmvo'' (volume_bytes (rel_volume s)) @
      item ''msma'' (number_bytes (speaker_number s)) @ act @ post"
    by (simp add: item_def [of "''minm''"])
  have b3: "block = p2 @ item ''cmvo'' (volume_bytes (rel_volume s)) @ item ''msma'' (number_bytes (speaker_number s)) @ act @ post"
    using b2 by (simp add: p2_def)
  then have b3': "block = (p2 @ ascii ''cmvo'' @ htonl_bytes 4) @ volume_bytes (rel_volume s) @ item ''msma'' (number_bytes (speaker_number s)) @ act @ post"
    by (simp add: item_def [of "''cmvo''"])
  have b4: "block = p3 @ item ''msma'' (number_bytes (speaker_number s)) @ act @ post" using b3 by (simp add: p3_def)
  then have b4': "block = (p3 @ ascii ''msma'' @ htonl_bytes 8) @ number_bytes (speaker_number s) @ act @ post"
    by (simp add: item_def)
  have b5: "block = p4 @ act @ post" using b4 by (simp add: p4_def)
  let ?e = "empty_speaker\<lparr>speaker_name := take 127 (?n @ ascii ''cmvo''), rel_volume := rel_volume s, speaker_number := speaker_number s\<rparr>"
  let ?le = "le + int (length act)"
  have "speaker_loop mx block (int (length pre)) (44 + int (length ?n) + ?le) spk =
      speaker_loop mx block (int (length p1)) (36 + int (length ?n) + ?le) (spk @ [empty_speaker])"
    using dictionary_step [OF _ _ assms(2) b1, where le = "44 + int (length ?n) + ?le" and p = "int (length pre)"] ok(2) lt(2) la assms(4) l(1) by (simp add: algebra_simps)
  also have "\<dots> = speaker_loop mx block (int (length p2)) (28 + ?le) (spk @ [empty_speaker\<lparr>speaker_name := take 127 (?n @ ascii ''cmvo'')\<rparr>])"
    using speaker_step [OF _ _ no_dictionary(1) _ b2 refl] name_item [OF ok(1) b2', of "int (length p1) + 8"] ok(2) assms(4) l(2)
    by (simp add: algebra_simps)
  also have "\<dots> = speaker_loop mx block (int (length p3)) (16 + ?le)
      (spk @ [empty_speaker\<lparr>speaker_name := take 127 (?n @ ascii ''cmvo''), rel_volume := rel_volume s\<rparr>])"
    using speaker_step [OF _ _ no_dictionary(2) _ b3 refl] volume_item [OF ok(3) b3', of "int (length p2) + 8"] assms(4) l(3)
    by (simp add: algebra_simps)
  also have "\<dots> = speaker_loop mx block (int (length p4)) ?le (spk @ [?e])"
    using speaker_step [OF _ _ no_dictionary(3) _ b4 refl] number_item [OF b4', of "int (length p3) + 8"] assms(4) l(4)
    by (simp add: algebra_simps)
  also have "\<dots> = speaker_loop mx block (int (length p4 + length act)) le (spk @ [stored s])"
  proof (cases "active s")
    case True
    then have "block = p4 @ item ''caia'' [1] @ post" using b5 by (simp add: act_def)
    note speaker_step [OF _ _ no_dictionary(4) _ this refl]
    then show ?thesis
      using True assms(4) la active_item by (cases s) (simp add: empty_speaker_def stored_def algebra_simps)
  next
    case False
    then show ?thesis using la by (cases s) (simp add: empty_speaker_def stored_def)
  qed
  finally show ?thesis using lt(1) l by (simp add: algebra_simps)
qed

lemma speakers_go:
  "list_all speaker_ok ss \<Longrightarrow> length spk + length ss \<le> mx \<Longrightarrow>
   speaker_loop mx (pre @ speakers_text ss @ post) (int (length pre)) (int (length (speakers_text ss))) spk =
     Some (Inr (spk @ map stored ss))"
proof (induction ss arbitrary: pre spk)
  case Nil
  then show ?case by (simp add: speaker_loop.simps speakers_text_def)
next
  case (Cons s ss)
  have "speaker_loop mx (pre @ speaker_text s @ speakers_text ss @ post) (int (length pre))
      (int (length (speaker_text s)) + int (length (speakers_text ss))) spk =
    speaker_loop mx (pre @ speaker_text s @ speakers_text ss @ post) (int (length (pre @ speaker_text s)))
      (int (length (speakers_text ss))) (spk @ [stored s])"
    by (rule speaker_goes) (use Cons.prems in auto)
  also have "\<dots> = Some (Inr ((spk @ [stored s]) @ map stored ss))"
    using Cons.IH [of "spk @ [stored s]" "pre @ speaker_text s"] Cons.prems by simp
  finally show ?case by (simp add: speakers_text_def)
qed

lemma speakers_are_read:
  assumes "list_all speaker_ok ss" and "length ss \<le> mx" and "length (speakers_text ss) < 2 ^ 31"
  shows "speakers_in_reply mx (item ''casp'' (speakers_text ss) @ rest) (length (item ''casp'' (speakers_text ss))) =
     Some (Inr (map stored ss))"
proof -
  let ?b = "item ''casp'' (speakers_text ss)"
  have l: "length ?b = 8 + length (speakers_text ss)" by (rule length_item) simp
  have c: "dacp_tlv_crawl (?b @ rest) 0 = Some (four_cc ''casp'', int (length (speakers_text ss)), 8 + int (length (speakers_text ss)))"
    using crawl_item [of "''casp''" "speakers_text ss" 0 "[]" rest] assms(3) by simp
  have "?b @ rest = (ascii ''casp'' @ htonl_bytes (of_nat (length (speakers_text ss)))) @ speakers_text ss @ rest"
    by (simp add: item_def)
  then have "speaker_loop mx (?b @ rest) 8 (int (length (speakers_text ss))) [] = Some (Inr (map stored ss))"
    using speakers_go [OF assms(1), of "[]" mx "ascii ''casp'' @ htonl_bytes (of_nat (length (speakers_text ss)))" rest] assms(2) by simp
  then show ?thesis using c l by (simp add: speakers_in_reply_def)
qed

section \<open>Reading the volume\<close>

text \<open>The client answers a command with a well-formed response of code 200, in any pieces.\<close>

definition replies :: "'w dacp_net \<Rightarrow> string \<Rightarrow> 'w \<Rightarrow> bytes \<Rightarrow> 'w \<Rightarrow> bool" where
  "replies net command w body w' \<longleftrightarrow> server_port (dacp_server net) \<noteq> 0 \<and>
     (\<exists>ps rs version digits reason hs txt extra. dacp_request net command w = (Connected (map Received ps @ rs), w') \<and> [] \<notin> set ps \<and>
        response_ok version digits reason hs txt 200 body \<and> concat ps = response_text version digits reason hs txt @ extra)"

lemma replies_send:
  assumes "replies net command w body w'"
  shows "\<exists>rsp rest. dacp_send_command net command w = Some (rsp, w') \<and> rsp_code rsp = 200 \<and> rsp_body rsp = Some (body @ rest) \<and>
     rsp_size rsp = length body"
proof -
  have "\<exists>rsp. dacp_send_command net command w = Some (rsp, w') \<and> rsp_code rsp = 200 \<and> holds_body body rsp"
    using assms unfolding replies_def by (elim conjE exE) (rule reply_reaches)
  then show ?thesis unfolding holds_body_def by (metis append_take_drop_id)
qed

text \<open>What the client says: the overall volume among other properties, and the speakers.\<close>

definition tells_volume :: "'w dacp_net \<Rightarrow> 'w \<Rightarrow> int \<Rightarrow> 'w \<Rightarrow> bool" where
  "tells_volume net w v w' \<longleftrightarrow> (\<exists>fs. replies net ''getproperty?properties=dmcp.volume'' w (item ''cmgt'' (fields_text fs)) w' \<and>
     list_all volume_field_ok fs \<and> length (fields_text fs) < 2 ^ 31 \<and> last_volume (- 1) fs = v)"

definition tells_speakers :: "'w dacp_net \<Rightarrow> 'w \<Rightarrow> dacp_speaker_stuff list \<Rightarrow> 'w \<Rightarrow> bool" where
  "tells_speakers net w ss w' \<longleftrightarrow> replies net ''getspeakers'' w (item ''casp'' (speakers_text ss)) w' \<and>
     list_all speaker_ok ss \<and> length (speakers_text ss) < 2 ^ 31"

lemma client_volume: "tells_volume net w v w' \<Longrightarrow> dacp_get_client_volume net w = Some (200, v, w')"
  unfolding tells_volume_def dacp_get_client_volume_def by (elim exE conjE) (drule replies_send, auto simp: volume_is_read)

lemma speaker_list:
  "tells_speakers net w ss w' \<Longrightarrow> length ss \<le> mx \<Longrightarrow> dacp_get_speaker_list net mx w = Some (200, map stored ss, w')"
  unfolding tells_speakers_def dacp_get_speaker_list_def by (elim conjE) (drule replies_send, auto simp: speakers_are_read)

lemma relative_volume_stored: "relative_volume_of machine r (map stored ss) = relative_volume_of machine r ss"
  by (induction ss arbitrary: r) (simp_all add: stored_def)

lemma highest_stored: "highest_other_volume machine h (map stored ss) = highest_other_volume machine h ss"
  by (induction ss arbitrary: h) (simp_all add: stored_def)

definition level_ok :: "int \<Rightarrow> bool" where
  "level_ok v \<longleftrightarrow> 0 \<le> v \<and> v \<le> 100"

lemma percent_of_levels:
  assumes "level_ok a" and "level_ok b"
  shows "percent_of a b = Some ((a * b + 50) div 100)" and "level_ok ((a * b + 50) div 100)" and "(a * b + 50) div 100 \<le> b"
proof -
  have m: "0 \<le> a * b" "a * b \<le> 100 * b" "100 * b \<le> 10000" using assms by (auto simp: level_ok_def intro: mult_right_mono)
  then show "percent_of a b = Some ((a * b + 50) div 100)"
    by (simp add: percent_of_def i32_times_def i32_of_def signed_divide_int_def sgn_if)
  have "(a * b + 50) div 100 \<le> (b * 100 + 50) div 100" using m(2) by (intro zdiv_mono1) simp_all
  then have "(a * b + 50) div 100 \<le> b" by simp
  moreover have "0 \<le> (a * b + 50) div 100" using m(1) by (simp add: pos_imp_zdiv_nonneg_iff)
  ultimately show "level_ok ((a * b + 50) div 100)" "(a * b + 50) div 100 \<le> b" using assms(2) by (simp_all add: level_ok_def)
qed

lemma relative_volume_level: "list_all (\<lambda>s. level_ok (rel_volume s)) ss \<Longrightarrow> level_ok r \<Longrightarrow> level_ok (relative_volume_of machine r ss)"
  by (induction ss arbitrary: r) auto

lemma highest_other_level: "list_all (\<lambda>s. level_ok (rel_volume s)) ss \<Longrightarrow> level_ok h \<Longrightarrow> level_ok (highest_other_volume machine h ss)"
  by (induction ss arbitrary: h) auto

text \<open>
  What the client tells is found: with the overall volume \<open>v\<close> among its properties and this speaker at \<open>r\<close> per cent
  among its at most 50 speakers, whatever pieces the two replies come in, the volume is \<open>r\<close> per cent of \<open>v\<close>,
  rounded, and nothing overflows.
\<close>

lemma volume_is_found:
  assumes "tells_volume net w v w1" and "tells_speakers net w1 ss w2" and "length ss \<le> 50" and "level_ok v"
    and "list_all (\<lambda>s. level_ok (rel_volume s)) ss"
  shows "dacp_get_volume net machine w = Some (200, (v * relative_volume_of machine 0 ss + 50) div 100, w2)"
  using client_volume [OF assms(1)] speaker_list [OF assms(2,3)] percent_of_levels(1) [OF assms(4) relative_volume_level [OF assms(5)]]
  by (simp add: dacp_get_volume_def relative_volume_stored level_ok_def)

section \<open>Setting the volume\<close>

text \<open>The relative volume that gives \<open>vo\<close> when the overall volume is \<open>h\<close>.\<close>

lemma relative_volume_reads_back:
  assumes "0 \<le> vo" and "vo < h" and "h \<le> 100"
  defines "r \<equiv> (vo * 100 + h div 2) div h"
  shows "(h * r + 50) div 100 = vo" and "level_ok r"
proof -
  define m where "m = (vo * 100 + h div 2) mod h"
  have e: "h * r + m = vo * 100 + h div 2" by (simp add: r_def m_def)
  have m: "0 \<le> m" "m < h" using assms(1,2) by (simp_all add: m_def)
  have lo: "100 * vo \<le> h * r + 50" using e m(2) assms(3) by linarith
  have hi: "h * r + 50 < 100 * vo + 100"
  proof (cases "h = 100")
    case True
    then have "m = 50" by (simp add: m_def)
    then show ?thesis using e True by simp
  next
    case False
    then have "h div 2 \<le> 49" using assms(3) by linarith
    then show ?thesis using e m(1) by linarith
  qed
  show "(h * r + 50) div 100 = vo" using lo hi by (intro int_div_pos_eq [of _ _ _ "h * r + 50 - 100 * vo"]) simp_all
  have "h * r < h * 101" using e m(1) assms(1-3) by linarith
  then have "r < 101" using assms(1,2) by (simp add: mult_less_cancel_left)
  then show "level_ok r" using assms(1,2) by (simp add: level_ok_def r_def pos_imp_zdiv_nonneg_iff)
qed

lemma active_stored: "active \<circ> stored = active"
  by (auto simp: stored_def)


section \<open>A concrete client\<close>

definition sample_response :: "bytes \<Rightarrow> bytes \<Rightarrow> bytes" where
  "sample_response digits body = response_text (ascii ''HTTP/1.1'') (ascii ''200'') (ascii ''OK'') [(ascii ''Content-Length'', digits)] body"

lemma sample_response_ok:
  assumes "add_digits 0 digits = Some (int (length body))" and "header_ok (ascii ''Content-Length'', digits)"
  shows "response_ok (ascii ''HTTP/1.1'') (ascii ''200'') (ascii ''OK'') [(ascii ''Content-Length'', digits)] body 200 body"
  using assms
  by (simp add: response_ok_def status_ok_def version_char_def reason_char_def ascii_def header_column_def add_digit_def i32_of_def
      tolower_def body_text_def)

text \<open>Overall volume 80, this speaker, number 7, at half of it and another one at 75 per cent.\<close>

definition sample_speakers :: "dacp_speaker_stuff list" where
  "sample_speakers = [\<lparr>speaker_number = 7, active = True, rel_volume = 50, speaker_name = ascii ''A''\<rparr>,
     \<lparr>speaker_number = 9, active = True, rel_volume = 75, speaker_name = ascii ''B''\<rparr>]"

definition sample_volume :: "field list" where
  "sample_volume = [(''cmvo'', volume_bytes 80)]"

definition sample_net :: "unit dacp_net" where
  "sample_net = \<lparr>dacp_server = no_server\<lparr>server_port := 3689\<rparr>, new_memory = (\<lambda>_. 0), network = (\<lambda>_ _ message w. (Connected [Received
     (if take 11 (drop 16 message) = ascii ''getspeakers'' then sample_response (ascii ''116'') (item ''casp'' (speakers_text sample_speakers))
      else sample_response (ascii ''20'') (item ''cmgt'' (fields_text sample_volume)))], w))\<rparr>"

lemma sample_requests:
  "dacp_request sample_net ''getspeakers'' w =
     (Connected [Received (sample_response (ascii ''116'') (item ''casp'' (speakers_text sample_speakers)))], w)"
  "dacp_request sample_net ''getproperty?properties=dmcp.volume'' w =
     (Connected [Received (sample_response (ascii ''20'') (item ''cmgt'' (fields_text sample_volume)))], w)"
  by (simp_all add: dacp_request_def sample_net_def control_message_def ascii_def Let_def)

lemma sample_port: "server_port (dacp_server sample_net) \<noteq> 0"
  by (simp add: sample_net_def)

lemma response_not_empty: "sample_response digits body \<noteq> []"
  by (simp add: sample_response_def response_text_def status_line_def ascii_def)

lemma sample_replies:
  assumes "dacp_request sample_net command w = (Connected [Received (sample_response digits body)], w)"
    and "add_digits 0 digits = Some (int (length body))" and "header_ok (ascii ''Content-Length'', digits)"
  shows "replies sample_net command w body w"
  unfolding replies_def
proof (intro conjI exI)
  show "dacp_request sample_net command w = (Connected (map Received [sample_response digits body] @ []), w)" using assms(1) by simp
  show "response_ok (ascii ''HTTP/1.1'') (ascii ''200'') (ascii ''OK'') [(ascii ''Content-Length'', digits)] body 200 body"
    by (rule sample_response_ok [OF assms(2,3)])
  show "concat [sample_response digits body] =
      response_text (ascii ''HTTP/1.1'') (ascii ''200'') (ascii ''OK'') [(ascii ''Content-Length'', digits)] body @ []"
    by (simp add: sample_response_def)
qed (simp_all add: sample_port response_not_empty [THEN not_sym])

lemma sample_digits:
  "add_digits 0 (ascii ''116'') = Some 116" "header_ok (ascii ''Content-Length'', ascii ''116'')"
  "add_digits 0 (ascii ''20'') = Some 20" "header_ok (ascii ''Content-Length'', ascii ''20'')"
  by (simp_all add: add_digit_def i32_of_def ascii_def header_column_def version_char_def reason_char_def)

lemma sample_tells_volume: "tells_volume sample_net () 80 ()"
  unfolding tells_volume_def
proof (intro exI conjI)
  have l: "length (item ''cmgt'' (fields_text sample_volume)) = 20" by (simp add: length_item fields_text_def sample_volume_def)
  show "replies sample_net ''getproperty?properties=dmcp.volume'' () (item ''cmgt'' (fields_text sample_volume)) ()"
    by (rule sample_replies [where digits = "ascii ''20''"]) (use sample_digits l in \<open>simp_all add: sample_requests\<close>)
  have "nctohl (volume_bytes 80) 0 = Some 80" using nctohl_at [of 0 "[]" 80 "[]"] by (simp add: volume_bytes_def)
  then show "last_volume (- 1) sample_volume = 80" by (simp add: sample_volume_def)
qed (simp_all add: sample_volume_def volume_field_ok_def field_ok_def fields_text_def length_item)

lemma sample_tells_speakers: "tells_speakers sample_net () sample_speakers ()"
  unfolding tells_speakers_def
proof (intro conjI)
  have l: "length (speakers_text sample_speakers) = 108"
    by (simp add: speakers_text_def sample_speakers_def speaker_text_def length_item fields_text_def speaker_fields_def)
  then have l2: "length (item ''casp'' (speakers_text sample_speakers)) = 116" by (simp add: length_item)
  show "replies sample_net ''getspeakers'' () (item ''casp'' (speakers_text sample_speakers)) ()"
    by (rule sample_replies [where digits = "ascii ''116''"]) (use sample_digits l2 in \<open>simp_all add: sample_requests\<close>)
  show "length (speakers_text sample_speakers) < 2 ^ 31" using l by simp
qed (simp add: sample_speakers_def speaker_ok_def is_i32_def ascii_def)


lemma sample_volume_found: "dacp_get_volume sample_net 7 () = Some (200, 40, ())"
  using volume_is_found [OF sample_tells_volume sample_tells_speakers, of 7] by (simp add: sample_speakers_def level_ok_def)

lemma reply_reaches_caller_witness:
  "\<exists>rsp. dacp_send_command sample_net ''getspeakers'' () = Some (rsp, ()) \<and> rsp_code rsp = 200 \<and>
     holds_body (item ''casp'' (speakers_text sample_speakers)) rsp"
proof -
  have l: "length (item ''casp'' (speakers_text sample_speakers)) = 116"
    by (simp add: speakers_text_def sample_speakers_def speaker_text_def length_item fields_text_def speaker_fields_def)
  show ?thesis
    by (rule reply_reaches_caller [where ps = "[sample_response (ascii ''116'') (item ''casp'' (speakers_text sample_speakers))]" and rs = "[]"
          and extra = "[]", OF _ _ _ sample_response_ok [where digits = "ascii ''116''"]])
      (use sample_digits l in \<open>simp_all add: sample_requests sample_port response_not_empty [unfolded sample_response_def, THEN not_sym] sample_response_def\<close>)
qed

section \<open>Where it goes wrong\<close>

text \<open>The lengths of a reply are trusted: an item that says its length is -8 is read for ever.\<close>

lemma negative_length_hangs:
  assumes "read32 block p = Some type" and "read32 block (p + 4) = Some (- 8)" and "type \<noteq> four_cc ''cmvo''" and "8 \<le> le"
  shows "volume_loop block p le n = None"
proof (rule ccontr)
  have s: "sint (- 8 :: u32) = - 8" by simp
  assume "volume_loop block p le n \<noteq> None"
  then obtain m where "volume_loop block p le n = Some m" by blast
  then have "\<not> (read32 b q = Some type \<and> read32 b (q + 4) = Some (- 8) \<and> 8 \<le> k)" if "b = block" "q = p" "k = le" for b q k
    unfolding that
    by (rule volume_loop.raw_induct [where P = "\<lambda>b q k n m. \<not> (read32 b q = Some type \<and> read32 b (q + 4) = Some (- 8) \<and> 8 \<le> k)", rotated])
      (use assms(3) s in \<open>fastforce simp: dacp_tlv_crawl_def i32_of_def split: if_splits bind_splits\<close>)
  then show False using assms by blast
qed

end
