(* ===== verification/Metadata_Hub.thy ===== *)
theory Metadata_Hub
  imports Prelude Complex_Main
begin

text \<open>
  The metadata hub (\<open>metadata_hub.c\<close>; \<open>string_update_with_size\<close> in \<open>common.c\<close>): what is known of the client, the
  track and the player, with a flag for each value that has changed since the watchers were last run. The hub's
  write lock makes each call one step.
\<close>

section \<open>The state\<close>

datatype text_field = Client_ip | Client_name | Server_ip | Stream_type | Progress_string | Frame_position_string |
  First_frame_position_string | Cover_art_pathname | Track_name | Artist_name | Album_artist_name | Album_name | Genre |
  Comment | Composer | Song_description | Song_album_artist | Sort_name | Sort_artist | Sort_album | Sort_composer

datatype play_status_type = PS_NOT_AVAILABLE | PS_STOPPED | PS_PAUSED | PS_PLAYING
datatype active_state_type = AM_INACTIVE | AM_ACTIVE
datatype shuffle_status_type = SS_NOT_AVAILABLE | SS_OFF | SS_ON
datatype repeat_status_type = RS_NOT_AVAILABLE | RS_OFF | RS_ONE | RS_ALL

text \<open>
  The strings with their flags, by name, except \<open>file_kind\<close>, which nothing sets; \<open>metadata_packet_item_changed\<close>, a static variable, is the last field.
\<close>

record metadata_bundle =
  texts :: "text_field \<Rightarrow> bytes option"
  text_changed :: "text_field \<Rightarrow> bool"
  player_thread_active :: bool
  dacp_server_active :: bool
  advanced_dacp_server_active :: bool
  dacp_server_has_been_active :: bool
  play_status :: play_status_type
  shuffle_status :: shuffle_status_type
  repeat_status :: repeat_status_type
  item_id :: u64
  item_id_changed :: bool
  item_id_is_valid :: bool
  item_composite_id :: bytes
  item_composite_id_changed :: bool
  item_composite_id_is_valid :: bool
  song_data_kind :: int
  song_data_kind_changed :: bool
  song_data_kind_is_valid :: bool
  songtime_in_milliseconds :: u32
  songtime_in_milliseconds_changed :: bool
  songtime_in_milliseconds_is_valid :: bool
  player_state :: play_status_type
  active_state :: active_state_type
  speaker_volume :: int
  airplay_volume :: rat
  metadata_packet_item_changed :: bool

definition metadata_hub_init :: metadata_bundle where
  "metadata_hub_init = \<lparr>texts = (\<lambda>_. None), text_changed = (\<lambda>_. False), player_thread_active = False,
     dacp_server_active = False, advanced_dacp_server_active = False, dacp_server_has_been_active = False,
     play_status = PS_NOT_AVAILABLE, shuffle_status = SS_NOT_AVAILABLE, repeat_status = RS_NOT_AVAILABLE,
     item_id = 0, item_id_changed = False, item_id_is_valid = False, item_composite_id = replicate 16 0,
     item_composite_id_changed = False, item_composite_id_is_valid = False, song_data_kind = 0,
     song_data_kind_changed = False, song_data_kind_is_valid = False, songtime_in_milliseconds = 0,
     songtime_in_milliseconds_changed = False, songtime_in_milliseconds_is_valid = False,
     player_state = PS_NOT_AVAILABLE, active_state = AM_INACTIVE, speaker_volume = 0, airplay_volume = 0,
     metadata_packet_item_changed = False\<rparr>"

section \<open>Strings\<close>

text \<open>
  The bytes of a string end before a zero byte. With a size the new string is stored as it comes, zero bytes
  included, so that a later comparison sees only its first part. The results are the new string and the flag.
\<close>

definition c_bytes :: "bytes \<Rightarrow> bytes" where
  "c_bytes s = takeWhile (\<lambda>b. b \<noteq> 0) s"

text \<open>\<open>strncmp\<close> of a string, which ends with a zero byte, and the first \<open>len\<close> bytes of \<open>s\<close>.\<close>

definition same_start :: "bytes \<Rightarrow> bytes \<Rightarrow> bool" where
  "same_start str s \<longleftrightarrow> c_bytes (take (length s) (c_bytes str @ [0])) = c_bytes s"

definition string_update_with_size :: "bytes option \<Rightarrow> bytes option \<Rightarrow> bytes option \<times> bool" where
  "string_update_with_size str s =
     (case (str, s) of
        (Some old, Some s) \<Rightarrow>
          if s \<noteq> [] then (if length s \<noteq> length (c_bytes old) \<or> \<not> same_start old s then (Some s, True) else (Some old, False))
          else (None, True)
      | (Some old, None) \<Rightarrow> (None, True)
      | (None, Some s) \<Rightarrow> if s \<noteq> [] then (Some s, True) else (None, False)
      | (None, None) \<Rightarrow> (None, False))"

definition string_update :: "bytes option \<Rightarrow> bytes option \<Rightarrow> bytes option \<times> bool" where
  "string_update str s = string_update_with_size str (map_option c_bytes s)"

definition update_text :: "text_field \<Rightarrow> bytes option \<times> bool \<Rightarrow> metadata_bundle \<Rightarrow> metadata_bundle" where
  "update_text f r m = m\<lparr>texts := (texts m)(f := fst r), text_changed := (text_changed m)(f := snd r)\<rparr>"

section \<open>The watchers\<close>

text \<open>A new watcher gets the first free slot, and none when all are taken.\<close>

fun add_metadata_watcher :: "'f \<Rightarrow> 'f option list \<Rightarrow> 'f option list" where
  "add_metadata_watcher f [] = []"
| "add_metadata_watcher f (None # slots) = Some f # slots"
| "add_metadata_watcher f (Some g # slots) = Some g # add_metadata_watcher f slots"

text \<open>The flags that are turned off when the watchers have run: not all of them.\<close>

fun flag_is_kept :: "text_field \<Rightarrow> bool" where
  "flag_is_kept Stream_type \<longleftrightarrow> True"
| "flag_is_kept Frame_position_string \<longleftrightarrow> True"
| "flag_is_kept First_frame_position_string \<longleftrightarrow> True"
| "flag_is_kept Sort_name \<longleftrightarrow> True"
| "flag_is_kept _ \<longleftrightarrow> False"

definition run_metadata_watchers :: "metadata_bundle \<Rightarrow> metadata_bundle" where
  "run_metadata_watchers m =
     m\<lparr>text_changed := (\<lambda>f. flag_is_kept f \<and> text_changed m f), item_id_changed := False,
       item_composite_id_changed := False, song_data_kind_changed := False, songtime_in_milliseconds_changed := False\<rparr>"

text \<open>The hub, and what the watchers are shown when they are run.\<close>

definition metadata_hub_modify_epilog :: "bool \<Rightarrow> metadata_bundle \<Rightarrow> metadata_bundle \<times> metadata_bundle option" where
  "metadata_hub_modify_epilog modified m =
     (let m = m\<lparr>dacp_server_has_been_active := dacp_server_active m\<rparr>
      in if modified then (run_metadata_watchers m, Some m) else (m, None))"

section \<open>Metadata items\<close>

definition core_texts :: "(u32 \<times> text_field) list" where
  "core_texts = map (\<lambda>(s, f). (four_cc s, f))
     [(''asal'', Album_name), (''asar'', Artist_name), (''assl'', Album_artist_name), (''ascm'', Comment), (''asgn'', Genre),
      (''minm'', Track_name), (''ascp'', Composer), (''asdt'', Song_description), (''asaa'', Song_album_artist),
      (''assn'', Sort_name), (''assa'', Sort_artist), (''assu'', Sort_album), (''assc'', Sort_composer)]"

text \<open>The description is the one string that does not count as a change of the packet.\<close>

definition core_text :: "text_field \<Rightarrow> bytes \<Rightarrow> metadata_bundle \<Rightarrow> metadata_bundle" where
  "core_text f data m =
     (let r = string_update (texts m f) (Some data);
          m = update_text f r m
      in if snd r \<and> f \<noteq> Song_description then m\<lparr>metadata_packet_item_changed := True\<rparr> else m)"

definition note_song_data_kind :: "int \<Rightarrow> metadata_bundle \<Rightarrow> metadata_bundle" where
  "note_song_data_kind n m =
     (if n \<noteq> song_data_kind m \<or> \<not> song_data_kind_is_valid m
      then m\<lparr>song_data_kind := n, song_data_kind_changed := True, song_data_kind_is_valid := True, metadata_packet_item_changed := True\<rparr>
      else m)"

definition note_item_id :: "u64 \<Rightarrow> metadata_bundle \<Rightarrow> metadata_bundle" where
  "note_item_id n m =
     (if n \<noteq> item_id m \<or> \<not> item_id_is_valid m
      then m\<lparr>item_id := n, item_id_changed := True, item_id_is_valid := True, metadata_packet_item_changed := True\<rparr> else m)"

definition note_songtime :: "u32 \<Rightarrow> metadata_bundle \<Rightarrow> metadata_bundle" where
  "note_songtime n m =
     (if n \<noteq> songtime_in_milliseconds m \<or> \<not> songtime_in_milliseconds_is_valid m
      then m\<lparr>songtime_in_milliseconds := n, songtime_in_milliseconds_changed := True, songtime_in_milliseconds_is_valid := True,
             metadata_packet_item_changed := True\<rparr>
      else m)"

text \<open>Numbers are read at their width whatever the length of the item.\<close>

definition core_item :: "u32 \<Rightarrow> bytes \<Rightarrow> metadata_bundle \<Rightarrow> metadata_bundle option" where
  "core_item code data m =
     (if code = four_cc ''asdk'' then map_option (\<lambda>b. note_song_data_kind (uint b) m) (rd data 0)
      else if code = four_cc ''mper''
           then do { vl \<leftarrow> nctohl data 0; ul \<leftarrow> nctohl data 4; Some (note_item_id (push_bit 32 (ucast vl) + ucast ul) m) }
      else if code = four_cc ''astm'' then map_option (\<lambda>n. note_songtime n m) (nctohl data 0)
      else case map_of core_texts code of
             Some f \<Rightarrow> Some (core_text f data m)
           | None \<Rightarrow> Some m)"

definition ssnc_texts :: "(u32 \<times> text_field) list" where
  "ssnc_texts = map (\<lambda>(s, f). (four_cc s, f))
     [(''clip'', Client_ip), (''snam'', Client_name), (''prgr'', Progress_string), (''phbt'', Frame_position_string),
      (''phb0'', First_frame_position_string), (''styp'', Stream_type), (''svip'', Server_ip)]"

definition ssnc_text :: "text_field \<Rightarrow> bytes \<Rightarrow> metadata_bundle \<Rightarrow> metadata_bundle \<times> bool" where
  "ssnc_text f data m =
     (let r = string_update (texts m f) (Some data) in (update_text f r m, snd r))"

text \<open>
  \<open>image_file\<close> writes a picture and gives the path of the file, when there is one; an empty directory name
  in the configuration is \<open>None\<close>. The URI is cut off after 2,047 bytes.
\<close>

definition picture_uri :: "(bytes \<Rightarrow> bytes option) option \<Rightarrow> bytes \<Rightarrow> bytes" where
  "picture_uri image_file data =
     (case image_file of
        Some write_file \<Rightarrow>
          if 16 < length data
          then take 2047 (ascii ''file://'' @ (case write_file data of None \<Rightarrow> ascii ''(null)'' | Some p \<Rightarrow> c_bytes p))
          else []
      | None \<Rightarrow> [])"

record hub_config =
  image_file :: "(bytes \<Rightarrow> bytes option) option"
  config_airplay_volume :: rat

definition ssnc_item :: "hub_config \<Rightarrow> u32 \<Rightarrow> bytes \<Rightarrow> metadata_bundle \<Rightarrow> metadata_bundle \<times> bool" where
  "ssnc_item cfg code data m =
     (if code = four_cc ''mdst'' then (m\<lparr>metadata_packet_item_changed := False\<rparr>, False)
      else if code = four_cc ''mden'' then (m, metadata_packet_item_changed m)
      else if code = four_cc ''PICT'' then ssnc_text Cover_art_pathname (picture_uri (image_file cfg) data) m
      else if code = four_cc ''abeg'' then (m\<lparr>active_state := AM_ACTIVE\<rparr>, active_state m \<noteq> AM_ACTIVE)
      else if code = four_cc ''aend'' then (m\<lparr>active_state := AM_INACTIVE\<rparr>, active_state m \<noteq> AM_INACTIVE)
      else if code = four_cc ''pres'' \<or> code = four_cc ''pbeg''
           then (m\<lparr>player_state := PS_PLAYING, player_thread_active := True\<rparr>, player_state m \<noteq> PS_PLAYING \<or> \<not> player_thread_active m)
      else if code = four_cc ''pend''
           then (m\<lparr>player_state := PS_STOPPED, player_thread_active := False\<rparr>, player_state m \<noteq> PS_STOPPED \<or> player_thread_active m)
      else if code = four_cc ''paus'' then (m\<lparr>player_state := PS_PAUSED\<rparr>, player_state m \<noteq> PS_PAUSED)
      else if code = four_cc ''pvol''
           then (m\<lparr>airplay_volume := config_airplay_volume cfg\<rparr>, airplay_volume m \<noteq> config_airplay_volume cfg)
      else case map_of ssnc_texts code of
             Some f \<Rightarrow> ssnc_text f data m
           | None \<Rightarrow> (m, False))"

definition metadata_hub_process_metadata ::
    "hub_config \<Rightarrow> u32 \<Rightarrow> u32 \<Rightarrow> bytes \<Rightarrow> metadata_bundle \<Rightarrow> (metadata_bundle \<times> metadata_bundle option) option" where
  "metadata_hub_process_metadata cfg type code data m =
     (if type = four_cc ''core'' then map_option (metadata_hub_modify_epilog False) (core_item code data m)
      else if type = four_cc ''ssnc'' then (case ssnc_item cfg code data m of (m, changed) \<Rightarrow> Some (metadata_hub_modify_epilog changed m))
      else Some (metadata_hub_modify_epilog False m))"

end
