(* ===== verification/Dacp_Monitor.thy ===== *)
theory Dacp_Monitor
  imports Dacp_Client Metadata_Hub
begin

text \<open>
  The DACP monitor (\<open>dacp.c\<close>): which client is to be controlled, and the thread that asks it again and again for
  the volume and for its play status, and notes in the metadata hub whether it is there.
\<close>

section \<open>The client to be controlled\<close>

text \<open>What is used of a connection.\<close>

record dacp_conn =
  connection_number :: nat
  conn_dacp_id :: "bytes option"
  connection_ip_family :: nat
  self_scope_id :: u32
  client_ip_string :: bytes
  UserAgent :: "bytes option"
  dacp_active_remote :: "bytes option"

definition relinquish_dacp_server_information :: "dacp_conn \<Rightarrow> dacp_server_record \<Rightarrow> dacp_server_record" where
  "relinquish_dacp_server_information conn s =
     (if players_connection_thread_index s = connection_number conn then s\<lparr>players_connection_thread_index := 0\<rparr> else s)"

definition starts_with :: "bytes \<Rightarrow> bytes \<Rightarrow> bool" where
  "starts_with s prefix \<longleftrightarrow> take (length prefix) s = prefix"

definition new_dacp_server :: "dacp_conn \<Rightarrow> dacp_server_record \<Rightarrow> dacp_server_record" where
  "new_dacp_server conn s =
     s\<lparr>server_dacp_id := (case conn_dacp_id conn of Some i \<Rightarrow> take 255 i | None \<Rightarrow> []), server_port := 0, scan_enable := False,
       connection_family := connection_ip_family conn, scope_id := self_scope_id conn, ip_string := take 46 (client_ip_string conn),
       always_use_revision_number_1 :=
         (case UserAgent conn of Some a \<Rightarrow> starts_with a (ascii ''forked-daapd'') | None \<Rightarrow> False)\<rparr>"

text \<open>The client's address in the hub; its flag is not set.\<close>

definition note_client_ip :: "bytes \<Rightarrow> metadata_bundle \<Rightarrow> metadata_bundle \<times> bool" where
  "note_client_ip ip m =
     (case texts m Client_ip of
        Some old \<Rightarrow> if take 46 old = take 46 ip then (m, False) else (m\<lparr>texts := (texts m)(Client_ip \<mapsto> take 46 ip)\<rparr>, True)
      | None \<Rightarrow> (m\<lparr>texts := (texts m)(Client_ip \<mapsto> take 46 ip)\<rparr>, True))"

definition set_dacp_server_information ::
    "dacp_conn \<Rightarrow> dacp_server_record \<Rightarrow> metadata_bundle \<Rightarrow> dacp_server_record \<times> metadata_bundle \<times> metadata_bundle option" where
  "set_dacp_server_information conn s m =
     (let s = s\<lparr>players_connection_thread_index := connection_number conn\<rparr>;
          (s, m, out) =
            (if conn_dacp_id conn \<noteq> Some (server_dacp_id s)
             then let s = new_dacp_server conn s;
                      ch = dacp_server_active m \<noteq> scan_enable s;
                      (m, new_ip) = note_client_ip (client_ip_string conn) (m\<lparr>dacp_server_active := scan_enable s\<rparr>);
                      (m, out) = metadata_hub_modify_epilog (ch \<or> new_ip) m
                  in (s, m, out)
             else (if server_port s \<noteq> 0 then s\<lparr>scan_enable := True\<rparr> else s, m, None))
      in (s\<lparr>active_remote_id := dacp_active_remote conn\<rparr>, m, out))"

definition dacp_monitor_port_update_callback :: "bytes option \<Rightarrow> u16 \<Rightarrow> dacp_server_record \<Rightarrow> dacp_server_record" where
  "dacp_monitor_port_update_callback dacp_id port s =
     (case dacp_id of
        None \<Rightarrow> s
      | Some i \<Rightarrow> if server_dacp_id s = [] \<or> i \<noteq> server_dacp_id s then s
                  else s\<lparr>server_port := port, scan_enable := (port \<noteq> 0)\<rparr>)"

section \<open>Is the client there?\<close>

record scan_state =
  revision_number :: int
  bad_result_count :: nat
  idle_scan_count :: nat

text \<open>Without a client to scan the hub is told, and the thread waits.\<close>

definition scan_disabled :: "metadata_bundle \<Rightarrow> metadata_bundle \<times> metadata_bundle option" where
  "scan_disabled m =
     metadata_hub_modify_epilog (dacp_server_active m \<or> advanced_dacp_server_active m)
       (m\<lparr>dacp_server_active := False, advanced_dacp_server_active := False\<rparr>)"

definition scan_reenabled :: "scan_state \<Rightarrow> scan_state" where
  "scan_reenabled t = t\<lparr>bad_result_count := 0, idle_scan_count := 0\<rparr>"

definition count_result :: "nat \<Rightarrow> int \<Rightarrow> scan_state \<Rightarrow> scan_state" where
  "count_result scan_max result t =
     (if result = 200 \<or> result = 400 then t\<lparr>bad_result_count := 0\<rparr>
      else if bad_result_count t < scan_max then t\<lparr>bad_result_count := bad_result_count t + 1\<rparr> else t)"

text \<open>\<open>None\<close> is not known, -1 in the code.\<close>

definition server_status_now :: "nat \<Rightarrow> scan_state \<Rightarrow> bool option" where
  "server_status_now scan_max t =
     (if bad_result_count t = 0 then Some True else if bad_result_count t = scan_max then Some False else None)"

definition advanced_status_now :: "nat \<Rightarrow> int \<Rightarrow> scan_state \<Rightarrow> bool option" where
  "advanced_status_now scan_max result t =
     (if bad_result_count t = 0 then (if result = 200 then Some True else if result = 400 then Some False else None)
      else if bad_result_count t = scan_max then Some False else None)"

definition known_or :: "bool \<Rightarrow> bool option \<Rightarrow> bool" where
  "known_or b status = (case status of None \<Rightarrow> b | Some s \<Rightarrow> s)"

definition note_scan :: "nat \<Rightarrow> int \<Rightarrow> scan_state \<times> metadata_bundle \<Rightarrow> (scan_state \<times> metadata_bundle) \<times> metadata_bundle option" where
  "note_scan scan_max result tm =
     (case tm of (t, m) \<Rightarrow>
        let t = count_result scan_max result t;
            t = t\<lparr>idle_scan_count := (if player_thread_active m then 0 else idle_scan_count t + 1)\<rparr>;
            active = known_or (dacp_server_active m) (server_status_now scan_max t);
            advanced = known_or (advanced_dacp_server_active m) (advanced_status_now scan_max result t);
            update_needed = (active \<noteq> dacp_server_active m \<or> advanced \<noteq> advanced_dacp_server_active m);
            (m, out) = metadata_hub_modify_epilog update_needed (m\<lparr>dacp_server_active := active, advanced_dacp_server_active := advanced\<rparr>)
        in ((t, m), out))"

definition note_volume :: "int \<Rightarrow> metadata_bundle \<Rightarrow> metadata_bundle \<times> metadata_bundle option" where
  "note_volume the_volume m =
     metadata_hub_modify_epilog (speaker_volume m \<noteq> the_volume) (m\<lparr>speaker_volume := the_volume\<rparr>)"

section \<open>The play status\<close>

definition status_text :: "text_field \<Rightarrow> bytes \<Rightarrow> int \<Rightarrow> int \<Rightarrow> metadata_bundle \<Rightarrow> metadata_bundle option" where
  "status_text f block t item_size m =
     (if t < 0 \<or> item_size < 0 then None
      else map_option (\<lambda>s. update_text f (string_update_with_size (texts m f) (Some s)) m) (rd_block block (nat t) (nat item_size)))"

definition status_byte :: "bytes \<Rightarrow> int \<Rightarrow> int option" where
  "status_byte block t = (if t < 0 then None else map_option uint (rd block (nat t)))"

definition note_play_status :: "int \<Rightarrow> metadata_bundle \<Rightarrow> metadata_bundle" where
  "note_play_status r m =
     (if r = 2 then m\<lparr>play_status := PS_STOPPED\<rparr> else if r = 3 then m\<lparr>play_status := PS_PAUSED\<rparr>
      else if r = 4 then m\<lparr>play_status := PS_PLAYING\<rparr> else m)"

definition note_shuffle_status :: "int \<Rightarrow> metadata_bundle \<Rightarrow> metadata_bundle" where
  "note_shuffle_status r m =
     (if r = 0 then m\<lparr>shuffle_status := SS_OFF\<rparr> else if r = 1 then m\<lparr>shuffle_status := SS_ON\<rparr> else m)"

definition note_repeat_status :: "int \<Rightarrow> metadata_bundle \<Rightarrow> metadata_bundle" where
  "note_repeat_status r m =
     (if r = 0 then m\<lparr>repeat_status := RS_OFF\<rparr> else if r = 1 then m\<lparr>repeat_status := RS_ONE\<rparr>
      else if r = 2 then m\<lparr>repeat_status := RS_ALL\<rparr> else m)"

definition note_composite_id :: "bytes \<Rightarrow> metadata_bundle \<Rightarrow> metadata_bundle" where
  "note_composite_id i m =
     (if \<not> item_composite_id_is_valid m \<or> item_composite_id m \<noteq> i
      then m\<lparr>item_composite_id := i, item_composite_id_changed := True, item_composite_id_is_valid := True\<rparr> else m)"

definition note_dacp_songtime :: "u32 \<Rightarrow> metadata_bundle \<Rightarrow> metadata_bundle" where
  "note_dacp_songtime ui m =
     (if ui \<noteq> songtime_in_milliseconds m
      then m\<lparr>songtime_in_milliseconds := ui, songtime_in_milliseconds_changed := True, songtime_in_milliseconds_is_valid := True\<rparr>
      else m)"

definition status_item :: "bytes \<Rightarrow> u32 \<Rightarrow> int \<Rightarrow> int \<Rightarrow> int \<times> metadata_bundle \<Rightarrow> (int \<times> metadata_bundle) option" where
  "status_item block type t item_size rm =
     (case rm of (revn, m) \<Rightarrow>
        if type = four_cc ''cmsr'' then map_option (\<lambda>n. (sint n, m)) (read32 block t)
        else if type = four_cc ''caps'' then map_option (\<lambda>r. (revn, note_play_status r m)) (status_byte block t)
        else if type = four_cc ''cash'' then map_option (\<lambda>r. (revn, note_shuffle_status r m)) (status_byte block t)
        else if type = four_cc ''carp'' then map_option (\<lambda>r. (revn, note_repeat_status r m)) (status_byte block t)
        else if type = four_cc ''cann'' then map_option (Pair revn) (status_text Track_name block t item_size m)
        else if type = four_cc ''cana'' then map_option (Pair revn) (status_text Artist_name block t item_size m)
        else if type = four_cc ''canl'' then map_option (Pair revn) (status_text Album_name block t item_size m)
        else if type = four_cc ''cang'' then map_option (Pair revn) (status_text Genre block t item_size m)
        else if type = four_cc ''canp''
             then (if t < 0 then None else map_option (\<lambda>i. (revn, note_composite_id i m)) (rd_block block (nat t) 16))
        else if type = four_cc ''astm'' then map_option (\<lambda>n. (revn, note_dacp_songtime n m)) (read32 block t)
        else Some (revn, m))"

partial_function (option) status_loop ::
    "bytes \<Rightarrow> int \<Rightarrow> int \<Rightarrow> int \<times> metadata_bundle \<Rightarrow> (int \<times> metadata_bundle) option" where
  "status_loop block sp le rm =
     (if le < 8 then Some rm
      else do { (type, item_size, sp) \<leftarrow> dacp_tlv_crawl block sp;
                taken \<leftarrow> i32_of (item_size + 8);
                rm \<leftarrow> status_item block type (sp - item_size) item_size rm;
                status_loop block sp (le - taken) rm })"

definition play_status_update :: "bytes \<Rightarrow> nat \<Rightarrow> int \<times> metadata_bundle \<Rightarrow> ((int \<times> metadata_bundle) \<times> metadata_bundle option) option" where
  "play_status_update block le rm =
     (if le < 8 then Some (rm, None)
      else do { (type, item_size, sp) \<leftarrow> dacp_tlv_crawl block 0;
                if type = four_cc ''cmst''
                then do { (revn, m) \<leftarrow> status_loop block (sp - item_size) (int le - 8) rm;
                          let (m, out) = metadata_hub_modify_epilog True m;
                          Some ((revn, m), out) }
                else Some (rm, None) })"

text \<open>The question for news, and what the hub learns from the answer.\<close>

definition ask_for_status ::
    "'w dacp_net \<Rightarrow> bool \<Rightarrow> int \<times> metadata_bundle \<Rightarrow> 'w \<Rightarrow> ((int \<times> metadata_bundle) \<times> metadata_bundle option \<times> 'w) option" where
  "ask_for_status net always_1 rm w =
     (let rm = (if always_1 then (1, snd rm) else rm)
      in do { (rsp, w) \<leftarrow> dacp_send_command net (''playstatusupdate?revision-number='' @ decimal (fst rm)) w;
              if rsp_code rsp = 200
              then (case rsp_body rsp of
                      None \<Rightarrow> if rsp_size rsp < 8 then Some (rm, None, w) else None
                    | Some block \<Rightarrow> map_option (\<lambda>(rm, out). (rm, out, w)) (play_status_update block (rsp_size rsp) rm))
              else Some (rm, None, w) })"

section \<open>A turn of the monitor\<close>

text \<open>
  The scan behind the wait: the port of the server decides whether there is anything to ask. The results are what
  the watchers are shown and, for a client without a port, the identifier whose port is to be looked for.
\<close>

definition shown_list :: "metadata_bundle option \<Rightarrow> metadata_bundle list" where
  "shown_list out = (case out of None \<Rightarrow> [] | Some s \<Rightarrow> [s])"

definition scan_turn :: "'w dacp_net \<Rightarrow> i64 \<Rightarrow> nat \<Rightarrow> dacp_server_record \<Rightarrow> scan_state \<times> metadata_bundle \<Rightarrow> 'w \<Rightarrow>
    ((scan_state \<times> metadata_bundle) \<times> metadata_bundle list \<times> bytes option \<times> 'w) option" where
  "scan_turn net machine scan_max s tm w =
     (let net = net\<lparr>dacp_server := s\<rparr>
      in do { (result, the_volume, w) \<leftarrow> dacp_get_volume net machine w;
              if result = 490
              then Some (tm, [], if server_dacp_id s \<noteq> [] then Some (server_dacp_id s) else None, w)
              else (case note_scan scan_max result tm of ((t, m), out1) \<Rightarrow>
                      if result = 200
                      then (case note_volume the_volume m of (m, out2) \<Rightarrow>
                              do { ((revn, m), out3, w) \<leftarrow> ask_for_status net (always_use_revision_number_1 s) (revision_number t, m) w;
                                   Some ((t\<lparr>revision_number := revn\<rparr>, m), shown_list out1 @ shown_list out2 @ shown_list out3, None, w) })
                      else Some ((t, m), shown_list out1, None, w)) })"

text \<open>
  The whole turn, from the lock of the server's record on: \<open>during\<close> is what other threads do to the record while the
  thread waits for a client, until one is there or the time is up.
\<close>

definition dacp_monitor_turn :: "'w dacp_net \<Rightarrow> i64 \<Rightarrow> nat \<Rightarrow> (dacp_server_record \<Rightarrow> dacp_server_record) \<Rightarrow>
    dacp_server_record \<Rightarrow> scan_state \<times> metadata_bundle \<Rightarrow> 'w \<Rightarrow>
    (dacp_server_record \<times> (scan_state \<times> metadata_bundle) \<times> metadata_bundle list \<times> bytes option \<times> 'w) option" where
  "dacp_monitor_turn net machine scan_max during s tm w =
     (let (s, tm, out) =
        (if scan_enable s then (s, tm, None)
         else (case tm of (t, m) \<Rightarrow>
                 case scan_disabled m of (m, out) \<Rightarrow>
                   let s = during s in (s, (if scan_enable s then scan_reenabled t else t, m), out)))
      in map_option (\<lambda>(tm, outs, look_for, w). (s, tm, shown_list out @ outs, look_for, w)) (scan_turn net machine scan_max s tm w))"

end
