(* ===== verification/Dacp_Scans.thy ===== *)
theory Dacp_Scans
  imports Dacp_Monitor
begin

text \<open>
  What the monitor tells of a client: it is there from the first good answer on, a few bad ones do not count, and the
  watchers of the hub are shown each change, and nothing but changes.
\<close>

section \<open>A sequence of results\<close>

fun scan_results :: "nat \<Rightarrow> int list \<Rightarrow> scan_state \<times> metadata_bundle \<Rightarrow> (scan_state \<times> metadata_bundle) \<times> metadata_bundle list" where
  "scan_results scan_max [] tm = (tm, [])"
| "scan_results scan_max (r # rs) tm =
     (case note_scan scan_max r tm of (tm, out) \<Rightarrow> case scan_results scan_max rs tm of (tm, outs) \<Rightarrow> (tm, shown_list out @ outs))"

lemma scan_results_snoc:
  "scan_results scan_max (rs @ [r]) tm =
     (case scan_results scan_max rs tm of (tm, outs) \<Rightarrow> case note_scan scan_max r tm of (tm, out) \<Rightarrow> (tm, outs @ shown_list out))"
  by (induction rs arbitrary: tm) (auto split: prod.splits)

definition there :: "metadata_bundle \<Rightarrow> bool \<times> bool" where
  "there m = (dacp_server_active m, advanced_dacp_server_active m)"

section \<open>What it should be\<close>

definition good_result :: "int \<Rightarrow> bool" where
  "good_result r \<longleftrightarrow> r = 200 \<or> r = 400"

definition bad_since :: "int list \<Rightarrow> nat" where
  "bad_since rs = length (takeWhile (\<lambda>r. \<not> good_result r) (rev rs))"

definition last_good :: "int list \<Rightarrow> int option" where
  "last_good rs = find good_result (rev rs)"

lemma bad_since_simps [simp]:
  "bad_since [] = 0"
  "bad_since (rs @ [r]) = (if good_result r then 0 else Suc (bad_since rs))"
  by (simp_all add: bad_since_def)

lemma last_good_simps [simp]:
  "last_good [] = None"
  "last_good (rs @ [r]) = (if good_result r then Some r else last_good rs)"
  by (simp_all add: last_good_def)

definition status_after :: "nat \<Rightarrow> int list \<Rightarrow> bool \<times> bool \<Rightarrow> bool \<times> bool" where
  "status_after scan_max rs before =
     (if scan_max \<le> bad_since rs then (False, False)
      else case last_good rs of None \<Rightarrow> before | Some r \<Rightarrow> (True, r = 200))"

section \<open>What it is\<close>

lemma note_scan_parts:
  assumes "note_scan scan_max r (t, m) = ((t', m'), out)"
  shows "t' = (count_result scan_max r t)\<lparr>idle_scan_count :=
      (if player_thread_active m then 0 else idle_scan_count (count_result scan_max r t) + 1)\<rparr>"
    and "\<exists>active advanced. active = known_or (dacp_server_active m) (server_status_now scan_max t') \<and>
      advanced = known_or (advanced_dacp_server_active m) (advanced_status_now scan_max r t') \<and>
      metadata_hub_modify_epilog (active \<noteq> dacp_server_active m \<or> advanced \<noteq> advanced_dacp_server_active m)
        (m\<lparr>dacp_server_active := active, advanced_dacp_server_active := advanced\<rparr>) = (m', out)"
  using assms by (auto simp: note_scan_def Let_def split: prod.splits)

lemma note_scan_counts:
  assumes "note_scan scan_max r (t, m) = ((t', m'), out)" and "bad_result_count t \<le> scan_max"
  shows "bad_result_count t' = (if good_result r then 0 else min scan_max (Suc (bad_result_count t)))"
  using assms(2) by (simp add: note_scan_parts(1) [OF assms(1)] count_result_def good_result_def)

lemma epilog_there:
  assumes "metadata_hub_modify_epilog changed m = (m', out)"
  shows "there m' = there m" and "out = (if changed then Some (m\<lparr>dacp_server_has_been_active := dacp_server_active m\<rparr>) else None)"
  using assms by (auto simp: metadata_hub_modify_epilog_def run_metadata_watchers_def there_def Let_def split: if_splits)

lemma note_scan_status:
  assumes "note_scan scan_max r (t, m) = ((t', m'), out)"
  shows "there m' = (known_or (dacp_server_active m) (server_status_now scan_max t'),
      known_or (advanced_dacp_server_active m) (advanced_status_now scan_max r t'))"
    and "out = None \<and> there m' = there m \<or> (\<exists>s. out = Some s \<and> there s = there m' \<and> there m' \<noteq> there m)"
proof -
  obtain active advanced where a: "active = known_or (dacp_server_active m) (server_status_now scan_max t')"
    "advanced = known_or (advanced_dacp_server_active m) (advanced_status_now scan_max r t')"
    "metadata_hub_modify_epilog (active \<noteq> dacp_server_active m \<or> advanced \<noteq> advanced_dacp_server_active m)
       (m\<lparr>dacp_server_active := active, advanced_dacp_server_active := advanced\<rparr>) = (m', out)"
    using note_scan_parts(2) [OF assms] by blast
  have "there m' = (active, advanced)" using epilog_there(1) [OF a(3)] by (simp add: there_def)
  then show "there m' = (known_or (dacp_server_active m) (server_status_now scan_max t'),
      known_or (advanced_dacp_server_active m) (advanced_status_now scan_max r t'))" by (simp only: a(1,2))
  show "out = None \<and> there m' = there m \<or> (\<exists>s. out = Some s \<and> there s = there m' \<and> there m' \<noteq> there m)"
    using epilog_there(2) [OF a(3)] \<open>there m' = (active, advanced)\<close> by (auto simp: there_def)
qed

lemma distinct_adj_snoc: "distinct_adj (xs @ [x]) \<longleftrightarrow> xs = [] \<or> distinct_adj xs \<and> last xs \<noteq> x"
  by (cases "xs = []") (auto simp: distinct_adj_append_iff)

lemma scans_run:
  assumes "0 < scan_max" and "bad_result_count t = 0" and "scan_results scan_max rs (t, m) = ((t', m'), outs)"
  shows "bad_result_count t' = min scan_max (bad_since rs) \<and> there m' = status_after scan_max rs (there m) \<and>
    last (there m # map there outs) = there m' \<and> distinct_adj (there m # map there outs)"
  using assms(3)
proof (induction rs arbitrary: t' m' outs rule: rev_induct)
  case Nil
  then show ?case using assms(1,2) by (auto simp: status_after_def)
next
  case (snoc r rs)
  obtain t1 m1 outs1 where s1: "scan_results scan_max rs (t, m) = ((t1, m1), outs1)" by (metis prod.exhaust)
  obtain out where s2: "note_scan scan_max r (t1, m1) = ((t', m'), out)" and outs: "outs = outs1 @ shown_list out"
    using snoc.prems by (auto simp: scan_results_snoc s1 split: prod.splits)
  note IH = snoc.IH [OF s1]
  have c: "bad_result_count t' = min scan_max (bad_since (rs @ [r]))"
    using note_scan_counts [OF s2] IH by auto
  have st: "there m' = status_after scan_max (rs @ [r]) (there m)"
    using note_scan_status(1) [OF s2] c IH assms(1)
    by (auto simp: status_after_def there_def known_or_def server_status_now_def advanced_status_now_def good_result_def
        min_def split: option.splits if_splits)
  have "last (there m # map there outs) = there m' \<and> distinct_adj (there m # map there outs)"
    using note_scan_status(2) [OF s2]
  proof
    assume "out = None \<and> there m' = there m1"
    then show ?thesis using IH by (simp add: outs shown_list_def)
  next
    assume "\<exists>s. out = Some s \<and> there s = there m' \<and> there m' \<noteq> there m1"
    then show ?thesis using IH distinct_adj_snoc [of "there m # map there outs1" "there m'"] by (auto simp: outs shown_list_def)
  qed
  then show ?case using c st by blast
qed

text \<open>
  C39. Over every sequence of scan results the monitor debounces: the hub says that the client is there when it has given
  a good answer (200 or 400) with fewer than the configured number of bad ones since, that it is an advanced one when the
  last good answer was 200, and neither after that many bad answers. The watchers are shown every change of these and
  are run for nothing else.
\<close>
theorem scans_debounced:
  assumes "0 < scan_max" and "bad_result_count t = 0" and "scan_results scan_max rs (t, m) = ((t', m'), outs)"
  shows "there m' = status_after scan_max rs (there m) \<and>
    last (there m # map there outs) = there m' \<and> distinct_adj (there m # map there outs)"
  using scans_run [OF assms] by blast

definition sample_scan :: scan_state where
  "sample_scan = \<lparr>revision_number = 1, bad_result_count = 0, idle_scan_count = 0\<rparr>"

lemma sample_count: "bad_result_count sample_scan = 0"
  by (simp add: sample_scan_def)

lemma scans_debounced_witness:
  "\<exists>t m outs. scan_results 2 [200, 496, 400, 496, 496] (sample_scan, metadata_hub_init) = ((t, m), outs) \<and>
     there m = (False, False) \<and> map there outs = [(True, True), (True, False), (False, False)]"
proof -
  let ?run = "scan_results 2 [200, 496, 400, 496, 496] (sample_scan, metadata_hub_init)"
  have shown: "map there (snd ?run) = [(True, True), (True, False), (False, False)]"
    by (simp add: note_scan_def count_result_def server_status_now_def advanced_status_now_def known_or_def
        metadata_hub_modify_epilog_def run_metadata_watchers_def sample_scan_def metadata_hub_init_def there_def shown_list_def Let_def)
  obtain t m outs where r: "?run = ((t, m), outs)" by (metis prod.exhaust)
  have "there m = (False, False)"
    using scans_debounced [OF _ sample_count r] by (simp add: status_after_def bad_since_def good_result_def)
  then show ?thesis using r shown by (intro exI [of _ t] exI [of _ m] exI [of _ outs]) simp
qed

text \<open>With a limit of no bad answers at all a client is always there, whatever it answers.\<close>

lemma no_limit_always_there:
  assumes "bad_result_count t = 0" and "note_scan 0 r (t, m) = ((t', m'), out)"
  shows "dacp_server_active m'"
  using note_scan_status(1) [OF assms(2)] note_scan_counts [OF assms(2)] assms(1)
  by (auto simp: there_def known_or_def server_status_now_def split: if_splits)

end
