(* ===== verification/Metadata_Watchers.thy ===== *)
theory Metadata_Watchers
  imports Metadata_Hub
begin

text \<open>
  What a watcher of the metadata hub can rely on: with its own copy of the values, of which it renews those that are
  flagged as changed, it has the values of the hub, unless an item comes twice before the watchers are run.
\<close>

section \<open>A watcher\<close>

definition follow :: "metadata_bundle \<Rightarrow> metadata_bundle \<Rightarrow> metadata_bundle" where
  "follow c m = c\<lparr>texts := (\<lambda>f. if text_changed m f then texts m f else texts c f),
     item_id := (if item_id_changed m then item_id m else item_id c),
     song_data_kind := (if song_data_kind_changed m then song_data_kind m else song_data_kind c),
     songtime_in_milliseconds := (if songtime_in_milliseconds_changed m then songtime_in_milliseconds m else songtime_in_milliseconds c)\<rparr>"

definition same_values :: "metadata_bundle \<Rightarrow> metadata_bundle \<Rightarrow> bool" where
  "same_values c m \<longleftrightarrow> texts c = texts m \<and> item_id c = item_id m \<and> song_data_kind c = song_data_kind m \<and>
     songtime_in_milliseconds c = songtime_in_milliseconds m"

text \<open>The flags of a hub cover what a copy lacks; what is not among \<open>seen\<close> it has.\<close>

definition covered :: "metadata_bundle \<Rightarrow> text_field set \<Rightarrow> metadata_bundle \<Rightarrow> bool" where
  "covered c seen m \<longleftrightarrow> (\<forall>f. (f \<notin> seen \<or> \<not> text_changed m f) \<longrightarrow> texts c f = texts m f) \<and>
     (\<not> item_id_changed m \<longrightarrow> item_id c = item_id m) \<and>
     (\<not> song_data_kind_changed m \<longrightarrow> song_data_kind c = song_data_kind m) \<and>
     (\<not> songtime_in_milliseconds_changed m \<longrightarrow> songtime_in_milliseconds c = songtime_in_milliseconds m)"

lemma follow_same: "covered c seen m \<Longrightarrow> same_values (follow c m) m"
  by (auto simp: covered_def same_values_def follow_def)

lemma covered_ran: "same_values c m \<Longrightarrow> covered c {} (run_metadata_watchers m)"
  by (auto simp: covered_def same_values_def run_metadata_watchers_def)

lemma string_update_unchanged: "string_update str s = (str', False) \<Longrightarrow> str' = str"
  by (auto simp: string_update_def string_update_with_size_def split: option.splits if_splits)

lemma covered_text:
  assumes "covered c seen m" and "f \<notin> seen"
  shows "covered c (insert f seen) (update_text f (string_update (texts m f) s) m)"
  using assms string_update_unchanged [of "texts m f" s]
  by (cases "string_update (texts m f) s") (auto simp: covered_def update_text_def)

lemma covered_more: "covered c seen m \<Longrightarrow> seen \<subseteq> seen' \<Longrightarrow> covered c seen' m"
  by (auto simp: covered_def)

section \<open>The calls of the hub\<close>

definition text_of_item :: "u32 \<Rightarrow> u32 \<Rightarrow> text_field option" where
  "text_of_item type code =
     (if type = four_cc ''core'' then map_of core_texts code
      else if type = four_cc ''ssnc'' then (if code = four_cc ''PICT'' then Some Cover_art_pathname else map_of ssnc_texts code)
      else None)"

fun hub_run :: "hub_config \<Rightarrow> metadata_bundle \<Rightarrow> (u32 \<times> u32 \<times> bytes) list \<Rightarrow> (metadata_bundle \<times> metadata_bundle list) option" where
  "hub_run cfg m [] = Some (m, [])"
| "hub_run cfg m ((type, code, data) # items) =
     do { (m, out) \<leftarrow> metadata_hub_process_metadata cfg type code data m;
          (m, shown) \<leftarrow> hub_run cfg m items;
          Some (m, (case out of None \<Rightarrow> [] | Some s \<Rightarrow> [s]) @ shown) }"

text \<open>No string comes twice before the watchers are run.\<close>

fun items_once :: "hub_config \<Rightarrow> text_field set \<Rightarrow> metadata_bundle \<Rightarrow> (u32 \<times> u32 \<times> bytes) list \<Rightarrow> bool" where
  "items_once cfg seen m [] \<longleftrightarrow> True"
| "items_once cfg seen m ((type, code, data) # items) \<longleftrightarrow> set_option (text_of_item type code) \<inter> seen = {} \<and>
     (case metadata_hub_process_metadata cfg type code data m of
        None \<Rightarrow> True
      | Some (m, None) \<Rightarrow> items_once cfg (seen \<union> set_option (text_of_item type code)) m items
      | Some (m, Some s) \<Rightarrow> items_once cfg {} m items)"

lemma ssnc_item_covered:
  assumes "covered c seen m" and "set_option (text_of_item (four_cc ''ssnc'') code) \<inter> seen = {}"
  shows "covered c (seen \<union> set_option (text_of_item (four_cc ''ssnc'') code)) (fst (ssnc_item cfg code data m))"
proof -
  have "four_cc ''ssnc'' \<noteq> four_cc ''core''" by (simp add: four_cc_def)
  then have t: "text_of_item (four_cc ''ssnc'') code =
      (if code = four_cc ''PICT'' then Some Cover_art_pathname else map_of ssnc_texts code)"
    by (simp add: text_of_item_def)
  have plain: "covered c seen m'" if "texts m' = texts m" "text_changed m' = text_changed m" "item_id m' = item_id m"
    "item_id_changed m' = item_id_changed m" "song_data_kind m' = song_data_kind m" "song_data_kind_changed m' = song_data_kind_changed m"
    "songtime_in_milliseconds m' = songtime_in_milliseconds m" "songtime_in_milliseconds_changed m' = songtime_in_milliseconds_changed m" for m'
    using assms(1) that by (simp add: covered_def)
  have strings: "covered c (seen \<union> {f}) (fst (ssnc_text f d m))" if "f \<notin> seen" for f d
    using covered_text [OF assms(1) that, of "Some d"] by (simp add: ssnc_text_def Let_def)
  have other: "covered c (seen \<union> set_option (text_of_item (four_cc ''ssnc'') code)) m'" if "covered c seen m'" for m'
    using that by (rule covered_more) simp
  show ?thesis
  proof (cases "code = four_cc ''PICT''")
    case True
    then have "ssnc_item cfg code data m = ssnc_text Cover_art_pathname (picture_uri (image_file cfg) data) m"
      by (simp add: ssnc_item_def four_cc_def)
    moreover have tt: "text_of_item (four_cc ''ssnc'') code = Some Cover_art_pathname" using t True by (simp only: if_True simp_thms)
    ultimately show ?thesis using strings [of Cover_art_pathname] assms(2) unfolding tt by simp
  next
    case False
    then have "(\<exists>m'. fst (ssnc_item cfg code data m) = m' \<and> covered c seen m') \<or>
        (\<exists>f. map_of ssnc_texts code = Some f \<and> ssnc_item cfg code data m = ssnc_text f data m)"
      using plain assms(1) by (auto simp: ssnc_item_def split: option.splits)
    then show ?thesis
    proof
      assume "\<exists>f. map_of ssnc_texts code = Some f \<and> ssnc_item cfg code data m = ssnc_text f data m"
      then obtain f where "map_of ssnc_texts code = Some f" "ssnc_item cfg code data m = ssnc_text f data m" by blast
      then show ?thesis using strings [of f data] assms(2) False by (simp add: t)
    qed (use other in auto)
  qed
qed

lemma core_item_covered:
  assumes "core_item code data m = Some m'" and "covered c seen m"
    and "set_option (text_of_item (four_cc ''core'') code) \<inter> seen = {}"
  shows "covered c (seen \<union> set_option (text_of_item (four_cc ''core'') code)) m'"
proof -
  have t: "text_of_item (four_cc ''core'') code = map_of core_texts code" by (simp add: text_of_item_def)
  have numbers: "covered c seen (note_song_data_kind n m)" "covered c seen (note_item_id i m)" "covered c seen (note_songtime j m)" for n i j
    using assms(2) by (simp_all add: covered_def note_song_data_kind_def note_item_id_def note_songtime_def)
  have strings: "covered c (seen \<union> {f}) (core_text f data m)" if "f \<notin> seen" for f
    using covered_text [OF assms(2) that, of "Some data"] by (auto simp: core_text_def Let_def covered_def)
  have "covered c seen m' \<or> (\<exists>f. map_of core_texts code = Some f \<and> m' = core_text f data m)"
    using assms(1,2) numbers by (auto simp: core_item_def split: if_splits option.splits bind_splits)
  then show ?thesis
  proof
    assume "covered c seen m'"
    then show ?thesis by (rule covered_more) simp
  next
    assume "\<exists>f. map_of core_texts code = Some f \<and> m' = core_text f data m"
    then show ?thesis using strings assms(3) by (auto simp: t)
  qed
qed

lemma process_covered:
  assumes "metadata_hub_process_metadata cfg type code data m = Some (m', out)" and "covered c seen m"
    and "set_option (text_of_item type code) \<inter> seen = {}"
  shows "case out of None \<Rightarrow> covered c (seen \<union> set_option (text_of_item type code)) m'
     | Some s \<Rightarrow> same_values (follow c s) s \<and> covered (follow c s) {} m'"
proof -
  have "\<exists>m1 changed. covered c (seen \<union> set_option (text_of_item type code)) m1 \<and> metadata_hub_modify_epilog changed m1 = (m', out)"
  proof (cases "type = four_cc ''core''")
    case True
    then obtain m1 where m1: "core_item code data m = Some m1" "metadata_hub_modify_epilog False m1 = (m', out)"
      using assms(1) by (auto simp: metadata_hub_process_metadata_def)
    have "covered c (seen \<union> set_option (text_of_item type code)) m1"
      using core_item_covered [OF m1(1) assms(2)] assms(3) True by simp
    then show ?thesis using m1(2) by blast
  next
    case core: False
    show ?thesis
    proof (cases "type = four_cc ''ssnc''")
      case True
      obtain m1 changed where m1: "ssnc_item cfg code data m = (m1, changed)" by fastforce
      then have "metadata_hub_modify_epilog changed m1 = (m', out)"
        using assms(1) True core by (simp add: metadata_hub_process_metadata_def)
      moreover have "covered c (seen \<union> set_option (text_of_item type code)) m1"
        using ssnc_item_covered [OF assms(2), of code cfg data] assms(3) True m1 by simp
      ultimately show ?thesis by blast
    next
      case False
      then have "metadata_hub_modify_epilog False m = (m', out)" using assms(1) core by (simp add: metadata_hub_process_metadata_def)
      then show ?thesis using covered_more [OF assms(2)] by blast
    qed
  qed
  then obtain m1 changed where c: "covered c (seen \<union> set_option (text_of_item type code)) m1"
    "metadata_hub_modify_epilog changed m1 = (m', out)" by blast
  let ?m = "m1\<lparr>dacp_server_has_been_active := dacp_server_active m1\<rparr>"
  have "covered c (seen \<union> set_option (text_of_item type code)) ?m" using c(1) by (simp add: covered_def)
  then show ?thesis
    using c(2) follow_same [of c _ ?m] covered_ran [of "follow c ?m" ?m]
    by (auto simp: metadata_hub_modify_epilog_def Let_def split: if_splits)
qed

lemma hub_run_covered:
  "hub_run cfg m items = Some (m', shown) \<Longrightarrow> items_once cfg seen m items \<Longrightarrow> covered c seen m \<Longrightarrow>
   shown = pre @ s # post \<Longrightarrow> same_values (foldl follow c (pre @ [s])) s"
proof (induction items arbitrary: m seen c shown pre)
  case (Cons i items)
  obtain type code data where i: "i = (type, code, data)" by (cases i)
  obtain m1 out shown1 where r: "metadata_hub_process_metadata cfg type code data m = Some (m1, out)"
    "hub_run cfg m1 items = Some (m', shown1)" "shown = (case out of None \<Rightarrow> [] | Some s \<Rightarrow> [s]) @ shown1"
    using Cons.prems(1) by (auto simp: i split: bind_splits)
  have d: "set_option (text_of_item type code) \<inter> seen = {}" using Cons.prems(2) by (simp add: i)
  note p = process_covered [OF r(1) Cons.prems(3) d]
  show ?case
  proof (cases out)
    case None
    then have "items_once cfg (seen \<union> set_option (text_of_item type code)) m1 items" "shown1 = pre @ s # post"
      "covered c (seen \<union> set_option (text_of_item type code)) m1"
      using Cons.prems(2,4) p r(1,3) by (simp_all add: i)
    then show ?thesis by (intro Cons.IH [OF r(2)])
  next
    case (Some t)
    then have o: "items_once cfg {} m1 items" "covered (follow c t) {} m1" "same_values (follow c t) t"
      using Cons.prems(2) p r(1) by (simp_all add: i)
    show ?thesis
    proof (cases pre)
      case Nil
      then show ?thesis using Cons.prems(4) r(3) o(3) Some by simp
    next
      case (Cons x xs)
      then show ?thesis using Cons.IH [OF r(2) o(1,2), of xs] \<open>shown = pre @ s # post\<close> r(3) Some by simp
    qed
  qed
qed simp

text \<open>
  C40. A watcher that renews what is flagged is up to date: over every sequence of metadata items in which no string
  comes twice before the watchers are run, the copy it keeps has, each time it is shown the hub, the strings and
  numbers of the hub.
\<close>
theorem watcher_copy_is_exact:
  assumes "hub_run cfg metadata_hub_init items = Some (m, shown)" and "items_once cfg {} metadata_hub_init items"
    and "shown = pre @ s # post"
  shows "same_values (foldl follow metadata_hub_init (pre @ [s])) s"
proof -
  have "covered metadata_hub_init {} metadata_hub_init" by (simp add: covered_def)
  from hub_run_covered [OF assms(1,2) this assms(3)] show ?thesis .
qed

section \<open>Where a change is lost\<close>

definition sample_hub :: hub_config where
  "sample_hub = \<lparr>image_file = None, config_airplay_volume = 0\<rparr>"

text \<open>Two packets: a title with a description, and another title with another description.\<close>

definition packet_of :: "(string \<times> string) list \<Rightarrow> (u32 \<times> u32 \<times> bytes) list" where
  "packet_of items = (four_cc ''ssnc'', four_cc ''mdst'', []) # map (\<lambda>(c, s). (four_cc ''core'', four_cc c, ascii s)) items @
     [(four_cc ''ssnc'', four_cc ''mden'', [])]"

lemmas hub_eval = metadata_hub_process_metadata_def ssnc_item_def core_item_def core_texts_def ssnc_texts_def core_text_def
  string_update_def string_update_with_size_def update_text_def metadata_hub_modify_epilog_def run_metadata_watchers_def
  metadata_hub_init_def four_cc_def ascii_def c_bytes_def same_start_def packet_of_def text_of_item_def Let_def

lemma watcher_copy_is_exact_witness:
  "\<exists>s. hub_run sample_hub metadata_hub_init (packet_of [(''minm'', ''A''), (''asdt'', ''B'')]) = Some (run_metadata_watchers s, [s]) \<and>
     texts s Track_name = Some (ascii ''A'') \<and> same_values (follow metadata_hub_init s) s"
proof -
  obtain s where s: "hub_run sample_hub metadata_hub_init (packet_of [(''minm'', ''A''), (''asdt'', ''B'')]) = Some (run_metadata_watchers s, [s])"
    "texts s Track_name = Some (ascii ''A'')"
    by (simp add: hub_eval)
  have "items_once sample_hub {} metadata_hub_init (packet_of [(''minm'', ''A''), (''asdt'', ''B'')])" by (simp add: hub_eval)
  from watcher_copy_is_exact [OF s(1) this, of "[]"] show ?thesis using s by auto
qed

text \<open>
  A packet that changes the description only does not run the watchers, and the flag is turned off when the
  description comes again: the watchers never learn of it.
\<close>

lemma description_change_lost:
  "\<exists>m s t. hub_run sample_hub metadata_hub_init
       (packet_of [(''minm'', ''A''), (''asdt'', ''B'')] @ packet_of [(''minm'', ''A''), (''asdt'', ''C'')] @
        packet_of [(''minm'', ''D''), (''asdt'', ''C'')]) = Some (m, [s, t]) \<and>
     texts t Song_description = Some (ascii ''C'') \<and>
     texts (foldl follow metadata_hub_init [s, t]) Song_description = Some (ascii ''B'')"
  by (simp add: hub_eval follow_def)

end
