(* ===== verification/Player_Session.thy ===== *)
theory Player_Session
  imports Player_Output Player_Samples Complex_Main
begin

text \<open>
  The player thread (\<open>player_thread_func\<close> of \<open>player.c\<close>): what it sets up, and what it does with each frame that
  \<open>buffer_get_frame\<close> gives it. The samples are brought to 32 bits and to the rate of the output, the error of the
  synchronisation is measured, a frame is put in or left out to make it smaller, and the result is played. Doubles are
  rational numbers; the printing of statistics and the measuring of frame rates for it are left out, as is stuffing with libsoxr.
\<close>

section \<open>Settings\<close>

datatype playback_mode_type = ST_stereo | ST_mono | ST_reverse_stereo | ST_left_only | ST_right_only

record session_config =
  session_output_rate :: nat
  session_output_format :: sps_format
  session_playback_mode :: playback_mode_type
  no_sync :: bool
  resync_threshold :: rat
  resync_recovery_time :: rat
  tolerance :: rat
  no_device_volume :: bool
  software_volume :: bool
  session_loudness :: bool
  has_delay :: bool
  metadata_progress_interval :: rat
  session_has_watchdog :: bool

text \<open>
  \<open>no_device_volume\<close>: the device has no volume control of its own; \<open>software_volume\<close>: it has none, volume control is not
  ignored and the volume is not 0.
\<close>

definition output_bytes_per_frame :: "sps_format \<Rightarrow> nat" where
  "output_bytes_per_frame format =
     (if format \<in> {SPS_FORMAT_S24_3LE, SPS_FORMAT_S24_3BE} then 6
      else if format \<in> {SPS_FORMAT_S24, SPS_FORMAT_S24_LE, SPS_FORMAT_S24_BE, SPS_FORMAT_S32, SPS_FORMAT_S32_LE, SPS_FORMAT_S32_BE} then 8
      else 4)"

text \<open>The depth of the output; a format that is none makes the thread die.\<close>

definition output_bit_depth :: "sps_format \<Rightarrow> nat option" where
  "output_bit_depth format =
     (if format \<in> {SPS_FORMAT_S8, SPS_FORMAT_U8} then Some 8
      else if format \<in> {SPS_FORMAT_S16, SPS_FORMAT_S16_LE, SPS_FORMAT_S16_BE} then Some 16
      else if format \<in> {SPS_FORMAT_S24, SPS_FORMAT_S24_LE, SPS_FORMAT_S24_BE, SPS_FORMAT_S24_3LE, SPS_FORMAT_S24_3BE} then Some 24
      else if format \<in> {SPS_FORMAT_S32, SPS_FORMAT_S32_LE, SPS_FORMAT_S32_BE} then Some 32
      else None)"

section \<open>Differences of frame numbers\<close>

text \<open>
  Frame numbers of the output are those of the source, of 32 bits, times the ratio of the rates; the signed
  difference of two of them is taken in a number of bits that fits.
\<close>

definition output_rtptime_sign_bit :: "nat \<Rightarrow> nat" where
  "output_rtptime_sign_bit ratio = (if ratio = 1 then 31 else if ratio = 2 then 32 else if ratio = 4 then 33 else if ratio = 8 then 34 else 31)"

definition output_rtptime_mask :: "nat \<Rightarrow> i64" where
  "output_rtptime_mask ratio = push_bit (output_rtptime_sign_bit ratio + 1) 1 - 1"

definition output_rtptime_sign_mask :: "nat \<Rightarrow> i64" where
  "output_rtptime_sign_mask ratio = push_bit (output_rtptime_sign_bit ratio) 1"

definition sync_error_of :: "nat \<Rightarrow> u32 \<Rightarrow> u32 \<Rightarrow> u64 \<Rightarrow> i64" where
  "sync_error_of ratio should_be_frame_32 timestamp current_delay =
     (let should_be_frame = ucast should_be_frame_32 * of_nat ratio;
          will_be_frame = (ucast timestamp * of_nat ratio - current_delay) AND output_rtptime_mask ratio;
          sync_error = should_be_frame - will_be_frame
      in if sync_error AND output_rtptime_sign_mask ratio \<noteq> 0
         then sync_error OR NOT (output_rtptime_mask ratio)
         else sync_error AND output_rtptime_mask ratio)"

section \<open>The state of a session\<close>

definition trend_interval :: nat where
  "trend_interval = 1003"

record stat_entry =
  stat_sync_error :: int
  stat_correction :: int
  stat_drift :: int

record sync_stats =
  statistics :: "stat_entry list"
  number_of_statistics :: nat
  oldest_statistic :: nat
  newest_statistic :: nat
  tsum_of_sync_errors :: int
  tsum_of_corrections :: int
  tsum_of_insertions_and_deletions :: int
  tsum_of_drifts :: int
  previous_sync_error :: int
  previous_correction :: int

text \<open>What the thread gives to the device and to others.\<close>

datatype session_event =
    Play_untimed bytes int
  | Play_timed bytes int u32 u64
  | Progress string string
  | Run_unfixable

record session =
  ses_conn :: rtsp_conn
  output_sample_ratio :: nat
  input_bit_depth :: nat
  enable_dither :: bool
  ses_dither :: dither_state
  fix_volume :: int
  software_mute_enabled :: bool
  amountStuffed :: int
  session_corrections :: int
  buffer_occupancy :: int
  play_number :: int
  playstart :: u64
  at_least_one_frame_seen_this_session :: bool
  sync_error_out_of_bounds :: nat
  minimum_dac_queue_size :: u64
  minimum_buffer_occupancy :: int
  maximum_buffer_occupancy :: int
  unfixable_error_reported :: bool
  time_of_last_metadata_progress_update :: u64
  watchdog_bark_time :: u64
  ses_stats :: sync_stats
  ses_events :: "session_event list"

definition no_stats :: sync_stats where
  "no_stats = \<lparr>statistics = replicate trend_interval \<lparr>stat_sync_error = 0, stat_correction = 0, stat_drift = 0\<rparr>,
     number_of_statistics = 0, oldest_statistic = 0, newest_statistic = 0, tsum_of_sync_errors = 0,
     tsum_of_corrections = 0, tsum_of_insertions_and_deletions = 0, tsum_of_drifts = 0,
     previous_sync_error = 0, previous_correction = 0\<rparr>"

text \<open>What the thread sets up before its loop, behind the decoder and the ring; a fixed rate of 0 would be divided by.\<close>

definition player_start :: "session_config \<Rightarrow> int \<Rightarrow> session \<Rightarrow> session option" where
  "player_start cfg requested ses =
     (let conn = ses_conn ses;
          conn = ab_resync (init_buffer (conn\<lparr>packet_count := 0, packet_count_since_flush := 0, decoder_in_use := 0,
                   ab_buffering := True, ab_synced := False, flush_requested := False, flush_output_flushed := False,
                   flush_rtp_timestamp := 0\<rparr>));
          conn = conn\<lparr>connection_state_to_output := requested, input_frame_rate_starting_point_is_valid := False,
                   play_number_after_flush := 0, time_of_last_audio_packet := 0, first_packet_timestamp := 0,
                   missing_packets := 0, late_packets := 0, too_late_packets := 0, resend_requests := 0\<rparr>
      in do { depth \<leftarrow> output_bit_depth (session_output_format cfg);
              if input_rate conn = 0 then None
              else Some (ses\<lparr>ses_conn := conn, output_sample_ratio := session_output_rate cfg div unat (input_rate conn),
                     enable_dither := (enable_dither ses \<or> no_device_volume cfg \<or> depth < input_bit_depth ses \<or> session_playback_mode cfg = ST_mono),
                     ses_dither := (ses_dither ses)\<lparr>previous_random_number := 0\<rparr>, fix_volume := 65536,
                     session_corrections := 0, buffer_occupancy := 0, play_number := 0,
                     at_least_one_frame_seen_this_session := False, sync_error_out_of_bounds := 0,
                     minimum_dac_queue_size := - 1, minimum_buffer_occupancy := 2 ^ 31 - 1, maximum_buffer_occupancy := - (2 ^ 31),
                     ses_stats := no_stats\<rparr>) })"

definition emit :: "session_event \<Rightarrow> session \<Rightarrow> session" where
  "emit e ses = ses\<lparr>ses_events := ses_events ses @ [e]\<rparr>"

section \<open>Samples\<close>

text \<open>The two channels of a frame by the playback mode, at 32 bits.\<close>

definition widen_16 :: "playback_mode_type \<Rightarrow> int \<times> int \<Rightarrow> int \<times> int" where
  "widen_16 mode f =
     (case f of (ls, rs) \<Rightarrow>
        (case mode of
           ST_mono \<Rightarrow> (push_bit 15 (ls + rs), push_bit 15 (ls + rs))
         | ST_reverse_stereo \<Rightarrow> (push_bit 16 rs, push_bit 16 ls)
         | ST_left_only \<Rightarrow> (push_bit 16 ls, push_bit 16 ls)
         | ST_right_only \<Rightarrow> (push_bit 16 rs, push_bit 16 rs)
         | ST_stereo \<Rightarrow> (push_bit 16 ls, push_bit 16 rs)))"

definition widen_32 :: "playback_mode_type \<Rightarrow> int \<times> int \<Rightarrow> int \<times> int" where
  "widen_32 mode f =
     (case f of (ls, rs) \<Rightarrow>
        (case mode of
           ST_mono \<Rightarrow> (let both = drop_bit 1 (ls + rs) in (both, both))
         | ST_reverse_stereo \<Rightarrow> (rs, ls)
         | ST_left_only \<Rightarrow> (ls, ls)
         | ST_right_only \<Rightarrow> (rs, rs)
         | ST_stereo \<Rightarrow> (ls, rs)))"

text \<open>The samples of a frame in the ring, which are in host order.\<close>

definition int_of_bytes :: "bytes \<Rightarrow> int" where
  "int_of_bytes bs = signed_take_bit (8 * length bs - 1) (foldr (\<lambda>b n. uint b + 256 * n) bs 0)"

fun sample_frames :: "nat \<Rightarrow> bytes \<Rightarrow> nat \<Rightarrow> (int \<times> int) list option" where
  "sample_frames width data 0 = Some []"
| "sample_frames width data (Suc n) =
     do { l \<leftarrow> rd_block data 0 width;
          r \<leftarrow> rd_block data width width;
          fs \<leftarrow> sample_frames width (drop (2 * width) data) n;
          Some ((int_of_bytes l, int_of_bytes r) # fs) }"

text \<open>
  The transition buffer: every frame \<open>output_sample_ratio\<close> times. It has room for the largest packet and one source
  frame more; other depths make the thread die.
\<close>

definition transition_room :: "session \<Rightarrow> nat" where
  "transition_room ses = max_frames_per_packet (ses_conn ses) * output_sample_ratio ses + output_sample_ratio ses"

definition transition_frames :: "session_config \<Rightarrow> session \<Rightarrow> bytes \<Rightarrow> nat \<Rightarrow> int list option" where
  "transition_frames cfg ses data inbuflength =
     do { fs \<leftarrow> (if input_bit_depth ses = 16 then map_option (map (widen_16 (session_playback_mode cfg))) (sample_frames 2 data inbuflength)
                 else if input_bit_depth ses = 32 then map_option (map (widen_32 (session_playback_mode cfg))) (sample_frames 4 data inbuflength)
                 else None);
          if transition_room ses < inbuflength * output_sample_ratio ses then None
          else Some (concat (map (\<lambda>(l, r). concat (replicate (output_sample_ratio ses) [l, r])) fs)) }"

section \<open>Playing\<close>

text \<open>
  What a frame takes from outside: the clock, the answers of the device and of the conversions between
  frames and times, a random number, and the filters. A conversion without timing information leaves its result
  as it was, any number; the caller does not look at that.
\<close>

datatype delay_result = Delay int | Delay_error bool

record frame_env =
  time_now :: u64
  time_at_start :: u64
  time_at_end :: u64
  device_delay :: delay_result
  frame_due :: u32
  time_due :: u64
  rand_number :: nat
  dsp :: "int list \<Rightarrow> int list"

text \<open>
  Silence, whose memory fits. In the middle of a session the random number the silence ends with is kept.
\<close>

definition play_silence :: "session_config \<Rightarrow> nat \<Rightarrow> session \<Rightarrow> session option" where
  "play_silence cfg n ses =
     do { (out, ds) \<leftarrow> generate_zero_frames n (session_output_format cfg) (enable_dither ses) (ses_dither ses);
          if output_bytes_per_frame (session_output_format cfg) * n < length out then None
          else Some (emit (Play_untimed out (int n)) (ses\<lparr>ses_dither := ds\<rparr>)) }"

definition play_silent_packet :: "session_config \<Rightarrow> session \<Rightarrow> session option" where
  "play_silent_packet cfg ses = play_silence cfg (max_frames_per_packet (ses_conn ses) * output_sample_ratio ses) ses"

text \<open>The progress of the stream, the first time with \<open>phb0\<close>.\<close>

definition c_trunc :: "rat \<Rightarrow> int" where
  "c_trunc x = (if 0 \<le> x then \<lfloor>x\<rfloor> else \<lceil>x\<rceil>)"

definition progress_text :: "u32 \<Rightarrow> u64 \<Rightarrow> string" where
  "progress_text timestamp should_be_time = decimal (uint timestamp) @ ''/'' @ decimal (sint should_be_time)"

definition send_progress :: "session_config \<Rightarrow> frame_env \<Rightarrow> bool \<Rightarrow> u32 \<Rightarrow> session \<Rightarrow> session" where
  "send_progress cfg env first timestamp ses =
     (let hb = progress_text timestamp (time_due env);
          told = ses\<lparr>time_of_last_metadata_progress_update := time_now env\<rparr>
      in if metadata_progress_interval cfg = 0 then ses
         else if first then emit (Progress ''phbt'' hb) (emit (Progress ''phb0'' hb) told)
         else let iv = word_of_int (c_trunc (metadata_progress_interval cfg * 1000000000)) + time_of_last_metadata_progress_update ses
              in if sint (iv - time_now env) \<le> 0 then emit (Progress ''phbt'' hb) told else ses)"

text \<open>
  The samples are stuffed and played; under mute, silence of the same length instead, whose random number is not
  kept. The output buffer has the room of the transition buffer.
\<close>

definition play_frame :: "session_config \<Rightarrow> frame_env \<Rightarrow> int list \<Rightarrow> int \<Rightarrow> u32 \<Rightarrow> session \<Rightarrow> session option" where
  "play_frame cfg env tbuf amount_to_stuff timestamp ses =
     do { let inbuflength = int (length tbuf) div 2;
          let settings = \<lparr>ss_loudness = session_loudness cfg, ss_format = session_output_format cfg, ss_volume = fix_volume ses,
                          ss_dither = enable_dither ses\<rparr>;
          (out, ds, play_samples) \<leftarrow> stuff_buffer_basic_32 settings (rand_number env) tbuf inbuflength amount_to_stuff (ses_dither ses);
          let ses = ses\<lparr>ses_dither := ds, amountStuffed := play_samples - inbuflength\<rparr>;
          (out, ses) \<leftarrow>
            (if software_mute_enabled ses
             then do { (out, ds') \<leftarrow> generate_zero_frames (nat play_samples) (session_output_format cfg) (enable_dither ses) ds;
                       Some (out, ses\<lparr>ses_dither := ds'\<lparr>previous_random_number := previous_random_number ds\<rparr>\<rparr>) }
             else Some (out, ses));
          if output_bytes_per_frame (session_output_format cfg) * transition_room ses < length out then None
          else Some (emit (Play_timed out play_samples timestamp (time_due env)) ses) }"

section \<open>The error of the synchronisation\<close>

text \<open>
  The delay of the device, which is not taken below 0, and whether it is known; a device that has stalled is
  reported once.
\<close>

definition measure_delay :: "session_config \<Rightarrow> frame_env \<Rightarrow> session \<Rightarrow> u64 option \<times> session" where
  "measure_delay cfg env ses =
     (if \<not> has_delay cfg then (None, ses)
      else case device_delay env of
             Delay l_delay \<Rightarrow>
               (let current_delay = word_of_int (max 0 l_delay)
                in (Some current_delay, ses\<lparr>minimum_dac_queue_size := min current_delay (minimum_dac_queue_size ses)\<rparr>))
           | Delay_error stalled \<Rightarrow>
               (None, if stalled \<and> \<not> unfixable_error_reported ses
                      then emit Run_unfixable (ses\<lparr>unfixable_error_reported := True\<rparr>) else ses))"

text \<open>The first frame of the session: when it is early, silence makes up for it.\<close>

definition adjust_first :: "session_config \<Rightarrow> int \<Rightarrow> session \<Rightarrow> (int \<times> bool \<times> session) option" where
  "adjust_first cfg sync_error ses =
     (if at_least_one_frame_seen_this_session ses then Some (sync_error, False, ses)
      else let ses = ses\<lparr>at_least_one_frame_seen_this_session := True\<rparr>
           in if sync_error < 0 then map_option (\<lambda>ses. (0, True, ses)) (play_silence cfg (nat (- sync_error)) ses)
              else Some (sync_error, True, ses))"

definition count_out_of_bounds :: "session_config \<Rightarrow> int \<Rightarrow> u32 \<Rightarrow> session \<Rightarrow> session" where
  "count_out_of_bounds cfg sync_error timestamp ses =
     (if \<not> no_sync cfg \<and> timestamp \<noteq> 0 \<and> 0 < resync_threshold cfg \<and>
         resync_threshold cfg * of_nat (session_output_rate cfg) < of_int \<bar>sync_error\<bar>
      then ses\<lparr>sync_error_out_of_bounds := sync_error_out_of_bounds ses + 1\<rparr>
      else ses\<lparr>sync_error_out_of_bounds := 0\<rparr>)"

text \<open>Too far off for too long: late frames are flushed, early ones are put off by silence.\<close>

definition resynchronise :: "session_config \<Rightarrow> int \<Rightarrow> u32 \<Rightarrow> session \<Rightarrow> session option" where
  "resynchronise cfg sync_error timestamp ses =
     (let filler_length = c_trunc (resync_threshold cfg * of_nat (session_output_rate cfg));
          conn = ses_conn ses
      in if 0 < sync_error \<and> filler_length < sync_error
         then let source_frames_to_drop = c_div sync_error (int (output_sample_ratio ses)) +
                    c_trunc (of_int (uint (input_rate conn)) * resync_recovery_time cfg)
              in Some (ses\<lparr>ses_conn := do_flush (timestamp + word_of_int source_frames_to_drop) conn\<rparr>)
         else if sync_error < 0 \<and> filler_length < - sync_error
         then map_option (\<lambda>ses. ses\<lparr>ses_conn := reset_input_flow_metrics (ses_conn ses)\<rparr>)
                (play_silence cfg (nat (min (- sync_error) (filler_length * 5))) ses)
         else Some ses)"

text \<open>
  A frame is put in or left out when the error is above a random threshold. The arithmetic is that of
  doubles and is then truncated.
\<close>

definition stuffing_threshold :: "session_config \<Rightarrow> int \<Rightarrow> int" where
  "stuffing_threshold cfg r =
     (let limit = tolerance cfg * of_nat (session_output_rate cfg);
          s = c_trunc (of_int (drop_bit 31 r) * limit)
      in c_trunc (of_int (drop_bit 32 s) + limit))"

definition amount_for :: "int \<Rightarrow> int \<Rightarrow> int" where
  "amount_for sync_error s = (if sync_error < 0 \<and> sync_error < - s then 1 else if 0 < sync_error \<and> s < sync_error then - 1 else 0)"

text \<open>Nothing is stuffed in the first five seconds, nor without synchronisation.\<close>

definition too_soon_to_stuff :: "frame_env \<Rightarrow> rtsp_conn \<Rightarrow> bool" where
  "too_soon_to_stuff env conn \<longleftrightarrow> time_now env \<noteq> 0 \<and> first_packet_time_to_play conn \<noteq> 0 \<and>
     first_packet_time_to_play conn \<le> time_now env \<and> (time_now env - first_packet_time_to_play conn) div 1000000000 < 5"

definition amount_to_stuff :: "session_config \<Rightarrow> frame_env \<Rightarrow> int \<Rightarrow> session \<Rightarrow> int \<times> session" where
  "amount_to_stuff cfg env sync_error ses =
     (let (r, x) = r64i (ds_random (ses_dither ses));
          amount = amount_for sync_error (stuffing_threshold cfg r);
          amount = (if amount \<noteq> 0 \<and> too_soon_to_stuff env (ses_conn ses) then 0 else amount)
      in (if no_sync cfg then 0 else amount, ses\<lparr>ses_dither := (ses_dither ses)\<lparr>ds_random := x\<rparr>\<rparr>))"

section \<open>Statistics\<close>

definition forget_oldest :: "sync_stats \<Rightarrow> sync_stats" where
  "forget_oldest st =
     (let e = statistics st ! oldest_statistic st
      in st\<lparr>tsum_of_sync_errors := tsum_of_sync_errors st - stat_sync_error e,
            tsum_of_drifts := tsum_of_drifts st - stat_drift e,
            tsum_of_insertions_and_deletions :=
              (if stat_correction e > 0 then tsum_of_insertions_and_deletions st - stat_correction e
               else tsum_of_insertions_and_deletions st + stat_correction e),
            tsum_of_corrections := tsum_of_corrections st - stat_correction e,
            oldest_statistic := (oldest_statistic st + 1) mod trend_interval,
            number_of_statistics := number_of_statistics st - 1\<rparr>)"

definition add_newest :: "int \<Rightarrow> int \<Rightarrow> sync_stats \<Rightarrow> sync_stats" where
  "add_newest sync_error correction st =
     (let drift = (if number_of_statistics st = 0 then 0 else sync_error - previous_sync_error st - previous_correction st);
          e = \<lparr>stat_sync_error = sync_error, stat_correction = correction, stat_drift = drift\<rparr>
      in st\<lparr>statistics := (statistics st)[newest_statistic st := e], previous_sync_error := sync_error, previous_correction := correction,
            tsum_of_sync_errors := tsum_of_sync_errors st + sync_error, tsum_of_drifts := tsum_of_drifts st + drift,
            tsum_of_insertions_and_deletions :=
              (if correction > 0 then tsum_of_insertions_and_deletions st + correction else tsum_of_insertions_and_deletions st - correction),
            tsum_of_corrections := tsum_of_corrections st + correction,
            newest_statistic := (newest_statistic st + 1) mod trend_interval,
            number_of_statistics := number_of_statistics st + 1\<rparr>)"

definition record_stat :: "int \<Rightarrow> int \<Rightarrow> sync_stats \<Rightarrow> sync_stats" where
  "record_stat sync_error correction st =
     add_newest sync_error correction (if number_of_statistics st = trend_interval then forget_oldest st else st)"

definition note_statistics :: "session_config \<Rightarrow> int \<Rightarrow> session \<Rightarrow> session" where
  "note_statistics cfg sync_error ses =
     (if has_delay cfg
      then ses\<lparr>ses_stats := record_stat sync_error (amountStuffed ses) (ses_stats ses),
               session_corrections := session_corrections ses + amountStuffed ses\<rparr>
      else ses)"

section \<open>A frame\<close>

definition check_sequence :: "u16 \<Rightarrow> rtsp_conn \<Rightarrow> rtsp_conn" where
  "check_sequence seqno conn =
     (if last_seqno_read conn = - 1 then conn\<lparr>last_seqno_read := uint seqno\<rparr>
      else let expected = (last_seqno_read conn + 1) AND 0xFFFF
           in conn\<lparr>last_seqno_read := (if uint seqno \<noteq> expected then uint seqno else expected)\<rparr>)"

definition note_occupancy :: "session \<Rightarrow> session" where
  "note_occupancy ses =
     (let conn = ses_conn ses; bo = sint (ab_write conn - ab_read conn)
      in ses\<lparr>buffer_occupancy := bo, minimum_buffer_occupancy := min bo (minimum_buffer_occupancy ses),
             maximum_buffer_occupancy := max bo (maximum_buffer_occupancy ses)\<rparr>)"

text \<open>The extremes are started afresh when they would be printed.\<close>

definition reset_extremes :: "session \<Rightarrow> session" where
  "reset_extremes ses =
     (if play_number ses mod int trend_interval = 0
      then ses\<lparr>minimum_dac_queue_size := - 1, minimum_buffer_occupancy := 2 ^ 31 - 1, maximum_buffer_occupancy := - (2 ^ 31)\<rparr>
      else ses)"

text \<open>With a known delay; the result has the error the statistics get.\<close>

definition play_synced :: "session_config \<Rightarrow> frame_env \<Rightarrow> int list \<Rightarrow> u32 \<Rightarrow> u64 \<Rightarrow> session \<Rightarrow> (int \<times> session) option" where
  "play_synced cfg env tbuf timestamp current_delay ses =
     do { let sync_error = sint (sync_error_of (output_sample_ratio ses) (frame_due env) timestamp current_delay);
          (sync_error, first, ses) \<leftarrow> adjust_first cfg sync_error ses;
          let ses = count_out_of_bounds cfg sync_error timestamp ses;
          if sync_error_out_of_bounds ses > 3
          then map_option (Pair sync_error) (resynchronise cfg sync_error timestamp (ses\<lparr>sync_error_out_of_bounds := 0\<rparr>))
          else do { let (amount, ses) = amount_to_stuff cfg env sync_error ses;
                    ses \<leftarrow> play_frame cfg env (dsp env tbuf) amount timestamp ses;
                    Some (sync_error, send_progress cfg env first timestamp ses) } }"

definition play_unsynced :: "session_config \<Rightarrow> frame_env \<Rightarrow> int list \<Rightarrow> u32 \<Rightarrow> session \<Rightarrow> (int \<times> session) option" where
  "play_unsynced cfg env tbuf timestamp ses =
     do { let first = (\<not> at_least_one_frame_seen_this_session ses);
          ses \<leftarrow> play_frame cfg env tbuf 0 timestamp (ses\<lparr>at_least_one_frame_seen_this_session := True\<rparr>);
          Some (0, send_progress cfg env first timestamp ses) }"

definition finish_frame :: "nat \<Rightarrow> rtsp_conn \<Rightarrow> rtsp_conn" where
  "finish_frame i conn =
     conn\<lparr>audio_buffer := (audio_buffer conn)[i := (audio_buffer conn ! i)
       \<lparr>given_timestamp := 0, sequence_number := 0, resend_time := 0, initialisation_time := 0\<rparr>]\<rparr>"

definition play_packet :: "session_config \<Rightarrow> frame_env \<Rightarrow> nat \<Rightarrow> session \<Rightarrow> session option" where
  "play_packet cfg env i ses =
     do { let inframe = audio_buffer (ses_conn ses) ! i;
          depth \<leftarrow> output_bit_depth (session_output_format cfg);
          let ses = ses\<lparr>enable_dither := (software_volume cfg \<or> depth < input_bit_depth ses \<or> session_playback_mode cfg = ST_mono)\<rparr>;
          tbuf \<leftarrow> transition_frames cfg ses (frame_data inframe) (nat (frame_length inframe));
          let ses = note_occupancy (ses\<lparr>ses_conn := check_sequence (sequence_number inframe) (ses_conn ses)\<rparr>);
          let (delay, ses) = measure_delay cfg env (reset_extremes ses);
          (sync_error, ses) \<leftarrow>
            (case delay of
               Some current_delay \<Rightarrow> play_synced cfg env tbuf (given_timestamp inframe) current_delay ses
             | None \<Rightarrow> play_unsynced cfg env tbuf (given_timestamp inframe) ses);
          let ses = ses\<lparr>ses_conn := finish_frame i (ses_conn ses)\<rparr>;
          let ses = (if session_has_watchdog cfg then ses\<lparr>watchdog_bark_time := time_at_end env\<rparr> else ses);
          Some (note_statistics cfg sync_error ses) }"

text \<open>
  A turn of the loop with the slot of the frame. A timestamp of 0 stands for a packet that never came; the first
  frames after a flush are silence as well.
\<close>

definition player_turn :: "session_config \<Rightarrow> frame_env \<Rightarrow> nat \<Rightarrow> session \<Rightarrow> session option" where
  "player_turn cfg env i ses =
     do { let ses = (if play_number ses = 0 then ses\<lparr>playstart := time_at_start env\<rparr> else ses);
          let ses = ses\<lparr>play_number := play_number ses + 1,
                        ses_conn := (ses_conn ses)\<lparr>play_number_after_flush := play_number_after_flush (ses_conn ses) + 1\<rparr>\<rparr>;
          let conn = ses_conn ses;
          if given_timestamp (audio_buffer conn ! i) = 0
          then play_silent_packet cfg (ses\<lparr>ses_conn := conn\<lparr>last_seqno_read := (last_seqno_read conn + 1) AND 0xFFFF\<rparr>\<rparr>)
          else if play_number_after_flush conn < 10 then play_silent_packet cfg ses
          else play_packet cfg env i ses }"

end
