(* ===== verification/Player_Sync.thy ===== *)
theory Player_Sync
  imports Player_Session
begin

text \<open>
  The synchronisation of the player thread: the error it measures is the true one, the corrections it makes bring the
  error down to the tolerance and keep it there, and its statistics are those of the last 1,003 frames.
\<close>

section \<open>The error is the true one\<close>

definition ratio_ok :: "nat \<Rightarrow> bool" where
  "ratio_ok ratio \<longleftrightarrow> ratio = 1 \<or> ratio = 2 \<or> ratio = 4 \<or> ratio = 8"

lemma sign_bit_ratio: "ratio_ok ratio \<Longrightarrow> (2 :: int) ^ (output_rtptime_sign_bit ratio + 1) = int ratio * 2 ^ 32"
  and sign_bit_bound: "ratio_ok ratio \<Longrightarrow> output_rtptime_sign_bit ratio < 35"
  by (auto simp: ratio_ok_def output_rtptime_sign_bit_def)

lemma output_mask: "output_rtptime_mask ratio = mask (output_rtptime_sign_bit ratio + 1)"
  by (simp add: output_rtptime_mask_def mask_eq_decr_exp push_bit_eq_mult)

lemma sign_mask_bit: "x AND output_rtptime_sign_mask ratio \<noteq> 0 \<longleftrightarrow> bit x (output_rtptime_sign_bit ratio)"
  by (simp add: output_rtptime_sign_mask_def and_exp_eq_0_iff_not_bit push_bit_eq_mult)

lemma sign_extended: "(if bit x n then x OR NOT (mask (n + 1)) else x AND mask (n + 1)) = signed_take_bit n (x :: i64)"
  by (rule bit_word_eqI) (auto simp: bit_simps less_Suc_eq min_def not_le not_less le_less)

lemma sync_error_word:
  "sync_error_of ratio a b d =
     (let n = output_rtptime_sign_bit ratio
      in signed_take_bit n (ucast a * of_nat ratio - take_bit (n + 1) (ucast b * of_nat ratio - d)))"
  unfolding sync_error_of_def Let_def sign_mask_bit output_mask sign_extended by (simp only: take_bit_eq_mask)

lemma ucast_of_int: "(ucast (of_int k :: u32) :: i64) = of_int (k mod 2 ^ 32)"
  by (simp add: unsigned_of_int take_bit_eq_mod)

lemma sync_error_value:
  fixes a b d :: int
  assumes "ratio_ok ratio"
    and "- (2 ^ output_rtptime_sign_bit ratio) \<le> int ratio * (a - b) + d"
    and "int ratio * (a - b) + d < 2 ^ output_rtptime_sign_bit ratio"
  shows "sint (sync_error_of ratio (of_int a) (of_int b) (of_int d)) = int ratio * (a - b) + d"
proof -
  define n where "n = output_rtptime_sign_bit ratio"
  let ?e = "int ratio * (a - b) + d"
  let ?k = "(a mod 2 ^ 32) * int ratio - take_bit (n + 1) ((b mod 2 ^ 32) * int ratio - d)"
  have n: "n < 35" "(2 :: int) ^ (n + 1) = int ratio * 2 ^ 32"
    using sign_bit_bound [OF assms(1)] sign_bit_ratio [OF assms(1)] by (simp_all only: n_def)
  have i: "(of_int x :: i64) * of_nat ratio = of_int (x * int ratio)" for x by simp
  have w: "sync_error_of ratio (of_int a) (of_int b) (of_int d) = signed_take_bit n (of_int ?k)"
    unfolding sync_error_word Let_def n_def [symmetric] ucast_of_int i of_int_diff [symmetric] take_bit_of_int ..
  have m: "x * int ratio mod 2 ^ (n + 1) = (x mod 2 ^ 32) * int ratio" for x :: int
    unfolding n(2) by (metis mult.commute mult_mod_right)
  have "take_bit (n + 1) ?k = take_bit (n + 1) ?e"
  proof -
    have "?k mod 2 ^ (n + 1) = (a * int ratio mod 2 ^ (n + 1) - (b * int ratio mod 2 ^ (n + 1) - d) mod 2 ^ (n + 1)) mod 2 ^ (n + 1)"
      unfolding take_bit_eq_mod m by simp
    also have "\<dots> = (a * int ratio - (b * int ratio - d)) mod 2 ^ (n + 1)" by (simp add: mod_simps)
    also have "a * int ratio - (b * int ratio - d) = ?e" by (simp add: algebra_simps)
    finally show ?thesis by (simp only: take_bit_eq_mod)
  qed
  then have "signed_take_bit n ?k = signed_take_bit n ?e"
    by (simp add: signed_take_bit_eq_iff_take_bit_eq)
  also have "\<dots> = ?e" using assms(2,3) by (simp add: signed_take_bit_int_eq_self n_def)
  finally have k: "signed_take_bit n ?k = ?e" .
  have "(2 :: int) ^ n \<le> 2 ^ 34" using n(1) by (intro power_increasing) simp_all
  then have "- (2 ^ 63) \<le> ?e" "?e < 2 ^ 63" using assms(2,3) by (simp_all add: n_def)
  moreover have "sint (of_int x :: i64) = x" if "- (2 ^ 63) \<le> x" "x < 2 ^ 63" for x
    using that by (simp add: signed_of_int signed_take_bit_int_eq_self)
  ultimately show ?thesis unfolding w signed_take_bit_of_int k by blast
qed

section \<open>The threshold\<close>

lemma c_trunc_floor: "0 \<le> x \<Longrightarrow> c_trunc x = \<lfloor>x\<rfloor>"
  by (simp add: c_trunc_def)

definition stuff_limit :: "session_config \<Rightarrow> rat" where
  "stuff_limit cfg = tolerance cfg * of_nat (session_output_rate cfg)"

text \<open>The threshold lies between the tolerance and twice the tolerance.\<close>

lemma threshold_range:
  assumes "0 \<le> tolerance cfg" and "0 \<le> r" and "r < 2 ^ 63"
  shows "\<lfloor>stuff_limit cfg\<rfloor> \<le> stuffing_threshold cfg r" and "stuffing_threshold cfg r \<le> \<lfloor>2 * stuff_limit cfg\<rfloor>"
proof -
  let ?l = "stuff_limit cfg" and ?m = "drop_bit 31 r"
  have l: "0 \<le> ?l" using assms(1) by (simp add: stuff_limit_def)
  have m: "0 \<le> ?m" "?m < 2 ^ 32" using assms(2,3) by (auto simp: drop_bit_eq_div intro: zdiv_less_of_mult)
  let ?s = "\<lfloor>of_int ?m * ?l\<rfloor>"
  have p: "0 \<le> of_int ?m * ?l" using m(1) l by simp
  have s0: "0 \<le> ?s" using p by simp
  have d: "drop_bit 32 ?s = ?s div 2 ^ 32" by (simp add: drop_bit_eq_div)
  have q0: "0 \<le> ?s div 2 ^ 32" using s0 by (simp add: pos_imp_zdiv_nonneg_iff)
  have "of_int (?s div 2 ^ 32) * (2 ^ 32 :: rat) \<le> of_int ?s"
  proof -
    have "?s div 2 ^ 32 * 2 ^ 32 \<le> ?s" 
      using div_mult_mod_eq [of ?s "2 ^ 32"] pos_mod_sign [of "2 ^ 32" ?s, OF zero_less_power [OF zero_less_numeral]] by linarith
    then have "of_int (?s div 2 ^ 32 * 2 ^ 32) \<le> (of_int ?s :: rat)" by (rule of_int_le_iff [THEN iffD2])
    then show ?thesis by simp
  qed
  also have "of_int ?s \<le> of_int ?m * ?l" by (rule of_int_floor_le)
  also have "\<dots> \<le> 2 ^ 32 * ?l"
  proof -
    have "of_int ?m \<le> (of_int (2 ^ 32) :: rat)" using m(2) by (simp only: of_int_le_iff)
    then show ?thesis using l by (intro mult_right_mono) simp_all
  qed
  finally have q1: "of_int (?s div 2 ^ 32) \<le> ?l" by simp
  have t: "stuffing_threshold cfg r = \<lfloor>of_int (?s div 2 ^ 32) + ?l\<rfloor>"
    using p q0 l d by (simp add: stuffing_threshold_def Let_def stuff_limit_def [symmetric] c_trunc_floor)
  show "\<lfloor>?l\<rfloor> \<le> stuffing_threshold cfg r" unfolding t using q0 by simp
  show "stuffing_threshold cfg r \<le> \<lfloor>2 * ?l\<rfloor>" unfolding t using q1 by (intro floor_mono) simp
qed

section \<open>The statistics are those of the last frames\<close>

text \<open>The entries of a sequence of errors and corrections.\<close>

fun entries_from :: "int option \<Rightarrow> (int \<times> int) list \<Rightarrow> stat_entry list" where
  "entries_from expected [] = []"
| "entries_from expected ((e, c) # es) =
     \<lparr>stat_sync_error = e, stat_correction = c, stat_drift = (case expected of None \<Rightarrow> 0 | Some x \<Rightarrow> e - x)\<rparr> # entries_from (Some (e + c)) es"

definition recent :: "'a list \<Rightarrow> 'a list" where
  "recent xs = drop (length xs - trend_interval) xs"

definition sums_are :: "sync_stats \<Rightarrow> stat_entry list \<Rightarrow> bool" where
  "sums_are st w \<longleftrightarrow> number_of_statistics st = length w \<and> tsum_of_sync_errors st = sum_list (map stat_sync_error w) \<and>
     tsum_of_corrections st = sum_list (map stat_correction w) \<and>
     tsum_of_insertions_and_deletions st = sum_list (map (\<lambda>e. \<bar>stat_correction e\<bar>) w) \<and>
     tsum_of_drifts st = sum_list (map stat_drift w)"

definition window :: "sync_stats \<Rightarrow> stat_entry list \<Rightarrow> bool" where
  "window st w \<longleftrightarrow> sums_are st w \<and> length w \<le> trend_interval \<and> length (statistics st) = trend_interval \<and>
     newest_statistic st = (oldest_statistic st + length w) mod trend_interval \<and> oldest_statistic st < trend_interval \<and>
     (\<forall>i<length w. statistics st ! ((oldest_statistic st + i) mod trend_interval) = w ! i)"

lemma trend_pos [simp]: "0 < trend_interval"
  by (simp add: trend_interval_def)

lemma window_forget:
  assumes "window st (e # w)"
  shows "window (forget_oldest st) w"
proof -
  have f: "statistics st ! oldest_statistic st = e" and o: "oldest_statistic st < trend_interval"
    using assms by (auto simp: window_def)
  have s: "statistics st ! (((oldest_statistic st + 1) mod trend_interval + i) mod trend_interval) = w ! i" if "i < length w" for i
  proof -
    have "statistics st ! ((oldest_statistic st + Suc i) mod trend_interval) = (e # w) ! Suc i"
      using assms that unfolding window_def by (metis Suc_less_eq length_Cons)
    moreover have "((oldest_statistic st + 1) mod trend_interval + i) mod trend_interval = (oldest_statistic st + Suc i) mod trend_interval"
      by (simp add: mod_simps)
    ultimately show ?thesis by simp
  qed
  have n: "((oldest_statistic st + 1) mod trend_interval + length w) mod trend_interval = (oldest_statistic st + Suc (length w)) mod trend_interval"
    by (simp add: mod_simps)
  show ?thesis
    using assms s n by (simp add: window_def sums_are_def forget_oldest_def Let_def f)
qed

lemma mod_plus_inj:
  assumes "(a + i) mod m = (a + j) mod m" and "i < m" and "j < (m :: nat)"
  shows "i = j"
proof -
  have "(int a + int i) mod int m = (int a + int j) mod int m" using assms(1) by (simp flip: of_nat_add of_nat_mod)
  then have "int m dvd int i - int j" by (simp add: mod_eq_dvd_iff)
  moreover have "\<bar>int i - int j\<bar> < int m" using assms(2,3) by linarith
  ultimately have "int i - int j = 0" using dvd_imp_le_int [of "int i - int j" "int m"] by linarith
  then show ?thesis by simp
qed

lemma window_add:
  assumes "window st w" and "length w < trend_interval"
    and "entry = \<lparr>stat_sync_error = e, stat_correction = c,
      stat_drift = (if w = [] then 0 else e - previous_sync_error st - previous_correction st)\<rparr>"
  shows "window (add_newest e c st) (w @ [entry])"
proof -
  have n: "number_of_statistics st = 0 \<longleftrightarrow> w = []" using assms(1) by (auto simp: window_def sums_are_def)
  let ?o = "oldest_statistic st"
  have s: "((statistics st)[newest_statistic st := entry]) ! ((?o + i) mod trend_interval) = (w @ [entry]) ! i" if "i < Suc (length w)" for i
  proof (cases "i = length w")
    case True
    then show ?thesis using assms(1) by (simp add: window_def)
  next
    case False
    then have "i < length w" using that by simp
    then have "newest_statistic st \<noteq> (?o + i) mod trend_interval"
      using assms(1,2) mod_plus_inj [of ?o "length w" trend_interval i] by (auto simp: window_def)
    then show ?thesis using assms(1) \<open>i < length w\<close> by (simp add: window_def nth_append)
  qed
  have m: "((?o + length w) mod trend_interval + 1) mod trend_interval = (?o + Suc (length w)) mod trend_interval" by (simp add: mod_simps)
  show ?thesis
    using assms s m
    by (simp add: window_def sums_are_def add_newest_def Let_def n)
qed

lemma recent_snoc:
  "recent (xs @ [x]) = (if length (recent xs) = trend_interval then tl (recent xs) else recent xs) @ [x]"
  using trend_pos by (auto simp: recent_def tl_drop Suc_diff_le drop_Suc simp del: trend_pos)

lemma entries_snoc:
  "entries_from x (es @ [(e, c)]) = entries_from x es @
     [\<lparr>stat_sync_error = e, stat_correction = c,
       stat_drift = (case (if es = [] then x else Some (fst (last es) + snd (last es))) of None \<Rightarrow> 0 | Some y \<Rightarrow> e - y)\<rparr>]"
  by (induction x es rule: entries_from.induct) auto

lemma entries_empty [simp]: "entries_from x es = [] \<longleftrightarrow> es = []"
  by (cases "(x, es)" rule: entries_from.cases) auto

lemma recent_empty [simp]: "recent xs = [] \<longleftrightarrow> xs = []"
  by (cases xs) (auto simp: recent_def trend_interval_def)

lemma stats_window:
  "window (foldl (\<lambda>st (e, c). record_stat e c st) no_stats es) (recent (entries_from None es)) \<and>
   (es \<noteq> [] \<longrightarrow> previous_sync_error (foldl (\<lambda>st (e, c). record_stat e c st) no_stats es) = fst (last es) \<and>
     previous_correction (foldl (\<lambda>st (e, c). record_stat e c st) no_stats es) = snd (last es))"
proof (induction es rule: rev_induct)
  case Nil
  show ?case by (simp add: window_def sums_are_def no_stats_def recent_def)
next
  case (snoc p es)
  obtain e c where p: "p = (e, c)" by (cases p)
  let ?st = "foldl (\<lambda>st (e, c). record_stat e c st) no_stats es" and ?w = "recent (entries_from None es)"
  define st1 where "st1 = (if number_of_statistics ?st = trend_interval then forget_oldest ?st else ?st)"
  define w1 where "w1 = (if length ?w = trend_interval then tl ?w else ?w)"
  have w: "window ?st ?w" using snoc.IH by blast
  have num: "number_of_statistics ?st = length ?w" using w by (simp add: window_def sums_are_def)
  have st1: "window st1 w1" "length w1 < trend_interval"
  proof -
    show "window st1 w1"
    proof (cases "length ?w = trend_interval")
      case True
      then obtain x xs where "?w = x # xs" using trend_pos by (metis length_0_conv less_numeral_extra(3) neq_Nil_conv)
      then show ?thesis using window_forget [of ?st x xs] w True num by (simp add: st1_def w1_def)
    qed (use w num in \<open>simp add: st1_def w1_def\<close>)
    show "length w1 < trend_interval" using w by (auto simp: w1_def window_def)
  qed
  have one: "w1 = [] \<longleftrightarrow> es = []"
  proof
    assume "w1 = []"
    then have "length ?w = 0 \<or> length ?w = trend_interval \<and> length ?w \<le> 1" by (cases ?w) (auto simp: w1_def split: if_splits)
    then have "length ?w = 0" unfolding trend_interval_def by linarith
    then show "es = []" by simp
  qed (simp add: w1_def recent_def)
  have prev: "previous_sync_error st1 = previous_sync_error ?st" "previous_correction st1 = previous_correction ?st"
    by (simp_all add: st1_def forget_oldest_def Let_def)
  have "recent (entries_from None (es @ [p])) = w1 @ [\<lparr>stat_sync_error = e, stat_correction = c,
      stat_drift = (if w1 = [] then 0 else e - previous_sync_error st1 - previous_correction st1)\<rparr>]"
    unfolding p entries_snoc recent_snoc w1_def [symmetric] one prev using snoc.IH by auto
  then have "window (add_newest e c st1) (recent (entries_from None (es @ [p])))"
    using window_add [OF st1 refl, of e c] by simp
  moreover have "foldl (\<lambda>st (e, c). record_stat e c st) no_stats (es @ [p]) = add_newest e c st1"
    by (simp add: p record_stat_def st1_def)
  ultimately show ?case by (simp add: p add_newest_def Let_def)
qed

text \<open>
  Over every sequence of sync errors and corrections the running sums are exactly those of the last 1,003 of
  them: of the errors, the corrections, the corrections without their signs, and the drifts, where the drift of
  a frame is what its error differs from the error and the correction before it.
\<close>
lemma sums_of_recent_frames:
  "sums_are (foldl (\<lambda>st (e, c). record_stat e c st) no_stats es) (recent (entries_from None es))"
  using stats_window [of es] by (simp add: window_def)

end
