(* ===== verification/Player_Convergence.thy ===== *)
theory Player_Convergence
  imports Player_Sync
begin

text \<open>
  The player thread in a loop with the device: the source's clock and the device's run at their own speeds, and the frames
  that the thread puts in or leaves out bring the error down to the tolerance and hold it there.
\<close>

section \<open>The loop\<close>

text \<open>
  Outside the thread: the source frame that is due at the device, and the frames in the device's queue.
  In a round the receiver and \<open>buffer_get_frame\<close> have left the connection in some state with a frame in a slot, the
  thread plays it, and some time passes, in which the source goes on by \<open>elapsed\<close> frames and the device plays
  \<open>consumed\<close> frames.
\<close>

record world =
  due :: int
  queue :: int

record sync_round =
  arrived :: rtsp_conn
  slot_of :: nat
  elapsed :: int
  consumed :: int
  round_time :: u64
  round_due :: u64
  round_rand :: nat
  round_dsp :: "int list \<Rightarrow> int list"

definition env_of :: "world \<Rightarrow> sync_round \<Rightarrow> frame_env" where
  "env_of w r = \<lparr>time_now = round_time r, time_at_start = round_time r, time_at_end = round_time r, device_delay = Delay (queue w),
     frame_due = of_int (due w), time_due = round_due r, rand_number = round_rand r, dsp = round_dsp r\<rparr>"

fun frames_played :: "session_event list \<Rightarrow> int" where
  "frames_played [] = 0"
| "frames_played (Play_untimed out n # es) = n + frames_played es"
| "frames_played (Play_timed out n timestamp time # es) = n + frames_played es"
| "frames_played (e # es) = frames_played es"

definition round_step :: "session_config \<Rightarrow> sync_round \<Rightarrow> world \<times> session \<Rightarrow> (world \<times> session) option" where
  "round_step cfg r ws =
     (case ws of (w, ses) \<Rightarrow>
        map_option
          (\<lambda>ses'. (\<lparr>due = due w + elapsed r,
                    queue = queue w + (frames_played (ses_events ses') - frames_played (ses_events ses)) - consumed r\<rparr>, ses'))
          (player_turn cfg (env_of w r) (slot_of r) (ses\<lparr>ses_conn := arrived r\<rparr>)))"

fun sync_run :: "session_config \<Rightarrow> sync_round list \<Rightarrow> world \<times> session \<Rightarrow> (world \<times> session) option" where
  "sync_run cfg [] ws = Some ws"
| "sync_run cfg (r # rs) ws = do { ws \<leftarrow> round_step cfg r ws; sync_run cfg rs ws }"

text \<open>How much later than it should the next frame, with timestamp \<open>t\<close>, would be heard.\<close>

definition lateness :: "nat \<Rightarrow> world \<Rightarrow> int \<Rightarrow> int" where
  "lateness ratio w t = int ratio * (due w - t) + queue w"

section \<open>What is asked of it\<close>

definition session_ready :: "session_config \<Rightarrow> session \<Rightarrow> bool" where
  "session_ready cfg ses \<longleftrightarrow> has_delay cfg \<and> \<not> no_sync cfg \<and> 0 \<le> tolerance cfg \<and>
     output_bit_depth (session_output_format cfg) \<noteq> None \<and> ratio_ok (output_sample_ratio ses) \<and>
     (input_bit_depth ses = 16 \<or> input_bit_depth ses = 32) \<and> 0 \<le> fix_volume ses \<and> fix_volume ses \<le> 65536 \<and>
     at_least_one_frame_seen_this_session ses \<and> \<not> software_mute_enabled ses \<and> sync_error_out_of_bounds ses = 0"

definition round_ready :: "nat \<Rightarrow> nat \<Rightarrow> int \<Rightarrow> sync_round \<Rightarrow> bool" where
  "round_ready depth L t r \<longleftrightarrow>
     (let a = audio_buffer (arrived r) ! slot_of r
      in given_timestamp a = of_int t \<and> (of_int t :: u32) \<noteq> 0 \<and> frame_length a = int L \<and>
         length (frame_data a) = depth div 4 * L \<and> L \<le> max_frames_per_packet (arrived r) \<and>
         9 \<le> play_number_after_flush (arrived r) \<and>
         (first_packet_time_to_play (arrived r) = 0 \<or>
          first_packet_time_to_play (arrived r) \<le> round_time r \<and> 5 \<le> (round_time r - first_packet_time_to_play (arrived r)) div 1000000000) \<and>
         (\<forall>ss. (\<forall>s\<in>set ss. int32 s) \<longrightarrow> length (round_dsp r ss) = length ss \<and> (\<forall>s\<in>set (round_dsp r ss). int32 s)))"

section \<open>Samples are 32 bits wide\<close>

lemma int_of_bytes_range:
  assumes "bs \<noteq> []"
  shows "- (2 ^ (8 * length bs - 1)) \<le> int_of_bytes bs" and "int_of_bytes bs < 2 ^ (8 * length bs - 1)"
  by (simp_all add: int_of_bytes_def signed_take_bit_int_greater_eq_minus_exp signed_take_bit_int_less_exp)

lemma sample_frames_total:
  assumes "length data = 2 * width * n" and "0 < width"
  shows "\<exists>fs. sample_frames width data n = Some fs \<and> length fs = n \<and>
     (\<forall>(l, r)\<in>set fs. - (2 ^ (8 * width - 1)) \<le> l \<and> l < 2 ^ (8 * width - 1) \<and> - (2 ^ (8 * width - 1)) \<le> r \<and> r < 2 ^ (8 * width - 1))"
  using assms(1)
proof (induction n arbitrary: data)
  case (Suc n)
  have l: "length data = width + (width + 2 * width * n)" using Suc.prems by (simp add: algebra_simps)
  then have r: "rd_block data 0 width = Some (take width data)" "rd_block data width width = Some (take width (drop width data))"
    by (simp_all add: rd_block_def)
  have w: "length (take width data) = width" "length (take width (drop width data)) = width" using l by simp_all
  then have ne: "take width data \<noteq> []" "take width (drop width data) \<noteq> []" using assms(2) by auto
  obtain fs where fs: "sample_frames width (drop (2 * width) data) n = Some fs" "length fs = n"
    "\<forall>(l, r)\<in>set fs. - (2 ^ (8 * width - 1)) \<le> l \<and> l < 2 ^ (8 * width - 1) \<and> - (2 ^ (8 * width - 1)) \<le> r \<and> r < 2 ^ (8 * width - 1)"
    using Suc.IH [of "drop (2 * width) data"] l by auto
  show ?case
    using fs r int_of_bytes_range [OF ne(1)] int_of_bytes_range [OF ne(2)] unfolding w by auto
qed simp

lemma widen_16_range:
  assumes "- (2 ^ 15) \<le> l" and "l < 2 ^ 15" and "- (2 ^ 15) \<le> r" and "r < 2 ^ 15"
  shows "int32 (fst (widen_16 mode (l, r)))" and "int32 (snd (widen_16 mode (l, r)))"
  using assms by (cases mode; simp add: widen_16_def int32_def push_bit_eq_mult)+

lemma half_of_sum: "2 * ((l + r) div 2) \<le> l + r" "l + r \<le> 2 * ((l + r) div 2) + 1" for l r :: int
  by presburger+

lemma widen_32_range:
  assumes "- (2 ^ 31) \<le> l" and "l < 2 ^ 31" and "- (2 ^ 31) \<le> r" and "r < 2 ^ 31"
  shows "int32 (fst (widen_32 mode (l, r))) \<and> int32 (snd (widen_32 mode (l, r)))"
proof -
  have "int32 ((l + r) div 2)" using half_of_sum [of l r] assms unfolding int32_def by linarith
  then show ?thesis using assms by (cases mode) (simp_all add: widen_32_def int32_def drop_bit_eq_div Let_def)
qed

lemma length_frames: "length (concat (map (\<lambda>(l, r). concat (replicate k [l, r])) fs)) = 2 * k * length fs"
  by (induction fs) (auto simp: length_concat sum_list_replicate)

lemma set_replicated: "set (concat (replicate k xs)) \<subseteq> set xs"
  by (cases "k = 0") auto

lemma samples_ok:
  "\<forall>x\<in>set fs. int32 (fst (f x)) \<and> int32 (snd (f x)) \<Longrightarrow>
   \<forall>s\<in>set (concat (map (\<lambda>(l, r). concat (replicate k [l, r])) (map f fs))). int32 s"
proof (induction fs)
  case (Cons x fs)
  obtain l r where f: "f x = (l, r)" by (cases "f x")
  show ?case using Cons set_replicated [of k "[l, r]"] by (auto simp: f)
qed simp

lemma transition_total:
  assumes "session_ready cfg ses" and "length data = input_bit_depth ses div 4 * L" and "L \<le> max_frames_per_packet (ses_conn ses)"
  shows "\<exists>tbuf. transition_frames cfg ses data L = Some tbuf \<and> length tbuf = 2 * (output_sample_ratio ses * L) \<and> (\<forall>s\<in>set tbuf. int32 s)"
proof -
  let ?k = "output_sample_ratio ses" and ?mode = "session_playback_mode cfg"
  have room: "\<not> transition_room ses < L * ?k" using assms(3) by (simp add: transition_room_def not_less trans_le_add1)
  have out: "length (concat (map (\<lambda>(l, r). concat (replicate ?k [l, r])) (map f fs))) = 2 * (?k * L) \<and>
      (\<forall>s\<in>set (concat (map (\<lambda>(l, r). concat (replicate ?k [l, r])) (map f fs))). int32 s)"
    if "length fs = L" "\<forall>x\<in>set fs. int32 (fst (f x)) \<and> int32 (snd (f x))" for f fs
    using that length_frames [of ?k "map f fs"] samples_ok [of fs f ?k] by simp
  consider "input_bit_depth ses = 16" | "input_bit_depth ses = 32" using assms(1) by (auto simp: session_ready_def)
  then show ?thesis
  proof cases
    case 1
    obtain fs where fs: "sample_frames 2 data L = Some fs" "length fs = L"
      "\<forall>(l, r)\<in>set fs. - (2 ^ 15) \<le> l \<and> l < 2 ^ 15 \<and> - (2 ^ 15) \<le> r \<and> r < 2 ^ 15"
      using sample_frames_total [of data 2 L] assms(2) 1 by auto
    then have "\<forall>x\<in>set fs. int32 (fst (widen_16 ?mode x)) \<and> int32 (snd (widen_16 ?mode x))"
      using widen_16_range [of _ _ ?mode] by fastforce
    note o = out [OF fs(2) this]
    have "transition_frames cfg ses data L = Some (concat (map (\<lambda>(l, r). concat (replicate ?k [l, r])) (map (widen_16 ?mode) fs)))"
      using fs(1) room 1 by (simp add: transition_frames_def del: map_map)
    then show ?thesis using o by blast
  next
    case 2
    obtain fs where fs: "sample_frames 4 data L = Some fs" "length fs = L"
      "\<forall>(l, r)\<in>set fs. - (2 ^ 31) \<le> l \<and> l < 2 ^ 31 \<and> - (2 ^ 31) \<le> r \<and> r < 2 ^ 31"
      using sample_frames_total [of data 4 L] assms(2) 2 by auto
    then have "\<forall>x\<in>set fs. int32 (fst (widen_32 ?mode x)) \<and> int32 (snd (widen_32 ?mode x))"
      using widen_32_range [of _ _ ?mode] by fastforce
    note o = out [OF fs(2) this]
    have "transition_frames cfg ses data L = Some (concat (map (\<lambda>(l, r). concat (replicate ?k [l, r])) (map (widen_32 ?mode) fs)))"
      using fs(1) room 2 by (simp add: transition_frames_def del: map_map)
    then show ?thesis using o by blast
  qed
qed

section \<open>A frame is played\<close>

lemma depth_bits: "output_bit_depth format = Some depth \<Longrightarrow> format_bits format \<noteq> None"
  by (cases format) (simp_all add: output_bit_depth_def)

lemma sample_fits: "output_bit_depth format \<noteq> None \<Longrightarrow> 2 * sample_size format \<le> output_bytes_per_frame format"
  by (cases format) (simp_all add: output_bit_depth_def sample_size_def output_bytes_per_frame_def)

lemma stuffing_total:
  assumes "length ss = 2 * n" and "100 \<le> n" and "stuff \<in> {- 1, 0, 1}" and "settings_ok cfg" and "\<forall>s\<in>set ss. int32 s"
  shows "\<exists>out ds'. stuff_buffer_basic_32 cfg rnd ss (int n) stuff ds = Some (out, ds', int n + stuff) \<and>
     length out = 2 * nat (int n + stuff) * sample_size (ss_format cfg)"
proof -
  define k where "k = rnd mod (n - 2) + 1"
  have "rnd mod (n - 2) < n - 2" using assms(2) by (intro mod_less_divisor) auto
  then have k: "1 \<le> k" "k + 1 < n" by (simp_all add: k_def)
  obtain out ds' where "process_samples cfg (stuffed stuff k ss) ds = Some (out, ds')"
    "length out = length (stuffed stuff k ss) * sample_size (ss_format cfg)"
    using process_samples_total [OF assms(4) int32_stuffed [OF assms(1) k(2,1) assms(5)]] by blast
  then show ?thesis
    using stuff_buffer_stuffed [OF assms(1-3) k_def, of cfg ds] length_stuffed [OF assms(1) k(2) assms(3)] by simp
qed

text \<open>What a frame leaves as it was.\<close>

definition steady :: "session \<Rightarrow> session \<Rightarrow> bool" where
  "steady ses ses' \<longleftrightarrow> output_sample_ratio ses' = output_sample_ratio ses \<and> input_bit_depth ses' = input_bit_depth ses \<and>
     fix_volume ses' = fix_volume ses \<and> software_mute_enabled ses' = software_mute_enabled ses \<and>
     at_least_one_frame_seen_this_session ses' = at_least_one_frame_seen_this_session ses \<and>
     sync_error_out_of_bounds ses' = sync_error_out_of_bounds ses"

lemma frames_played_append [simp]: "frames_played (es @ es') = frames_played es + frames_played es'"
  by (induction es rule: frames_played.induct) simp_all

lemma play_frame_total:
  assumes "session_ready cfg ses" and "length tbuf = 2 * (output_sample_ratio ses * L)" and "\<forall>s\<in>set tbuf. int32 s"
    and "100 \<le> output_sample_ratio ses * L" and "L \<le> max_frames_per_packet (ses_conn ses)" and "stuff \<in> {- 1, 0, 1}"
  shows "\<exists>ses'. play_frame cfg env tbuf stuff timestamp ses = Some ses' \<and> steady ses ses' \<and> amountStuffed ses' = stuff \<and>
     ses_stats ses' = ses_stats ses \<and>
     frames_played (ses_events ses') = frames_played (ses_events ses) + int (output_sample_ratio ses * L) + stuff"
proof -
  let ?n = "output_sample_ratio ses * L"
  let ?s = "\<lparr>ss_loudness = session_loudness cfg, ss_format = session_output_format cfg, ss_volume = fix_volume ses, ss_dither = enable_dither ses\<rparr>"
  obtain depth where d: "output_bit_depth (session_output_format cfg) = Some depth" using assms(1) by (auto simp: session_ready_def)
  have ok: "settings_ok ?s" using assms(1) depth_bits [OF d] by (simp add: settings_ok_def session_ready_def)
  obtain out ds where s: "stuff_buffer_basic_32 ?s (rand_number env) tbuf (int ?n) stuff (ses_dither ses) = Some (out, ds, int ?n + stuff)"
    "length out = 2 * nat (int ?n + stuff) * sample_size (session_output_format cfg)"
    using stuffing_total [OF assms(2,4,6) ok assms(3), of "rand_number env" "ses_dither ses"] by (elim exE conjE) (rule that, simp_all)
  have r: "1 \<le> output_sample_ratio ses" using assms(1) by (auto simp: session_ready_def ratio_ok_def)
  have "nat (int m + stuff) \<le> m + 1" for m using assms(6) by auto
  then have "nat (int ?n + stuff) \<le> ?n + 1" .
  also have "\<dots> \<le> transition_room ses"
    unfolding transition_room_def mult.commute [of "max_frames_per_packet (ses_conn ses)"]
    using r mult_le_mono2 [OF assms(5), of "output_sample_ratio ses"] by linarith
  finally have "nat (int ?n + stuff) * (2 * sample_size (session_output_format cfg)) \<le> transition_room ses * output_bytes_per_frame (session_output_format cfg)"
    using sample_fits [of "session_output_format cfg"] d by (intro mult_le_mono) simp_all
  then have "\<not> output_bytes_per_frame (session_output_format cfg) * transition_room ses < length out"
    using s(2) by (simp add: mult.commute mult.left_commute not_less)
  then show ?thesis
    using s(1) assms(1,2)
    by (simp add: play_frame_def Let_def emit_def session_ready_def steady_def transition_room_def)
qed

lemma send_progress_steady:
  "steady ses (send_progress cfg env first timestamp ses)"
  "frames_played (ses_events (send_progress cfg env first timestamp ses)) = frames_played (ses_events ses)"
  by (simp_all add: send_progress_def Let_def emit_def steady_def)

section \<open>A round\<close>

definition in_bounds :: "session_config \<Rightarrow> int \<Rightarrow> bool" where
  "in_bounds cfg e \<longleftrightarrow> \<bar>e\<bar> < 2 ^ 31 \<and> (0 < resync_threshold cfg \<longrightarrow> of_int \<bar>e\<bar> \<le> resync_threshold cfg * of_nat (session_output_rate cfg))"

definition stuffing_bound :: "session_config \<Rightarrow> int" where
  "stuffing_bound cfg = \<lfloor>2 * stuff_limit cfg\<rfloor>"

text \<open>The correction opposes the error, and is made when the error is above the bound.\<close>

definition correction_ok :: "session_config \<Rightarrow> int \<Rightarrow> int \<Rightarrow> bool" where
  "correction_ok cfg e c \<longleftrightarrow> c \<in> {- 1, 0, 1} \<and> (c \<noteq> 0 \<longrightarrow> c = - sgn e) \<and> (stuffing_bound cfg < \<bar>e\<bar> \<longrightarrow> c \<noteq> 0)"

lemma amount_ok:
  assumes "session_ready cfg ses" and "\<not> too_soon_to_stuff env (ses_conn ses)" and "amount_to_stuff cfg env e ses = (c, ses')"
  shows "correction_ok cfg e c" and "steady ses ses'" and "ses_events ses' = ses_events ses" and "ses_conn ses' = ses_conn ses"
    and "ses_stats ses' = ses_stats ses"
proof -
  obtain r x where r: "r64i (ds_random (ses_dither ses)) = (r, x)" by fastforce
  have rr: "0 \<le> r" "r < 2 ^ 63" using r64i_range [of "ds_random (ses_dither ses)"] r by simp_all
  have ready: "\<not> no_sync cfg" "0 \<le> tolerance cfg" using assms(1) by (simp_all add: session_ready_def)
  have c: "c = amount_for e (stuffing_threshold cfg r)" and s: "ses' = ses\<lparr>ses_dither := (ses_dither ses)\<lparr>ds_random := x\<rparr>\<rparr>"
    using assms(2,3) ready(1) by (auto simp: amount_to_stuff_def r)
  have "0 \<le> \<lfloor>stuff_limit cfg\<rfloor>" using ready(2) by (simp add: stuff_limit_def)
  then show "correction_ok cfg e c"
    using threshold_range [OF ready(2) rr] unfolding c by (auto simp: amount_for_def correction_ok_def stuffing_bound_def sgn_if)
  show "steady ses ses'" "ses_events ses' = ses_events ses" "ses_conn ses' = ses_conn ses" "ses_stats ses' = ses_stats ses"
    by (simp_all add: s steady_def)
qed

lemma steady_trans: "steady a b \<Longrightarrow> steady b c \<Longrightarrow> steady a c"
  by (simp add: steady_def)

lemma steady_ready: "session_ready cfg a \<Longrightarrow> steady a b \<Longrightarrow> session_ready cfg b"
  by (simp add: session_ready_def steady_def)

lemma synced_frame:
  assumes "session_ready cfg ses" and "length tbuf = 2 * (output_sample_ratio ses * L)" and "\<forall>s\<in>set tbuf. int32 s"
    and "100 \<le> output_sample_ratio ses * L" and "L \<le> max_frames_per_packet (ses_conn ses)"
    and "\<not> too_soon_to_stuff env (ses_conn ses)"
    and "\<forall>ss. (\<forall>s\<in>set ss. int32 s) \<longrightarrow> length (dsp env ss) = length ss \<and> (\<forall>s\<in>set (dsp env ss). int32 s)"
    and "e = sint (sync_error_of (output_sample_ratio ses) (frame_due env) timestamp delay)" and "in_bounds cfg e"
  shows "\<exists>ses' c. play_synced cfg env tbuf timestamp delay ses = Some (e, ses') \<and> steady ses ses' \<and> correction_ok cfg e c \<and>
     frames_played (ses_events ses') = frames_played (ses_events ses) + int (output_sample_ratio ses * L) + c"
proof -
  have seen: "at_least_one_frame_seen_this_session ses" "sync_error_out_of_bounds ses = 0"
    using assms(1) by (simp_all add: session_ready_def)
  have "count_out_of_bounds cfg e timestamp ses = ses\<lparr>sync_error_out_of_bounds := 0\<rparr>"
    using assms(9) by (auto simp: count_out_of_bounds_def in_bounds_def)
  then have count: "count_out_of_bounds cfg e timestamp ses = ses" using seen(2) by simp
  obtain c ses1 where a: "amount_to_stuff cfg env e ses = (c, ses1)" by fastforce
  note am = amount_ok [OF assms(1,6) a]
  have d: "length (dsp env tbuf) = 2 * (output_sample_ratio ses1 * L)" "\<forall>s\<in>set (dsp env tbuf). int32 s"
    using assms(2,3,7) am(2) by (simp_all add: steady_def)
  have c: "c \<in> {- 1, 0, 1}" using am(1) by (simp add: correction_ok_def)
  have r1: "100 \<le> output_sample_ratio ses1 * L" "L \<le> max_frames_per_packet (ses_conn ses1)"
    using assms(4,5) am(2,4) by (simp_all add: steady_def)
  obtain ses2 where p: "play_frame cfg env (dsp env tbuf) c timestamp ses1 = Some ses2" "steady ses1 ses2"
    "frames_played (ses_events ses2) = frames_played (ses_events ses1) + int (output_sample_ratio ses1 * L) + c"
    using play_frame_total [OF steady_ready [OF assms(1) am(2)] d r1 c] by blast
  let ?ses3 = "send_progress cfg env False timestamp ses2"
  have "play_synced cfg env tbuf timestamp delay ses = Some (e, ?ses3)"
    using seen count a p(1) by (simp add: play_synced_def adjust_first_def assms(8) [symmetric])
  moreover have "steady ses ?ses3" using steady_trans [OF steady_trans [OF am(2) p(2)] send_progress_steady(1)] .
  moreover have "frames_played (ses_events ?ses3) = frames_played (ses_events ses) + int (output_sample_ratio ses * L) + c"
    using p(3) am(2,3) by (simp add: send_progress_steady(2) steady_def)
  ultimately show ?thesis using am(1) by blast
qed

text \<open>Up to where the error is measured nothing changes that matters for it.\<close>

definition prepared :: "session \<Rightarrow> session \<Rightarrow> bool" where
  "prepared ses ses' \<longleftrightarrow> steady ses ses' \<and> ses_events ses' = ses_events ses \<and>
     max_frames_per_packet (ses_conn ses') = max_frames_per_packet (ses_conn ses) \<and>
     first_packet_time_to_play (ses_conn ses') = first_packet_time_to_play (ses_conn ses)"

lemma measure_delay_known:
  assumes "has_delay cfg" and "0 \<le> queue w"
  shows "\<exists>ses'. measure_delay cfg (env_of w r) (reset_extremes (note_occupancy (ses\<lparr>ses_conn := check_sequence s (ses_conn ses)\<rparr>))) =
     (Some (of_int (queue w)), ses') \<and> prepared ses ses'"
  using assms
  by (auto simp: measure_delay_def env_of_def reset_extremes_def note_occupancy_def check_sequence_def prepared_def steady_def Let_def)

lemma packet_total:
  assumes "session_ready cfg ses" and "round_ready (input_bit_depth ses) L t r" and "100 \<le> output_sample_ratio ses * L" and "0 \<le> queue w"
    and "in_bounds cfg (lateness (output_sample_ratio ses) w t)"
    and "audio_buffer (ses_conn ses) ! slot_of r = audio_buffer (arrived r) ! slot_of r"
    and "max_frames_per_packet (ses_conn ses) = max_frames_per_packet (arrived r)"
    and "first_packet_time_to_play (ses_conn ses) = first_packet_time_to_play (arrived r)"
  shows "\<exists>ses' c. play_packet cfg (env_of w r) (slot_of r) ses = Some ses' \<and> steady ses ses' \<and>
     correction_ok cfg (lateness (output_sample_ratio ses) w t) c \<and>
     frames_played (ses_events ses') = frames_played (ses_events ses) + int (output_sample_ratio ses * L) + c"
proof -
  let ?a = "audio_buffer (arrived r) ! slot_of r" and ?env = "env_of w r" and ?e = "lateness (output_sample_ratio ses) w t"
  obtain depth where d: "output_bit_depth (session_output_format cfg) = Some depth" using assms(1) by (auto simp: session_ready_def)
  define ses1 where "ses1 = ses\<lparr>enable_dither := (software_volume cfg \<or> depth < input_bit_depth ses \<or> session_playback_mode cfg = ST_mono)\<rparr>"
  have s1: "steady ses ses1" "ses_events ses1 = ses_events ses" "ses_conn ses1 = ses_conn ses" by (simp_all add: ses1_def steady_def)
  have ready1: "session_ready cfg ses1" by (rule steady_ready [OF assms(1) s1(1)])
  have a: "given_timestamp ?a = of_int t" "frame_length ?a = int L" "length (frame_data ?a) = input_bit_depth ses1 div 4 * L"
    "L \<le> max_frames_per_packet (ses_conn ses1)"
    using assms(2,7) s1 by (simp_all add: round_ready_def Let_def steady_def)
  obtain tbuf where t: "transition_frames cfg ses1 (frame_data ?a) L = Some tbuf" "length tbuf = 2 * (output_sample_ratio ses1 * L)"
    "\<forall>s\<in>set tbuf. int32 s"
    using transition_total [OF ready1 a(3,4)] by blast
  obtain ses2 where m: "measure_delay cfg ?env (reset_extremes (note_occupancy (ses1\<lparr>ses_conn := check_sequence (sequence_number ?a) (ses_conn ses1)\<rparr>))) =
      (Some (of_int (queue w)), ses2)" "prepared ses1 ses2"
    using measure_delay_known [OF _ assms(4), where cfg = cfg and r = r and ses = ses1 and s = "sequence_number ?a"] assms(1) by (auto simp: session_ready_def)
  have s2: "steady ses1 ses2" "ses_events ses2 = ses_events ses1" using m(2) by (simp_all add: prepared_def)
  have ratio: "output_sample_ratio ses2 = output_sample_ratio ses" "output_sample_ratio ses1 = output_sample_ratio ses"
    using s1(1) s2(1) by (simp_all add: steady_def)
  have b: "\<bar>?e\<bar> < 2 ^ 31" using assms(5) by (simp add: in_bounds_def)
  have "(2 :: int) ^ 31 \<le> 2 ^ output_rtptime_sign_bit (output_sample_ratio ses)"
    using assms(1) by (auto simp: session_ready_def ratio_ok_def output_rtptime_sign_bit_def)
  then have e: "?e = sint (sync_error_of (output_sample_ratio ses2) (frame_due ?env) (of_int t) (of_int (queue w)))"
    using sync_error_value [of "output_sample_ratio ses" "due w" t "queue w"] assms(1) b
    by (simp add: lateness_def env_of_def ratio session_ready_def)
  have soon: "\<not> too_soon_to_stuff ?env (ses_conn ses2)"
    using assms(2,8) m(2) s1(3)
    by (auto simp: round_ready_def too_soon_to_stuff_def env_of_def prepared_def Let_def not_less)
  have dspok: "\<forall>ss. (\<forall>s\<in>set ss. int32 s) \<longrightarrow> length (dsp ?env ss) = length ss \<and> (\<forall>s\<in>set (dsp ?env ss). int32 s)"
    using assms(2) by (simp add: round_ready_def env_of_def Let_def)
  have t2: "length tbuf = 2 * (output_sample_ratio ses2 * L)" "100 \<le> output_sample_ratio ses2 * L" "L \<le> max_frames_per_packet (ses_conn ses2)"
    using t(2) assms(3) a(4) m(2) ratio by (simp_all add: prepared_def)
  obtain ses3 c where p: "play_synced cfg ?env tbuf (of_int t) (of_int (queue w)) ses2 = Some (?e, ses3)" "steady ses2 ses3"
    "correction_ok cfg ?e c" "frames_played (ses_events ses3) = frames_played (ses_events ses2) + int (output_sample_ratio ses2 * L) + c"
    using synced_frame [OF steady_ready [OF ready1 s2(1)] t2(1) t(3) t2(2,3) soon dspok e assms(5)] by blast
  define ses4 where "ses4 = ses3\<lparr>ses_conn := finish_frame (slot_of r) (ses_conn ses3)\<rparr>"
  define ses5 where "ses5 = (if session_has_watchdog cfg then ses4\<lparr>watchdog_bark_time := time_at_end ?env\<rparr> else ses4)"
  have "play_packet cfg ?env (slot_of r) ses = Some (note_statistics cfg ?e ses5)"
    unfolding play_packet_def assms(6) Let_def d a(1,2) nat_int bind.bind_lunit ses1_def [symmetric] t(1) m(1) prod.case option.case p(1)
    by (simp add: ses4_def ses5_def)
  moreover have "steady ses3 (note_statistics cfg ?e ses5)" "ses_events (note_statistics cfg ?e ses5) = ses_events ses3"
    by (simp_all add: steady_def note_statistics_def ses4_def ses5_def)
  ultimately show ?thesis
    using steady_trans [OF steady_trans [OF steady_trans [OF s1(1) s2(1)] p(2)]] p(3,4) s1(2) s2(2) ratio by metis
qed

lemma turn_total:
  assumes "session_ready cfg ses" and "round_ready (input_bit_depth ses) L t r" and "100 \<le> output_sample_ratio ses * L" and "0 \<le> queue w"
    and "in_bounds cfg (lateness (output_sample_ratio ses) w t)"
  shows "\<exists>ses' c. player_turn cfg (env_of w r) (slot_of r) (ses\<lparr>ses_conn := arrived r\<rparr>) = Some ses' \<and> steady ses ses' \<and>
     correction_ok cfg (lateness (output_sample_ratio ses) w t) c \<and>
     frames_played (ses_events ses') = frames_played (ses_events ses) + int (output_sample_ratio ses * L) + c"
proof -
  define ses1 where "ses1 = (if play_number ses = 0 then ses\<lparr>ses_conn := arrived r, playstart := time_at_start (env_of w r)\<rparr> else ses\<lparr>ses_conn := arrived r\<rparr>)"
  define ses2 where "ses2 = ses1\<lparr>play_number := play_number ses1 + 1,
      ses_conn := (ses_conn ses1)\<lparr>play_number_after_flush := play_number_after_flush (ses_conn ses1) + 1\<rparr>\<rparr>"
  have s: "steady ses ses2" "ses_events ses2 = ses_events ses" "audio_buffer (ses_conn ses2) = audio_buffer (arrived r)"
    "max_frames_per_packet (ses_conn ses2) = max_frames_per_packet (arrived r)"
    "first_packet_time_to_play (ses_conn ses2) = first_packet_time_to_play (arrived r)"
    "play_number_after_flush (ses_conn ses2) = play_number_after_flush (arrived r) + 1"
    by (simp_all add: ses2_def ses1_def steady_def)
  have eq: "output_sample_ratio ses2 = output_sample_ratio ses" "input_bit_depth ses2 = input_bit_depth ses"
    using s(1) by (simp_all add: steady_def)
  obtain ses3 c where p: "play_packet cfg (env_of w r) (slot_of r) ses2 = Some ses3" "steady ses2 ses3"
    "correction_ok cfg (lateness (output_sample_ratio ses) w t) c"
    "frames_played (ses_events ses3) = frames_played (ses_events ses2) + int (output_sample_ratio ses * L) + c"
    using packet_total [OF steady_ready [OF assms(1) s(1)], of L t r w] assms(2-5) s(3-5) unfolding eq by auto
  have "given_timestamp (audio_buffer (arrived r) ! slot_of r) \<noteq> 0" "9 \<le> play_number_after_flush (arrived r)"
    using assms(2) by (simp_all add: round_ready_def Let_def)
  then have "player_turn cfg (env_of w r) (slot_of r) (ses\<lparr>ses_conn := arrived r\<rparr>) = Some ses3"
    using p(1) s(3,6) by (simp add: player_turn_def ses2_def ses1_def Let_def split: if_splits)
  then show ?thesis using steady_trans [OF s(1) p(2)] p(3,4) s(2) by metis
qed

section \<open>The error comes down\<close>

definition drift :: "nat \<Rightarrow> sync_round \<Rightarrow> int" where
  "drift ratio r = int ratio * elapsed r - consumed r"

text \<open>
  In each round the two clocks differ by at most one frame, and the device, which may get one frame less than the packet has,
  does not run dry.
\<close>

fun rounds_ready :: "nat \<Rightarrow> nat \<Rightarrow> nat \<Rightarrow> int \<Rightarrow> int \<Rightarrow> sync_round list \<Rightarrow> bool" where
  "rounds_ready depth ratio L t q [] \<longleftrightarrow> True"
| "rounds_ready depth ratio L t q (r # rs) \<longleftrightarrow> round_ready depth L t r \<and> \<bar>drift ratio r\<bar> \<le> 1 \<and>
     consumed r \<le> q + int (ratio * L) - 1 \<and> rounds_ready depth ratio L (t + int L) (q + int (ratio * L) - 1 - consumed r) rs"

lemma rounds_ready_more: "rounds_ready depth ratio L t q rs \<Longrightarrow> q \<le> q' \<Longrightarrow> rounds_ready depth ratio L t q' rs"
proof (induction rs arbitrary: t q q')
  case (Cons r rs)
  then show ?case using Cons.IH [of "t + int L" "q + int (ratio * L) - 1 - consumed r" "q' + int (ratio * L) - 1 - consumed r"] by auto
qed simp

lemma correction_helps:
  assumes "correction_ok cfg e c" and "\<bar>d\<bar> \<le> 1" and "0 \<le> stuffing_bound cfg"
  shows "\<bar>e + c + d\<bar> \<le> max (stuffing_bound cfg + 1) (\<bar>e\<bar> - (1 - \<bar>d\<bar>))"
  using assms by (auto simp: correction_ok_def sgn_if abs_if max_def split: if_splits)

lemma in_bounds_less: "in_bounds cfg e \<Longrightarrow> \<bar>e'\<bar> \<le> \<bar>e\<bar> \<Longrightarrow> in_bounds cfg e'"
  unfolding in_bounds_def by (meson of_int_le_iff order_le_less_trans order_trans)

lemma round_goes:
  assumes "session_ready cfg ses" and "round_ready (input_bit_depth ses) L t r" and "100 \<le> output_sample_ratio ses * L" and "0 \<le> queue w"
    and "in_bounds cfg (lateness (output_sample_ratio ses) w t)" and "\<bar>drift (output_sample_ratio ses) r\<bar> \<le> 1"
  shows "\<exists>w' ses'. round_step cfg r (w, ses) = Some (w', ses') \<and> steady ses ses' \<and>
     queue w + int (output_sample_ratio ses * L) - 1 - consumed r \<le> queue w' \<and>
     \<bar>lateness (output_sample_ratio ses) w' (t + int L)\<bar> \<le>
       max (stuffing_bound cfg + 1) (\<bar>lateness (output_sample_ratio ses) w t\<bar> - (1 - \<bar>drift (output_sample_ratio ses) r\<bar>))"
proof -
  let ?n = "output_sample_ratio ses" and ?e = "lateness (output_sample_ratio ses) w t"
  obtain ses' c where p: "player_turn cfg (env_of w r) (slot_of r) (ses\<lparr>ses_conn := arrived r\<rparr>) = Some ses'" "steady ses ses'"
    "correction_ok cfg ?e c" "frames_played (ses_events ses') = frames_played (ses_events ses) + int (?n * L) + c"
    using turn_total [OF assms(1-5)] by blast
  let ?w = "\<lparr>due = due w + elapsed r, queue = queue w + (int (?n * L) + c) - consumed r\<rparr>"
  have s: "round_step cfg r (w, ses) = Some (?w, ses')" using p(1,4) by (simp add: round_step_def)
  have "lateness ?n ?w (t + int L) = ?e + c + drift ?n r" by (simp add: lateness_def drift_def algebra_simps)
  moreover have "0 \<le> stuffing_bound cfg" using assms(1) by (simp add: stuffing_bound_def stuff_limit_def session_ready_def)
  ultimately have "\<bar>lateness ?n ?w (t + int L)\<bar> \<le> max (stuffing_bound cfg + 1) (\<bar>?e\<bar> - (1 - \<bar>drift ?n r\<bar>))"
    using correction_helps [OF p(3) assms(6)] by simp
  moreover have "- 1 \<le> c" using p(3) by (auto simp: correction_ok_def)
  ultimately show ?thesis using s p(2) by (intro exI [of _ ?w] exI [of _ ses']) simp
qed

lemma rounds_go:
  "session_ready cfg ses \<Longrightarrow> rounds_ready (input_bit_depth ses) (output_sample_ratio ses) L t (queue w) rs \<Longrightarrow>
   100 \<le> output_sample_ratio ses * L \<Longrightarrow> 0 \<le> queue w \<Longrightarrow>
   in_bounds cfg (max (stuffing_bound cfg + 1) \<bar>lateness (output_sample_ratio ses) w t\<bar>) \<Longrightarrow>
   \<exists>w' ses'. sync_run cfg rs (w, ses) = Some (w', ses') \<and>
     \<bar>lateness (output_sample_ratio ses) w' (t + int (length rs * L))\<bar> \<le>
       max (stuffing_bound cfg + 1) (\<bar>lateness (output_sample_ratio ses) w t\<bar> - sum_list (map (\<lambda>r. 1 - \<bar>drift (output_sample_ratio ses) r\<bar>) rs))"
proof (induction rs arbitrary: t w ses)
  case (Cons r rs)
  let ?n = "output_sample_ratio ses" and ?e = "lateness (output_sample_ratio ses) w t" and ?B = "stuffing_bound cfg + 1"
  have r: "round_ready (input_bit_depth ses) L t r" "\<bar>drift ?n r\<bar> \<le> 1" "consumed r \<le> queue w + int (?n * L) - 1"
    "rounds_ready (input_bit_depth ses) ?n L (t + int L) (queue w + int (?n * L) - 1 - consumed r) rs"
    using Cons.prems(2) by simp_all
  have b: "in_bounds cfg ?e" by (rule in_bounds_less [OF Cons.prems(5)]) simp
  obtain w1 ses1 where s: "round_step cfg r (w, ses) = Some (w1, ses1)" "steady ses ses1"
    "queue w + int (?n * L) - 1 - consumed r \<le> queue w1"
    "\<bar>lateness ?n w1 (t + int L)\<bar> \<le> max ?B (\<bar>?e\<bar> - (1 - \<bar>drift ?n r\<bar>))"
    using round_goes [OF Cons.prems(1) r(1) Cons.prems(3,4) b r(2)] by blast
  have eq: "output_sample_ratio ses1 = ?n" "input_bit_depth ses1 = input_bit_depth ses" using s(2) by (simp_all add: steady_def)
  have "0 \<le> ?B" using Cons.prems(1) by (simp add: stuffing_bound_def stuff_limit_def session_ready_def)
  then have "in_bounds cfg (max ?B \<bar>lateness ?n w1 (t + int L)\<bar>)"
    using s(4) r(2) by (intro in_bounds_less [OF Cons.prems(5)]) auto
  then obtain w' ses' where run: "sync_run cfg rs (w1, ses1) = Some (w', ses')"
    "\<bar>lateness ?n w' (t + int L + int (length rs * L))\<bar> \<le>
       max ?B (\<bar>lateness ?n w1 (t + int L)\<bar> - sum_list (map (\<lambda>r. 1 - \<bar>drift ?n r\<bar>) rs))"
    using Cons.IH [OF steady_ready [OF Cons.prems(1) s(2)], of "t + int L" w1] rounds_ready_more [OF r(4) s(3)] Cons.prems(3) r(3) s(3)
    unfolding eq by auto
  have pos: "0 \<le> sum_list (map (\<lambda>r. 1 - \<bar>drift ?n r\<bar>) rs)"
  proof (rule sum_list_nonneg)
    have "rounds_ready d k m u q xs \<Longrightarrow> \<forall>x\<in>set xs. \<bar>drift k x\<bar> \<le> 1" for d k m u q xs
      by (induction xs arbitrary: u q) auto
    from this [OF r(4)] show "\<And>x. x \<in> set (map (\<lambda>r. 1 - \<bar>drift ?n r\<bar>) rs) \<Longrightarrow> 0 \<le> x" by auto
  qed
  have "t + int L + int (length rs * L) = t + int (length (r # rs) * L)" by simp
  then have "\<bar>lateness ?n w' (t + int (length (r # rs) * L))\<bar> \<le>
      max ?B (max ?B (\<bar>?e\<bar> - (1 - \<bar>drift ?n r\<bar>)) - sum_list (map (\<lambda>r. 1 - \<bar>drift ?n r\<bar>) rs))"
    using run(2) s(4) by (smt (verit, best))
  also have "\<dots> \<le> max ?B (\<bar>?e\<bar> - sum_list (map (\<lambda>r. 1 - \<bar>drift ?n r\<bar>) (r # rs)))"
    using pos by auto
  finally show ?case using s(1) run(1) by (intro exI [of _ w'] exI [of _ ses']) simp
qed simp


section \<open>A concrete session\<close>

text \<open>CD quality, a tolerance of 2 ms, 300 frames late at first; the device tells a queue of 4,000 frames.\<close>

definition sample_cfg :: session_config where
  "sample_cfg = \<lparr>session_output_rate = 44100, session_output_format = SPS_FORMAT_S16_LE, session_playback_mode = ST_stereo,
     no_sync = False, resync_threshold = 1 / 20, resync_recovery_time = 1 / 10, tolerance = 1 / 500, no_device_volume = True,
     software_volume = True, session_loudness = False, has_delay = True, metadata_progress_interval = 0, session_has_watchdog = False\<rparr>"

definition sample_session :: session where
  "sample_session = \<lparr>ses_conn = sample_conn 0, output_sample_ratio = 1, input_bit_depth = 16, enable_dither = True,
     ses_dither = sample_dither, fix_volume = 65536, software_mute_enabled = False, amountStuffed = 0, session_corrections = 0,
     buffer_occupancy = 0, play_number = 100, playstart = 0, at_least_one_frame_seen_this_session = True, sync_error_out_of_bounds = 0,
     minimum_dac_queue_size = 0, minimum_buffer_occupancy = 0, maximum_buffer_occupancy = 0, unfixable_error_reported = False,
     time_of_last_metadata_progress_update = 0, watchdog_bark_time = 0, ses_stats = no_stats, ses_events = []\<rparr>"

definition sample_round :: "int \<Rightarrow> sync_round" where
  "sample_round t = \<lparr>arrived = (sample_conn 0)\<lparr>audio_buffer := [(empty_slot 352)\<lparr>frame_data := replicate 1408 0, frame_length := 352,
       given_timestamp := of_int t\<rparr>], max_frames_per_packet := 352, play_number_after_flush := 9\<rparr>,
     slot_of = 0, elapsed = 352, consumed = 352, round_time = 0, round_due = 0, round_rand = 5, round_dsp = id\<rparr>"


text \<open>
  The comment at the threshold says that it goes from 0 to the tolerance; no correction is made up to the tolerance
  (\<open>threshold_range\<close>). And with loudness the volume is left to the filter, which is not run when the delay is not known.
\<close>

lemma loudness_ignores_volume: "process_sample True s format v dither ds = process_sample True s format v' dither ds"
  by (simp add: process_sample_def apply_volume_def)

lemma unsynced_volume_ignored:
  assumes "session_loudness cfg" and "\<not> software_mute_enabled ses"
  shows "map_option (\<lambda>(e, s). ses_events s) (play_unsynced cfg env tbuf timestamp (ses\<lparr>fix_volume := v\<rparr>)) =
     map_option (\<lambda>(e, s). ses_events s) (play_unsynced cfg env tbuf timestamp ses)"
proof -
  have p: "process_samples \<lparr>ss_loudness = True, ss_format = f, ss_volume = v, ss_dither = d\<rparr> ss ds =
      process_samples \<lparr>ss_loudness = True, ss_format = f, ss_volume = v', ss_dither = d\<rparr> ss ds" for f v v' d ss ds
    by (induction ss arbitrary: ds) (simp_all add: loudness_ignores_volume [of _ _ v _ _ v'] split: option.splits)
  have b: "stuff_buffer_basic_32 \<lparr>ss_loudness = True, ss_format = f, ss_volume = v, ss_dither = d\<rparr> rnd ss n k ds =
      stuff_buffer_basic_32 \<lparr>ss_loudness = True, ss_format = f, ss_volume = v', ss_dither = d\<rparr> rnd ss n k ds" for f v v' d rnd ss n k ds
    unfolding stuff_buffer_basic_32_def p [where v = v and v' = v'] ..
  show ?thesis
    using assms
    by (simp add: play_unsynced_def play_frame_def Let_def b [where v = v and v' = "fix_volume ses"] emit_def send_progress_def
        transition_room_def split: Option.bind_splits option.splits prod.splits)
qed

end
