(* ===== verification/Spec2Isabelle.thy ===== *)
theory Spec2Isabelle
  imports
    Pair_Tlv Pair_Opening
    Alac_Bits Alac_Frames Alac_Predictor
    Player_Arrivals Player_Resend Player_Flush Player_Samples
    Metadata_Queue Metadata_Messages Metadata_Decoding Metadata_Items
    Rtsp_Requests Rtsp_Responses Rtsp_Announce
    Buffered_Tcp Buffered_Flushes Rtp_Timeline Rtp_Offsets Rtp_Delivery
    Player_Volume Activity_Monitor Mdns_Answers Mdns_Parsing
    Dacp_Volume Dacp_Scans Metadata_Watchers
    Player_Convergence
begin

text \<open>
  Shairport Sync is an AirPlay audio receiver. A client opens an RTSP connection, announces a stream,
  and sends audio as datagrams (AirPlay 1, AirPlay 2 realtime) or over a TCP connection (AirPlay 2
  buffered); the receiver decodes it, keeps it in a ring of packets, and plays every frame at the
  time the client wants it played. This library models that path, and the metadata that travels
  beside it, from the C sources under \<open>src/src\<close>.

  The parts and their theories, in the order in which data passes through them:

  \<^item> Requests. \<open>Rtsp_Message\<close> (the header store, \<open>nextline\<close>, \<open>msg_handle_line\<close>, \<open>msg_write_response\<close> of
    \<open>rtsp.c\<close>), \<open>Rtsp_Reader\<close> (\<open>rtsp_read_request\<close>, which puts a request together from the pieces the
    connection delivers), \<open>Play_Lock\<close> (\<open>get_play_lock\<close>: which connection owns the player),
    \<open>Rtsp_Announce\<close> (\<open>handle_announce\<close>: the session description sets the stream). \<open>Rtsp_Requests\<close> and
    \<open>Rtsp_Responses\<close> hold what is proved of the reader and the writer.
  \<^item> Pairing (\<open>pair_ap\<close>). \<open>Pair_Tlv\<close>: the type-length-value codec of \<open>pair-tlv.c\<close>. \<open>Pair_Crypto\<close>: what is used of the
    cryptographic libraries, as a record of functions, and the keys and nonces of \<open>pair_homekit.c\<close>. \<open>Pair_Srp\<close> and
    \<open>Pair_Setup\<close>: SRP-6a and the six messages of pair-setup; \<open>Pair_Verify\<close>: the four of pair-verify, both for
    client and server. \<open>Pair_Cipher\<close>, \<open>Pair_Channel\<close>: the encrypted channel and how \<open>rtsp.c\<close> reads and writes
    through it. \<open>Pair_Handlers\<close>: the handlers of \<open>rtsp.c\<close> for pairing requests.
  \<^item> Datagrams. \<open>Rtp_Clock\<close> (\<open>rtp.c\<close>, \<open>ptp-utilities.c\<close>: the anchor, the clocks of the two protocols, frames
    to times and back), \<open>Rtp_Timing\<close> (the timing exchange and the choice of the best ping), \<open>Rtp_Packets\<close>
    (the audio and control receivers, resend requests), \<open>Buffered_Tcp\<close> (the reader thread of the
    buffered connection and \<open>buffered_read\<close>).
  \<^item> Buffered audio of AirPlay 2. \<open>Buffered_Blocks\<close> (\<open>rtp.c\<close>: a block is read, deciphered and decoded) and
    \<open>Buffered_Audio\<close> (a turn of \<open>rtp_buffered_audio_processor\<close>, and the requests of \<open>rtsp.c\<close> that start, stop and
    flush it). Libsodium and FFmpeg are a record of functions; what a read finds is the pieces in the ring.
  \<^item> Decoding. \<open>Alac\<close>: the decoder of \<open>alac.c\<close>, bit by bit.
  \<^item> The player. \<open>Player_State\<close> (the ring and the counters of a connection), \<open>Player_Input\<close>
    (\<open>player_put_packet\<close>), \<open>Player_Output\<close> (\<open>buffer_get_frame\<close>), \<open>Player_Samples\<close> (volume, dither, packing,
    silence and stuffing), \<open>Player_Volume\<close> (from the volume a client asks for to the mixer of the device and
    the factor for the samples) of \<open>player.c\<close> and \<open>common.c\<close>. \<open>Player_Session\<close>: the player thread, which measures the
    error of the synchronisation for each frame and stuffs and plays it. \<open>Activity_Monitor\<close>: the hooks around playing.
  \<^item> Metadata. \<open>Metadata_Queue\<close> (the producer-consumer queue of \<open>rtsp.c\<close>), \<open>Metadata_Messages\<close> (reference counts
    of messages that several threads use), \<open>Metadata_Items\<close> (tagged metadata of a request),
    \<open>Metadata_Output\<close> (base64 items in the pipe, multicast datagrams).
  \<^item> Being found. The multicast DNS responder of \<open>tinysvcmdns.c\<close>: \<open>Mdns_Names\<close>, \<open>Mdns_Compression\<close> (names and
    their compression), \<open>Mdns_Records\<close>, \<open>Mdns_Packets\<close> (records and packets), \<open>Mdns_Responder\<close> (registering
    services, choosing answers, a turn of the main loop).

  \<^item> Remote control. \<open>Http_Parser\<close>: the parser of \<open>tinyhttp\<close>. \<open>Dacp_Client\<close>: the commands of \<open>dacp.c\<close>, their replies, and the
    reading and setting of the volume; \<open>Dacp_Monitor\<close>: the thread that asks the client for volume and play status.
    \<open>Metadata_Hub\<close> (\<open>metadata_hub.c\<close>): what is known of client and track, and who is told when it changes.

  Conventions. A record has the fields of the C structure, an enumeration is a datatype, an integer
  whose width matters is a word, and an \<open>int\<close> that stays in range is an integer. \<open>Prelude\<close> has
  the machine types and byte blocks: an access outside a block is \<open>None\<close>, and so is every other undefined
  behaviour. A loop is structural recursion, recursion with a measure, or a \<open>partial_function\<close> whose
  value is \<open>None\<close> if it never ends; no fuel is used. Threads are step relations over the shared state in which
  the stretch under a lock, or between two uses of a lock, is one step; \<open>Fifo\<close> has their runs. Time, random
  numbers, sockets and what other threads do are arguments. Macros and \<open>config\<close> options are arguments or
  constants of the same name. Messages that are only printed are left out.

  The groups of lemmas, and the properties they carry:

  \<^item> Codecs (locale \<open>codec\<close>, interpreted by the TLV codec and by base64): formatting and parsing are inverse. \<open>Alac_Bits\<close>: the
    bit reader reads the stream; \<open>Alac_Predictor\<close>: the adaptive predictor inverts a reference
    encoder; \<open>Alac_Frames\<close>: an uncompressed frame decodes to its samples, and what a damaged frame can do.
  \<^item> The ring of packets. \<open>Player_Ring\<close> relates the ring to the queue of packets waiting to be played;
    \<open>Player_Frames\<close>, \<open>Player_Arrivals\<close>, \<open>Player_Resend\<close> and \<open>Player_Flush\<close> show that arrivals, output, resend requests and
    flushes are the operations of that queue, and where they are not.
  \<^item> \<open>Player_Sync\<close>: the sync error is the true one, the threshold of a correction, the running sums;
    \<open>Player_Convergence\<close> closes the loop of player thread, device and clocks.
  \<^item> Channels (locale \<open>fifo\<close>, interpreted by the metadata queue and by the buffered connection): what was
    put in is what was taken out followed by what is inside, over every interleaving.
  \<^item> Time (locale \<open>timeline\<close>, interpreted by both clocks): conversions there and back lose at most one frame;
    \<open>Rtp_Offsets\<close>: the measured difference of the clocks is within half the network's delay.
  \<^item> \<open>Rtp_Delivery\<close> composes the parts: a datagram becomes the slot that will be played, and no sequence of control
    packets makes the latency longer than the ring.
  \<^item> \<open>Buffered_Runs\<close>, \<open>Buffered_Stream\<close>, \<open>Buffered_Delivery\<close>: on a stream of consecutive blocks that the decoder renders,
    what the player gets under a timestamp are the frames of that time; \<open>Buffered_Flushes\<close>: what a flush keeps
    back, and what oversized blocks, delayed flushes and broken connections do.
  \<^item> Pairing. \<open>Pair_Handshake\<close> and \<open>Pair_Setup_Runs\<close>: ends that keep to the protocol complete it with the same
    secret; \<open>Pair_Handlers\<close>: what a connection does with messages, also those out of order; \<open>Pair_Opening\<close>
    composes pair-setup, its handler and the encrypted channel. \<open>toy_crypto\<close> stands in for the libraries in concrete runs.
  \<^item> \<open>Mdns_Answers\<close>: which records answer a query, and that a registered service is found; \<open>Mdns_Packets\<close>,
    \<open>Mdns_Parsing\<close>: replies and queries against the rules of DNS.
  \<^item> \<open>Metadata_Decoding\<close>: a reader of the pipe and of the datagrams gets back what was sent.

  \<^item> \<open>Http_Runs\<close>: the parser byte by byte, and so in any pieces; \<open>Http_Responses\<close> (locale \<open>reallocator\<close>, interpreted by
    the memory of \<open>dacp.c\<close> in \<open>Dacp_Replies\<close>): well-formed responses are read. \<open>Dacp_Volume\<close>: from the items of the
    replies to the volume and back; \<open>Dacp_Scans\<close>: what the monitor tells of a client; \<open>Metadata_Watchers\<close>: what
    a watcher of the hub can rely on.

  Bounds. The ring has 1,024 slots and sequence numbers are 16-bit; lemmas on the window require it to
  hold at most 1,024 packets, as the code's \<open>BUFIDX\<close> does. A slot holds \<open>8 * max_frames_per_packet\<close> bytes. The
  history of pings has 128 entries, the metadata queues 500.

  Doubles (the gradient of the clocks, the latency offset of the back end) are rational numbers; the
  rounding of floating-point arithmetic is not modelled.

  Not modelled, and why:

  \<^item> Cryptography and decoders that are libraries: AES, RSA, libsodium, OpenSSL, Apple's ALAC library and FFmpeg
    are arguments where the modelled code calls them. The realtime and control threads of AirPlay 2 in \<open>rtp.c\<close>
    and the older Fruit pairing, for clients only, are left out.
  \<^item> Output devices (\<open>audio_*.c\<close>), service discovery (\<open>mdns_*.c\<close>), D-Bus, MPRIS and MQTT: calls of
    libraries.
  \<^item> Start, options and configuration (\<open>shairport.c\<close>): calls of popt and libconfig.
  \<^item> The convolver and the loudness filter: floating-point signal processing, the former vendored C++.
  \<^item> The threads' creation and cancellation, the measuring of frame rates and the statistics that are printed.
  \<^item> Handlers of property lists in \<open>rtsp.c\<close>: they rest on libplist.
\<close>

end
